(* ===== verification/Prelude.thy ===== *)
theory Prelude
  imports Main "HOL-Library.Word"
begin

unbundle bit_operations_syntax

text \<open>
  Shared vocabulary of the development.  An unsigned 64-bit C value (\<open>uint64_t\<close>,
  \<open>size_t\<close>, \<open>uintptr_t\<close>) whose bits are only used arithmetically is a \<^typ>\<open>nat\<close>
  below \<open>2 ^ 64\<close>, and the C operators are the wrapping functions \<open>add64\<close>,
  \<open>sub64\<close>, \<open>mul64\<close> and \<open>not64\<close>.  Bit-packed values (handles, page-table
  entries, bitmaps, fingerprints) are fixed-width words.  Search loops of the form
  ``the first index that satisfies a test'' are \<open>find_from\<close>, and loops that only
  update state are folds over \<open>[a..<b]\<close>.  The collection \<open>c_arith\<close> holds the
  facts that turn a wrapping operator into ordinary arithmetic once no overflow is
  possible.
\<close>

named_theorems c_arith \<open>wrapping operators without overflow\<close>
named_theorems status_defs \<open>definitions unfolded when an operation is executed\<close>

section \<open>Unsigned 64-bit arithmetic\<close>

type_synonym u64 = nat

definition add64 :: "u64 \<Rightarrow> u64 \<Rightarrow> u64" where
  "add64 a b = (a + b) mod 2 ^ 64"

definition sub64 :: "u64 \<Rightarrow> u64 \<Rightarrow> u64" where
  "sub64 a b = (a + (2 ^ 64 - b mod 2 ^ 64)) mod 2 ^ 64"

definition mul64 :: "u64 \<Rightarrow> u64 \<Rightarrow> u64" where
  "mul64 a b = (a * b) mod 2 ^ 64"

definition not64 :: "u64 \<Rightarrow> u64" where
  "not64 a = (2 ^ 64 - 1) XOR a"

abbreviation UINT64_MAX :: u64 where
  "UINT64_MAX \<equiv> 2 ^ 64 - 1"

lemma add64_id [c_arith]: "a + b < 2 ^ 64 \<Longrightarrow> add64 a b = a + b"
  by (simp add: add64_def)

lemma sub64_id [c_arith]:
  assumes "b \<le> a" and "a < 2 ^ 64"
  shows "sub64 a b = a - b"
proof -
  have "a + (2 ^ 64 - b mod 2 ^ 64) = (a - b) + 2 ^ 64"
    using assms by simp
  then have "sub64 a b = ((a - b) + 2 ^ 64) mod 2 ^ 64"
    by (simp only: sub64_def)
  also have "\<dots> = (a - b) mod 2 ^ 64"
    by (rule mod_add_self2)
  also have "\<dots> = a - b"
    using assms by simp
  finally show ?thesis .
qed

lemma mul64_id [c_arith]: "a * b < 2 ^ 64 \<Longrightarrow> mul64 a b = a * b"
  by (simp add: mul64_def)

lemma add64_less [simp]: "add64 a b < 2 ^ 64"
  by (simp add: add64_def)

lemma sub64_less [simp]: "sub64 a b < 2 ^ 64"
  by (simp add: sub64_def)

lemma mul64_less [simp]: "mul64 a b < 2 ^ 64"
  by (simp add: mul64_def)

lemma add64_sub64_cancel: "b \<le> a \<Longrightarrow> a < 2 ^ 64 \<Longrightarrow> add64 (sub64 a b) b = a"
  by (simp add: c_arith)

section \<open>Masks and powers of two\<close>

lemma and_low_mask: "(x::nat) AND (2 ^ n - 1) = x mod 2 ^ n"
  by (metis mask_eq_exp_minus_1 take_bit_eq_mask take_bit_eq_mod)

lemma and_4095 [simp]: "(x::nat) AND 4095 = x mod 4096"
  using and_low_mask [of x 12] by simp

lemma bit_not64_mask:
  "bit (not64 (2 ^ n - 1)) i \<longleftrightarrow> (i < 64) \<noteq> (i < n)"
proof -
  have "not64 (2 ^ n - 1) = mask 64 XOR mask n"
    by (simp only: not64_def mask_eq_exp_minus_1)
  then show ?thesis
    by (simp add: bit_xor_iff bit_mask_iff)
qed

lemma and_not64_mask:
  fixes x :: nat
  assumes "x < 2 ^ 64" and "n \<le> 64"
  shows "x AND not64 (2 ^ n - 1) = x - x mod 2 ^ n"
proof -
  have "x AND not64 (2 ^ n - 1) = push_bit n (drop_bit n x)"
  proof (rule bit_eqI)
    fix i
    have high: "i < 64" if "bit x i"
    proof (rule ccontr)
      assume "\<not> i < 64"
      then have "x < 2 ^ i"
        using assms(1) by (meson less_le_trans not_less one_le_numeral power_increasing)
      with that show False
        by (simp add: bit_iff_odd)
    qed
    show "bit (x AND not64 (2 ^ n - 1)) i \<longleftrightarrow> bit (push_bit n (drop_bit n x)) i"
      using assms(2) high
      unfolding bit_and_iff bit_not64_mask bit_push_bit_iff
      by (auto simp: bit_drop_bit_eq not_le)
  qed
  also have "\<dots> = x - x mod 2 ^ n"
    by (simp add: push_bit_eq_mult drop_bit_eq_div minus_mod_eq_div_mult)
  finally show ?thesis .
qed

lemma and_pred_zero_power:
  "(a::nat) \<noteq> 0 \<Longrightarrow> a AND (a - 1) = 0 \<Longrightarrow> \<exists>n. a = 2 ^ n"
proof (induction a rule: less_induct)
  case (less a)
  show ?case
  proof (cases "odd a")
    case True
    then obtain k where k: "a = 2 * k + 1"
      by (auto elim: oddE)
    have "(2 * k + 1) AND (2 * k) = 2 * k"
      by (subst and_rec) simp
    with less.prems(2) k have "k = 0" by simp
    with k show ?thesis by (intro exI [of _ 0]) simp
  next
    case False
    then obtain k where k: "a = 2 * k" by (auto elim: evenE)
    with less.prems(1) have k0: "k \<noteq> 0" by simp
    have "(2 * k) AND (2 * k - 1) = 2 * (k AND (k - 1))"
    proof -
      have "(2 * k - 1) div 2 = k - 1" using k0 by simp
      then show ?thesis by (subst and_rec) simp
    qed
    with less.prems(2) k have "k AND (k - 1) = 0" by simp
    with less.IH [of k] k k0 obtain n where "k = 2 ^ n" by auto
    with k show ?thesis by (intro exI [of _ "Suc n"]) simp
  qed
qed

lemma unat_lt_power: "unat (w :: 'a::len word) < 2 ^ LENGTH('a)"
  by (rule unsigned_less)

section \<open>Search loops\<close>

text \<open>
  \<open>for (i = lo; i < hi; ++i) if (P(i)) return i;\<close> as a function: the least index of
  the half-open range that satisfies the test.
\<close>

function find_from :: "(nat \<Rightarrow> bool) \<Rightarrow> nat \<Rightarrow> nat \<Rightarrow> nat option" where
  "find_from P lo hi =
     (if lo < hi then (if P lo then Some lo else find_from P (Suc lo) hi) else None)"
  by pat_completeness auto
termination
  by (relation "measure (\<lambda>(P, lo, hi). hi - lo)") auto

declare find_from.simps [simp del]

lemma find_from_SomeD:
  "find_from P lo hi = Some i \<Longrightarrow>
     lo \<le> i \<and> i < hi \<and> P i \<and> (\<forall>j. lo \<le> j \<and> j < i \<longrightarrow> \<not> P j)"
proof (induction P lo hi rule: find_from.induct)
  case (1 P lo hi)
  show ?case
  proof (cases "lo < hi \<and> \<not> P lo")
    case True
    with "1.prems" have "find_from P (Suc lo) hi = Some i"
      by (simp add: find_from.simps [of P lo hi])
    with "1.IH" True
    have *: "Suc lo \<le> i \<and> i < hi \<and> P i \<and> (\<forall>j. Suc lo \<le> j \<and> j < i \<longrightarrow> \<not> P j)" by blast
    with True show ?thesis by (metis Suc_leD le_antisym not_less_eq_eq)
  next
    case False
    with "1.prems" show ?thesis
      by (auto simp: find_from.simps [of P lo hi] split: if_splits)
  qed
qed

lemma find_from_None_iff:
  "find_from P lo hi = None \<longleftrightarrow> (\<forall>j. lo \<le> j \<and> j < hi \<longrightarrow> \<not> P j)"
proof (induction P lo hi rule: find_from.induct)
  case (1 P lo hi)
  show ?case
  proof (cases "lo < hi \<and> \<not> P lo")
    case True
    with "1.IH" show ?thesis
      by (auto simp: find_from.simps [of P lo hi]) (metis le_antisym not_less_eq_eq)
  next
    case False
    then show ?thesis by (auto simp: find_from.simps [of P lo hi])
  qed
qed

lemma find_from_eqI:
  assumes "lo \<le> i" "i < hi" "P i" "\<And>j. lo \<le> j \<Longrightarrow> j < i \<Longrightarrow> \<not> P j"
  shows "find_from P lo hi = Some i"
proof (cases "find_from P lo hi")
  case None
  with assms show ?thesis by (auto simp: find_from_None_iff)
next
  case (Some k)
  from find_from_SomeD [OF Some] assms show ?thesis
    by (metis Some linorder_neqE_nat)
qed

lemma find_from_exists:
  "lo \<le> i \<Longrightarrow> i < hi \<Longrightarrow> P i \<Longrightarrow> \<exists>k. find_from P lo hi = Some k"
  using find_from_None_iff [of P lo hi] by (cases "find_from P lo hi") auto

lemma find_from_cong:
  assumes "\<And>j. lo \<le> j \<Longrightarrow> j < hi \<Longrightarrow> P j = Q j"
  shows "find_from P lo hi = find_from Q lo hi"
proof (cases "find_from Q lo hi")
  case None
  with assms have "find_from P lo hi = None" by (auto simp: find_from_None_iff)
  with None show ?thesis by simp
next
  case (Some k)
  from find_from_SomeD [OF this] assms show ?thesis
    unfolding Some by (intro find_from_eqI) auto
qed

section \<open>Folds over index ranges\<close>

lemma fold_upt_invariant:
  assumes "I s" and "\<And>i s. a \<le> i \<Longrightarrow> i < b \<Longrightarrow> I s \<Longrightarrow> I (f i s)"
  shows "I (fold f [a..<b] s)"
proof -
  have "I (fold f xs s)" if "set xs \<subseteq> {a..<b}" "I s" for xs s
    using that by (induction xs arbitrary: s) (auto intro: assms(2))
  then show ?thesis using assms(1) by auto
qed

lemma replicate_update_same [simp]: "(replicate n x)[i := x] = replicate n x"
  by (cases "i < n") (auto intro!: nth_equalityI simp: nth_list_update)

lemma fold_update_replicate [simp]:
  "fold (\<lambda>index xs. xs[index := x]) js (replicate n x) = replicate n x"
  by (induction js) simp_all

section \<open>Loops that return early\<close>

text \<open>
  \<open>fold_until\<close> is a loop whose body either returns from the enclosing function
  (\<open>Inl\<close>) or updates the state and goes on (\<open>Inr\<close>); \<open>first_some\<close> is a loop that
  only looks for a reason to return.
\<close>

fun fold_until :: "('a \<Rightarrow> 's \<Rightarrow> 'e + 's) \<Rightarrow> 'a list \<Rightarrow> 's \<Rightarrow> 'e + 's" where
  "fold_until f [] s = Inr s"
| "fold_until f (x # xs) s = (case f x s of Inl e \<Rightarrow> Inl e | Inr s' \<Rightarrow> fold_until f xs s')"

fun first_some :: "('a \<Rightarrow> 'b option) \<Rightarrow> 'a list \<Rightarrow> 'b option" where
  "first_some f [] = None"
| "first_some f (x # xs) = (case f x of None \<Rightarrow> first_some f xs | Some y \<Rightarrow> Some y)"

lemma first_some_None_iff: "first_some f xs = None \<longleftrightarrow> (\<forall>x \<in> set xs. f x = None)"
  by (induction xs) (auto split: option.splits)

lemma first_some_SomeD: "first_some f xs = Some y \<Longrightarrow> \<exists>x \<in> set xs. f x = Some y"
  by (induction xs) (auto split: option.splits)

lemma fold_until_invariant:
  assumes "fold_until f xs s = Inr s'" and "I s"
    and "\<And>x s s'. x \<in> set xs \<Longrightarrow> I s \<Longrightarrow> f x s = Inr s' \<Longrightarrow> I s'"
  shows "I s'"
  using assms
proof (induction xs arbitrary: s)
  case (Cons x xs)
  then obtain s1 where "f x s = Inr s1" "fold_until f xs s1 = Inr s'" by (auto split: sum.splits)
  with Cons.IH [of s1] Cons.prems(2,3) show ?case by (meson list.set_intros)
qed simp

lemma fold_until_stopped:
  assumes "fold_until f xs s = Inl e" and "I s"
    and "\<And>x s s'. x \<in> set xs \<Longrightarrow> I s \<Longrightarrow> f x s = Inr s' \<Longrightarrow> I s'"
    and "\<And>x s e. x \<in> set xs \<Longrightarrow> I s \<Longrightarrow> f x s = Inl e \<Longrightarrow> J e"
  shows "J e"
  using assms
proof (induction xs arbitrary: s)
  case (Cons x xs)
  show ?case
  proof (cases "f x s")
    case (Inl e')
    with Cons.prems(1) have "e' = e" by simp
    with Inl show ?thesis using Cons.prems(2) Cons.prems(4) [of x s e] by simp
  next
    case (Inr s1)
    with Cons.prems(1) have "fold_until f xs s1 = Inl e" by simp
    moreover have "I s1" using Cons.prems(2,3) Inr by (meson list.set_intros(1))
    ultimately show ?thesis using Cons.IH [of s1] Cons.prems(3,4) by (meson list.set_intros(2))
  qed
qed simp

lemma fold_until_prefix:
  assumes "fold_until f xs s = Inl e"
  obtains ys x zs s' where "xs = ys @ x # zs" "fold_until f ys s = Inr s'" "f x s' = Inl e"
proof -
  from assms have "\<exists>ys x zs s'. xs = ys @ x # zs \<and> fold_until f ys s = Inr s' \<and> f x s' = Inl e"
  proof (induction xs arbitrary: s)
    case (Cons x xs)
    show ?case
    proof (cases "f x s")
      case (Inl e')
      with Cons.prems show ?thesis by (intro exI [of _ "[]"]) auto
    next
      case (Inr s1)
      with Cons obtain ys y zs s' where "xs = ys @ y # zs" "fold_until f ys s1 = Inr s'" "f y s' = Inl e" by fastforce
      with Inr show ?thesis by (intro exI [of _ "x # ys"] exI [of _ y] exI [of _ zs] exI [of _ s']) simp
    qed
  qed simp
  then show thesis using that by blast
qed

lemma fold_until_append:
  "fold_until f (xs @ ys) s = (case fold_until f xs s of Inl e \<Rightarrow> Inl e | Inr s' \<Rightarrow> fold_until f ys s')"
  by (induction xs arbitrary: s) (auto split: sum.splits)

lemma fold_until_upt_Suc:
  "fold_until f [0..<Suc n] s = (case fold_until f [0..<n] s of Inl e \<Rightarrow> Inl e | Inr s' \<Rightarrow> f n s')"
  by (auto simp: fold_until_append split: sum.splits)

section \<open>Counting\<close>

definition count_if :: "('a \<Rightarrow> bool) \<Rightarrow> 'a list \<Rightarrow> nat" where
  "count_if P xs = length (filter P xs)"

lemma count_if_simps [simp]:
  "count_if P [] = 0"
  "count_if P (x # xs) = (if P x then 1 else 0) + count_if P xs"
  "count_if P (xs @ ys) = count_if P xs + count_if P ys"
  by (simp_all add: count_if_def)

lemma count_if_le [simp]: "count_if P xs \<le> length xs"
  by (simp add: count_if_def)

lemma count_if_update:
  "i < length xs \<Longrightarrow>
     count_if P (xs[i := y]) + (if P (xs ! i) then 1 else 0)
       = count_if P xs + (if P y then 1 else 0)"
proof (induction xs arbitrary: i)
  case Nil
  then show ?case by simp
next
  case (Cons x xs)
  then show ?case by (cases i) auto
qed

lemma count_if_pos: "i < length xs \<Longrightarrow> P (xs ! i) \<Longrightarrow> 0 < count_if P xs"
  unfolding count_if_def by (metis filter_empty_conv length_greater_0_conv nth_mem)

lemma count_if_less: "i < length xs \<Longrightarrow> \<not> P (xs ! i) \<Longrightarrow> count_if P xs < length xs"
  unfolding count_if_def by (metis length_filter_less nth_mem)

end
