(* ===== verification/Page_Source.thy ===== *)
theory Page_Source
  imports Prelude
begin

text \<open>
  The contract between the frame allocator and the code that consumes frames one at a
  time.  \<open>acquire\<close> hands out the byte address of a frame that was free, or nothing when no
  frame is free; \<open>give\<close> returns a frame that was handed out.  The laws speak of the set
  of free frames and the set of frames owned by callers; everything a consumer proves
  about a sequence of calls is proved here once.
\<close>

text \<open>Loops of a consumer: take up to \<open>n\<close> frames, give a list of addresses back.\<close>

fun take_pages :: "('w \<Rightarrow> u64 option \<times> 'w) \<Rightarrow> nat \<Rightarrow> 'w \<Rightarrow> u64 list \<times> 'w" where
  "take_pages acquire 0 w = ([], w)"
| "take_pages acquire (Suc n) w =
     (case acquire w of
        (None, w') \<Rightarrow> ([], w')
      | (Some a, w') \<Rightarrow> (case take_pages acquire n w' of (as, w'') \<Rightarrow> (a # as, w'')))"

fun give_pages :: "(u64 \<Rightarrow> 'w \<Rightarrow> bool \<times> 'w) \<Rightarrow> u64 list \<Rightarrow> 'w \<Rightarrow> bool \<times> 'w" where
  "give_pages give [] w = (True, w)"
| "give_pages give (a # as) w =
     (case give a w of
        (False, w') \<Rightarrow> (False, w')
      | (True, w') \<Rightarrow> give_pages give as w')"

locale page_source =
  fixes inv :: "'w \<Rightarrow> bool"
    and free :: "'w \<Rightarrow> nat set"
    and owned :: "'w \<Rightarrow> nat set"
    and acquire :: "'w \<Rightarrow> u64 option \<times> 'w"
    and give :: "u64 \<Rightarrow> 'w \<Rightarrow> bool \<times> 'w"
  assumes take_none: "inv w \<Longrightarrow> free w = {} \<Longrightarrow> acquire w = (None, w)"
    and take_some: "inv w \<Longrightarrow> free w \<noteq> {} \<Longrightarrow>
      \<exists>f w'. acquire w = (Some (f * 4096), w') \<and> f \<in> free w \<and> free w' = free w - {f} \<and>
        owned w' = insert f (owned w) \<and> inv w'"
    and give_owned: "inv w \<Longrightarrow> f \<in> owned w \<Longrightarrow>
      \<exists>w'. give (f * 4096) w = (True, w') \<and> free w' = insert f (free w) \<and>
        owned w' = owned w - {f} \<and> inv w'"
    and free_owned_disjoint: "inv w \<Longrightarrow> free w \<inter> owned w = {}"
    and finite_free: "inv w \<Longrightarrow> finite (free w)"
begin

lemma take_pages_spec:
  assumes "inv w" and "n \<le> card (free w)"
  shows "\<exists>fs w'. take_pages acquire n w = (map (\<lambda>f. f * 4096) fs, w') \<and>
    length fs = n \<and> distinct fs \<and> set fs \<subseteq> free w \<and>
    free w' = free w - set fs \<and> owned w' = owned w \<union> set fs \<and> inv w'"
  using assms
proof (induction n arbitrary: w)
  case 0
  then show ?case by auto
next
  case (Suc n)
  then have "free w \<noteq> {}" by auto
  with take_some [OF Suc.prems(1)] obtain f w1 where t: "acquire w = (Some (f * 4096), w1)"
    "f \<in> free w" "free w1 = free w - {f}" "owned w1 = insert f (owned w)" "inv w1" by blast
  have "n \<le> card (free w1)"
    using Suc.prems t(2,3) finite_free [OF Suc.prems(1)] by simp
  from Suc.IH [OF t(5) this] obtain fs w' where
    "take_pages acquire n w1 = (map (\<lambda>f. f * 4096) fs, w')" "length fs = n" "distinct fs"
    "set fs \<subseteq> free w1" "free w' = free w1 - set fs" "owned w' = owned w1 \<union> set fs" "inv w'"
    by blast
  with t show ?case by (intro exI [of _ "f # fs"] exI [of _ w']) auto
qed

lemma take_pages_exhausted:
  assumes "inv w" and "card (free w) < n"
  shows "\<exists>fs w'. take_pages acquire n w = (map (\<lambda>f. f * 4096) fs, w') \<and>
    set fs = free w \<and> free w' = {} \<and> inv w'"
  using assms
proof (induction n arbitrary: w)
  case 0
  then show ?case by simp
next
  case (Suc n)
  show ?case
  proof (cases "free w = {}")
    case True
    with take_none Suc.prems show ?thesis by auto
  next
    case False
    with take_some [OF Suc.prems(1)] obtain f w1 where t: "acquire w = (Some (f * 4096), w1)"
      "f \<in> free w" "free w1 = free w - {f}" "inv w1" by blast
    have "card (free w1) < n"
    proof -
      have "card (free w) > 0" using False finite_free [OF Suc.prems(1)] by (simp add: card_gt_0_iff)
      then show ?thesis using Suc.prems(2) t(2,3) by simp
    qed
    from Suc.IH [OF t(4) this] obtain fs w' where
      "take_pages acquire n w1 = (map (\<lambda>f. f * 4096) fs, w')" "set fs = free w1" "free w' = {}" "inv w'"
      by blast
    with t show ?thesis by (intro exI [of _ "f # fs"] exI [of _ w']) auto
  qed
qed

lemma give_pages_spec:
  assumes "inv w" and "distinct fs" and "set fs \<subseteq> owned w"
  shows "\<exists>w'. give_pages give (map (\<lambda>f. f * 4096) fs) w = (True, w') \<and>
    free w' = free w \<union> set fs \<and> owned w' = owned w - set fs \<and> inv w'"
  using assms
proof (induction fs arbitrary: w)
  case Nil
  then show ?case by auto
next
  case (Cons f fs)
  then obtain w1 where g: "give (f * 4096) w = (True, w1)" "free w1 = insert f (free w)"
    "owned w1 = owned w - {f}" "inv w1" using give_owned [OF Cons.prems(1), of f] by auto
  have "set fs \<subseteq> owned w1" using Cons.prems g(3) by auto
  with Cons.IH [OF g(4)] Cons.prems(2) obtain w' where
    "give_pages give (map (\<lambda>f. f * 4096) fs) w1 = (True, w')" "free w' = free w1 \<union> set fs"
    "owned w' = owned w1 - set fs" "inv w'" by auto
  with g show ?case by auto
qed

text \<open>Taking frames and giving them back, in whatever order, restores both sets.\<close>

lemma take_give_pages:
  assumes "inv w" and "n \<le> card (free w)"
  shows "\<exists>as w'. take_pages acquire n w = (as, w') \<and> length as = n \<and> distinct as \<and> inv w' \<and>
    (\<forall>bs. set bs = set as \<and> distinct bs \<longrightarrow>
       (\<exists>w''. give_pages give bs w' = (True, w'') \<and> free w'' = free w \<and> owned w'' = owned w \<and> inv w''))"
proof -
  obtain fs w' where t: "take_pages acquire n w = (map (\<lambda>f. f * 4096) fs, w')"
    "length fs = n" "distinct fs" "set fs \<subseteq> free w"
    "free w' = free w - set fs" "owned w' = owned w \<union> set fs" "inv w'"
    using take_pages_spec [OF assms] by blast
  have "\<exists>w''. give_pages give bs w' = (True, w'') \<and> free w'' = free w \<and> owned w'' = owned w \<and> inv w''"
    if bs: "set bs = (\<lambda>f. f * 4096) ` set fs" "distinct bs" for bs
  proof -
    define gs where "gs = map (\<lambda>a. a div 4096) bs"
    have same: "map (\<lambda>f. f * 4096) gs = bs"
      using bs(1) by (auto simp: gs_def intro!: map_idI)
    have "set gs = set fs" using bs(1) by (auto simp: gs_def image_iff)
    moreover have "distinct gs" using bs(2) same distinct_map by metis
    ultimately obtain w'' where "give_pages give bs w' = (True, w'')"
      "free w'' = free w' \<union> set fs" "owned w'' = owned w' - set fs" "inv w''"
      using give_pages_spec [OF t(7), of gs] t(6) same by auto
    then show ?thesis using t free_owned_disjoint [OF assms(1)] by (auto intro!: exI [of _ w''])
  qed
  with t show ?thesis
    by (intro exI [of _ "map (\<lambda>f. f * 4096) fs"] exI [of _ w'])
      (simp add: distinct_map inj_on_def)
qed

end

end
