(* ===== verification/Physical_Memory.thy ===== *)
theory Physical_Memory
  imports Page_Source
begin

unbundle bit_operations_syntax

text \<open>
  The physical frame allocator, \<open>src/kernel/physical_memory.c\<close>.  The two bitmaps are
  byte lists as in the C, one bit per 4 KiB frame of the first 4 GiB: a frame is
  \<^emph>\<open>eligible\<close> when the boot memory map makes it allocatable and \<^emph>\<open>used\<close> while it is
  handed out.  \<open>frame_inv\<close> ties the statistics, the search hint and the contiguous-run
  records to the bitmaps; every operation preserves it.  A pointer argument is an
  option (\<open>None\<close> is \<open>NULL\<close>); a pointer that is only written is a flag saying whether
  it is \<open>NULL\<close>, and what the call stores through it is part of the result.
\<close>

section \<open>Constants and data\<close>

definition SAPOTE_EARLY_PHYSICAL_LIMIT :: u64 where
  "SAPOTE_EARLY_PHYSICAL_LIMIT = 0x100000000"

definition SAPOTE_PAGE_SIZE :: u64 where
  "SAPOTE_PAGE_SIZE = 4096"

definition SAPOTE_LOW_MEMORY_RESERVATION :: u64 where
  "SAPOTE_LOW_MEMORY_RESERVATION = 0x100000"

definition FRAME_CONTIGUOUS_ALLOCATION_CAPACITY :: nat where
  "FRAME_CONTIGUOUS_ALLOCATION_CAPACITY = 32"

definition FRAME_COUNT :: nat where
  "FRAME_COUNT = SAPOTE_EARLY_PHYSICAL_LIMIT div SAPOTE_PAGE_SIZE"

definition BITMAP_BYTE_COUNT :: nat where
  "BITMAP_BYTE_COUNT = (FRAME_COUNT + 7) div 8"

lemmas frame_consts =
  SAPOTE_EARLY_PHYSICAL_LIMIT_def SAPOTE_PAGE_SIZE_def SAPOTE_LOW_MEMORY_RESERVATION_def

lemma FRAME_COUNT_val: "FRAME_COUNT = 1048576"
  by (simp add: FRAME_COUNT_def frame_consts)

lemma BITMAP_BYTE_COUNT_val: "BITMAP_BYTE_COUNT = 131072"
  by (simp add: BITMAP_BYTE_COUNT_def FRAME_COUNT_val)

datatype frame_status =
    FRAME_STATUS_OK
  | FRAME_STATUS_NULL_ARGUMENT
  | FRAME_STATUS_NOT_INITIALIZED
  | FRAME_STATUS_BAD_MEMORY_MAP
  | FRAME_STATUS_RANGE_OVERFLOW
  | FRAME_STATUS_RANGE_OUTSIDE_LIMIT
  | FRAME_STATUS_OUT_OF_MEMORY
  | FRAME_STATUS_UNALIGNED_ADDRESS
  | FRAME_STATUS_FRAME_NOT_ALLOCATABLE
  | FRAME_STATUS_FRAME_IN_USE
  | FRAME_STATUS_DOUBLE_FREE
  | FRAME_STATUS_ZERO_PAGE_COUNT
  | FRAME_STATUS_BAD_ALIGNMENT
  | FRAME_STATUS_ALIGNMENT_UNSATISFIABLE
  | FRAME_STATUS_ADDRESS_BOUND_UNSATISFIED
  | FRAME_STATUS_TOO_MANY_CONTIGUOUS_ALLOCATIONS
  | FRAME_STATUS_BAD_CONTIGUOUS_ALLOCATION

record frame_contiguous_request =
  rq_page_count :: u64
  rq_alignment :: u64
  rq_maximum_physical_address :: u64

record frame_contiguous_allocation =
  fc_physical_base :: u64
  fc_page_count :: u64
  fc_alignment :: u64
  fc_maximum_physical_address :: u64
  fc_identifier :: u64
  fc_active :: bool

record frame_allocator_stats =
  addressable_frames :: u64
  allocatable_frames :: u64
  free_frames :: u64
  allocated_frames :: u64
  reserved_frames :: u64
  highest_allocatable_address :: u64

record contiguous_record =
  cr_physical_base :: u64
  cr_page_count :: u64
  cr_identifier :: u64
  cr_active :: bool

text \<open>The file-scope variables of \<open>physical_memory.c\<close>.\<close>

record frame_allocator =
  eligible_bitmap :: "8 word list"
  used_bitmap :: "8 word list"
  allocator_stats :: frame_allocator_stats
  next_search_index :: u64
  allocator_initialized :: bool
  contiguous_records :: "contiguous_record list"
  next_contiguous_identifier :: u64

text \<open>
  What the allocator reads of \<open>struct boot_information\<close>: the decoded entries that
  \<open>boot_information_region_at\<close> returns one by one (\<open>None\<close> for a \<open>NULL\<close> memory map)
  and the bounds of the loader's own structure.
\<close>

record boot_memory_region =
  base_address :: u64
  region_length :: u64
  region_type :: nat

record boot_information =
  information_start :: u64
  information_end :: u64
  memory_map :: "boot_memory_region list option"

definition MULTIBOOT2_MEMORY_AVAILABLE :: nat where
  "MULTIBOOT2_MEMORY_AVAILABLE = 1"

definition memory_map_entry_count :: "boot_information \<Rightarrow> nat" where
  "memory_map_entry_count context =
     (case memory_map context of None \<Rightarrow> 0 | Some entries \<Rightarrow> length entries)"

definition boot_information_region_at ::
  "boot_information \<Rightarrow> nat \<Rightarrow> boot_memory_region option" where
  "boot_information_region_at context index =
     (case memory_map context of
        None \<Rightarrow> None
      | Some entries \<Rightarrow>
          if index \<ge> memory_map_entry_count context then None else Some (entries ! index))"

section \<open>Bitmaps and ranges\<close>

definition bitmap_get :: "8 word list \<Rightarrow> nat \<Rightarrow> bool" where
  "bitmap_get bitmap frame_index =
     (let mask = push_bit (frame_index mod 8) 1
      in (bitmap ! (frame_index div 8)) AND mask \<noteq> 0)"

definition bitmap_set :: "8 word list \<Rightarrow> nat \<Rightarrow> bool \<Rightarrow> 8 word list" where
  "bitmap_set bitmap frame_index value =
     (let mask = push_bit (frame_index mod 8) 1;
          byte = bitmap ! (frame_index div 8)
      in bitmap[frame_index div 8 := (if value then byte OR mask else byte AND NOT mask)])"

definition bitmap_fill :: "8 word list \<Rightarrow> 8 word \<Rightarrow> 8 word list" where
  "bitmap_fill bitmap value =
     fold (\<lambda>index bm. bm[index := value]) [0..<BITMAP_BYTE_COUNT] bitmap"

definition checked_range_end :: "u64 \<Rightarrow> u64 \<Rightarrow> u64 option" where
  "checked_range_end base len =
     (if len > sub64 UINT64_MAX base then None else Some (add64 base len))"

definition power_of_two :: "u64 \<Rightarrow> bool" where
  "power_of_two value \<longleftrightarrow> value \<noteq> 0 \<and> (value AND (sub64 value 1)) = 0"

definition frame_in_contiguous_allocation :: "contiguous_record list \<Rightarrow> nat \<Rightarrow> bool" where
  "frame_in_contiguous_allocation records frame =
     (find_from (\<lambda>index.
        let record = records ! index;
            first = cr_physical_base record div SAPOTE_PAGE_SIZE
        in cr_active record \<and> frame \<ge> first \<and> frame - first < cr_page_count record)
      0 FRAME_CONTIGUOUS_ALLOCATION_CAPACITY \<noteq> None)"

definition available_frame_bounds :: "u64 \<Rightarrow> u64 \<Rightarrow> frame_status \<times> nat \<times> nat" where
  "available_frame_bounds base len =
     (let page_mask = SAPOTE_PAGE_SIZE - 1 in
      case checked_range_end base len of
        None \<Rightarrow> (FRAME_STATUS_RANGE_OVERFLOW, 0, 0)
      | Some end \<Rightarrow>
          if len = 0 \<or> base \<ge> SAPOTE_EARLY_PHYSICAL_LIMIT then (FRAME_STATUS_OK, 0, 0)
          else
            let clipped_end = (if end < SAPOTE_EARLY_PHYSICAL_LIMIT then end
                               else SAPOTE_EARLY_PHYSICAL_LIMIT);
                aligned_base = (add64 base page_mask) AND not64 page_mask
            in if aligned_base \<ge> clipped_end then (FRAME_STATUS_OK, 0, 0)
               else (FRAME_STATUS_OK, aligned_base div SAPOTE_PAGE_SIZE,
                     (clipped_end AND not64 page_mask) div SAPOTE_PAGE_SIZE))"

definition covering_frame_bounds :: "u64 \<Rightarrow> u64 \<Rightarrow> frame_status \<times> nat \<times> nat" where
  "covering_frame_bounds base len =
     (case checked_range_end base len of
        None \<Rightarrow> (FRAME_STATUS_RANGE_OVERFLOW, 0, 0)
      | Some end \<Rightarrow>
          if len = 0 then (FRAME_STATUS_OK, 0, 0)
          else if base \<ge> SAPOTE_EARLY_PHYSICAL_LIMIT then (FRAME_STATUS_RANGE_OUTSIDE_LIMIT, 0, 0)
          else
            let clipped_end = (if end < SAPOTE_EARLY_PHYSICAL_LIMIT then end
                               else SAPOTE_EARLY_PHYSICAL_LIMIT);
                past = clipped_end div SAPOTE_PAGE_SIZE
            in (FRAME_STATUS_OK, base div SAPOTE_PAGE_SIZE,
                if (clipped_end AND (SAPOTE_PAGE_SIZE - 1)) \<noteq> 0 then past + 1 else past))"

section \<open>Initialization\<close>

definition mark_available_frames :: "nat \<Rightarrow> nat \<Rightarrow> frame_allocator \<Rightarrow> frame_allocator" where
  "mark_available_frames first_frame past_last_frame s =
     fold (\<lambda>frame s. s\<lparr>eligible_bitmap := bitmap_set (eligible_bitmap s) frame True,
                       used_bitmap := bitmap_set (used_bitmap s) frame False\<rparr>)
       [first_frame..<past_last_frame] s"

definition mark_reserved_frames :: "nat \<Rightarrow> nat \<Rightarrow> frame_allocator \<Rightarrow> frame_allocator" where
  "mark_reserved_frames first_frame past_last_frame s =
     fold (\<lambda>frame s. s\<lparr>eligible_bitmap := bitmap_set (eligible_bitmap s) frame False,
                       used_bitmap := bitmap_set (used_bitmap s) frame True\<rparr>)
       [first_frame..<past_last_frame] s"

definition reserve_internal ::
  "u64 \<Rightarrow> u64 \<Rightarrow> frame_allocator \<Rightarrow> frame_status \<times> frame_allocator" where
  "reserve_internal base len s =
     (case covering_frame_bounds base len of (status, first_frame, past_last_frame) \<Rightarrow>
        if status \<noteq> FRAME_STATUS_OK then (status, s)
        else (FRAME_STATUS_OK, mark_reserved_frames first_frame past_last_frame s))"

definition recompute_step ::
  "frame_allocator \<Rightarrow> nat \<Rightarrow> frame_allocator_stats \<Rightarrow> frame_allocator_stats" where
  "recompute_step s frame stats =
     (if \<not> bitmap_get (eligible_bitmap s) frame
      then stats\<lparr>reserved_frames := reserved_frames stats + 1\<rparr>
      else
        let stats = stats\<lparr>allocatable_frames := allocatable_frames stats + 1,
                          highest_allocatable_address := (frame + 1) * SAPOTE_PAGE_SIZE\<rparr>
        in if bitmap_get (used_bitmap s) frame
           then stats\<lparr>allocated_frames := allocated_frames stats + 1\<rparr>
           else stats\<lparr>free_frames := free_frames stats + 1\<rparr>)"

definition recompute_stats :: "frame_allocator \<Rightarrow> frame_allocator" where
  "recompute_stats s =
     s\<lparr>allocator_stats := fold (recompute_step s) [0..<FRAME_COUNT]
         \<lparr>addressable_frames = FRAME_COUNT, allocatable_frames = 0, free_frames = 0,
          allocated_frames = 0, reserved_frames = 0, highest_allocatable_address = 0\<rparr>\<rparr>"

text \<open>
  One region of one pass of \<open>apply_memory_map\<close>: the first pass (\<open>pass = 0\<close>) admits
  available regions, the second withdraws everything else.
\<close>

definition apply_region ::
  "nat \<Rightarrow> boot_memory_region \<Rightarrow> frame_allocator \<Rightarrow> frame_status \<times> frame_allocator" where
  "apply_region pass region s =
     (let available = (region_type region = MULTIBOOT2_MEMORY_AVAILABLE) in
      if (pass = 0) \<noteq> available then (FRAME_STATUS_OK, s)
      else if available then
        (case available_frame_bounds (base_address region) (region_length region) of
           (status, first_frame, past_last_frame) \<Rightarrow>
             if status \<noteq> FRAME_STATUS_OK then (status, s)
             else (FRAME_STATUS_OK, mark_available_frames first_frame past_last_frame s))
      else
        (case covering_frame_bounds (base_address region) (region_length region) of
           (status, first_frame, past_last_frame) \<Rightarrow>
             if status = FRAME_STATUS_RANGE_OUTSIDE_LIMIT then (FRAME_STATUS_OK, s)
             else if status \<noteq> FRAME_STATUS_OK then (status, s)
             else (FRAME_STATUS_OK, mark_reserved_frames first_frame past_last_frame s)))"

fun apply_pass ::
  "boot_information \<Rightarrow> nat \<Rightarrow> nat list \<Rightarrow> frame_allocator \<Rightarrow> frame_status \<times> frame_allocator" where
  "apply_pass context pass [] s = (FRAME_STATUS_OK, s)"
| "apply_pass context pass (index # rest) s =
     (case boot_information_region_at context index of
        None \<Rightarrow> (FRAME_STATUS_BAD_MEMORY_MAP, s)
      | Some region \<Rightarrow>
          (case apply_region pass region s of (status, s') \<Rightarrow>
             if status \<noteq> FRAME_STATUS_OK then (status, s')
             else apply_pass context pass rest s'))"

definition apply_memory_map ::
  "boot_information \<Rightarrow> frame_allocator \<Rightarrow> frame_status \<times> frame_allocator" where
  "apply_memory_map context s =
     (let indices = [0..<memory_map_entry_count context] in
      case apply_pass context 0 indices s of (status, s') \<Rightarrow>
        if status \<noteq> FRAME_STATUS_OK then (status, s')
        else apply_pass context 1 indices s')"

definition empty_record :: contiguous_record where
  "empty_record = \<lparr>cr_physical_base = 0, cr_page_count = 0, cr_identifier = 0, cr_active = False\<rparr>"

text \<open>\<open>__kernel_start\<close> and \<open>__kernel_end\<close> are linker symbols, so they are arguments.\<close>

definition frame_allocator_initialize ::
  "u64 \<Rightarrow> u64 \<Rightarrow> boot_information option \<Rightarrow> frame_allocator \<Rightarrow> frame_status \<times> frame_allocator" where
  "frame_allocator_initialize kernel_start kernel_end context_pointer s =
     (case context_pointer of
        None \<Rightarrow> (FRAME_STATUS_NULL_ARGUMENT, s)
      | Some context \<Rightarrow>
      if memory_map context = None then (FRAME_STATUS_NULL_ARGUMENT, s)
      else
        let s = s\<lparr>allocator_initialized := False, next_search_index := 0,
                  next_contiguous_identifier := 1,
                  eligible_bitmap := bitmap_fill (eligible_bitmap s) 0,
                  used_bitmap := bitmap_fill (used_bitmap s) 255,
                  contiguous_records :=
                    fold (\<lambda>index rs. rs[index := empty_record])
                      [0..<FRAME_CONTIGUOUS_ALLOCATION_CAPACITY] (contiguous_records s)\<rparr>
        in case apply_memory_map context s of (status, s) \<Rightarrow>
           if status \<noteq> FRAME_STATUS_OK then (status, s) else
           case reserve_internal 0 SAPOTE_LOW_MEMORY_RESERVATION s of (status, s) \<Rightarrow>
           if status \<noteq> FRAME_STATUS_OK then (status, s) else
           if kernel_end < kernel_start then (FRAME_STATUS_RANGE_OVERFLOW, s) else
           case reserve_internal kernel_start (sub64 kernel_end kernel_start) s of (status, s) \<Rightarrow>
           if status \<noteq> FRAME_STATUS_OK then (status, s) else
           case reserve_internal (information_start context)
                  (sub64 (information_end context) (information_start context)) s of (status, s) \<Rightarrow>
           if status \<noteq> FRAME_STATUS_OK then (status, s) else
           let s = recompute_stats s in
           if free_frames (allocator_stats s) = 0 then (FRAME_STATUS_OUT_OF_MEMORY, s)
           else (FRAME_STATUS_OK,
                 s\<lparr>next_search_index := SAPOTE_LOW_MEMORY_RESERVATION div SAPOTE_PAGE_SIZE,
                   allocator_initialized := True\<rparr>))"

section \<open>Single frames\<close>

definition frame_is_free :: "frame_allocator \<Rightarrow> nat \<Rightarrow> bool" where
  "frame_is_free s frame \<longleftrightarrow>
     bitmap_get (eligible_bitmap s) frame \<and> \<not> bitmap_get (used_bitmap s) frame"

definition search_frame :: "frame_allocator \<Rightarrow> nat \<Rightarrow> nat" where
  "search_frame s step =
     (let frame = add64 (next_search_index s) step
      in if frame \<ge> FRAME_COUNT then sub64 frame FRAME_COUNT else frame)"

definition frame_allocate ::
  "bool \<Rightarrow> frame_allocator \<Rightarrow> frame_status \<times> u64 option \<times> frame_allocator" where
  "frame_allocate physical_address_null s =
     (if physical_address_null then (FRAME_STATUS_NULL_ARGUMENT, None, s)
      else if \<not> allocator_initialized s then (FRAME_STATUS_NOT_INITIALIZED, None, s)
      else if free_frames (allocator_stats s) = 0 then (FRAME_STATUS_OUT_OF_MEMORY, None, s)
      else case find_from (\<lambda>step. frame_is_free s (search_frame s step)) 0 FRAME_COUNT of
        None \<Rightarrow> (FRAME_STATUS_OUT_OF_MEMORY, None, s)
      | Some step \<Rightarrow>
          let frame = search_frame s step;
              stats = allocator_stats s
          in (FRAME_STATUS_OK, Some (mul64 frame SAPOTE_PAGE_SIZE),
              s\<lparr>used_bitmap := bitmap_set (used_bitmap s) frame True,
                allocator_stats := stats\<lparr>free_frames := sub64 (free_frames stats) 1,
                                         allocated_frames := add64 (allocated_frames stats) 1\<rparr>,
                next_search_index := (if frame + 1 = FRAME_COUNT then 0 else frame + 1)\<rparr>))"

definition frame_release :: "u64 \<Rightarrow> frame_allocator \<Rightarrow> frame_status \<times> frame_allocator" where
  "frame_release physical_address s =
     (if \<not> allocator_initialized s then (FRAME_STATUS_NOT_INITIALIZED, s)
      else if (physical_address AND (SAPOTE_PAGE_SIZE - 1)) \<noteq> 0
        then (FRAME_STATUS_UNALIGNED_ADDRESS, s)
      else if physical_address \<ge> SAPOTE_EARLY_PHYSICAL_LIMIT
        then (FRAME_STATUS_RANGE_OUTSIDE_LIMIT, s)
      else
        let frame = physical_address div SAPOTE_PAGE_SIZE;
            stats = allocator_stats s
        in if \<not> bitmap_get (eligible_bitmap s) frame
             then (FRAME_STATUS_FRAME_NOT_ALLOCATABLE, s)
           else if \<not> bitmap_get (used_bitmap s) frame then (FRAME_STATUS_DOUBLE_FREE, s)
           else if frame_in_contiguous_allocation (contiguous_records s) frame
             then (FRAME_STATUS_FRAME_IN_USE, s)
           else (FRAME_STATUS_OK,
                 s\<lparr>used_bitmap := bitmap_set (used_bitmap s) frame False,
                   allocator_stats := stats\<lparr>free_frames := add64 (free_frames stats) 1,
                                            allocated_frames := sub64 (allocated_frames stats) 1\<rparr>,
                   next_search_index :=
                     (if frame < next_search_index s then frame else next_search_index s)\<rparr>))"

section \<open>Contiguous runs\<close>

definition run_is_available :: "frame_allocator \<Rightarrow> nat \<Rightarrow> nat \<Rightarrow> bool" where
  "run_is_available s first page_count \<longleftrightarrow>
     find_from (\<lambda>offset. \<not> bitmap_get (eligible_bitmap s) (first + offset) \<or>
                         bitmap_get (used_bitmap s) (first + offset)) 0 page_count = None"

definition mark_run :: "8 word list \<Rightarrow> nat \<Rightarrow> nat \<Rightarrow> bool \<Rightarrow> 8 word list" where
  "mark_run bitmap first page_count value =
     fold (\<lambda>offset bm. bitmap_set bm (first + offset) value) [0..<page_count] bitmap"

definition empty_allocation :: frame_contiguous_allocation where
  "empty_allocation = \<lparr>fc_physical_base = 0, fc_page_count = 0, fc_alignment = 0,
     fc_maximum_physical_address = 0, fc_identifier = 0, fc_active = False\<rparr>"

text \<open>The exclusive frame bound a request's inclusive address limit allows.\<close>

definition maximum_past_frame :: "frame_contiguous_request \<Rightarrow> nat" where
  "maximum_past_frame request =
     (let maximum = rq_maximum_physical_address request;
          bound_end = (if maximum = UINT64_MAX then UINT64_MAX else add64 maximum 1)
      in (if bound_end > SAPOTE_EARLY_PHYSICAL_LIMIT then SAPOTE_EARLY_PHYSICAL_LIMIT
          else bound_end) div SAPOTE_PAGE_SIZE)"

definition contiguous_request_status :: "frame_contiguous_request \<Rightarrow> frame_status" where
  "contiguous_request_status request =
     (let page_count = rq_page_count request;
          alignment = rq_alignment request;
          maximum = rq_maximum_physical_address request;
          len = mul64 page_count SAPOTE_PAGE_SIZE
      in if page_count = 0 then FRAME_STATUS_ZERO_PAGE_COUNT
         else if \<not> power_of_two alignment \<or> alignment < SAPOTE_PAGE_SIZE \<or>
                 alignment mod SAPOTE_PAGE_SIZE \<noteq> 0 then FRAME_STATUS_BAD_ALIGNMENT
         else if alignment > SAPOTE_EARLY_PHYSICAL_LIMIT \<or>
                 alignment > add64 maximum (if maximum \<noteq> UINT64_MAX then 1 else 0)
           then FRAME_STATUS_ALIGNMENT_UNSATISFIABLE
         else if page_count > UINT64_MAX div SAPOTE_PAGE_SIZE then FRAME_STATUS_RANGE_OVERFLOW
         else if len = 0 \<or> maximum < sub64 len 1
           then FRAME_STATUS_ADDRESS_BOUND_UNSATISFIED
         else if maximum_past_frame request < page_count
           then FRAME_STATUS_ADDRESS_BOUND_UNSATISFIED
         else FRAME_STATUS_OK)"

definition frame_allocate_contiguous ::
  "frame_contiguous_request option \<Rightarrow> bool \<Rightarrow> frame_allocator \<Rightarrow>
     frame_status \<times> frame_contiguous_allocation \<times> frame_allocator" where
  "frame_allocate_contiguous request_pointer allocation_null s =
     (case request_pointer of
        None \<Rightarrow> (FRAME_STATUS_NULL_ARGUMENT, empty_allocation, s)
      | Some request \<Rightarrow>
      if allocation_null then (FRAME_STATUS_NULL_ARGUMENT, empty_allocation, s)
      else if \<not> allocator_initialized s
        then (FRAME_STATUS_NOT_INITIALIZED, empty_allocation, s)
      else if contiguous_request_status request \<noteq> FRAME_STATUS_OK
        then (contiguous_request_status request, empty_allocation, s)
      else
        let page_count = rq_page_count request; alignment = rq_alignment request in
        case find_from (\<lambda>index. \<not> cr_active (contiguous_records s ! index)) 0
               FRAME_CONTIGUOUS_ALLOCATION_CAPACITY of
          None \<Rightarrow> (FRAME_STATUS_TOO_MANY_CONTIGUOUS_ALLOCATIONS, empty_allocation, s)
        | Some slot \<Rightarrow>
        case find_from (\<lambda>first.
               (mul64 first SAPOTE_PAGE_SIZE AND sub64 alignment 1) = 0 \<and>
               run_is_available s first page_count) 0
               (maximum_past_frame request - page_count + 1) of
          None \<Rightarrow> (FRAME_STATUS_OUT_OF_MEMORY, empty_allocation, s)
        | Some first \<Rightarrow>
            let base = mul64 first SAPOTE_PAGE_SIZE;
                identifier = next_contiguous_identifier s;
                next = add64 identifier 1;
                stats = allocator_stats s
            in (FRAME_STATUS_OK,
                \<lparr>fc_physical_base = base, fc_page_count = page_count, fc_alignment = alignment,
                 fc_maximum_physical_address = rq_maximum_physical_address request,
                 fc_identifier = identifier, fc_active = True\<rparr>,
                s\<lparr>used_bitmap := mark_run (used_bitmap s) first page_count True,
                  contiguous_records := (contiguous_records s)
                    [slot := \<lparr>cr_physical_base = base, cr_page_count = page_count,
                              cr_identifier = identifier, cr_active = True\<rparr>],
                  next_contiguous_identifier := (if next = 0 then 1 else next),
                  allocator_stats :=
                    stats\<lparr>free_frames := sub64 (free_frames stats) page_count,
                          allocated_frames := add64 (allocated_frames stats) page_count\<rparr>,
                  next_search_index :=
                    (if first + page_count \<ge> FRAME_COUNT then 0 else first + page_count)\<rparr>))"

definition frame_release_contiguous ::
  "frame_contiguous_allocation option \<Rightarrow> frame_allocator \<Rightarrow>
     frame_status \<times> frame_contiguous_allocation option \<times> frame_allocator" where
  "frame_release_contiguous allocation_pointer s =
     (case allocation_pointer of
        None \<Rightarrow> (FRAME_STATUS_NULL_ARGUMENT, None, s)
      | Some allocation \<Rightarrow>
      if \<not> allocator_initialized s then (FRAME_STATUS_NOT_INITIALIZED, Some allocation, s)
      else if \<not> fc_active allocation then (FRAME_STATUS_DOUBLE_FREE, Some allocation, s)
      else case find_from (\<lambda>index. cr_active (contiguous_records s ! index) \<and>
                  cr_identifier (contiguous_records s ! index) = fc_identifier allocation) 0
                  FRAME_CONTIGUOUS_ALLOCATION_CAPACITY of
        None \<Rightarrow> (FRAME_STATUS_DOUBLE_FREE, Some allocation, s)
      | Some slot \<Rightarrow>
          let record = contiguous_records s ! slot;
              page_count = cr_page_count record;
              first = cr_physical_base record div SAPOTE_PAGE_SIZE;
              stats = allocator_stats s
          in if cr_physical_base record \<noteq> fc_physical_base allocation \<or>
                page_count \<noteq> fc_page_count allocation
               then (FRAME_STATUS_BAD_CONTIGUOUS_ALLOCATION, Some allocation, s)
             else if find_from (\<lambda>offset. \<not> bitmap_get (eligible_bitmap s) (first + offset) \<or>
                       \<not> bitmap_get (used_bitmap s) (first + offset)) 0 page_count \<noteq> None
               then (FRAME_STATUS_BAD_CONTIGUOUS_ALLOCATION, Some allocation, s)
             else (FRAME_STATUS_OK, Some (allocation\<lparr>fc_active := False\<rparr>),
                   s\<lparr>used_bitmap := mark_run (used_bitmap s) first page_count False,
                     allocator_stats :=
                       stats\<lparr>free_frames := add64 (free_frames stats) page_count,
                             allocated_frames := sub64 (allocated_frames stats) page_count\<rparr>,
                     next_search_index :=
                       (if first < next_search_index s then first else next_search_index s),
                     contiguous_records :=
                       (contiguous_records s)[slot := record\<lparr>cr_active := False\<rparr>]\<rparr>))"

section \<open>Reservation after initialization\<close>

definition frame_reserve_range ::
  "u64 \<Rightarrow> u64 \<Rightarrow> frame_allocator \<Rightarrow> frame_status \<times> frame_allocator" where
  "frame_reserve_range base len s =
     (if \<not> allocator_initialized s then (FRAME_STATUS_NOT_INITIALIZED, s)
      else case covering_frame_bounds base len of (status, first_frame, past_last_frame) \<Rightarrow>
        if status \<noteq> FRAME_STATUS_OK then (status, s)
        else if find_from (\<lambda>frame. bitmap_get (eligible_bitmap s) frame \<and>
                  bitmap_get (used_bitmap s) frame) first_frame past_last_frame \<noteq> None
          then (FRAME_STATUS_FRAME_IN_USE, s)
        else (FRAME_STATUS_OK,
              recompute_stats (mark_reserved_frames first_frame past_last_frame s)))"

definition frame_range_overlaps_allocatable_memory ::
  "u64 \<Rightarrow> u64 \<Rightarrow> frame_allocator \<Rightarrow> bool" where
  "frame_range_overlaps_allocatable_memory base len s =
     (if \<not> allocator_initialized s \<or> len = 0 then False
      else case checked_range_end base len of
        None \<Rightarrow> False
      | Some end \<Rightarrow>
          if base \<ge> SAPOTE_EARLY_PHYSICAL_LIMIT then False
          else
            let end = (if end > SAPOTE_EARLY_PHYSICAL_LIMIT
                       then SAPOTE_EARLY_PHYSICAL_LIMIT else end);
                past = end div SAPOTE_PAGE_SIZE;
                past_last_frame =
                  (if (end AND (SAPOTE_PAGE_SIZE - 1)) \<noteq> 0 then past + 1 else past)
            in find_from (bitmap_get (eligible_bitmap s)) (base div SAPOTE_PAGE_SIZE)
                 past_last_frame \<noteq> None)"

definition frame_allocator_get_stats :: "frame_allocator \<Rightarrow> frame_allocator_stats" where
  "frame_allocator_get_stats s = allocator_stats s"

fun frame_status_string :: "frame_status \<Rightarrow> string" where
  "frame_status_string FRAME_STATUS_OK = ''ok''"
| "frame_status_string FRAME_STATUS_NULL_ARGUMENT = ''null frame allocator argument''"
| "frame_status_string FRAME_STATUS_NOT_INITIALIZED = ''frame allocator is not initialized''"
| "frame_status_string FRAME_STATUS_BAD_MEMORY_MAP = ''invalid frame allocator memory map''"
| "frame_status_string FRAME_STATUS_RANGE_OVERFLOW = ''physical range overflows''"
| "frame_status_string FRAME_STATUS_RANGE_OUTSIDE_LIMIT = ''physical range is outside the early map''"
| "frame_status_string FRAME_STATUS_OUT_OF_MEMORY = ''no physical frame is available''"
| "frame_status_string FRAME_STATUS_UNALIGNED_ADDRESS = ''physical frame address is unaligned''"
| "frame_status_string FRAME_STATUS_FRAME_NOT_ALLOCATABLE = ''physical frame is permanently reserved''"
| "frame_status_string FRAME_STATUS_FRAME_IN_USE = ''physical frame is already allocated''"
| "frame_status_string FRAME_STATUS_DOUBLE_FREE = ''physical frame was released twice''"
| "frame_status_string FRAME_STATUS_ZERO_PAGE_COUNT = ''contiguous allocation requests zero pages''"
| "frame_status_string FRAME_STATUS_BAD_ALIGNMENT = ''contiguous allocation alignment is not a page-sized power of two''"
| "frame_status_string FRAME_STATUS_ALIGNMENT_UNSATISFIABLE = ''contiguous allocation alignment cannot fit below its address bound''"
| "frame_status_string FRAME_STATUS_ADDRESS_BOUND_UNSATISFIED = ''contiguous allocation cannot fit below its inclusive address bound''"
| "frame_status_string FRAME_STATUS_TOO_MANY_CONTIGUOUS_ALLOCATIONS = ''contiguous allocation record table is full''"
| "frame_status_string FRAME_STATUS_BAD_CONTIGUOUS_ALLOCATION = ''contiguous allocation handle does not own its frame range''"

section \<open>Bitmap lemmas\<close>

lemma bitmap_get_bit: "bitmap_get bitmap i = bit (bitmap ! (i div 8)) (i mod 8)"
  by (simp add: bitmap_get_def and_exp_eq_0_iff_not_bit push_bit_eq_mult)

lemma length_bitmap_set [simp]: "length (bitmap_set bitmap i value) = length bitmap"
  by (simp add: bitmap_set_def Let_def)

lemma bitmap_get_set:
  assumes "i < 8 * length bitmap"
  shows "bitmap_get (bitmap_set bitmap i value) j = (if j = i then value else bitmap_get bitmap j)"
proof -
  have len: "i div 8 < length bitmap" using assms by simp
  have low: "j mod 8 < 8" "i mod 8 < 8" by simp_all
  have eq: "j = i \<longleftrightarrow> j div 8 = i div 8 \<and> j mod 8 = i mod 8"
    by (metis mod_div_mult_eq)
  show ?thesis
    using len low eq
    by (auto simp: bitmap_get_bit bitmap_set_def Let_def nth_list_update bit_simps)
qed

lemma length_bitmap_fold [simp]:
  "length (fold (\<lambda>i bm. bitmap_set bm (f i) value) xs bitmap) = length bitmap"
  by (induction xs arbitrary: bitmap) simp_all

lemma length_mark_run [simp]: "length (mark_run bitmap first n value) = length bitmap"
  by (simp add: mark_run_def)

lemma bitmap_get_mark_run:
  "first + n \<le> 8 * length bitmap \<Longrightarrow>
     bitmap_get (mark_run bitmap first n value) j =
       (if first \<le> j \<and> j < first + n then value else bitmap_get bitmap j)"
proof (induction n)
  case 0
  then show ?case by (auto simp: mark_run_def)
next
  case (Suc n)
  have "mark_run bitmap first (Suc n) value =
          bitmap_set (mark_run bitmap first n value) (first + n) value"
    by (simp add: mark_run_def)
  with Suc show ?case by (auto simp: bitmap_get_set)
qed

lemma length_bitmap_fill [simp]: "length (bitmap_fill bitmap value) = length bitmap"
proof -
  have "length (fold (\<lambda>index bm. bm[index := value]) xs bitmap) = length bitmap" for xs
    by (induction xs arbitrary: bitmap) simp_all
  then show ?thesis by (simp add: bitmap_fill_def)
qed

lemma fold_fill_nth:
  "n \<le> length xs \<Longrightarrow> i < n \<Longrightarrow> fold (\<lambda>index ys. ys[index := v]) [0..<n] xs ! i = v"
proof (induction n)
  case (Suc n)
  have "length (fold (\<lambda>index ys. ys[index := v]) zs xs) = length xs" for zs
    by (induction zs arbitrary: xs) simp_all
  with Suc show ?case by (simp add: nth_list_update)
qed simp

lemma fold_update_length [simp]:
  "length (fold (\<lambda>index ys. ys[index := v]) zs xs) = length xs"
  by (induction zs arbitrary: xs) simp_all

lemma bitmap_fill_nth:
  "length bitmap = BITMAP_BYTE_COUNT \<Longrightarrow> i < BITMAP_BYTE_COUNT \<Longrightarrow>
     bitmap_fill bitmap value ! i = value"
  by (simp add: bitmap_fill_def fold_fill_nth)

section \<open>Ranges of frames\<close>

lemma mark_available_frames_eq:
  "mark_available_frames first past s =
     s\<lparr>eligible_bitmap := mark_run (eligible_bitmap s) first (past - first) True,
       used_bitmap := mark_run (used_bitmap s) first (past - first) False\<rparr>"
proof (cases "first \<le> past")
  case True
  then obtain n where past: "past = first + n" using le_Suc_ex by blast
  have "mark_available_frames first (first + n) s =
     s\<lparr>eligible_bitmap := mark_run (eligible_bitmap s) first n True,
       used_bitmap := mark_run (used_bitmap s) first n False\<rparr>"
    by (induction n) (simp_all add: mark_available_frames_def mark_run_def)
  with past show ?thesis by simp
qed (simp add: mark_available_frames_def mark_run_def)

lemma mark_reserved_frames_eq:
  "mark_reserved_frames first past s =
     s\<lparr>eligible_bitmap := mark_run (eligible_bitmap s) first (past - first) False,
       used_bitmap := mark_run (used_bitmap s) first (past - first) True\<rparr>"
proof (cases "first \<le> past")
  case True
  then obtain n where past: "past = first + n" using le_Suc_ex by blast
  have "mark_reserved_frames first (first + n) s =
     s\<lparr>eligible_bitmap := mark_run (eligible_bitmap s) first n False,
       used_bitmap := mark_run (used_bitmap s) first n True\<rparr>"
    by (induction n) (simp_all add: mark_reserved_frames_def mark_run_def)
  with past show ?thesis by simp
qed (simp add: mark_reserved_frames_def mark_run_def)

lemma checked_range_end_Some:
  "base < 2 ^ 64 \<Longrightarrow> len < 2 ^ 64 \<Longrightarrow>
     checked_range_end base len = (if base + len < 2 ^ 64 then Some (base + len) else None)"
  by (auto simp: checked_range_end_def c_arith)

text \<open>An admitted range covers only whole frames inside the region.\<close>

lemma page_ceil_le_iff: "(x + 4095) div 4096 \<le> f \<longleftrightarrow> x \<le> f * (4096::nat)"
proof -
  have "(x + 4095) div 4096 \<le> f \<longleftrightarrow> (x + 4095) div 4096 < f + 1" by linarith
  also have "\<dots> \<longleftrightarrow> x + 4095 < (f + 1) * 4096" by (rule div_less_iff_less_mult) simp
  finally show ?thesis by linarith
qed

lemma less_page_ceil_iff: "f < (x + 4095) div 4096 \<longleftrightarrow> f * (4096::nat) < x"
  using page_ceil_le_iff [of x f] by linarith

lemma less_page_floor_iff: "f < x div 4096 \<longleftrightarrow> (f + 1) * (4096::nat) \<le> x"
  using less_eq_div_iff_mult_less_eq [of 4096 "f + 1" x] by (simp add: Suc_le_eq)

lemma page_floor_le_iff: "x div 4096 \<le> f \<longleftrightarrow> x < (f + 1) * (4096::nat)"
  using div_less_iff_less_mult [of 4096 x "f + 1"] by linarith

lemma and_not64_4095: "x < 2 ^ 64 \<Longrightarrow> x AND not64 4095 = x div 4096 * 4096"
  using and_not64_mask [of x 12] by (simp add: minus_mod_eq_div_mult)

lemma available_frame_bounds_eq:
  assumes "base < 2 ^ 64" "len < 2 ^ 64"
  shows "available_frame_bounds base len =
    (if base + len \<ge> 2 ^ 64 then (FRAME_STATUS_RANGE_OVERFLOW, 0, 0)
     else if len = 0 \<or> base \<ge> 4294967296 \<or>
             (base + 4095) div 4096 * 4096 \<ge> min (base + len) 4294967296
       then (FRAME_STATUS_OK, 0, 0)
     else (FRAME_STATUS_OK, (base + 4095) div 4096, min (base + len) 4294967296 div 4096))"
proof -
  have low: "add64 base 4095 AND not64 4095 = (base + 4095) div 4096 * 4096"
    if "base < 4294967296"
    using that by (simp add: add64_id and_not64_4095)
  have high: "(e AND not64 4095) div 4096 = e div 4096" if "e \<le> 4294967296" for e
    using that by (simp add: and_not64_4095)
  have clip: "(if e < 4294967296 then e else 4294967296) = min e 4294967296" for e :: nat
    by (simp add: min_def)
  show ?thesis
    unfolding available_frame_bounds_def checked_range_end_Some [OF assms] frame_consts clip
    by (simp add: low high Let_def)
qed

lemma available_frame_bounds_inside:
  assumes "base < 2 ^ 64" "len < 2 ^ 64"
    and "available_frame_bounds base len = (FRAME_STATUS_OK, first, past)"
    and "first \<le> f" "f < past"
  shows "base \<le> f * 4096 \<and> (f + 1) * 4096 \<le> base + len \<and> f < FRAME_COUNT"
proof -
  from assms(3-5) have fp: "first = (base + 4095) div 4096"
      "past = min (base + len) 4294967296 div 4096"
    unfolding available_frame_bounds_eq [OF assms(1,2)] by (auto split: if_splits)
  have "base \<le> f * 4096" "(f + 1) * 4096 \<le> min (base + len) 4294967296"
    using assms(4,5) unfolding fp page_ceil_le_iff less_page_floor_iff .
  then show ?thesis by (simp add: FRAME_COUNT_val)
qed

text \<open>A withdrawn range covers every frame the region touches below the limit.\<close>

lemma covering_frame_bounds_eq:
  assumes "base < 2 ^ 64" "len < 2 ^ 64"
  shows "covering_frame_bounds base len =
    (if base + len \<ge> 2 ^ 64 then (FRAME_STATUS_RANGE_OVERFLOW, 0, 0)
     else if len = 0 then (FRAME_STATUS_OK, 0, 0)
     else if base \<ge> 4294967296 then (FRAME_STATUS_RANGE_OUTSIDE_LIMIT, 0, 0)
     else (FRAME_STATUS_OK, base div 4096, (min (base + len) 4294967296 + 4095) div 4096))"
proof -
  have up: "(if e mod 4096 \<noteq> 0 then e div 4096 + 1 else e div 4096) = (e + 4095) div 4096"
    for e :: nat
  proof (cases "e mod 4096 = 0")
    case True
    then obtain q where "e = 4096 * q" by (auto elim: dvdE)
    then show ?thesis by simp
  next
    case False
    define q r where "q = e div 4096" and "r = e mod 4096"
    have e: "e = q * 4096 + r" and r: "0 < r" "r < 4096"
      using False by (simp_all add: q_def r_def)
    have "(e + 4095) div 4096 = q + 1"
      by (rule div_nat_eqI) (use e r in simp_all)
    then have "(e + 4095) div 4096 = e div 4096 + 1" by (simp add: q_def)
    with False show ?thesis by simp
  qed
  have clip: "(if e < 4294967296 then e else 4294967296) = min e 4294967296" for e :: nat
    by (simp add: min_def)
  show ?thesis
    using up [of "min (base + len) 4294967296"]
    unfolding covering_frame_bounds_def checked_range_end_Some [OF assms] frame_consts clip
    by (auto simp: Let_def split: if_splits)
qed

lemma covering_frame_bounds_OK:
  assumes "base < 2 ^ 64" "len < 2 ^ 64"
    and "covering_frame_bounds base len = (FRAME_STATUS_OK, first, past)"
  shows "past \<le> FRAME_COUNT"
    and "first \<le> f \<and> f < past \<longleftrightarrow>
       f < FRAME_COUNT \<and> base < (f + 1) * 4096 \<and> f * 4096 < base + len \<and> 0 < len"
proof -
  have "past \<le> FRAME_COUNT \<and> (first \<le> f \<and> f < past \<longleftrightarrow>
       f < FRAME_COUNT \<and> base < (f + 1) * 4096 \<and> f * 4096 < base + len \<and> 0 < len)"
  proof (cases "len = 0")
    case True
    with assms show ?thesis
      unfolding covering_frame_bounds_eq [OF assms(1,2)] by (auto split: if_splits)
  next
    case False
    from assms(3) False have fp: "first = base div 4096"
        "past = (min (base + len) 4294967296 + 4095) div 4096"
      unfolding covering_frame_bounds_eq [OF assms(1,2)] by (auto split: if_splits)
    have "past \<le> FRAME_COUNT" unfolding fp FRAME_COUNT_val page_ceil_le_iff by simp
    moreover have "first \<le> f \<longleftrightarrow> base < (f + 1) * 4096"
      unfolding fp by (rule page_floor_le_iff)
    moreover have "f < past \<longleftrightarrow> f * 4096 < min (base + len) 4294967296"
      unfolding fp by (rule less_page_ceil_iff)
    ultimately show ?thesis using False by (auto simp: FRAME_COUNT_val)
  qed
  then show "past \<le> FRAME_COUNT" "first \<le> f \<and> f < past \<longleftrightarrow>
       f < FRAME_COUNT \<and> base < (f + 1) * 4096 \<and> f * 4096 < base + len \<and> 0 < len" by blast+
qed

section \<open>The invariant\<close>

definition eligible_set :: "frame_allocator \<Rightarrow> nat set" where
  "eligible_set s = {f. f < FRAME_COUNT \<and> bitmap_get (eligible_bitmap s) f}"

definition free_set :: "frame_allocator \<Rightarrow> nat set" where
  "free_set s = {f. f < FRAME_COUNT \<and> frame_is_free s f}"

definition allocated_set :: "frame_allocator \<Rightarrow> nat set" where
  "allocated_set s = {f \<in> eligible_set s. bitmap_get (used_bitmap s) f}"

definition record_frames :: "contiguous_record \<Rightarrow> nat set" where
  "record_frames r =
     (if cr_active r then {cr_physical_base r div 4096 ..< cr_physical_base r div 4096 + cr_page_count r}
      else {})"

definition contiguous_set :: "frame_allocator \<Rightarrow> nat set" where
  "contiguous_set s = (\<Union>r \<in> set (contiguous_records s). record_frames r)"

text \<open>Frames handed out one at a time, the only ones \<open>frame_release\<close> takes back.\<close>

definition single_set :: "frame_allocator \<Rightarrow> nat set" where
  "single_set s = allocated_set s - contiguous_set s"

definition records_ok :: "frame_allocator \<Rightarrow> bool" where
  "records_ok s \<longleftrightarrow>
     contiguous_set s \<subseteq> allocated_set s \<and>
     (\<forall>i < length (contiguous_records s). cr_active (contiguous_records s ! i) \<longrightarrow>
        cr_physical_base (contiguous_records s ! i) mod 4096 = 0 \<and>
        0 < cr_page_count (contiguous_records s ! i)) \<and>
     (\<forall>i < length (contiguous_records s). \<forall>j < length (contiguous_records s). i \<noteq> j \<longrightarrow>
        record_frames (contiguous_records s ! i) \<inter> record_frames (contiguous_records s ! j) = {})"

definition stats_ok :: "frame_allocator \<Rightarrow> bool" where
  "stats_ok s \<longleftrightarrow>
     allocatable_frames (allocator_stats s) = card (eligible_set s) \<and>
     free_frames (allocator_stats s) = card (free_set s) \<and>
     allocated_frames (allocator_stats s) = card (allocated_set s)"

definition frame_shape :: "frame_allocator \<Rightarrow> bool" where
  "frame_shape s \<longleftrightarrow>
     length (eligible_bitmap s) = BITMAP_BYTE_COUNT \<and>
     length (used_bitmap s) = BITMAP_BYTE_COUNT \<and>
     length (contiguous_records s) = FRAME_CONTIGUOUS_ALLOCATION_CAPACITY"

definition frame_inv :: "frame_allocator \<Rightarrow> bool" where
  "frame_inv s \<longleftrightarrow>
     frame_shape s \<and> stats_ok s \<and> records_ok s \<and> next_search_index s < FRAME_COUNT"

lemmas frame_sets = eligible_set_def free_set_def allocated_set_def frame_is_free_def

lemma finite_frame_sets [simp]:
  "finite (eligible_set s)" "finite (free_set s)" "finite (allocated_set s)" "finite (single_set s)"
proof -
  have "A \<subseteq> {..<FRAME_COUNT} \<Longrightarrow> finite A" for A
    using finite_subset by blast
  then show "finite (eligible_set s)" "finite (free_set s)" "finite (allocated_set s)"
    "finite (single_set s)"
    by (auto simp: frame_sets single_set_def)
qed

lemma frame_set_card_less:
  "card (free_set s) \<le> FRAME_COUNT" "card (allocated_set s) \<le> FRAME_COUNT"
proof -
  have bound: "A \<subseteq> {..<FRAME_COUNT} \<Longrightarrow> card A \<le> FRAME_COUNT" for A
    using card_mono [of "{..<FRAME_COUNT}" A] by simp
  show "card (free_set s) \<le> FRAME_COUNT" "card (allocated_set s) \<le> FRAME_COUNT"
    by (rule bound, auto simp: frame_sets)+
qed

lemma free_allocated_partition:
  "free_set s \<union> allocated_set s = eligible_set s" "free_set s \<inter> allocated_set s = {}"
  by (auto simp: frame_sets)

lemma frame_index_bound [simp]:
  "frame_shape s \<Longrightarrow> f < FRAME_COUNT \<Longrightarrow> f < 8 * length (used_bitmap s)"
  "frame_shape s \<Longrightarrow> f < FRAME_COUNT \<Longrightarrow> f < 8 * length (eligible_bitmap s)"
  by (simp_all add: frame_shape_def BITMAP_BYTE_COUNT_val FRAME_COUNT_val)

lemma contiguous_set_nth:
  "contiguous_set s = (\<Union>i < length (contiguous_records s). record_frames (contiguous_records s ! i))"
  unfolding contiguous_set_def set_conv_nth by blast

lemma frame_in_contiguous_allocation_iff:
  "length (contiguous_records s) = FRAME_CONTIGUOUS_ALLOCATION_CAPACITY \<Longrightarrow>
     frame_in_contiguous_allocation (contiguous_records s) f \<longleftrightarrow> f \<in> contiguous_set s"
  unfolding frame_in_contiguous_allocation_def find_from_None_iff contiguous_set_nth
  by (auto simp: record_frames_def Let_def SAPOTE_PAGE_SIZE_def less_diff_conv2)

section \<open>Statistics\<close>

lemma recompute_fold:
  "fold (recompute_step s) [0..<n]
     \<lparr>addressable_frames = a, allocatable_frames = 0, free_frames = 0,
      allocated_frames = 0, reserved_frames = 0, highest_allocatable_address = 0\<rparr> = stats \<Longrightarrow>
   allocatable_frames stats = card {f. f < n \<and> bitmap_get (eligible_bitmap s) f} \<and>
   free_frames stats = card {f. f < n \<and> frame_is_free s f} \<and>
   allocated_frames stats =
     card {f. f < n \<and> bitmap_get (eligible_bitmap s) f \<and> bitmap_get (used_bitmap s) f}"
proof (induction n arbitrary: stats)
  case 0
  then show ?case by auto
next
  case (Suc n)
  have step: "{f. f < Suc n \<and> P f} = (if P n then insert n {f. f < n \<and> P f} else {f. f < n \<and> P f})"
    for P by (auto simp: less_Suc_eq)
  define prev where "prev = fold (recompute_step s) [0..<n]
     \<lparr>addressable_frames = a, allocatable_frames = 0, free_frames = 0,
      allocated_frames = 0, reserved_frames = 0, highest_allocatable_address = 0\<rparr>"
  from Suc.prems have stats: "stats = recompute_step s n prev" by (simp add: prev_def)
  show ?case
    using Suc.IH [OF prev_def [symmetric]] unfolding stats step
    by (auto simp: recompute_step_def frame_is_free_def Let_def)
qed

lemma recompute_stats_ok: "stats_ok (recompute_stats s)"
proof -
  have "eligible_set (recompute_stats s) = eligible_set s"
    "free_set (recompute_stats s) = free_set s" "allocated_set (recompute_stats s) = allocated_set s"
    by (simp_all add: frame_sets recompute_stats_def)
  then show ?thesis
    using recompute_fold [where s = s and n = FRAME_COUNT, OF refl]
    by (simp add: stats_ok_def recompute_stats_def frame_sets)
qed

section \<open>Updating one frame or a run\<close>

lemma used_update_sets:
  assumes "frame_shape s" "f < FRAME_COUNT"
    and "s' = s\<lparr>used_bitmap := bitmap_set (used_bitmap s) f v\<rparr>"
    and "f \<in> eligible_set s"
  shows "free_set s' = (if v then free_set s - {f} else insert f (free_set s))"
    and "allocated_set s' = (if v then insert f (allocated_set s) else allocated_set s - {f})"
    and "eligible_set s' = eligible_set s"
  using assms by (auto simp: frame_sets bitmap_get_set split: if_splits)

lemma used_run_sets:
  assumes "frame_shape s" "first + n \<le> FRAME_COUNT"
    and "s' = s\<lparr>used_bitmap := mark_run (used_bitmap s) first n v\<rparr>"
    and "{first..<first + n} \<subseteq> eligible_set s"
  shows "free_set s' = (if v then free_set s - {first..<first + n}
                        else free_set s \<union> {first..<first + n})"
    and "allocated_set s' = (if v then allocated_set s \<union> {first..<first + n}
                             else allocated_set s - {first..<first + n})"
    and "eligible_set s' = eligible_set s"
proof -
  have "first + n \<le> 8 * length (used_bitmap s)"
    using assms(1,2) by (simp add: frame_shape_def BITMAP_BYTE_COUNT_val FRAME_COUNT_val)
  note get = bitmap_get_mark_run [OF this]
  show "free_set s' = (if v then free_set s - {first..<first + n}
                        else free_set s \<union> {first..<first + n})"
    and "allocated_set s' = (if v then allocated_set s \<union> {first..<first + n}
                             else allocated_set s - {first..<first + n})"
    and "eligible_set s' = eligible_set s"
    using assms(3,4) by (auto simp: frame_sets get split: if_splits)
qed

text \<open>The remaining components do not touch the sets.\<close>

lemma frame_sets_frame [simp]:
  "free_set (s\<lparr>allocator_stats := st\<rparr>) = free_set s"
  "free_set (s\<lparr>next_search_index := i\<rparr>) = free_set s"
  "free_set (s\<lparr>contiguous_records := rs\<rparr>) = free_set s"
  "free_set (s\<lparr>next_contiguous_identifier := i\<rparr>) = free_set s"
  "allocated_set (s\<lparr>allocator_stats := st\<rparr>) = allocated_set s"
  "allocated_set (s\<lparr>next_search_index := i\<rparr>) = allocated_set s"
  "allocated_set (s\<lparr>contiguous_records := rs\<rparr>) = allocated_set s"
  "allocated_set (s\<lparr>next_contiguous_identifier := i\<rparr>) = allocated_set s"
  "eligible_set (s\<lparr>allocator_stats := st\<rparr>) = eligible_set s"
  "eligible_set (s\<lparr>next_search_index := i\<rparr>) = eligible_set s"
  "eligible_set (s\<lparr>contiguous_records := rs\<rparr>) = eligible_set s"
  "eligible_set (s\<lparr>next_contiguous_identifier := i\<rparr>) = eligible_set s"
  "contiguous_set (s\<lparr>allocator_stats := st\<rparr>) = contiguous_set s"
  "contiguous_set (s\<lparr>next_search_index := i\<rparr>) = contiguous_set s"
  "contiguous_set (s\<lparr>used_bitmap := u\<rparr>) = contiguous_set s"
  "contiguous_set (s\<lparr>next_contiguous_identifier := i\<rparr>) = contiguous_set s"
  by (simp_all add: frame_sets contiguous_set_def)

section \<open>Single frames: correctness\<close>

lemma search_frame_mod:
  assumes "next_search_index s < FRAME_COUNT" "step < FRAME_COUNT"
  shows "search_frame s step = (next_search_index s + step) mod FRAME_COUNT"
  using assms
  by (simp add: search_frame_def Let_def add64_id sub64_id FRAME_COUNT_val mod_if)

lemma search_frame_covers:
  assumes "next_search_index s < FRAME_COUNT" "f < FRAME_COUNT"
  shows "\<exists>step < FRAME_COUNT. search_frame s step = f"
proof (cases "next_search_index s \<le> f")
  case True
  with assms show ?thesis
    by (intro exI [of _ "f - next_search_index s"]) (simp add: search_frame_mod)
next
  case False
  with assms show ?thesis
    by (intro exI [of _ "f + FRAME_COUNT - next_search_index s"]) (simp add: search_frame_mod)
qed

text \<open>What a state change by one frame needs to keep the invariant.\<close>

lemma frame_inv_single_update:
  assumes inv: "frame_inv s" and f: "f \<in> eligible_set s" "f \<notin> contiguous_set s"
    and s': "s' = s\<lparr>used_bitmap := bitmap_set (used_bitmap s) f v,
                  allocator_stats := (allocator_stats s)\<lparr>free_frames := nfree,
                    allocated_frames := nalloc\<rparr>,
                  next_search_index := i\<rparr>"
    and i: "i < FRAME_COUNT"
    and counts: "nfree = card (if v then free_set s - {f} else insert f (free_set s))"
      "nalloc = card (if v then insert f (allocated_set s) else allocated_set s - {f})"
  shows "frame_inv s'"
    and "free_set s' = (if v then free_set s - {f} else insert f (free_set s))"
    and "single_set s' = (if v then insert f (single_set s) else single_set s - {f})"
    and "eligible_set s' = eligible_set s"
proof -
  have shape: "frame_shape s" and fb: "f < FRAME_COUNT"
    using inv f(1) by (auto simp: frame_inv_def eligible_set_def)
  note upd = used_update_sets [OF shape fb refl f(1), of v]
  have sets: "free_set s' = (if v then free_set s - {f} else insert f (free_set s))"
    "allocated_set s' = (if v then insert f (allocated_set s) else allocated_set s - {f})"
    "eligible_set s' = eligible_set s" "contiguous_set s' = contiguous_set s"
    "contiguous_records s' = contiguous_records s"
    unfolding s' by (simp_all add: upd)
  show "free_set s' = (if v then free_set s - {f} else insert f (free_set s))"
    "eligible_set s' = eligible_set s" by (fact sets)+
  show "single_set s' = (if v then insert f (single_set s) else single_set s - {f})"
    using f(2) by (auto simp: single_set_def sets)
  have "frame_shape s'" using shape by (simp add: s' frame_shape_def)
  moreover have "stats_ok s'"
    using inv unfolding stats_ok_def sets counts by (simp add: s' counts frame_inv_def stats_ok_def)
  moreover have "records_ok s'"
    using inv f(2) unfolding frame_inv_def records_ok_def sets by auto
  ultimately show "frame_inv s'" using i by (simp add: frame_inv_def s')
qed

lemma frame_allocate_empty:
  assumes "frame_inv s" "allocator_initialized s" "free_set s = {}"
  shows "frame_allocate False s = (FRAME_STATUS_OUT_OF_MEMORY, None, s)"
  using assms by (simp add: frame_allocate_def frame_inv_def stats_ok_def)

lemma frame_allocate_some:
  assumes inv: "frame_inv s" and init: "allocator_initialized s" and ne: "free_set s \<noteq> {}"
  shows "\<exists>f s'. frame_allocate False s = (FRAME_STATUS_OK, Some (f * 4096), s') \<and>
    f \<in> free_set s \<and> free_set s' = free_set s - {f} \<and>
    single_set s' = insert f (single_set s) \<and> eligible_set s' = eligible_set s \<and>
    contiguous_records s' = contiguous_records s \<and>
    frame_inv s' \<and> allocator_initialized s'"
proof -
  have ni: "next_search_index s < FRAME_COUNT" and st: "stats_ok s" and ro: "records_ok s"
    using inv by (simp_all add: frame_inv_def)
  obtain g where "g \<in> free_set s" using ne by blast
  then obtain k where k: "k < FRAME_COUNT" "frame_is_free s (search_frame s k)"
    using search_frame_covers [OF ni] by (auto simp: free_set_def)
  then obtain step where step:
    "find_from (\<lambda>step. frame_is_free s (search_frame s step)) 0 FRAME_COUNT = Some step"
    using find_from_exists [of 0 k FRAME_COUNT "\<lambda>step. frame_is_free s (search_frame s step)"]
    by auto
  define f where "f = search_frame s step"
  from find_from_SomeD [OF step] have stepb: "step < FRAME_COUNT" and fr: "frame_is_free s f"
    by (auto simp: f_def)
  have fb: "f < FRAME_COUNT"
    using stepb by (simp add: f_def search_frame_mod [OF ni] FRAME_COUNT_val)
  with fr have ff: "f \<in> free_set s" by (simp add: free_set_def)
  then have fe: "f \<in> eligible_set s" "f \<notin> allocated_set s"
    using free_allocated_partition [of s] by auto
  with ro have fc: "f \<notin> contiguous_set s" by (auto simp: records_ok_def)
  have pos: "0 < card (free_set s)" using ne by (simp add: card_gt_0_iff)
  define s' where "s' = s\<lparr>used_bitmap := bitmap_set (used_bitmap s) f True,
      allocator_stats := (allocator_stats s)\<lparr>free_frames := card (free_set s) - 1,
        allocated_frames := card (allocated_set s) + 1\<rparr>,
      next_search_index := (if f + 1 = FRAME_COUNT then 0 else f + 1)\<rparr>"
  have "sub64 (free_frames (allocator_stats s)) 1 = card (free_set s) - 1"
    "add64 (allocated_frames (allocator_stats s)) 1 = card (allocated_set s) + 1"
    using st pos frame_set_card_less [of s]
    by (simp_all add: stats_ok_def FRAME_COUNT_val c_arith)
  moreover have "mul64 f SAPOTE_PAGE_SIZE = f * 4096"
    using fb by (simp add: SAPOTE_PAGE_SIZE_def FRAME_COUNT_val mul64_id)
  ultimately have run: "frame_allocate False s = (FRAME_STATUS_OK, Some (f * 4096), s')"
    using init pos st step ne
    by (simp add: frame_allocate_def s'_def f_def [symmetric] Let_def stats_ok_def)
  have nidx: "(if f + 1 = FRAME_COUNT then 0 else f + 1) < FRAME_COUNT"
    using fb by (simp add: FRAME_COUNT_val)
  have "card (free_set s) - 1 = card (if True then free_set s - {f} else insert f (free_set s))"
    "card (allocated_set s) + 1 = card (if True then insert f (allocated_set s) else allocated_set s - {f})"
    using ff fe(2) by simp_all
  from frame_inv_single_update [OF inv fe(1) fc s'_def nidx this]
  show ?thesis using run ff init
    by (intro exI [of _ f] exI [of _ s']) (simp add: s'_def)
qed

lemma frame_release_ok:
  assumes inv: "frame_inv s" and init: "allocator_initialized s" and f: "f \<in> single_set s"
  shows "\<exists>s'. frame_release (f * 4096) s = (FRAME_STATUS_OK, s') \<and>
    free_set s' = insert f (free_set s) \<and> single_set s' = single_set s - {f} \<and>
    eligible_set s' = eligible_set s \<and> contiguous_records s' = contiguous_records s \<and>
    frame_inv s' \<and> allocator_initialized s'"
proof -
  have st: "stats_ok s" and ni: "next_search_index s < FRAME_COUNT" and sh: "frame_shape s"
    using inv by (simp_all add: frame_inv_def)
  from f have fa: "f \<in> allocated_set s" and fc: "f \<notin> contiguous_set s"
    by (simp_all add: single_set_def)
  then have fe: "f \<in> eligible_set s" and fb: "f < FRAME_COUNT" and fu: "bitmap_get (used_bitmap s) f"
    and ff: "f \<notin> free_set s" by (auto simp: frame_sets)
  have pos: "0 < card (allocated_set s)" using fa by (auto simp: card_gt_0_iff)
  define s' where "s' = s\<lparr>used_bitmap := bitmap_set (used_bitmap s) f False,
      allocator_stats := (allocator_stats s)\<lparr>free_frames := card (free_set s) + 1,
        allocated_frames := card (allocated_set s) - 1\<rparr>,
      next_search_index := (if f < next_search_index s then f else next_search_index s)\<rparr>"
  have cnt: "add64 (free_frames (allocator_stats s)) 1 = card (free_set s) + 1"
    "sub64 (allocated_frames (allocator_stats s)) 1 = card (allocated_set s) - 1"
    using st pos frame_set_card_less [of s]
    by (simp_all add: stats_ok_def FRAME_COUNT_val c_arith)
  have "\<not> frame_in_contiguous_allocation (contiguous_records s) f"
    using fc frame_in_contiguous_allocation_iff sh by (simp add: frame_shape_def)
  with fe fu fb init cnt have run: "frame_release (f * 4096) s = (FRAME_STATUS_OK, s')"
    by (simp add: frame_release_def frame_consts s'_def Let_def FRAME_COUNT_val eligible_set_def)
  have nidx: "(if f < next_search_index s then f else next_search_index s) < FRAME_COUNT"
    using ni fb by simp
  have "card (free_set s) + 1 = card (if False then free_set s - {f} else insert f (free_set s))"
    "card (allocated_set s) - 1 = card (if False then insert f (allocated_set s) else allocated_set s - {f})"
    using ff fa by simp_all
  from frame_inv_single_update [OF inv fe fc s'_def nidx this]
  show ?thesis using run init by (intro exI [of _ s']) (simp add: s'_def)
qed

text \<open>Every refusal of \<open>frame_release\<close>, by name, leaves the state untouched.\<close>

lemma frame_release_refusals:
  assumes inv: "frame_inv s" and init: "allocator_initialized s"
  shows "addr mod 4096 \<noteq> 0 \<Longrightarrow> frame_release addr s = (FRAME_STATUS_UNALIGNED_ADDRESS, s)"
    and "FRAME_COUNT \<le> f \<Longrightarrow> frame_release (f * 4096) s = (FRAME_STATUS_RANGE_OUTSIDE_LIMIT, s)"
    and "f < FRAME_COUNT \<Longrightarrow> f \<notin> eligible_set s \<Longrightarrow>
      frame_release (f * 4096) s = (FRAME_STATUS_FRAME_NOT_ALLOCATABLE, s)"
    and "f \<in> free_set s \<Longrightarrow> frame_release (f * 4096) s = (FRAME_STATUS_DOUBLE_FREE, s)"
    and "f \<in> contiguous_set s \<Longrightarrow> frame_release (f * 4096) s = (FRAME_STATUS_FRAME_IN_USE, s)"
proof -
  show "addr mod 4096 \<noteq> 0 \<Longrightarrow> frame_release addr s = (FRAME_STATUS_UNALIGNED_ADDRESS, s)"
    using init by (simp add: frame_release_def frame_consts)
  show "FRAME_COUNT \<le> f \<Longrightarrow> frame_release (f * 4096) s = (FRAME_STATUS_RANGE_OUTSIDE_LIMIT, s)"
    using init by (simp add: frame_release_def frame_consts FRAME_COUNT_val)
  show "f < FRAME_COUNT \<Longrightarrow> f \<notin> eligible_set s \<Longrightarrow>
      frame_release (f * 4096) s = (FRAME_STATUS_FRAME_NOT_ALLOCATABLE, s)"
    using init by (simp add: frame_release_def frame_consts FRAME_COUNT_val eligible_set_def)
  show "f \<in> free_set s \<Longrightarrow> frame_release (f * 4096) s = (FRAME_STATUS_DOUBLE_FREE, s)"
    using init by (simp add: frame_release_def frame_consts FRAME_COUNT_val frame_sets)
  have "f \<in> contiguous_set s \<Longrightarrow> f \<in> allocated_set s"
    using inv by (auto simp: frame_inv_def records_ok_def)
  then show "f \<in> contiguous_set s \<Longrightarrow> frame_release (f * 4096) s = (FRAME_STATUS_FRAME_IN_USE, s)"
    using init inv frame_in_contiguous_allocation_iff [of s f]
    by (auto simp: frame_release_def frame_consts FRAME_COUNT_val frame_sets frame_inv_def
        frame_shape_def Let_def)
qed

section \<open>Contiguous runs: correctness\<close>

lemma contiguous_set_update:
  assumes "i < length (contiguous_records s)"
  shows "contiguous_set (s\<lparr>contiguous_records := (contiguous_records s)[i := r]\<rparr>) =
    (\<Union>j \<in> {j. j < length (contiguous_records s) \<and> j \<noteq> i}.
       record_frames (contiguous_records s ! j)) \<union> record_frames r"
  using assms by (auto simp: contiguous_set_nth nth_list_update split: if_splits)

lemma contiguous_set_split:
  assumes "i < length (contiguous_records s)"
  shows "contiguous_set s =
    (\<Union>j \<in> {j. j < length (contiguous_records s) \<and> j \<noteq> i}.
       record_frames (contiguous_records s ! j)) \<union> record_frames (contiguous_records s ! i)"
  using assms by (auto simp: contiguous_set_nth)

lemma run_is_available_iff:
  "first + n \<le> FRAME_COUNT \<Longrightarrow>
     run_is_available s first n \<longleftrightarrow> {first..<first + n} \<subseteq> free_set s"
proof -
  assume n: "first + n \<le> FRAME_COUNT"
  have "run_is_available s first n \<longleftrightarrow> (\<forall>k < n. frame_is_free s (first + k))"
    by (simp add: run_is_available_def find_from_None_iff frame_is_free_def)
  also have "\<dots> \<longleftrightarrow> (\<forall>f \<in> {first..<first + n}. frame_is_free s f)"
    by (auto simp: le_iff_add)
  finally show ?thesis using n by (auto simp: free_set_def subset_iff)
qed

lemma record_frames_slot:
  "n \<noteq> 0 \<Longrightarrow> record_frames \<lparr>cr_physical_base = first * 4096, cr_page_count = n,
     cr_identifier = k, cr_active = True\<rparr> = {first..<first + n}"
  by (simp add: record_frames_def)

text \<open>
  Installing a run in an idle slot, and taking one back: the invariant and the four
  sets.
\<close>

lemma frame_inv_run_installed:
  assumes inv: "frame_inv s" and slot: "i < FRAME_CONTIGUOUS_ALLOCATION_CAPACITY"
    "\<not> cr_active (contiguous_records s ! i)"
    and run: "first + n \<le> FRAME_COUNT" "{first..<first + n} \<subseteq> free_set s" "0 < n"
    and s': "s' = s\<lparr>used_bitmap := mark_run (used_bitmap s) first n True,
        contiguous_records := (contiguous_records s)
          [i := \<lparr>cr_physical_base = first * 4096, cr_page_count = n,
                 cr_identifier = k, cr_active = True\<rparr>],
        next_contiguous_identifier := k',
        allocator_stats := (allocator_stats s)\<lparr>free_frames := card (free_set s) - n,
          allocated_frames := card (allocated_set s) + n\<rparr>,
        next_search_index := idx\<rparr>"
    and idx: "idx < FRAME_COUNT"
  shows "frame_inv s'" and "free_set s' = free_set s - {first..<first + n}"
    and "contiguous_set s' = contiguous_set s \<union> {first..<first + n}"
    and "single_set s' = single_set s" and "eligible_set s' = eligible_set s"
proof -
  let ?F = "{first..<first + n}"
  let ?r = "\<lparr>cr_physical_base = first * 4096, cr_page_count = n, cr_identifier = k, cr_active = True\<rparr>"
  have shape: "frame_shape s" and st: "stats_ok s" and ro: "records_ok s"
    using inv by (simp_all add: frame_inv_def)
  have len: "i < length (contiguous_records s)" using shape slot by (simp add: frame_shape_def)
  have Fe: "?F \<subseteq> eligible_set s" and Fa: "?F \<inter> allocated_set s = {}"
    using run(2) free_allocated_partition [of s] by auto
  have Fc: "?F \<inter> contiguous_set s = {}" using Fa ro by (auto simp: records_ok_def)
  have rF: "record_frames ?r = ?F" using run(3) by (simp add: record_frames_slot)
  note upd = used_run_sets [OF shape run(1) refl Fe, of True]
  have sets: "free_set s' = free_set s - ?F" "allocated_set s' = allocated_set s \<union> ?F"
    "eligible_set s' = eligible_set s"
    unfolding s' by (simp_all add: upd)
  have "contiguous_set s' =
      contiguous_set (s\<lparr>contiguous_records := (contiguous_records s)[i := ?r]\<rparr>)"
    by (simp add: s' contiguous_set_def)
  then have cs: "contiguous_set s' = contiguous_set s \<union> ?F"
    using contiguous_set_update [OF len, of ?r] contiguous_set_split [OF len] slot(2) rF
    by (simp add: record_frames_def)
  show "free_set s' = free_set s - ?F" "eligible_set s' = eligible_set s"
    "contiguous_set s' = contiguous_set s \<union> ?F" by (fact sets cs)+
  show "single_set s' = single_set s"
    using Fa by (auto simp: single_set_def sets cs)
  have recs: "contiguous_records s' = (contiguous_records s)[i := ?r]" by (simp add: s')
  have away: "record_frames (contiguous_records s ! j) \<inter> ?F = {}"
    if "j < length (contiguous_records s)" for j
    using Fc that by (auto simp: contiguous_set_nth)
  have "records_ok s'"
    unfolding records_ok_def
  proof (intro conjI allI impI)
    show "contiguous_set s' \<subseteq> allocated_set s'" using ro cs sets by (auto simp: records_ok_def)
  next
    fix j assume "j < length (contiguous_records s')" "cr_active (contiguous_records s' ! j)"
    then show "cr_physical_base (contiguous_records s' ! j) mod 4096 = 0"
      "0 < cr_page_count (contiguous_records s' ! j)"
      using ro run(3) len by (cases "j = i"; simp add: recs records_ok_def)+
  next
    fix j l assume "j < length (contiguous_records s')" "l < length (contiguous_records s')" "j \<noteq> l"
    then show "record_frames (contiguous_records s' ! j) \<inter> record_frames (contiguous_records s' ! l) = {}"
      using ro away rF len unfolding recs
      by (cases "j = i"; cases "l = i"; simp add: records_ok_def Int_commute)
  qed
  moreover have "stats_ok s'"
    using st run(2) Fa unfolding stats_ok_def sets
    by (simp add: s' card_Diff_subset card_Un_disjoint Int_commute)
  ultimately show "frame_inv s'"
    using shape idx by (simp add: frame_inv_def frame_shape_def s')
qed

lemma frame_inv_run_removed:
  assumes inv: "frame_inv s" and slot: "i < FRAME_CONTIGUOUS_ALLOCATION_CAPACITY"
    and r: "r = contiguous_records s ! i" "cr_active r"
    and fn: "first = cr_physical_base r div 4096" "n = cr_page_count r"
    and s': "s' = s\<lparr>used_bitmap := mark_run (used_bitmap s) first n False,
        allocator_stats := (allocator_stats s)\<lparr>free_frames := card (free_set s) + n,
          allocated_frames := card (allocated_set s) - n\<rparr>,
        next_search_index := idx,
        contiguous_records := (contiguous_records s)[i := r\<lparr>cr_active := False\<rparr>]\<rparr>"
    and idx: "idx < FRAME_COUNT"
  shows "frame_inv s'" and "free_set s' = free_set s \<union> {first..<first + n}"
    and "contiguous_set s' = contiguous_set s - {first..<first + n}"
    and "single_set s' = single_set s" and "eligible_set s' = eligible_set s"
proof -
  let ?F = "{first..<first + n}"
  have shape: "frame_shape s" and st: "stats_ok s" and ro: "records_ok s"
    using inv by (simp_all add: frame_inv_def)
  have len: "i < length (contiguous_records s)" using shape slot by (simp add: frame_shape_def)
  have rF: "record_frames r = ?F" using r(2) fn by (simp add: record_frames_def)
  then have Fc: "?F \<subseteq> contiguous_set s" using len r(1) by (auto simp: contiguous_set_nth)
  then have Fa: "?F \<subseteq> allocated_set s" using ro by (auto simp: records_ok_def)
  then have Fe: "?F \<subseteq> eligible_set s" and Ff: "?F \<inter> free_set s = {}"
    using free_allocated_partition [of s] by auto
  have n0: "0 < n" using ro len r fn by (simp add: records_ok_def)
  have "first + n - 1 \<in> ?F" using n0 by auto
  with Fe have bound: "first + n \<le> FRAME_COUNT" by (auto simp: eligible_set_def)
  note upd = used_run_sets [OF shape bound refl Fe, of False]
  have sets: "free_set s' = free_set s \<union> ?F" "allocated_set s' = allocated_set s - ?F"
    "eligible_set s' = eligible_set s"
    unfolding s' by (simp_all add: upd)
  have away: "record_frames (contiguous_records s ! j) \<inter> ?F = {}"
    if "j < length (contiguous_records s)" "j \<noteq> i" for j
    unfolding rF [symmetric] r(1) using ro that len by (simp add: records_ok_def)
  have "contiguous_set s' = contiguous_set
      (s\<lparr>contiguous_records := (contiguous_records s)[i := r\<lparr>cr_active := False\<rparr>]\<rparr>)"
    by (simp add: s' contiguous_set_def)
  moreover have "(\<Union>j \<in> {j. j < length (contiguous_records s) \<and> j \<noteq> i}.
       record_frames (contiguous_records s ! j)) \<inter> ?F = {}"
    using away by blast
  moreover have idle: "record_frames (r\<lparr>cr_active := False\<rparr>) = {}" by (simp add: record_frames_def)
  ultimately have cs: "contiguous_set s' = contiguous_set s - ?F"
    using contiguous_set_update [OF len, of "r\<lparr>cr_active := False\<rparr>"]
      contiguous_set_split [OF len] rF [symmetric] r(1)
    by (simp add: Un_Diff Diff_triv)
  show "free_set s' = free_set s \<union> ?F" "eligible_set s' = eligible_set s"
    "contiguous_set s' = contiguous_set s - ?F" by (fact sets cs)+
  show "single_set s' = single_set s" using Fc by (auto simp: single_set_def sets cs)
  have recs: "contiguous_records s' = (contiguous_records s)[i := r\<lparr>cr_active := False\<rparr>]"
    by (simp add: s')
  have "records_ok s'"
    unfolding records_ok_def
  proof (intro conjI allI impI)
    show "contiguous_set s' \<subseteq> allocated_set s'" using ro cs sets by (auto simp: records_ok_def)
  next
    fix j assume "j < length (contiguous_records s')" "cr_active (contiguous_records s' ! j)"
    then show "cr_physical_base (contiguous_records s' ! j) mod 4096 = 0"
      "0 < cr_page_count (contiguous_records s' ! j)"
      using ro len by (cases "j = i"; simp add: recs records_ok_def)+
  next
    fix j l assume "j < length (contiguous_records s')" "l < length (contiguous_records s')" "j \<noteq> l"
    then show "record_frames (contiguous_records s' ! j) \<inter> record_frames (contiguous_records s' ! l) = {}"
      using ro len idle unfolding recs
      by (cases "j = i"; cases "l = i"; simp add: records_ok_def)
  qed
  moreover have "stats_ok s'"
    using st Fa Ff unfolding stats_ok_def sets
    by (simp add: s' card_Diff_subset card_Un_disjoint Int_commute)
  ultimately show "frame_inv s'"
    using shape idx by (simp add: frame_inv_def frame_shape_def s')
qed

text \<open>What the request checks establish.\<close>

definition request_wf :: "frame_contiguous_request \<Rightarrow> bool" where
  "request_wf rq \<longleftrightarrow> rq_page_count rq < 2 ^ 64 \<and> rq_alignment rq < 2 ^ 64 \<and>
     rq_maximum_physical_address rq < 2 ^ 64"

lemma maximum_past_frame_le:
  assumes "request_wf rq"
  shows "maximum_past_frame rq \<le> FRAME_COUNT"
    and "f < maximum_past_frame rq \<Longrightarrow> f * 4096 + 4095 \<le> rq_maximum_physical_address rq"
proof -
  define m where "m = rq_maximum_physical_address rq"
  define b where "b = min (if m = UINT64_MAX then UINT64_MAX else m + 1) 4294967296"
  have m: "m < 2 ^ 64" using assms by (simp add: request_wf_def m_def)
  have "maximum_past_frame rq = b div 4096"
    using m by (auto simp: maximum_past_frame_def Let_def m_def [symmetric] b_def frame_consts
        add64_id min_def)
  moreover have "b div 4096 \<le> FRAME_COUNT"
    using page_floor_le_iff [of b FRAME_COUNT] by (simp add: b_def FRAME_COUNT_val)
  moreover have "b \<le> m + 1" by (auto simp: b_def)
  ultimately show "maximum_past_frame rq \<le> FRAME_COUNT"
    "f < maximum_past_frame rq \<Longrightarrow> f * 4096 + 4095 \<le> rq_maximum_physical_address rq"
    using less_page_floor_iff [of f b] by (simp_all add: m_def)
qed

lemma contiguous_request_status_OK:
  assumes "request_wf rq" "contiguous_request_status rq = FRAME_STATUS_OK"
  shows "0 < rq_page_count rq" "rq_page_count rq \<le> maximum_past_frame rq"
    "\<exists>n. rq_alignment rq = 2 ^ n \<and> n \<ge> 12"
proof -
  have st: "0 < rq_page_count rq" "rq_page_count rq \<le> maximum_past_frame rq"
    "power_of_two (rq_alignment rq)" "4096 \<le> rq_alignment rq"
    using assms(2)
    by (simp_all add: contiguous_request_status_def Let_def frame_consts split: if_splits)
  show "0 < rq_page_count rq" "rq_page_count rq \<le> maximum_past_frame rq" by fact+
  have "rq_alignment rq AND (rq_alignment rq - 1) = 0" "rq_alignment rq \<noteq> 0"
    using st(3,4) assms(1) by (simp_all add: power_of_two_def sub64_id request_wf_def)
  then obtain n where n: "rq_alignment rq = 2 ^ n" using and_pred_zero_power by blast
  then have "2 ^ 12 \<le> (2::nat) ^ n" using st(4) by simp
  with n show "\<exists>n. rq_alignment rq = 2 ^ n \<and> n \<ge> 12"
    by (metis one_less_numeral_iff power_increasing_iff semiring_norm(76))
qed

lemma alignment_test_iff:
  assumes "request_wf rq" "contiguous_request_status rq = FRAME_STATUS_OK" "first \<le> FRAME_COUNT"
  shows "(mul64 first SAPOTE_PAGE_SIZE AND sub64 (rq_alignment rq) 1) = 0 \<longleftrightarrow>
    rq_alignment rq dvd first * 4096"
proof -
  obtain n where n: "rq_alignment rq = 2 ^ n" using contiguous_request_status_OK [OF assms(1,2)] by auto
  have "sub64 (rq_alignment rq) 1 = 2 ^ n - 1"
    using assms(1) n by (subst sub64_id) (simp_all add: request_wf_def)
  moreover have "mul64 first SAPOTE_PAGE_SIZE = first * 4096"
    using assms(3) by (simp add: SAPOTE_PAGE_SIZE_def mul64_id FRAME_COUNT_val)
  ultimately show ?thesis by (simp only: and_low_mask n mod_eq_0_iff_dvd)
qed

text \<open>The runs a request accepts, as a set of first frames.\<close>

definition fitting_runs :: "frame_contiguous_request \<Rightarrow> frame_allocator \<Rightarrow> nat set" where
  "fitting_runs rq s = {first. first + rq_page_count rq \<le> maximum_past_frame rq \<and>
     rq_alignment rq dvd first * 4096 \<and> {first..<first + rq_page_count rq} \<subseteq> free_set s}"

lemma contiguous_search_iff:
  assumes wf: "request_wf rq" and ok: "contiguous_request_status rq = FRAME_STATUS_OK"
  shows "first < maximum_past_frame rq - rq_page_count rq + 1 \<and>
      (mul64 first SAPOTE_PAGE_SIZE AND sub64 (rq_alignment rq) 1) = 0 \<and>
      run_is_available s first (rq_page_count rq) \<longleftrightarrow> first \<in> fitting_runs rq s"
proof -
  have "first < maximum_past_frame rq - rq_page_count rq + 1 \<longleftrightarrow>
      first + rq_page_count rq \<le> maximum_past_frame rq"
    using contiguous_request_status_OK(2) [OF wf ok] by linarith
  moreover have "first + rq_page_count rq \<le> FRAME_COUNT \<and> first \<le> FRAME_COUNT"
    if "first + rq_page_count rq \<le> maximum_past_frame rq"
    using maximum_past_frame_le(1) [OF wf] that by linarith
  ultimately show ?thesis
    using alignment_test_iff [OF wf ok, of first] run_is_available_iff [of first "rq_page_count rq" s]
    by (auto simp: fitting_runs_def)
qed

lemma frame_allocate_contiguous_some:
  assumes inv: "frame_inv s" and init: "allocator_initialized s" and wf: "request_wf rq"
    and ok: "contiguous_request_status rq = FRAME_STATUS_OK"
    and slot: "\<exists>i < FRAME_CONTIGUOUS_ALLOCATION_CAPACITY. \<not> cr_active (contiguous_records s ! i)"
    and fits: "fitting_runs rq s \<noteq> {}"
  obtains first i s' where
    "frame_allocate_contiguous (Some rq) False s = (FRAME_STATUS_OK,
       \<lparr>fc_physical_base = first * 4096, fc_page_count = rq_page_count rq,
        fc_alignment = rq_alignment rq,
        fc_maximum_physical_address = rq_maximum_physical_address rq,
        fc_identifier = next_contiguous_identifier s, fc_active = True\<rparr>, s')"
    and "first \<in> fitting_runs rq s" and "\<forall>g \<in> fitting_runs rq s. first \<le> g"
    and "free_set s' = free_set s - {first..<first + rq_page_count rq}"
    and "contiguous_set s' = contiguous_set s \<union> {first..<first + rq_page_count rq}"
    and "single_set s' = single_set s" and "eligible_set s' = eligible_set s"
    and "i < FRAME_CONTIGUOUS_ALLOCATION_CAPACITY" and "\<not> cr_active (contiguous_records s ! i)"
    and "contiguous_records s' = (contiguous_records s)
       [i := \<lparr>cr_physical_base = first * 4096, cr_page_count = rq_page_count rq,
              cr_identifier = next_contiguous_identifier s, cr_active = True\<rparr>]"
    and "frame_inv s'" and "allocator_initialized s'"
proof -
  let ?n = "rq_page_count rq"
  let ?fits = "\<lambda>first. (mul64 first SAPOTE_PAGE_SIZE AND sub64 (rq_alignment rq) 1) = 0 \<and>
      run_is_available s first ?n"
  obtain i where i: "find_from (\<lambda>index. \<not> cr_active (contiguous_records s ! index)) 0
      FRAME_CONTIGUOUS_ALLOCATION_CAPACITY = Some i"
    using slot find_from_exists [of 0 _ _ "\<lambda>index. \<not> cr_active (contiguous_records s ! index)"] by auto
  note iD = find_from_SomeD [OF i]
  obtain g where "g \<in> fitting_runs rq s" using fits by blast
  then obtain first where first:
    "find_from ?fits 0 (maximum_past_frame rq - ?n + 1) = Some first"
    using contiguous_search_iff [OF wf ok, of g s]
      find_from_exists [of 0 g "maximum_past_frame rq - ?n + 1" ?fits] by auto
  note fD = find_from_SomeD [OF first]
  have fit: "first \<in> fitting_runs rq s" using fD contiguous_search_iff [OF wf ok, of first s] by simp
  have least: "first \<le> g" if "g \<in> fitting_runs rq s" for g
    using that fD contiguous_search_iff [OF wf ok, of g s] by (meson le0 not_le)
  have run: "first + ?n \<le> FRAME_COUNT" "{first..<first + ?n} \<subseteq> free_set s" "0 < ?n"
    using fit maximum_past_frame_le(1) [OF wf] contiguous_request_status_OK(1) [OF wf ok]
    by (auto simp: fitting_runs_def)
  have st: "stats_ok s" using inv by (simp add: frame_inv_def)
  have n_le: "?n \<le> card (free_set s)" using card_mono [OF _ run(2)] by simp
  have arith: "sub64 (free_frames (allocator_stats s)) ?n = card (free_set s) - ?n"
    "add64 (allocated_frames (allocator_stats s)) ?n = card (allocated_set s) + ?n"
    "mul64 first SAPOTE_PAGE_SIZE = first * 4096"
    using st n_le frame_set_card_less [of s] run(1)
    by (simp_all add: stats_ok_def FRAME_COUNT_val c_arith SAPOTE_PAGE_SIZE_def)
  define s' where "s' = s\<lparr>used_bitmap := mark_run (used_bitmap s) first ?n True,
        contiguous_records := (contiguous_records s)
          [i := \<lparr>cr_physical_base = first * 4096, cr_page_count = ?n,
                 cr_identifier = next_contiguous_identifier s, cr_active = True\<rparr>],
        next_contiguous_identifier := (let next = add64 (next_contiguous_identifier s) 1 in
          if next = 0 then 1 else next),
        allocator_stats := (allocator_stats s)\<lparr>free_frames := card (free_set s) - ?n,
          allocated_frames := card (allocated_set s) + ?n\<rparr>,
        next_search_index := (if first + ?n \<ge> FRAME_COUNT then 0 else first + ?n)\<rparr>"
  have res: "frame_allocate_contiguous (Some rq) False s = (FRAME_STATUS_OK,
      \<lparr>fc_physical_base = first * 4096, fc_page_count = rq_page_count rq,
         fc_alignment = rq_alignment rq,
         fc_maximum_physical_address = rq_maximum_physical_address rq,
         fc_identifier = next_contiguous_identifier s, fc_active = True\<rparr>, s')"
    using init ok i first by (simp add: frame_allocate_contiguous_def Let_def s'_def arith)
  have idx: "(if first + ?n \<ge> FRAME_COUNT then 0 else first + ?n) < FRAME_COUNT"
    by (simp add: FRAME_COUNT_val)
  have islot: "i < FRAME_CONTIGUOUS_ALLOCATION_CAPACITY" "\<not> cr_active (contiguous_records s ! i)"
    using iD by blast+
  note kept = frame_inv_run_installed [OF inv islot run s'_def idx]
  show thesis
    by (rule that [OF res fit _ kept(2-5) islot _ kept(1)]) (use least init in \<open>simp_all add: s'_def\<close>)
qed

lemma frame_allocate_contiguous_refusals:
  assumes inv: "frame_inv s" and init: "allocator_initialized s" and wf: "request_wf rq"
  shows "contiguous_request_status rq \<noteq> FRAME_STATUS_OK \<Longrightarrow>
      frame_allocate_contiguous (Some rq) False s = (contiguous_request_status rq, empty_allocation, s)"
    and "contiguous_request_status rq = FRAME_STATUS_OK \<Longrightarrow>
      \<forall>i < FRAME_CONTIGUOUS_ALLOCATION_CAPACITY. cr_active (contiguous_records s ! i) \<Longrightarrow>
      frame_allocate_contiguous (Some rq) False s =
        (FRAME_STATUS_TOO_MANY_CONTIGUOUS_ALLOCATIONS, empty_allocation, s)"
    and "contiguous_request_status rq = FRAME_STATUS_OK \<Longrightarrow>
      \<exists>i < FRAME_CONTIGUOUS_ALLOCATION_CAPACITY. \<not> cr_active (contiguous_records s ! i) \<Longrightarrow>
      fitting_runs rq s = {} \<Longrightarrow>
      frame_allocate_contiguous (Some rq) False s = (FRAME_STATUS_OUT_OF_MEMORY, empty_allocation, s)"
proof -
  let ?idle = "\<lambda>index. \<not> cr_active (contiguous_records s ! index)"
  let ?fits = "\<lambda>first. (mul64 first SAPOTE_PAGE_SIZE AND sub64 (rq_alignment rq) 1) = 0 \<and>
      run_is_available s first (rq_page_count rq)"
  show "contiguous_request_status rq \<noteq> FRAME_STATUS_OK \<Longrightarrow>
      frame_allocate_contiguous (Some rq) False s = (contiguous_request_status rq, empty_allocation, s)"
    using init by (simp add: frame_allocate_contiguous_def)
  show "frame_allocate_contiguous (Some rq) False s =
        (FRAME_STATUS_TOO_MANY_CONTIGUOUS_ALLOCATIONS, empty_allocation, s)"
    if ok: "contiguous_request_status rq = FRAME_STATUS_OK"
      and full: "\<forall>i < FRAME_CONTIGUOUS_ALLOCATION_CAPACITY. cr_active (contiguous_records s ! i)"
  proof -
    have "find_from ?idle 0 FRAME_CONTIGUOUS_ALLOCATION_CAPACITY = None"
      using full by (simp add: find_from_None_iff)
    with ok init show ?thesis by (simp add: frame_allocate_contiguous_def)
  qed
  show "frame_allocate_contiguous (Some rq) False s = (FRAME_STATUS_OUT_OF_MEMORY, empty_allocation, s)"
    if ok: "contiguous_request_status rq = FRAME_STATUS_OK"
      and idle: "\<exists>i < FRAME_CONTIGUOUS_ALLOCATION_CAPACITY. \<not> cr_active (contiguous_records s ! i)"
      and none: "fitting_runs rq s = {}"
  proof -
    obtain i where i: "find_from ?idle 0 FRAME_CONTIGUOUS_ALLOCATION_CAPACITY = Some i"
      using idle find_from_exists [of 0 _ _ ?idle] by auto
    have "find_from ?fits 0 (maximum_past_frame rq - rq_page_count rq + 1) = None"
      using contiguous_search_iff [OF wf ok, of _ s] none
      unfolding find_from_None_iff by blast
    with ok init i show ?thesis by (simp add: frame_allocate_contiguous_def Let_def)
  qed
qed

lemma frame_release_contiguous_ok:
  assumes inv: "frame_inv s" and init: "allocator_initialized s" and act: "fc_active a"
    and bounds: "cr_physical_base (contiguous_records s ! i) = fc_physical_base a"
      "cr_page_count (contiguous_records s ! i) = fc_page_count a"
    and found: "find_from (\<lambda>index. cr_active (contiguous_records s ! index) \<and>
      cr_identifier (contiguous_records s ! index) = fc_identifier a) 0
      FRAME_CONTIGUOUS_ALLOCATION_CAPACITY = Some i"
    and fn: "first = fc_physical_base a div 4096" "n = fc_page_count a"
  obtains s' where
    "frame_release_contiguous (Some a) s = (FRAME_STATUS_OK, Some (a\<lparr>fc_active := False\<rparr>), s')"
    and "free_set s' = free_set s \<union> {first..<first + n}"
    and "contiguous_set s' = contiguous_set s - {first..<first + n}"
    and "single_set s' = single_set s" and "eligible_set s' = eligible_set s"
    and "contiguous_records s' = (contiguous_records s)
       [i := (contiguous_records s ! i)\<lparr>cr_active := False\<rparr>]"
    and "frame_inv s'" and "allocator_initialized s'"
proof -
  define r where "r = contiguous_records s ! i"
  have slot: "i < FRAME_CONTIGUOUS_ALLOCATION_CAPACITY" "cr_active (contiguous_records s ! i)"
    using find_from_SomeD [OF found] by auto
  have st: "stats_ok s" and ro: "records_ok s" and ni: "next_search_index s < FRAME_COUNT"
    and len: "i < length (contiguous_records s)"
    using inv slot(1) by (simp_all add: frame_inv_def frame_shape_def)
  have rfn: "first = cr_physical_base r div 4096" "n = cr_page_count r"
    using bounds fn by (simp_all add: r_def)
  have rF: "record_frames r = {first..<first + n}"
    using slot(2) rfn by (simp add: record_frames_def r_def)
  then have Fa: "{first..<first + n} \<subseteq> allocated_set s"
    using ro len by (auto simp: records_ok_def contiguous_set_nth r_def)
  have n0: "0 < n" using ro len slot(2) rfn by (simp add: records_ok_def r_def)
  have "first \<in> allocated_set s" using Fa n0 by auto
  then have fb: "first < FRAME_COUNT" by (simp add: frame_sets)
  have "first + k \<in> allocated_set s" if "k < n" for k using Fa that by auto
  then have intact: "find_from (\<lambda>offset. \<not> bitmap_get (eligible_bitmap s) (first + offset) \<or>
      \<not> bitmap_get (used_bitmap s) (first + offset)) 0 n = None"
    by (simp add: find_from_None_iff frame_sets)
  have n_le: "n \<le> card (allocated_set s)" using card_mono [OF _ Fa] by simp
  have cnt: "add64 (free_frames (allocator_stats s)) n = card (free_set s) + n"
    "sub64 (allocated_frames (allocator_stats s)) n = card (allocated_set s) - n"
    using st n_le frame_set_card_less [of s]
    by (simp_all add: stats_ok_def FRAME_COUNT_val c_arith)
  define s' where "s' = s\<lparr>used_bitmap := mark_run (used_bitmap s) first n False,
        allocator_stats := (allocator_stats s)\<lparr>free_frames := card (free_set s) + n,
          allocated_frames := card (allocated_set s) - n\<rparr>,
        next_search_index := (if first < next_search_index s then first else next_search_index s),
        contiguous_records := (contiguous_records s)[i := r\<lparr>cr_active := False\<rparr>]\<rparr>"
  have res: "frame_release_contiguous (Some a) s =
      (FRAME_STATUS_OK, Some (a\<lparr>fc_active := False\<rparr>), s')"
    using init act found intact bounds rfn cnt
    by (simp add: frame_release_contiguous_def Let_def SAPOTE_PAGE_SIZE_def r_def [symmetric]
        s'_def)
  have idx: "(if first < next_search_index s then first else next_search_index s) < FRAME_COUNT"
    using ni fb by simp
  note kept = frame_inv_run_removed [OF inv slot(1) r_def _ rfn s'_def idx]
  show thesis
    by (rule that [OF res kept(2-5) _ kept(1)]) (use slot(2) init in \<open>simp_all add: s'_def r_def\<close>)
qed

text \<open>
  Identifiers name at most one active run while the 64-bit identifier counter has not
  wrapped.
\<close>

definition identifiers_ok :: "frame_allocator \<Rightarrow> bool" where
  "identifiers_ok s \<longleftrightarrow>
     (\<forall>i < FRAME_CONTIGUOUS_ALLOCATION_CAPACITY. cr_active (contiguous_records s ! i) \<longrightarrow>
        cr_identifier (contiguous_records s ! i) < next_contiguous_identifier s) \<and>
     (\<forall>i < FRAME_CONTIGUOUS_ALLOCATION_CAPACITY. \<forall>j < FRAME_CONTIGUOUS_ALLOCATION_CAPACITY.
        cr_active (contiguous_records s ! i) \<and> cr_active (contiguous_records s ! j) \<and>
        cr_identifier (contiguous_records s ! i) = cr_identifier (contiguous_records s ! j) \<longrightarrow> i = j)"

lemma identifier_find_unique:
  assumes "i < FRAME_CONTIGUOUS_ALLOCATION_CAPACITY" "cr_active (contiguous_records s ! i)"
    and "\<And>j. j < FRAME_CONTIGUOUS_ALLOCATION_CAPACITY \<Longrightarrow> cr_active (contiguous_records s ! j) \<Longrightarrow>
      cr_identifier (contiguous_records s ! j) = cr_identifier (contiguous_records s ! i) \<Longrightarrow> j = i"
  shows "find_from (\<lambda>index. cr_active (contiguous_records s ! index) \<and>
      cr_identifier (contiguous_records s ! index) = cr_identifier (contiguous_records s ! i)) 0
      FRAME_CONTIGUOUS_ALLOCATION_CAPACITY = Some i"
proof (rule find_from_eqI)
  fix j assume "j < i"
  then show "\<not> (cr_active (contiguous_records s ! j) \<and>
      cr_identifier (contiguous_records s ! j) = cr_identifier (contiguous_records s ! i))"
    using assms(3) [of j] assms(1) by linarith
qed (use assms(1,2) in simp_all)

lemma frame_allocate_contiguous_next_identifier:
  assumes "frame_allocate_contiguous (Some rq) False s = (FRAME_STATUS_OK, a, s')"
    and "next_contiguous_identifier s + 1 < 2 ^ 64"
  shows "next_contiguous_identifier s' = next_contiguous_identifier s + 1"
  using assms
  by (auto simp: frame_allocate_contiguous_def Let_def add64_id split: if_splits option.splits)

end
