(* ===== verification/Physical_Memory_Init.thy ===== *)
theory Physical_Memory_Init
  imports Physical_Memory
begin

unbundle bit_operations_syntax

text \<open>
  The frame allocator at boot and at reservation time: which frames
  \<open>frame_allocator_initialize\<close> and \<open>frame_reserve_range\<close> of
  \<open>src/kernel/physical_memory.c\<close> make allocatable, as sets of frames, and that
  initialization succeeds on every memory map whose ranges do not wrap.
\<close>

section \<open>Reservation and initialization: correctness\<close>

definition frame_inside :: "u64 \<Rightarrow> u64 \<Rightarrow> nat \<Rightarrow> bool" where
  "frame_inside base len f \<longleftrightarrow> base \<le> f * 4096 \<and> (f + 1) * 4096 \<le> base + len"

definition frame_touches :: "u64 \<Rightarrow> u64 \<Rightarrow> nat \<Rightarrow> bool" where
  "frame_touches base len f \<longleftrightarrow> 0 < len \<and> base < (f + 1) * 4096 \<and> f * 4096 < base + len"

lemma available_frame_bounds_exact:
  assumes "base < 2 ^ 64" "len < 2 ^ 64"
    and "available_frame_bounds base len = (FRAME_STATUS_OK, first, past)"
  shows "past \<le> FRAME_COUNT" and "{first..<past} = {f. f < FRAME_COUNT \<and> frame_inside base len f}"
proof -
  have top: "past \<le> FRAME_COUNT"
  proof -
    have "min (base + len) 4294967296 div 4096 \<le> FRAME_COUNT"
      unfolding FRAME_COUNT_val page_floor_le_iff by simp
    then show ?thesis using assms(3) unfolding available_frame_bounds_eq [OF assms(1,2)]
      by (auto split: if_splits)
  qed
  have "first \<le> f \<and> f < past" if f: "f < FRAME_COUNT" "frame_inside base len f" for f
  proof -
    let ?e = "min (base + len) 4294967296"
    have e: "(f + 1) * 4096 \<le> ?e" "base \<le> f * 4096"
      using f by (simp_all add: frame_inside_def FRAME_COUNT_val)
    then have b: "(base + 4095) div 4096 \<le> f" "f < ?e div 4096"
      unfolding page_ceil_le_iff less_page_floor_iff by simp_all
    then have "(base + 4095) div 4096 * 4096 < ?e" "len \<noteq> 0" "base < 4294967296"
      using e by linarith+
    then show ?thesis using assms(3) b unfolding available_frame_bounds_eq [OF assms(1,2)]
      by (auto split: if_splits)
  qed
  then have "first \<le> f \<and> f < past \<longleftrightarrow> f < FRAME_COUNT \<and> frame_inside base len f" for f
    using available_frame_bounds_inside [OF assms, of f] unfolding frame_inside_def by blast
  then show "{first..<past} = {f. f < FRAME_COUNT \<and> frame_inside base len f}"
    by (intro set_eqI) (simp only: atLeastLessThan_iff mem_Collect_eq)
  show "past \<le> FRAME_COUNT" by (fact top)
qed

lemma covering_frame_bounds_exact:
  assumes "base < 2 ^ 64" "len < 2 ^ 64"
    and "covering_frame_bounds base len = (FRAME_STATUS_OK, first, past)"
  shows "{first..<past} = {f. f < FRAME_COUNT \<and> frame_touches base len f}"
proof (rule set_eqI)
  fix f
  show "f \<in> {first..<past} \<longleftrightarrow> f \<in> {f. f < FRAME_COUNT \<and> frame_touches base len f}"
    using covering_frame_bounds_OK(2) [OF assms, of f]
    unfolding frame_touches_def atLeastLessThan_iff mem_Collect_eq by blast
qed

lemma covering_frame_bounds_outside:
  assumes "base < 2 ^ 64" "len < 2 ^ 64"
    and "covering_frame_bounds base len = (FRAME_STATUS_RANGE_OUTSIDE_LIMIT, first, past)"
  shows "f < FRAME_COUNT \<Longrightarrow> \<not> frame_touches base len f"
proof -
  have "4294967296 \<le> base"
    using assms(3) unfolding covering_frame_bounds_eq [OF assms(1,2)] by (auto split: if_splits)
  then show "f < FRAME_COUNT \<Longrightarrow> \<not> frame_touches base len f"
    by (simp add: frame_touches_def FRAME_COUNT_val)
qed

text \<open>The two marking loops on the frame sets.\<close>

lemma mark_frames_get:
  assumes "frame_shape s" "past \<le> FRAME_COUNT"
  shows "bitmap_get (mark_run (eligible_bitmap s) first (past - first) v) f =
      (if f \<in> {first..<past} then v else bitmap_get (eligible_bitmap s) f)"
    and "bitmap_get (mark_run (used_bitmap s) first (past - first) v) f =
      (if f \<in> {first..<past} then v else bitmap_get (used_bitmap s) f)"
proof -
  have "bitmap_get (mark_run bm first (past - first) v) f =
      (if f \<in> {first..<past} then v else bitmap_get bm f)" if "past \<le> 8 * length bm" for bm
  proof (cases "first \<le> past")
    case True
    then show ?thesis using that by (simp add: bitmap_get_mark_run)
  next
    case False
    then show ?thesis by (simp add: mark_run_def)
  qed
  moreover have "past \<le> 8 * length (eligible_bitmap s)" "past \<le> 8 * length (used_bitmap s)"
    using assms by (simp_all add: frame_shape_def FRAME_COUNT_val BITMAP_BYTE_COUNT_val)
  ultimately show "bitmap_get (mark_run (eligible_bitmap s) first (past - first) v) f =
      (if f \<in> {first..<past} then v else bitmap_get (eligible_bitmap s) f)"
    and "bitmap_get (mark_run (used_bitmap s) first (past - first) v) f =
      (if f \<in> {first..<past} then v else bitmap_get (used_bitmap s) f)" by blast+
qed

lemma mark_reserved_sets:
  assumes "frame_shape s" "past \<le> FRAME_COUNT" "s' = mark_reserved_frames first past s"
  shows "eligible_set s' = eligible_set s - {first..<past}"
    and "free_set s' = free_set s - {first..<past}"
    and "allocated_set s' = allocated_set s - {first..<past}"
    and "frame_shape s'" and "contiguous_records s' = contiguous_records s"
    and "next_search_index s' = next_search_index s"
    and "allocator_initialized s' = allocator_initialized s"
  using assms(1) unfolding assms(3) mark_reserved_frames_eq
  by (auto simp: frame_sets mark_frames_get [OF assms(1,2)] frame_shape_def split: if_splits)

lemma mark_available_sets:
  assumes "frame_shape s" "past \<le> FRAME_COUNT" "s' = mark_available_frames first past s"
  shows "eligible_set s' = eligible_set s \<union> {first..<past}"
    and "allocated_set s' = allocated_set s - {first..<past}"
    and "frame_shape s'" and "contiguous_records s' = contiguous_records s"
  using assms(1,2) unfolding assms(3) mark_available_frames_eq
  by (auto simp: frame_sets mark_frames_get [OF assms(1,2)] frame_shape_def split: if_splits)

lemma recompute_stats_frame [simp]:
  "eligible_set (recompute_stats s) = eligible_set s"
  "free_set (recompute_stats s) = free_set s"
  "allocated_set (recompute_stats s) = allocated_set s"
  "contiguous_records (recompute_stats s) = contiguous_records s"
  "next_search_index (recompute_stats s) = next_search_index s"
  "allocator_initialized (recompute_stats s) = allocator_initialized s"
  "frame_shape (recompute_stats s) = frame_shape s"
  by (simp_all add: recompute_stats_def frame_shape_def)

text \<open>Withdrawing a range later, without touching anything that is handed out.\<close>

lemma frame_reserve_range_cases:
  assumes inv: "frame_inv s" and init: "allocator_initialized s"
    and b: "base < 2 ^ 64" "len < 2 ^ 64"
    and cb: "covering_frame_bounds base len = (FRAME_STATUS_OK, first, past)"
  shows "(\<exists>f \<in> allocated_set s. frame_touches base len f) \<Longrightarrow>
      frame_reserve_range base len s = (FRAME_STATUS_FRAME_IN_USE, s)"
    and "\<forall>f \<in> allocated_set s. \<not> frame_touches base len f \<Longrightarrow>
      \<exists>s'. frame_reserve_range base len s = (FRAME_STATUS_OK, s') \<and> frame_inv s' \<and>
        eligible_set s' = {f \<in> eligible_set s. \<not> frame_touches base len f} \<and>
        allocated_set s' = allocated_set s \<and> contiguous_records s' = contiguous_records s \<and>
        allocator_initialized s'"
proof -
  let ?busy = "\<lambda>frame. bitmap_get (eligible_bitmap s) frame \<and> bitmap_get (used_bitmap s) frame"
  note R = covering_frame_bounds_exact [OF b cb] and top = covering_frame_bounds_OK(1) [OF b cb]
  have busy: "find_from ?busy first past \<noteq> None \<longleftrightarrow> (\<exists>f \<in> allocated_set s. frame_touches base len f)"
    using R top unfolding find_from_None_iff by (auto simp: frame_sets set_eq_iff)
  show "frame_reserve_range base len s = (FRAME_STATUS_FRAME_IN_USE, s)"
    if "\<exists>f \<in> allocated_set s. frame_touches base len f"
    using that init cb unfolding busy [symmetric] by (simp add: frame_reserve_range_def)
  assume none: "\<forall>f \<in> allocated_set s. \<not> frame_touches base len f"
  define s1 where "s1 = mark_reserved_frames first past s"
  have run: "frame_reserve_range base len s = (FRAME_STATUS_OK, recompute_stats s1)"
    using none busy init cb by (auto simp: frame_reserve_range_def s1_def)
  have shape: "frame_shape s" and ro: "records_ok s" and ni: "next_search_index s < FRAME_COUNT"
    using inv by (simp_all add: frame_inv_def)
  note S = mark_reserved_sets [OF shape top s1_def]
  have alloc: "allocated_set s1 = allocated_set s" using S(3) R none by auto
  have elig: "eligible_set s1 = {f \<in> eligible_set s. \<not> frame_touches base len f}"
    unfolding S(1) R by (auto simp: eligible_set_def)
  have "records_ok (recompute_stats s1)"
    using ro alloc S(5) by (simp add: records_ok_def contiguous_set_def)
  then have "frame_inv (recompute_stats s1)"
    using ni S(4,6) recompute_stats_ok by (simp add: frame_inv_def)
  then show "\<exists>s'. frame_reserve_range base len s = (FRAME_STATUS_OK, s') \<and> frame_inv s' \<and>
        eligible_set s' = {f \<in> eligible_set s. \<not> frame_touches base len f} \<and>
        allocated_set s' = allocated_set s \<and> contiguous_records s' = contiguous_records s \<and>
        allocator_initialized s'"
    using run alloc elig S(5,7) init by auto
qed

text \<open>
  During initialization a frame is used exactly when it is not eligible, so nothing is
  allocated; each region moves the eligible set by the frames it contains or touches.
\<close>

definition region_wf :: "boot_memory_region \<Rightarrow> bool" where
  "region_wf r \<longleftrightarrow> base_address r < 2 ^ 64 \<and> region_length r < 2 ^ 64"

definition region_available :: "boot_memory_region \<Rightarrow> bool" where
  "region_available r \<longleftrightarrow> region_type r = MULTIBOOT2_MEMORY_AVAILABLE"

definition region_contains :: "boot_memory_region \<Rightarrow> nat \<Rightarrow> bool" where
  "region_contains r f \<longleftrightarrow> region_available r \<and> frame_inside (base_address r) (region_length r) f"

definition region_withdraws :: "boot_memory_region \<Rightarrow> nat \<Rightarrow> bool" where
  "region_withdraws r f \<longleftrightarrow>
     \<not> region_available r \<and> frame_touches (base_address r) (region_length r) f"

definition boot_clean :: "contiguous_record list \<Rightarrow> frame_allocator \<Rightarrow> bool" where
  "boot_clean recs s \<longleftrightarrow> frame_shape s \<and> allocated_set s = {} \<and> contiguous_records s = recs"

lemma apply_region_admit:
  assumes "boot_clean recs s" "region_wf r" "apply_region 0 r s = (FRAME_STATUS_OK, s')"
  shows "boot_clean recs s'"
    and "eligible_set s' = eligible_set s \<union> {f. f < FRAME_COUNT \<and> region_contains r f}"
proof -
  have "boot_clean recs s' \<and>
    eligible_set s' = eligible_set s \<union> {f. f < FRAME_COUNT \<and> region_contains r f}"
  proof (cases "region_available r")
    case False
    then show ?thesis using assms by (simp add: apply_region_def region_available_def region_contains_def)
  next
    case True
    obtain st first past where ab:
      "available_frame_bounds (base_address r) (region_length r) = (st, first, past)"
      using prod_cases3 by blast
    with assms(3) True have st: "st = FRAME_STATUS_OK" and s': "s' = mark_available_frames first past s"
      by (auto simp: apply_region_def region_available_def split: if_splits)
    have b: "base_address r < 2 ^ 64" "region_length r < 2 ^ 64" using assms(2) by (simp_all add: region_wf_def)
    note ex = available_frame_bounds_exact [OF b ab [unfolded st]]
    have shape: "frame_shape s" using assms(1) by (simp add: boot_clean_def)
    note S = mark_available_sets [OF shape ex(1) s']
    show ?thesis using S assms(1) ex(2) True by (simp add: boot_clean_def region_contains_def)
  qed
  then show "boot_clean recs s'"
    "eligible_set s' = eligible_set s \<union> {f. f < FRAME_COUNT \<and> region_contains r f}" by blast+
qed

lemma mark_reserved_clean:
  assumes "boot_clean recs s" "base < 2 ^ 64" "len < 2 ^ 64"
    and "covering_frame_bounds base len = (FRAME_STATUS_OK, first, past)"
  shows "boot_clean recs (mark_reserved_frames first past s)"
    and "eligible_set (mark_reserved_frames first past s) =
           eligible_set s - {f. frame_touches base len f}"
proof -
  have shape: "frame_shape s" using assms(1) by (simp add: boot_clean_def)
  note S = mark_reserved_sets [OF shape covering_frame_bounds_OK(1) [OF assms(2-4)] refl]
  show "boot_clean recs (mark_reserved_frames first past s)"
    using S(3-5) assms(1) by (simp add: boot_clean_def)
  show "eligible_set (mark_reserved_frames first past s) =
           eligible_set s - {f. frame_touches base len f}"
    using S(1) covering_frame_bounds_exact [OF assms(2-4)] by (auto simp: eligible_set_def)
qed

lemma apply_region_withdraw:
  assumes "boot_clean recs s" "region_wf r" "apply_region 1 r s = (FRAME_STATUS_OK, s')"
  shows "boot_clean recs s'"
    and "eligible_set s' = eligible_set s - {f. region_withdraws r f}"
proof -
  have "boot_clean recs s' \<and> eligible_set s' = eligible_set s - {f. region_withdraws r f}"
  proof (cases "region_available r")
    case True
    then show ?thesis using assms by (simp add: apply_region_def region_available_def region_withdraws_def)
  next
    case False
    obtain st first past where cb:
      "covering_frame_bounds (base_address r) (region_length r) = (st, first, past)"
      using prod_cases3 by blast
    have b: "base_address r < 2 ^ 64" "region_length r < 2 ^ 64"
      using assms(2) by (simp_all add: region_wf_def)
    consider "st = FRAME_STATUS_OK" "s' = mark_reserved_frames first past s"
      | "st = FRAME_STATUS_RANGE_OUTSIDE_LIMIT" "s' = s"
      using assms(3) False cb by (auto simp: apply_region_def region_available_def split: if_splits)
    then show ?thesis
    proof cases
      case 1
      then show ?thesis using mark_reserved_clean [OF assms(1) b] cb False
        by (simp add: region_withdraws_def)
    next
      case 2
      then have "f < FRAME_COUNT \<Longrightarrow> \<not> region_withdraws r f" for f
        using covering_frame_bounds_outside [OF b] cb by (auto simp: region_withdraws_def)
      then show ?thesis using 2 assms(1) by (auto simp: eligible_set_def)
    qed
  qed
  then show "boot_clean recs s'"
    "eligible_set s' = eligible_set s - {f. region_withdraws r f}" by blast+
qed

lemma apply_pass_admit:
  assumes "memory_map c = Some entries" "\<forall>r \<in> set entries. region_wf r"
  shows "set idx \<subseteq> {..<length entries} \<Longrightarrow> boot_clean recs s \<Longrightarrow>
    apply_pass c 0 idx s = (FRAME_STATUS_OK, s') \<Longrightarrow>
    boot_clean recs s' \<and> eligible_set s' =
      eligible_set s \<union> {f. f < FRAME_COUNT \<and> (\<exists>i \<in> set idx. region_contains (entries ! i) f)}"
proof (induction idx arbitrary: s)
  case (Cons i rest)
  have "boot_information_region_at c i = Some (entries ! i)" "region_wf (entries ! i)"
    using assms Cons.prems(1) by (simp_all add: boot_information_region_at_def memory_map_entry_count_def)
  with Cons.prems(3) obtain s1 where s1: "apply_region 0 (entries ! i) s = (FRAME_STATUS_OK, s1)"
      "apply_pass c 0 rest s1 = (FRAME_STATUS_OK, s')"
    by (auto split: prod.splits if_splits)
  note A = apply_region_admit [OF Cons.prems(2) \<open>region_wf (entries ! i)\<close> s1(1)]
  have "boot_clean recs s' \<and> eligible_set s' =
      eligible_set s1 \<union> {f. f < FRAME_COUNT \<and> (\<exists>i \<in> set rest. region_contains (entries ! i) f)}"
    using Cons.IH [OF _ A(1) s1(2)] Cons.prems(1) by simp
  with A(2) show ?case by auto
qed auto

lemma apply_pass_withdraw:
  assumes "memory_map c = Some entries" "\<forall>r \<in> set entries. region_wf r"
  shows "set idx \<subseteq> {..<length entries} \<Longrightarrow> boot_clean recs s \<Longrightarrow>
    apply_pass c 1 idx s = (FRAME_STATUS_OK, s') \<Longrightarrow>
    boot_clean recs s' \<and> eligible_set s' =
      eligible_set s - {f. \<exists>i \<in> set idx. region_withdraws (entries ! i) f}"
proof (induction idx arbitrary: s)
  case (Cons i rest)
  have "boot_information_region_at c i = Some (entries ! i)" "region_wf (entries ! i)"
    using assms Cons.prems(1) by (simp_all add: boot_information_region_at_def memory_map_entry_count_def)
  with Cons.prems(3) obtain s1 where s1: "apply_region 1 (entries ! i) s = (FRAME_STATUS_OK, s1)"
      "apply_pass c 1 rest s1 = (FRAME_STATUS_OK, s')"
    by (auto split: prod.splits if_splits)
  note A = apply_region_withdraw [OF Cons.prems(2) \<open>region_wf (entries ! i)\<close> s1(1)]
  have "boot_clean recs s' \<and> eligible_set s' =
      eligible_set s1 - {f. \<exists>i \<in> set rest. region_withdraws (entries ! i) f}"
    using Cons.IH [OF _ A(1) s1(2)] Cons.prems(1) by simp
  with A(2) show ?case by auto
qed auto

lemma nth_exists_set: "(\<exists>i < length xs. P (xs ! i)) \<longleftrightarrow> (\<exists>x \<in> set xs. P x)"
  by (metis in_set_conv_nth)

lemma apply_memory_map_sets:
  assumes "memory_map c = Some entries" "\<forall>r \<in> set entries. region_wf r"
    and "boot_clean recs s" "apply_memory_map c s = (FRAME_STATUS_OK, s')"
  shows "boot_clean recs s'" and "eligible_set s' =
      (eligible_set s \<union> {f. f < FRAME_COUNT \<and> (\<exists>r \<in> set entries. region_contains r f)}) -
      {f. \<exists>r \<in> set entries. region_withdraws r f}"
proof -
  have n: "memory_map_entry_count c = length entries"
    using assms(1) by (simp add: memory_map_entry_count_def)
  have idx: "set [0..<length entries] \<subseteq> {..<length entries}" by auto
  obtain s1 where s1: "apply_pass c 0 [0..<length entries] s = (FRAME_STATUS_OK, s1)"
      "apply_pass c 1 [0..<length entries] s1 = (FRAME_STATUS_OK, s')"
    using assms(4) by (auto simp: apply_memory_map_def n Let_def split: prod.splits if_splits)
  note A = apply_pass_admit [OF assms(1,2) idx assms(3) s1(1)]
  note W = apply_pass_withdraw [OF assms(1,2) idx conjunct1 [OF A] s1(2)]
  show "boot_clean recs s'" using W by simp
  show "eligible_set s' =
      (eligible_set s \<union> {f. f < FRAME_COUNT \<and> (\<exists>r \<in> set entries. region_contains r f)}) -
      {f. \<exists>r \<in> set entries. region_withdraws r f}"
    using A W nth_exists_set [of entries "\<lambda>r. region_contains r _"]
      nth_exists_set [of entries "\<lambda>r. region_withdraws r _"]
    by (auto simp: atLeast0LessThan Bex_def)
qed

lemma reserve_internal_clean:
  assumes "boot_clean recs s" "base < 2 ^ 64" "len < 2 ^ 64"
    and "reserve_internal base len s = (FRAME_STATUS_OK, s')"
  shows "boot_clean recs s'" and "eligible_set s' = eligible_set s - {f. frame_touches base len f}"
proof -
  obtain first past where "covering_frame_bounds base len = (FRAME_STATUS_OK, first, past)"
    and s': "s' = mark_reserved_frames first past s"
    using assms(4) by (auto simp: reserve_internal_def split: prod.splits if_splits)
  from mark_reserved_clean [OF assms(1-3) this(1)] s'
  show "boot_clean recs s'" "eligible_set s' = eligible_set s - {f. frame_touches base len f}"
    by simp_all
qed

text \<open>The state the memory map is applied to: nothing eligible, every slot idle.\<close>

definition boot_blank :: "frame_allocator \<Rightarrow> frame_allocator" where
  "boot_blank s = s\<lparr>allocator_initialized := False, next_search_index := 0,
     next_contiguous_identifier := 1,
     eligible_bitmap := bitmap_fill (eligible_bitmap s) 0,
     used_bitmap := bitmap_fill (used_bitmap s) 255,
     contiguous_records := fold (\<lambda>index rs. rs[index := empty_record])
       [0..<FRAME_CONTIGUOUS_ALLOCATION_CAPACITY] (contiguous_records s)\<rparr>"

abbreviation idle_records :: "contiguous_record list" where
  "idle_records \<equiv> replicate FRAME_CONTIGUOUS_ALLOCATION_CAPACITY empty_record"

lemma boot_blank_clean:
  assumes "frame_shape s"
  shows "boot_clean idle_records (boot_blank s)" and "eligible_set (boot_blank s) = {}"
proof -
  have len: "length (eligible_bitmap s) = BITMAP_BYTE_COUNT"
    "length (contiguous_records s) = FRAME_CONTIGUOUS_ALLOCATION_CAPACITY"
    using assms by (simp_all add: frame_shape_def)
  have "\<not> bitmap_get (bitmap_fill (eligible_bitmap s) 0) f" if "f < FRAME_COUNT" for f
    using that by (simp add: bitmap_get_def bitmap_fill_nth [OF len(1)] FRAME_COUNT_val BITMAP_BYTE_COUNT_val)
  then show none: "eligible_set (boot_blank s) = {}"
    by (auto simp: boot_blank_def eligible_set_def)
  have "contiguous_records (boot_blank s) = idle_records"
    by (rule nth_equalityI) (simp_all add: boot_blank_def len(2) fold_fill_nth)
  with none show "boot_clean idle_records (boot_blank s)"
    using assms by (simp add: boot_clean_def boot_blank_def frame_shape_def allocated_set_def)
qed

definition initial_eligible :: "u64 \<Rightarrow> u64 \<Rightarrow> boot_information \<Rightarrow> boot_memory_region list \<Rightarrow> nat set" where
  "initial_eligible kernel_start kernel_end c entries =
     {f. f < FRAME_COUNT \<and> (\<exists>r \<in> set entries. region_contains r f) \<and>
         (\<forall>r \<in> set entries. \<not> region_withdraws r f) \<and>
         \<not> frame_touches 0 SAPOTE_LOW_MEMORY_RESERVATION f \<and>
         \<not> frame_touches kernel_start (sub64 kernel_end kernel_start) f \<and>
         \<not> frame_touches (information_start c) (sub64 (information_end c) (information_start c)) f}"

lemma frame_allocator_initialize_sets:
  assumes shape: "frame_shape s" and map: "memory_map c = Some entries"
    and wf: "\<forall>r \<in> set entries. region_wf r" "kernel_start < 2 ^ 64" "information_start c < 2 ^ 64"
    and run: "frame_allocator_initialize kernel_start kernel_end (Some c) s = (FRAME_STATUS_OK, s')"
  shows "frame_inv s'" and "allocator_initialized s'" and "allocated_set s' = {}"
    and "eligible_set s' = initial_eligible kernel_start kernel_end c entries"
    and "free_set s' \<noteq> {}"
proof -
  let ?klen = "sub64 kernel_end kernel_start"
    and ?ilen = "sub64 (information_end c) (information_start c)"
  obtain s1 s2 s3 s4 where st:
      "apply_memory_map c (boot_blank s) = (FRAME_STATUS_OK, s1)"
      "reserve_internal 0 SAPOTE_LOW_MEMORY_RESERVATION s1 = (FRAME_STATUS_OK, s2)"
      "reserve_internal kernel_start ?klen s2 = (FRAME_STATUS_OK, s3)"
      "reserve_internal (information_start c) ?ilen s3 = (FRAME_STATUS_OK, s4)"
    and free: "free_frames (allocator_stats (recompute_stats s4)) \<noteq> 0"
    and s': "s' = (recompute_stats s4)\<lparr>next_search_index :=
        SAPOTE_LOW_MEMORY_RESERVATION div SAPOTE_PAGE_SIZE, allocator_initialized := True\<rparr>"
    using run map unfolding frame_allocator_initialize_def boot_blank_def [symmetric]
    by (auto simp: Let_def split: prod.splits if_splits)
  note c0 = boot_blank_clean [OF shape]
  note c1 = apply_memory_map_sets [OF map wf(1) c0(1) st(1)]
  have low: "(0::nat) < 2 ^ 64" "SAPOTE_LOW_MEMORY_RESERVATION < 2 ^ 64" by (simp_all add: frame_consts)
  note c2 = reserve_internal_clean [OF c1(1) low st(2)]
  note c3 = reserve_internal_clean [OF c2(1) wf(2) sub64_less st(3)]
  note c4 = reserve_internal_clean [OF c3(1) wf(3) sub64_less st(4)]
  have elig: "eligible_set s4 = initial_eligible kernel_start kernel_end c entries"
    using c4(2) c3(2) c2(2) c1(2) c0(2) by (auto simp: initial_eligible_def)
  have sets: "eligible_set s' = eligible_set s4" "allocated_set s' = allocated_set s4"
    "free_set s' = free_set s4" "contiguous_set s' = contiguous_set s4"
    by (simp_all add: s' frame_sets recompute_stats_def contiguous_set_def)
  show "eligible_set s' = initial_eligible kernel_start kernel_end c entries" using elig sets by simp
  show empty: "allocated_set s' = {}" using c4(1) sets by (simp add: boot_clean_def)
  show "allocator_initialized s'" by (simp add: s')
  have "stats_ok s'" using recompute_stats_ok [of s4] sets by (simp add: stats_ok_def s')
  moreover have "records_ok s'"
  proof -
    have "contiguous_records s' = idle_records" using c4(1) by (simp add: boot_clean_def s')
    then show ?thesis
      by (simp add: records_ok_def contiguous_set_def record_frames_def empty_record_def)
  qed
  moreover have "frame_shape s'" using c4(1) by (simp add: boot_clean_def frame_shape_def s' recompute_stats_def)
  ultimately show "frame_inv s'" by (simp add: frame_inv_def s' frame_consts FRAME_COUNT_val)
  show "free_set s' \<noteq> {}" using free recompute_stats_ok [of s4] sets by (auto simp: stats_ok_def)
qed

text \<open>Initialization succeeds on every memory map whose ranges do not wrap.\<close>

definition region_fits :: "boot_memory_region \<Rightarrow> bool" where
  "region_fits r \<longleftrightarrow> base_address r + region_length r < 2 ^ 64"

lemma region_fits_wf: "region_fits r \<Longrightarrow> region_wf r"
  by (simp add: region_fits_def region_wf_def)

lemma apply_region_fits:
  assumes "region_fits r"
  shows "\<exists>s'. apply_region pass r s = (FRAME_STATUS_OK, s')"
proof -
  have b: "base_address r < 2 ^ 64" "region_length r < 2 ^ 64" "\<not> base_address r + region_length r \<ge> 2 ^ 64"
    using assms by (simp_all add: region_fits_def)
  have "\<exists>first past. available_frame_bounds (base_address r) (region_length r) = (FRAME_STATUS_OK, first, past)"
    unfolding available_frame_bounds_eq [OF b(1,2)] using b(3) by simp
  moreover have "\<exists>st first past. covering_frame_bounds (base_address r) (region_length r) = (st, first, past) \<and>
      st \<in> {FRAME_STATUS_OK, FRAME_STATUS_RANGE_OUTSIDE_LIMIT}"
    unfolding covering_frame_bounds_eq [OF b(1,2)] using b(3) by simp
  ultimately show ?thesis by (auto simp: apply_region_def Let_def)
qed

lemma apply_pass_fits:
  assumes "memory_map c = Some entries" "\<forall>r \<in> set entries. region_fits r"
  shows "set idx \<subseteq> {..<length entries} \<Longrightarrow> \<exists>s'. apply_pass c pass idx s = (FRAME_STATUS_OK, s')"
proof (induction idx arbitrary: s)
  case (Cons i rest)
  have at: "boot_information_region_at c i = Some (entries ! i)" and fit: "region_fits (entries ! i)"
    using assms Cons.prems(1) by (simp_all add: boot_information_region_at_def memory_map_entry_count_def)
  obtain s1 where "apply_region pass (entries ! i) s = (FRAME_STATUS_OK, s1)"
    using apply_region_fits [OF fit] by blast
  with at Cons show ?case by simp
qed simp

lemma apply_memory_map_fits:
  assumes "memory_map c = Some entries" "\<forall>r \<in> set entries. region_fits r"
  shows "\<exists>s'. apply_memory_map c s = (FRAME_STATUS_OK, s')"
proof -
  have n: "memory_map_entry_count c = length entries" "set [0..<length entries] \<subseteq> {..<length entries}"
    using assms(1) by (auto simp: memory_map_entry_count_def)
  obtain s1 where "apply_pass c 0 [0..<length entries] s = (FRAME_STATUS_OK, s1)"
    using apply_pass_fits [OF assms n(2)] by blast
  moreover obtain s2 where "apply_pass c 1 [0..<length entries] s1 = (FRAME_STATUS_OK, s2)"
    using apply_pass_fits [OF assms n(2)] by blast
  ultimately show ?thesis by (simp add: apply_memory_map_def n(1))
qed

lemma reserve_internal_fits:
  assumes "base + len < 2 ^ 64" "base < SAPOTE_EARLY_PHYSICAL_LIMIT"
  shows "\<exists>s'. reserve_internal base len s = (FRAME_STATUS_OK, s')"
proof -
  have b: "base < 2 ^ 64" "len < 2 ^ 64" using assms(1) by simp_all
  have "\<exists>first past. covering_frame_bounds base len = (FRAME_STATUS_OK, first, past)"
    unfolding covering_frame_bounds_eq [OF b] using assms by (simp add: frame_consts)
  then show ?thesis by (auto simp: reserve_internal_def)
qed

definition boot_layout_ok :: "u64 \<Rightarrow> u64 \<Rightarrow> boot_information \<Rightarrow> boot_memory_region list \<Rightarrow> bool" where
  "boot_layout_ok kernel_start kernel_end c entries \<longleftrightarrow>
     memory_map c = Some entries \<and> (\<forall>r \<in> set entries. region_fits r) \<and>
     kernel_start \<le> kernel_end \<and> kernel_end < 2 ^ 64 \<and>
     kernel_start < SAPOTE_EARLY_PHYSICAL_LIMIT \<and>
     information_start c \<le> information_end c \<and> information_end c < 2 ^ 64 \<and>
     information_start c < SAPOTE_EARLY_PHYSICAL_LIMIT"

lemma frame_allocator_initialize_total:
  assumes shape: "frame_shape s" and lay: "boot_layout_ok kernel_start kernel_end c entries"
    and ne: "initial_eligible kernel_start kernel_end c entries \<noteq> {}"
  shows "\<exists>s'. frame_allocator_initialize kernel_start kernel_end (Some c) s = (FRAME_STATUS_OK, s')"
proof -
  let ?klen = "sub64 kernel_end kernel_start"
    and ?ilen = "sub64 (information_end c) (information_start c)"
  have map: "memory_map c = Some entries" and wf: "\<forall>r \<in> set entries. region_wf r"
    and lt: "kernel_start < 2 ^ 64" "information_start c < 2 ^ 64"
    using lay region_fits_wf by (auto simp: boot_layout_ok_def)
  have ends: "kernel_start + ?klen < 2 ^ 64" "information_start c + ?ilen < 2 ^ 64"
    "0 + SAPOTE_LOW_MEMORY_RESERVATION < 2 ^ 64" "0 < SAPOTE_EARLY_PHYSICAL_LIMIT"
    using lay by (simp_all add: boot_layout_ok_def sub64_id frame_consts)
  obtain s1 where s1: "apply_memory_map c (boot_blank s) = (FRAME_STATUS_OK, s1)"
    using apply_memory_map_fits [of c entries] lay unfolding boot_layout_ok_def by blast
  obtain s2 where s2: "reserve_internal 0 SAPOTE_LOW_MEMORY_RESERVATION s1 = (FRAME_STATUS_OK, s2)"
    using reserve_internal_fits [OF ends(3,4)] by blast
  obtain s3 where s3: "reserve_internal kernel_start ?klen s2 = (FRAME_STATUS_OK, s3)"
    using reserve_internal_fits [OF ends(1)] lay by (auto simp: boot_layout_ok_def)
  obtain s4 where s4: "reserve_internal (information_start c) ?ilen s3 = (FRAME_STATUS_OK, s4)"
    using reserve_internal_fits [OF ends(2)] lay by (auto simp: boot_layout_ok_def)
  have low: "(0::nat) < 2 ^ 64" "SAPOTE_LOW_MEMORY_RESERVATION < 2 ^ 64" by (simp_all add: frame_consts)
  note c0 = boot_blank_clean [OF shape]
  note c1 = apply_memory_map_sets [OF map wf c0(1) s1]
  note c2 = reserve_internal_clean [OF c1(1) low s2]
  note c3 = reserve_internal_clean [OF c2(1) lt(1) sub64_less s3]
  note c4 = reserve_internal_clean [OF c3(1) lt(2) sub64_less s4]
  have "eligible_set s4 = initial_eligible kernel_start kernel_end c entries"
    using c4(2) c3(2) c2(2) c1(2) c0(2) by (auto simp: initial_eligible_def)
  then have "free_set s4 \<noteq> {}"
    using ne c4(1) free_allocated_partition(1) [of s4] by (auto simp: boot_clean_def)
  then have "free_frames (allocator_stats (recompute_stats s4)) \<noteq> 0"
    using recompute_stats_ok [of s4] by (simp add: stats_ok_def)
  moreover have "\<not> kernel_end < kernel_start" using lay by (simp add: boot_layout_ok_def)
  ultimately show ?thesis
    using s1 s2 s3 s4 map
    unfolding frame_allocator_initialize_def boot_blank_def [symmetric] by (simp add: Let_def)
qed

end
