(* ===== verification/Physical_Memory_Spec.thy ===== *)
theory Physical_Memory_Spec
  imports Physical_Memory_Init
begin

unbundle bit_operations_syntax

text \<open>
  The frame allocator as its callers see it: the \<open>page_source\<close> contract is
  discharged for single frames, the public calls of \<open>src/kernel/physical_memory.c\<close>
  become the steps of a state machine whose reachable states satisfy the invariant, and
  the properties of each call are stated and exercised on a small machine.
\<close>

section \<open>The single-frame interface\<close>

text \<open>
  The calls a consumer makes, with the status folded into the result, satisfy the
  \<open>page_source\<close> contract: the free frames are \<open>free_set\<close> and the frames owned by
  callers are \<open>single_set\<close>.
\<close>

definition frame_ready :: "frame_allocator \<Rightarrow> bool" where
  "frame_ready s \<longleftrightarrow> frame_inv s \<and> allocator_initialized s"

definition frame_take :: "frame_allocator \<Rightarrow> u64 option \<times> frame_allocator" where
  "frame_take s = (case frame_allocate False s of (status, address, s') \<Rightarrow>
     (if status = FRAME_STATUS_OK then address else None, s'))"

definition frame_give :: "u64 \<Rightarrow> frame_allocator \<Rightarrow> bool \<times> frame_allocator" where
  "frame_give address s = (case frame_release address s of (status, s') \<Rightarrow>
     (status = FRAME_STATUS_OK, s'))"

interpretation frames: page_source frame_ready free_set single_set frame_take frame_give
proof unfold_locales
  show "frame_take w = (None, w)" if "frame_ready w" "free_set w = {}" for w
    using that by (simp add: frame_ready_def frame_take_def frame_allocate_empty)
  show "\<exists>f w'. frame_take w = (Some (f * 4096), w') \<and> f \<in> free_set w \<and>
      free_set w' = free_set w - {f} \<and> single_set w' = insert f (single_set w) \<and> frame_ready w'"
    if "frame_ready w" "free_set w \<noteq> {}" for w
    using frame_allocate_some [of w] that by (fastforce simp: frame_ready_def frame_take_def)
  show "\<exists>w'. frame_give (f * 4096) w = (True, w') \<and> free_set w' = insert f (free_set w) \<and>
      single_set w' = single_set w - {f} \<and> frame_ready w'"
    if "frame_ready w" "f \<in> single_set w" for w f
    using frame_release_ok [of w f] that by (fastforce simp: frame_ready_def frame_give_def)
  show "free_set w \<inter> single_set w = {}" for w
    by (auto simp: single_set_def frame_sets)
qed simp

section \<open>The allocator as a state machine\<close>

lemma mark_frames_keep [simp]:
  "frame_shape (mark_available_frames a b s) = frame_shape s"
  "frame_shape (mark_reserved_frames a b s) = frame_shape s"
  "allocator_initialized (mark_available_frames a b s) = allocator_initialized s"
  "allocator_initialized (mark_reserved_frames a b s) = allocator_initialized s"
  by (simp_all add: mark_available_frames_eq mark_reserved_frames_eq frame_shape_def)

lemma apply_region_keep:
  "apply_region pass r s = (st, s') \<Longrightarrow>
     frame_shape s' = frame_shape s \<and> allocator_initialized s' = allocator_initialized s"
  by (auto simp: apply_region_def Let_def split: if_splits prod.splits)

lemma apply_pass_keep:
  "apply_pass c pass idx s = (st, s') \<Longrightarrow>
     frame_shape s' = frame_shape s \<and> allocator_initialized s' = allocator_initialized s"
proof (induction idx arbitrary: s)
  case (Cons index rest)
  show ?case
  proof (cases "boot_information_region_at c index")
    case (Some r)
    obtain st1 s1 where r: "apply_region pass r s = (st1, s1)" by fastforce
    show ?thesis
    proof (cases "st1 = FRAME_STATUS_OK")
      case True
      then have "apply_pass c pass rest s1 = (st, s')" using Cons.prems Some r by simp
      from Cons.IH [OF this] apply_region_keep [OF r] show ?thesis by simp
    next
      case False
      then have "s' = s1" using Cons.prems Some r by simp
      with apply_region_keep [OF r] show ?thesis by simp
    qed
  qed (use Cons.prems in simp)
qed simp

lemma apply_memory_map_keep:
  "apply_memory_map c s = (st, s') \<Longrightarrow>
     frame_shape s' = frame_shape s \<and> allocator_initialized s' = allocator_initialized s"
  by (auto simp: apply_memory_map_def Let_def split: prod.splits if_splits dest!: apply_pass_keep)

lemma reserve_internal_keep:
  "reserve_internal base len s = (st, s') \<Longrightarrow>
     frame_shape s' = frame_shape s \<and> allocator_initialized s' = allocator_initialized s"
  by (auto simp: reserve_internal_def split: prod.splits if_splits)

lemma boot_blank_keep: "frame_shape (boot_blank s) = frame_shape s" "\<not> allocator_initialized (boot_blank s)"
  by (simp_all add: boot_blank_def frame_shape_def)

lemma frame_allocator_initialize_keep:
  assumes "frame_allocator_initialize ks ke (Some c) s = (st, s')" "memory_map c \<noteq> None"
  shows "frame_shape s' = frame_shape s \<and> (st \<noteq> FRAME_STATUS_OK \<longrightarrow> \<not> allocator_initialized s')"
proof -
  obtain st1 s1 where s1: "apply_memory_map c (boot_blank s) = (st1, s1)" by fastforce
  obtain st2 s2 where s2: "reserve_internal 0 SAPOTE_LOW_MEMORY_RESERVATION s1 = (st2, s2)" by fastforce
  obtain st3 s3 where s3: "reserve_internal ks (sub64 ke ks) s2 = (st3, s3)" by fastforce
  obtain st4 s4 where s4: "reserve_internal (information_start c)
      (sub64 (information_end c) (information_start c)) s3 = (st4, s4)" by fastforce
  have keep: "frame_shape s4 = frame_shape s" "\<not> allocator_initialized s4"
    "frame_shape s3 = frame_shape s" "\<not> allocator_initialized s3"
    "frame_shape s2 = frame_shape s" "\<not> allocator_initialized s2"
    "frame_shape s1 = frame_shape s" "\<not> allocator_initialized s1"
    using apply_memory_map_keep [OF s1] reserve_internal_keep [OF s2] reserve_internal_keep [OF s3]
      reserve_internal_keep [OF s4] boot_blank_keep [of s] by simp_all
  have "frame_shape (t\<lparr>next_search_index := i, allocator_initialized := v\<rparr>) = frame_shape t" for t i v
    by (simp add: frame_shape_def)
  with assms keep show ?thesis
    unfolding frame_allocator_initialize_def boot_blank_def [symmetric]
    by (auto simp: Let_def s1 s2 s3 s4 split: if_splits)
qed

definition boot_information_wf :: "boot_information \<Rightarrow> bool" where
  "boot_information_wf c \<longleftrightarrow> information_start c < 2 ^ 64 \<and>
     (\<forall>entries. memory_map c = Some entries \<longrightarrow> (\<forall>r \<in> set entries. region_wf r))"

text \<open>
  Any caller, with any arguments that fit their C types, in any order.
\<close>

inductive frame_step :: "frame_allocator \<Rightarrow> frame_allocator \<Rightarrow> bool" where
  step_initialize: "(\<And>c. context_pointer = Some c \<Longrightarrow> boot_information_wf c) \<Longrightarrow> ks < 2 ^ 64 \<Longrightarrow>
     frame_allocator_initialize ks ke context_pointer s = (st, s') \<Longrightarrow> frame_step s s'"
| step_allocate: "frame_allocate null s = (st, a, s') \<Longrightarrow> frame_step s s'"
| step_release: "frame_release address s = (st, s') \<Longrightarrow> frame_step s s'"
| step_allocate_contiguous: "(\<And>rq. request = Some rq \<Longrightarrow> request_wf rq) \<Longrightarrow>
     frame_allocate_contiguous request null s = (st, a, s') \<Longrightarrow> frame_step s s'"
| step_release_contiguous: "frame_release_contiguous allocation s = (st, a, s') \<Longrightarrow> frame_step s s'"
| step_reserve: "base < 2 ^ 64 \<Longrightarrow> len < 2 ^ 64 \<Longrightarrow>
     frame_reserve_range base len s = (st, s') \<Longrightarrow> frame_step s s'"

definition power_on_allocator :: frame_allocator where
  "power_on_allocator = \<lparr>eligible_bitmap = replicate BITMAP_BYTE_COUNT 0,
     used_bitmap = replicate BITMAP_BYTE_COUNT 0,
     allocator_stats = \<lparr>addressable_frames = 0, allocatable_frames = 0, free_frames = 0,
       allocated_frames = 0, reserved_frames = 0, highest_allocatable_address = 0\<rparr>,
     next_search_index = 0, allocator_initialized = False,
     contiguous_records = replicate FRAME_CONTIGUOUS_ALLOCATION_CAPACITY empty_record,
     next_contiguous_identifier = 0\<rparr>"

definition frame_reachable :: "frame_allocator \<Rightarrow> bool" where
  "frame_reachable = frame_step\<^sup>*\<^sup>* power_on_allocator"

definition frame_good :: "frame_allocator \<Rightarrow> bool" where
  "frame_good s \<longleftrightarrow> frame_shape s \<and> (allocator_initialized s \<longrightarrow> frame_inv s)"

lemma frame_allocate_good:
  assumes "frame_good s" "frame_allocate null s = (st, a, s')"
  shows "frame_good s'"
proof (cases "null \<or> \<not> allocator_initialized s")
  case True
  with assms show ?thesis by (auto simp: frame_allocate_def split: if_splits)
next
  case False
  then have "frame_inv s" using assms by (simp add: frame_good_def)
  then show ?thesis
    using frame_allocate_empty [of s] frame_allocate_some [of s] assms False
    by (cases "free_set s = {}") (auto simp: frame_good_def frame_inv_def)
qed

lemma frame_release_good:
  assumes "frame_good s" "frame_release address s = (st, s')"
  shows "frame_good s'"
proof (cases "st = FRAME_STATUS_OK")
  case False
  with assms show ?thesis by (auto simp: frame_release_def Let_def split: if_splits)
next
  case True
  define f where "f = address div 4096"
  have init: "allocator_initialized s" and f: "address = f * 4096" "f < FRAME_COUNT"
    "bitmap_get (eligible_bitmap s) f" "bitmap_get (used_bitmap s) f"
    "\<not> frame_in_contiguous_allocation (contiguous_records s) f"
    using assms(2) True
    by (auto simp: frame_release_def Let_def frame_consts f_def FRAME_COUNT_val split: if_splits)
  then have inv: "frame_inv s" using assms(1) by (simp add: frame_good_def)
  then have "f \<in> single_set s"
    using f frame_in_contiguous_allocation_iff [of s f]
    by (auto simp: single_set_def frame_sets frame_inv_def frame_shape_def)
  from frame_release_ok [OF inv init this] show ?thesis
    using assms(2) f(1) by (auto simp: frame_good_def frame_inv_def)
qed

lemma frame_allocate_contiguous_good:
  assumes "frame_good s" "\<And>rq. request = Some rq \<Longrightarrow> request_wf rq"
    and run: "frame_allocate_contiguous request null s = (st, a, s')"
  shows "frame_good s'"
proof (cases "request = None \<or> null \<or> \<not> allocator_initialized s")
  case True
  then have "s' = s" using run by (cases request) (auto simp: frame_allocate_contiguous_def split: if_splits)
  with assms show ?thesis by simp
next
  case False
  then obtain rq where rq: "request = Some rq" "null = False" "allocator_initialized s" by auto
  then have inv: "frame_inv s" and wf: "request_wf rq" using assms by (simp_all add: frame_good_def)
  note refuse = frame_allocate_contiguous_refusals [OF inv rq(3) wf]
  consider "contiguous_request_status rq \<noteq> FRAME_STATUS_OK"
    | "contiguous_request_status rq = FRAME_STATUS_OK"
      "\<forall>i < FRAME_CONTIGUOUS_ALLOCATION_CAPACITY. cr_active (contiguous_records s ! i)"
    | "contiguous_request_status rq = FRAME_STATUS_OK"
      "\<exists>i < FRAME_CONTIGUOUS_ALLOCATION_CAPACITY. \<not> cr_active (contiguous_records s ! i)"
      "fitting_runs rq s = {}"
    | "contiguous_request_status rq = FRAME_STATUS_OK"
      "\<exists>i < FRAME_CONTIGUOUS_ALLOCATION_CAPACITY. \<not> cr_active (contiguous_records s ! i)"
      "fitting_runs rq s \<noteq> {}" by blast
  then show ?thesis
  proof cases
    case 4
    show ?thesis
      by (rule frame_allocate_contiguous_some [OF inv rq(3) wf 4])
        (use run rq in \<open>simp add: frame_good_def frame_inv_def\<close>)
  qed (use refuse run rq assms(1) in auto)
qed

lemma frame_release_contiguous_good:
  assumes "frame_good s" and run: "frame_release_contiguous allocation s = (st, a, s')"
  shows "frame_good s'"
proof (cases "st = FRAME_STATUS_OK")
  case False
  with assms show ?thesis
    by (auto simp: frame_release_contiguous_def Let_def split: if_splits option.splits)
next
  case True
  then obtain al where al: "allocation = Some al"
    using run by (cases allocation) (simp_all add: frame_release_contiguous_def)
  then have act: "fc_active al" and init: "allocator_initialized s"
    using run True by (auto simp: frame_release_contiguous_def split: if_splits)
  obtain i where found: "find_from (\<lambda>index. cr_active (contiguous_records s ! index) \<and>
      cr_identifier (contiguous_records s ! index) = fc_identifier al) 0
      FRAME_CONTIGUOUS_ALLOCATION_CAPACITY = Some i"
  proof (cases "find_from (\<lambda>index. cr_active (contiguous_records s ! index) \<and>
      cr_identifier (contiguous_records s ! index) = fc_identifier al) 0
      FRAME_CONTIGUOUS_ALLOCATION_CAPACITY")
    case None
    then show ?thesis using run True al act init by (simp add: frame_release_contiguous_def)
  qed (rule that)
  have same: "cr_physical_base (contiguous_records s ! i) = fc_physical_base al"
      "cr_page_count (contiguous_records s ! i) = fc_page_count al"
    using run True al act init found
    by (simp_all add: frame_release_contiguous_def Let_def split: if_splits)
  have inv: "frame_inv s" using assms(1) init by (simp add: frame_good_def)
  obtain s'' where "frame_release_contiguous (Some al) s = (FRAME_STATUS_OK, Some (al\<lparr>fc_active := False\<rparr>), s'')"
    "frame_inv s''"
    using frame_release_contiguous_ok [OF inv init act same found refl refl] by metis
  with run al show ?thesis by (simp add: frame_good_def frame_inv_def)
qed

lemma frame_reserve_range_good:
  assumes "frame_good s" "base < 2 ^ 64" "len < 2 ^ 64"
    and run: "frame_reserve_range base len s = (st, s')"
  shows "frame_good s'"
proof (cases "allocator_initialized s \<and> (\<exists>first past. covering_frame_bounds base len = (FRAME_STATUS_OK, first, past))")
  case False
  with assms show ?thesis by (auto simp: frame_reserve_range_def split: prod.splits if_splits)
next
  case True
  then obtain first past where cb: "covering_frame_bounds base len = (FRAME_STATUS_OK, first, past)"
    and init: "allocator_initialized s" by blast
  then have "frame_inv s" using assms(1) by (simp add: frame_good_def)
  note cases = frame_reserve_range_cases [OF this init assms(2,3) cb]
  show ?thesis
  proof (cases "\<exists>f \<in> allocated_set s. frame_touches base len f")
    case True
    then show ?thesis using cases(1) run assms(1) by simp
  next
    case False
    then obtain s'' where "frame_reserve_range base len s = (FRAME_STATUS_OK, s'')" "frame_inv s''"
      using cases(2) by blast
    with run show ?thesis by (simp add: frame_good_def frame_inv_def)
  qed
qed

lemma frame_allocator_initialize_good:
  assumes "frame_good s" "\<And>c. cp = Some c \<Longrightarrow> boot_information_wf c" "ks < 2 ^ 64"
    and run: "frame_allocator_initialize ks ke cp s = (st, s')"
  shows "frame_good s'"
proof (cases "\<exists>c entries. cp = Some c \<and> memory_map c = Some entries")
  case False
  with assms show ?thesis by (auto simp: frame_allocator_initialize_def split: option.splits if_splits)
next
  case True
  then obtain c entries where c: "cp = Some c" "memory_map c = Some entries" by blast
  have wf: "\<forall>r \<in> set entries. region_wf r" "information_start c < 2 ^ 64"
    using assms(2) [OF c(1)] c(2) by (simp_all add: boot_information_wf_def)
  have shape: "frame_shape s" using assms(1) by (simp add: frame_good_def)
  note keep = frame_allocator_initialize_keep [OF run [unfolded c(1)]]
  show ?thesis
  proof (cases "st = FRAME_STATUS_OK")
    case True
    then show ?thesis
      using frame_allocator_initialize_sets(1) [OF shape c(2) wf(1) assms(3) wf(2)] run c(1)
      by (simp add: frame_good_def frame_inv_def)
  qed (use keep c(2) shape in \<open>simp add: frame_good_def\<close>)
qed

lemma frame_step_good: "frame_step s s' \<Longrightarrow> frame_good s \<Longrightarrow> frame_good s'"
proof (induction rule: frame_step.induct)
  case step_initialize
  then show ?case using frame_allocator_initialize_good by blast
next
  case step_allocate
  then show ?case using frame_allocate_good by blast
next
  case step_release
  then show ?case using frame_release_good by blast
next
  case step_allocate_contiguous
  then show ?case using frame_allocate_contiguous_good by blast
next
  case step_release_contiguous
  then show ?case using frame_release_contiguous_good by blast
next
  case step_reserve
  then show ?case using frame_reserve_range_good by blast
qed

lemma power_on_allocator_good: "frame_good power_on_allocator"
  by (simp add: frame_good_def power_on_allocator_def frame_shape_def)

lemma frame_reachable_good: "frame_reachable s \<Longrightarrow> frame_good s"
  unfolding frame_reachable_def
  by (induction rule: rtranclp_induct) (use power_on_allocator_good frame_step_good in blast)+

lemma frame_range_overlaps_iff:
  assumes "allocator_initialized s" "base < 2 ^ 64" "len < 2 ^ 64" "base + len < 2 ^ 64"
  shows "frame_range_overlaps_allocatable_memory base len s \<longleftrightarrow>
    (\<exists>f \<in> eligible_set s. frame_touches base len f)"
proof (cases "len = 0 \<or> 4294967296 \<le> base")
  case True
  then show ?thesis
    using assms by (auto simp: frame_range_overlaps_allocatable_memory_def checked_range_end_Some
        frame_consts frame_touches_def eligible_set_def FRAME_COUNT_val)
next
  case False
  define e where "e = min (base + len) 4294967296"
  define past where "past = (if (e AND (SAPOTE_PAGE_SIZE - 1)) \<noteq> 0 then e div 4096 + 1 else e div 4096)"
  have clip: "(if base + len > 4294967296 then 4294967296 else base + len) = e"
    "(if base + len < 4294967296 then base + len else 4294967296) = e"
    by (simp_all add: e_def min_def)
  have ce: "checked_range_end base len = Some (base + len)"
    using assms(4) by (simp add: checked_range_end_Some [OF assms(2,3)])
  have cb: "covering_frame_bounds base len = (FRAME_STATUS_OK, base div 4096, past)"
    unfolding covering_frame_bounds_def ce option.case frame_consts Let_def clip past_def using False by simp
  have "frame_range_overlaps_allocatable_memory base len s \<longleftrightarrow>
      find_from (bitmap_get (eligible_bitmap s)) (base div 4096) past \<noteq> None"
    unfolding frame_range_overlaps_allocatable_memory_def ce option.case frame_consts Let_def clip past_def
    using False assms(1) by simp
  also have "\<dots> \<longleftrightarrow> (\<exists>f \<in> {base div 4096..<past}. bitmap_get (eligible_bitmap s) f)"
    by (auto simp: find_from_None_iff)
  also have "\<dots> \<longleftrightarrow> (\<exists>f \<in> eligible_set s. frame_touches base len f)"
    unfolding covering_frame_bounds_exact [OF assms(2,3) cb] eligible_set_def by blast
  finally show ?thesis .
qed

section \<open>A small machine\<close>

text \<open>
  Eight free frames at 1 MiB; the properties below are exercised on it, and on the boot
  layout it could have come from.
\<close>

definition sample_allocator :: frame_allocator where
  "sample_allocator = \<lparr>
     eligible_bitmap = (replicate BITMAP_BYTE_COUNT 0)[32 := 255],
     used_bitmap = (replicate BITMAP_BYTE_COUNT 255)[32 := 0],
     allocator_stats = \<lparr>addressable_frames = FRAME_COUNT, allocatable_frames = 8, free_frames = 8,
       allocated_frames = 0, reserved_frames = FRAME_COUNT - 8,
       highest_allocatable_address = 264 * SAPOTE_PAGE_SIZE\<rparr>,
     next_search_index = 256, allocator_initialized = True,
     contiguous_records = replicate FRAME_CONTIGUOUS_ALLOCATION_CAPACITY empty_record,
     next_contiguous_identifier = 1\<rparr>"

definition sample_region :: boot_memory_region where
  "sample_region = \<lparr>base_address = 0x100000, region_length = 0x100000, region_type = 1\<rparr>"

definition sample_boot :: boot_information where
  "sample_boot = \<lparr>information_start = 0x102000, information_end = 0x103000,
     memory_map = Some [sample_region]\<rparr>"

lemma sample_bit: "f < FRAME_COUNT \<Longrightarrow>
    bitmap_get (eligible_bitmap sample_allocator) f \<longleftrightarrow> f \<in> {256..<264}"
    "f < FRAME_COUNT \<Longrightarrow> bitmap_get (used_bitmap sample_allocator) f \<longleftrightarrow> f \<notin> {256..<264}"
proof -
  have byte: "f div 8 = 32 \<longleftrightarrow> f \<in> {256..<264}"
  proof -
    have "f div 8 = 32 \<longleftrightarrow> 32 \<le> f div 8 \<and> f div 8 < 33" by linarith
    also have "\<dots> \<longleftrightarrow> 32 * 8 \<le> f \<and> f < 33 * 8"
      using less_eq_div_iff_mult_less_eq [of 8 32 f] div_less_iff_less_mult [of 8 f 33] by simp
    finally show ?thesis by simp
  qed
  have ones: "bit (255 :: 8 word) n" if "n < 8" for n
  proof -
    have "(255 :: 8 word) = mask 8" by (simp add: mask_eq_exp_minus_1)
    then show ?thesis using that by (simp only: bit_mask_iff) simp
  qed
  assume "f < FRAME_COUNT"
  then have len: "f div 8 < BITMAP_BYTE_COUNT" by (simp add: FRAME_COUNT_val BITMAP_BYTE_COUNT_val)
  have get: "(replicate BITMAP_BYTE_COUNT x)[32 := y] ! (f div 8) = (if f div 8 = 32 then y else x)"
    for x y :: "8 word"
    using len by (simp add: nth_list_update)
  show "bitmap_get (eligible_bitmap sample_allocator) f \<longleftrightarrow> f \<in> {256..<264}"
    "bitmap_get (used_bitmap sample_allocator) f \<longleftrightarrow> f \<notin> {256..<264}"
    unfolding bitmap_get_bit byte [symmetric]
    using ones [of "f mod 8"] by (auto simp: sample_allocator_def get)
qed

lemma sample_sets:
  "eligible_set sample_allocator = {256..<264}" "free_set sample_allocator = {256..<264}"
  "allocated_set sample_allocator = {}"
proof -
  have "f < FRAME_COUNT" if "f \<in> {256..<264}" for f using that by (simp add: FRAME_COUNT_val)
  then show "eligible_set sample_allocator = {256..<264}" "free_set sample_allocator = {256..<264}"
    "allocated_set sample_allocator = {}"
    using sample_bit unfolding frame_sets by blast+
qed

lemma sample_ready: "frame_ready sample_allocator" "identifiers_ok sample_allocator"
proof -
  have recs: "contiguous_records sample_allocator = idle_records" "allocator_initialized sample_allocator"
    "next_search_index sample_allocator < FRAME_COUNT" "frame_shape sample_allocator"
    by (simp_all add: sample_allocator_def FRAME_COUNT_val frame_shape_def)
  have "stats_ok sample_allocator"
    unfolding stats_ok_def sample_sets by (simp add: sample_allocator_def)
  moreover have "records_ok sample_allocator"
    using recs(1) by (simp add: records_ok_def contiguous_set_def record_frames_def empty_record_def)
  ultimately show "frame_ready sample_allocator" using recs by (simp add: frame_ready_def frame_inv_def)
  show "identifiers_ok sample_allocator" using recs(1) by (simp add: identifiers_ok_def empty_record_def)
qed

lemma sample_boot_layout: "boot_layout_ok 0x100000 0x101000 sample_boot [sample_region]"
  by (simp add: boot_layout_ok_def sample_boot_def sample_region_def region_fits_def frame_consts)

lemma sample_boot_eligible: "272 \<in> initial_eligible 0x100000 0x101000 sample_boot [sample_region]"
  by (simp add: initial_eligible_def sample_boot_def sample_region_def region_contains_def
      region_withdraws_def region_available_def frame_inside_def frame_touches_def frame_consts
      MULTIBOOT2_MEMORY_AVAILABLE_def FRAME_COUNT_val sub64_id)

definition sample_request :: frame_contiguous_request where
  "sample_request = \<lparr>rq_page_count = 2, rq_alignment = 8192,
     rq_maximum_physical_address = 0xFFFFFFFF\<rparr>"

lemma sample_request_ok:
  "request_wf sample_request" "contiguous_request_status sample_request = FRAME_STATUS_OK"
  "256 \<in> fitting_runs sample_request sample_allocator"
proof -
  show "request_wf sample_request" by (simp add: request_wf_def sample_request_def)
  have max: "maximum_past_frame sample_request = 1048576"
    by (simp add: maximum_past_frame_def sample_request_def frame_consts add64_def)
  have pow: "power_of_two 8192" by (simp add: power_of_two_def sub64_def)
  show "contiguous_request_status sample_request = FRAME_STATUS_OK"
    unfolding contiguous_request_status_def Let_def max
    by (simp add: sample_request_def frame_consts pow add64_def mul64_def sub64_def)
  show "256 \<in> fitting_runs sample_request sample_allocator"
    unfolding fitting_runs_def sample_sets max by (simp add: sample_request_def)
qed

section \<open>Properties\<close>

text \<open>
  C1. In every state a caller can bring the allocator into, by any sequence of public
  calls with any arguments, an initialized allocator satisfies its invariant: the three
  counters equal the sizes of the frame sets, the contiguous-run records describe
  disjoint runs of allocated frames, and the search hint is a valid frame.
\<close>

theorem frame_reachable_invariant:
  "frame_reachable s \<Longrightarrow> allocator_initialized s \<Longrightarrow> frame_inv s"
  using frame_reachable_good [of s] by (simp add: frame_good_def)

theorem frame_reachable_invariant_witness:
  "\<exists>s. frame_reachable s \<and> allocator_initialized s \<and> frame_inv s"
proof -
  have shape: "frame_shape power_on_allocator" using power_on_allocator_good by (simp add: frame_good_def)
  obtain s where run: "frame_allocator_initialize 0x100000 0x101000 (Some sample_boot)
      power_on_allocator = (FRAME_STATUS_OK, s)"
    using frame_allocator_initialize_total [OF shape sample_boot_layout] sample_boot_eligible by blast
  have "frame_step power_on_allocator s"
    by (rule step_initialize [OF _ _ run])
      (auto simp: boot_information_wf_def sample_boot_def sample_region_def region_wf_def)
  then have reach: "frame_reachable s" by (simp add: frame_reachable_def r_into_rtranclp)
  have "allocator_initialized s"
    using run by (auto simp: frame_allocator_initialize_def Let_def sample_boot_def
        split: prod.splits if_splits)
  with reach frame_reachable_invariant [OF reach] show ?thesis by blast
qed

text \<open>
  C2. Initialization on a boot layout whose ranges do not wrap: it succeeds exactly with
  the eligible frames the memory map intends (frames lying wholly inside an available
  region, touched by no other region, above the first MiB and clear of the kernel image
  and the boot information), all of them free, and the invariant holds.
\<close>

theorem frame_allocator_initialize_correct:
  assumes "frame_shape s" and "boot_layout_ok kernel_start kernel_end c entries"
    and "initial_eligible kernel_start kernel_end c entries \<noteq> {}"
  shows "\<exists>s'. frame_allocator_initialize kernel_start kernel_end (Some c) s = (FRAME_STATUS_OK, s') \<and>
    eligible_set s' = initial_eligible kernel_start kernel_end c entries \<and>
    free_set s' = eligible_set s' \<and> allocated_set s' = {} \<and> frame_ready s'"
proof -
  obtain s' where run:
    "frame_allocator_initialize kernel_start kernel_end (Some c) s = (FRAME_STATUS_OK, s')"
    using frame_allocator_initialize_total [OF assms] by blast
  have lay: "memory_map c = Some entries" "\<forall>r \<in> set entries. region_wf r" "kernel_start < 2 ^ 64"
    "information_start c < 2 ^ 64"
    using assms(2) region_fits_wf by (auto simp: boot_layout_ok_def)
  note sets = frame_allocator_initialize_sets [OF assms(1) lay run]
  show ?thesis
    using run sets free_allocated_partition(1) [of s'] by (auto simp: frame_ready_def)
qed

theorem frame_allocator_initialize_correct_witness:
  "\<exists>s'. frame_allocator_initialize 0x100000 0x101000 (Some sample_boot) sample_allocator
      = (FRAME_STATUS_OK, s') \<and> 272 \<in> free_set s' \<and> frame_ready s'"
proof -
  have "frame_shape sample_allocator" using sample_ready by (simp add: frame_ready_def frame_inv_def)
  with frame_allocator_initialize_correct [OF _ sample_boot_layout] sample_boot_eligible
  show ?thesis by (metis empty_iff)
qed

text \<open>
  C4. \<open>frame_allocate\<close>: when no frame is free it reports exhaustion and changes nothing;
  otherwise it succeeds with the address of a frame that was free, and exactly that frame
  moves from the free set to the frames owned by callers.
\<close>

theorem frame_allocate_correct:
  assumes "frame_ready s"
  shows "if free_set s = {} then frame_allocate False s = (FRAME_STATUS_OUT_OF_MEMORY, None, s)
    else \<exists>f s'. frame_allocate False s = (FRAME_STATUS_OK, Some (f * 4096), s') \<and>
      f \<in> free_set s \<and> free_set s' = free_set s - {f} \<and> single_set s' = insert f (single_set s) \<and>
      eligible_set s' = eligible_set s \<and> contiguous_records s' = contiguous_records s \<and> frame_ready s'"
  using assms frame_allocate_empty [of s] frame_allocate_some [of s]
  by (auto simp: frame_ready_def)

theorem frame_allocate_correct_witness:
  "\<exists>f s'. frame_allocate False sample_allocator = (FRAME_STATUS_OK, Some (f * 4096), s') \<and>
     256 \<le> f \<and> f < 264 \<and> frame_ready s'"
  using frame_allocate_correct [OF sample_ready(1)] by (auto simp: sample_sets)

text \<open>
  C5. \<open>frame_release\<close> names the one reason it refuses an address, in the order the code
  tests them, and a refusal leaves the allocator untouched; otherwise the frame returns
  to the free set.
\<close>

theorem frame_release_correct:
  assumes "frame_ready s" and "f = physical_address div 4096"
  shows "frame_release physical_address s =
    (if physical_address mod 4096 \<noteq> 0 then (FRAME_STATUS_UNALIGNED_ADDRESS, s)
     else if FRAME_COUNT \<le> f then (FRAME_STATUS_RANGE_OUTSIDE_LIMIT, s)
     else if f \<notin> eligible_set s then (FRAME_STATUS_FRAME_NOT_ALLOCATABLE, s)
     else if f \<in> free_set s then (FRAME_STATUS_DOUBLE_FREE, s)
     else if f \<in> contiguous_set s then (FRAME_STATUS_FRAME_IN_USE, s)
     else (FRAME_STATUS_OK, snd (frame_release physical_address s))) \<and>
    (f \<in> single_set s \<and> physical_address mod 4096 = 0 \<longrightarrow>
       free_set (snd (frame_release physical_address s)) = insert f (free_set s) \<and>
       single_set (snd (frame_release physical_address s)) = single_set s - {f} \<and>
       frame_ready (snd (frame_release physical_address s)))"
proof (cases "physical_address mod 4096 = 0")
  case False
  then show ?thesis using assms frame_release_refusals(1) by (simp add: frame_ready_def)
next
  case True
  then have pa: "physical_address = f * 4096" using assms(2) by auto
  have r: "frame_inv s" "allocator_initialized s" using assms(1) by (simp_all add: frame_ready_def)
  have part: "f \<in> single_set s" if "f < FRAME_COUNT" "f \<in> eligible_set s" "f \<notin> free_set s" "f \<notin> contiguous_set s"
    using that by (auto simp: single_set_def frame_sets)
  have sub: "f \<in> eligible_set s \<and> f < FRAME_COUNT \<and> f \<notin> free_set s \<and> f \<notin> contiguous_set s"
    if "f \<in> single_set s" using that by (auto simp: single_set_def frame_sets)
  note refuse = frame_release_refusals(2-5) [OF r, of f, folded pa]
  note ok = frame_release_ok [OF r, of f, folded pa]
  show ?thesis
    using True refuse ok part sub by (auto simp: frame_ready_def not_le)
qed

theorem frame_release_correct_witness:
  "frame_release (256 * 4096) sample_allocator = (FRAME_STATUS_DOUBLE_FREE, sample_allocator)"
  using frame_release_correct [OF sample_ready(1), of 256 "256 * 4096"]
  by (simp add: sample_sets FRAME_COUNT_val)

text \<open>
  Allocating a frame and releasing it restores the free frames and the frames owned
  by callers, and releasing it again is refused as a double free.
\<close>

theorem frame_allocate_release_roundtrip:
  assumes "frame_ready s" and "frame_allocate False s = (FRAME_STATUS_OK, Some a, s1)"
  shows "\<exists>s2. frame_release a s1 = (FRAME_STATUS_OK, s2) \<and> free_set s2 = free_set s \<and>
    single_set s2 = single_set s \<and> frame_ready s2 \<and>
    frame_release a s2 = (FRAME_STATUS_DOUBLE_FREE, s2)"
proof -
  have r: "frame_inv s" "allocator_initialized s" using assms(1) by (simp_all add: frame_ready_def)
  have ne: "free_set s \<noteq> {}" using frame_allocate_empty [OF r] assms(2) by auto
  from frame_allocate_some [OF r ne] assms(2) obtain f where f: "a = f * 4096" "f \<in> free_set s"
    "free_set s1 = free_set s - {f}" "single_set s1 = insert f (single_set s)"
    "frame_inv s1" "allocator_initialized s1" by auto
  from frame_release_ok [OF f(5,6), of f] f obtain s2 where s2: "frame_release a s1 = (FRAME_STATUS_OK, s2)"
    "free_set s2 = insert f (free_set s1)" "single_set s2 = single_set s1 - {f}"
    "frame_inv s2" "allocator_initialized s2" by auto
  have "f \<notin> single_set s" using f(2) by (auto simp: single_set_def frame_sets)
  then show ?thesis
    using s2 f frame_release_refusals(4) [OF s2(4,5), of f] by (auto simp: frame_ready_def)
qed

theorem frame_allocate_release_roundtrip_witness:
  "\<exists>a s1 s2. frame_allocate False sample_allocator = (FRAME_STATUS_OK, Some a, s1) \<and>
     frame_release a s1 = (FRAME_STATUS_OK, s2) \<and> free_set s2 = {256..<264}"
proof -
  obtain f s1 where s1: "frame_allocate False sample_allocator = (FRAME_STATUS_OK, Some (f * 4096), s1)"
    using frame_allocate_some [of sample_allocator] sample_ready(1)
    by (auto simp: sample_sets frame_ready_def)
  from frame_allocate_release_roundtrip [OF sample_ready(1) s1] s1 show ?thesis
    by (auto simp: sample_sets)
qed

text \<open>
  C3. A contiguous request that passes the argument checks, when a record slot is idle:
  it fails as out of memory exactly when no aligned run of free frames lies under the
  address bound, and otherwise takes the lowest such run.  The run is aligned, ends at or
  below the inclusive maximum address, was entirely free, and is the only thing that
  changes hands.
\<close>

theorem frame_allocate_contiguous_correct:
  assumes "frame_ready s" and "request_wf rq" and "contiguous_request_status rq = FRAME_STATUS_OK"
    and "i < FRAME_CONTIGUOUS_ALLOCATION_CAPACITY" and "\<not> cr_active (contiguous_records s ! i)"
  shows "if fitting_runs rq s = {}
    then frame_allocate_contiguous (Some rq) False s = (FRAME_STATUS_OUT_OF_MEMORY, empty_allocation, s)
    else \<exists>first a s'. frame_allocate_contiguous (Some rq) False s = (FRAME_STATUS_OK, a, s') \<and>
      first \<in> fitting_runs rq s \<and> (\<forall>g \<in> fitting_runs rq s. first \<le> g) \<and>
      fc_physical_base a = first * 4096 \<and> fc_page_count a = rq_page_count rq \<and> fc_active a \<and>
      rq_alignment rq dvd fc_physical_base a \<and>
      fc_physical_base a + fc_page_count a * 4096 - 1 \<le> rq_maximum_physical_address rq \<and>
      free_set s' = free_set s - {first..<first + rq_page_count rq} \<and>
      contiguous_set s' = contiguous_set s \<union> {first..<first + rq_page_count rq} \<and>
      single_set s' = single_set s \<and> frame_ready s'"
proof (cases "fitting_runs rq s = {}")
  case True
  then show ?thesis using assms frame_allocate_contiguous_refusals(3) [of s rq]
    by (auto simp: frame_ready_def)
next
  case False
  have r: "frame_inv s" "allocator_initialized s" using assms(1) by (simp_all add: frame_ready_def)
  have slot: "\<exists>i < FRAME_CONTIGUOUS_ALLOCATION_CAPACITY. \<not> cr_active (contiguous_records s ! i)"
    using assms(4,5) by blast
  obtain first s' where S:
    "frame_allocate_contiguous (Some rq) False s = (FRAME_STATUS_OK,
       \<lparr>fc_physical_base = first * 4096, fc_page_count = rq_page_count rq,
        fc_alignment = rq_alignment rq,
        fc_maximum_physical_address = rq_maximum_physical_address rq,
        fc_identifier = next_contiguous_identifier s, fc_active = True\<rparr>, s')"
    "first \<in> fitting_runs rq s" "\<forall>g \<in> fitting_runs rq s. first \<le> g"
    "free_set s' = free_set s - {first..<first + rq_page_count rq}"
    "contiguous_set s' = contiguous_set s \<union> {first..<first + rq_page_count rq}"
    "single_set s' = single_set s" "frame_inv s'" "allocator_initialized s'"
    by (rule frame_allocate_contiguous_some [OF r assms(2,3) slot False])
  have "first + rq_page_count rq - 1 < maximum_past_frame rq" "0 < rq_page_count rq"
    using S(2) contiguous_request_status_OK(1) [OF assms(2,3)] by (auto simp: fitting_runs_def)
  then have "(first + rq_page_count rq) * 4096 - 1 \<le> rq_maximum_physical_address rq"
    using maximum_past_frame_le(2) [OF assms(2), of "first + rq_page_count rq - 1"] by simp
  moreover have "rq_alignment rq dvd first * 4096" using S(2) by (simp add: fitting_runs_def)
  ultimately show ?thesis using S False by (auto simp: frame_ready_def algebra_simps)
qed

theorem frame_allocate_contiguous_correct_witness:
  "\<exists>a s'. frame_allocate_contiguous (Some sample_request) False sample_allocator = (FRAME_STATUS_OK, a, s') \<and>
     8192 dvd fc_physical_base a \<and> fc_page_count a = 2 \<and> frame_ready s'"
proof -
  have "(0::nat) < FRAME_CONTIGUOUS_ALLOCATION_CAPACITY"
    "\<not> cr_active (contiguous_records sample_allocator ! 0)"
    by (simp_all add: FRAME_CONTIGUOUS_ALLOCATION_CAPACITY_def sample_allocator_def empty_record_def)
  from frame_allocate_contiguous_correct [OF sample_ready(1) sample_request_ok(1,2) this]
  moreover have "rq_alignment sample_request = 8192" "rq_page_count sample_request = 2"
    by (simp_all add: sample_request_def)
  ultimately show ?thesis using sample_request_ok(3) by (auto split: if_splits)
qed

text \<open>
  A contiguous run can be released exactly once: releasing the handle the allocation
  returned restores the free frames, deactivates the handle, and after that both the
  deactivated handle and a stale copy of the active one are refused as double frees.
\<close>

theorem frame_contiguous_roundtrip:
  assumes "frame_ready s" and "identifiers_ok s" and "request_wf rq"
    and "frame_allocate_contiguous (Some rq) False s = (FRAME_STATUS_OK, a, s1)"
  shows "\<exists>s2. frame_release_contiguous (Some a) s1 =
      (FRAME_STATUS_OK, Some (a\<lparr>fc_active := False\<rparr>), s2) \<and>
    free_set s2 = free_set s \<and> contiguous_set s2 = contiguous_set s \<and>
    single_set s2 = single_set s \<and> frame_ready s2 \<and>
    frame_release_contiguous (Some (a\<lparr>fc_active := False\<rparr>)) s2 =
      (FRAME_STATUS_DOUBLE_FREE, Some (a\<lparr>fc_active := False\<rparr>), s2) \<and>
    frame_release_contiguous (Some a) s2 = (FRAME_STATUS_DOUBLE_FREE, Some a, s2)"
proof -
  have r: "frame_inv s" "allocator_initialized s" using assms(1) by (simp_all add: frame_ready_def)
  note refuse = frame_allocate_contiguous_refusals [OF r assms(3)]
  have ok: "contiguous_request_status rq = FRAME_STATUS_OK"
    using refuse(1) assms(4) by force
  have slot: "\<exists>i < FRAME_CONTIGUOUS_ALLOCATION_CAPACITY. \<not> cr_active (contiguous_records s ! i)"
    using refuse(2) [OF ok] assms(4) by force
  have fits: "fitting_runs rq s \<noteq> {}" using refuse(3) [OF ok slot] assms(4) by auto
  obtain first i where S:
    "a = \<lparr>fc_physical_base = first * 4096, fc_page_count = rq_page_count rq,
        fc_alignment = rq_alignment rq,
        fc_maximum_physical_address = rq_maximum_physical_address rq,
        fc_identifier = next_contiguous_identifier s, fc_active = True\<rparr>"
    "first \<in> fitting_runs rq s"
    "free_set s1 = free_set s - {first..<first + rq_page_count rq}"
    "contiguous_set s1 = contiguous_set s \<union> {first..<first + rq_page_count rq}"
    "single_set s1 = single_set s"
    "i < FRAME_CONTIGUOUS_ALLOCATION_CAPACITY"
    "contiguous_records s1 = (contiguous_records s)
       [i := \<lparr>cr_physical_base = first * 4096, cr_page_count = rq_page_count rq,
              cr_identifier = next_contiguous_identifier s, cr_active = True\<rparr>]"
    "frame_inv s1" "allocator_initialized s1"
    by (rule frame_allocate_contiguous_some [OF r assms(3) ok slot fits]) (use assms(4) in auto)
  have len: "length (contiguous_records s) = FRAME_CONTIGUOUS_ALLOCATION_CAPACITY"
    using r(1) by (simp add: frame_inv_def frame_shape_def)
  have ri: "contiguous_records s1 ! i = \<lparr>cr_physical_base = first * 4096, cr_page_count = rq_page_count rq,
              cr_identifier = next_contiguous_identifier s, cr_active = True\<rparr>"
    using S(6,7) len by simp
  have fresh: "j = i" if "j < FRAME_CONTIGUOUS_ALLOCATION_CAPACITY" "cr_active (contiguous_records s1 ! j)"
    "cr_identifier (contiguous_records s1 ! j) = next_contiguous_identifier s" for j
    using that assms(2) S(7) by (cases "j = i") (auto simp: identifiers_ok_def)
  have found: "find_from (\<lambda>index. cr_active (contiguous_records s1 ! index) \<and>
      cr_identifier (contiguous_records s1 ! index) = fc_identifier a) 0
      FRAME_CONTIGUOUS_ALLOCATION_CAPACITY = Some i"
    using identifier_find_unique [OF S(6), of s1] fresh ri S(1) by simp
  obtain s2 where R: "frame_release_contiguous (Some a) s1 =
      (FRAME_STATUS_OK, Some (a\<lparr>fc_active := False\<rparr>), s2)"
    "free_set s2 = free_set s1 \<union> {first..<first + rq_page_count rq}"
    "contiguous_set s2 = contiguous_set s1 - {first..<first + rq_page_count rq}"
    "single_set s2 = single_set s1"
    "contiguous_records s2 = (contiguous_records s1)[i := (contiguous_records s1 ! i)\<lparr>cr_active := False\<rparr>]"
    "frame_inv s2" "allocator_initialized s2"
    by (rule frame_release_contiguous_ok [OF S(8,9) _ _ _ found, of first "rq_page_count rq"])
      (use ri S(1) in auto)
  have "find_from (\<lambda>index. cr_active (contiguous_records s2 ! index) \<and>
      cr_identifier (contiguous_records s2 ! index) = next_contiguous_identifier s) 0
      FRAME_CONTIGUOUS_ALLOCATION_CAPACITY = None"
  proof -
    have "\<not> (cr_active (contiguous_records s2 ! j) \<and>
        cr_identifier (contiguous_records s2 ! j) = next_contiguous_identifier s)"
      if "j < FRAME_CONTIGUOUS_ALLOCATION_CAPACITY" for j
      using fresh [OF that] R(5) len S(6,7) that by (cases "j = i") auto
    then show ?thesis by (simp add: find_from_None_iff)
  qed
  then have again: "frame_release_contiguous (Some a) s2 = (FRAME_STATUS_DOUBLE_FREE, Some a, s2)"
    "frame_release_contiguous (Some (a\<lparr>fc_active := False\<rparr>)) s2 =
      (FRAME_STATUS_DOUBLE_FREE, Some (a\<lparr>fc_active := False\<rparr>), s2)"
    using R(7) S(1) by (simp_all add: frame_release_contiguous_def)
  have free: "{first..<first + rq_page_count rq} \<subseteq> free_set s" using S(2) by (simp add: fitting_runs_def)
  moreover have "free_set s \<inter> contiguous_set s = {}"
    using r(1) by (auto simp: frame_inv_def records_ok_def frame_sets)
  ultimately have "contiguous_set s2 = contiguous_set s" "free_set s2 = free_set s"
    using R(2,3) S(3,4) by blast+
  then show ?thesis using R again S(5) by (simp add: frame_ready_def)
qed

theorem frame_contiguous_roundtrip_witness:
  "\<exists>a s1 s2. frame_allocate_contiguous (Some sample_request) False sample_allocator = (FRAME_STATUS_OK, a, s1) \<and>
     frame_release_contiguous (Some a) s1 = (FRAME_STATUS_OK, Some (a\<lparr>fc_active := False\<rparr>), s2) \<and>
     free_set s2 = {256..<264}"
proof -
  have "\<exists>i < FRAME_CONTIGUOUS_ALLOCATION_CAPACITY. \<not> cr_active (contiguous_records sample_allocator ! i)"
    by (rule exI [of _ 0]) (simp add: FRAME_CONTIGUOUS_ALLOCATION_CAPACITY_def sample_allocator_def empty_record_def)
  then obtain a s1 where run: "frame_allocate_contiguous (Some sample_request) False sample_allocator =
      (FRAME_STATUS_OK, a, s1)"
    using frame_allocate_contiguous_some [of sample_allocator sample_request] sample_ready(1)
      sample_request_ok by (metis empty_iff frame_ready_def)
  from frame_contiguous_roundtrip [OF sample_ready sample_request_ok(1) run] run
  show ?thesis by (auto simp: sample_sets)
qed

text \<open>
  Reserving a range after initialization is all or nothing: if an allocated frame is
  touched the call is refused and nothing changes; otherwise exactly the touched frames
  leave the allocatable memory and no allocated frame is affected.
\<close>

theorem frame_reserve_range_correct:
  assumes "frame_ready s" and "base + len < 2 ^ 64" and "base < SAPOTE_EARLY_PHYSICAL_LIMIT"
  shows "if \<exists>f \<in> allocated_set s. frame_touches base len f
    then frame_reserve_range base len s = (FRAME_STATUS_FRAME_IN_USE, s)
    else \<exists>s'. frame_reserve_range base len s = (FRAME_STATUS_OK, s') \<and>
      eligible_set s' = {f \<in> eligible_set s. \<not> frame_touches base len f} \<and>
      allocated_set s' = allocated_set s \<and> contiguous_records s' = contiguous_records s \<and> frame_ready s'"
proof -
  have b: "base < 2 ^ 64" "len < 2 ^ 64" using assms(2) by simp_all
  obtain first past where "covering_frame_bounds base len = (FRAME_STATUS_OK, first, past)"
    using assms(2,3) unfolding covering_frame_bounds_eq [OF b] frame_consts
    by (cases "len = 0") simp_all
  from frame_reserve_range_cases [where s = s, OF _ _ b this] assms(1) show ?thesis
    by (auto simp: frame_ready_def)
qed

theorem frame_reserve_range_correct_witness:
  "\<exists>s'. frame_reserve_range 0x100000 5000 sample_allocator = (FRAME_STATUS_OK, s') \<and>
     258 \<in> eligible_set s' \<and> 257 \<notin> eligible_set s'"
proof -
  have "(0x100000::nat) + 5000 < 2 ^ 64" "0x100000 < SAPOTE_EARLY_PHYSICAL_LIMIT" by (simp_all add: frame_consts)
  from frame_reserve_range_correct [OF sample_ready(1) this] show ?thesis
    by (auto simp: sample_sets frame_touches_def)
qed

text \<open>
  Whatever number of frames is free can be handed out one by one: the addresses are
  pairwise distinct, and giving them all back, in any order, restores the free frames and
  the frames owned by callers.
\<close>

theorem frame_take_give_many:
  assumes "frame_ready s" and "n \<le> card (free_set s)"
  shows "\<exists>as s'. take_pages frame_take n s = (as, s') \<and> length as = n \<and> distinct as \<and> frame_ready s' \<and>
    (\<forall>bs. set bs = set as \<and> distinct bs \<longrightarrow>
       (\<exists>s''. give_pages frame_give bs s' = (True, s'') \<and> free_set s'' = free_set s \<and>
          single_set s'' = single_set s \<and> frame_ready s''))"
  using assms by (rule frames.take_give_pages)

theorem frame_take_give_many_witness:
  "\<exists>as s'. take_pages frame_take 8 sample_allocator = (as, s') \<and> length as = 8 \<and> distinct as"
  using frame_take_give_many [OF sample_ready(1), of 8] by (auto simp: sample_sets)

text \<open>
  The overlap query used before mapping device memory answers exactly whether some
  allocatable frame is touched by the range.
\<close>

theorem frame_range_overlaps_correct:
  assumes "allocator_initialized s" and "base + len < 2 ^ 64"
  shows "frame_range_overlaps_allocatable_memory base len s \<longleftrightarrow>
    (\<exists>f \<in> eligible_set s. frame_touches base len f)"
  using frame_range_overlaps_iff [OF assms(1) _ _ assms(2)] assms(2) by simp

theorem frame_range_overlaps_correct_witness:
  "frame_range_overlaps_allocatable_memory 0x107FFF 2 sample_allocator \<and>
   \<not> frame_range_overlaps_allocatable_memory 0x108000 4096 sample_allocator"
proof -
  have init: "allocator_initialized sample_allocator" by (simp add: sample_allocator_def)
  have "frame_touches 0x107FFF 2 263" by (simp add: frame_touches_def)
  moreover have "\<not> frame_touches 0x108000 4096 f" if "f < 264" for f
    using that by (simp add: frame_touches_def)
  ultimately show ?thesis
    using frame_range_overlaps_correct [OF init, of "0x107FFF" 2]
      frame_range_overlaps_correct [OF init, of "0x108000" 4096]
    by (force simp: sample_sets)
qed

end
