(* ===== verification/Token_Table.thy ===== *)
theory Token_Table
  imports Prelude
begin

text \<open>
  Tables that hand out tokens protected by a generation number.  Two components of the
  kernel share the pattern: the dynamic interrupt vectors and the process handle tables.
  A slot carries a 32-bit generation that skips zero when it wraps; a token is honoured
  only while its slot is in use and the generations agree.  The first part shows how long
  a retired generation stays retired, the second states the contract as a locale and
  derives what any sequence of requests does to a token.
\<close>

section \<open>Generation numbers\<close>

definition next_generation :: "32 word \<Rightarrow> 32 word" where
  "next_generation g = (let g' = g + 1 in if g' = 0 then g' + 1 else g')"

lemma next_generation_nonzero [simp]: "next_generation g \<noteq> 0"
  by (simp add: next_generation_def Let_def)

lemma next_generation_neq [simp]: "next_generation g \<noteq> g"
proof -
  have "unat (g + 1) = (if unat g = 2 ^ 32 - 1 then 0 else unat g + 1)"
    using unat_lt_power [of g] by (auto simp: unat_word_ariths mod_if)
  then have "g + 1 \<noteq> g" by (auto split: if_splits)
  then show ?thesis by (auto simp: next_generation_def Let_def add_eq_0_iff)
qed

text \<open>
  On nonzero generations the successor is addition of one modulo \<open>2 ^ 32 - 1\<close>, so a
  generation comes back only after \<open>2 ^ 32 - 1\<close> steps.
\<close>

lemma unat_next_generation:
  assumes "g \<noteq> 0"
  shows "unat (next_generation g) - 1 = (unat g - 1 + 1) mod (2 ^ 32 - 1)"
proof -
  have pos: "0 < unat g" using assms by (simp add: unat_gt_0)
  have lt: "unat g < 2 ^ 32" using unat_lt_power [of g] by simp
  show ?thesis
  proof (cases "unat g = 2 ^ 32 - 1")
    case True
    have "g + 1 = 0"
    proof -
      have "unat (g + 1) = (unat g + 1) mod 2 ^ 32" by (simp add: unat_word_ariths)
      also have "\<dots> = 0" using True by simp
      finally show ?thesis by (simp add: unat_eq_zero)
    qed
    with True pos show ?thesis by (simp add: next_generation_def)
  next
    case False
    have u: "unat (g + 1) = unat g + 1"
      using False lt by (simp add: unat_word_ariths)
    then have "g + 1 \<noteq> 0" by (metis Suc_eq_plus1 nat.distinct(1) unat_0)
    with u False lt pos show ?thesis by (simp add: next_generation_def Let_def)
  qed
qed

lemma next_generation_iterate:
  assumes "g \<noteq> 0"
  shows "(next_generation ^^ n) g \<noteq> 0 \<and>
    unat ((next_generation ^^ n) g) - 1 = (unat g - 1 + n) mod (2 ^ 32 - 1)"
proof (induction n)
  case 0
  have "unat g < 2 ^ 32" using unat_lt_power [of g] by simp
  then have "unat g - 1 < 2 ^ 32 - 1" using assms by (simp add: unat_gt_0 diff_less_mono)
  then show ?case using assms by simp
next
  case (Suc n)
  then have "unat ((next_generation ^^ Suc n) g) - 1 =
      ((unat g - 1 + n) mod (2 ^ 32 - 1) + 1) mod (2 ^ 32 - 1)"
    using unat_next_generation [of "(next_generation ^^ n) g"] by simp
  also have "\<dots> = (unat g - 1 + Suc n) mod (2 ^ 32 - 1)" by (simp add: mod_simps)
  finally show ?case by simp
qed

lemma next_generation_no_return:
  assumes "g \<noteq> 0" "0 < n" "n < 2 ^ 32 - 1"
  shows "(next_generation ^^ n) g \<noteq> g"
proof
  assume eq: "(next_generation ^^ n) g = g"
  define a where "a = unat g - 1"
  have "a mod (2 ^ 32 - 1) = (a + n) mod (2 ^ 32 - 1)"
    using next_generation_iterate [OF assms(1), of n] next_generation_iterate [OF assms(1), of 0]
    unfolding eq a_def by simp
  then have "(2 ^ 32 - 1) dvd n"
    by (metis add_diff_cancel_left' le_add1 mod_eq_dvd_iff_nat)
  with assms(2,3) show False by (auto dest: dvd_imp_le)
qed

section \<open>The token contract\<close>

datatype ('a, 't) token_op = Issue 'a | Retire 't

datatype 't token_event = Issued 't | Retired 't | Refused

fun run_tokens :: "('a \<Rightarrow> 'w \<Rightarrow> 't option \<times> 'w) \<Rightarrow> ('t \<Rightarrow> 'w \<Rightarrow> bool \<times> 'w) \<Rightarrow>
    ('a, 't) token_op list \<Rightarrow> 'w \<Rightarrow> 't token_event list \<times> 'w" where
  "run_tokens issue retire [] w = ([], w)"
| "run_tokens issue retire (Issue a # ops) w =
     (case issue a w of (r, w1) \<Rightarrow>
        (case run_tokens issue retire ops w1 of (evs, w') \<Rightarrow>
           ((case r of None \<Rightarrow> Refused | Some t \<Rightarrow> Issued t) # evs, w')))"
| "run_tokens issue retire (Retire t # ops) w =
     (case retire t w of (ok, w1) \<Rightarrow>
        (case run_tokens issue retire ops w1 of (evs, w') \<Rightarrow>
           ((if ok then Retired t else Refused) # evs, w')))"

locale token_table =
  fixes inv :: "'w \<Rightarrow> bool"
    and live :: "'w \<Rightarrow> 't set"
    and arg_ok :: "'a \<Rightarrow> bool"
    and issue :: "'a \<Rightarrow> 'w \<Rightarrow> 't option \<times> 'w"
    and retire :: "'t \<Rightarrow> 'w \<Rightarrow> bool \<times> 'w"
  assumes issue_refused: "inv w \<Longrightarrow> issue a w = (None, w') \<Longrightarrow> w' = w"
    and issue_fresh: "inv w \<Longrightarrow> arg_ok a \<Longrightarrow> issue a w = (Some t, w') \<Longrightarrow>
      t \<notin> live w \<and> live w' = insert t (live w) \<and> inv w'"
    and retire_live: "inv w \<Longrightarrow> t \<in> live w \<Longrightarrow>
      \<exists>w'. retire t w = (True, w') \<and> live w' = live w - {t} \<and> inv w'"
    and retire_dead: "inv w \<Longrightarrow> t \<notin> live w \<Longrightarrow> retire t w = (False, w)"
begin

text \<open>
  The books balance: for every token, what was live at the start plus what was issued
  equals what was retired plus what is live at the end.
\<close>

lemma run_tokens_ledger:
  assumes "inv w" and "\<And>a. Issue a \<in> set ops \<Longrightarrow> arg_ok a"
    and "run_tokens issue retire ops w = (evs, w')"
  shows "inv w'" and "(if t \<in> live w then 1 else 0) + count_if (\<lambda>e. e = Issued t) evs =
    count_if (\<lambda>e. e = Retired t) evs + (if t \<in> live w' then 1 else 0)"
proof -
  have "inv w' \<and> (if t \<in> live w then 1 else 0) + count_if (\<lambda>e. e = Issued t) evs =
    count_if (\<lambda>e. e = Retired t) evs + (if t \<in> live w' then 1 else 0)"
    using assms
  proof (induction ops arbitrary: w evs)
    case Nil
    then show ?case by simp
  next
    case (Cons op ops)
    have rest: "Issue a \<in> set ops \<Longrightarrow> arg_ok a" for a using Cons.prems(2) by simp
    show ?case
    proof (cases op)
      case (Issue a)
      then obtain r w1 evs' where i: "issue a w = (r, w1)"
        "run_tokens issue retire ops w1 = (evs', w')"
        "evs = (case r of None \<Rightarrow> Refused | Some t \<Rightarrow> Issued t) # evs'"
        using Cons.prems(3) by (auto split: prod.splits)
      have ok: "arg_ok a" using Cons.prems(2) Issue by simp
      show ?thesis
      proof (cases r)
        case None
        then have "w1 = w" using issue_refused [OF Cons.prems(1)] i(1) by blast
        with Cons.IH [OF Cons.prems(1) rest] i None show ?thesis by simp
      next
        case (Some u)
        note f = issue_fresh [OF Cons.prems(1) ok i(1) [unfolded Some]]
        from Cons.IH [OF _ rest i(2)] f i(3) Some show ?thesis by (auto split: if_splits)
      qed
    next
      case (Retire u)
      then obtain b w1 evs' where i: "retire u w = (b, w1)"
        "run_tokens issue retire ops w1 = (evs', w')"
        "evs = (if b then Retired u else Refused) # evs'"
        using Cons.prems(3) by (auto split: prod.splits)
      show ?thesis
      proof (cases "u \<in> live w")
        case True
        then obtain w2 where "retire u w = (True, w2)" "live w2 = live w - {u}" "inv w2"
          using retire_live [OF Cons.prems(1)] by blast
        with Cons.IH [OF _ rest i(2)] i True show ?thesis by (auto split: if_splits)
      next
        case False
        with retire_dead [OF Cons.prems(1)] i have "w1 = w" "\<not> b" by auto
        with Cons.IH [OF Cons.prems(1) rest] i show ?thesis by simp
      qed
    qed
  qed
  then show "inv w'" "(if t \<in> live w then 1 else 0) + count_if (\<lambda>e. e = Issued t) evs =
    count_if (\<lambda>e. e = Retired t) evs + (if t \<in> live w' then 1 else 0)" by blast+
qed

text \<open>A token that is never issued again is retired at most once.\<close>

lemma run_tokens_retired_once:
  assumes "inv w" and "\<And>a. Issue a \<in> set ops \<Longrightarrow> arg_ok a"
    and "run_tokens issue retire ops w = (evs, w')" and "Issued t \<notin> set evs"
  shows "count_if (\<lambda>e. e = Retired t) evs \<le> 1"
proof -
  have "count_if (\<lambda>e. e = Issued t) evs = 0"
    using assms(4) by (auto simp: count_if_def filter_empty_conv)
  with run_tokens_ledger(2) [OF assms(1-3), of t] show ?thesis by (auto split: if_splits)
qed

end

end
