(* ===== verification/Interrupt_Vector.thy ===== *)
theory Interrupt_Vector
  imports Token_Table
begin

text \<open>
  The dynamic interrupt-vector allocator, \<open>src/kernel/interrupt_vector.c\<close>.  The three
  file-scope variables form the record \<open>vector_table\<close>.  What the code asks of other
  components and of the processor (\<open>interrupts_ready\<close>, \<open>apic_is_online\<close>,
  \<open>cpu_interrupts_enabled\<close>) are boolean arguments.  The allocation structure is read
  and written through its pointer, so it is passed in as an option and returned updated.
\<close>

section \<open>Data\<close>

definition INTERRUPT_DYNAMIC_BASE :: nat where
  "INTERRUPT_DYNAMIC_BASE = 0x90"

definition INTERRUPT_DYNAMIC_LIMIT :: nat where
  "INTERRUPT_DYNAMIC_LIMIT = 0xF0"

definition DYNAMIC_VECTOR_COUNT :: nat where
  "DYNAMIC_VECTOR_COUNT = INTERRUPT_DYNAMIC_LIMIT - INTERRUPT_DYNAMIC_BASE"

lemmas vector_consts = INTERRUPT_DYNAMIC_BASE_def INTERRUPT_DYNAMIC_LIMIT_def

lemma DYNAMIC_VECTOR_COUNT_val: "DYNAMIC_VECTOR_COUNT = 96"
  by (simp add: DYNAMIC_VECTOR_COUNT_def vector_consts)

datatype interrupt_vector_status =
    INTERRUPT_VECTOR_STATUS_OK
  | INTERRUPT_VECTOR_STATUS_NULL_ARGUMENT
  | INTERRUPT_VECTOR_STATUS_ALREADY_INITIALIZED
  | INTERRUPT_VECTOR_STATUS_NOT_INITIALIZED
  | INTERRUPT_VECTOR_STATUS_INTERRUPTS_ENABLED
  | INTERRUPT_VECTOR_STATUS_RESERVED
  | INTERRUPT_VECTOR_STATUS_ALREADY_ALLOCATED
  | INTERRUPT_VECTOR_STATUS_EXHAUSTED
  | INTERRUPT_VECTOR_STATUS_DOUBLE_RELEASE
  | INTERRUPT_VECTOR_STATUS_STALE_ALLOCATION

record interrupt_vector_allocation =
  iva_vector :: "8 word"
  iva_generation :: "32 word"
  iva_active :: bool

record interrupt_vector_state =
  ivs_capacity :: u64
  ivs_allocated :: u64
  ivs_free :: u64
  ivs_active :: bool

record vector_table =
  vt_allocated :: "bool list"
  vt_generations :: "32 word list"
  vt_state :: interrupt_vector_state

section \<open>Operations\<close>

definition vector_is_dynamic :: "8 word \<Rightarrow> bool" where
  "vector_is_dynamic vector \<longleftrightarrow>
     unat vector \<ge> INTERRUPT_DYNAMIC_BASE \<and> unat vector < INTERRUPT_DYNAMIC_LIMIT"

definition vector_index :: "8 word \<Rightarrow> nat" where
  "vector_index vector = sub64 (unat vector) INTERRUPT_DYNAMIC_BASE"

definition interrupt_vector_initialize ::
  "bool \<Rightarrow> bool \<Rightarrow> bool \<Rightarrow> vector_table \<Rightarrow> interrupt_vector_status \<times> vector_table" where
  "interrupt_vector_initialize interrupts_ready apic_is_online cpu_interrupts_enabled s =
     (if ivs_active (vt_state s) then (INTERRUPT_VECTOR_STATUS_ALREADY_INITIALIZED, s)
      else if \<not> interrupts_ready \<or> \<not> apic_is_online
        then (INTERRUPT_VECTOR_STATUS_NOT_INITIALIZED, s)
      else if cpu_interrupts_enabled then (INTERRUPT_VECTOR_STATUS_INTERRUPTS_ENABLED, s)
      else (INTERRUPT_VECTOR_STATUS_OK,
            s\<lparr>vt_allocated := fold (\<lambda>index xs. xs[index := False]) [0..<DYNAMIC_VECTOR_COUNT]
                 (vt_allocated s),
              vt_generations := fold (\<lambda>index xs. xs[index := 0]) [0..<DYNAMIC_VECTOR_COUNT]
                 (vt_generations s),
              vt_state := \<lparr>ivs_capacity = DYNAMIC_VECTOR_COUNT, ivs_allocated = 0,
                ivs_free = DYNAMIC_VECTOR_COUNT, ivs_active = True\<rparr>\<rparr>))"

definition null_allocation :: interrupt_vector_allocation where
  "null_allocation = \<lparr>iva_vector = 0, iva_generation = 0, iva_active = False\<rparr>"

definition interrupt_vector_allocate_specific ::
  "bool \<Rightarrow> 8 word \<Rightarrow> interrupt_vector_allocation option \<Rightarrow> vector_table \<Rightarrow>
     interrupt_vector_status \<times> interrupt_vector_allocation option \<times> vector_table" where
  "interrupt_vector_allocate_specific cpu_interrupts_enabled vector allocation s =
     (if allocation = None then (INTERRUPT_VECTOR_STATUS_NULL_ARGUMENT, None, s)
      else if \<not> ivs_active (vt_state s)
        then (INTERRUPT_VECTOR_STATUS_NOT_INITIALIZED, Some null_allocation, s)
      else if cpu_interrupts_enabled
        then (INTERRUPT_VECTOR_STATUS_INTERRUPTS_ENABLED, Some null_allocation, s)
      else if \<not> vector_is_dynamic vector
        then (INTERRUPT_VECTOR_STATUS_RESERVED, Some null_allocation, s)
      else
        let index = vector_index vector in
        if vt_allocated s ! index
          then (INTERRUPT_VECTOR_STATUS_ALREADY_ALLOCATED, Some null_allocation, s)
        else
          let generation = next_generation (vt_generations s ! index); st = vt_state s in
          (INTERRUPT_VECTOR_STATUS_OK,
           Some \<lparr>iva_vector = vector, iva_generation = generation, iva_active = True\<rparr>,
           s\<lparr>vt_generations := (vt_generations s)[index := generation],
             vt_allocated := (vt_allocated s)[index := True],
             vt_state := st\<lparr>ivs_allocated := add64 (ivs_allocated st) 1,
                             ivs_free := sub64 (ivs_free st) 1\<rparr>\<rparr>))"

definition interrupt_vector_allocate ::
  "bool \<Rightarrow> interrupt_vector_allocation option \<Rightarrow> vector_table \<Rightarrow>
     interrupt_vector_status \<times> interrupt_vector_allocation option \<times> vector_table" where
  "interrupt_vector_allocate cpu_interrupts_enabled allocation_pointer s =
     (case allocation_pointer of
        None \<Rightarrow> (INTERRUPT_VECTOR_STATUS_NULL_ARGUMENT, None, s)
      | Some allocation \<Rightarrow>
          if \<not> ivs_active (vt_state s)
            then (INTERRUPT_VECTOR_STATUS_NOT_INITIALIZED, Some (allocation\<lparr>iva_active := False\<rparr>), s)
          else if cpu_interrupts_enabled
            then (INTERRUPT_VECTOR_STATUS_INTERRUPTS_ENABLED,
                  Some (allocation\<lparr>iva_active := False\<rparr>), s)
          else case find_from (\<lambda>vector. \<not> vt_allocated s ! vector_index (of_nat vector))
                 INTERRUPT_DYNAMIC_BASE INTERRUPT_DYNAMIC_LIMIT of
            Some vector \<Rightarrow>
              interrupt_vector_allocate_specific cpu_interrupts_enabled (of_nat vector)
                (Some allocation) s
          | None \<Rightarrow> (INTERRUPT_VECTOR_STATUS_EXHAUSTED, Some null_allocation, s))"

definition interrupt_vector_release ::
  "bool \<Rightarrow> interrupt_vector_allocation option \<Rightarrow> vector_table \<Rightarrow>
     interrupt_vector_status \<times> interrupt_vector_allocation option \<times> vector_table" where
  "interrupt_vector_release cpu_interrupts_enabled allocation_pointer s =
     (case allocation_pointer of
        None \<Rightarrow> (INTERRUPT_VECTOR_STATUS_NULL_ARGUMENT, None, s)
      | Some allocation \<Rightarrow>
          if \<not> ivs_active (vt_state s)
            then (INTERRUPT_VECTOR_STATUS_NOT_INITIALIZED, Some allocation, s)
          else if cpu_interrupts_enabled
            then (INTERRUPT_VECTOR_STATUS_INTERRUPTS_ENABLED, Some allocation, s)
          else if \<not> vector_is_dynamic (iva_vector allocation)
            then (INTERRUPT_VECTOR_STATUS_RESERVED, Some allocation, s)
          else
            let index = vector_index (iva_vector allocation); st = vt_state s in
            if \<not> iva_active allocation \<or> \<not> vt_allocated s ! index
              then (INTERRUPT_VECTOR_STATUS_DOUBLE_RELEASE, Some allocation, s)
            else if vt_generations s ! index \<noteq> iva_generation allocation
              then (INTERRUPT_VECTOR_STATUS_STALE_ALLOCATION, Some allocation, s)
            else
              (INTERRUPT_VECTOR_STATUS_OK, Some (allocation\<lparr>iva_active := False\<rparr>),
               s\<lparr>vt_allocated := (vt_allocated s)[index := False],
                 vt_state := st\<lparr>ivs_allocated := sub64 (ivs_allocated st) 1,
                                 ivs_free := add64 (ivs_free st) 1\<rparr>\<rparr>))"

definition interrupt_vector_is_allocated :: "8 word \<Rightarrow> vector_table \<Rightarrow> bool" where
  "interrupt_vector_is_allocated vector s \<longleftrightarrow>
     ivs_active (vt_state s) \<and> vector_is_dynamic vector \<and> vt_allocated s ! vector_index vector"

definition interrupt_vector_get_state :: "vector_table \<Rightarrow> interrupt_vector_state" where
  "interrupt_vector_get_state s = vt_state s"

fun interrupt_vector_status_string :: "interrupt_vector_status \<Rightarrow> string" where
  "interrupt_vector_status_string INTERRUPT_VECTOR_STATUS_OK = ''ok''"
| "interrupt_vector_status_string INTERRUPT_VECTOR_STATUS_NULL_ARGUMENT =
     ''null interrupt-vector argument''"
| "interrupt_vector_status_string INTERRUPT_VECTOR_STATUS_ALREADY_INITIALIZED =
     ''dynamic vector allocator was initialized twice''"
| "interrupt_vector_status_string INTERRUPT_VECTOR_STATUS_NOT_INITIALIZED =
     ''dynamic vector allocator or local APIC is not initialized''"
| "interrupt_vector_status_string INTERRUPT_VECTOR_STATUS_INTERRUPTS_ENABLED =
     ''dynamic vector mutation requires IF cleared''"
| "interrupt_vector_status_string INTERRUPT_VECTOR_STATUS_RESERVED =
     ''interrupt vector is reserved''"
| "interrupt_vector_status_string INTERRUPT_VECTOR_STATUS_ALREADY_ALLOCATED =
     ''interrupt vector is already allocated''"
| "interrupt_vector_status_string INTERRUPT_VECTOR_STATUS_EXHAUSTED =
     ''dynamic interrupt vectors are exhausted''"
| "interrupt_vector_status_string INTERRUPT_VECTOR_STATUS_DOUBLE_RELEASE =
     ''interrupt vector was released twice''"
| "interrupt_vector_status_string INTERRUPT_VECTOR_STATUS_STALE_ALLOCATION =
     ''interrupt vector allocation generation is stale''"

section \<open>Invariant\<close>

definition vt_shape :: "vector_table \<Rightarrow> bool" where
  "vt_shape s \<longleftrightarrow> length (vt_allocated s) = DYNAMIC_VECTOR_COUNT \<and>
     length (vt_generations s) = DYNAMIC_VECTOR_COUNT"

definition vt_counts :: "vector_table \<Rightarrow> bool" where
  "vt_counts s \<longleftrightarrow> ivs_capacity (vt_state s) = DYNAMIC_VECTOR_COUNT \<and>
     ivs_allocated (vt_state s) = count_if (\<lambda>b. b) (vt_allocated s) \<and>
     ivs_free (vt_state s) + ivs_allocated (vt_state s) = DYNAMIC_VECTOR_COUNT"

definition vt_inv :: "vector_table \<Rightarrow> bool" where
  "vt_inv s \<longleftrightarrow> vt_shape s \<and> (ivs_active (vt_state s) \<longrightarrow> vt_counts s)"

text \<open>The tokens that are honoured: a vector in use, with its current generation.\<close>

definition live_vectors :: "vector_table \<Rightarrow> (8 word \<times> 32 word) set" where
  "live_vectors s = {(v, g). vector_is_dynamic v \<and> vt_allocated s ! vector_index v \<and>
     vt_generations s ! vector_index v = g}"

lemma vector_index_eq: "vector_is_dynamic v \<Longrightarrow> vector_index v = unat v - 0x90"
  using unat_lt_power [of v] by (simp add: vector_index_def vector_is_dynamic_def vector_consts sub64_id)

lemma vector_index_less: "vector_is_dynamic v \<Longrightarrow> vector_index v < DYNAMIC_VECTOR_COUNT"
  by (auto simp: vector_index_eq vector_is_dynamic_def vector_consts DYNAMIC_VECTOR_COUNT_val)

lemma vector_index_inj:
  "vector_is_dynamic v \<Longrightarrow> vector_is_dynamic u \<Longrightarrow> vector_index v = vector_index u \<longleftrightarrow> v = u"
proof -
  assume "vector_is_dynamic v" "vector_is_dynamic u"
  then have "vector_index v = vector_index u \<longleftrightarrow> unat v = unat u"
    by (auto simp: vector_index_eq vector_is_dynamic_def vector_consts)
  then show ?thesis by (auto intro: unsigned_word_eqI)
qed

lemma dynamic_of_nat:
  "INTERRUPT_DYNAMIC_BASE \<le> n \<Longrightarrow> n < INTERRUPT_DYNAMIC_LIMIT \<Longrightarrow>
     vector_is_dynamic (of_nat n) \<and> unat (of_nat n :: 8 word) = n"
  by (simp add: vector_is_dynamic_def vector_consts unat_of_nat)

lemma live_vectors_update:
  assumes "vt_shape s" "vector_is_dynamic v"
    and "s' = s\<lparr>vt_generations := (vt_generations s)[vector_index v := g],
               vt_allocated := (vt_allocated s)[vector_index v := b], vt_state := st\<rparr>"
  shows "live_vectors s' = {t \<in> live_vectors s. fst t \<noteq> v} \<union> (if b then {(v, g)} else {})"
proof -
  have "vector_index v < length (vt_allocated s)" "vector_index v < length (vt_generations s)"
    using assms(1) vector_index_less [OF assms(2)] by (simp_all add: vt_shape_def)
  then show ?thesis
    using assms(2) vector_index_inj [OF assms(2)]
    by (auto simp: live_vectors_def assms(3) nth_list_update split: if_splits)
qed

section \<open>Correctness of the operations\<close>

lemma vt_counts_allocate:
  assumes "vt_shape s" "vt_counts s" "i < DYNAMIC_VECTOR_COUNT" "\<not> vt_allocated s ! i"
    and "s' = s\<lparr>vt_generations := gs, vt_allocated := (vt_allocated s)[i := True],
      vt_state := (vt_state s)\<lparr>ivs_allocated := add64 (ivs_allocated (vt_state s)) 1,
        ivs_free := sub64 (ivs_free (vt_state s)) 1\<rparr>\<rparr>"
  shows "vt_counts s'"
proof -
  have len: "i < length (vt_allocated s)" using assms(1,3) by (simp add: vt_shape_def)
  have "count_if (\<lambda>b. b) (vt_allocated s) < 96"
    using count_if_less [OF len, of "\<lambda>b. b"] assms(1,4) by (simp add: vt_shape_def DYNAMIC_VECTOR_COUNT_val)
  then show ?thesis
    using assms(2,4) count_if_update [OF len, of "\<lambda>b. b" True]
    by (simp add: vt_counts_def assms(5) DYNAMIC_VECTOR_COUNT_val c_arith)
qed

lemma vt_counts_release:
  assumes "vt_shape s" "vt_counts s" "i < DYNAMIC_VECTOR_COUNT" "vt_allocated s ! i"
    and "s' = s\<lparr>vt_allocated := (vt_allocated s)[i := False],
      vt_state := (vt_state s)\<lparr>ivs_allocated := sub64 (ivs_allocated (vt_state s)) 1,
        ivs_free := add64 (ivs_free (vt_state s)) 1\<rparr>\<rparr>"
  shows "vt_counts s'"
proof -
  have len: "i < length (vt_allocated s)" using assms(1,3) by (simp add: vt_shape_def)
  have "0 < count_if (\<lambda>b. b) (vt_allocated s)" using count_if_pos [OF len] assms(4) by simp
  moreover have "count_if (\<lambda>b. b) (vt_allocated s) \<le> 96"
    using count_if_le [of "\<lambda>b. b" "vt_allocated s"] assms(1)
    unfolding vt_shape_def DYNAMIC_VECTOR_COUNT_val by linarith
  ultimately show ?thesis
    using assms(2,4) count_if_update [OF len, of "\<lambda>b. b" False]
    by (simp add: vt_counts_def assms(5) DYNAMIC_VECTOR_COUNT_val c_arith)
qed

lemma interrupt_vector_allocate_specific_cases:
  assumes inv: "vt_inv s" and act: "ivs_active (vt_state s)"
  shows "\<not> vector_is_dynamic v \<Longrightarrow> interrupt_vector_allocate_specific False v (Some a) s =
      (INTERRUPT_VECTOR_STATUS_RESERVED, Some null_allocation, s)"
    and "vector_is_dynamic v \<Longrightarrow> vt_allocated s ! vector_index v \<Longrightarrow>
      interrupt_vector_allocate_specific False v (Some a) s =
        (INTERRUPT_VECTOR_STATUS_ALREADY_ALLOCATED, Some null_allocation, s)"
    and "vector_is_dynamic v \<Longrightarrow> \<not> vt_allocated s ! vector_index v \<Longrightarrow>
      \<exists>s'. interrupt_vector_allocate_specific False v (Some a) s =
        (INTERRUPT_VECTOR_STATUS_OK, Some \<lparr>iva_vector = v,
          iva_generation = next_generation (vt_generations s ! vector_index v), iva_active = True\<rparr>, s') \<and>
        live_vectors s' = insert (v, next_generation (vt_generations s ! vector_index v)) (live_vectors s) \<and>
        (\<forall>i < DYNAMIC_VECTOR_COUNT. vt_generations s' ! i = (if i = vector_index v
          then next_generation (vt_generations s ! i) else vt_generations s ! i)) \<and>
        vt_inv s' \<and> ivs_active (vt_state s')"
proof -
  show "\<not> vector_is_dynamic v \<Longrightarrow> interrupt_vector_allocate_specific False v (Some a) s =
      (INTERRUPT_VECTOR_STATUS_RESERVED, Some null_allocation, s)"
    using act by (simp add: interrupt_vector_allocate_specific_def)
  show "vector_is_dynamic v \<Longrightarrow> vt_allocated s ! vector_index v \<Longrightarrow>
      interrupt_vector_allocate_specific False v (Some a) s =
        (INTERRUPT_VECTOR_STATUS_ALREADY_ALLOCATED, Some null_allocation, s)"
    using act by (simp add: interrupt_vector_allocate_specific_def Let_def)
  assume dyn: "vector_is_dynamic v" and idle: "\<not> vt_allocated s ! vector_index v"
  have shape: "vt_shape s" and counts: "vt_counts s" using inv act by (simp_all add: vt_inv_def)
  let ?i = "vector_index v" and ?g = "next_generation (vt_generations s ! vector_index v)"
  define s' where "s' = s\<lparr>vt_generations := (vt_generations s)[?i := ?g],
      vt_allocated := (vt_allocated s)[?i := True],
      vt_state := (vt_state s)\<lparr>ivs_allocated := add64 (ivs_allocated (vt_state s)) 1,
        ivs_free := sub64 (ivs_free (vt_state s)) 1\<rparr>\<rparr>"
  have run: "interrupt_vector_allocate_specific False v (Some a) s =
      (INTERRUPT_VECTOR_STATUS_OK, Some \<lparr>iva_vector = v, iva_generation = ?g, iva_active = True\<rparr>, s')"
    using act dyn idle by (simp add: interrupt_vector_allocate_specific_def Let_def s'_def)
  have "live_vectors s' = {t \<in> live_vectors s. fst t \<noteq> v} \<union> {(v, ?g)}"
    using live_vectors_update [OF shape dyn s'_def] by simp
  moreover have "fst t \<noteq> v" if "t \<in> live_vectors s" for t
    using that idle by (auto simp: live_vectors_def)
  ultimately have live: "live_vectors s' = insert (v, ?g) (live_vectors s)" by auto
  have "vt_inv s'" "ivs_active (vt_state s')"
    using vt_counts_allocate [OF shape counts vector_index_less [OF dyn] idle s'_def] shape act
    by (simp_all add: vt_inv_def vt_shape_def s'_def)
  moreover have "\<forall>i < DYNAMIC_VECTOR_COUNT. vt_generations s' ! i = (if i = ?i
          then next_generation (vt_generations s ! i) else vt_generations s ! i)"
    using shape by (auto simp: s'_def vt_shape_def nth_list_update)
  ultimately show "\<exists>s'. interrupt_vector_allocate_specific False v (Some a) s =
        (INTERRUPT_VECTOR_STATUS_OK, Some \<lparr>iva_vector = v, iva_generation = ?g, iva_active = True\<rparr>, s') \<and>
        live_vectors s' = insert (v, ?g) (live_vectors s) \<and>
        (\<forall>i < DYNAMIC_VECTOR_COUNT. vt_generations s' ! i = (if i = ?i
          then next_generation (vt_generations s ! i) else vt_generations s ! i)) \<and>
        vt_inv s' \<and> ivs_active (vt_state s')"
    using run live by blast
qed

lemma interrupt_vector_allocate_cases:
  assumes inv: "vt_inv s" and act: "ivs_active (vt_state s)"
  shows "\<forall>v. vector_is_dynamic v \<longrightarrow> vt_allocated s ! vector_index v \<Longrightarrow>
      interrupt_vector_allocate False (Some a) s =
        (INTERRUPT_VECTOR_STATUS_EXHAUSTED, Some null_allocation, s)"
    and "vector_is_dynamic u \<Longrightarrow> \<not> vt_allocated s ! vector_index u \<Longrightarrow>
      \<exists>v. vector_is_dynamic v \<and> \<not> vt_allocated s ! vector_index v \<and>
        (\<forall>u. vector_is_dynamic u \<and> \<not> vt_allocated s ! vector_index u \<longrightarrow> unat v \<le> unat u) \<and>
        interrupt_vector_allocate False (Some a) s = interrupt_vector_allocate_specific False v (Some a) s"
proof -
  let ?idle = "\<lambda>n. \<not> vt_allocated s ! vector_index (of_nat n)"
  let ?find = "find_from ?idle INTERRUPT_DYNAMIC_BASE INTERRUPT_DYNAMIC_LIMIT"
  show "interrupt_vector_allocate False (Some a) s =
        (INTERRUPT_VECTOR_STATUS_EXHAUSTED, Some null_allocation, s)"
    if all: "\<forall>v. vector_is_dynamic v \<longrightarrow> vt_allocated s ! vector_index v"
  proof -
    have "?find = None" using all dynamic_of_nat by (simp add: find_from_None_iff)
    then show ?thesis using act by (simp add: interrupt_vector_allocate_def)
  qed
  assume u: "vector_is_dynamic u" "\<not> vt_allocated s ! vector_index u"
  obtain n where n: "?find = Some n"
    using find_from_exists [of INTERRUPT_DYNAMIC_BASE "unat u" INTERRUPT_DYNAMIC_LIMIT ?idle] u
    by (auto simp: vector_is_dynamic_def)
  note nD = find_from_SomeD [OF n]
  define v :: "8 word" where "v = of_nat n"
  have v: "vector_is_dynamic v" "unat v = n" using nD dynamic_of_nat [of n] by (auto simp: v_def)
  have "unat v \<le> unat w" if "vector_is_dynamic w" "\<not> vt_allocated s ! vector_index w" for w
  proof (rule ccontr)
    assume "\<not> unat v \<le> unat w"
    then have "INTERRUPT_DYNAMIC_BASE \<le> unat w \<and> unat w < n" using that(1) v(2) by (simp add: vector_is_dynamic_def)
    then have "vt_allocated s ! vector_index (of_nat (unat w))" using nD by blast
    with that(2) show False by simp
  qed
  moreover have "interrupt_vector_allocate False (Some a) s = interrupt_vector_allocate_specific False v (Some a) s"
    using act n by (simp add: interrupt_vector_allocate_def v_def)
  ultimately show "\<exists>v. vector_is_dynamic v \<and> \<not> vt_allocated s ! vector_index v \<and>
        (\<forall>u. vector_is_dynamic u \<and> \<not> vt_allocated s ! vector_index u \<longrightarrow> unat v \<le> unat u) \<and>
        interrupt_vector_allocate False (Some a) s = interrupt_vector_allocate_specific False v (Some a) s"
    using v(1) nD by (intro exI [of _ v]) (auto simp: v_def)
qed

lemma interrupt_vector_release_cases:
  assumes inv: "vt_inv s" and act: "ivs_active (vt_state s)"
  shows "\<not> (iva_active a \<and> (iva_vector a, iva_generation a) \<in> live_vectors s) \<Longrightarrow>
      \<exists>st. st \<noteq> INTERRUPT_VECTOR_STATUS_OK \<and> interrupt_vector_release False (Some a) s = (st, Some a, s)"
    and "iva_active a \<Longrightarrow> (iva_vector a, iva_generation a) \<in> live_vectors s \<Longrightarrow>
      \<exists>s'. interrupt_vector_release False (Some a) s =
        (INTERRUPT_VECTOR_STATUS_OK, Some (a\<lparr>iva_active := False\<rparr>), s') \<and>
        live_vectors s' = live_vectors s - {(iva_vector a, iva_generation a)} \<and>
        vt_generations s' = vt_generations s \<and> vt_inv s' \<and> ivs_active (vt_state s')"
proof -
  let ?i = "vector_index (iva_vector a)"
  show "\<not> (iva_active a \<and> (iva_vector a, iva_generation a) \<in> live_vectors s) \<Longrightarrow>
      \<exists>st. st \<noteq> INTERRUPT_VECTOR_STATUS_OK \<and> interrupt_vector_release False (Some a) s = (st, Some a, s)"
    using act by (auto simp: interrupt_vector_release_def live_vectors_def Let_def)
  assume a: "iva_active a" and live: "(iva_vector a, iva_generation a) \<in> live_vectors s"
  then have dyn: "vector_is_dynamic (iva_vector a)" and used: "vt_allocated s ! ?i"
    and gen: "vt_generations s ! ?i = iva_generation a" by (simp_all add: live_vectors_def)
  have shape: "vt_shape s" and counts: "vt_counts s" using inv act by (simp_all add: vt_inv_def)
  define s' where "s' = s\<lparr>vt_allocated := (vt_allocated s)[?i := False],
      vt_state := (vt_state s)\<lparr>ivs_allocated := sub64 (ivs_allocated (vt_state s)) 1,
        ivs_free := add64 (ivs_free (vt_state s)) 1\<rparr>\<rparr>"
  have run: "interrupt_vector_release False (Some a) s =
      (INTERRUPT_VECTOR_STATUS_OK, Some (a\<lparr>iva_active := False\<rparr>), s')"
    using act a dyn used gen by (simp add: interrupt_vector_release_def Let_def s'_def)
  have "s' = s\<lparr>vt_generations := (vt_generations s)[?i := vt_generations s ! ?i],
      vt_allocated := (vt_allocated s)[?i := False], vt_state := vt_state s'\<rparr>"
    by (simp add: s'_def)
  from live_vectors_update [OF shape dyn this]
  have "live_vectors s' = {t \<in> live_vectors s. fst t \<noteq> iva_vector a}" by simp
  also have "\<dots> = live_vectors s - {(iva_vector a, iva_generation a)}"
    using gen by (auto simp: live_vectors_def)
  finally have "live_vectors s' = live_vectors s - {(iva_vector a, iva_generation a)}" .
  moreover have "vt_inv s'" "ivs_active (vt_state s')" "vt_generations s' = vt_generations s"
    using vt_counts_release [OF shape counts vector_index_less [OF dyn] used s'_def] shape act
    by (simp_all add: vt_inv_def vt_shape_def s'_def)
  ultimately show "\<exists>s'. interrupt_vector_release False (Some a) s =
        (INTERRUPT_VECTOR_STATUS_OK, Some (a\<lparr>iva_active := False\<rparr>), s') \<and>
        live_vectors s' = live_vectors s - {(iva_vector a, iva_generation a)} \<and>
        vt_generations s' = vt_generations s \<and> vt_inv s' \<and> ivs_active (vt_state s')"
    using run by blast
qed

section \<open>The token contract for vectors\<close>

definition vector_ready :: "vector_table \<Rightarrow> bool" where
  "vector_ready s \<longleftrightarrow> vt_inv s \<and> ivs_active (vt_state s)"

definition vector_issue :: "unit \<Rightarrow> vector_table \<Rightarrow> (8 word \<times> 32 word) option \<times> vector_table" where
  "vector_issue _ s = (case interrupt_vector_allocate False (Some null_allocation) s of
     (INTERRUPT_VECTOR_STATUS_OK, Some a, s') \<Rightarrow> (Some (iva_vector a, iva_generation a), s')
   | (_, _, s') \<Rightarrow> (None, s'))"

definition vector_retire :: "8 word \<times> 32 word \<Rightarrow> vector_table \<Rightarrow> bool \<times> vector_table" where
  "vector_retire t s = (case interrupt_vector_release False
       (Some \<lparr>iva_vector = fst t, iva_generation = snd t, iva_active = True\<rparr>) s of
     (status, _, s') \<Rightarrow> (status = INTERRUPT_VECTOR_STATUS_OK, s'))"

lemma vector_issue_cases:
  assumes "vector_ready s"
  obtains (exhausted) "vector_issue a s = (None, s)" "\<forall>v. vector_is_dynamic v \<longrightarrow> vt_allocated s ! vector_index v"
  | (issued) v s' where "vector_is_dynamic v" "\<not> vt_allocated s ! vector_index v"
      "vector_issue a s = (Some (v, next_generation (vt_generations s ! vector_index v)), s')"
      "live_vectors s' = insert (v, next_generation (vt_generations s ! vector_index v)) (live_vectors s)"
      "\<forall>i < DYNAMIC_VECTOR_COUNT. vt_generations s' ! i = (if i = vector_index v
          then next_generation (vt_generations s ! i) else vt_generations s ! i)"
      "vector_ready s'"
proof -
  have r: "vt_inv s" "ivs_active (vt_state s)" using assms by (simp_all add: vector_ready_def)
  show thesis
  proof (cases "\<forall>v. vector_is_dynamic v \<longrightarrow> vt_allocated s ! vector_index v")
    case True
    then show ?thesis using interrupt_vector_allocate_cases(1) [OF r]
      by (intro exhausted) (simp_all add: vector_issue_def)
  next
    case False
    then obtain u where "vector_is_dynamic u" "\<not> vt_allocated s ! vector_index u" by blast
    from interrupt_vector_allocate_cases(2) [OF r this] obtain v where
      v: "vector_is_dynamic v" "\<not> vt_allocated s ! vector_index v"
      "interrupt_vector_allocate False (Some null_allocation) s =
        interrupt_vector_allocate_specific False v (Some null_allocation) s" by blast
    from interrupt_vector_allocate_specific_cases(3) [OF r v(1,2)] v(3) obtain s' where
      s': "interrupt_vector_allocate False (Some null_allocation) s =
        (INTERRUPT_VECTOR_STATUS_OK, Some \<lparr>iva_vector = v,
          iva_generation = next_generation (vt_generations s ! vector_index v), iva_active = True\<rparr>, s')"
      "live_vectors s' = insert (v, next_generation (vt_generations s ! vector_index v)) (live_vectors s)"
      "\<forall>i < DYNAMIC_VECTOR_COUNT. vt_generations s' ! i = (if i = vector_index v
          then next_generation (vt_generations s ! i) else vt_generations s ! i)"
      "vt_inv s'" "ivs_active (vt_state s')" by metis
    show ?thesis
      by (rule issued [OF v(1,2) _ s'(2,3)]) (use s' in \<open>simp_all add: vector_issue_def vector_ready_def\<close>)
  qed
qed

lemma vector_retire_live:
  assumes "vector_ready s" "t \<in> live_vectors s"
  shows "\<exists>s'. vector_retire t s = (True, s') \<and> live_vectors s' = live_vectors s - {t} \<and>
    vt_generations s' = vt_generations s \<and> vector_ready s'"
  using interrupt_vector_release_cases(2) [of s "\<lparr>iva_vector = fst t, iva_generation = snd t, iva_active = True\<rparr>"] assms
  by (auto simp: vector_retire_def vector_ready_def)

lemma vector_retire_dead:
  assumes "vector_ready s" "t \<notin> live_vectors s"
  shows "vector_retire t s = (False, s)"
  using interrupt_vector_release_cases(1) [of s "\<lparr>iva_vector = fst t, iva_generation = snd t, iva_active = True\<rparr>"] assms
  by (auto simp: vector_retire_def vector_ready_def)

interpretation vectors: token_table vector_ready live_vectors "\<lambda>_. True" vector_issue vector_retire
proof unfold_locales
  fix s a s' t
  assume r: "vector_ready s"
  show "s' = s" if "vector_issue a s = (None, s')"
    by (rule vector_issue_cases [OF r, of a]) (use that in auto)
  show "t \<notin> live_vectors s \<and> live_vectors s' = insert t (live_vectors s) \<and> vector_ready s'"
    if "vector_issue a s = (Some t, s')"
    by (rule vector_issue_cases [OF r, of a]) (use that in \<open>auto simp: live_vectors_def\<close>)
  show "vector_retire t s = (False, s)" if "t \<notin> live_vectors s"
    using vector_retire_dead [OF r that] .
  show "\<exists>s'. vector_retire t s = (True, s') \<and> live_vectors s' = live_vectors s - {t} \<and> vector_ready s'"
    if "t \<in> live_vectors s" using vector_retire_live [OF r that] by blast
qed

text \<open>A slot's generation counts the allocations of its vector.\<close>

lemma run_vectors_generation:
  assumes "vector_ready s" "run_tokens vector_issue vector_retire ops s = (evs, s')"
    and v: "vector_is_dynamic v"
  shows "vt_generations s' ! vector_index v =
    (next_generation ^^ count_if (\<lambda>e. \<exists>g. e = Issued (v, g)) evs) (vt_generations s ! vector_index v)"
  using assms(1,2)
proof (induction ops arbitrary: s evs)
  case Nil
  then show ?case by simp
next
  case (Cons op ops)
  show ?case
  proof (cases op)
    case (Issue a)
    obtain r s1 where i: "vector_issue a s = (r, s1)" by fastforce
    obtain evs' where e: "run_tokens vector_issue vector_retire ops s1 = (evs', s')"
      "evs = (case r of None \<Rightarrow> Refused | Some t \<Rightarrow> Issued t) # evs'"
      using Cons.prems(2) Issue i by (auto split: prod.splits)
    show ?thesis
    proof (rule vector_issue_cases [OF Cons.prems(1), of a])
      assume "vector_issue a s = (None, s)"
      with Cons.IH [OF _ e(1)] Cons.prems(1) i e(2) show ?thesis by simp
    next
      fix u s2
      assume u: "vector_is_dynamic u" "vector_issue a s =
          (Some (u, next_generation (vt_generations s ! vector_index u)), s2)"
        "\<forall>i < DYNAMIC_VECTOR_COUNT. vt_generations s2 ! i = (if i = vector_index u
          then next_generation (vt_generations s ! i) else vt_generations s ! i)" "vector_ready s2"
      then have s1: "s1 = s2" "r = Some (u, next_generation (vt_generations s ! vector_index u))"
        using i by auto
      have "vt_generations s1 ! vector_index v = (if u = v
          then next_generation (vt_generations s ! vector_index v) else vt_generations s ! vector_index v)"
        using u(3) s1(1) vector_index_less [OF v] vector_index_inj [OF v u(1)] by auto
      with Cons.IH [OF _ e(1)] u(4) s1 e(2) show ?thesis by (auto simp: funpow_swap1)
    qed
  next
    case (Retire t)
    obtain b s1 where i: "vector_retire t s = (b, s1)" by fastforce
    obtain evs' where e: "run_tokens vector_issue vector_retire ops s1 = (evs', s')"
      "evs = (if b then Retired t else Refused) # evs'"
      using Cons.prems(2) Retire i by (auto split: prod.splits)
    have "vt_generations s1 = vt_generations s \<and> vector_ready s1"
      using vector_retire_live [OF Cons.prems(1), of t] vector_retire_dead [OF Cons.prems(1), of t]
        i Cons.prems(1) by (cases "t \<in> live_vectors s") auto
    with Cons.IH [OF _ e(1)] e(2) show ?thesis by simp
  qed
qed

section \<open>The self-test\<close>

text \<open>
  \<open>interrupt_vector_self_test\<close>, loops as recursion over the remaining indices.  Each
  function returns \<open>None\<close> where the C returns false.
\<close>

fun self_test_allocate :: "bool \<Rightarrow> nat list \<Rightarrow> vector_table \<Rightarrow>
    (interrupt_vector_allocation list \<times> vector_table) option" where
  "self_test_allocate cpu_if [] s = Some ([], s)"
| "self_test_allocate cpu_if (index # rest) s =
     (case interrupt_vector_allocate cpu_if (Some null_allocation) s of
        (INTERRUPT_VECTOR_STATUS_OK, Some a, s') \<Rightarrow>
          if iva_vector a \<noteq> of_nat (INTERRUPT_DYNAMIC_BASE + index) then None
          else (case self_test_allocate cpu_if rest s' of
                  None \<Rightarrow> None | Some (as, s'') \<Rightarrow> Some (a # as, s''))
      | _ \<Rightarrow> None)"

fun self_test_release :: "bool \<Rightarrow> interrupt_vector_allocation list \<Rightarrow> vector_table \<Rightarrow>
    vector_table option" where
  "self_test_release cpu_if [] s = Some s"
| "self_test_release cpu_if (a # rest) s =
     (case interrupt_vector_release cpu_if (Some a) s of
        (INTERRUPT_VECTOR_STATUS_OK, _, s') \<Rightarrow> self_test_release cpu_if rest s'
      | _ \<Rightarrow> None)"

definition self_test_reserved :: "bool \<Rightarrow> vector_table \<Rightarrow> bool" where
  "self_test_reserved cpu_if s =
     list_all (\<lambda>v. fst (interrupt_vector_allocate_specific cpu_if v (Some null_allocation) s)
         = INTERRUPT_VECTOR_STATUS_RESERVED)
       [72 - 1, 0x80, 0xF0, 0xFF]"

definition interrupt_vector_self_test :: "bool \<Rightarrow> vector_table \<Rightarrow> bool" where
  "interrupt_vector_self_test cpu_if s =
     (if \<not> ivs_active (vt_state s) \<or> ivs_allocated (vt_state s) \<noteq> 0 \<or>
         ivs_free (vt_state s) \<noteq> DYNAMIC_VECTOR_COUNT then False
      else if \<not> self_test_reserved cpu_if s then False
      else case self_test_allocate cpu_if [0..<DYNAMIC_VECTOR_COUNT] s of
        None \<Rightarrow> False
      | Some (allocations, s) \<Rightarrow>
          if fst (interrupt_vector_allocate cpu_if (Some null_allocation) s)
               \<noteq> INTERRUPT_VECTOR_STATUS_EXHAUSTED then False
          else case interrupt_vector_release cpu_if (Some (allocations ! 0)) s of
            (INTERRUPT_VECTOR_STATUS_OK, Some first, s) \<Rightarrow>
              if fst (interrupt_vector_release cpu_if (Some first) s)
                   \<noteq> INTERRUPT_VECTOR_STATUS_DOUBLE_RELEASE then False
              else (case interrupt_vector_allocate_specific cpu_if
                           (of_nat INTERRUPT_DYNAMIC_BASE) (Some null_allocation) s of
                (INTERRUPT_VECTOR_STATUS_OK, Some extra, s) \<Rightarrow>
                  (case self_test_release cpu_if (extra # tl allocations) s of
                     None \<Rightarrow> False
                   | Some s \<Rightarrow> ivs_allocated (vt_state s) = 0 \<and>
                       ivs_free (vt_state s) = DYNAMIC_VECTOR_COUNT)
              | _ \<Rightarrow> False)
          | _ \<Rightarrow> False)"

definition blank_vectors :: vector_table where
  "blank_vectors = \<lparr>vt_allocated = replicate DYNAMIC_VECTOR_COUNT False,
     vt_generations = replicate DYNAMIC_VECTOR_COUNT 0,
     vt_state = \<lparr>ivs_capacity = 0, ivs_allocated = 0, ivs_free = 0, ivs_active = False\<rparr>\<rparr>"

definition fresh_vectors :: vector_table where
  "fresh_vectors = snd (interrupt_vector_initialize True True False blank_vectors)"

abbreviation token_of :: "interrupt_vector_allocation \<Rightarrow> 8 word \<times> 32 word" where
  "token_of a \<equiv> (iva_vector a, iva_generation a)"

lemma live_vectors_allocated:
  "vector_is_dynamic v \<Longrightarrow> vt_allocated s ! vector_index v \<longleftrightarrow> (\<exists>g. (v, g) \<in> live_vectors s)"
  by (simp add: live_vectors_def)

lemma no_live_vectors_iff:
  assumes "vector_ready s"
  shows "live_vectors s = {} \<longleftrightarrow> ivs_allocated (vt_state s) = 0"
proof -
  have len: "length (vt_allocated s) = 96" and cnt: "vt_counts s"
    using assms by (simp_all add: vector_ready_def vt_inv_def vt_shape_def DYNAMIC_VECTOR_COUNT_val)
  have "ivs_allocated (vt_state s) = 0 \<longleftrightarrow> (\<forall>i < 96. \<not> vt_allocated s ! i)"
    using cnt len by (auto simp: vt_counts_def count_if_def filter_empty_conv in_set_conv_nth)
  also have "\<dots> \<longleftrightarrow> (\<forall>v. vector_is_dynamic v \<longrightarrow> \<not> vt_allocated s ! vector_index v)"
  proof (intro iffI allI impI)
    fix i :: nat
    assume none: "\<forall>v. vector_is_dynamic v \<longrightarrow> \<not> vt_allocated s ! vector_index v" and i: "i < 96"
    have dyn: "vector_is_dynamic (of_nat (0x90 + i))" "unat (of_nat (0x90 + i) :: 8 word) = 0x90 + i"
      using dynamic_of_nat [of "0x90 + i"] i by (simp_all add: vector_consts)
    then have "vector_index (of_nat (0x90 + i)) = i" by (simp add: vector_index_eq)
    with none dyn(1) show "\<not> vt_allocated s ! i" by metis
  qed (use vector_index_less in \<open>auto simp: DYNAMIC_VECTOR_COUNT_val\<close>)
  finally show ?thesis by (auto simp: live_vectors_def)
qed

lemma dynamic_vectors_inj: "inj_on (\<lambda>i. of_nat (0x90 + i) :: 8 word) {0..<96}"
proof (rule inj_onI)
  fix i j assume ij: "i \<in> {0..<96}" "j \<in> {0..<96}"
    and eq: "(of_nat (0x90 + i) :: 8 word) = of_nat (0x90 + j)"
  have "unat (of_nat (0x90 + i) :: 8 word) = 0x90 + i" "unat (of_nat (0x90 + j) :: 8 word) = 0x90 + j"
    using ij dynamic_of_nat [of "0x90 + i"] dynamic_of_nat [of "0x90 + j"] by (simp_all add: vector_consts)
  then show "i = j" unfolding eq by simp
qed

lemma dynamic_vectors_cover:
  "vector_is_dynamic v \<Longrightarrow> v \<in> (\<lambda>i. of_nat (0x90 + i)) ` {0..<96}"
proof -
  assume v: "vector_is_dynamic v"
  then have "0x90 + (unat v - 0x90) = unat v" "unat v - 0x90 < 96"
    by (auto simp: vector_is_dynamic_def vector_consts)
  then have "v = of_nat (0x90 + (unat v - 0x90))" by (simp only: of_nat_unat ucast_id)
  with \<open>unat v - 0x90 < 96\<close> show ?thesis by (intro image_eqI [of _ _ "unat v - 0x90"]) simp_all
qed

lemma self_test_release_all:
  assumes "vector_ready s" "distinct (map token_of as)" "\<forall>a \<in> set as. iva_active a"
    and "token_of ` set as \<subseteq> live_vectors s"
  shows "\<exists>s'. self_test_release False as s = Some s' \<and> vector_ready s' \<and>
    live_vectors s' = live_vectors s - token_of ` set as"
  using assms
proof (induction as arbitrary: s)
  case (Cons a as)
  then obtain s1 where "interrupt_vector_release False (Some a) s =
      (INTERRUPT_VECTOR_STATUS_OK, Some (a\<lparr>iva_active := False\<rparr>), s1)"
    "live_vectors s1 = live_vectors s - {token_of a}" "vector_ready s1"
    using interrupt_vector_release_cases(2) [of s a] by (auto simp: vector_ready_def)
  moreover have "token_of ` set as \<subseteq> live_vectors s - {token_of a}"
    using Cons.prems(2,4) by (simp add: subset_Diff_insert)
  ultimately show ?case using Cons.IH [of s1] Cons.prems by auto
qed simp

lemma allocate_lowest:
  assumes r: "vector_ready s" and k: "k < 96"
    and below: "\<And>v. vector_is_dynamic v \<Longrightarrow> vt_allocated s ! vector_index v \<longleftrightarrow> unat v < 0x90 + k"
  shows "\<exists>g s'. interrupt_vector_allocate False (Some a) s =
      (INTERRUPT_VECTOR_STATUS_OK, Some \<lparr>iva_vector = of_nat (0x90 + k), iva_generation = g, iva_active = True\<rparr>, s') \<and>
    live_vectors s' = insert (of_nat (0x90 + k), g) (live_vectors s) \<and> vector_ready s'"
proof -
  let ?w = "of_nat (0x90 + k) :: 8 word"
  have w: "vector_is_dynamic ?w" "unat ?w = 0x90 + k"
    using dynamic_of_nat [of "0x90 + k"] k by (simp_all add: vector_consts)
  have rr: "vt_inv s" "ivs_active (vt_state s)" using r by (simp_all add: vector_ready_def)
  have idle: "\<not> vt_allocated s ! vector_index ?w" using below [OF w(1)] w(2) by simp
  obtain v where v: "vector_is_dynamic v" "\<not> vt_allocated s ! vector_index v" "unat v \<le> unat ?w"
    "interrupt_vector_allocate False (Some a) s = interrupt_vector_allocate_specific False v (Some a) s"
    using interrupt_vector_allocate_cases(2) [OF rr w(1) idle] w(1) idle by blast
  have "unat v = unat ?w" using v(1-3) below [OF v(1)] w(2) by linarith
  then have "v = ?w" by (rule unsigned_word_eqI)
  with v(4) interrupt_vector_allocate_specific_cases(3) [OF rr w(1) idle, of a]
  show ?thesis by (auto simp: vector_ready_def)
qed

lemma self_test_allocate_all:
  assumes "vector_ready s" "k \<le> 96"
    and "\<And>v. vector_is_dynamic v \<Longrightarrow> vt_allocated s ! vector_index v \<longleftrightarrow> unat v < 0x90 + k"
  shows "\<exists>as s'. self_test_allocate False [k..<96] s = Some (as, s') \<and> vector_ready s' \<and>
    map iva_vector as = map (\<lambda>i. of_nat (0x90 + i)) [k..<96] \<and> (\<forall>a \<in> set as. iva_active a) \<and>
    live_vectors s' = live_vectors s \<union> token_of ` set as"
  using assms
proof (induction "96 - k" arbitrary: k s)
  case 0
  then show ?case by simp
next
  case (Suc n)
  then have k: "k < 96" by simp
  then have upt: "[k..<96] = k # [Suc k..<96]" by (simp add: upt_conv_Cons)
  obtain g s1 where s1: "interrupt_vector_allocate False (Some null_allocation) s =
      (INTERRUPT_VECTOR_STATUS_OK, Some \<lparr>iva_vector = of_nat (0x90 + k), iva_generation = g, iva_active = True\<rparr>, s1)"
    "live_vectors s1 = insert (of_nat (0x90 + k), g) (live_vectors s)" "vector_ready s1"
    using allocate_lowest [OF Suc.prems(1) k Suc.prems(3)] by blast
  have "vt_allocated s1 ! vector_index v \<longleftrightarrow> unat v < 0x90 + Suc k" if v: "vector_is_dynamic v" for v
  proof -
    have "vt_allocated s1 ! vector_index v \<longleftrightarrow> v = of_nat (0x90 + k) \<or> vt_allocated s ! vector_index v"
      using live_vectors_allocated [OF v] s1(2) by auto
    moreover have "unat (of_nat (0x90 + k) :: 8 word) = 0x90 + k"
      using dynamic_of_nat [of "0x90 + k"] k by (simp add: vector_consts)
    then have "v = of_nat (0x90 + k) \<longleftrightarrow> unat v = 0x90 + k" by (metis unsigned_word_eqI)
    ultimately show ?thesis using Suc.prems(3) [OF v] by auto
  qed
  moreover have "n = 96 - Suc k" "Suc k \<le> 96" using Suc.hyps(2) k by simp_all
  ultimately obtain as s' where
    "self_test_allocate False [Suc k..<96] s1 = Some (as, s')" "vector_ready s'"
    "map iva_vector as = map (\<lambda>i. of_nat (0x90 + i)) [Suc k..<96]" "\<forall>a \<in> set as. iva_active a"
    "live_vectors s' = live_vectors s1 \<union> token_of ` set as"
    using Suc.hyps(1) [of "Suc k" s1] s1(3) by blast
  with s1 upt show ?case by (simp add: vector_consts)
qed

lemma fresh_vectors_ready: "vector_ready fresh_vectors" "live_vectors fresh_vectors = {}"
proof -
  have eq: "fresh_vectors = \<lparr>vt_allocated = replicate DYNAMIC_VECTOR_COUNT False,
     vt_generations = replicate DYNAMIC_VECTOR_COUNT 0,
     vt_state = \<lparr>ivs_capacity = DYNAMIC_VECTOR_COUNT, ivs_allocated = 0,
       ivs_free = DYNAMIC_VECTOR_COUNT, ivs_active = True\<rparr>\<rparr>"
    by (simp add: fresh_vectors_def interrupt_vector_initialize_def blank_vectors_def)
  show ready: "vector_ready fresh_vectors"
    by (simp add: eq vector_ready_def vt_inv_def vt_shape_def vt_counts_def count_if_def filter_replicate)
  show "live_vectors fresh_vectors = {}"
    using no_live_vectors_iff [OF ready] by (simp add: eq)
qed

section \<open>Properties\<close>

text \<open>
  On every initialized table with no vector in use, whatever its generations, the
  kernel's own self-test of the allocator succeeds: the reserved vectors are refused, all
  ninety-six vectors are handed out in ascending order, the next request is refused, a
  released vector cannot be released again, and everything can be given back.
\<close>

theorem interrupt_vector_self_test_passes:
  assumes r: "vector_ready s" and none: "live_vectors s = {}"
  shows "interrupt_vector_self_test False s"
proof -
  have rr: "vt_inv s" "ivs_active (vt_state s)" using r by (simp_all add: vector_ready_def)
  have cnt: "ivs_allocated (vt_state s) = 0" "ivs_free (vt_state s) = DYNAMIC_VECTOR_COUNT"
    using no_live_vectors_iff [OF r] none rr by (simp_all add: vt_inv_def vt_counts_def)
  have res: "self_test_reserved False s"
    using interrupt_vector_allocate_specific_cases(1) [OF rr]
    by (simp add: self_test_reserved_def vector_is_dynamic_def vector_consts)
  have "vt_allocated s ! vector_index v \<longleftrightarrow> unat v < 0x90 + 0" if "vector_is_dynamic v" for v
    using that none live_vectors_allocated [OF that, of s] by (simp add: vector_is_dynamic_def vector_consts)
  then obtain as s1 where s1: "self_test_allocate False [0..<DYNAMIC_VECTOR_COUNT] s = Some (as, s1)"
    "vector_ready s1" "map iva_vector as = map (\<lambda>i. of_nat (0x90 + i)) [0..<96]"
    "\<forall>a \<in> set as. iva_active a" "live_vectors s1 = token_of ` set as"
    using self_test_allocate_all [OF r, of 0] none by (auto simp: DYNAMIC_VECTOR_COUNT_val)
  have r1: "vt_inv s1" "ivs_active (vt_state s1)" using s1(2) by (simp_all add: vector_ready_def)
  have vecs: "iva_vector ` set as = (\<lambda>i. of_nat (0x90 + i)) ` {0..<96}"
    using s1(3) by (metis list.set_map set_upt)
  have "\<forall>v. vector_is_dynamic v \<longrightarrow> vt_allocated s1 ! vector_index v"
  proof (intro allI impI)
    fix v assume v: "vector_is_dynamic v"
    then have "v \<in> iva_vector ` set as" unfolding vecs by (rule dynamic_vectors_cover)
    then show "vt_allocated s1 ! vector_index v" using live_vectors_allocated [OF v] s1(5) by auto
  qed
  then have full: "fst (interrupt_vector_allocate False (Some null_allocation) s1) =
      INTERRUPT_VECTOR_STATUS_EXHAUSTED"
    using interrupt_vector_allocate_cases(1) [OF r1] by simp
  have dv: "distinct (map iva_vector as)" unfolding s1(3) distinct_map using dynamic_vectors_inj by simp
  have len: "length as = 96" using arg_cong [OF s1(3), of length] by simp
  then obtain a0 rest where as: "as = a0 # rest" by (cases as) auto
  have v0: "iva_vector a0 = of_nat 0x90" using arg_cong [OF s1(3), of "\<lambda>xs. xs ! 0"] as by simp
  obtain s2 where s2: "interrupt_vector_release False (Some a0) s1 =
      (INTERRUPT_VECTOR_STATUS_OK, Some (a0\<lparr>iva_active := False\<rparr>), s2)"
    "live_vectors s2 = live_vectors s1 - {token_of a0}" "vt_inv s2" "ivs_active (vt_state s2)"
    using interrupt_vector_release_cases(2) [OF r1, of a0] s1(4,5) as by auto
  have d0: "vector_is_dynamic (iva_vector a0)" unfolding v0 using dynamic_of_nat [of "0x90"] by (simp add: vector_consts)
  have notin: "iva_vector a0 \<notin> iva_vector ` set rest" using dv as by simp
  have idle: "\<not> vt_allocated s2 ! vector_index (iva_vector a0)"
    unfolding live_vectors_allocated [OF d0] using s2(2) s1(5) as notin by force
  have again: "fst (interrupt_vector_release False (Some (a0\<lparr>iva_active := False\<rparr>)) s2) =
      INTERRUPT_VECTOR_STATUS_DOUBLE_RELEASE"
    using s2(4) d0 by (simp add: interrupt_vector_release_def Let_def)
  obtain ex s3 where s3: "interrupt_vector_allocate_specific False (iva_vector a0) (Some null_allocation) s2 =
      (INTERRUPT_VECTOR_STATUS_OK, Some ex, s3)" "iva_vector ex = iva_vector a0" "iva_active ex"
    "live_vectors s3 = insert (token_of ex) (live_vectors s2)" "vector_ready s3"
    using interrupt_vector_allocate_specific_cases(3) [OF s2(3,4) d0 idle, of null_allocation]
    by (auto simp: vector_ready_def)
  have live3: "live_vectors s3 = token_of ` set (ex # rest)"
  proof -
    have "token_of a0 \<notin> token_of ` set rest" using notin by force
    then show ?thesis using s3(4) s2(2) s1(5) as by auto
  qed
  have "distinct (map token_of (ex # rest))"
  proof -
    have "distinct (map fst (map token_of (ex # rest)))" using dv as s3(2) by (simp add: comp_def)
    then show ?thesis by (simp only: distinct_map)
  qed
  then obtain s4 where s4: "self_test_release False (ex # rest) s3 = Some s4" "vector_ready s4"
    "live_vectors s4 = {}"
    using self_test_release_all [OF s3(5), of "ex # rest"] live3 s1(4) as s3(3) by auto
  have "ivs_allocated (vt_state s4) = 0" "ivs_free (vt_state s4) = DYNAMIC_VECTOR_COUNT"
    using no_live_vectors_iff [OF s4(2)] s4(2,3)
    by (simp_all add: vector_ready_def vt_inv_def vt_counts_def)
  moreover have base: "of_nat INTERRUPT_DYNAMIC_BASE = iva_vector a0" using v0 by (simp add: vector_consts)
  ultimately show ?thesis
    using rr cnt res s1(1) full as s2(1) again s3(1) s4(1)
    unfolding interrupt_vector_self_test_def base by simp
qed

theorem interrupt_vector_self_test_passes_witness: "interrupt_vector_self_test False fresh_vectors"
  by (rule interrupt_vector_self_test_passes [OF fresh_vectors_ready])

text \<open>
  \<open>interrupt_vector_allocate\<close> reports exhaustion exactly when all vectors are in
  use; otherwise it returns the lowest idle vector with a new generation, that token is
  the only one that becomes live, and the counters stay exact.
\<close>

theorem interrupt_vector_allocate_correct:
  assumes r: "vector_ready s"
  shows "if ivs_free (vt_state s) = 0
    then interrupt_vector_allocate False (Some a) s =
      (INTERRUPT_VECTOR_STATUS_EXHAUSTED, Some null_allocation, s)
    else \<exists>v g s'. interrupt_vector_allocate False (Some a) s = (INTERRUPT_VECTOR_STATUS_OK,
        Some \<lparr>iva_vector = v, iva_generation = g, iva_active = True\<rparr>, s') \<and>
      vector_is_dynamic v \<and> \<not> interrupt_vector_is_allocated v s \<and>
      (\<forall>u. vector_is_dynamic u \<and> \<not> interrupt_vector_is_allocated u s \<longrightarrow> unat v \<le> unat u) \<and>
      g = next_generation (vt_generations s ! vector_index v) \<and>
      live_vectors s' = insert (v, g) (live_vectors s) \<and> vector_ready s'"
proof -
  have rr: "vt_inv s" "ivs_active (vt_state s)" using r by (simp_all add: vector_ready_def)
  have shape: "length (vt_allocated s) = 96" and cnt: "vt_counts s"
    using rr by (simp_all add: vt_inv_def vt_shape_def DYNAMIC_VECTOR_COUNT_val)
  have full: "ivs_free (vt_state s) = 0 \<longleftrightarrow> (\<forall>v. vector_is_dynamic v \<longrightarrow> vt_allocated s ! vector_index v)"
  proof
    assume "ivs_free (vt_state s) = 0"
    then have "count_if (\<lambda>b. b) (vt_allocated s) = length (vt_allocated s)"
      using cnt shape by (simp add: vt_counts_def DYNAMIC_VECTOR_COUNT_val)
    then show "\<forall>v. vector_is_dynamic v \<longrightarrow> vt_allocated s ! vector_index v"
      using count_if_less [of _ "vt_allocated s" "\<lambda>b. b"] vector_index_less shape
      unfolding DYNAMIC_VECTOR_COUNT_val by (metis less_irrefl)
  next
    assume all: "\<forall>v. vector_is_dynamic v \<longrightarrow> vt_allocated s ! vector_index v"
    have "vt_allocated s ! i" if i: "i < 96" for i
    proof -
      have "vector_is_dynamic (of_nat (0x90 + i))" "unat (of_nat (0x90 + i) :: 8 word) = 0x90 + i"
        using dynamic_of_nat [of "0x90 + i"] i by (simp_all add: vector_consts)
      then have "vector_index (of_nat (0x90 + i)) = i" by (simp add: vector_index_eq)
      then show ?thesis using all \<open>vector_is_dynamic (of_nat (0x90 + i))\<close> by metis
    qed
    then have "\<forall>b \<in> set (vt_allocated s). b" using shape by (auto simp: in_set_conv_nth)
    then have "filter (\<lambda>b. b) (vt_allocated s) = vt_allocated s" by (rule filter_True)
    then show "ivs_free (vt_state s) = 0"
      using cnt shape by (simp add: vt_counts_def count_if_def DYNAMIC_VECTOR_COUNT_val)
  qed
  show ?thesis
  proof (cases "ivs_free (vt_state s) = 0")
    case True
    then show ?thesis using full interrupt_vector_allocate_cases(1) [OF rr] by simp
  next
    case False
    then obtain u where "vector_is_dynamic u" "\<not> vt_allocated s ! vector_index u" using full by auto
    from interrupt_vector_allocate_cases(2) [OF rr this, of a] obtain v where
      v: "vector_is_dynamic v" "\<not> vt_allocated s ! vector_index v"
      "\<forall>u. vector_is_dynamic u \<and> \<not> vt_allocated s ! vector_index u \<longrightarrow> unat v \<le> unat u"
      "interrupt_vector_allocate False (Some a) s = interrupt_vector_allocate_specific False v (Some a) s"
      by blast
    with interrupt_vector_allocate_specific_cases(3) [OF rr v(1,2), of a] False rr(2) show ?thesis
      by (auto simp: interrupt_vector_is_allocated_def vector_ready_def)
  qed
qed

theorem interrupt_vector_allocate_correct_witness:
  "\<exists>v s'. interrupt_vector_allocate False (Some null_allocation) fresh_vectors =
     (INTERRUPT_VECTOR_STATUS_OK, Some \<lparr>iva_vector = v, iva_generation = 1, iva_active = True\<rparr>, s') \<and>
     vector_ready s'"
proof -
  have "ivs_free (vt_state fresh_vectors) \<noteq> 0" "\<forall>i < 96. vt_generations fresh_vectors ! i = 0"
    by (simp_all add: fresh_vectors_def interrupt_vector_initialize_def blank_vectors_def
        DYNAMIC_VECTOR_COUNT_val)
  moreover have "next_generation 0 = 1" by (simp add: next_generation_def)
  ultimately show ?thesis
    using interrupt_vector_allocate_correct [OF fresh_vectors_ready(1), of null_allocation]
      vector_index_less by (fastforce simp: DYNAMIC_VECTOR_COUNT_val)
qed

text \<open>
  A vector token is released at most once: in any interleaving of allocations and
  releases, however the callers behave, a token that the allocator does not hand out
  again is accepted by \<open>interrupt_vector_release\<close> at most once.
\<close>

theorem interrupt_vector_released_once:
  assumes "vector_ready s" and "run_tokens vector_issue vector_retire ops s = (evs, s')"
    and "Issued t \<notin> set evs"
  shows "count_if (\<lambda>e. e = Retired t) evs \<le> 1"
  using vectors.run_tokens_retired_once [OF assms(1) _ assms(2,3)] by simp

theorem interrupt_vector_released_once_witness:
  "count_if (\<lambda>e. e = Retired (0x90, 1))
     (fst (run_tokens vector_issue vector_retire [Retire (0x90, 1), Retire (0x90, 1)] fresh_vectors)) \<le> 1"
proof -
  obtain evs s' where run: "run_tokens vector_issue vector_retire [Retire (0x90, 1), Retire (0x90, 1)]
      fresh_vectors = (evs, s')" by fastforce
  have "Issued (0x90, 1) \<notin> set evs"
    using run by (auto split: prod.splits if_splits)
  from interrupt_vector_released_once [OF fresh_vectors_ready(1) run this] run show ?thesis by simp
qed

text \<open>
  A stale token stays refused: once a token is no longer live, no sequence of calls
  makes it live again unless its vector is handed out \<open>2 ^ 32 - 1\<close> further times.
\<close>

theorem interrupt_vector_stale_token:
  assumes "vector_ready s" and "vector_is_dynamic v" and "g \<noteq> 0"
    and "vt_generations s ! vector_index v = g" and "(v, g) \<notin> live_vectors s"
    and "run_tokens vector_issue vector_retire ops s = (evs, s')"
    and "count_if (\<lambda>e. \<exists>h. e = Issued (v, h)) evs < 2 ^ 32 - 1"
  shows "(v, g) \<notin> live_vectors s' \<and>
    fst (interrupt_vector_release False (Some \<lparr>iva_vector = v, iva_generation = g, iva_active = True\<rparr>) s')
      \<in> {INTERRUPT_VECTOR_STATUS_DOUBLE_RELEASE, INTERRUPT_VECTOR_STATUS_STALE_ALLOCATION}"
proof -
  let ?n = "count_if (\<lambda>e. \<exists>h. e = Issued (v, h)) evs"
  have ready: "vector_ready s'" using vectors.run_tokens_ledger(1) [OF assms(1) _ assms(6)] by simp
  have gen: "vt_generations s' ! vector_index v = (next_generation ^^ ?n) g"
    using run_vectors_generation [OF assms(1,6,2)] assms(4) by simp
  have dead: "(v, g) \<notin> live_vectors s'"
  proof (cases "?n = 0")
    case True
    then have "Issued (v, g) \<notin> set evs" by (auto simp: count_if_def filter_empty_conv)
    then have "count_if (\<lambda>e. e = Issued (v, g)) evs = 0" by (auto simp: count_if_def filter_empty_conv)
    with vectors.run_tokens_ledger(2) [OF assms(1) _ assms(6), of "(v, g)"] assms(5) show ?thesis
      by (auto split: if_splits)
  next
    case False
    then have "(next_generation ^^ ?n) g \<noteq> g"
      using next_generation_no_return [OF assms(3)] assms(7) by blast
    then show ?thesis by (simp add: live_vectors_def gen)
  qed
  with ready assms(2) show ?thesis
    by (auto simp: live_vectors_def interrupt_vector_release_def Let_def vector_ready_def)
qed

theorem interrupt_vector_stale_token_witness:
  "\<exists>s1 s2. vector_issue () fresh_vectors = (Some (0x90, 1), s1) \<and> vector_retire (0x90, 1) s1 = (True, s2) \<and>
     (0x90, 1) \<notin> live_vectors (snd (run_tokens vector_issue vector_retire [Retire (0x90, 1)] s2))"
proof -
  have gens: "\<forall>i < 96. vt_generations fresh_vectors ! i = 0 \<and> \<not> vt_allocated fresh_vectors ! i"
    by (simp add: fresh_vectors_def interrupt_vector_initialize_def blank_vectors_def
        DYNAMIC_VECTOR_COUNT_val)
  have one: "next_generation 0 = 1" by (simp add: next_generation_def)
  have d: "vector_is_dynamic (0x90 :: 8 word)" and i0: "vector_index (0x90 :: 8 word) = 0"
    by (simp_all add: vector_is_dynamic_def vector_index_def vector_consts sub64_def)
  obtain g s1 where a: "interrupt_vector_allocate False (Some null_allocation) fresh_vectors =
      (INTERRUPT_VECTOR_STATUS_OK, Some \<lparr>iva_vector = of_nat (0x90 + 0), iva_generation = g, iva_active = True\<rparr>, s1)"
    "vector_ready s1" "live_vectors s1 = insert (of_nat (0x90 + 0), g) (live_vectors fresh_vectors)"
    using allocate_lowest [OF fresh_vectors_ready(1), of 0 null_allocation] gens vector_index_less
    by (fastforce simp: DYNAMIC_VECTOR_COUNT_val vector_is_dynamic_def vector_consts)
  have issue: "vector_issue () fresh_vectors = (Some (0x90, g), s1)" using a(1) by (simp add: vector_issue_def)
  have "g = 1 \<and> vt_generations s1 ! 0 = 1"
  proof (rule vector_issue_cases [OF fresh_vectors_ready(1), of "()"])
    fix v s'
    assume v: "vector_issue () fresh_vectors =
        (Some (v, next_generation (vt_generations fresh_vectors ! vector_index v)), s')"
      "\<forall>i < DYNAMIC_VECTOR_COUNT. vt_generations s' ! i = (if i = vector_index v
          then next_generation (vt_generations fresh_vectors ! i) else vt_generations fresh_vectors ! i)"
    from v(1) issue have "v = 0x90" "s' = s1" "g = next_generation (vt_generations fresh_vectors ! 0)"
      by (auto simp: i0)
    with v(2) gens one i0 show ?thesis by (simp add: DYNAMIC_VECTOR_COUNT_val)
  qed (use issue in simp)
  then have g: "g = 1" and gen1: "vt_generations s1 ! 0 = 1" by blast+
  obtain s2 where s2: "vector_retire (0x90, 1) s1 = (True, s2)" "live_vectors s2 = live_vectors s1 - {(0x90, 1)}"
    "vt_generations s2 = vt_generations s1" "vector_ready s2"
    using vector_retire_live [OF a(2), of "(0x90, 1)"] a(3) g by auto
  obtain evs s3 where run: "run_tokens vector_issue vector_retire [Retire (0x90, 1)] s2 = (evs, s3)" by fastforce
  then have "count_if (\<lambda>e. \<exists>h. e = Issued (0x90, h)) evs < 2 ^ 32 - 1"
    by (auto split: prod.splits if_splits)
  from interrupt_vector_stale_token [OF s2(4) d _ _ _ run this, of 1] s2 gen1 i0
  show ?thesis using issue g run by auto
qed

end
