(* ===== verification/Native_Handle.thy ===== *)
theory Native_Handle
  imports Token_Table
begin

unbundle bit_operations_syntax

text \<open>
  The process handle tables, \<open>src/kernel/native_handle.c\<close>: typed, reference-counted,
  generation-protected capabilities packed into 64-bit values.  A table pointer is an
  option; a pointer to a slot or to an object's resource is the index of that slot or
  object.  The close callback is a function on a context of the caller's type, returning
  its verdict and the updated context, and \<open>None\<close> when the callback pointer is
  \<open>NULL\<close>.  Reference counts and counters are 16 bits wide; \<open>inc16\<close> and \<open>dec16\<close>
  write the wrap-around out.
\<close>

section \<open>Data\<close>

definition NATIVE_HANDLE_LIMIT :: nat where
  "NATIVE_HANDLE_LIMIT = 128"

definition SAPOTE_HANDLE_INVALID :: "64 word" where
  "SAPOTE_HANDLE_INVALID = 0"

definition SAPOTE_HANDLE_FILE :: "8 word" where
  "SAPOTE_HANDLE_FILE = 1"

definition SAPOTE_HANDLE_TIMER :: "8 word" where
  "SAPOTE_HANDLE_TIMER = 7"

definition SAPOTE_HANDLE_THREAD :: "8 word" where
  "SAPOTE_HANDLE_THREAD = 8"

datatype native_handle_status =
    NATIVE_HANDLE_OK
  | NATIVE_HANDLE_NULL_ARGUMENT
  | NATIVE_HANDLE_BAD_LIMIT
  | NATIVE_HANDLE_BAD_TYPE
  | NATIVE_HANDLE_FULL
  | NATIVE_HANDLE_STALE
  | NATIVE_HANDLE_WRONG_TYPE
  | NATIVE_HANDLE_CLOSE_FAILED

record native_resource =
  resource_words :: "64 word list"

record native_handle_slot =
  slot_generation :: "32 word"
  slot_object_index :: nat
  slot_type :: "8 word"
  slot_active :: bool

record native_handle_object =
  object_resource :: native_resource
  object_references :: nat
  object_type :: "8 word"
  object_active :: bool

record native_handle_table =
  table_slots :: "native_handle_slot list"
  table_objects :: "native_handle_object list"
  table_limit :: nat
  active_handles :: nat
  active_objects :: nat
  table_initialized :: bool

type_synonym 'c close_fn = "8 word \<Rightarrow> native_resource \<Rightarrow> 'c \<Rightarrow> bool \<times> 'c"

definition inc16 :: "nat \<Rightarrow> nat" where
  "inc16 n = (n + 1) mod 2 ^ 16"

definition dec16 :: "nat \<Rightarrow> nat" where
  "dec16 n = (n + (2 ^ 16 - 1)) mod 2 ^ 16"

definition zero_slot :: native_handle_slot where
  "zero_slot = \<lparr>slot_generation = 0, slot_object_index = 0, slot_type = 0, slot_active = False\<rparr>"

definition zero_object :: native_handle_object where
  "zero_object = \<lparr>object_resource = \<lparr>resource_words = [0, 0, 0, 0]\<rparr>, object_references = 0,
     object_type = 0, object_active = False\<rparr>"

section \<open>Encoding\<close>

definition valid_type :: "8 word \<Rightarrow> bool" where
  "valid_type type \<longleftrightarrow> type \<ge> SAPOTE_HANDLE_FILE \<and> type \<le> SAPOTE_HANDLE_THREAD"

definition encode_handle :: "nat \<Rightarrow> 8 word \<Rightarrow> 32 word \<Rightarrow> 64 word" where
  "encode_handle index type generation =
     push_bit 32 (ucast generation) OR push_bit 16 (ucast type) OR of_nat (index + 1)"

definition encoded_index :: "64 word \<Rightarrow> nat" where
  "encoded_index handle = unat (handle AND 0xFFFF)"

definition encoded_type :: "64 word \<Rightarrow> 8 word" where
  "encoded_type handle = ucast (drop_bit 16 handle)"

definition encoded_reserved :: "64 word \<Rightarrow> 8 word" where
  "encoded_reserved handle = ucast (drop_bit 24 handle)"

definition encoded_generation :: "64 word \<Rightarrow> 32 word" where
  "encoded_generation handle = ucast (drop_bit 32 handle)"

definition decode_slot ::
  "native_handle_table option \<Rightarrow> 64 word \<Rightarrow> native_handle_status \<times> nat" where
  "decode_slot table_pointer handle =
     (case table_pointer of
        None \<Rightarrow> (NATIVE_HANDLE_NULL_ARGUMENT, 0)
      | Some table \<Rightarrow>
          if \<not> table_initialized table \<or> handle = SAPOTE_HANDLE_INVALID \<or>
             encoded_index handle = 0 \<or> encoded_index handle > table_limit table \<or>
             encoded_reserved handle \<noteq> 0 \<or> encoded_generation handle = 0 \<or>
             \<not> valid_type (encoded_type handle)
            then (NATIVE_HANDLE_STALE, 0)
          else
            let index = encoded_index handle - 1; slot = table_slots table ! index in
            if \<not> slot_active slot \<or> slot_generation slot \<noteq> encoded_generation handle \<or>
               slot_type slot \<noteq> encoded_type handle
              then (NATIVE_HANDLE_STALE, 0)
            else (NATIVE_HANDLE_OK, index))"

section \<open>Operations\<close>

definition native_handle_table_initialize ::
  "native_handle_table option \<Rightarrow> nat \<Rightarrow> native_handle_status \<times> native_handle_table option" where
  "native_handle_table_initialize table_pointer limit =
     (case table_pointer of
        None \<Rightarrow> (NATIVE_HANDLE_NULL_ARGUMENT, None)
      | Some table \<Rightarrow>
          if limit = 0 \<or> limit > NATIVE_HANDLE_LIMIT then (NATIVE_HANDLE_BAD_LIMIT, Some table)
          else (NATIVE_HANDLE_OK, Some
            \<lparr>table_slots = fold (\<lambda>index slots. slots[index := (slots ! index)\<lparr>slot_generation := 1\<rparr>])
                [0..<limit] (replicate NATIVE_HANDLE_LIMIT zero_slot),
             table_objects = replicate NATIVE_HANDLE_LIMIT zero_object,
             table_limit = limit, active_handles = 0, active_objects = 0, table_initialized = True\<rparr>))"

definition native_handle_install ::
  "8 word \<Rightarrow> native_resource option \<Rightarrow> bool \<Rightarrow> native_handle_table option \<Rightarrow>
     native_handle_status \<times> 64 word \<times> native_handle_table option" where
  "native_handle_install type resource_pointer handle_null table_pointer =
     (case (table_pointer, resource_pointer) of
        (Some table, Some resource) \<Rightarrow>
          if handle_null then (NATIVE_HANDLE_NULL_ARGUMENT, SAPOTE_HANDLE_INVALID, Some table)
          else if \<not> table_initialized table
            then (NATIVE_HANDLE_BAD_LIMIT, SAPOTE_HANDLE_INVALID, Some table)
          else if \<not> valid_type type
            then (NATIVE_HANDLE_BAD_TYPE, SAPOTE_HANDLE_INVALID, Some table)
          else
            (case (find_from (\<lambda>index. \<not> slot_active (table_slots table ! index)) 0 (table_limit table),
                   find_from (\<lambda>index. \<not> object_active (table_objects table ! index)) 0 (table_limit table)) of
               (Some slot_index, Some object_index) \<Rightarrow>
                 let slot = table_slots table ! slot_index in
                 (NATIVE_HANDLE_OK, encode_handle slot_index type (slot_generation slot),
                  Some (table\<lparr>
                    table_objects := (table_objects table)[object_index :=
                      \<lparr>object_resource = resource, object_references = 1, object_type = type,
                       object_active = True\<rparr>],
                    table_slots := (table_slots table)[slot_index :=
                      slot\<lparr>slot_object_index := object_index mod 2 ^ 16, slot_type := type,
                           slot_active := True\<rparr>],
                    active_handles := inc16 (active_handles table),
                    active_objects := inc16 (active_objects table)\<rparr>))
             | _ \<Rightarrow> (NATIVE_HANDLE_FULL, SAPOTE_HANDLE_INVALID, Some table))
      | _ \<Rightarrow> (NATIVE_HANDLE_NULL_ARGUMENT, SAPOTE_HANDLE_INVALID, table_pointer))"

definition native_handle_resolve ::
  "native_handle_table option \<Rightarrow> 64 word \<Rightarrow> 8 word \<Rightarrow> bool \<Rightarrow> native_handle_status \<times> nat option" where
  "native_handle_resolve table_pointer handle expected_type resource_null =
     (if resource_null then (NATIVE_HANDLE_NULL_ARGUMENT, None)
      else case (decode_slot table_pointer handle, table_pointer) of
        ((NATIVE_HANDLE_OK, slot_index), Some table) \<Rightarrow>
          let slot = table_slots table ! slot_index in
          if expected_type \<noteq> 0 \<and> slot_type slot \<noteq> expected_type then (NATIVE_HANDLE_WRONG_TYPE, None)
          else if slot_object_index slot \<ge> table_limit table then (NATIVE_HANDLE_STALE, None)
          else
            let object = table_objects table ! slot_object_index slot in
            if \<not> object_active object \<or> object_references object = 0 \<or>
               object_type object \<noteq> slot_type slot
              then (NATIVE_HANDLE_STALE, None)
            else (NATIVE_HANDLE_OK, Some (slot_object_index slot))
      | ((status, _), _) \<Rightarrow> (status, None))"

definition native_handle_duplicate ::
  "64 word \<Rightarrow> bool \<Rightarrow> native_handle_table option \<Rightarrow>
     native_handle_status \<times> 64 word \<times> native_handle_table option" where
  "native_handle_duplicate source duplicate_null table_pointer =
     (if duplicate_null then (NATIVE_HANDLE_NULL_ARGUMENT, SAPOTE_HANDLE_INVALID, table_pointer)
      else case (decode_slot table_pointer source, table_pointer) of
        ((NATIVE_HANDLE_OK, source_index), Some table) \<Rightarrow>
          let source_slot = table_slots table ! source_index in
          (case find_from (\<lambda>index. \<not> slot_active (table_slots table ! index)) 0 (table_limit table) of
             None \<Rightarrow> (NATIVE_HANDLE_FULL, SAPOTE_HANDLE_INVALID, Some table)
           | Some target_index \<Rightarrow>
               if active_handles table \<ge> table_limit table
                 then (NATIVE_HANDLE_FULL, SAPOTE_HANDLE_INVALID, Some table)
               else
                 let object = table_objects table ! slot_object_index source_slot;
                     target = table_slots table ! target_index in
                 if \<not> object_active object \<or> object_references object = 2 ^ 16 - 1
                   then (NATIVE_HANDLE_STALE, SAPOTE_HANDLE_INVALID, Some table)
                 else
                   (NATIVE_HANDLE_OK,
                    encode_handle target_index (slot_type source_slot) (slot_generation target),
                    Some (table\<lparr>
                      table_objects := (table_objects table)[slot_object_index source_slot :=
                        object\<lparr>object_references := inc16 (object_references object)\<rparr>],
                      table_slots := (table_slots table)[target_index :=
                        target\<lparr>slot_object_index := slot_object_index source_slot,
                               slot_type := slot_type source_slot, slot_active := True\<rparr>],
                      active_handles := inc16 (active_handles table)\<rparr>)))
      | ((status, _), _) \<Rightarrow> (status, SAPOTE_HANDLE_INVALID, table_pointer))"

text \<open>The part of \<open>native_handle_close\<close> after the callback has agreed.\<close>

definition close_slot :: "nat \<Rightarrow> native_handle_table \<Rightarrow> native_handle_table" where
  "close_slot slot_index table =
     (let slot = table_slots table ! slot_index;
          object_index = slot_object_index slot;
          object = table_objects table ! object_index;
          references = dec16 (object_references object)
      in table\<lparr>
           table_slots := (table_slots table)[slot_index :=
             \<lparr>slot_generation = (let g = slot_generation slot + 1 in if g = 0 then 1 else g),
              slot_object_index = 0, slot_type = 0, slot_active = False\<rparr>],
           active_handles := dec16 (active_handles table),
           table_objects := (table_objects table)[object_index :=
             (if references = 0 then zero_object else object\<lparr>object_references := references\<rparr>)],
           active_objects :=
             (if references = 0 then dec16 (active_objects table) else active_objects table)\<rparr>)"

definition native_handle_close ::
  "64 word \<Rightarrow> 'c close_fn option \<Rightarrow> 'c \<Rightarrow> native_handle_table option \<Rightarrow>
     native_handle_status \<times> 'c \<times> native_handle_table option" where
  "native_handle_close handle close_resource context table_pointer =
     (case (decode_slot table_pointer handle, table_pointer) of
        ((NATIVE_HANDLE_OK, slot_index), Some table) \<Rightarrow>
          let slot = table_slots table ! slot_index;
              object = table_objects table ! slot_object_index slot in
          if \<not> object_active object \<or> object_references object = 0
            then (NATIVE_HANDLE_STALE, context, Some table)
          else
            (case (if object_references object = 1
                   then (case close_resource of
                           None \<Rightarrow> (True, context)
                         | Some f \<Rightarrow> f (object_type object) (object_resource object) context)
                   else (True, context)) of
               (agreed, context') \<Rightarrow>
                 if \<not> agreed then (NATIVE_HANDLE_CLOSE_FAILED, context', Some table)
                 else (NATIVE_HANDLE_OK, context', Some (close_slot slot_index table)))
      | ((status, _), _) \<Rightarrow> (status, context, table_pointer))"

text \<open>One iteration of the loop of \<open>native_handle_close_all\<close>.\<close>

definition close_all_step ::
  "'c close_fn option \<Rightarrow> nat \<Rightarrow> bool \<times> 'c \<times> native_handle_table \<Rightarrow> bool \<times> 'c \<times> native_handle_table" where
  "close_all_step close_resource index = (\<lambda>(failed, context, table).
     let slot = table_slots table ! index in
     if slot_active slot then
       (case native_handle_close (encode_handle index (slot_type slot) (slot_generation slot))
               close_resource context (Some table) of
          (status, context', table') \<Rightarrow>
            (failed \<or> status \<noteq> NATIVE_HANDLE_OK, context', the table'))
     else (failed, context, table))"

definition native_handle_close_all ::
  "'c close_fn option \<Rightarrow> 'c \<Rightarrow> native_handle_table option \<Rightarrow>
     native_handle_status \<times> 'c \<times> native_handle_table option" where
  "native_handle_close_all close_resource context table_pointer =
     (case table_pointer of
        None \<Rightarrow> (NATIVE_HANDLE_NULL_ARGUMENT, context, None)
      | Some table \<Rightarrow>
          if \<not> table_initialized table then (NATIVE_HANDLE_BAD_LIMIT, context, Some table)
          else (case fold (close_all_step close_resource) [0..<table_limit table]
                       (False, context, table) of
                  (failed, context', table') \<Rightarrow>
                    (if failed then NATIVE_HANDLE_CLOSE_FAILED else NATIVE_HANDLE_OK,
                     context', Some table')))"

section \<open>Encoding and decoding\<close>

lemma bit_small_nat:
  assumes "m < 2 ^ 16"
  shows "bit (of_nat m :: 64 word) n \<longleftrightarrow> n < 16 \<and> bit m n"
proof -
  have "n < 16" if "bit m n"
  proof (rule ccontr)
    assume "\<not> n < 16"
    then have "m < 2 ^ n" using assms by (meson less_le_trans not_less one_le_numeral power_increasing)
    with that show False by (simp add: bit_iff_odd)
  qed
  then show ?thesis by (auto simp: bit_of_nat_iff)
qed

lemma bit_encode_handle:
  assumes "index + 1 < 2 ^ 16"
  shows "bit (encode_handle index t g) n \<longleftrightarrow>
    (if n < 16 then bit (index + 1) n else if n < 24 then bit t (n - 16)
     else if n < 32 then False else n < 64 \<and> bit g (n - 32))"
proof -
  note idx = bit_small_nat [OF assms, of n]
  have t: "\<not> bit t (n - 16)" if "24 \<le> n" by (rule impossible_bit) (use that in simp)
  have "bit (encode_handle index t g) n \<longleftrightarrow>
      (32 \<le> n \<and> n < 64 \<and> bit g (n - 32)) \<or> (16 \<le> n \<and> n < 64 \<and> bit t (n - 16)) \<or>
      bit (of_nat (index + 1) :: 64 word) n"
    unfolding encode_handle_def bit_or_iff by (auto simp: bit_push_bit_iff bit_ucast_iff simp del: of_nat_add)
  with idx t show ?thesis by auto
qed

lemma decode_encode:
  assumes "index + 1 < 2 ^ 16"
  shows "encoded_generation (encode_handle index t g) = g"
    and "encoded_type (encode_handle index t g) = t"
    and "encoded_reserved (encode_handle index t g) = 0"
    and "encoded_index (encode_handle index t g) = index + 1"
proof -
  note b = bit_encode_handle [OF assms, of t g]
  show "encoded_generation (encode_handle index t g) = g"
    by (rule bit_eqI) (simp add: encoded_generation_def bit_ucast_iff bit_drop_bit_eq b)
  show "encoded_type (encode_handle index t g) = t"
    by (rule bit_eqI) (simp add: encoded_type_def bit_ucast_iff bit_drop_bit_eq b)
  show "encoded_reserved (encode_handle index t g) = 0"
    by (rule bit_eqI) (simp add: encoded_reserved_def bit_ucast_iff bit_drop_bit_eq b)
  have "encode_handle index t g AND mask 16 = of_nat (index + 1)"
  proof (rule bit_eqI)
    fix n
    show "bit (encode_handle index t g AND mask 16) n = bit (of_nat (index + 1) :: 64 word) n"
      unfolding bit_small_nat [OF assms] bit_and_iff bit_mask_iff b by auto
  qed
  moreover have "(mask 16 :: 64 word) = 0xFFFF" by (simp add: mask_eq_exp_minus_1)
  moreover have "unat (of_nat (index + 1) :: 64 word) = index + 1"
    using assms by (simp only: unat_of_nat) simp
  ultimately show "encoded_index (encode_handle index t g) = index + 1"
    by (simp add: encoded_index_def del: of_nat_add)
qed

lemma encode_decode:
  assumes "encoded_index h \<noteq> 0" "encoded_reserved h = 0"
  shows "encode_handle (encoded_index h - 1) (encoded_type h) (encoded_generation h) = h"
proof -
  have m: "(0xFFFF :: 64 word) = mask 16" by (simp add: mask_eq_exp_minus_1)
  have idx: "encoded_index h - 1 + 1 = encoded_index h" using assms(1) by simp
  have lt: "encoded_index h < 2 ^ 16"
  proof -
    have "h AND 0xFFFF = take_bit 16 h" by (simp add: m take_bit_eq_mask)
    then show ?thesis using take_bit_nat_less_exp [of 16 "unat h"]
      by (simp add: encoded_index_def unsigned_take_bit_eq)
  qed
  have low: "bit (encoded_index h) n \<longleftrightarrow> n < 16 \<and> bit h n" for n
    by (auto simp: encoded_index_def m bit_unsigned_iff bit_and_iff bit_mask_iff)
  have res: "\<not> bit h n" if "24 \<le> n" "n < 32" for n
  proof -
    have "bit (encoded_reserved h) (n - 24) \<longleftrightarrow> bit h n"
      using that by (auto simp: encoded_reserved_def bit_ucast_iff bit_drop_bit_eq)
    with assms(2) show ?thesis by simp
  qed
  show ?thesis
  proof (rule bit_word_eqI)
    fix n assume "n < LENGTH(64)"
    then show "bit (encode_handle (encoded_index h - 1) (encoded_type h) (encoded_generation h)) n = bit h n"
      using bit_encode_handle [of "encoded_index h - 1" "encoded_type h" "encoded_generation h" n] lt res [of n]
      unfolding idx
      by (auto simp: low encoded_type_def encoded_generation_def bit_ucast_iff bit_drop_bit_eq not_less)
  qed
qed

lemma encode_handle_inj:
  assumes "i + 1 < 2 ^ 16" "j + 1 < 2 ^ 16"
  shows "encode_handle i t g = encode_handle j u k \<longleftrightarrow> i = j \<and> t = u \<and> g = k"
  using decode_encode [OF assms(1), of t g] decode_encode [OF assms(2), of u k] by auto

section \<open>Invariant\<close>

definition active_slots :: "native_handle_table \<Rightarrow> nat set" where
  "active_slots t = {i. i < table_limit t \<and> slot_active (table_slots t ! i)}"

definition live_objects :: "native_handle_table \<Rightarrow> nat set" where
  "live_objects t = {j. j < table_limit t \<and> object_active (table_objects t ! j)}"

definition slots_of :: "native_handle_table \<Rightarrow> nat \<Rightarrow> nat set" where
  "slots_of t j = {i \<in> active_slots t. slot_object_index (table_slots t ! i) = j}"

definition slot_handle :: "native_handle_table \<Rightarrow> nat \<Rightarrow> 64 word" where
  "slot_handle t i = encode_handle i (slot_type (table_slots t ! i)) (slot_generation (table_slots t ! i))"

definition live_handles :: "native_handle_table \<Rightarrow> 64 word set" where
  "live_handles t = slot_handle t ` active_slots t"

definition table_shape :: "native_handle_table \<Rightarrow> bool" where
  "table_shape t \<longleftrightarrow> table_initialized t \<and> 0 < table_limit t \<and> table_limit t \<le> NATIVE_HANDLE_LIMIT \<and>
     length (table_slots t) = NATIVE_HANDLE_LIMIT \<and> length (table_objects t) = NATIVE_HANDLE_LIMIT \<and>
     (\<forall>i < table_limit t. slot_generation (table_slots t ! i) \<noteq> 0)"

text \<open>
  Every active slot names a live object of its own type, and every object's reference
  count is the number of active slots naming it.
\<close>

definition slots_ok :: "native_handle_table \<Rightarrow> bool" where
  "slots_ok t \<longleftrightarrow> (\<forall>i \<in> active_slots t. valid_type (slot_type (table_slots t ! i)) \<and>
     slot_object_index (table_slots t ! i) \<in> live_objects t \<and>
     object_type (table_objects t ! slot_object_index (table_slots t ! i)) = slot_type (table_slots t ! i))"

definition objects_ok :: "native_handle_table \<Rightarrow> bool" where
  "objects_ok t \<longleftrightarrow> (\<forall>j < table_limit t.
     (object_active (table_objects t ! j) \<longleftrightarrow> slots_of t j \<noteq> {}) \<and>
     (object_active (table_objects t ! j) \<longrightarrow>
        object_references (table_objects t ! j) = card (slots_of t j)))"

definition handle_inv :: "native_handle_table \<Rightarrow> bool" where
  "handle_inv t \<longleftrightarrow> table_shape t \<and> slots_ok t \<and> objects_ok t \<and>
     active_handles t = card (active_slots t) \<and> active_objects t = card (live_objects t)"

lemma finite_table_sets [simp]:
  "finite (active_slots t)" "finite (live_objects t)" "finite (slots_of t j)"
  by (simp_all add: active_slots_def live_objects_def slots_of_def)

lemma table_card_le:
  "card (active_slots t) \<le> table_limit t" "card (live_objects t) \<le> table_limit t"
  "card (slots_of t j) \<le> table_limit t"
proof -
  have le: "A \<subseteq> {..<table_limit t} \<Longrightarrow> card A \<le> table_limit t" for A
    using card_mono [of "{..<table_limit t}" A] by simp
  show "card (active_slots t) \<le> table_limit t" "card (live_objects t) \<le> table_limit t"
    "card (slots_of t j) \<le> table_limit t"
    by (rule le, auto simp: active_slots_def live_objects_def slots_of_def)+
qed

lemma inc16_id: "n < 2 ^ 16 - 1 \<Longrightarrow> inc16 n = n + 1"
  by (simp add: inc16_def)

lemma dec16_id: "0 < n \<Longrightarrow> n < 2 ^ 16 \<Longrightarrow> dec16 n = n - 1"
proof -
  assume "0 < n" "n < 2 ^ 16"
  then have "n + (2 ^ 16 - 1) = (n - 1) + 2 ^ 16" by simp
  then have "dec16 n = ((n - 1) + 2 ^ 16) mod 2 ^ 16" by (simp only: dec16_def)
  then show ?thesis using \<open>n < 2 ^ 16\<close> by simp
qed

section \<open>Decoding against the live handles\<close>

lemma slot_index_small: "table_shape t \<Longrightarrow> i < table_limit t \<Longrightarrow> i + 1 < 2 ^ 16"
  by (simp add: table_shape_def NATIVE_HANDLE_LIMIT_def)

lemma decode_slot_live:
  assumes "table_shape t" "slots_ok t" "i \<in> active_slots t"
  shows "decode_slot (Some t) (slot_handle t i) = (NATIVE_HANDLE_OK, i)"
proof -
  have i: "i < table_limit t" using assms(3) by (simp add: active_slots_def)
  note d = decode_encode [OF slot_index_small [OF assms(1) i], of "slot_type (table_slots t ! i)"
      "slot_generation (table_slots t ! i)", folded slot_handle_def]
  have "slot_handle t i \<noteq> 0" using d(4) by (auto simp: encoded_index_def)
  with assms i d show ?thesis
    by (simp add: decode_slot_def table_shape_def slots_ok_def active_slots_def Let_def
        SAPOTE_HANDLE_INVALID_def)
qed

lemma decode_slot_OK:
  assumes "decode_slot (Some t) h = (NATIVE_HANDLE_OK, i)"
  shows "i \<in> active_slots t \<and> h = slot_handle t i"
proof -
  from assms have d: "encoded_index h \<noteq> 0" "encoded_index h \<le> table_limit t" "encoded_reserved h = 0"
    "i = encoded_index h - 1" "slot_active (table_slots t ! i)"
    "slot_generation (table_slots t ! i) = encoded_generation h" "slot_type (table_slots t ! i) = encoded_type h"
    by (auto simp: decode_slot_def Let_def split: if_splits)
  with encode_decode [OF d(1,3)] show ?thesis by (auto simp: active_slots_def slot_handle_def)
qed

lemma decode_slot_dead:
  assumes "h \<notin> live_handles t"
  shows "decode_slot (Some t) h = (NATIVE_HANDLE_STALE, 0)"
proof (rule ccontr)
  assume "\<not> ?thesis"
  then obtain i where "decode_slot (Some t) h = (NATIVE_HANDLE_OK, i)"
    by (auto simp: decode_slot_def Let_def split: if_splits)
  from decode_slot_OK [OF this] assms show False by (auto simp: live_handles_def)
qed

lemma slot_handle_inj:
  assumes "table_shape t" "table_shape t'" "i < table_limit t" "j < table_limit t'"
    and "slot_handle t i = slot_handle t' j"
  shows "i = j"
  using assms encode_handle_inj [OF slot_index_small [OF assms(1,3)] slot_index_small [OF assms(2,4)]]
  by (simp add: slot_handle_def)

section \<open>Changing one slot\<close>

lemma slot_update_sets:
  assumes i: "i < table_limit t" and len: "i < length (table_slots t)"
    and t': "table_slots t' = (table_slots t)[i := s]" "table_limit t' = table_limit t"
  shows "active_slots t' = (if slot_active s then insert i (active_slots t) else active_slots t - {i})"
    and "slots_of t' j = (slots_of t j - {i}) \<union> (if slot_active s \<and> slot_object_index s = j then {i} else {})"
    and "k \<noteq> i \<Longrightarrow> slot_handle t' k = slot_handle t k"
    and "k \<noteq> i \<Longrightarrow> table_slots t' ! k = table_slots t ! k"
proof -
  show act: "active_slots t' = (if slot_active s then insert i (active_slots t) else active_slots t - {i})"
    using i len by (auto simp: active_slots_def t' nth_list_update split: if_splits)
  show "slots_of t' j = (slots_of t j - {i}) \<union> (if slot_active s \<and> slot_object_index s = j then {i} else {})"
    unfolding slots_of_def act using len by (auto simp: t' nth_list_update split: if_splits)
  show "k \<noteq> i \<Longrightarrow> slot_handle t' k = slot_handle t k" "k \<noteq> i \<Longrightarrow> table_slots t' ! k = table_slots t ! k"
    by (simp_all add: slot_handle_def t')
qed

lemma live_handles_activate:
  assumes shape: "table_shape t" "table_shape t'" and i: "i < table_limit t" "i \<notin> active_slots t"
    and act: "active_slots t' = insert i (active_slots t)" and lim: "table_limit t' = table_limit t"
    and same: "\<And>k. k \<noteq> i \<Longrightarrow> slot_handle t' k = slot_handle t k"
  shows "live_handles t' = insert (slot_handle t' i) (live_handles t)"
    and "slot_handle t' i \<notin> live_handles t"
proof -
  have ne: "k \<noteq> i" if "k \<in> active_slots t" for k using that i(2) by auto
  have "slot_handle t' ` active_slots t = slot_handle t ` active_slots t"
    by (rule image_cong) (use same ne in auto)
  then show "live_handles t' = insert (slot_handle t' i) (live_handles t)"
    by (simp add: live_handles_def act)
  show "slot_handle t' i \<notin> live_handles t"
  proof
    assume "slot_handle t' i \<in> live_handles t"
    then obtain k where k: "k \<in> active_slots t" "slot_handle t' i = slot_handle t k"
      by (auto simp: live_handles_def)
    have "k < table_limit t" using k(1) by (simp add: active_slots_def)
    from slot_handle_inj [OF shape(2,1) _ this k(2)] i(1) lim have "i = k" by simp
    with k(1) i(2) show False by simp
  qed
qed

lemma live_handles_deactivate:
  assumes shape: "table_shape t" "table_shape t'" and i: "i \<in> active_slots t"
    and act: "active_slots t' = active_slots t - {i}"
    and same: "\<And>k. k \<noteq> i \<Longrightarrow> slot_handle t' k = slot_handle t k"
  shows "live_handles t' = live_handles t - {slot_handle t i}"
proof -
  have "slot_handle t' ` (active_slots t - {i}) = slot_handle t ` (active_slots t - {i})"
    by (rule image_cong) (use same in auto)
  moreover have "slot_handle t k \<noteq> slot_handle t i" if "k \<in> active_slots t" "k \<noteq> i" for k
    using that i slot_handle_inj [OF shape(1) shape(1)] by (auto simp: active_slots_def)
  ultimately show ?thesis unfolding live_handles_def act by auto
qed

section \<open>The table as a map from handles\<close>

text \<open>
  What a process can see of its table: which handles are honoured, with the type, the
  object behind each, and that object's resource.
\<close>

definition handle_view :: "native_handle_table \<Rightarrow> 64 word \<Rightarrow> (8 word \<times> nat \<times> native_resource) option" where
  "handle_view t h = (case decode_slot (Some t) h of
     (NATIVE_HANDLE_OK, i) \<Rightarrow>
       let slot = table_slots t ! i in
       Some (slot_type slot, slot_object_index slot,
             object_resource (table_objects t ! slot_object_index slot))
   | _ \<Rightarrow> None)"

lemma handle_view_live:
  "table_shape t \<Longrightarrow> slots_ok t \<Longrightarrow> i \<in> active_slots t \<Longrightarrow>
     handle_view t (slot_handle t i) = Some (slot_type (table_slots t ! i), slot_object_index (table_slots t ! i),
       object_resource (table_objects t ! slot_object_index (table_slots t ! i)))"
  by (simp add: handle_view_def decode_slot_live Let_def)

lemma handle_view_dead: "h \<notin> live_handles t \<Longrightarrow> handle_view t h = None"
  by (simp add: handle_view_def decode_slot_dead)

lemma handle_view_dom: "table_shape t \<Longrightarrow> slots_ok t \<Longrightarrow> dom (handle_view t) = live_handles t"
  using handle_view_dead [of _ t] handle_view_live [of t] by (auto simp: live_handles_def dom_def) fastforce

lemma handle_view_eqI:
  assumes "table_shape t" "slots_ok t" "table_shape t'" "slots_ok t'"
    and "k \<in> active_slots t" "k \<in> active_slots t'" "table_slots t' ! k = table_slots t ! k"
    and "object_resource (table_objects t' ! slot_object_index (table_slots t ! k)) =
      object_resource (table_objects t ! slot_object_index (table_slots t ! k))"
  shows "handle_view t' (slot_handle t k) = handle_view t (slot_handle t k)"
proof -
  have "slot_handle t' k = slot_handle t k" using assms(7) by (simp add: slot_handle_def)
  then show ?thesis
    using handle_view_live [OF assms(1,2,5)] handle_view_live [OF assms(3,4,6)] assms(7,8) by simp
qed

section \<open>Initialization\<close>

lemma initialize_slots:
  assumes "limit \<le> length xs"
  shows "length (fold (\<lambda>index slots. slots[index := (slots ! index)\<lparr>slot_generation := 1\<rparr>]) [0..<limit] xs) = length xs"
    and "i < length xs \<Longrightarrow>
      fold (\<lambda>index slots. slots[index := (slots ! index)\<lparr>slot_generation := 1\<rparr>]) [0..<limit] xs ! i =
        (if i < limit then (xs ! i)\<lparr>slot_generation := 1\<rparr> else xs ! i)"
proof -
  have "length (fold (\<lambda>index slots. slots[index := (slots ! index)\<lparr>slot_generation := 1\<rparr>]) [0..<limit] xs) = length xs \<and>
    (\<forall>i < length xs. fold (\<lambda>index slots. slots[index := (slots ! index)\<lparr>slot_generation := 1\<rparr>]) [0..<limit] xs ! i =
        (if i < limit then (xs ! i)\<lparr>slot_generation := 1\<rparr> else xs ! i))"
    using assms by (induction limit) (auto simp: nth_list_update)
  then show "length (fold (\<lambda>index slots. slots[index := (slots ! index)\<lparr>slot_generation := 1\<rparr>]) [0..<limit] xs) = length xs"
    "i < length xs \<Longrightarrow>
      fold (\<lambda>index slots. slots[index := (slots ! index)\<lparr>slot_generation := 1\<rparr>]) [0..<limit] xs ! i =
        (if i < limit then (xs ! i)\<lparr>slot_generation := 1\<rparr> else xs ! i)" by blast+
qed

lemma native_handle_table_initialize_inv:
  assumes "0 < limit" "limit \<le> NATIVE_HANDLE_LIMIT"
  obtains t' where "native_handle_table_initialize (Some t) limit = (NATIVE_HANDLE_OK, Some t')"
    "handle_inv t'" "live_handles t' = {}" "table_limit t' = limit"
proof -
  obtain t' where t': "native_handle_table_initialize (Some t) limit = (NATIVE_HANDLE_OK, Some t')"
    and eq: "t' = \<lparr>table_slots = fold (\<lambda>index slots. slots[index := (slots ! index)\<lparr>slot_generation := 1\<rparr>])
                [0..<limit] (replicate NATIVE_HANDLE_LIMIT zero_slot),
             table_objects = replicate NATIVE_HANDLE_LIMIT zero_object,
             table_limit = limit, active_handles = 0, active_objects = 0, table_initialized = True\<rparr>"
    using assms by (simp add: native_handle_table_initialize_def)
  have len: "limit \<le> length (replicate NATIVE_HANDLE_LIMIT zero_slot)" using assms(2) by simp
  have slots: "i < limit \<Longrightarrow> table_slots t' ! i = zero_slot\<lparr>slot_generation := 1\<rparr>" for i
    using initialize_slots(2) [OF len] assms(2) by (simp add: eq)
  then have act: "active_slots t' = {}" by (simp add: active_slots_def eq zero_slot_def)
  have objs: "j < limit \<Longrightarrow> table_objects t' ! j = zero_object" for j
    using assms(2) by (simp add: eq)
  then have live: "live_objects t' = {}" by (simp add: live_objects_def eq zero_object_def)
  have lim: "table_limit t' = limit" by (simp add: eq)
  have "table_shape t'"
    using assms slots initialize_slots(1) [OF len] by (simp add: table_shape_def eq)
  moreover have "objects_ok t'" using objs by (simp add: objects_ok_def slots_of_def act lim zero_object_def)
  ultimately have "handle_inv t'" by (simp add: handle_inv_def slots_ok_def act live) (simp add: eq)
  with t' show thesis by (rule that) (simp_all add: live_handles_def act lim)
qed

section \<open>Installing and duplicating\<close>

text \<open>
  Both make an idle slot \<open>i\<close> point at an object \<open>j\<close>; the object is new (installing) or
  gains a reference (duplicating).
\<close>

lemma activate_inv:
  assumes inv: "handle_inv t" and i: "i < table_limit t" "i \<notin> active_slots t"
    and j: "j < table_limit t" and ty: "valid_type ty"
    and ob: "object_active ob" "object_type ob = ty" "object_references ob = card (slots_of t j) + 1"
    and old: "slots_of t j \<noteq> {} \<Longrightarrow> object_type (table_objects t ! j) = ty"
    and t': "t' = t\<lparr>table_objects := (table_objects t)[j := ob],
        table_slots := (table_slots t)[i := (table_slots t ! i)\<lparr>slot_object_index := j, slot_type := ty,
          slot_active := True\<rparr>],
        active_handles := card (active_slots t) + 1, active_objects := card (insert j (live_objects t))\<rparr>"
  shows "handle_inv t'" and "live_handles t' = insert (slot_handle t' i) (live_handles t)"
    and "slot_handle t' i \<notin> live_handles t"
    and "slot_handle t' i = encode_handle i ty (slot_generation (table_slots t ! i))"
    and "slots_of t j = {} \<or> object_resource ob = object_resource (table_objects t ! j) \<Longrightarrow>
      handle_view t' = (handle_view t)(slot_handle t' i \<mapsto> (ty, j, object_resource ob))"
proof -
  have shape: "table_shape t" and sok: "slots_ok t" and ook: "objects_ok t"
    and cnt: "active_handles t = card (active_slots t)" using inv by (simp_all add: handle_inv_def)
  have len: "i < length (table_slots t)" "j < length (table_objects t)"
    using shape i(1) j by (simp_all add: table_shape_def)
  let ?s = "(table_slots t ! i)\<lparr>slot_object_index := j, slot_type := ty, slot_active := True\<rparr>"
  have ts: "table_slots t' = (table_slots t)[i := ?s]" "table_limit t' = table_limit t"
    by (simp_all add: t')
  note U = slot_update_sets [OF i(1) len(1) ts]
  have act: "active_slots t' = insert i (active_slots t)" using U(1) by simp
  have si: "table_slots t' ! i = ?s" using len by (simp add: ts)
  have of_i: "i \<notin> slots_of t k" for k using i(2) by (simp add: slots_of_def)
  have so: "slots_of t' k = (if k = j then insert i (slots_of t k) else slots_of t k)" for k
    using U(2) [of k] of_i by auto
  have ob': "table_objects t' ! k = (if k = j then ob else table_objects t ! k)" for k
    using len by (simp add: t' nth_list_update)
  have lo: "live_objects t' = insert j (live_objects t)"
    using j ob(1) by (auto simp: live_objects_def ts ob')
  have shape': "table_shape t'"
    using shape i(1) len by (auto simp: table_shape_def t' nth_list_update)
  have type_j: "object_type (table_objects t ! j) = ty"
    if "k \<in> active_slots t" "slot_object_index (table_slots t ! k) = j" for k
    using old that by (auto simp: slots_of_def)
  have sok': "slots_ok t'"
    unfolding slots_ok_def
  proof
    fix k assume k: "k \<in> active_slots t'"
    show "valid_type (slot_type (table_slots t' ! k)) \<and> slot_object_index (table_slots t' ! k) \<in> live_objects t' \<and>
      object_type (table_objects t' ! slot_object_index (table_slots t' ! k)) = slot_type (table_slots t' ! k)"
    proof (cases "k = i")
      case True
      then show ?thesis using ty ob(2) by (simp add: si lo ob')
    next
      case False
      with k have ka: "k \<in> active_slots t" by (simp add: act)
      then show ?thesis
        using sok U(4) [OF False] ob(2) type_j [OF ka] by (auto simp: slots_ok_def lo ob')
    qed
  qed
  have ook': "objects_ok t'"
    using ook ob j so of_i by (simp add: objects_ok_def ts ob')
  have "active_handles t' = card (active_slots t')" "active_objects t' = card (live_objects t')"
    unfolding act lo using i(2) by (simp_all add: t')
  then show inv': "handle_inv t'" using shape' sok' ook' by (simp add: handle_inv_def)
  have L: "live_handles t' = insert (slot_handle t' i) (live_handles t)" "slot_handle t' i \<notin> live_handles t"
    using live_handles_activate [OF shape shape' i act ts(2)] U(3) by blast+
  show "live_handles t' = insert (slot_handle t' i) (live_handles t)" "slot_handle t' i \<notin> live_handles t"
    by (fact L)+
  show hi: "slot_handle t' i = encode_handle i ty (slot_generation (table_slots t ! i))"
    by (simp add: slot_handle_def si)
  assume res: "slots_of t j = {} \<or> object_resource ob = object_resource (table_objects t ! j)"
  show "handle_view t' = (handle_view t)(slot_handle t' i \<mapsto> (ty, j, object_resource ob))"
  proof
    fix h
    consider "h = slot_handle t' i" | "h \<in> live_handles t" "h \<noteq> slot_handle t' i"
      | "h \<notin> live_handles t'" using L(1) by auto
    then show "handle_view t' h = ((handle_view t)(slot_handle t' i \<mapsto> (ty, j, object_resource ob))) h"
    proof cases
      case 1
      then show ?thesis using handle_view_live [OF shape' sok', of i] act by (simp add: si ob')
    next
      case 2
      then obtain k where k: "k \<in> active_slots t" "h = slot_handle t k" by (auto simp: live_handles_def)
      have ki: "k \<noteq> i" using k(1) i(2) by auto
      have "object_resource (table_objects t' ! slot_object_index (table_slots t ! k)) =
          object_resource (table_objects t ! slot_object_index (table_slots t ! k))"
        using res k(1) by (auto simp: ob' slots_of_def)
      with handle_view_eqI [OF shape sok shape' sok' k(1) _ U(4) [OF ki]] k act 2 show ?thesis by simp
    next
      case 3
      then show ?thesis using L(1) by (simp add: handle_view_dead)
    qed
  qed
qed

lemma table_limit_small: "table_shape t \<Longrightarrow> table_limit t < 2 ^ 16 - 1"
  by (simp add: table_shape_def NATIVE_HANDLE_LIMIT_def)

lemma native_handle_install_full:
  assumes "handle_inv t" "valid_type ty"
    and "card (active_slots t) = table_limit t \<or> card (live_objects t) = table_limit t"
  shows "native_handle_install ty (Some r) False (Some t) = (NATIVE_HANDLE_FULL, SAPOTE_HANDLE_INVALID, Some t)"
proof -
  have "A = {..<table_limit t}" if "A \<subseteq> {..<table_limit t}" "card A = table_limit t" for A
    using that card_subset_eq [of "{..<table_limit t}" A] by simp
  moreover have "active_slots t \<subseteq> {..<table_limit t}" "live_objects t \<subseteq> {..<table_limit t}"
    by (auto simp: active_slots_def live_objects_def)
  ultimately have "active_slots t = {..<table_limit t} \<or> live_objects t = {..<table_limit t}"
    using assms(3) by metis
  then have "find_from (\<lambda>index. \<not> slot_active (table_slots t ! index)) 0 (table_limit t) = None \<or>
      find_from (\<lambda>index. \<not> object_active (table_objects t ! index)) 0 (table_limit t) = None"
    by (auto simp: find_from_None_iff active_slots_def live_objects_def set_eq_iff)
  then show ?thesis
    using assms(1,2)
    by (auto simp: native_handle_install_def handle_inv_def table_shape_def split: option.splits)
qed

lemma native_handle_install_ok:
  assumes inv: "handle_inv t" and ty: "valid_type ty"
    and room: "card (active_slots t) < table_limit t" "card (live_objects t) < table_limit t"
  obtains h j t' where
    "native_handle_install ty (Some r) False (Some t) = (NATIVE_HANDLE_OK, h, Some t')"
    "handle_inv t'" "h \<notin> live_handles t" "live_handles t' = insert h (live_handles t)"
    "handle_view t' = (handle_view t)(h \<mapsto> (ty, j, r))" "j \<notin> live_objects t"
proof -
  have shape: "table_shape t" and ook: "objects_ok t"
    and cnt: "active_handles t = card (active_slots t)" "active_objects t = card (live_objects t)"
    using inv by (simp_all add: handle_inv_def)
  let ?idle = "\<lambda>index. \<not> slot_active (table_slots t ! index)"
  let ?dead = "\<lambda>index. \<not> object_active (table_objects t ! index)"
  have ex: "\<exists>k < table_limit t. k \<notin> A" if "card A < table_limit t" "finite A" for A
    using that card_mono [of A "{..<table_limit t}"] by (metis card_lessThan lessThan_iff not_le subsetI)
  obtain a where "a < table_limit t" "?idle a"
    using ex [OF room(1)] by (auto simp: active_slots_def)
  then obtain i where i: "find_from ?idle 0 (table_limit t) = Some i"
    using find_from_exists [of 0 a "table_limit t" ?idle] by auto
  obtain b where "b < table_limit t" "?dead b"
    using ex [OF room(2)] by (auto simp: live_objects_def)
  then obtain j where j: "find_from ?dead 0 (table_limit t) = Some j"
    using find_from_exists [of 0 b "table_limit t" ?dead] by auto
  have il: "i < table_limit t" "i \<notin> active_slots t" using find_from_SomeD [OF i] by (auto simp: active_slots_def)
  have jl: "j < table_limit t" "j \<notin> live_objects t" using find_from_SomeD [OF j] by (auto simp: live_objects_def)
  have sj: "slots_of t j = {}" using ook jl by (auto simp: objects_ok_def live_objects_def)
  let ?ob = "\<lparr>object_resource = r, object_references = 1, object_type = ty, object_active = True\<rparr>"
  define t' where "t' = t\<lparr>table_objects := (table_objects t)[j := ?ob],
        table_slots := (table_slots t)[i := (table_slots t ! i)\<lparr>slot_object_index := j, slot_type := ty,
          slot_active := True\<rparr>],
        active_handles := card (active_slots t) + 1, active_objects := card (insert j (live_objects t))\<rparr>"
  note A = activate_inv [OF inv il jl(1) ty _ _ _ _ t'_def]
  have "inc16 (active_handles t) = card (active_slots t) + 1"
    "inc16 (active_objects t) = card (insert j (live_objects t))" "j mod 2 ^ 16 = j"
    using room table_limit_small [OF shape] jl by (simp_all add: cnt inc16_id)
  then have run: "native_handle_install ty (Some r) False (Some t) =
      (NATIVE_HANDLE_OK, encode_handle i ty (slot_generation (table_slots t ! i)), Some t')"
    using shape ty i j
    by (simp add: native_handle_install_def table_shape_def Let_def t'_def)
  show thesis
    by (rule that [OF run A(1) _ _ _ jl(2)]) (use A sj in simp_all)
qed

lemma native_handle_duplicate_dead:
  "h \<notin> live_handles t \<Longrightarrow>
     native_handle_duplicate h False (Some t) = (NATIVE_HANDLE_STALE, SAPOTE_HANDLE_INVALID, Some t)"
  by (simp add: native_handle_duplicate_def decode_slot_dead)

lemma native_handle_duplicate_live:
  assumes inv: "handle_inv t" and h: "h \<in> live_handles t"
  shows "card (active_slots t) = table_limit t \<Longrightarrow>
      native_handle_duplicate h False (Some t) = (NATIVE_HANDLE_FULL, SAPOTE_HANDLE_INVALID, Some t)"
    and "card (active_slots t) < table_limit t \<Longrightarrow>
      \<exists>h' t'. native_handle_duplicate h False (Some t) = (NATIVE_HANDLE_OK, h', Some t') \<and> handle_inv t' \<and>
        h' \<notin> live_handles t \<and> live_handles t' = insert h' (live_handles t) \<and>
        handle_view t' = (handle_view t)(h' := handle_view t h)"
proof -
  have shape: "table_shape t" and sok: "slots_ok t" and ook: "objects_ok t"
    and cnt: "active_handles t = card (active_slots t)" "active_objects t = card (live_objects t)"
    using inv by (simp_all add: handle_inv_def)
  obtain s where s: "s \<in> active_slots t" "h = slot_handle t s" using h by (auto simp: live_handles_def)
  note dec = decode_slot_live [OF shape sok s(1), folded s(2)]
  let ?idle = "\<lambda>index. \<not> slot_active (table_slots t ! index)"
  show "native_handle_duplicate h False (Some t) = (NATIVE_HANDLE_FULL, SAPOTE_HANDLE_INVALID, Some t)"
    if "card (active_slots t) = table_limit t"
    using dec that cnt(1) by (simp add: native_handle_duplicate_def Let_def split: option.splits)
  assume room: "card (active_slots t) < table_limit t"
  obtain a where "a < table_limit t" "?idle a"
    using room card_mono [of "active_slots t" "{..<table_limit t}"]
    by (metis active_slots_def card_lessThan finite_table_sets(1) lessThan_iff mem_Collect_eq not_le subsetI)
  then obtain i where i: "find_from ?idle 0 (table_limit t) = Some i"
    using find_from_exists [of 0 a "table_limit t" ?idle] by auto
  have il: "i < table_limit t" "i \<notin> active_slots t" using find_from_SomeD [OF i] by (auto simp: active_slots_def)
  let ?slot = "table_slots t ! s"
  define j where "j = slot_object_index ?slot"
  have ss: "valid_type (slot_type ?slot)" "j \<in> live_objects t"
    "object_type (table_objects t ! j) = slot_type ?slot"
    using sok s(1) by (simp_all add: slots_ok_def j_def)
  have jl: "j < table_limit t" "object_active (table_objects t ! j)"
    "object_references (table_objects t ! j) = card (slots_of t j)"
    using ss(2) ook by (simp_all add: live_objects_def objects_ok_def)
  have small: "card (slots_of t j) < 2 ^ 16 - 1" "card (active_slots t) < 2 ^ 16 - 1"
    using table_card_le [of t] table_limit_small [OF shape] le_less_trans by blast+
  let ?ob = "(table_objects t ! j)\<lparr>object_references := card (slots_of t j) + 1\<rparr>"
  define t' where "t' = t\<lparr>table_objects := (table_objects t)[j := ?ob],
        table_slots := (table_slots t)[i := (table_slots t ! i)\<lparr>slot_object_index := j,
          slot_type := slot_type ?slot, slot_active := True\<rparr>],
        active_handles := card (active_slots t) + 1, active_objects := card (insert j (live_objects t))\<rparr>"
  note A = activate_inv [OF inv il jl(1) ss(1) _ _ _ _ t'_def]
  have "insert j (live_objects t) = live_objects t" using ss(2) by auto
  then have "t' = t\<lparr>table_objects := (table_objects t)[j := ?ob],
        table_slots := (table_slots t)[i := (table_slots t ! i)\<lparr>slot_object_index := j,
          slot_type := slot_type ?slot, slot_active := True\<rparr>],
        active_handles := card (active_slots t) + 1\<rparr>"
    using cnt(2) by (simp add: t'_def)
  then have run: "native_handle_duplicate h False (Some t) =
      (NATIVE_HANDLE_OK, encode_handle i (slot_type ?slot) (slot_generation (table_slots t ! i)), Some t')"
    using dec i room cnt jl(2,3) small
    by (simp add: native_handle_duplicate_def Let_def j_def [symmetric] inc16_id)
  have "handle_view t h = Some (slot_type ?slot, j, object_resource (table_objects t ! j))"
    using handle_view_live [OF shape sok s(1)] s(2) by (simp add: j_def)
  then show "\<exists>h' t'. native_handle_duplicate h False (Some t) = (NATIVE_HANDLE_OK, h', Some t') \<and> handle_inv t' \<and>
        h' \<notin> live_handles t \<and> live_handles t' = insert h' (live_handles t) \<and>
        handle_view t' = (handle_view t)(h' := handle_view t h)"
    using run A jl(2) ss(3) by (intro exI [of _ "slot_handle t' i"] exI [of _ t']) simp
qed

section \<open>Closing\<close>

lemma close_slot_inv:
  assumes inv: "handle_inv t" and i: "i \<in> active_slots t"
    and j: "j = slot_object_index (table_slots t ! i)" and t': "t' = close_slot i t"
  shows "handle_inv t'" and "live_handles t' = live_handles t - {slot_handle t i}"
    and "handle_view t' = (handle_view t)(slot_handle t i := None)"
    and "live_objects t' = (if slots_of t j = {i} then live_objects t - {j} else live_objects t)"
    and "\<forall>k < NATIVE_HANDLE_LIMIT. slot_generation (table_slots t' ! k) =
      (if k = i then next_generation (slot_generation (table_slots t ! k)) else slot_generation (table_slots t ! k))"
    and "active_slots t' = active_slots t - {i}" and "table_limit t' = table_limit t"
    and "\<forall>k \<in> active_slots t'. table_slots t' ! k = table_slots t ! k"
proof -
  have shape: "table_shape t" and sok: "slots_ok t" and ook: "objects_ok t"
    and cnt: "active_handles t = card (active_slots t)" "active_objects t = card (live_objects t)"
    using inv by (simp_all add: handle_inv_def)
  have il: "i < table_limit t" using i by (simp add: active_slots_def)
  have jl: "j \<in> live_objects t" "j < table_limit t" using sok i by (auto simp: slots_ok_def j live_objects_def)
  have len: "i < length (table_slots t)" "j < length (table_objects t)"
    using shape il jl(2) by (simp_all add: table_shape_def)
  have refs: "object_active (table_objects t ! j)" "object_references (table_objects t ! j) = card (slots_of t j)"
    using jl ook by (simp_all add: live_objects_def objects_ok_def)
  have iso: "i \<in> slots_of t j" using i by (simp add: slots_of_def j)
  then have pos: "0 < card (slots_of t j)" by (auto simp: card_gt_0_iff)
  have small: "card (slots_of t j) < 2 ^ 16" "card (active_slots t) < 2 ^ 16" "card (live_objects t) < 2 ^ 16"
    using table_card_le [of t] table_limit_small [OF shape] by (meson le_less_trans less_trans diff_less zero_less_numeral zero_less_one zero_less_power)+
  have one: "card (slots_of t j) - 1 = 0 \<longleftrightarrow> slots_of t j = {i}"
  proof -
    have "card (slots_of t j) - 1 = 0 \<longleftrightarrow> card (slots_of t j) = 1" using pos by linarith
    also have "\<dots> \<longleftrightarrow> slots_of t j = {i}" using iso by (auto simp: card_1_singleton_iff)
    finally show ?thesis .
  qed
  let ?s = "\<lparr>slot_generation = next_generation (slot_generation (table_slots t ! i)),
      slot_object_index = 0, slot_type = 0, slot_active = False\<rparr>"
  let ?ob = "if slots_of t j = {i} then zero_object
      else (table_objects t ! j)\<lparr>object_references := card (slots_of t j) - 1\<rparr>"
  have pc: "0 < card (active_slots t)" "0 < card (live_objects t)" using i jl by (auto simp: card_gt_0_iff)
  have eq: "t' = t\<lparr>table_slots := (table_slots t)[i := ?s], active_handles := card (active_slots t) - 1,
      table_objects := (table_objects t)[j := ?ob],
      active_objects := (if slots_of t j = {i} then card (live_objects t) - 1 else card (live_objects t))\<rparr>"
    unfolding t' close_slot_def j [symmetric] Let_def refs(2) dec16_id [OF pos small(1)] one
      cnt dec16_id [OF pc(1) small(2)] dec16_id [OF pc(2) small(3)]
    by (simp add: next_generation_def Let_def)
  have ts: "table_slots t' = (table_slots t)[i := ?s]" "table_limit t' = table_limit t" by (simp_all add: eq)
  note U = slot_update_sets [OF il len(1) ts]
  show act: "active_slots t' = active_slots t - {i}" using U(1) by simp
  show "table_limit t' = table_limit t" by (fact ts)
  show same: "\<forall>k \<in> active_slots t'. table_slots t' ! k = table_slots t ! k" using U(4) act by auto
  have so: "slots_of t' k = slots_of t k - {i}" for k using U(2) [of k] by simp
  have so': "slots_of t' k = (if k = j then slots_of t j - {i} else slots_of t k)" for k
    unfolding so by (auto simp: slots_of_def j)
  have ob': "table_objects t' ! k = (if k = j then ?ob else table_objects t ! k)" for k
    using len by (simp add: eq nth_list_update)
  show lo: "live_objects t' = (if slots_of t j = {i} then live_objects t - {j} else live_objects t)"
    using refs(1) jl by (auto simp: live_objects_def ts ob' zero_object_def split: if_splits)
  have len_slots: "length (table_slots t) = NATIVE_HANDLE_LIMIT" using shape by (simp add: table_shape_def)
  show gens: "\<forall>k < NATIVE_HANDLE_LIMIT. slot_generation (table_slots t' ! k) =
      (if k = i then next_generation (slot_generation (table_slots t ! k)) else slot_generation (table_slots t ! k))"
    using len_slots by (auto simp: ts nth_list_update)
  have shape': "table_shape t'"
    using shape len by (auto simp: table_shape_def eq nth_list_update)
  have sok': "slots_ok t'"
    unfolding slots_ok_def
  proof
    fix k assume k: "k \<in> active_slots t'"
    then have ka: "k \<in> active_slots t" "k \<noteq> i" "table_slots t' ! k = table_slots t ! k"
      using act same by auto
    have nj: "slots_of t j \<noteq> {i}" if "slot_object_index (table_slots t ! k) = j"
      using that ka by (auto simp: slots_of_def)
    show "valid_type (slot_type (table_slots t' ! k)) \<and> slot_object_index (table_slots t' ! k) \<in> live_objects t' \<and>
      object_type (table_objects t' ! slot_object_index (table_slots t' ! k)) = slot_type (table_slots t' ! k)"
      using sok ka nj by (auto simp: slots_ok_def lo ob')
  qed
  have ook': "objects_ok t'"
    unfolding objects_ok_def
  proof (intro allI impI)
    fix k assume k: "k < table_limit t'"
    show "(object_active (table_objects t' ! k) \<longleftrightarrow> slots_of t' k \<noteq> {}) \<and>
      (object_active (table_objects t' ! k) \<longrightarrow> object_references (table_objects t' ! k) = card (slots_of t' k))"
    proof (cases "k = j")
      case True
      then show ?thesis using refs iso by (auto simp: ob' so' zero_object_def)
    next
      case False
      then show ?thesis using ook k by (simp add: objects_ok_def ob' so' ts)
    qed
  qed
  have "active_handles t' = card (active_slots t')" "active_objects t' = card (live_objects t')"
    unfolding act lo using i jl by (simp_all add: eq)
  then show "handle_inv t'" using shape' sok' ook' by (simp add: handle_inv_def)
  show L: "live_handles t' = live_handles t - {slot_handle t i}"
    using live_handles_deactivate [OF shape shape' i act] U(3) by blast
  show "handle_view t' = (handle_view t)(slot_handle t i := None)"
  proof
    fix h
    show "handle_view t' h = ((handle_view t)(slot_handle t i := None)) h"
    proof (cases "h \<in> live_handles t'")
      case False
      then have "h = slot_handle t i \<or> h \<notin> live_handles t" unfolding L by blast
      with handle_view_dead [OF False] handle_view_dead [of h t] show ?thesis by auto
    next
      case True
      then obtain k where k: "k \<in> active_slots t'" "h = slot_handle t' k" by (auto simp: live_handles_def)
      then have ka: "k \<in> active_slots t" "k \<noteq> i" "h = slot_handle t k" using act U(3) by auto
      have nj: "slots_of t j \<noteq> {i}" if "slot_object_index (table_slots t ! k) = j"
        using that ka by (auto simp: slots_of_def)
      then have "object_resource (table_objects t' ! slot_object_index (table_slots t ! k)) =
          object_resource (table_objects t ! slot_object_index (table_slots t ! k))"
        by (auto simp: ob')
      from handle_view_eqI [OF shape sok shape' sok' ka(1) k(1) U(4) [OF ka(2)] this]
      have "handle_view t' h = handle_view t h" by (simp add: ka(3))
      moreover have "h \<noteq> slot_handle t i" using True L by simp
      ultimately show ?thesis by simp
    qed
  qed
qed

lemma native_handle_close_dead:
  "h \<notin> live_handles t \<Longrightarrow> native_handle_close h f c (Some t) = (NATIVE_HANDLE_STALE, c, Some t)"
  by (simp add: native_handle_close_def decode_slot_dead)

text \<open>
  The callback is consulted exactly when the last handle on an object is closed, and a
  refusal leaves the table as it was.
\<close>

lemma native_handle_close_live:
  assumes inv: "handle_inv t" and i: "i \<in> active_slots t" and j: "j = slot_object_index (table_slots t ! i)"
  shows "slots_of t j \<noteq> {i} \<Longrightarrow>
      native_handle_close (slot_handle t i) f c (Some t) = (NATIVE_HANDLE_OK, c, Some (close_slot i t))"
    and "slots_of t j = {i} \<Longrightarrow> native_handle_close (slot_handle t i) None c (Some t) =
      (NATIVE_HANDLE_OK, c, Some (close_slot i t))"
    and "slots_of t j = {i} \<Longrightarrow> g (slot_type (table_slots t ! i)) (object_resource (table_objects t ! j)) c = (ok, c') \<Longrightarrow>
      native_handle_close (slot_handle t i) (Some g) c (Some t) =
        (if ok then (NATIVE_HANDLE_OK, c', Some (close_slot i t)) else (NATIVE_HANDLE_CLOSE_FAILED, c', Some t))"
proof -
  have shape: "table_shape t" and sok: "slots_ok t" and ook: "objects_ok t"
    using inv by (simp_all add: handle_inv_def)
  note dec = decode_slot_live [OF shape sok i]
  have jl: "j \<in> live_objects t" and ty: "object_type (table_objects t ! j) = slot_type (table_slots t ! i)"
    using sok i by (auto simp: slots_ok_def j)
  have ob: "object_active (table_objects t ! j)" "object_references (table_objects t ! j) = card (slots_of t j)"
    using ook jl by (simp_all add: objects_ok_def live_objects_def)
  have iso: "i \<in> slots_of t j" using i by (simp add: slots_of_def j)
  then have pos: "card (slots_of t j) \<noteq> 0" by auto
  have one: "card (slots_of t j) = 1 \<longleftrightarrow> slots_of t j = {i}" using iso by (auto simp: card_1_singleton_iff)
  note D = native_handle_close_def [of "slot_handle t i"]
  show "slots_of t j \<noteq> {i} \<Longrightarrow>
      native_handle_close (slot_handle t i) f c (Some t) = (NATIVE_HANDLE_OK, c, Some (close_slot i t))"
    using dec ob pos one by (simp add: D Let_def j [symmetric])
  show "slots_of t j = {i} \<Longrightarrow> native_handle_close (slot_handle t i) None c (Some t) =
      (NATIVE_HANDLE_OK, c, Some (close_slot i t))"
    using dec ob pos one by (simp add: D Let_def j [symmetric])
  show "slots_of t j = {i} \<Longrightarrow> g (slot_type (table_slots t ! i)) (object_resource (table_objects t ! j)) c = (ok, c') \<Longrightarrow>
      native_handle_close (slot_handle t i) (Some g) c (Some t) =
        (if ok then (NATIVE_HANDLE_OK, c', Some (close_slot i t)) else (NATIVE_HANDLE_CLOSE_FAILED, c', Some t))"
    using dec ob pos one ty by (simp add: D Let_def j [symmetric])
qed

lemma native_handle_resolve_live:
  assumes inv: "handle_inv t" and v: "handle_view t h = Some (ty, j, r)"
  shows "native_handle_resolve (Some t) h expected False =
    (if expected \<noteq> 0 \<and> ty \<noteq> expected then (NATIVE_HANDLE_WRONG_TYPE, None) else (NATIVE_HANDLE_OK, Some j))"
    and "object_resource (table_objects t ! j) = r" and "j \<in> live_objects t"
proof -
  have shape: "table_shape t" and sok: "slots_ok t" and ook: "objects_ok t"
    using inv by (simp_all add: handle_inv_def)
  have "h \<in> live_handles t" using v handle_view_dead [of h t] by fastforce
  then obtain i where i: "i \<in> active_slots t" "h = slot_handle t i" by (auto simp: live_handles_def)
  have e: "ty = slot_type (table_slots t ! i)" "j = slot_object_index (table_slots t ! i)"
    "r = object_resource (table_objects t ! j)"
    using v handle_view_live [OF shape sok i(1)] i(2) by auto
  show jl: "j \<in> live_objects t" using sok i(1) e(2) by (simp add: slots_ok_def)
  show "object_resource (table_objects t ! j) = r" using e(3) by simp
  have "i \<in> slots_of t j" using i(1) e(2) by (simp add: slots_of_def)
  then have "card (slots_of t j) \<noteq> 0" by auto
  then have "object_active (table_objects t ! j)" "object_references (table_objects t ! j) \<noteq> 0" "j < table_limit t"
    "object_type (table_objects t ! j) = ty"
    using ook jl sok i(1) e by (auto simp: objects_ok_def live_objects_def slots_ok_def)
  with decode_slot_live [OF shape sok i(1)] e i(2)
  show "native_handle_resolve (Some t) h expected False =
    (if expected \<noteq> 0 \<and> ty \<noteq> expected then (NATIVE_HANDLE_WRONG_TYPE, None) else (NATIVE_HANDLE_OK, Some j))"
    by (simp add: native_handle_resolve_def Let_def)
qed

lemma native_handle_resolve_dead:
  "handle_view t h = None \<Longrightarrow> handle_inv t \<Longrightarrow>
     native_handle_resolve (Some t) h expected False = (NATIVE_HANDLE_STALE, None)"
proof -
  assume "handle_view t h = None" "handle_inv t"
  then have "h \<notin> live_handles t" using handle_view_dom [of t] by (metis domIff handle_inv_def)
  then show ?thesis by (simp add: native_handle_resolve_def decode_slot_dead)
qed

section \<open>Closing everything\<close>

lemma close_slot_objects:
  assumes "j \<in> live_objects (close_slot i t)"
  shows "object_type (table_objects (close_slot i t) ! j) = object_type (table_objects t ! j)"
    and "object_resource (table_objects (close_slot i t) ! j) = object_resource (table_objects t ! j)"
proof -
  define oi where "oi = slot_object_index (table_slots t ! i)"
  define ob where "ob = (if dec16 (object_references (table_objects t ! oi)) = 0 then zero_object
      else (table_objects t ! oi)\<lparr>object_references := dec16 (object_references (table_objects t ! oi))\<rparr>)"
  have objs: "table_objects (close_slot i t) = (table_objects t)[oi := ob]"
    by (simp add: close_slot_def Let_def oi_def ob_def)
  have same: "object_type ob = object_type (table_objects t ! oi) \<and>
      object_resource ob = object_resource (table_objects t ! oi)" if "object_active ob"
    using that by (simp add: ob_def zero_object_def split: if_splits)
  have nth: "(table_objects t)[oi := ob] ! j = (if j = oi \<and> oi < length (table_objects t) then ob
      else table_objects t ! j)"
    by (cases "oi < length (table_objects t)") (simp_all add: nth_list_update list_update_beyond not_less)
  have "object_active ((table_objects t)[oi := ob] ! j)"
    using assms objs by (simp add: live_objects_def)
  then have "object_type ((table_objects t)[oi := ob] ! j) = object_type (table_objects t ! j) \<and>
      object_resource ((table_objects t)[oi := ob] ! j) = object_resource (table_objects t ! j)"
    unfolding nth using same by (auto split: if_splits)
  then show "object_type (table_objects (close_slot i t) ! j) = object_type (table_objects t ! j)"
    "object_resource (table_objects (close_slot i t) ! j) = object_resource (table_objects t ! j)"
    unfolding objs by blast+
qed

definition objects_destroyed :: "'c close_fn \<Rightarrow> native_handle_table \<Rightarrow> nat list \<Rightarrow> 'c \<Rightarrow> 'c" where
  "objects_destroyed f t js c =
     fold (\<lambda>j c. snd (f (object_type (table_objects t ! j)) (object_resource (table_objects t ! j)) c)) js c"

definition close_progress :: "'c close_fn \<Rightarrow> native_handle_table \<Rightarrow> 'c \<Rightarrow> nat \<Rightarrow>
    bool \<times> 'c \<times> native_handle_table \<Rightarrow> bool" where
  "close_progress f t c k = (\<lambda>(failed, c', t'). \<not> failed \<and> handle_inv t' \<and> table_limit t' = table_limit t \<and>
     active_slots t' = active_slots t - {..<k} \<and> live_objects t' \<subseteq> live_objects t \<and>
     (\<forall>j \<in> live_objects t'. object_type (table_objects t' ! j) = object_type (table_objects t ! j) \<and>
        object_resource (table_objects t' ! j) = object_resource (table_objects t ! j)) \<and>
     (\<exists>js. distinct js \<and> set js = live_objects t - live_objects t' \<and> c' = objects_destroyed f t js c))"

lemma close_all_step_progress:
  assumes agree: "\<And>j c. j \<in> live_objects t \<Longrightarrow>
      fst (f (object_type (table_objects t ! j)) (object_resource (table_objects t ! j)) c)"
    and k: "k < table_limit t"
    and P: "close_progress f t c k x"
  shows "close_progress f t c (Suc k) (close_all_step (Some f) k x)"
proof -
  obtain failed c1 t1 js where x: "x = (failed, c1, t1)" "\<not> failed" and inv: "handle_inv t1"
    and lim: "table_limit t1 = table_limit t" and act: "active_slots t1 = active_slots t - {..<k}"
    and sub: "live_objects t1 \<subseteq> live_objects t"
    and obj: "\<forall>j \<in> live_objects t1. object_type (table_objects t1 ! j) = object_type (table_objects t ! j) \<and>
        object_resource (table_objects t1 ! j) = object_resource (table_objects t ! j)"
    and js: "distinct js" "set js = live_objects t - live_objects t1" "c1 = objects_destroyed f t js c"
    using P by (auto simp: close_progress_def)
  have lt: "{..<Suc k} = insert k {..<k}" by (simp add: lessThan_Suc)
  show ?thesis
  proof (cases "slot_active (table_slots t1 ! k)")
    case False
    then have "k \<notin> active_slots t1" by (simp add: active_slots_def)
    then have "active_slots t1 = active_slots t - {..<Suc k}" unfolding lt using act by auto
    then show ?thesis using False x inv lim sub obj js
      by (auto simp: close_progress_def close_all_step_def Let_def)
  next
    case True
    then have ka: "k \<in> active_slots t1" using k lim by (simp add: active_slots_def)
    define j where "j = slot_object_index (table_slots t1 ! k)"
    define t2 where "t2 = close_slot k t1"
    note C = close_slot_inv [OF inv ka j_def t2_def]
    have sok: "slots_ok t1" using inv by (simp add: handle_inv_def)
    have jl: "j \<in> live_objects t1" "object_type (table_objects t1 ! j) = slot_type (table_slots t1 ! k)"
      using sok ka by (auto simp: slots_ok_def j_def)
    have act2: "active_slots t2 = active_slots t - {..<Suc k}" unfolding C(6) lt act by auto
    have obj2: "\<forall>j \<in> live_objects t2. object_type (table_objects t2 ! j) = object_type (table_objects t ! j) \<and>
        object_resource (table_objects t2 ! j) = object_resource (table_objects t ! j)"
      using close_slot_objects [of _ k t1] obj C(4) by (auto simp: t2_def split: if_splits)
    have run: "close_all_step (Some f) k x =
        (case native_handle_close (slot_handle t1 k) (Some f) c1 (Some t1) of
          (status, context', table') \<Rightarrow> (status \<noteq> NATIVE_HANDLE_OK, context', the table'))"
      using True x by (simp add: close_all_step_def Let_def slot_handle_def)
    show ?thesis
    proof (cases "slots_of t1 j = {k}")
      case False
      then have "close_all_step (Some f) k x = (False, c1, t2)"
        using run native_handle_close_live(1) [OF inv ka j_def, of "Some f" c1] by (simp add: t2_def)
      moreover have "live_objects t2 = live_objects t1" using C(4) False by simp
      ultimately show ?thesis using C(1,7) lim act2 sub obj2 js by (auto simp: close_progress_def)
    next
      case last: True
      have args: "slot_type (table_slots t1 ! k) = object_type (table_objects t ! j)"
        "object_resource (table_objects t1 ! j) = object_resource (table_objects t ! j)" "j \<in> live_objects t"
        using obj jl sub by auto
      obtain c2 where c2: "f (slot_type (table_slots t1 ! k)) (object_resource (table_objects t1 ! j)) c1 = (True, c2)"
        using agree [OF args(3), of c1] unfolding args by (metis prod.collapse)
      have step: "close_all_step (Some f) k x = (False, c2, t2)"
        using run native_handle_close_live(3) [where g = f and c = c1, OF inv ka j_def last c2] by (simp add: t2_def)
      have live2: "live_objects t2 = live_objects t1 - {j}" using C(4) last by simp
      have "c2 = objects_destroyed f t (js @ [j]) c"
        using c2 js(3) obj jl by (simp add: objects_destroyed_def)
      moreover have "distinct (js @ [j])" "set (js @ [j]) = live_objects t - live_objects t2"
        using js(1,2) jl(1) sub live2 by auto
      ultimately have "\<exists>js. distinct js \<and> set js = live_objects t - live_objects t2 \<and> c2 = objects_destroyed f t js c"
        by blast
      moreover have "live_objects t2 \<subseteq> live_objects t" using live2 sub by auto
      ultimately show ?thesis unfolding step close_progress_def
        using C(1,7) lim act2 obj2 by simp
    qed
  qed
qed

lemma close_all_progress:
  assumes "handle_inv t" "\<And>j c. j \<in> live_objects t \<Longrightarrow>
      fst (f (object_type (table_objects t ! j)) (object_resource (table_objects t ! j)) c)"
    "k \<le> table_limit t"
  shows "close_progress f t c k (fold (close_all_step (Some f)) [0..<k] (False, c, t))"
  using assms(3)
proof (induction k)
  case 0
  have "objects_destroyed f t [] c = c" by (simp add: objects_destroyed_def)
  then show ?case using assms(1) by (auto simp: close_progress_def intro!: exI [of _ "[]"])
next
  case (Suc k)
  then show ?case using close_all_step_progress [where f = f and t = t, OF assms(2), of k c] by simp
qed

lemma no_active_slots:
  assumes "handle_inv t" "active_slots t = {}"
  shows "live_objects t = {}" "active_handles t = 0" "active_objects t = 0" "live_handles t = {}"
proof -
  have "slots_of t j = {}" for j using assms(2) by (simp add: slots_of_def)
  then show lo: "live_objects t = {}" using assms(1) by (auto simp: handle_inv_def objects_ok_def live_objects_def)
  show "active_handles t = 0" "active_objects t = 0" "live_handles t = {}"
    using assms lo by (simp_all add: handle_inv_def live_handles_def)
qed

section \<open>The token contract for handles\<close>

definition handle_issue :: "8 word \<times> native_resource \<Rightarrow> native_handle_table \<Rightarrow>
    64 word option \<times> native_handle_table" where
  "handle_issue a t = (case native_handle_install (fst a) (Some (snd a)) False (Some t) of
     (NATIVE_HANDLE_OK, h, Some t') \<Rightarrow> (Some h, t')
   | _ \<Rightarrow> (None, t))"

definition handle_retire :: "64 word \<Rightarrow> native_handle_table \<Rightarrow> bool \<times> native_handle_table" where
  "handle_retire h t = (case native_handle_close h None () (Some t) of
     (NATIVE_HANDLE_OK, _, Some t') \<Rightarrow> (True, t')
   | _ \<Rightarrow> (False, t))"

lemma handle_retire_live:
  assumes "handle_inv t" "i \<in> active_slots t"
  shows "handle_retire (slot_handle t i) t = (True, close_slot i t)"
  using native_handle_close_live(1) [OF assms refl, of None "()"]
    native_handle_close_live(2) [OF assms refl, of "()"]
  by (cases "slots_of t (slot_object_index (table_slots t ! i)) = {i}") (simp_all add: handle_retire_def)

interpretation handles: token_table handle_inv live_handles "\<lambda>a. valid_type (fst a)" handle_issue handle_retire
proof unfold_locales
  fix t t' :: native_handle_table and a :: "8 word \<times> native_resource" and h :: "64 word"
  assume inv: "handle_inv t"
  show "t' = t" if "handle_issue a t = (None, t')"
    using that by (auto simp: handle_issue_def split: prod.splits native_handle_status.splits option.splits)
  show "h \<notin> live_handles t \<and> live_handles t' = insert h (live_handles t) \<and> handle_inv t'"
    if ty: "valid_type (fst a)" and run: "handle_issue a t = (Some h, t')"
  proof (cases "card (active_slots t) = table_limit t \<or> card (live_objects t) = table_limit t")
    case True
    then show ?thesis using native_handle_install_full [OF inv ty] run by (simp add: handle_issue_def)
  next
    case False
    then have room: "card (active_slots t) < table_limit t" "card (live_objects t) < table_limit t"
      using table_card_le [of t] by linarith+
    show ?thesis
      by (rule native_handle_install_ok [OF inv ty room, of "snd a"]) (use run in \<open>simp add: handle_issue_def\<close>)
  qed
  show "\<exists>t'. handle_retire h t = (True, t') \<and> live_handles t' = live_handles t - {h} \<and> handle_inv t'"
    if live: "h \<in> live_handles t"
  proof -
    obtain i where i: "i \<in> active_slots t" "h = slot_handle t i" using live by (auto simp: live_handles_def)
    with handle_retire_live [OF inv i(1)] close_slot_inv(1,2) [OF inv i(1) refl refl] show ?thesis by simp
  qed
  show "handle_retire h t = (False, t)" if "h \<notin> live_handles t"
    using native_handle_close_dead [OF that, of None "()"] by (simp add: handle_retire_def)
qed

section \<open>Everything in terms of the map\<close>

lemma handle_view_Some_iff:
  assumes "handle_inv t"
  shows "handle_view t h = Some (ty, j, r) \<longleftrightarrow> (\<exists>i \<in> active_slots t. h = slot_handle t i \<and>
    ty = slot_type (table_slots t ! i) \<and> j = slot_object_index (table_slots t ! i) \<and>
    r = object_resource (table_objects t ! j))"
proof -
  have shape: "table_shape t" "slots_ok t" using assms by (simp_all add: handle_inv_def)
  show ?thesis
  proof
    assume v: "handle_view t h = Some (ty, j, r)"
    then have "h \<in> live_handles t" using handle_view_dead [of h t] by (metis option.distinct(1))
    then obtain i where "i \<in> active_slots t" "h = slot_handle t i" by (auto simp: live_handles_def)
    with v handle_view_live [OF shape this(1)]
    show "\<exists>i \<in> active_slots t. h = slot_handle t i \<and> ty = slot_type (table_slots t ! i) \<and>
        j = slot_object_index (table_slots t ! i) \<and> r = object_resource (table_objects t ! j)"
      by (intro bexI [of _ i]) auto
  qed (use handle_view_live [OF shape] in auto)
qed

definition view_objects :: "(64 word \<Rightarrow> (8 word \<times> nat \<times> native_resource) option) \<Rightarrow> nat set" where
  "view_objects v = {j. \<exists>h ty r. v h = Some (ty, j, r)}"

lemma handle_counts:
  assumes inv: "handle_inv t"
  shows "live_objects t = view_objects (handle_view t)"
    and "active_handles t = card (dom (handle_view t))"
    and "active_objects t = card (view_objects (handle_view t))"
proof -
  have sh: "table_shape t" "slots_ok t" "objects_ok t" using inv by (simp_all add: handle_inv_def)
  show lo: "live_objects t = view_objects (handle_view t)"
  proof (intro set_eqI iffI)
    fix j assume "j \<in> live_objects t"
    then obtain i where "i \<in> slots_of t j" using sh(3) by (auto simp: objects_ok_def live_objects_def)
    then show "j \<in> view_objects (handle_view t)"
      unfolding view_objects_def handle_view_Some_iff [OF inv] by (auto simp: slots_of_def)
  next
    fix j assume "j \<in> view_objects (handle_view t)"
    then show "j \<in> live_objects t"
      using sh(2) unfolding view_objects_def handle_view_Some_iff [OF inv] by (auto simp: slots_ok_def)
  qed
  have "inj_on (slot_handle t) (active_slots t)"
    using slot_handle_inj [OF sh(1) sh(1)] by (auto simp: inj_on_def active_slots_def)
  then have "card (live_handles t) = card (active_slots t)" by (simp add: live_handles_def card_image)
  then show "active_handles t = card (dom (handle_view t))"
    using inv handle_view_dom [OF sh(1,2)] by (simp add: handle_inv_def)
  show "active_objects t = card (view_objects (handle_view t))"
    using inv lo by (simp add: handle_inv_def)
qed

lemma live_object_view:
  assumes inv: "handle_inv t" and j: "j \<in> live_objects t"
  shows "\<exists>h. handle_view t h =
    Some (object_type (table_objects t ! j), j, object_resource (table_objects t ! j))"
proof -
  have sh: "slots_ok t" "objects_ok t" using inv by (simp_all add: handle_inv_def)
  obtain i where "i \<in> slots_of t j" using sh(2) j by (auto simp: objects_ok_def live_objects_def)
  then have i: "i \<in> active_slots t" "slot_object_index (table_slots t ! i) = j" by (auto simp: slots_of_def)
  then have "object_type (table_objects t ! j) = slot_type (table_slots t ! i)"
    using sh(1) by (auto simp: slots_ok_def)
  with i show ?thesis unfolding handle_view_Some_iff [OF inv] by auto
qed

lemma slots_of_shared_iff:
  assumes inv: "handle_inv t" and i: "i \<in> active_slots t" "j = slot_object_index (table_slots t ! i)"
  shows "slots_of t j = {i} \<longleftrightarrow>
    \<not> (\<exists>h ty r. h \<noteq> slot_handle t i \<and> handle_view t h = Some (ty, j, r))"
proof -
  have sh: "table_shape t" using inv by (simp add: handle_inv_def)
  have inj: "slot_handle t k = slot_handle t i \<longleftrightarrow> k = i" if "k \<in> active_slots t" for k
    using that i(1) slot_handle_inj [OF sh sh, of k i] by (auto simp: active_slots_def)
  have "(\<exists>h ty r. h \<noteq> slot_handle t i \<and> handle_view t h = Some (ty, j, r)) \<longleftrightarrow>
      (\<exists>k \<in> active_slots t. slot_handle t k \<noteq> slot_handle t i \<and> slot_object_index (table_slots t ! k) = j)"
    unfolding handle_view_Some_iff [OF inv] by auto
  also have "\<dots> \<longleftrightarrow> (\<exists>k \<in> active_slots t. k \<noteq> i \<and> slot_object_index (table_slots t ! k) = j)"
    using inj by blast
  also have "\<dots> \<longleftrightarrow> slots_of t j \<noteq> {i}"
    using i unfolding slots_of_def by blast
  finally show ?thesis by blast
qed

lemma native_handle_close_view:
  assumes inv: "handle_inv t" and v: "handle_view t h = Some (ty, j, r)"
    and cb: "(if (\<exists>h' ty' r'. h' \<noteq> h \<and> handle_view t h' = Some (ty', j, r')) then (True, c)
       else case f of None \<Rightarrow> (True, c) | Some g \<Rightarrow> g ty r c) = (ok, c')"
  shows "ok \<Longrightarrow> \<exists>t'. native_handle_close h f c (Some t) = (NATIVE_HANDLE_OK, c', Some t') \<and> handle_inv t' \<and>
      handle_view t' = (handle_view t)(h := None)"
    and "\<not> ok \<Longrightarrow> native_handle_close h f c (Some t) = (NATIVE_HANDLE_CLOSE_FAILED, c', Some t)"
proof -
  obtain i where i: "i \<in> active_slots t" "h = slot_handle t i" "ty = slot_type (table_slots t ! i)"
    "j = slot_object_index (table_slots t ! i)" "r = object_resource (table_objects t ! j)"
    using v unfolding handle_view_Some_iff [OF inv] by blast
  note C = close_slot_inv(1,3) [OF inv i(1) i(4) refl]
  define shared where "shared \<longleftrightarrow> (\<exists>h' ty' r'. h' \<noteq> h \<and> handle_view t h' = Some (ty', j, r'))"
  have one: "slots_of t j = {i} \<longleftrightarrow> \<not> shared"
    using slots_of_shared_iff [OF inv i(1) i(4)] i(2) by (simp add: shared_def)
  note cb = cb [folded shared_def]
  have run: "native_handle_close h f c (Some t) =
      (if ok then (NATIVE_HANDLE_OK, c', Some (close_slot i t)) else (NATIVE_HANDLE_CLOSE_FAILED, c', Some t))"
  proof (cases "slots_of t j = {i}")
    case False
    then show ?thesis using cb one native_handle_close_live(1) [OF inv i(1,4), of f c] i(2) by auto
  next
    case True
    then have "(case f of None \<Rightarrow> (True, c) | Some g \<Rightarrow> g ty r c) = (ok, c')" using cb one by auto
    then show ?thesis
      using native_handle_close_live(2) [OF inv i(1,4) True, of c]
        native_handle_close_live(3) [where g = "the f" and c = c, OF inv i(1,4) True, of ok c'] i
      by (cases f) auto
  qed
  show "ok \<Longrightarrow> \<exists>t'. native_handle_close h f c (Some t) = (NATIVE_HANDLE_OK, c', Some t') \<and> handle_inv t' \<and>
      handle_view t' = (handle_view t)(h := None)" using run C i(2) by simp
  show "\<not> ok \<Longrightarrow> native_handle_close h f c (Some t) = (NATIVE_HANDLE_CLOSE_FAILED, c', Some t)"
    using run by simp
qed

lemma native_handle_close_all_view:
  assumes inv: "handle_inv t" and agree: "\<And>j c. j \<in> live_objects t \<Longrightarrow>
      fst (f (object_type (table_objects t ! j)) (object_resource (table_objects t ! j)) c)"
  shows "\<exists>js t'. native_handle_close_all (Some f) c (Some t) =
      (NATIVE_HANDLE_OK, objects_destroyed f t js c, Some t') \<and>
    distinct js \<and> set js = live_objects t \<and> handle_inv t' \<and> handle_view t' = Map.empty"
proof -
  obtain failed c' t' where fold: "fold (close_all_step (Some f)) [0..<table_limit t] (False, c, t) = (failed, c', t')"
    using prod_cases3 by blast
  have "close_progress f t c (table_limit t) (failed, c', t')"
    using close_all_progress [where c = c and f = f, OF inv agree order_refl] fold by simp
  then obtain js where js: "\<not> failed" "handle_inv t'" "active_slots t' = active_slots t - {..<table_limit t}"
    "distinct js" "set js = live_objects t - live_objects t'" "c' = objects_destroyed f t js c"
    by (auto simp: close_progress_def)
  have none: "active_slots t' = {}" using js(3) by (auto simp: active_slots_def)
  note E = no_active_slots [OF js(2) none]
  have "handle_view t' = Map.empty" using E(4) handle_view_dead [of _ t'] by auto
  moreover have "native_handle_close_all (Some f) c (Some t) = (NATIVE_HANDLE_OK, c', Some t')"
    using inv js(1) fold by (simp add: native_handle_close_all_def handle_inv_def table_shape_def)
  ultimately show ?thesis using js E(1) by (intro exI [of _ js] exI [of _ t']) simp
qed

section \<open>The self-test\<close>

definition test_close :: "nat close_fn" where
  "test_close type resource closed =
     (if type \<noteq> SAPOTE_HANDLE_FILE \<or> resource_words resource ! 0 \<noteq> 0x5341504F5445 then (False, closed)
      else (True, closed + 1))"

definition test_resource :: native_resource where
  "test_resource = \<lparr>resource_words = [0x5341504F5445, 0, 0, 0]\<rparr>"

definition resolved_word :: "native_handle_table option \<Rightarrow> nat option \<Rightarrow> 64 word" where
  "resolved_word table resolved = resource_words (object_resource (table_objects (the table) ! the resolved)) ! 0"

text \<open>The four stages, each counted when it passes.\<close>

definition native_handle_self_test :: "native_handle_table \<Rightarrow> bool \<times> nat" where
  "native_handle_self_test static_table =
     (case native_handle_table_initialize (Some static_table) 2 of (st0, t0) \<Rightarrow>
      case native_handle_install SAPOTE_HANDLE_FILE (Some test_resource) False t0 of (st1, first, t1) \<Rightarrow>
      case native_handle_resolve t1 first SAPOTE_HANDLE_FILE False of (st2, resolved) \<Rightarrow>
      if st0 \<noteq> NATIVE_HANDLE_OK \<or> st1 \<noteq> NATIVE_HANDLE_OK \<or> st2 \<noteq> NATIVE_HANDLE_OK \<or>
         resolved_word t1 resolved \<noteq> resource_words test_resource ! 0 then (False, 0)
      else
      case native_handle_resolve t1 first SAPOTE_HANDLE_TIMER False of (st3, _) \<Rightarrow>
      case native_handle_duplicate first False t1 of (st4, duplicate, t2) \<Rightarrow>
      if st3 \<noteq> NATIVE_HANDLE_WRONG_TYPE \<or> st4 \<noteq> NATIVE_HANDLE_OK \<or> first = duplicate \<or>
         active_handles (the t2) \<noteq> 2 \<or> active_objects (the t2) \<noteq> 1 then (False, 1)
      else
      case native_handle_close first (Some test_close) 0 t2 of (st5, closed, t3) \<Rightarrow>
      case native_handle_resolve t3 first SAPOTE_HANDLE_FILE False of (st6, _) \<Rightarrow>
      case native_handle_close first (Some test_close) closed t3 of (st7, closed', t4) \<Rightarrow>
      if st5 \<noteq> NATIVE_HANDLE_OK \<or> closed \<noteq> 0 \<or> st6 \<noteq> NATIVE_HANDLE_STALE \<or>
         st7 \<noteq> NATIVE_HANDLE_STALE then (False, 2)
      else
      case native_handle_close_all (Some test_close) closed' t4 of (st8, closed'', t5) \<Rightarrow>
      case native_handle_resolve t5 duplicate SAPOTE_HANDLE_FILE False of (st9, _) \<Rightarrow>
      if st8 \<noteq> NATIVE_HANDLE_OK \<or> closed'' \<noteq> 1 \<or> active_handles (the t5) \<noteq> 0 \<or>
         active_objects (the t5) \<noteq> 0 \<or> st9 \<noteq> NATIVE_HANDLE_STALE then (False, 3)
      else (True, 4))"

definition blank_table :: native_handle_table where
  "blank_table = \<lparr>table_slots = replicate NATIVE_HANDLE_LIMIT zero_slot,
     table_objects = replicate NATIVE_HANDLE_LIMIT zero_object, table_limit = 0,
     active_handles = 0, active_objects = 0, table_initialized = False\<rparr>"


section \<open>Properties\<close>

text \<open>
  C13. Installing a resource: refused as full exactly when the table has no free slot or
  no free object; otherwise the new handle was not honoured before, is honoured now with
  the given type and a private copy of the resource in an object no other handle uses,
  and no other handle changes its meaning.
\<close>

theorem native_handle_install_correct:
  assumes "handle_inv t" and "valid_type ty"
  shows "if active_handles t = table_limit t \<or> active_objects t = table_limit t
    then native_handle_install ty (Some r) False (Some t) = (NATIVE_HANDLE_FULL, SAPOTE_HANDLE_INVALID, Some t)
    else \<exists>h j t'. native_handle_install ty (Some r) False (Some t) = (NATIVE_HANDLE_OK, h, Some t') \<and>
      handle_view t h = None \<and> j \<notin> view_objects (handle_view t) \<and>
      handle_view t' = (handle_view t)(h \<mapsto> (ty, j, r)) \<and> handle_inv t'"
proof -
  have cnt: "active_handles t = card (active_slots t)" "active_objects t = card (live_objects t)"
    using assms(1) by (simp_all add: handle_inv_def)
  show ?thesis
  proof (cases "active_handles t = table_limit t \<or> active_objects t = table_limit t")
    case True
    then show ?thesis using native_handle_install_full [OF assms, of r] cnt by simp
  next
    case False
    then have room: "card (active_slots t) < table_limit t" "card (live_objects t) < table_limit t"
      using table_card_le [of t] cnt by linarith+
    obtain h j t' where "native_handle_install ty (Some r) False (Some t) = (NATIVE_HANDLE_OK, h, Some t')"
      "handle_inv t'" "h \<notin> live_handles t"
      "handle_view t' = (handle_view t)(h \<mapsto> (ty, j, r))" "j \<notin> live_objects t"
      by (rule native_handle_install_ok [OF assms room, of r])
    then show ?thesis using False handle_view_dead [of h t] handle_counts(1) [OF assms(1)] by auto
  qed
qed

definition sample_table :: native_handle_table where
  "sample_table = the (snd (native_handle_table_initialize (Some blank_table) 2))"

lemma sample_table_inv: "handle_inv sample_table" "handle_view sample_table = Map.empty"
  "table_limit sample_table = 2" "active_handles sample_table = 0" "active_objects sample_table = 0"
proof -
  obtain t' where t': "native_handle_table_initialize (Some blank_table) 2 = (NATIVE_HANDLE_OK, Some t')"
    "handle_inv t'" "live_handles t' = {}" "table_limit t' = 2"
    by (rule native_handle_table_initialize_inv [of 2 blank_table]) (simp_all add: NATIVE_HANDLE_LIMIT_def)
  have eq: "t' = sample_table" using t'(1) by (simp add: sample_table_def)
  have empty: "handle_view t' = Map.empty" using t'(3) handle_view_dead [of _ t'] by auto
  show "handle_inv sample_table" "handle_view sample_table = Map.empty" "table_limit sample_table = 2"
    using t' empty by (simp_all flip: eq)
  show "active_handles sample_table = 0" "active_objects sample_table = 0"
    using handle_counts(2,3) [OF t'(2)] empty by (simp_all add: view_objects_def flip: eq)
qed

lemma valid_file: "valid_type SAPOTE_HANDLE_FILE"
  by (simp add: valid_type_def SAPOTE_HANDLE_FILE_def SAPOTE_HANDLE_THREAD_def)

theorem native_handle_install_correct_witness:
  "\<exists>h j t'. native_handle_install SAPOTE_HANDLE_FILE (Some test_resource) False (Some sample_table) =
     (NATIVE_HANDLE_OK, h, Some t') \<and> handle_view t' = [h \<mapsto> (SAPOTE_HANDLE_FILE, j, test_resource)]"
  using native_handle_install_correct [OF sample_table_inv(1) valid_file, of test_resource] sample_table_inv
  by auto

lemma native_handle_install_limit:
  "native_handle_install ty r null (Some t) = (st, h, Some t') \<Longrightarrow> table_limit t' = table_limit t"
  by (auto simp: native_handle_install_def Let_def split: option.splits if_splits)

lemma sample_installed:
  obtains h j t where "handle_inv t" "handle_view t = [h \<mapsto> (SAPOTE_HANDLE_FILE, j, test_resource)]"
    "table_limit t = 2" "active_handles t = 1"
proof -
  have room: "card (active_slots sample_table) < table_limit sample_table"
    "card (live_objects sample_table) < table_limit sample_table"
    using sample_table_inv by (simp_all add: handle_inv_def)
  obtain h j t where t: "native_handle_install SAPOTE_HANDLE_FILE (Some test_resource) False (Some sample_table)
      = (NATIVE_HANDLE_OK, h, Some t)" "handle_inv t"
    "handle_view t = (handle_view sample_table)(h \<mapsto> (SAPOTE_HANDLE_FILE, j, test_resource))"
    by (rule native_handle_install_ok [OF sample_table_inv(1) valid_file room, of test_resource])
  show thesis
    using t native_handle_install_limit [OF t(1)] sample_table_inv handle_counts(2) [OF t(2)]
    by (intro that [of t h j]) simp_all
qed

text \<open>
  Duplicating an honoured handle: refused as full exactly when every slot is in use;
  otherwise the duplicate is a new handle for the same object and resource, and nothing
  else changes.
\<close>

theorem native_handle_duplicate_correct:
  assumes "handle_inv t" and "handle_view t h = Some v"
  shows "if active_handles t = table_limit t
    then native_handle_duplicate h False (Some t) = (NATIVE_HANDLE_FULL, SAPOTE_HANDLE_INVALID, Some t)
    else \<exists>h' t'. native_handle_duplicate h False (Some t) = (NATIVE_HANDLE_OK, h', Some t') \<and>
      handle_view t h' = None \<and> handle_view t' = (handle_view t)(h' \<mapsto> v) \<and> handle_inv t'"
proof -
  have live: "h \<in> live_handles t" using assms(2) handle_view_dead [of h t] by (metis option.distinct(1))
  have cnt: "active_handles t = card (active_slots t)" using assms(1) by (simp add: handle_inv_def)
  show ?thesis
  proof (cases "active_handles t = table_limit t")
    case True
    then show ?thesis using native_handle_duplicate_live(1) [OF assms(1) live] cnt by simp
  next
    case False
    then have "card (active_slots t) < table_limit t" using table_card_le(1) [of t] cnt by linarith
    from native_handle_duplicate_live(2) [OF assms(1) live this] obtain h' t' where
      "native_handle_duplicate h False (Some t) = (NATIVE_HANDLE_OK, h', Some t')" "handle_inv t'"
      "h' \<notin> live_handles t" "handle_view t' = (handle_view t)(h' := handle_view t h)" by blast
    with False assms(2) handle_view_dead [of h' t] show ?thesis by simp
  qed
qed

theorem native_handle_duplicate_correct_witness:
  "\<exists>t h h' t' v. native_handle_duplicate h False (Some t) = (NATIVE_HANDLE_OK, h', Some t') \<and>
     h' \<noteq> h \<and> handle_view t' h = Some v \<and> handle_view t' h' = Some v"
proof -
  obtain h j t where t: "handle_inv t" "handle_view t = [h \<mapsto> (SAPOTE_HANDLE_FILE, j, test_resource)]"
    "table_limit t = 2" "active_handles t = 1" by (rule sample_installed)
  then have "handle_view t h = Some (SAPOTE_HANDLE_FILE, j, test_resource)" by simp
  from native_handle_duplicate_correct [OF t(1) this] t obtain h' t' where
    "native_handle_duplicate h False (Some t) = (NATIVE_HANDLE_OK, h', Some t')" "h' \<noteq> h"
    "handle_view t' = (handle_view t)(h' \<mapsto> (SAPOTE_HANDLE_FILE, j, test_resource))"
    by (auto split: if_splits)
  then show ?thesis using t(2)
    by (intro exI [of _ t] exI [of _ h] exI [of _ h'] exI [of _ t'] exI [of _ "(SAPOTE_HANDLE_FILE, j, test_resource)"]) simp
qed

text \<open>
  C15. Closing an honoured handle: the close callback runs exactly when no other handle
  names the object, on that object's type and resource; if it refuses, the table is
  unchanged and the failure is reported; otherwise exactly this handle stops being
  honoured.
\<close>

theorem native_handle_close_correct:
  assumes "handle_inv t" and "handle_view t h = Some (ty, j, r)"
    and "(if \<exists>h' ty' r'. h' \<noteq> h \<and> handle_view t h' = Some (ty', j, r') then (True, c) else f ty r c) = (ok, c')"
  shows "if ok then \<exists>t'. native_handle_close h (Some f) c (Some t) = (NATIVE_HANDLE_OK, c', Some t') \<and>
      handle_view t' = (handle_view t)(h := None) \<and> handle_inv t'
    else native_handle_close h (Some f) c (Some t) = (NATIVE_HANDLE_CLOSE_FAILED, c', Some t)"
proof -
  have cb: "(if (\<exists>h' ty' r'. h' \<noteq> h \<and> handle_view t h' = Some (ty', j, r')) then (True, c)
       else case Some f of None \<Rightarrow> (True, c) | Some g \<Rightarrow> g ty r c) = (ok, c')"
    using assms(3) by (simp only: option.case)
  show ?thesis
    using native_handle_close_view(1) [OF assms(1,2) cb] native_handle_close_view(2) [OF assms(1,2) cb]
    by (cases ok) auto
qed

theorem native_handle_close_correct_witness:
  "\<exists>t h t'. native_handle_close h (Some test_close) 0 (Some t) = (NATIVE_HANDLE_OK, 1, Some t') \<and>
     handle_view t h \<noteq> None \<and> handle_view t' = Map.empty"
proof -
  obtain h j t where t: "handle_inv t" "handle_view t = [h \<mapsto> (SAPOTE_HANDLE_FILE, j, test_resource)]"
    by (rule sample_installed)
  have v: "handle_view t h = Some (SAPOTE_HANDLE_FILE, j, test_resource)" using t(2) by simp
  have "(if \<exists>h' ty' r'. h' \<noteq> h \<and> handle_view t h' = Some (ty', j, r') then (True, 0)
      else test_close SAPOTE_HANDLE_FILE test_resource 0) = (True, 1)"
    by (simp add: t(2) test_close_def test_resource_def)
  from native_handle_close_correct [where f = test_close and c = 0, OF t(1) v this]
  obtain t' where "native_handle_close h (Some test_close) 0 (Some t) = (NATIVE_HANDLE_OK, 1, Some t')"
    "handle_view t' = (handle_view t)(h := None)" by auto
  with v t(2) show ?thesis by (intro exI [of _ t] exI [of _ h] exI [of _ t']) simp
qed

text \<open>
  Closing all handles, with a callback that refuses none of the resources: the table ends empty and
  the callback has run exactly once for every object that was alive, however many handles
  named it.
\<close>

theorem native_handle_close_all_correct:
  assumes "handle_inv t" and "\<And>h ty j r c. handle_view t h = Some (ty, j, r) \<Longrightarrow> fst (f ty r c)"
  shows "\<exists>js t'. native_handle_close_all (Some f) c (Some t) =
      (NATIVE_HANDLE_OK, objects_destroyed f t js c, Some t') \<and>
    distinct js \<and> set js = view_objects (handle_view t) \<and>
    handle_view t' = Map.empty \<and> active_handles t' = 0 \<and> active_objects t' = 0 \<and> handle_inv t'"
proof -
  have "fst (f (object_type (table_objects t ! j)) (object_resource (table_objects t ! j)) c)"
    if "j \<in> live_objects t" for j c
    using live_object_view [OF assms(1) that] assms(2) by blast
  then obtain js t' where "native_handle_close_all (Some f) c (Some t) =
      (NATIVE_HANDLE_OK, objects_destroyed f t js c, Some t')"
    "distinct js" "set js = live_objects t" "handle_inv t'" "handle_view t' = Map.empty"
    using native_handle_close_all_view [where f = f and c = c, OF assms(1)] by blast
  then show ?thesis
    using handle_counts(1) [OF assms(1)] handle_counts(2,3) [of t'] by (auto simp: view_objects_def)
qed

theorem native_handle_close_all_correct_witness:
  "\<exists>t js t'. native_handle_close_all (Some (\<lambda>ty r n. (True, n + 1))) (0::nat) (Some t) =
     (NATIVE_HANDLE_OK, objects_destroyed (\<lambda>ty r n. (True, n + 1)) t js 0, Some t') \<and> length js = 1"
proof -
  obtain h j t where t: "handle_inv t" "handle_view t = [h \<mapsto> (SAPOTE_HANDLE_FILE, j, test_resource)]"
    by (rule sample_installed)
  have "view_objects (handle_view t) = {j}" using t(2) by (auto simp: view_objects_def split: if_splits)
  with native_handle_close_all_correct [where f = "\<lambda>ty r n. (True, n + 1)" and c = "0::nat", OF t(1)]
  obtain js t' where js: "native_handle_close_all (Some (\<lambda>ty r n. (True, n + 1))) (0::nat) (Some t) =
     (NATIVE_HANDLE_OK, objects_destroyed (\<lambda>ty r n. (True, n + 1)) t js 0, Some t')"
    "distinct js" "set js = {j}" by auto
  then have "length js = 1" using distinct_card [OF js(2)] by simp
  with js(1) show ?thesis by blast
qed

text \<open>
  Unforgeability: a 64-bit value that is not one of the honoured handles is refused as
  stale by every operation, and a refusal changes nothing.
\<close>

theorem native_handle_unforgeable:
  assumes "handle_inv t" and "handle_view t h = None"
  shows "native_handle_resolve (Some t) h expected False = (NATIVE_HANDLE_STALE, None) \<and>
    native_handle_duplicate h False (Some t) = (NATIVE_HANDLE_STALE, SAPOTE_HANDLE_INVALID, Some t) \<and>
    native_handle_close h f c (Some t) = (NATIVE_HANDLE_STALE, c, Some t)"
proof -
  have dead: "h \<notin> live_handles t"
    using assms handle_view_dom [of t] by (metis domIff handle_inv_def)
  show ?thesis
    by (intro conjI native_handle_resolve_dead [OF assms(2,1)] native_handle_duplicate_dead [OF dead]
        native_handle_close_dead [OF dead])
qed

theorem native_handle_unforgeable_witness:
  "native_handle_resolve (Some sample_table) 0x100010001 1 False = (NATIVE_HANDLE_STALE, None)"
  using native_handle_unforgeable [OF sample_table_inv(1), of "0x100010001" 1 None "()"] sample_table_inv(2) by simp

text \<open>
  Resolving an honoured handle yields its object with the resource that was
  installed, and a type mismatch is reported as such.
\<close>

theorem native_handle_resolve_correct:
  assumes "handle_inv t" and "handle_view t h = Some (ty, j, r)"
  shows "native_handle_resolve (Some t) h expected False =
      (if expected \<noteq> 0 \<and> ty \<noteq> expected then (NATIVE_HANDLE_WRONG_TYPE, None) else (NATIVE_HANDLE_OK, Some j)) \<and>
    object_resource (table_objects t ! j) = r"
  using native_handle_resolve_live [OF assms] by blast

theorem native_handle_resolve_correct_witness:
  "\<exists>t h j. native_handle_resolve (Some t) h SAPOTE_HANDLE_TIMER False = (NATIVE_HANDLE_WRONG_TYPE, None) \<and>
     native_handle_resolve (Some t) h SAPOTE_HANDLE_FILE False = (NATIVE_HANDLE_OK, Some j) \<and>
     object_resource (table_objects t ! j) = test_resource"
proof -
  obtain h j t where t: "handle_inv t" "handle_view t = [h \<mapsto> (SAPOTE_HANDLE_FILE, j, test_resource)]"
    by (rule sample_installed)
  then have "handle_view t h = Some (SAPOTE_HANDLE_FILE, j, test_resource)" by simp
  from native_handle_resolve_correct [OF t(1) this, of SAPOTE_HANDLE_TIMER]
    native_handle_resolve_correct [OF t(1) this, of SAPOTE_HANDLE_FILE]
  show ?thesis by (auto simp: SAPOTE_HANDLE_FILE_def SAPOTE_HANDLE_TIMER_def)
qed

text \<open>
  The kernel's handle self-test succeeds in all four of its stages, whatever the
  static table holds beforehand.
\<close>

theorem native_handle_self_test_passes: "native_handle_self_test static_table = (True, 4)"
proof -
  let ?F = SAPOTE_HANDLE_FILE and ?r = test_resource
  have types: "?F \<noteq> 0" "SAPOTE_HANDLE_TIMER \<noteq> 0" "?F \<noteq> SAPOTE_HANDLE_TIMER"
    by (simp_all add: SAPOTE_HANDLE_FILE_def SAPOTE_HANDLE_TIMER_def)
  obtain t0 where t0: "native_handle_table_initialize (Some static_table) 2 = (NATIVE_HANDLE_OK, Some t0)"
    "handle_inv t0" "live_handles t0 = {}" "table_limit t0 = 2"
    by (rule native_handle_table_initialize_inv [of 2 static_table]) (simp_all add: NATIVE_HANDLE_LIMIT_def)
  have v0: "handle_view t0 = Map.empty" using t0(3) handle_view_dead [of _ t0] by auto
  have room: "card (active_slots t0) < table_limit t0" "card (live_objects t0) < table_limit t0"
    using handle_counts [OF t0(2)] t0(2,4) v0 by (simp_all add: handle_inv_def view_objects_def)
  obtain first j t1 where t1: "native_handle_install ?F (Some ?r) False (Some t0) = (NATIVE_HANDLE_OK, first, Some t1)"
    "handle_inv t1" "handle_view t1 = (handle_view t0)(first \<mapsto> (?F, j, ?r))"
    by (rule native_handle_install_ok [OF t0(2) valid_file room, of ?r])
  have v1: "handle_view t1 first = Some (?F, j, ?r)" using t1(3) by simp
  note r1 = native_handle_resolve_live [OF t1(2) v1]
  have word: "resolved_word (Some t1) (Some j) = resource_words ?r ! 0"
    using r1(2) by (simp add: resolved_word_def)
  have lim1: "table_limit t1 = 2" using native_handle_install_limit [OF t1(1)] t0(4) by simp
  have "active_handles t1 = 1" using handle_counts(2) [OF t1(2)] t1(3) v0 by simp
  then have "card (active_slots t1) < table_limit t1" using lim1 t1(2) by (simp add: handle_inv_def)
  moreover have "first \<in> live_handles t1" using v1 handle_view_dead [of first t1] by fastforce
  ultimately obtain dup t2 where t2: "native_handle_duplicate first False (Some t1) = (NATIVE_HANDLE_OK, dup, Some t2)"
    "handle_inv t2" "dup \<notin> live_handles t1" "handle_view t2 = (handle_view t1)(dup := handle_view t1 first)"
    using native_handle_duplicate_live(2) [OF t1(2)] by blast
  have ne: "first \<noteq> dup" using t2(3) \<open>first \<in> live_handles t1\<close> by auto
  have v2: "handle_view t2 = [first \<mapsto> (?F, j, ?r), dup \<mapsto> (?F, j, ?r)]" using t2(4) t1(3) v0 v1 by simp
  have "dom (handle_view t2) = {first, dup}" "view_objects (handle_view t2) = {j}"
    unfolding v2 view_objects_def using ne by (auto split: if_splits)
  then have c2: "active_handles t2 = 2" "active_objects t2 = 1"
    using handle_counts(2,3) [OF t2(2)] ne by simp_all
  have shared: "(if \<exists>h' ty' r'. h' \<noteq> first \<and> handle_view t2 h' = Some (ty', j, r') then (True, 0)
      else case Some test_close of None \<Rightarrow> (True, 0) | Some g \<Rightarrow> g ?F ?r 0) = (True, 0)"
  proof -
    have "\<exists>h' ty' r'. h' \<noteq> first \<and> handle_view t2 h' = Some (ty', j, r')"
      by (rule exI [of _ dup]) (use ne in \<open>simp add: v2\<close>)
    then show ?thesis by simp
  qed
  have f2: "handle_view t2 first = Some (?F, j, ?r)" using ne by (simp add: v2)
  obtain t3 where t3: "native_handle_close first (Some test_close) 0 (Some t2) = (NATIVE_HANDLE_OK, 0, Some t3)"
    "handle_inv t3" "handle_view t3 = (handle_view t2)(first := None)"
    using native_handle_close_view(1) [OF t2(2) f2 shared] by blast
  have v3: "handle_view t3 = [dup \<mapsto> (?F, j, ?r)]" using t3(3) v2 ne by auto
  have n3: "handle_view t3 first = None" using v3 ne by simp
  then have "first \<notin> live_handles t3" using handle_view_dom [of t3] t3(2) by (metis domIff handle_inv_def)
  note dead = native_handle_resolve_dead [OF n3 t3(2), of ?F] native_handle_close_dead [OF this, of "Some test_close" 0]
  have live3: "live_objects t3 = {j}"
    using handle_counts(1) [OF t3(2)] v3 by (auto simp: view_objects_def split: if_splits)
  have ob3: "object_type (table_objects t3 ! j) = ?F" "object_resource (table_objects t3 ! j) = ?r"
    using live_object_view [OF t3(2), of j] live3 v3 by (auto split: if_splits)
  have agree: "fst (test_close (object_type (table_objects t3 ! k)) (object_resource (table_objects t3 ! k)) c)"
    if "k \<in> live_objects t3" for k c
    using that live3 ob3 by (simp add: test_close_def test_resource_def)
  obtain js t5 where t5: "native_handle_close_all (Some test_close) 0 (Some t3) =
      (NATIVE_HANDLE_OK, objects_destroyed test_close t3 js 0, Some t5)"
    "distinct js" "set js = live_objects t3" "handle_inv t5" "handle_view t5 = Map.empty"
    using native_handle_close_all_view [where f = test_close and c = 0, OF t3(2) agree] by blast
  have "length js = 1" using distinct_card [OF t5(2)] t5(3) live3 by simp
  then have "js = [j]" using t5(3) live3 by (cases js) auto
  then have closed: "objects_destroyed test_close t3 js 0 = 1"
    using ob3 by (simp add: objects_destroyed_def test_close_def test_resource_def)
  have c5: "active_handles t5 = 0" "active_objects t5 = 0"
    using handle_counts(2,3) [OF t5(4)] t5(5) by (simp_all add: view_objects_def)
  have stale5: "native_handle_resolve (Some t5) dup ?F False = (NATIVE_HANDLE_STALE, None)"
    using native_handle_resolve_dead [OF _ t5(4)] t5(5) by simp
  show ?thesis
    unfolding native_handle_self_test_def
    using t0(1) t1(1) r1(1) word types t2(1) ne c2 t3(1) dead t5(1) closed c5 stale5 by simp
qed

section \<open>How long a closed handle stays closed\<close>

lemma handle_issue_generation:
  assumes "handle_issue a t = (r, t')" "handle_inv t" "k < NATIVE_HANDLE_LIMIT"
  shows "slot_generation (table_slots t' ! k) = slot_generation (table_slots t ! k)"
proof -
  have "length (table_slots t) = NATIVE_HANDLE_LIMIT" using assms(2) by (simp add: handle_inv_def table_shape_def)
  then have "slot_generation ((table_slots t)[i := (table_slots t ! i)
      \<lparr>slot_object_index := x, slot_type := y, slot_active := True\<rparr>] ! k) = slot_generation (table_slots t ! k)" for i x y
    using assms(3) by (cases "k = i") simp_all
  then show ?thesis
    using assms(1)
    by (auto simp: handle_issue_def native_handle_install_def Let_def
        split: if_splits option.splits prod.splits native_handle_status.splits)
qed

lemma run_handles_generation:
  assumes "handle_inv t" "run_tokens handle_issue handle_retire ops t = (evs, t')"
    and "\<And>a. Issue a \<in> set ops \<Longrightarrow> valid_type (fst a)" and "k < NATIVE_HANDLE_LIMIT"
  shows "slot_generation (table_slots t' ! k) =
    (next_generation ^^ count_if (\<lambda>e. \<exists>h. e = Retired h \<and> encoded_index h = k + 1) evs)
      (slot_generation (table_slots t ! k))"
  using assms(1-3)
proof (induction ops arbitrary: t evs)
  case Nil
  then show ?case by simp
next
  case (Cons op ops)
  have ok: "valid_type (fst a)" if "Issue a \<in> set ops" for a using Cons.prems(3) [of a] that by simp
  show ?case
  proof (cases op)
    case (Issue a)
    obtain r t1 where i: "handle_issue a t = (r, t1)" by fastforce
    obtain evs' where e: "run_tokens handle_issue handle_retire ops t1 = (evs', t')"
      "evs = (case r of None \<Rightarrow> Refused | Some h \<Rightarrow> Issued h) # evs'"
      using Cons.prems(2) Issue i by (auto split: prod.splits)
    have "handle_inv t1"
    proof (cases r)
      case None
      then show ?thesis using handles.issue_refused [OF Cons.prems(1)] i Cons.prems(1) by blast
    next
      case (Some h)
      then show ?thesis using handles.issue_fresh [OF Cons.prems(1)] i Cons.prems(3) Issue by (metis list.set_intros(1))
    qed
    from Cons.IH [OF this e(1) ok] handle_issue_generation [OF i Cons.prems(1) assms(4)] e(2)
    show ?thesis by (cases r) simp_all
  next
    case (Retire h)
    obtain b t1 where i: "handle_retire h t = (b, t1)" by fastforce
    obtain evs' where e: "run_tokens handle_issue handle_retire ops t1 = (evs', t')"
      "evs = (if b then Retired h else Refused) # evs'"
      using Cons.prems(2) Retire i by (auto split: prod.splits)
    show ?thesis
    proof (cases "h \<in> live_handles t")
      case False
      then have "t1 = t" "\<not> b" using handles.retire_dead [OF Cons.prems(1) False] i by auto
      with Cons.IH [OF Cons.prems(1) _ ok] e show ?thesis by simp
    next
      case True
      then obtain s where s: "s \<in> active_slots t" "h = slot_handle t s" by (auto simp: live_handles_def)
      have shape: "table_shape t" "s < table_limit t"
        using Cons.prems(1) s(1) by (simp_all add: handle_inv_def active_slots_def)
      have idx: "encoded_index h = s + 1"
        using decode_encode(4) [OF slot_index_small [OF shape]] s(2) by (simp add: slot_handle_def)
      have t1: "b" "t1 = close_slot s t" using handle_retire_live [OF Cons.prems(1) s(1)] i s(2) by auto
      note C = close_slot_inv [OF Cons.prems(1) s(1) refl t1(2)]
      have "slot_generation (table_slots t1 ! k) = (if k = s then next_generation (slot_generation (table_slots t ! k))
          else slot_generation (table_slots t ! k))" using C(5) assms(4) by blast
      with Cons.IH [OF C(1) e(1) ok] e(2) t1(1) idx show ?thesis by (auto simp: funpow_swap1)
    qed
  qed
qed

text \<open>
  A closed handle stays closed: after \<open>native_handle_close\<close>, no sequence of
  installs and closes makes the same 64-bit value an honoured handle again, unless its
  slot is closed another \<open>2 ^ 32 - 2\<close> times.
\<close>

theorem native_handle_stale_forever:
  assumes "handle_inv t" and "handle_view t h \<noteq> None"
    and "native_handle_close h None () (Some t) = (NATIVE_HANDLE_OK, (), Some t1)"
    and "run_tokens handle_issue handle_retire ops t1 = (evs, t2)"
    and "\<And>a. Issue a \<in> set ops \<Longrightarrow> valid_type (fst a)"
    and "count_if (\<lambda>e. \<exists>h'. e = Retired h' \<and> encoded_index h' = encoded_index h) evs < 2 ^ 32 - 2"
  shows "handle_view t2 h = None \<and>
    native_handle_resolve (Some t2) h expected False = (NATIVE_HANDLE_STALE, None)"
proof -
  have "h \<in> live_handles t" using assms(2) handle_view_dead [of h t] by (rule contrapos_np)
  then obtain s where s: "s \<in> active_slots t" "h = slot_handle t s" by (auto simp: live_handles_def)
  have shape: "table_shape t" "s < table_limit t"
    using assms(1) s(1) by (simp_all add: handle_inv_def active_slots_def)
  have sl: "s < NATIVE_HANDLE_LIMIT" using shape by (simp add: table_shape_def)
  have t1: "t1 = close_slot s t"
    using handle_retire_live [OF assms(1) s(1)] assms(3) s(2) by (simp add: handle_retire_def)
  note C = close_slot_inv [OF assms(1) s(1) refl t1]
  define g where "g = slot_generation (table_slots t ! s)"
  have g0: "g \<noteq> 0" using shape by (simp add: table_shape_def g_def)
  have idx: "encoded_index h = s + 1"
    using decode_encode(4) [OF slot_index_small [OF shape]] s(2) by (simp add: slot_handle_def)
  define n where "n = count_if (\<lambda>e. \<exists>h'. e = Retired h' \<and> encoded_index h' = s + 1) evs"
  have "slot_generation (table_slots t2 ! s) = (next_generation ^^ n) (next_generation g)"
    using run_handles_generation [OF C(1) assms(4,5) sl] C(5) sl by (simp add: n_def g_def)
  also have "\<dots> = (next_generation ^^ (n + 1)) g" by (simp add: funpow_swap1)
  finally have gen: "slot_generation (table_slots t2 ! s) = (next_generation ^^ (n + 1)) g" .
  have "n + 1 < 2 ^ 32 - 1" using assms(6) by (simp add: idx n_def)
  then have ne: "slot_generation (table_slots t2 ! s) \<noteq> g"
    using next_generation_no_return [OF g0, of "n + 1"] gen by simp
  have inv2: "handle_inv t2" using handles.run_tokens_ledger(1) [OF C(1) assms(5,4)] .
  have dead: "handle_view t2 h = None"
  proof (rule ccontr)
    assume "handle_view t2 h \<noteq> None"
    then have "h \<in> live_handles t2" using handle_view_dead [of h t2] by (rule contrapos_np)
    then obtain u where u: "u \<in> active_slots t2" "h = slot_handle t2 u" by (auto simp: live_handles_def)
    have sh2: "table_shape t2" "u < table_limit t2"
      using inv2 u(1) by (simp_all add: handle_inv_def active_slots_def)
    have "slot_handle t s = slot_handle t2 u" using s(2) u(2) by simp
    with encode_handle_inj [OF slot_index_small [OF shape] slot_index_small [OF sh2]]
    have "s = u" "g = slot_generation (table_slots t2 ! u)" by (auto simp: slot_handle_def g_def)
    with ne show False by simp
  qed
  with native_handle_resolve_dead [OF dead inv2] show ?thesis by blast
qed

theorem native_handle_stale_forever_witness:
  "\<exists>t h t1. native_handle_close h None () (Some t) = (NATIVE_HANDLE_OK, (), Some t1) \<and>
     native_handle_resolve (Some t1) h 1 False = (NATIVE_HANDLE_STALE, None)"
proof -
  obtain h j t where t: "handle_inv t" "handle_view t = [h \<mapsto> (SAPOTE_HANDLE_FILE, j, test_resource)]"
    by (rule sample_installed)
  have v: "handle_view t h = Some (SAPOTE_HANDLE_FILE, j, test_resource)" using t(2) by simp
  have cb: "(if (\<exists>h' ty' r'. h' \<noteq> h \<and> handle_view t h' = Some (ty', j, r')) then (True, ())
       else case None of None \<Rightarrow> (True, ()) | Some g \<Rightarrow> g SAPOTE_HANDLE_FILE test_resource ()) = (True, ())"
    by simp
  obtain t1 where t1: "native_handle_close h None () (Some t) = (NATIVE_HANDLE_OK, (), Some t1)"
    using native_handle_close_view(1) [where f = None and c = "()", OF t(1) v cb] by blast
  have "run_tokens handle_issue handle_retire [] t1 = ([], t1)" by simp
  from native_handle_stale_forever [OF t(1) _ t1 this, of 1] v t1 show ?thesis by auto
qed

end
