(* ===== verification/Boot_Ledger.thy ===== *)
theory Boot_Ledger
  imports Prelude
begin

unbundle bit_operations_syntax

text \<open>
  The boot ledger, \<open>src/kernel/boot_ledger.c\<close>: the plan of boot stages with the
  capabilities each requires and provides, its validation, its execution and the receipts
  execution leaves.  Stage, capability, phase, class and result identifiers are C enum
  values, which the code itself range-checks, so they are natural numbers.  An array with
  a count is the list of its first \<open>count\<close> elements, and a test of the count against
  the capacity is a test of the length.  A stage's \<open>execute\<close> callback is a function of
  the boot context and the result structure; it is stored in the descriptor already
  applied to that descriptor.
\<close>

section \<open>Constants and data\<close>

definition BOOT_LEDGER_STAGE_CAPACITY :: nat where "BOOT_LEDGER_STAGE_CAPACITY = 57"
definition BOOT_LEDGER_RECEIPT_CAPACITY :: nat where "BOOT_LEDGER_RECEIPT_CAPACITY = 57"
definition BOOT_STAGE_CAPABILITY_CAPACITY :: nat where "BOOT_STAGE_CAPABILITY_CAPACITY = 23"
definition BOOT_STAGE_PROOF_COUNTER_CAPACITY :: nat where "BOOT_STAGE_PROOF_COUNTER_CAPACITY = 2"
definition BOOT_STAGE_INVALID :: nat where "BOOT_STAGE_INVALID = 0"
definition BOOT_STAGE_COUNT :: nat where "BOOT_STAGE_COUNT = 58"
definition BOOT_CAPABILITY_INVALID :: nat where "BOOT_CAPABILITY_INVALID = 0"
definition BOOT_CAPABILITY_COUNT :: nat where "BOOT_CAPABILITY_COUNT = 80"
definition BOOT_PHASE_COUNT :: nat where "BOOT_PHASE_COUNT = 8"
definition BOOT_IRREVERSIBLE_COUNT :: nat where "BOOT_IRREVERSIBLE_COUNT = 6"
definition BOOT_RECEIPT_RAN :: nat where "BOOT_RECEIPT_RAN = 0"
definition BOOT_RECEIPT_SKIPPED :: nat where "BOOT_RECEIPT_SKIPPED = 1"
definition BOOT_RECEIPT_FAILED :: nat where "BOOT_RECEIPT_FAILED = 2"
definition BOOT_RECEIPT_RESULT_COUNT :: nat where "BOOT_RECEIPT_RESULT_COUNT = 3"
definition BOOT_NO_PROVIDER :: nat where "BOOT_NO_PROVIDER = BOOT_LEDGER_STAGE_CAPACITY"

lemmas ledger_consts =
  BOOT_LEDGER_STAGE_CAPACITY_def BOOT_LEDGER_RECEIPT_CAPACITY_def BOOT_STAGE_CAPABILITY_CAPACITY_def
  BOOT_STAGE_PROOF_COUNTER_CAPACITY_def BOOT_STAGE_INVALID_def BOOT_STAGE_COUNT_def
  BOOT_CAPABILITY_INVALID_def BOOT_CAPABILITY_COUNT_def BOOT_PHASE_COUNT_def
  BOOT_IRREVERSIBLE_COUNT_def BOOT_NO_PROVIDER_def

lemmas receipt_consts =
  BOOT_RECEIPT_RAN_def BOOT_RECEIPT_SKIPPED_def BOOT_RECEIPT_FAILED_def BOOT_RECEIPT_RESULT_COUNT_def

datatype boot_ledger_status =
    BOOT_LEDGER_STATUS_OK
  | BOOT_LEDGER_STATUS_NULL_ARGUMENT
  | BOOT_LEDGER_STATUS_EMPTY_PLAN
  | BOOT_LEDGER_STATUS_NOT_VALIDATED
  | BOOT_LEDGER_STATUS_ALREADY_EXECUTED
  | BOOT_LEDGER_STATUS_UNKNOWN_STAGE_IDENTIFIER
  | BOOT_LEDGER_STATUS_UNKNOWN_CAPABILITY
  | BOOT_LEDGER_STATUS_TOO_MANY_STAGES
  | BOOT_LEDGER_STATUS_TOO_MANY_RECEIPTS
  | BOOT_LEDGER_STATUS_TOO_MANY_STAGE_CAPABILITIES
  | BOOT_LEDGER_STATUS_INVALID_NEUTRAL_SKIP
  | BOOT_LEDGER_STATUS_DUPLICATE_STAGE
  | BOOT_LEDGER_STATUS_DUPLICATE_CAPABILITY_REQUIREMENT
  | BOOT_LEDGER_STATUS_DUPLICATE_CAPABILITY_PROVIDER
  | BOOT_LEDGER_STATUS_MISSING_CAPABILITY_PROVIDER
  | BOOT_LEDGER_STATUS_CAPABILITY_DEPENDENCY_CYCLE
  | BOOT_LEDGER_STATUS_INVALID_PHASE_TRANSITION
  | BOOT_LEDGER_STATUS_IRREVERSIBLE_STAGE_ORDERED_TOO_EARLY
  | BOOT_LEDGER_STATUS_REQUIRED_STAGE_SKIPPED
  | BOOT_LEDGER_STATUS_UNDECLARED_CAPABILITY_PROVIDED
  | BOOT_LEDGER_STATUS_STAGE_EXECUTED_BEFORE_REQUIREMENTS
  | BOOT_LEDGER_STATUS_REQUIRED_STAGE_FAILED
  | BOOT_LEDGER_STATUS_OPTIONAL_STAGE_FAILED
  | BOOT_LEDGER_STATUS_OPTIONAL_STAGE_SKIPPED
  | BOOT_LEDGER_STATUS_RECEIPT_MISMATCH
  | BOOT_LEDGER_STATUS_PLAN_FINGERPRINT_MISMATCH
  | BOOT_LEDGER_STATUS_INSTALLED_PLAN_DIFFERS_VALIDATED_PLAN

record boot_stage_result =
  sr_result :: nat
  sr_provided :: "nat list"
  sr_proof_counters :: "64 word list"

record 'c boot_context =
  stage_failure_detail :: "string option"
  boot_values :: 'c

type_synonym 'c boot_stage_execute =
  "'c boot_context \<Rightarrow> boot_stage_result \<Rightarrow> 'c boot_context \<times> boot_stage_result"

record 'c boot_stage_descriptor =
  sd_id :: nat
  sd_name :: "string option"
  required_capabilities :: "nat list"
  provided_capabilities :: "nat list"
  skipped_capabilities :: "nat list"
  sd_required :: bool
  skip_preserves_health :: bool
  sd_phase :: nat
  irreversible_class :: nat
  sd_execute :: "'c boot_stage_execute option"

record boot_stage_receipt =
  rc_stage_id :: nat
  rc_sequence :: nat
  rc_provided_capabilities :: "nat list"
  rc_status :: boot_ledger_status
  rc_result :: nat
  rc_proof_counters :: "64 word list"

record 'c boot_ledger =
  descriptors :: "'c boot_stage_descriptor list"
  canonical_order :: "nat list"
  validated_stage_ids :: "nat list"
  receipts :: "boot_stage_receipt list"
  established_capabilities :: "nat list"
  ledger_status :: boot_ledger_status
  refusal_stage :: nat
  refusal_capability :: nat
  validated_plan_fingerprint :: "64 word"
  ledger_fingerprint :: "64 word"
  executed_count :: nat
  optional_skip_count :: nat
  validated :: bool
  executed :: bool
  degraded :: bool

text \<open>A refusal: the status, the stage and the capability it names.\<close>

type_synonym boot_refusal = "boot_ledger_status \<times> nat \<times> nat"

section \<open>Helpers\<close>

definition stage_is_known :: "nat \<Rightarrow> bool" where
  "stage_is_known stage \<longleftrightarrow> stage > BOOT_STAGE_INVALID \<and> stage < BOOT_STAGE_COUNT"

definition capability_is_known :: "nat \<Rightarrow> bool" where
  "capability_is_known capability \<longleftrightarrow>
     capability > BOOT_CAPABILITY_INVALID \<and> capability < BOOT_CAPABILITY_COUNT"

definition descriptor_has_capability :: "nat list \<Rightarrow> nat \<Rightarrow> bool" where
  "descriptor_has_capability capabilities capability \<longleftrightarrow>
     find_from (\<lambda>index. capabilities ! index = capability) 0 (length capabilities) \<noteq> None"

definition descriptor_requires :: "'c boot_stage_descriptor \<Rightarrow> nat \<Rightarrow> bool" where
  "descriptor_requires descriptor capability =
     descriptor_has_capability (required_capabilities descriptor) capability"

definition descriptor_for_stage ::
  "'c boot_ledger option \<Rightarrow> nat \<Rightarrow> 'c boot_stage_descriptor option" where
  "descriptor_for_stage ledger_pointer stage =
     (case ledger_pointer of
        None \<Rightarrow> None
      | Some ledger \<Rightarrow>
          map_option (\<lambda>index. descriptors ledger ! index)
            (find_from (\<lambda>index. sd_id (descriptors ledger ! index) = stage) 0
              (length (descriptors ledger))))"

definition set_refusal :: "boot_refusal \<Rightarrow> 'c boot_ledger \<Rightarrow> 'c boot_ledger" where
  "set_refusal refusal ledger =
     ledger\<lparr>ledger_status := fst refusal, refusal_stage := fst (snd refusal),
            refusal_capability := snd (snd refusal)\<rparr>"

definition BOOT_FINGERPRINT_OFFSET :: "64 word" where
  "BOOT_FINGERPRINT_OFFSET = 14695981039346656037"

definition BOOT_FINGERPRINT_PRIME :: "64 word" where
  "BOOT_FINGERPRINT_PRIME = 1099511628211"

definition fingerprint_u64 :: "64 word \<Rightarrow> 64 word \<Rightarrow> 64 word" where
  "fingerprint_u64 fingerprint value =
     fst (fold (\<lambda>byte (fingerprint, value).
            ((fingerprint XOR (value AND 0xFF)) * BOOT_FINGERPRINT_PRIME, drop_bit 8 value))
          [0..<8] (fingerprint, value))"

definition fingerprint_capability_set :: "64 word \<Rightarrow> nat list \<Rightarrow> 64 word \<Rightarrow> 64 word" where
  "fingerprint_capability_set fingerprint capabilities tag =
     fold (\<lambda>capability fingerprint.
         if descriptor_has_capability capabilities capability
         then fingerprint_u64 fingerprint (of_nat capability) else fingerprint)
       [BOOT_CAPABILITY_INVALID + 1..<BOOT_CAPABILITY_COUNT]
       (fingerprint_u64 (fingerprint_u64 fingerprint tag) (of_nat (length capabilities)))"

definition fingerprint_descriptor :: "'c boot_stage_descriptor \<Rightarrow> 64 word \<Rightarrow> 64 word" where
  "fingerprint_descriptor descriptor fingerprint =
     (let fingerprint = fingerprint_u64 fingerprint (of_nat (sd_id descriptor));
          fingerprint = fingerprint_u64 fingerprint (of_bool (sd_required descriptor));
          fingerprint = fingerprint_u64 fingerprint (of_bool (skip_preserves_health descriptor));
          fingerprint = fingerprint_u64 fingerprint (of_nat (sd_phase descriptor));
          fingerprint = fingerprint_u64 fingerprint (of_nat (irreversible_class descriptor));
          fingerprint = fingerprint_capability_set fingerprint (required_capabilities descriptor) 0xA1;
          fingerprint = fingerprint_capability_set fingerprint (provided_capabilities descriptor) 0xA2
      in fingerprint_capability_set fingerprint (skipped_capabilities descriptor) 0xA3)"

definition fingerprint_plan :: "'c boot_ledger \<Rightarrow> 64 word" where
  "fingerprint_plan ledger =
     fold (\<lambda>descriptor_index. fingerprint_descriptor (descriptors ledger ! descriptor_index))
       (canonical_order ledger)
       (fingerprint_u64 (fingerprint_u64 BOOT_FINGERPRINT_OFFSET 1)
         (of_nat (length (canonical_order ledger))))"

text \<open>Status values enter a fingerprint by their position in the enum.\<close>

fun status_code :: "boot_ledger_status \<Rightarrow> nat" where
  "status_code BOOT_LEDGER_STATUS_OK = 0"
| "status_code BOOT_LEDGER_STATUS_NULL_ARGUMENT = 1"
| "status_code BOOT_LEDGER_STATUS_EMPTY_PLAN = 2"
| "status_code BOOT_LEDGER_STATUS_NOT_VALIDATED = 3"
| "status_code BOOT_LEDGER_STATUS_ALREADY_EXECUTED = 4"
| "status_code BOOT_LEDGER_STATUS_UNKNOWN_STAGE_IDENTIFIER = 5"
| "status_code BOOT_LEDGER_STATUS_UNKNOWN_CAPABILITY = 6"
| "status_code BOOT_LEDGER_STATUS_TOO_MANY_STAGES = 7"
| "status_code BOOT_LEDGER_STATUS_TOO_MANY_RECEIPTS = 8"
| "status_code BOOT_LEDGER_STATUS_TOO_MANY_STAGE_CAPABILITIES = 9"
| "status_code BOOT_LEDGER_STATUS_INVALID_NEUTRAL_SKIP = 10"
| "status_code BOOT_LEDGER_STATUS_DUPLICATE_STAGE = 11"
| "status_code BOOT_LEDGER_STATUS_DUPLICATE_CAPABILITY_REQUIREMENT = 12"
| "status_code BOOT_LEDGER_STATUS_DUPLICATE_CAPABILITY_PROVIDER = 13"
| "status_code BOOT_LEDGER_STATUS_MISSING_CAPABILITY_PROVIDER = 14"
| "status_code BOOT_LEDGER_STATUS_CAPABILITY_DEPENDENCY_CYCLE = 15"
| "status_code BOOT_LEDGER_STATUS_INVALID_PHASE_TRANSITION = 16"
| "status_code BOOT_LEDGER_STATUS_IRREVERSIBLE_STAGE_ORDERED_TOO_EARLY = 17"
| "status_code BOOT_LEDGER_STATUS_REQUIRED_STAGE_SKIPPED = 18"
| "status_code BOOT_LEDGER_STATUS_UNDECLARED_CAPABILITY_PROVIDED = 19"
| "status_code BOOT_LEDGER_STATUS_STAGE_EXECUTED_BEFORE_REQUIREMENTS = 20"
| "status_code BOOT_LEDGER_STATUS_REQUIRED_STAGE_FAILED = 21"
| "status_code BOOT_LEDGER_STATUS_OPTIONAL_STAGE_FAILED = 22"
| "status_code BOOT_LEDGER_STATUS_OPTIONAL_STAGE_SKIPPED = 23"
| "status_code BOOT_LEDGER_STATUS_RECEIPT_MISMATCH = 24"
| "status_code BOOT_LEDGER_STATUS_PLAN_FINGERPRINT_MISMATCH = 25"
| "status_code BOOT_LEDGER_STATUS_INSTALLED_PLAN_DIFFERS_VALIDATED_PLAN = 26"

definition fingerprint_receipt :: "boot_stage_receipt \<Rightarrow> 64 word \<Rightarrow> 64 word" where
  "fingerprint_receipt receipt fingerprint =
     (let fingerprint = fingerprint_u64 fingerprint (of_nat (rc_stage_id receipt));
          fingerprint = fingerprint_u64 fingerprint (of_nat (rc_sequence receipt));
          fingerprint = fingerprint_u64 fingerprint (of_nat (rc_result receipt));
          fingerprint = fingerprint_u64 fingerprint (of_nat (status_code (rc_status receipt)))
      in fingerprint_capability_set fingerprint (rc_provided_capabilities receipt) 0xB1)"

definition fingerprint_receipts :: "'c boot_ledger \<Rightarrow> 64 word" where
  "fingerprint_receipts ledger =
     fold fingerprint_receipt (receipts ledger)
       (fingerprint_u64 (fingerprint_u64 (validated_plan_fingerprint ledger) 0xB001ED6E)
         (of_nat (length (receipts ledger))))"

text \<open>The capabilities each irreversible class insists on, by capability number.\<close>

definition irreversible_requirements :: "nat \<Rightarrow> nat list" where
  "irreversible_requirements class =
     (if class = 1 then [8, 4]
      else if class = 2 then [13, 14]
      else if class = 3 then [20]
      else if class = 4 then [13, 14, 15, 7]
      else if class = 5 then [12, 23, 17, 15]
      else [])"

definition irreversible_requirement_at :: "nat \<Rightarrow> nat \<Rightarrow> nat option" where
  "irreversible_requirement_at class index =
     (if index \<ge> length (irreversible_requirements class) then None
      else Some (irreversible_requirements class ! index))"

section \<open>Building the plan\<close>

definition boot_ledger_reset :: "'c boot_ledger option \<Rightarrow> 'c boot_ledger option" where
  "boot_ledger_reset ledger_pointer =
     map_option (\<lambda>_. \<lparr>descriptors = [], canonical_order = [], validated_stage_ids = [], receipts = [],
       established_capabilities = [], ledger_status = BOOT_LEDGER_STATUS_NOT_VALIDATED,
       refusal_stage = BOOT_STAGE_INVALID, refusal_capability = BOOT_CAPABILITY_INVALID,
       validated_plan_fingerprint = 0, ledger_fingerprint = 0, executed_count = 0,
       optional_skip_count = 0, validated = False, executed = False, degraded = False\<rparr>) ledger_pointer"

definition boot_ledger_add_stage ::
  "'c boot_stage_descriptor option \<Rightarrow> 'c boot_ledger option \<Rightarrow>
     boot_ledger_status \<times> 'c boot_ledger option" where
  "boot_ledger_add_stage descriptor_pointer ledger_pointer =
     (case (ledger_pointer, descriptor_pointer) of
        (Some ledger, Some descriptor) \<Rightarrow>
          if length (descriptors ledger) \<ge> BOOT_LEDGER_STAGE_CAPACITY then
            (BOOT_LEDGER_STATUS_TOO_MANY_STAGES,
             Some (set_refusal (BOOT_LEDGER_STATUS_TOO_MANY_STAGES, sd_id descriptor,
                     BOOT_CAPABILITY_INVALID) ledger))
          else
            (BOOT_LEDGER_STATUS_OK,
             Some (ledger\<lparr>descriptors := descriptors ledger @ [descriptor], validated := False,
                     executed := False, ledger_status := BOOT_LEDGER_STATUS_NOT_VALIDATED\<rparr>))
      | _ \<Rightarrow> (BOOT_LEDGER_STATUS_NULL_ARGUMENT, ledger_pointer))"

section \<open>Validation\<close>

text \<open>
  \<open>boot_ledger_validate\<close>, pass by pass.  The table \<open>providers\<close> maps a capability to
  the index of the descriptor that provides it, or \<open>BOOT_NO_PROVIDER\<close>.
\<close>

definition check_requirement ::
  "'c boot_stage_descriptor \<Rightarrow> nat \<Rightarrow> boot_refusal option" where
  "check_requirement descriptor requirement =
     (let capability = required_capabilities descriptor ! requirement in
      if \<not> capability_is_known capability
        then Some (BOOT_LEDGER_STATUS_UNKNOWN_CAPABILITY, sd_id descriptor, capability)
      else if find_from (\<lambda>earlier. required_capabilities descriptor ! earlier = capability) 0 requirement
                \<noteq> None
        then Some (BOOT_LEDGER_STATUS_DUPLICATE_CAPABILITY_REQUIREMENT, sd_id descriptor, capability)
      else None)"

definition note_provider ::
  "nat \<Rightarrow> 'c boot_stage_descriptor \<Rightarrow> nat \<Rightarrow> nat list \<Rightarrow> boot_refusal + nat list" where
  "note_provider index descriptor capability_index providers =
     (let provided_count = length (provided_capabilities descriptor);
          skipped = (capability_index \<ge> provided_count);
          source_index = (if skipped then capability_index - provided_count else capability_index);
          capability = (if skipped then skipped_capabilities descriptor ! source_index
                        else provided_capabilities descriptor ! source_index)
      in if \<not> capability_is_known capability
           then Inl (BOOT_LEDGER_STATUS_UNKNOWN_CAPABILITY, sd_id descriptor, capability)
         else
           let common_outcome =
                 (skipped \<and> providers ! capability = index \<and>
                  descriptor_has_capability (provided_capabilities descriptor) capability \<and>
                  \<not> descriptor_has_capability (take source_index (skipped_capabilities descriptor)) capability)
           in if providers ! capability \<noteq> BOOT_NO_PROVIDER \<and> \<not> common_outcome
                then Inl (BOOT_LEDGER_STATUS_DUPLICATE_CAPABILITY_PROVIDER, sd_id descriptor, capability)
              else Inr (if providers ! capability = BOOT_NO_PROVIDER
                        then providers[capability := index] else providers))"

definition check_stage ::
  "'c boot_stage_descriptor list \<Rightarrow> nat \<Rightarrow> nat list \<Rightarrow> boot_refusal + nat list" where
  "check_stage ds index providers =
     (let descriptor = ds ! index;
          refuse = (\<lambda>status. Inl (status, sd_id descriptor, BOOT_CAPABILITY_INVALID))
      in if \<not> stage_is_known (sd_id descriptor)
           then refuse BOOT_LEDGER_STATUS_UNKNOWN_STAGE_IDENTIFIER
         else if sd_phase descriptor \<ge> BOOT_PHASE_COUNT \<or>
                 irreversible_class descriptor \<ge> BOOT_IRREVERSIBLE_COUNT \<or>
                 sd_name descriptor = None \<or> sd_execute descriptor = None
           then refuse BOOT_LEDGER_STATUS_INVALID_PHASE_TRANSITION
         else if length (required_capabilities descriptor) > BOOT_STAGE_CAPABILITY_CAPACITY \<or>
                 length (provided_capabilities descriptor) > BOOT_STAGE_CAPABILITY_CAPACITY \<or>
                 length (skipped_capabilities descriptor) > BOOT_STAGE_CAPABILITY_CAPACITY
           then refuse BOOT_LEDGER_STATUS_TOO_MANY_STAGE_CAPABILITIES
         else if skip_preserves_health descriptor \<and>
                 (sd_required descriptor \<or> length (skipped_capabilities descriptor) = 0)
           then refuse BOOT_LEDGER_STATUS_INVALID_NEUTRAL_SKIP
         else if find_from (\<lambda>other. sd_id (ds ! other) = sd_id descriptor) 0 index \<noteq> None
           then refuse BOOT_LEDGER_STATUS_DUPLICATE_STAGE
         else case first_some (check_requirement descriptor)
                     [0..<length (required_capabilities descriptor)] of
           Some refusal \<Rightarrow> Inl refusal
         | None \<Rightarrow>
             fold_until (note_provider index descriptor)
               [0..<length (provided_capabilities descriptor) + length (skipped_capabilities descriptor)]
               providers)"

definition check_missing ::
  "nat list \<Rightarrow> 'c boot_stage_descriptor \<Rightarrow> boot_refusal option" where
  "check_missing providers descriptor =
     first_some (\<lambda>capability.
         if providers ! capability = BOOT_NO_PROVIDER
         then Some (BOOT_LEDGER_STATUS_MISSING_CAPABILITY_PROVIDER, sd_id descriptor, capability)
         else None)
       (required_capabilities descriptor)"

definition check_irreversible ::
  "'c boot_stage_descriptor list \<Rightarrow> nat list \<Rightarrow> 'c boot_stage_descriptor \<Rightarrow> boot_refusal option" where
  "check_irreversible ds providers descriptor =
     first_some (\<lambda>capability.
         if \<not> descriptor_requires descriptor capability \<or>
            providers ! capability = BOOT_NO_PROVIDER \<or>
            sd_phase (ds ! (providers ! capability)) > sd_phase descriptor
         then Some (BOOT_LEDGER_STATUS_IRREVERSIBLE_STAGE_ORDERED_TOO_EARLY, sd_id descriptor, capability)
         else None)
       (irreversible_requirements (irreversible_class descriptor))"

definition stage_ready ::
  "'c boot_stage_descriptor list \<Rightarrow> nat list \<Rightarrow> bool list \<Rightarrow> nat \<Rightarrow> bool" where
  "stage_ready ds providers planned index \<longleftrightarrow>
     \<not> planned ! index \<and>
     list_all (\<lambda>capability. providers ! capability \<noteq> BOOT_NO_PROVIDER \<and> planned ! (providers ! capability))
       (required_capabilities (ds ! index))"

definition select_step ::
  "'c boot_stage_descriptor list \<Rightarrow> nat list \<Rightarrow> bool list \<Rightarrow> nat \<Rightarrow> nat \<Rightarrow> nat" where
  "select_step ds providers planned index selected =
     (if \<not> stage_ready ds providers planned index then selected
      else if selected = BOOT_NO_PROVIDER \<or> sd_phase (ds ! index) < sd_phase (ds ! selected) \<or>
              (sd_phase (ds ! index) = sd_phase (ds ! selected) \<and> sd_id (ds ! index) < sd_id (ds ! selected))
        then index
      else selected)"

definition select_stage ::
  "'c boot_stage_descriptor list \<Rightarrow> nat list \<Rightarrow> bool list \<Rightarrow> nat" where
  "select_stage ds providers planned =
     fold (select_step ds providers planned) [0..<length ds] BOOT_NO_PROVIDER"

definition cycle_stage :: "'c boot_stage_descriptor list \<Rightarrow> bool list \<Rightarrow> nat" where
  "cycle_stage ds planned =
     fold (\<lambda>index stage.
         if \<not> planned ! index \<and> (stage = BOOT_STAGE_INVALID \<or> sd_id (ds ! index) < stage)
         then sd_id (ds ! index) else stage)
       [0..<length ds] BOOT_STAGE_INVALID"

text \<open>
  The planning loop: it extends the order by one stage per round, so it takes at most
  \<open>length ds\<close> rounds.
\<close>

function plan_stages ::
  "'c boot_stage_descriptor list \<Rightarrow> nat list \<Rightarrow> bool list \<Rightarrow> nat list \<Rightarrow> boot_refusal option \<times> nat list" where
  "plan_stages ds providers planned order =
     (if length order < length ds then
        let selected = select_stage ds providers planned in
        if selected = BOOT_NO_PROVIDER
          then (Some (BOOT_LEDGER_STATUS_CAPABILITY_DEPENDENCY_CYCLE, cycle_stage ds planned,
                  BOOT_CAPABILITY_INVALID), order)
        else plan_stages ds providers (planned[selected := True]) (order @ [selected])
      else (None, order))"
  by pat_completeness auto
termination
  by (relation "measure (\<lambda>(ds, providers, planned, order). length ds - length order)") auto

declare plan_stages.simps [simp del]

definition check_phases ::
  "'c boot_stage_descriptor list \<Rightarrow> nat list \<Rightarrow> 'c boot_stage_descriptor \<Rightarrow> boot_refusal option" where
  "check_phases ds providers descriptor =
     first_some (\<lambda>capability.
         if sd_phase (ds ! (providers ! capability)) > sd_phase descriptor
         then Some (BOOT_LEDGER_STATUS_INVALID_PHASE_TRANSITION, sd_id descriptor, capability)
         else None)
       (required_capabilities descriptor)"

definition check_stages :: "'c boot_stage_descriptor list \<Rightarrow> boot_refusal + nat list" where
  "check_stages ds =
     fold_until (check_stage ds) [0..<length ds] (replicate BOOT_CAPABILITY_COUNT BOOT_NO_PROVIDER)"

definition boot_ledger_validate ::
  "'c boot_ledger option \<Rightarrow> boot_ledger_status \<times> 'c boot_ledger option" where
  "boot_ledger_validate ledger_pointer =
     (case ledger_pointer of
        None \<Rightarrow> (BOOT_LEDGER_STATUS_NULL_ARGUMENT, None)
      | Some ledger \<Rightarrow>
      let ledger = ledger\<lparr>validated := False, executed := False, canonical_order := [],
                          validated_stage_ids := [], receipts := [],
                          refusal_stage := BOOT_STAGE_INVALID,
                          refusal_capability := BOOT_CAPABILITY_INVALID\<rparr>;
          ds = descriptors ledger;
          refuse = (\<lambda>refusal ledger. (fst refusal, Some (set_refusal refusal ledger)))
      in if length ds = 0
           then refuse (BOOT_LEDGER_STATUS_EMPTY_PLAN, BOOT_STAGE_INVALID, BOOT_CAPABILITY_INVALID) ledger
         else if length ds > BOOT_LEDGER_STAGE_CAPACITY
           then refuse (BOOT_LEDGER_STATUS_TOO_MANY_STAGES, BOOT_STAGE_INVALID, BOOT_CAPABILITY_INVALID) ledger
         else case check_stages ds of
           Inl refusal \<Rightarrow> refuse refusal ledger
         | Inr providers \<Rightarrow>
         (case first_some (check_missing providers) ds of
           Some refusal \<Rightarrow> refuse refusal ledger
         | None \<Rightarrow>
         (case first_some (check_irreversible ds providers) ds of
           Some refusal \<Rightarrow> refuse refusal ledger
         | None \<Rightarrow>
         (case plan_stages ds providers (replicate BOOT_LEDGER_STAGE_CAPACITY False) [] of
           (outcome, order) \<Rightarrow>
             let ledger = ledger\<lparr>canonical_order := order,
                                 validated_stage_ids := map (\<lambda>index. sd_id (ds ! index)) order\<rparr>
             in case outcome of
               Some refusal \<Rightarrow> refuse refusal ledger
             | None \<Rightarrow>
             (case first_some (check_phases ds providers) ds of
               Some refusal \<Rightarrow> refuse refusal ledger
             | None \<Rightarrow>
                 (BOOT_LEDGER_STATUS_OK,
                  Some (ledger\<lparr>validated_plan_fingerprint := fingerprint_plan ledger,
                               ledger_fingerprint := 0, validated := True,
                               ledger_status := BOOT_LEDGER_STATUS_OK\<rparr>)))))))"

section \<open>Stage results\<close>

text \<open>The three constructors fill the result they are given; a null pointer leaves it alone.\<close>

definition succeed_result :: "'c boot_stage_descriptor \<Rightarrow> boot_stage_result" where
  "succeed_result descriptor =
     \<lparr>sr_result = BOOT_RECEIPT_RAN, sr_provided = provided_capabilities descriptor, sr_proof_counters = []\<rparr>"

definition skip_result :: "'c boot_stage_descriptor \<Rightarrow> boot_stage_result" where
  "skip_result descriptor =
     \<lparr>sr_result = BOOT_RECEIPT_SKIPPED, sr_provided = skipped_capabilities descriptor, sr_proof_counters = []\<rparr>"

definition fail_result :: boot_stage_result where
  "fail_result = \<lparr>sr_result = BOOT_RECEIPT_FAILED, sr_provided = [], sr_proof_counters = []\<rparr>"

definition boot_stage_result_succeed ::
  "'c boot_stage_descriptor option \<Rightarrow> boot_stage_result option \<Rightarrow> boot_stage_result option" where
  "boot_stage_result_succeed descriptor_pointer result_pointer =
     (case (descriptor_pointer, result_pointer) of
        (Some descriptor, Some _) \<Rightarrow> Some (succeed_result descriptor) | _ \<Rightarrow> result_pointer)"

definition boot_stage_result_skip ::
  "'c boot_stage_descriptor option \<Rightarrow> boot_stage_result option \<Rightarrow> boot_stage_result option" where
  "boot_stage_result_skip descriptor_pointer result_pointer =
     (case (descriptor_pointer, result_pointer) of
        (Some descriptor, Some _) \<Rightarrow> Some (skip_result descriptor) | _ \<Rightarrow> result_pointer)"

definition boot_stage_result_fail :: "boot_stage_result option \<Rightarrow> boot_stage_result option" where
  "boot_stage_result_fail result_pointer = map_option (\<lambda>_. fail_result) result_pointer"

definition boot_stage_result_provide ::
  "nat \<Rightarrow> boot_stage_result option \<Rightarrow> bool \<times> boot_stage_result option" where
  "boot_stage_result_provide capability result_pointer =
     (case result_pointer of
        None \<Rightarrow> (False, None)
      | Some result \<Rightarrow>
          if length (sr_provided result) \<ge> BOOT_STAGE_CAPABILITY_CAPACITY then (False, Some result)
          else (True, Some (result\<lparr>sr_provided := sr_provided result @ [capability]\<rparr>)))"

section \<open>Execution\<close>

definition boot_ledger_has_capability :: "'c boot_ledger option \<Rightarrow> nat \<Rightarrow> bool" where
  "boot_ledger_has_capability ledger_pointer capability =
     (case ledger_pointer of
        None \<Rightarrow> False
      | Some ledger \<Rightarrow>
          capability_is_known capability \<and>
          descriptor_has_capability (established_capabilities ledger) capability)"

definition boot_ledger_fingerprint_valid :: "'c boot_ledger option \<Rightarrow> bool" where
  "boot_ledger_fingerprint_valid ledger_pointer =
     (case ledger_pointer of
        None \<Rightarrow> False
      | Some ledger \<Rightarrow>
          validated ledger \<and> executed ledger \<and>
          fingerprint_plan ledger = validated_plan_fingerprint ledger \<and>
          fingerprint_receipts ledger = ledger_fingerprint ledger)"

definition missing_requirement :: "'c boot_ledger \<Rightarrow> 'c boot_stage_descriptor \<Rightarrow> nat option" where
  "missing_requirement ledger descriptor =
     first_some (\<lambda>capability. if \<not> boot_ledger_has_capability (Some ledger) capability then Some capability else None)
       (required_capabilities descriptor)"

definition validate_result ::
  "'c boot_stage_descriptor \<Rightarrow> boot_stage_result \<Rightarrow> boot_ledger_status \<times> nat" where
  "validate_result descriptor result =
     (let declared = (if sr_result result = BOOT_RECEIPT_RAN then provided_capabilities descriptor
                      else if sr_result result = BOOT_RECEIPT_SKIPPED then skipped_capabilities descriptor
                      else [])
      in if sr_result result \<notin> {BOOT_RECEIPT_RAN, BOOT_RECEIPT_SKIPPED, BOOT_RECEIPT_FAILED}
           then (BOOT_LEDGER_STATUS_RECEIPT_MISMATCH, BOOT_CAPABILITY_INVALID)
         else if length (sr_provided result) > BOOT_STAGE_CAPABILITY_CAPACITY \<or>
                 length (sr_proof_counters result) > BOOT_STAGE_PROOF_COUNTER_CAPACITY
           then (BOOT_LEDGER_STATUS_RECEIPT_MISMATCH, BOOT_CAPABILITY_INVALID)
         else case first_some (\<lambda>c. if \<not> descriptor_has_capability declared c then Some c else None)
                     (sr_provided result) of
           Some capability \<Rightarrow> (BOOT_LEDGER_STATUS_UNDECLARED_CAPABILITY_PROVIDED, capability)
         | None \<Rightarrow>
         if length (sr_provided result) \<noteq> length declared
           then (BOOT_LEDGER_STATUS_RECEIPT_MISMATCH, BOOT_CAPABILITY_INVALID)
         else case first_some (\<lambda>c. if \<not> descriptor_has_capability (sr_provided result) c then Some c else None)
                     declared of
           Some capability \<Rightarrow> (BOOT_LEDGER_STATUS_RECEIPT_MISMATCH, capability)
         | None \<Rightarrow> (BOOT_LEDGER_STATUS_OK, BOOT_CAPABILITY_INVALID))"

text \<open>
  The loop of \<open>append_receipt\<close> over the provided capabilities: the established list and
  the capability for which there was no room, if any.
\<close>

fun establish :: "nat list \<Rightarrow> nat list \<Rightarrow> nat option \<times> nat list" where
  "establish [] established = (None, established)"
| "establish (c # cs) established =
     (if capability_is_known c \<and> descriptor_has_capability established c then establish cs established
      else if length established \<ge> BOOT_CAPABILITY_COUNT then (Some c, established)
      else establish cs (established @ [c]))"

definition append_receipt ::
  "'c boot_stage_descriptor \<Rightarrow> boot_stage_result \<Rightarrow> boot_ledger_status \<Rightarrow> 'c boot_ledger \<Rightarrow>
     boot_ledger_status \<times> 'c boot_ledger" where
  "append_receipt descriptor result receipt_status ledger =
     (if length (receipts ledger) \<ge> BOOT_LEDGER_RECEIPT_CAPACITY then
        (BOOT_LEDGER_STATUS_TOO_MANY_RECEIPTS,
         set_refusal (BOOT_LEDGER_STATUS_TOO_MANY_RECEIPTS, sd_id descriptor, BOOT_CAPABILITY_INVALID) ledger)
      else case establish (sr_provided result) (established_capabilities ledger) of
        (Some capability, established) \<Rightarrow>
          (BOOT_LEDGER_STATUS_RECEIPT_MISMATCH,
           set_refusal (BOOT_LEDGER_STATUS_RECEIPT_MISMATCH, sd_id descriptor, capability)
             (ledger\<lparr>established_capabilities := established\<rparr>))
      | (None, established) \<Rightarrow>
          let receipt = \<lparr>rc_stage_id = sd_id descriptor,
                         rc_sequence = (length (receipts ledger) + 1) mod 2 ^ 32,
                         rc_provided_capabilities = sr_provided result, rc_status = receipt_status,
                         rc_result = sr_result result, rc_proof_counters = sr_proof_counters result\<rparr>;
              skipped = (sr_result result = BOOT_RECEIPT_SKIPPED)
          in (BOOT_LEDGER_STATUS_OK,
              ledger\<lparr>established_capabilities := established,
                     receipts := receipts ledger @ [receipt],
                     executed_count := (if \<not> skipped then executed_count ledger + 1 else executed_count ledger),
                     degraded := (degraded ledger \<or>
                       (sr_result result \<noteq> BOOT_RECEIPT_RAN \<and>
                        (\<not> skipped \<or> \<not> skip_preserves_health descriptor))),
                     optional_skip_count := (if skipped then optional_skip_count ledger + 1
                                             else optional_skip_count ledger)\<rparr>))"

definition execute_stage ::
  "'c boot_stage_descriptor \<Rightarrow> 'c boot_context \<Rightarrow> 'c boot_ledger \<Rightarrow>
     boot_ledger_status \<times> 'c boot_context \<times> 'c boot_ledger" where
  "execute_stage descriptor context ledger =
     (let context = context\<lparr>stage_failure_detail := None\<rparr> in
      case missing_requirement ledger descriptor of
        Some missing \<Rightarrow>
          if sd_required descriptor then
            (BOOT_LEDGER_STATUS_STAGE_EXECUTED_BEFORE_REQUIREMENTS, context,
             set_refusal (BOOT_LEDGER_STATUS_STAGE_EXECUTED_BEFORE_REQUIREMENTS, sd_id descriptor, missing)
               ledger)
          else (case append_receipt descriptor (skip_result descriptor)
                       BOOT_LEDGER_STATUS_OPTIONAL_STAGE_SKIPPED ledger of
                  (status, ledger) \<Rightarrow> (status, context, ledger))
      | None \<Rightarrow>
      (case the (sd_execute descriptor) context fail_result of
         (context, result) \<Rightarrow>
           (case validate_result descriptor result of
              (status, bad_capability) \<Rightarrow>
                if status \<noteq> BOOT_LEDGER_STATUS_OK then
                  (status, context, set_refusal (status, sd_id descriptor, bad_capability) ledger)
                else if sr_result result = BOOT_RECEIPT_SKIPPED \<and> sd_required descriptor then
                  (BOOT_LEDGER_STATUS_REQUIRED_STAGE_SKIPPED, context,
                   set_refusal (BOOT_LEDGER_STATUS_REQUIRED_STAGE_SKIPPED, sd_id descriptor,
                       BOOT_CAPABILITY_INVALID)
                     (snd (append_receipt descriptor result BOOT_LEDGER_STATUS_REQUIRED_STAGE_SKIPPED ledger)))
                else if sr_result result = BOOT_RECEIPT_FAILED then
                  (let status = (if sd_required descriptor then BOOT_LEDGER_STATUS_REQUIRED_STAGE_FAILED
                                 else BOOT_LEDGER_STATUS_OPTIONAL_STAGE_FAILED);
                       ledger = snd (append_receipt descriptor result status ledger)
                   in if sd_required descriptor then
                        (status, context, set_refusal (status, sd_id descriptor, BOOT_CAPABILITY_INVALID) ledger)
                      else (BOOT_LEDGER_STATUS_OK, context, ledger\<lparr>degraded := True\<rparr>))
                else
                  (case append_receipt descriptor result
                          (if sr_result result = BOOT_RECEIPT_SKIPPED
                           then BOOT_LEDGER_STATUS_OPTIONAL_STAGE_SKIPPED else BOOT_LEDGER_STATUS_OK)
                          ledger of
                     (status, ledger) \<Rightarrow> (status, context, ledger)))))"

text \<open>The loop of \<open>boot_ledger_execute\<close> over the plan positions still to run.\<close>

fun execute_plan ::
  "nat list \<Rightarrow> 'c boot_context \<Rightarrow> 'c boot_ledger \<Rightarrow>
     boot_ledger_status \<times> 'c boot_context \<times> 'c boot_ledger" where
  "execute_plan [] context ledger = (BOOT_LEDGER_STATUS_OK, context, ledger)"
| "execute_plan (plan_index # rest) context ledger =
     (let descriptor = descriptors ledger ! (canonical_order ledger ! plan_index) in
      if sd_id descriptor \<noteq> validated_stage_ids ledger ! plan_index then
        (BOOT_LEDGER_STATUS_INSTALLED_PLAN_DIFFERS_VALIDATED_PLAN, context,
         set_refusal (BOOT_LEDGER_STATUS_INSTALLED_PLAN_DIFFERS_VALIDATED_PLAN, sd_id descriptor,
           BOOT_CAPABILITY_INVALID) ledger)
      else case execute_stage descriptor context ledger of
        (status, context, ledger) \<Rightarrow>
          if status \<noteq> BOOT_LEDGER_STATUS_OK then (status, context, ledger)
          else execute_plan rest context ledger)"

definition execute_ledger ::
  "'c boot_ledger \<Rightarrow> 'c boot_context \<Rightarrow> boot_ledger_status \<times> 'c boot_context \<times> 'c boot_ledger" where
  "execute_ledger ledger context =
     (let refuse = (\<lambda>status. (status, context,
            set_refusal (status, BOOT_STAGE_INVALID, BOOT_CAPABILITY_INVALID) ledger)) in
      if \<not> validated ledger then refuse BOOT_LEDGER_STATUS_NOT_VALIDATED
      else if executed ledger then refuse BOOT_LEDGER_STATUS_ALREADY_EXECUTED
      else if fingerprint_plan ledger \<noteq> validated_plan_fingerprint ledger
        then refuse BOOT_LEDGER_STATUS_PLAN_FINGERPRINT_MISMATCH
      else case execute_plan [0..<length (canonical_order ledger)] context
                  (ledger\<lparr>receipts := [], established_capabilities := [], executed_count := 0,
                          optional_skip_count := 0, degraded := False\<rparr>) of
        (status, context, ledger) \<Rightarrow>
          if status \<noteq> BOOT_LEDGER_STATUS_OK then (status, context, ledger)
          else (BOOT_LEDGER_STATUS_OK, context,
                ledger\<lparr>ledger_fingerprint := fingerprint_receipts ledger, executed := True,
                       ledger_status := BOOT_LEDGER_STATUS_OK\<rparr>))"

definition boot_ledger_execute ::
  "'c boot_ledger option \<Rightarrow> 'c boot_context option \<Rightarrow>
     boot_ledger_status \<times> 'c boot_context option \<times> 'c boot_ledger option" where
  "boot_ledger_execute ledger_pointer context_pointer =
     (case (ledger_pointer, context_pointer) of
        (Some ledger, Some context) \<Rightarrow>
          (case execute_ledger ledger context of
             (status, context, ledger) \<Rightarrow> (status, Some context, Some ledger))
      | _ \<Rightarrow> (BOOT_LEDGER_STATUS_NULL_ARGUMENT, context_pointer, ledger_pointer))"

section \<open>Checking the receipts\<close>

definition boot_ledger_planned_stage_at ::
  "'c boot_ledger option \<Rightarrow> nat \<Rightarrow> 'c boot_stage_descriptor option" where
  "boot_ledger_planned_stage_at ledger_pointer index =
     (case ledger_pointer of
        None \<Rightarrow> None
      | Some ledger \<Rightarrow>
          if index \<ge> length (canonical_order ledger) \<or>
             canonical_order ledger ! index \<ge> length (descriptors ledger) then None
          else Some (descriptors ledger ! (canonical_order ledger ! index)))"

definition boot_ledger_receipt_at ::
  "'c boot_ledger option \<Rightarrow> nat \<Rightarrow> boot_stage_receipt option" where
  "boot_ledger_receipt_at ledger_pointer index =
     (case ledger_pointer of
        None \<Rightarrow> None
      | Some ledger \<Rightarrow>
          if index \<ge> length (receipts ledger) then None else Some (receipts ledger ! index))"

definition boot_ledger_receipt_for ::
  "'c boot_ledger option \<Rightarrow> nat \<Rightarrow> boot_stage_receipt option" where
  "boot_ledger_receipt_for ledger_pointer stage =
     (case ledger_pointer of
        None \<Rightarrow> None
      | Some ledger \<Rightarrow>
          if \<not> stage_is_known stage then None
          else map_option (\<lambda>index. receipts ledger ! index)
            (find_from (\<lambda>index. rc_stage_id (receipts ledger ! index) = stage) 0
              (length (receipts ledger))))"

definition receipt_declared :: "'c boot_stage_descriptor \<Rightarrow> boot_stage_receipt \<Rightarrow> nat list" where
  "receipt_declared descriptor receipt =
     (if rc_result receipt = BOOT_RECEIPT_RAN then provided_capabilities descriptor
      else if rc_result receipt = BOOT_RECEIPT_SKIPPED then skipped_capabilities descriptor
      else [])"

definition check_provided ::
  "'c boot_stage_descriptor \<Rightarrow> boot_stage_receipt \<Rightarrow> nat \<Rightarrow> nat list \<Rightarrow> boot_refusal + nat list" where
  "check_provided descriptor receipt provided capabilities =
     (let capability = rc_provided_capabilities receipt ! provided in
      if \<not> capability_is_known capability
        then Inl (BOOT_LEDGER_STATUS_UNKNOWN_CAPABILITY, sd_id descriptor, capability)
      else if \<not> descriptor_has_capability (receipt_declared descriptor receipt) capability
        then Inl (BOOT_LEDGER_STATUS_UNDECLARED_CAPABILITY_PROVIDED, sd_id descriptor, capability)
      else if find_from (\<lambda>earlier. rc_provided_capabilities receipt ! earlier = capability) 0 provided \<noteq> None
        then Inl (BOOT_LEDGER_STATUS_RECEIPT_MISMATCH, sd_id descriptor, capability)
      else if descriptor_has_capability capabilities capability
        then Inl (BOOT_LEDGER_STATUS_DUPLICATE_CAPABILITY_PROVIDER, sd_id descriptor, capability)
      else if length capabilities \<ge> BOOT_CAPABILITY_COUNT
        then Inl (BOOT_LEDGER_STATUS_RECEIPT_MISMATCH, sd_id descriptor, capability)
      else Inr (capabilities @ [capability]))"

definition verify_receipt ::
  "'c boot_ledger \<Rightarrow> nat \<Rightarrow> nat list \<times> bool list \<Rightarrow> boot_refusal + nat list \<times> bool list" where
  "verify_receipt ledger index = (\<lambda>(capabilities, seen).
     let receipt = receipts ledger ! index in
     if \<not> stage_is_known (rc_stage_id receipt)
       then Inl (BOOT_LEDGER_STATUS_UNKNOWN_STAGE_IDENTIFIER, rc_stage_id receipt, BOOT_CAPABILITY_INVALID)
     else case boot_ledger_planned_stage_at (Some ledger) index of
       None \<Rightarrow> Inl (BOOT_LEDGER_STATUS_INSTALLED_PLAN_DIFFERS_VALIDATED_PLAN, rc_stage_id receipt,
                 BOOT_CAPABILITY_INVALID)
     | Some descriptor \<Rightarrow>
     if rc_stage_id receipt \<noteq> sd_id descriptor \<or> rc_sequence receipt \<noteq> index + 1 \<or>
        seen ! rc_stage_id receipt
       then Inl (BOOT_LEDGER_STATUS_INSTALLED_PLAN_DIFFERS_VALIDATED_PLAN, rc_stage_id receipt,
              BOOT_CAPABILITY_INVALID)
     else
       let seen = seen[rc_stage_id receipt := True];
           mismatch = Inl (BOOT_LEDGER_STATUS_RECEIPT_MISMATCH, sd_id descriptor, BOOT_CAPABILITY_INVALID);
           declared = receipt_declared descriptor receipt
       in if length (rc_provided_capabilities receipt) > BOOT_STAGE_CAPABILITY_CAPACITY \<or>
             length (rc_proof_counters receipt) > BOOT_STAGE_PROOF_COUNTER_CAPACITY \<or>
             (rc_result receipt = BOOT_RECEIPT_RAN \<and> rc_status receipt \<noteq> BOOT_LEDGER_STATUS_OK) \<or>
             (rc_result receipt = BOOT_RECEIPT_SKIPPED \<and>
              rc_status receipt \<noteq> BOOT_LEDGER_STATUS_OPTIONAL_STAGE_SKIPPED) \<or>
             (rc_result receipt = BOOT_RECEIPT_FAILED \<and>
              rc_status receipt \<noteq> BOOT_LEDGER_STATUS_OPTIONAL_STAGE_FAILED) \<or>
             rc_result receipt \<ge> BOOT_RECEIPT_RESULT_COUNT
            then mismatch
          else if sd_required descriptor \<and>
                  (rc_result receipt \<noteq> BOOT_RECEIPT_RAN \<or> rc_status receipt \<noteq> BOOT_LEDGER_STATUS_OK)
            then mismatch
          else case (if rc_result receipt = BOOT_RECEIPT_SKIPPED then None
                     else first_some (\<lambda>c. if \<not> descriptor_has_capability capabilities c then Some c else None)
                            (required_capabilities descriptor)) of
            Some capability \<Rightarrow>
              Inl (BOOT_LEDGER_STATUS_STAGE_EXECUTED_BEFORE_REQUIREMENTS, sd_id descriptor, capability)
          | None \<Rightarrow>
          if length (rc_provided_capabilities receipt) \<noteq> length declared then mismatch
          else (case fold_until (check_provided descriptor receipt)
                       [0..<length (rc_provided_capabilities receipt)] capabilities of
            Inl refusal \<Rightarrow> Inl refusal
          | Inr capabilities \<Rightarrow>
          (case first_some (\<lambda>c. if \<not> descriptor_has_capability (rc_provided_capabilities receipt) c
                                 then Some c else None) declared of
             Some capability \<Rightarrow> Inl (BOOT_LEDGER_STATUS_RECEIPT_MISMATCH, sd_id descriptor, capability)
           | None \<Rightarrow> Inr (capabilities, seen))))"

definition verify_receipt_set :: "'c boot_ledger \<Rightarrow> boot_ledger_status \<times> 'c boot_ledger" where
  "verify_receipt_set ledger =
     (let refuse = (\<lambda>refusal. (fst refusal, set_refusal refusal ledger));
          mismatch = (\<lambda>capability. refuse (BOOT_LEDGER_STATUS_RECEIPT_MISMATCH, BOOT_STAGE_INVALID, capability))
      in if length (receipts ledger) \<noteq> length (canonical_order ledger)
           then mismatch BOOT_CAPABILITY_INVALID
         else case fold_until (verify_receipt ledger) [0..<length (receipts ledger)]
                     ([], replicate BOOT_STAGE_COUNT False) of
           Inl refusal \<Rightarrow> refuse refusal
         | Inr (capabilities, seen) \<Rightarrow>
             if length capabilities \<noteq> length (established_capabilities ledger)
               then mismatch BOOT_CAPABILITY_INVALID
             else case first_some (\<lambda>c. if \<not> boot_ledger_has_capability (Some ledger) c then Some c else None)
                         capabilities of
               Some capability \<Rightarrow> mismatch capability
             | None \<Rightarrow> (BOOT_LEDGER_STATUS_OK, ledger))"

end
