(* ===== verification/Boot_Ledger_Plan.thy ===== *)
theory Boot_Ledger_Plan
  imports Boot_Ledger "HOL-Library.Multiset"
begin

text \<open>
  What \<open>boot_ledger_validate\<close> accepts and which plan it computes.  The passes are
  characterised one by one; a plan is accepted exactly when it satisfies the declarative
  conditions of \<open>plan_accepted\<close>, and the order is the unique greedy order of the set of
  descriptors, whatever order they were registered in.
\<close>

section \<open>Well-formed stages and the provider table\<close>

lemma has_capability_iff [simp]: "descriptor_has_capability cs c \<longleftrightarrow> c \<in> set cs"
  by (auto simp: descriptor_has_capability_def find_from_None_iff in_set_conv_nth)

lemma descriptor_requires_iff [simp]:
  "descriptor_requires d c \<longleftrightarrow> c \<in> set (required_capabilities d)"
  by (simp add: descriptor_requires_def)

definition offered :: "'c boot_stage_descriptor \<Rightarrow> nat list" where
  "offered d = provided_capabilities d @ skipped_capabilities d"

definition stage_well_formed :: "'c boot_stage_descriptor \<Rightarrow> bool" where
  "stage_well_formed d \<longleftrightarrow>
     stage_is_known (sd_id d) \<and> sd_phase d < BOOT_PHASE_COUNT \<and>
     irreversible_class d < BOOT_IRREVERSIBLE_COUNT \<and> sd_name d \<noteq> None \<and> sd_execute d \<noteq> None \<and>
     length (required_capabilities d) \<le> BOOT_STAGE_CAPABILITY_CAPACITY \<and>
     length (provided_capabilities d) \<le> BOOT_STAGE_CAPABILITY_CAPACITY \<and>
     length (skipped_capabilities d) \<le> BOOT_STAGE_CAPABILITY_CAPACITY \<and>
     (skip_preserves_health d \<longrightarrow> \<not> sd_required d \<and> skipped_capabilities d \<noteq> []) \<and>
     distinct (required_capabilities d) \<and> list_all capability_is_known (required_capabilities d) \<and>
     distinct (provided_capabilities d) \<and> distinct (skipped_capabilities d) \<and>
     list_all capability_is_known (offered d)"

lemma distinct_conv_earlier:
  "distinct xs \<longleftrightarrow> (\<forall>i < length xs. \<forall>j < i. xs ! j \<noteq> xs ! i)"
proof
  assume *: "\<forall>i < length xs. \<forall>j < i. xs ! j \<noteq> xs ! i"
  have "xs ! i \<noteq> xs ! j" if "i < length xs" "j < length xs" "i \<noteq> j" for i j
    using * that by (metis linorder_neqE_nat)
  then show "distinct xs" by (simp add: distinct_conv_nth)
qed (auto simp: distinct_conv_nth)

lemma distinct_take_mono: "distinct (take m xs) \<Longrightarrow> k \<le> m \<Longrightarrow> distinct (take k xs)"
  using distinct_take [of "take m xs" k] by (simp add: min_def)

lemma requirements_checked:
  "first_some (check_requirement d) [0..<length (required_capabilities d)] = None \<longleftrightarrow>
     distinct (required_capabilities d) \<and> list_all capability_is_known (required_capabilities d)"
  by (auto simp: first_some_None_iff check_requirement_def Let_def find_from_None_iff
      distinct_conv_earlier list_all_length)

definition overlay :: "nat \<Rightarrow> nat set \<Rightarrow> nat list \<Rightarrow> nat list" where
  "overlay i S P = map (\<lambda>c. if c \<in> S then i else P ! c) [0..<length P]"

lemma length_overlay [simp]: "length (overlay i S P) = length P"
  by (simp add: overlay_def)

lemma nth_overlay [simp]:
  "c < length P \<Longrightarrow> overlay i S P ! c = (if c \<in> S then i else P ! c)"
  by (simp add: overlay_def)

lemma overlay_empty [simp]: "overlay i {} P = P"
  by (rule nth_equalityI) simp_all

lemma overlay_insert:
  "c < length P \<Longrightarrow> (overlay i S P)[c := i] = overlay i (insert c S) P"
  by (rule nth_equalityI) (auto simp: nth_list_update)

lemma known_less: "capability_is_known c \<Longrightarrow> c < BOOT_CAPABILITY_COUNT"
  by (simp add: capability_is_known_def)

lemma take_Suc_offered:
  assumes "k < length (offered d)"
  shows "set (take (Suc k) (offered d)) = insert (offered d ! k) (set (take k (offered d)))"
  using assms by (simp add: take_Suc_conv_app_nth)

text \<open>One round of the provider loop after the first \<open>k\<close> offers were noted for stage \<open>i\<close>.\<close>

definition offers_ok :: "'c boot_stage_descriptor \<Rightarrow> nat list \<Rightarrow> nat \<Rightarrow> bool" where
  "offers_ok d P k \<longleftrightarrow>
     (\<forall>c \<in> set (take k (offered d)). capability_is_known c \<and> P ! c = BOOT_NO_PROVIDER) \<and>
     distinct (take k (provided_capabilities d)) \<and>
     distinct (take (k - length (provided_capabilities d)) (skipped_capabilities d))"

lemma note_provider_step:
  assumes i: "i \<noteq> BOOT_NO_PROVIDER" and len: "length P = BOOT_CAPABILITY_COUNT"
    and k: "k < length (offered d)" and ok: "offers_ok d P k"
  shows "note_provider i d k (overlay i (set (take k (offered d))) P) = Inr P' \<longleftrightarrow>
     offers_ok d P (Suc k) \<and> P' = overlay i (set (take (Suc k) (offered d))) P"
proof -
  let ?np = "length (provided_capabilities d)"
  let ?c = "offered d ! k" and ?S = "set (take k (offered d))"
  let ?Q = "overlay i ?S P"
  have c: "(if k \<ge> ?np then skipped_capabilities d ! (if k \<ge> ?np then k - ?np else k)
            else provided_capabilities d ! (if k \<ge> ?np then k - ?np else k)) = ?c"
    by (simp add: offered_def nth_append)
  show ?thesis
  proof (cases "capability_is_known ?c")
    case False
    then show ?thesis using k
      by (simp add: note_provider_def Let_def c [simplified] offers_ok_def take_Suc_offered)
  next
    case True
    then have cl: "?c < length P" using len known_less by simp
    show ?thesis
    proof (cases "k < ?np")
      case kp: True
      then have cp: "?c = provided_capabilities d ! k" by (simp add: offered_def nth_append)
      have S: "?S = set (take k (provided_capabilities d))" using kp by (simp add: offered_def)
      have "note_provider i d k ?Q = Inr P' \<longleftrightarrow> ?Q ! ?c = BOOT_NO_PROVIDER \<and> P' = ?Q[?c := i]"
        using kp True cp by (auto simp: note_provider_def Let_def)
      also have "?Q ! ?c = BOOT_NO_PROVIDER \<longleftrightarrow> ?c \<notin> ?S \<and> P ! ?c = BOOT_NO_PROVIDER"
        using i cl by simp
      also have "?Q[?c := i] = overlay i (set (take (Suc k) (offered d))) P"
        using cl k by (simp add: overlay_insert take_Suc_offered)
      finally show ?thesis
        using ok kp True cp S k unfolding offers_ok_def take_Suc_offered [OF k]
        by (auto simp: take_Suc_conv_app_nth)
    next
      case False
      define q where "q = k - ?np"
      have q: "q < length (skipped_capabilities d)" and cs: "?c = skipped_capabilities d ! q"
        and S: "?S = set (provided_capabilities d) \<union> set (take q (skipped_capabilities d))"
        using False k by (auto simp: offered_def nth_append q_def)
      have kq: "Suc k - ?np = Suc q" using False by (simp add: q_def)
      have "note_provider i d k ?Q = Inr P' \<longleftrightarrow>
              (if ?Q ! ?c = BOOT_NO_PROVIDER then P' = ?Q[?c := i]
               else ?Q ! ?c = i \<and> ?c \<in> set (provided_capabilities d) \<and>
                    ?c \<notin> set (take q (skipped_capabilities d)) \<and> P' = ?Q)"
        using False True cs by (auto simp: note_provider_def Let_def q_def)
      also have "\<dots> \<longleftrightarrow> (P ! ?c = BOOT_NO_PROVIDER \<and> ?c \<notin> set (take q (skipped_capabilities d))) \<and>
                     P' = overlay i (insert ?c ?S) P"
        using ok cl i S by (auto simp: overlay_insert insert_absorb offers_ok_def)
      finally show ?thesis
        using ok True cs S k q kq False unfolding offers_ok_def take_Suc_offered [OF k]
        by (auto simp: take_Suc_conv_app_nth q_def)
    qed
  qed
qed

lemma note_providers:
  assumes i: "i \<noteq> BOOT_NO_PROVIDER" and len: "length P = BOOT_CAPABILITY_COUNT"
  shows "k \<le> length (offered d) \<Longrightarrow>
     fold_until (note_provider i d) [0..<k] P = Inr P' \<longleftrightarrow>
     offers_ok d P k \<and> P' = overlay i (set (take k (offered d))) P"
proof (induction k arbitrary: P')
  case 0
  show ?case by (auto simp: offers_ok_def)
next
  case (Suc k)
  then have k: "k < length (offered d)" by simp
  have mono: "offers_ok d P (Suc k) \<Longrightarrow> offers_ok d P k"
    unfolding offers_ok_def take_Suc_offered [OF k]
    by (auto intro: distinct_take_mono [of "Suc k"] distinct_take_mono [of "Suc k - _"])
  show ?case
  proof (cases "offers_ok d P k")
    case True
    with Suc.IH k have "fold_until (note_provider i d) [0..<k] P =
        Inr (overlay i (set (take k (offered d))) P)" by simp
    then show ?thesis
      unfolding fold_until_upt_Suc using note_provider_step [OF i len k True] by simp
  next
    case False
    with Suc.IH k have "\<nexists>Q. fold_until (note_provider i d) [0..<k] P = Inr Q" by simp
    then show ?thesis unfolding fold_until_upt_Suc using False mono
      by (auto split: sum.splits)
  qed
qed

section \<open>The stage pass\<close>

lemma offers_ok_all:
  "offers_ok d P (length (offered d)) \<longleftrightarrow>
     (\<forall>c \<in> set (offered d). capability_is_known c \<and> P ! c = BOOT_NO_PROVIDER) \<and>
     distinct (provided_capabilities d) \<and> distinct (skipped_capabilities d)"
  by (simp add: offers_ok_def) (simp add: offered_def)

lemma check_stage_ok:
  assumes "i \<noteq> BOOT_NO_PROVIDER" "length P = BOOT_CAPABILITY_COUNT"
  shows "check_stage ds i P = Inr P' \<longleftrightarrow>
     stage_well_formed (ds ! i) \<and> (\<forall>j < i. sd_id (ds ! j) \<noteq> sd_id (ds ! i)) \<and>
     (\<forall>c \<in> set (offered (ds ! i)). P ! c = BOOT_NO_PROVIDER) \<and>
     P' = overlay i (set (offered (ds ! i))) P"
proof -
  have noted: "fold_until (note_provider i (ds ! i))
      [0..<length (provided_capabilities (ds ! i)) + length (skipped_capabilities (ds ! i))] P = Inr P' \<longleftrightarrow>
      offers_ok (ds ! i) P (length (offered (ds ! i))) \<and> P' = overlay i (set (offered (ds ! i))) P"
    using note_providers [OF assms order_refl, of "ds ! i" P'] by (simp add: offered_def)
  have "check_stage ds i P = Inr P' \<longleftrightarrow>
     stage_is_known (sd_id (ds ! i)) \<and>
     sd_phase (ds ! i) < BOOT_PHASE_COUNT \<and> irreversible_class (ds ! i) < BOOT_IRREVERSIBLE_COUNT \<and>
     sd_name (ds ! i) \<noteq> None \<and> sd_execute (ds ! i) \<noteq> None \<and>
     length (required_capabilities (ds ! i)) \<le> BOOT_STAGE_CAPABILITY_CAPACITY \<and>
     length (provided_capabilities (ds ! i)) \<le> BOOT_STAGE_CAPABILITY_CAPACITY \<and>
     length (skipped_capabilities (ds ! i)) \<le> BOOT_STAGE_CAPABILITY_CAPACITY \<and>
     (skip_preserves_health (ds ! i) \<longrightarrow>
        \<not> sd_required (ds ! i) \<and> skipped_capabilities (ds ! i) \<noteq> []) \<and>
     (\<forall>j < i. sd_id (ds ! j) \<noteq> sd_id (ds ! i)) \<and>
     first_some (check_requirement (ds ! i)) [0..<length (required_capabilities (ds ! i))] = None \<and>
     fold_until (note_provider i (ds ! i))
      [0..<length (provided_capabilities (ds ! i)) + length (skipped_capabilities (ds ! i))] P = Inr P'"
    by (simp add: check_stage_def Let_def find_from_None_iff not_le not_less split: option.splits)
       (smt (verit) linorder_not_le)
  then show ?thesis
    unfolding noted requirements_checked offers_ok_all stage_well_formed_def list_all_iff by blast
qed

definition stages_ok :: "'c boot_stage_descriptor list \<Rightarrow> nat \<Rightarrow> bool" where
  "stages_ok ds n \<longleftrightarrow>
     (\<forall>i < n. stage_well_formed (ds ! i)) \<and>
     (\<forall>i < n. \<forall>j < i. sd_id (ds ! j) \<noteq> sd_id (ds ! i) \<and>
        set (offered (ds ! j)) \<inter> set (offered (ds ! i)) = {})"

primrec provider_table :: "'c boot_stage_descriptor list \<Rightarrow> nat \<Rightarrow> nat list" where
  "provider_table ds 0 = replicate BOOT_CAPABILITY_COUNT BOOT_NO_PROVIDER"
| "provider_table ds (Suc n) = overlay n (set (offered (ds ! n))) (provider_table ds n)"

lemma length_provider_table [simp]: "length (provider_table ds n) = BOOT_CAPABILITY_COUNT"
  by (induction n) simp_all

lemma provider_table_none:
  "c < BOOT_CAPABILITY_COUNT \<Longrightarrow> n \<le> BOOT_NO_PROVIDER \<Longrightarrow>
     provider_table ds n ! c = BOOT_NO_PROVIDER \<longleftrightarrow> (\<forall>i < n. c \<notin> set (offered (ds ! i)))"
  by (induction n) (auto simp: less_Suc_eq)

lemma offered_known:
  "stage_well_formed d \<Longrightarrow> c \<in> set (offered d) \<Longrightarrow> c < BOOT_CAPABILITY_COUNT"
  by (auto simp: stage_well_formed_def list_all_iff dest: known_less)

lemma required_known:
  "stage_well_formed d \<Longrightarrow> c \<in> set (required_capabilities d) \<Longrightarrow> c < BOOT_CAPABILITY_COUNT"
  by (auto simp: stage_well_formed_def list_all_iff dest: known_less)

lemma provider_table_at:
  "stages_ok ds n \<Longrightarrow> i < n \<Longrightarrow> c \<in> set (offered (ds ! i)) \<Longrightarrow> provider_table ds n ! c = i"
proof (induction n)
  case (Suc n)
  then have c: "c < BOOT_CAPABILITY_COUNT" by (auto simp: stages_ok_def intro: offered_known)
  have "stages_ok ds n" using Suc.prems(1) by (auto simp: stages_ok_def)
  moreover have "i < n \<Longrightarrow> c \<notin> set (offered (ds ! n))" using Suc.prems by (auto simp: stages_ok_def)
  ultimately show ?case using Suc c by (auto simp: less_Suc_eq)
qed simp

lemma check_stages_prefix:
  "n \<le> BOOT_NO_PROVIDER \<Longrightarrow>
   fold_until (check_stage ds) [0..<n] (replicate BOOT_CAPABILITY_COUNT BOOT_NO_PROVIDER) = Inr P \<longleftrightarrow>
     stages_ok ds n \<and> P = provider_table ds n"
proof (induction n arbitrary: P)
  case 0
  show ?case by (auto simp: stages_ok_def)
next
  case (Suc n)
  then have n: "n \<noteq> BOOT_NO_PROVIDER" "n \<le> BOOT_NO_PROVIDER" by auto
  have free: "(\<forall>c \<in> set (offered (ds ! n)). provider_table ds n ! c = BOOT_NO_PROVIDER) \<longleftrightarrow>
      (\<forall>j < n. set (offered (ds ! j)) \<inter> set (offered (ds ! n)) = {})" if "stage_well_formed (ds ! n)"
    using provider_table_none [OF offered_known [OF that] n(2)] by (auto simp: disjoint_iff)
  show ?case
  proof (cases "stages_ok ds n")
    case True
    with Suc n have "fold_until (check_stage ds) [0..<n]
        (replicate BOOT_CAPABILITY_COUNT BOOT_NO_PROVIDER) = Inr (provider_table ds n)" by simp
    then show ?thesis using True free
      unfolding fold_until_upt_Suc
      by (auto simp: check_stage_ok [OF n(1)] stages_ok_def less_Suc_eq)
  next
    case False
    with Suc n have "\<nexists>Q. fold_until (check_stage ds) [0..<n]
        (replicate BOOT_CAPABILITY_COUNT BOOT_NO_PROVIDER) = Inr Q" by simp
    moreover have "\<not> stages_ok ds (Suc n)"
      using False unfolding stages_ok_def by (meson less_SucI)
    ultimately show ?thesis unfolding fold_until_upt_Suc by (auto split: sum.splits)
  qed
qed

lemma check_stages_ok:
  "length ds \<le> BOOT_NO_PROVIDER \<Longrightarrow>
     check_stages ds = Inr P \<longleftrightarrow> stages_ok ds (length ds) \<and> P = provider_table ds (length ds)"
  by (simp add: check_stages_def check_stages_prefix)

text \<open>The same conditions on the set of descriptors.\<close>

definition stages_consistent :: "'c boot_stage_descriptor list \<Rightarrow> bool" where
  "stages_consistent ds \<longleftrightarrow>
     distinct (map sd_id ds) \<and> (\<forall>d \<in> set ds. stage_well_formed d) \<and>
     (\<forall>d \<in> set ds. \<forall>e \<in> set ds. d \<noteq> e \<longrightarrow> set (offered d) \<inter> set (offered e) = {})"

lemma stages_ok_iff: "stages_ok ds (length ds) \<longleftrightarrow> stages_consistent ds"
proof
  assume ok: "stages_ok ds (length ds)"
  have "set (offered d) \<inter> set (offered e) = {}" if "d \<in> set ds" "e \<in> set ds" "d \<noteq> e" for d e
  proof -
    from that obtain i j where "i < length ds" "j < length ds" "d = ds ! i" "e = ds ! j" "i \<noteq> j"
      by (metis in_set_conv_nth)
    with ok show ?thesis unfolding stages_ok_def by (metis inf_commute linorder_neqE_nat)
  qed
  with ok show "stages_consistent ds"
    by (auto simp: stages_consistent_def stages_ok_def distinct_conv_earlier in_set_conv_nth)
next
  assume ok: "stages_consistent ds"
  then have "sd_id (ds ! j) \<noteq> sd_id (ds ! i)" if "j < i" "i < length ds" for i j
    using that by (auto simp: stages_consistent_def distinct_conv_earlier)
  with ok show "stages_ok ds (length ds)"
    unfolding stages_consistent_def stages_ok_def
    by (metis nth_mem order_less_trans)
qed

section \<open>The planning loop\<close>

text \<open>
  A descriptor is ready once everything it requires is offered by a planned one; the
  loop takes the ready descriptor of the least phase, and of the least id within it.
\<close>

definition ready :: "'c boot_stage_descriptor set \<Rightarrow> 'c boot_stage_descriptor set \<Rightarrow>
    'c boot_stage_descriptor \<Rightarrow> bool" where
  "ready D done d \<longleftrightarrow> d \<in> D - done \<and>
     (\<forall>c \<in> set (required_capabilities d). \<exists>e \<in> done. c \<in> set (offered e))"

definition not_after :: "'c boot_stage_descriptor \<Rightarrow> 'c boot_stage_descriptor \<Rightarrow> bool" where
  "not_after d e \<longleftrightarrow> sd_phase d < sd_phase e \<or> sd_phase d = sd_phase e \<and> sd_id d \<le> sd_id e"

definition greedy :: "'c boot_stage_descriptor set \<Rightarrow> 'c boot_stage_descriptor list \<Rightarrow> bool" where
  "greedy D xs \<longleftrightarrow> (\<forall>k < length xs. ready D (set (take k xs)) (xs ! k) \<and>
     (\<forall>e. ready D (set (take k xs)) e \<longrightarrow> not_after (xs ! k) e))"

definition deadlocked :: "'c boot_stage_descriptor set \<Rightarrow> bool" where
  "deadlocked S \<longleftrightarrow> S \<noteq> {} \<and>
     (\<forall>d \<in> S. \<exists>c \<in> set (required_capabilities d). \<exists>e \<in> S. c \<in> set (offered e))"

definition best_ready ::
  "'c boot_stage_descriptor list \<Rightarrow> nat list \<Rightarrow> bool list \<Rightarrow> nat \<Rightarrow> nat \<Rightarrow> bool" where
  "best_ready ds P planned n s \<longleftrightarrow>
     (if s = BOOT_NO_PROVIDER then \<forall>i < n. \<not> stage_ready ds P planned i
      else s < n \<and> stage_ready ds P planned s \<and>
           (\<forall>i < n. stage_ready ds P planned i \<longrightarrow> not_after (ds ! s) (ds ! i)))"

lemma select_step_best:
  assumes "best_ready ds P planned n s" and n: "n \<noteq> BOOT_NO_PROVIDER"
  shows "best_ready ds P planned (Suc n) (select_step ds P planned n s)"
proof (cases "s = BOOT_NO_PROVIDER")
  case True
  with assms show ?thesis
    by (auto simp: best_ready_def select_step_def less_Suc_eq not_after_def)
next
  case False
  with assms show ?thesis
    by (auto simp: best_ready_def select_step_def less_Suc_eq not_after_def)
qed

lemma select_stage_best:
  assumes "length ds \<le> BOOT_NO_PROVIDER"
  shows "best_ready ds P planned (length ds) (select_stage ds P planned)"
proof -
  have "n \<le> BOOT_NO_PROVIDER \<Longrightarrow>
      best_ready ds P planned n (fold (select_step ds P planned) [0..<n] BOOT_NO_PROVIDER)" for n
  proof (induction n)
    case (Suc n)
    then show ?case using select_step_best [of ds P planned n] by simp
  qed (simp add: best_ready_def)
  with assms show ?thesis by (simp add: select_stage_def)
qed

lemma stages_consistent_distinct: "stages_consistent ds \<Longrightarrow> distinct ds"
  by (simp add: stages_consistent_def distinct_map)

lemma provider_table_planned:
  assumes ok: "stages_consistent ds" and len: "length ds \<le> BOOT_NO_PROVIDER"
    and c: "c < BOOT_CAPABILITY_COUNT"
  shows "provider_table ds (length ds) ! c \<noteq> BOOT_NO_PROVIDER \<and> Q (provider_table ds (length ds) ! c)
     \<longleftrightarrow> (\<exists>i < length ds. Q i \<and> c \<in> set (offered (ds ! i)))"
proof -
  have at: "provider_table ds (length ds) ! c = i" if "i < length ds" "c \<in> set (offered (ds ! i))" for i
    using provider_table_at that ok by (metis stages_ok_iff)
  show ?thesis using provider_table_none [OF c len, of ds] at by metis
qed

definition planning :: "'c boot_stage_descriptor list \<Rightarrow> bool list \<Rightarrow> nat list \<Rightarrow> bool" where
  "planning ds planned order \<longleftrightarrow>
     length planned = BOOT_LEDGER_STAGE_CAPACITY \<and> distinct order \<and> set order \<subseteq> {..<length ds} \<and>
     (\<forall>i < length ds. planned ! i \<longleftrightarrow> i \<in> set order) \<and>
     greedy (set ds) (map ((!) ds) order)"

lemma planned_mem:
  assumes ok: "stages_consistent ds" and "planning ds planned order" "j < length ds"
  shows "ds ! j \<in> set (map ((!) ds) order) \<longleftrightarrow> planned ! j"
  using assms(2,3) stages_consistent_distinct [OF ok]
  by (auto simp: planning_def nth_eq_iff_index_eq subset_iff image_iff)

lemma stage_ready_iff:
  assumes ok: "stages_consistent ds" and len: "length ds \<le> BOOT_NO_PROVIDER"
    and pl: "planning ds planned order" and i: "i < length ds"
  shows "stage_ready ds (provider_table ds (length ds)) planned i \<longleftrightarrow>
     ready (set ds) (set (map ((!) ds) order)) (ds ! i)"
proof -
  have wf: "stage_well_formed (ds ! i)" using ok i by (simp add: stages_consistent_def)
  have "provider_table ds (length ds) ! c \<noteq> BOOT_NO_PROVIDER \<and>
        planned ! (provider_table ds (length ds) ! c) \<longleftrightarrow>
        (\<exists>e \<in> (!) ds ` set order. c \<in> set (offered e))"
    if "c \<in> set (required_capabilities (ds ! i))" for c
    using provider_table_planned [OF ok len required_known [OF wf that], where Q = "(!) planned"] pl
    by (auto simp: planning_def subset_iff)
  with planned_mem [OF ok pl i] i show ?thesis
    by (auto simp: stage_ready_def ready_def list_all_iff)
qed

lemma greedy_snoc:
  "greedy D (xs @ [x]) \<longleftrightarrow> greedy D xs \<and> ready D (set xs) x \<and> (\<forall>e. ready D (set xs) e \<longrightarrow> not_after x e)"
  by (auto simp: greedy_def less_Suc_eq nth_append)

lemma planning_step:
  assumes ok: "stages_consistent ds" and len: "length ds \<le> BOOT_NO_PROVIDER"
    and pl: "planning ds planned order"
    and sel: "select_stage ds (provider_table ds (length ds)) planned \<noteq> BOOT_NO_PROVIDER"
  shows "planning ds (planned[select_stage ds (provider_table ds (length ds)) planned := True])
     (order @ [select_stage ds (provider_table ds (length ds)) planned])"
proof -
  let ?P = "provider_table ds (length ds)"
  define s where "s = select_stage ds ?P planned"
  from select_stage_best [OF len, of ?P planned] sel
  have s: "s < length ds" "stage_ready ds ?P planned s"
      "\<forall>i < length ds. stage_ready ds ?P planned i \<longrightarrow> not_after (ds ! s) (ds ! i)"
    by (auto simp: s_def best_ready_def)
  have lens: "s < length planned" using s(1) len pl by (simp add: planning_def BOOT_NO_PROVIDER_def)
  have new: "s \<notin> set order" using s pl by (simp add: stage_ready_def planning_def)
  have least: "not_after (ds ! s) e" if "ready (set ds) (set (map ((!) ds) order)) e" for e
  proof -
    from that obtain i where "i < length ds" "e = ds ! i"
      by (auto simp: ready_def in_set_conv_nth)
    with that s(3) stage_ready_iff [OF ok len pl] show ?thesis by auto
  qed
  show ?thesis
    using pl s lens new least stage_ready_iff [OF ok len pl s(1)] unfolding s_def [symmetric]
    by (auto simp: planning_def greedy_snoc nth_list_update)
qed

text \<open>
  The loop ends with a complete greedy order, or stops at a set of stages each of which
  waits for another one of the set.
\<close>

lemma plan_stages_outcome:
  assumes ok: "stages_consistent ds" and len: "length ds \<le> BOOT_NO_PROVIDER"
    and "planning ds planned order" "length order \<le> length ds"
  shows "case plan_stages ds (provider_table ds (length ds)) planned order of
       (None, order') \<Rightarrow> length order' = length ds \<and> (\<exists>planned'. planning ds planned' order')
     | (Some refusal, order') \<Rightarrow> (\<exists>planned'. planning ds planned' order' \<and> length order' < length ds \<and>
          (\<forall>d. \<not> ready (set ds) (set (map ((!) ds) order')) d) \<and>
          refusal = (BOOT_LEDGER_STATUS_CAPABILITY_DEPENDENCY_CYCLE, cycle_stage ds planned',
            BOOT_CAPABILITY_INVALID))"
  using assms(3,4)
proof (induction "length ds - length order" arbitrary: planned order)
  case 0
  then show ?case by (auto simp: plan_stages.simps [of ds _ planned order])
next
  case (Suc n)
  let ?P = "provider_table ds (length ds)"
  let ?s = "select_stage ds ?P planned"
  have less: "length order < length ds" using Suc.hyps(2) by simp
  show ?case
  proof (cases "?s = BOOT_NO_PROVIDER")
    case True
    with select_stage_best [OF len, of ?P planned]
    have "\<forall>i < length ds. \<not> stage_ready ds ?P planned i" by (simp add: best_ready_def)
    then have "\<not> ready (set ds) (set (map ((!) ds) order)) d" for d
      using stage_ready_iff [OF ok len Suc.prems(1)] by (auto simp: ready_def in_set_conv_nth)
    with True less Suc.prems(1) show ?thesis
      by (auto simp: plan_stages.simps [of ds _ planned order])
  next
    case False
    have "n = length ds - length (order @ [?s])" "length (order @ [?s]) \<le> length ds"
      using Suc.hyps(2) less by auto
    note Suc.hyps(1) [OF this(1) planning_step [OF ok len Suc.prems(1) False] this(2)]
    then show ?thesis using False less
      by (simp add: plan_stages.simps [of ds _ planned order] Let_def)
  qed
qed

lemma greedy_take: "greedy D xs \<Longrightarrow> greedy D (take n xs)"
  by (auto simp: greedy_def min_def)

lemma greedy_unique:
  assumes ids: "inj_on sd_id D"
    and "greedy D xs" "greedy D ys" "length xs = length ys"
  shows "xs = ys"
proof -
  have "k \<le> length xs \<Longrightarrow> take k xs = take k ys" for k
  proof (induction k)
    case (Suc k)
    then have k: "k < length xs" "k < length ys" and eq: "take k xs = take k ys"
      using assms(4) by auto
    from assms(2,3) k
    have r: "ready D (set (take k xs)) (xs ! k)" "ready D (set (take k ys)) (ys ! k)"
        "\<forall>e. ready D (set (take k xs)) e \<longrightarrow> not_after (xs ! k) e"
        "\<forall>e. ready D (set (take k ys)) e \<longrightarrow> not_after (ys ! k) e"
      unfolding greedy_def by blast+
    then have "not_after (xs ! k) (ys ! k)" "not_after (ys ! k) (xs ! k)" by (simp_all add: eq)
    then have "sd_id (xs ! k) = sd_id (ys ! k)" by (auto simp: not_after_def)
    moreover have "xs ! k \<in> D" "ys ! k \<in> D" using r(1,2) by (simp_all add: ready_def)
    ultimately have "xs ! k = ys ! k" using ids by (auto dest: inj_onD)
    with eq k show ?case by (simp add: take_Suc_conv_app_nth)
  qed simp
  then show ?thesis using assms(4) by (metis order_refl take_all)
qed

lemma greedy_no_deadlock:
  assumes "greedy D xs" "S \<subseteq> set xs" "\<And>d e c. d \<in> D \<Longrightarrow> e \<in> D \<Longrightarrow>
      c \<in> set (offered d) \<Longrightarrow> c \<in> set (offered e) \<Longrightarrow> d = e" "set xs \<subseteq> D"
  shows "\<not> deadlocked S"
proof
  assume dl: "deadlocked S"
  define k where "k = (LEAST k. k < length xs \<and> xs ! k \<in> S)"
  have ex: "\<exists>k. k < length xs \<and> xs ! k \<in> S"
    using dl assms(2) by (fastforce simp: deadlocked_def in_set_conv_nth subset_iff)
  have k: "k < length xs" "xs ! k \<in> S" using LeastI_ex [OF ex] by (auto simp: k_def)
  have early: "xs ! j \<notin> S" if "j < k" for j
    using not_less_Least [of j "\<lambda>k. k < length xs \<and> xs ! k \<in> S"] that k(1) by (auto simp: k_def)
  from dl k(2) obtain c e where c: "c \<in> set (required_capabilities (xs ! k))" "e \<in> S" "c \<in> set (offered e)"
    unfolding deadlocked_def by blast
  from assms(1) k(1) have "ready D (set (take k xs)) (xs ! k)" by (simp add: greedy_def)
  with c(1) obtain e' where e': "e' \<in> set (take k xs)" "c \<in> set (offered e')" by (auto simp: ready_def)
  have "e' = e"
    using assms(3) [of e' e c] e' c assms(2,4) by (meson in_set_takeD subsetD)
  with e'(1) c(2) k(1) early show False by (auto simp: in_set_conv_nth)
qed

lemma stuck_deadlocked:
  assumes "\<forall>d. \<not> ready D done d" "done \<subset> D"
    and "\<And>d c. d \<in> D \<Longrightarrow> c \<in> set (required_capabilities d) \<Longrightarrow> \<exists>e \<in> D. c \<in> set (offered e)"
  shows "deadlocked (D - done)"
  unfolding deadlocked_def
proof (intro conjI ballI)
  show "D - done \<noteq> {}" using assms(2) by auto
  fix d
  assume d: "d \<in> D - done"
  with assms(1) obtain c where c: "c \<in> set (required_capabilities d)" "\<forall>e \<in> done. c \<notin> set (offered e)"
    by (auto simp: ready_def)
  with assms(3) [of d c] d
  show "\<exists>c \<in> set (required_capabilities d). \<exists>e \<in> D - done. c \<in> set (offered e)" by blast
qed

lemma offered_unique:
  "stages_consistent ds \<Longrightarrow> d \<in> set ds \<Longrightarrow> e \<in> set ds \<Longrightarrow>
     c \<in> set (offered d) \<Longrightarrow> c \<in> set (offered e) \<Longrightarrow> d = e"
  unfolding stages_consistent_def by (meson disjoint_iff)

lemma planning_start:
  "length ds \<le> BOOT_NO_PROVIDER \<Longrightarrow> planning ds (replicate BOOT_LEDGER_STAGE_CAPACITY False) []"
  by (auto simp: planning_def greedy_def BOOT_NO_PROVIDER_def)

lemma planning_complete:
  assumes "planning ds planned order" "length order = length ds"
  shows "set order = {..<length ds}"
  using assms card_subset_eq [of "{..<length ds}" "set order"]
  by (simp add: planning_def distinct_card)

lemma planning_complete_set:
  assumes "planning ds planned order" "length order = length ds"
  shows "set (map ((!) ds) order) = set ds"
  unfolding set_map planning_complete [OF assms] by (auto simp: set_conv_nth)

lemma planning_partial:
  assumes ok: "stages_consistent ds" and pl: "planning ds planned order" "length order < length ds"
  shows "set (map ((!) ds) order) \<subset> set ds"
proof -
  have "set (map ((!) ds) order) \<subseteq> set ds" using pl(1) by (auto simp: planning_def)
  moreover have "card (set (map ((!) ds) order)) < card (set ds)"
    using pl(2) card_length [of "map ((!) ds) order"] stages_consistent_distinct [OF ok]
    by (simp add: distinct_card)
  ultimately show ?thesis unfolding psubset_eq by force
qed

text \<open>The complete plan, when nothing is missing: it exists exactly if no set of stages is deadlocked.\<close>

lemma plan_stages_complete_iff:
  assumes ok: "stages_consistent ds" and len: "length ds \<le> BOOT_NO_PROVIDER"
    and prov: "\<And>d c. d \<in> set ds \<Longrightarrow> c \<in> set (required_capabilities d) \<Longrightarrow>
                 \<exists>e \<in> set ds. c \<in> set (offered e)"
    and run: "plan_stages ds (provider_table ds (length ds))
                (replicate BOOT_LEDGER_STAGE_CAPACITY False) [] = (outcome, order)"
  shows "outcome = None \<longleftrightarrow> \<not> (\<exists>S \<subseteq> set ds. deadlocked S)"
proof -
  have start: "planning ds (replicate BOOT_LEDGER_STAGE_CAPACITY False) []"
    using len by (simp add: planning_start)
  note out = plan_stages_outcome [OF ok len start, unfolded run, simplified]
  show ?thesis
  proof (cases outcome)
    case None
    with out obtain planned where pl: "planning ds planned order" "length order = length ds" by auto
    then have "greedy (set ds) (map ((!) ds) order)" by (simp add: planning_def)
    from greedy_no_deadlock [OF this] offered_unique [OF ok] planning_complete_set [OF pl]
    have "\<not> deadlocked S" if "S \<subseteq> set ds" for S using that by (metis order_refl)
    with None show ?thesis by simp
  next
    case (Some refusal)
    with out obtain planned where pl: "planning ds planned order" "length order < length ds"
        "\<forall>d. \<not> ready (set ds) (set (map ((!) ds) order)) d" by auto
    from stuck_deadlocked [OF pl(3) planning_partial [OF ok pl(1,2)] prov]
    have "deadlocked (set ds - set (map ((!) ds) order))" .
    then have "\<exists>S \<subseteq> set ds. deadlocked S" using Diff_subset by blast
    with Some show ?thesis by simp
  qed
qed

section \<open>What validation accepts\<close>

definition plan_accepted :: "'c boot_stage_descriptor list \<Rightarrow> bool" where
  "plan_accepted ds \<longleftrightarrow> ds \<noteq> [] \<and> length ds \<le> BOOT_LEDGER_STAGE_CAPACITY \<and> stages_consistent ds \<and>
     (\<forall>d \<in> set ds. \<forall>c \<in> set (required_capabilities d).
        \<exists>e \<in> set ds. c \<in> set (offered e) \<and> sd_phase e \<le> sd_phase d) \<and>
     (\<forall>d \<in> set ds. set (irreversible_requirements (irreversible_class d)) \<subseteq> set (required_capabilities d)) \<and>
     \<not> (\<exists>S \<subseteq> set ds. deadlocked S)"

text \<open>The ledger an accepted validation leaves, for the order it planned.\<close>

definition planned_ledger :: "'c boot_ledger \<Rightarrow> nat list \<Rightarrow> 'c boot_ledger" where
  "planned_ledger ledger order =
     ledger\<lparr>validated := False, executed := False, canonical_order := order,
            validated_stage_ids := map (\<lambda>index. sd_id (descriptors ledger ! index)) order, receipts := [],
            refusal_stage := BOOT_STAGE_INVALID, refusal_capability := BOOT_CAPABILITY_INVALID\<rparr>"

definition validated_ledger :: "'c boot_ledger \<Rightarrow> nat list \<Rightarrow> 'c boot_ledger" where
  "validated_ledger ledger order = (planned_ledger ledger order)
     \<lparr>validated_plan_fingerprint := fingerprint_plan (planned_ledger ledger order),
      ledger_fingerprint := 0, validated := True, ledger_status := BOOT_LEDGER_STATUS_OK\<rparr>"

lemma fold_until_InlD: "fold_until f xs s = Inl e \<Longrightarrow> \<exists>x t. f x t = Inl e"
  by (induction xs arbitrary: s) (auto split: sum.splits)

lemma note_provider_refusal:
  "note_provider i d k P = Inl r \<Longrightarrow>
     fst r \<noteq> BOOT_LEDGER_STATUS_OK \<and> fst r \<noteq> BOOT_LEDGER_STATUS_CAPABILITY_DEPENDENCY_CYCLE"
  by (auto simp: note_provider_def Let_def split: if_splits)

lemma check_requirement_refusal:
  "check_requirement d k = Some r \<Longrightarrow>
     fst r \<noteq> BOOT_LEDGER_STATUS_OK \<and> fst r \<noteq> BOOT_LEDGER_STATUS_CAPABILITY_DEPENDENCY_CYCLE"
  by (auto simp: check_requirement_def Let_def split: if_splits)

lemma check_stage_refusal:
  "check_stage ds i P = Inl r \<Longrightarrow>
     fst r \<noteq> BOOT_LEDGER_STATUS_OK \<and> fst r \<noteq> BOOT_LEDGER_STATUS_CAPABILITY_DEPENDENCY_CYCLE"
  by (auto simp: check_stage_def Let_def split: if_splits option.splits
      dest!: fold_until_InlD first_some_SomeD dest: note_provider_refusal check_requirement_refusal)

lemma check_stages_refusal:
  "check_stages ds = Inl r \<Longrightarrow>
     fst r \<noteq> BOOT_LEDGER_STATUS_OK \<and> fst r \<noteq> BOOT_LEDGER_STATUS_CAPABILITY_DEPENDENCY_CYCLE"
  by (auto simp: check_stages_def dest!: fold_until_InlD dest: check_stage_refusal)

lemma pass_refusals:
  "first_some (check_missing P) ds = Some r \<Longrightarrow> fst r = BOOT_LEDGER_STATUS_MISSING_CAPABILITY_PROVIDER"
  "first_some (check_irreversible ds' P) ds = Some r \<Longrightarrow>
     fst r = BOOT_LEDGER_STATUS_IRREVERSIBLE_STAGE_ORDERED_TOO_EARLY"
  "first_some (check_phases ds' P) ds = Some r \<Longrightarrow> fst r = BOOT_LEDGER_STATUS_INVALID_PHASE_TRANSITION"
  by (auto simp: check_missing_def check_irreversible_def check_phases_def
      dest!: first_some_SomeD split: if_splits)

lemma plan_stages_refusal:
  "plan_stages ds P planned order = (Some r, order') \<Longrightarrow>
     fst r = BOOT_LEDGER_STATUS_CAPABILITY_DEPENDENCY_CYCLE"
proof (induction ds P planned order rule: plan_stages.induct)
  case (1 ds P planned order)
  then show ?case
    by (auto simp: plan_stages.simps [of ds P planned order] Let_def split: if_splits)
qed

lemma validate_ok_iff:
  "boot_ledger_validate (Some ledger) = (BOOT_LEDGER_STATUS_OK, result) \<longleftrightarrow>
     descriptors ledger \<noteq> [] \<and> length (descriptors ledger) \<le> BOOT_LEDGER_STAGE_CAPACITY \<and>
     (\<exists>P order. check_stages (descriptors ledger) = Inr P \<and>
        first_some (check_missing P) (descriptors ledger) = None \<and>
        first_some (check_irreversible (descriptors ledger) P) (descriptors ledger) = None \<and>
        plan_stages (descriptors ledger) P (replicate BOOT_LEDGER_STAGE_CAPACITY False) [] = (None, order) \<and>
        first_some (check_phases (descriptors ledger) P) (descriptors ledger) = None \<and>
        result = Some (validated_ledger ledger order))"
  by (auto simp: boot_ledger_validate_def Let_def validated_ledger_def planned_ledger_def not_less
      fingerprint_plan_def
      split: sum.splits option.splits prod.splits
      dest: check_stages_refusal pass_refusals plan_stages_refusal)

text \<open>The three passes over the requirements, on the set of descriptors.\<close>

lemma bex_set_nth: "(\<exists>x \<in> set xs. Q x) \<longleftrightarrow> (\<exists>i < length xs. Q (xs ! i))"
  by (metis in_set_conv_nth)

lemma check_missing_none:
  assumes ok: "stages_consistent ds" and len: "length ds \<le> BOOT_NO_PROVIDER"
  shows "first_some (check_missing (provider_table ds (length ds))) ds = None \<longleftrightarrow>
     (\<forall>d \<in> set ds. \<forall>c \<in> set (required_capabilities d). \<exists>e \<in> set ds. c \<in> set (offered e))"
proof -
  have "provider_table ds (length ds) ! c \<noteq> BOOT_NO_PROVIDER \<longleftrightarrow> (\<exists>e \<in> set ds. c \<in> set (offered e))"
    if "d \<in> set ds" "c \<in> set (required_capabilities d)" for d c
  proof -
    have "c < BOOT_CAPABILITY_COUNT" using required_known that ok by (auto simp: stages_consistent_def)
    from provider_table_planned [OF ok len this, of "\<lambda>_. True"] show ?thesis
      by (simp add: bex_set_nth)
  qed
  then show ?thesis
    by (auto simp: check_missing_def first_some_None_iff)
qed

lemma provider_descriptor:
  assumes "stages_consistent ds" "e \<in> set ds" "c \<in> set (offered e)"
  shows "ds ! (provider_table ds (length ds) ! c) = e"
proof -
  obtain i where "i < length ds" "e = ds ! i" using assms(2) by (auto simp: in_set_conv_nth)
  with provider_table_at [of ds "length ds" i c] assms show ?thesis by (simp add: stages_ok_iff)
qed

lemma provider_phase:
  assumes ok: "stages_consistent ds" and ex: "\<exists>e \<in> set ds. c \<in> set (offered e)"
  shows "sd_phase (ds ! (provider_table ds (length ds) ! c)) \<le> n \<longleftrightarrow>
     (\<exists>e \<in> set ds. c \<in> set (offered e) \<and> sd_phase e \<le> n)"
  using ex provider_descriptor [OF ok] by auto

lemma check_phases_none:
  assumes ok: "stages_consistent ds"
    and prov: "\<forall>d \<in> set ds. \<forall>c \<in> set (required_capabilities d). \<exists>e \<in> set ds. c \<in> set (offered e)"
  shows "first_some (check_phases ds (provider_table ds (length ds))) ds = None \<longleftrightarrow>
     (\<forall>d \<in> set ds. \<forall>c \<in> set (required_capabilities d).
        \<exists>e \<in> set ds. c \<in> set (offered e) \<and> sd_phase e \<le> sd_phase d)"
  using provider_phase [OF ok] prov
  by (auto simp: check_phases_def first_some_None_iff not_less [symmetric])

lemma check_irreversible_none:
  assumes ok: "stages_consistent ds" and len: "length ds \<le> BOOT_NO_PROVIDER"
    and prov: "\<forall>d \<in> set ds. \<forall>c \<in> set (required_capabilities d).
        \<exists>e \<in> set ds. c \<in> set (offered e) \<and> sd_phase e \<le> sd_phase d"
  shows "first_some (check_irreversible ds (provider_table ds (length ds))) ds = None \<longleftrightarrow>
     (\<forall>d \<in> set ds. set (irreversible_requirements (irreversible_class d)) \<subseteq> set (required_capabilities d))"
proof -
  have "provider_table ds (length ds) ! c \<noteq> BOOT_NO_PROVIDER \<and>
      \<not> sd_phase (ds ! (provider_table ds (length ds) ! c)) > sd_phase d"
    if d: "d \<in> set ds" "c \<in> set (required_capabilities d)" for d c
  proof -
    from prov d obtain e where "e \<in> set ds" "c \<in> set (offered e)" "sd_phase e \<le> sd_phase d" by blast
    moreover have "provider_table ds (length ds) ! c \<noteq> BOOT_NO_PROVIDER"
      using check_missing_none [OF ok len] prov d
      by (auto simp: first_some_None_iff check_missing_def split: if_splits)
    ultimately show ?thesis using provider_descriptor [OF ok] by simp
  qed
  then show ?thesis by (auto simp: check_irreversible_def first_some_None_iff)
qed

lemma accepted_passes:
  assumes "plan_accepted ds"
  obtains order where "check_stages ds = Inr (provider_table ds (length ds))"
    "first_some (check_missing (provider_table ds (length ds))) ds = None"
    "first_some (check_irreversible ds (provider_table ds (length ds))) ds = None"
    "plan_stages ds (provider_table ds (length ds)) (replicate BOOT_LEDGER_STAGE_CAPACITY False) []
       = (None, order)"
    "first_some (check_phases ds (provider_table ds (length ds))) ds = None"
proof -
  from assms have ok: "stages_consistent ds" and len: "length ds \<le> BOOT_NO_PROVIDER"
    and prov: "\<forall>d \<in> set ds. \<forall>c \<in> set (required_capabilities d). \<exists>e \<in> set ds. c \<in> set (offered e)"
    unfolding plan_accepted_def BOOT_NO_PROVIDER_def by (blast, blast, blast)
  obtain outcome order where run: "plan_stages ds (provider_table ds (length ds))
      (replicate BOOT_LEDGER_STAGE_CAPACITY False) [] = (outcome, order)" by fastforce
  have "outcome = None"
    using plan_stages_complete_iff [OF ok len _ run] prov assms by (simp add: plan_accepted_def)
  with run assms show thesis
    using check_stages_ok [OF len] ok prov check_missing_none [OF ok len] check_phases_none [OF ok prov]
      check_irreversible_none [OF ok len]
    by (intro that [of order]) (auto simp: plan_accepted_def stages_ok_iff)
qed

lemma validated_planning:
  assumes "boot_ledger_validate (Some ledger) = (BOOT_LEDGER_STATUS_OK, result)"
  obtains order planned where "result = Some (validated_ledger ledger order)"
    "plan_accepted (descriptors ledger)"
    "planning (descriptors ledger) planned order" "length order = length (descriptors ledger)"
proof -
  let ?ds = "descriptors ledger"
  from assms obtain P order where v: "?ds \<noteq> []" "length ?ds \<le> BOOT_LEDGER_STAGE_CAPACITY"
      "check_stages ?ds = Inr P" "first_some (check_missing P) ?ds = None"
      "first_some (check_irreversible ?ds P) ?ds = None"
      "plan_stages ?ds P (replicate BOOT_LEDGER_STAGE_CAPACITY False) [] = (None, order)"
      "first_some (check_phases ?ds P) ?ds = None" "result = Some (validated_ledger ledger order)"
    unfolding validate_ok_iff by blast
  have len: "length ?ds \<le> BOOT_NO_PROVIDER" using v(2) by (simp add: BOOT_NO_PROVIDER_def)
  with v(3) have ok: "stages_consistent ?ds" and P: "P = provider_table ?ds (length ?ds)"
    by (simp_all add: check_stages_ok stages_ok_iff)
  have prov: "\<forall>d \<in> set ?ds. \<forall>c \<in> set (required_capabilities d). \<exists>e \<in> set ?ds. c \<in> set (offered e)"
    using v(4) check_missing_none [OF ok len] by (simp add: P)
  have ph: "\<forall>d \<in> set ?ds. \<forall>c \<in> set (required_capabilities d).
      \<exists>e \<in> set ?ds. c \<in> set (offered e) \<and> sd_phase e \<le> sd_phase d"
    using v(7) check_phases_none [OF ok prov] by (simp add: P)
  have "\<not> (\<exists>S \<subseteq> set ?ds. deadlocked S)"
    using plan_stages_complete_iff [OF ok len _ v(6) [unfolded P]] prov by blast
  then have "plan_accepted ?ds"
    using v(1,2,5) ok ph check_irreversible_none [OF ok len ph] by (simp add: plan_accepted_def P)
  moreover have "case plan_stages ?ds P (replicate BOOT_LEDGER_STAGE_CAPACITY False) [] of
       (None, order') \<Rightarrow> length order' = length ?ds \<and> (\<exists>planned'. planning ?ds planned' order')
     | _ \<Rightarrow> True"
    using plan_stages_outcome [OF ok len planning_start [OF len]] by (auto simp: P split: option.splits)
  ultimately show thesis using v(6,8) that by auto
qed

lemma validate_accepts:
  "fst (boot_ledger_validate (Some ledger)) = BOOT_LEDGER_STATUS_OK \<longleftrightarrow>
     plan_accepted (descriptors ledger)"
proof
  assume "fst (boot_ledger_validate (Some ledger)) = BOOT_LEDGER_STATUS_OK"
  then have "boot_ledger_validate (Some ledger) =
      (BOOT_LEDGER_STATUS_OK, snd (boot_ledger_validate (Some ledger)))" by (metis prod.collapse)
  then show "plan_accepted (descriptors ledger)" by (elim validated_planning)
next
  assume acc: "plan_accepted (descriptors ledger)"
  from accepted_passes [OF this] obtain order where
    "boot_ledger_validate (Some ledger) = (BOOT_LEDGER_STATUS_OK, Some (validated_ledger ledger order))"
    using acc unfolding validate_ok_iff plan_accepted_def by metis
  then show "fst (boot_ledger_validate (Some ledger)) = BOOT_LEDGER_STATUS_OK" by simp
qed

text \<open>
  C6. Validation returns OK for exactly the plans that are well formed, offer each
  capability at most once, provide every requirement no later than its phase, name the
  prerequisites of their irreversible class and contain no deadlocked set of stages.
\<close>
theorem boot_ledger_validate_accepts_iff:
  "fst (boot_ledger_validate (Some ledger)) = BOOT_LEDGER_STATUS_OK \<longleftrightarrow>
     plan_accepted (descriptors ledger)"
  by (rule validate_accepts)

lemma validated_ledger_sel [simp]:
  "descriptors (validated_ledger ledger order) = descriptors ledger"
  "canonical_order (validated_ledger ledger order) = order"
  "validated_stage_ids (validated_ledger ledger order) = map (\<lambda>index. sd_id (descriptors ledger ! index)) order"
  "validated (validated_ledger ledger order)" "\<not> executed (validated_ledger ledger order)"
  by (simp_all add: validated_ledger_def planned_ledger_def)

text \<open>
  C7. The plan of a validated ledger runs every registered stage exactly once, and each
  capability a stage requires is offered by a stage planned before it.
\<close>
theorem boot_ledger_plan_topological:
  assumes "boot_ledger_validate (Some ledger) = (BOOT_LEDGER_STATUS_OK, Some ledger')"
  shows "descriptors ledger' = descriptors ledger \<and> distinct (canonical_order ledger') \<and>
    set (canonical_order ledger') = {..<length (descriptors ledger)} \<and>
    (\<forall>k < length (canonical_order ledger').
      \<forall>c \<in> set (required_capabilities (descriptors ledger ! (canonical_order ledger' ! k))).
        \<exists>j < k. c \<in> set (offered (descriptors ledger ! (canonical_order ledger' ! j))))"
  using assms
proof (rule validated_planning)
  fix order planned
  assume v: "Some ledger' = Some (validated_ledger ledger order)"
    and pl: "planning (descriptors ledger) planned order" "length order = length (descriptors ledger)"
  have "\<exists>j < k. c \<in> set (offered (descriptors ledger ! (order ! j)))"
    if k: "k < length order" "c \<in> set (required_capabilities (descriptors ledger ! (order ! k)))" for k c
  proof -
    from pl(1) k(1) have "ready (set (descriptors ledger))
        (set (take k (map ((!) (descriptors ledger)) order))) (map ((!) (descriptors ledger)) order ! k)"
      unfolding planning_def greedy_def by simp
    with k obtain e where "e \<in> set (take k (map ((!) (descriptors ledger)) order))" "c \<in> set (offered e)"
      by (auto simp: ready_def)
    then show ?thesis using k(1) by (auto simp: in_set_conv_nth [of e])
  qed
  then show ?thesis using v pl planning_complete [OF pl] by (auto simp: planning_def)
qed

lemma fingerprint_plan_map:
  "fingerprint_plan ledger = fold fingerprint_descriptor (map ((!) (descriptors ledger)) (canonical_order ledger))
     (fingerprint_u64 (fingerprint_u64 BOOT_FINGERPRINT_OFFSET 1) (of_nat (length (canonical_order ledger))))"
  by (simp add: fingerprint_plan_def fold_map comp_def)

lemma validated_fingerprint [simp]:
  "validated_plan_fingerprint (validated_ledger ledger order) = fingerprint_plan (validated_ledger ledger order)"
  by (simp add: validated_ledger_def planned_ledger_def fingerprint_plan_def)

lemma plan_accepted_perm:
  assumes "mset ds = mset es" shows "plan_accepted ds = plan_accepted es"
proof -
  have "ds = [] \<longleftrightarrow> es = []" using assms by auto
  with assms mset_eq_setD [OF assms] mset_eq_length [OF assms]
    mset_eq_imp_distinct_iff [of "map sd_id ds" "map sd_id es"]
  show ?thesis by (simp add: plan_accepted_def stages_consistent_def)
qed

text \<open>
  C8. The order in which stages are registered does not matter: a permutation of an
  accepted plan is accepted, with the same sequence of stage ids and the same fingerprint.
\<close>
theorem boot_ledger_registration_order_irrelevant:
  assumes perm: "mset (descriptors a) = mset (descriptors b)"
    and va: "boot_ledger_validate (Some a) = (BOOT_LEDGER_STATUS_OK, Some a')"
  shows "\<exists>b'. boot_ledger_validate (Some b) = (BOOT_LEDGER_STATUS_OK, Some b') \<and>
    validated_stage_ids b' = validated_stage_ids a' \<and>
    validated_plan_fingerprint b' = validated_plan_fingerprint a'"
proof -
  from va obtain oa pa where a: "a' = validated_ledger a oa" "plan_accepted (descriptors a)"
      "planning (descriptors a) pa oa" "length oa = length (descriptors a)"
    by (elim validated_planning) auto
  have accb: "plan_accepted (descriptors b)" using plan_accepted_perm [OF perm] a(2) by simp
  then have "boot_ledger_validate (Some b) =
      (BOOT_LEDGER_STATUS_OK, snd (boot_ledger_validate (Some b)))"
    using validate_accepts by (metis prod.collapse)
  then obtain b' ob pb where b: "boot_ledger_validate (Some b) = (BOOT_LEDGER_STATUS_OK, Some b')"
      "b' = validated_ledger b ob"
      "planning (descriptors b) pb ob" "length ob = length (descriptors b)"
    by (metis validated_planning)
  have sets: "set (descriptors a) = set (descriptors b)" "length (descriptors a) = length (descriptors b)"
    using perm by (auto dest: mset_eq_setD mset_eq_length)
  have "map ((!) (descriptors a)) oa = map ((!) (descriptors b)) ob"
  proof (rule greedy_unique)
    show "inj_on sd_id (set (descriptors a))"
      using a(2) by (simp add: plan_accepted_def stages_consistent_def distinct_map)
  qed (use a b sets in \<open>auto simp: planning_def\<close>)
  then have plans: "map ((!) (descriptors a)) oa = map ((!) (descriptors b)) ob" .
  have "map sd_id (map ((!) (descriptors a)) oa) = map sd_id (map ((!) (descriptors b)) ob)"
    by (simp only: plans)
  then have "validated_stage_ids b' = validated_stage_ids a'" by (simp add: a(1) b(2) comp_def)
  moreover have "validated_plan_fingerprint b' = validated_plan_fingerprint a'"
    using plans a(4) b(4) sets(2) by (simp add: a(1) b(2) fingerprint_plan_map)
  ultimately show ?thesis using b(1) by blast
qed

section \<open>Refused plans\<close>

lemma cycle_stage_Min:
  assumes known: "\<forall>i < length ds. stage_is_known (sd_id (ds ! i))"
    and ex: "\<exists>i < length ds. \<not> planned ! i"
  shows "cycle_stage ds planned = Min {sd_id (ds ! i) |i. i < length ds \<and> \<not> planned ! i}"
proof -
  let ?step = "\<lambda>index stage. if \<not> planned ! index \<and> (stage = BOOT_STAGE_INVALID \<or> sd_id (ds ! index) < stage)
         then sd_id (ds ! index) else stage"
  let ?open = "\<lambda>n. {sd_id (ds ! i) |i. i < n \<and> \<not> planned ! i}"
  have fin: "finite (?open n)" for n by simp
  have open_Suc: "?open (Suc n) = (if planned ! n then ?open n else insert (sd_id (ds ! n)) (?open n))" for n
    by (auto simp: less_Suc_eq)
  have "n \<le> length ds \<Longrightarrow> fold ?step [0..<n] BOOT_STAGE_INVALID =
      (if ?open n = {} then BOOT_STAGE_INVALID else Min (?open n))" for n
  proof (induction n)
    case (Suc n)
    then have kn: "0 < sd_id (ds ! n)" and IH: "fold ?step [0..<n] BOOT_STAGE_INVALID =
        (if ?open n = {} then BOOT_STAGE_INVALID else Min (?open n))"
      using known by (auto simp: stage_is_known_def ledger_consts)
    have pos: "Min (?open n) \<noteq> BOOT_STAGE_INVALID" if "?open n \<noteq> {}"
    proof -
      from Min_in [OF fin that] obtain i where "Min (?open n) = sd_id (ds ! i)" "i < n" by auto
      with known [rule_format, of i] Suc.prems show ?thesis by (simp add: stage_is_known_def)
    qed
    define A m where "A = ?open n" and "m = fold ?step [0..<n] BOOT_STAGE_INVALID"
    have A: "finite A" "m = (if A = {} then BOOT_STAGE_INVALID else Min A)"
        "A \<noteq> {} \<Longrightarrow> Min A \<noteq> BOOT_STAGE_INVALID"
      unfolding A_def m_def using fin IH pos by (blast, blast, blast)
    have "?step n m = (if planned ! n then if A = {} then BOOT_STAGE_INVALID else Min A
        else Min (insert (sd_id (ds ! n)) A))"
      using A by (cases "A = {}") (simp_all add: min_def del: Min_gr_iff Min_ge_iff Min_le_iff Min_less_iff)
    moreover have "fold ?step [0..<Suc n] BOOT_STAGE_INVALID = ?step n m" by (simp add: m_def)
    ultimately show ?case unfolding open_Suc A_def [symmetric]
      by (cases "planned ! n") (simp_all only: if_True if_False insert_not_empty)
  qed simp
  from this [of "length ds"] ex show ?thesis by (auto simp: cycle_stage_def)
qed

lemma validate_cycleD:
  assumes "boot_ledger_validate (Some ledger) = (BOOT_LEDGER_STATUS_CAPABILITY_DEPENDENCY_CYCLE, Some ledger')"
  shows "length (descriptors ledger) \<le> BOOT_LEDGER_STAGE_CAPACITY \<and>
     (\<exists>P stage order. check_stages (descriptors ledger) = Inr P \<and>
        first_some (check_missing P) (descriptors ledger) = None \<and>
        plan_stages (descriptors ledger) P (replicate BOOT_LEDGER_STAGE_CAPACITY False) [] =
          (Some (BOOT_LEDGER_STATUS_CAPABILITY_DEPENDENCY_CYCLE, stage), order) \<and>
        refusal_stage ledger' = fst stage \<and> \<not> validated ledger')"
proof -
  have no:
    "check_stages ds \<noteq> Inl (BOOT_LEDGER_STATUS_CAPABILITY_DEPENDENCY_CYCLE, x)"
    "first_some (check_missing P) ds \<noteq> Some (BOOT_LEDGER_STATUS_CAPABILITY_DEPENDENCY_CYCLE, x)"
    "first_some (check_irreversible es P) ds \<noteq> Some (BOOT_LEDGER_STATUS_CAPABILITY_DEPENDENCY_CYCLE, x)"
    "first_some (check_phases es P) ds \<noteq> Some (BOOT_LEDGER_STATUS_CAPABILITY_DEPENDENCY_CYCLE, x)"
    for ds es :: "'a boot_stage_descriptor list" and P x
    by (auto dest: check_stages_refusal dest!: pass_refusals)
  show ?thesis using assms
    by (auto simp: boot_ledger_validate_def Let_def no set_refusal_def
        split: sum.splits option.splits prod.splits if_splits)
qed

text \<open>
  A plan refused for a dependency cycle really is deadlocked: it contains a set of
  stages each waiting for a capability only another stage of the set offers, and the
  refusal names the least stage id of that set.
\<close>
theorem boot_ledger_cycle_real:
  assumes "boot_ledger_validate (Some ledger) =
     (BOOT_LEDGER_STATUS_CAPABILITY_DEPENDENCY_CYCLE, Some ledger')"
  shows "\<not> validated ledger' \<and> (\<exists>S \<subseteq> set (descriptors ledger). deadlocked S \<and>
           refusal_stage ledger' = Min (sd_id ` S))"
proof -
  let ?ds = "descriptors ledger"
  from validate_cycleD [OF assms] obtain P stage order where
    len: "length ?ds \<le> BOOT_NO_PROVIDER" and st: "check_stages ?ds = Inr P"
    and miss: "first_some (check_missing P) ?ds = None"
    and run: "plan_stages ?ds P (replicate BOOT_LEDGER_STAGE_CAPACITY False) [] =
          (Some (BOOT_LEDGER_STATUS_CAPABILITY_DEPENDENCY_CYCLE, stage), order)"
    and l': "refusal_stage ledger' = fst stage" "\<not> validated ledger'"
    by (auto simp: BOOT_NO_PROVIDER_def)
  from st len have ok: "stages_consistent ?ds" and P: "P = provider_table ?ds (length ?ds)"
    by (simp_all add: check_stages_ok stages_ok_iff)
  from plan_stages_outcome [OF ok len planning_start [OF len]] run obtain planned where
    pl: "planning ?ds planned order" "length order < length ?ds"
      "\<forall>d. \<not> ready (set ?ds) (set (map ((!) ?ds) order)) d" "fst stage = cycle_stage ?ds planned"
    by (auto simp: P)
  let ?done = "set (map ((!) ?ds) order)"
  have ids: "\<forall>i < length ?ds. stage_is_known (sd_id (?ds ! i))"
    using ok by (auto simp: stages_consistent_def stage_well_formed_def)
  have mem: "?ds ! i \<in> ?done \<longleftrightarrow> planned ! i" if "i < length ?ds" for i
    using pl(1) that by (rule planned_mem [OF ok])
  have part: "?done \<subset> set ?ds" by (rule planning_partial [OF ok pl(1,2)])
  then obtain d where "d \<in> set ?ds" "d \<notin> ?done" by blast
  then obtain i where "i < length ?ds" "\<not> planned ! i"
    using mem by (metis in_set_conv_nth)
  then have "cycle_stage ?ds planned = Min {sd_id (?ds ! i) |i. i < length ?ds \<and> \<not> planned ! i}"
    using cycle_stage_Min [OF ids] by blast
  also have "{sd_id (?ds ! i) |i. i < length ?ds \<and> \<not> planned ! i} = sd_id ` (set ?ds - ?done)"
    using mem by (fastforce simp: in_set_conv_nth)
  finally have "refusal_stage ledger' = Min (sd_id ` (set ?ds - ?done))" using l' pl(4) by simp
  moreover have "deadlocked (set ?ds - ?done)"
    using stuck_deadlocked [OF pl(3) part] check_missing_none [OF ok len] miss by (simp add: P)
  ultimately show ?thesis using l'(2) Diff_subset by blast
qed

section \<open>Concrete plans\<close>

text \<open>A stage that always succeeds, and ledgers that hold a few of them.\<close>

definition sample_stage :: "nat \<Rightarrow> nat \<Rightarrow> nat list \<Rightarrow> nat list \<Rightarrow> unit boot_stage_descriptor" where
  "sample_stage stage phase required provided =
     \<lparr>sd_id = stage, sd_name = Some ''stage'', required_capabilities = required,
      provided_capabilities = provided, skipped_capabilities = [], sd_required = True,
      skip_preserves_health = False, sd_phase = phase, irreversible_class = 0,
      sd_execute = Some (\<lambda>context result.
        (context, \<lparr>sr_result = BOOT_RECEIPT_RAN, sr_provided = provided, sr_proof_counters = []\<rparr>))\<rparr>"

definition sample_ledger :: "unit boot_stage_descriptor list \<Rightarrow> unit boot_ledger" where
  "sample_ledger ds = (the (boot_ledger_reset (Some undefined)))\<lparr>descriptors := ds\<rparr>"

lemma sample_ledger_descriptors [simp]: "descriptors (sample_ledger ds) = ds"
  by (simp add: sample_ledger_def boot_ledger_reset_def)

definition memory_stage :: "unit boot_stage_descriptor" where
  "memory_stage = sample_stage 1 0 [] [1]"

definition heap_stage :: "unit boot_stage_descriptor" where
  "heap_stage = sample_stage 2 1 [1] [2]"

lemmas sample_stages = memory_stage_def heap_stage_def

lemma sample_well_formed:
  "0 < stage \<Longrightarrow> stage < 58 \<Longrightarrow> phase < 8 \<Longrightarrow> length required \<le> 23 \<Longrightarrow> length provided \<le> 23 \<Longrightarrow>
   distinct required \<Longrightarrow> distinct provided \<Longrightarrow>
   list_all (\<lambda>c. 0 < c \<and> c < 80) required \<Longrightarrow> list_all (\<lambda>c. 0 < c \<and> c < 80) provided \<Longrightarrow>
   stage_well_formed (sample_stage stage phase required provided)"
  by (simp add: stage_well_formed_def sample_stage_def offered_def stage_is_known_def
      capability_is_known_def list_all_iff ledger_consts)

lemma sample_stage_sel [simp]:
  "sd_id (sample_stage stage phase required provided) = stage"
  "sd_phase (sample_stage stage phase required provided) = phase"
  "required_capabilities (sample_stage stage phase required provided) = required"
  "provided_capabilities (sample_stage stage phase required provided) = provided"
  "skipped_capabilities (sample_stage stage phase required provided) = []"
  "irreversible_class (sample_stage stage phase required provided) = 0"
  "sd_required (sample_stage stage phase required provided)"
  "offered (sample_stage stage phase required provided) = provided"
  by (simp_all add: sample_stage_def offered_def)

lemma irreversible_none [simp]: "irreversible_requirements 0 = []"
  by (simp add: irreversible_requirements_def)

lemma sample_accepted: "plan_accepted [heap_stage, memory_stage]"
proof -
  have wf: "stage_well_formed heap_stage" "stage_well_formed memory_stage"
    unfolding heap_stage_def memory_stage_def by (simp_all add: sample_well_formed)
  have "\<not> deadlocked S" if "S \<subseteq> {heap_stage, memory_stage}" for S
  proof
    assume "deadlocked S"
    then have "memory_stage \<notin> S" "S \<noteq> {}"
      by (auto simp: deadlocked_def sample_stages)
    with that have "S = {heap_stage}" by auto
    with \<open>deadlocked S\<close> show False by (simp add: deadlocked_def sample_stages)
  qed
  moreover have "stages_consistent [heap_stage, memory_stage]"
    using wf by (simp add: stages_consistent_def) (simp add: sample_stages)
  ultimately show ?thesis
    by (simp add: plan_accepted_def BOOT_LEDGER_STAGE_CAPACITY_def) (simp add: sample_stages)
qed

lemma sample_validates:
  obtains ledger where
    "boot_ledger_validate (Some (sample_ledger [heap_stage, memory_stage])) = (BOOT_LEDGER_STATUS_OK, Some ledger)"
proof -
  have "fst (boot_ledger_validate (Some (sample_ledger [heap_stage, memory_stage]))) = BOOT_LEDGER_STATUS_OK"
    by (simp add: validate_accepts sample_accepted)
  then have "boot_ledger_validate (Some (sample_ledger [heap_stage, memory_stage])) = (BOOT_LEDGER_STATUS_OK,
      snd (boot_ledger_validate (Some (sample_ledger [heap_stage, memory_stage]))))"
    by (metis prod.collapse)
  then show thesis by (metis validated_planning that)
qed

theorem boot_ledger_plan_topological_witness:
  "\<exists>ledger'. boot_ledger_validate (Some (sample_ledger [heap_stage, memory_stage])) =
       (BOOT_LEDGER_STATUS_OK, Some ledger') \<and>
     distinct (canonical_order ledger') \<and> set (canonical_order ledger') = {..<2}"
proof -
  obtain ledger' where v: "boot_ledger_validate (Some (sample_ledger [heap_stage, memory_stage])) =
      (BOOT_LEDGER_STATUS_OK, Some ledger')" by (rule sample_validates)
  from boot_ledger_plan_topological [OF this] v show ?thesis by (auto simp: numeral_2_eq_2)
qed

theorem boot_ledger_registration_order_irrelevant_witness:
  "\<exists>a b. boot_ledger_validate (Some (sample_ledger [heap_stage, memory_stage])) = (BOOT_LEDGER_STATUS_OK, Some a) \<and>
     boot_ledger_validate (Some (sample_ledger [memory_stage, heap_stage])) = (BOOT_LEDGER_STATUS_OK, Some b) \<and>
     validated_plan_fingerprint a = validated_plan_fingerprint b"
proof -
  obtain a where v: "boot_ledger_validate (Some (sample_ledger [heap_stage, memory_stage])) =
      (BOOT_LEDGER_STATUS_OK, Some a)" by (rule sample_validates)
  have "mset (descriptors (sample_ledger [heap_stage, memory_stage])) =
      mset (descriptors (sample_ledger [memory_stage, heap_stage]))" by simp
  from boot_ledger_registration_order_irrelevant [OF this v] v show ?thesis by metis
qed

text \<open>A stage that requires what it offers itself.\<close>

definition looping_stage :: "unit boot_stage_descriptor" where
  "looping_stage = sample_stage 3 0 [5] [5]"

lemma looping_refused:
  obtains ledger where "boot_ledger_validate (Some (sample_ledger [looping_stage])) =
     (BOOT_LEDGER_STATUS_CAPABILITY_DEPENDENCY_CYCLE, Some ledger)"
proof -
  let ?ds = "[looping_stage]" and ?P = "provider_table [looping_stage] (length [looping_stage])"
  have wf: "stage_well_formed looping_stage"
    unfolding looping_stage_def by (simp add: sample_well_formed)
  then have ok: "stages_consistent ?ds" by (simp add: stages_consistent_def)
  have len: "length ?ds \<le> BOOT_NO_PROVIDER" by (simp add: ledger_consts)
  have st: "check_stages ?ds = Inr ?P" using check_stages_ok [OF len] ok by (simp only: stages_ok_iff)
  have prov: "\<forall>d \<in> set ?ds. \<forall>c \<in> set (required_capabilities d).
      \<exists>e \<in> set ?ds. c \<in> set (offered e) \<and> sd_phase e \<le> sd_phase d"
    by (simp add: looping_stage_def)
  have miss: "first_some (check_missing ?P) ?ds = None"
    using check_missing_none [OF ok len] prov by blast
  have irr: "first_some (check_irreversible ?ds ?P) ?ds = None"
    using check_irreversible_none [OF ok len prov]
    by (simp add: looping_stage_def del: length_Cons list.size provider_table.simps)
  obtain out order where run:
    "plan_stages ?ds ?P (replicate BOOT_LEDGER_STAGE_CAPACITY False) [] = (out, order)" by fastforce
  have "deadlocked {looping_stage}"
    by (simp add: deadlocked_def looping_stage_def)
  then have "out \<noteq> None"
    using plan_stages_complete_iff [OF ok len _ run] prov by (metis list.set_intros(1) empty_subsetI insert_subset)
  then obtain r where r: "out = Some r" "fst r = BOOT_LEDGER_STATUS_CAPABILITY_DEPENDENCY_CYCLE"
    using plan_stages_refusal run by fastforce
  have "fst (boot_ledger_validate (Some (sample_ledger ?ds))) =
      BOOT_LEDGER_STATUS_CAPABILITY_DEPENDENCY_CYCLE \<and>
      snd (boot_ledger_validate (Some (sample_ledger ?ds))) \<noteq> None"
    using st miss irr run r
    by (simp add: boot_ledger_validate_def Let_def BOOT_LEDGER_STAGE_CAPACITY_def del: provider_table.simps)
  then show thesis using that by (metis option.exhaust prod.collapse)
qed

theorem boot_ledger_cycle_real_witness:
  "\<exists>ledger'. boot_ledger_validate (Some (sample_ledger [looping_stage])) =
       (BOOT_LEDGER_STATUS_CAPABILITY_DEPENDENCY_CYCLE, Some ledger') \<and> refusal_stage ledger' = 3"
proof -
  obtain ledger' where v: "boot_ledger_validate (Some (sample_ledger [looping_stage])) =
      (BOOT_LEDGER_STATUS_CAPABILITY_DEPENDENCY_CYCLE, Some ledger')" by (rule looping_refused)
  from boot_ledger_cycle_real [OF this] obtain S where "S \<subseteq> {looping_stage}" "deadlocked S"
      "refusal_stage ledger' = Min (sd_id ` S)" by auto
  moreover from this have "S = {looping_stage}" by (auto simp: deadlocked_def)
  ultimately have "refusal_stage ledger' = 3" by (simp add: looping_stage_def)
  with v show ?thesis by blast
qed

end
