(* ===== verification/Boot_Ledger_Run.thy ===== *)
theory Boot_Ledger_Run
  imports Boot_Ledger_Plan
begin

text \<open>
  Execution of a validated plan.  Every receipt execution writes satisfies
  \<open>receipt_fits\<close> for its stage and the capabilities established before it, and a ledger
  whose receipts fit passes \<open>verify_receipt_set\<close>, the independent check that
  \<open>boot_ledger_verify_installed\<close> starts with.
\<close>

section \<open>Establishing capabilities\<close>

lemma has_capability_ledger [simp]:
  "boot_ledger_has_capability (Some ledger) c \<longleftrightarrow>
     capability_is_known c \<and> c \<in> set (established_capabilities ledger)"
  by (simp add: boot_ledger_has_capability_def)

lemma known_capabilities_bounded:
  assumes "distinct cs" "list_all capability_is_known cs"
  shows "length cs < BOOT_CAPABILITY_COUNT"
proof -
  have "set cs \<subseteq> {1..<BOOT_CAPABILITY_COUNT}"
    using assms(2) by (auto simp: list_all_iff capability_is_known_def BOOT_CAPABILITY_INVALID_def)
  from card_mono [OF _ this] assms(1) show ?thesis
    by (simp add: distinct_card BOOT_CAPABILITY_COUNT_def)
qed

lemma establish_fresh:
  "distinct (est @ cs) \<Longrightarrow> list_all capability_is_known (est @ cs) \<Longrightarrow> establish cs est = (None, est @ cs)"
proof (induction cs arbitrary: est)
  case (Cons c cs)
  have "length est < BOOT_CAPABILITY_COUNT"
    using Cons.prems by (intro known_capabilities_bounded) auto
  moreover have "establish cs (est @ [c]) = (None, (est @ [c]) @ cs)"
    using Cons.prems by (intro Cons.IH) auto
  ultimately show ?case using Cons.prems by simp
qed simp

text \<open>What a receipt says when it fits its stage, given what was established before.\<close>

definition receipt_fits ::
  "'c boot_stage_descriptor \<Rightarrow> nat list \<Rightarrow> nat \<Rightarrow> boot_stage_receipt \<Rightarrow> bool" where
  "receipt_fits d caps n r \<longleftrightarrow>
     rc_stage_id r = sd_id d \<and> rc_sequence r = Suc n \<and>
     mset (rc_provided_capabilities r) = mset (receipt_declared d r) \<and>
     length (rc_proof_counters r) \<le> BOOT_STAGE_PROOF_COUNTER_CAPACITY \<and>
     (rc_result r = BOOT_RECEIPT_RAN \<and> rc_status r = BOOT_LEDGER_STATUS_OK \<or>
      rc_result r = BOOT_RECEIPT_SKIPPED \<and> rc_status r = BOOT_LEDGER_STATUS_OPTIONAL_STAGE_SKIPPED \<and>
        \<not> sd_required d \<or>
      rc_result r = BOOT_RECEIPT_FAILED \<and> rc_status r = BOOT_LEDGER_STATUS_OPTIONAL_STAGE_FAILED \<and>
        \<not> sd_required d) \<and>
     (rc_result r \<noteq> BOOT_RECEIPT_SKIPPED \<longrightarrow> set (required_capabilities d) \<subseteq> set caps)"

text \<open>The fields execution does not touch.\<close>

definition same_plan :: "'c boot_ledger \<Rightarrow> 'c boot_ledger \<Rightarrow> bool" where
  "same_plan a b \<longleftrightarrow> descriptors a = descriptors b \<and> canonical_order a = canonical_order b \<and>
     validated_stage_ids a = validated_stage_ids b \<and> validated a = validated b \<and>
     executed a = executed b \<and> validated_plan_fingerprint a = validated_plan_fingerprint b"

lemma same_plan_refl [simp]: "same_plan a a"
  by (simp add: same_plan_def)

lemma same_plan_trans: "same_plan a b \<Longrightarrow> same_plan b c \<Longrightarrow> same_plan a c"
  by (simp add: same_plan_def)

lemma same_plan_set_refusal [simp]: "same_plan a (set_refusal r b) = same_plan a b"
  by (simp add: same_plan_def set_refusal_def)

lemma set_refusal_sel [simp]:
  "receipts (set_refusal r l) = receipts l"
  "established_capabilities (set_refusal r l) = established_capabilities l"
  "executed (set_refusal r l) = executed l"
  "ledger_status (set_refusal r l) = fst r" "refusal_stage (set_refusal r l) = fst (snd r)"
  by (simp_all add: set_refusal_def)

text \<open>The counters a receipt adds to.\<close>

definition tallied :: "'c boot_stage_descriptor \<Rightarrow> nat \<Rightarrow> 'c boot_ledger \<Rightarrow> 'c boot_ledger \<Rightarrow> bool" where
  "tallied d result l l' \<longleftrightarrow>
     executed_count l' = executed_count l + (if result \<noteq> BOOT_RECEIPT_SKIPPED then 1 else 0) \<and>
     optional_skip_count l' = optional_skip_count l + (if result = BOOT_RECEIPT_SKIPPED then 1 else 0) \<and>
     (degraded l' \<longleftrightarrow> degraded l \<or> result \<noteq> BOOT_RECEIPT_RAN \<and>
        \<not> (result = BOOT_RECEIPT_SKIPPED \<and> skip_preserves_health d))"

lemma append_receipt_fresh:
  assumes "distinct (established_capabilities l @ sr_provided res)"
    "list_all capability_is_known (established_capabilities l @ sr_provided res)"
    "length (receipts l) < BOOT_LEDGER_RECEIPT_CAPACITY"
  obtains r l' where "append_receipt d res status l = (BOOT_LEDGER_STATUS_OK, l')"
    "receipts l' = receipts l @ [r]" "same_plan l l'" "tallied d (sr_result res) l l'"
    "established_capabilities l' = established_capabilities l @ sr_provided res"
    "r = \<lparr>rc_stage_id = sd_id d, rc_sequence = Suc (length (receipts l)),
          rc_provided_capabilities = sr_provided res, rc_status = status,
          rc_result = sr_result res, rc_proof_counters = sr_proof_counters res\<rparr>"
proof -
  have "Suc (length (receipts l)) mod 2 ^ 32 = Suc (length (receipts l))"
    using assms(3) by (simp add: BOOT_LEDGER_RECEIPT_CAPACITY_def)
  then show thesis
    using assms(3) establish_fresh [OF assms(1,2)]
    by (intro that [OF _ _ _ _ _ refl, of "snd (append_receipt d res status l)"])
      (auto simp: append_receipt_def Let_def same_plan_def tallied_def)
qed

lemma missing_requirement_None:
  "missing_requirement l d = None \<longleftrightarrow>
     (\<forall>c \<in> set (required_capabilities d). capability_is_known c \<and> c \<in> set (established_capabilities l))"
  by (simp add: missing_requirement_def first_some_None_iff)

text \<open>What a stage result declares it provides.\<close>

definition declared_of :: "'c boot_stage_descriptor \<Rightarrow> nat \<Rightarrow> nat list" where
  "declared_of d result =
     (if result = BOOT_RECEIPT_RAN then provided_capabilities d
      else if result = BOOT_RECEIPT_SKIPPED then skipped_capabilities d else [])"

lemma receipt_declared_of: "receipt_declared d r = declared_of d (rc_result r)"
  by (simp add: receipt_declared_def declared_of_def)

lemma declared_of_wf:
  assumes "stage_well_formed d"
  shows "distinct (declared_of d result)" "set (declared_of d result) \<subseteq> set (offered d)"
    "length (declared_of d result) \<le> BOOT_STAGE_CAPABILITY_CAPACITY"
  using assms by (auto simp: stage_well_formed_def declared_of_def offered_def)

lemma validate_result_ok:
  assumes "stage_well_formed d" "validate_result d res = (BOOT_LEDGER_STATUS_OK, c)"
  shows "mset (sr_provided res) = mset (declared_of d (sr_result res)) \<and>
     length (sr_proof_counters res) \<le> BOOT_STAGE_PROOF_COUNTER_CAPACITY \<and>
     sr_result res \<in> {BOOT_RECEIPT_RAN, BOOT_RECEIPT_SKIPPED, BOOT_RECEIPT_FAILED}"
proof -
  have "set (sr_provided res) \<subseteq> set (declared_of d (sr_result res)) \<and>
      set (declared_of d (sr_result res)) \<subseteq> set (sr_provided res) \<and>
      length (sr_provided res) = length (declared_of d (sr_result res)) \<and>
      length (sr_proof_counters res) \<le> BOOT_STAGE_PROOF_COUNTER_CAPACITY \<and>
      sr_result res \<in> {BOOT_RECEIPT_RAN, BOOT_RECEIPT_SKIPPED, BOOT_RECEIPT_FAILED}"
    using assms(2) unfolding validate_result_def Let_def declared_of_def [symmetric]
    by (auto simp: first_some_None_iff split: if_splits option.splits)
  moreover from this have "distinct (sr_provided res)"
    using declared_of_wf(1) [OF assms(1), of "sr_result res"]
    by (metis card_distinct distinct_card subset_antisym)
  ultimately show ?thesis
    using declared_of_wf(1) [OF assms(1)] by (metis set_eq_iff_mset_eq_distinct subset_antisym)
qed

lemma fail_skip_results:
  "sr_result (skip_result d) = BOOT_RECEIPT_SKIPPED"
  "sr_provided (skip_result d) = skipped_capabilities d" "sr_proof_counters (skip_result d) = []"
  by (simp_all add: skip_result_def)

section \<open>Running one stage\<close>

definition can_run :: "'c boot_stage_descriptor \<Rightarrow> 'c boot_ledger \<Rightarrow> bool" where
  "can_run d l \<longleftrightarrow> stage_well_formed d \<and> distinct (established_capabilities l) \<and>
     list_all capability_is_known (established_capabilities l) \<and>
     set (established_capabilities l) \<inter> set (offered d) = {} \<and>
     length (receipts l) < BOOT_LEDGER_RECEIPT_CAPACITY"

lemma can_run_fresh:
  assumes "can_run d l" "mset cs = mset (declared_of d result)"
  shows "distinct (established_capabilities l @ cs)"
    "list_all capability_is_known (established_capabilities l @ cs)"
proof -
  have wf: "stage_well_formed d" using assms(1) by (simp add: can_run_def)
  have "set cs \<subseteq> set (offered d)" "distinct cs"
    using mset_eq_setD [OF assms(2)] mset_eq_imp_distinct_iff [OF assms(2)] declared_of_wf(1,2) [OF wf]
    by auto
  then show "distinct (established_capabilities l @ cs)"
    "list_all capability_is_known (established_capabilities l @ cs)"
    using assms(1) wf by (auto simp: can_run_def stage_well_formed_def list_all_iff)
qed

definition stage_recorded :: "'c boot_stage_descriptor \<Rightarrow> 'c boot_ledger \<Rightarrow> 'c boot_ledger \<Rightarrow> bool" where
  "stage_recorded d l l' \<longleftrightarrow> (\<exists>r. receipts l' = receipts l @ [r] \<and>
     established_capabilities l' = established_capabilities l @ rc_provided_capabilities r \<and>
     receipt_fits d (established_capabilities l) (length (receipts l)) r \<and> tallied d (rc_result r) l l')"

definition stage_refused ::
  "boot_ledger_status \<Rightarrow> 'c boot_stage_descriptor \<Rightarrow> 'c boot_ledger \<Rightarrow> 'c boot_ledger \<Rightarrow> bool" where
  "stage_refused status d l l' \<longleftrightarrow> ledger_status l' = status \<and> refusal_stage l' = sd_id d \<and>
     (receipts l' = receipts l \<or>
      (\<exists>r. receipts l' = receipts l @ [r] \<and> rc_stage_id r = sd_id d \<and> sd_required d \<and>
           rc_result r \<noteq> BOOT_RECEIPT_RAN))"

definition stage_outcome ::
  "boot_ledger_status \<Rightarrow> 'c boot_stage_descriptor \<Rightarrow> 'c boot_ledger \<Rightarrow> 'c boot_ledger \<Rightarrow> bool" where
  "stage_outcome status d l l' \<longleftrightarrow> same_plan l l' \<and>
     (if status = BOOT_LEDGER_STATUS_OK then stage_recorded d l l' else stage_refused status d l l')"

lemma receipt_distinct_results [simp]:
  "BOOT_RECEIPT_RAN \<noteq> BOOT_RECEIPT_SKIPPED" "BOOT_RECEIPT_RAN \<noteq> BOOT_RECEIPT_FAILED"
  "BOOT_RECEIPT_SKIPPED \<noteq> BOOT_RECEIPT_FAILED" "BOOT_RECEIPT_SKIPPED \<noteq> BOOT_RECEIPT_RAN"
  "BOOT_RECEIPT_FAILED \<noteq> BOOT_RECEIPT_RAN" "BOOT_RECEIPT_FAILED \<noteq> BOOT_RECEIPT_SKIPPED"
  by (simp_all add: receipt_consts)

lemma skip_outcome:
  assumes run: "can_run d l" and opt: "\<not> sd_required d"
    and a: "append_receipt d (skip_result d) BOOT_LEDGER_STATUS_OPTIONAL_STAGE_SKIPPED l = (status, l')"
  shows "stage_outcome status d l l'"
proof -
  have m: "mset (sr_provided (skip_result d)) = mset (declared_of d BOOT_RECEIPT_SKIPPED)"
    by (simp add: fail_skip_results declared_of_def)
  have lt: "length (receipts l) < BOOT_LEDGER_RECEIPT_CAPACITY" using run by (simp add: can_run_def)
  show ?thesis
    by (rule append_receipt_fresh [OF can_run_fresh [OF run m] lt, of d BOOT_LEDGER_STATUS_OPTIONAL_STAGE_SKIPPED])
      (use a opt in \<open>auto simp: stage_outcome_def stage_recorded_def receipt_fits_def fail_skip_results
         receipt_declared_of declared_of_def\<close>)
qed

lemma callback_outcome:
  assumes run: "can_run d l" and req: "missing_requirement l d = None"
    and v: "validate_result d res = (BOOT_LEDGER_STATUS_OK, c)"
    and kind: "(sr_result res = BOOT_RECEIPT_RAN \<and> status = BOOT_LEDGER_STATUS_OK \<or>
      sr_result res = BOOT_RECEIPT_SKIPPED \<and> status = BOOT_LEDGER_STATUS_OPTIONAL_STAGE_SKIPPED \<and>
        \<not> sd_required d \<or>
      sr_result res = BOOT_RECEIPT_FAILED \<and> status = BOOT_LEDGER_STATUS_OPTIONAL_STAGE_FAILED \<and>
        \<not> sd_required d)"
  shows "fst (append_receipt d res status l) = BOOT_LEDGER_STATUS_OK \<and>
     stage_outcome BOOT_LEDGER_STATUS_OK d l (snd (append_receipt d res status l))"
proof -
  have wf: "stage_well_formed d" and lt: "length (receipts l) < BOOT_LEDGER_RECEIPT_CAPACITY"
    using run by (auto simp: can_run_def)
  have ok: "mset (sr_provided res) = mset (declared_of d (sr_result res))"
      "length (sr_proof_counters res) \<le> BOOT_STAGE_PROOF_COUNTER_CAPACITY"
    using validate_result_ok [OF wf v] by auto
  from req have "set (required_capabilities d) \<subseteq> set (established_capabilities l)"
    by (auto simp: missing_requirement_None)
  then have fits: "receipt_fits d (established_capabilities l) (length (receipts l))
      \<lparr>rc_stage_id = sd_id d, rc_sequence = Suc (length (receipts l)),
       rc_provided_capabilities = sr_provided res, rc_status = status,
       rc_result = sr_result res, rc_proof_counters = sr_proof_counters res\<rparr>"
    unfolding receipt_fits_def receipt_declared_of using ok kind by simp
  obtain r l' where "append_receipt d res status l = (BOOT_LEDGER_STATUS_OK, l')"
      "receipts l' = receipts l @ [r]" "same_plan l l'" "tallied d (sr_result res) l l'"
      "established_capabilities l' = established_capabilities l @ sr_provided res"
      "r = \<lparr>rc_stage_id = sd_id d, rc_sequence = Suc (length (receipts l)),
            rc_provided_capabilities = sr_provided res, rc_status = status,
            rc_result = sr_result res, rc_proof_counters = sr_proof_counters res\<rparr>"
    by (rule append_receipt_fresh [OF can_run_fresh [OF run ok(1)] lt])
  with fits show ?thesis by (simp add: stage_outcome_def stage_recorded_def)
qed

lemma required_outcome:
  assumes run: "can_run d l" and v: "validate_result d res = (BOOT_LEDGER_STATUS_OK, c)"
    and req: "sd_required d" "sr_result res \<noteq> BOOT_RECEIPT_RAN"
    and st: "status \<noteq> BOOT_LEDGER_STATUS_OK"
  shows "stage_outcome status d l (set_refusal (status, sd_id d, x) (snd (append_receipt d res status l)))"
proof -
  have wf: "stage_well_formed d" and lt: "length (receipts l) < BOOT_LEDGER_RECEIPT_CAPACITY"
    using run by (auto simp: can_run_def)
  have ok: "mset (sr_provided res) = mset (declared_of d (sr_result res))"
    using validate_result_ok [OF wf v] by auto
  show ?thesis
    by (rule append_receipt_fresh [OF can_run_fresh [OF run ok] lt, of d status])
      (use st req in \<open>auto simp: stage_outcome_def stage_refused_def\<close>)
qed

lemma stage_outcome_degraded:
  assumes "stage_outcome BOOT_LEDGER_STATUS_OK d l l'" "degraded l'"
  shows "stage_outcome BOOT_LEDGER_STATUS_OK d l (l'\<lparr>degraded := True\<rparr>)"
  using assms by (auto simp: stage_outcome_def stage_recorded_def same_plan_def tallied_def)

lemma append_receipt_failed_degraded:
  assumes "fst (append_receipt d res status l) = BOOT_LEDGER_STATUS_OK" "sr_result res = BOOT_RECEIPT_FAILED"
  shows "degraded (snd (append_receipt d res status l))"
  using assms by (auto simp: append_receipt_def Let_def set_refusal_def split: if_splits prod.splits option.splits)

lemma execute_stage_outcome:
  assumes run: "can_run d l" and x: "execute_stage d ctx l = (status, ctx', l')"
  shows "stage_outcome status d l l'"
proof (cases "missing_requirement l d")
  case (Some c)
  show ?thesis
  proof (cases "sd_required d")
    case True
    with x Some show ?thesis
      by (auto simp: execute_stage_def Let_def stage_outcome_def stage_refused_def)
  next
    case False
    with x Some have "append_receipt d (skip_result d) BOOT_LEDGER_STATUS_OPTIONAL_STAGE_SKIPPED l = (status, l')"
      by (auto simp: execute_stage_def Let_def split: prod.splits)
    with skip_outcome [OF run False] show ?thesis by simp
  qed
next
  case None
  obtain ctx1 res where cb: "the (sd_execute d) (ctx\<lparr>stage_failure_detail := None\<rparr>) fail_result = (ctx1, res)"
    by fastforce
  obtain st c where v: "validate_result d res = (st, c)" by fastforce
  show ?thesis
  proof (cases "st = BOOT_LEDGER_STATUS_OK")
    case False
    with x None cb v show ?thesis
      by (auto simp: execute_stage_def Let_def stage_outcome_def stage_refused_def)
  next
    case True
    have wf: "stage_well_formed d" using run by (simp add: can_run_def)
    note v = v [unfolded True]
    note kinds = validate_result_ok [OF wf v]
    note cbo = callback_outcome [OF run None v]
    note ro = required_outcome [OF run v]
    from kinds consider "sr_result res = BOOT_RECEIPT_RAN" | "sr_result res = BOOT_RECEIPT_SKIPPED"
      | "sr_result res = BOOT_RECEIPT_FAILED" by auto
    then show ?thesis
    proof cases
      case 1
      with cbo [of BOOT_LEDGER_STATUS_OK] x None cb v show ?thesis
        by (auto simp: execute_stage_def Let_def split: prod.splits)
    next
      case 2
      with cbo [of BOOT_LEDGER_STATUS_OPTIONAL_STAGE_SKIPPED]
        ro [of BOOT_LEDGER_STATUS_REQUIRED_STAGE_SKIPPED BOOT_CAPABILITY_INVALID] x None cb v
      show ?thesis
        by (cases "sd_required d") (auto simp: execute_stage_def Let_def split: prod.splits)
    next
      case 3
      with cbo [of BOOT_LEDGER_STATUS_OPTIONAL_STAGE_FAILED]
        append_receipt_failed_degraded [of d res BOOT_LEDGER_STATUS_OPTIONAL_STAGE_FAILED l]
        ro [of BOOT_LEDGER_STATUS_REQUIRED_STAGE_FAILED BOOT_CAPABILITY_INVALID] x None cb v
      show ?thesis
        by (cases "sd_required d")
          (auto simp: execute_stage_def Let_def stage_outcome_degraded split: prod.splits)
    qed
  qed
qed

section \<open>Running the plan\<close>

definition plan_ready :: "'c boot_ledger \<Rightarrow> bool" where
  "plan_ready l \<longleftrightarrow> stages_consistent (descriptors l) \<and>
     length (descriptors l) \<le> BOOT_LEDGER_STAGE_CAPACITY \<and> distinct (canonical_order l) \<and>
     set (canonical_order l) \<subseteq> {..<length (descriptors l)} \<and>
     validated_stage_ids l = map (\<lambda>index. sd_id (descriptors l ! index)) (canonical_order l)"

abbreviation planned_at :: "'c boot_ledger \<Rightarrow> nat \<Rightarrow> 'c boot_stage_descriptor" where
  "planned_at l k \<equiv> descriptors l ! (canonical_order l ! k)"

definition provided_so_far :: "'c boot_ledger \<Rightarrow> nat \<Rightarrow> nat list" where
  "provided_so_far l k = concat (map rc_provided_capabilities (take k (receipts l)))"

definition harms :: "'c boot_stage_descriptor \<Rightarrow> boot_stage_receipt \<Rightarrow> bool" where
  "harms d r \<longleftrightarrow> rc_result r \<noteq> BOOT_RECEIPT_RAN \<and>
     \<not> (rc_result r = BOOT_RECEIPT_SKIPPED \<and> skip_preserves_health d)"

definition ran_to :: "'c boot_ledger \<Rightarrow> nat \<Rightarrow> bool" where
  "ran_to l k \<longleftrightarrow> plan_ready l \<and> k \<le> length (canonical_order l) \<and> length (receipts l) = k \<and>
     established_capabilities l = provided_so_far l k \<and>
     distinct (established_capabilities l) \<and> list_all capability_is_known (established_capabilities l) \<and>
     set (established_capabilities l) \<subseteq> (\<Union>j<k. set (offered (planned_at l j))) \<and>
     (\<forall>j < k. receipt_fits (planned_at l j) (provided_so_far l j) j (receipts l ! j)) \<and>
     executed_count l = count_if (\<lambda>r. rc_result r \<noteq> BOOT_RECEIPT_SKIPPED) (receipts l) \<and>
     optional_skip_count l = count_if (\<lambda>r. rc_result r = BOOT_RECEIPT_SKIPPED) (receipts l) \<and>
     (degraded l \<longleftrightarrow> (\<exists>j < k. harms (planned_at l j) (receipts l ! j)))"

lemma planned_at_wf:
  assumes "plan_ready l" "k < length (canonical_order l)"
  shows "planned_at l k \<in> set (descriptors l)" "stage_well_formed (planned_at l k)"
proof -
  show in_ds: "planned_at l k \<in> set (descriptors l)"
    using assms by (auto simp: plan_ready_def subset_iff)
  then show "stage_well_formed (planned_at l k)"
    using assms by (auto simp: plan_ready_def stages_consistent_def)
qed

lemma planned_at_inj:
  assumes "plan_ready l" "j < k" "k < length (canonical_order l)"
  shows "sd_id (planned_at l j) \<noteq> sd_id (planned_at l k)" "planned_at l j \<noteq> planned_at l k"
proof -
  have "canonical_order l ! j \<noteq> canonical_order l ! k"
    using assms by (simp add: plan_ready_def nth_eq_iff_index_eq)
  moreover have "canonical_order l ! j < length (descriptors l)"
      "canonical_order l ! k < length (descriptors l)"
    using assms by (auto simp: plan_ready_def subset_iff)
  moreover have "distinct (map sd_id (descriptors l))"
    using assms(1) by (simp add: plan_ready_def stages_consistent_def)
  ultimately show id: "sd_id (planned_at l j) \<noteq> sd_id (planned_at l k)"
    by (simp add: distinct_conv_nth)
  then show "planned_at l j \<noteq> planned_at l k" by auto
qed

lemma plan_length:
  assumes "plan_ready l" shows "length (canonical_order l) \<le> BOOT_LEDGER_STAGE_CAPACITY"
proof -
  have "card (set (canonical_order l)) \<le> length (descriptors l)"
    using card_mono [of "{..<length (descriptors l)}"] assms by (auto simp: plan_ready_def)
  with assms show ?thesis by (simp add: plan_ready_def distinct_card)
qed

lemma offered_disjoint:
  assumes "plan_ready l" "j < k" "k < length (canonical_order l)"
  shows "set (offered (planned_at l j)) \<inter> set (offered (planned_at l k)) = {}"
proof -
  have "planned_at l j \<in> set (descriptors l)" "planned_at l k \<in> set (descriptors l)"
    using planned_at_wf(1) [OF assms(1)] assms(2,3) by auto
  then show ?thesis
    using planned_at_inj(2) [OF assms] assms(1) unfolding plan_ready_def stages_consistent_def by blast
qed

lemma ran_to_can_run:
  assumes "ran_to l k" "k < length (canonical_order l)"
  shows "can_run (planned_at l k) l"
proof -
  have pr: "plan_ready l" using assms by (simp add: ran_to_def)
  have "set (offered (planned_at l j)) \<inter> set (offered (planned_at l k)) = {}" if "j < k" for j
    using offered_disjoint [OF pr that assms(2)] .
  then have "(\<Union>j<k. set (offered (planned_at l j))) \<inter> set (offered (planned_at l k)) = {}" by blast
  moreover have "set (established_capabilities l) \<subseteq> (\<Union>j<k. set (offered (planned_at l j)))"
    "length (receipts l) = k"
    "distinct (established_capabilities l)" "list_all capability_is_known (established_capabilities l)"
    using assms(1) unfolding ran_to_def by blast+
  moreover have "k < BOOT_LEDGER_RECEIPT_CAPACITY"
    using plan_length [OF pr] assms(2)
    by (simp add: BOOT_LEDGER_STAGE_CAPACITY_def BOOT_LEDGER_RECEIPT_CAPACITY_def)
  ultimately show ?thesis
    using planned_at_wf(2) [OF pr assms(2)] unfolding can_run_def by blast
qed

lemma provided_so_far_snoc:
  "receipts l' = receipts l @ [r] \<Longrightarrow> j \<le> length (receipts l) \<Longrightarrow> provided_so_far l' j = provided_so_far l j"
  by (simp add: provided_so_far_def)

lemma receipt_provided:
  assumes "receipt_fits d caps n r" "stage_well_formed d"
  shows "set (rc_provided_capabilities r) \<subseteq> set (offered d)" "distinct (rc_provided_capabilities r)"
    "length (rc_provided_capabilities r) \<le> BOOT_STAGE_CAPABILITY_CAPACITY"
proof -
  have m: "mset (rc_provided_capabilities r) = mset (declared_of d (rc_result r))"
    using assms(1) by (simp add: receipt_fits_def receipt_declared_of)
  show "set (rc_provided_capabilities r) \<subseteq> set (offered d)" "distinct (rc_provided_capabilities r)"
    "length (rc_provided_capabilities r) \<le> BOOT_STAGE_CAPABILITY_CAPACITY"
    using declared_of_wf [OF assms(2)] mset_eq_setD [OF m] mset_eq_imp_distinct_iff [OF m]
      mset_eq_length [OF m] by auto
qed

lemma ran_to_step:
  assumes l: "ran_to l k" and k: "k < length (canonical_order l)"
    and o: "stage_outcome BOOT_LEDGER_STATUS_OK (planned_at l k) l l'"
  shows "ran_to l' (Suc k)"
proof -
  have pr: "plan_ready l" and len: "length (receipts l) = k"
    and est: "established_capabilities l = provided_so_far l k"
    using l by (simp_all add: ran_to_def)
  from o obtain r where r: "receipts l' = receipts l @ [r]"
      "established_capabilities l' = established_capabilities l @ rc_provided_capabilities r"
      "receipt_fits (planned_at l k) (established_capabilities l) k r"
      "tallied (planned_at l k) (rc_result r) l l'" and sp: "same_plan l l'"
    by (auto simp: stage_outcome_def stage_recorded_def len)
  have pa: "planned_at l' j = planned_at l j" for j using sp by (simp add: same_plan_def)
  have pr': "plan_ready l'" using sp pr by (simp add: same_plan_def plan_ready_def)
  have cr: "can_run (planned_at l k) l" by (rule ran_to_can_run [OF l k])
  have m: "mset (rc_provided_capabilities r) = mset (declared_of (planned_at l k) (rc_result r))"
    using r(3) by (simp add: receipt_fits_def receipt_declared_of)
  have fits: "receipt_fits (planned_at l' j) (provided_so_far l' j) j (receipts l' ! j)" if "j < Suc k" for j
    using that l r(1,3) len est pa provided_so_far_snoc [OF r(1), of j]
    by (auto simp: less_Suc_eq ran_to_def nth_append)
  have sub: "set (established_capabilities l') \<subseteq> (\<Union>j<Suc k. set (offered (planned_at l' j)))"
    using l r(2) receipt_provided(1) [OF r(3) planned_at_wf(2) [OF pr k]]
    unfolding ran_to_def pa lessThan_Suc by auto
  have est': "established_capabilities l' = provided_so_far l' (Suc k)"
    using r(1,2) est len by (simp add: provided_so_far_def)
  have deg: "degraded l' \<longleftrightarrow> (\<exists>j < Suc k. harms (planned_at l' j) (receipts l' ! j))"
    using l r(1,4) len pa by (auto simp: ran_to_def tallied_def harms_def less_Suc_eq nth_append)
  have cnt: "executed_count l' = count_if (\<lambda>r. rc_result r \<noteq> BOOT_RECEIPT_SKIPPED) (receipts l')"
    "optional_skip_count l' = count_if (\<lambda>r. rc_result r = BOOT_RECEIPT_SKIPPED) (receipts l')"
    using l r(1,4) by (simp_all add: ran_to_def tallied_def)
  have "canonical_order l' = canonical_order l" using sp by (simp add: same_plan_def)
  then show ?thesis
    unfolding ran_to_def
    using pr' k r(1) len est' can_run_fresh [OF cr m] r(2) sub fits deg cnt by simp
qed

text \<open>The whole loop, from position \<open>k\<close> on.\<close>

lemma execute_plan_outcome:
  assumes "ran_to l k" "execute_plan [k..<length (canonical_order l)] ctx l = (status, ctx', l')"
  shows "same_plan l l' \<and>
    (if status = BOOT_LEDGER_STATUS_OK then ran_to l' (length (canonical_order l))
     else \<exists>j < length (canonical_order l). \<exists>m. ran_to m j \<and> same_plan l m \<and>
            stage_refused status (planned_at l j) m l')"
  using assms
proof (induction "length (canonical_order l) - k" arbitrary: k l ctx)
  case 0
  then show ?case by (auto simp: ran_to_def)
next
  case (Suc n)
  then have k: "k < length (canonical_order l)" by simp
  let ?d = "planned_at l k"
  obtain st c1 l1 where x: "execute_stage ?d ctx l = (st, c1, l1)" by (metis prod_cases3)
  have o: "stage_outcome st ?d l l1"
    by (rule execute_stage_outcome [OF ran_to_can_run [OF Suc.prems(1) k] x])
  have id: "sd_id ?d = validated_stage_ids l ! k"
    using Suc.prems(1) k by (simp add: ran_to_def plan_ready_def)
  show ?case
  proof (cases "st = BOOT_LEDGER_STATUS_OK")
    case False
    with Suc.prems(2) x id have "status = st" "l' = l1" by (simp_all add: upt_conv_Cons [OF k])
    moreover have "\<exists>m. ran_to m k \<and> same_plan l m \<and> stage_refused st ?d m l1"
      using o False Suc.prems(1) by (intro exI [of _ l]) (simp add: stage_outcome_def)
    ultimately show ?thesis using o False k by (auto simp: stage_outcome_def)
  next
    case True
    have sp: "same_plan l l1" using o by (simp add: stage_outcome_def)
    then have ord: "canonical_order l1 = canonical_order l" "descriptors l1 = descriptors l"
      by (simp_all add: same_plan_def)
    have r: "ran_to l1 (Suc k)" using ran_to_step [OF Suc.prems(1) k] o True by simp
    have "execute_plan [Suc k..<length (canonical_order l1)] c1 l1 = (status, ctx', l')"
      using Suc.prems(2) x id True by (simp add: upt_conv_Cons [OF k] ord(1))
    moreover have "n = length (canonical_order l1) - Suc k" using Suc.hyps(2) ord(1) by simp
    ultimately have "same_plan l1 l' \<and>
      (if status = BOOT_LEDGER_STATUS_OK then ran_to l' (length (canonical_order l))
       else \<exists>j < length (canonical_order l). \<exists>m. ran_to m j \<and> same_plan l1 m \<and>
              stage_refused status (planned_at l j) m l')"
      using Suc.hyps(1) [of l1 "Suc k" c1] r unfolding ord by blast
    then show ?thesis using same_plan_trans [OF sp] by (metis (full_types))
  qed
qed

section \<open>Execution passes the receipt check\<close>

lemma check_provided_loop:
  assumes "distinct (caps @ rc_provided_capabilities r)"
    "list_all capability_is_known (caps @ rc_provided_capabilities r)"
    "set (rc_provided_capabilities r) \<subseteq> set (receipt_declared d r)"
  shows "m \<le> length (rc_provided_capabilities r) \<Longrightarrow>
    fold_until (check_provided d r) [0..<m] caps = Inr (caps @ take m (rc_provided_capabilities r))"
proof (induction m)
  case (Suc m)
  let ?ps = "rc_provided_capabilities r"
  let ?caps = "caps @ take m ?ps"
  have m: "m < length ?ps" using Suc.prems by simp
  have IH: "fold_until (check_provided d r) [0..<m] caps = Inr ?caps" using Suc by simp
  have kn: "capability_is_known (?ps ! m)" and decl: "?ps ! m \<in> set (receipt_declared d r)"
    using assms(2,3) m by (auto simp: list_all_iff)
  have fresh: "?ps ! m \<notin> set caps" using assms(1) m by (auto simp: disjoint_iff)
  have early: "\<forall>j < m. ?ps ! j \<noteq> ?ps ! m" using assms(1) m by (simp add: nth_eq_iff_index_eq)
  have "distinct (?caps)" "list_all capability_is_known ?caps"
    using assms(1,2) by (auto simp: list_all_iff dest: in_set_takeD)
  then have "length ?caps < BOOT_CAPABILITY_COUNT" by (rule known_capabilities_bounded)
  moreover have "?ps ! m \<notin> set ?caps"
    using fresh early m by (auto simp: in_set_conv_nth)
  moreover have "find_from (\<lambda>earlier. ?ps ! earlier = ?ps ! m) 0 m = None"
    using early by (simp add: find_from_None_iff)
  ultimately have "check_provided d r m ?caps = Inr (?caps @ [?ps ! m])"
    using kn decl by (simp add: check_provided_def Let_def not_le)
  then show ?case using m
    by (simp only: fold_until_upt_Suc IH sum.case) (simp add: take_Suc_conv_app_nth)
qed simp

definition seen_after :: "'c boot_ledger \<Rightarrow> nat \<Rightarrow> bool list" where
  "seen_after l k = map (\<lambda>s. \<exists>i < k. sd_id (planned_at l i) = s) [0..<BOOT_STAGE_COUNT]"

lemma seen_after_Suc:
  "sd_id (planned_at l k) < BOOT_STAGE_COUNT \<Longrightarrow>
     (seen_after l k)[sd_id (planned_at l k) := True] = seen_after l (Suc k)"
  by (rule nth_equalityI) (auto simp: seen_after_def nth_list_update Ex_less_Suc)

lemma verify_receipt_step:
  assumes l: "ran_to l n" and k: "k < n"
  shows "verify_receipt l k (provided_so_far l k, seen_after l k) =
    Inr (provided_so_far l (Suc k), seen_after l (Suc k))"
proof -
  let ?d = "planned_at l k" and ?r = "receipts l ! k"
  have pr: "plan_ready l" and kn: "k < length (canonical_order l)" and kr: "k < length (receipts l)"
    and f: "receipt_fits ?d (provided_so_far l k) k ?r"
    using l k by (simp_all add: ran_to_def)
  have d: "boot_ledger_planned_stage_at (Some l) k = Some ?d"
    using kn pr nth_mem [OF kn] unfolding plan_ready_def
    by (auto simp: boot_ledger_planned_stage_at_def simp del: nth_mem)
  have wf: "stage_well_formed ?d" by (rule planned_at_wf(2) [OF pr kn])
  then have sk: "stage_is_known (sd_id ?d)" by (simp add: stage_well_formed_def)
  then have idless: "sd_id ?d < BOOT_STAGE_COUNT" by (simp add: stage_is_known_def)
  have unseen: "\<not> seen_after l k ! sd_id ?d"
    using sk planned_at_inj(1) [OF pr _ kn] by (auto simp: seen_after_def stage_is_known_def)
  have decl: "mset (rc_provided_capabilities ?r) = mset (receipt_declared ?d ?r)"
    using f by (simp add: receipt_fits_def)
  have psf: "provided_so_far l (Suc k) = provided_so_far l k @ rc_provided_capabilities ?r"
    using kr by (simp add: provided_so_far_def take_Suc_conv_app_nth)
  have whole: "established_capabilities l = provided_so_far l (Suc k) @
      concat (map rc_provided_capabilities (drop (Suc k) (receipts l)))"
  proof -
    have "established_capabilities l = concat (map rc_provided_capabilities (receipts l))"
      using l unfolding ran_to_def provided_so_far_def by (metis order_refl take_all)
    then show ?thesis by (simp add: provided_so_far_def flip: concat_append map_append)
  qed
  have dist: "distinct (provided_so_far l k @ rc_provided_capabilities ?r)"
    "list_all capability_is_known (provided_so_far l k @ rc_provided_capabilities ?r)"
    using l whole unfolding psf by (auto simp: ran_to_def list_all_iff)
  have loop: "fold_until (check_provided ?d ?r) [0..<length (rc_provided_capabilities ?r)] (provided_so_far l k)
      = Inr (provided_so_far l (Suc k))"
    using check_provided_loop [OF dist, of ?d "length (rc_provided_capabilities ?r)"] mset_eq_setD [OF decl]
    by (simp add: psf)
  have small: "length (rc_provided_capabilities ?r) \<le> BOOT_STAGE_CAPABILITY_CAPACITY"
    by (rule receipt_provided(3) [OF f wf])
  have missing: "first_some (\<lambda>c. if \<not> descriptor_has_capability (rc_provided_capabilities ?r) c
      then Some c else None) (receipt_declared ?d ?r) = None"
    using mset_eq_setD [OF decl] by (simp add: first_some_None_iff)
  have reqs: "(if rc_result ?r = BOOT_RECEIPT_SKIPPED then None
      else first_some (\<lambda>c. if \<not> descriptor_has_capability (provided_so_far l k) c then Some c else None)
        (required_capabilities ?d)) = None"
    using f by (auto simp: receipt_fits_def first_some_None_iff)
  have id: "rc_stage_id ?r = sd_id ?d" "rc_sequence ?r = Suc k"
    "length (rc_proof_counters ?r) \<le> BOOT_STAGE_PROOF_COUNTER_CAPACITY"
    using f by (simp_all add: receipt_fits_def)
  have kinds: "\<not> ((rc_result ?r = BOOT_RECEIPT_RAN \<and> rc_status ?r \<noteq> BOOT_LEDGER_STATUS_OK) \<or>
     (rc_result ?r = BOOT_RECEIPT_SKIPPED \<and> rc_status ?r \<noteq> BOOT_LEDGER_STATUS_OPTIONAL_STAGE_SKIPPED) \<or>
     (rc_result ?r = BOOT_RECEIPT_FAILED \<and> rc_status ?r \<noteq> BOOT_LEDGER_STATUS_OPTIONAL_STAGE_FAILED) \<or>
     rc_result ?r \<ge> BOOT_RECEIPT_RESULT_COUNT)"
    "\<not> (sd_required ?d \<and> (rc_result ?r \<noteq> BOOT_RECEIPT_RAN \<or> rc_status ?r \<noteq> BOOT_LEDGER_STATUS_OK))"
    using f by (auto simp: receipt_fits_def receipt_consts)
  show ?thesis
    unfolding verify_receipt_def Let_def prod.case d option.case id reqs loop missing sum.case
      seen_after_Suc [OF idless]
    using sk unseen id(3) small kinds mset_eq_length [OF decl] by simp
qed

lemma verify_receipt_set_ok:
  assumes l: "ran_to l (length (canonical_order l))"
  shows "verify_receipt_set l = (BOOT_LEDGER_STATUS_OK, l)"
proof -
  let ?n = "length (canonical_order l)"
  have len: "length (receipts l) = ?n" "established_capabilities l = provided_so_far l ?n"
    "list_all capability_is_known (established_capabilities l)"
    using l unfolding ran_to_def by blast+
  have start: "([], replicate BOOT_STAGE_COUNT False) = (provided_so_far l 0, seen_after l 0)"
    by (auto simp: provided_so_far_def seen_after_def map_replicate_const)
  have "k \<le> ?n \<Longrightarrow> fold_until (verify_receipt l) [0..<k] (provided_so_far l 0, seen_after l 0)
      = Inr (provided_so_far l k, seen_after l k)" for k
  proof (induction k)
    case (Suc k)
    then show ?case using verify_receipt_step [OF l, of k]
      by (simp only: fold_until_upt_Suc) simp
  qed simp
  from this [of ?n] len show ?thesis
    unfolding verify_receipt_set_def Let_def start
    by (auto simp: first_some_None_iff list_all_iff split: option.splits dest!: first_some_SomeD)
qed

section \<open>Validated and executed\<close>

lemma validated_plan_ready:
  assumes "boot_ledger_validate (Some l) = (BOOT_LEDGER_STATUS_OK, Some v)"
  shows "plan_ready v \<and> validated v \<and> \<not> executed v \<and> fingerprint_plan v = validated_plan_fingerprint v"
  using assms
proof (rule validated_planning)
  fix order planned
  assume v: "Some v = Some (validated_ledger l order)" and acc: "plan_accepted (descriptors l)"
    and pl: "planning (descriptors l) planned order" "length order = length (descriptors l)"
  then show ?thesis
    by (auto simp: plan_ready_def plan_accepted_def planning_def)
qed

lemma ran_to_start:
  "plan_ready v \<Longrightarrow> ran_to (v\<lparr>receipts := [], established_capabilities := [], executed_count := 0,
     optional_skip_count := 0, degraded := False\<rparr>) 0"
  by (simp add: ran_to_def plan_ready_def provided_so_far_def)

lemma execute_ledger_run:
  assumes val: "boot_ledger_validate (Some l) = (BOOT_LEDGER_STATUS_OK, Some v)"
    and x: "boot_ledger_execute (Some v) (Some ctx) = (status, context_pointer, Some l')"
  obtains ctx' m where
    "execute_plan [0..<length (canonical_order v)] ctx
       (v\<lparr>receipts := [], established_capabilities := [], executed_count := 0,
         optional_skip_count := 0, degraded := False\<rparr>) = (status, ctx', m)"
    "l' = (if status = BOOT_LEDGER_STATUS_OK
           then m\<lparr>ledger_fingerprint := fingerprint_receipts m, executed := True,
                  ledger_status := BOOT_LEDGER_STATUS_OK\<rparr> else m)"
  using x validated_plan_ready [OF val]
  by (auto simp: boot_ledger_execute_def execute_ledger_def Let_def split: prod.splits if_splits)

lemma ran_to_ids:
  assumes "ran_to m (length (canonical_order m))"
  shows "map rc_stage_id (receipts m) = validated_stage_ids m"
  using assms by (auto intro!: nth_equalityI simp: ran_to_def plan_ready_def receipt_fits_def)

text \<open>Facts about a ledger that execution completed.\<close>

lemma executed_ledger:
  assumes val: "boot_ledger_validate (Some l) = (BOOT_LEDGER_STATUS_OK, Some v)"
    and x: "boot_ledger_execute (Some v) (Some ctx) = (BOOT_LEDGER_STATUS_OK, context_pointer, Some l')"
  shows "ran_to l' (length (canonical_order l')) \<and> executed l' \<and> validated l' \<and>
    fingerprint_receipts l' = ledger_fingerprint l' \<and> fingerprint_plan l' = validated_plan_fingerprint l' \<and>
    descriptors l' = descriptors v \<and> canonical_order l' = canonical_order v \<and>
    validated_stage_ids l' = validated_stage_ids v"
  using val x
proof (rule execute_ledger_run)
  fix ctx' m
  let ?s = "v\<lparr>receipts := [], established_capabilities := [], executed_count := 0,
         optional_skip_count := 0, degraded := False\<rparr>"
  assume run: "execute_plan [0..<length (canonical_order v)] ctx ?s = (BOOT_LEDGER_STATUS_OK, ctx', m)"
    and l': "l' = (if BOOT_LEDGER_STATUS_OK = BOOT_LEDGER_STATUS_OK
           then m\<lparr>ledger_fingerprint := fingerprint_receipts m, executed := True,
                  ledger_status := BOOT_LEDGER_STATUS_OK\<rparr> else m)"
  note pr = validated_plan_ready [OF val]
  have "ran_to ?s 0" by (rule ran_to_start) (simp add: pr)
  from execute_plan_outcome [OF this, of ctx BOOT_LEDGER_STATUS_OK ctx' m] run
  have m: "same_plan ?s m" "ran_to m (length (canonical_order m))"
    by (auto simp: same_plan_def)
  have "ran_to l' (length (canonical_order m))"
    using m(2) unfolding ran_to_def plan_ready_def provided_so_far_def l'
    by (elim conjE, intro conjI) simp_all
  then show ?thesis using m(1) pr
    by (simp add: l' same_plan_def fingerprint_receipts_def fingerprint_plan_def)
qed

text \<open>
  C9. When a validated plan executes to completion, the receipts name the planned stages
  in order, the independent receipt check accepts them, both fingerprints are valid, and
  the counters and the degraded flag say exactly what the receipts say.
\<close>
theorem boot_ledger_execute_verifies:
  assumes val: "boot_ledger_validate (Some l) = (BOOT_LEDGER_STATUS_OK, Some v)"
    and x: "boot_ledger_execute (Some v) (Some ctx) = (BOOT_LEDGER_STATUS_OK, context_pointer, Some l')"
  shows "verify_receipt_set l' = (BOOT_LEDGER_STATUS_OK, l') \<and> boot_ledger_fingerprint_valid (Some l') \<and>
    map rc_stage_id (receipts l') = validated_stage_ids v \<and>
    executed_count l' = count_if (\<lambda>r. rc_result r \<noteq> BOOT_RECEIPT_SKIPPED) (receipts l') \<and>
    optional_skip_count l' = count_if (\<lambda>r. rc_result r = BOOT_RECEIPT_SKIPPED) (receipts l') \<and>
    (degraded l' \<longleftrightarrow> (\<exists>j < length (receipts l').
       harms (descriptors v ! (canonical_order v ! j)) (receipts l' ! j)))"
proof -
  note e = executed_ledger [OF assms]
  from e have r: "ran_to l' (length (canonical_order l'))" by blast
  from e verify_receipt_set_ok [OF r] ran_to_ids [OF r] r show ?thesis
    by (simp add: boot_ledger_fingerprint_valid_def) (auto simp: ran_to_def)
qed

text \<open>
  In a completed execution no stage ran or failed unless every capability it requires
  was provided by the receipt of a stage before it, no required stage was skipped or
  failed, and every receipt provides exactly what its descriptor declares for its result.
\<close>
theorem boot_ledger_execute_requirements:
  assumes val: "boot_ledger_validate (Some l) = (BOOT_LEDGER_STATUS_OK, Some v)"
    and x: "boot_ledger_execute (Some v) (Some ctx) = (BOOT_LEDGER_STATUS_OK, context_pointer, Some l')"
    and k: "k < length (receipts l')"
  shows "(rc_result (receipts l' ! k) \<noteq> BOOT_RECEIPT_SKIPPED \<longrightarrow>
      (\<forall>c \<in> set (required_capabilities (descriptors v ! (canonical_order v ! k))).
         \<exists>j < k. c \<in> set (rc_provided_capabilities (receipts l' ! j)))) \<and>
    (sd_required (descriptors v ! (canonical_order v ! k)) \<longrightarrow>
       rc_result (receipts l' ! k) = BOOT_RECEIPT_RAN) \<and>
    mset (rc_provided_capabilities (receipts l' ! k)) =
      mset (receipt_declared (descriptors v ! (canonical_order v ! k)) (receipts l' ! k))"
proof -
  note e = executed_ledger [OF val x]
  then have f: "receipt_fits (planned_at v k) (provided_so_far l' k) k (receipts l' ! k)"
    using k unfolding ran_to_def by auto
  have "\<exists>j < k. c \<in> set (rc_provided_capabilities (receipts l' ! j))" if "c \<in> set (provided_so_far l' k)" for c
    using that k by (auto simp: provided_so_far_def set_conv_nth [of "take k (receipts l')"])
  with f show ?thesis unfolding receipt_fits_def by blast
qed

text \<open>
  When execution of a validated plan stops with any other status, the ledger is not
  marked executed and names the status and the plan position it stopped at; the receipts
  before that position are those of the stages planned there, and beyond them there is at
  most one receipt, that of the required stage that was skipped or failed.
\<close>
theorem boot_ledger_execute_refused:
  assumes val: "boot_ledger_validate (Some l) = (BOOT_LEDGER_STATUS_OK, Some v)"
    and x: "boot_ledger_execute (Some v) (Some ctx) = (status, context_pointer, Some l')"
    and st: "status \<noteq> BOOT_LEDGER_STATUS_OK"
  shows "\<not> executed l' \<and> ledger_status l' = status \<and>
    (\<exists>n < length (canonical_order v). refusal_stage l' = validated_stage_ids v ! n \<and>
       map rc_stage_id (take n (receipts l')) = take n (validated_stage_ids v) \<and>
       (length (receipts l') = n \<or>
        length (receipts l') = Suc n \<and> rc_stage_id (receipts l' ! n) = validated_stage_ids v ! n \<and>
        sd_required (descriptors v ! (canonical_order v ! n)) \<and>
        rc_result (receipts l' ! n) \<noteq> BOOT_RECEIPT_RAN))"
  using val x
proof (rule execute_ledger_run)
  fix ctx' m
  let ?s = "v\<lparr>receipts := [], established_capabilities := [], executed_count := 0,
         optional_skip_count := 0, degraded := False\<rparr>"
  assume run: "execute_plan [0..<length (canonical_order v)] ctx ?s = (status, ctx', m)"
    and "l' = (if status = BOOT_LEDGER_STATUS_OK
           then m\<lparr>ledger_fingerprint := fingerprint_receipts m, executed := True,
                  ledger_status := BOOT_LEDGER_STATUS_OK\<rparr> else m)"
  then have l': "l' = m" using st by simp
  note pr = validated_plan_ready [OF val]
  have "ran_to ?s 0" by (rule ran_to_start) (simp add: pr)
  from execute_plan_outcome [OF this, of ctx status ctx' m] run st
  obtain n b where n: "n < length (canonical_order v)" "ran_to b n" "same_plan ?s b"
      "stage_refused status (planned_at v n) b m" and sp: "same_plan ?s m"
    by auto
  have plan: "validated_stage_ids v ! n = sd_id (planned_at v n)"
      "length (validated_stage_ids v) = length (canonical_order v)"
    using pr n(1) by (simp_all add: plan_ready_def)
  have len: "length (receipts b) = n" using n(2) by (simp add: ran_to_def)
  have "map rc_stage_id (receipts b) = take n (validated_stage_ids v)"
    using n(1-3) pr by (auto intro!: nth_equalityI simp: ran_to_def plan_ready_def receipt_fits_def same_plan_def)
  then show ?thesis
    using n(1,4) sp pr plan len by (auto simp: l' stage_refused_def same_plan_def nth_append)
qed

section \<open>Concrete executions\<close>

definition sample_context :: "unit boot_context" where
  "sample_context = \<lparr>stage_failure_detail = None, boot_values = ()\<rparr>"

text \<open>A required stage whose callback leaves the prepared failure in place.\<close>

definition failing_stage :: "unit boot_stage_descriptor" where
  "failing_stage = (sample_stage 4 0 [] [7])\<lparr>sd_execute := Some (\<lambda>context result. (context, result))\<rparr>"

lemma single_validates:
  assumes "stage_well_formed d" "required_capabilities d = []" "irreversible_class d = 0"
  obtains v where "boot_ledger_validate (Some (sample_ledger [d])) = (BOOT_LEDGER_STATUS_OK, Some v)"
    "canonical_order v = [0]" "descriptors v = [d]" "validated_stage_ids v = [sd_id d]"
    "validated v" "\<not> executed v" "fingerprint_plan v = validated_plan_fingerprint v"
proof -
  have "plan_accepted [d]"
    using assms by (auto simp: plan_accepted_def stages_consistent_def deadlocked_def
        BOOT_LEDGER_STAGE_CAPACITY_def subset_singleton_iff)
  then have "fst (boot_ledger_validate (Some (sample_ledger [d]))) = BOOT_LEDGER_STATUS_OK"
    by (simp add: validate_accepts)
  then have ok: "boot_ledger_validate (Some (sample_ledger [d])) =
      (BOOT_LEDGER_STATUS_OK, snd (boot_ledger_validate (Some (sample_ledger [d]))))"
    by (metis prod.collapse)
  then obtain order planned where
    v: "snd (boot_ledger_validate (Some (sample_ledger [d]))) = Some (validated_ledger (sample_ledger [d]) order)"
    and "planning [d] planned order" "length order = length [d]"
    by (elim validated_planning) auto
  then have o: "order = [0]" by (cases order) (auto simp: planning_def)
  from ok v have val: "boot_ledger_validate (Some (sample_ledger [d])) =
      (BOOT_LEDGER_STATUS_OK, Some (validated_ledger (sample_ledger [d]) [0]))" unfolding o by simp
  then show thesis by (rule that) simp_all
qed

lemma sample_stage_execute [simp]:
  "sd_execute (sample_stage stage phase required provided) = Some (\<lambda>context result.
     (context, \<lparr>sr_result = BOOT_RECEIPT_RAN, sr_provided = provided, sr_proof_counters = []\<rparr>))"
  by (simp add: sample_stage_def)

lemma memory_runs:
  obtains v l' where
    "boot_ledger_validate (Some (sample_ledger [memory_stage])) = (BOOT_LEDGER_STATUS_OK, Some v)"
    "boot_ledger_execute (Some v) (Some sample_context) =
       (BOOT_LEDGER_STATUS_OK, Some sample_context, Some l')"
    "length (receipts l') = 1" "canonical_order v = [0]" "descriptors v = [memory_stage]"
proof -
  have wf: "stage_well_formed memory_stage"
    unfolding memory_stage_def by (simp add: sample_well_formed)
  obtain v where v: "boot_ledger_validate (Some (sample_ledger [memory_stage])) = (BOOT_LEDGER_STATUS_OK, Some v)"
    "canonical_order v = [0]" "descriptors v = [memory_stage]" "validated_stage_ids v = [sd_id memory_stage]"
    "validated v" "\<not> executed v" "fingerprint_plan v = validated_plan_fingerprint v"
    by (rule single_validates [OF wf]) (simp_all add: memory_stage_def)
  have "fst (boot_ledger_execute (Some v) (Some sample_context)) = BOOT_LEDGER_STATUS_OK \<and>
    fst (snd (boot_ledger_execute (Some v) (Some sample_context))) = Some sample_context \<and>
    map_option (length \<circ> receipts) (snd (snd (boot_ledger_execute (Some v) (Some sample_context)))) = Some 1"
    using v(2-7)
    by (simp add: boot_ledger_execute_def execute_ledger_def execute_stage_def missing_requirement_def
        validate_result_def append_receipt_def memory_stage_def sample_context_def
        ledger_consts receipt_consts capability_is_known_def Let_def)
  then obtain l' where "boot_ledger_execute (Some v) (Some sample_context) =
      (BOOT_LEDGER_STATUS_OK, Some sample_context, Some l')" "length (receipts l') = 1"
    by (cases "boot_ledger_execute (Some v) (Some sample_context)") auto
  with v that show thesis by blast
qed

theorem boot_ledger_execute_verifies_witness:
  "\<exists>v l'. boot_ledger_validate (Some (sample_ledger [memory_stage])) = (BOOT_LEDGER_STATUS_OK, Some v) \<and>
     boot_ledger_execute (Some v) (Some sample_context) =
       (BOOT_LEDGER_STATUS_OK, Some sample_context, Some l') \<and>
     verify_receipt_set l' = (BOOT_LEDGER_STATUS_OK, l')"
proof -
  obtain v l' where v: "boot_ledger_validate (Some (sample_ledger [memory_stage])) = (BOOT_LEDGER_STATUS_OK, Some v)"
    and x: "boot_ledger_execute (Some v) (Some sample_context) =
       (BOOT_LEDGER_STATUS_OK, Some sample_context, Some l')" by (rule memory_runs)
  from boot_ledger_execute_verifies [OF v x] v x show ?thesis by blast
qed

theorem boot_ledger_execute_requirements_witness:
  "\<exists>v l'. boot_ledger_execute (Some v) (Some sample_context) =
       (BOOT_LEDGER_STATUS_OK, Some sample_context, Some l') \<and>
     rc_result (receipts l' ! 0) = BOOT_RECEIPT_RAN"
proof -
  obtain v l' where v: "boot_ledger_validate (Some (sample_ledger [memory_stage])) = (BOOT_LEDGER_STATUS_OK, Some v)"
    and x: "boot_ledger_execute (Some v) (Some sample_context) =
       (BOOT_LEDGER_STATUS_OK, Some sample_context, Some l')"
    and l': "length (receipts l') = 1" "canonical_order v = [0]" "descriptors v = [memory_stage]"
    by (rule memory_runs)
  from boot_ledger_execute_requirements [OF v x, of 0] l' x show ?thesis
    by (auto simp: memory_stage_def)
qed

theorem boot_ledger_execute_refused_witness:
  "\<exists>v c l'. boot_ledger_execute (Some v) (Some sample_context) =
       (BOOT_LEDGER_STATUS_REQUIRED_STAGE_FAILED, c, Some l') \<and> \<not> executed l' \<and> refusal_stage l' = 4"
proof -
  have "stage_well_formed (sample_stage 4 0 [] [7])" by (simp add: sample_well_formed)
  then have wf: "stage_well_formed failing_stage"
    by (simp add: failing_stage_def stage_well_formed_def offered_def)
  obtain v where v: "boot_ledger_validate (Some (sample_ledger [failing_stage])) = (BOOT_LEDGER_STATUS_OK, Some v)"
    "canonical_order v = [0]" "descriptors v = [failing_stage]" "validated_stage_ids v = [sd_id failing_stage]"
    "validated v" "\<not> executed v" "fingerprint_plan v = validated_plan_fingerprint v"
    by (rule single_validates [OF wf]) (simp_all add: failing_stage_def)
  have "fst (boot_ledger_execute (Some v) (Some sample_context)) = BOOT_LEDGER_STATUS_REQUIRED_STAGE_FAILED \<and>
    snd (snd (boot_ledger_execute (Some v) (Some sample_context))) \<noteq> None"
    using v(2-7)
    by (simp add: boot_ledger_execute_def execute_ledger_def execute_stage_def missing_requirement_def
        validate_result_def append_receipt_def failing_stage_def fail_result_def sample_context_def
        ledger_consts receipt_consts capability_is_known_def Let_def)
  then obtain c l' where x: "boot_ledger_execute (Some v) (Some sample_context) =
      (BOOT_LEDGER_STATUS_REQUIRED_STAGE_FAILED, c, Some l')" by (metis option.exhaust prod.collapse)
  from boot_ledger_execute_refused [OF v(1) x] v(2,4) x show ?thesis
    by (auto simp: failing_stage_def)
qed

end
