(* ===== verification/Monotonic_Clock.thy ===== *)
theory Monotonic_Clock
  imports Prelude
begin

unbundle bit_operations_syntax

text \<open>
  The time-stamp counter, \<open>src/kernel/tsc.c\<close>, and the monotonic clock built on it,
  \<open>src/kernel/clock.c\<close>.  What the hardware delivers (CPUID leaves, the interrupt flag,
  counter readings, the outcome of the reference wait) are arguments.  The locale
  \<open>monotonic_source\<close> is the contract a clock offers its clients: a reading is never
  below an earlier one.
\<close>

section \<open>The time-stamp counter\<close>

datatype tsc_status =
    TSC_STATUS_OK
  | TSC_STATUS_UNSUPPORTED
  | TSC_STATUS_INTERRUPTS_ENABLED
  | TSC_STATUS_ALREADY_CALIBRATED
  | TSC_STATUS_NOT_CALIBRATED
  | TSC_STATUS_REFERENCE_FAILURE
  | TSC_STATUS_NOT_COUNTING
  | TSC_STATUS_WENT_BACKWARDS
  | TSC_STATUS_RATE_OUT_OF_RANGE

record tsc_state =
  frequency_hz :: u64
  tsc_present :: bool
  tsc_invariant :: bool
  tsc_calibrated :: bool

record cpuid_result =
  cpuid_eax :: "32 word"
  cpuid_ebx :: "32 word"
  cpuid_ecx :: "32 word"
  cpuid_edx :: "32 word"

definition CPUID_FEATURE_LEAF :: "32 word" where "CPUID_FEATURE_LEAF = 1"
definition CPUID_FEATURE_TSC :: "32 word" where "CPUID_FEATURE_TSC = 0x00000010"
definition CPUID_EXTENDED_ROOT :: "32 word" where "CPUID_EXTENDED_ROOT = 0x80000000"
definition CPUID_EXTENDED_POWER :: "32 word" where "CPUID_EXTENDED_POWER = 0x80000007"
definition CPUID_INVARIANT_TSC :: "32 word" where "CPUID_INVARIANT_TSC = 0x00000100"
definition PM_TIMER_FREQUENCY_HZ :: nat where "PM_TIMER_FREQUENCY_HZ = 3579545"
definition REFERENCE_PM_TICKS :: nat where "REFERENCE_PM_TICKS = PM_TIMER_FREQUENCY_HZ div 10"
definition NANOSECONDS_PER_SECOND :: u64 where "NANOSECONDS_PER_SECOND = 1000000000"
definition TSC_MAX_FREQUENCY :: u64 where "TSC_MAX_FREQUENCY = 18000000000"

lemmas tsc_consts = PM_TIMER_FREQUENCY_HZ_def NANOSECONDS_PER_SECOND_def TSC_MAX_FREQUENCY_def

definition detect_features ::
  "(32 word \<Rightarrow> 32 word \<Rightarrow> cpuid_result) \<Rightarrow> tsc_state \<Rightarrow> tsc_state" where
  "detect_features cpu_cpuid state =
     (let features = cpu_cpuid CPUID_FEATURE_LEAF 0;
          state = state\<lparr>tsc_present := cpuid_edx features AND CPUID_FEATURE_TSC \<noteq> 0,
                        tsc_invariant := False\<rparr>
      in if \<not> tsc_present state then state
         else if cpuid_eax (cpu_cpuid CPUID_EXTENDED_ROOT 0) < CPUID_EXTENDED_POWER then state
         else state\<lparr>tsc_invariant :=
                cpuid_edx (cpu_cpuid CPUID_EXTENDED_POWER 0) AND CPUID_INVARIANT_TSC \<noteq> 0\<rparr>)"

text \<open>The status and the value of \<open>*rate\<close> afterwards.\<close>

definition rate_from_span :: "u64 \<Rightarrow> u64 \<Rightarrow> nat \<Rightarrow> u64 \<Rightarrow> u64 \<Rightarrow> tsc_status \<times> u64" where
  "rate_from_span start end_count reference_frequency reference_ticks rate =
     (if reference_frequency = 0 \<or> reference_ticks = 0 then (TSC_STATUS_NOT_COUNTING, rate)
      else if end_count < start then (TSC_STATUS_WENT_BACKWARDS, rate)
      else if end_count = start then (TSC_STATUS_NOT_COUNTING, rate)
      else let elapsed = sub64 end_count start in
        if elapsed > UINT64_MAX div reference_frequency then (TSC_STATUS_RATE_OUT_OF_RANGE, rate)
        else let rate = mul64 elapsed reference_frequency div reference_ticks in
          if rate = 0 then (TSC_STATUS_NOT_COUNTING, rate)
          else if rate > TSC_MAX_FREQUENCY then (TSC_STATUS_RATE_OUT_OF_RANGE, rate)
          else (TSC_STATUS_OK, rate))"

definition span_to_nanoseconds :: "u64 \<Rightarrow> u64 \<Rightarrow> u64" where
  "span_to_nanoseconds elapsed rate =
     (let whole_seconds = elapsed div rate; remainder = elapsed mod rate
      in add64 (mul64 whole_seconds NANOSECONDS_PER_SECOND)
           (mul64 remainder NANOSECONDS_PER_SECOND div rate))"

text \<open>
  The two counter readings around the reference wait are \<open>start\<close> and \<open>end_count\<close>; the
  wait itself reports success and the reference ticks it took.
\<close>

definition tsc_calibrate ::
  "(32 word \<Rightarrow> 32 word \<Rightarrow> cpuid_result) \<Rightarrow> bool \<Rightarrow> bool \<Rightarrow> u64 \<Rightarrow> bool \<times> u64 \<Rightarrow> u64 \<Rightarrow> tsc_state \<Rightarrow>
     tsc_status \<times> tsc_state" where
  "tsc_calibrate cpu_cpuid interrupts_enabled pm_present start pm_wait end_count state =
     (let state = detect_features cpu_cpuid state in
      if \<not> tsc_present state then (TSC_STATUS_UNSUPPORTED, state)
      else if interrupts_enabled then (TSC_STATUS_INTERRUPTS_ENABLED, state)
      else if tsc_calibrated state then (TSC_STATUS_ALREADY_CALIBRATED, state)
      else if \<not> pm_present then (TSC_STATUS_REFERENCE_FAILURE, state)
      else if \<not> fst pm_wait then (TSC_STATUS_REFERENCE_FAILURE, state)
      else case rate_from_span start end_count PM_TIMER_FREQUENCY_HZ (snd pm_wait) 0 of
        (status, rate) \<Rightarrow>
          if status \<noteq> TSC_STATUS_OK then (status, state)
          else (TSC_STATUS_OK, state\<lparr>frequency_hz := rate, tsc_calibrated := True\<rparr>))"

definition tsc_span_nanoseconds :: "tsc_state \<Rightarrow> u64 \<Rightarrow> u64 \<Rightarrow> u64" where
  "tsc_span_nanoseconds state start end_count =
     (if \<not> tsc_calibrated state \<or> end_count < start then 0
      else span_to_nanoseconds (sub64 end_count start) (frequency_hz state))"

definition tsc_self_test :: "tsc_state \<Rightarrow> bool" where
  "tsc_self_test state =
     (rate_from_span 1000 (1000 + 2000000000) PM_TIMER_FREQUENCY_HZ PM_TIMER_FREQUENCY_HZ 0
        = (TSC_STATUS_OK, 2000000000) \<and>
      rate_from_span 0 4000000000 PM_TIMER_FREQUENCY_HZ (PM_TIMER_FREQUENCY_HZ * 2) 2000000000
        = (TSC_STATUS_OK, 2000000000) \<and>
      fst (rate_from_span 1000 1000 PM_TIMER_FREQUENCY_HZ PM_TIMER_FREQUENCY_HZ 2000000000)
        = TSC_STATUS_NOT_COUNTING \<and>
      fst (rate_from_span 2000 1000 PM_TIMER_FREQUENCY_HZ PM_TIMER_FREQUENCY_HZ 2000000000)
        = TSC_STATUS_WENT_BACKWARDS \<and>
      fst (rate_from_span 0 100000000000 PM_TIMER_FREQUENCY_HZ (PM_TIMER_FREQUENCY_HZ div 10) 2000000000)
        = TSC_STATUS_RATE_OUT_OF_RANGE \<and>
      fst (rate_from_span 0 (UINT64_MAX div PM_TIMER_FREQUENCY_HZ + 1) PM_TIMER_FREQUENCY_HZ
             PM_TIMER_FREQUENCY_HZ 2000000000) = TSC_STATUS_RATE_OUT_OF_RANGE \<and>
      fst (rate_from_span 0 1000 0 PM_TIMER_FREQUENCY_HZ 2000000000) = TSC_STATUS_NOT_COUNTING \<and>
      fst (rate_from_span 0 1000 PM_TIMER_FREQUENCY_HZ 0 2000000000) = TSC_STATUS_NOT_COUNTING \<and>
      span_to_nanoseconds 2000000000 2000000000 = NANOSECONDS_PER_SECOND \<and>
      span_to_nanoseconds 1000000000 2000000000 = NANOSECONDS_PER_SECOND div 2 \<and>
      span_to_nanoseconds 2 2000000000 = 1 \<and> span_to_nanoseconds 0 2000000000 = 0 \<and>
      span_to_nanoseconds (3000000000 * 3600) 3000000000 = 3600 * NANOSECONDS_PER_SECOND \<and>
      tsc_span_nanoseconds state 10 5 = 0)"

fun tsc_status_string :: "tsc_status \<Rightarrow> string" where
  "tsc_status_string TSC_STATUS_OK = ''ok''"
| "tsc_status_string TSC_STATUS_UNSUPPORTED = ''processor reports no time-stamp counter''"
| "tsc_status_string TSC_STATUS_INTERRUPTS_ENABLED = ''TSC calibration requires interrupts disabled''"
| "tsc_status_string TSC_STATUS_ALREADY_CALIBRATED = ''TSC was calibrated twice''"
| "tsc_status_string TSC_STATUS_NOT_CALIBRATED = ''TSC has no calibrated rate''"
| "tsc_status_string TSC_STATUS_REFERENCE_FAILURE = ''TSC reference clock failed''"
| "tsc_status_string TSC_STATUS_NOT_COUNTING = ''TSC did not advance across the reference interval''"
| "tsc_status_string TSC_STATUS_WENT_BACKWARDS = ''TSC ran backwards across the reference interval''"
| "tsc_status_string TSC_STATUS_RATE_OUT_OF_RANGE = ''TSC rate is outside the representable range''"

section \<open>The clock\<close>

datatype clock_source = CLOCK_SOURCE_NONE | CLOCK_SOURCE_TSC

datatype clock_status =
    CLOCK_STATUS_OK
  | CLOCK_STATUS_NOT_STARTED
  | CLOCK_STATUS_ALREADY_STARTED
  | CLOCK_STATUS_NO_SOURCE

record clock_state =
  clock_source :: clock_source
  clock_origin :: u64
  last_reported_ns :: u64
  backward_steps :: u64
  clock_started :: bool

definition monotonic_step :: "u64 \<Rightarrow> u64 \<Rightarrow> u64 \<Rightarrow> u64 \<times> u64" where
  "monotonic_step candidate last_ns steps =
     (if candidate < last_ns then (last_ns, add64 steps 1) else (candidate, steps))"

definition clock_start :: "tsc_state \<Rightarrow> u64 \<Rightarrow> clock_state \<Rightarrow> clock_status \<times> clock_state" where
  "clock_start tsc tsc_reading state =
     (if clock_started state then (CLOCK_STATUS_ALREADY_STARTED, state)
      else if \<not> tsc_calibrated tsc then (CLOCK_STATUS_NO_SOURCE, state)
      else (CLOCK_STATUS_OK,
            \<lparr>clock_source = CLOCK_SOURCE_TSC, clock_origin = tsc_reading, last_reported_ns = 0,
             backward_steps = 0, clock_started = True\<rparr>))"

definition clock_monotonic_ns :: "tsc_state \<Rightarrow> u64 \<Rightarrow> clock_state \<Rightarrow> u64 \<times> clock_state" where
  "clock_monotonic_ns tsc tsc_reading state =
     (if \<not> clock_started state then (0, state)
      else case monotonic_step (tsc_span_nanoseconds tsc (clock_origin state) tsc_reading)
                  (last_reported_ns state) (backward_steps state) of
        (now, steps) \<Rightarrow> (now, state\<lparr>last_reported_ns := now, backward_steps := steps\<rparr>))"

definition clock_self_test :: "tsc_state \<Rightarrow> u64 \<Rightarrow> clock_state \<Rightarrow> bool" where
  "clock_self_test tsc tsc_reading state =
     (\<not> clock_started state \<and> fst (clock_monotonic_ns tsc tsc_reading state) = 0 \<and>
      clock_source state = CLOCK_SOURCE_NONE \<and>
      monotonic_step 1000 900 0 = (1000, 0) \<and>
      monotonic_step 1000 1000 0 = (1000, 0) \<and>
      monotonic_step 900 1000 0 = (1000, 1) \<and>
      monotonic_step 0 1000 1 = (1000, 2) \<and>
      monotonic_step 0 0 2 = (0, 2))"

fun clock_source_string :: "clock_source \<Rightarrow> string" where
  "clock_source_string CLOCK_SOURCE_NONE = ''none''"
| "clock_source_string CLOCK_SOURCE_TSC = ''time-stamp counter''"

fun clock_status_string :: "clock_status \<Rightarrow> string" where
  "clock_status_string CLOCK_STATUS_OK = ''ok''"
| "clock_status_string CLOCK_STATUS_NOT_STARTED = ''monotonic clock has no origin yet''"
| "clock_status_string CLOCK_STATUS_ALREADY_STARTED = ''monotonic clock was started twice''"
| "clock_status_string CLOCK_STATUS_NO_SOURCE = ''monotonic clock has no calibrated counter to run on''"

section \<open>Conversion arithmetic\<close>

lemma quotient_split:
  fixes elapsed rate k :: nat
  assumes "0 < rate"
  shows "elapsed div rate * k + elapsed mod rate * k div rate = elapsed * k div rate"
proof -
  have "elapsed * k = elapsed div rate * k * rate + elapsed mod rate * k"
    by (metis add_mult_distrib div_mult_mod_eq mult.assoc mult.commute)
  then have "elapsed * k div rate = (elapsed div rate * k * rate + elapsed mod rate * k) div rate" by simp
  also have "\<dots> = elapsed div rate * k + elapsed mod rate * k div rate"
    using assms by simp
  finally show ?thesis by simp
qed

text \<open>
  C39. For every rate calibration can accept, the split conversion of a counter span to
  nanoseconds is the exact quotient, rounded down, whenever that quotient fits 64 bits:
  neither intermediate product wraps.
\<close>
theorem span_to_nanoseconds_exact:
  assumes rate: "0 < rate" "rate \<le> TSC_MAX_FREQUENCY"
    and fits: "elapsed * NANOSECONDS_PER_SECOND div rate < 2 ^ 64"
  shows "span_to_nanoseconds elapsed rate = elapsed * NANOSECONDS_PER_SECOND div rate"
proof -
  let ?k = NANOSECONDS_PER_SECOND
  note q = quotient_split [OF rate(1), of elapsed ?k]
  have "elapsed mod rate * ?k < rate * ?k"
    using rate(1) by (simp add: NANOSECONDS_PER_SECOND_def)
  also have "\<dots> \<le> TSC_MAX_FREQUENCY * ?k" using rate(2) by simp
  also have "\<dots> < 2 ^ 64" by (simp add: tsc_consts)
  finally have low: "mul64 (elapsed mod rate) ?k = elapsed mod rate * ?k" by (rule mul64_id)
  have "mul64 (elapsed div rate) ?k = elapsed div rate * ?k"
    using q fits by (intro mul64_id) linarith
  then show ?thesis
    unfolding span_to_nanoseconds_def Let_def low using q fits by (simp add: add64_id)
qed

theorem span_to_nanoseconds_exact_witness:
  "span_to_nanoseconds 1000000001 2000000000 = 1000000001 * NANOSECONDS_PER_SECOND div 2000000000"
  by (rule span_to_nanoseconds_exact) (simp_all add: tsc_consts)

section \<open>Calibration\<close>

lemma rate_from_span_ok:
  assumes "rate_from_span start end_count frequency ticks r0 = (TSC_STATUS_OK, rate)"
    "end_count < 2 ^ 64"
  shows "start < end_count \<and> 0 < ticks \<and> 0 < rate \<and> rate \<le> TSC_MAX_FREQUENCY \<and>
     rate = (end_count - start) * frequency div ticks"
proof -
  have s: "start < end_count" "0 < ticks" "0 < frequency"
    using assms(1) by (auto simp: rate_from_span_def split: if_splits)
  have e: "sub64 end_count start = end_count - start" using s assms(2) by (simp add: sub64_id)
  have "(end_count - start) * frequency < 2 ^ 64" if "end_count - start \<le> UINT64_MAX div frequency"
  proof -
    have "(end_count - start) * frequency \<le> UINT64_MAX div frequency * frequency" using that by simp
    also have "\<dots> \<le> UINT64_MAX" by simp
    finally show ?thesis by simp
  qed
  with assms(1) s e show ?thesis
    by (auto simp: rate_from_span_def Let_def mul64_id not_less split: if_splits)
qed

definition tsc_ok :: "tsc_state \<Rightarrow> bool" where
  "tsc_ok state \<longleftrightarrow> (tsc_calibrated state \<longrightarrow>
     0 < frequency_hz state \<and> frequency_hz state \<le> TSC_MAX_FREQUENCY)"

lemma detect_features_keeps [simp]:
  "frequency_hz (detect_features cpuid state) = frequency_hz state"
  "tsc_calibrated (detect_features cpuid state) = tsc_calibrated state"
  by (simp_all add: detect_features_def Let_def)

text \<open>
  Calibration keeps the counter state within the range the conversion is exact for:
  whatever the hardware reports, a calibrated counter has a positive rate of at most 18 GHz,
  and that rate is the counter span scaled by the reference ticks that passed.
\<close>
theorem tsc_calibrate_rate:
  assumes inv: "tsc_ok state" and range: "end_count < 2 ^ 64"
    and call: "tsc_calibrate cpuid interrupts pm_present start pm_wait end_count state = (status, state')"
  shows "tsc_ok state' \<and>
    (status = TSC_STATUS_OK \<longrightarrow> tsc_calibrated state' \<and>
       frequency_hz state' = (end_count - start) * PM_TIMER_FREQUENCY_HZ div snd pm_wait) \<and>
    (status \<noteq> TSC_STATUS_OK \<longrightarrow> tsc_calibrated state' = tsc_calibrated state \<and>
       frequency_hz state' = frequency_hz state)"
proof -
  obtain st rate where r: "rate_from_span start end_count PM_TIMER_FREQUENCY_HZ (snd pm_wait) 0 = (st, rate)"
    by fastforce
  show ?thesis
  proof (cases "st = TSC_STATUS_OK")
    case True
    with rate_from_span_ok [of start end_count _ _ _ rate] r range
    have "0 < rate" "rate \<le> TSC_MAX_FREQUENCY" "rate = (end_count - start) * PM_TIMER_FREQUENCY_HZ div snd pm_wait"
      by auto
    with call inv r True show ?thesis
      by (auto simp: tsc_calibrate_def tsc_ok_def Let_def split: if_splits)
  next
    case False
    with call inv r show ?thesis
      by (auto simp: tsc_calibrate_def tsc_ok_def Let_def split: if_splits)
  qed
qed

definition sample_cpuid :: "32 word \<Rightarrow> 32 word \<Rightarrow> cpuid_result" where
  "sample_cpuid leaf subleaf = \<lparr>cpuid_eax = 0x80000008, cpuid_ebx = 0, cpuid_ecx = 0, cpuid_edx = 0x110\<rparr>"

definition uncalibrated :: tsc_state where
  "uncalibrated = \<lparr>frequency_hz = 0, tsc_present = False, tsc_invariant = False, tsc_calibrated = False\<rparr>"

lemma uncalibrated_ok: "tsc_ok uncalibrated"
  by (simp add: tsc_ok_def uncalibrated_def)

lemma sample_calibrates:
  "fst (tsc_calibrate sample_cpuid False True 1000 (True, 357954) 200001000 uncalibrated) = TSC_STATUS_OK"
  by (simp add: tsc_calibrate_def detect_features_def sample_cpuid_def uncalibrated_def rate_from_span_def
      CPUID_FEATURE_TSC_def CPUID_EXTENDED_POWER_def CPUID_INVARIANT_TSC_def sub64_def mul64_def
      tsc_consts Let_def)

theorem tsc_calibrate_rate_witness:
  "\<exists>state'. tsc_calibrate sample_cpuid False True 1000 (True, 357954) 200001000 uncalibrated
       = (TSC_STATUS_OK, state') \<and> tsc_ok state' \<and> frequency_hz state' = 2000002793"
proof -
  obtain state' where c: "tsc_calibrate sample_cpuid False True 1000 (True, 357954) 200001000 uncalibrated
       = (TSC_STATUS_OK, state')" using sample_calibrates by (metis prod.collapse)
  from tsc_calibrate_rate [OF uncalibrated_ok _ c] c show ?thesis
    by (simp add: PM_TIMER_FREQUENCY_HZ_def)
qed

section \<open>Monotonic readings\<close>

text \<open>A sequence of readings, one per raw counter sample.\<close>

fun readings :: "('r \<Rightarrow> 's \<Rightarrow> nat \<times> 's) \<Rightarrow> 'r list \<Rightarrow> 's \<Rightarrow> nat list \<times> 's" where
  "readings read [] s = ([], s)"
| "readings read (r # rs) s =
     (case read r s of (n, s') \<Rightarrow> (case readings read rs s' of (ns, s'') \<Rightarrow> (n # ns, s'')))"

locale monotonic_source =
  fixes read :: "'r \<Rightarrow> 's \<Rightarrow> nat \<times> 's" and last_value :: "'s \<Rightarrow> nat" and running :: "'s \<Rightarrow> bool"
  assumes read_keeps: "running s \<Longrightarrow> read r s = (n, s') \<Longrightarrow> running s'"
    and read_reports: "running s \<Longrightarrow> read r s = (n, s') \<Longrightarrow> last_value s' = n"
    and read_mono: "running s \<Longrightarrow> read r s = (n, s') \<Longrightarrow> last_value s \<le> n"
begin

lemma readings_sorted:
  "running s \<Longrightarrow> readings read rs s = (ns, s') \<Longrightarrow> sorted (last_value s # ns) \<and> running s'"
proof (induction rs arbitrary: s ns)
  case (Cons r rs)
  obtain n s1 where r: "read r s = (n, s1)" by fastforce
  obtain ms s2 where rs: "readings read rs s1 = (ms, s2)" by fastforce
  from Cons.prems(2) r rs have "ns = n # ms" "s' = s2" by auto
  moreover from Cons.IH [OF read_keeps [OF Cons.prems(1) r]] rs \<open>s' = s2\<close>
  have "sorted (last_value s1 # ms) \<and> running s2" by simp
  ultimately show ?case
    using read_reports [OF Cons.prems(1) r] read_mono [OF Cons.prems(1) r] by auto
qed simp

end

lemma clock_read_started:
  "clock_started s \<Longrightarrow> clock_monotonic_ns tsc r s =
     (max (last_reported_ns s) (tsc_span_nanoseconds tsc (clock_origin s) r),
      s\<lparr>last_reported_ns := max (last_reported_ns s) (tsc_span_nanoseconds tsc (clock_origin s) r),
        backward_steps := (if tsc_span_nanoseconds tsc (clock_origin s) r < last_reported_ns s
                           then add64 (backward_steps s) 1 else backward_steps s)\<rparr>)"
  by (auto simp: clock_monotonic_ns_def monotonic_step_def max_def)

interpretation clocks: monotonic_source "clock_monotonic_ns tsc" last_reported_ns clock_started for tsc
  by unfold_locales (auto simp: clock_read_started)

text \<open>The reference: running maxima, and how many samples fell below the maximum so far.\<close>

fun running_max :: "nat \<Rightarrow> nat list \<Rightarrow> nat list" where
  "running_max m [] = []"
| "running_max m (x # xs) = max m x # running_max (max m x) xs"

fun regressions :: "nat \<Rightarrow> nat list \<Rightarrow> nat" where
  "regressions m [] = 0"
| "regressions m (x # xs) = (if x < m then 1 else 0) + regressions (max m x) xs"

lemma clock_readings_max:
  "clock_started s \<Longrightarrow>
     readings (clock_monotonic_ns tsc) rs s = (ns, s') \<Longrightarrow>
     ns = running_max (last_reported_ns s) (map (tsc_span_nanoseconds tsc (clock_origin s)) rs) \<and>
     backward_steps s' mod 2 ^ 64 =
       (backward_steps s + regressions (last_reported_ns s) (map (tsc_span_nanoseconds tsc (clock_origin s)) rs))
       mod 2 ^ 64"
proof (induction rs arbitrary: s ns)
  case (Cons r rs)
  let ?x = "tsc_span_nanoseconds tsc (clock_origin s) r"
  let ?s = "s\<lparr>last_reported_ns := max (last_reported_ns s) ?x,
        backward_steps := (if ?x < last_reported_ns s then add64 (backward_steps s) 1 else backward_steps s)\<rparr>"
  obtain ms s2 where rs: "readings (clock_monotonic_ns tsc) rs ?s = (ms, s2)" by fastforce
  have ns: "ns = max (last_reported_ns s) ?x # ms" "s' = s2"
    using Cons.prems rs by (auto simp: clock_read_started)
  from Cons.IH [of ?s ms] rs Cons.prems(1) ns(2) have
    IH: "ms = running_max (max (last_reported_ns s) ?x) (map (tsc_span_nanoseconds tsc (clock_origin s)) rs)"
      "backward_steps s' mod 2 ^ 64 = ((if ?x < last_reported_ns s then add64 (backward_steps s) 1 else backward_steps s)
         + regressions (max (last_reported_ns s) ?x) (map (tsc_span_nanoseconds tsc (clock_origin s)) rs)) mod 2 ^ 64"
    by simp_all
  then show ?case using ns by (auto simp: add64_def mod_simps)
qed simp

text \<open>
  C14. Whatever the counter does, a started clock never reports a time below one it
  reported before: its readings are the running maxima of the converted counter samples,
  and it counts one backward step for each sample that fell below the maximum so far.
\<close>
theorem clock_never_steps_back:
  assumes "clock_started s" and "readings (clock_monotonic_ns tsc) samples s = (ns, s')"
  shows "sorted (last_reported_ns s # ns) \<and>
    ns = running_max (last_reported_ns s) (map (tsc_span_nanoseconds tsc (clock_origin s)) samples) \<and>
    backward_steps s' mod 2 ^ 64 = (backward_steps s +
      regressions (last_reported_ns s) (map (tsc_span_nanoseconds tsc (clock_origin s)) samples)) mod 2 ^ 64"
  using clocks.readings_sorted [OF assms] clock_readings_max [OF assms] by blast

definition sample_tsc :: tsc_state where
  "sample_tsc = \<lparr>frequency_hz = 1000000000, tsc_present = True, tsc_invariant = True, tsc_calibrated = True\<rparr>"

definition sample_clock :: clock_state where
  "sample_clock = \<lparr>clock_source = CLOCK_SOURCE_TSC, clock_origin = 100, last_reported_ns = 0,
     backward_steps = 0, clock_started = True\<rparr>"

theorem clock_never_steps_back_witness:
  "fst (readings (clock_monotonic_ns sample_tsc) [150, 120, 170] sample_clock) = [50, 50, 70]"
proof -
  obtain ns s' where r: "readings (clock_monotonic_ns sample_tsc) [150, 120, 170] sample_clock = (ns, s')"
    by fastforce
  have "clock_started sample_clock" by (simp add: sample_clock_def)
  from clock_never_steps_back [OF this r] r show ?thesis
    by (simp add: sample_clock_def sample_tsc_def tsc_span_nanoseconds_def span_to_nanoseconds_def
        sub64_def add64_def mul64_def NANOSECONDS_PER_SECOND_def Let_def)
qed

text \<open>Both self-tests pass, the clock's on any clock that has not been started.\<close>

lemma clock_self_tests_pass:
  assumes "\<not> clock_started state" "clock_source state = CLOCK_SOURCE_NONE"
  shows "tsc_self_test tsc \<and> clock_self_test tsc reading state"
  using assms
  by (simp add: tsc_self_test_def clock_self_test_def rate_from_span_def span_to_nanoseconds_def
      tsc_span_nanoseconds_def monotonic_step_def clock_monotonic_ns_def sub64_def add64_def mul64_def
      tsc_consts Let_def)

definition unstarted_clock :: clock_state where
  "unstarted_clock = \<lparr>clock_source = CLOCK_SOURCE_NONE, clock_origin = 0, last_reported_ns = 0,
     backward_steps = 0, clock_started = False\<rparr>"

lemma clock_self_tests_pass_unstarted:
  "tsc_self_test uncalibrated \<and> clock_self_test uncalibrated 0 unstarted_clock"
  by (rule clock_self_tests_pass) (simp_all add: unstarted_clock_def)

end
