(* ===== verification/Deadline_Timer.thy ===== *)
theory Deadline_Timer
  imports Monotonic_Clock
begin

unbundle bit_operations_syntax

text \<open>
  The deadline timers, \<open>src/kernel/timer.c\<close>.  The pending table is the list of its
  entries, \<open>None\<close> while none is held.  A callback is a number; number 0 is
  \<open>sleep_callback\<close>, number 1 the self-test's, and every other one is interpreted by the
  environment, which also stands for the local APIC timer, the clock, the heap and the
  interrupt flag the timers call.  A callback acts on the whole state, so it may arm and
  cancel timers itself.
\<close>

section \<open>Data\<close>

definition TIMER_MINIMUM_INTERVAL_NS :: u64 where "TIMER_MINIMUM_INTERVAL_NS = 100000"
definition TIMER_SLEEP_GRACE_NS :: u64 where "TIMER_SLEEP_GRACE_NS = 50000000"
definition TIMER_MAX_PENDING :: nat where "TIMER_MAX_PENDING = 32"
definition TIMER_SELF_TEST_CAPACITY :: nat where "TIMER_SELF_TEST_CAPACITY = 8"

datatype timer_status =
    TIMER_STATUS_OK
  | TIMER_STATUS_NULL_ARGUMENT
  | TIMER_STATUS_NOT_STARTED
  | TIMER_STATUS_ALREADY_STARTED
  | TIMER_STATUS_NO_CLOCK
  | TIMER_STATUS_NO_CAPACITY
  | TIMER_STATUS_NO_MEMORY
  | TIMER_STATUS_BAD_INTERVAL
  | TIMER_STATUS_UNKNOWN_TIMER
  | TIMER_STATUS_HARDWARE_FAILURE
  | TIMER_STATUS_EXPIRED_LATE

record timer_entry =
  te_deadline_ns :: u64
  te_identifier :: u64
  te_callback :: "nat option"
  te_context :: nat
  te_in_use :: bool

record 'w timers =
  timer_table :: "timer_entry list option"
  next_identifier :: u64
  timer_expiry_counter :: u64
  timers_started :: bool
  sleep_expired :: bool
  self_test_fired_mask :: "64 word"
  timer_world :: 'w

record 'w timer_env =
  env_interrupts_enabled :: "'w \<Rightarrow> bool"
  env_clock_started :: "'w \<Rightarrow> bool"
  env_now :: "'w \<Rightarrow> u64 \<times> 'w"
  env_is_armed :: "'w \<Rightarrow> bool"
  env_disarm :: "'w \<Rightarrow> bool \<times> 'w"
  env_arm_oneshot :: "u64 \<Rightarrow> 'w \<Rightarrow> bool \<times> 'w"
  env_set_handler :: "bool \<Rightarrow> 'w \<Rightarrow> bool \<times> 'w"
  env_heap_allocate :: "nat \<Rightarrow> 'w \<Rightarrow> bool \<times> 'w"
  env_heap_free :: "'w \<Rightarrow> bool \<times> 'w"
  env_callback :: "nat \<Rightarrow> u64 \<Rightarrow> nat \<Rightarrow> 'w timers \<Rightarrow> 'w timers"
  env_halt :: "'w timers \<Rightarrow> 'w timers"
  env_interrupt_disable :: "'w \<Rightarrow> 'w"

section \<open>Table operations\<close>

definition entries :: "'w timers \<Rightarrow> timer_entry list" where
  "entries s = (case timer_table s of None \<Rightarrow> [] | Some es \<Rightarrow> es)"

abbreviation capacity :: "'w timers \<Rightarrow> nat" where
  "capacity s \<equiv> length (entries s)"

definition cleared_entry :: timer_entry where
  "cleared_entry = \<lparr>te_deadline_ns = 0, te_identifier = 0, te_callback = None, te_context = 0,
     te_in_use = False\<rparr>"

definition set_entry :: "nat \<Rightarrow> timer_entry \<Rightarrow> 'w timers \<Rightarrow> 'w timers" where
  "set_entry index entry s = s\<lparr>timer_table := map_option (\<lambda>es. es[index := entry]) (timer_table s)\<rparr>"

definition slot_of :: "timer_entry list \<Rightarrow> u64 \<Rightarrow> nat" where
  "slot_of es identifier =
     (if identifier = 0 then length es
      else case find_from (\<lambda>index. te_in_use (es ! index) \<and> te_identifier (es ! index) = identifier)
                  0 (length es) of
        None \<Rightarrow> length es | Some index \<Rightarrow> index)"

definition free_slot :: "timer_entry list \<Rightarrow> nat" where
  "free_slot es =
     (case find_from (\<lambda>index. \<not> te_in_use (es ! index)) 0 (length es) of
        None \<Rightarrow> length es | Some index \<Rightarrow> index)"

definition earliest_deadline :: "timer_entry list \<Rightarrow> u64 option" where
  "earliest_deadline es =
     fold (\<lambda>index found.
         if \<not> te_in_use (es ! index) then found
         else case found of
           None \<Rightarrow> Some (te_deadline_ns (es ! index))
         | Some deadline \<Rightarrow>
             if te_deadline_ns (es ! index) < deadline then Some (te_deadline_ns (es ! index)) else found)
       [0..<length es] None"

definition pending_slots :: "timer_entry list \<Rightarrow> nat" where
  "pending_slots es =
     fold (\<lambda>index count. if te_in_use (es ! index) then count + 1 else count) [0..<length es] 0"

definition choose_due :: "u64 \<Rightarrow> timer_entry list \<Rightarrow> nat" where
  "choose_due now_ns es =
     fold (\<lambda>index chosen.
         if \<not> te_in_use (es ! index) \<or> te_deadline_ns (es ! index) > now_ns then chosen
         else if chosen = length es \<or> te_deadline_ns (es ! index) < te_deadline_ns (es ! chosen) then index
         else chosen)
       [0..<length es] (length es)"

section \<open>Expiry\<close>

definition sleep_callback :: "u64 \<Rightarrow> nat \<Rightarrow> 'w timers \<Rightarrow> 'w timers" where
  "sleep_callback deadline_ns context s = s\<lparr>sleep_expired := True\<rparr>"

definition self_test_callback :: "u64 \<Rightarrow> nat \<Rightarrow> 'w timers \<Rightarrow> 'w timers" where
  "self_test_callback deadline_ns context s =
     s\<lparr>self_test_fired_mask := self_test_fired_mask s OR push_bit context 1\<rparr>"

definition run_callback :: "'w timer_env \<Rightarrow> nat \<Rightarrow> u64 \<Rightarrow> nat \<Rightarrow> 'w timers \<Rightarrow> 'w timers" where
  "run_callback env callback =
     (if callback = 0 then sleep_callback else if callback = 1 then self_test_callback
      else env_callback env callback)"

text \<open>One round: release the chosen entry, then run its callback.\<close>

definition fire :: "'w timer_env \<Rightarrow> nat \<Rightarrow> 'w timers \<Rightarrow> 'w timers" where
  "fire env chosen s =
     (let due = entries s ! chosen; s = set_entry chosen cleared_entry s
      in case te_callback due of
           None \<Rightarrow> s
         | Some callback \<Rightarrow> run_callback env callback (te_deadline_ns due) (te_context due) s)"

text \<open>
  The loop has no bound of its own, since a callback may arm again; not returning is
  \<open>None\<close>.
\<close>

partial_function (option) expire_loop ::
  "'w timer_env \<Rightarrow> u64 \<Rightarrow> nat \<Rightarrow> 'w timers \<Rightarrow> (nat \<times> 'w timers) option" where
  "expire_loop env now_ns fired s =
     (let chosen = choose_due now_ns (entries s) in
      if chosen = capacity s then Some (fired, s)
      else expire_loop env now_ns (fired + 1) (fire env chosen s))"

definition expire_reached :: "'w timer_env \<Rightarrow> u64 \<Rightarrow> 'w timers \<Rightarrow> (nat \<times> 'w timers) option" where
  "expire_reached env now_ns s = expire_loop env now_ns 0 s"

section \<open>Hardware\<close>

definition read_clock :: "'w timer_env \<Rightarrow> 'w timers \<Rightarrow> u64 \<times> 'w timers" where
  "read_clock env s = (case env_now env (timer_world s) of (now_ns, w) \<Rightarrow> (now_ns, s\<lparr>timer_world := w\<rparr>))"

definition program_interval :: "u64 \<Rightarrow> u64 \<Rightarrow> u64" where
  "program_interval deadline_ns now_ns =
     (let interval_ns = (if deadline_ns > now_ns then sub64 deadline_ns now_ns else 0)
      in if interval_ns < TIMER_MINIMUM_INTERVAL_NS then TIMER_MINIMUM_INTERVAL_NS else interval_ns)"

definition reprogram :: "'w timer_env \<Rightarrow> 'w timers \<Rightarrow> timer_status \<times> 'w timers" where
  "reprogram env s =
     (case (if env_is_armed env (timer_world s) then env_disarm env (timer_world s)
            else (True, timer_world s)) of
        (disarmed, w) \<Rightarrow>
          if \<not> disarmed then (TIMER_STATUS_HARDWARE_FAILURE, s\<lparr>timer_world := w\<rparr>)
          else case earliest_deadline (entries s) of
            None \<Rightarrow> (TIMER_STATUS_OK, s\<lparr>timer_world := w\<rparr>)
          | Some deadline_ns \<Rightarrow>
              (case read_clock env (s\<lparr>timer_world := w\<rparr>) of
                 (now_ns, s) \<Rightarrow>
                   (case env_arm_oneshot env (program_interval deadline_ns now_ns) (timer_world s) of
                      (ok, w) \<Rightarrow>
                        (if ok then TIMER_STATUS_OK else TIMER_STATUS_HARDWARE_FAILURE,
                         s\<lparr>timer_world := w\<rparr>))))"

definition on_expiry :: "'w timer_env \<Rightarrow> 'w timers \<Rightarrow> 'w timers option" where
  "on_expiry env s =
     (case read_clock env s of
        (now_ns, s) \<Rightarrow>
          map_option (\<lambda>(fired, s).
              snd (reprogram env (s\<lparr>timer_expiry_counter := add64 (timer_expiry_counter s) fired\<rparr>)))
            (expire_reached env now_ns s))"

section \<open>Operations\<close>

definition timer_entry_size :: nat where "timer_entry_size = 40"

definition timer_start :: "'w timer_env \<Rightarrow> 'w timers \<Rightarrow> timer_status \<times> 'w timers" where
  "timer_start env s =
     (if timers_started s then (TIMER_STATUS_ALREADY_STARTED, s)
      else if timer_table s \<noteq> None \<or> capacity s \<noteq> 0 then (TIMER_STATUS_ALREADY_STARTED, s)
      else if env_interrupts_enabled env (timer_world s) then (TIMER_STATUS_HARDWARE_FAILURE, s)
      else if \<not> env_clock_started env (timer_world s) then (TIMER_STATUS_NO_CLOCK, s)
      else case env_heap_allocate env (timer_entry_size * TIMER_MAX_PENDING) (timer_world s) of
        (allocated, w) \<Rightarrow>
          if \<not> allocated then (TIMER_STATUS_NO_MEMORY, s\<lparr>timer_world := w\<rparr>)
          else case env_set_handler env True w of
            (installed, w) \<Rightarrow>
              if \<not> installed then
                (case env_heap_free env w of
                   (_, w) \<Rightarrow> (TIMER_STATUS_HARDWARE_FAILURE, s\<lparr>timer_world := w, timer_table := None\<rparr>))
              else (TIMER_STATUS_OK,
                    s\<lparr>timer_world := w, timers_started := True,
                      timer_table := Some (replicate TIMER_MAX_PENDING cleared_entry)\<rparr>))"

definition timer_stop :: "'w timer_env \<Rightarrow> 'w timers \<Rightarrow> timer_status \<times> 'w timers" where
  "timer_stop env s =
     (if \<not> timers_started s then (TIMER_STATUS_NOT_STARTED, s)
      else if env_interrupts_enabled env (timer_world s) then (TIMER_STATUS_HARDWARE_FAILURE, s)
      else case (if env_is_armed env (timer_world s) then env_disarm env (timer_world s)
                 else (True, timer_world s)) of
        (disarmed, w) \<Rightarrow>
          if \<not> disarmed then (TIMER_STATUS_HARDWARE_FAILURE, s\<lparr>timer_world := w\<rparr>)
          else let s = s\<lparr>timer_table := map_option (map (\<lambda>_. cleared_entry)) (timer_table s)\<rparr> in
            (case env_set_handler env False w of
               (removed, w) \<Rightarrow>
                 if \<not> removed then (TIMER_STATUS_HARDWARE_FAILURE, s\<lparr>timer_world := w\<rparr>)
                 else (case env_heap_free env w of
                   (freed, w) \<Rightarrow>
                     if \<not> freed then (TIMER_STATUS_NO_MEMORY, s\<lparr>timer_world := w\<rparr>)
                     else (TIMER_STATUS_OK,
                           s\<lparr>timer_world := w, timer_table := None, timers_started := False\<rparr>))))"

text \<open>The second component of the result is the value left in \<open>*identifier\<close>.\<close>

definition timer_arm ::
  "'w timer_env \<Rightarrow> u64 \<Rightarrow> nat option \<Rightarrow> nat \<Rightarrow> u64 option \<Rightarrow> 'w timers \<Rightarrow>
     timer_status \<times> u64 option \<times> 'w timers" where
  "timer_arm env deadline_ns callback context identifier s =
     (if callback = None \<or> identifier = None then (TIMER_STATUS_NULL_ARGUMENT, identifier, s)
      else if \<not> timers_started s then (TIMER_STATUS_NOT_STARTED, Some 0, s)
      else case read_clock env s of
        (now_ns, s) \<Rightarrow>
          if deadline_ns < now_ns \<or> sub64 deadline_ns now_ns < TIMER_MINIMUM_INTERVAL_NS then
            (TIMER_STATUS_BAD_INTERVAL, Some 0, s)
          else let slot = free_slot (entries s) in
            if slot = capacity s then (TIMER_STATUS_NO_CAPACITY, Some 0, s)
            else let entry = \<lparr>te_deadline_ns = deadline_ns, te_identifier = next_identifier s,
                              te_callback = callback, te_context = context, te_in_use = True\<rparr>;
                     s = (set_entry slot entry s)\<lparr>next_identifier := add64 (next_identifier s) 1\<rparr>
              in case reprogram env s of
                (status, s) \<Rightarrow>
                  if status \<noteq> TIMER_STATUS_OK then
                    (TIMER_STATUS_HARDWARE_FAILURE, Some 0, set_entry slot cleared_entry s)
                  else (TIMER_STATUS_OK, Some (te_identifier (entries s ! slot)), s))"

definition timer_cancel :: "'w timer_env \<Rightarrow> u64 \<Rightarrow> 'w timers \<Rightarrow> timer_status \<times> 'w timers" where
  "timer_cancel env identifier s =
     (let slot = slot_of (entries s) identifier in
      if \<not> timers_started s then (TIMER_STATUS_NOT_STARTED, s)
      else if slot = capacity s then (TIMER_STATUS_UNKNOWN_TIMER, s)
      else reprogram env (set_entry slot cleared_entry s))"

partial_function (option) sleep_loop ::
  "'w timer_env \<Rightarrow> u64 \<Rightarrow> u64 \<Rightarrow> 'w timers \<Rightarrow> (timer_status \<times> 'w timers) option" where
  "sleep_loop env identifier abandon_ns s =
     (if sleep_expired s then Some (TIMER_STATUS_OK, s)
      else case read_clock env s of
        (now_ns, s) \<Rightarrow>
          if now_ns > abandon_ns then
            Some (TIMER_STATUS_EXPIRED_LATE, snd (timer_cancel env identifier s))
          else if \<not> env_is_armed env (timer_world s) then
            Some (TIMER_STATUS_HARDWARE_FAILURE, snd (timer_cancel env identifier s))
          else sleep_loop env identifier abandon_ns (env_halt env s))"

definition timer_sleep_ns :: "'w timer_env \<Rightarrow> u64 \<Rightarrow> 'w timers \<Rightarrow> (timer_status \<times> 'w timers) option" where
  "timer_sleep_ns env nanoseconds s =
     (if \<not> timers_started s then Some (TIMER_STATUS_NOT_STARTED, s)
      else if nanoseconds < TIMER_MINIMUM_INTERVAL_NS then Some (TIMER_STATUS_BAD_INTERVAL, s)
      else case read_clock env s of
        (now_ns, s) \<Rightarrow>
          let deadline_ns = add64 now_ns nanoseconds;
              abandon_ns = add64 (add64 deadline_ns nanoseconds) TIMER_SLEEP_GRACE_NS
          in case timer_arm env deadline_ns (Some 0) 0 (Some 0) (s\<lparr>sleep_expired := False\<rparr>) of
            (status, identifier, s) \<Rightarrow>
              if status \<noteq> TIMER_STATUS_OK then Some (status, s)
              else map_option (\<lambda>(status, s).
                  if status = TIMER_STATUS_OK
                  then (status, s\<lparr>timer_world := env_interrupt_disable env (timer_world s)\<rparr>)
                  else (status, s))
                (sleep_loop env (the identifier) abandon_ns s))"

definition timer_capacity :: "'w timers \<Rightarrow> nat" where
  "timer_capacity s = capacity s"

definition timer_pending_count :: "'w timers \<Rightarrow> nat" where
  "timer_pending_count s = pending_slots (entries s)"

fun timer_status_string :: "timer_status \<Rightarrow> string" where
  "timer_status_string TIMER_STATUS_OK = ''ok''"
| "timer_status_string TIMER_STATUS_NULL_ARGUMENT = ''null deadline timer argument''"
| "timer_status_string TIMER_STATUS_NOT_STARTED = ''deadline timers are not started''"
| "timer_status_string TIMER_STATUS_ALREADY_STARTED = ''deadline timers were started twice''"
| "timer_status_string TIMER_STATUS_NO_CLOCK = ''deadline timers require a started monotonic clock''"
| "timer_status_string TIMER_STATUS_NO_CAPACITY = ''deadline timer table is full''"
| "timer_status_string TIMER_STATUS_NO_MEMORY = ''deadline timer table could not be obtained from the heap''"
| "timer_status_string TIMER_STATUS_BAD_INTERVAL = ''deadline is in the past or too near to program''"
| "timer_status_string TIMER_STATUS_UNKNOWN_TIMER = ''deadline timer identifier does not name a pending timer''"
| "timer_status_string TIMER_STATUS_HARDWARE_FAILURE = ''deadline timer could not program the local APIC timer''"
| "timer_status_string TIMER_STATUS_EXPIRED_LATE = ''deadline did not arrive within its bound''"

section \<open>Scans of the table\<close>

abbreviation due :: "u64 \<Rightarrow> timer_entry \<Rightarrow> bool" where
  "due now e \<equiv> te_in_use e \<and> te_deadline_ns e \<le> now"

definition best_due :: "u64 \<Rightarrow> timer_entry list \<Rightarrow> nat \<Rightarrow> nat \<Rightarrow> bool" where
  "best_due now es n c \<longleftrightarrow>
     (if c = length es then \<forall>i < n. \<not> due now (es ! i)
      else c < n \<and> due now (es ! c) \<and>
        (\<forall>i < n. due now (es ! i) \<longrightarrow> te_deadline_ns (es ! c) \<le> te_deadline_ns (es ! i) \<and>
           (i < c \<longrightarrow> te_deadline_ns (es ! c) < te_deadline_ns (es ! i))))"

lemma choose_due_best: "best_due now es (length es) (choose_due now es)"
proof -
  let ?f = "\<lambda>index chosen.
         if \<not> te_in_use (es ! index) \<or> te_deadline_ns (es ! index) > now then chosen
         else if chosen = length es \<or> te_deadline_ns (es ! index) < te_deadline_ns (es ! chosen) then index
         else chosen"
  have step: "best_due now es (Suc n) (?f n c)" if "best_due now es n c" "n < length es" for n c
    using that by (cases "c = length es") (auto simp: best_due_def less_Suc_eq)
  have "n \<le> length es \<Longrightarrow> best_due now es n (fold ?f [0..<n] (length es))" for n
  proof (induction n)
    case (Suc n)
    then show ?case using step by simp
  qed (simp add: best_due_def)
  then show ?thesis by (simp add: choose_due_def)
qed

lemma choose_due_none: "choose_due now es = length es \<longleftrightarrow> (\<forall>e \<in> set es. \<not> due now e)"
proof
  assume "choose_due now es = length es"
  with choose_due_best [of now es] show "\<forall>e \<in> set es. \<not> due now e"
    by (auto simp: best_due_def in_set_conv_nth)
next
  assume "\<forall>e \<in> set es. \<not> due now e"
  with choose_due_best [of now es] show "choose_due now es = length es"
    by (auto simp: best_due_def split: if_splits)
qed

lemma choose_due_some:
  assumes "choose_due now es \<noteq> length es"
  obtains xs e ys where "es = xs @ e # ys" "choose_due now es = length xs" "due now e"
    "\<forall>x \<in> set xs. due now x \<longrightarrow> te_deadline_ns e < te_deadline_ns x"
    "\<forall>y \<in> set ys. due now y \<longrightarrow> te_deadline_ns e \<le> te_deadline_ns y"
proof -
  define c where "c = choose_due now es"
  have c: "c < length es" "due now (es ! c)"
    and le: "\<And>i. i < length es \<Longrightarrow> due now (es ! i) \<Longrightarrow> te_deadline_ns (es ! c) \<le> te_deadline_ns (es ! i)"
    and lt: "\<And>i. i < c \<Longrightarrow> due now (es ! i) \<Longrightarrow> te_deadline_ns (es ! c) < te_deadline_ns (es ! i)"
    using choose_due_best [of now es] assms by (auto simp: best_due_def c_def)
  show thesis
  proof (rule that)
    show "es = take c es @ es ! c # drop (Suc c) es" using c(1) by (rule id_take_nth_drop)
    show "choose_due now es = length (take c es)" using c(1) by (simp add: c_def)
    show "\<forall>x \<in> set (take c es). due now x \<longrightarrow> te_deadline_ns (es ! c) < te_deadline_ns x"
      using lt c(1) by (auto simp: in_set_conv_nth)
    show "\<forall>y \<in> set (drop (Suc c) es). due now y \<longrightarrow> te_deadline_ns (es ! c) \<le> te_deadline_ns y"
      using le by (auto simp: in_set_conv_nth)
  qed (fact c(2))
qed

definition due_count :: "u64 \<Rightarrow> 'w timers \<Rightarrow> nat" where
  "due_count now s = count_if (due now) (entries s)"

lemma cleared_not_due [simp]: "\<not> te_in_use cleared_entry"
  by (simp add: cleared_entry_def)

lemma entries_set_entry [simp]: "entries (set_entry i e s) = (entries s)[i := e]"
  by (cases "timer_table s") (auto simp: entries_def set_entry_def)

lemma fire_due_count:
  assumes "choose_due now (entries s) \<noteq> capacity s"
  shows "due_count now (set_entry (choose_due now (entries s)) cleared_entry s) < due_count now s"
proof -
  obtain xs e ys where "entries s = xs @ e # ys" "choose_due now (entries s) = length xs" "due now e"
    using choose_due_some [OF assms] by metis
  then show ?thesis by (simp add: due_count_def)
qed

section \<open>Expiry terminates\<close>

text \<open>
  A callback is tame at an instant when it never adds a deadline that instant has reached.
\<close>

definition tame :: "'w timer_env \<Rightarrow> u64 \<Rightarrow> bool" where
  "tame env now \<longleftrightarrow>
     (\<forall>callback deadline context s. due_count now (env_callback env callback deadline context s) \<le> due_count now s)"

lemma tame_run:
  assumes "tame env now"
  shows "due_count now (run_callback env callback deadline context s) \<le> due_count now s"
  using assms
  by (auto simp: tame_def run_callback_def sleep_callback_def self_test_callback_def due_count_def entries_def)

lemma tame_fire:
  assumes "tame env now" "choose_due now (entries s) \<noteq> capacity s"
  shows "due_count now (fire env (choose_due now (entries s)) s) < due_count now s"
  using fire_due_count [OF assms(2)] le_less_trans [OF tame_run [OF assms(1)]]
  by (auto simp: fire_def Let_def split: option.splits)

lemma expire_loop_returns:
  assumes "tame env now"
  shows "\<exists>n s'. expire_loop env now fired s = Some (n, s') \<and> fired \<le> n \<and>
     n \<le> fired + due_count now s \<and> due_count now s' = 0"
proof (induction "due_count now s" arbitrary: s fired rule: less_induct)
  case less
  show ?case
  proof (cases "choose_due now (entries s) = capacity s")
    case True
    then have "due_count now s = 0"
      by (simp add: choose_due_none due_count_def count_if_def filter_empty_conv)
    with True show ?thesis by (simp add: expire_loop.simps [of env now fired s] Let_def)
  next
    case False
    note lt = tame_fire [OF assms False]
    from less [OF lt, of "fired + 1"] lt False show ?thesis
      by (auto simp: expire_loop.simps [of env now fired s] Let_def)
  qed
qed

text \<open>
  C16. Expiry processing ends: if no callback adds a deadline that is already reached, the
  loop returns after at most one round per deadline reached, and leaves none of them
  pending.
\<close>
theorem expire_reached_terminates:
  assumes "tame env now"
  shows "\<exists>fired s'. expire_reached env now s = Some (fired, s') \<and>
     fired \<le> due_count now s \<and> (\<forall>e \<in> set (entries s'). \<not> due now e)"
proof -
  from expire_loop_returns [OF assms, of 0 s] obtain n s' where
    "expire_loop env now 0 s = Some (n, s')" "n \<le> due_count now s" "due_count now s' = 0" by auto
  then show ?thesis
    by (auto simp: expire_reached_def due_count_def count_if_def filter_empty_conv)
qed

section \<open>Arming and cancelling\<close>

lemma entries_cong: "timer_table a = timer_table b \<Longrightarrow> entries a = entries b"
  by (simp add: entries_def)

text \<open>Fields the hardware operations leave alone.\<close>

definition same_timers :: "'w timers \<Rightarrow> 'w timers \<Rightarrow> bool" where
  "same_timers a b \<longleftrightarrow> timer_table a = timer_table b \<and> next_identifier a = next_identifier b \<and>
     timer_expiry_counter a = timer_expiry_counter b \<and> timers_started a = timers_started b \<and>
     sleep_expired a = sleep_expired b \<and> self_test_fired_mask a = self_test_fired_mask b"

lemma same_timers_refl [simp]: "same_timers a a"
  by (simp add: same_timers_def)

lemma same_timers_world [simp]: "same_timers a (b\<lparr>timer_world := w\<rparr>) = same_timers a b"
  by (simp add: same_timers_def)

lemma same_timers_entries: "same_timers a b \<Longrightarrow> entries b = entries a"
  by (simp add: same_timers_def entries_def)

lemma read_clock_same: "read_clock env s = (now, s') \<Longrightarrow> same_timers s s'"
  by (auto simp: read_clock_def split: prod.splits)

lemma reprogram_same: "reprogram env s = (status, s') \<Longrightarrow> same_timers s s'"
  by (auto simp: reprogram_def read_clock_def split: prod.splits if_splits option.splits)

lemma set_entry_sel [simp]:
  "timers_started (set_entry i e s) = timers_started s"
  "next_identifier (set_entry i e s) = next_identifier s"
  "sleep_expired (set_entry i e s) = sleep_expired s"
  "timer_world (set_entry i e s) = timer_world s"
  by (simp_all add: set_entry_def)

lemma free_slot_less: "free_slot es \<noteq> length es \<longleftrightarrow> (\<exists>i < length es. \<not> te_in_use (es ! i))"
  by (auto simp: free_slot_def find_from_None_iff split: option.splits dest!: find_from_SomeD)

lemma free_slotD:
  assumes "free_slot es \<noteq> length es"
  shows "free_slot es < length es" "\<not> te_in_use (es ! free_slot es)"
    "\<And>j. j < free_slot es \<Longrightarrow> te_in_use (es ! j)"
  using assms
  by (auto simp: free_slot_def split: option.splits dest!: find_from_SomeD)

lemma slot_ofD:
  assumes "slot_of es identifier \<noteq> length es"
  shows "slot_of es identifier < length es" "te_in_use (es ! slot_of es identifier)"
    "te_identifier (es ! slot_of es identifier) = identifier" "identifier \<noteq> 0"
  using assms
  by (auto simp: slot_of_def split: option.splits if_splits dest!: find_from_SomeD)

lemma slot_of_none:
  "slot_of es identifier = length es \<longleftrightarrow>
     identifier = 0 \<or> (\<forall>i < length es. te_in_use (es ! i) \<longrightarrow> te_identifier (es ! i) \<noteq> identifier)"
  by (auto simp: slot_of_def find_from_None_iff split: option.splits dest: find_from_SomeD)

text \<open>What arming does, outcome by outcome.\<close>

lemma timer_arm_cases:
  assumes "timer_arm env deadline callback context ident s = (status, ident', s')"
    and read: "read_clock env s = (now, s1)"
  shows "(status = TIMER_STATUS_NULL_ARGUMENT \<and> (callback = None \<or> ident = None) \<and> ident' = ident \<and> s' = s) \<or>
    (status = TIMER_STATUS_NOT_STARTED \<and> \<not> timers_started s \<and> ident' = Some 0 \<and> s' = s) \<or>
    (status = TIMER_STATUS_BAD_INTERVAL \<and> ident' = Some 0 \<and> s' = s1 \<and>
       (deadline < now \<or> sub64 deadline now < TIMER_MINIMUM_INTERVAL_NS)) \<or>
    (status = TIMER_STATUS_NO_CAPACITY \<and> ident' = Some 0 \<and> s' = s1 \<and> free_slot (entries s) = capacity s) \<or>
    (status \<in> {TIMER_STATUS_OK, TIMER_STATUS_HARDWARE_FAILURE} \<and> callback \<noteq> None \<and> ident \<noteq> None \<and>
     timers_started s \<and> free_slot (entries s) < capacity s \<and>
     now \<le> deadline \<and> TIMER_MINIMUM_INTERVAL_NS \<le> sub64 deadline now \<and>
     next_identifier s' = add64 (next_identifier s) 1 \<and> timers_started s' \<and>
     sleep_expired s' = sleep_expired s \<and>
     ident' = Some (if status = TIMER_STATUS_OK then next_identifier s else 0) \<and>
     entries s' = (entries s)[free_slot (entries s) :=
        if status = TIMER_STATUS_OK
        then \<lparr>te_deadline_ns = deadline, te_identifier = next_identifier s, te_callback = callback,
              te_context = context, te_in_use = True\<rparr>
        else cleared_entry])"
proof -
  have s1: "same_timers s s1" by (rule read_clock_same [OF read])
  then have e1: "entries s1 = entries s" "timers_started s1 = timers_started s"
      "next_identifier s1 = next_identifier s" "sleep_expired s1 = sleep_expired s"
    using same_timers_entries [OF s1] by (simp_all add: same_timers_def)
  let ?slot = "free_slot (entries s)"
  let ?entry = "\<lparr>te_deadline_ns = deadline, te_identifier = next_identifier s, te_callback = callback,
              te_context = context, te_in_use = True\<rparr>"
  let ?s2 = "(set_entry ?slot ?entry s1)\<lparr>next_identifier := add64 (next_identifier s) 1\<rparr>"
  have e2: "entries ?s2 = (entries s)[?slot := ?entry]"
    using e1(1) entries_set_entry [of ?slot ?entry s1] by (simp add: entries_def)
  obtain st s3 where r: "reprogram env ?s2 = (st, s3)" by fastforce
  have s3: "same_timers ?s2 s3" by (rule reprogram_same [OF r])
  then have e3: "entries s3 = (entries s)[?slot := ?entry]" "timers_started s3 = timers_started s"
      "next_identifier s3 = add64 (next_identifier s) 1" "sleep_expired s3 = sleep_expired s"
    using e1(2-4) e2 same_timers_entries [OF s3] by (simp_all add: same_timers_def)
  have lt: "?slot < capacity s" if "?slot \<noteq> capacity s" using free_slotD(1) [OF that] .
  show ?thesis
  proof (cases "callback \<noteq> None \<and> ident \<noteq> None \<and> timers_started s \<and> \<not> deadline < now \<and>
      \<not> sub64 deadline now < TIMER_MINIMUM_INTERVAL_NS \<and> ?slot \<noteq> capacity s")
    case False
    with assms(1) read e1 show ?thesis
      by (auto simp: timer_arm_def Let_def split: if_splits)
  next
    case True
    with assms(1) read r e1 have "status = (if st \<noteq> TIMER_STATUS_OK then TIMER_STATUS_HARDWARE_FAILURE else TIMER_STATUS_OK)"
      "ident' = Some (if st \<noteq> TIMER_STATUS_OK then 0 else te_identifier (entries s3 ! ?slot))"
      "s' = (if st \<noteq> TIMER_STATUS_OK then set_entry ?slot cleared_entry s3 else s3)"
      by (auto simp: timer_arm_def Let_def split: if_splits)
    with True e3 lt show ?thesis by simp
  qed
qed

text \<open>
  The table invariant: released entries are cleared, and the identifiers in use are
  distinct, non-zero and below the next one to hand out.
\<close>

definition table_ok :: "timer_entry list \<Rightarrow> u64 \<Rightarrow> bool" where
  "table_ok es next_id \<longleftrightarrow>
     (\<forall>e \<in> set es. if te_in_use e then 0 < te_identifier e \<and> te_identifier e < next_id else e = cleared_entry) \<and>
     (\<forall>i < length es. \<forall>j < length es. te_in_use (es ! i) \<and> te_in_use (es ! j) \<and>
        te_identifier (es ! i) = te_identifier (es ! j) \<longrightarrow> i = j)"

lemma nth_update_if: "j < length xs \<Longrightarrow> xs[i := x] ! j = (if i = j then x else xs ! j)"
  by (cases "i = j") auto

lemma table_ok_clear:
  "table_ok es n \<Longrightarrow> table_ok (es[i := cleared_entry]) n"
  unfolding table_ok_def
  by (auto simp: nth_update_if dest!: set_update_subset_insert [THEN subsetD] split: if_splits)

lemma table_ok_new:
  assumes ok: "table_ok es n" and n: "0 < n" and e: "te_identifier e = n" "te_in_use e"
  shows "table_ok (es[i := e]) (Suc n)"
proof -
  have ids: "te_in_use (es ! j) \<Longrightarrow> te_identifier (es ! j) < n" if "j < length es" for j
    using ok that by (auto simp: table_ok_def)
  have mem: "\<forall>x \<in> set (es[i := e]). if te_in_use x then 0 < te_identifier x \<and> te_identifier x < Suc n
      else x = cleared_entry"
    using ok n e unfolding table_ok_def
    by (auto dest!: set_update_subset_insert [THEN subsetD] split: if_splits)
  have other: "te_identifier (es[i := e] ! j) \<noteq> n" if "j < length es" "j \<noteq> i" "te_in_use (es[i := e] ! j)" for j
    using ids [OF that(1)] that by auto
  have "a = b" if ab: "a < length es" "b < length es" "te_in_use (es[i := e] ! a)" "te_in_use (es[i := e] ! b)"
      "te_identifier (es[i := e] ! a) = te_identifier (es[i := e] ! b)" for a b
  proof (cases "i = a \<or> i = b")
    case True
    then show ?thesis using other [OF ab(1)] other [OF ab(2)] ab e(1) by (metis nth_list_update_eq)
  next
    case False
    with ab have "te_in_use (es ! a)" "te_in_use (es ! b)" "te_identifier (es ! a) = te_identifier (es ! b)"
      by simp_all
    with ok ab(1,2) show ?thesis unfolding table_ok_def by blast
  qed
  with mem show ?thesis unfolding table_ok_def length_list_update by blast
qed

lemma table_ok_mono: "table_ok es n \<Longrightarrow> n \<le> m \<Longrightarrow> table_ok es m"
  unfolding table_ok_def by (meson order_less_le_trans)

lemma free_slot_cleared:
  assumes "table_ok es n" "free_slot es \<noteq> length es"
  shows "es[free_slot es := cleared_entry] = es"
proof -
  have "es ! free_slot es = cleared_entry"
    using free_slotD [OF assms(2)] assms(1) unfolding table_ok_def by (metis nth_mem)
  then show ?thesis by (metis list_update_id)
qed

lemma slot_of_eqI:
  assumes "table_ok es n" "i < length es" "te_in_use (es ! i)" "te_identifier (es ! i) = identifier"
  shows "slot_of es identifier = i"
proof -
  have "identifier \<noteq> 0" using assms unfolding table_ok_def by (metis less_irrefl nth_mem)
  with assms have "slot_of es identifier \<noteq> length es" by (auto simp: slot_of_none)
  note s = slot_ofD [OF this]
  with assms show ?thesis unfolding table_ok_def by auto
qed

definition timers_ok :: "'w timers \<Rightarrow> bool" where
  "timers_ok s \<longleftrightarrow> table_ok (entries s) (next_identifier s) \<and> 0 < next_identifier s"

text \<open>
  Arming keeps the table invariant.  On success the entry goes into the lowest free
  slot under an identifier that is non-zero and names no pending timer, and nothing else
  changes; on every refusal, a hardware failure included, the table is as it was.
\<close>
theorem timer_arm_correct:
  assumes ok: "timers_ok s" and room: "next_identifier s < 2 ^ 64 - 1"
    and call: "timer_arm env deadline callback context ident s = (status, ident', s')"
  shows "timers_ok s' \<and>
    (status = TIMER_STATUS_OK \<longrightarrow> (\<exists>new. ident' = Some new \<and> new \<noteq> 0 \<and>
       slot_of (entries s) new = capacity s \<and> slot_of (entries s') new = free_slot (entries s) \<and>
       entries s' = (entries s)[free_slot (entries s) :=
         \<lparr>te_deadline_ns = deadline, te_identifier = new, te_callback = callback,
          te_context = context, te_in_use = True\<rparr>])) \<and>
    (status \<noteq> TIMER_STATUS_OK \<longrightarrow> entries s' = entries s)"
proof -
  obtain now s1 where read: "read_clock env s = (now, s1)" by fastforce
  have s1: "entries s1 = entries s" "next_identifier s1 = next_identifier s"
    using read_clock_same [OF read] same_timers_entries by (auto simp: same_timers_def entries_def)
  have tok: "table_ok (entries s) (next_identifier s)" and pos: "0 < next_identifier s"
    using ok by (simp_all add: timers_ok_def)
  have inc: "add64 (next_identifier s) (Suc 0) = Suc (next_identifier s)"
    using room by (simp add: add64_id)
  let ?slot = "free_slot (entries s)" and ?new = "next_identifier s"
  let ?entry = "\<lparr>te_deadline_ns = deadline, te_identifier = ?new, te_callback = callback,
          te_context = context, te_in_use = True\<rparr>"
  have fresh: "slot_of (entries s) ?new = capacity s"
    using tok unfolding slot_of_none table_ok_def by (metis less_irrefl nth_mem)
  have new: "table_ok ((entries s)[?slot := ?entry]) (Suc ?new)"
    by (rule table_ok_new [OF tok pos]) simp_all
  have at: "slot_of ((entries s)[?slot := ?entry]) ?new = ?slot" if "?slot < capacity s"
    by (rule slot_of_eqI [OF new]) (use that in simp_all)
  note cases = timer_arm_cases [OF call read]
  show ?thesis
  proof (cases "status = TIMER_STATUS_OK")
    case True
    with cases have s': "entries s' = (entries s)[?slot := ?entry]" "ident' = Some ?new"
        "next_identifier s' = Suc ?new" "?slot < capacity s" by (auto simp: inc)
    with new fresh at True pos show ?thesis by (auto simp: timers_ok_def)
  next
    case False
    with cases free_slot_cleared [OF tok] have "entries s' = entries s \<and>
        (next_identifier s' = ?new \<or> next_identifier s' = Suc ?new)"
      by (auto simp: inc s1)
    with False tok pos table_ok_mono [of "entries s" ?new "Suc ?new"] show ?thesis
      by (auto simp: timers_ok_def)
  qed
qed

lemma timer_cancel_cases:
  assumes "timer_cancel env identifier s = (status, s')"
  shows "if \<not> timers_started s then status = TIMER_STATUS_NOT_STARTED \<and> s' = s
    else if slot_of (entries s) identifier = capacity s then status = TIMER_STATUS_UNKNOWN_TIMER \<and> s' = s
    else entries s' = (entries s)[slot_of (entries s) identifier := cleared_entry] \<and>
      next_identifier s' = next_identifier s \<and> timers_started s'"
proof -
  obtain st t where r: "reprogram env (set_entry (slot_of (entries s) identifier) cleared_entry s) = (st, t)"
    by fastforce
  from reprogram_same [OF r]
  have "entries t = (entries s)[slot_of (entries s) identifier := cleared_entry]"
      "next_identifier t = next_identifier s" "timers_started t = timers_started s"
    using same_timers_entries [OF reprogram_same [OF r]] by (simp_all add: same_timers_def)
  with assms r show ?thesis by (auto simp: timer_cancel_def Let_def)
qed

text \<open>
  Cancelling a timer just armed puts the table back exactly as it was before arming,
  and the identifier is unknown again.
\<close>
theorem timer_cancel_undoes_arm:
  assumes ok: "timers_ok s" and room: "next_identifier s < 2 ^ 64 - 1"
    and arm: "timer_arm env deadline callback context ident s = (TIMER_STATUS_OK, Some new, s1)"
    and cancel: "timer_cancel env new s1 = (status, s2)"
  shows "entries s2 = entries s \<and> slot_of (entries s2) new = capacity s2 \<and> timers_ok s2"
proof -
  obtain now r where read: "read_clock env s = (now, r)" by fastforce
  have tok: "table_ok (entries s) (next_identifier s)" "0 < next_identifier s"
    using ok by (simp_all add: timers_ok_def)
  have inc: "add64 (next_identifier s) (Suc 0) = Suc (next_identifier s)"
    using room by (simp add: add64_id)
  let ?slot = "free_slot (entries s)"
  let ?entry = "\<lparr>te_deadline_ns = deadline, te_identifier = next_identifier s, te_callback = callback,
          te_context = context, te_in_use = True\<rparr>"
  from timer_arm_cases [OF arm read] have
    s1: "entries s1 = (entries s)[?slot := ?entry]" "new = next_identifier s"
      "next_identifier s1 = Suc new" "?slot < capacity s" "timers_started s1" by (auto simp: inc)
  have "table_ok ((entries s)[?slot := ?entry]) (Suc (next_identifier s))"
    by (rule table_ok_new [OF tok]) simp_all
  then have at: "slot_of (entries s1) new = ?slot"
    unfolding s1(1) by (rule slot_of_eqI) (use s1 in simp_all)
  have e2: "entries s2 = entries s" "next_identifier s2 = Suc (next_identifier s)"
    using timer_cancel_cases [OF cancel] s1 at free_slot_cleared [OF tok(1)] by (auto split: if_splits)
  moreover have "slot_of (entries s) new = capacity s"
    using tok s1(2) unfolding slot_of_none table_ok_def by (metis less_irrefl nth_mem)
  ultimately show ?thesis
    using tok table_ok_mono [of "entries s" "next_identifier s" "Suc (next_identifier s)"]
    by (simp add: timers_ok_def)
qed

text \<open>Neither operation adds a deadline that an instant the clock has passed has reached.\<close>

lemma timer_arm_due_count:
  assumes "timer_arm env deadline callback context ident s = (status, ident', s')"
    and read: "read_clock env s = (t, s1)" and "now \<le> t" "deadline < 2 ^ 64"
  shows "due_count now s' \<le> due_count now s"
proof -
  have e1: "entries s1 = entries s" by (rule same_timers_entries [OF read_clock_same [OF read]])
  have later: "now < deadline" if "t \<le> deadline" "TIMER_MINIMUM_INTERVAL_NS \<le> sub64 deadline t"
    using that assms(3,4) by (simp add: sub64_id TIMER_MINIMUM_INTERVAL_NS_def)
  have upd: "count_if (due now) ((entries s)[i := e]) \<le> count_if (due now) (entries s)"
    if "\<not> due now e" for i e
    using count_if_update [of i "entries s" "due now" e] that
    by (cases "i < capacity s") (auto simp: list_update_beyond)
  from timer_arm_cases [OF assms(1) read] show ?thesis
    using e1 later upd by (auto simp: due_count_def)
qed

section \<open>The order in which deadlines fire\<close>

definition deliver :: "'w timer_env \<Rightarrow> timer_entry \<Rightarrow> 'w timers \<Rightarrow> 'w timers" where
  "deliver env e s =
     (case te_callback e of
        None \<Rightarrow> s | Some callback \<Rightarrow> run_callback env callback (te_deadline_ns e) (te_context e) s)"

text \<open>
  What an expiry pass is meant to do, whatever the callbacks do to the table between two
  firings: \<open>deadline_run env now s fired s'\<close> fires, from \<open>s\<close>, the entries \<open>fired\<close> in this
  order and stops in \<open>s'\<close>.  Each firing takes the least deadline among those reached then,
  the lowest slot among equals, clears its slot and only then runs its callback.
\<close>

inductive deadline_run ::
  "'w timer_env \<Rightarrow> u64 \<Rightarrow> 'w timers \<Rightarrow> timer_entry list \<Rightarrow> 'w timers \<Rightarrow> bool"
  for env :: "'w timer_env" and now :: u64 where
  run_over: "\<forall>e \<in> set (entries s). \<not> due now e \<Longrightarrow> deadline_run env now s [] s"
| run_fire: "entries s = xs @ e # ys \<Longrightarrow> due now e \<Longrightarrow>
    \<forall>x \<in> set xs. due now x \<longrightarrow> te_deadline_ns e < te_deadline_ns x \<Longrightarrow>
    \<forall>y \<in> set ys. due now y \<longrightarrow> te_deadline_ns e \<le> te_deadline_ns y \<Longrightarrow>
    deadline_run env now (deliver env e (s\<lparr>timer_table := Some (xs @ cleared_entry # ys)\<rparr>)) fired s' \<Longrightarrow>
    deadline_run env now s (e # fired) s'"

lemma choose_due_eqI:
  assumes es: "es = xs @ e # ys" and e: "due now e"
    and xs: "\<forall>x \<in> set xs. due now x \<longrightarrow> te_deadline_ns e < te_deadline_ns x"
    and ys: "\<forall>y \<in> set ys. due now y \<longrightarrow> te_deadline_ns e \<le> te_deadline_ns y"
  shows "choose_due now es = length xs"
proof (rule ccontr)
  define c where "c = choose_due now es"
  assume "choose_due now es \<noteq> length xs"
  then have ne: "c \<noteq> length xs" by (simp add: c_def)
  have "c \<noteq> length es" using choose_due_none [of now es] es e by (auto simp: c_def)
  then have c: "c < length es" "due now (es ! c)"
    and best: "\<And>i. i < length es \<Longrightarrow> due now (es ! i) \<Longrightarrow> te_deadline_ns (es ! c) \<le> te_deadline_ns (es ! i) \<and>
      (i < c \<longrightarrow> te_deadline_ns (es ! c) < te_deadline_ns (es ! i))"
    using choose_due_best [of now es] by (auto simp: best_due_def c_def)
  have b: "te_deadline_ns (es ! c) \<le> te_deadline_ns e"
    "length xs < c \<longrightarrow> te_deadline_ns (es ! c) < te_deadline_ns e"
    using best [of "length xs"] e es by auto
  show False
  proof (cases "c < length xs")
    case True
    then have "es ! c \<in> set xs" by (simp add: es nth_append)
    with xs c(2) b(1) show False by fastforce
  next
    case False
    then have "length xs < c" using ne by simp
    moreover then have "es ! c \<in> set ys" using c(1) by (simp add: es nth_append nth_Cons')
    ultimately show False using ys c(2) b(2) by fastforce
  qed
qed

lemma fire_slot:
  assumes "entries s = xs @ e # ys"
  shows "fire env (length xs) s = deliver env e (s\<lparr>timer_table := Some (xs @ cleared_entry # ys)\<rparr>)"
proof -
  have "timer_table s = Some (xs @ e # ys)"
    using assms by (cases "timer_table s") (simp_all add: entries_def)
  then show ?thesis using assms by (simp add: fire_def deliver_def set_entry_def Let_def split: option.splits)
qed

lemma expire_loop_runs:
  assumes "expire_loop env now fired s = Some r"
  shows "\<exists>es. deadline_run env now s es (snd r) \<and> fst r = fired + length es"
proof (rule expire_loop.raw_induct [where P = "\<lambda>env now fired s r.
    \<exists>es. deadline_run env now s es (snd r) \<and> fst r = fired + length es", OF _ assms])
  fix loop and env :: "'a timer_env" and now fired s r
  assume IH: "\<And>env now fired s r. loop env now fired s = Some r \<Longrightarrow>
      \<exists>es. deadline_run env now s es (snd r) \<and> fst r = fired + length es"
    and round: "(let chosen = choose_due now (entries s) in if chosen = capacity s then Some (fired, s)
      else loop env now (fired + 1) (fire env chosen s)) = Some r"
  show "\<exists>es. deadline_run env now s es (snd r) \<and> fst r = fired + length es"
  proof (cases "choose_due now (entries s) = capacity s")
    case True
    then show ?thesis using round run_over [of s now env]
      by (intro exI [of _ "[]"]) (auto simp: choose_due_none)
  next
    case False
    then obtain xs e ys where es: "entries s = xs @ e # ys" and c: "choose_due now (entries s) = length xs"
      and e: "due now e" "\<forall>x \<in> set xs. due now x \<longrightarrow> te_deadline_ns e < te_deadline_ns x"
        "\<forall>y \<in> set ys. due now y \<longrightarrow> te_deadline_ns e \<le> te_deadline_ns y"
      by (rule choose_due_some)
    have "loop env now (fired + 1) (fire env (length xs) s) = Some r"
      using round False c by (simp add: Let_def)
    from IH [OF this] obtain fs where "deadline_run env now (fire env (length xs) s) fs (snd r)"
      "fst r = fired + 1 + length fs" by blast
    then show ?thesis using run_fire [OF es e] unfolding fire_slot [OF es] by (intro exI [of _ "e # fs"]) simp
  qed
qed

lemma deadline_run_expires:
  "deadline_run env now s es s' \<Longrightarrow> expire_loop env now fired s = Some (fired + length es, s')"
proof (induction arbitrary: fired rule: deadline_run.induct)
  case (run_over s)
  then show ?case by (simp add: expire_loop.simps [of env now fired s] choose_due_none)
next
  case (run_fire s xs e ys es s')
  have c: "choose_due now (entries s) = length xs" by (rule choose_due_eqI [OF run_fire.hyps(1-4)])
  have "expire_loop env now fired s = expire_loop env now (fired + 1) (fire env (length xs) s)"
    unfolding expire_loop.simps [of env now fired s] c Let_def using run_fire.hyps(1) by simp
  then show ?case using run_fire.IH [of "fired + 1"] by (simp add: fire_slot [OF run_fire.hyps(1)])
qed

text \<open>
  Two conditions on callbacks.  \<open>arms_no_earlier\<close>: a callback may cancel anything and arm
  anything but a reached deadline before the one it is called for.  \<open>keeps_reached\<close>: it may
  arm and cancel whatever has not been reached.
\<close>

definition arms_no_earlier :: "'w timer_env \<Rightarrow> u64 \<Rightarrow> bool" where
  "arms_no_earlier env now \<longleftrightarrow> (\<forall>callback deadline context s.
     \<forall>e \<in> set (entries (env_callback env callback deadline context s)). due now e \<longrightarrow>
       e \<in> set (entries s) \<or> deadline \<le> te_deadline_ns e)"

definition keeps_reached :: "'w timer_env \<Rightarrow> u64 \<Rightarrow> bool" where
  "keeps_reached env now \<longleftrightarrow> (\<forall>callback deadline context s.
     filter (due now) (entries (env_callback env callback deadline context s)) = filter (due now) (entries s))"

lemma entries_flags [simp]:
  "entries (s\<lparr>sleep_expired := b\<rparr>) = entries s" "entries (s\<lparr>self_test_fired_mask := m\<rparr>) = entries s"
  by (simp_all add: entries_def)

lemma keeps_reached_arms_no_earlier:
  assumes "keeps_reached env now"
  shows "arms_no_earlier env now"
  unfolding arms_no_earlier_def
proof (intro allI ballI impI)
  fix callback deadline ctx s e
  assume "e \<in> set (entries (env_callback env callback deadline ctx s))" "due now e"
  then have "e \<in> set (filter (due now) (entries (env_callback env callback deadline ctx s)))" by simp
  then have "e \<in> set (filter (due now) (entries s))" using assms unfolding keeps_reached_def by metis
  then show "e \<in> set (entries s) \<or> deadline \<le> te_deadline_ns e" by simp
qed

lemma deliver_no_earlier:
  assumes "arms_no_earlier env now" "f \<in> set (entries (deliver env e s))" "due now f"
  shows "f \<in> set (entries s) \<or> te_deadline_ns e \<le> te_deadline_ns f"
  using assms
  by (auto simp: deliver_def run_callback_def arms_no_earlier_def sleep_callback_def self_test_callback_def
      split: option.splits if_splits)

lemma deliver_keeps_reached:
  assumes "keeps_reached env now"
  shows "filter (due now) (entries (deliver env e s)) = filter (due now) (entries s)"
  using assms
  by (auto simp: deliver_def run_callback_def keeps_reached_def sleep_callback_def self_test_callback_def
      split: option.splits if_splits)

lemma deadline_run_sorted:
  assumes "arms_no_earlier env now"
  shows "deadline_run env now s es s' \<Longrightarrow> sorted (map te_deadline_ns es) \<and>
    (\<forall>d. (\<forall>e \<in> set (entries s). due now e \<longrightarrow> d \<le> te_deadline_ns e) \<longrightarrow> (\<forall>e \<in> set es. d \<le> te_deadline_ns e))"
proof (induction rule: deadline_run.induct)
  case (run_fire s xs e ys es s')
  let ?s = "deliver env e (s\<lparr>timer_table := Some (xs @ cleared_entry # ys)\<rparr>)"
  have least: "te_deadline_ns e \<le> te_deadline_ns f" if "f \<in> set (entries ?s)" "due now f" for f
    using deliver_no_earlier [OF assms that] run_fire.hyps(3,4) that(2) by (auto simp: entries_def)
  then have "\<forall>f \<in> set es. te_deadline_ns e \<le> te_deadline_ns f" using run_fire.IH by blast
  moreover have "d \<le> te_deadline_ns e" if "\<forall>f \<in> set (entries s). due now f \<longrightarrow> d \<le> te_deadline_ns f" for d
    using that run_fire.hyps(1,2) by simp
  ultimately show ?case using run_fire.IH by fastforce
qed simp

lemma sort_key_least:
  assumes "\<forall>x \<in> set xs. f e < f x" "\<forall>y \<in> set ys. f e \<le> f y"
  shows "sort_key f (xs @ e # ys) = e # sort_key f (xs @ ys)"
  using assms(1)
proof (induction xs)
  case Nil
  with assms(2) show ?case by (simp add: insort_is_Cons)
next
  case (Cons a xs)
  then have "\<not> f a \<le> f e" by auto
  with Cons show ?case by simp
qed

lemma deadline_run_reached:
  assumes keep: "keeps_reached env now"
  shows "\<exists>s'. deadline_run env now s (sort_key te_deadline_ns (filter (due now) (entries s))) s'"
proof (induction "length (filter (due now) (entries s))" arbitrary: s rule: less_induct)
  case less
  show ?case
  proof (cases "choose_due now (entries s) = capacity s")
    case True
    then have none: "\<forall>e \<in> set (entries s). \<not> due now e" by (simp add: choose_due_none)
    then have "filter (due now) (entries s) = []" by (simp add: filter_empty_conv)
    with run_over [OF none] show ?thesis by (intro exI [of _ s]) simp
  next
    case False
    then obtain xs e ys where es: "entries s = xs @ e # ys"
      and e: "due now e" "\<forall>x \<in> set xs. due now x \<longrightarrow> te_deadline_ns e < te_deadline_ns x"
        "\<forall>y \<in> set ys. due now y \<longrightarrow> te_deadline_ns e \<le> te_deadline_ns y"
      by (rule choose_due_some)
    let ?s = "deliver env e (s\<lparr>timer_table := Some (xs @ cleared_entry # ys)\<rparr>)"
    have rest: "filter (due now) (entries ?s) = filter (due now) (xs @ ys)"
      unfolding deliver_keeps_reached [OF keep] by (simp add: entries_def)
    have "length (filter (due now) (entries ?s)) < length (filter (due now) (entries s))"
      using es e(1) unfolding rest by simp
    from less [OF this] obtain s' where r: "deadline_run env now ?s (sort_key te_deadline_ns (filter (due now) (xs @ ys))) s'"
      unfolding rest by blast
    have "sort_key te_deadline_ns (filter (due now) (entries s)) = e # sort_key te_deadline_ns (filter (due now) (xs @ ys))"
      using sort_key_least [of "filter (due now) xs" te_deadline_ns e "filter (due now) ys"] e es by simp
    then show ?thesis using run_fire [OF es e r] by (intro exI [of _ s']) simp
  qed
qed

text \<open>Arming, which is how a callback arms again, keeps them.\<close>

lemma filter_update_neither:
  "\<not> P e \<Longrightarrow> i < length xs \<longrightarrow> \<not> P (xs ! i) \<Longrightarrow> filter P (xs[i := e]) = filter P xs"
  by (induction xs arbitrary: i) (auto split: nat.splits)

lemma timer_arm_keeps_reached:
  assumes "timer_arm env deadline callback context ident s = (status, ident', s')"
    and read: "read_clock env s = (t, s1)" and "now \<le> t" "deadline < 2 ^ 64"
  shows "filter (due now) (entries s') = filter (due now) (entries s)"
proof -
  have e1: "entries s1 = entries s" by (rule same_timers_entries [OF read_clock_same [OF read]])
  have later: "now < deadline" if "t \<le> deadline" "TIMER_MINIMUM_INTERVAL_NS \<le> sub64 deadline t"
    using that assms(3,4) by (simp add: sub64_id TIMER_MINIMUM_INTERVAL_NS_def)
  have upd: "filter (due now) ((entries s)[free_slot (entries s) := e]) = filter (due now) (entries s)"
    if "\<not> due now e" "free_slot (entries s) < capacity s" for e
    using filter_update_neither [of "due now" e "free_slot (entries s)" "entries s"] that free_slotD(2) [of "entries s"]
    by simp
  from timer_arm_cases [OF assms(1) read] show ?thesis
    using e1 later upd by auto
qed

text \<open>
  C17. An expiry pass fires in deadline order, whatever its callbacks do.  It returns exactly
  when some finite sequence of firings, each of the least deadline reached at that moment and
  the lowest slot among equals, exhausts the reached deadlines, and then it did that sequence.
  If no callback arms a reached deadline before its own, the deadlines fire in ascending order,
  however many are cancelled on the way.  If callbacks arm and cancel only what has not been
  reached, as one that arms itself again at a later time does, the pass returns and fires
  exactly the entries reached at its start, sorted by deadline and among equals by slot.
\<close>
theorem expire_reached_in_deadline_order:
  "(expire_reached env now s = Some (n, s') \<longleftrightarrow> (\<exists>fired. deadline_run env now s fired s' \<and> length fired = n)) \<and>
   (arms_no_earlier env now \<and> deadline_run env now s fired s' \<longrightarrow> sorted (map te_deadline_ns fired)) \<and>
   (keeps_reached env now \<longrightarrow>
     (\<exists>s''. deadline_run env now s (sort_key te_deadline_ns (filter (due now) (entries s))) s'' \<and>
       expire_reached env now s = Some (length (filter (due now) (entries s)), s'')))"
proof (intro conjI impI)
  show "expire_reached env now s = Some (n, s') \<longleftrightarrow> (\<exists>fired. deadline_run env now s fired s' \<and> length fired = n)"
    using expire_loop_runs [of env now 0 s "(n, s')"] deadline_run_expires [of env now s _ s' 0]
    by (auto simp: expire_reached_def)
  show "sorted (map te_deadline_ns fired)" if "arms_no_earlier env now \<and> deadline_run env now s fired s'"
    using deadline_run_sorted that by blast
  assume "keeps_reached env now"
  from deadline_run_reached [OF this, of s] obtain s'' where
    r: "deadline_run env now s (sort_key te_deadline_ns (filter (due now) (entries s))) s''" by blast
  from deadline_run_expires [OF r, of 0] r
  show "\<exists>s''. deadline_run env now s (sort_key te_deadline_ns (filter (due now) (entries s))) s'' \<and>
      expire_reached env now s = Some (length (filter (due now) (entries s)), s'')"
    by (auto simp: expire_reached_def)
qed

section \<open>Sleeping\<close>

text \<open>The clock moves on across every halt.\<close>

definition ticking :: "'w timer_env \<Rightarrow> bool" where
  "ticking env \<longleftrightarrow> (\<forall>s. fst (read_clock env s) < fst (read_clock env (env_halt env (snd (read_clock env s)))))"

lemma sleep_loop_returns:
  assumes "ticking env"
  shows "\<exists>status s'. sleep_loop env identifier abandon s = Some (status, s') \<and>
     (status = TIMER_STATUS_OK \<and> sleep_expired s' \<or>
      status = TIMER_STATUS_EXPIRED_LATE \<or> status = TIMER_STATUS_HARDWARE_FAILURE)"
proof (induction "Suc abandon - fst (read_clock env s)" arbitrary: s rule: less_induct)
  case less
  obtain now s1 where r: "read_clock env s = (now, s1)" by fastforce
  show ?case
  proof (cases "sleep_expired s \<or> now > abandon \<or> \<not> env_is_armed env (timer_world s1)")
    case True
    then show ?thesis
      by (subst sleep_loop.simps) (auto simp: r)
  next
    case False
    have "now < fst (read_clock env (env_halt env s1))" using assms r by (auto simp: ticking_def dest: spec [of _ s])
    with False r have "Suc abandon - fst (read_clock env (env_halt env s1)) < Suc abandon - fst (read_clock env s)"
      by (simp add: diff_less_mono2)
    from less [OF this] False r show ?thesis
      by (subst sleep_loop.simps) simp
  qed
qed

text \<open>
  A sleep always returns on a clock that advances across halts: with OK only when its
  deadline fired, and otherwise with the refusal of arming or with a status that says the
  deadline was not delivered.
\<close>
theorem timer_sleep_returns:
  assumes "ticking env"
  shows "\<exists>status s'. timer_sleep_ns env nanoseconds s = Some (status, s') \<and>
     (status = TIMER_STATUS_OK \<longrightarrow> sleep_expired s')"
proof -
  obtain now s1 where r: "read_clock env s = (now, s1)" by fastforce
  let ?deadline = "add64 now nanoseconds"
  let ?abandon = "add64 (add64 ?deadline nanoseconds) TIMER_SLEEP_GRACE_NS"
  obtain status ident s2 where
    arm: "timer_arm env ?deadline (Some 0) 0 (Some 0) (s1\<lparr>sleep_expired := False\<rparr>) = (status, ident, s2)"
    by (metis prod_cases3)
  from sleep_loop_returns [OF assms, of "the ident" ?abandon s2] r arm show ?thesis
    by (auto simp: timer_sleep_ns_def Let_def)
qed

section \<open>Concrete timers\<close>

text \<open>
  An environment whose clock stands at a million nanoseconds until a halt; its callbacks
  fold their context into the world.
\<close>

definition sample_env :: "nat timer_env" where
  "sample_env = \<lparr>env_interrupts_enabled = (\<lambda>w. False), env_clock_started = (\<lambda>w. True),
     env_now = (\<lambda>w. (1000000 + w, w)), env_is_armed = (\<lambda>w. True),
     env_disarm = (\<lambda>w. (True, w)), env_arm_oneshot = (\<lambda>interval w. (True, w)),
     env_set_handler = (\<lambda>installed w. (True, w)), env_heap_allocate = (\<lambda>size w. (True, w)),
     env_heap_free = (\<lambda>w. (True, w)),
     env_callback = (\<lambda>callback deadline context s. s\<lparr>timer_world := 10 * timer_world s + context\<rparr>),
     env_halt = (\<lambda>s. s\<lparr>timer_world := timer_world s + 1000\<rparr>), env_interrupt_disable = (\<lambda>w. w)\<rparr>"

text \<open>The same environment with callbacks that arm again at their context.\<close>

definition rearming_env :: "nat timer_env" where
  "rearming_env = sample_env\<lparr>env_callback := (\<lambda>callback deadline context s.
     snd (snd (timer_arm sample_env (context mod 2 ^ 64) (Some callback) context (Some 0) s)))\<rparr>"

definition sample_entry :: "u64 \<Rightarrow> u64 \<Rightarrow> nat \<Rightarrow> timer_entry" where
  "sample_entry deadline identifier context = \<lparr>te_deadline_ns = deadline, te_identifier = identifier,
     te_callback = Some 2, te_context = context, te_in_use = True\<rparr>"

definition sample_timers :: "nat timers" where
  "sample_timers = \<lparr>timer_table = Some [sample_entry 300 1 7, sample_entry 100 2 8, cleared_entry],
     next_identifier = 3, timer_expiry_counter = 0, timers_started = True, sleep_expired = False,
     self_test_fired_mask = 0, timer_world = 0\<rparr>"

lemma rearming_tame: "tame rearming_env 1000000"
  unfolding tame_def
proof (intro allI)
  fix callback deadline ctx and s :: "nat timers"
  obtain status ident s' where a: "timer_arm sample_env (ctx mod 2 ^ 64) (Some callback) ctx (Some 0) s
      = (status, ident, s')" by (metis prod_cases3)
  have "read_clock sample_env s = (1000000 + timer_world s, s)"
    by (simp add: read_clock_def sample_env_def)
  from timer_arm_due_count [OF a this, of 1000000] a
  show "due_count 1000000 (env_callback rearming_env callback deadline ctx s) \<le> due_count 1000000 s"
    by (simp add: rearming_env_def)
qed

theorem expire_reached_terminates_witness:
  "\<exists>fired s'. expire_reached rearming_env 1000000 sample_timers = Some (fired, s') \<and>
     (\<forall>e \<in> set (entries s'). \<not> due 1000000 e)"
  using expire_reached_terminates [OF rearming_tame, of sample_timers] by blast

lemma rearming_keeps: "keeps_reached rearming_env 1000000"
  unfolding keeps_reached_def
proof (intro allI)
  fix callback deadline ctx and s :: "nat timers"
  obtain status ident s' where a: "timer_arm sample_env (ctx mod 2 ^ 64) (Some callback) ctx (Some 0) s
      = (status, ident, s')" by (metis prod_cases3)
  have "read_clock sample_env s = (1000000 + timer_world s, s)"
    by (simp add: read_clock_def sample_env_def)
  from timer_arm_keeps_reached [OF a this, of 1000000] a
  show "filter (due 1000000) (entries (env_callback rearming_env callback deadline ctx s)) = filter (due 1000000) (entries s)"
    by (simp add: rearming_env_def)
qed

text \<open>Two reached deadlines whose callbacks arm themselves again five milliseconds in.\<close>

definition periodic_timers :: "nat timers" where
  "periodic_timers = sample_timers\<lparr>timer_table :=
     Some [sample_entry 300 1 5000000, sample_entry 100 2 5000000, cleared_entry]\<rparr>"

theorem expire_reached_in_deadline_order_witness:
  "\<exists>s'. expire_reached rearming_env 1000000 periodic_timers = Some (2, s') \<and>
     deadline_run rearming_env 1000000 periodic_timers
       [sample_entry 100 2 5000000, sample_entry 300 1 5000000] s' \<and>
     sorted (map te_deadline_ns [sample_entry 100 2 5000000, sample_entry 300 1 5000000])"
proof -
  have es: "filter (due 1000000) (entries periodic_timers) = [sample_entry 300 1 5000000, sample_entry 100 2 5000000]"
    by (simp add: periodic_timers_def entries_def sample_entry_def cleared_entry_def)
  have sort: "sort_key te_deadline_ns [sample_entry 300 1 5000000, sample_entry 100 2 5000000] =
      [sample_entry 100 2 5000000, sample_entry 300 1 5000000]" by (simp add: sample_entry_def)
  note order = expire_reached_in_deadline_order [of rearming_env 1000000 periodic_timers, unfolded es sort]
  have quiet: "arms_no_earlier rearming_env 1000000" by (rule keeps_reached_arms_no_earlier [OF rearming_keeps])
  from order [THEN conjunct2, THEN conjunct2, THEN mp, OF rearming_keeps] obtain s' where
    r: "deadline_run rearming_env 1000000 periodic_timers [sample_entry 100 2 5000000, sample_entry 300 1 5000000] s'"
      "expire_reached rearming_env 1000000 periodic_timers = Some (2, s')" by (auto simp: numeral_2_eq_2)
  from order [THEN conjunct2, THEN conjunct1, THEN mp, OF conjI [OF quiet r(1)]] r show ?thesis by blast
qed

lemma sample_ok: "timers_ok sample_timers"
  by (simp add: timers_ok_def table_ok_def sample_timers_def entries_def sample_entry_def cleared_entry_def
      less_Suc_eq nth_Cons' numeral_3_eq_3)

lemma sample_arms:
  "timer_arm sample_env 2000000 (Some 2) 5 (Some 0) sample_timers = (TIMER_STATUS_OK, Some 3,
     sample_timers\<lparr>timer_table := Some [sample_entry 300 1 7, sample_entry 100 2 8, sample_entry 2000000 3 5],
       next_identifier := 4\<rparr>)"
  by (simp add: timer_arm_def sample_timers_def sample_env_def read_clock_def entries_def free_slot_def
      find_from.simps sample_entry_def cleared_entry_def sub64_def add64_def TIMER_MINIMUM_INTERVAL_NS_def
      set_entry_def reprogram_def earliest_deadline_def Let_def)

theorem timer_arm_correct_witness:
  "slot_of (entries sample_timers) 3 = 3 \<and>
   timers_ok (snd (snd (timer_arm sample_env 2000000 (Some 2) 5 (Some 0) sample_timers)))"
proof -
  have "next_identifier sample_timers < 2 ^ 64 - 1" by (simp add: sample_timers_def)
  from timer_arm_correct [OF sample_ok this sample_arms] show ?thesis
    by (simp add: sample_arms) (simp add: sample_timers_def entries_def)
qed

theorem timer_cancel_undoes_arm_witness:
  "entries (snd (timer_cancel sample_env 3
     (snd (snd (timer_arm sample_env 2000000 (Some 2) 5 (Some 0) sample_timers))))) = entries sample_timers"
proof -
  have "next_identifier sample_timers < 2 ^ 64 - 1" by (simp add: sample_timers_def)
  from timer_cancel_undoes_arm [OF sample_ok this sample_arms prod.collapse [symmetric]]
  show ?thesis by (simp add: sample_arms)
qed

lemma sample_ticking: "ticking sample_env"
  by (simp add: ticking_def sample_env_def read_clock_def)

theorem timer_sleep_returns_witness:
  "\<exists>status s'. timer_sleep_ns sample_env 200000 sample_timers = Some (status, s')"
  using timer_sleep_returns [OF sample_ticking, of 200000 sample_timers] by blast

section \<open>A deadline that is never programmed\<close>

text \<open>
  The local APIC count register limits an interval to about a minute and
  \<open>apic_timer_arm_oneshot\<close> refuses a longer one.  A distant deadline is still accepted
  while a nearer one is pending, because only the nearest is programmed; when that one
  fires, \<open>on_expiry\<close> drops the refusal of \<open>reprogram\<close>.  The world here is whether the
  hardware is armed.
\<close>

definition minute_env :: "bool timer_env" where
  "minute_env = \<lparr>env_interrupts_enabled = (\<lambda>w. False), env_clock_started = (\<lambda>w. True),
     env_now = (\<lambda>w. (1000000, w)), env_is_armed = (\<lambda>w. w), env_disarm = (\<lambda>w. (True, False)),
     env_arm_oneshot = (\<lambda>interval w. if interval \<le> 60000000000 then (True, True) else (False, w)),
     env_set_handler = (\<lambda>installed w. (True, w)), env_heap_allocate = (\<lambda>size w. (True, w)),
     env_heap_free = (\<lambda>w. (True, w)), env_callback = (\<lambda>callback deadline context s. s),
     env_halt = (\<lambda>s. s), env_interrupt_disable = (\<lambda>w. w)\<rparr>"

definition two_deadlines :: "bool timers" where
  "two_deadlines = \<lparr>timer_table = Some [sample_entry 1000000 1 0, sample_entry 120000000000 2 0],
     next_identifier = 3, timer_expiry_counter = 0, timers_started = True, sleep_expired = False,
     self_test_fired_mask = 0, timer_world = False\<rparr>"

text \<open>
  The expiry handler can leave a deadline pending with no hardware armed to deliver it:
  with one deadline reached and another two minutes away, it fires the first, fails to
  program the second and returns with the timer disarmed.
\<close>
theorem on_expiry_loses_deadline:
  "\<exists>s'. on_expiry minute_env two_deadlines = Some s' \<and> \<not> timer_world s' \<and>
     earliest_deadline (entries s') = Some 120000000000"
proof -
  let ?after = "two_deadlines\<lparr>timer_table := Some [cleared_entry, sample_entry 120000000000 2 0]\<rparr>"
  have first: "deliver minute_env (sample_entry 1000000 1 0) s = s" for s
    by (simp add: deliver_def run_callback_def minute_env_def sample_entry_def)
  have ent: "entries two_deadlines = [] @ sample_entry 1000000 1 0 # [sample_entry 120000000000 2 0]"
    by (simp add: two_deadlines_def entries_def)
  have "deadline_run minute_env 1000000 ?after [] ?after"
    by (rule run_over) (simp add: entries_def sample_entry_def cleared_entry_def)
  then have "deadline_run minute_env 1000000 two_deadlines [sample_entry 1000000 1 0] ?after"
    by (intro run_fire [where xs = "[]" and ys = "[sample_entry 120000000000 2 0]"])
      (simp_all only: first ent, simp_all add: sample_entry_def)
  from deadline_run_expires [OF this, of 0] have "expire_reached minute_env 1000000 two_deadlines = Some (1, ?after)"
    by (simp add: expire_reached_def)
  then show ?thesis
    by (simp add: on_expiry_def read_clock_def two_deadlines_def sample_entry_def entries_def minute_env_def
        reprogram_def earliest_deadline_def program_interval_def sub64_def TIMER_MINIMUM_INTERVAL_NS_def cleared_entry_def)
qed

end
