(* ===== verification/Page_Tables.thy ===== *)
theory Page_Tables
  imports Physical_Memory_Spec
begin

unbundle bit_operations_syntax

text \<open>
  The page-table core of \<open>src/kernel/paging.c\<close>: entries and permissions, the walk, mapping,
  unmapping, protection, translation and the audit, on the four-level hierarchy of the
  processor.  An entry is a 64-bit word.  The memory that holds tables is a function from the
  physical address of a table and an index to an entry: every table address the code
  dereferences is page aligned, so two tables either are the same or share no entry.  A pointer
  to an entry is the pair of a table and an index.  Tables are taken from and returned to the
  modelled frame allocator.  The comparison of a hierarchy pointer with the process slots is a
  field of the hierarchy, the processor's root register is a field of the machine, and the
  pages invalidated are kept as a list.
\<close>

section \<open>Constants and types\<close>

definition PAGE_PRESENT :: "64 word" where "PAGE_PRESENT = push_bit 0 1"
definition PAGE_WRITABLE :: "64 word" where "PAGE_WRITABLE = push_bit 1 1"
definition PAGE_USER :: "64 word" where "PAGE_USER = push_bit 2 1"
definition PAGE_WRITE_THROUGH :: "64 word" where "PAGE_WRITE_THROUGH = push_bit 3 1"
definition PAGE_CACHE_DISABLE :: "64 word" where "PAGE_CACHE_DISABLE = push_bit 4 1"
definition PAGE_HUGE :: "64 word" where "PAGE_HUGE = push_bit 7 1"
definition PAGE_LARGE_PAT :: "64 word" where "PAGE_LARGE_PAT = push_bit 12 1"
definition PAGE_NO_EXECUTE :: "64 word" where "PAGE_NO_EXECUTE = push_bit 63 1"
definition PAGE_FRAME_MASK :: "64 word" where "PAGE_FRAME_MASK = 0x000FFFFFFFFFF000"
definition PAGE_PHYSICAL_LIMIT :: u64 where "PAGE_PHYSICAL_LIMIT = 2 ^ 52"

definition PAT_TYPE_UNCACHEABLE :: "8 word" where "PAT_TYPE_UNCACHEABLE = 0x00"
definition PAT_TYPE_WRITE_COMBINING :: "8 word" where "PAT_TYPE_WRITE_COMBINING = 0x01"
definition PAT_TYPE_WRITE_THROUGH :: "8 word" where "PAT_TYPE_WRITE_THROUGH = 0x04"
definition PAT_TYPE_WRITE_PROTECTED :: "8 word" where "PAT_TYPE_WRITE_PROTECTED = 0x05"
definition PAT_TYPE_WRITE_BACK :: "8 word" where "PAT_TYPE_WRITE_BACK = 0x06"
definition PAT_TYPE_UNCACHED_MINUS :: "8 word" where "PAT_TYPE_UNCACHED_MINUS = 0x07"

definition PAGING_LEVEL_COUNT :: nat where "PAGING_LEVEL_COUNT = 4"
definition PAGING_ENTRIES_PER_TABLE :: nat where "PAGING_ENTRIES_PER_TABLE = 512"
definition PAGING_PAGE_SIZE :: u64 where "PAGING_PAGE_SIZE = 4096"
definition PAGING_HUGE_PAGE_SIZE :: u64 where "PAGING_HUGE_PAGE_SIZE = 0x200000"
definition PAGING_SUPERVISOR_INTENT_CAPACITY :: nat where "PAGING_SUPERVISOR_INTENT_CAPACITY = 8192"

definition PAGING_READ :: "32 word" where "PAGING_READ = 0"
definition PAGING_WRITE :: "32 word" where "PAGING_WRITE = push_bit 0 1"
definition PAGING_EXECUTE :: "32 word" where "PAGING_EXECUTE = push_bit 1 1"
definition PAGING_UNCACHED :: "32 word" where "PAGING_UNCACHED = push_bit 2 1"
definition PAGING_WRITE_COMBINING :: "32 word" where "PAGING_WRITE_COMBINING = push_bit 3 1"

datatype paging_status =
    PAGING_STATUS_OK
  | PAGING_STATUS_NULL_ARGUMENT
  | PAGING_STATUS_ALREADY_INITIALIZED
  | PAGING_STATUS_NOT_INITIALIZED
  | PAGING_STATUS_INTERRUPTS_ENABLED
  | PAGING_STATUS_NO_EXECUTE_UNSUPPORTED
  | PAGING_STATUS_NO_EXECUTE_INACTIVE
  | PAGING_STATUS_WRITE_PROTECT_INACTIVE
  | PAGING_STATUS_FIVE_LEVEL_PAGING
  | PAGING_STATUS_PHYSICAL_EXTENSION_DISABLED
  | PAGING_STATUS_PAT_UNSUPPORTED
  | PAGING_STATUS_PAT_LAYOUT_UNSAFE
  | PAGING_STATUS_PAT_READBACK_MISMATCH
  | PAGING_STATUS_BAD_KERNEL_LAYOUT
  | PAGING_STATUS_BAD_DEVICE_WINDOW_KIND
  | PAGING_STATUS_BAD_DEVICE_WINDOW_INSTANCE
  | PAGING_STATUS_UNSUPPORTED_DEVICE_WINDOW_MEMORY_TYPE
  | PAGING_STATUS_BAD_DEVICE_WINDOW_PERMISSIONS
  | PAGING_STATUS_ZERO_LENGTH_DEVICE_WINDOW
  | PAGING_STATUS_UNALIGNED_DEVICE_WINDOW
  | PAGING_STATUS_DEVICE_WINDOW_RANGE_OVERFLOW
  | PAGING_STATUS_DEVICE_WINDOW_UNSUPPORTED_RANGE
  | PAGING_STATUS_TOO_MANY_DEVICE_WINDOWS
  | PAGING_STATUS_CONFLICTING_DEVICE_WINDOW_OVERLAP
  | PAGING_STATUS_OVERLAPPING_DEVICE_WINDOWS
  | PAGING_STATUS_DUPLICATE_DEVICE_WINDOW
  | PAGING_STATUS_REQUIRED_DEVICE_WINDOW_MISSING
  | PAGING_STATUS_DEVICE_WINDOW_KERNEL_OVERLAP
  | PAGING_STATUS_INSTALLED_DEVICE_WINDOW_MISMATCH
  | PAGING_STATUS_ZERO_LENGTH
  | PAGING_STATUS_UNALIGNED_ADDRESS
  | PAGING_STATUS_NONCANONICAL_ADDRESS
  | PAGING_STATUS_RANGE_OVERFLOW
  | PAGING_STATUS_PHYSICAL_TOO_WIDE
  | PAGING_STATUS_BAD_PERMISSIONS
  | PAGING_STATUS_CONFLICTING_MEMORY_TYPES
  | PAGING_STATUS_MEMORY_TYPE_CHANGE_UNSAFE
  | PAGING_STATUS_WRITABLE_AND_EXECUTABLE
  | PAGING_STATUS_ALREADY_MAPPED
  | PAGING_STATUS_NOT_MAPPED
  | PAGING_STATUS_HUGE_PAGE_PRESENT
  | PAGING_STATUS_OUT_OF_FRAMES
  | PAGING_STATUS_VALIDATION_FAILURE
  | PAGING_STATUS_PROCESS_BUSY
  | PAGING_STATUS_PROCESS_BAD_TOKEN
  | PAGING_STATUS_PROCESS_BAD_STATE
  | PAGING_STATUS_PROCESS_BAD_MAPPING
  | PAGING_STATUS_PROCESS_ALIAS_STATE
  | PAGING_STATUS_SUPERVISOR_INTENT_FULL

datatype paging_memory_type =
    PAGING_MEMORY_WRITE_BACK
  | PAGING_MEMORY_WRITE_COMBINING
  | PAGING_MEMORY_UNCACHEABLE
  | PAGING_MEMORY_WRITE_THROUGH
  | PAGING_MEMORY_WRITE_PROTECTED
  | PAGING_MEMORY_UNCACHED_MINUS
  | PAGING_MEMORY_INVALID

record paging_translation =
  tr_physical_address :: u64
  tr_permissions :: "32 word"
  tr_memory_type :: paging_memory_type
  tr_level :: nat
  tr_user :: bool

record page_hierarchy =
  ph_root :: u64
  ph_arena_base :: u64
  ph_arena_capacity :: nat
  ph_arena_used :: nat
  ph_table_frames :: nat
  ph_live :: bool
  ph_is_process :: bool

record process_table_failure =
  tf_failure_ordinal :: nat
  tf_allocation_count :: nat
  tf_observed :: bool
  tf_armed :: bool

type_synonym tables = "u64 \<Rightarrow> nat \<Rightarrow> 64 word"
type_synonym entry_pointer = "u64 \<times> nat"

record machine =
  mc_tables :: tables
  mc_frames :: frame_allocator
  mc_cr3 :: "64 word"
  mc_invalidated :: "u64 list"
  mc_table_failure :: process_table_failure

type_synonym space = "page_hierarchy \<times> machine"

section \<open>Entries\<close>

definition pat_entry :: "64 word \<Rightarrow> nat \<Rightarrow> 8 word" where
  "pat_entry pat index = ucast (drop_bit (index * 8) pat)"

definition pat_replace_entry :: "64 word \<Rightarrow> nat \<Rightarrow> 8 word \<Rightarrow> 64 word" where
  "pat_replace_entry pat index memory_type =
     (let shift = index * 8; mask = push_bit shift 0xFF in
      (pat AND NOT mask) OR push_bit shift (ucast memory_type))"

definition decode_pat_type :: "8 word \<Rightarrow> paging_memory_type" where
  "decode_pat_type memory_type =
     (if memory_type = PAT_TYPE_WRITE_BACK then PAGING_MEMORY_WRITE_BACK
      else if memory_type = PAT_TYPE_WRITE_COMBINING then PAGING_MEMORY_WRITE_COMBINING
      else if memory_type = PAT_TYPE_UNCACHEABLE then PAGING_MEMORY_UNCACHEABLE
      else if memory_type = PAT_TYPE_WRITE_THROUGH then PAGING_MEMORY_WRITE_THROUGH
      else if memory_type = PAT_TYPE_WRITE_PROTECTED then PAGING_MEMORY_WRITE_PROTECTED
      else if memory_type = PAT_TYPE_UNCACHED_MINUS then PAGING_MEMORY_UNCACHED_MINUS
      else PAGING_MEMORY_INVALID)"

definition leaf_pat_index :: "64 word \<Rightarrow> nat \<Rightarrow> nat" where
  "leaf_pat_index entry level =
     (let pat_bit = (if level = 1 then PAGE_HUGE else PAGE_LARGE_PAT) in
      (if entry AND PAGE_WRITE_THROUGH \<noteq> 0 then 1 else 0) OR
      (if entry AND PAGE_CACHE_DISABLE \<noteq> 0 then 2 else 0) OR
      (if entry AND pat_bit \<noteq> 0 then 4 else 0))"

definition leaf_memory_type :: "64 word \<Rightarrow> nat \<Rightarrow> 64 word \<Rightarrow> paging_memory_type" where
  "leaf_memory_type entry level pat = decode_pat_type (pat_entry pat (leaf_pat_index entry level))"

definition zero_table :: "u64 \<Rightarrow> machine \<Rightarrow> machine" where
  "zero_table table m = m\<lparr>mc_tables := (mc_tables m)(table := (\<lambda>_. 0))\<rparr>"

definition table_index :: "u64 \<Rightarrow> nat \<Rightarrow> nat" where
  "table_index virtual_address level =
     drop_bit (12 + 9 * (level - 1)) virtual_address AND (PAGING_ENTRIES_PER_TABLE - 1)"

definition level_page_size :: "nat \<Rightarrow> u64" where
  "level_page_size level = push_bit (12 + 9 * (level - 1)) 1"

definition address_is_canonical :: "u64 \<Rightarrow> bool" where
  "address_is_canonical virtual_address =
     (let high = drop_bit 47 virtual_address in high = 0 \<or> high = 0x1FFFF)"

definition permissions_to_flags :: "32 word \<Rightarrow> 64 word" where
  "permissions_to_flags permissions =
     PAGE_PRESENT OR
     (if permissions AND PAGING_WRITE \<noteq> 0 then PAGE_WRITABLE else 0) OR
     (if permissions AND PAGING_EXECUTE = 0 then PAGE_NO_EXECUTE else 0) OR
     (if permissions AND PAGING_UNCACHED \<noteq> 0 then PAGE_CACHE_DISABLE OR PAGE_WRITE_THROUGH else 0) OR
     (if permissions AND PAGING_WRITE_COMBINING \<noteq> 0 then PAGE_WRITE_THROUGH else 0)"

definition memory_type_permissions :: "paging_memory_type \<Rightarrow> 32 word" where
  "memory_type_permissions memory_type =
     (if memory_type = PAGING_MEMORY_UNCACHEABLE then PAGING_UNCACHED
      else if memory_type = PAGING_MEMORY_WRITE_COMBINING then PAGING_WRITE_COMBINING
      else 0)"

definition flags_to_permissions :: "64 word \<Rightarrow> nat \<Rightarrow> 64 word \<Rightarrow> 32 word" where
  "flags_to_permissions entry level pat =
     PAGING_READ OR
     (if entry AND PAGE_WRITABLE \<noteq> 0 then PAGING_WRITE else 0) OR
     (if entry AND PAGE_NO_EXECUTE = 0 then PAGING_EXECUTE else 0) OR
     memory_type_permissions (leaf_memory_type entry level pat)"

definition validate_permissions :: "32 word \<Rightarrow> paging_status" where
  "validate_permissions permissions =
     (let known = PAGING_WRITE OR PAGING_EXECUTE OR PAGING_UNCACHED OR PAGING_WRITE_COMBINING in
      if permissions AND NOT known \<noteq> 0 then PAGING_STATUS_BAD_PERMISSIONS
      else if permissions AND PAGING_WRITE \<noteq> 0 \<and> permissions AND PAGING_EXECUTE \<noteq> 0
        then PAGING_STATUS_WRITABLE_AND_EXECUTABLE
      else if permissions AND PAGING_UNCACHED \<noteq> 0 \<and> permissions AND PAGING_WRITE_COMBINING \<noteq> 0
        then PAGING_STATUS_CONFLICTING_MEMORY_TYPES
      else PAGING_STATUS_OK)"

definition validate_virtual_range :: "u64 \<Rightarrow> u64 \<Rightarrow> u64 \<Rightarrow> paging_status" where
  "validate_virtual_range virtual_address bytes page_size =
     (if bytes = 0 then PAGING_STATUS_ZERO_LENGTH
      else if virtual_address AND (page_size - 1) \<noteq> 0 \<or> bytes AND (page_size - 1) \<noteq> 0
        then PAGING_STATUS_UNALIGNED_ADDRESS
      else if \<not> address_is_canonical virtual_address then PAGING_STATUS_NONCANONICAL_ADDRESS
      else if bytes > sub64 UINT64_MAX virtual_address then PAGING_STATUS_RANGE_OVERFLOW
      else if \<not> address_is_canonical (sub64 (add64 virtual_address bytes) 1)
        then PAGING_STATUS_NONCANONICAL_ADDRESS
      else PAGING_STATUS_OK)"

definition validate_physical_range :: "u64 \<Rightarrow> u64 \<Rightarrow> u64 \<Rightarrow> paging_status" where
  "validate_physical_range physical_address bytes page_size =
     (if physical_address AND (page_size - 1) \<noteq> 0 then PAGING_STATUS_UNALIGNED_ADDRESS
      else if bytes > sub64 UINT64_MAX physical_address then PAGING_STATUS_RANGE_OVERFLOW
      else if add64 physical_address bytes > PAGE_PHYSICAL_LIMIT then PAGING_STATUS_PHYSICAL_TOO_WIDE
      else PAGING_STATUS_OK)"

section \<open>Tables\<close>

definition set_entry :: "entry_pointer \<Rightarrow> 64 word \<Rightarrow> machine \<Rightarrow> machine" where
  "set_entry pointer entry m =
     m\<lparr>mc_tables := (mc_tables m)(fst pointer := (mc_tables m (fst pointer))(snd pointer := entry))\<rparr>"

definition get_entry :: "entry_pointer \<Rightarrow> machine \<Rightarrow> 64 word" where
  "get_entry pointer m = mc_tables m (fst pointer) (snd pointer)"

definition hierarchy_is_process :: "page_hierarchy \<Rightarrow> bool" where
  "hierarchy_is_process hierarchy = ph_is_process hierarchy"

text \<open>The third part of \<open>allocate_table\<close>: check, clear and count the frame just obtained.\<close>

definition enter_table :: "u64 \<Rightarrow> space \<Rightarrow> paging_status \<times> u64 \<times> space" where
  "enter_table frame s =
     (case s of (hierarchy, m) \<Rightarrow>
        if frame \<ge> SAPOTE_EARLY_PHYSICAL_LIMIT then (PAGING_STATUS_PHYSICAL_TOO_WIDE, 0, s)
        else (PAGING_STATUS_OK, frame,
              hierarchy\<lparr>ph_table_frames := add64 (ph_table_frames hierarchy) 1\<rparr>, zero_table frame m))"

definition allocate_table :: "space \<Rightarrow> paging_status \<times> u64 \<times> space" where
  "allocate_table s =
     (case s of (hierarchy, m) \<Rightarrow>
        let failure = mc_table_failure m;
            counted = (tf_armed failure \<and> hierarchy_is_process hierarchy);
            failure = (if counted
                       then failure\<lparr>tf_allocation_count := add64 (tf_allocation_count failure) 1\<rparr> else failure)
        in if counted \<and> tf_allocation_count failure = tf_failure_ordinal failure
           then (PAGING_STATUS_OUT_OF_FRAMES, 0, hierarchy, m\<lparr>mc_table_failure := failure\<lparr>tf_observed := True\<rparr>\<rparr>)
           else let m = m\<lparr>mc_table_failure := failure\<rparr> in
             if ph_arena_capacity hierarchy \<noteq> 0 then
               if ph_arena_used hierarchy = ph_arena_capacity hierarchy
               then (PAGING_STATUS_OUT_OF_FRAMES, 0, hierarchy, m)
               else enter_table
                      (add64 (ph_arena_base hierarchy) (mul64 (ph_arena_used hierarchy) PAGING_PAGE_SIZE))
                      (hierarchy\<lparr>ph_arena_used := add64 (ph_arena_used hierarchy) 1\<rparr>, m)
             else case frame_allocate False (mc_frames m) of
               (status, frame, fs) \<Rightarrow>
                 if status \<noteq> FRAME_STATUS_OK
                 then (PAGING_STATUS_OUT_OF_FRAMES, 0, hierarchy, m\<lparr>mc_frames := fs\<rparr>)
                 else enter_table (the frame) (hierarchy, m\<lparr>mc_frames := fs\<rparr>))"

definition invalidate :: "u64 \<Rightarrow> space \<Rightarrow> space" where
  "invalidate virtual_address s =
     (case s of (hierarchy, m) \<Rightarrow>
        if ph_live hierarchy \<or>
           (ph_root hierarchy \<noteq> 0 \<and> unat (mc_cr3 m AND PAGE_FRAME_MASK) = ph_root hierarchy)
        then (hierarchy, m\<lparr>mc_invalidated := mc_invalidated m @ [virtual_address]\<rparr>)
        else s)"

text \<open>The loop of \<open>entry_for\<close>, from the level \<open>k\<close> above the target.\<close>

fun entry_walk ::
  "u64 \<Rightarrow> nat \<Rightarrow> bool \<Rightarrow> nat \<Rightarrow> u64 \<Rightarrow> space \<Rightarrow> paging_status \<times> entry_pointer option \<times> space" where
  "entry_walk virtual_address target_level create 0 table s =
     (PAGING_STATUS_OK, Some (table, table_index virtual_address target_level), s)"
| "entry_walk virtual_address target_level create (Suc k) table s =
     (let slot = (table, table_index virtual_address (target_level + Suc k));
          entry = get_entry slot (snd s)
      in if entry AND PAGE_PRESENT = 0 then
           if \<not> create then (PAGING_STATUS_NOT_MAPPED, None, s)
           else (case allocate_table s of
             (status, next_table, s) \<Rightarrow>
               if status \<noteq> PAGING_STATUS_OK then (status, None, s)
               else entry_walk virtual_address target_level create k next_table
                      (fst s, set_entry slot (of_nat next_table OR PAGE_PRESENT OR PAGE_WRITABLE) (snd s)))
         else if entry AND PAGE_HUGE \<noteq> 0 then (PAGING_STATUS_HUGE_PAGE_PRESENT, None, s)
         else entry_walk virtual_address target_level create k (unat (entry AND PAGE_FRAME_MASK)) s)"

definition entry_for ::
  "u64 \<Rightarrow> nat \<Rightarrow> bool \<Rightarrow> space \<Rightarrow> paging_status \<times> entry_pointer option \<times> space" where
  "entry_for virtual_address target_level create s =
     entry_walk virtual_address target_level create (PAGING_LEVEL_COUNT - target_level) (ph_root (fst s)) s"

definition table_is_empty :: "u64 \<Rightarrow> machine \<Rightarrow> bool" where
  "table_is_empty table m =
     list_all (\<lambda>index. mc_tables m table index AND PAGE_PRESENT = 0) [0..<PAGING_ENTRIES_PER_TABLE]"

definition release_table :: "u64 \<Rightarrow> space \<Rightarrow> space" where
  "release_table physical s =
     (case s of (hierarchy, m) \<Rightarrow>
        let m = (if ph_arena_capacity hierarchy = 0
                 then m\<lparr>mc_frames := snd (frame_release physical (mc_frames m))\<rparr> else m)
        in (hierarchy\<lparr>ph_table_frames := sub64 (ph_table_frames hierarchy) 1\<rparr>, m))"

text \<open>The tables on the path of an address, from the one at \<open>level\<close> down to level 1, or
  nothing when the path ends before.\<close>

fun path_tables :: "u64 \<Rightarrow> nat \<Rightarrow> u64 \<Rightarrow> machine \<Rightarrow> u64 list option" where
  "path_tables virtual_address 0 table m = Some [table]"
| "path_tables virtual_address (Suc k) table m =
     (let entry = mc_tables m table (table_index virtual_address (Suc (Suc k))) in
      if entry AND PAGE_PRESENT = 0 \<or> entry AND PAGE_HUGE \<noteq> 0 then None
      else map_option (\<lambda>below. table # below)
             (path_tables virtual_address k (unat (entry AND PAGE_FRAME_MASK)) m))"

text \<open>The climb of \<open>reclaim_empty_tables\<close>; \<open>path\<close> lists the tables above \<open>level\<close>, nearest first.\<close>

fun reclaim_climb :: "u64 \<Rightarrow> nat \<Rightarrow> u64 \<Rightarrow> u64 list \<Rightarrow> space \<Rightarrow> space" where
  "reclaim_climb virtual_address level table [] s = s"
| "reclaim_climb virtual_address level table (parent # uppers) s =
     (if \<not> table_is_empty table (snd s) then s
      else reclaim_climb virtual_address (Suc level) parent uppers
             (release_table table
               (fst s, set_entry (parent, table_index virtual_address (Suc level)) 0 (snd s))))"

definition reclaim_empty_tables :: "u64 \<Rightarrow> space \<Rightarrow> space" where
  "reclaim_empty_tables virtual_address s =
     (case path_tables virtual_address (PAGING_LEVEL_COUNT - 1) (ph_root (fst s)) (snd s) of
        None \<Rightarrow> s
      | Some path \<Rightarrow>
          (case rev path of
             [] \<Rightarrow> s
           | table # uppers \<Rightarrow> reclaim_climb virtual_address 1 table uppers s))"

section \<open>Ranges\<close>

text \<open>\<open>for (offset = 0; offset < length; offset += page_size)\<close>\<close>

definition range_offsets :: "u64 \<Rightarrow> u64 \<Rightarrow> u64 list" where
  "range_offsets bytes page_size = map (\<lambda>k. k * page_size) [0..<(bytes + page_size - 1) div page_size]"

definition clear_page :: "u64 \<Rightarrow> nat \<Rightarrow> u64 \<Rightarrow> space \<Rightarrow> space" where
  "clear_page virtual_address level offset s =
     (case entry_for (add64 virtual_address offset) level False s of
        (PAGING_STATUS_OK, Some entry, s) \<Rightarrow>
          (let s = invalidate (add64 virtual_address offset) (fst s, set_entry entry 0 (snd s)) in
           if level = 1 then reclaim_empty_tables (add64 virtual_address offset) s else s)
      | (_, _, s) \<Rightarrow> s)"

definition clear_range :: "u64 \<Rightarrow> u64 \<Rightarrow> nat \<Rightarrow> space \<Rightarrow> space" where
  "clear_range virtual_address bytes level s =
     fold (clear_page virtual_address level) (range_offsets bytes (level_page_size level)) s"

definition check_unmapped :: "u64 \<Rightarrow> nat \<Rightarrow> u64 \<Rightarrow> space \<Rightarrow> paging_status option" where
  "check_unmapped virtual_address level offset s =
     (case entry_for (add64 virtual_address offset) level False s of
        (status, entry, _) \<Rightarrow>
          if status = PAGING_STATUS_OK then
            if get_entry (the entry) (snd s) AND PAGE_PRESENT \<noteq> 0 then Some PAGING_STATUS_ALREADY_MAPPED else None
          else if status \<noteq> PAGING_STATUS_NOT_MAPPED then Some status else None)"

definition install_page ::
  "u64 \<Rightarrow> u64 \<Rightarrow> 32 word \<Rightarrow> nat \<Rightarrow> u64 \<Rightarrow> space \<Rightarrow> (paging_status \<times> space) + space" where
  "install_page virtual_address physical_address permissions level offset s =
     (case entry_for (add64 virtual_address offset) level True s of
        (status, entry, s) \<Rightarrow>
          if status \<noteq> PAGING_STATUS_OK then Inl (status, clear_range virtual_address offset level s)
          else Inr (invalidate (add64 virtual_address offset)
                 (fst s, set_entry (the entry)
                    (of_nat (add64 physical_address offset) OR permissions_to_flags permissions OR
                     (if level > 1 then PAGE_HUGE else 0)) (snd s))))"

definition map_range ::
  "u64 \<Rightarrow> u64 \<Rightarrow> u64 \<Rightarrow> 32 word \<Rightarrow> nat \<Rightarrow> space \<Rightarrow> paging_status \<times> space" where
  "map_range virtual_address physical_address bytes permissions level s =
     (let page_size = level_page_size level in
      if validate_permissions permissions \<noteq> PAGING_STATUS_OK then (validate_permissions permissions, s)
      else if validate_virtual_range virtual_address bytes page_size \<noteq> PAGING_STATUS_OK
        then (validate_virtual_range virtual_address bytes page_size, s)
      else if validate_physical_range physical_address bytes page_size \<noteq> PAGING_STATUS_OK
        then (validate_physical_range physical_address bytes page_size, s)
      else case first_some (\<lambda>offset. check_unmapped virtual_address level offset s)
                  (range_offsets bytes page_size) of
        Some status \<Rightarrow> (status, s)
      | None \<Rightarrow>
          (case fold_until (install_page virtual_address physical_address permissions level)
                  (range_offsets bytes page_size) s of
             Inl failure \<Rightarrow> failure
           | Inr s \<Rightarrow> (PAGING_STATUS_OK, s)))"

definition check_mapped :: "u64 \<Rightarrow> u64 \<Rightarrow> space \<Rightarrow> paging_status option" where
  "check_mapped virtual_address offset s =
     (case entry_for (add64 virtual_address offset) 1 False s of
        (status, entry, _) \<Rightarrow>
          if status \<noteq> PAGING_STATUS_OK then Some status
          else if get_entry (the entry) (snd s) AND PAGE_PRESENT = 0 then Some PAGING_STATUS_NOT_MAPPED
          else None)"

definition require_mapped_range :: "u64 \<Rightarrow> u64 \<Rightarrow> space \<Rightarrow> paging_status" where
  "require_mapped_range virtual_address bytes s =
     (case first_some (\<lambda>offset. check_mapped virtual_address offset s) (range_offsets bytes PAGING_PAGE_SIZE) of
        Some status \<Rightarrow> status | None \<Rightarrow> PAGING_STATUS_OK)"

definition unmap_range :: "u64 \<Rightarrow> u64 \<Rightarrow> space \<Rightarrow> paging_status \<times> space" where
  "unmap_range virtual_address bytes s =
     (if validate_virtual_range virtual_address bytes PAGING_PAGE_SIZE \<noteq> PAGING_STATUS_OK
        then (validate_virtual_range virtual_address bytes PAGING_PAGE_SIZE, s)
      else if require_mapped_range virtual_address bytes s \<noteq> PAGING_STATUS_OK
        then (require_mapped_range virtual_address bytes s, s)
      else (PAGING_STATUS_OK, clear_range virtual_address bytes 1 s))"

definition apply_page :: "u64 \<Rightarrow> 64 word \<Rightarrow> u64 \<Rightarrow> space \<Rightarrow> space" where
  "apply_page virtual_address flags offset s =
     (case entry_for (add64 virtual_address offset) 1 False s of
        (PAGING_STATUS_OK, Some entry, s) \<Rightarrow>
          invalidate (add64 virtual_address offset)
            (fst s, set_entry entry ((get_entry entry (snd s) AND PAGE_FRAME_MASK) OR flags) (snd s))
      | (_, _, s) \<Rightarrow> s)"

definition apply_permissions :: "u64 \<Rightarrow> u64 \<Rightarrow> 32 word \<Rightarrow> space \<Rightarrow> space" where
  "apply_permissions virtual_address bytes permissions s =
     fold (apply_page virtual_address (permissions_to_flags permissions)) (range_offsets bytes PAGING_PAGE_SIZE) s"

definition check_memory_type ::
  "u64 \<Rightarrow> paging_memory_type \<Rightarrow> 64 word \<Rightarrow> u64 \<Rightarrow> space \<Rightarrow> paging_status option" where
  "check_memory_type virtual_address requested_type pat offset s =
     (case entry_for (add64 virtual_address offset) 1 False s of
        (status, entry, _) \<Rightarrow>
          if status \<noteq> PAGING_STATUS_OK then Some status
          else if leaf_memory_type (get_entry (the entry) (snd s)) 1 pat \<noteq> requested_type
            then Some PAGING_STATUS_MEMORY_TYPE_CHANGE_UNSAFE
          else None)"

definition protect_range :: "u64 \<Rightarrow> u64 \<Rightarrow> 32 word \<Rightarrow> 64 word \<Rightarrow> space \<Rightarrow> paging_status \<times> space" where
  "protect_range virtual_address bytes permissions pat s =
     (if validate_permissions permissions \<noteq> PAGING_STATUS_OK then (validate_permissions permissions, s)
      else let requested_type = leaf_memory_type (permissions_to_flags permissions) 1 pat in
        if validate_virtual_range virtual_address bytes PAGING_PAGE_SIZE \<noteq> PAGING_STATUS_OK
          then (validate_virtual_range virtual_address bytes PAGING_PAGE_SIZE, s)
        else if require_mapped_range virtual_address bytes s \<noteq> PAGING_STATUS_OK
          then (require_mapped_range virtual_address bytes s, s)
        else case first_some (\<lambda>offset. check_memory_type virtual_address requested_type pat offset s)
                    (range_offsets bytes PAGING_PAGE_SIZE) of
          Some status \<Rightarrow> (status, s)
        | None \<Rightarrow> (PAGING_STATUS_OK, apply_permissions virtual_address bytes permissions s))"

section \<open>Translation\<close>

definition fill_translation ::
  "64 word \<Rightarrow> u64 \<Rightarrow> nat \<Rightarrow> bool \<Rightarrow> bool \<Rightarrow> bool \<Rightarrow> 64 word \<Rightarrow> paging_translation" where
  "fill_translation entry virtual_address level writable executable user pat =
     (let page_size = level_page_size level; memory_type = leaf_memory_type entry level pat in
      \<lparr>tr_physical_address =
         unat ((entry AND PAGE_FRAME_MASK AND NOT (of_nat (page_size - 1))) OR
               (of_nat virtual_address AND of_nat (page_size - 1))),
       tr_permissions =
         PAGING_READ OR (if writable then PAGING_WRITE else 0) OR (if executable then PAGING_EXECUTE else 0) OR
         memory_type_permissions memory_type,
       tr_memory_type = memory_type, tr_level = level, tr_user = user\<rparr>)"

definition blank_translation :: paging_translation where
  "blank_translation = \<lparr>tr_physical_address = 0, tr_permissions = PAGING_READ,
     tr_memory_type = PAGING_MEMORY_INVALID, tr_level = 0, tr_user = False\<rparr>"

text \<open>The walk of \<open>translate_address\<close>, at level \<open>k + 1\<close>.\<close>

fun translate_walk ::
  "u64 \<Rightarrow> 64 word \<Rightarrow> nat \<Rightarrow> u64 \<Rightarrow> bool \<Rightarrow> bool \<Rightarrow> bool \<Rightarrow> machine \<Rightarrow> paging_status \<times> paging_translation" where
  "translate_walk virtual_address pat 0 table writable executable user m =
     (let entry = mc_tables m table (table_index virtual_address 1) in
      if entry AND PAGE_PRESENT = 0 then (PAGING_STATUS_NOT_MAPPED, blank_translation)
      else (PAGING_STATUS_OK,
            fill_translation entry virtual_address 1 (writable \<and> entry AND PAGE_WRITABLE \<noteq> 0)
              (executable \<and> entry AND PAGE_NO_EXECUTE = 0) (user \<and> entry AND PAGE_USER \<noteq> 0) pat))"
| "translate_walk virtual_address pat (Suc k) table writable executable user m =
     (let entry = mc_tables m table (table_index virtual_address (Suc (Suc k)));
          writable = (writable \<and> entry AND PAGE_WRITABLE \<noteq> 0);
          executable = (executable \<and> entry AND PAGE_NO_EXECUTE = 0);
          user = (user \<and> entry AND PAGE_USER \<noteq> 0)
      in if entry AND PAGE_PRESENT = 0 then (PAGING_STATUS_NOT_MAPPED, blank_translation)
         else if entry AND PAGE_HUGE \<noteq> 0
           then (PAGING_STATUS_OK,
                 fill_translation entry virtual_address (Suc (Suc k)) writable executable user pat)
         else translate_walk virtual_address pat k (unat (entry AND PAGE_FRAME_MASK)) writable executable user m)"

definition translate_address :: "u64 \<Rightarrow> 64 word \<Rightarrow> space \<Rightarrow> paging_status \<times> paging_translation" where
  "translate_address virtual_address pat s =
     (if \<not> address_is_canonical virtual_address then (PAGING_STATUS_NONCANONICAL_ADDRESS, blank_translation)
      else translate_walk virtual_address pat (PAGING_LEVEL_COUNT - 1) (ph_root (fst s)) True True True (snd s))"

section \<open>Audit\<close>

record paging_audit =
  au_leaf_count :: nat
  au_huge_leaves :: nat
  au_writable_leaves :: nat
  au_executable_leaves :: nat
  au_write_execute_leaves :: nat
  au_user_leaves :: nat

definition audit_leaf :: "nat \<Rightarrow> bool \<Rightarrow> bool \<Rightarrow> bool \<Rightarrow> paging_audit \<Rightarrow> paging_audit" where
  "audit_leaf level writable executable user audit =
     (let bump = (\<lambda>b n. if b then add64 n 1 else n) in
      \<lparr>au_leaf_count = bump True (au_leaf_count audit),
       au_huge_leaves = bump (level > 1) (au_huge_leaves audit),
       au_writable_leaves = bump writable (au_writable_leaves audit),
       au_executable_leaves = bump executable (au_executable_leaves audit),
       au_write_execute_leaves = bump (writable \<and> executable) (au_write_execute_leaves audit),
       au_user_leaves = bump user (au_user_leaves audit)\<rparr>)"

text \<open>\<open>audit_table\<close> at level \<open>k + 1\<close>.\<close>

fun audit_table :: "machine \<Rightarrow> nat \<Rightarrow> u64 \<Rightarrow> bool \<Rightarrow> bool \<Rightarrow> bool \<Rightarrow> paging_audit \<Rightarrow> paging_audit" where
  "audit_table m 0 table writable executable user audit =
     fold (\<lambda>index audit.
        let entry = mc_tables m table index in
        if entry AND PAGE_PRESENT = 0 then audit
        else audit_leaf 1 (writable \<and> entry AND PAGE_WRITABLE \<noteq> 0) (executable \<and> entry AND PAGE_NO_EXECUTE = 0)
               (user \<and> entry AND PAGE_USER \<noteq> 0) audit) [0..<PAGING_ENTRIES_PER_TABLE] audit"
| "audit_table m (Suc k) table writable executable user audit =
     fold (\<lambda>index audit.
        let entry = mc_tables m table index;
            leaf_writable = (writable \<and> entry AND PAGE_WRITABLE \<noteq> 0);
            leaf_executable = (executable \<and> entry AND PAGE_NO_EXECUTE = 0);
            leaf_user = (user \<and> entry AND PAGE_USER \<noteq> 0)
        in if entry AND PAGE_PRESENT = 0 then audit
           else if entry AND PAGE_HUGE = 0
             then audit_table m k (unat (entry AND PAGE_FRAME_MASK)) leaf_writable leaf_executable leaf_user audit
           else audit_leaf (Suc (Suc k)) leaf_writable leaf_executable leaf_user audit)
       [0..<PAGING_ENTRIES_PER_TABLE] audit"

definition empty_audit :: paging_audit where
  "empty_audit = \<lparr>au_leaf_count = 0, au_huge_leaves = 0, au_writable_leaves = 0, au_executable_leaves = 0,
     au_write_execute_leaves = 0, au_user_leaves = 0\<rparr>"

definition audit_hierarchy :: "space \<Rightarrow> paging_audit" where
  "audit_hierarchy s =
     audit_table (snd s) (PAGING_LEVEL_COUNT - 1) (ph_root (fst s)) True True True empty_audit"

section \<open>Names\<close>

fun paging_status_string :: "paging_status \<Rightarrow> string" where
  "paging_status_string PAGING_STATUS_OK = ''ok''"
| "paging_status_string PAGING_STATUS_NULL_ARGUMENT = ''null paging argument''"
| "paging_status_string PAGING_STATUS_ALREADY_INITIALIZED = ''page tables were installed twice''"
| "paging_status_string PAGING_STATUS_NOT_INITIALIZED = ''kernel page tables are not installed''"
| "paging_status_string PAGING_STATUS_INTERRUPTS_ENABLED = ''installing page tables requires interrupts disabled''"
| "paging_status_string PAGING_STATUS_NO_EXECUTE_UNSUPPORTED = ''processor reports no no-execute bit''"
| "paging_status_string PAGING_STATUS_NO_EXECUTE_INACTIVE = ''the no-execute bit did not take effect in EFER''"
| "paging_status_string PAGING_STATUS_WRITE_PROTECT_INACTIVE = ''supervisor write protection did not take effect in CR0''"
| "paging_status_string PAGING_STATUS_FIVE_LEVEL_PAGING = ''processor is using a five-level page hierarchy''"
| "paging_status_string PAGING_STATUS_PHYSICAL_EXTENSION_DISABLED = ''physical address extension is disabled''"
| "paging_status_string PAGING_STATUS_PAT_UNSUPPORTED = ''processor reports no page attribute table''"
| "paging_status_string PAGING_STATUS_PAT_LAYOUT_UNSAFE = ''existing page attribute table layout is unsafe''"
| "paging_status_string PAGING_STATUS_PAT_READBACK_MISMATCH = ''page attribute table readback did not match''"
| "paging_status_string PAGING_STATUS_BAD_KERNEL_LAYOUT = ''linked kernel layout cannot be mapped per section''"
| "paging_status_string PAGING_STATUS_BAD_DEVICE_WINDOW_KIND = ''device window has an unknown kind''"
| "paging_status_string PAGING_STATUS_BAD_DEVICE_WINDOW_INSTANCE = ''device window has an invalid instance''"
| "paging_status_string PAGING_STATUS_UNSUPPORTED_DEVICE_WINDOW_MEMORY_TYPE = ''device window requests an unsupported memory type''"
| "paging_status_string PAGING_STATUS_BAD_DEVICE_WINDOW_PERMISSIONS = ''device window requests invalid permissions''"
| "paging_status_string PAGING_STATUS_ZERO_LENGTH_DEVICE_WINDOW = ''device window has zero length''"
| "paging_status_string PAGING_STATUS_UNALIGNED_DEVICE_WINDOW = ''device window address or length is unaligned''"
| "paging_status_string PAGING_STATUS_DEVICE_WINDOW_RANGE_OVERFLOW = ''device window range overflows''"
| "paging_status_string PAGING_STATUS_DEVICE_WINDOW_UNSUPPORTED_RANGE = ''device window is outside the supported physical range''"
| "paging_status_string PAGING_STATUS_TOO_MANY_DEVICE_WINDOWS = ''device window registry is full''"
| "paging_status_string PAGING_STATUS_CONFLICTING_DEVICE_WINDOW_OVERLAP = ''overlapping device windows request conflicting memory types''"
| "paging_status_string PAGING_STATUS_OVERLAPPING_DEVICE_WINDOWS = ''device windows overlap''"
| "paging_status_string PAGING_STATUS_DUPLICATE_DEVICE_WINDOW = ''device window is duplicated''"
| "paging_status_string PAGING_STATUS_REQUIRED_DEVICE_WINDOW_MISSING = ''required device window is missing''"
| "paging_status_string PAGING_STATUS_DEVICE_WINDOW_KERNEL_OVERLAP = ''device window overlaps the linked kernel''"
| "paging_status_string PAGING_STATUS_INSTALLED_DEVICE_WINDOW_MISMATCH = ''installed device window does not match the registry''"
| "paging_status_string PAGING_STATUS_ZERO_LENGTH = ''paging range is empty''"
| "paging_status_string PAGING_STATUS_UNALIGNED_ADDRESS = ''paging address or length is unaligned''"
| "paging_status_string PAGING_STATUS_NONCANONICAL_ADDRESS = ''virtual address is not canonical''"
| "paging_status_string PAGING_STATUS_RANGE_OVERFLOW = ''paging range overflows''"
| "paging_status_string PAGING_STATUS_PHYSICAL_TOO_WIDE = ''physical address is too wide for a page table entry''"
| "paging_status_string PAGING_STATUS_BAD_PERMISSIONS = ''paging permissions name an unknown right''"
| "paging_status_string PAGING_STATUS_CONFLICTING_MEMORY_TYPES = ''paging request combines incompatible memory types''"
| "paging_status_string PAGING_STATUS_MEMORY_TYPE_CHANGE_UNSAFE = ''changing a live page memory type is unsafe''"
| "paging_status_string PAGING_STATUS_WRITABLE_AND_EXECUTABLE = ''a page may not be writable and executable''"
| "paging_status_string PAGING_STATUS_ALREADY_MAPPED = ''virtual page is already mapped''"
| "paging_status_string PAGING_STATUS_NOT_MAPPED = ''virtual page is not mapped''"
| "paging_status_string PAGING_STATUS_HUGE_PAGE_PRESENT = ''a larger page already covers this address''"
| "paging_status_string PAGING_STATUS_OUT_OF_FRAMES = ''no physical frame is available for a page table''"
| "paging_status_string PAGING_STATUS_VALIDATION_FAILURE = ''installed page tables do not match their intent''"
| "paging_status_string PAGING_STATUS_PROCESS_BUSY = ''the bounded process address space is already owned''"
| "paging_status_string PAGING_STATUS_PROCESS_BAD_TOKEN = ''the process address-space token is stale or belongs to another object''"
| "paging_status_string PAGING_STATUS_PROCESS_BAD_STATE = ''the process address space is in the wrong lifecycle state''"
| "paging_status_string PAGING_STATUS_PROCESS_BAD_MAPPING = ''a process mapping is outside the fixed user layout or permissions''"
| "paging_status_string PAGING_STATUS_PROCESS_ALIAS_STATE = ''the executable identity-alias lease is invalid''"
| "paging_status_string PAGING_STATUS_SUPERVISOR_INTENT_FULL = ''the bounded supervisor mapping-intent registry is full''"

fun paging_memory_type_string :: "paging_memory_type \<Rightarrow> string" where
  "paging_memory_type_string PAGING_MEMORY_WRITE_BACK = ''write-back''"
| "paging_memory_type_string PAGING_MEMORY_WRITE_COMBINING = ''write-combining''"
| "paging_memory_type_string PAGING_MEMORY_UNCACHEABLE = ''uncacheable''"
| "paging_memory_type_string PAGING_MEMORY_WRITE_THROUGH = ''write-through''"
| "paging_memory_type_string PAGING_MEMORY_WRITE_PROTECTED = ''write-protected''"
| "paging_memory_type_string PAGING_MEMORY_UNCACHED_MINUS = ''uncached-minus''"
| "paging_memory_type_string PAGING_MEMORY_INVALID = ''invalid''"

end
