(* ===== verification/Region_Store.thy ===== *)
theory Region_Store
  imports Prelude
begin

text \<open>
  The interface of an allocator of address ranges: a call that hands out a range of at least
  the size asked for, apart from every range in use, and a call that takes a range back by its
  base.  The client lemmas follow one range through any sequence of further calls.
\<close>

datatype region_call = Take u64 | Give u64

definition apart :: "nat \<times> nat \<Rightarrow> nat \<times> nat \<Rightarrow> bool" where
  "apart r q \<longleftrightarrow> fst r + snd r \<le> fst q \<or> fst q + snd q \<le> fst r"

lemma apart_sym: "apart r q \<Longrightarrow> apart q r"
  by (auto simp: apart_def)

lemma apart_same_base: "apart r q \<Longrightarrow> fst r = fst q \<Longrightarrow> snd r = 0 \<or> snd q = 0"
  by (auto simp: apart_def)

locale region_store =
  fixes ok :: "'s \<Rightarrow> bool"
    and in_use :: "'s \<Rightarrow> (nat \<times> nat) set"
    and take_region :: "u64 \<Rightarrow> 's \<Rightarrow> u64 option \<times> 's"
    and give_region :: "u64 \<Rightarrow> 's \<Rightarrow> bool \<times> 's"
  assumes take_Some: "ok s \<Longrightarrow> take_region n s = (Some a, s') \<Longrightarrow>
      ok s' \<and> (\<exists>m \<ge> n. in_use s' = insert (a, m) (in_use s) \<and> (\<forall>r \<in> in_use s. apart (a, m) r))"
    and take_None: "ok s \<Longrightarrow> take_region n s = (None, s') \<Longrightarrow> ok s' \<and> in_use s' = in_use s"
    and give: "ok s \<Longrightarrow> give_region a s = (done, s') \<Longrightarrow>
      ok s' \<and> in_use s' = (if done then {r \<in> in_use s. fst r \<noteq> a} else in_use s)"
begin

fun serve :: "region_call \<Rightarrow> 's \<Rightarrow> 's" where
  "serve (Take n) s = snd (take_region n s)"
| "serve (Give a) s = snd (give_region a s)"

lemma serve_ok: "ok s \<Longrightarrow> ok (serve call s)"
  by (cases call) (metis serve.simps(1) take_Some take_None option.exhaust prod.collapse,
      metis serve.simps(2) give prod.collapse)

lemma serve_keeps:
  assumes "ok s" "r \<in> in_use s" "call \<noteq> Give (fst r)"
  shows "r \<in> in_use (serve call s)"
proof (cases call)
  case (Take n)
  obtain a s' where t: "take_region n s = (a, s')" by fastforce
  show ?thesis
  proof (cases a)
    case None
    with t assms take_None [of s n s'] show ?thesis by (simp add: Take)
  next
    case (Some b)
    with t assms take_Some [of s n b s'] show ?thesis by (auto simp: Take)
  qed
next
  case (Give a)
  obtain d s' where g: "give_region a s = (d, s')" by fastforce
  with assms give [of s a d s'] show ?thesis by (auto simp: Give)
qed

lemma calls_keep:
  assumes "ok s" "r \<in> in_use s" "Give (fst r) \<notin> set calls"
  shows "ok (fold serve calls s) \<and> r \<in> in_use (fold serve calls s)"
  using assms
proof (induction calls arbitrary: s)
  case (Cons call calls)
  from Cons.prems(3) have "call \<noteq> Give (fst r)" "Give (fst r) \<notin> set calls" by auto
  with Cons.IH [OF serve_ok serve_keeps] Cons.prems(1,2) show ?case by simp
qed simp

text \<open>A range handed out is in use, and apart from whatever is handed out later, until it is
  given back.\<close>

lemma taken_until_given:
  assumes "ok s" "take_region n s = (Some a, s1)"
  obtains m where "n \<le> m"
    "\<And>calls. Give a \<notin> set calls \<Longrightarrow> ok (fold serve calls s1) \<and> (a, m) \<in> in_use (fold serve calls s1)"
    "\<And>calls k b t. Give a \<notin> set calls \<Longrightarrow> take_region k (fold serve calls s1) = (Some b, t) \<Longrightarrow>
      \<exists>j \<ge> k. (b, j) \<in> in_use t \<and> apart (b, j) (a, m)"
proof -
  from take_Some [OF assms] obtain m where m: "n \<le> m" "ok s1" "(a, m) \<in> in_use s1" by blast
  have kept: "ok (fold serve calls s1) \<and> (a, m) \<in> in_use (fold serve calls s1)"
    if "Give a \<notin> set calls" for calls
    using calls_keep [OF m(2,3)] that by simp
  moreover have "\<exists>j \<ge> k. (b, j) \<in> in_use t \<and> apart (b, j) (a, m)"
    if "Give a \<notin> set calls" "take_region k (fold serve calls s1) = (Some b, t)" for calls k b t
    using kept [OF that(1)] take_Some [OF _ that(2)] by blast
  ultimately show thesis using m(1) that by blast
qed

end

end
