(* ===== verification/Kernel_Heap.thy ===== *)
theory Kernel_Heap
  imports Page_Tables Region_Store
begin

unbundle bit_operations_syntax

text \<open>
  The kernel heap, \<open>src/kernel/heap.c\<close>: a window of 16 MiB that is backed page by page
  with frames of the frame allocator and divided into blocks by a table.  The block table
  is the list of its first \<open>block_count\<close> entries, so inserting and removing an entry are
  list operations and the capacity is a test of the length.  The page tables are a
  parameter, a record of the four operations the heap calls on them; mapping and unmapping
  may themselves take and give back frames, so they are passed the frame allocator, which is
  the modelled one.
\<close>

section \<open>Data\<close>

definition HEAP_BASE :: u64 where "HEAP_BASE = 0x0000000400000000"
definition HEAP_SIZE :: u64 where "HEAP_SIZE = 16 * 1024 * 1024"
definition HEAP_GUARD_BELOW :: u64 where "HEAP_GUARD_BELOW = HEAP_BASE - 4096"
definition HEAP_GUARD_ABOVE :: u64 where "HEAP_GUARD_ABOVE = HEAP_BASE + HEAP_SIZE"
definition HEAP_ALIGNMENT :: u64 where "HEAP_ALIGNMENT = 16"
definition HEAP_MAX_BLOCKS :: nat where "HEAP_MAX_BLOCKS = 256"

lemmas heap_consts = HEAP_BASE_def HEAP_SIZE_def HEAP_GUARD_BELOW_def HEAP_GUARD_ABOVE_def
  HEAP_ALIGNMENT_def PAGING_PAGE_SIZE_def

datatype heap_status =
    HEAP_STATUS_OK
  | HEAP_STATUS_NULL_ARGUMENT
  | HEAP_STATUS_ALREADY_INITIALIZED
  | HEAP_STATUS_NOT_INITIALIZED
  | HEAP_STATUS_INTERRUPTS_ENABLED
  | HEAP_STATUS_PAGING_INACTIVE
  | HEAP_STATUS_GUARD_MAPPED
  | HEAP_STATUS_ZERO_SIZE
  | HEAP_STATUS_TOO_LARGE
  | HEAP_STATUS_OUT_OF_MEMORY
  | HEAP_STATUS_OUT_OF_BLOCKS
  | HEAP_STATUS_MAPPING_FAILURE
  | HEAP_STATUS_BAD_POINTER
  | HEAP_STATUS_DOUBLE_FREE
  | HEAP_STATUS_VALIDATION_FAILURE

record heap_block =
  hb_offset :: u64
  hb_size :: u64
  hb_used :: bool

record heap_state =
  hs_base_address :: u64
  hs_size :: u64
  hs_committed_bytes :: u64
  hs_allocated_bytes :: u64
  hs_block_count :: nat
  hs_live_allocations :: nat
  hs_mapped_pages :: nat
  hs_active :: bool

record 'p pager =
  pg_is_active :: "'p \<Rightarrow> bool"
  pg_translate :: "u64 \<Rightarrow> 'p \<Rightarrow> paging_status \<times> paging_translation"
  pg_map :: "u64 \<Rightarrow> u64 \<Rightarrow> 'p \<times> frame_allocator \<Rightarrow> bool \<times> 'p \<times> frame_allocator"
  pg_unmap :: "u64 \<Rightarrow> 'p \<times> frame_allocator \<Rightarrow> bool \<times> 'p \<times> frame_allocator"

record 'p heap =
  blocks :: "heap_block list"
  hstate :: heap_state
  heap_frames :: frame_allocator
  heap_pages :: 'p

section \<open>The block table\<close>

definition align_up :: "u64 \<Rightarrow> u64 \<Rightarrow> u64" where
  "align_up value alignment = sub64 (add64 value alignment) 1 AND not64 (alignment - 1)"

definition find_fit :: "heap_block list \<Rightarrow> u64 \<Rightarrow> nat option" where
  "find_fit table bytes =
     find_from (\<lambda>position. \<not> hb_used (table ! position) \<and> hb_size (table ! position) \<ge> bytes) 0 (length table)"

definition block_index_for_offset :: "heap_block list \<Rightarrow> u64 \<Rightarrow> nat option" where
  "block_index_for_offset table offset =
     find_from (\<lambda>position. hb_offset (table ! position) = offset) 0 (length table)"

definition remove_block :: "nat \<Rightarrow> heap_block list \<Rightarrow> heap_block list" where
  "remove_block index table = take index table @ drop (index + 1) table"

definition split_block :: "nat \<Rightarrow> u64 \<Rightarrow> heap_block list \<Rightarrow> heap_block list option" where
  "split_block index bytes table =
     (let block = table ! index; remainder = sub64 (hb_size block) bytes in
      if remainder \<ge> HEAP_ALIGNMENT then
        if length table = HEAP_MAX_BLOCKS then None
        else Some (take index table @
               [block\<lparr>hb_size := bytes, hb_used := True\<rparr>,
                \<lparr>hb_offset = add64 (hb_offset block) bytes, hb_size = remainder, hb_used = False\<rparr>] @
               drop (index + 1) table)
      else Some (table[index := block\<lparr>hb_used := True\<rparr>]))"

definition merge_free_neighbours :: "nat \<Rightarrow> heap_block list \<Rightarrow> heap_block list" where
  "merge_free_neighbours index table =
     (let table =
            (if index + 1 < length table \<and> \<not> hb_used (table ! (index + 1))
             then remove_block (index + 1)
                    (table[index := (table ! index)\<lparr>hb_size :=
                       add64 (hb_size (table ! index)) (hb_size (table ! (index + 1)))\<rparr>])
             else table)
      in if index > 0 \<and> \<not> hb_used (table ! (index - 1))
         then remove_block index
                (table[index - 1 := (table ! (index - 1))\<lparr>hb_size :=
                   add64 (hb_size (table ! (index - 1))) (hb_size (table ! index))\<rparr>])
         else table)"

text \<open>The loop of \<open>validate_table\<close>; the state is the expected offset.\<close>

definition validate_block :: "heap_block list \<Rightarrow> nat \<Rightarrow> u64 \<Rightarrow> unit + u64" where
  "validate_block table position expected_offset =
     (if hb_offset (table ! position) \<noteq> expected_offset \<or> hb_size (table ! position) = 0 \<or>
         hb_size (table ! position) mod HEAP_ALIGNMENT \<noteq> 0 then Inl ()
      else if position > 0 \<and> \<not> hb_used (table ! (position - 1)) \<and> \<not> hb_used (table ! position) then Inl ()
      else Inr (add64 expected_offset (hb_size (table ! position))))"

definition validate_table :: "heap_block list \<Rightarrow> u64 \<Rightarrow> bool" where
  "validate_table table committed =
     (if length table > HEAP_MAX_BLOCKS then False
      else if length table = 0 then committed = 0
      else case fold_until (validate_block table) [0..<length table] 0 of
        Inl _ \<Rightarrow> False
      | Inr expected_offset \<Rightarrow> expected_offset = committed)"

section \<open>Pages\<close>

definition page_offsets :: "u64 \<Rightarrow> u64 \<Rightarrow> u64 list" where
  "page_offsets from limit =
     map (\<lambda>k. from + k * PAGING_PAGE_SIZE) [0..<(limit - from + PAGING_PAGE_SIZE - 1) div PAGING_PAGE_SIZE]"

definition release_page :: "'p pager \<Rightarrow> u64 \<Rightarrow> 'p heap \<Rightarrow> 'p heap" where
  "release_page pager offset h =
     (let address = add64 HEAP_BASE offset in
      case pg_translate pager address (heap_pages h) of
        (status, translation) \<Rightarrow>
          if status \<noteq> PAGING_STATUS_OK then h
          else (case pg_unmap pager address (heap_pages h, heap_frames h) of
             (unmapped, pages, frames) \<Rightarrow>
               if \<not> unmapped then h\<lparr>heap_pages := pages, heap_frames := frames\<rparr>
               else h\<lparr>heap_pages := pages,
                      heap_frames := snd (frame_release (tr_physical_address translation) frames),
                      hstate := (hstate h)\<lparr>hs_mapped_pages := sub64 (hs_mapped_pages (hstate h)) 1\<rparr>\<rparr>))"

definition release_pages :: "'p pager \<Rightarrow> u64 \<Rightarrow> u64 \<Rightarrow> 'p heap \<Rightarrow> 'p heap" where
  "release_pages pager from limit h = fold (release_page pager) (page_offsets from limit) h"

definition commit_page ::
  "'p pager \<Rightarrow> u64 \<Rightarrow> u64 \<Rightarrow> 'p heap \<Rightarrow> (heap_status \<times> 'p heap) + 'p heap" where
  "commit_page pager from offset h =
     (case frame_allocate False (heap_frames h) of
        (status, frame, frames) \<Rightarrow>
          if status \<noteq> FRAME_STATUS_OK then
            Inl (HEAP_STATUS_OUT_OF_MEMORY, release_pages pager from offset (h\<lparr>heap_frames := frames\<rparr>))
          else case pg_map pager (add64 HEAP_BASE offset) (the frame) (heap_pages h, frames) of
            (mapped, pages, frames) \<Rightarrow>
              if \<not> mapped then
                Inl (HEAP_STATUS_MAPPING_FAILURE, release_pages pager from offset
                  (h\<lparr>heap_pages := pages, heap_frames := snd (frame_release (the frame) frames)\<rparr>))
              else Inr (h\<lparr>heap_pages := pages, heap_frames := frames,
                          hstate := (hstate h)\<lparr>hs_mapped_pages := add64 (hs_mapped_pages (hstate h)) 1\<rparr>\<rparr>))"

definition commit_pages :: "'p pager \<Rightarrow> u64 \<Rightarrow> u64 \<Rightarrow> 'p heap \<Rightarrow> heap_status \<times> 'p heap" where
  "commit_pages pager from limit h =
     (case fold_until (commit_page pager from) (page_offsets from limit) h of
        Inl failure \<Rightarrow> failure | Inr h \<Rightarrow> (HEAP_STATUS_OK, h))"

text \<open>The second component of the result is the value left in \<open>*index\<close>.\<close>

definition grow_for :: "'p pager \<Rightarrow> u64 \<Rightarrow> nat \<Rightarrow> 'p heap \<Rightarrow> heap_status \<times> nat \<times> 'p heap" where
  "grow_for pager bytes index h =
     (let extend_last = (length (blocks h) > 0 \<and> \<not> hb_used (blocks h ! (length (blocks h) - 1)));
          trailing = (if extend_last then hb_size (blocks h ! (length (blocks h) - 1)) else 0);
          growth = align_up (sub64 bytes trailing) PAGING_PAGE_SIZE;
          committed = hs_committed_bytes (hstate h)
      in if growth > sub64 HEAP_SIZE committed then (HEAP_STATUS_OUT_OF_MEMORY, index, h)
         else if \<not> extend_last \<and> length (blocks h) = HEAP_MAX_BLOCKS
           then (HEAP_STATUS_OUT_OF_BLOCKS, index, h)
         else case commit_pages pager committed (add64 committed growth) h of
           (status, h) \<Rightarrow>
             if status \<noteq> HEAP_STATUS_OK then (status, index, h)
             else let last_index = length (blocks h) - 1;
                      h = (if extend_last
                           then h\<lparr>blocks := (blocks h)[last_index := (blocks h ! last_index)
                                  \<lparr>hb_size := add64 (hb_size (blocks h ! last_index)) growth\<rparr>]\<rparr>
                           else h\<lparr>blocks := blocks h @ [\<lparr>hb_offset = committed, hb_size = growth,
                                                          hb_used = False\<rparr>]\<rparr>)
                  in (HEAP_STATUS_OK, length (blocks h) - 1,
                      h\<lparr>hstate := (hstate h)\<lparr>hs_committed_bytes := add64 committed growth\<rparr>\<rparr>))"

section \<open>Operations\<close>

definition used_bytes :: "heap_block list \<Rightarrow> u64" where
  "used_bytes table =
     fold (\<lambda>block bytes. if hb_used block then add64 bytes (hb_size block) else bytes) table 0"

definition refresh_state :: "'p heap \<Rightarrow> 'p heap" where
  "refresh_state h =
     h\<lparr>hstate := (hstate h)\<lparr>hs_block_count := length (blocks h), hs_allocated_bytes := used_bytes (blocks h),
                               hs_live_allocations := count_if hb_used (blocks h)\<rparr>\<rparr>"

definition heap_initialize :: "'p pager \<Rightarrow> bool \<Rightarrow> 'p heap \<Rightarrow> heap_status \<times> 'p heap" where
  "heap_initialize pager interrupts_enabled h =
     (if hs_active (hstate h) then (HEAP_STATUS_ALREADY_INITIALIZED, h)
      else if \<not> pg_is_active pager (heap_pages h) then (HEAP_STATUS_PAGING_INACTIVE, h)
      else if interrupts_enabled then (HEAP_STATUS_INTERRUPTS_ENABLED, h)
      else if fst (pg_translate pager HEAP_GUARD_BELOW (heap_pages h)) \<noteq> PAGING_STATUS_NOT_MAPPED \<or>
              fst (pg_translate pager HEAP_GUARD_ABOVE (heap_pages h)) \<noteq> PAGING_STATUS_NOT_MAPPED
        then (HEAP_STATUS_GUARD_MAPPED, h)
      else (HEAP_STATUS_OK,
            refresh_state (h\<lparr>blocks := [], hstate := (hstate h)\<lparr>hs_base_address := HEAP_BASE, hs_size := HEAP_SIZE,
              hs_committed_bytes := 0, hs_mapped_pages := 0, hs_active := True\<rparr>\<rparr>)))"

text \<open>The second component is what is left in \<open>*pointer\<close>, \<open>Some 0\<close> for a null pointer.\<close>

definition heap_allocate ::
  "'p pager \<Rightarrow> u64 \<Rightarrow> u64 option \<Rightarrow> 'p heap \<Rightarrow> heap_status \<times> u64 option \<times> 'p heap" where
  "heap_allocate pager bytes pointer h =
     (if pointer = None then (HEAP_STATUS_NULL_ARGUMENT, None, h)
      else if \<not> hs_active (hstate h) then (HEAP_STATUS_NOT_INITIALIZED, Some 0, h)
      else if bytes = 0 then (HEAP_STATUS_ZERO_SIZE, Some 0, h)
      else if bytes > HEAP_SIZE then (HEAP_STATUS_TOO_LARGE, Some 0, h)
      else let requested = align_up bytes HEAP_ALIGNMENT in
        if requested > HEAP_SIZE then (HEAP_STATUS_TOO_LARGE, Some 0, h)
        else case (case find_fit (blocks h) requested of
                     Some index \<Rightarrow> (HEAP_STATUS_OK, index, h)
                   | None \<Rightarrow> grow_for pager requested 0 h) of
          (status, index, h) \<Rightarrow>
            if status \<noteq> HEAP_STATUS_OK then (status, Some 0, h)
            else case split_block index requested (blocks h) of
              None \<Rightarrow> (HEAP_STATUS_OUT_OF_BLOCKS, Some 0, h)
            | Some table \<Rightarrow>
                (HEAP_STATUS_OK, Some (add64 HEAP_BASE (hb_offset (table ! index))),
                 refresh_state (h\<lparr>blocks := table\<rparr>)))"

definition heap_free :: "u64 \<Rightarrow> 'p heap \<Rightarrow> heap_status \<times> 'p heap" where
  "heap_free pointer h =
     (if \<not> hs_active (hstate h) then (HEAP_STATUS_NOT_INITIALIZED, h)
      else if pointer = 0 then (HEAP_STATUS_NULL_ARGUMENT, h)
      else if pointer < HEAP_BASE \<or> pointer \<ge> add64 HEAP_BASE (hs_committed_bytes (hstate h))
        then (HEAP_STATUS_BAD_POINTER, h)
      else case block_index_for_offset (blocks h) (sub64 pointer HEAP_BASE) of
        None \<Rightarrow> (HEAP_STATUS_BAD_POINTER, h)
      | Some index \<Rightarrow>
          if \<not> hb_used (blocks h ! index) then (HEAP_STATUS_DOUBLE_FREE, h)
          else (HEAP_STATUS_OK,
                refresh_state (h\<lparr>blocks := merge_free_neighbours index
                  ((blocks h)[index := (blocks h ! index)\<lparr>hb_used := False\<rparr>])\<rparr>)))"

definition heap_page_ok :: "'p pager \<Rightarrow> 'p \<Rightarrow> u64 \<Rightarrow> bool" where
  "heap_page_ok pager pages offset =
     (case pg_translate pager (add64 HEAP_BASE offset) pages of
        (status, translation) \<Rightarrow>
          status = PAGING_STATUS_OK \<and> tr_permissions translation = PAGING_WRITE \<and> tr_level translation = 1)"

definition heap_verify :: "'p pager \<Rightarrow> 'p heap \<Rightarrow> heap_status" where
  "heap_verify pager h =
     (let st = hstate h; committed = hs_committed_bytes st in
      if \<not> hs_active st then HEAP_STATUS_NOT_INITIALIZED
      else if committed > HEAP_SIZE \<or> committed mod PAGING_PAGE_SIZE \<noteq> 0 \<or>
              hs_mapped_pages st \<noteq> committed div PAGING_PAGE_SIZE
        then HEAP_STATUS_VALIDATION_FAILURE
      else if \<not> validate_table (blocks h) committed then HEAP_STATUS_VALIDATION_FAILURE
      else if fst (pg_translate pager HEAP_GUARD_BELOW (heap_pages h)) \<noteq> PAGING_STATUS_NOT_MAPPED \<or>
              fst (pg_translate pager HEAP_GUARD_ABOVE (heap_pages h)) \<noteq> PAGING_STATUS_NOT_MAPPED
        then HEAP_STATUS_GUARD_MAPPED
      else if \<not> list_all (heap_page_ok pager (heap_pages h)) (page_offsets 0 committed)
        then HEAP_STATUS_VALIDATION_FAILURE
      else if used_bytes (blocks h) \<noteq> hs_allocated_bytes st \<or>
              count_if hb_used (blocks h) \<noteq> hs_live_allocations st \<or>
              length (blocks h) \<noteq> hs_block_count st
        then HEAP_STATUS_VALIDATION_FAILURE
      else HEAP_STATUS_OK)"

fun heap_status_string :: "heap_status \<Rightarrow> string" where
  "heap_status_string HEAP_STATUS_OK = ''ok''"
| "heap_status_string HEAP_STATUS_NULL_ARGUMENT = ''null heap argument''"
| "heap_status_string HEAP_STATUS_ALREADY_INITIALIZED = ''kernel heap was initialized twice''"
| "heap_status_string HEAP_STATUS_NOT_INITIALIZED = ''kernel heap is not initialized''"
| "heap_status_string HEAP_STATUS_INTERRUPTS_ENABLED = ''heap initialization requires interrupts disabled''"
| "heap_status_string HEAP_STATUS_PAGING_INACTIVE = ''kernel heap requires the kernel page tables''"
| "heap_status_string HEAP_STATUS_GUARD_MAPPED = ''a kernel heap guard page is mapped''"
| "heap_status_string HEAP_STATUS_ZERO_SIZE = ''heap allocation size is zero''"
| "heap_status_string HEAP_STATUS_TOO_LARGE = ''heap allocation is larger than the heap window''"
| "heap_status_string HEAP_STATUS_OUT_OF_MEMORY = ''kernel heap cannot grow any further''"
| "heap_status_string HEAP_STATUS_OUT_OF_BLOCKS = ''kernel heap block table is full''"
| "heap_status_string HEAP_STATUS_MAPPING_FAILURE = ''kernel heap could not map a page''"
| "heap_status_string HEAP_STATUS_BAD_POINTER = ''pointer does not name a heap allocation''"
| "heap_status_string HEAP_STATUS_DOUBLE_FREE = ''heap allocation was released twice''"
| "heap_status_string HEAP_STATUS_VALIDATION_FAILURE = ''kernel heap state does not match its memory''"

section \<open>Rounding\<close>

lemma align_up_power:
  assumes "n \<le> 64" "value + 2 ^ n < 2 ^ 64"
  shows "align_up value (2 ^ n) = (value + 2 ^ n - 1) - (value + 2 ^ n - 1) mod 2 ^ n"
proof -
  have "sub64 (add64 value (2 ^ n)) 1 = value + 2 ^ n - 1"
  proof -
    have "1 \<le> value + 2 ^ n" by (simp add: trans_le_add2)
    then show ?thesis using assms(2) by (simp only: add64_id sub64_id)
  qed
  moreover have "(value + 2 ^ n - 1) AND not64 (2 ^ n - 1) = (value + 2 ^ n - 1) - (value + 2 ^ n - 1) mod 2 ^ n"
    using assms by (intro and_not64_mask) auto
  ultimately show ?thesis by (simp add: align_up_def)
qed

lemma round_up_bounds:
  fixes v k :: nat
  assumes "0 < k" "r = (v + k - 1) - (v + k - 1) mod k"
  shows "k dvd r" "v \<le> r" "r < v + k"
proof -
  have q: "r = (v + k - 1) div k * k"
    using assms(2) by (simp add: minus_mod_eq_div_mult)
  have m: "(v + k - 1) mod k < k" using assms(1) by simp
  show "k dvd r" using q by simp
  show "v \<le> r" "r < v + k" using assms m by auto
qed

lemma align_up_page:
  assumes "value < 2 ^ 63"
  shows "PAGING_PAGE_SIZE dvd align_up value PAGING_PAGE_SIZE" "value \<le> align_up value PAGING_PAGE_SIZE"
    "align_up value PAGING_PAGE_SIZE < value + PAGING_PAGE_SIZE"
proof -
  have p: "PAGING_PAGE_SIZE = 2 ^ 12" by (simp add: PAGING_PAGE_SIZE_def)
  have "align_up value PAGING_PAGE_SIZE =
      (value + PAGING_PAGE_SIZE - 1) - (value + PAGING_PAGE_SIZE - 1) mod PAGING_PAGE_SIZE"
    unfolding p using assms by (intro align_up_power) simp_all
  from round_up_bounds [OF _ this] show "PAGING_PAGE_SIZE dvd align_up value PAGING_PAGE_SIZE"
    "value \<le> align_up value PAGING_PAGE_SIZE" "align_up value PAGING_PAGE_SIZE < value + PAGING_PAGE_SIZE"
    by (simp_all add: PAGING_PAGE_SIZE_def)
qed

lemma align_up_unit:
  assumes "value < 2 ^ 63"
  shows "HEAP_ALIGNMENT dvd align_up value HEAP_ALIGNMENT" "value \<le> align_up value HEAP_ALIGNMENT"
    "align_up value HEAP_ALIGNMENT < value + HEAP_ALIGNMENT"
proof -
  have p: "HEAP_ALIGNMENT = 2 ^ 4" by (simp add: HEAP_ALIGNMENT_def)
  have "align_up value HEAP_ALIGNMENT =
      (value + HEAP_ALIGNMENT - 1) - (value + HEAP_ALIGNMENT - 1) mod HEAP_ALIGNMENT"
    unfolding p using assms by (intro align_up_power) simp_all
  from round_up_bounds [OF _ this] show "HEAP_ALIGNMENT dvd align_up value HEAP_ALIGNMENT"
    "value \<le> align_up value HEAP_ALIGNMENT" "align_up value HEAP_ALIGNMENT < value + HEAP_ALIGNMENT"
    by (simp_all add: HEAP_ALIGNMENT_def)
qed

section \<open>Tilings\<close>

text \<open>The blocks cover \<open>[a, c)\<close> in order, each non-empty and a whole number of units.\<close>

fun tiles :: "nat \<Rightarrow> heap_block list \<Rightarrow> nat \<Rightarrow> bool" where
  "tiles a [] c \<longleftrightarrow> a = c"
| "tiles a (b # bs) c \<longleftrightarrow>
     hb_offset b = a \<and> 0 < hb_size b \<and> HEAP_ALIGNMENT dvd hb_size b \<and> tiles (a + hb_size b) bs c"

lemma tiles_append: "tiles a (xs @ ys) c \<longleftrightarrow> (\<exists>m. tiles a xs m \<and> tiles m ys c)"
  by (induction xs arbitrary: a) auto

lemma tiles_unique: "tiles a xs p \<Longrightarrow> tiles a xs q \<Longrightarrow> p = q"
  by (induction xs arbitrary: a) auto

lemma tiles_le: "tiles a bs c \<Longrightarrow> a \<le> c"
  by (induction bs arbitrary: a) fastforce+

lemma tiles_mem: "tiles a bs c \<Longrightarrow> b \<in> set bs \<Longrightarrow> a \<le> hb_offset b \<and> hb_offset b + hb_size b \<le> c"
  by (induction bs arbitrary: a) (fastforce dest: tiles_le)+

lemma tiles_aligned:
  "tiles a bs c \<Longrightarrow> HEAP_ALIGNMENT dvd a \<Longrightarrow> b \<in> set bs \<Longrightarrow> HEAP_ALIGNMENT dvd hb_offset b"
  by (induction bs arbitrary: a) auto

lemma tiles_sides:
  assumes "tiles a (xs @ b # ys) c"
  shows "\<forall>x \<in> set xs. hb_offset x + hb_size x \<le> hb_offset b" "\<forall>y \<in> set ys. hb_offset b + hb_size b \<le> hb_offset y"
proof -
  from assms obtain m where m: "tiles a xs m" "tiles m (b # ys) c" by (auto simp: tiles_append)
  then have "hb_offset b = m" "tiles (m + hb_size b) ys c" by simp_all
  with m(1) show "\<forall>x \<in> set xs. hb_offset x + hb_size x \<le> hb_offset b"
    "\<forall>y \<in> set ys. hb_offset b + hb_size b \<le> hb_offset y"
    by (auto dest: tiles_mem)
qed

lemma tiles_size: "tiles a (xs @ b # ys) c \<Longrightarrow> 0 < hb_size b \<and> HEAP_ALIGNMENT dvd hb_size b"
  by (auto simp: tiles_append)

text \<open>No two free blocks side by side.\<close>

abbreviation coalesced :: "heap_block list \<Rightarrow> bool" where
  "coalesced bs \<equiv> successively (\<lambda>x y. hb_used x \<or> hb_used y) bs"

definition table_tiled :: "heap_block list \<Rightarrow> nat \<Rightarrow> bool" where
  "table_tiled bs committed \<longleftrightarrow> tiles 0 bs committed \<and> coalesced bs \<and> length bs \<le> HEAP_MAX_BLOCKS"

text \<open>The code's own validation accepts exactly these tables.\<close>

lemma validate_prefix:
  assumes "tiles 0 bs committed" "coalesced bs" "committed < 2 ^ 64"
  shows "k \<le> length bs \<Longrightarrow> \<exists>m. fold_until (validate_block bs) [0..<k] 0 = Inr m \<and> tiles 0 (take k bs) m"
proof (induction k)
  case (Suc k)
  then obtain m where m: "fold_until (validate_block bs) [0..<k] 0 = Inr m" "tiles 0 (take k bs) m" by auto
  have k: "k < length bs" using Suc.prems by simp
  have split: "bs = take k bs @ bs ! k # drop (Suc k) bs" using k by (rule id_take_nth_drop)
  from assms(1) have "tiles 0 (take k bs @ bs ! k # drop (Suc k) bs) committed" using split by simp
  then obtain m' where m': "tiles 0 (take k bs) m'" "tiles m' (bs ! k # drop (Suc k) bs) committed"
    by (auto simp: tiles_append)
  have mm: "m' = m" by (rule tiles_unique [OF m'(1) m(2)])
  have b: "hb_offset (bs ! k) = m" "0 < hb_size (bs ! k)" "HEAP_ALIGNMENT dvd hb_size (bs ! k)"
      "m + hb_size (bs ! k) \<le> committed"
    using m'(2) tiles_le mm by auto
  have adj: "hb_used (bs ! (k - 1)) \<or> hb_used (bs ! k)" if "0 < k"
    using assms(2) that k unfolding successively_conv_nth by (cases k) auto
  have "validate_block bs k m = Inr (m + hb_size (bs ! k))"
    using b adj assms(3) by (auto simp: validate_block_def add64_id)
  then show ?case using m b k
    by (simp only: fold_until_upt_Suc) (simp add: take_Suc_conv_app_nth tiles_append)
qed simp

lemma validate_table_tiled:
  assumes "table_tiled bs committed" "committed < 2 ^ 64"
  shows "validate_table bs committed"
proof -
  from assms have t: "tiles 0 bs committed" "coalesced bs" "length bs \<le> HEAP_MAX_BLOCKS"
    by (auto simp: table_tiled_def)
  from validate_prefix [OF t(1,2) assms(2) order_refl] obtain m where
    m: "fold_until (validate_block bs) [0..<length bs] 0 = Inr m" "tiles 0 bs m" by auto
  from tiles_unique [OF m(2) t(1)] m(1) t show ?thesis
    by (auto simp: validate_table_def)
qed

section \<open>Splitting and merging\<close>

definition live :: "heap_block list \<Rightarrow> (nat \<times> nat) set" where
  "live bs = (\<lambda>b. (hb_offset b, hb_size b)) ` {b \<in> set bs. hb_used b}"

lemma live_simps [simp]:
  "live [] = {}" "live (b # bs) = (if hb_used b then insert (hb_offset b, hb_size b) (live bs) else live bs)"
  "live (xs @ ys) = live xs \<union> live ys"
  by (auto simp: live_def)

lemma coalesced_append_Cons:
  "coalesced (xs @ b # ys) \<longleftrightarrow> coalesced xs \<and> coalesced ys \<and>
     (xs \<noteq> [] \<longrightarrow> hb_used (last xs) \<or> hb_used b) \<and> (ys \<noteq> [] \<longrightarrow> hb_used b \<or> hb_used (hd ys))"
  by (auto simp: successively_append_iff successively_Cons)

text \<open>The two shapes of a split: an exact fit, and a front part with a free remainder.\<close>

lemma split_block_cases:
  assumes tab: "table_tiled (xs @ b # ys) c" "c < 2 ^ 64"
    and n: "0 < n" "n \<le> hb_size b" "HEAP_ALIGNMENT dvd n"
  shows "split_block (length xs) n (xs @ b # ys) =
    (if n = hb_size b then Some (xs @ b\<lparr>hb_used := True\<rparr> # ys)
     else if length (xs @ b # ys) = HEAP_MAX_BLOCKS then None
     else Some (xs @ b\<lparr>hb_size := n, hb_used := True\<rparr> #
       \<lparr>hb_offset = hb_offset b + n, hb_size = hb_size b - n, hb_used = False\<rparr> # ys))"
proof -
  have t: "tiles 0 (xs @ b # ys) c" using tab(1) by (simp add: table_tiled_def)
  from tiles_mem [OF t, of b] have fits: "hb_offset b + hb_size b \<le> c" by simp
  with tab(2) n have r: "sub64 (hb_size b) n = hb_size b - n" "add64 (hb_offset b) n = hb_offset b + n"
    by (simp_all add: sub64_id add64_id)
  have "HEAP_ALIGNMENT dvd hb_size b - n" using tiles_size [OF t] n(3) by (simp add: dvd_diff_nat)
  then have "HEAP_ALIGNMENT \<le> hb_size b - n \<longleftrightarrow> n \<noteq> hb_size b"
    using n(2) by (auto dest: dvd_imp_le simp: HEAP_ALIGNMENT_def)
  then show ?thesis using r by (simp add: split_block_def Let_def)
qed

lemma split_block_tiled:
  assumes tab: "table_tiled (xs @ b # ys) c" "c < 2 ^ 64" and b: "\<not> hb_used b"
    and n: "0 < n" "n \<le> hb_size b" "HEAP_ALIGNMENT dvd n"
    and split: "split_block (length xs) n (xs @ b # ys) = Some bs'"
  shows "table_tiled bs' c \<and> live bs' = insert (hb_offset b, n) (live (xs @ b # ys)) \<and>
    hb_offset (bs' ! length xs) = hb_offset b"
proof -
  have t: "tiles 0 (xs @ b # ys) c" "coalesced (xs @ b # ys)" "length (xs @ b # ys) \<le> HEAP_MAX_BLOCKS"
    using tab(1) by (auto simp: table_tiled_def)
  obtain m where m: "tiles 0 xs m" "hb_offset b = m" "HEAP_ALIGNMENT dvd hb_size b" "tiles (m + hb_size b) ys c"
    using t(1) by (auto simp: tiles_append)
  have sizes: "HEAP_ALIGNMENT dvd hb_size b - n" using m(3) n(3) by (simp add: dvd_diff_nat)
  show ?thesis
  proof (cases "n = hb_size b")
    case True
    with split split_block_cases [OF tab n] have "bs' = xs @ b\<lparr>hb_used := True\<rparr> # ys" by simp
    with t m n b True show ?thesis
      by (auto simp: table_tiled_def tiles_append coalesced_append_Cons)
  next
    case False
    with split split_block_cases [OF tab n]
    have bs': "bs' = xs @ b\<lparr>hb_size := n, hb_used := True\<rparr> #
       \<lparr>hb_offset = hb_offset b + n, hb_size = hb_size b - n, hb_used = False\<rparr> # ys"
      and "length (xs @ b # ys) \<noteq> HEAP_MAX_BLOCKS"
      by (simp_all split: if_splits)
    with t m n b False sizes show ?thesis
      by (auto simp: table_tiled_def tiles_append coalesced_append_Cons successively_Cons)
  qed
qed

text \<open>The two merges of a free block with its neighbours.\<close>

definition merge_next :: "heap_block \<Rightarrow> heap_block list \<Rightarrow> heap_block list" where
  "merge_next f ys =
     (case ys of
        y # ys' \<Rightarrow> if hb_used y then f # ys else f\<lparr>hb_size := hb_size f + hb_size y\<rparr> # ys'
      | [] \<Rightarrow> [f])"

lemma remove_block_append: "remove_block (length xs) (xs @ b # ys) = xs @ ys"
  by (simp add: remove_block_def)

lemma merge_forward:
  assumes "tiles 0 (xs @ f # ys) c" "c < 2 ^ 64"
  shows "(if length xs + 1 < length (xs @ f # ys) \<and> \<not> hb_used ((xs @ f # ys) ! (length xs + 1))
     then remove_block (length xs + 1) ((xs @ f # ys)[length xs := ((xs @ f # ys) ! length xs)
       \<lparr>hb_size := add64 (hb_size ((xs @ f # ys) ! length xs)) (hb_size ((xs @ f # ys) ! (length xs + 1)))\<rparr>])
     else xs @ f # ys) = xs @ merge_next f ys"
proof (cases ys)
  case (Cons y ys')
  have "hb_size f + hb_size y \<le> c"
    using assms(1) tiles_le by (fastforce simp: Cons tiles_append)
  then have "add64 (hb_size f) (hb_size y) = hb_size f + hb_size y" using assms(2) by (simp add: add64_id)
  with remove_block_append [of "xs @ [f\<lparr>hb_size := hb_size f + hb_size y\<rparr>]" y ys'] show ?thesis
    by (simp add: Cons merge_next_def nth_append)
qed (simp add: merge_next_def)

lemma merge_next_tiles:
  assumes "tiles m (f # ys) c"
  shows "tiles m (merge_next f ys) c" "merge_next f ys \<noteq> []" "hb_offset (hd (merge_next f ys)) = hb_offset f"
    "hb_used (hd (merge_next f ys)) = hb_used f"
  using assms by (auto simp: merge_next_def add.assoc split: list.splits)

lemma merge_next_coalesced:
  assumes "coalesced ys" "\<not> hb_used f"
  shows "coalesced (merge_next f ys) \<and> live (merge_next f ys) = live ys \<and>
    length (merge_next f ys) \<le> Suc (length ys)"
  using assms by (auto simp: merge_next_def successively_Cons split: list.splits)

lemma merge_free_eq:
  assumes t: "tiles 0 (xs @ f # ys) c" "c < 2 ^ 64"
  shows "merge_free_neighbours (length xs) (xs @ f # ys) =
    (if xs \<noteq> [] \<and> \<not> hb_used (last xs)
     then butlast xs @ (last xs)\<lparr>hb_size := hb_size (last xs) + hb_size (hd (merge_next f ys))\<rparr> #
          tl (merge_next f ys)
     else xs @ merge_next f ys)"
proof -
  obtain m where m: "tiles 0 xs m" "tiles m (f # ys) c" using t(1) by (auto simp: tiles_append)
  note mn = merge_next_tiles [OF m(2)]
  obtain g zs where g: "merge_next f ys = g # zs" using mn(2) by (cases "merge_next f ys") auto
  have "merge_free_neighbours (length xs) (xs @ f # ys) =
    (if length xs > 0 \<and> \<not> hb_used ((xs @ g # zs) ! (length xs - 1))
     then remove_block (length xs) ((xs @ g # zs)[length xs - 1 := ((xs @ g # zs) ! (length xs - 1))
        \<lparr>hb_size := add64 (hb_size ((xs @ g # zs) ! (length xs - 1))) (hb_size ((xs @ g # zs) ! length xs))\<rparr>])
     else xs @ g # zs)"
    unfolding merge_free_neighbours_def merge_forward [OF t] g Let_def ..
  also have "\<dots> = (if xs \<noteq> [] \<and> \<not> hb_used (last xs)
     then butlast xs @ (last xs)\<lparr>hb_size := hb_size (last xs) + hb_size g\<rparr> # zs
     else xs @ g # zs)"
  proof (cases xs rule: rev_cases)
    case (snoc us x)
    have "hb_size x + hb_size g \<le> c"
      using m(1) mn(1) tiles_le [of "m + hb_size g" zs c] unfolding g snoc
      by (auto simp: tiles_append)
    then have "add64 (hb_size x) (hb_size g) = hb_size x + hb_size g" using t(2) by (simp add: add64_id)
    with remove_block_append [of "us @ [x\<lparr>hb_size := hb_size x + hb_size g\<rparr>]" g zs] show ?thesis
      by (simp add: snoc nth_append)
  qed simp
  finally show ?thesis by (simp add: g)
qed

lemma merge_free_tiled:
  assumes tab: "table_tiled (xs @ b # ys) c" "c < 2 ^ 64" and b: "hb_used b"
  shows "table_tiled (merge_free_neighbours (length xs) (xs @ b\<lparr>hb_used := False\<rparr> # ys)) c \<and>
    live (merge_free_neighbours (length xs) (xs @ b\<lparr>hb_used := False\<rparr> # ys)) = live xs \<union> live ys"
proof -
  let ?f = "b\<lparr>hb_used := False\<rparr>"
  have t: "tiles 0 (xs @ ?f # ys) c" "coalesced xs" "coalesced ys" "length (xs @ b # ys) \<le> HEAP_MAX_BLOCKS"
    using tab(1) by (auto simp: table_tiled_def tiles_append coalesced_append_Cons)
  obtain m where m: "tiles 0 xs m" "tiles m (?f # ys) c" using t(1) by (auto simp: tiles_append)
  note mn = merge_next_tiles [OF m(2)]
  have mc: "coalesced (merge_next ?f ys)" "live (merge_next ?f ys) = live ys"
      "length (merge_next ?f ys) \<le> Suc (length ys)"
    using merge_next_coalesced [OF t(3), of ?f] by auto
  obtain g zs where g: "merge_next ?f ys = g # zs" using mn(2) by (cases "merge_next ?f ys") auto
  have gf: "\<not> hb_used g" using mn(4) by (simp add: g)
  have gz: "tiles m (g # zs) c" "coalesced (g # zs)" "live zs = live ys" "length zs \<le> length ys"
    using mn(1) mc gf by (simp_all add: g)
  show ?thesis
  proof (cases "xs \<noteq> [] \<and> \<not> hb_used (last xs)")
    case True
    then obtain us x where xs: "xs = us @ [x]" "\<not> hb_used x" by (metis append_butlast_last_id)
    have "merge_free_neighbours (length xs) (xs @ ?f # ys) = us @ x\<lparr>hb_size := hb_size x + hb_size g\<rparr> # zs"
      using merge_free_eq [OF t(1) tab(2)] True by (simp add: xs g)
    moreover have "coalesced (us @ x\<lparr>hb_size := hb_size x + hb_size g\<rparr> # zs)"
      using t(2) gz(2) gf xs unfolding xs(1) coalesced_append_Cons by (auto simp: successively_Cons)
    ultimately show ?thesis
      using m(1) gz t(4) xs by (auto simp: table_tiled_def tiles_append simp flip: add.assoc)
  next
    case False
    then have "merge_free_neighbours (length xs) (xs @ ?f # ys) = xs @ g # zs"
      using merge_free_eq [OF t(1) tab(2)] by (auto simp: g)
    moreover have "coalesced (xs @ g # zs)"
      using t(2) gz(2) False by (auto simp: coalesced_append_Cons successively_Cons)
    ultimately show ?thesis
      using m(1) gz t(4) gf by (auto simp: table_tiled_def tiles_append)
  qed
qed

section \<open>The heap invariant\<close>

definition heap_ok :: "'p heap \<Rightarrow> bool" where
  "heap_ok h \<longleftrightarrow> hs_active (hstate h) \<and> table_tiled (blocks h) (hs_committed_bytes (hstate h)) \<and>
     hs_committed_bytes (hstate h) \<le> HEAP_SIZE \<and> PAGING_PAGE_SIZE dvd hs_committed_bytes (hstate h)"

text \<open>The statistics say what the table says.\<close>

definition state_fresh :: "'p heap \<Rightarrow> bool" where
  "state_fresh h \<longleftrightarrow> hs_block_count (hstate h) = length (blocks h) \<and>
     hs_allocated_bytes (hstate h) = used_bytes (blocks h) \<and>
     hs_live_allocations (hstate h) = count_if hb_used (blocks h)"

lemma refresh_state_sel [simp]:
  "blocks (refresh_state h) = blocks h" "hs_committed_bytes (hstate (refresh_state h)) = hs_committed_bytes (hstate h)"
  "hs_active (hstate (refresh_state h)) = hs_active (hstate h)"
  "hs_mapped_pages (hstate (refresh_state h)) = hs_mapped_pages (hstate h)"
  "heap_pages (refresh_state h) = heap_pages h" "heap_frames (refresh_state h) = heap_frames h"
  "state_fresh (refresh_state h)"
  by (simp_all add: refresh_state_def state_fresh_def)

lemma heap_ok_refresh [simp]: "heap_ok (refresh_state h) = heap_ok h"
  by (simp add: heap_ok_def)

lemma committed_bound: "heap_ok h \<Longrightarrow> hs_committed_bytes (hstate h) < 2 ^ 64"
  by (simp add: heap_ok_def HEAP_SIZE_def)

text \<open>Backing and releasing pages leaves the table alone.\<close>

definition same_table :: "'p heap \<Rightarrow> 'p heap \<Rightarrow> bool" where
  "same_table h h' \<longleftrightarrow> blocks h' = blocks h \<and>
     hs_committed_bytes (hstate h') = hs_committed_bytes (hstate h) \<and>
     hs_active (hstate h') = hs_active (hstate h) \<and>
     hs_block_count (hstate h') = hs_block_count (hstate h) \<and>
     hs_allocated_bytes (hstate h') = hs_allocated_bytes (hstate h) \<and>
     hs_live_allocations (hstate h') = hs_live_allocations (hstate h)"

lemma same_table_refl [simp]: "same_table h h"
  by (simp add: same_table_def)

lemma same_table_trans: "same_table a b \<Longrightarrow> same_table b c \<Longrightarrow> same_table a c"
  by (simp add: same_table_def)

lemma release_page_same: "same_table h (release_page pager offset h)"
  by (auto simp: release_page_def Let_def same_table_def split: prod.splits)

lemma release_pages_same: "same_table h (release_pages pager from limit h)"
proof -
  have "same_table h (fold (release_page pager) xs h)" for xs
    by (induction xs arbitrary: h) (auto intro: same_table_trans release_page_same)
  then show ?thesis by (simp add: release_pages_def)
qed

lemma commit_page_same:
  "commit_page pager from offset h = Inr h' \<Longrightarrow> same_table h h'"
  "commit_page pager from offset h = Inl e \<Longrightarrow> fst e \<noteq> HEAP_STATUS_OK \<and> same_table h (snd e)"
proof -
  have "same_table h (release_pages pager from offset (h\<lparr>heap_frames := frames\<rparr>))"
    "same_table h (release_pages pager from offset (h\<lparr>heap_pages := pages, heap_frames := frames\<rparr>))"
    for frames pages
    by (rule same_table_trans [OF _ release_pages_same], simp add: same_table_def)+
  then show "commit_page pager from offset h = Inr h' \<Longrightarrow> same_table h h'"
    "commit_page pager from offset h = Inl e \<Longrightarrow> fst e \<noteq> HEAP_STATUS_OK \<and> same_table h (snd e)"
    by (auto simp: commit_page_def same_table_def split: prod.splits if_splits)
qed

lemma commit_pages_same:
  assumes "commit_pages pager from limit h = (status, h')"
  shows "same_table h h'"
proof (cases "fold_until (commit_page pager from) (page_offsets from limit) h")
  case (Inl e)
  from Inl have "same_table h (snd e)"
    by (rule fold_until_stopped [where I = "same_table h"])
      (auto intro: same_table_trans commit_page_same(1) dest: commit_page_same(2))
  with Inl assms show ?thesis by (simp add: commit_pages_def)
next
  case (Inr h1)
  from Inr have "same_table h h1"
    by (rule fold_until_invariant [where I = "same_table h"])
      (auto intro: same_table_trans commit_page_same(1))
  with Inr assms show ?thesis by (simp add: commit_pages_def)
qed

lemma same_table_ok: "same_table h h' \<Longrightarrow> heap_ok h' = heap_ok h"
  by (simp add: same_table_def heap_ok_def)

section \<open>Growing\<close>

lemma find_fit_None:
  "find_fit bs n = None \<longleftrightarrow> (\<forall>b \<in> set bs. \<not> hb_used b \<longrightarrow> hb_size b < n)"
proof -
  have "find_fit bs n = None \<longleftrightarrow> (\<forall>i < length bs. \<not> hb_used (bs ! i) \<longrightarrow> hb_size (bs ! i) < n)"
    by (auto simp: find_fit_def find_from_None_iff not_le)
  then show ?thesis by (simp add: all_set_conv_all_nth)
qed

lemma page_unit_dvd: "PAGING_PAGE_SIZE dvd n \<Longrightarrow> HEAP_ALIGNMENT dvd n"
  using dvd_trans [of HEAP_ALIGNMENT PAGING_PAGE_SIZE n] by (simp add: HEAP_ALIGNMENT_def PAGING_PAGE_SIZE_def)

lemma table_extend_last:
  assumes "table_tiled (us @ [x]) c" "HEAP_ALIGNMENT dvd g"
  shows "table_tiled (us @ [x\<lparr>hb_size := hb_size x + g\<rparr>]) (c + g)"
  using assms by (auto simp: table_tiled_def tiles_append coalesced_append_Cons)

lemma table_append_free:
  assumes "table_tiled bs c" "HEAP_ALIGNMENT dvd g" "0 < g" "bs \<noteq> [] \<longrightarrow> hb_used (last bs)"
    "length bs < HEAP_MAX_BLOCKS"
  shows "table_tiled (bs @ [\<lparr>hb_offset = c, hb_size = g, hb_used = False\<rparr>]) (c + g)"
  using assms by (auto simp: table_tiled_def tiles_append coalesced_append_Cons)

lemma grow_for_ok:
  assumes ok: "heap_ok h" and none: "find_fit (blocks h) n = None" and n: "0 < n" "n \<le> HEAP_SIZE"
    and g: "grow_for pager n i h = (HEAP_STATUS_OK, j, h')"
  obtains xs b where "heap_ok h'" "blocks h' = xs @ [b]" "j = length xs" "\<not> hb_used b" "n \<le> hb_size b"
    "live (blocks h') = live (blocks h)"
    "hs_committed_bytes (hstate h) \<le> hs_committed_bytes (hstate h')"
    "hs_block_count (hstate h') = hs_block_count (hstate h)"
proof -
  let ?c = "hs_committed_bytes (hstate h)"
  let ?ext = "length (blocks h) > 0 \<and> \<not> hb_used (blocks h ! (length (blocks h) - 1))"
  let ?trail = "if ?ext then hb_size (blocks h ! (length (blocks h) - 1)) else 0"
  let ?g = "align_up (sub64 n ?trail) PAGING_PAGE_SIZE"
  have tab: "table_tiled (blocks h) ?c" and c: "?c \<le> HEAP_SIZE" "PAGING_PAGE_SIZE dvd ?c"
    using ok by (auto simp: heap_ok_def)
  have trail: "?trail < n"
    using none n(1) by (auto simp: find_fit_None)
  have sub: "sub64 n ?trail = n - ?trail"
    using trail n(2) by (intro sub64_id) (auto simp: HEAP_SIZE_def)
  have room: "sub64 HEAP_SIZE ?c = HEAP_SIZE - ?c" using c by (simp add: sub64_id HEAP_SIZE_def)
  have small: "n - ?trail < 2 ^ 63" using n(2) by (simp add: HEAP_SIZE_def)
  note al = align_up_page [OF small, folded sub]
  have gn: "n - ?trail \<le> ?g" using al(2) unfolding sub .
  have g0: "0 < ?g" using gn trail by linarith
  note gpos = g0 gn
  have gle: "?g \<le> HEAP_SIZE - ?c" and full: "?ext \<or> length (blocks h) \<noteq> HEAP_MAX_BLOCKS"
    using g room by (auto simp: grow_for_def Let_def split: if_splits)
  then have sum: "add64 ?c ?g = ?c + ?g" "?c + ?g \<le> HEAP_SIZE"
    using c by (auto simp: add64_id HEAP_SIZE_def)
  obtain st h1 where cm: "commit_pages pager ?c (add64 ?c ?g) h = (st, h1)" by fastforce
  have st: "st = HEAP_STATUS_OK" using g cm by (auto simp: grow_for_def Let_def split: if_splits)
  have same: "same_table h h1" by (rule commit_pages_same [OF cm])
  then have b1: "blocks h1 = blocks h" "hs_active (hstate h1)" "hs_block_count (hstate h1) = hs_block_count (hstate h)"
    using ok by (auto simp: same_table_def heap_ok_def)
  have ug: "HEAP_ALIGNMENT dvd ?g" using al(1) by (rule page_unit_dvd)
  have pg: "PAGING_PAGE_SIZE dvd ?c + ?g" using c(2) al(1) by simp
  show thesis
  proof (cases ?ext)
    case True
    then obtain us x where bs: "blocks h = us @ [x]" by (cases "blocks h" rule: rev_cases) auto
    with True have x: "\<not> hb_used x" "?trail = hb_size x" by auto
    have sz: "add64 (hb_size x) ?g = hb_size x + ?g"
    proof (rule add64_id)
      have "hb_size x \<le> ?c" using tab tiles_mem [of 0 "blocks h" ?c x] by (simp add: table_tiled_def bs)
      then show "hb_size x + ?g < 2 ^ 64" using sum(2) by (simp add: HEAP_SIZE_def)
    qed
    have h': "h' = h1\<lparr>blocks := us @ [x\<lparr>hb_size := hb_size x + ?g\<rparr>],
        hstate := (hstate h1)\<lparr>hs_committed_bytes := ?c + ?g\<rparr>\<rparr>" "j = length us"
      using g cm st True gle room full b1(1) sz sum(1) bs
      by (auto simp: grow_for_def Let_def nth_append split: if_splits)
    show thesis
    proof (rule that [of us "x\<lparr>hb_size := hb_size x + ?g\<rparr>"])
      show "heap_ok h'"
        using table_extend_last [OF tab [unfolded bs] ug] sum(2) pg b1(2) by (simp add: heap_ok_def h'(1))
    qed (use h' x gpos bs b1 in auto)
  next
    case False
    then have used: "blocks h \<noteq> [] \<longrightarrow> hb_used (last (blocks h))" by (auto simp: last_conv_nth)
    have lt: "length (blocks h) < HEAP_MAX_BLOCKS" using full False tab by (auto simp: table_tiled_def)
    have h': "h' = h1\<lparr>blocks := blocks h @ [\<lparr>hb_offset = ?c, hb_size = ?g, hb_used = False\<rparr>],
        hstate := (hstate h1)\<lparr>hs_committed_bytes := ?c + ?g\<rparr>\<rparr>" "j = length (blocks h)"
      using g cm st False gle room full b1(1) sum(1)
      by (auto simp: grow_for_def Let_def split: if_splits)
    show thesis
    proof (rule that [of "blocks h" "\<lparr>hb_offset = ?c, hb_size = ?g, hb_used = False\<rparr>"])
      show "heap_ok h'"
        using table_append_free [OF tab ug gpos(1) used lt] sum(2) pg b1(2) by (simp add: heap_ok_def h'(1))
    qed (use h' False gpos b1 in auto)
  qed
qed

section \<open>Allocation\<close>

lemma find_fit_Some:
  assumes "find_fit bs n = Some i"
  obtains xs b ys where "bs = xs @ b # ys" "i = length xs" "\<not> hb_used b" "n \<le> hb_size b"
proof -
  from assms have i: "i < length bs" "\<not> hb_used (bs ! i)" "n \<le> hb_size (bs ! i)"
    unfolding find_fit_def by (auto dest: find_from_SomeD)
  show thesis
    by (rule that [of "take i bs" "bs ! i" "drop (Suc i) bs"])
      (use i in \<open>auto simp: id_take_nth_drop [symmetric]\<close>)
qed

text \<open>A free block large enough for the request, found in the table or made by growing it.\<close>

definition ready_for :: "u64 \<Rightarrow> 'p heap \<Rightarrow> nat \<Rightarrow> 'p heap \<Rightarrow> bool" where
  "ready_for n h i h1 \<longleftrightarrow> heap_ok h1 \<and> live (blocks h1) = live (blocks h) \<and>
     hs_committed_bytes (hstate h) \<le> hs_committed_bytes (hstate h1) \<and>
     (\<exists>xs b ys. blocks h1 = xs @ b # ys \<and> i = length xs \<and> \<not> hb_used b \<and> n \<le> hb_size b)"

lemma place_ready:
  assumes ok: "heap_ok h" and n: "0 < n" "n \<le> HEAP_SIZE"
    and place: "(case find_fit (blocks h) n of Some i \<Rightarrow> (HEAP_STATUS_OK, i, h) | None \<Rightarrow> grow_for pager n 0 h) =
      (HEAP_STATUS_OK, i, h1)"
  shows "ready_for n h i h1"
proof (cases "find_fit (blocks h) n")
  case None
  with place have "grow_for pager n 0 h = (HEAP_STATUS_OK, i, h1)" by simp
  from grow_for_ok [OF ok None n this] obtain xs b where
    "heap_ok h1" "blocks h1 = xs @ [b]" "i = length xs" "\<not> hb_used b" "n \<le> hb_size b"
    "live (blocks h1) = live (blocks h)" "hs_committed_bytes (hstate h) \<le> hs_committed_bytes (hstate h1)" .
  then show ?thesis unfolding ready_for_def by blast
next
  case (Some j)
  with place have "j = i" "h1 = h" by auto
  moreover obtain xs b ys where "blocks h = xs @ b # ys" "j = length xs" "\<not> hb_used b" "n \<le> hb_size b"
    by (rule find_fit_Some [OF Some])
  ultimately show ?thesis using ok unfolding ready_for_def by blast
qed

lemma allocate_OK_cases:
  assumes alloc: "heap_allocate pager bytes pointer h = (HEAP_STATUS_OK, out, h')" and ok: "heap_ok h"
  obtains i h1 xs b ys table n where
    "n = align_up bytes HEAP_ALIGNMENT" "0 < bytes" "bytes \<le> n" "n < bytes + HEAP_ALIGNMENT" "HEAP_ALIGNMENT dvd n"
    "ready_for n h i h1" "blocks h1 = xs @ b # ys" "i = length xs" "\<not> hb_used b" "n \<le> hb_size b"
    "split_block i n (blocks h1) = Some table"
    "out = Some (add64 HEAP_BASE (hb_offset (table ! i)))" "h' = refresh_state (h1\<lparr>blocks := table\<rparr>)"
    "(case find_fit (blocks h) n of Some i \<Rightarrow> (HEAP_STATUS_OK, i, h) | None \<Rightarrow> grow_for pager n 0 h) =
      (HEAP_STATUS_OK, i, h1)"
proof -
  let ?n = "align_up bytes HEAP_ALIGNMENT"
  let ?place = "case find_fit (blocks h) ?n of Some i \<Rightarrow> (HEAP_STATUS_OK, i, h) | None \<Rightarrow> grow_for pager ?n 0 h"
  have guards: "0 < bytes" "bytes \<le> HEAP_SIZE" "?n \<le> HEAP_SIZE" "pointer \<noteq> None" "hs_active (hstate h)"
    using alloc by (auto simp: heap_allocate_def Let_def split: if_splits)
  obtain st i h1 where place: "?place = (st, i, h1)" by (cases ?place) auto
  have body: "(if st \<noteq> HEAP_STATUS_OK then (st, Some 0, h1)
      else case split_block i ?n (blocks h1) of
        None \<Rightarrow> (HEAP_STATUS_OUT_OF_BLOCKS, Some 0, h1)
      | Some table \<Rightarrow> (HEAP_STATUS_OK, Some (add64 HEAP_BASE (hb_offset (table ! i))),
          refresh_state (h1\<lparr>blocks := table\<rparr>))) = (HEAP_STATUS_OK, out, h')"
    using alloc guards place unfolding heap_allocate_def Let_def by simp
  then have st: "st = HEAP_STATUS_OK" by (auto split: if_splits)
  from body st obtain table where table: "split_block i ?n (blocks h1) = Some table"
      "out = Some (add64 HEAP_BASE (hb_offset (table ! i)))" "h' = refresh_state (h1\<lparr>blocks := table\<rparr>)"
    by (auto split: option.splits)
  have small: "bytes < 2 ^ 63" using guards(2) by (simp add: HEAP_SIZE_def)
  note al = align_up_unit [OF small]
  have "0 < ?n" using al(2) guards(1) by simp
  from place_ready [OF ok this guards(3)] place st have r: "ready_for ?n h i h1" by simp
  then obtain xs b ys where "blocks h1 = xs @ b # ys" "i = length xs" "\<not> hb_used b" "?n \<le> hb_size b"
    unfolding ready_for_def by blast
  from that [OF refl guards(1) al(2,3,1) r this table place [unfolded st]] show thesis .
qed

lemma allocate_ok:
  assumes alloc: "heap_allocate pager bytes pointer h = (HEAP_STATUS_OK, out, h')" and ok: "heap_ok h"
  shows "\<exists>offset n. out = Some (HEAP_BASE + offset) \<and> heap_ok h' \<and> state_fresh h' \<and>
    bytes \<le> n \<and> n < bytes + HEAP_ALIGNMENT \<and> HEAP_ALIGNMENT dvd offset \<and>
    offset + n \<le> hs_committed_bytes (hstate h') \<and>
    live (blocks h') = insert (offset, n) (live (blocks h)) \<and>
    (\<forall>(o', n') \<in> live (blocks h). o' + n' \<le> offset \<or> offset + n \<le> o')"
proof -
  from allocate_OK_cases [OF alloc ok] obtain i h1 xs b ys table n where
    n: "0 < bytes" "bytes \<le> n" "n < bytes + HEAP_ALIGNMENT" "HEAP_ALIGNMENT dvd n"
    and r: "ready_for n h i h1" and b: "blocks h1 = xs @ b # ys" "i = length xs" "\<not> hb_used b" "n \<le> hb_size b"
    and table: "split_block i n (blocks h1) = Some table"
      "out = Some (add64 HEAP_BASE (hb_offset (table ! i)))" "h' = refresh_state (h1\<lparr>blocks := table\<rparr>)" .
  let ?c = "hs_committed_bytes (hstate h1)"
  have h1: "heap_ok h1" "live (blocks h1) = live (blocks h)" using r by (auto simp: ready_for_def)
  have tab: "table_tiled (xs @ b # ys) ?c" using h1(1) b(1) by (simp add: heap_ok_def)
  have c: "?c < 2 ^ 64" using h1(1) by (rule committed_bound)
  have t: "tiles 0 (xs @ b # ys) ?c" using tab by (simp add: table_tiled_def)
  from split_block_tiled [OF tab c b(3) _ b(4) n(4)] n(1,2) table(1) b(1,2)
  have s: "table_tiled table ?c" "live table = insert (hb_offset b, n) (live (blocks h))"
      "hb_offset (table ! i) = hb_offset b"
    using h1(2) by auto
  have fits: "hb_offset b + hb_size b \<le> ?c" using tiles_mem [OF t, of b] by simp
  have ok': "heap_ok h'" using h1(1) s(1) by (simp add: heap_ok_def table(3))
  have al: "HEAP_ALIGNMENT dvd hb_offset b" using tiles_aligned [OF t, of b] by simp
  have "?c \<le> HEAP_SIZE" using h1(1) by (simp add: heap_ok_def)
  then have out: "out = Some (HEAP_BASE + hb_offset b)"
    using table(2) s(3) fits by (simp add: add64_id HEAP_SIZE_def HEAP_BASE_def)
  have apart: "o' + n' \<le> hb_offset b \<or> hb_offset b + n \<le> o'" if "(o', n') \<in> live (blocks h)" for o' n'
  proof -
    from that h1(2) b(1) have "(o', n') \<in> live xs \<union> live ys" using b(3) by auto
    then obtain z where z: "z \<in> set xs \<union> set ys" "hb_offset z = o'" "hb_size z = n'"
      by (auto simp: live_def)
    from z(1) tiles_sides [OF t] have "hb_offset z + hb_size z \<le> hb_offset b \<or> hb_offset b + hb_size b \<le> hb_offset z"
      by blast
    with z b(4) show ?thesis by auto
  qed
  have "state_fresh h'" by (simp add: table(3))
  moreover have "hs_committed_bytes (hstate h') = ?c" "blocks h' = table" by (simp_all add: table(3))
  ultimately show ?thesis using out ok' n(2,3) al fits b(4) s(2) apart
    by (intro exI [of _ "hb_offset b"] exI [of _ n]) auto
qed

section \<open>Freeing\<close>

lemma tiles_positive: "tiles a bs c \<Longrightarrow> b \<in> set bs \<Longrightarrow> 0 < hb_size b"
  by (induction bs arbitrary: a) auto

lemma block_index_Some:
  assumes "block_index_for_offset bs a = Some i"
  obtains xs b ys where "bs = xs @ b # ys" "i = length xs" "hb_offset b = a"
proof -
  from assms have i: "i < length bs" "hb_offset (bs ! i) = a"
    unfolding block_index_for_offset_def by (auto dest: find_from_SomeD)
  show thesis
    by (rule that [of "take i bs" "bs ! i" "drop (Suc i) bs"])
      (use i in \<open>auto simp: id_take_nth_drop [symmetric]\<close>)
qed

lemma block_index_at:
  assumes t: "tiles 0 (xs @ b # ys) c"
  shows "block_index_for_offset (xs @ b # ys) (hb_offset b) = Some (length xs)"
  unfolding block_index_for_offset_def
proof (rule find_from_eqI)
  fix j assume "j < length xs"
  then have "xs ! j \<in> set xs" by simp
  with tiles_sides(1) [OF t] tiles_positive [OF t, of "xs ! j"]
  show "hb_offset ((xs @ b # ys) ! j) \<noteq> hb_offset b" using \<open>j < length xs\<close> by (fastforce simp: nth_append)
qed auto

lemma block_index_None:
  "block_index_for_offset bs a = None \<longleftrightarrow> (\<forall>b \<in> set bs. hb_offset b \<noteq> a)"
  by (simp add: block_index_for_offset_def find_from_None_iff all_set_conv_all_nth)

text \<open>The base of a live block is its own: nothing else in the table starts there.\<close>

lemma live_split:
  assumes t: "tiles 0 (xs @ b # ys) c"
  shows "(hb_offset b, n) \<notin> live xs \<union> live ys"
proof
  assume "(hb_offset b, n) \<in> live xs \<union> live ys"
  then obtain z where z: "z \<in> set xs \<union> set ys" "hb_offset b = hb_offset z" by (auto simp: live_def)
  with tiles_sides [OF t] tiles_positive [OF t, of z] tiles_positive [OF t, of b] show False by fastforce
qed

lemma free_at:
  assumes ok: "heap_ok h" and h: "blocks h = xs @ b # ys"
  shows "heap_free (HEAP_BASE + hb_offset b) h =
    (if hb_used b then (HEAP_STATUS_OK, refresh_state (h\<lparr>blocks :=
        merge_free_neighbours (length xs) (xs @ b\<lparr>hb_used := False\<rparr> # ys)\<rparr>))
     else (HEAP_STATUS_DOUBLE_FREE, h))"
proof -
  let ?c = "hs_committed_bytes (hstate h)"
  have t: "tiles 0 (xs @ b # ys) ?c" and c: "?c \<le> HEAP_SIZE" and act: "hs_active (hstate h)"
    using ok by (auto simp: heap_ok_def table_tiled_def h)
  have "hb_offset b < ?c" using tiles_mem [OF t, of b] tiles_positive [OF t, of b] by simp
  moreover have "add64 HEAP_BASE ?c = HEAP_BASE + ?c" using c by (simp add: add64_id HEAP_BASE_def HEAP_SIZE_def)
  moreover have "sub64 (HEAP_BASE + hb_offset b) HEAP_BASE = hb_offset b"
    using calculation(1) c by (simp add: sub64_id HEAP_BASE_def HEAP_SIZE_def)
  moreover have "HEAP_BASE > 0" by (simp add: HEAP_BASE_def)
  ultimately show ?thesis using act block_index_at [OF t]
    by (simp add: heap_free_def h)
qed

lemma free_cases:
  assumes ok: "heap_ok h"
  shows "(case heap_free pointer h of (status, h') \<Rightarrow>
     if \<exists>offset n. pointer = HEAP_BASE + offset \<and> (offset, n) \<in> live (blocks h)
     then status = HEAP_STATUS_OK \<and> heap_ok h' \<and> state_fresh h' \<and>
          live (blocks h') = {(offset, n) \<in> live (blocks h). HEAP_BASE + offset \<noteq> pointer} \<and>
          hs_committed_bytes (hstate h') = hs_committed_bytes (hstate h)
     else h' = h \<and> status = (if pointer = 0 then HEAP_STATUS_NULL_ARGUMENT
            else if \<exists>b \<in> set (blocks h). pointer = HEAP_BASE + hb_offset b then HEAP_STATUS_DOUBLE_FREE
            else HEAP_STATUS_BAD_POINTER))"
proof (cases "\<exists>b \<in> set (blocks h). pointer = HEAP_BASE + hb_offset b")
  case True
  then obtain xs b ys where b: "blocks h = xs @ b # ys" "pointer = HEAP_BASE + hb_offset b"
    by (metis split_list)
  let ?c = "hs_committed_bytes (hstate h)"
  have tab: "table_tiled (xs @ b # ys) ?c" using ok by (simp add: heap_ok_def b)
  then have t: "tiles 0 (xs @ b # ys) ?c" by (simp add: table_tiled_def)
  note lone = live_split [OF t]
  note free = free_at [OF ok b(1), folded b(2)]
  show ?thesis
  proof (cases "hb_used b")
    case used: True
    let ?bs = "merge_free_neighbours (length xs) (xs @ b\<lparr>hb_used := False\<rparr> # ys)"
    have m: "table_tiled ?bs ?c" "live ?bs = live xs \<union> live ys"
      using merge_free_tiled [OF tab committed_bound [OF ok] used] by auto
    have "(hb_offset b, hb_size b) \<in> live (blocks h)" using used by (simp add: b(1))
    moreover have "live xs \<union> live ys = {(offset, n) \<in> live (blocks h). HEAP_BASE + offset \<noteq> pointer}"
      using lone used b by auto
    moreover have "heap_ok (h\<lparr>blocks := ?bs\<rparr>)" using ok m(1) by (simp add: heap_ok_def)
    ultimately show ?thesis using free used m(2) b(2) by auto
  next
    case False
    then have "\<not> (\<exists>offset n. pointer = HEAP_BASE + offset \<and> (offset, n) \<in> live (blocks h))"
      using lone b by auto
    moreover have "pointer \<noteq> 0" by (simp add: b(2) HEAP_BASE_def)
    ultimately show ?thesis using free False \<open>\<exists>b \<in> set (blocks h). _\<close> by simp
  qed
next
  case False
  then have none: "\<not> (\<exists>offset n. pointer = HEAP_BASE + offset \<and> (offset, n) \<in> live (blocks h))"
    by (auto simp: live_def)
  have act: "hs_active (hstate h)" "hs_committed_bytes (hstate h) \<le> HEAP_SIZE" using ok by (auto simp: heap_ok_def)
  have "block_index_for_offset (blocks h) (sub64 pointer HEAP_BASE) = None"
    if p: "HEAP_BASE \<le> pointer" "pointer < add64 HEAP_BASE (hs_committed_bytes (hstate h))"
  proof -
    have "pointer < 2 ^ 64" using p(2) act(2) by (simp add: add64_id HEAP_BASE_def HEAP_SIZE_def)
    then have "sub64 pointer HEAP_BASE = pointer - HEAP_BASE" using p(1) by (simp add: sub64_id)
    with False p(1) show ?thesis by (auto simp: block_index_None)
  qed
  then have "heap_free pointer h = (if pointer = 0 then HEAP_STATUS_NULL_ARGUMENT else HEAP_STATUS_BAD_POINTER, h)"
    using act(1) by (simp add: heap_free_def not_le)
  then show ?thesis using none False by auto
qed

section \<open>Allocating and freeing again\<close>

lemma split_then_merge:
  assumes tab: "table_tiled (xs @ b # ys) c" "c < 2 ^ 64" and b: "\<not> hb_used b"
    and n: "0 < n" "n \<le> hb_size b" "HEAP_ALIGNMENT dvd n"
    and split: "split_block (length xs) n (xs @ b # ys) = Some bs'"
  obtains b' ys' where "bs' = xs @ b' # ys'" "hb_used b'" "hb_offset b' = hb_offset b"
    "merge_free_neighbours (length xs) (xs @ b'\<lparr>hb_used := False\<rparr> # ys') = xs @ b # ys"
proof -
  have t: "tiles 0 (xs @ b # ys) c" using tab(1) by (simp add: table_tiled_def)
  have around: "xs \<noteq> [] \<longrightarrow> hb_used (last xs)" "ys \<noteq> [] \<longrightarrow> hb_used (hd ys)"
    using tab(1) b by (auto simp: table_tiled_def coalesced_append_Cons)
  show thesis
  proof (cases "n = hb_size b")
    case True
    with split split_block_cases [OF tab n] have "bs' = xs @ b\<lparr>hb_used := True\<rparr> # ys" by simp
    moreover have "merge_next (b\<lparr>hb_used := False\<rparr>) ys = b # ys"
      using around(2) b by (cases ys) (auto simp: merge_next_def)
    moreover have "b\<lparr>hb_used := False\<rparr> = b" using b by simp
    ultimately show thesis using merge_free_eq [OF t tab(2)] around(1)
      by (intro that [of "b\<lparr>hb_used := True\<rparr>" ys]) auto
  next
    case False
    let ?f = "b\<lparr>hb_size := n\<rparr>"
    let ?r = "\<lparr>hb_offset = hb_offset b + n, hb_size = hb_size b - n, hb_used = False\<rparr>"
    from False split split_block_cases [OF tab n] have bs': "bs' = xs @ ?f\<lparr>hb_used := True\<rparr> # ?r # ys"
      by (simp split: if_splits)
    from split_block_tiled [OF tab b n split] have "tiles 0 (xs @ ?f\<lparr>hb_used := True\<rparr> # ?r # ys) c"
      by (simp add: table_tiled_def bs')
    then have t': "tiles 0 (xs @ ?f # ?r # ys) c" using n(2) by (simp add: tiles_append)
    have "merge_next ?f (?r # ys) = b # ys" using n(2) by (simp add: merge_next_def)
    moreover have "?f\<lparr>hb_used := True, hb_used := False\<rparr> = ?f" using b by simp
    ultimately show thesis using merge_free_eq [OF t' tab(2)] around(1) bs'
      by (intro that [of "?f\<lparr>hb_used := True\<rparr>" "?r # ys"]) auto
  qed
qed

lemma allocate_free:
  assumes ok: "heap_ok h" and fit: "find_fit (blocks h) (align_up bytes HEAP_ALIGNMENT) \<noteq> None"
    and alloc: "heap_allocate pager bytes pointer h = (HEAP_STATUS_OK, Some p, h1)"
  shows "heap_free p h1 = (HEAP_STATUS_OK, refresh_state h)"
proof -
  from allocate_OK_cases [OF alloc ok] obtain i h2 xs b ys table n where
    n: "n = align_up bytes HEAP_ALIGNMENT" "0 < bytes" "bytes \<le> n" "n < bytes + HEAP_ALIGNMENT" "HEAP_ALIGNMENT dvd n"
    and r: "ready_for n h i h2" and b: "blocks h2 = xs @ b # ys" "i = length xs" "\<not> hb_used b" "n \<le> hb_size b"
    and table: "split_block i n (blocks h2) = Some table"
      "Some p = Some (add64 HEAP_BASE (hb_offset (table ! i)))" "h1 = refresh_state (h2\<lparr>blocks := table\<rparr>)"
    and place: "(case find_fit (blocks h) n of Some i \<Rightarrow> (HEAP_STATUS_OK, i, h) | None \<Rightarrow> grow_for pager n 0 h) =
      (HEAP_STATUS_OK, i, h2)" .
  have h2: "h2 = h" using place fit n(1) by auto
  let ?c = "hs_committed_bytes (hstate h)"
  have tab: "table_tiled (xs @ b # ys) ?c" using ok b(1) by (simp add: heap_ok_def h2)
  have c: "?c < 2 ^ 64" using ok by (rule committed_bound)
  have n0: "0 < n" using n by simp
  have split: "split_block (length xs) n (xs @ b # ys) = Some table" using table(1) b by simp
  from split_then_merge [OF tab c b(3) n0 b(4) n(5) split] obtain b' ys' where
    b': "table = xs @ b' # ys'" "hb_used b'" "hb_offset b' = hb_offset b"
      "merge_free_neighbours (length xs) (xs @ b'\<lparr>hb_used := False\<rparr> # ys') = xs @ b # ys" .
  have ok1: "heap_ok h1" using split_block_tiled [OF tab c b(3) n0 b(4) n(5) split] ok
    by (simp add: heap_ok_def table(3) h2)
  have h1: "blocks h1 = xs @ b' # ys'" by (simp add: table(3) b')
  have "?c \<le> HEAP_SIZE" "hb_offset b + hb_size b \<le> ?c"
    using ok tab tiles_mem [of 0 "xs @ b # ys" ?c b] by (auto simp: heap_ok_def table_tiled_def)
  then have p: "p = HEAP_BASE + hb_offset b'"
    using table(2) b' b(2) by (simp add: add64_id HEAP_BASE_def HEAP_SIZE_def)
  have "refresh_state (h1\<lparr>blocks := xs @ b # ys\<rparr>) = refresh_state h"
    using b(1) by (simp add: table(3) h2 refresh_state_def)
  with free_at [OF ok1 h1] b' show ?thesis by (simp add: p)
qed

section \<open>A refused allocation that leaves the statistics behind\<close>

lemma grow_for_new_block:
  assumes g: "grow_for pager n i h = (HEAP_STATUS_OK, j, h')" and "hb_used (last (blocks h))" "blocks h \<noteq> []"
    and n: "n \<le> HEAP_SIZE"
  shows "length (blocks h') = Suc (length (blocks h)) \<and> PAGING_PAGE_SIZE dvd hb_size (last (blocks h'))"
proof -
  let ?c = "hs_committed_bytes (hstate h)" and ?g = "align_up n PAGING_PAGE_SIZE"
  have n0: "sub64 n 0 = n" "n < 2 ^ 63" using n by (simp_all add: sub64_id HEAP_SIZE_def)
  have used: "hb_used (blocks h ! (length (blocks h) - 1))" using assms(2,3) by (simp add: last_conv_nth)
  obtain st h1 where cm: "commit_pages pager ?c (add64 ?c ?g) h = (st, h1)" by fastforce
  have "blocks h1 = blocks h" using commit_pages_same [OF cm] by (simp add: same_table_def)
  with g cm used n0(1) have "blocks h' = blocks h @ [\<lparr>hb_offset = ?c, hb_size = ?g, hb_used = False\<rparr>]"
    by (auto simp: grow_for_def Let_def split: if_splits)
  with align_up_page(1) [OF n0(2)] show ?thesis by simp
qed

lemma allocate_stale:
  assumes ok: "heap_ok h" and fresh: "state_fresh h"
    and full: "Suc (length (blocks h)) = HEAP_MAX_BLOCKS" "hb_used (last (blocks h))"
    and bytes: "0 < bytes" "bytes \<le> HEAP_SIZE" "n = align_up bytes HEAP_ALIGNMENT" "\<not> PAGING_PAGE_SIZE dvd n"
    and none: "find_fit (blocks h) n = None"
    and grown: "grow_for pager n 0 h = (HEAP_STATUS_OK, i, h1)"
  shows "heap_allocate pager bytes (Some p) h = (HEAP_STATUS_OUT_OF_BLOCKS, Some 0, h1) \<and>
    heap_ok h1 \<and> heap_verify pager h1 \<noteq> HEAP_STATUS_OK"
proof -
  have small: "bytes < 2 ^ 63" using bytes(2) by (simp add: HEAP_SIZE_def)
  note al = align_up_unit [OF small, folded bytes(3)]
  have n0: "0 < n" using al(2) bytes(1) by simp
  have nle: "n \<le> HEAP_SIZE"
  proof -
    have "HEAP_ALIGNMENT dvd HEAP_SIZE" by (simp add: HEAP_ALIGNMENT_def HEAP_SIZE_def)
    then obtain q k where "HEAP_SIZE = HEAP_ALIGNMENT * q" "n = HEAP_ALIGNMENT * k"
      using al(1) unfolding dvd_def by blast
    then show ?thesis using al(3) bytes(2) unfolding HEAP_ALIGNMENT_def by presburger
  qed
  from grow_for_ok [OF ok none n0 nle grown] obtain xs b where
    g: "heap_ok h1" "blocks h1 = xs @ [b]" "i = length xs" "\<not> hb_used b" "n \<le> hb_size b"
      "hs_block_count (hstate h1) = hs_block_count (hstate h)" .
  have "blocks h \<noteq> []" using full(1) by (auto simp: HEAP_MAX_BLOCKS_def)
  then have whole: "PAGING_PAGE_SIZE dvd hb_size b" and len: "length (blocks h1) = HEAP_MAX_BLOCKS"
    using grow_for_new_block [OF grown full(2) _ nle] full(1) g(2) by simp_all
  have tab: "table_tiled (xs @ [b]) (hs_committed_bytes (hstate h1))" using g(1,2) by (simp add: heap_ok_def)
  have "split_block i n (blocks h1) = None"
    using split_block_cases [OF tab committed_bound [OF g(1)] n0 g(5) al(1)] whole bytes(4) len g(2,3) by auto
  then have "heap_allocate pager bytes (Some p) h = (HEAP_STATUS_OUT_OF_BLOCKS, Some 0, h1)"
    using ok bytes nle none grown by (simp add: heap_allocate_def heap_ok_def)
  moreover have "hs_block_count (hstate h1) \<noteq> length (blocks h1)"
    using g(6) fresh full(1) len by (simp add: state_fresh_def)
  then have "heap_verify pager h1 \<noteq> HEAP_STATUS_OK" by (auto simp: heap_verify_def Let_def)
  ultimately show ?thesis using g(1) by simp
qed

section \<open>Properties of the kernel heap\<close>

text \<open>A page table that is a list of mappings, and two heaps over it: one page with 16 bytes
  in use, and one page divided into 255 live blocks.\<close>

definition list_pager :: "(u64 \<times> u64) list pager" where
  "list_pager = \<lparr>pg_is_active = (\<lambda>_. True),
     pg_translate = (\<lambda>address pages. case map_of pages address of
        None \<Rightarrow> (PAGING_STATUS_NOT_MAPPED, blank_translation)
      | Some frame \<Rightarrow> (PAGING_STATUS_OK, blank_translation\<lparr>tr_physical_address := frame,
          tr_permissions := PAGING_WRITE, tr_level := 1\<rparr>)),
     pg_map = (\<lambda>address frame (pages, frames). (True, (address, frame) # pages, frames)),
     pg_unmap = (\<lambda>address (pages, frames). (True, filter (\<lambda>(a, _). a \<noteq> address) pages, frames))\<rparr>"

definition one_page_heap :: "heap_block list \<Rightarrow> (u64 \<times> u64) list heap" where
  "one_page_heap table = refresh_state \<lparr>blocks = table,
     hstate = \<lparr>hs_base_address = HEAP_BASE, hs_size = HEAP_SIZE, hs_committed_bytes = 4096,
       hs_allocated_bytes = 0, hs_block_count = 0, hs_live_allocations = 0, hs_mapped_pages = 1, hs_active = True\<rparr>,
     heap_frames = sample_allocator, heap_pages = [(HEAP_BASE, 0x200000)]\<rparr>"

definition small_table :: "heap_block list" where
  "small_table = [\<lparr>hb_offset = 0, hb_size = 16, hb_used = True\<rparr>, \<lparr>hb_offset = 16, hb_size = 4080, hb_used = False\<rparr>]"

definition full_table :: "heap_block list" where
  "full_table = map (\<lambda>k. \<lparr>hb_offset = 16 * k, hb_size = 16, hb_used = True\<rparr>) [0..<254] @
     [\<lparr>hb_offset = 4064, hb_size = 32, hb_used = True\<rparr>]"

lemma small_table_ok: "heap_ok (one_page_heap small_table)"
  by (simp add: heap_ok_def one_page_heap_def small_table_def table_tiled_def HEAP_SIZE_def PAGING_PAGE_SIZE_def
      HEAP_ALIGNMENT_def HEAP_MAX_BLOCKS_def)

lemma row_tiles: "tiles a (map (\<lambda>k. \<lparr>hb_offset = a + 16 * k, hb_size = 16, hb_used = True\<rparr>) [0..<n]) (a + 16 * n)"
  by (induction n) (simp_all add: tiles_append HEAP_ALIGNMENT_def)

lemma row_coalesced: "coalesced (map (\<lambda>k. \<lparr>hb_offset = f k, hb_size = m, hb_used = True\<rparr>) ks)"
  by (induction ks) (auto simp: successively_Cons)

lemma full_table_ok: "heap_ok (one_page_heap full_table)"
  using row_tiles [of 0 254] row_coalesced [of "\<lambda>k. 16 * k" 16 "[0..<254]"]
  by (simp add: heap_ok_def one_page_heap_def full_table_def table_tiled_def HEAP_SIZE_def PAGING_PAGE_SIZE_def
      tiles_append HEAP_ALIGNMENT_def HEAP_MAX_BLOCKS_def successively_append_iff)

text \<open>
  C18. An allocation that succeeds on a well-formed heap adds exactly one live block to the
  table and removes none: it is aligned to 16 bytes, at least as large as the request and less
  than one unit larger, lies inside the committed part of the window, and overlaps no block
  that was live before.  The table stays well formed, its free blocks coalesced, and the
  statistics describe it.  Whether the block was found in the table or made by backing more
  pages makes no difference.
\<close>

theorem heap_allocate_correct:
  assumes "heap_ok h" and "heap_allocate pager bytes pointer h = (HEAP_STATUS_OK, out, h')"
  shows "\<exists>offset n. out = Some (HEAP_BASE + offset) \<and> heap_ok h' \<and> state_fresh h' \<and>
    bytes \<le> n \<and> n < bytes + HEAP_ALIGNMENT \<and> HEAP_ALIGNMENT dvd offset \<and>
    offset + n \<le> hs_committed_bytes (hstate h') \<and>
    live (blocks h') = insert (offset, n) (live (blocks h)) \<and>
    (\<forall>(o', n') \<in> live (blocks h). o' + n' \<le> offset \<or> offset + n \<le> o')"
  using assms by (rule allocate_ok [rotated])

lemma align_up_samples:
  "align_up 100 HEAP_ALIGNMENT = 112" "align_up 16 HEAP_ALIGNMENT = 16" "align_up 16 PAGING_PAGE_SIZE = 4096"
proof -
  have u: "x = 112" if "16 dvd x" "100 \<le> x" "x < 116" for x :: nat using that by presburger
  have v: "x = 16" if "16 dvd x" "16 \<le> x" "x < 32" for x :: nat using that by presburger
  have w: "x = 4096" if "4096 dvd x" "16 \<le> x" "x < 4112" for x :: nat using that by (auto elim!: dvdE)
  show "align_up 100 HEAP_ALIGNMENT = 112" "align_up 16 HEAP_ALIGNMENT = 16" "align_up 16 PAGING_PAGE_SIZE = 4096"
    using u [of "align_up 100 HEAP_ALIGNMENT"] align_up_unit [of 100] v [of "align_up 16 HEAP_ALIGNMENT"]
      align_up_unit [of 16] w [of "align_up 16 PAGING_PAGE_SIZE"] align_up_page [of 16]
    by (simp_all add: HEAP_ALIGNMENT_def PAGING_PAGE_SIZE_def)
qed

lemma small_table_allocate:
  "\<exists>h'. heap_allocate list_pager 100 (Some 0) (one_page_heap small_table) =
    (HEAP_STATUS_OK, Some (HEAP_BASE + 16), h')"
proof -
  have f: "find_fit (blocks (one_page_heap small_table)) 112 = Some 1"
    by (simp add: one_page_heap_def small_table_def find_fit_def find_from.simps)
  have s: "split_block 1 112 (blocks (one_page_heap small_table)) =
      Some [\<lparr>hb_offset = 0, hb_size = 16, hb_used = True\<rparr>, \<lparr>hb_offset = 16, hb_size = 112, hb_used = True\<rparr>,
        \<lparr>hb_offset = 128, hb_size = 3968, hb_used = False\<rparr>]"
    by (simp add: one_page_heap_def small_table_def split_block_def sub64_id add64_id HEAP_ALIGNMENT_def HEAP_MAX_BLOCKS_def)
  have "hs_active (hstate (one_page_heap small_table))" by (simp add: one_page_heap_def)
  then show ?thesis using f s
    by (simp add: heap_allocate_def align_up_samples HEAP_SIZE_def add64_id HEAP_BASE_def)
qed

theorem heap_allocate_correct_witness:
  "\<exists>h' n. heap_allocate list_pager 100 (Some 0) (one_page_heap small_table) =
      (HEAP_STATUS_OK, Some (HEAP_BASE + 16), h') \<and> heap_ok h' \<and> 100 \<le> n \<and>
      live (blocks h') = {(0, 16), (16, n)}"
proof -
  obtain h' where h': "heap_allocate list_pager 100 (Some 0) (one_page_heap small_table) =
      (HEAP_STATUS_OK, Some (HEAP_BASE + 16), h')" using small_table_allocate by blast
  have "live (blocks (one_page_heap small_table)) = {(0, 16)}" by (simp add: one_page_heap_def small_table_def)
  with heap_allocate_correct [OF small_table_ok h'] h' show ?thesis by auto
qed

text \<open>
  C19. \<open>heap_free\<close> on a well-formed heap succeeds exactly for the base of a live block.  It then
  removes that block and no other from the live blocks, keeps the heap well formed by merging
  the freed space with its free neighbours, and commits or releases nothing.  Every other
  pointer leaves the heap as it was and is named: the null pointer, the base of a block that
  is already free, and anything else, interior pointers included.
\<close>

theorem heap_free_correct:
  assumes "heap_ok h"
  shows "case heap_free pointer h of (status, h') \<Rightarrow>
     if \<exists>offset n. pointer = HEAP_BASE + offset \<and> (offset, n) \<in> live (blocks h)
     then status = HEAP_STATUS_OK \<and> heap_ok h' \<and> state_fresh h' \<and>
          live (blocks h') = {(offset, n) \<in> live (blocks h). HEAP_BASE + offset \<noteq> pointer} \<and>
          hs_committed_bytes (hstate h') = hs_committed_bytes (hstate h)
     else h' = h \<and> status = (if pointer = 0 then HEAP_STATUS_NULL_ARGUMENT
            else if \<exists>b \<in> set (blocks h). pointer = HEAP_BASE + hb_offset b then HEAP_STATUS_DOUBLE_FREE
            else HEAP_STATUS_BAD_POINTER)"
  using assms by (rule free_cases)

theorem heap_free_correct_witness:
  "\<exists>h'. heap_free HEAP_BASE (one_page_heap small_table) = (HEAP_STATUS_OK, h') \<and> live (blocks h') = {} \<and>
     heap_free (HEAP_BASE + 16) (one_page_heap small_table) = (HEAP_STATUS_DOUBLE_FREE, one_page_heap small_table) \<and>
     heap_free (HEAP_BASE + 8) (one_page_heap small_table) = (HEAP_STATUS_BAD_POINTER, one_page_heap small_table)"
proof -
  have l: "live (blocks (one_page_heap small_table)) = {(0, 16)}" "blocks (one_page_heap small_table) = small_table"
    by (simp_all add: one_page_heap_def small_table_def)
  obtain s1 h1 s2 h2 s3 h3 where r: "heap_free HEAP_BASE (one_page_heap small_table) = (s1, h1)"
    "heap_free (HEAP_BASE + 16) (one_page_heap small_table) = (s2, h2)"
    "heap_free (HEAP_BASE + 8) (one_page_heap small_table) = (s3, h3)" by fastforce
  show ?thesis
    using heap_free_correct [OF small_table_ok, of HEAP_BASE] heap_free_correct [OF small_table_ok, of "HEAP_BASE + 16"]
      heap_free_correct [OF small_table_ok, of "HEAP_BASE + 8"] r l
    by (auto simp: HEAP_BASE_def small_table_def)
qed

text \<open>
  Freeing an allocation that was served from the committed part of the window restores the
  whole heap: the block table, the pages and the frames are those from before the allocation,
  and the statistics are recomputed from the same table.
\<close>

theorem heap_allocate_free_roundtrip:
  assumes "heap_ok h" and "find_fit (blocks h) (align_up bytes HEAP_ALIGNMENT) \<noteq> None"
    and "heap_allocate pager bytes pointer h = (HEAP_STATUS_OK, Some p, h1)"
  shows "heap_free p h1 = (HEAP_STATUS_OK, refresh_state h)"
  using assms by (rule allocate_free)

theorem heap_allocate_free_roundtrip_witness:
  "\<exists>h1. heap_allocate list_pager 100 (Some 0) (one_page_heap small_table) =
      (HEAP_STATUS_OK, Some (HEAP_BASE + 16), h1) \<and>
      heap_free (HEAP_BASE + 16) h1 = (HEAP_STATUS_OK, refresh_state (one_page_heap small_table))"
proof -
  have "find_fit (blocks (one_page_heap small_table)) (align_up 100 HEAP_ALIGNMENT) = Some 1"
    by (simp add: one_page_heap_def small_table_def find_fit_def find_from.simps align_up_samples)
  with small_table_allocate show ?thesis
    using heap_allocate_free_roundtrip [OF small_table_ok, of 100 list_pager "Some 0" "HEAP_BASE + 16"] by auto
qed

text \<open>
  C40. An allocation can be refused and still change the heap: when the table has one free
  entry left and its last block is in use, the heap backs new pages and enters them as the
  last entry, then has no entry left to split that block and returns
  \<open>HEAP_STATUS_OUT_OF_BLOCKS\<close> without refreshing its statistics.  The table itself is still
  well formed, but \<open>heap_verify\<close> refuses the heap.
\<close>

theorem heap_refused_allocation_breaks_verify:
  assumes "heap_ok h" and "state_fresh h"
    and "Suc (length (blocks h)) = HEAP_MAX_BLOCKS" "hb_used (last (blocks h))"
    and "0 < bytes" "bytes \<le> HEAP_SIZE" "n = align_up bytes HEAP_ALIGNMENT" "\<not> PAGING_PAGE_SIZE dvd n"
    and "find_fit (blocks h) n = None"
    and "grow_for pager n 0 h = (HEAP_STATUS_OK, i, h1)"
  shows "heap_allocate pager bytes (Some p) h = (HEAP_STATUS_OUT_OF_BLOCKS, Some 0, h1) \<and>
    heap_ok h1 \<and> heap_verify pager h1 \<noteq> HEAP_STATUS_OK"
  using assms by (rule allocate_stale)

lemma full_table_grows:
  "\<exists>i h1. grow_for list_pager 16 0 (one_page_heap full_table) = (HEAP_STATUS_OK, i, h1)"
proof -
  let ?h = "one_page_heap full_table"
  have ready: "frame_ready sample_allocator" "free_set sample_allocator \<noteq> {}"
    using sample_ready(1) by (auto simp: sample_sets)
  then obtain f s where f: "frame_allocate False sample_allocator = (FRAME_STATUS_OK, Some f, s)"
    using frame_allocate_some [of sample_allocator] by (auto simp: frame_ready_def)
  have "page_offsets 4096 8192 = [4096]" by (simp add: page_offsets_def PAGING_PAGE_SIZE_def)
  moreover have "heap_frames ?h = sample_allocator" by (simp add: one_page_heap_def refresh_state_def)
  ultimately obtain h2 where "commit_pages list_pager 4096 8192 ?h = (HEAP_STATUS_OK, h2)"
    using f by (auto simp: commit_pages_def commit_page_def list_pager_def)
  moreover have "align_up (sub64 16 0) PAGING_PAGE_SIZE = 4096" "add64 4096 4096 = 8192"
    by (simp_all add: sub64_id add64_id align_up_samples)
  moreover have "blocks ?h = full_table" "hs_committed_bytes (hstate ?h) = 4096" by (simp_all add: one_page_heap_def)
  moreover have "length full_table = 255" "hb_used (full_table ! 254)" by (simp_all add: full_table_def nth_append)
  moreover have "sub64 HEAP_SIZE 4096 = HEAP_SIZE - 4096" by (simp add: sub64_id HEAP_SIZE_def)
  ultimately show ?thesis by (simp add: grow_for_def HEAP_MAX_BLOCKS_def HEAP_SIZE_def)
qed

theorem heap_refused_allocation_breaks_verify_witness:
  "\<exists>h1. heap_allocate list_pager 16 (Some 0) (one_page_heap full_table) = (HEAP_STATUS_OUT_OF_BLOCKS, Some 0, h1) \<and>
     heap_verify list_pager (one_page_heap full_table) = HEAP_STATUS_OK \<and>
     heap_verify list_pager h1 \<noteq> HEAP_STATUS_OK"
proof -
  let ?h = "one_page_heap full_table"
  obtain i h1 where g: "grow_for list_pager 16 0 ?h = (HEAP_STATUS_OK, i, h1)" using full_table_grows by blast
  have h: "blocks ?h = full_table" "state_fresh ?h" by (simp_all add: one_page_heap_def)
  have t: "Suc (length full_table) = HEAP_MAX_BLOCKS" "hb_used (last full_table)" "find_fit full_table 16 = None"
    by (auto simp: full_table_def HEAP_MAX_BLOCKS_def find_fit_None)
  have a: "16 = align_up 16 HEAP_ALIGNMENT" by (simp add: align_up_samples)
  have "\<not> PAGING_PAGE_SIZE dvd 16" "(0::nat) < 16" "16 \<le> HEAP_SIZE" by (simp_all add: PAGING_PAGE_SIZE_def HEAP_SIZE_def)
  with heap_refused_allocation_breaks_verify [OF full_table_ok h(2) _ _ _ _ a _ _ g, of 0] h(1) t
  have "heap_allocate list_pager 16 (Some 0) ?h = (HEAP_STATUS_OUT_OF_BLOCKS, Some 0, h1)"
      "heap_verify list_pager h1 \<noteq> HEAP_STATUS_OK" by simp_all
  moreover have "heap_verify list_pager ?h = HEAP_STATUS_OK"
  proof -
    have tab: "table_tiled full_table 4096" using full_table_ok h(1) by (simp add: heap_ok_def one_page_heap_def)
    have "page_offsets 0 4096 = [0]" by (simp add: page_offsets_def PAGING_PAGE_SIZE_def)
    with h validate_table_tiled [OF tab] show ?thesis
      by (simp add: heap_verify_def state_fresh_def Let_def one_page_heap_def refresh_state_def list_pager_def
          heap_page_ok_def heap_consts add64_id)
  qed
  ultimately show ?thesis by blast
qed

section \<open>The heap as a store of regions\<close>

lemma grow_for_refused:
  assumes "grow_for pager n i h = (st, j, h')" "st \<noteq> HEAP_STATUS_OK"
  shows "same_table h h'"
  using assms by (auto simp: grow_for_def Let_def intro: commit_pages_same split: if_splits prod.splits)

lemma allocate_refused:
  assumes ok: "heap_ok h" and st: "st \<noteq> HEAP_STATUS_OK"
    and alloc: "heap_allocate pager bytes pointer h = (st, out, h')"
  shows "heap_ok h' \<and> live (blocks h') = live (blocks h)"
proof (cases "pointer = None \<or> bytes = 0 \<or> HEAP_SIZE < bytes \<or> HEAP_SIZE < align_up bytes HEAP_ALIGNMENT")
  case True
  with alloc ok have "h' = h" by (auto simp: heap_allocate_def Let_def heap_ok_def split: if_splits)
  with ok show ?thesis by simp
next
  case False
  let ?n = "align_up bytes HEAP_ALIGNMENT"
  let ?place = "case find_fit (blocks h) ?n of Some i \<Rightarrow> (HEAP_STATUS_OK, i, h) | None \<Rightarrow> grow_for pager ?n 0 h"
  have n: "0 < ?n" "?n \<le> HEAP_SIZE"
    using False align_up_unit(2) [of bytes] by (auto simp: HEAP_SIZE_def)
  obtain st1 i h1 where place: "?place = (st1, i, h1)" by (cases ?place) auto
  have body: "(if st1 \<noteq> HEAP_STATUS_OK then (st1, Some 0, h1)
      else case split_block i ?n (blocks h1) of
        None \<Rightarrow> (HEAP_STATUS_OUT_OF_BLOCKS, Some 0, h1)
      | Some table \<Rightarrow> (HEAP_STATUS_OK, Some (add64 HEAP_BASE (hb_offset (table ! i))),
          refresh_state (h1\<lparr>blocks := table\<rparr>))) = (st, out, h')"
    using alloc False ok place unfolding heap_allocate_def Let_def by (auto simp: heap_ok_def)
  with st have h': "h' = h1" by (auto split: if_splits option.splits)
  show ?thesis
  proof (cases "st1 = HEAP_STATUS_OK")
    case True
    with place_ready [OF ok n] place have "ready_for ?n h i h1" by simp
    then show ?thesis by (simp add: ready_for_def h')
  next
    case bad: False
    with place have "grow_for pager ?n 0 h = (st1, i, h1)" by (auto split: option.splits)
    from grow_for_refused [OF this bad] have "same_table h h1" .
    then have "heap_ok h1 = heap_ok h" "blocks h1 = blocks h" by (rule same_table_ok, simp add: same_table_def)
    with ok show ?thesis by (simp add: h')
  qed
qed

definition heap_regions :: "'p heap \<Rightarrow> (nat \<times> nat) set" where
  "heap_regions h = (\<lambda>(offset, n). (HEAP_BASE + offset, n)) ` live (blocks h)"

definition heap_take :: "'p pager \<Rightarrow> u64 \<Rightarrow> 'p heap \<Rightarrow> u64 option \<times> 'p heap" where
  "heap_take pager bytes h =
     (case heap_allocate pager bytes (Some 0) h of
        (status, out, h') \<Rightarrow> (if status = HEAP_STATUS_OK then out else None, h'))"

definition heap_give :: "u64 \<Rightarrow> 'p heap \<Rightarrow> bool \<times> 'p heap" where
  "heap_give pointer h = (case heap_free pointer h of (status, h') \<Rightarrow> (status = HEAP_STATUS_OK, h'))"

interpretation heap_store: region_store heap_ok heap_regions "heap_take pager" heap_give for pager
proof
  fix h h' n a
  assume ok: "heap_ok h" and t: "heap_take pager n h = (Some a, h')"
  then obtain out where "heap_allocate pager n (Some 0) h = (HEAP_STATUS_OK, Some a, h')"
    by (auto simp: heap_take_def split: prod.splits if_splits)
  from allocate_ok [OF this ok] obtain offset m where
    a: "a = HEAP_BASE + offset" "heap_ok h'" "n \<le> m" "live (blocks h') = insert (offset, m) (live (blocks h))"
    and d: "\<forall>(o', n') \<in> live (blocks h). o' + n' \<le> offset \<or> offset + m \<le> o'" by auto
  have "apart (a, m) r" if "r \<in> heap_regions h" for r
    using that d by (force simp: heap_regions_def apart_def a(1))
  moreover have "heap_regions h' = insert (a, m) (heap_regions h)" using a by (simp add: heap_regions_def)
  ultimately show "heap_ok h' \<and> (\<exists>m \<ge> n. heap_regions h' = insert (a, m) (heap_regions h) \<and>
      (\<forall>r \<in> heap_regions h. apart (a, m) r))" using a(2,3) by blast
next
  fix h h' n
  assume ok: "heap_ok h" and t: "heap_take pager n h = (None, h')"
  then obtain st out where "heap_allocate pager n (Some 0) h = (st, out, h')" "st = HEAP_STATUS_OK \<longrightarrow> out = None"
    by (auto simp: heap_take_def split: prod.splits if_splits)
  with ok show "heap_ok h' \<and> heap_regions h' = heap_regions h"
    using allocate_refused [OF ok] allocate_ok [OF _ ok] by (cases "st = HEAP_STATUS_OK") (fastforce simp: heap_regions_def)+
next
  fix h h' a d
  assume ok: "heap_ok h" and g: "heap_give a h = (d, h')"
  then obtain st where f: "heap_free a h = (st, h')" "d = (st = HEAP_STATUS_OK)"
    by (auto simp: heap_give_def split: prod.splits)
  show "heap_ok h' \<and> heap_regions h' = (if d then {r \<in> heap_regions h. fst r \<noteq> a} else heap_regions h)"
  proof (cases "\<exists>offset n. a = HEAP_BASE + offset \<and> (offset, n) \<in> live (blocks h)")
    case True
    with free_cases [OF ok, of a] f have "d" "heap_ok h'"
      "live (blocks h') = {(offset, n) \<in> live (blocks h). HEAP_BASE + offset \<noteq> a}" by auto
    then show ?thesis by (force simp: heap_regions_def)
  next
    case False
    with free_cases [OF ok, of a] f have "\<not> d" "h' = h" by (auto split: if_splits)
    with ok show ?thesis by simp
  qed
qed

fun heap_serve :: "'p pager \<Rightarrow> region_call \<Rightarrow> 'p heap \<Rightarrow> 'p heap" where
  "heap_serve pager (Take bytes) h = snd (heap_take pager bytes h)"
| "heap_serve pager (Give pointer) h = snd (heap_give pointer h)"

lemma heap_store_serve: "heap_store.serve pager = heap_serve pager"
proof (intro ext)
  show "heap_store.serve pager call h = heap_serve pager call h" for call h
    by (cases call) simp_all
qed

text \<open>
  C20. A block returned by \<open>heap_allocate\<close> belongs to its caller until the caller frees it:
  through any sequence of further allocations and frees of other pointers, successful or
  refused, the block stays live at its full size, and every block allocated in between is
  apart from it.
\<close>

theorem heap_block_kept_until_freed:
  assumes "heap_ok h" and "heap_take pager bytes h = (Some p, h1)" and "Give p \<notin> set calls"
    and "h2 = fold (heap_serve pager) calls h1"
  shows "\<exists>m \<ge> bytes. heap_ok h2 \<and> (p, m) \<in> heap_regions h2 \<and>
    (\<forall>more q h3. heap_take pager more h2 = (Some q, h3) \<longrightarrow>
       (\<exists>j \<ge> more. (q, j) \<in> heap_regions h3 \<and> apart (q, j) (p, m)))"
  using heap_store.taken_until_given [OF assms(1,2)] assms(3,4) unfolding heap_store_serve by metis

theorem heap_block_kept_until_freed_witness:
  "\<exists>h1 m. heap_take list_pager 100 (one_page_heap small_table) = (Some (HEAP_BASE + 16), h1) \<and> 100 \<le> m \<and>
     (HEAP_BASE + 16, m) \<in> heap_regions
       (fold (heap_serve list_pager) [Take 32, Give HEAP_BASE, Give (HEAP_BASE + 24), Take 5000] h1)"
proof -
  obtain h1 where h1: "heap_take list_pager 100 (one_page_heap small_table) = (Some (HEAP_BASE + 16), h1)"
    using small_table_allocate by (auto simp: heap_take_def)
  from heap_block_kept_until_freed [OF small_table_ok h1 _ refl,
      of "[Take 32, Give HEAP_BASE, Give (HEAP_BASE + 24), Take 5000]"] h1
  show ?thesis by auto
qed

end
