(* ===== verification/Page_Tables_Walk.thy ===== *)
theory Page_Tables_Walk
  imports Page_Tables
begin

unbundle bit_operations_syntax

text \<open>
  The hierarchy as a tree.  \<open>tab\<close> is the table an address reaches after a number of steps,
  \<open>leaf\<close> the entry at which the processor stops.  In a tree each table is reached by one
  prefix of indices only, so that a write to an entry concerns the addresses with that prefix
  and no others: this is the fact behind every update lemma below.
\<close>

section \<open>Bits of an entry\<close>

lemmas page_bits = PAGE_PRESENT_def PAGE_WRITABLE_def PAGE_USER_def PAGE_WRITE_THROUGH_def PAGE_CACHE_DISABLE_def
  PAGE_HUGE_def PAGE_LARGE_PAT_def PAGE_NO_EXECUTE_def

lemma and_push_bit_one [simp]: "(w :: 'a::len word) AND push_bit n 1 = 0 \<longleftrightarrow> \<not> bit w n"
  by (simp add: push_bit_eq_mult and_exp_eq_0_iff_not_bit)

lemma entry_bits [simp]:
  "e AND PAGE_PRESENT = 0 \<longleftrightarrow> \<not> bit e 0" "e AND PAGE_WRITABLE = 0 \<longleftrightarrow> \<not> bit e 1"
  "e AND PAGE_USER = 0 \<longleftrightarrow> \<not> bit e 2" "e AND PAGE_WRITE_THROUGH = 0 \<longleftrightarrow> \<not> bit e 3"
  "e AND PAGE_CACHE_DISABLE = 0 \<longleftrightarrow> \<not> bit e 4" "e AND PAGE_HUGE = 0 \<longleftrightarrow> \<not> bit e 7"
  "e AND PAGE_LARGE_PAT = 0 \<longleftrightarrow> \<not> bit e 12" "e AND PAGE_NO_EXECUTE = 0 \<longleftrightarrow> \<not> bit e 63"
  unfolding page_bits by (rule and_push_bit_one)+

abbreviation present :: "64 word \<Rightarrow> bool" where "present e \<equiv> bit e 0"
abbreviation huge :: "64 word \<Rightarrow> bool" where "huge e \<equiv> bit e 7"
abbreviation interior :: "64 word \<Rightarrow> bool" where "interior e \<equiv> present e \<and> \<not> huge e"
abbreviation frame_of :: "64 word \<Rightarrow> u64" where "frame_of e \<equiv> unat (e AND PAGE_FRAME_MASK)"

lemma table_index_less: "table_index a l < 512"
proof -
  have "table_index a l = drop_bit (12 + 9 * (l - 1)) a mod 2 ^ 9"
    using and_low_mask [of "drop_bit (12 + 9 * (l - 1)) a" 9] by (simp add: table_index_def PAGING_ENTRIES_PER_TABLE_def)
  then show ?thesis by simp
qed

section \<open>Paths\<close>

fun tab :: "tables \<Rightarrow> u64 \<Rightarrow> u64 \<Rightarrow> nat \<Rightarrow> u64 option" where
  "tab M r a 0 = Some r"
| "tab M r a (Suc d) =
     (case tab M r a d of
        None \<Rightarrow> None
      | Some t \<Rightarrow> (let e = M t (table_index a (4 - d)) in if interior e then Some (frame_of e) else None))"

fun leaf_walk :: "tables \<Rightarrow> u64 \<Rightarrow> nat \<Rightarrow> u64 \<Rightarrow> (nat \<times> 64 word) option" where
  "leaf_walk M a 0 t =
     (let e = M t (table_index a 1) in if present e then Some (1, e) else None)"
| "leaf_walk M a (Suc k) t =
     (let e = M t (table_index a (Suc (Suc k))) in
      if \<not> present e then None else if huge e then Some (Suc (Suc k), e) else leaf_walk M a k (frame_of e))"

definition leaf :: "tables \<Rightarrow> u64 \<Rightarrow> u64 \<Rightarrow> (nat \<times> 64 word) option" where
  "leaf M r a = leaf_walk M a 3 r"

definition agree :: "nat \<Rightarrow> u64 \<Rightarrow> u64 \<Rightarrow> bool" where
  "agree d a b \<longleftrightarrow> (\<forall>l. 4 - d < l \<and> l \<le> 4 \<longrightarrow> table_index a l = table_index b l)"

lemma agree_0 [simp]: "agree 0 a b"
  by (simp add: agree_def)

lemma agree_refl [simp]: "agree d a a"
  by (simp add: agree_def)

lemma agree_sym: "agree d a b \<Longrightarrow> agree d b a"
  by (simp add: agree_def)

lemma agree_trans: "agree d a b \<Longrightarrow> agree d b c \<Longrightarrow> agree d a c"
  by (simp add: agree_def)

lemma agree_Suc:
  assumes "d < 4"
  shows "agree (Suc d) a b \<longleftrightarrow> agree d a b \<and> table_index a (4 - d) = table_index b (4 - d)"
proof -
  have "4 - Suc d < l \<and> l \<le> 4 \<longleftrightarrow> (4 - d < l \<and> l \<le> 4) \<or> l = 4 - d" for l
    using assms by auto
  then show ?thesis unfolding agree_def by metis
qed

lemma agree_mono: "agree d a b \<Longrightarrow> d' \<le> d \<Longrightarrow> agree d' a b"
  by (auto simp: agree_def)

lemma tab_agree: "agree d a b \<Longrightarrow> d \<le> 4 \<Longrightarrow> tab M r a d = tab M r b d"
  by (induction d) (auto simp: agree_Suc split: option.splits)

lemma tab_down: "tab M r a d \<noteq> None \<Longrightarrow> d' \<le> d \<Longrightarrow> tab M r a d' \<noteq> None"
  by (induction d) (auto simp: le_Suc_eq split: option.splits)

lemma leaf_at: "tab M r a d = Some t \<Longrightarrow> d \<le> 3 \<Longrightarrow> leaf M r a = leaf_walk M a (3 - d) t"
proof (induction d arbitrary: t)
  case (Suc d)
  then obtain u where u: "tab M r a d = Some u" "interior (M u (table_index a (4 - d)))"
    "t = frame_of (M u (table_index a (4 - d)))"
    by (auto simp: Let_def split: option.splits if_splits)
  have "3 - d = Suc (3 - Suc d)" "4 - d = Suc (Suc (3 - Suc d))" using Suc.prems(2) by auto
  then show ?case using Suc.IH [OF u(1)] Suc.prems(2) u by (simp add: Let_def)
qed (simp add: leaf_def)

text \<open>Two memories that hold the same entries along a path agree on the path.\<close>

lemma tab_local:
  assumes "\<And>d t. d \<le> 3 \<Longrightarrow> tab M r a d = Some t \<Longrightarrow> M' t (table_index a (4 - d)) = M t (table_index a (4 - d))"
  shows "d \<le> 4 \<Longrightarrow> tab M' r a d = tab M r a d"
  by (induction d) (auto simp: assms split: option.splits)

lemma leaf_local:
  assumes "\<And>d t. d \<le> 3 \<Longrightarrow> tab M r a d = Some t \<Longrightarrow> M' t (table_index a (4 - d)) = M t (table_index a (4 - d))"
  shows "leaf M' r a = leaf M r a"
proof -
  have "tab M r a (3 - k) = Some t \<Longrightarrow> k \<le> 3 \<Longrightarrow> leaf_walk M' a k t = leaf_walk M a k t" for k t
  proof (induction k arbitrary: t)
    case 0
    then show ?case using assms [of 3 t] by simp
  next
    case (Suc k)
    have e: "4 - (3 - Suc k) = Suc (Suc k)" "3 - k = Suc (3 - Suc k)" using Suc.prems(2) by auto
    have "M' t (table_index a (Suc (Suc k))) = M t (table_index a (Suc (Suc k)))"
      using assms [of "3 - Suc k" t] Suc.prems e by simp
    moreover have "leaf_walk M' a k (frame_of (M t (table_index a (Suc (Suc k))))) =
        leaf_walk M a k (frame_of (M t (table_index a (Suc (Suc k)))))"
      if "interior (M t (table_index a (Suc (Suc k))))"
      using Suc.IH Suc.prems that by (simp add: e Let_def)
    ultimately show ?case by (simp add: Let_def)
  qed
  from this [of 3 r] show ?thesis by (simp add: leaf_def)
qed

section \<open>Trees\<close>

definition put_at :: "tables \<Rightarrow> u64 \<Rightarrow> nat \<Rightarrow> 64 word \<Rightarrow> tables" where
  "put_at M t i e = M(t := (M t)(i := e))"

lemma put_at_same [simp]: "put_at M t i e t i = e"
  by (simp add: put_at_def)

lemma put_at_other [simp]: "u \<noteq> t \<or> j \<noteq> i \<Longrightarrow> put_at M t i e u j = M u j"
  by (auto simp: put_at_def)

definition tree_ok :: "tables \<Rightarrow> u64 \<Rightarrow> bool" where
  "tree_ok M r \<longleftrightarrow> (\<forall>a b d d' t. d \<le> 3 \<longrightarrow> d' \<le> 3 \<longrightarrow> tab M r a d = Some t \<longrightarrow> tab M r b d' = Some t \<longrightarrow>
     d = d' \<and> agree d a b)"

lemma tree_okD:
  "tree_ok M r \<Longrightarrow> tab M r a d = Some t \<Longrightarrow> tab M r b d' = Some t \<Longrightarrow> d \<le> 3 \<Longrightarrow> d' \<le> 3 \<Longrightarrow> d = d' \<and> agree d a b"
  by (simp add: tree_ok_def)

definition reached :: "tables \<Rightarrow> u64 \<Rightarrow> u64 set" where
  "reached M r = {t. \<exists>a d. d \<le> 3 \<and> tab M r a d = Some t}"

text \<open>An entry of a reached table concerns exactly the addresses that share its prefix.\<close>

lemma other_entries:
  assumes ok: "tree_ok M r" and t: "tab M r a D = Some t" "D \<le> 3" and b: "\<not> agree (Suc D) a b"
    and d: "d \<le> 3" "tab M r b d = Some u"
  shows "(put_at M t (table_index a (4 - D)) e) u (table_index b (4 - d)) = M u (table_index b (4 - d))"
proof (cases "u = t \<and> table_index b (4 - d) = table_index a (4 - D)")
  case True
  with tree_okD [OF ok t(1) _ t(2) d(1)] d(2) have "D = d" "agree D a b" by auto
  with True b t(2) have False by (simp add: agree_Suc)
  then show ?thesis ..
qed auto

text \<open>Writing an entry that is not a pointer over one that is not a pointer.\<close>

lemma put_tab:
  assumes ok: "tree_ok M r" and t: "tab M r a D = Some t" "D \<le> 3"
    and e: "D = 3 \<or> \<not> interior e \<and> \<not> interior (M t (table_index a (4 - D)))"
  shows "d \<le> 3 \<Longrightarrow> tab (put_at M t (table_index a (4 - D)) e) r b d = tab M r b d"
proof (induction d)
  case (Suc d)
  show ?case
  proof (cases "tab M r b d")
    case (Some u)
    show ?thesis
    proof (cases "u = t \<and> table_index b (4 - d) = table_index a (4 - D)")
      case True
      with tree_okD [OF ok t(1) _ t(2), of b d] Some Suc.prems have "D = d" by simp
      with True e Suc Some show ?thesis by (auto simp: Let_def)
    next
      case False
      with Suc Some show ?thesis by (auto simp: Let_def)
    qed
  qed (use Suc in simp)
qed simp

lemma put_leaf:
  assumes ok: "tree_ok M r" and t: "tab M r a D = Some t" "D \<le> 3"
    and e: "D = 3 \<or> \<not> interior e \<and> \<not> interior (M t (table_index a (4 - D)))"
  shows "leaf (put_at M t (table_index a (4 - D)) e) r b =
    (if agree (Suc D) a b then (if present e then Some (4 - D, e) else None) else leaf M r b)"
proof (cases "agree (Suc D) a b")
  case True
  let ?M = "put_at M t (table_index a (4 - D)) e"
  have "agree D a b" "table_index b (4 - D) = table_index a (4 - D)"
    using True t(2) by (simp_all add: agree_Suc)
  then have "tab ?M r b D = Some t" using put_tab [OF ok t e, of D] tab_agree [of D a b] t by simp
  from leaf_at [OF this t(2)] have "leaf ?M r b = leaf_walk ?M b (3 - D) t" .
  also have "\<dots> = (if present e then Some (4 - D, e) else None)"
  proof (cases "D = 3")
    case True
    with \<open>table_index b (4 - D) = _\<close> show ?thesis by (simp add: Let_def)
  next
    case False
    with t(2) have "3 - D = Suc (2 - D)" "4 - D = Suc (Suc (2 - D))" by auto
    with \<open>table_index b (4 - D) = _\<close> e False show ?thesis by (simp add: Let_def)
  qed
  finally show ?thesis using True by simp
next
  case False
  have "leaf (put_at M t (table_index a (4 - D)) e) r b = leaf M r b"
    by (rule leaf_local) (use other_entries [OF ok t False] in blast)
  with False show ?thesis by simp
qed

lemma tree_ok_cong:
  assumes "\<And>b d. d \<le> 3 \<Longrightarrow> tab M' r b d = tab M r b d"
  shows "tree_ok M' r = tree_ok M r" "reached M' r = reached M r"
proof -
  show "tree_ok M' r = tree_ok M r" by (auto simp: tree_ok_def assms)
  show "reached M' r = reached M r" unfolding reached_def by (metis assms)
qed

text \<open>Clearing a table nothing points to.\<close>

lemma fresh_table:
  assumes "n \<notin> reached M r"
  shows "d \<le> 3 \<Longrightarrow> tab (M(n := f)) r b d = tab M r b d" "leaf (M(n := f)) r b = leaf M r b"
proof -
  have same: "(M(n := f)) t (table_index b (4 - d)) = M t (table_index b (4 - d))"
    if "d \<le> 3" "tab M r b d = Some t" for d t
    using assms that by (auto simp: reached_def)
  show "tab (M(n := f)) r b d = tab M r b d" if "d \<le> 3"
    using that by (intro tab_local same) simp_all
  show "leaf (M(n := f)) r b = leaf M r b" by (rule leaf_local) (rule same)
qed

section \<open>Linking and unlinking a table\<close>

lemma link_tab:
  assumes ok: "tree_ok M r" and t: "tab M r a D = Some t" "D < 3"
    and old: "\<not> present (M t (table_index a (4 - D)))"
    and new: "n \<notin> reached M r" "\<And>i. \<not> present (M n i)" "interior e" "frame_of e = n"
  shows "d \<le> 3 \<Longrightarrow> tab (put_at M t (table_index a (4 - D)) e) r b d =
    (if Suc D \<le> d \<and> agree (Suc D) a b then (if d = Suc D then Some n else None) else tab M r b d)"
proof (induction d)
  case (Suc d)
  let ?M = "put_at M t (table_index a (4 - D)) e"
  have nt: "n \<noteq> t" using new(1) t by (auto simp: reached_def)
  show ?case
  proof (cases "agree (Suc D) a b")
    case True
    then have ag: "agree D a b" "table_index b (4 - D) = table_index a (4 - D)" using t(2) by (simp_all add: agree_Suc)
    consider "d < D" | "d = D" | "d = Suc D" | "Suc D < d" by linarith
    then show ?thesis
    proof cases
      case 1
      then obtain u where u: "tab M r b d = Some u"
        using tab_down [of M r a D d] tab_agree [OF agree_mono [OF ag(1)], of d M r] t by auto
      have "u \<noteq> t" using tree_okD [OF ok t(1), of b d] u 1 t(2) by auto
      with 1 Suc u show ?thesis by (simp add: Let_def)
    next
      case 2
      have "tab M r b D = Some t" using tab_agree [OF ag(1)] t by simp
      with 2 Suc True ag new show ?thesis by (simp add: Let_def)
    next
      case 3
      with Suc True nt new(2) show ?thesis by (simp add: Let_def)
    next
      case 4
      with Suc True show ?thesis by simp
    qed
  next
    case False
    then have "tab ?M r b d = tab M r b d" using Suc by simp
    then show ?thesis
      using other_entries [OF ok t(1) _ False, of d] t(2) Suc.prems False by (cases "tab M r b d") simp_all
  qed
qed simp

lemma link_leaf:
  assumes ok: "tree_ok M r" and t: "tab M r a D = Some t" "D < 3"
    and old: "\<not> present (M t (table_index a (4 - D)))"
    and new: "n \<notin> reached M r" "\<And>i. \<not> present (M n i)" "interior e" "frame_of e = n"
  shows "leaf (put_at M t (table_index a (4 - D)) e) r b = leaf M r b"
proof (cases "agree (Suc D) a b")
  case True
  let ?M = "put_at M t (table_index a (4 - D)) e"
  have nt: "n \<noteq> t" using new(1) t by (auto simp: reached_def)
  have "tab ?M r b (Suc D) = Some n"
    using link_tab [OF ok t old new, of "Suc D" b] t(2) True by simp
  then have "leaf ?M r b = leaf_walk ?M b (3 - Suc D) n" using t(2) by (intro leaf_at) simp_all
  also have "\<dots> = None" using new(2) nt by (cases "3 - Suc D") (simp_all add: Let_def)
  also have "None = leaf M r b"
  proof -
    have ag: "agree D a b" "table_index b (4 - D) = table_index a (4 - D)" using True t(2) by (simp_all add: agree_Suc)
    then have "leaf M r b = leaf_walk M b (3 - D) t" using leaf_at tab_agree [OF ag(1)] t by simp
    moreover have "3 - D = Suc (2 - D)" "4 - D = Suc (Suc (2 - D))" using t(2) by auto
    ultimately show ?thesis using old ag(2) by (simp add: Let_def)
  qed
  finally show ?thesis .
next
  case False
  show ?thesis by (rule leaf_local) (use other_entries [OF ok t(1) _ False] t(2) in simp)
qed

lemma link_tree:
  assumes ok: "tree_ok M r" and t: "tab M r a D = Some t" "D < 3"
    and old: "\<not> present (M t (table_index a (4 - D)))"
    and new: "n \<notin> reached M r" "\<And>i. \<not> present (M n i)" "interior e" "frame_of e = n"
  shows "tree_ok (put_at M t (table_index a (4 - D)) e) r"
    "reached (put_at M t (table_index a (4 - D)) e) r \<subseteq> insert n (reached M r)"
proof -
  let ?M = "put_at M t (table_index a (4 - D)) e"
  note tab' = link_tab [OF ok t old new]
  have nr: "tab M r x d \<noteq> Some n" if "d \<le> 3" for x d using new(1) that by (auto simp: reached_def)
  show "tree_ok ?M r"
    unfolding tree_ok_def
  proof (intro allI impI)
    fix x y d d' u assume d: "d \<le> 3" "d' \<le> 3" and x: "tab ?M r x d = Some u" and y: "tab ?M r y d' = Some u"
    show "d = d' \<and> agree d x y"
    proof (cases "u = n")
      case True
      with x y d nr have "d = Suc D \<and> agree (Suc D) a x" "d' = Suc D \<and> agree (Suc D) a y"
        by (auto simp: tab' split: if_splits)
      then show ?thesis using agree_sym agree_trans by blast
    next
      case False
      with x y d have "tab M r x d = Some u" "tab M r y d' = Some u" by (auto simp: tab' split: if_splits)
      then show ?thesis using tree_okD [OF ok] d by blast
    qed
  qed
  have "u = n \<or> tab M r b d = Some u" if "tab ?M r b d = Some u" "d \<le> 3" for b d u
    using that by (auto simp: tab' split: if_splits)
  then show "reached ?M r \<subseteq> insert n (reached M r)" unfolding reached_def by blast
qed

lemma unlink_tab:
  assumes ok: "tree_ok M r" and t: "tab M r a D = Some t" "D < 3" and e: "\<not> present e"
  shows "d \<le> 3 \<Longrightarrow> tab (put_at M t (table_index a (4 - D)) e) r b d =
    (if Suc D \<le> d \<and> agree (Suc D) a b then None else tab M r b d)"
proof (induction d)
  case (Suc d)
  show ?case
  proof (cases "agree (Suc D) a b")
    case True
    then have ag: "agree D a b" "table_index b (4 - D) = table_index a (4 - D)" using t(2) by (simp_all add: agree_Suc)
    consider "d < D" | "d = D" | "D < d" by linarith
    then show ?thesis
    proof cases
      case 1
      then obtain u where u: "tab M r b d = Some u"
        using tab_down [of M r a D d] tab_agree [OF agree_mono [OF ag(1)], of d M r] t by auto
      have "u \<noteq> t" using tree_okD [OF ok t(1), of b d] u 1 t(2) by auto
      with 1 Suc u show ?thesis by (simp add: Let_def)
    next
      case 2
      have "tab M r b D = Some t" using tab_agree [OF ag(1)] t by simp
      with 2 Suc True ag e show ?thesis by (simp add: Let_def)
    next
      case 3
      with Suc True show ?thesis by simp
    qed
  next
    case False
    then show ?thesis
      using other_entries [OF ok t(1) _ False, of d] t(2) Suc by (cases "tab M r b d") simp_all
  qed
qed simp

lemma unlink_leaf:
  assumes ok: "tree_ok M r" and t: "tab M r a D = Some t" "D < 3" and e: "\<not> present e"
    and child: "interior (M t (table_index a (4 - D)))"
      "\<And>i. i < 512 \<Longrightarrow> \<not> present (M (frame_of (M t (table_index a (4 - D)))) i)"
  shows "leaf (put_at M t (table_index a (4 - D)) e) r b = leaf M r b"
proof (cases "agree (Suc D) a b")
  case True
  let ?M = "put_at M t (table_index a (4 - D)) e"
  have ag: "agree D a b" "table_index b (4 - D) = table_index a (4 - D)" using True t(2) by (simp_all add: agree_Suc)
  have s: "3 - D = Suc (2 - D)" "4 - D = Suc (Suc (2 - D))" using t(2) by auto
  have "tab ?M r b D = Some t" using unlink_tab [OF ok t e, of D b] tab_agree [OF ag(1)] t by simp
  then have "leaf ?M r b = leaf_walk ?M b (Suc (2 - D)) t" using leaf_at [of ?M r b D t] t(2) s(1) by simp
  then have "leaf ?M r b = None" using e ag(2) s(2) by (simp add: Let_def)
  moreover have "tab M r b (Suc D) = Some (frame_of (M t (table_index a (4 - D))))"
  proof -
    have "tab M r b D = Some t" using tab_agree [OF ag(1), of M r] t by simp
    then show ?thesis using child(1) ag(2) by (simp add: Let_def)
  qed
  then have "leaf M r b = leaf_walk M b (3 - Suc D) (frame_of (M t (table_index a (4 - D))))"
    by (rule leaf_at) (use t(2) in simp)
  then have "leaf M r b = None"
    using child(2) [OF table_index_less] by (cases "3 - Suc D") (simp_all add: Let_def)
  ultimately show ?thesis by simp
next
  case False
  show ?thesis by (rule leaf_local) (use other_entries [OF ok t(1) _ False] t(2) in simp)
qed

lemma unlink_tree:
  assumes ok: "tree_ok M r" and t: "tab M r a D = Some t" "D < 3" and e: "\<not> present e"
    and child: "interior (M t (table_index a (4 - D)))"
  shows "tree_ok (put_at M t (table_index a (4 - D)) e) r"
    "reached (put_at M t (table_index a (4 - D)) e) r
       \<subseteq> reached M r - {frame_of (M t (table_index a (4 - D)))}"
proof -
  let ?M = "put_at M t (table_index a (4 - D)) e"
  note tab' = unlink_tab [OF ok t e]
  have c: "tab M r a (Suc D) = Some (frame_of (M t (table_index a (4 - D))))" using t child by (simp add: Let_def)
  have old: "tab M r b d = Some u" if "tab ?M r b d = Some u" "d \<le> 3" for b d u
    using that by (simp add: tab' split: if_splits)
  then show "tree_ok ?M r" using ok unfolding tree_ok_def by blast
  have "tab ?M r b d \<noteq> Some (frame_of (M t (table_index a (4 - D))))" if "d \<le> 3" for b d
    using tree_okD [OF ok c, of b d] t(2) that by (auto simp: tab')
  then show "reached ?M r \<subseteq> reached M r - {frame_of (M t (table_index a (4 - D)))}"
    using old unfolding reached_def by blast
qed

section \<open>Entries that point to frames\<close>

lemma frame_mask_bit: "bit PAGE_FRAME_MASK i \<longleftrightarrow> 12 \<le> i \<and> i < 52"
proof -
  have eq: "PAGE_FRAME_MASK = push_bit 12 (mask 40)"
    by (simp add: PAGE_FRAME_MASK_def mask_eq_exp_minus_1 push_bit_eq_mult)
  show ?thesis unfolding eq by (auto simp: bit_push_bit_iff bit_mask_iff)
qed

lemma page_number_bits:
  fixes n :: nat
  assumes "4096 dvd n" "n < 2 ^ 52" "bit n i"
  shows "12 \<le> i \<and> i < 52"
proof -
  obtain q where q: "n = push_bit 12 q" using assms(1) by (auto simp: push_bit_eq_mult dvd_def mult.commute)
  have "n = take_bit 52 n" using assms(2) by (simp add: take_bit_nat_eq_self)
  with assms(3) have "bit (take_bit 52 n) i" by simp
  moreover have "12 \<le> i" using assms(3) by (simp add: q bit_push_bit_iff)
  ultimately show ?thesis by (simp add: bit_take_bit_iff)
qed

lemma frame_part:
  fixes n :: nat
  assumes "4096 dvd n" "n < 2 ^ 52" and flags: "\<And>i. bit flags i \<Longrightarrow> i < 12 \<or> 52 \<le> i"
  shows "(of_nat n OR flags) AND PAGE_FRAME_MASK = of_nat n" "frame_of (of_nat n OR flags) = n"
proof -
  show eq: "(of_nat n OR flags) AND PAGE_FRAME_MASK = of_nat n"
  proof (rule bit_word_eqI)
    fix i assume "i < LENGTH(64)"
    show "bit ((of_nat n OR flags) AND PAGE_FRAME_MASK) i = bit (of_nat n :: 64 word) i"
      using page_number_bits [OF assms(1,2), of i] flags [of i]
      by (auto simp: bit_simps frame_mask_bit bit_of_nat_iff_bit)
  qed
  have "n < 2 ^ 64" using assms(2) by simp
  then show "frame_of (of_nat n OR flags) = n" unfolding eq by (simp add: unsigned_of_nat take_bit_nat_eq_self)
qed

lemma low_bit: "4096 dvd (n :: nat) \<Longrightarrow> n < 2 ^ 52 \<Longrightarrow> i < 12 \<or> 52 \<le> i \<Longrightarrow> \<not> bit (of_nat n :: 64 word) i"
  using page_number_bits [of n i] by (auto simp: bit_simps)

lemma link_entry:
  fixes n :: nat
  assumes "4096 dvd n" "n < 2 ^ 52"
  shows "frame_of (of_nat n OR PAGE_PRESENT OR PAGE_WRITABLE) = n"
    "interior (of_nat n OR PAGE_PRESENT OR PAGE_WRITABLE)"
    "bit (of_nat n OR PAGE_PRESENT OR PAGE_WRITABLE :: 64 word) 1"
    "\<not> bit (of_nat n OR PAGE_PRESENT OR PAGE_WRITABLE :: 64 word) 63"
proof -
  have flags: "bit (PAGE_PRESENT OR PAGE_WRITABLE) i \<longleftrightarrow> i = 0 \<or> i = 1" for i
    unfolding page_bits bit_or_iff bit_push_bit_iff bit_1_iff by auto
  show "frame_of (of_nat n OR PAGE_PRESENT OR PAGE_WRITABLE) = n"
    by (rule frame_part(2) [OF assms]) (auto simp: flags)
  have "bit (of_nat n OR PAGE_PRESENT OR PAGE_WRITABLE :: 64 word) i \<longleftrightarrow> bit (of_nat n :: 64 word) i \<or> i = 0 \<or> i = 1" for i
    using flags by (simp add: bit_or_iff)
  then show "interior (of_nat n OR PAGE_PRESENT OR PAGE_WRITABLE)"
    "bit (of_nat n OR PAGE_PRESENT OR PAGE_WRITABLE :: 64 word) 1"
    "\<not> bit (of_nat n OR PAGE_PRESENT OR PAGE_WRITABLE :: 64 word) 63"
    using low_bit [OF assms] by simp_all
qed

section \<open>The invariant of a hierarchy over the frame allocator\<close>

abbreviation root_of :: "space \<Rightarrow> u64" where "root_of s \<equiv> ph_root (fst s)"
abbreviation tables_of :: "space \<Rightarrow> tables" where "tables_of s \<equiv> mc_tables (snd s)"

definition leaves :: "space \<Rightarrow> u64 \<Rightarrow> (nat \<times> 64 word) option" where
  "leaves s a = leaf (tables_of s) (root_of s) a"

definition pointers_permissive :: "tables \<Rightarrow> u64 \<Rightarrow> bool" where
  "pointers_permissive M r \<longleftrightarrow> (\<forall>a d t. d < 3 \<longrightarrow> tab M r a d = Some t \<longrightarrow> interior (M t (table_index a (4 - d))) \<longrightarrow>
     bit (M t (table_index a (4 - d))) 1 \<and> \<not> bit (M t (table_index a (4 - d))) 63)"

definition space_ok :: "space \<Rightarrow> bool" where
  "space_ok s \<longleftrightarrow> ph_arena_capacity (fst s) = 0 \<and> frame_ready (mc_frames (snd s)) \<and>
     tree_ok (tables_of s) (root_of s) \<and> pointers_permissive (tables_of s) (root_of s) \<and>
     reached (tables_of s) (root_of s) \<subseteq> (\<lambda>f. f * 4096) ` single_set (mc_frames (snd s))"

text \<open>A frame some other client of the allocator holds: taken, and not one of the tables.\<close>

definition holds :: "space \<Rightarrow> nat \<Rightarrow> bool" where
  "holds s f \<longleftrightarrow> f \<in> single_set (mc_frames (snd s)) \<and> f * 4096 \<notin> reached (tables_of s) (root_of s)"

lemma frame_allocate_keeps:
  "frame_allocate null s = (st, a, s') \<Longrightarrow> contiguous_records s' = contiguous_records s \<and>
     next_contiguous_identifier s' = next_contiguous_identifier s"
  by (auto simp: frame_allocate_def Let_def split: if_splits option.splits)

lemma frame_release_keeps:
  "frame_release a s = (st, s') \<Longrightarrow> contiguous_records s' = contiguous_records s \<and>
     next_contiguous_identifier s' = next_contiguous_identifier s"
  by (auto simp: frame_release_def Let_def split: if_splits option.splits)

text \<open>What no step on a hierarchy changes: its identity, and what others hold.\<close>

definition same_frame :: "space \<Rightarrow> space \<Rightarrow> bool" where
  "same_frame s s' \<longleftrightarrow> root_of s' = root_of s \<and> ph_live (fst s') = ph_live (fst s) \<and>
     ph_is_process (fst s') = ph_is_process (fst s) \<and> mc_cr3 (snd s') = mc_cr3 (snd s) \<and>
     (\<forall>f. holds s f \<longrightarrow> holds s' f) \<and>
     contiguous_records (mc_frames (snd s')) = contiguous_records (mc_frames (snd s)) \<and>
     next_contiguous_identifier (mc_frames (snd s')) = next_contiguous_identifier (mc_frames (snd s))"

lemma same_frame_refl [simp]: "same_frame s s"
  by (simp add: same_frame_def)

lemma same_frame_trans: "same_frame a b \<Longrightarrow> same_frame b c \<Longrightarrow> same_frame a c"
  by (simp add: same_frame_def)

lemma tables_set_entry [simp]:
  "tables_of (h, set_entry p e m) = put_at (mc_tables m) (fst p) (snd p) e"
  "mc_frames (set_entry p e m) = mc_frames m" "mc_cr3 (set_entry p e m) = mc_cr3 m"
  "mc_tables (set_entry p e m) = put_at (mc_tables m) (fst p) (snd p) e"
  by (simp_all add: set_entry_def put_at_def)

lemma invalidate_keeps [simp]:
  "fst (invalidate a s) = fst s" "mc_tables (snd (invalidate a s)) = mc_tables (snd s)"
  "mc_frames (snd (invalidate a s)) = mc_frames (snd s)" "mc_cr3 (snd (invalidate a s)) = mc_cr3 (snd s)"
  by (auto simp: invalidate_def split: prod.splits)

lemma leaves_invalidate [simp]: "leaves (invalidate a s) b = leaves s b" "space_ok (invalidate a s) = space_ok s"
  "holds (invalidate a s) f = holds s f"
  by (simp_all add: leaves_def space_ok_def holds_def)

lemma pointers_permissive_put:
  assumes ok: "tree_ok M r" "pointers_permissive M r" and t: "tab M r a D = Some t" "D \<le> 3"
    and tab': "\<And>b d v. d \<le> 3 \<Longrightarrow> tab (put_at M t (table_index a (4 - D)) e) r b d = Some v \<Longrightarrow>
        tab M r b d = Some v \<or> (\<forall>i. \<not> present (put_at M t (table_index a (4 - D)) e v i))"
    and e: "D < 3 \<Longrightarrow> interior e \<Longrightarrow> bit e 1 \<and> \<not> bit e 63"
  shows "pointers_permissive (put_at M t (table_index a (4 - D)) e) r"
  unfolding pointers_permissive_def
proof (intro allI impI)
  let ?M = "put_at M t (table_index a (4 - D)) e"
  fix b d v
  assume d: "d < 3" and v: "tab ?M r b d = Some v" and int: "interior (?M v (table_index b (4 - d)))"
  from tab' [of d b v] d v int have old: "tab M r b d = Some v" by auto
  show "bit (?M v (table_index b (4 - d))) 1 \<and> \<not> bit (?M v (table_index b (4 - d))) 63"
  proof (cases "v = t \<and> table_index b (4 - d) = table_index a (4 - D)")
    case True
    with tree_okD [OF ok(1) t(1) _ t(2), of b d] old d have "D = d" by simp
    with True int e d show ?thesis by auto
  next
    case False
    with int ok(2) d old show ?thesis by (auto simp: pointers_permissive_def)
  qed
qed

section \<open>Allocating and releasing a table\<close>

lemma frame_number_bound: "f \<in> single_set s \<Longrightarrow> f * 4096 < SAPOTE_EARLY_PHYSICAL_LIMIT"
  by (auto simp: single_set_def frame_sets FRAME_COUNT_val SAPOTE_EARLY_PHYSICAL_LIMIT_def)

lemma allocate_table_step:
  assumes ok: "space_ok s" and alloc: "allocate_table s = (st, n, s')"
  obtains (refused) "st = PAGING_STATUS_OUT_OF_FRAMES" "space_ok s'" "same_frame s s'" "tables_of s' = tables_of s"
      "ph_table_frames (fst s') = ph_table_frames (fst s)"
  | (allocated) f where "st = PAGING_STATUS_OK" "n = f * 4096" "f \<in> single_set (mc_frames (snd s'))"
      "n \<notin> reached (tables_of s) (root_of s)" "tables_of s' = (tables_of s)(n := (\<lambda>_. 0))" "space_ok s'" "same_frame s s'"
      "f \<in> free_set (mc_frames (snd s))"
proof -
  obtain h m where s: "s = (h, m)" by fastforce
  have ar: "ph_arena_capacity h = 0" and fr: "frame_ready (mc_frames m)" using ok by (auto simp: space_ok_def s)
  obtain fst1 fr1 fs where fa: "frame_allocate False (mc_frames m) = (fst1, fr1, fs)" by (cases "frame_allocate False (mc_frames m)") auto
  have refuse: "thesis" if "st = PAGING_STATUS_OUT_OF_FRAMES" "fst s' = h" "mc_tables (snd s') = mc_tables m"
      "mc_frames (snd s') = mc_frames m" "mc_cr3 (snd s') = mc_cr3 m"
    using that ok by (intro refused) (auto simp: space_ok_def same_frame_def holds_def s)
  show thesis
  proof (cases "free_set (mc_frames m) = {}")
    case True
    with frame_allocate_empty [of "mc_frames m"] fr fa have "fst1 = FRAME_STATUS_OUT_OF_MEMORY" "fs = mc_frames m"
      by (auto simp: frame_ready_def)
    with alloc ar fa show thesis
      by (intro refuse) (auto simp: allocate_table_def s Let_def split: if_splits)
  next
    case False
    with frame_allocate_some [of "mc_frames m"] fr fa obtain f where
      f: "fst1 = FRAME_STATUS_OK" "fr1 = Some (f * 4096)" "f \<in> free_set (mc_frames m)"
        "single_set fs = insert f (single_set (mc_frames m))" "frame_ready fs"
      by (auto simp: frame_ready_def)
    have "f \<in> single_set fs" using f(4) by simp
    then have bound: "f * 4096 < SAPOTE_EARLY_PHYSICAL_LIMIT" by (rule frame_number_bound)
    have nr: "f * 4096 \<notin> reached (mc_tables m) (ph_root h)"
      using ok f(3) by (auto simp: space_ok_def s single_set_def frame_sets)
    show thesis
    proof (cases "st = PAGING_STATUS_OK")
      case False
      with alloc ar fa f bound show thesis
        by (intro refuse) (auto simp: allocate_table_def s Let_def enter_table_def split: if_splits)
    next
      case True
      with alloc ar fa f bound have n: "n = f * 4096" "mc_tables (snd s') = (mc_tables m)(n := (\<lambda>_. 0))"
          "mc_frames (snd s') = fs" "mc_cr3 (snd s') = mc_cr3 m"
          "fst s' = h\<lparr>ph_table_frames := add64 (ph_table_frames h) 1\<rparr>"
        by (auto simp: allocate_table_def s Let_def enter_table_def zero_table_def split: if_splits)
      note fresh = fresh_table [where f = "\<lambda>_. 0", OF nr, folded n(1)]
      have cong: "tree_ok (mc_tables (snd s')) (ph_root h) = tree_ok (mc_tables m) (ph_root h)"
          "reached (mc_tables (snd s')) (ph_root h) = reached (mc_tables m) (ph_root h)"
        using tree_ok_cong [of "mc_tables (snd s')" "ph_root h" "mc_tables m"] fresh(1) n(2) by simp_all
      have "tab (mc_tables m) (ph_root h) a d = Some t \<and> t \<noteq> n"
        if "tab (mc_tables (snd s')) (ph_root h) a d = Some t" "d \<le> 3" for a d t
        using that fresh(1) nr n(1,2) by (auto simp: reached_def)
      then have perm: "pointers_permissive (mc_tables (snd s')) (ph_root h)"
        using ok n(2) unfolding pointers_permissive_def space_ok_def s by auto
      show thesis
      proof (rule allocated [of f])
        show "space_ok s'" using ok cong perm ar f(4,5) n by (auto simp: space_ok_def s)
        show "same_frame s s'"
          using n s f(4) cong(2) frame_allocate_keeps [OF fa] by (auto simp: same_frame_def holds_def)
      qed (use True n f nr s in auto)
    qed
  qed
qed

section \<open>The walk\<close>

text \<open>A read-only walk to level \<open>L\<close> succeeds exactly when the path reaches that depth, and tells
  an absent mapping from a larger leaf.\<close>

lemma entry_walk_look:
  "tab (tables_of s) (root_of s) a d = Some t \<Longrightarrow> d + k = 4 - L \<Longrightarrow> 1 \<le> L \<Longrightarrow> L \<le> 4 \<Longrightarrow>
   entry_walk a L False k t s =
     (case tab (tables_of s) (root_of s) a (4 - L) of
        Some u \<Rightarrow> (PAGING_STATUS_OK, Some (u, table_index a L), s)
      | None \<Rightarrow> (if leaves s a = None then PAGING_STATUS_NOT_MAPPED else PAGING_STATUS_HUGE_PAGE_PRESENT, None, s))"
proof (induction k arbitrary: d t)
  case (Suc k)
  let ?e = "tables_of s t (table_index a (4 - d))"
  have lev: "L + Suc k = 4 - d" "d < 3" "d < 4 - L" using Suc.prems by auto
  have lw: "leaves s a = leaf_walk (tables_of s) a (3 - d) t"
    using leaf_at [OF Suc.prems(1)] lev by (simp add: leaves_def)
  have s3: "3 - d = Suc (2 - d)" "4 - d = Suc (Suc (2 - d))" using lev by auto
  show ?case
  proof (cases "interior ?e")
    case True
    then have "tab (tables_of s) (root_of s) a (Suc d) = Some (frame_of ?e)" using Suc.prems(1) by (simp add: Let_def)
    from Suc.IH [OF this] Suc.prems True lev show ?thesis by (simp add: get_entry_def Let_def)
  next
    case False
    then have "tab (tables_of s) (root_of s) a (Suc d) = None" using Suc.prems(1) by (auto simp: Let_def)
    then have none: "tab (tables_of s) (root_of s) a (4 - L) = None"
      using tab_down [of "tables_of s" "root_of s" a "4 - L" "Suc d"] lev by fastforce
    show ?thesis using False none lev(1) lw
      by (simp add: get_entry_def Let_def s3)
  qed
qed simp

lemma entry_for_look:
  assumes "1 \<le> L" "L \<le> 4"
  shows "entry_for a L False s =
     (case tab (tables_of s) (root_of s) a (4 - L) of
        Some u \<Rightarrow> (PAGING_STATUS_OK, Some (u, table_index a L), s)
      | None \<Rightarrow> (if leaves s a = None then PAGING_STATUS_NOT_MAPPED else PAGING_STATUS_HUGE_PAGE_PRESENT, None, s))"
  unfolding entry_for_def by (rule entry_walk_look [where d = 0]) (use assms in \<open>simp_all add: PAGING_LEVEL_COUNT_def\<close>)

text \<open>One step of a creating walk: a fresh table is linked where nothing was.\<close>

lemma link_step:
  assumes ok: "space_ok s" and t: "tab (tables_of s) (root_of s) a D = Some t" "D < 3"
    and old: "\<not> present (tables_of s t (table_index a (4 - D)))"
    and alloc: "allocate_table s = (PAGING_STATUS_OK, n, s1)"
    and s2: "s2 = (fst s1, set_entry (t, table_index a (4 - D)) (of_nat n OR PAGE_PRESENT OR PAGE_WRITABLE) (snd s1))"
  shows "space_ok s2" "same_frame s s2" "leaves s2 b = leaves s b" "tab (tables_of s2) (root_of s2) a (Suc D) = Some n"
proof -
  from allocate_table_step [OF ok alloc] obtain f where
    n: "n = f * 4096" "f \<in> single_set (mc_frames (snd s1))" "n \<notin> reached (tables_of s) (root_of s)"
      "tables_of s1 = (tables_of s)(n := (\<lambda>_. 0))" "space_ok s1" "same_frame s s1"
      "f \<in> free_set (mc_frames (snd s))"
    by cases auto
  let ?r = "root_of s" and ?M = "tables_of s1" and ?e = "of_nat n OR PAGE_PRESENT OR PAGE_WRITABLE :: 64 word"
  have r: "root_of s1 = ?r" "root_of s2 = ?r" "mc_cr3 (snd s2) = mc_cr3 (snd s1)"
    using n(6) by (simp_all add: same_frame_def s2)
  have nb: "4096 dvd n" "n < 2 ^ 52"
    using frame_number_bound [OF n(2)] n(1) by (simp_all add: SAPOTE_EARLY_PHYSICAL_LIMIT_def)
  note le = link_entry [OF nb]
  note fresh = fresh_table [where f = "\<lambda>_. 0", OF n(3), folded n(4)]
  have ok1: "tree_ok ?M ?r" "pointers_permissive ?M ?r" using n(5) r by (auto simp: space_ok_def)
  have reach1: "reached ?M ?r = reached (tables_of s) ?r"
    using tree_ok_cong(2) [of ?M ?r "tables_of s"] fresh(1) by simp
  have t1: "tab ?M ?r a D = Some t" using fresh(1) t by simp
  have nt: "n \<noteq> t" using n(3) t by (auto simp: reached_def)
  have old1: "\<not> present (?M t (table_index a (4 - D)))" using old nt n(4) by simp
  have new1: "n \<notin> reached ?M ?r" "\<And>i. \<not> present (?M n i)" using n(3,4) reach1 by auto
  have M2: "tables_of s2 = put_at ?M t (table_index a (4 - D)) ?e" by (simp add: s2)
  note lt = link_tab [OF ok1(1) t1 t(2) old1 new1 le(2,1)] and ll = link_leaf [OF ok1(1) t1 t(2) old1 new1 le(2,1)]
    and ltr = link_tree [OF ok1(1) t1 t(2) old1 new1 le(2,1)]
  have perm: "pointers_permissive (tables_of s2) ?r"
    unfolding M2
  proof (rule pointers_permissive_put [OF ok1 t1])
    show "tab ?M ?r b d = Some v \<or> (\<forall>i. \<not> present (put_at ?M t (table_index a (4 - D)) ?e v i))"
      if "d \<le> 3" "tab (put_at ?M t (table_index a (4 - D)) ?e) ?r b d = Some v" for b d v
    proof (cases "v = n")
      case True
      then show ?thesis using new1(2) nt by auto
    next
      case False
      then show ?thesis using that lt [of d b] by (auto split: if_splits)
    qed
  qed (use t le in auto)
  have "reached (tables_of s2) ?r \<subseteq> (\<lambda>f. f * 4096) ` single_set (mc_frames (snd s2))"
    using ltr(2) n(1,2,5) r unfolding M2 by (auto simp: space_ok_def s2)
  then show "space_ok s2" using n(5) ltr(1) perm r unfolding M2 by (simp add: space_ok_def s2)
  have "holds s2 g" if "holds s g" for g
  proof -
    have "g \<noteq> f" using that n(7) by (auto simp: holds_def single_set_def frame_sets)
    moreover have "holds s1 g" using that n(6) by (simp add: same_frame_def)
    ultimately show ?thesis using ltr(2) n(1) r unfolding M2 holds_def by (auto simp: s2)
  qed
  then show "same_frame s s2" using n(6) by (simp add: same_frame_def s2)
  show "leaves s2 b = leaves s b" using ll fresh(2) r unfolding leaves_def M2 by simp
  show "tab (tables_of s2) (root_of s2) a (Suc D) = Some n"
    using lt [of "Suc D" a] t(2) r unfolding M2 by simp
qed

lemma entry_walk_create:
  assumes "entry_walk a L True k t s = (st, p, s')" "space_ok s" "tab (tables_of s) (root_of s) a d = Some t"
    "d + k = 4 - L" "1 \<le> L"
  shows "space_ok s' \<and> same_frame s s' \<and> (\<forall>b. leaves s' b = leaves s b) \<and>
    (if st = PAGING_STATUS_OK
     then \<exists>u. p = Some (u, table_index a L) \<and> tab (tables_of s') (root_of s') a (4 - L) = Some u
     else st = PAGING_STATUS_OUT_OF_FRAMES \<or> st = PAGING_STATUS_HUGE_PAGE_PRESENT \<and> leaves s a \<noteq> None)"
  using assms
proof (induction k arbitrary: d t s)
  case (Suc k)
  let ?e = "tables_of s t (table_index a (4 - d))"
  have lev: "L + Suc k = 4 - d" "d < 3" "Suc d + k = 4 - L" using Suc.prems by auto
  note walk = Suc.prems(1) [unfolded entry_walk.simps lev(1) get_entry_def fst_conv snd_conv Let_def entry_bits]
  show ?case
  proof (cases "present ?e")
    case False
    obtain st1 n s1 where alloc: "allocate_table s = (st1, n, s1)" by (cases "allocate_table s") auto
    show ?thesis
    proof (cases "st1 = PAGING_STATUS_OK")
      case True
      define s2 where "s2 = (fst s1, set_entry (t, table_index a (4 - d)) (of_nat n OR PAGE_PRESENT OR PAGE_WRITABLE) (snd s1))"
      note step = link_step [OF Suc.prems(2,3) lev(2) False alloc [unfolded True] s2_def]
      have same: "leaves s2 = leaves s" using step(3) by blast
      have "entry_walk a L True k n s2 = (st, p, s')" using walk False alloc True by (simp add: s2_def)
      from Suc.IH [OF this step(1,4) lev(3) Suc.prems(5)] same_frame_trans [OF step(2), of s']
      show ?thesis unfolding same by blast
    next
      case bad: False
      from allocate_table_step [OF Suc.prems(2) alloc] bad have
        r: "st1 = PAGING_STATUS_OUT_OF_FRAMES" "space_ok s1" "same_frame s s1" "tables_of s1 = tables_of s"
        by (cases, auto)+
      have "st = st1" "s' = s1" using walk False alloc bad by simp_all
      with r show ?thesis by (simp add: leaves_def same_frame_def)
    qed
  next
    case True
    have s3: "3 - d = Suc (2 - d)" "4 - d = Suc (Suc (2 - d))" using lev by auto
    show ?thesis
    proof (cases "huge ?e")
      case huge: True
      have "leaves s a = leaf_walk (tables_of s) a (3 - d) t" using leaf_at [OF Suc.prems(3)] lev by (simp add: leaves_def)
      then have "leaves s a \<noteq> None" using True huge by (simp add: s3 Let_def)
      then show ?thesis using walk True huge Suc.prems(2) by simp
    next
      case False
      then have "tab (tables_of s) (root_of s) a (Suc d) = Some (frame_of ?e)"
        using Suc.prems(3) True by (simp add: Let_def)
      moreover have "entry_walk a L True k (frame_of ?e) s = (st, p, s')" using walk True False by simp
      ultimately show ?thesis using Suc.IH [OF _ Suc.prems(2) _ lev(3) Suc.prems(5)] by blast
    qed
  qed
qed auto

lemma entry_for_create:
  assumes "entry_for a L True s = (st, p, s')" "space_ok s" "1 \<le> L" "L \<le> 4"
  shows "space_ok s' \<and> same_frame s s' \<and> (\<forall>b. leaves s' b = leaves s b) \<and>
    (if st = PAGING_STATUS_OK
     then \<exists>u. p = Some (u, table_index a L) \<and> tab (tables_of s') (root_of s') a (4 - L) = Some u
     else st = PAGING_STATUS_OUT_OF_FRAMES \<or> st = PAGING_STATUS_HUGE_PAGE_PRESENT \<and> leaves s a \<noteq> None)"
  using assms(1) unfolding entry_for_def
  by (rule entry_walk_create [where d = 0]) (use assms in \<open>simp_all add: PAGING_LEVEL_COUNT_def\<close>)

section \<open>Writing a leaf of level 1\<close>

lemma leaf_agree:
  assumes "agree 4 a b"
  shows "leaf M r a = leaf M r b"
proof -
  have "table_index a l = table_index b l" if "1 \<le> l" "l \<le> 4" for l using assms that by (simp add: agree_def)
  then show ?thesis by (simp add: leaf_def numeral_3_eq_3 Let_def numeral_2_eq_2 numeral_eq_Suc)
qed

lemma put_step:
  assumes ok: "space_ok s" and t: "tab (tables_of s) (root_of s) a 3 = Some t"
    and s': "s' = (fst s, set_entry (t, table_index a 1) e (snd s))"
  shows "space_ok s'" "same_frame s s'"
    "leaves s' b = (if agree 4 a b then (if present e then Some (1, e) else None) else leaves s b)"
    "d \<le> 3 \<Longrightarrow> tab (tables_of s') (root_of s') b d = tab (tables_of s) (root_of s) b d"
proof -
  let ?M = "tables_of s" and ?r = "root_of s"
  have tr: "tree_ok ?M ?r" "pointers_permissive ?M ?r" using ok by (auto simp: space_ok_def)
  have M': "tables_of s' = put_at ?M t (table_index a (4 - 3)) e" "root_of s' = ?r" by (simp_all add: s')
  have three: "(3::nat) \<le> 3" "(3::nat) = 3 \<or> \<not> interior e \<and> \<not> interior (?M t (table_index a (4 - 3)))" by simp_all
  note pt = put_tab [OF tr(1) t three, folded M'(1)] and pl = put_leaf [OF tr(1) t three, folded M'(1)]
  have cong: "tree_ok (tables_of s') ?r = tree_ok ?M ?r" "reached (tables_of s') ?r = reached ?M ?r"
    by (rule tree_ok_cong, rule pt, assumption)+
  have "pointers_permissive (tables_of s') ?r"
    unfolding M'(1)
    by (rule pointers_permissive_put [OF tr t]) (use pt M'(1) in simp_all)
  then show "space_ok s'" using ok cong M'(2) by (simp add: space_ok_def s')
  have "holds s' f" if "holds s f" for f using that cong(2) M'(2) by (simp add: holds_def s')
  then show "same_frame s s'" by (simp add: same_frame_def s')
  show "leaves s' b = (if agree 4 a b then (if present e then Some (1, e) else None) else leaves s b)"
    using pl [of b] M'(2) by (simp add: leaves_def)
  show "d \<le> 3 \<Longrightarrow> tab (tables_of s') (root_of s') b d = tab ?M ?r b d" using pt M'(2) by simp
qed

section \<open>Reclaiming\<close>

lemma table_is_empty_iff: "table_is_empty t m \<longleftrightarrow> (\<forall>i < 512. \<not> present (mc_tables m t i))"
  by (auto simp: table_is_empty_def list_all_iff PAGING_ENTRIES_PER_TABLE_def)

lemma release_step:
  assumes ok: "space_ok s" and t: "tab (tables_of s) (root_of s) a D = Some t" "D < 3"
    and c: "tab (tables_of s) (root_of s) a (Suc D) = Some c" "table_is_empty c (snd s)"
    and s': "s' = release_table c (fst s, set_entry (t, table_index a (4 - D)) 0 (snd s))"
  shows "space_ok s'" "same_frame s s'" "leaves s' b = leaves s b"
    "d \<le> D \<Longrightarrow> tab (tables_of s') (root_of s') a d = tab (tables_of s) (root_of s) a d"
proof -
  let ?M = "tables_of s" and ?r = "root_of s"
  obtain h m where s: "s = (h, m)" by fastforce
  have tr: "tree_ok ?M ?r" "pointers_permissive ?M ?r" and ar: "ph_arena_capacity h = 0"
    using ok by (auto simp: space_ok_def s)
  have ent: "interior (?M t (table_index a (4 - D)))" "frame_of (?M t (table_index a (4 - D))) = c"
    using c(1) t by (auto simp: Let_def split: if_splits)
  have zero: "\<not> present (0 :: 64 word)" by simp
  note ut = unlink_tab [OF tr(1) t zero] and utr = unlink_tree [OF tr(1) t zero ent(1)]
  have empty: "\<not> present (?M (frame_of (?M t (table_index a (4 - D)))) i)" if "i < 512" for i
    using c(2) that ent(2) by (simp add: table_is_empty_iff)
  note ul = unlink_leaf [OF tr(1) t zero ent(1) empty]
  have M': "tables_of s' = put_at ?M t (table_index a (4 - D)) 0" "root_of s' = ?r" "mc_cr3 (snd s') = mc_cr3 (snd s)"
    "ph_live (fst s') = ph_live (fst s)" "ph_is_process (fst s') = ph_is_process (fst s)"
    "ph_arena_capacity (fst s') = 0" "mc_frames (snd s') = snd (frame_release c (mc_frames m))"
    using ar by (simp_all add: s' release_table_def s Let_def)
  have "Suc D \<le> 3" using t(2) by simp
  with c(1) have "c \<in> reached ?M ?r" unfolding reached_def by blast
  then obtain f where f: "f \<in> single_set (mc_frames m)" "c = f * 4096" using ok by (auto simp: space_ok_def s)
  have "frame_ready (mc_frames m)" using ok by (simp add: space_ok_def s)
  with frame_release_ok [of "mc_frames m" f] f obtain fs where
    fs: "frame_release c (mc_frames m) = (FRAME_STATUS_OK, fs)" "single_set fs = single_set (mc_frames m) - {f}"
      "frame_ready fs" by (auto simp: frame_ready_def)
  have perm: "pointers_permissive (tables_of s') ?r"
    unfolding M'(1) by (rule pointers_permissive_put [OF tr t(1)]) (use t ut in \<open>auto split: if_splits\<close>)
  have "reached (tables_of s') ?r \<subseteq> (\<lambda>f. f * 4096) ` single_set fs"
  proof
    fix x assume "x \<in> reached (tables_of s') ?r"
    then have "x \<in> reached ?M ?r" "x \<noteq> c" using utr(2) ent(2) unfolding M'(1) by auto
    then obtain g where "g \<in> single_set (mc_frames m)" "x = g * 4096" "g \<noteq> f" using ok f by (auto simp: space_ok_def s)
    then show "x \<in> (\<lambda>f. f * 4096) ` single_set fs" by (simp add: fs(2))
  qed
  then show "space_ok s'" using utr(1) perm fs M'(2,6,7) unfolding M'(1) by (simp add: space_ok_def M'(1))
  have "mc_frames (snd s') = fs" using M'(7) fs(1) by simp
  moreover from this have "holds s' g" if "holds s g" for g
  proof -
    have "g \<noteq> f" using that f(2) \<open>c \<in> reached ?M ?r\<close> by (auto simp: holds_def s)
    then show ?thesis using that utr(2) fs(2) M'(2) \<open>mc_frames (snd s') = fs\<close>
      unfolding holds_def M'(1) by (auto simp: s)
  qed
  ultimately show "same_frame s s'"
    using M' frame_release_keeps [OF fs(1)] by (simp add: same_frame_def s)
  show "leaves s' b = leaves s b" using ul M'(2) by (simp add: leaves_def M'(1))
  show "d \<le> D \<Longrightarrow> tab (tables_of s') (root_of s') a d = tab ?M ?r a d" using ut [of d a] t(2) M'(2) by (simp add: M'(1))
qed

lemma reclaim_climb_ok:
  assumes "space_ok s" "1 \<le> level" "length uppers = 4 - level" "level \<le> 4"
    "tab (tables_of s) (root_of s) a (4 - level) = Some table"
    "\<And>j. j < length uppers \<Longrightarrow> tab (tables_of s) (root_of s) a (4 - level - Suc j) = Some (uppers ! j)"
  shows "space_ok (reclaim_climb a level table uppers s) \<and> same_frame s (reclaim_climb a level table uppers s) \<and>
    (\<forall>b. leaves (reclaim_climb a level table uppers s) b = leaves s b)"
  using assms
proof (induction uppers arbitrary: level table s)
  case (Cons parent uppers)
  let ?D = "4 - Suc level"
  have D: "?D < 3" "Suc ?D = 4 - level" "4 - ?D = Suc level" "Suc level \<le> 4" using Cons.prems(2-4) by auto
  have p: "tab (tables_of s) (root_of s) a ?D = Some parent" using Cons.prems(6) [of 0] by simp
  show ?case
  proof (cases "table_is_empty table (snd s)")
    case True
    let ?s = "release_table table (fst s, set_entry (parent, table_index a (Suc level)) 0 (snd s))"
    have "?s = release_table table (fst s, set_entry (parent, table_index a (4 - ?D)) 0 (snd s))" unfolding D(3) ..
    note rel = release_step [OF Cons.prems(1) p D(1) Cons.prems(5) [folded D(2)] True this]
    have "space_ok (reclaim_climb a (Suc level) parent uppers ?s) \<and>
      same_frame ?s (reclaim_climb a (Suc level) parent uppers ?s) \<and>
      (\<forall>b. leaves (reclaim_climb a (Suc level) parent uppers ?s) b = leaves ?s b)"
    proof (rule Cons.IH [OF rel(1)])
      show "tab (tables_of ?s) (root_of ?s) a (4 - Suc level) = Some parent" using rel(4) [of ?D] p by simp
      fix j assume "j < length uppers"
      then show "tab (tables_of ?s) (root_of ?s) a (4 - Suc level - Suc j) = Some (uppers ! j)"
        using rel(4) [of "4 - Suc level - Suc j"] Cons.prems(6) [of "Suc j"] by simp
    qed (use Cons.prems D in auto)
    then show ?thesis using True rel(2,3) same_frame_trans by auto
  qed (use Cons.prems(1) in simp)
qed simp

lemma path_tables_3:
  assumes "path_tables a 3 r m = Some path"
  obtains t1 t2 t3 where "path = [r, t1, t2, t3]" "tab (mc_tables m) r a 1 = Some t1"
    "tab (mc_tables m) r a 2 = Some t2" "tab (mc_tables m) r a 3 = Some t3"
  using assms by (auto simp: numeral_3_eq_3 numeral_2_eq_2 numeral_eq_Suc Let_def split: if_splits)

lemma reclaim_ok:
  assumes ok: "space_ok s"
  shows "space_ok (reclaim_empty_tables a s) \<and> same_frame s (reclaim_empty_tables a s) \<and>
    (\<forall>b. leaves (reclaim_empty_tables a s) b = leaves s b)"
proof (cases "path_tables a 3 (root_of s) (snd s)")
  case None
  with ok show ?thesis by (simp add: reclaim_empty_tables_def PAGING_LEVEL_COUNT_def)
next
  case (Some path)
  from path_tables_3 [OF this] obtain t1 t2 t3 where
    p: "path = [root_of s, t1, t2, t3]" "tab (tables_of s) (root_of s) a 1 = Some t1"
      "tab (tables_of s) (root_of s) a 2 = Some t2" "tab (tables_of s) (root_of s) a 3 = Some t3" .
  have "reclaim_empty_tables a s = reclaim_climb a 1 t3 [t2, t1, root_of s] s"
    using Some by (simp add: reclaim_empty_tables_def PAGING_LEVEL_COUNT_def p(1))
  moreover have "tab (tables_of s) (root_of s) a (4 - 1 - Suc j) = Some ([t2, t1, root_of s] ! j)"
    if "j < length [t2, t1, root_of s]" for j
  proof -
    from that consider "j = 0" | "j = 1" | "j = 2" by fastforce
    then show ?thesis using p by cases (simp_all add: numeral_2_eq_2)
  qed
  ultimately show ?thesis
    using reclaim_climb_ok [of s 1 "[t2, t1, root_of s]" a t3] ok p(4) by simp
qed

end
