(* ===== verification/Page_Tables_Ranges.thy ===== *)
theory Page_Tables_Ranges
  imports Page_Tables_Walk
begin

unbundle bit_operations_syntax

text \<open>
  Mapping, unmapping and protecting ranges of 4 KiB pages: what each leaves the processor to
  find at every canonical address, when it succeeds and when it is refused.
\<close>

section \<open>Canonical addresses and pages\<close>

definition canonical :: "u64 \<Rightarrow> bool" where
  "canonical a \<longleftrightarrow> a < 2 ^ 47 \<or> 2 ^ 64 - 2 ^ 47 \<le> a \<and> a < 2 ^ 64"

lemma address_is_canonical_iff: "a < 2 ^ 64 \<Longrightarrow> address_is_canonical a \<longleftrightarrow> canonical a"
proof -
  assume a: "a < 2 ^ 64"
  have "a div 2 ^ 47 = 0 \<longleftrightarrow> a < 2 ^ 47" by (simp add: div_eq_0_iff)
  moreover have "a div 2 ^ 47 = 0x1FFFF \<longleftrightarrow> 2 ^ 64 - 2 ^ 47 \<le> a"
    using a by auto
  ultimately show ?thesis using a by (simp add: address_is_canonical_def canonical_def Let_def drop_bit_eq_div)
qed

lemma table_index_div: "1 \<le> l \<Longrightarrow> table_index a l = a div 4096 div 512 ^ (l - 1) mod 512"
proof -
  assume "1 \<le> l"
  have "(2::nat) ^ (12 + 9 * (l - 1)) = 4096 * 512 ^ (l - 1)" by (simp add: power_add power_mult)
  then have "drop_bit (12 + 9 * (l - 1)) a = a div 4096 div 512 ^ (l - 1)"
    by (simp add: drop_bit_eq_div div_mult2_eq)
  then show ?thesis
    using and_low_mask [of "a div 4096 div 512 ^ (l - 1)" 9] by (simp add: table_index_def PAGING_ENTRIES_PER_TABLE_def)
qed

lemma digits_512:
  fixes x y :: nat
  assumes "\<And>k. k < n \<Longrightarrow> x div 512 ^ k mod 512 = y div 512 ^ k mod 512"
  shows "x mod 512 ^ n = y mod 512 ^ n"
  using assms
proof (induction n)
  case (Suc n)
  have "x mod 512 ^ n = y mod 512 ^ n" "x div 512 ^ n mod 512 = y div 512 ^ n mod 512"
    using Suc.IH Suc.prems [of n] Suc.prems by simp_all
  then show ?case by (simp add: mod_mult2_eq mult.commute [of 512] del: mult.commute)
qed simp

lemma agree_4_iff:
  assumes a: "canonical a" and b: "canonical b"
  shows "agree 4 a b \<longleftrightarrow> a div 4096 = b div 4096"
proof
  assume ag: "agree 4 a b"
  have "a div 4096 div 512 ^ k mod 512 = b div 4096 div 512 ^ k mod 512" if "k < 4" for k
  proof -
    have "table_index a (Suc k) = table_index b (Suc k)" using ag that by (simp add: agree_def)
    then show ?thesis by (simp add: table_index_div)
  qed
  then have "a div 4096 mod 512 ^ 4 = b div 4096 mod 512 ^ 4" by (rule digits_512)
  moreover have "q mod 512 ^ 4 = (if q < 2 ^ 36 then q else q - (2 ^ 52 - 2 ^ 36))"
    if "canonical x" "q = x div 4096" for x q :: nat
  proof (cases "x < 2 ^ 47")
    case True
    with that(2) have "q < 2 ^ 35" by auto
    then show ?thesis by simp
  next
    case False
    with that have q: "2 ^ 52 - 2 ^ 35 \<le> q" "q < 2 ^ 52" by (auto simp: canonical_def)
    then have "q = (q - (2 ^ 52 - 2 ^ 36)) + 512 ^ 4 * 65535" by simp
    moreover have "q - (2 ^ 52 - 2 ^ 36) < 512 ^ 4" using q by simp
    ultimately have "q mod 512 ^ 4 = q - (2 ^ 52 - 2 ^ 36)" by (metis mod_less mod_mult_self2)
    with q show ?thesis by simp
  qed
  note red = this
  have half: "q < 2 ^ 35 \<or> 2 ^ 52 - 2 ^ 35 \<le> q \<and> q < 2 ^ 52" if "canonical x" "q = x div 4096" for x q :: nat
    using that by (auto simp: canonical_def)
  have fold: "x = y" if "(if x < 2 ^ 36 then x else x - (2 ^ 52 - 2 ^ 36)) = (if y < 2 ^ 36 then y else y - (2 ^ 52 - 2 ^ 36))"
    "x < 2 ^ 35 \<or> 2 ^ 52 - 2 ^ 35 \<le> x \<and> x < 2 ^ 52" "y < 2 ^ 35 \<or> 2 ^ 52 - 2 ^ 35 \<le> y \<and> y < 2 ^ 52" for x y :: nat
    using that by (auto split: if_splits)
  from calculation have "a div 4096 mod 512 ^ 4 = b div 4096 mod 512 ^ 4" by simp
  then show "a div 4096 = b div 4096"
    unfolding red [OF a refl] red [OF b refl] using half [OF a refl] half [OF b refl] by (rule fold)
next
  assume "a div 4096 = b div 4096"
  then show "agree 4 a b" by (auto simp: agree_def table_index_div)
qed

lemma level_page_size_1 [simp]: "level_page_size 1 = 4096" "level_page_size (Suc 0) = 4096"
  by (simp_all add: level_page_size_def push_bit_eq_mult)

lemma range_offsets_pages:
  "4096 dvd n \<Longrightarrow> range_offsets n 4096 = map (\<lambda>k. k * 4096) [0..<n div 4096]"
  by (auto simp: range_offsets_def elim!: dvdE)

lemma range_offsets_set: "4096 dvd n \<Longrightarrow> set (range_offsets n 4096) = {off. 4096 dvd off \<and> off < n}"
proof -
  assume n: "4096 dvd n"
  then obtain q where q: "n = 4096 * q" by (auto elim: dvdE)
  have "set (range_offsets n 4096) = (\<lambda>k. k * 4096) ` {0..<q}"
    unfolding range_offsets_pages [OF n] by (simp add: q)
  also have "\<dots> = {off. 4096 dvd off \<and> off < n}" by (auto simp: q elim!: dvdE)
  finally show ?thesis .
qed

lemma range_offsets_split:
  assumes "4096 dvd n" "range_offsets n 4096 = ys @ x # zs"
  shows "ys = range_offsets x 4096" "4096 dvd x" "x < n"
proof -
  let ?q = "n div 4096" and ?f = "\<lambda>k::nat. k * 4096"
  have eq: "map ?f [0..<?q] = ys @ x # zs" using assms by (simp add: range_offsets_pages)
  have len: "length ys < ?q" using arg_cong [OF eq, of length] by simp
  have "ys = take (length ys) (map ?f [0..<?q])" by (simp add: eq)
  also have "\<dots> = map ?f [0..<length ys]" using len by (simp add: take_map take_upt)
  finally have ys: "ys = map ?f [0..<length ys]" .
  have "x = map ?f [0..<?q] ! length ys" by (simp add: eq)
  also have "\<dots> = length ys * 4096" using len by simp
  finally have x: "x = length ys * 4096" .
  then show "4096 dvd x" "x < n" using len by auto
  show "ys = range_offsets x 4096" using ys x by (simp add: range_offsets_pages)
qed

text \<open>A range that stays in one half of the address space.\<close>

definition good_range :: "u64 \<Rightarrow> u64 \<Rightarrow> bool" where
  "good_range va n \<longleftrightarrow> 4096 dvd va \<and> 4096 dvd n \<and> (va + n \<le> 2 ^ 47 \<or> 2 ^ 64 - 2 ^ 47 \<le> va \<and> va + n < 2 ^ 64)"

lemma good_range_page:
  assumes g: "good_range va n" and off: "4096 dvd off" "off < n"
  shows "add64 va off = va + off" "canonical (va + off)"
    "canonical b \<Longrightarrow> agree 4 (va + off) b \<longleftrightarrow> b div 4096 * 4096 = va + off"
proof -
  show c: "canonical (va + off)" using g off(2) by (auto simp: good_range_def canonical_def)
  show "add64 va off = va + off" using g off(2) by (intro add64_id) (auto simp: good_range_def)
  have "4096 dvd va + off" using g off by (simp add: good_range_def)
  then have "(va + off) div 4096 * 4096 = va + off" by simp
  then show "agree 4 (va + off) b \<longleftrightarrow> b div 4096 * 4096 = va + off" if "canonical b"
    using agree_4_iff [OF c that] by auto
qed

lemma in_range_page:
  assumes "good_range va n"
  shows "(\<exists>off. 4096 dvd off \<and> off < n \<and> b div 4096 * 4096 = va + off) \<longleftrightarrow> va \<le> b \<and> b < va + n"
proof -
  from assms obtain p q where pq: "va = 4096 * p" "n = 4096 * q" by (auto simp: good_range_def elim!: dvdE)
  have "(\<exists>off. 4096 dvd off \<and> off < n \<and> b div 4096 * 4096 = va + off) \<longleftrightarrow>
      p \<le> b div 4096 \<and> b div 4096 < p + q"
  proof
    assume "\<exists>off. 4096 dvd off \<and> off < n \<and> b div 4096 * 4096 = va + off"
    then obtain k where "4096 * k < 4096 * q" "b div 4096 * 4096 = 4096 * p + 4096 * k"
      unfolding pq by (elim exE conjE dvdE) blast
    then show "p \<le> b div 4096 \<and> b div 4096 < p + q" by linarith
  next
    assume "p \<le> b div 4096 \<and> b div 4096 < p + q"
    then obtain k where "b div 4096 = p + k" "k < q" using le_Suc_ex by fastforce
    then show "\<exists>off. 4096 dvd off \<and> off < n \<and> b div 4096 * 4096 = va + off"
      unfolding pq by (intro exI [of _ "4096 * k"]) simp
  qed
  also have "\<dots> \<longleftrightarrow> va \<le> b \<and> b < va + n" 
  proof -
    define c r where "c = b div 4096" and "r = b mod 4096"
    then have "b = 4096 * c + r" "r < 4096" by simp_all
    then show ?thesis unfolding pq c_def [symmetric] by (intro iffI conjI; linarith)
  qed
  finally show ?thesis .
qed

lemma validate_virtual_ok:
  assumes "validate_virtual_range va n 4096 = PAGING_STATUS_OK" "va < 2 ^ 64" "n \<le> 2 ^ 63"
  shows "good_range va n" "0 < n"
proof -
  have v: "n \<noteq> 0" "va AND 4095 = 0" "n AND 4095 = 0" "address_is_canonical va" "n \<le> sub64 UINT64_MAX va"
      "address_is_canonical (sub64 (add64 va n) 1)"
    using assms(1) by (auto simp: validate_virtual_range_def split: if_splits)
  then show "0 < n" by simp
  have s: "sub64 UINT64_MAX va = UINT64_MAX - va" using assms(2) by (intro sub64_id) auto
  then have bound: "va + n < 2 ^ 64" using v(5) assms(2) by simp
  have "sub64 (add64 va n) 1 = va + n - 1" using bound v(1) by (simp add: add64_id sub64_id)
  then have c: "canonical va" "canonical (va + n - 1)"
    using v(4,6) assms(2) bound by (simp_all add: address_is_canonical_iff)
  have d: "4096 dvd va" "4096 dvd n" using v(2,3) by (auto simp: dvd_eq_mod_eq_0)
  then obtain p q where pq: "va = 4096 * p" "n = 4096 * q" by (auto elim!: dvdE)
  have "va + n \<le> 2 ^ 47 \<or> 2 ^ 64 - 2 ^ 47 \<le> va"
    using c assms(3) v(1) bound by (auto simp: canonical_def)
  then show "good_range va n" using d bound by (auto simp: good_range_def)
qed

section \<open>Clearing\<close>

fun small :: "(nat \<times> 64 word) option \<Rightarrow> bool" where
  "small None = True"
| "small (Some (l, e)) = (l = 1)"

lemma leaf_level:
  assumes "leaf M r a = Some (l, e)"
  shows "tab M r a 3 \<noteq> None \<longleftrightarrow> l = 1" "present e" "1 \<le> l" "l \<le> 4"
proof -
  have "leaf_walk M a k t = Some (l, e) \<Longrightarrow> tab M r a (3 - k) = Some t \<Longrightarrow> k \<le> 3 \<Longrightarrow>
      (tab M r a 3 \<noteq> None \<longleftrightarrow> l = 1) \<and> present e \<and> 1 \<le> l \<and> l \<le> Suc k" for k t
  proof (induction k arbitrary: t)
    case (Suc k)
    have s: "4 - (3 - Suc k) = Suc (Suc k)" "Suc (3 - Suc k) = 3 - k" using Suc.prems(3) by auto
    let ?e = "M t (table_index a (Suc (Suc k)))"
    show ?case
    proof (cases "huge ?e")
      case True
      then have "tab M r a (Suc (3 - Suc k)) = None" using Suc.prems(2) s(1) by (simp add: Let_def)
      then have "tab M r a (3 - k) = None" unfolding s(2) .
      then have "tab M r a 3 = None" using tab_down [of M r a 3 "3 - k"] by fastforce
      moreover have "l = Suc (Suc k)" "present e" using Suc.prems(1) True by (auto simp: Let_def split: if_splits)
      ultimately show ?thesis by simp
    next
      case False
      then have i: "present ?e" "leaf_walk M a k (frame_of ?e) = Some (l, e)"
        using Suc.prems(1) by (auto simp: Let_def split: if_splits)
      have "tab M r a (Suc (3 - Suc k)) = Some (frame_of ?e)" using Suc.prems(2) i(1) False s(1) by (simp add: Let_def)
      then have "tab M r a (3 - k) = Some (frame_of ?e)" unfolding s(2) .
      from Suc.IH [OF i(2) this] Suc.prems(3) show ?thesis by linarith
    qed
  qed (auto simp: Let_def split: if_splits)
  from this [of 3 r] assms show "tab M r a 3 \<noteq> None \<longleftrightarrow> l = 1" "present e" "1 \<le> l" "l \<le> 4"
    by (auto simp: leaf_def)
qed

lemma leaf_small: "tab M r a 3 = Some t \<Longrightarrow>
    leaf M r a = (if present (M t (table_index a 1)) then Some (1, M t (table_index a 1)) else None)"
  using leaf_at [of M r a 3 t] by (simp add: Let_def)

lemma clear_page_ok:
  assumes ok: "space_ok s" and s': "s' = clear_page va 1 off s" and a: "a = add64 va off"
  shows "space_ok s' \<and> same_frame s s' \<and>
    (\<forall>b. leaves s' b = (if agree 4 a b \<and> small (leaves s b) then None else leaves s b))"
proof (cases "tab (tables_of s) (root_of s) a 3")
  case None
  then have "s' = s" by (simp add: s' clear_page_def entry_for_look a [symmetric])
  moreover have "leaves s b = None" if "agree 4 a b" "small (leaves s b)" for b
  proof (rule ccontr)
    assume "leaves s b \<noteq> None"
    then obtain l e where le: "leaves s b = Some (l, e)" by auto
    moreover have "leaves s a = leaves s b" unfolding leaves_def by (rule leaf_agree [OF that(1)])
    ultimately show False using that(2) leaf_level(1) [of "tables_of s" "root_of s" a l e] None by (simp add: leaves_def)
  qed
  ultimately show ?thesis using ok by auto
next
  case (Some t)
  let ?s1 = "(fst s, set_entry (t, table_index a 1) 0 (snd s))"
  note put = put_step [OF ok Some refl]
  note inv = leaves_invalidate [of a ?s1]
  have "space_ok (invalidate a ?s1)" using inv(2) put(1) by blast
  note rec = reclaim_ok [OF this, of a]
  have s'': "s' = reclaim_empty_tables a (invalidate a ?s1)"
    using Some by (simp add: s' clear_page_def entry_for_look a [symmetric] Let_def)
  have frame: "same_frame s (invalidate a ?s1)" using put(2) by (simp add: same_frame_def)
  have "leaves s' b = (if agree 4 a b \<and> small (leaves s b) then None else leaves s b)" for b
  proof -
    have "leaves s' b = leaves ?s1 b" using rec inv(1) s'' by simp
    also have "\<dots> = (if agree 4 a b then None else leaves s b)" using put(3) [where b = b and e = 0] by simp
    also have "\<dots> = (if agree 4 a b \<and> small (leaves s b) then None else leaves s b)"
    proof (cases "agree 4 a b")
      case True
      then have "leaves s b = leaves s a" unfolding leaves_def by (metis leaf_agree)
      then have "small (leaves s b)" using leaf_small [OF Some] by (simp add: leaves_def)
      with True show ?thesis by simp
    qed simp
    finally show ?thesis .
  qed
  then show ?thesis using rec frame same_frame_trans s'' by blast
qed

lemma clear_fold:
  assumes "space_ok s" "s' = fold (clear_page va 1) xs s"
  shows "space_ok s' \<and> same_frame s s' \<and>
    (\<forall>b. leaves s' b = (if (\<exists>x \<in> set xs. agree 4 (add64 va x) b) \<and> small (leaves s b) then None else leaves s b))"
  using assms
proof (induction xs arbitrary: s)
  case (Cons x xs)
  obtain s1 where s1: "s1 = clear_page va 1 x s" by simp
  note step = clear_page_ok [OF Cons.prems(1) s1 refl]
  then have ok1: "space_ok s1" by blast
  have "s' = fold (clear_page va 1) xs s1" using Cons.prems(2) s1 by simp
  note rest = Cons.IH [OF ok1 this]
  have "leaves s' b = (if (\<exists>y \<in> set (x # xs). agree 4 (add64 va y) b) \<and> small (leaves s b) then None else leaves s b)" for b
  proof -
    have l1: "leaves s1 b = (if agree 4 (add64 va x) b \<and> small (leaves s b) then None else leaves s b)"
      and l2: "leaves s' b = (if (\<exists>y \<in> set xs. agree 4 (add64 va y) b) \<and> small (leaves s1 b) then None else leaves s1 b)"
      using step rest by blast+
    show ?thesis unfolding l2 l1 list.set bex_simps by (cases "agree 4 (add64 va x) b"; cases "small (leaves s b)") simp_all
  qed
  with step rest show ?case using same_frame_trans by blast
qed simp

lemma clear_range_ok:
  assumes ok: "space_ok s" and s': "s' = clear_range va n 1 s" and g: "good_range va n"
  shows "space_ok s'" "same_frame s s'"
    "canonical b \<Longrightarrow> leaves s' b = (if va \<le> b \<and> b < va + n \<and> small (leaves s b) then None else leaves s b)"
proof -
  note fold = clear_fold [OF ok, of s' va "range_offsets n 4096"]
  have s'': "s' = fold (clear_page va 1) (range_offsets n 4096) s" by (simp add: s' clear_range_def)
  from fold s'' show "space_ok s'" "same_frame s s'" by simp_all
  have n: "4096 dvd n" using g by (simp add: good_range_def)
  have "(\<exists>x \<in> set (range_offsets n 4096). agree 4 (add64 va x) b) \<longleftrightarrow> va \<le> b \<and> b < va + n" if "canonical b"
    unfolding range_offsets_set [OF n] in_range_page [OF g, symmetric]
    using good_range_page [OF g] that by auto
  then show "leaves s' b = (if va \<le> b \<and> b < va + n \<and> small (leaves s b) then None else leaves s b)" if "canonical b"
    using fold s'' that by simp
qed

section \<open>Mapping\<close>

definition leaf_entry :: "u64 \<Rightarrow> 32 word \<Rightarrow> 64 word" where
  "leaf_entry pa permissions = of_nat pa OR permissions_to_flags permissions"

lemma flags_bits:
  "bit (permissions_to_flags p) i \<longleftrightarrow>
     i = 0 \<or> i = 1 \<and> bit p 0 \<or> i = 63 \<and> \<not> bit p 1 \<or> (i = 4 \<or> i = 3) \<and> bit p 2 \<or> i = 3 \<and> bit p 3"
proof -
  have p: "p AND PAGING_WRITE = 0 \<longleftrightarrow> \<not> bit p 0" "p AND PAGING_EXECUTE = 0 \<longleftrightarrow> \<not> bit p 1"
    "p AND PAGING_UNCACHED = 0 \<longleftrightarrow> \<not> bit p 2" "p AND PAGING_WRITE_COMBINING = 0 \<longleftrightarrow> \<not> bit p 3"
    unfolding PAGING_WRITE_def PAGING_EXECUTE_def PAGING_UNCACHED_def PAGING_WRITE_COMBINING_def
    by (rule and_push_bit_one)+
  have z: "\<not> bit (0 :: 64 word) i" by simp
  show ?thesis
    unfolding permissions_to_flags_def p page_bits bit_or_iff if_distrib [of "\<lambda>w. bit w i"] bit_push_bit_iff bit_1_iff
    using z by auto
qed

lemma leaf_entry_present [simp]: "present (leaf_entry pa p)"
  by (simp add: leaf_entry_def bit_or_iff flags_bits)

lemma install_page_ok:
  assumes ok: "space_ok s" and run: "install_page va pa p 1 off s = r" and a: "a = add64 va off"
  shows "case r of
      Inr s' \<Rightarrow> space_ok s' \<and> same_frame s s' \<and>
        (\<forall>b. leaves s' b = (if agree 4 a b then Some (1, leaf_entry (add64 pa off) p) else leaves s b))
    | Inl (st, s') \<Rightarrow> (st = PAGING_STATUS_OUT_OF_FRAMES \<or> st = PAGING_STATUS_HUGE_PAGE_PRESENT \<and> leaves s a \<noteq> None) \<and>
        (\<exists>s1. s' = clear_range va off 1 s1 \<and> space_ok s1 \<and> same_frame s s1 \<and> (\<forall>b. leaves s1 b = leaves s b))"
proof -
  obtain st e s1 where ef: "entry_for a 1 True s = (st, e, s1)" by (cases "entry_for a 1 True s") auto
  have one: "1 \<le> (1::nat)" "(1::nat) \<le> 4" by simp_all
  note en = entry_for_create [OF ef ok one]
  show ?thesis
  proof (cases "st = PAGING_STATUS_OK")
    case True
    then obtain u where u: "e = Some (u, table_index a 1)" "tab (tables_of s1) (root_of s1) a (4 - 1) = Some u"
      using en by auto
    then have t: "tab (tables_of s1) (root_of s1) a 3 = Some u" by simp
    let ?s2 = "(fst s1, set_entry (u, table_index a 1) (leaf_entry (add64 pa off) p) (snd s1))"
    have ok1: "space_ok s1" "same_frame s s1" "leaves s1 = leaves s" using en by auto
    note put = put_step [where e = "leaf_entry (add64 pa off) p", OF ok1(1) t refl]
    have r: "r = Inr (invalidate a ?s2)"
      using run ef True u(1) by (simp add: install_page_def a [symmetric] leaf_entry_def)
    have "same_frame s ?s2" by (rule same_frame_trans [OF ok1(2) put(2)])
    then have "same_frame s (invalidate a ?s2)" by (simp add: same_frame_def)
    moreover have "space_ok (invalidate a ?s2)" using put(1) leaves_invalidate(2) by blast
    moreover have "leaves (invalidate a ?s2) b =
        (if agree 4 a b then Some (1, leaf_entry (add64 pa off) p) else leaves s b)" for b
      using put(3) [of b] ok1(3) leaves_invalidate(1) by simp
    ultimately show ?thesis by (simp add: r)
  next
    case False
    then have r: "r = Inl (st, clear_range va off 1 s1)"
      using run ef by (simp add: install_page_def a [symmetric])
    have "space_ok s1 \<and> same_frame s s1 \<and> (\<forall>b. leaves s1 b = leaves s b)"
      "st = PAGING_STATUS_OUT_OF_FRAMES \<or> st = PAGING_STATUS_HUGE_PAGE_PRESENT \<and> leaves s a \<noteq> None"
      using en False by presburger+
    then show ?thesis unfolding r sum.case prod.case by blast
  qed
qed

lemma install_fold:
  assumes "fold_until (install_page va pa p 1) xs s = Inr s'" "space_ok s"
  shows "space_ok s' \<and> same_frame s s' \<and>
    (\<forall>b. (\<exists>x \<in> set xs. agree 4 (add64 va x) b \<and> leaves s' b = Some (1, leaf_entry (add64 pa x) p)) \<or>
       (\<forall>x \<in> set xs. \<not> agree 4 (add64 va x) b) \<and> leaves s' b = leaves s b)"
  using assms
proof (induction xs arbitrary: s)
  case (Cons x xs)
  from Cons.prems(1) obtain s1 where s1: "install_page va pa p 1 x s = Inr s1"
    "fold_until (install_page va pa p 1) xs s1 = Inr s'" by (auto split: sum.splits)
  have step: "space_ok s1" "same_frame s s1"
    "\<And>b. leaves s1 b = (if agree 4 (add64 va x) b then Some (1, leaf_entry (add64 pa x) p) else leaves s b)"
    using install_page_ok [OF Cons.prems(2) s1(1) refl] by simp_all
  note rest = Cons.IH [OF s1(2) step(1)]
  have "(\<exists>y \<in> set (x # xs). agree 4 (add64 va y) b \<and> leaves s' b = Some (1, leaf_entry (add64 pa y) p)) \<or>
       (\<forall>y \<in> set (x # xs). \<not> agree 4 (add64 va y) b) \<and> leaves s' b = leaves s b" for b
    using rest step(3) [of b] by (cases "agree 4 (add64 va x) b") (auto split: if_splits)
  with step(2) rest show ?case using same_frame_trans by blast
qed simp

lemma check_unmapped_None:
  assumes "check_unmapped va 1 off s = None"
  shows "leaves s (add64 va off) = None"
proof (cases "tab (tables_of s) (root_of s) (add64 va off) 3")
  case None
  with assms show ?thesis by (auto simp: check_unmapped_def entry_for_look split: if_splits)
next
  case (Some t)
  with assms have "\<not> present (tables_of s t (table_index (add64 va off) 1))"
    by (auto simp: check_unmapped_def entry_for_look get_entry_def split: if_splits)
  with leaf_small [OF Some] show ?thesis by (simp add: leaves_def)
qed

lemma page_base: "(b :: nat) div 4096 * 4096 = va + x \<Longrightarrow> x = b div 4096 * 4096 - va"
  by simp

lemma install_prefix:
  assumes run: "fold_until (install_page va pa p 1) (range_offsets m 4096) s = Inr s'" and ok: "space_ok s"
    and g: "good_range va n" and m: "4096 dvd m" "m \<le> n" and b: "canonical b"
  shows "leaves s' b = (if va \<le> b \<and> b < va + m
     then Some (1, leaf_entry (add64 pa (b div 4096 * 4096 - va)) p) else leaves s b)"
proof -
  have gm: "good_range va m" using g m by (auto simp: good_range_def)
  have agree: "agree 4 (add64 va x) b \<longleftrightarrow> b div 4096 * 4096 = va + x" if "x \<in> set (range_offsets m 4096)" for x
    using good_range_page(1) [OF gm, of x] good_range_page(3) [OF gm, of x b] that b by (simp add: range_offsets_set [OF m(1)])
  have inr: "(\<exists>x \<in> set (range_offsets m 4096). b div 4096 * 4096 = va + x) \<longleftrightarrow> va \<le> b \<and> b < va + m"
    using in_range_page [OF gm, of b] by (auto simp: range_offsets_set [OF m(1)])
  from install_fold [OF run ok] consider
    (hit) x where "x \<in> set (range_offsets m 4096)" "agree 4 (add64 va x) b" "leaves s' b = Some (1, leaf_entry (add64 pa x) p)"
  | (miss) "\<forall>x \<in> set (range_offsets m 4096). \<not> agree 4 (add64 va x) b" "leaves s' b = leaves s b" by blast
  then show ?thesis
  proof cases
    case hit
    with agree have "x = b div 4096 * 4096 - va" "va \<le> b \<and> b < va + m" using inr page_base by blast+
    with hit(3) show ?thesis by simp
  next
    case miss
    with agree inr have out: "\<not> (va \<le> b \<and> b < va + m)" by blast
    show ?thesis unfolding if_not_P [OF out] by (rule miss(2))
  qed
qed

lemma map_range_cases:
  assumes "map_range va pa n p 1 s = (st, s')"
  obtains (refused) "st \<noteq> PAGING_STATUS_OK" "s' = s"
  | (checked) "validate_permissions p = PAGING_STATUS_OK" "validate_virtual_range va n 4096 = PAGING_STATUS_OK"
      "validate_physical_range pa n 4096 = PAGING_STATUS_OK"
      "\<And>x. x \<in> set (range_offsets n 4096) \<Longrightarrow> check_unmapped va 1 x s = None"
      "(case fold_until (install_page va pa p 1) (range_offsets n 4096) s of
          Inl failure \<Rightarrow> failure | Inr s1 \<Rightarrow> (PAGING_STATUS_OK, s1)) = (st, s')"
proof (cases "first_some (\<lambda>off. check_unmapped va 1 off s) (range_offsets n 4096)")
  case None
  then have "\<And>x. x \<in> set (range_offsets n 4096) \<Longrightarrow> check_unmapped va 1 x s = None"
    by (simp add: first_some_None_iff)
  note all = this
  show thesis
  proof (cases "validate_permissions p = PAGING_STATUS_OK \<and> validate_virtual_range va n 4096 = PAGING_STATUS_OK \<and>
      validate_physical_range pa n 4096 = PAGING_STATUS_OK")
    case True
    then have "(case fold_until (install_page va pa p 1) (range_offsets n 4096) s of
          Inl failure \<Rightarrow> failure | Inr s1 \<Rightarrow> (PAGING_STATUS_OK, s1)) = (st, s')"
      using assms None by (simp add: map_range_def)
    with True all show thesis by (intro checked) simp_all
  next
    case False
    then have "s' = s" "st \<noteq> PAGING_STATUS_OK"
      using assms by (auto simp: map_range_def Let_def split: if_splits)
    then show thesis by (intro refused)
  qed
next
  case (Some status)
  then obtain x where "check_unmapped va 1 x s = Some status" using first_some_SomeD by fastforce
  then have "status \<noteq> PAGING_STATUS_OK" by (auto simp: check_unmapped_def split: if_splits prod.splits)
  with Some assms show thesis
    by (intro refused) (auto simp: map_range_def Let_def split: if_splits)
qed

lemma validate_physical_ok:
  assumes "validate_physical_range pa n 4096 = PAGING_STATUS_OK" "pa < 2 ^ 64"
  shows "4096 dvd pa" "pa + n \<le> 2 ^ 52"
proof -
  have v: "pa AND 4095 = 0" "n \<le> sub64 UINT64_MAX pa" "add64 pa n \<le> PAGE_PHYSICAL_LIMIT"
    using assms(1) by (auto simp: validate_physical_range_def not_less split: if_splits)
  show "4096 dvd pa" using v(1) by (simp add: dvd_eq_mod_eq_0)
  have "sub64 UINT64_MAX pa = UINT64_MAX - pa" using assms(2) by (intro sub64_id) auto
  then have "pa + n < 2 ^ 64" using v(2) assms(2) by simp
  then show "pa + n \<le> 2 ^ 52" using v(3) by (simp add: add64_id PAGE_PHYSICAL_LIMIT_def)
qed

lemma map_range_ok:
  assumes ok: "space_ok s" and bounds: "va < 2 ^ 64" "pa < 2 ^ 64"
    and run: "map_range va pa n p 1 s = (st, s')"
  shows "space_ok s' \<and> same_frame s s' \<and>
    (if st = PAGING_STATUS_OK
     then 4096 dvd va \<and> 4096 dvd pa \<and> 0 < n \<and> pa + n \<le> 2 ^ 52 \<and> validate_permissions p = PAGING_STATUS_OK \<and>
       good_range va n \<and>
       (\<forall>b. canonical b \<longrightarrow> va \<le> b \<and> b < va + n \<longrightarrow> leaves s b = None) \<and>
       (\<forall>b. canonical b \<longrightarrow> leaves s' b = (if va \<le> b \<and> b < va + n
          then Some (1, leaf_entry (pa + (b div 4096 * 4096 - va)) p) else leaves s b))
     else \<forall>b. canonical b \<longrightarrow> leaves s' b = leaves s b)"
  using run
proof (cases rule: map_range_cases)
  case refused
  then show ?thesis using ok by simp
next
  case checked
  note phys = validate_physical_ok [OF checked(3) bounds(2)]
  have "n \<le> 2 ^ 63" using phys(2) by simp
  note virt = validate_virtual_ok [OF checked(2) bounds(1) this]
  have n: "4096 dvd n" using virt(1) by (simp add: good_range_def)
  have empty: "leaves s b = None" if b: "canonical b" "va \<le> b" "b < va + n" for b
  proof -
    obtain off where off: "4096 dvd off" "off < n" "b div 4096 * 4096 = va + off"
      using in_range_page [OF virt(1), of b] b(2,3) by blast
    then have "agree 4 (add64 va off) b" using good_range_page [OF virt(1) off(1,2)] b(1) by simp
    moreover have "leaves s (add64 va off) = None"
      using checked(4) [of off] off by (intro check_unmapped_None) (simp add: range_offsets_set [OF n])
    ultimately show ?thesis unfolding leaves_def by (metis leaf_agree)
  qed
  show ?thesis
  proof (cases "fold_until (install_page va pa p 1) (range_offsets n 4096) s")
    case (Inr s1)
    with checked(5) have st: "st = PAGING_STATUS_OK" "s' = s1" by simp_all
    note fold = install_fold [OF Inr ok]
    have "leaves s' b = (if va \<le> b \<and> b < va + n
        then Some (1, leaf_entry (pa + (b div 4096 * 4096 - va)) p) else leaves s b)" if "canonical b" for b
    proof -
      have "add64 pa (b div 4096 * 4096 - va) = pa + (b div 4096 * 4096 - va)" if "va \<le> b" "b < va + n"
      proof (rule add64_id)
        have "c - va < n" if "c \<le> b" for c using that \<open>va \<le> b\<close> \<open>b < va + n\<close> by arith
        from this [OF div_times_less_eq_dividend] have "pa + (b div 4096 * 4096 - va) < 2 ^ 52"
          using phys(2) by (meson add_less_mono1 add_strict_left_mono less_le_trans)
        then show "pa + (b div 4096 * 4096 - va) < 2 ^ 64" by simp
      qed
      then show ?thesis using install_prefix [OF Inr ok virt(1) n order_refl that] st by simp
    qed
    then show ?thesis using fold st phys virt checked(1) empty by (simp add: good_range_def)
  next
    case (Inl failure)
    from fold_until_prefix [OF Inl] obtain ys x zs s1 where
      f: "range_offsets n 4096 = ys @ x # zs" "fold_until (install_page va pa p 1) ys s = Inr s1"
        "install_page va pa p 1 x s1 = Inl failure" .
    note sp = range_offsets_split [OF n f(1)]
    have ok1: "space_ok s1" "same_frame s s1" using install_fold [OF f(2) ok] by auto
    have pre: "leaves s1 b = (if va \<le> b \<and> b < va + x
        then Some (1, leaf_entry (add64 pa (b div 4096 * 4096 - va)) p) else leaves s b)" if "canonical b" for b
      using install_prefix [OF f(2) [unfolded sp(1)] ok virt(1) sp(2) less_imp_le [OF sp(3)] that] .
    have fail: "failure = (st, s')" using checked(5) Inl by simp
    obtain s2 where s2: "s' = clear_range va x 1 s2" "space_ok s2" "same_frame s1 s2" "\<And>b. leaves s2 b = leaves s1 b"
      and st: "st \<noteq> PAGING_STATUS_OK"
      using install_page_ok [OF ok1(1) f(3) refl] fail by auto
    have gx: "good_range va x" using virt(1) sp by (auto simp: good_range_def)
    note cl = clear_range_ok [OF s2(2,1) gx]
    have "leaves s' b = leaves s b" if "canonical b" for b
    proof (cases "va \<le> b \<and> b < va + x")
      case True
      then have "leaves s b = None" using empty that sp(3) by simp
      moreover have "leaves s' b = None" using cl(3) [OF that] s2(4) pre [OF that] True by simp
      ultimately show ?thesis by simp
    next
      case False
      then have out: "\<not> (va \<le> b \<and> b < va + x \<and> small (leaves s2 b))" by blast
      have "leaves s' b = leaves s2 b" unfolding cl(3) [OF that] by (rule if_not_P [OF out])
      also have "\<dots> = leaves s1 b" by (rule s2(4))
      also have "\<dots> = leaves s b" unfolding pre [OF that] by (rule if_not_P [OF False])
      finally show ?thesis .
    qed
    then show ?thesis using cl(1,2) st ok1(2) s2(3) same_frame_trans by simp
  qed
qed

section \<open>Unmapping\<close>

lemma check_mapped_iff:
  "check_mapped va off s = None \<longleftrightarrow> (\<exists>e. leaves s (add64 va off) = Some (1, e))"
proof (cases "tab (tables_of s) (root_of s) (add64 va off) 3")
  case None
  have "leaves s (add64 va off) \<noteq> Some (1, e)" for e
    using None leaf_level(1) [of "tables_of s" "root_of s" "add64 va off" 1 e] by (auto simp: leaves_def)
  with None show ?thesis by (simp add: check_mapped_def entry_for_look)
next
  case (Some t)
  with leaf_small [OF Some] show ?thesis
    by (simp add: check_mapped_def entry_for_look get_entry_def leaves_def)
qed

lemma check_mapped_not_OK: "check_mapped va off s \<noteq> Some PAGING_STATUS_OK"
  by (auto simp: check_mapped_def split: prod.splits if_splits)

lemma require_mapped_OK:
  "require_mapped_range va n s = PAGING_STATUS_OK \<longleftrightarrow>
     (\<forall>x \<in> set (range_offsets n 4096). \<exists>e. leaves s (add64 va x) = Some (1, e))"
proof -
  have "require_mapped_range va n s = PAGING_STATUS_OK \<longleftrightarrow>
      first_some (\<lambda>x. check_mapped va x s) (range_offsets n 4096) = None"
    using first_some_SomeD [of "\<lambda>x. check_mapped va x s"] check_mapped_not_OK
    by (fastforce simp: require_mapped_range_def PAGING_PAGE_SIZE_def split: option.splits)
  then show ?thesis by (simp add: first_some_None_iff check_mapped_iff)
qed

lemma range_leaves:
  assumes g: "good_range va n"
  shows "(\<forall>x \<in> set (range_offsets n 4096). P (leaves s (add64 va x))) \<longleftrightarrow>
    (\<forall>b. canonical b \<longrightarrow> va \<le> b \<and> b < va + n \<longrightarrow> P (leaves s b))"
proof -
  have n: "4096 dvd n" using g by (simp add: good_range_def)
  have page: "leaves s b = leaves s (add64 va off)"
    if "canonical b" "4096 dvd off" "off < n" "b div 4096 * 4096 = va + off" for b off
    using good_range_page(1) [OF g that(2,3)] good_range_page(3) [OF g that(2,3,1)] that(4)
    unfolding leaves_def by (metis leaf_agree)
  show ?thesis
  proof (intro iffI allI impI ballI)
    fix b assume a: "\<forall>x \<in> set (range_offsets n 4096). P (leaves s (add64 va x))" and b: "canonical b" "va \<le> b \<and> b < va + n"
    from b(2) obtain off where off: "4096 dvd off" "off < n" "b div 4096 * 4096 = va + off"
      using in_range_page [OF g, of b] by blast
    with a have "P (leaves s (add64 va off))" by (simp add: range_offsets_set [OF n])
    then show "P (leaves s b)" unfolding page [OF b(1) off] .
  next
    fix x assume a: "\<forall>b. canonical b \<longrightarrow> va \<le> b \<and> b < va + n \<longrightarrow> P (leaves s b)" and x: "x \<in> set (range_offsets n 4096)"
    then have "4096 dvd x" "x < n" by (simp_all add: range_offsets_set [OF n])
    with a good_range_page(1,2) [OF g] show "P (leaves s (add64 va x))" by simp
  qed
qed

lemma unmap_range_ok:
  assumes ok: "space_ok s" and bounds: "va < 2 ^ 64" "n \<le> 2 ^ 63" and run: "unmap_range va n s = (st, s')"
  shows "space_ok s' \<and> same_frame s s' \<and>
    (if st = PAGING_STATUS_OK
     then good_range va n \<and> (\<forall>b. canonical b \<longrightarrow> va \<le> b \<and> b < va + n \<longrightarrow> (\<exists>e. leaves s b = Some (1, e))) \<and>
       (\<forall>b. canonical b \<longrightarrow> leaves s' b = (if va \<le> b \<and> b < va + n then None else leaves s b))
     else s' = s)"
proof (cases "st = PAGING_STATUS_OK")
  case False
  with run have "s' = s" by (auto simp: unmap_range_def split: if_splits)
  with False ok show ?thesis by simp
next
  case True
  with run have c: "validate_virtual_range va n 4096 = PAGING_STATUS_OK"
      "require_mapped_range va n s = PAGING_STATUS_OK" "s' = clear_range va n 1 s"
    by (auto simp: unmap_range_def PAGING_PAGE_SIZE_def split: if_splits)
  note g = validate_virtual_ok(1) [OF c(1) bounds]
  note cl = clear_range_ok [OF ok c(3) g]
  from c(2) have mapped: "\<exists>e. leaves s b = Some (1, e)" if "canonical b" "va \<le> b \<and> b < va + n" for b
    using range_leaves [OF g, where P = "\<lambda>o'. \<exists>e. o' = Some (1, e)", THEN iffD1] that
    unfolding require_mapped_OK by blast
  have "leaves s' b = (if va \<le> b \<and> b < va + n then None else leaves s b)" if "canonical b" for b
    using cl(3) [OF that] mapped [OF that] by (cases "va \<le> b \<and> b < va + n") auto
  with True cl g mapped show ?thesis by simp
qed

section \<open>Protecting\<close>

definition with_flags :: "64 word \<Rightarrow> nat \<times> 64 word \<Rightarrow> nat \<times> 64 word" where
  "with_flags flags le = (fst le, (snd le AND PAGE_FRAME_MASK) OR flags)"

lemma with_flags_twice: "flags AND PAGE_FRAME_MASK = 0 \<Longrightarrow> with_flags flags (with_flags flags le) = with_flags flags le"
  by (simp add: with_flags_def bit.conj_disj_distrib2 and.assoc)

lemma flags_outside: "permissions_to_flags p AND PAGE_FRAME_MASK = 0"
  by (rule bit_word_eqI) (auto simp: bit_and_iff frame_mask_bit flags_bits)

lemma apply_page_ok:
  assumes ok: "space_ok s" and s': "s' = apply_page va flags off s" and a: "a = add64 va off"
    and mapped: "leaves s a = Some (1, e)" and flags: "present flags"
  shows "space_ok s' \<and> same_frame s s' \<and>
    (\<forall>b. leaves s' b = (if agree 4 a b then map_option (with_flags flags) (leaves s b) else leaves s b))"
proof -
  have "tab (tables_of s) (root_of s) a 3 \<noteq> None" using leaf_level(1) mapped unfolding leaves_def by blast
  then obtain t where t: "tab (tables_of s) (root_of s) a 3 = Some t" by blast
  with leaf_small [OF t] mapped have e: "tables_of s t (table_index a 1) = e" by (simp add: leaves_def split: if_splits)
  let ?e = "(e AND PAGE_FRAME_MASK) OR flags"
  let ?s1 = "(fst s, set_entry (t, table_index a 1) ?e (snd s))"
  note put = put_step [OF ok t refl, where e = ?e]
  have s'': "s' = invalidate a ?s1" using t e by (simp add: s' apply_page_def entry_for_look a [symmetric] get_entry_def)
  have "leaves s' b = (if agree 4 a b then map_option (with_flags flags) (leaves s b) else leaves s b)" for b
  proof (cases "agree 4 a b")
    case True
    then have "leaves s b = Some (1, e)" using mapped leaf_agree unfolding leaves_def by metis
    then show ?thesis unfolding s'' leaves_invalidate put(3) [of b] using True flags by (simp add: with_flags_def bit_or_iff)
  next
    case False
    then show ?thesis unfolding s'' leaves_invalidate put(3) [of b] by simp
  qed
  moreover have "space_ok s'" unfolding s'' leaves_invalidate by (rule put(1))
  moreover have "same_frame s s'" using put(2) by (simp add: s'' same_frame_def)
  ultimately show ?thesis by blast
qed

lemma apply_fold:
  assumes "space_ok s" "s' = fold (apply_page va flags) xs s" "present flags" "flags AND PAGE_FRAME_MASK = 0"
    "\<forall>x \<in> set xs. \<exists>e. leaves s (add64 va x) = Some (1, e)"
  shows "space_ok s' \<and> same_frame s s' \<and>
    (\<forall>b. leaves s' b = (if \<exists>x \<in> set xs. agree 4 (add64 va x) b then map_option (with_flags flags) (leaves s b) else leaves s b))"
  using assms
proof (induction xs arbitrary: s)
  case (Cons x xs)
  obtain e where e: "leaves s (add64 va x) = Some (1, e)" using Cons.prems(5) by auto
  obtain s1 where s1: "s1 = apply_page va flags x s" by simp
  note step = apply_page_ok [OF Cons.prems(1) s1 refl e Cons.prems(3)]
  have l1: "leaves s1 b = (if agree 4 (add64 va x) b then map_option (with_flags flags) (leaves s b) else leaves s b)" for b
    using step by blast
  have "\<exists>e. leaves s1 (add64 va y) = Some (1, e)" if y: "y \<in> set xs" for y
  proof -
    obtain e' where "leaves s (add64 va y) = Some (1, e')" using Cons.prems(5) y by auto
    then show ?thesis unfolding l1 by (simp add: with_flags_def)
  qed
  moreover have "s' = fold (apply_page va flags) xs s1" using Cons.prems(2) s1 by simp
  ultimately have rest: "space_ok s' \<and> same_frame s1 s' \<and>
    (\<forall>b. leaves s' b = (if \<exists>x \<in> set xs. agree 4 (add64 va x) b then map_option (with_flags flags) (leaves s1 b) else leaves s1 b))"
    using Cons.IH [of s1] step Cons.prems(3,4) by blast
  have "leaves s' b = (if \<exists>y \<in> set (x # xs). agree 4 (add64 va y) b then map_option (with_flags flags) (leaves s b) else leaves s b)" for b
  proof -
    have l2: "leaves s' b = (if \<exists>x \<in> set xs. agree 4 (add64 va x) b then map_option (with_flags flags) (leaves s1 b) else leaves s1 b)"
      using rest by blast
    show ?thesis
      unfolding l2 l1 list.set bex_simps
      by (cases "agree 4 (add64 va x) b")
        (simp_all add: option.map_comp o_def with_flags_twice [OF Cons.prems(4)])
  qed
  with step rest show ?case using same_frame_trans by blast
qed simp

lemma protect_range_ok:
  assumes ok: "space_ok s" and bounds: "va < 2 ^ 64" "n \<le> 2 ^ 63" and run: "protect_range va n p pat s = (st, s')"
  shows "space_ok s' \<and> same_frame s s' \<and>
    (if st = PAGING_STATUS_OK
     then good_range va n \<and> validate_permissions p = PAGING_STATUS_OK \<and>
       (\<forall>b. canonical b \<longrightarrow> va \<le> b \<and> b < va + n \<longrightarrow> (\<exists>e. leaves s b = Some (1, e) \<and>
          leaf_memory_type e 1 pat = leaf_memory_type (permissions_to_flags p) 1 pat)) \<and>
       (\<forall>b. canonical b \<longrightarrow> leaves s' b = (if va \<le> b \<and> b < va + n
          then map_option (with_flags (permissions_to_flags p)) (leaves s b) else leaves s b))
     else s' = s)"
proof -
  let ?T = "leaf_memory_type (permissions_to_flags p) 1 pat"
  let ?check = "first_some (\<lambda>off. check_memory_type va ?T pat off s) (range_offsets n 4096)"
  have notOK: "?check \<noteq> Some PAGING_STATUS_OK"
  proof
    assume "?check = Some PAGING_STATUS_OK"
    then obtain x where "check_memory_type va ?T pat x s = Some PAGING_STATUS_OK" using first_some_SomeD by fastforce
    then show False by (auto simp: check_memory_type_def split: prod.splits if_splits)
  qed
  show ?thesis
  proof (cases "st = PAGING_STATUS_OK")
    case False
    with run have "s' = s"
      by (auto simp: protect_range_def Let_def PAGING_PAGE_SIZE_def split: if_splits option.splits)
    with False ok show ?thesis by simp
  next
    case True
    have c: "validate_permissions p = PAGING_STATUS_OK" "validate_virtual_range va n 4096 = PAGING_STATUS_OK"
        "require_mapped_range va n s = PAGING_STATUS_OK" "?check = None" "s' = apply_permissions va n p s"
      using run True notOK by (auto simp: protect_range_def Let_def PAGING_PAGE_SIZE_def split: if_splits option.splits)
    note g = validate_virtual_ok(1) [OF c(2) bounds]
    have n: "4096 dvd n" using g by (simp add: good_range_def)
    have mapped: "\<forall>x \<in> set (range_offsets n 4096). \<exists>e. leaves s (add64 va x) = Some (1, e)"
      using c(3) unfolding require_mapped_OK .
    have typed: "\<forall>x \<in> set (range_offsets n 4096). \<exists>e. leaves s (add64 va x) = Some (1, e) \<and> leaf_memory_type e 1 pat = ?T"
    proof
      fix x assume x: "x \<in> set (range_offsets n 4096)"
      then obtain e where e: "leaves s (add64 va x) = Some (1, e)" using mapped by blast
      then have "tab (tables_of s) (root_of s) (add64 va x) 3 \<noteq> None" using leaf_level(1) unfolding leaves_def by blast
      then obtain t where t: "tab (tables_of s) (root_of s) (add64 va x) 3 = Some t" by blast
      have "tables_of s t (table_index (add64 va x) 1) = e" using leaf_small [OF t] e by (simp add: leaves_def split: if_splits)
      moreover have "check_memory_type va ?T pat x s = None" using c(4) x by (simp add: first_some_None_iff)
      ultimately have "leaf_memory_type e 1 pat = ?T" using t
        by (simp add: check_memory_type_def entry_for_look get_entry_def split: if_splits)
      with e show "\<exists>e. leaves s (add64 va x) = Some (1, e) \<and> leaf_memory_type e 1 pat = ?T" by blast
    qed
    have pres: "present (permissions_to_flags p)" by (simp add: flags_bits)
    have s'': "s' = fold (apply_page va (permissions_to_flags p)) (range_offsets n 4096) s"
      by (simp add: c(5) apply_permissions_def PAGING_PAGE_SIZE_def)
    note fold = apply_fold [OF ok s'' pres flags_outside mapped]
    have hit: "(\<exists>x \<in> set (range_offsets n 4096). agree 4 (add64 va x) b) \<longleftrightarrow> va \<le> b \<and> b < va + n" if "canonical b" for b
      unfolding range_offsets_set [OF n] in_range_page [OF g, symmetric]
      using good_range_page [OF g] that by auto
    have "leaves s' b = (if va \<le> b \<and> b < va + n then map_option (with_flags (permissions_to_flags p)) (leaves s b) else leaves s b)"
      if "canonical b" for b using fold unfolding hit [OF that, symmetric] by blast
    moreover have "\<exists>e. leaves s b = Some (1, e) \<and> leaf_memory_type e 1 pat = ?T"
      if "canonical b" "va \<le> b \<and> b < va + n" for b
      using range_leaves [OF g, where P = "\<lambda>o'. \<exists>e. o' = Some (1, e) \<and> leaf_memory_type e 1 pat = ?T", THEN iffD1,
        OF typed] that by blast
    moreover have "space_ok s'" "same_frame s s'" using fold by blast+
    ultimately show ?thesis using True c(1) g by simp
  qed
qed

section \<open>Translation\<close>

text \<open>Since pointers to tables are permissive, the effective permissions are those of the leaf.\<close>

lemma translate_walk_leaf:
  assumes perm: "pointers_permissive (mc_tables m) r"
  shows "tab (mc_tables m) r a (3 - k) = Some t \<Longrightarrow> k \<le> 3 \<Longrightarrow>
    \<exists>u. translate_walk a pat k t True True user m =
      (case leaf_walk (mc_tables m) a k t of
         None \<Rightarrow> (PAGING_STATUS_NOT_MAPPED, blank_translation)
       | Some (l, e) \<Rightarrow> (PAGING_STATUS_OK, fill_translation e a l (bit e 1) (\<not> bit e 63) (u \<and> bit e 2) pat))"
proof (induction k arbitrary: t user)
  case 0
  show ?case by (intro exI [of _ user]) (simp add: Let_def)
next
  case (Suc k)
  let ?e = "mc_tables m t (table_index a (Suc (Suc k)))"
  have s: "4 - (3 - Suc k) = Suc (Suc k)" "Suc (3 - Suc k) = 3 - k" using Suc.prems(2) by auto
  show ?case
  proof (cases "interior ?e")
    case False
    then show ?thesis by (intro exI [of _ user]) (auto simp: Let_def)
  next
    case True
    have "3 - Suc k < 3" using Suc.prems(2) by simp
    with perm Suc.prems(1) True have p: "bit ?e 1" "\<not> bit ?e 63" unfolding pointers_permissive_def s(1) [symmetric] by blast+
    have "tab (mc_tables m) r a (Suc (3 - Suc k)) = Some (frame_of ?e)" using Suc.prems(1) True s(1) by (simp add: Let_def)
    then have "tab (mc_tables m) r a (3 - k) = Some (frame_of ?e)" unfolding s(2) .
    from Suc.IH [OF this, of "user \<and> bit ?e 2"] Suc.prems(2) True p show ?thesis by (simp add: Let_def)
  qed
qed

lemma translate_leaf:
  assumes "space_ok s" "canonical a"
  shows "\<exists>u. translate_address a pat s =
      (case leaves s a of
         None \<Rightarrow> (PAGING_STATUS_NOT_MAPPED, blank_translation)
       | Some (l, e) \<Rightarrow> (PAGING_STATUS_OK, fill_translation e a l (bit e 1) (\<not> bit e 63) (u \<and> bit e 2) pat))"
proof -
  have "a < 2 ^ 64" using assms(2) by (auto simp: canonical_def)
  then have "address_is_canonical a" using assms(2) by (simp add: address_is_canonical_iff)
  moreover have "pointers_permissive (tables_of s) (root_of s)" using assms(1) by (simp add: space_ok_def)
  ultimately show ?thesis
    using translate_walk_leaf [of "snd s" "root_of s" a 3 "root_of s" pat True]
    by (simp add: translate_address_def PAGING_LEVEL_COUNT_def leaves_def leaf_def)
qed

text \<open>The memory types the kernel installs: entry 0 write-back, 1 write-combining, 3 uncacheable.\<close>

definition pat_installed :: "64 word \<Rightarrow> bool" where
  "pat_installed pat \<longleftrightarrow> pat_entry pat 0 = PAT_TYPE_WRITE_BACK \<and> pat_entry pat 1 = PAT_TYPE_WRITE_COMBINING \<and>
     pat_entry pat 3 = PAT_TYPE_UNCACHEABLE"

definition requested_type :: "32 word \<Rightarrow> paging_memory_type" where
  "requested_type p = (if bit p 2 then PAGING_MEMORY_UNCACHEABLE
     else if bit p 3 then PAGING_MEMORY_WRITE_COMBINING else PAGING_MEMORY_WRITE_BACK)"

lemma permission_bits [simp]:
  "p AND PAGING_WRITE = 0 \<longleftrightarrow> \<not> bit p 0" "p AND PAGING_EXECUTE = 0 \<longleftrightarrow> \<not> bit p 1"
  "p AND PAGING_UNCACHED = 0 \<longleftrightarrow> \<not> bit p 2" "p AND PAGING_WRITE_COMBINING = 0 \<longleftrightarrow> \<not> bit p 3"
  unfolding PAGING_WRITE_def PAGING_EXECUTE_def PAGING_UNCACHED_def PAGING_WRITE_COMBINING_def
  by (rule and_push_bit_one)+

lemmas permission_consts = PAGING_WRITE_def PAGING_EXECUTE_def PAGING_UNCACHED_def PAGING_WRITE_COMBINING_def

lemma known_bits:
  "bit (PAGING_WRITE OR PAGING_EXECUTE OR PAGING_UNCACHED OR PAGING_WRITE_COMBINING) i \<longleftrightarrow> i < 4"
  unfolding permission_consts bit_or_iff bit_push_bit_iff bit_1_iff by auto

lemma validate_permissions_OK:
  "validate_permissions p = PAGING_STATUS_OK \<longleftrightarrow>
     (\<forall>i. bit p i \<longrightarrow> i < 4) \<and> \<not> (bit p 0 \<and> bit p 1) \<and> \<not> (bit p 2 \<and> bit p 3)"
proof -
  have "p AND NOT (PAGING_WRITE OR PAGING_EXECUTE OR PAGING_UNCACHED OR PAGING_WRITE_COMBINING) = 0 \<longleftrightarrow>
      (\<forall>i. bit p i \<longrightarrow> i < 4)"
    unfolding bit_eq_iff bit_and_iff bit_not_iff known_bits
    using bit_imp_le_length [of p] by fastforce
  then show ?thesis by (simp add: validate_permissions_def Let_def)
qed

lemma leaf_entry_type:
  assumes pat: "pat_installed pat" and p: "validate_permissions p = PAGING_STATUS_OK"
    and e: "\<And>i. i < 12 \<or> 52 \<le> i \<Longrightarrow> bit e i = bit (permissions_to_flags p) i"
  shows "leaf_memory_type e 1 pat = requested_type p"
proof -
  have b: "bit e 3 \<longleftrightarrow> bit p 2 \<or> bit p 3" "bit e 4 \<longleftrightarrow> bit p 2" "\<not> bit e 7"
    using e by (simp_all add: flags_bits)
  have "\<not> (bit p 2 \<and> bit p 3)" using p by (simp add: validate_permissions_OK)
  then show ?thesis using pat b
    by (auto simp: leaf_memory_type_def leaf_pat_index_def requested_type_def pat_installed_def decode_pat_type_def
        PAT_TYPE_WRITE_BACK_def PAT_TYPE_WRITE_COMBINING_def PAT_TYPE_UNCACHEABLE_def)
qed

lemma effective_permissions:
  assumes p: "validate_permissions p = PAGING_STATUS_OK"
  shows "PAGING_READ OR (if bit p 0 then PAGING_WRITE else 0) OR (if bit p 1 then PAGING_EXECUTE else 0) OR
    memory_type_permissions (requested_type p) = p"
proof (rule bit_word_eqI)
  fix i assume "i < LENGTH(32)"
  have b: "\<forall>i. bit p i \<longrightarrow> i < 4" "\<not> (bit p 2 \<and> bit p 3)" using p by (simp_all add: validate_permissions_OK)
  have z: "\<not> bit (0 :: 32 word) i" by simp
  have m: "bit (memory_type_permissions (requested_type p)) i \<longleftrightarrow> i = 2 \<and> bit p 2 \<or> i = 3 \<and> bit p 3 \<and> \<not> bit p 2"
  proof -
    have "memory_type_permissions (requested_type p) =
        (if bit p 2 then PAGING_UNCACHED else if bit p 3 then PAGING_WRITE_COMBINING else 0)"
      by (simp add: memory_type_permissions_def requested_type_def)
    then show ?thesis
      unfolding permission_consts using \<open>i < LENGTH(32)\<close> z
      by (simp only: if_distrib [of "\<lambda>w. bit w i"] bit_push_bit_iff bit_1_iff) auto
  qed
  have "i < 4 \<longleftrightarrow> i = 0 \<or> i = 1 \<or> i = 2 \<or> i = 3" by auto
  then show "bit (PAGING_READ OR (if bit p 0 then PAGING_WRITE else 0) OR (if bit p 1 then PAGING_EXECUTE else 0) OR
      memory_type_permissions (requested_type p)) i = bit p i"
    unfolding bit_or_iff m permission_consts PAGING_READ_def if_distrib [of "\<lambda>w. bit w i"] bit_push_bit_iff bit_1_iff
    using b z by auto
qed

lemma leaf_physical:
  assumes "4096 dvd pa" "pa < 2 ^ 52" and f: "e AND PAGE_FRAME_MASK = of_nat pa"
  shows "unat ((e AND PAGE_FRAME_MASK AND NOT (of_nat (4096 - 1))) OR (of_nat a AND of_nat (4096 - 1))) = pa + a mod 4096"
proof -
  have low: "(of_nat (4096 - 1) :: 64 word) = mask 12" by (simp add: mask_eq_exp_minus_1)
  have "e AND PAGE_FRAME_MASK AND NOT (of_nat (4096 - 1)) = of_nat pa"
  proof (rule bit_word_eqI)
    fix i assume "i < LENGTH(64)"
    then show "bit (e AND PAGE_FRAME_MASK AND NOT (of_nat (4096 - 1))) i = bit (of_nat pa :: 64 word) i"
      unfolding and.assoc [symmetric] f low bit_and_iff bit_not_iff bit_mask_iff
      using low_bit [OF assms(1,2), of i] by auto
  qed
  moreover have "of_nat a AND of_nat (4096 - 1) = (of_nat (a mod 4096) :: 64 word)"
  proof -
    have "of_nat a AND mask 12 = take_bit 12 (of_nat a :: 64 word)" by (rule take_bit_eq_mask [symmetric])
    also have "\<dots> = of_nat (take_bit 12 a)" by (rule take_bit_of_nat)
    finally show ?thesis unfolding low by (simp add: take_bit_eq_mod [of 12 a])
  qed
  moreover have "of_nat pa OR (of_nat (a mod 4096) :: 64 word) = of_nat pa + of_nat (a mod 4096)"
  proof (rule disjunctive_add [symmetric])
    fix i
    have "i < 12" if "bit (a mod 4096) i"
      using that bit_take_bit_iff [of 12 a i] by (simp add: take_bit_eq_mod)
    then show "\<not> bit (of_nat pa :: 64 word) i \<or> \<not> bit (of_nat (a mod 4096) :: 64 word) i"
      using low_bit [OF assms(1,2), of i] by (auto simp: bit_simps)
  qed
  moreover have "pa + a mod 4096 < 2 ^ 64"
    using assms(2) mod_less_divisor [of 4096 a] by simp
  ultimately show ?thesis
    by (simp add: unat_word_ariths unsigned_of_nat take_bit_nat_eq_self flip: of_nat_add)
qed

lemma fill_leaf_entry:
  assumes pat: "pat_installed pat" and p: "validate_permissions p = PAGING_STATUS_OK" and pa: "4096 dvd pa" "pa < 2 ^ 52"
    and e: "e = leaf_entry pa p"
  shows "fill_translation e a 1 (bit e 1) (\<not> bit e 63) (u \<and> bit e 2) pat =
    \<lparr>tr_physical_address = pa + a mod 4096, tr_permissions = p, tr_memory_type = requested_type p,
     tr_level = 1, tr_user = False\<rparr>"
proof -
  have out: "bit e i = bit (permissions_to_flags p) i" if "i < 12 \<or> 52 \<le> i" for i
    using low_bit [OF pa that] by (simp add: e leaf_entry_def bit_or_iff)
  have fm: "e AND PAGE_FRAME_MASK = of_nat pa"
    unfolding e leaf_entry_def by (rule frame_part(1) [OF pa]) (auto simp: flags_bits)
  have b: "bit e 1 = bit p 0" "(\<not> bit e 63) = bit p 1" "\<not> bit e 2" using out by (simp_all add: flags_bits)
  note ty = leaf_entry_type [OF pat p out]
  show ?thesis
    using leaf_physical [OF pa fm, of a] effective_permissions [OF p] b ty
    by (simp add: fill_translation_def Let_def)
qed

section \<open>Enough frames\<close>

text \<open>Three tables per page are enough: no injected failure, and frames left.\<close>

definition spare :: "space \<Rightarrow> nat" where
  "spare s = (if tf_armed (mc_table_failure (snd s)) \<and> ph_is_process (fst s) then 0
     else card (free_set (mc_frames (snd s))))"

lemma supply_keeps [simp]:
  "spare (invalidate a s) = spare s" "spare (fst s, set_entry p e (snd s)) = spare s"
  by (auto simp: spare_def invalidate_def set_entry_def split: prod.splits)

lemma allocate_table_supply:
  assumes ok: "space_ok s" and n: "0 < spare s"
  shows "\<exists>t s'. allocate_table s = (PAGING_STATUS_OK, t, s') \<and> Suc (spare s') = spare s"
proof -
  obtain h m where s: "s = (h, m)" by fastforce
  have ar: "ph_arena_capacity h = 0" and fr: "frame_ready (mc_frames m)" using ok by (auto simp: space_ok_def s)
  have free: "free_set (mc_frames m) \<noteq> {}" "\<not> (tf_armed (mc_table_failure m) \<and> ph_is_process h)"
    using n by (auto simp: spare_def s split: if_splits)
  with frame_allocate_some [of "mc_frames m"] fr obtain f fs where
    f: "frame_allocate False (mc_frames m) = (FRAME_STATUS_OK, Some (f * 4096), fs)" "f \<in> free_set (mc_frames m)"
      "free_set fs = free_set (mc_frames m) - {f}" "single_set fs = insert f (single_set (mc_frames m))"
    by (auto simp: frame_ready_def)
  have bound: "f * 4096 < SAPOTE_EARLY_PHYSICAL_LIMIT" using frame_number_bound [of f fs] f(4) by simp
  have "Suc (card (free_set fs)) = card (free_set (mc_frames m))"
    unfolding f(3) using f(2) by (intro card_Suc_Diff1) simp_all
  with f bound ar free(2) show ?thesis
    by (auto simp: allocate_table_def s Let_def hierarchy_is_process_def enter_table_def zero_table_def spare_def)
qed

lemma entry_walk_supply:
  assumes "space_ok s" "tab (tables_of s) (root_of s) a d = Some t" "d + k = 4 - L" "1 \<le> L" "leaves s a = None"
    "k \<le> spare s"
  shows "\<exists>p s'. entry_walk a L True k t s = (PAGING_STATUS_OK, p, s') \<and> spare s \<le> spare s' + k"
  using assms
proof (induction k arbitrary: d t s)
  case (Suc k)
  let ?e = "tables_of s t (table_index a (4 - d))"
  have lev: "L + Suc k = 4 - d" "d < 3" "Suc d + k = 4 - L" using Suc.prems by auto
  have s3: "3 - d = Suc (2 - d)" "4 - d = Suc (Suc (2 - d))" using lev by auto
  note walk = entry_walk.simps(2) [of a L True k t s, unfolded lev(1) get_entry_def fst_conv snd_conv Let_def entry_bits]
  have lw: "leaf_walk (tables_of s) a (3 - d) t = None" using leaf_at [OF Suc.prems(2)] lev Suc.prems(5) by (simp add: leaves_def)
  show ?case
  proof (cases "present ?e")
    case False
    obtain n s1 where al: "allocate_table s = (PAGING_STATUS_OK, n, s1)" "Suc (spare s1) = spare s"
      using allocate_table_supply [OF Suc.prems(1)] Suc.prems(6) by auto
    define s2 where "s2 = (fst s1, set_entry (t, table_index a (4 - d)) (of_nat n OR PAGE_PRESENT OR PAGE_WRITABLE) (snd s1))"
    note step = link_step [OF Suc.prems(1,2) lev(2) False al(1) s2_def]
    have sup: "spare s2 = spare s1" by (simp add: s2_def)
    have "leaves s2 a = None" using step(3) Suc.prems(5) by simp
    moreover have "k \<le> spare s2" using sup al(2) Suc.prems(6) by simp
    ultimately obtain p s' where "entry_walk a L True k n s2 = (PAGING_STATUS_OK, p, s')" "spare s2 \<le> spare s' + k"
      using Suc.IH [OF step(1,4) lev(3) Suc.prems(4)] by blast
    then show ?thesis unfolding walk using False al sup by (simp add: s2_def)
  next
    case True
    with lw have small: "\<not> huge ?e" by (auto simp: s3 Let_def)
    then have "tab (tables_of s) (root_of s) a (Suc d) = Some (frame_of ?e)" using Suc.prems(2) True by (simp add: Let_def)
    from Suc.IH [OF Suc.prems(1) this lev(3) Suc.prems(4,5)] Suc.prems(6) obtain p s' where
      "entry_walk a L True k (frame_of ?e) s = (PAGING_STATUS_OK, p, s')" "spare s \<le> spare s' + k" by auto
    then show ?thesis unfolding walk using True small by simp
  qed
qed simp

lemma install_page_supply:
  assumes ok: "space_ok s" and none: "leaves s (add64 va off) = None" and sup: "3 \<le> spare s"
  shows "\<exists>s'. install_page va pa p 1 off s = Inr s' \<and> spare s \<le> spare s' + 3"
proof -
  obtain e s1 where "entry_for (add64 va off) 1 True s = (PAGING_STATUS_OK, e, s1)" "spare s \<le> spare s1 + 3"
    using entry_walk_supply [of s "add64 va off" 0 "root_of s" 3 1] ok none sup
    by (auto simp: entry_for_def PAGING_LEVEL_COUNT_def)
  then show ?thesis by (simp add: install_page_def)
qed

lemma install_fold_supply:
  assumes "space_ok s" "\<forall>x \<in> set xs. leaves s (add64 va x) = None" "3 * length xs \<le> spare s"
    "\<forall>x \<in> set xs. \<forall>y \<in> set xs. x \<noteq> y \<longrightarrow> \<not> agree 4 (add64 va x) (add64 va y)" "distinct xs"
  shows "\<exists>s'. fold_until (install_page va pa p 1) xs s = Inr s'"
  using assms
proof (induction xs arbitrary: s)
  case (Cons x xs)
  then obtain s1 where s1: "install_page va pa p 1 x s = Inr s1" "spare s \<le> spare s1 + 3"
    using install_page_supply [of s va x pa p] by fastforce
  have step: "space_ok s1"
    "\<And>b. leaves s1 b = (if agree 4 (add64 va x) b then Some (1, leaf_entry (add64 pa x) p) else leaves s b)"
    using install_page_ok [OF Cons.prems(1) s1(1) refl] by simp_all
  have "\<forall>y \<in> set xs. leaves s1 (add64 va y) = None"
  proof
    fix y assume y: "y \<in> set xs"
    then have "x \<noteq> y" using Cons.prems(5) by auto
    then have "\<not> agree 4 (add64 va x) (add64 va y)" using Cons.prems(4) y by simp
    then show "leaves s1 (add64 va y) = None" using Cons.prems(2) y by (simp add: step(2))
  qed
  from Cons.IH [OF step(1) this] Cons.prems(3-5) s1 show ?case by simp
qed simp

lemma map_range_supply:
  assumes ok: "space_ok s" and bounds: "va < 2 ^ 64" "pa < 2 ^ 64"
    and valid: "validate_permissions p = PAGING_STATUS_OK" "validate_virtual_range va n 4096 = PAGING_STATUS_OK"
      "validate_physical_range pa n 4096 = PAGING_STATUS_OK"
    and none: "\<And>b. canonical b \<Longrightarrow> va \<le> b \<Longrightarrow> b < va + n \<Longrightarrow> leaves s b = None"
    and sup: "3 * (n div 4096) \<le> spare s"
  shows "\<exists>s'. map_range va pa n p 1 s = (PAGING_STATUS_OK, s')"
proof -
  have "n \<le> 2 ^ 63" using validate_physical_ok(2) [OF valid(3) bounds(2)] by simp
  note virt = validate_virtual_ok(1) [OF valid(2) bounds(1) this]
  have n: "4096 dvd n" using virt by (simp add: good_range_def)
  have page: "leaves s (add64 va x) = None" if "x \<in> set (range_offsets n 4096)" for x
    using good_range_page(1,2) [OF virt, of x] none [of "va + x"] that by (simp add: range_offsets_set [OF n])
  have "check_unmapped va 1 x s = None" if "x \<in> set (range_offsets n 4096)" for x
  proof (cases "tab (tables_of s) (root_of s) (add64 va x) 3")
    case None
    with page [OF that] show ?thesis by (simp add: check_unmapped_def entry_for_look)
  next
    case (Some t)
    with page [OF that] leaf_small [OF Some] show ?thesis
      by (simp add: check_unmapped_def entry_for_look get_entry_def leaves_def split: if_splits)
  qed
  then have unmapped: "first_some (\<lambda>off. check_unmapped va 1 off s) (range_offsets n 4096) = None"
    by (simp add: first_some_None_iff)
  have "\<not> agree 4 (add64 va x) (add64 va y)" if "x \<in> set (range_offsets n 4096)" "y \<in> set (range_offsets n 4096)" "x \<noteq> y" for x y
  proof -
    have x: "4096 dvd x" "x < n" and y: "4096 dvd y" "y < n" using that by (simp_all add: range_offsets_set [OF n])
    have "4096 dvd va + y" using virt y by (simp add: good_range_def)
    then have "(va + y) div 4096 * 4096 = va + y" by simp
    then show ?thesis
      using good_range_page(3) [OF virt x good_range_page(2) [OF virt y]] good_range_page(1) [OF virt] x y that(3) by simp
  qed
  moreover have "distinct (range_offsets n 4096)" "length (range_offsets n 4096) = n div 4096"
    by (simp_all add: range_offsets_pages [OF n] distinct_map inj_on_def)
  ultimately obtain s' where "fold_until (install_page va pa p 1) (range_offsets n 4096) s = Inr s'"
    using install_fold_supply [OF ok, of "range_offsets n 4096" va pa p] page sup by auto
  then show ?thesis using valid unmapped by (simp add: map_range_def)
qed

section \<open>A sample hierarchy\<close>

definition blank_space :: "u64 \<Rightarrow> frame_allocator \<Rightarrow> space" where
  "blank_space root fs =
     (\<lparr>ph_root = root, ph_arena_base = 0, ph_arena_capacity = 0, ph_arena_used = 0, ph_table_frames = 1,
       ph_live = True, ph_is_process = False\<rparr>,
      \<lparr>mc_tables = (\<lambda>_ _. 0), mc_frames = fs, mc_cr3 = of_nat root, mc_invalidated = [],
       mc_table_failure = \<lparr>tf_failure_ordinal = 0, tf_allocation_count = 0, tf_observed = False, tf_armed = False\<rparr>\<rparr>)"

lemma blank_tab: "tab (\<lambda>_ _. 0) r a d = (if d = 0 then Some r else None)"
  by (induction d) auto

lemma blank_space_ok:
  assumes "frame_ready fs" "f \<in> single_set fs"
  shows "space_ok (blank_space (f * 4096) fs)" "leaves (blank_space (f * 4096) fs) b = None"
    "spare (blank_space (f * 4096) fs) = card (free_set fs)"
proof -
  have z: "\<not> present (0 :: 64 word)" by simp
  show "space_ok (blank_space (f * 4096) fs)"
    using assms by (auto simp: space_ok_def blank_space_def tree_ok_def pointers_permissive_def reached_def blank_tab
        split: if_splits)
  show "leaves (blank_space (f * 4096) fs) b = None"
    by (simp add: leaves_def blank_space_def leaf_def numeral_3_eq_3 Let_def)
  show "spare (blank_space (f * 4096) fs) = card (free_set fs)" by (simp add: spare_def blank_space_def)
qed

lemma sample_space:
  obtains f fs where "space_ok (blank_space (f * 4096) fs)" "spare (blank_space (f * 4096) fs) = 7" "f < 264"
proof -
  obtain f fs where f: "frame_allocate False sample_allocator = (FRAME_STATUS_OK, Some (f * 4096), fs)"
    "f \<in> free_set sample_allocator" "free_set fs = free_set sample_allocator - {f}"
    "single_set fs = insert f (single_set sample_allocator)" "frame_ready fs"
    using frame_allocate_some [of sample_allocator] sample_ready(1) by (auto simp: frame_ready_def sample_sets)
  have "card (free_set fs) = 7" "f < 264" using f(2,3) by (auto simp: sample_sets)
  with blank_space_ok [of fs f] f(4,5) show thesis by (intro that) simp_all
qed

end
