(* ===== verification/Kernel_Paging.thy ===== *)
theory Kernel_Paging
  imports Page_Tables_Ranges
begin

unbundle bit_operations_syntax

text \<open>
  The operations \<open>src/kernel/paging.c\<close> offers the rest of the kernel on the live hierarchy:
  \<open>paging_map\<close>, \<open>paging_unmap\<close>, \<open>paging_protect\<close>, \<open>paging_translate\<close> and
  \<open>paging_audit_hierarchy\<close>, with the list of supervisor mappings that is replayed into every
  process's hierarchy.  The file-scope variables are the fields of one record.
\<close>

section \<open>State\<close>

record supervisor_mapping_intent =
  si_virtual_address :: u64
  si_physical_address :: u64
  si_length :: u64
  si_permissions :: "32 word"

record paging_state =
  ps_root_physical_address :: u64
  ps_table_frames :: nat
  ps_fine_regions :: nat
  ps_pat_before :: "64 word"
  ps_pat_after :: "64 word"
  ps_write_combining_pat_entry :: nat
  ps_no_execute_active :: bool
  ps_write_protect_active :: bool
  ps_active :: bool

record paging =
  pg_state :: paging_state
  pg_space :: space
  pg_intents :: "supervisor_mapping_intent list"

section \<open>Intents\<close>

definition supervisor_intent_find :: "u64 \<Rightarrow> u64 \<Rightarrow> supervisor_mapping_intent list \<Rightarrow> nat option" where
  "supervisor_intent_find address bytes intents =
     find_from (\<lambda>index. si_virtual_address (intents ! index) = address \<and> si_length (intents ! index) = bytes)
       0 (length intents)"

definition supervisor_intent_add ::
  "u64 \<Rightarrow> u64 \<Rightarrow> u64 \<Rightarrow> 32 word \<Rightarrow> supervisor_mapping_intent list \<Rightarrow>
     paging_status \<times> supervisor_mapping_intent list" where
  "supervisor_intent_add virtual_address physical_address bytes permissions intents =
     (if length intents = PAGING_SUPERVISOR_INTENT_CAPACITY then (PAGING_STATUS_SUPERVISOR_INTENT_FULL, intents)
      else (PAGING_STATUS_OK, intents @ [\<lparr>si_virtual_address = virtual_address,
              si_physical_address = physical_address, si_length = bytes, si_permissions = permissions\<rparr>]))"

definition supervisor_intent_remove :: "nat \<Rightarrow> supervisor_mapping_intent list \<Rightarrow> supervisor_mapping_intent list" where
  "supervisor_intent_remove index intents =
     (if index \<ge> length intents then intents else take index intents @ drop (index + 1) intents)"

definition replay_intent :: "supervisor_mapping_intent \<Rightarrow> space \<Rightarrow> (paging_status \<times> space) + space" where
  "replay_intent intent s =
     (case map_range (si_virtual_address intent) (si_physical_address intent) (si_length intent)
             (si_permissions intent) 1 s of
        (status, s) \<Rightarrow> if status \<noteq> PAGING_STATUS_OK then Inl (status, s) else Inr s)"

definition replay_supervisor_intent :: "supervisor_mapping_intent list \<Rightarrow> space \<Rightarrow> paging_status \<times> space" where
  "replay_supervisor_intent intents s =
     (case fold_until replay_intent intents s of Inl failure \<Rightarrow> failure | Inr s \<Rightarrow> (PAGING_STATUS_OK, s))"

section \<open>Operations\<close>

text \<open>\<open>state.table_frames = live_hierarchy.table_frames\<close>\<close>

definition sync_table_frames :: "paging \<Rightarrow> paging" where
  "sync_table_frames p = p\<lparr>pg_state := (pg_state p)\<lparr>ps_table_frames := ph_table_frames (fst (pg_space p))\<rparr>\<rparr>"

definition paging_map :: "u64 \<Rightarrow> u64 \<Rightarrow> u64 \<Rightarrow> 32 word \<Rightarrow> paging \<Rightarrow> paging_status \<times> paging" where
  "paging_map virtual_address physical_address bytes permissions p =
     (if \<not> ps_active (pg_state p) then (PAGING_STATUS_NOT_INITIALIZED, p)
      else case map_range virtual_address physical_address bytes permissions 1 (pg_space p) of
        (status, s) \<Rightarrow>
          if status = PAGING_STATUS_OK then
            (case supervisor_intent_add virtual_address physical_address bytes permissions (pg_intents p) of
               (status, intents) \<Rightarrow>
                 let s = (if status \<noteq> PAGING_STATUS_OK then snd (unmap_range virtual_address bytes s) else s)
                 in (status, sync_table_frames (p\<lparr>pg_space := s, pg_intents := intents\<rparr>)))
          else (status, sync_table_frames (p\<lparr>pg_space := s\<rparr>)))"

definition paging_unmap :: "u64 \<Rightarrow> u64 \<Rightarrow> paging \<Rightarrow> paging_status \<times> paging" where
  "paging_unmap virtual_address bytes p =
     (if \<not> ps_active (pg_state p) then (PAGING_STATUS_NOT_INITIALIZED, p)
      else let intent = supervisor_intent_find virtual_address bytes (pg_intents p) in
        case unmap_range virtual_address bytes (pg_space p) of
          (status, s) \<Rightarrow>
            let intents = (case intent of
                  Some index \<Rightarrow> if status = PAGING_STATUS_OK then supervisor_intent_remove index (pg_intents p)
                                else pg_intents p
                | None \<Rightarrow> pg_intents p)
            in (status, sync_table_frames (p\<lparr>pg_space := s, pg_intents := intents\<rparr>)))"

definition paging_protect :: "u64 \<Rightarrow> u64 \<Rightarrow> 32 word \<Rightarrow> paging \<Rightarrow> paging_status \<times> paging" where
  "paging_protect virtual_address bytes permissions p =
     (let intent = supervisor_intent_find virtual_address bytes (pg_intents p) in
      if \<not> ps_active (pg_state p) then (PAGING_STATUS_NOT_INITIALIZED, p)
      else case protect_range virtual_address bytes permissions (ps_pat_after (pg_state p)) (pg_space p) of
        (status, s) \<Rightarrow>
          let intents = (case intent of
                Some index \<Rightarrow> if status = PAGING_STATUS_OK
                  then (pg_intents p)[index := (pg_intents p ! index)\<lparr>si_permissions := permissions\<rparr>]
                  else pg_intents p
              | None \<Rightarrow> pg_intents p)
          in (status, p\<lparr>pg_space := s, pg_intents := intents\<rparr>))"

definition paging_translate :: "u64 \<Rightarrow> bool \<Rightarrow> paging \<Rightarrow> paging_status \<times> paging_translation option" where
  "paging_translate virtual_address translation_null p =
     (if translation_null then (PAGING_STATUS_NULL_ARGUMENT, None)
      else if \<not> ps_active (pg_state p) then (PAGING_STATUS_NOT_INITIALIZED, Some blank_translation)
      else case translate_address virtual_address (ps_pat_after (pg_state p)) (pg_space p) of
        (status, translation) \<Rightarrow> (status, Some translation))"

definition paging_audit_hierarchy :: "bool \<Rightarrow> paging \<Rightarrow> paging_status \<times> paging_audit option" where
  "paging_audit_hierarchy audit_null p =
     (if audit_null then (PAGING_STATUS_NULL_ARGUMENT, None)
      else if \<not> ps_active (pg_state p) then (PAGING_STATUS_NOT_INITIALIZED, Some empty_audit)
      else (PAGING_STATUS_OK, Some (audit_hierarchy (pg_space p))))"

section \<open>The invariant of the live hierarchy\<close>

text \<open>No mapping is reachable from user mode, and none is both writable and executable.\<close>

definition supervisor_wx :: "space \<Rightarrow> bool" where
  "supervisor_wx s \<longleftrightarrow> (\<forall>b l e. canonical b \<longrightarrow> leaves s b = Some (l, e) \<longrightarrow> \<not> bit e 2 \<and> \<not> (bit e 1 \<and> \<not> bit e 63))"

definition paging_ok :: "paging \<Rightarrow> bool" where
  "paging_ok p \<longleftrightarrow> ps_active (pg_state p) \<and> pat_installed (ps_pat_after (pg_state p)) \<and>
     space_ok (pg_space p) \<and> supervisor_wx (pg_space p)"

definition mapped :: "paging \<Rightarrow> u64 \<Rightarrow> (nat \<times> 64 word) option" where
  "mapped p b = leaves (pg_space p) b"

lemma sync_keeps [simp]:
  "pg_space (sync_table_frames p) = pg_space p" "pg_intents (sync_table_frames p) = pg_intents p"
  "ps_active (pg_state (sync_table_frames p)) = ps_active (pg_state p)"
  "ps_pat_after (pg_state (sync_table_frames p)) = ps_pat_after (pg_state p)"
  "mapped (sync_table_frames p) = mapped p"
  by (simp_all add: sync_table_frames_def mapped_def fun_eq_iff)

lemma paging_ok_cong:
  assumes "paging_ok p" "space_ok (pg_space p')" "supervisor_wx (pg_space p')"
    "ps_active (pg_state p') = ps_active (pg_state p)" "ps_pat_after (pg_state p') = ps_pat_after (pg_state p)"
  shows "paging_ok p'"
  using assms by (simp add: paging_ok_def)

text \<open>What an address translates to is a function of its leaf.\<close>

lemma translate_mapped:
  assumes ok: "paging_ok p" and b: "canonical b"
  shows "paging_translate b False p =
    (case mapped p b of
       None \<Rightarrow> (PAGING_STATUS_NOT_MAPPED, Some blank_translation)
     | Some (l, e) \<Rightarrow> (PAGING_STATUS_OK,
         Some (fill_translation e b l (bit e 1) (\<not> bit e 63) False (ps_pat_after (pg_state p)))))"
proof -
  have a: "ps_active (pg_state p)" "space_ok (pg_space p)" "supervisor_wx (pg_space p)" using ok by (auto simp: paging_ok_def)
  from translate_leaf [OF a(2) b, of "ps_pat_after (pg_state p)"] obtain u where
    u: "translate_address b (ps_pat_after (pg_state p)) (pg_space p) =
      (case leaves (pg_space p) b of
         None \<Rightarrow> (PAGING_STATUS_NOT_MAPPED, blank_translation)
       | Some (l, e) \<Rightarrow> (PAGING_STATUS_OK, fill_translation e b l (bit e 1) (\<not> bit e 63) (u \<and> bit e 2) (ps_pat_after (pg_state p))))"
    by blast
  have "\<not> bit e 2" if "leaves (pg_space p) b = Some (l, e)" for l e using a(3) b that by (auto simp: supervisor_wx_def)
  then show ?thesis using u a(1) by (auto simp: paging_translate_def mapped_def split: option.splits)
qed

lemma translate_same:
  assumes "paging_ok p" "paging_ok p'" "canonical b" "mapped p' b = mapped p b"
    "ps_pat_after (pg_state p') = ps_pat_after (pg_state p)"
  shows "paging_translate b False p' = paging_translate b False p"
  unfolding translate_mapped [OF assms(1,3)] translate_mapped [OF assms(2,3)] assms(4,5) ..

lemma leaf_entry_wx:
  assumes "4096 dvd pa" "pa < 2 ^ 52" "validate_permissions p = PAGING_STATUS_OK"
  shows "\<not> bit (leaf_entry pa p) 2 \<and> \<not> (bit (leaf_entry pa p) 1 \<and> \<not> bit (leaf_entry pa p) 63)"
  using low_bit [OF assms(1,2)] assms(3) by (auto simp: leaf_entry_def bit_or_iff flags_bits validate_permissions_OK)

lemma page_in_range:
  assumes "good_range va n" "4096 dvd pa" "pa + n \<le> 2 ^ 52" "va \<le> b" "b < va + n"
  shows "4096 dvd pa + (b div 4096 * 4096 - va)" "pa + (b div 4096 * 4096 - va) < 2 ^ 52"
    "pa + (b div 4096 * 4096 - va) + b mod 4096 = pa + (b - va)"
proof -
  obtain q where q: "va = 4096 * q" using assms(1) by (auto simp: good_range_def elim!: dvdE)
  define c r where "c = b div 4096" and "r = b mod 4096"
  have b: "b = 4096 * c + r" "r < 4096" by (simp_all add: c_def r_def)
  have qc: "q \<le> c" using assms(4) b unfolding q by linarith
  then obtain k where k: "c = q + k" using le_Suc_ex by blast
  have e: "c * 4096 - va = 4096 * k" "b - va = 4096 * k + r" unfolding q k b(1) by (simp_all add: k)
  have "4096 * k < n" using assms(5) b(1) unfolding q k by simp
  then show "4096 dvd pa + (b div 4096 * 4096 - va)" "pa + (b div 4096 * 4096 - va) < 2 ^ 52"
    "pa + (b div 4096 * 4096 - va) + b mod 4096 = pa + (b - va)"
    using assms(2,3) unfolding c_def [symmetric] r_def [symmetric] e by simp_all
qed

section \<open>Mapping\<close>

lemma map_wx:
  assumes "space_ok s" "supervisor_wx s" "va < 2 ^ 64" "pa < 2 ^ 64" "map_range va pa n perms 1 s = (st, s')"
  shows "space_ok s' \<and> supervisor_wx s'"
proof -
  note m = map_range_ok [OF assms(1,3-5)]
  have "\<not> bit e 2 \<and> \<not> (bit e 1 \<and> \<not> bit e 63)" if b: "canonical b" "leaves s' b = Some (l, e)" for b l e
  proof (cases "st = PAGING_STATUS_OK \<and> va \<le> b \<and> b < va + n")
    case True
    with m b have e: "e = leaf_entry (pa + (b div 4096 * 4096 - va)) perms" and g: "good_range va n" "4096 dvd pa" "pa + n \<le> 2 ^ 52"
      "validate_permissions perms = PAGING_STATUS_OK" by auto
    show ?thesis unfolding e using page_in_range [OF g(1-3), of b] True g(4) by (intro leaf_entry_wx) auto
  next
    case False
    then have "leaves s' b = leaves s b" using m b(1) by (auto split: if_splits)
    with assms(2) b show ?thesis by (auto simp: supervisor_wx_def)
  qed
  with m show ?thesis by (auto simp: supervisor_wx_def)
qed

lemma paging_map_cases:
  assumes ok: "paging_ok p" and b: "va < 2 ^ 64" "pa < 2 ^ 64" and run: "paging_map va pa n perms p = (st, p')"
  shows "paging_ok p' \<and> ps_pat_after (pg_state p') = ps_pat_after (pg_state p) \<and>
    (if st = PAGING_STATUS_OK
     then 4096 dvd pa \<and> pa + n \<le> 2 ^ 52 \<and> good_range va n \<and> validate_permissions perms = PAGING_STATUS_OK \<and>
       (\<forall>b. canonical b \<longrightarrow> va \<le> b \<and> b < va + n \<longrightarrow> mapped p b = None) \<and>
       (\<forall>b. canonical b \<longrightarrow> mapped p' b = (if va \<le> b \<and> b < va + n
          then Some (1, leaf_entry (pa + (b div 4096 * 4096 - va)) perms) else mapped p b)) \<and>
       pg_intents p' = pg_intents p @ [\<lparr>si_virtual_address = va, si_physical_address = pa, si_length = n, si_permissions = perms\<rparr>]
     else (\<forall>b. canonical b \<longrightarrow> mapped p' b = mapped p b) \<and> pg_intents p' = pg_intents p)"
proof -
  have act: "ps_active (pg_state p)" "space_ok (pg_space p)" "supervisor_wx (pg_space p)" using ok by (auto simp: paging_ok_def)
  obtain st1 s1 where m: "map_range va pa n perms 1 (pg_space p) = (st1, s1)" by (cases "map_range va pa n perms 1 (pg_space p)") blast
  note mr = map_range_ok [OF act(2) b m] and wx = map_wx [OF act(2,3) b m]
  show ?thesis
  proof (cases "st1 = PAGING_STATUS_OK")
    case False
    with run act(1) m have p': "st = st1" "p' = sync_table_frames (p\<lparr>pg_space := s1\<rparr>)"
      by (simp_all add: paging_map_def)
    have "paging_ok p'" by (rule paging_ok_cong [OF ok]) (use wx p' in simp_all)
    with False mr p' show ?thesis by (simp add: mapped_def)
  next
    case True
    let ?new = "\<lparr>si_virtual_address = va, si_physical_address = pa, si_length = n, si_permissions = perms\<rparr>"
    show ?thesis
    proof (cases "length (pg_intents p) = PAGING_SUPERVISOR_INTENT_CAPACITY")
      case False
      with run act(1) m True have p': "st = PAGING_STATUS_OK"
          "p' = sync_table_frames (p\<lparr>pg_space := s1, pg_intents := pg_intents p @ [?new]\<rparr>)"
        by (simp_all add: paging_map_def supervisor_intent_add_def)
      have "paging_ok p'" by (rule paging_ok_cong [OF ok]) (use wx p' in simp_all)
      with True mr p' show ?thesis by (simp add: mapped_def)
    next
      case full: True
      obtain st2 s2 where u: "unmap_range va n s1 = (st2, s2)" by (cases "unmap_range va n s1") blast
      from run act(1) m True full u have p': "st = PAGING_STATUS_SUPERVISOR_INTENT_FULL"
          "p' = sync_table_frames (p\<lparr>pg_space := s2\<rparr>)"
        by (simp_all add: paging_map_def supervisor_intent_add_def)
      have g: "good_range va n" "pa + n \<le> 2 ^ 52" "0 < n" using mr True by simp_all
      then have n63: "n \<le> 2 ^ 63" by simp
      note ur = unmap_range_ok [OF conjunct1 [OF wx] b(1) n63 u]
      have all: "\<exists>e. leaves s1 c = Some (1, e)" if "canonical c" "va \<le> c \<and> c < va + n" for c
        using mr True that by simp
      have req: "require_mapped_range va n s1 = PAGING_STATUS_OK"
        unfolding require_mapped_OK
        using range_leaves [OF g(1), where P = "\<lambda>o'. \<exists>e. o' = Some (1, e)" and s = s1] all by blast
      have valid: "validate_virtual_range va n 4096 = PAGING_STATUS_OK"
        using map_range_cases [OF m [unfolded True]] by blast
      have "st2 = PAGING_STATUS_OK" using u req valid by (simp add: unmap_range_def PAGING_PAGE_SIZE_def)
      with ur have s2: "space_ok s2" "\<And>c. canonical c \<Longrightarrow> leaves s2 c = (if va \<le> c \<and> c < va + n then None else leaves s1 c)"
        by simp_all
      have same: "leaves s2 c = leaves (pg_space p) c" if "canonical c" for c
        using s2(2) [OF that] mr True that by (cases "va \<le> c \<and> c < va + n") auto
      have "supervisor_wx s2" using act(3) same by (auto simp: supervisor_wx_def)
      then have "paging_ok p'" by (intro paging_ok_cong [OF ok]) (use s2(1) p' in simp_all)
      with same p' show ?thesis by (simp add: mapped_def)
    qed
  qed
qed

section \<open>Unmapping and protecting\<close>

lemma paging_unmap_cases:
  assumes ok: "paging_ok p" and b: "va < 2 ^ 64" "n \<le> 2 ^ 63" and run: "paging_unmap va n p = (st, p')"
  shows "paging_ok p' \<and> ps_pat_after (pg_state p') = ps_pat_after (pg_state p) \<and>
    (if st = PAGING_STATUS_OK
     then good_range va n \<and> (\<forall>b. canonical b \<longrightarrow> va \<le> b \<and> b < va + n \<longrightarrow> (\<exists>e. mapped p b = Some (1, e))) \<and>
       (\<forall>b. canonical b \<longrightarrow> mapped p' b = (if va \<le> b \<and> b < va + n then None else mapped p b))
     else (\<forall>b. mapped p' b = mapped p b) \<and> pg_intents p' = pg_intents p)"
proof -
  have act: "ps_active (pg_state p)" "space_ok (pg_space p)" "supervisor_wx (pg_space p)" using ok by (auto simp: paging_ok_def)
  obtain s1 where u: "unmap_range va n (pg_space p) = (st, s1)" and p': "pg_space p' = s1"
      "ps_active (pg_state p') = ps_active (pg_state p)" "ps_pat_after (pg_state p') = ps_pat_after (pg_state p)"
      "st \<noteq> PAGING_STATUS_OK \<longrightarrow> pg_intents p' = pg_intents p"
    using run act(1) by (auto simp: paging_unmap_def Let_def split: prod.splits option.splits)
  note ur = unmap_range_ok [OF act(2) b u]
  have "supervisor_wx s1"
    unfolding supervisor_wx_def
  proof (intro allI impI)
    fix c l e assume "canonical c" "leaves s1 c = Some (l, e)"
    moreover from this have "leaves (pg_space p) c = Some (l, e)" using ur by (auto split: if_splits)
    ultimately show "\<not> bit e 2 \<and> \<not> (bit e 1 \<and> \<not> bit e 63)" using act(3) by (auto simp: supervisor_wx_def)
  qed
  then have "paging_ok p'" using ur p' by (intro paging_ok_cong [OF ok]) simp_all
  with ur p' show ?thesis by (auto simp: mapped_def)
qed

lemma with_flags_wx:
  assumes "validate_permissions perms = PAGING_STATUS_OK"
  shows "\<not> bit ((e AND PAGE_FRAME_MASK) OR permissions_to_flags perms) 2 \<and>
    \<not> (bit ((e AND PAGE_FRAME_MASK) OR permissions_to_flags perms) 1 \<and>
       \<not> bit ((e AND PAGE_FRAME_MASK) OR permissions_to_flags perms) 63)"
  using assms by (auto simp: bit_or_iff bit_and_iff frame_mask_bit flags_bits validate_permissions_OK)

lemma paging_protect_cases:
  assumes ok: "paging_ok p" and b: "va < 2 ^ 64" "n \<le> 2 ^ 63" and run: "paging_protect va n perms p = (st, p')"
  shows "paging_ok p' \<and> ps_pat_after (pg_state p') = ps_pat_after (pg_state p) \<and>
    (if st = PAGING_STATUS_OK
     then good_range va n \<and> validate_permissions perms = PAGING_STATUS_OK \<and>
       (\<forall>b. canonical b \<longrightarrow> va \<le> b \<and> b < va + n \<longrightarrow> (\<exists>e. mapped p b = Some (1, e) \<and>
          leaf_memory_type e 1 (ps_pat_after (pg_state p)) = requested_type perms)) \<and>
       (\<forall>b. canonical b \<longrightarrow> mapped p' b = (if va \<le> b \<and> b < va + n
          then map_option (with_flags (permissions_to_flags perms)) (mapped p b) else mapped p b))
     else (\<forall>b. mapped p' b = mapped p b) \<and> pg_intents p' = pg_intents p)"
proof -
  let ?pat = "ps_pat_after (pg_state p)"
  have act: "ps_active (pg_state p)" "space_ok (pg_space p)" "supervisor_wx (pg_space p)" "pat_installed ?pat"
    using ok by (auto simp: paging_ok_def)
  obtain s1 where u: "protect_range va n perms ?pat (pg_space p) = (st, s1)" and p': "pg_space p' = s1"
      "ps_active (pg_state p') = ps_active (pg_state p)" "ps_pat_after (pg_state p') = ?pat"
      "st \<noteq> PAGING_STATUS_OK \<longrightarrow> pg_intents p' = pg_intents p"
    using run act(1) by (auto simp: paging_protect_def Let_def split: prod.splits option.splits)
  note ur = protect_range_ok [OF act(2) b u]
  have type: "leaf_memory_type (permissions_to_flags perms) 1 ?pat = requested_type perms"
    if "validate_permissions perms = PAGING_STATUS_OK"
    by (rule leaf_entry_type [OF act(4) that]) simp
  have "supervisor_wx s1"
    unfolding supervisor_wx_def
  proof (intro allI impI)
    fix c l e assume c: "canonical c" "leaves s1 c = Some (l, e)"
    show "\<not> bit e 2 \<and> \<not> (bit e 1 \<and> \<not> bit e 63)"
    proof (cases "st = PAGING_STATUS_OK \<and> va \<le> c \<and> c < va + n")
      case True
      with ur c obtain le where "with_flags (permissions_to_flags perms) le = (l, e)" by auto
      then have "e = (snd le AND PAGE_FRAME_MASK) OR permissions_to_flags perms" by (simp add: with_flags_def)
      then show ?thesis using with_flags_wx [of perms "snd le"] ur True by simp
    next
      case False
      then have "leaves (pg_space p) c = Some (l, e)" using ur c by (auto split: if_splits)
      with act(3) c(1) show ?thesis by (auto simp: supervisor_wx_def)
    qed
  qed
  then have "paging_ok p'" using ur p' by (intro paging_ok_cong [OF ok]) simp_all
  with ur p' type show ?thesis by (auto simp: mapped_def)
qed

section \<open>A sample live hierarchy\<close>

definition sample_paging :: "u64 \<Rightarrow> frame_allocator \<Rightarrow> paging" where
  "sample_paging root fs = \<lparr>pg_state = \<lparr>ps_root_physical_address = root, ps_table_frames = 1, ps_fine_regions = 0,
     ps_pat_before = 0x0007040600070106, ps_pat_after = 0x0007040600070106, ps_write_combining_pat_entry = 1,
     ps_no_execute_active = True, ps_write_protect_active = True, ps_active = True\<rparr>,
     pg_space = blank_space root fs, pg_intents = []\<rparr>"

lemma sample_paging_ok:
  assumes "space_ok (blank_space root fs)"
  shows "paging_ok (sample_paging root fs)" "mapped (sample_paging root fs) b = None"
proof -
  have none: "leaves (blank_space root fs) b = None" for b
    by (simp add: leaves_def blank_space_def leaf_def numeral_3_eq_3 Let_def)
  then show "mapped (sample_paging root fs) b = None" by (simp add: mapped_def sample_paging_def)
  have "pat_installed 0x0007040600070106"
    by (simp add: pat_installed_def pat_entry_def PAT_TYPE_WRITE_BACK_def PAT_TYPE_WRITE_COMBINING_def
        PAT_TYPE_UNCACHEABLE_def)
  then show "paging_ok (sample_paging root fs)"
    using assms none by (simp add: paging_ok_def sample_paging_def supervisor_wx_def)
qed

lemma page_valid:
  "validate_virtual_range 0x200000000 4096 4096 = PAGING_STATUS_OK"
  "validate_virtual_range 0x200000000 8192 4096 = PAGING_STATUS_OK"
  "validate_physical_range 0x300000 4096 4096 = PAGING_STATUS_OK"
  "validate_physical_range 0x300000 8192 4096 = PAGING_STATUS_OK"
  "validate_permissions PAGING_WRITE = PAGING_STATUS_OK"
  "validate_permissions PAGING_READ = PAGING_STATUS_OK"
  by (simp_all add: validate_virtual_range_def validate_physical_range_def address_is_canonical_iff canonical_def
      sub64_id add64_id PAGE_PHYSICAL_LIMIT_def validate_permissions_OK PAGING_WRITE_def PAGING_READ_def
      bit_push_bit_iff bit_1_iff)

section \<open>Properties of the live hierarchy\<close>

lemma paging_map_enough:
  assumes ok: "paging_ok p" and bounds: "va < 2 ^ 64" "pa < 2 ^ 64"
    and valid: "validate_permissions perms = PAGING_STATUS_OK" "validate_virtual_range va n 4096 = PAGING_STATUS_OK"
      "validate_physical_range pa n 4096 = PAGING_STATUS_OK"
    and none: "\<And>b. canonical b \<Longrightarrow> va \<le> b \<Longrightarrow> b < va + n \<Longrightarrow> mapped p b = None"
    and room: "length (pg_intents p) \<noteq> PAGING_SUPERVISOR_INTENT_CAPACITY" "3 * (n div 4096) \<le> spare (pg_space p)"
  shows "fst (paging_map va pa n perms p) = PAGING_STATUS_OK"
proof -
  have act: "ps_active (pg_state p)" "space_ok (pg_space p)" using ok by (auto simp: paging_ok_def)
  obtain s' where "map_range va pa n perms 1 (pg_space p) = (PAGING_STATUS_OK, s')"
    using map_range_supply [OF act(2) bounds valid] none room(2) unfolding mapped_def by blast
  with act(1) room(1) show ?thesis by (simp add: paging_map_def supervisor_intent_add_def)
qed

text \<open>
  C21. A mapping the kernel installs is the one it asked for.  When \<open>paging_map\<close> succeeds on a
  well-formed hierarchy, every address of the range translates to the physical address at the
  same offset, as a 4 KiB supervisor page with exactly the requested permissions and memory
  type; nothing was mapped there before; and every other address translates as it did.
\<close>

theorem paging_map_translates:
  assumes "paging_ok p" "va < 2 ^ 64" "pa < 2 ^ 64" and "paging_map va pa n perms p = (PAGING_STATUS_OK, p')"
    and "canonical b"
  shows "paging_ok p' \<and>
    (if va \<le> b \<and> b < va + n
     then fst (paging_translate b False p) = PAGING_STATUS_NOT_MAPPED \<and>
       paging_translate b False p' = (PAGING_STATUS_OK,
         Some \<lparr>tr_physical_address = pa + (b - va), tr_permissions = perms, tr_memory_type = requested_type perms,
               tr_level = 1, tr_user = False\<rparr>)
     else paging_translate b False p' = paging_translate b False p)"
proof -
  have m: "paging_ok p'" "ps_pat_after (pg_state p') = ps_pat_after (pg_state p)" "4096 dvd pa" "pa + n \<le> 2 ^ 52"
    "good_range va n" "validate_permissions perms = PAGING_STATUS_OK"
    "va \<le> b \<Longrightarrow> b < va + n \<Longrightarrow> mapped p b = None"
    "mapped p' b = (if va \<le> b \<and> b < va + n
       then Some (1, leaf_entry (pa + (b div 4096 * 4096 - va)) perms) else mapped p b)"
    using paging_map_cases [OF assms(1-4)] assms(5) by simp_all
  show ?thesis
  proof (cases "va \<le> b \<and> b < va + n")
    case True
    note pg = page_in_range [OF m(5,3,4) conjunct1 [OF True] conjunct2 [OF True]]
    have "pat_installed (ps_pat_after (pg_state p))" using assms(1) by (simp add: paging_ok_def)
    note fill = fill_leaf_entry [OF this m(6) pg(1,2) refl, of b False]
    have "paging_translate b False p' = (PAGING_STATUS_OK,
         Some \<lparr>tr_physical_address = pa + (b - va), tr_permissions = perms, tr_memory_type = requested_type perms,
               tr_level = 1, tr_user = False\<rparr>)"
      unfolding translate_mapped [OF m(1) assms(5)] m(8) if_P [OF True] m(2) pg(3) [symmetric]
      using fill by simp
    moreover have "fst (paging_translate b False p) = PAGING_STATUS_NOT_MAPPED"
      unfolding translate_mapped [OF assms(1,5)] using m(7) True by simp
    ultimately show ?thesis using m(1) True by simp
  next
    case False
    have "mapped p' b = mapped p b" unfolding m(8) if_not_P [OF False] ..
    from translate_same [OF assms(1) m(1) assms(5) this m(2)] show ?thesis
      unfolding if_not_P [OF False] using m(1) by simp
  qed
qed

lemma sample_map:
  assumes "space_ok (blank_space root fs)" "spare (blank_space root fs) = 7" "n = 4096 \<or> n = 8192"
  obtains p' where "paging_map 0x200000000 0x300000 n PAGING_WRITE (sample_paging root fs) = (PAGING_STATUS_OK, p')"
proof -
  have "fst (paging_map 0x200000000 0x300000 n PAGING_WRITE (sample_paging root fs)) = PAGING_STATUS_OK"
    by (rule paging_map_enough [OF sample_paging_ok(1) [OF assms(1)]])
      (use assms(2,3) page_valid sample_paging_ok(2) [OF assms(1)] in
        \<open>auto simp: sample_paging_def PAGING_SUPERVISOR_INTENT_CAPACITY_def\<close>)
  then show thesis using that by (cases "paging_map 0x200000000 0x300000 n PAGING_WRITE (sample_paging root fs)") simp
qed

theorem paging_map_translates_witness:
  "\<exists>p p'. paging_map 0x200000000 0x300000 8192 PAGING_WRITE p = (PAGING_STATUS_OK, p') \<and>
     paging_translate 0x200001234 False p' = (PAGING_STATUS_OK,
       Some \<lparr>tr_physical_address = 0x301234, tr_permissions = PAGING_WRITE,
             tr_memory_type = PAGING_MEMORY_WRITE_BACK, tr_level = 1, tr_user = False\<rparr>) \<and>
     fst (paging_translate 0x200002000 False p') = PAGING_STATUS_NOT_MAPPED"
proof -
  obtain f fs where s: "space_ok (blank_space (f * 4096) fs)" "spare (blank_space (f * 4096) fs) = 7" using sample_space by metis
  let ?p = "sample_paging (f * 4096) fs"
  obtain p' where p': "paging_map 0x200000000 0x300000 8192 PAGING_WRITE ?p = (PAGING_STATUS_OK, p')"
    using sample_map [OF s] by blast
  note ok = sample_paging_ok [OF s(1)]
  have c: "canonical 0x200001234" "canonical 0x200002000" by (simp_all add: canonical_def)
  have ty: "requested_type PAGING_WRITE = PAGING_MEMORY_WRITE_BACK"
    by (simp add: requested_type_def PAGING_WRITE_def bit_push_bit_iff bit_1_iff)
  have "fst (paging_translate 0x200002000 False ?p) = PAGING_STATUS_NOT_MAPPED"
    by (simp add: translate_mapped [OF ok(1) c(2)] ok(2))
  with paging_map_translates [OF ok(1) _ _ p' c(1)] paging_map_translates [OF ok(1) _ _ p' c(2)] p' ty
  show ?thesis by (intro exI [of _ ?p] exI [of _ p']) simp
qed

text \<open>
  C22. A mapping request that is refused, for whatever reason and however far it got, leaves
  every translation as it was: a range partly installed when the frames run out is taken back,
  and so is a complete one when the list of supervisor mappings is full.
\<close>

theorem paging_map_refused_unchanged:
  assumes "paging_ok p" "va < 2 ^ 64" "pa < 2 ^ 64" and "paging_map va pa n perms p = (st, p')"
    and "st \<noteq> PAGING_STATUS_OK" "canonical b"
  shows "paging_ok p' \<and> pg_intents p' = pg_intents p \<and> paging_translate b False p' = paging_translate b False p"
proof -
  have m: "paging_ok p'" "ps_pat_after (pg_state p') = ps_pat_after (pg_state p)" "mapped p' b = mapped p b"
      "pg_intents p' = pg_intents p"
    using paging_map_cases [OF assms(1-4)] assms(5,6) by simp_all
  with translate_same [OF assms(1) m(1) assms(6) m(3,2)] show ?thesis by simp
qed

theorem paging_map_refused_unchanged_witness:
  "\<exists>p p'. paging_map 0x200000000 0x300000 8192 (PAGING_WRITE OR PAGING_EXECUTE) p
       = (PAGING_STATUS_WRITABLE_AND_EXECUTABLE, p') \<and> paging_ok p' \<and>
     paging_translate 0x200000000 False p' = paging_translate 0x200000000 False p"
proof -
  obtain f fs where s: "space_ok (blank_space (f * 4096) fs)" "spare (blank_space (f * 4096) fs) = 7" using sample_space by metis
  let ?p = "sample_paging (f * 4096) fs"
  have v: "validate_permissions (PAGING_WRITE OR PAGING_EXECUTE) = PAGING_STATUS_WRITABLE_AND_EXECUTABLE"
    by (simp add: validate_permissions_def permission_consts Let_def)
  obtain p' where r: "paging_map 0x200000000 0x300000 8192 (PAGING_WRITE OR PAGING_EXECUTE) ?p
      = (PAGING_STATUS_WRITABLE_AND_EXECUTABLE, p')"
    by (simp add: paging_map_def map_range_def v sample_paging_def)
  have "canonical 0x200000000" by (simp add: canonical_def)
  from paging_map_refused_unchanged [OF sample_paging_ok(1) [OF s(1)] _ _ r _ this] r show ?thesis by auto
qed

text \<open>
  C23. \<open>paging_unmap\<close> succeeds only on a range that is mapped throughout by 4 KiB pages; then
  nothing in the range translates any more, although the tables it leaves empty are given back
  to the frame allocator, and every other address translates as before.  A refusal leaves every
  translation as it was.
\<close>

theorem paging_unmap_exact:
  assumes "paging_ok p" "va < 2 ^ 64" "n \<le> 2 ^ 63" and "paging_unmap va n p = (st, p')" and "canonical b"
  shows "paging_ok p' \<and>
    (if st = PAGING_STATUS_OK \<and> va \<le> b \<and> b < va + n
     then fst (paging_translate b False p) = PAGING_STATUS_OK \<and>
       fst (paging_translate b False p') = PAGING_STATUS_NOT_MAPPED
     else paging_translate b False p' = paging_translate b False p)"
proof -
  note u = paging_unmap_cases [OF assms(1-4)]
  have m: "paging_ok p'" "ps_pat_after (pg_state p') = ps_pat_after (pg_state p)" using u by auto
  show ?thesis
  proof (cases "st = PAGING_STATUS_OK \<and> va \<le> b \<and> b < va + n")
    case True
    with u assms(5) obtain e where "mapped p b = Some (1, e)" "mapped p' b = None" by auto
    then show ?thesis using True m(1)
      by (simp add: translate_mapped [OF assms(1,5)] translate_mapped [OF m(1) assms(5)])
  next
    case False
    then have "mapped p' b = mapped p b" using u assms(5) by (auto split: if_splits)
    from translate_same [OF assms(1) m(1) assms(5) this m(2)] show ?thesis
      unfolding if_not_P [OF False] using m(1) by simp
  qed
qed

lemma unmap_mapped:
  assumes "paging_ok p" "good_range va n" "va < 2 ^ 64" "validate_virtual_range va n 4096 = PAGING_STATUS_OK"
    "\<And>b. canonical b \<Longrightarrow> va \<le> b \<Longrightarrow> b < va + n \<Longrightarrow> \<exists>e. mapped p b = Some (1, e)"
  shows "fst (paging_unmap va n p) = PAGING_STATUS_OK"
proof -
  have "require_mapped_range va n (pg_space p) = PAGING_STATUS_OK"
    unfolding require_mapped_OK
    using range_leaves [OF assms(2), where P = "\<lambda>o'. \<exists>e. o' = Some (1, e)" and s = "pg_space p"] assms(5)
    unfolding mapped_def by blast
  then show ?thesis using assms(1,4)
    by (auto simp: paging_unmap_def unmap_range_def PAGING_PAGE_SIZE_def paging_ok_def Let_def)
qed

theorem paging_unmap_exact_witness:
  "\<exists>p p'. paging_unmap 0x200001000 4096 p = (PAGING_STATUS_OK, p') \<and>
     fst (paging_translate 0x200001000 False p') = PAGING_STATUS_NOT_MAPPED \<and>
     paging_translate 0x200000000 False p' = paging_translate 0x200000000 False p \<and>
     fst (paging_translate 0x200000000 False p) = PAGING_STATUS_OK"
proof -
  obtain f fs where s: "space_ok (blank_space (f * 4096) fs)" "spare (blank_space (f * 4096) fs) = 7" using sample_space by metis
  let ?p = "sample_paging (f * 4096) fs"
  obtain q where q: "paging_map 0x200000000 0x300000 8192 PAGING_WRITE ?p = (PAGING_STATUS_OK, q)"
    using sample_map [OF s] by blast
  have m: "paging_ok q" "\<forall>b. canonical b \<longrightarrow> 0x200000000 \<le> b \<and> b < 0x200002000 \<longrightarrow> (\<exists>e. mapped q b = Some (1, e))"
    using paging_map_cases [OF sample_paging_ok(1) [OF s(1)] _ _ q] by simp_all
  have "fst (paging_unmap 0x200001000 4096 q) = PAGING_STATUS_OK"
  proof (rule unmap_mapped [OF m(1)])
    show "good_range 0x200001000 4096" by (simp add: good_range_def)
    show "validate_virtual_range 0x200001000 4096 4096 = PAGING_STATUS_OK"
      by (simp add: validate_virtual_range_def address_is_canonical_iff canonical_def sub64_id add64_id)
  qed (use m(2) in auto)
  then obtain p' where p': "paging_unmap 0x200001000 4096 q = (PAGING_STATUS_OK, p')"
    by (cases "paging_unmap 0x200001000 4096 q") simp
  have c: "canonical 0x200000000" "canonical 0x200001000" by (simp_all add: canonical_def)
  obtain e where "mapped q 0x200000000 = Some (1, e)" using m(2) c(1) by fastforce
  then have "fst (paging_translate 0x200000000 False q) = PAGING_STATUS_OK"
    by (simp add: translate_mapped [OF m(1) c(1)])
  with paging_unmap_exact [OF m(1) _ _ p' c(1)] paging_unmap_exact [OF m(1) _ _ p' c(2)] p' show ?thesis
    by (intro exI [of _ q] exI [of _ p']) simp
qed

lemma fill_with_flags:
  assumes pat: "pat_installed pat" and p: "validate_permissions perms = PAGING_STATUS_OK"
    and type: "leaf_memory_type e 1 pat = requested_type perms"
    and e': "e' = (e AND PAGE_FRAME_MASK) OR permissions_to_flags perms"
  shows "fill_translation e' b 1 (bit e' 1) (\<not> bit e' 63) False pat =
    (fill_translation e b 1 (bit e 1) (\<not> bit e 63) False pat)\<lparr>tr_permissions := perms\<rparr>"
proof -
  have out: "bit e' i = bit (permissions_to_flags perms) i" if "i < 12 \<or> 52 \<le> i" for i
    using that by (auto simp: e' bit_or_iff bit_and_iff frame_mask_bit)
  have fm: "e' AND PAGE_FRAME_MASK = e AND PAGE_FRAME_MASK"
    by (rule bit_word_eqI) (auto simp: e' bit_or_iff bit_and_iff frame_mask_bit flags_bits)
  then have fm': "e' AND PAGE_FRAME_MASK AND c = e AND PAGE_FRAME_MASK AND c" for c by (metis and.assoc)
  have b: "bit e' 1 = bit perms 0" "(\<not> bit e' 63) = bit perms 1" using out by (simp_all add: flags_bits)
  note ty = leaf_entry_type [OF pat p out]
  show ?thesis
    using effective_permissions [OF p] b ty type by (simp add: fill_translation_def Let_def fm')
qed

text \<open>
  \<open>paging_protect\<close> changes rights and nothing else.  When it succeeds every address of the
  range keeps its physical address and its memory type and takes exactly the requested
  permissions, and every other address translates as before; when it refuses, as it does any
  request that would change a memory type, every translation stays.
\<close>

theorem paging_protect_exact:
  assumes "paging_ok p" "va < 2 ^ 64" "n \<le> 2 ^ 63" and "paging_protect va n perms p = (st, p')" and "canonical b"
  shows "paging_ok p' \<and>
    (if st = PAGING_STATUS_OK \<and> va \<le> b \<and> b < va + n
     then \<exists>t. paging_translate b False p = (PAGING_STATUS_OK, Some t) \<and>
       paging_translate b False p' = (PAGING_STATUS_OK, Some (t\<lparr>tr_permissions := perms\<rparr>))
     else paging_translate b False p' = paging_translate b False p)"
proof -
  note u = paging_protect_cases [OF assms(1-4)]
  have m: "paging_ok p'" "ps_pat_after (pg_state p') = ps_pat_after (pg_state p)" using u by auto
  show ?thesis
  proof (cases "st = PAGING_STATUS_OK \<and> va \<le> b \<and> b < va + n")
    case True
    with u assms(5) obtain e where e: "mapped p b = Some (1, e)"
        "leaf_memory_type e 1 (ps_pat_after (pg_state p)) = requested_type perms"
        "mapped p' b = map_option (with_flags (permissions_to_flags perms)) (mapped p b)"
      and perms: "validate_permissions perms = PAGING_STATUS_OK" by auto
    have "pat_installed (ps_pat_after (pg_state p))" using assms(1) by (simp add: paging_ok_def)
    note fill = fill_with_flags [OF this perms e(2) refl, of b]
    show ?thesis unfolding if_P [OF True] using m(1) fill
      by (simp add: translate_mapped [OF assms(1,5)] translate_mapped [OF m(1) assms(5)] m(2) e(1,3) with_flags_def)
  next
    case False
    then have "mapped p' b = mapped p b" using u assms(5) by (auto split: if_splits)
    from translate_same [OF assms(1) m(1) assms(5) this m(2)] show ?thesis
      unfolding if_not_P [OF False] using m(1) by simp
  qed
qed

lemma protect_mapped:
  assumes "paging_ok p" "good_range va n" "validate_virtual_range va n 4096 = PAGING_STATUS_OK"
    "validate_permissions perms = PAGING_STATUS_OK"
    "\<And>b. canonical b \<Longrightarrow> va \<le> b \<Longrightarrow> b < va + n \<Longrightarrow> \<exists>e. mapped p b = Some (1, e) \<and>
       leaf_memory_type e 1 (ps_pat_after (pg_state p)) = requested_type perms"
  shows "fst (paging_protect va n perms p) = PAGING_STATUS_OK"
proof -
  let ?pat = "ps_pat_after (pg_state p)" and ?s = "pg_space p"
  have pat: "pat_installed ?pat" "ps_active (pg_state p)" using assms(1) by (simp_all add: paging_ok_def)
  have ty: "leaf_memory_type (permissions_to_flags perms) 1 ?pat = requested_type perms"
    by (rule leaf_entry_type [OF pat(1) assms(4)]) simp
  have pages: "\<exists>e. leaves ?s (add64 va x) = Some (1, e) \<and> leaf_memory_type e 1 ?pat = requested_type perms"
    if "x \<in> set (range_offsets n 4096)" for x
    using range_leaves [OF assms(2), where P = "\<lambda>o'. \<exists>e. o' = Some (1, e) \<and> leaf_memory_type e 1 ?pat = requested_type perms"
      and s = ?s, THEN iffD2] assms(5) that unfolding mapped_def by blast
  have req: "require_mapped_range va n ?s = PAGING_STATUS_OK" unfolding require_mapped_OK using pages by blast
  have "check_memory_type va (requested_type perms) ?pat x ?s = None" if x: "x \<in> set (range_offsets n 4096)" for x
  proof -
    obtain e where e: "leaves ?s (add64 va x) = Some (1, e)" "leaf_memory_type e 1 ?pat = requested_type perms"
      using pages [OF x] by blast
    then obtain t where t: "tab (tables_of ?s) (root_of ?s) (add64 va x) 3 = Some t"
      using leaf_level(1) unfolding leaves_def by blast
    with leaf_small [OF t] e show ?thesis
      by (simp add: check_memory_type_def entry_for_look get_entry_def leaves_def split: if_splits)
  qed
  then have "first_some (\<lambda>off. check_memory_type va (requested_type perms) ?pat off ?s) (range_offsets n 4096) = None"
    by (simp add: first_some_None_iff)
  with req assms(3,4) pat(2) ty show ?thesis
    by (simp add: paging_protect_def protect_range_def PAGING_PAGE_SIZE_def)
qed

theorem paging_protect_exact_witness:
  "\<exists>p p' t. paging_protect 0x200000000 4096 PAGING_READ p = (PAGING_STATUS_OK, p') \<and>
     paging_translate 0x200000010 False p = (PAGING_STATUS_OK, Some t) \<and>
     paging_translate 0x200000010 False p' = (PAGING_STATUS_OK, Some (t\<lparr>tr_permissions := PAGING_READ\<rparr>)) \<and>
     paging_translate 0x200001000 False p' = paging_translate 0x200001000 False p"
proof -
  obtain f fs where s: "space_ok (blank_space (f * 4096) fs)" "spare (blank_space (f * 4096) fs) = 7" using sample_space by metis
  let ?p = "sample_paging (f * 4096) fs"
  obtain q where q: "paging_map 0x200000000 0x300000 8192 PAGING_WRITE ?p = (PAGING_STATUS_OK, q)"
    using sample_map [OF s] by blast
  note c = paging_map_cases [OF sample_paging_ok(1) [OF s(1)] _ _ q]
  have m: "paging_ok q" "\<And>b. canonical b \<Longrightarrow> 0x200000000 \<le> b \<Longrightarrow> b < 0x200002000 \<Longrightarrow>
      mapped q b = Some (1, leaf_entry (0x300000 + (b div 4096 * 4096 - 0x200000000)) PAGING_WRITE)"
    using c by simp_all
  have rt: "requested_type PAGING_READ = PAGING_MEMORY_WRITE_BACK" "requested_type PAGING_WRITE = PAGING_MEMORY_WRITE_BACK"
    by (simp_all add: requested_type_def PAGING_READ_def PAGING_WRITE_def bit_push_bit_iff bit_1_iff)
  have pat: "pat_installed (ps_pat_after (pg_state q))" using m(1) by (simp add: paging_ok_def)
  have ty: "leaf_memory_type (leaf_entry pa PAGING_WRITE) 1 (ps_pat_after (pg_state q)) = requested_type PAGING_READ"
    if "4096 dvd pa" "pa < 2 ^ 52" for pa
    unfolding rt(1) rt(2) [symmetric]
    by (rule leaf_entry_type [OF pat page_valid(5)]) (use low_bit [OF that] in \<open>simp add: leaf_entry_def bit_or_iff\<close>)
  have "fst (paging_protect 0x200000000 4096 PAGING_READ q) = PAGING_STATUS_OK"
  proof (rule protect_mapped [OF m(1) _ page_valid(1,6)])
    show g: "good_range 0x200000000 4096" by (simp add: good_range_def)
    fix b assume b: "canonical b" "0x200000000 \<le> b" "b < 0x200000000 + 4096"
    then have "b div 4096 * 4096 = 0x200000000" by auto
    moreover have "leaf_memory_type (leaf_entry 0x300000 PAGING_WRITE) 1 (ps_pat_after (pg_state q)) = requested_type PAGING_READ"
      by (rule ty) simp_all
    ultimately show "\<exists>e. mapped q b = Some (1, e) \<and>
        leaf_memory_type e 1 (ps_pat_after (pg_state q)) = requested_type PAGING_READ" using m(2) b by simp
  qed
  then obtain p' where p': "paging_protect 0x200000000 4096 PAGING_READ q = (PAGING_STATUS_OK, p')"
    by (cases "paging_protect 0x200000000 4096 PAGING_READ q") simp
  have cn: "canonical 0x200000010" "canonical 0x200001000" by (simp_all add: canonical_def)
  from paging_protect_exact [OF m(1) _ _ p' cn(1)] paging_protect_exact [OF m(1) _ _ p' cn(2)] p' show ?thesis by auto
qed

section \<open>Every sequence of operations\<close>

text \<open>The hierarchies that calls with 64-bit arguments lead to.\<close>

inductive paging_reaches :: "paging \<Rightarrow> paging \<Rightarrow> bool" for p where
  start: "paging_reaches p p"
| map_step: "paging_reaches p q \<Longrightarrow> va < 2 ^ 64 \<Longrightarrow> pa < 2 ^ 64 \<Longrightarrow> paging_map va pa n perms q = (st, q') \<Longrightarrow>
    paging_reaches p q'"
| unmap_step: "paging_reaches p q \<Longrightarrow> va < 2 ^ 64 \<Longrightarrow> n \<le> 2 ^ 63 \<Longrightarrow> paging_unmap va n q = (st, q') \<Longrightarrow>
    paging_reaches p q'"
| protect_step: "paging_reaches p q \<Longrightarrow> va < 2 ^ 64 \<Longrightarrow> n \<le> 2 ^ 63 \<Longrightarrow> paging_protect va n perms q = (st, q') \<Longrightarrow>
    paging_reaches p q'"

lemma reaches_ok: "paging_reaches p q \<Longrightarrow> paging_ok p \<Longrightarrow> paging_ok q"
  by (induction rule: paging_reaches.induct)
    (auto dest: paging_map_cases paging_unmap_cases paging_protect_cases)

lemma fill_rights:
  "bit (tr_permissions (fill_translation e b l w x u pat)) 0 \<longleftrightarrow> w"
  "bit (tr_permissions (fill_translation e b l w x u pat)) 1 \<longleftrightarrow> x"
  "tr_user (fill_translation e b l w x u pat) = u"
proof -
  have m: "\<not> bit (memory_type_permissions t) 0" "\<not> bit (memory_type_permissions t) 1" for t
    by (simp_all add: memory_type_permissions_def permission_consts bit_push_bit_iff bit_1_iff)
  show "bit (tr_permissions (fill_translation e b l w x u pat)) 0 \<longleftrightarrow> w"
    "bit (tr_permissions (fill_translation e b l w x u pat)) 1 \<longleftrightarrow> x"
    using m by (simp_all add: fill_translation_def Let_def bit_or_iff permission_consts PAGING_READ_def
        bit_push_bit_iff bit_1_iff)
qed (simp add: fill_translation_def Let_def)

text \<open>
  C24. Whatever sequence of map, unmap and protect calls is made, accepted or refused, no
  address of the live hierarchy is ever both writable and executable, and none is reachable
  from user mode.
\<close>

theorem paging_never_writable_and_executable:
  assumes "paging_ok p" "paging_reaches p q" "canonical b" "paging_translate b False q = (PAGING_STATUS_OK, Some t)"
  shows "\<not> tr_user t \<and> \<not> (tr_permissions t AND PAGING_WRITE \<noteq> 0 \<and> tr_permissions t AND PAGING_EXECUTE \<noteq> 0)"
proof -
  have ok: "paging_ok q" using reaches_ok assms by blast
  from assms(4) obtain l e where le: "mapped q b = Some (l, e)"
    and t: "t = fill_translation e b l (bit e 1) (\<not> bit e 63) False (ps_pat_after (pg_state q))"
    by (auto simp: translate_mapped [OF ok assms(3)] split: option.splits)
  have "\<not> (bit e 1 \<and> \<not> bit e 63)" using ok le assms(3) by (auto simp: paging_ok_def supervisor_wx_def mapped_def)
  then show ?thesis by (simp add: t fill_rights fill_rights(2) [unfolded One_nat_def])
qed

theorem paging_never_writable_and_executable_witness:
  "\<exists>p q t. paging_reaches p q \<and> paging_translate 0x200000000 False q = (PAGING_STATUS_OK, Some t) \<and>
     tr_permissions t AND PAGING_WRITE \<noteq> 0 \<and> tr_permissions t AND PAGING_EXECUTE = 0"
proof -
  obtain f fs where s: "space_ok (blank_space (f * 4096) fs)" "spare (blank_space (f * 4096) fs) = 7" using sample_space by metis
  let ?p = "sample_paging (f * 4096) fs"
  obtain q where q: "paging_map 0x200000000 0x300000 4096 PAGING_WRITE ?p = (PAGING_STATUS_OK, q)"
    using sample_map [OF s] by blast
  note ok = sample_paging_ok(1) [OF s(1)]
  have r: "paging_reaches ?p q" by (rule paging_reaches.map_step [OF paging_reaches.start _ _ q]) simp_all
  have c: "canonical 0x200000000" by (simp add: canonical_def)
  note cs = paging_map_cases [OF ok _ _ q]
  then have m: "paging_ok q" "mapped q 0x200000000 = Some (1, leaf_entry 0x300000 PAGING_WRITE)" using c by simp_all
  let ?t = "fill_translation (leaf_entry 0x300000 PAGING_WRITE) 0x200000000 1 (bit (leaf_entry 0x300000 PAGING_WRITE) 1)
      (\<not> bit (leaf_entry 0x300000 PAGING_WRITE) 63) False (ps_pat_after (pg_state q))"
  have t: "paging_translate 0x200000000 False q = (PAGING_STATUS_OK, Some ?t)"
    by (simp add: translate_mapped [OF m(1) c] m(2))
  have "bit (leaf_entry 0x300000 PAGING_WRITE) 1"
    by (simp add: leaf_entry_def bit_or_iff flags_bits PAGING_WRITE_def bit_push_bit_iff bit_1_iff)
  then have "tr_permissions ?t AND PAGING_WRITE \<noteq> 0" by (simp add: fill_rights)
  with paging_never_writable_and_executable [OF ok r c t] r t show ?thesis by blast
qed

text \<open>
  Unmapping a range just mapped succeeds and restores every translation.
\<close>

theorem paging_map_unmap_roundtrip:
  assumes "paging_ok p" "va < 2 ^ 64" "pa < 2 ^ 64" and "paging_map va pa n perms p = (PAGING_STATUS_OK, q)"
  shows "\<exists>r. paging_unmap va n q = (PAGING_STATUS_OK, r) \<and> paging_ok r \<and>
    (\<forall>b. canonical b \<longrightarrow> paging_translate b False r = paging_translate b False p)"
proof -
  note m = paging_map_cases [OF assms]
  have q: "paging_ok q" "good_range va n" "pa + n \<le> 2 ^ 52" "ps_pat_after (pg_state q) = ps_pat_after (pg_state p)"
    using m by simp_all
  have n63: "n \<le> 2 ^ 63" using q(3) by simp
  have active: "ps_active (pg_state p)" using assms(1) by (simp add: paging_ok_def)
  then have "\<exists>s'. map_range va pa n perms 1 (pg_space p) = (PAGING_STATUS_OK, s')"
    using assms(4) by (auto simp: paging_map_def Let_def split: prod.splits if_splits)
  then have "validate_virtual_range va n 4096 = PAGING_STATUS_OK"
    using map_range_cases [of va pa n perms "pg_space p" PAGING_STATUS_OK] by blast
  then have "fst (paging_unmap va n q) = PAGING_STATUS_OK"
    by (rule unmap_mapped [OF q(1,2) assms(2)]) (use m in simp)
  then obtain r where r: "paging_unmap va n q = (PAGING_STATUS_OK, r)" by (cases "paging_unmap va n q") simp
  note u = paging_unmap_cases [OF q(1) assms(2) n63 r]
  have same: "mapped r b = mapped p b" if "canonical b" for b
  proof (cases "va \<le> b \<and> b < va + n")
    case True
    then show ?thesis using u m that by simp
  next
    case False
    have "mapped r b = mapped q b" using u that False by (auto split: if_splits)
    also have "\<dots> = mapped p b" using m that False by (auto split: if_splits)
    finally show ?thesis .
  qed
  have ok: "paging_ok r" "ps_pat_after (pg_state r) = ps_pat_after (pg_state p)" using u q(4) by simp_all
  have "paging_translate b False r = paging_translate b False p" if "canonical b" for b
    by (rule translate_same [OF assms(1) ok(1) that same [OF that] ok(2)])
  with r ok(1) show ?thesis by blast
qed

theorem paging_map_unmap_roundtrip_witness:
  "\<exists>p q r. paging_map 0x200000000 0x300000 8192 PAGING_WRITE p = (PAGING_STATUS_OK, q) \<and>
     paging_unmap 0x200000000 8192 q = (PAGING_STATUS_OK, r) \<and>
     paging_translate 0x200001000 False r = paging_translate 0x200001000 False p"
proof -
  obtain f fs where s: "space_ok (blank_space (f * 4096) fs)" "spare (blank_space (f * 4096) fs) = 7" using sample_space by metis
  obtain q where q: "paging_map 0x200000000 0x300000 8192 PAGING_WRITE (sample_paging (f * 4096) fs) = (PAGING_STATUS_OK, q)"
    using sample_map [OF s] by blast
  have "canonical 0x200001000" by (simp add: canonical_def)
  with paging_map_unmap_roundtrip [OF sample_paging_ok(1) [OF s(1)] _ _ q] q show ?thesis by auto
qed

text \<open>
  A mapping is always possible where it is allowed: a valid range with nothing mapped in
  it, three free frames for each of its pages and room in the list of supervisor mappings
  make \<open>paging_map\<close> succeed.
\<close>

theorem paging_map_succeeds:
  assumes "paging_ok p" "va < 2 ^ 64" "pa < 2 ^ 64"
    and "validate_permissions perms = PAGING_STATUS_OK" "validate_virtual_range va n PAGING_PAGE_SIZE = PAGING_STATUS_OK"
      "validate_physical_range pa n PAGING_PAGE_SIZE = PAGING_STATUS_OK"
    and "\<And>b. canonical b \<Longrightarrow> va \<le> b \<Longrightarrow> b < va + n \<Longrightarrow> fst (paging_translate b False p) = PAGING_STATUS_NOT_MAPPED"
    and "length (pg_intents p) \<noteq> PAGING_SUPERVISOR_INTENT_CAPACITY"
    and "ph_is_process (fst (pg_space p)) = False" "3 * (n div 4096) \<le> card (free_set (mc_frames (snd (pg_space p))))"
  shows "\<exists>q. paging_map va pa n perms p = (PAGING_STATUS_OK, q)"
proof -
  have "mapped p b = None" if "canonical b" "va \<le> b" "b < va + n" for b
    using assms(7) [OF that] translate_mapped [OF assms(1) that(1)] by (auto split: option.splits)
  moreover have "3 * (n div 4096) \<le> spare (pg_space p)" using assms(9,10) by (simp add: spare_def)
  ultimately have "fst (paging_map va pa n perms p) = PAGING_STATUS_OK"
    using paging_map_enough [OF assms(1-4)] assms(5,6,8) by (simp add: PAGING_PAGE_SIZE_def)
  then show ?thesis by (cases "paging_map va pa n perms p") simp
qed

theorem paging_map_succeeds_witness:
  "\<exists>p q. card (free_set (mc_frames (snd (pg_space p)))) = 7 \<and>
     paging_map 0x200000000 0x300000 8192 PAGING_WRITE p = (PAGING_STATUS_OK, q)"
proof -
  obtain f fs where s: "space_ok (blank_space (f * 4096) fs)" "spare (blank_space (f * 4096) fs) = 7" using sample_space by metis
  let ?p = "sample_paging (f * 4096) fs"
  note ok = sample_paging_ok [OF s(1)]
  have sp: "pg_space ?p = blank_space (f * 4096) fs" "pg_intents ?p = []" by (simp_all add: sample_paging_def)
  have free: "ph_is_process (fst (pg_space ?p)) = False" "card (free_set (mc_frames (snd (pg_space ?p)))) = 7"
    using s(2) by (simp_all add: sp spare_def blank_space_def)
  have "\<exists>q. paging_map 0x200000000 0x300000 8192 PAGING_WRITE ?p = (PAGING_STATUS_OK, q)"
    by (rule paging_map_succeeds [OF ok(1)])
      (use ok free page_valid in \<open>simp_all add: translate_mapped sp PAGING_SUPERVISOR_INTENT_CAPACITY_def PAGING_PAGE_SIZE_def\<close>)
  with free(2) show ?thesis by blast
qed

section \<open>Two departures from what the comments promise\<close>

lemma replay_not_ok: "fold_until replay_intent intents s \<noteq> Inl (PAGING_STATUS_OK, s1)"
  by (induction intents arbitrary: s) (auto simp: replay_intent_def split: prod.splits if_splits)

lemma replay_leaves:
  assumes "fold_until replay_intent intents s = Inr s'" "space_ok s"
    and "\<And>i. i \<in> set intents \<Longrightarrow> si_virtual_address i < 2 ^ 64 \<and> si_physical_address i < 2 ^ 64"
  shows "space_ok s' \<and> (\<forall>i \<in> set intents. \<forall>b. canonical b \<longrightarrow>
      si_virtual_address i \<le> b \<and> b < si_virtual_address i + si_length i \<longrightarrow> leaves s' b \<noteq> None) \<and>
    (\<forall>b. canonical b \<longrightarrow> leaves s b \<noteq> None \<longrightarrow> leaves s' b \<noteq> None)"
  using assms
proof (induction intents arbitrary: s)
  case (Cons i intents)
  let ?va = "si_virtual_address i" and ?pa = "si_physical_address i" and ?n = "si_length i"
  obtain st s1 where m: "map_range ?va ?pa ?n (si_permissions i) 1 s = (st, s1)"
    by (cases "map_range ?va ?pa ?n (si_permissions i) 1 s") blast
  then have "replay_intent i s = (if st \<noteq> PAGING_STATUS_OK then Inl (st, s1) else Inr s1)" by (simp add: replay_intent_def)
  with Cons.prems(1) have st: "st = PAGING_STATUS_OK" "fold_until replay_intent intents s1 = Inr s'"
    by (auto split: if_splits)
  have bounds: "?va < 2 ^ 64" "?pa < 2 ^ 64" using Cons.prems(3) [of i] by simp_all
  note mr = map_range_ok [OF Cons.prems(2) bounds m]
  have l1: "leaves s1 b \<noteq> None" if "canonical b" "?va \<le> b \<and> b < ?va + ?n \<or> leaves s b \<noteq> None" for b
    using mr st(1) that by (auto split: if_splits)
  have "space_ok s1" using mr by blast
  from Cons.IH [OF st(2) this] Cons.prems(3) have
    "space_ok s' \<and> (\<forall>i \<in> set intents. \<forall>b. canonical b \<longrightarrow>
      si_virtual_address i \<le> b \<and> b < si_virtual_address i + si_length i \<longrightarrow> leaves s' b \<noteq> None) \<and>
     (\<forall>b. canonical b \<longrightarrow> leaves s1 b \<noteq> None \<longrightarrow> leaves s' b \<noteq> None)" by simp
  with l1 show ?case by simp
qed simp

text \<open>
  Unmapping a part of a supervisor mapping removes it from the live hierarchy only.  The
  list of mappings to replay is searched for exactly the range unmapped, so the entry of the
  whole mapping stays, and every process hierarchy built afterwards still maps the address.
\<close>

theorem paging_partial_unmap_still_replayed:
  assumes "paging_ok p" "va < 2 ^ 64" "n \<le> 2 ^ 63" and "paging_unmap va n p = (PAGING_STATUS_OK, q)"
    and "supervisor_intent_find va n (pg_intents p) = None"
    and "i \<in> set (pg_intents p)" "si_virtual_address i \<le> b" "b < si_virtual_address i + si_length i"
    and "\<And>j. j \<in> set (pg_intents p) \<Longrightarrow> si_virtual_address j < 2 ^ 64 \<and> si_physical_address j < 2 ^ 64"
    and "canonical b" "va \<le> b" "b < va + n"
    and "space_ok s" "replay_supervisor_intent (pg_intents q) s = (PAGING_STATUS_OK, s')"
  shows "fst (paging_translate b False q) = PAGING_STATUS_NOT_MAPPED \<and>
    fst (translate_address b (ps_pat_after (pg_state q)) s') = PAGING_STATUS_OK"
proof -
  note u = paging_unmap_cases [OF assms(1-4)]
  have "mapped q b = None" "paging_ok q" using u assms(10-12) by simp_all
  then have "fst (paging_translate b False q) = PAGING_STATUS_NOT_MAPPED" using assms(10) by (simp add: translate_mapped)
  moreover have "pg_intents q = pg_intents p"
    using assms(1,4,5) by (auto simp: paging_unmap_def paging_ok_def Let_def split: prod.splits)
  then have "fold_until replay_intent (pg_intents p) s = Inr s'"
    using assms(14) by (auto simp: replay_supervisor_intent_def replay_not_ok split: sum.splits)
  from replay_leaves [OF this assms(13,9)] assms(6-8,10) have "space_ok s'" "leaves s' b \<noteq> None" by blast+
  then have "fst (translate_address b (ps_pat_after (pg_state q)) s') = PAGING_STATUS_OK"
    using translate_leaf [OF _ assms(10), of s' "ps_pat_after (pg_state q)"] by auto
  ultimately show ?thesis by blast
qed

theorem paging_partial_unmap_still_replayed_witness:
  "\<exists>p q s s'. paging_unmap 0x200001000 4096 p = (PAGING_STATUS_OK, q) \<and>
     fst (paging_translate 0x200001000 False q) = PAGING_STATUS_NOT_MAPPED \<and>
     replay_supervisor_intent (pg_intents q) s = (PAGING_STATUS_OK, s') \<and>
     fst (translate_address 0x200001000 (ps_pat_after (pg_state q)) s') = PAGING_STATUS_OK"
proof -
  obtain f fs where s: "space_ok (blank_space (f * 4096) fs)" "spare (blank_space (f * 4096) fs) = 7" using sample_space by metis
  let ?p = "sample_paging (f * 4096) fs" and ?s = "blank_space (f * 4096) fs"
  obtain p where p: "paging_map 0x200000000 0x300000 8192 PAGING_WRITE ?p = (PAGING_STATUS_OK, p)"
    using sample_map [OF s] by blast
  note m = paging_map_cases [OF sample_paging_ok(1) [OF s(1)] _ _ p]
  let ?i = "\<lparr>si_virtual_address = 0x200000000, si_physical_address = 0x300000, si_length = 8192, si_permissions = PAGING_WRITE\<rparr>"
  have i: "pg_intents p = [?i]" and ok: "paging_ok p"
    and mp: "\<forall>b. canonical b \<longrightarrow> 0x200000000 \<le> b \<and> b < 0x200002000 \<longrightarrow> (\<exists>e. mapped p b = Some (1, e))"
    using m by (simp_all add: sample_paging_def)
  have "fst (paging_unmap 0x200001000 4096 p) = PAGING_STATUS_OK"
  proof (rule unmap_mapped [OF ok])
    show "good_range 0x200001000 4096" by (simp add: good_range_def)
    show "validate_virtual_range 0x200001000 4096 4096 = PAGING_STATUS_OK"
      by (simp add: validate_virtual_range_def address_is_canonical_iff canonical_def sub64_id add64_id)
  qed (use mp in auto)
  then obtain q where q: "paging_unmap 0x200001000 4096 p = (PAGING_STATUS_OK, q)"
    by (cases "paging_unmap 0x200001000 4096 p") simp
  have find: "supervisor_intent_find 0x200001000 4096 (pg_intents p) = None"
    by (simp add: supervisor_intent_find_def i find_from.simps)
  have iq: "pg_intents q = [?i]" using q find i ok by (auto simp: paging_unmap_def paging_ok_def Let_def split: prod.splits)
  have ps: "pg_space ?p = ?s" "ps_active (pg_state ?p)" by (simp_all add: sample_paging_def)
  with p obtain s' where "map_range 0x200000000 0x300000 8192 PAGING_WRITE 1 ?s = (PAGING_STATUS_OK, s')"
    by (auto simp: paging_map_def Let_def split: prod.splits if_splits)
  then have rep: "replay_supervisor_intent (pg_intents q) ?s = (PAGING_STATUS_OK, s')"
    by (simp add: replay_supervisor_intent_def replay_intent_def iq)
  have c: "canonical 0x200001000" by (simp add: canonical_def)
  have "fst (paging_translate 0x200001000 False q) = PAGING_STATUS_NOT_MAPPED \<and>
      fst (translate_address 0x200001000 (ps_pat_after (pg_state q)) s') = PAGING_STATUS_OK"
    by (rule paging_partial_unmap_still_replayed [OF ok _ _ q find _ _ _ _ c _ _ s(1) rep, of ?i]) (simp_all add: i)
  with q rep show ?thesis by blast
qed

text \<open>
  The hierarchy of the kernel's own table-supply test: a root and one more table, where a
  mapping needs three.  The refused mapping leaves the table it did get linked under the root,
  and counted.
\<close>

definition scarce_space :: space where
  "scarce_space =
     (\<lparr>ph_root = 0x1000, ph_arena_base = 0x1000, ph_arena_capacity = 2, ph_arena_used = 1, ph_table_frames = 1,
       ph_live = False, ph_is_process = False\<rparr>,
      \<lparr>mc_tables = (\<lambda>_ _. 0), mc_frames = sample_allocator, mc_cr3 = 0, mc_invalidated = [],
       mc_table_failure = \<lparr>tf_failure_ordinal = 0, tf_allocation_count = 0, tf_observed = False, tf_armed = False\<rparr>\<rparr>)"

theorem map_range_refused_keeps_table:
  "\<exists>s'. map_range 0x200000 0x300000 4096 PAGING_WRITE 1 scarce_space = (PAGING_STATUS_OUT_OF_FRAMES, s') \<and>
     ph_table_frames (fst s') = Suc (ph_table_frames (fst scarce_space)) \<and>
     present (tables_of s' (root_of s') (table_index 0x200000 4))"
proof -
  have v: "validate_virtual_range 0x200000 4096 4096 = PAGING_STATUS_OK"
    by (simp add: validate_virtual_range_def address_is_canonical_iff canonical_def sub64_id add64_id)
  have ix: "table_index 0x200000 4 = 0" "table_index 0x200000 3 = 0" "table_index 0x200000 2 = 1"
    by (simp_all add: table_index_div)
  have off: "range_offsets 4096 4096 = [0]" "range_offsets 0 4096 = []" by (simp_all add: range_offsets_def)
  have add: "add64 0x200000 0 = 0x200000" "add64 0x300000 0 = 0x300000" "add64 0x1000 (mul64 1 PAGING_PAGE_SIZE) = 0x2000"
    "add64 1 1 = 2" by (simp_all add: add64_id mul64_id PAGING_PAGE_SIZE_def)
  have le: "frame_of (of_nat 0x2000 OR PAGE_PRESENT OR PAGE_WRITABLE) = 0x2000"
    "interior (of_nat 0x2000 OR PAGE_PRESENT OR PAGE_WRITABLE)"
    by (rule link_entry; simp)+
  define link where "link = (of_nat 0x2000 OR PAGE_PRESENT OR PAGE_WRITABLE :: 64 word)"
  note le = le [folded link_def]
  define s1 where "s1 = ((fst scarce_space)\<lparr>ph_arena_used := 2, ph_table_frames := 2\<rparr>,
    set_entry (0x1000, 0) link (zero_table 0x2000 (snd scarce_space)))"
  have alloc: "allocate_table scarce_space = (PAGING_STATUS_OK, 0x2000,
      (fst scarce_space)\<lparr>ph_arena_used := 2, ph_table_frames := 2\<rparr>, zero_table 0x2000 (snd scarce_space))"
    using add by (simp add: allocate_table_def scarce_space_def enter_table_def Let_def SAPOTE_EARLY_PHYSICAL_LIMIT_def
        zero_table_def hierarchy_is_process_def)
  have out: "allocate_table s1 = (PAGING_STATUS_OUT_OF_FRAMES, 0, s1)"
    by (simp add: allocate_table_def s1_def scarce_space_def set_entry_def zero_table_def Let_def hierarchy_is_process_def)
  have e: "entry_for 0x200000 1 True scarce_space = (PAGING_STATUS_OUT_OF_FRAMES, None, s1)"
  proof -
    have "entry_walk 0x200000 1 True 3 0x1000 scarce_space = entry_walk 0x200000 1 True 2 0x2000 s1"
    proof -
      have "get_entry (0x1000, 0) (snd scarce_space) = 0" by (simp add: get_entry_def scarce_space_def)
      then have "entry_walk 0x200000 1 True (Suc 2) 0x1000 scarce_space = entry_walk 0x200000 1 True 2 0x2000 s1"
        unfolding entry_walk.simps using alloc by (simp add: s1_def link_def ix)
      then show ?thesis by simp
    qed
    also have "\<dots> = (PAGING_STATUS_OUT_OF_FRAMES, None, s1)"
    proof -
      have "get_entry (0x2000, 0) (snd s1) = 0"
        by (simp add: get_entry_def s1_def set_entry_def zero_table_def)
      then have "entry_walk 0x200000 1 True (Suc 1) 0x2000 s1 = (PAGING_STATUS_OUT_OF_FRAMES, None, s1)"
        unfolding entry_walk.simps using out by (simp add: ix(2) [unfolded numeral_3_eq_3])
      then show ?thesis by (simp add: numeral_2_eq_2)
    qed
    finally show ?thesis by (simp add: entry_for_def PAGING_LEVEL_COUNT_def scarce_space_def)
  qed
  have "check_unmapped 0x200000 1 0 scarce_space = None"
    by (simp add: check_unmapped_def add entry_for_def PAGING_LEVEL_COUNT_def numeral_3_eq_3 get_entry_def scarce_space_def)
  then have "map_range 0x200000 0x300000 4096 PAGING_WRITE 1 scarce_space = (PAGING_STATUS_OUT_OF_FRAMES, s1)"
    using v page_valid(3,5) e by (simp add: map_range_def off add install_page_def clear_range_def)
  moreover have "present (tables_of s1 (root_of s1) (table_index 0x200000 4))"
    using le(2) by (simp add: s1_def ix scarce_space_def set_entry_def)
  ultimately show ?thesis by (intro exI [of _ s1]) (simp add: s1_def scarce_space_def)
qed

theorem validate_virtual_range_spans_hole:
  "validate_virtual_range (2 ^ 47 - 4096) (2 ^ 64 - 2 ^ 48 + 8192) PAGING_PAGE_SIZE = PAGING_STATUS_OK \<and>
   \<not> address_is_canonical (2 ^ 47)"
  by (simp add: validate_virtual_range_def address_is_canonical_iff canonical_def sub64_id add64_id PAGING_PAGE_SIZE_def)

end
