(* ===== verification/Paging_Frames.thy ===== *)
theory Paging_Frames
  imports Kernel_Paging
begin

text \<open>
  The frame allocator inside the paging state: clients that take frames for themselves
  beside the page tables (DMA buffers, thread stacks) update it in place.  Such an update
  keeps the hierarchy sound as long as the frames of the tables stay allocated.
\<close>

section \<open>The allocator of a paging state\<close>

definition set_frames :: "frame_allocator \<Rightarrow> paging \<Rightarrow> paging" where
  "set_frames fs p =
     (case pg_space p of (hierarchy, m) \<Rightarrow> p\<lparr>pg_space := (hierarchy, m\<lparr>mc_frames := fs\<rparr>)\<rparr>)"

lemma set_frames_simps [simp]:
  "mc_frames (snd (pg_space (set_frames fs p))) = fs" "pg_intents (set_frames fs p) = pg_intents p"
  "pg_state (set_frames fs p) = pg_state p" "set_frames fs (set_frames fs' p) = set_frames fs p"
  "set_frames (mc_frames (snd (pg_space p))) p = p"
  by (cases "pg_space p"; simp add: set_frames_def)+

section \<open>Tables stay where they are\<close>

definition table_frames :: "paging \<Rightarrow> nat set" where
  "table_frames p = (\<lambda>a. a div 4096) ` reached (tables_of (pg_space p)) (root_of (pg_space p))"

lemma tables_outside_runs:
  assumes ok: "paging_ok p"
  shows "table_frames p \<inter> contiguous_set (mc_frames (snd (pg_space p))) = {}"
proof -
  have "reached (tables_of (pg_space p)) (root_of (pg_space p)) \<subseteq>
      (\<lambda>f. f * 4096) ` single_set (mc_frames (snd (pg_space p)))"
    using ok by (simp add: paging_ok_def space_ok_def)
  then have "table_frames p \<subseteq> single_set (mc_frames (snd (pg_space p)))" by (auto simp: table_frames_def)
  then show ?thesis by (auto simp: single_set_def)
qed

lemma set_frames_paging_ok:
  assumes ok: "paging_ok p" and fs: "frame_ready fs" "single_set fs = single_set (mc_frames (snd (pg_space p)))"
  shows "paging_ok (set_frames fs p)"
  using assms unfolding paging_ok_def space_ok_def supervisor_wx_def leaves_def set_frames_def
  by (cases "pg_space p") simp

end
