(* ===== verification/Dma.thy ===== *)
theory Dma
  imports Paging_Frames
begin

text \<open>
  \<open>src/kernel/dma.c\<close>: physically contiguous buffers that devices may write, each with one
  owner at a time.  A handle is a structure in the caller's memory; the kernel keeps a
  record with the handle's address, so that a copy of a handle is not a handle.  The state
  holds the caller's memory, the records, the counters and the paging state, whose machine
  holds the frame allocator that serves the runs.
\<close>

unbundle bit_operations_syntax

section \<open>State\<close>

datatype dma_owner = DMA_OWNER_NONE | DMA_OWNER_CPU | DMA_OWNER_DEVICE | DMA_OWNER_COUNT

datatype dma_status =
    DMA_STATUS_OK
  | DMA_STATUS_NULL_ARGUMENT
  | DMA_STATUS_ALREADY_INITIALIZED
  | DMA_STATUS_NOT_INITIALIZED
  | DMA_STATUS_FRAME_ALLOCATION_FAILURE
  | DMA_STATUS_NOT_IDENTITY_MAPPED
  | DMA_STATUS_NOT_PREPARED
  | DMA_STATUS_WRONG_OWNER
  | DMA_STATUS_DOUBLE_FREE
  | DMA_STATUS_BAD_ALLOCATION

record dma_request =
  dq_page_count :: u64
  dq_alignment :: u64
  dq_maximum_physical_address :: u64

text \<open>
  A null \<open>cpu_address\<close> is \<open>None\<close>; a run at physical address 0, which the frame allocator never
  holds free once the kernel has reserved low memory, would be null in the code.
\<close>

record dma_allocation =
  da_frames :: frame_contiguous_allocation
  da_cpu_address :: "u64 option"
  da_byte_length :: u64
  da_owner :: dma_owner
  da_initialized :: bool
  da_active :: bool

record dma_state =
  ds_active_allocations :: u64
  ds_cpu_owned_allocations :: u64
  ds_device_owned_allocations :: u64
  ds_active :: bool

type_synonym handle = nat

record dma_record =
  dr_handle :: "handle option"
  dr_frames :: frame_contiguous_allocation
  dr_owner :: dma_owner
  dr_initialized :: bool
  dr_active :: bool

text \<open>\<open>dm_memory\<close> is what the caller's handle variables hold.\<close>

record dma =
  dm_state :: dma_state
  dm_records :: "dma_record list"
  dm_memory :: "handle \<Rightarrow> dma_allocation"
  dm_paging :: paging

definition dma_frames :: "dma \<Rightarrow> frame_allocator" where
  "dma_frames d = mc_frames (snd (pg_space (dm_paging d)))"

section \<open>Records\<close>

definition record_for :: "handle option \<Rightarrow> dma \<Rightarrow> nat option" where
  "record_for pointer d =
     (case pointer of
        None \<Rightarrow> None
      | Some h \<Rightarrow> find_from (\<lambda>index. dr_active (dm_records d ! index) \<and>
                    fc_identifier (dr_frames (dm_records d ! index)) = fc_identifier (da_frames (dm_memory d h)))
                  0 FRAME_CONTIGUOUS_ALLOCATION_CAPACITY)"

definition validate_allocation :: "handle option \<Rightarrow> dma \<Rightarrow> dma_status" where
  "validate_allocation pointer d =
     (case pointer of
        None \<Rightarrow> DMA_STATUS_NULL_ARGUMENT
      | Some h \<Rightarrow>
          let allocation = dm_memory d h in
          if \<not> da_active allocation \<or> \<not> fc_active (da_frames allocation) \<or>
             da_cpu_address allocation = None \<or> da_byte_length allocation = 0 \<or>
             da_owner allocation = DMA_OWNER_NONE \<or> da_owner allocation = DMA_OWNER_COUNT
            then DMA_STATUS_BAD_ALLOCATION
          else case record_for pointer d of
            None \<Rightarrow> DMA_STATUS_BAD_ALLOCATION
          | Some index \<Rightarrow>
              let r = dm_records d ! index in
              if dr_handle r \<noteq> Some h \<or>
                 fc_physical_base (dr_frames r) \<noteq> fc_physical_base (da_frames allocation) \<or>
                 fc_page_count (dr_frames r) \<noteq> fc_page_count (da_frames allocation) \<or>
                 fc_alignment (dr_frames r) \<noteq> fc_alignment (da_frames allocation) \<or>
                 fc_maximum_physical_address (dr_frames r) \<noteq> fc_maximum_physical_address (da_frames allocation) \<or>
                 \<not> fc_active (dr_frames r) \<or>
                 da_cpu_address allocation \<noteq> Some (fc_physical_base (dr_frames r)) \<or>
                 fc_page_count (dr_frames r) > UINT64_MAX div SAPOTE_PAGE_SIZE \<or>
                 da_byte_length allocation \<noteq> mul64 (fc_page_count (dr_frames r)) SAPOTE_PAGE_SIZE \<or>
                 dr_owner r \<noteq> da_owner allocation \<or> dr_initialized r \<noteq> da_initialized allocation
                then DMA_STATUS_BAD_ALLOCATION
              else DMA_STATUS_OK)"

text \<open>The two writes that change a handle and its record together.\<close>

definition write_both ::
  "handle \<Rightarrow> nat \<Rightarrow> (dma_allocation \<Rightarrow> dma_allocation) \<Rightarrow> (dma_record \<Rightarrow> dma_record) \<Rightarrow> dma \<Rightarrow> dma" where
  "write_both h index f g d =
     d\<lparr>dm_memory := (dm_memory d)(h := f (dm_memory d h)),
       dm_records := (dm_records d)[index := g (dm_records d ! index)]\<rparr>"

section \<open>Operations\<close>

definition dma_initialize :: "dma \<Rightarrow> dma_status \<times> dma" where
  "dma_initialize d =
     (if ds_active (dm_state d) then (DMA_STATUS_ALREADY_INITIALIZED, d)
      else (DMA_STATUS_OK,
        d\<lparr>dm_state := \<lparr>ds_active_allocations = 0, ds_cpu_owned_allocations = 0,
                       ds_device_owned_allocations = 0, ds_active = True\<rparr>,
          dm_records := fold (\<lambda>index rs. rs[index := (rs ! index)\<lparr>dr_handle := None, dr_active := False\<rparr>])
                         [0..<FRAME_CONTIGUOUS_ALLOCATION_CAPACITY] (dm_records d)\<rparr>))"

definition blank_allocation :: dma_allocation where
  "blank_allocation = \<lparr>da_frames = empty_allocation, da_cpu_address = None, da_byte_length = 0,
     da_owner = DMA_OWNER_NONE, da_initialized = False, da_active = False\<rparr>"

text \<open>The test on the first and the last byte of a run that \<open>dma_allocate\<close> makes before it hands it out.\<close>

definition identity_mapped :: "u64 \<Rightarrow> u64 \<Rightarrow> paging \<Rightarrow> bool" where
  "identity_mapped base byte_length p =
     (let final = sub64 (add64 base byte_length) 1 in
      case (paging_translate base False p, paging_translate final False p) of
        ((first_status, first), (last_status, tail)) \<Rightarrow>
          \<not> (first_status \<noteq> PAGING_STATUS_OK \<or> last_status \<noteq> PAGING_STATUS_OK \<or>
             tr_physical_address (the first) \<noteq> base \<or> tr_physical_address (the tail) \<noteq> final \<or>
             tr_memory_type (the first) \<noteq> PAGING_MEMORY_WRITE_BACK \<or>
             tr_memory_type (the tail) \<noteq> PAGING_MEMORY_WRITE_BACK \<or>
             tr_permissions (the first) AND PAGING_WRITE = 0 \<or>
             tr_permissions (the tail) AND PAGING_WRITE = 0))"

definition dma_allocate :: "dma_request option \<Rightarrow> handle option \<Rightarrow> dma \<Rightarrow> dma_status \<times> dma" where
  "dma_allocate request_pointer pointer d =
     (case (request_pointer, pointer) of
        (Some request, Some h) \<Rightarrow>
          let d = d\<lparr>dm_memory := (dm_memory d)(h := blank_allocation)\<rparr> in
          if \<not> ds_active (dm_state d) then (DMA_STATUS_NOT_INITIALIZED, d)
          else (case find_from (\<lambda>index. \<not> dr_active (dm_records d ! index)) 0 FRAME_CONTIGUOUS_ALLOCATION_CAPACITY of
            None \<Rightarrow> (DMA_STATUS_FRAME_ALLOCATION_FAILURE, d)
          | Some index \<Rightarrow>
              let frame_request = \<lparr>rq_page_count = dq_page_count request, rq_alignment = dq_alignment request,
                    rq_maximum_physical_address = dq_maximum_physical_address request\<rparr> in
              case frame_allocate_contiguous (Some frame_request) False (dma_frames d) of
                (frame_status, run, fs) \<Rightarrow>
                  let d = d\<lparr>dm_memory := (dm_memory d)(h := (dm_memory d h)\<lparr>da_frames := run\<rparr>),
                            dm_paging := set_frames fs (dm_paging d)\<rparr> in
                  if frame_status \<noteq> FRAME_STATUS_OK then (DMA_STATUS_FRAME_ALLOCATION_FAILURE, d)
                  else let byte_length = mul64 (fc_page_count run) SAPOTE_PAGE_SIZE in
                    if \<not> identity_mapped (fc_physical_base run) byte_length (dm_paging d) then
                      (case frame_release_contiguous (Some run) fs of
                         (_, released, fs) \<Rightarrow> (DMA_STATUS_NOT_IDENTITY_MAPPED,
                            d\<lparr>dm_memory := (dm_memory d)(h := (dm_memory d h)\<lparr>da_frames := the released,
                                                                               da_byte_length := 0\<rparr>),
                              dm_paging := set_frames fs (dm_paging d)\<rparr>))
                    else (DMA_STATUS_OK,
                      d\<lparr>dm_memory := (dm_memory d)(h := \<lparr>da_frames = run,
                            da_cpu_address = Some (fc_physical_base run), da_byte_length = byte_length,
                            da_owner = DMA_OWNER_CPU, da_initialized = False, da_active = True\<rparr>),
                        dm_records := (dm_records d)[index := \<lparr>dr_handle = Some h, dr_frames = run,
                            dr_owner = DMA_OWNER_CPU, dr_initialized = False, dr_active = True\<rparr>],
                        dm_state := (dm_state d)\<lparr>
                            ds_active_allocations := add64 (ds_active_allocations (dm_state d)) 1,
                            ds_cpu_owned_allocations := add64 (ds_cpu_owned_allocations (dm_state d)) 1\<rparr>\<rparr>))
      | _ \<Rightarrow> (DMA_STATUS_NULL_ARGUMENT, d))"

definition dma_mark_initialized :: "handle option \<Rightarrow> dma \<Rightarrow> dma_status \<times> dma" where
  "dma_mark_initialized pointer d =
     (let status = validate_allocation pointer d in
      if status \<noteq> DMA_STATUS_OK then (status, d)
      else if da_owner (dm_memory d (the pointer)) \<noteq> DMA_OWNER_CPU then (DMA_STATUS_WRONG_OWNER, d)
      else case record_for pointer d of
        None \<Rightarrow> (DMA_STATUS_BAD_ALLOCATION, d)
      | Some index \<Rightarrow> (DMA_STATUS_OK,
          write_both (the pointer) index (da_initialized_update (\<lambda>_. True)) (dr_initialized_update (\<lambda>_. True)) d))"

definition dma_transfer_to_device :: "handle option \<Rightarrow> dma \<Rightarrow> dma_status \<times> dma" where
  "dma_transfer_to_device pointer d =
     (let status = validate_allocation pointer d in
      if status \<noteq> DMA_STATUS_OK then (status, d)
      else if da_owner (dm_memory d (the pointer)) \<noteq> DMA_OWNER_CPU then (DMA_STATUS_WRONG_OWNER, d)
      else if \<not> da_initialized (dm_memory d (the pointer)) then (DMA_STATUS_NOT_PREPARED, d)
      else case record_for pointer d of
        None \<Rightarrow> (DMA_STATUS_BAD_ALLOCATION, d)
      | Some index \<Rightarrow> (DMA_STATUS_OK,
          write_both (the pointer) index (da_owner_update (\<lambda>_. DMA_OWNER_DEVICE))
            (dr_owner_update (\<lambda>_. DMA_OWNER_DEVICE))
            (d\<lparr>dm_state := (dm_state d)\<lparr>
                 ds_cpu_owned_allocations := sub64 (ds_cpu_owned_allocations (dm_state d)) 1,
                 ds_device_owned_allocations := add64 (ds_device_owned_allocations (dm_state d)) 1\<rparr>\<rparr>)))"

definition dma_transfer_to_cpu :: "handle option \<Rightarrow> dma \<Rightarrow> dma_status \<times> dma" where
  "dma_transfer_to_cpu pointer d =
     (let status = validate_allocation pointer d in
      if status \<noteq> DMA_STATUS_OK then (status, d)
      else if da_owner (dm_memory d (the pointer)) \<noteq> DMA_OWNER_DEVICE then (DMA_STATUS_WRONG_OWNER, d)
      else case record_for pointer d of
        None \<Rightarrow> (DMA_STATUS_BAD_ALLOCATION, d)
      | Some index \<Rightarrow> (DMA_STATUS_OK,
          write_both (the pointer) index (da_owner_update (\<lambda>_. DMA_OWNER_CPU))
            (dr_owner_update (\<lambda>_. DMA_OWNER_CPU))
            (d\<lparr>dm_state := (dm_state d)\<lparr>
                 ds_device_owned_allocations := sub64 (ds_device_owned_allocations (dm_state d)) 1,
                 ds_cpu_owned_allocations := add64 (ds_cpu_owned_allocations (dm_state d)) 1\<rparr>\<rparr>)))"

definition dma_release :: "handle option \<Rightarrow> dma \<Rightarrow> dma_status \<times> dma" where
  "dma_release pointer d =
     (case pointer of
        None \<Rightarrow> (DMA_STATUS_NULL_ARGUMENT, d)
      | Some h \<Rightarrow>
      if \<not> ds_active (dm_state d) then (DMA_STATUS_NOT_INITIALIZED, d)
      else if \<not> da_active (dm_memory d h) then (DMA_STATUS_DOUBLE_FREE, d)
      else let status = validate_allocation pointer d in
      if status \<noteq> DMA_STATUS_OK then (status, d)
      else if da_owner (dm_memory d h) \<noteq> DMA_OWNER_CPU then (DMA_STATUS_WRONG_OWNER, d)
      else case record_for pointer d of
        None \<Rightarrow> (DMA_STATUS_BAD_ALLOCATION, d)
      | Some index \<Rightarrow>
          (case frame_release_contiguous (Some (da_frames (dm_memory d h))) (dma_frames d) of
             (frame_status, released, fs) \<Rightarrow>
               let d = d\<lparr>dm_memory := (dm_memory d)(h := (dm_memory d h)\<lparr>da_frames := the released\<rparr>),
                         dm_paging := set_frames fs (dm_paging d)\<rparr> in
               if frame_status \<noteq> FRAME_STATUS_OK then (DMA_STATUS_BAD_ALLOCATION, d)
               else (DMA_STATUS_OK,
                 write_both h index
                   (\<lambda>a. a\<lparr>da_cpu_address := None, da_byte_length := 0, da_owner := DMA_OWNER_NONE,
                          da_initialized := False, da_active := False\<rparr>)
                   (\<lambda>r. r\<lparr>dr_handle := None, dr_frames := (dr_frames r)\<lparr>fc_active := False\<rparr>,
                          dr_owner := DMA_OWNER_NONE, dr_initialized := False, dr_active := False\<rparr>)
                   (d\<lparr>dm_state := (dm_state d)\<lparr>
                        ds_active_allocations := sub64 (ds_active_allocations (dm_state d)) 1,
                        ds_cpu_owned_allocations := sub64 (ds_cpu_owned_allocations (dm_state d)) 1\<rparr>\<rparr>))))"

definition dma_is_device_owned :: "handle option \<Rightarrow> dma \<Rightarrow> bool" where
  "dma_is_device_owned pointer d =
     (if validate_allocation pointer d \<noteq> DMA_STATUS_OK then False
      else case record_for pointer d of
        None \<Rightarrow> False
      | Some index \<Rightarrow> dr_initialized (dm_records d ! index) \<and> dr_owner (dm_records d ! index) = DMA_OWNER_DEVICE)"

text \<open>One round of the loop of \<open>dma_verify\<close> over the counts of all, CPU-owned and device-owned records.\<close>

definition verify_record :: "dma \<Rightarrow> nat \<Rightarrow> nat \<times> nat \<times> nat \<Rightarrow> dma_status + nat \<times> nat \<times> nat" where
  "verify_record d index counts =
     (case counts of (active, cpu_owned, device_owned) \<Rightarrow>
        let r = dm_records d ! index in
        if \<not> dr_active r then Inr counts
        else if dr_handle r = None \<or> validate_allocation (dr_handle r) d \<noteq> DMA_STATUS_OK
          then Inl DMA_STATUS_BAD_ALLOCATION
        else if dr_owner r = DMA_OWNER_CPU then Inr (active + 1, cpu_owned + 1, device_owned)
        else if dr_owner r = DMA_OWNER_DEVICE then Inr (active + 1, cpu_owned, device_owned + 1)
        else Inl DMA_STATUS_BAD_ALLOCATION)"

definition dma_verify :: "dma \<Rightarrow> dma_status" where
  "dma_verify d =
     (if \<not> ds_active (dm_state d) then DMA_STATUS_NOT_INITIALIZED
      else case fold_until (verify_record d) [0..<FRAME_CONTIGUOUS_ALLOCATION_CAPACITY] (0, 0, 0) of
        Inl status \<Rightarrow> status
      | Inr (active, cpu_owned, device_owned) \<Rightarrow>
          if active \<noteq> ds_active_allocations (dm_state d) \<or> cpu_owned \<noteq> ds_cpu_owned_allocations (dm_state d) \<or>
             device_owned \<noteq> ds_device_owned_allocations (dm_state d) \<or> cpu_owned + device_owned \<noteq> active
            then DMA_STATUS_BAD_ALLOCATION
          else DMA_STATUS_OK)"

fun dma_status_string :: "dma_status \<Rightarrow> string" where
  "dma_status_string DMA_STATUS_OK = ''ok''"
| "dma_status_string DMA_STATUS_NULL_ARGUMENT = ''null DMA argument''"
| "dma_status_string DMA_STATUS_ALREADY_INITIALIZED = ''DMA foundation was initialized twice''"
| "dma_status_string DMA_STATUS_NOT_INITIALIZED = ''DMA foundation is not initialized''"
| "dma_status_string DMA_STATUS_FRAME_ALLOCATION_FAILURE = ''bounded contiguous frame allocation failed''"
| "dma_status_string DMA_STATUS_NOT_IDENTITY_MAPPED = ''DMA allocation is not identity-mapped write-back memory''"
| "dma_status_string DMA_STATUS_NOT_PREPARED = ''DMA allocation was transferred before initialization''"
| "dma_status_string DMA_STATUS_WRONG_OWNER = ''DMA ownership transition came from the wrong owner''"
| "dma_status_string DMA_STATUS_DOUBLE_FREE = ''DMA allocation was released twice''"
| "dma_status_string DMA_STATUS_BAD_ALLOCATION = ''DMA allocation handle is inconsistent''"

section \<open>The invariant\<close>

text \<open>What the handle variable of a live record holds.\<close>

definition handle_of :: "dma_record \<Rightarrow> dma_allocation" where
  "handle_of r = \<lparr>da_frames = dr_frames r, da_cpu_address = Some (fc_physical_base (dr_frames r)),
     da_byte_length = mul64 (fc_page_count (dr_frames r)) SAPOTE_PAGE_SIZE, da_owner = dr_owner r,
     da_initialized = dr_initialized r, da_active = True\<rparr>"

text \<open>The frame allocator's record of a run.\<close>

definition run_record :: "frame_contiguous_allocation \<Rightarrow> contiguous_record" where
  "run_record run = \<lparr>cr_physical_base = fc_physical_base run, cr_page_count = fc_page_count run,
     cr_identifier = fc_identifier run, cr_active = True\<rparr>"

definition dma_record_ok :: "dma \<Rightarrow> dma_record \<Rightarrow> bool" where
  "dma_record_ok d r \<longleftrightarrow>
     (\<exists>h. dr_handle r = Some h \<and> dm_memory d h = handle_of r) \<and>
     (dr_owner r = DMA_OWNER_CPU \<or> dr_owner r = DMA_OWNER_DEVICE \<and> dr_initialized r) \<and>
     fc_active (dr_frames r) \<and> 0 < fc_page_count (dr_frames r) \<and> fc_page_count (dr_frames r) \<le> FRAME_COUNT \<and>
     run_record (dr_frames r) \<in> set (contiguous_records (dma_frames d))"

definition dma_ok :: "dma \<Rightarrow> bool" where
  "dma_ok d \<longleftrightarrow>
     ds_active (dm_state d) \<and> length (dm_records d) = FRAME_CONTIGUOUS_ALLOCATION_CAPACITY \<and>
     frame_ready (dma_frames d) \<and> identifiers_ok (dma_frames d) \<and>
     (\<forall>r \<in> set (dm_records d). dr_active r \<longrightarrow> dma_record_ok d r) \<and>
     (\<forall>i < FRAME_CONTIGUOUS_ALLOCATION_CAPACITY. \<forall>j < FRAME_CONTIGUOUS_ALLOCATION_CAPACITY.
        dr_active (dm_records d ! i) \<longrightarrow> dr_active (dm_records d ! j) \<longrightarrow>
        fc_identifier (dr_frames (dm_records d ! i)) = fc_identifier (dr_frames (dm_records d ! j)) \<longrightarrow> i = j) \<and>
     ds_active_allocations (dm_state d) = count_if dr_active (dm_records d) \<and>
     ds_cpu_owned_allocations (dm_state d) =
       count_if (\<lambda>r. dr_active r \<and> dr_owner r = DMA_OWNER_CPU) (dm_records d) \<and>
     ds_device_owned_allocations (dm_state d) =
       count_if (\<lambda>r. dr_active r \<and> dr_owner r = DMA_OWNER_DEVICE) (dm_records d)"

text \<open>The abstract view: which handle variables are live, with the record of each.\<close>

definition live_record :: "dma \<Rightarrow> handle \<Rightarrow> dma_record option" where
  "live_record d h = map_option ((!) (dm_records d))
     (find_from (\<lambda>index. dr_active (dm_records d ! index) \<and> dr_handle (dm_records d ! index) = Some h)
        0 FRAME_CONTIGUOUS_ALLOCATION_CAPACITY)"

lemma dma_ok_nth:
  assumes "dma_ok d" "i < FRAME_CONTIGUOUS_ALLOCATION_CAPACITY" "dr_active (dm_records d ! i)"
  shows "dma_record_ok d (dm_records d ! i)"
  using assms by (auto simp: dma_ok_def)

lemma dma_ok_same_identifier:
  assumes "dma_ok d" "i < FRAME_CONTIGUOUS_ALLOCATION_CAPACITY" "j < FRAME_CONTIGUOUS_ALLOCATION_CAPACITY"
    "dr_active (dm_records d ! i)" "dr_active (dm_records d ! j)"
    "fc_identifier (dr_frames (dm_records d ! i)) = fc_identifier (dr_frames (dm_records d ! j))"
  shows "i = j"
  using assms unfolding dma_ok_def by blast

lemma live_handle:
  assumes ok: "dma_ok d" and i: "i < FRAME_CONTIGUOUS_ALLOCATION_CAPACITY" "dr_active (dm_records d ! i)"
    "dr_handle (dm_records d ! i) = Some h"
  shows "dm_memory d h = handle_of (dm_records d ! i)" "record_for (Some h) d = Some i"
    "live_record d h = Some (dm_records d ! i)" "validate_allocation (Some h) d = DMA_STATUS_OK"
proof -
  show m: "dm_memory d h = handle_of (dm_records d ! i)"
    using dma_ok_nth [OF ok i(1,2)] i(3) by (auto simp: dma_record_ok_def)
  show rf: "record_for (Some h) d = Some i"
    unfolding record_for_def option.case
  proof (rule find_from_eqI)
    fix j assume "j < i"
    then show "\<not> (dr_active (dm_records d ! j) \<and>
        fc_identifier (dr_frames (dm_records d ! j)) = fc_identifier (da_frames (dm_memory d h)))"
      using dma_ok_same_identifier [OF ok, of j i] i m by (auto simp: handle_of_def)
  qed (use i m in \<open>simp_all add: handle_of_def\<close>)
  have "find_from (\<lambda>index. dr_active (dm_records d ! index) \<and> dr_handle (dm_records d ! index) = Some h)
      0 FRAME_CONTIGUOUS_ALLOCATION_CAPACITY = Some i"
  proof (rule find_from_eqI)
    fix j assume j: "j < i"
    show "\<not> (dr_active (dm_records d ! j) \<and> dr_handle (dm_records d ! j) = Some h)"
    proof
      assume a: "dr_active (dm_records d ! j) \<and> dr_handle (dm_records d ! j) = Some h"
      then have "dm_memory d h = handle_of (dm_records d ! j)"
        using dma_ok_nth [OF ok, of j] i(1) j by (auto simp: dma_record_ok_def)
      then have "dr_frames (dm_records d ! j) = dr_frames (dm_records d ! i)" using m by (simp add: handle_of_def)
      then show False using dma_ok_same_identifier [OF ok, of j i] i j a by simp
    qed
  qed (use i in simp_all)
  then show "live_record d h = Some (dm_records d ! i)" by (simp add: live_record_def)
  have pages: "0 < n \<Longrightarrow> n \<le> FRAME_COUNT \<Longrightarrow> 0 < mul64 n SAPOTE_PAGE_SIZE"
    "n \<le> FRAME_COUNT \<Longrightarrow> \<not> n > UINT64_MAX div SAPOTE_PAGE_SIZE" for n
    by (simp_all add: mul64_def FRAME_COUNT_def SAPOTE_PAGE_SIZE_def SAPOTE_EARLY_PHYSICAL_LIMIT_def)
  then show "validate_allocation (Some h) d = DMA_STATUS_OK"
    using dma_ok_nth [OF ok i(1,2)] i m rf pages [of "fc_page_count (dr_frames (dm_records d ! i))"]
    by (auto simp: validate_allocation_def Let_def handle_of_def dma_record_ok_def)
qed

lemma not_live_handle:
  assumes ok: "dma_ok d" and h: "live_record d h = None"
  shows "validate_allocation (Some h) d = DMA_STATUS_BAD_ALLOCATION"
proof -
  have no: "dr_handle (dm_records d ! i) \<noteq> Some h"
    if "i < FRAME_CONTIGUOUS_ALLOCATION_CAPACITY" "dr_active (dm_records d ! i)" for i
    using h that by (auto simp: live_record_def find_from_None_iff)
  show ?thesis
  proof (cases "record_for (Some h) d")
    case None
    then show ?thesis by (simp add: validate_allocation_def Let_def)
  next
    case (Some i)
    then have "i < FRAME_CONTIGUOUS_ALLOCATION_CAPACITY" "dr_active (dm_records d ! i)"
      using find_from_SomeD unfolding record_for_def option.case by blast+
    with no Some show ?thesis by (auto simp: validate_allocation_def Let_def)
  qed
qed

lemma live_record_index:
  assumes "live_record d h = Some r"
  obtains i where "i < FRAME_CONTIGUOUS_ALLOCATION_CAPACITY" "dr_active r" "dr_handle r = Some h"
    "dm_records d ! i = r"
  using assms by (auto simp: live_record_def dest!: find_from_SomeD)

lemma live_record_iff:
  assumes ok: "dma_ok d"
  shows "live_record d h = Some r \<longleftrightarrow>
    (\<exists>i < FRAME_CONTIGUOUS_ALLOCATION_CAPACITY. dm_records d ! i = r \<and> dr_active r \<and> dr_handle r = Some h)"
  using live_record_index [of d h r] live_handle(3) [OF ok] by metis

text \<open>A handle variable and its record are always written together.\<close>

lemma write_both_ok:
  assumes ok: "dma_ok d" and i: "i < FRAME_CONTIGUOUS_ALLOCATION_CAPACITY" "dr_active (dm_records d ! i)"
    "dr_handle (dm_records d ! i) = Some h"
    and g: "dr_handle (g (dm_records d ! i)) = Some h" "dr_frames (g (dm_records d ! i)) = dr_frames (dm_records d ! i)"
      "dr_active (g (dm_records d ! i))"
      "dr_owner (g (dm_records d ! i)) = DMA_OWNER_CPU \<or>
       dr_owner (g (dm_records d ! i)) = DMA_OWNER_DEVICE \<and> dr_initialized (g (dm_records d ! i))"
    and f: "f (handle_of (dm_records d ! i)) = handle_of (g (dm_records d ! i))"
    and st: "ds_active st" "ds_active_allocations st = ds_active_allocations (dm_state d)"
      "ds_cpu_owned_allocations st =
        count_if (\<lambda>r. dr_active r \<and> dr_owner r = DMA_OWNER_CPU) ((dm_records d)[i := g (dm_records d ! i)])"
      "ds_device_owned_allocations st =
        count_if (\<lambda>r. dr_active r \<and> dr_owner r = DMA_OWNER_DEVICE) ((dm_records d)[i := g (dm_records d ! i)])"
  shows "dma_ok (write_both h i f g (d\<lparr>dm_state := st\<rparr>))"
    and "live_record (write_both h i f g (d\<lparr>dm_state := st\<rparr>)) = (live_record d)(h \<mapsto> g (dm_records d ! i))"
proof -
  let ?r = "dm_records d ! i" and ?d = "write_both h i f g (d\<lparr>dm_state := st\<rparr>)"
  have len: "i < length (dm_records d)" using ok i(1) by (simp add: dma_ok_def)
  have recs: "dm_records ?d = (dm_records d)[i := g ?r]" and fr: "dma_frames ?d = dma_frames d"
    and mem: "dm_memory ?d = (dm_memory d)(h := handle_of (g ?r))"
    using live_handle(1) [OF ok i] f by (simp_all add: write_both_def dma_frames_def)
  have apart: "dr_handle (dm_records d ! j) \<noteq> Some h"
    if "j < FRAME_CONTIGUOUS_ALLOCATION_CAPACITY" "dr_active (dm_records d ! j)" "j \<noteq> i" for j
    using live_handle(2) [OF ok, of j h] live_handle(2) [OF ok i] that by auto
  have rec: "dma_record_ok ?d (dm_records ?d ! j)"
    if j: "j < FRAME_CONTIGUOUS_ALLOCATION_CAPACITY" "dr_active (dm_records ?d ! j)" for j
  proof (cases "j = i")
    case True
    have "dma_record_ok d ?r" by (rule dma_ok_nth [OF ok i(1,2)])
    then show ?thesis using True len g mem fr recs by (auto simp: dma_record_ok_def)
  next
    case False
    then have "dma_record_ok d (dm_records d ! j)" "dr_handle (dm_records d ! j) \<noteq> Some h"
      using dma_ok_nth [OF ok] apart j recs by auto
    then show ?thesis using False mem fr recs by (auto simp: dma_record_ok_def)
  qed
  have len': "length (dm_records ?d) = FRAME_CONTIGUOUS_ALLOCATION_CAPACITY" using ok recs by (simp add: dma_ok_def)
  have act: "count_if dr_active ((dm_records d)[i := g ?r]) = count_if dr_active (dm_records d)"
    using count_if_update [OF len, of dr_active "g ?r"] i(2) g(3) count_if_pos [OF len, of dr_active] by simp
  show ok': "dma_ok ?d"
    unfolding dma_ok_def
  proof (intro conjI ballI impI allI)
    fix r assume "r \<in> set (dm_records ?d)" "dr_active r"
    then show "dma_record_ok ?d r" using rec len' by (auto simp: in_set_conv_nth)
  next
    fix j k assume "j < FRAME_CONTIGUOUS_ALLOCATION_CAPACITY" "k < FRAME_CONTIGUOUS_ALLOCATION_CAPACITY"
      "dr_active (dm_records ?d ! j)" "dr_active (dm_records ?d ! k)"
      "fc_identifier (dr_frames (dm_records ?d ! j)) = fc_identifier (dr_frames (dm_records ?d ! k))"
    then show "j = k" using dma_ok_same_identifier [OF ok, of j k] i len g(2) recs
      by (cases "j = i"; cases "k = i") auto
  qed (use ok len' fr st act in \<open>simp_all add: recs dma_ok_def write_both_def\<close>)
  show "live_record ?d = (live_record d)(h \<mapsto> g ?r)"
  proof
    fix k
    show "live_record ?d k = ((live_record d)(h \<mapsto> g ?r)) k"
    proof (cases "k = h")
      case True
      then show ?thesis using live_handle(3) [OF ok' i(1), of h] g recs len by simp
    next
      case False
      have "live_record ?d k = live_record d k"
        unfolding live_record_def
      proof -
        have "find_from (\<lambda>index. dr_active (dm_records ?d ! index) \<and> dr_handle (dm_records ?d ! index) = Some k)
                0 FRAME_CONTIGUOUS_ALLOCATION_CAPACITY =
              find_from (\<lambda>index. dr_active (dm_records d ! index) \<and> dr_handle (dm_records d ! index) = Some k)
                0 FRAME_CONTIGUOUS_ALLOCATION_CAPACITY" (is "?new = ?old")
          by (rule find_from_cong) (use recs len g i False in \<open>auto simp: nth_list_update\<close>)
        moreover have "j \<noteq> i" if "?old = Some j" for j using find_from_SomeD [OF that] i(3) False by auto
        ultimately show "map_option ((!) (dm_records ?d)) ?new = map_option ((!) (dm_records d)) ?old"
          using recs by (cases ?old) auto
      qed
      then show ?thesis using False by simp
    qed
  qed
qed

section \<open>Ownership\<close>

lemma dma_count_bound:
  assumes "dma_ok d"
  shows "count_if P (dm_records d) \<le> 32"
proof -
  have "length (dm_records d) = 32" using assms by (simp add: dma_ok_def FRAME_CONTIGUOUS_ALLOCATION_CAPACITY_def)
  then show ?thesis using count_if_le by metis
qed

lemma dma_mark_initialized_cases:
  assumes ok: "dma_ok d" and run: "dma_mark_initialized (Some h) d = (status, d')"
  shows "status = (case live_record d h of None \<Rightarrow> DMA_STATUS_BAD_ALLOCATION
      | Some r \<Rightarrow> if dr_owner r = DMA_OWNER_CPU then DMA_STATUS_OK else DMA_STATUS_WRONG_OWNER)"
    and "dma_ok d'" and "dm_paging d' = dm_paging d"
    and "live_record d' = (if status = DMA_STATUS_OK
      then (live_record d)(h \<mapsto> (the (live_record d h))\<lparr>dr_initialized := True\<rparr>) else live_record d)"
proof -
  have "status = (case live_record d h of None \<Rightarrow> DMA_STATUS_BAD_ALLOCATION
      | Some r \<Rightarrow> if dr_owner r = DMA_OWNER_CPU then DMA_STATUS_OK else DMA_STATUS_WRONG_OWNER) \<and> dma_ok d' \<and>
      dm_paging d' = dm_paging d \<and> live_record d' = (if status = DMA_STATUS_OK
      then (live_record d)(h \<mapsto> (the (live_record d h))\<lparr>dr_initialized := True\<rparr>) else live_record d)"
  proof (cases "live_record d h")
    case None
    then show ?thesis using run not_live_handle [OF ok None] ok by (simp add: dma_mark_initialized_def)
  next
    case (Some r)
    then obtain i where i: "i < FRAME_CONTIGUOUS_ALLOCATION_CAPACITY" "dr_active r" "dr_handle r = Some h"
      "dm_records d ! i = r" by (rule live_record_index)
    note live = live_handle [OF ok i(1), of h, unfolded i(4), OF i(2,3)]
    show ?thesis
    proof (cases "dr_owner r = DMA_OWNER_CPU")
      case False
      then show ?thesis using run live ok Some by (simp add: dma_mark_initialized_def handle_of_def)
    next
      case True
      have len: "i < length (dm_records d)" using ok i(1) by (simp add: dma_ok_def)
      have st: "count_if (\<lambda>r. dr_active r \<and> dr_owner r = w) ((dm_records d)[i := r\<lparr>dr_initialized := True\<rparr>]) =
          count_if (\<lambda>r. dr_active r \<and> dr_owner r = w) (dm_records d)" for w
        using count_if_update [OF len, of "\<lambda>r. dr_active r \<and> dr_owner r = w" "r\<lparr>dr_initialized := True\<rparr>"] i(4)
        by auto
      have "dma_ok (write_both h i (da_initialized_update (\<lambda>_. True)) (dr_initialized_update (\<lambda>_. True))
            (d\<lparr>dm_state := dm_state d\<rparr>))"
        "live_record (write_both h i (da_initialized_update (\<lambda>_. True)) (dr_initialized_update (\<lambda>_. True))
            (d\<lparr>dm_state := dm_state d\<rparr>)) = (live_record d)(h \<mapsto> dr_initialized_update (\<lambda>_. True) (dm_records d ! i))"
        using True i ok by (intro write_both_ok; simp add: handle_of_def st dma_ok_def)+
      then show ?thesis using run live True Some i(4)
        by (auto simp: dma_mark_initialized_def handle_of_def write_both_def)
    qed
  qed
  then show "status = (case live_record d h of None \<Rightarrow> DMA_STATUS_BAD_ALLOCATION
      | Some r \<Rightarrow> if dr_owner r = DMA_OWNER_CPU then DMA_STATUS_OK else DMA_STATUS_WRONG_OWNER)"
    "dma_ok d'" "dm_paging d' = dm_paging d"
    "live_record d' = (if status = DMA_STATUS_OK
      then (live_record d)(h \<mapsto> (the (live_record d h))\<lparr>dr_initialized := True\<rparr>) else live_record d)"
    by blast+
qed

text \<open>Handing a live record over moves one unit between the two counters.\<close>

lemma hand_over:
  assumes ok: "dma_ok d" and i: "i < FRAME_CONTIGUOUS_ALLOCATION_CAPACITY" "dr_active (dm_records d ! i)"
    "dr_handle (dm_records d ! i) = Some h"
    and w: "w = DMA_OWNER_CPU \<and> w' = DMA_OWNER_DEVICE \<and> dr_initialized (dm_records d ! i) \<or>
      w = DMA_OWNER_DEVICE \<and> w' = DMA_OWNER_CPU"
    and owner: "dr_owner (dm_records d ! i) = w"
    and st: "st = (if w = DMA_OWNER_CPU then (dm_state d)\<lparr>
         ds_cpu_owned_allocations := sub64 (ds_cpu_owned_allocations (dm_state d)) 1,
         ds_device_owned_allocations := add64 (ds_device_owned_allocations (dm_state d)) 1\<rparr>
       else (dm_state d)\<lparr>
         ds_device_owned_allocations := sub64 (ds_device_owned_allocations (dm_state d)) 1,
         ds_cpu_owned_allocations := add64 (ds_cpu_owned_allocations (dm_state d)) 1\<rparr>)"
  shows "dma_ok (write_both h i (da_owner_update (\<lambda>_. w')) (dr_owner_update (\<lambda>_. w')) (d\<lparr>dm_state := st\<rparr>))"
    and "live_record (write_both h i (da_owner_update (\<lambda>_. w')) (dr_owner_update (\<lambda>_. w')) (d\<lparr>dm_state := st\<rparr>)) =
      (live_record d)(h \<mapsto> (dm_records d ! i)\<lparr>dr_owner := w'\<rparr>)"
proof -
  let ?c = "\<lambda>v. count_if (\<lambda>r. dr_active r \<and> dr_owner r = v)"
  let ?rs = "(dm_records d)[i := (dm_records d ! i)\<lparr>dr_owner := w'\<rparr>]"
  have len: "i < length (dm_records d)" using ok i(1) by (simp add: dma_ok_def)
  have upd: "?c v ?rs + (if w = v then 1 else 0) = ?c v (dm_records d) + (if w' = v then 1 else 0)" for v
    using count_if_update [OF len, of "\<lambda>r. dr_active r \<and> dr_owner r = v" "(dm_records d ! i)\<lparr>dr_owner := w'\<rparr>"] i owner
    by auto
  have small: "?c v (dm_records d) \<le> 32" for v by (rule dma_count_bound [OF ok])
  have pos: "0 < ?c w (dm_records d)"
    using count_if_pos [OF len, of "\<lambda>r. dr_active r \<and> dr_owner r = w"] i owner by simp
  have cnt: "ds_cpu_owned_allocations st = ?c DMA_OWNER_CPU ?rs" "ds_device_owned_allocations st = ?c DMA_OWNER_DEVICE ?rs"
    using w upd [of DMA_OWNER_CPU] upd [of DMA_OWNER_DEVICE] small [of DMA_OWNER_CPU] small [of DMA_OWNER_DEVICE] pos ok
    by (auto simp: st dma_ok_def c_arith)
  have others: "ds_active st" "ds_active_allocations st = ds_active_allocations (dm_state d)"
    using ok by (simp_all add: st dma_ok_def)
  show "dma_ok (write_both h i (da_owner_update (\<lambda>_. w')) (dr_owner_update (\<lambda>_. w')) (d\<lparr>dm_state := st\<rparr>))"
    using i w cnt others by (intro write_both_ok [OF ok]) (auto simp: handle_of_def)
  show "live_record (write_both h i (da_owner_update (\<lambda>_. w')) (dr_owner_update (\<lambda>_. w')) (d\<lparr>dm_state := st\<rparr>)) =
      (live_record d)(h \<mapsto> (dm_records d ! i)\<lparr>dr_owner := w'\<rparr>)"
    using i w cnt others by (intro write_both_ok [OF ok]) (auto simp: handle_of_def)
qed

definition to_device_status :: "dma_record option \<Rightarrow> dma_status" where
  "to_device_status live = (case live of None \<Rightarrow> DMA_STATUS_BAD_ALLOCATION
     | Some r \<Rightarrow> if dr_owner r \<noteq> DMA_OWNER_CPU then DMA_STATUS_WRONG_OWNER
               else if \<not> dr_initialized r then DMA_STATUS_NOT_PREPARED else DMA_STATUS_OK)"

lemma dma_transfer_to_device_cases:
  assumes ok: "dma_ok d" and run: "dma_transfer_to_device (Some h) d = (status, d')"
  shows "status = to_device_status (live_record d h) \<and> dma_ok d' \<and> dm_paging d' = dm_paging d \<and>
    live_record d' = (if status = DMA_STATUS_OK
      then (live_record d)(h \<mapsto> (the (live_record d h))\<lparr>dr_owner := DMA_OWNER_DEVICE\<rparr>) else live_record d)"
proof (cases "live_record d h")
  case None
  then show ?thesis using run not_live_handle [OF ok None] ok
    by (simp add: dma_transfer_to_device_def to_device_status_def)
next
  case (Some r)
  then obtain i where i: "i < FRAME_CONTIGUOUS_ALLOCATION_CAPACITY" "dr_active r" "dr_handle r = Some h"
    "dm_records d ! i = r" by (rule live_record_index)
  note live = live_handle [OF ok i(1), of h, unfolded i(4), OF i(2,3)]
  show ?thesis
  proof (cases "dr_owner r = DMA_OWNER_CPU \<and> dr_initialized r")
    case False
    then consider "dr_owner r \<noteq> DMA_OWNER_CPU" | "dr_owner r = DMA_OWNER_CPU" "\<not> dr_initialized r" by blast
    then show ?thesis
      by cases (use run live ok Some in
        \<open>simp_all add: dma_transfer_to_device_def handle_of_def to_device_status_def Let_def\<close>)
  next
    case True
    then show ?thesis using run live Some i
        hand_over [OF ok i(1), of h DMA_OWNER_CPU DMA_OWNER_DEVICE, OF _ _ _ _ refl]
      by (auto simp: dma_transfer_to_device_def handle_of_def to_device_status_def write_both_def)
  qed
qed

definition to_cpu_status :: "dma_record option \<Rightarrow> dma_status" where
  "to_cpu_status live = (case live of None \<Rightarrow> DMA_STATUS_BAD_ALLOCATION
     | Some r \<Rightarrow> if dr_owner r \<noteq> DMA_OWNER_DEVICE then DMA_STATUS_WRONG_OWNER else DMA_STATUS_OK)"

lemma dma_transfer_to_cpu_cases:
  assumes ok: "dma_ok d" and run: "dma_transfer_to_cpu (Some h) d = (status, d')"
  shows "status = to_cpu_status (live_record d h) \<and> dma_ok d' \<and> dm_paging d' = dm_paging d \<and>
    live_record d' = (if status = DMA_STATUS_OK
      then (live_record d)(h \<mapsto> (the (live_record d h))\<lparr>dr_owner := DMA_OWNER_CPU\<rparr>) else live_record d)"
proof (cases "live_record d h")
  case None
  then show ?thesis using run not_live_handle [OF ok None] ok
    by (simp add: dma_transfer_to_cpu_def to_cpu_status_def)
next
  case (Some r)
  then obtain i where i: "i < FRAME_CONTIGUOUS_ALLOCATION_CAPACITY" "dr_active r" "dr_handle r = Some h"
    "dm_records d ! i = r" by (rule live_record_index)
  note live = live_handle [OF ok i(1), of h, unfolded i(4), OF i(2,3)]
  show ?thesis
  proof (cases "dr_owner r = DMA_OWNER_DEVICE")
    case False
    then show ?thesis using run live ok Some
      by (auto simp: dma_transfer_to_cpu_def handle_of_def to_cpu_status_def)
  next
    case True
    then show ?thesis using run live Some i
        hand_over [OF ok i(1), of h DMA_OWNER_DEVICE DMA_OWNER_CPU, OF _ _ _ _ refl]
      by (auto simp: dma_transfer_to_cpu_def handle_of_def to_cpu_status_def write_both_def)
  qed
qed

section \<open>Runs\<close>

lemma contiguous_records_length:
  "frame_ready s \<Longrightarrow> length (contiguous_records s) = FRAME_CONTIGUOUS_ALLOCATION_CAPACITY"
  by (simp add: frame_ready_def frame_inv_def frame_shape_def)

lemma frame_allocate_contiguous_next:
  "frame_allocate_contiguous (Some rq) False s = (FRAME_STATUS_OK, run, s') \<Longrightarrow>
     next_contiguous_identifier s' =
       (let n = add64 (next_contiguous_identifier s) 1 in if n = 0 then 1 else n)"
  by (auto simp: frame_allocate_contiguous_def Let_def split: if_splits option.splits)

lemma frame_release_contiguous_next:
  "frame_release_contiguous (Some run) s = (FRAME_STATUS_OK, released, s') \<Longrightarrow>
     next_contiguous_identifier s' = next_contiguous_identifier s"
  by (auto simp: frame_release_contiguous_def Let_def split: if_splits option.splits)

lemma identifiers_ok_update:
  assumes id: "identifiers_ok s" and len: "length (contiguous_records s) = FRAME_CONTIGUOUS_ALLOCATION_CAPACITY"
    and recs: "contiguous_records s' = (contiguous_records s)[i := r]"
    and mono: "next_contiguous_identifier s \<le> next_contiguous_identifier s'"
    and new: "cr_active r \<Longrightarrow> cr_identifier r < next_contiguous_identifier s'"
      "\<And>j. cr_active r \<Longrightarrow> j < FRAME_CONTIGUOUS_ALLOCATION_CAPACITY \<Longrightarrow> j \<noteq> i \<Longrightarrow>
         cr_active (contiguous_records s ! j) \<Longrightarrow> cr_identifier (contiguous_records s ! j) \<noteq> cr_identifier r"
  shows "identifiers_ok s'"
proof -
  have nth: "contiguous_records s' ! j = (if j = i then r else contiguous_records s ! j)"
    if "j < FRAME_CONTIGUOUS_ALLOCATION_CAPACITY" for j
    using that len recs by simp
  have old: "cr_identifier (contiguous_records s ! j) < next_contiguous_identifier s"
    "j' < FRAME_CONTIGUOUS_ALLOCATION_CAPACITY \<Longrightarrow> cr_active (contiguous_records s ! j') \<Longrightarrow>
     cr_identifier (contiguous_records s ! j) = cr_identifier (contiguous_records s ! j') \<Longrightarrow> j = j'"
    if "j < FRAME_CONTIGUOUS_ALLOCATION_CAPACITY" "cr_active (contiguous_records s ! j)" for j j'
    using id that by (simp_all add: identifiers_ok_def)
  show ?thesis
    unfolding identifiers_ok_def
  proof (intro conjI allI impI)
    fix j assume j: "j < FRAME_CONTIGUOUS_ALLOCATION_CAPACITY" "cr_active (contiguous_records s' ! j)"
    then show "cr_identifier (contiguous_records s' ! j) < next_contiguous_identifier s'"
      using nth [OF j(1)] old(1) [of j] mono new(1) by (cases "j = i") auto
  next
    fix j k
    assume jk: "j < FRAME_CONTIGUOUS_ALLOCATION_CAPACITY" "k < FRAME_CONTIGUOUS_ALLOCATION_CAPACITY"
      and a: "cr_active (contiguous_records s' ! j) \<and> cr_active (contiguous_records s' ! k) \<and>
        cr_identifier (contiguous_records s' ! j) = cr_identifier (contiguous_records s' ! k)"
    then show "j = k"
      using nth [OF jk(1)] nth [OF jk(2)] old(2) [of j k] new(2) [of j] new(2) [of k]
      by (cases "j = i"; cases "k = i") auto
  qed
qed

text \<open>What a successful contiguous allocation gives, the uniqueness of its identifier included.\<close>

lemma contiguous_run_taken:
  assumes r: "frame_ready s" and id: "identifiers_ok s" and wf: "request_wf rq"
    and nowrap: "next_contiguous_identifier s + 1 < 2 ^ 64"
    and run: "frame_allocate_contiguous (Some rq) False s = (FRAME_STATUS_OK, a, s')"
  obtains first i where "a = \<lparr>fc_physical_base = first * 4096, fc_page_count = rq_page_count rq,
        fc_alignment = rq_alignment rq, fc_maximum_physical_address = rq_maximum_physical_address rq,
        fc_identifier = next_contiguous_identifier s, fc_active = True\<rparr>"
    and "first \<in> fitting_runs rq s" and "0 < rq_page_count rq" and "first + rq_page_count rq \<le> FRAME_COUNT"
    and "free_set s' = free_set s - {first..<first + rq_page_count rq}"
    and "contiguous_set s' = contiguous_set s \<union> {first..<first + rq_page_count rq}"
    and "single_set s' = single_set s"
    and "i < FRAME_CONTIGUOUS_ALLOCATION_CAPACITY" and "\<not> cr_active (contiguous_records s ! i)"
    and "contiguous_records s' = (contiguous_records s)[i := run_record a]"
    and "frame_ready s'" and "identifiers_ok s'"
proof -
  have r': "frame_inv s" "allocator_initialized s" using r by (simp_all add: frame_ready_def)
  note refuse = frame_allocate_contiguous_refusals [OF r' wf]
  have ok: "contiguous_request_status rq = FRAME_STATUS_OK" using refuse(1) run by force
  have slot: "\<exists>i < FRAME_CONTIGUOUS_ALLOCATION_CAPACITY. \<not> cr_active (contiguous_records s ! i)"
    using refuse(2) [OF ok] run by force
  have fits: "fitting_runs rq s \<noteq> {}" using refuse(3) [OF ok slot] run by auto
  obtain first i where S:
    "a = \<lparr>fc_physical_base = first * 4096, fc_page_count = rq_page_count rq,
        fc_alignment = rq_alignment rq,
        fc_maximum_physical_address = rq_maximum_physical_address rq,
        fc_identifier = next_contiguous_identifier s, fc_active = True\<rparr>"
    "first \<in> fitting_runs rq s"
    "free_set s' = free_set s - {first..<first + rq_page_count rq}"
    "contiguous_set s' = contiguous_set s \<union> {first..<first + rq_page_count rq}"
    "single_set s' = single_set s"
    "i < FRAME_CONTIGUOUS_ALLOCATION_CAPACITY" "\<not> cr_active (contiguous_records s ! i)"
    "contiguous_records s' = (contiguous_records s)
       [i := \<lparr>cr_physical_base = first * 4096, cr_page_count = rq_page_count rq,
              cr_identifier = next_contiguous_identifier s, cr_active = True\<rparr>]"
    "frame_inv s'" "allocator_initialized s'"
    by (rule frame_allocate_contiguous_some [OF r' wf ok slot fits]) (use run in auto)
  have n: "next_contiguous_identifier s' = next_contiguous_identifier s + 1"
    using frame_allocate_contiguous_next [OF run] nowrap by (simp add: Let_def c_arith)
  have "0 < rq_page_count rq" by (rule contiguous_request_status_OK(1) [OF wf ok])
  moreover have "first + rq_page_count rq \<le> FRAME_COUNT"
    using S(2) maximum_past_frame_le(1) [OF wf] by (auto simp: fitting_runs_def)
  moreover have "identifiers_ok s'"
  proof (rule identifiers_ok_update [OF id contiguous_records_length [OF r] S(8)])
    fix j assume "j < FRAME_CONTIGUOUS_ALLOCATION_CAPACITY" "cr_active (contiguous_records s ! j)"
    then show "cr_identifier (contiguous_records s ! j) \<noteq> cr_identifier
        \<lparr>cr_physical_base = first * 4096, cr_page_count = rq_page_count rq,
         cr_identifier = next_contiguous_identifier s, cr_active = True\<rparr>"
      using id by (auto simp: identifiers_ok_def)
  qed (use n in simp_all)
  ultimately show thesis using S by (intro that [of first i]) (auto simp: run_record_def frame_ready_def)
qed

text \<open>Releasing a run whose record is in the allocator's table.\<close>

lemma contiguous_run_given_back:
  assumes r: "frame_ready s" and id: "identifiers_ok s" and act: "fc_active a"
    and mem: "run_record a \<in> set (contiguous_records s)"
  obtains i s' where "frame_release_contiguous (Some a) s = (FRAME_STATUS_OK, Some (a\<lparr>fc_active := False\<rparr>), s')"
    and "free_set s' = free_set s \<union> record_frames (run_record a)"
    and "contiguous_set s' = contiguous_set s - record_frames (run_record a)"
    and "single_set s' = single_set s"
    and "i < FRAME_CONTIGUOUS_ALLOCATION_CAPACITY" and "contiguous_records s ! i = run_record a"
    and "contiguous_records s' = (contiguous_records s)[i := (run_record a)\<lparr>cr_active := False\<rparr>]"
    and "frame_ready s'" and "identifiers_ok s'"
proof -
  note len = contiguous_records_length [OF r]
  from mem obtain i where i: "i < FRAME_CONTIGUOUS_ALLOCATION_CAPACITY" "contiguous_records s ! i = run_record a"
    using len by (auto simp: in_set_conv_nth)
  have only: "j = i" if "j < FRAME_CONTIGUOUS_ALLOCATION_CAPACITY" "cr_active (contiguous_records s ! j)"
    "cr_identifier (contiguous_records s ! j) = cr_identifier (contiguous_records s ! i)" for j
    using id i that unfolding identifiers_ok_def by (metis (no_types, lifting) contiguous_record.select_convs(4) run_record_def)
  have found: "find_from (\<lambda>index. cr_active (contiguous_records s ! index) \<and>
      cr_identifier (contiguous_records s ! index) = fc_identifier a) 0
      FRAME_CONTIGUOUS_ALLOCATION_CAPACITY = Some i"
    using identifier_find_unique [OF i(1), of s] only i(2) by (simp add: run_record_def)
  have inv: "frame_inv s" "allocator_initialized s" using r by (simp_all add: frame_ready_def)
  have fields: "cr_physical_base (contiguous_records s ! i) = fc_physical_base a"
    "cr_page_count (contiguous_records s ! i) = fc_page_count a" by (simp_all add: i(2) run_record_def)
  obtain s' where R: "frame_release_contiguous (Some a) s = (FRAME_STATUS_OK, Some (a\<lparr>fc_active := False\<rparr>), s')"
    "free_set s' = free_set s \<union> {fc_physical_base a div 4096..<fc_physical_base a div 4096 + fc_page_count a}"
    "contiguous_set s' = contiguous_set s - {fc_physical_base a div 4096..<fc_physical_base a div 4096 + fc_page_count a}"
    "single_set s' = single_set s"
    "contiguous_records s' = (contiguous_records s)[i := (contiguous_records s ! i)\<lparr>cr_active := False\<rparr>]"
    "frame_inv s'" "allocator_initialized s'"
    by (rule frame_release_contiguous_ok [OF inv act fields found refl refl]) blast
  have "record_frames (run_record a) = {fc_physical_base a div 4096..<fc_physical_base a div 4096 + fc_page_count a}"
    by (simp add: record_frames_def run_record_def)
  moreover have "identifiers_ok s'"
    by (rule identifiers_ok_update [OF id len R(5)]) (use frame_release_contiguous_next [OF R(1)] in simp_all)
  ultimately show thesis using R i by (intro that [of s' i]) (simp_all add: frame_ready_def)
qed

section \<open>Allocation and release\<close>

lemma dma_frames_simps [simp]:
  "dma_frames (d\<lparr>dm_memory := m\<rparr>) = dma_frames d" "dma_frames (d\<lparr>dm_records := rs\<rparr>) = dma_frames d"
  "dma_frames (d\<lparr>dm_state := st\<rparr>) = dma_frames d"
  "dma_frames (d\<lparr>dm_paging := set_frames fs p\<rparr>) = fs"
  by (simp_all add: dma_frames_def)

lemma live_record_simps [simp]:
  "live_record (d\<lparr>dm_memory := m\<rparr>) = live_record d" "live_record (d\<lparr>dm_state := st\<rparr>) = live_record d"
  "live_record (d\<lparr>dm_paging := p\<rparr>) = live_record d"
  by (rule ext, simp add: live_record_def)+

text \<open>The caller may write any variable that is not a live handle, and the frame allocator
  may serve others as long as the live runs keep their records.\<close>

lemma dma_ok_write_memory:
  assumes ok: "dma_ok d" and h: "live_record d h = None"
  shows "dma_ok (d\<lparr>dm_memory := (dm_memory d)(h := v)\<rparr>)"
proof -
  have "dma_record_ok (d\<lparr>dm_memory := (dm_memory d)(h := v)\<rparr>) r" if r: "r \<in> set (dm_records d)" "dr_active r" for r
  proof -
    have "dma_record_ok d r" using ok r by (simp add: dma_ok_def)
    moreover obtain i where "i < FRAME_CONTIGUOUS_ALLOCATION_CAPACITY" "dm_records d ! i = r"
      using r(1) ok by (auto simp: in_set_conv_nth dma_ok_def)
    then have "dr_handle r \<noteq> Some h" using live_record_iff [OF ok, of h r] h r(2) by auto
    ultimately show ?thesis by (auto simp: dma_record_ok_def)
  qed
  then show ?thesis using ok by (simp add: dma_ok_def)
qed

lemma dma_ok_change_frames:
  assumes ok: "dma_ok d" and fs: "frame_ready (mc_frames (snd (pg_space p)))" "identifiers_ok (mc_frames (snd (pg_space p)))"
    and keep: "\<And>r. r \<in> set (dm_records d) \<Longrightarrow> dr_active r \<Longrightarrow>
      run_record (dr_frames r) \<in> set (contiguous_records (mc_frames (snd (pg_space p))))"
  shows "dma_ok (d\<lparr>dm_paging := p\<rparr>)"
proof -
  have "dma_record_ok (d\<lparr>dm_paging := p\<rparr>) r" if "r \<in> set (dm_records d)" "dr_active r" for r
    using ok that keep [OF that] by (auto simp: dma_record_ok_def dma_ok_def dma_frames_def)
  then show ?thesis using ok fs by (simp add: dma_ok_def dma_frames_def)
qed

lemma in_set_update_other:
  "i < length xs \<Longrightarrow> x \<in> set xs \<Longrightarrow> x \<noteq> xs ! i \<Longrightarrow> x \<in> set (xs[i := y])"
  by (metis in_set_conv_nth length_list_update nth_list_update_neq)

text \<open>What a request asks of the frame allocator.\<close>

definition frame_request_of :: "dma_request \<Rightarrow> frame_contiguous_request" where
  "frame_request_of request = \<lparr>rq_page_count = dq_page_count request, rq_alignment = dq_alignment request,
     rq_maximum_physical_address = dq_maximum_physical_address request\<rparr>"

definition new_record :: "handle \<Rightarrow> frame_contiguous_allocation \<Rightarrow> dma_record" where
  "new_record h run = \<lparr>dr_handle = Some h, dr_frames = run, dr_owner = DMA_OWNER_CPU,
     dr_initialized = False, dr_active = True\<rparr>"

text \<open>A record with a fresh identifier enters an idle slot.\<close>

lemma dma_ok_enter:
  assumes ok: "dma_ok d" and h: "live_record d h = None"
    and i: "i < FRAME_CONTIGUOUS_ALLOCATION_CAPACITY" "\<not> dr_active (dm_records d ! i)"
    and run: "fc_active run" "0 < fc_page_count run" "fc_page_count run \<le> FRAME_COUNT"
      "run_record run \<in> set (contiguous_records (dma_frames d))"
    and fresh: "\<And>r. r \<in> set (dm_records d) \<Longrightarrow> dr_active r \<Longrightarrow> fc_identifier (dr_frames r) \<noteq> fc_identifier run"
    and d': "d' = d\<lparr>dm_memory := (dm_memory d)(h := handle_of (new_record h run)),
      dm_records := (dm_records d)[i := new_record h run],
      dm_state := (dm_state d)\<lparr>ds_active_allocations := add64 (ds_active_allocations (dm_state d)) 1,
        ds_cpu_owned_allocations := add64 (ds_cpu_owned_allocations (dm_state d)) 1\<rparr>\<rparr>"
  shows "dma_ok d'" and "live_record d' = (live_record d)(h \<mapsto> new_record h run)"
proof -
  let ?r = "new_record h run"
  have len: "i < length (dm_records d)" "length (dm_records d) = FRAME_CONTIGUOUS_ALLOCATION_CAPACITY"
    using ok i(1) by (simp_all add: dma_ok_def)
  have no: "dr_handle r \<noteq> Some h" if r: "r \<in> set (dm_records d)" "dr_active r" for r
  proof -
    obtain j where "j < FRAME_CONTIGUOUS_ALLOCATION_CAPACITY" "dm_records d ! j = r"
      using r(1) len by (auto simp: in_set_conv_nth)
    then show ?thesis using live_record_iff [OF ok, of h r] h r(2) by auto
  qed
  have recs: "dm_records d' = (dm_records d)[i := ?r]" and mem: "dm_memory d' = (dm_memory d)(h := handle_of ?r)"
    and fr: "dma_frames d' = dma_frames d" by (simp_all add: d' dma_frames_def)
  have rec: "dma_record_ok d' r" if "r = ?r \<or> r \<in> set (dm_records d) \<and> dr_active r" for r
    using that
  proof
    assume "r = ?r"
    then show ?thesis using run by (simp add: dma_record_ok_def mem fr new_record_def)
  next
    assume r: "r \<in> set (dm_records d) \<and> dr_active r"
    then have "dma_record_ok d r" "dr_handle r \<noteq> Some h" using ok no by (auto simp: dma_ok_def)
    then show ?thesis by (auto simp: dma_record_ok_def mem fr)
  qed
  have cnt: "count_if P ((dm_records d)[i := ?r]) = count_if P (dm_records d) + (if P ?r then 1 else 0)"
    if "\<not> P (dm_records d ! i)" for P
    using count_if_update [OF len(1), of P ?r] that by simp
  have small: "count_if P (dm_records d) \<le> 32" for P by (rule dma_count_bound [OF ok])
  show ok': "dma_ok d'"
    unfolding dma_ok_def
  proof (intro conjI ballI impI allI)
    fix r assume "r \<in> set (dm_records d')" "dr_active r"
    then show "dma_record_ok d' r" using rec [of r] recs set_update_subset_insert [of "dm_records d" i ?r] by auto
  next
    fix j k assume jk: "j < FRAME_CONTIGUOUS_ALLOCATION_CAPACITY" "k < FRAME_CONTIGUOUS_ALLOCATION_CAPACITY"
      "dr_active (dm_records d' ! j)" "dr_active (dm_records d' ! k)"
      "fc_identifier (dr_frames (dm_records d' ! j)) = fc_identifier (dr_frames (dm_records d' ! k))"
    have f: "fc_identifier (dr_frames (dm_records d ! l)) \<noteq> fc_identifier run"
      if "l < FRAME_CONTIGUOUS_ALLOCATION_CAPACITY" "dr_active (dm_records d ! l)" for l
      using fresh that len by auto
    show "j = k" using jk f [of j] f [of k] dma_ok_same_identifier [OF ok, of j k] len recs
      by (cases "j = i"; cases "k = i") (auto simp: new_record_def)
  next
    show "ds_active_allocations (dm_state d') = count_if dr_active (dm_records d')"
      using ok cnt [of dr_active] i(2) small [of dr_active] by (simp add: d' dma_ok_def new_record_def c_arith)
    show "ds_cpu_owned_allocations (dm_state d') =
        count_if (\<lambda>r. dr_active r \<and> dr_owner r = DMA_OWNER_CPU) (dm_records d')"
      using ok cnt [of "\<lambda>r. dr_active r \<and> dr_owner r = DMA_OWNER_CPU"] i(2)
        small [of "\<lambda>r. dr_active r \<and> dr_owner r = DMA_OWNER_CPU"] by (simp add: d' dma_ok_def new_record_def c_arith)
    show "ds_device_owned_allocations (dm_state d') =
        count_if (\<lambda>r. dr_active r \<and> dr_owner r = DMA_OWNER_DEVICE) (dm_records d')"
      using ok cnt [of "\<lambda>r. dr_active r \<and> dr_owner r = DMA_OWNER_DEVICE"] i(2)
      by (simp add: d' dma_ok_def new_record_def)
  qed (use ok in \<open>simp_all add: d' dma_ok_def\<close>)
  show "live_record d' = (live_record d)(h \<mapsto> ?r)"
  proof
    fix k
    show "live_record d' k = ((live_record d)(h \<mapsto> ?r)) k"
    proof (cases "k = h")
      case True
      then show ?thesis using live_handle(3) [OF ok' i(1), of h] recs len by (simp add: new_record_def)
    next
      case False
      have "live_record d' k = Some r \<longleftrightarrow> live_record d k = Some r" for r
        unfolding live_record_iff [OF ok'] live_record_iff [OF ok] recs
        using False i(2) len by (auto simp: nth_list_update new_record_def)
      then have "live_record d' k = live_record d k" by (metis not_Some_eq)
      then show ?thesis using False by simp
    qed
  qed
qed

lemma dma_ok_leave:
  assumes ok: "dma_ok d" and i: "i < FRAME_CONTIGUOUS_ALLOCATION_CAPACITY" "dr_active (dm_records d ! i)"
    "dr_handle (dm_records d ! i) = Some h" "dr_owner (dm_records d ! i) = DMA_OWNER_CPU"
    and fs: "frame_ready fs" "identifiers_ok fs"
    and keep: "\<And>r. r \<in> set (dm_records d) \<Longrightarrow> dr_active r \<Longrightarrow>
      fc_identifier (dr_frames r) \<noteq> fc_identifier (dr_frames (dm_records d ! i)) \<Longrightarrow>
      run_record (dr_frames r) \<in> set (contiguous_records fs)"
    and r': "\<not> dr_active r'"
    and d': "d' = d\<lparr>dm_memory := (dm_memory d)(h := v), dm_records := (dm_records d)[i := r'],
      dm_paging := set_frames fs (dm_paging d),
      dm_state := (dm_state d)\<lparr>ds_active_allocations := sub64 (ds_active_allocations (dm_state d)) 1,
        ds_cpu_owned_allocations := sub64 (ds_cpu_owned_allocations (dm_state d)) 1\<rparr>\<rparr>"
  shows "dma_ok d'" and "live_record d' = (live_record d)(h := None)"
proof -
  have len: "i < length (dm_records d)" "length (dm_records d) = FRAME_CONTIGUOUS_ALLOCATION_CAPACITY"
    using ok i(1) by (simp_all add: dma_ok_def)
  have recs: "dm_records d' = (dm_records d)[i := r']" and mem: "dm_memory d' = (dm_memory d)(h := v)"
    and fr: "dma_frames d' = fs" by (simp_all add: d' dma_frames_def)
  have other: "dr_handle (dm_records d ! j) \<noteq> Some h"
    "fc_identifier (dr_frames (dm_records d ! j)) \<noteq> fc_identifier (dr_frames (dm_records d ! i))"
    if "j < FRAME_CONTIGUOUS_ALLOCATION_CAPACITY" "dr_active (dm_records d ! j)" "j \<noteq> i" for j
    using live_handle(2) [OF ok, of j h] live_handle(2) [OF ok i(1-3)] dma_ok_same_identifier [OF ok, of j i] i that
    by auto
  have rec: "dma_record_ok d' (dm_records d' ! j)"
    if j: "j < FRAME_CONTIGUOUS_ALLOCATION_CAPACITY" "dr_active (dm_records d' ! j)" for j
  proof -
    have ji: "j \<noteq> i" using j r' recs len by auto
    then have a: "dr_active (dm_records d ! j)" using j recs by simp
    have "dm_records d ! j \<in> set (dm_records d)" using j(1) len by simp
    then show ?thesis
      using dma_ok_nth [OF ok j(1) a] other [OF j(1) a ji] keep [of "dm_records d ! j"] a ji
      by (auto simp: dma_record_ok_def recs mem fr)
  qed
  have cnt: "count_if P ((dm_records d)[i := r']) = count_if P (dm_records d) - 1" "0 < count_if P (dm_records d)"
    if "\<not> P r'" "P (dm_records d ! i)" for P
    using count_if_update [OF len(1), of P r'] that count_if_pos [OF len(1), of P] by auto
  have small: "count_if P (dm_records d) \<le> 32" for P by (rule dma_count_bound [OF ok])
  show ok': "dma_ok d'"
    unfolding dma_ok_def
  proof (intro conjI ballI impI allI)
    fix r assume "r \<in> set (dm_records d')" "dr_active r"
    then show "dma_record_ok d' r" using rec len recs by (auto simp: in_set_conv_nth)
  next
    fix j k assume "j < FRAME_CONTIGUOUS_ALLOCATION_CAPACITY" "k < FRAME_CONTIGUOUS_ALLOCATION_CAPACITY"
      "dr_active (dm_records d' ! j)" "dr_active (dm_records d' ! k)"
      "fc_identifier (dr_frames (dm_records d' ! j)) = fc_identifier (dr_frames (dm_records d' ! k))"
    then show "j = k" using dma_ok_same_identifier [OF ok, of j k] len recs r'
      by (cases "j = i"; cases "k = i") auto
  next
    show "ds_active_allocations (dm_state d') = count_if dr_active (dm_records d')"
      using ok cnt [of dr_active] i(2) r' small [of dr_active] by (simp add: d' dma_ok_def c_arith)
    show "ds_cpu_owned_allocations (dm_state d') =
        count_if (\<lambda>r. dr_active r \<and> dr_owner r = DMA_OWNER_CPU) (dm_records d')"
      using ok cnt [of "\<lambda>r. dr_active r \<and> dr_owner r = DMA_OWNER_CPU"] i r'
        small [of "\<lambda>r. dr_active r \<and> dr_owner r = DMA_OWNER_CPU"] by (simp add: d' dma_ok_def c_arith)
    show "ds_device_owned_allocations (dm_state d') =
        count_if (\<lambda>r. dr_active r \<and> dr_owner r = DMA_OWNER_DEVICE) (dm_records d')"
      using ok count_if_update [OF len(1), of "\<lambda>r. dr_active r \<and> dr_owner r = DMA_OWNER_DEVICE" r'] i r'
      by (simp add: d' dma_ok_def)
  qed (use ok fs len in \<open>simp_all add: fr\<close>, simp_all add: d' dma_ok_def)
  show "live_record d' = (live_record d)(h := None)"
  proof
    fix k
    have "live_record d' k = Some r \<longleftrightarrow> ((live_record d)(h := None)) k = Some r" for r
    proof (cases "k = h")
      case True
      have "live_record d' h \<noteq> Some r"
        unfolding live_record_iff [OF ok'] recs using r' len other(1) by (auto simp: nth_list_update)
      then show ?thesis using True by simp
    next
      case False
      have "(j < FRAME_CONTIGUOUS_ALLOCATION_CAPACITY \<and> (dm_records d)[i := r'] ! j = r \<and> dr_active r \<and>
            dr_handle r = Some k) =
          (j < FRAME_CONTIGUOUS_ALLOCATION_CAPACITY \<and> dm_records d ! j = r \<and> dr_active r \<and> dr_handle r = Some k)"
        for j using False r' len i(3) by (cases "j = i") auto
      then show ?thesis using False by (simp add: live_record_iff [OF ok'] live_record_iff [OF ok] recs)
    qed
    then show "live_record d' k = ((live_record d)(h := None)) k" by (metis not_Some_eq)
  qed
qed

lemma dma_release_cases:
  assumes ok: "dma_ok d" and run: "dma_release (Some h) d = (status, d')"
  shows "case live_record d h of
      None \<Rightarrow> status = (if da_active (dm_memory d h) then DMA_STATUS_BAD_ALLOCATION else DMA_STATUS_DOUBLE_FREE) \<and> d' = d
    | Some r \<Rightarrow> if dr_owner r = DMA_OWNER_DEVICE then status = DMA_STATUS_WRONG_OWNER \<and> d' = d
        else status = DMA_STATUS_OK \<and> dma_ok d' \<and> live_record d' = (live_record d)(h := None) \<and>
          free_set (dma_frames d') = free_set (dma_frames d) \<union> record_frames (run_record (dr_frames r)) \<and>
          contiguous_set (dma_frames d') = contiguous_set (dma_frames d) - record_frames (run_record (dr_frames r)) \<and>
          single_set (dma_frames d') = single_set (dma_frames d) \<and> \<not> da_active (dm_memory d' h) \<and>
          (\<exists>fs. dm_paging d' = set_frames fs (dm_paging d))"
proof (cases "live_record d h")
  case None
  have "ds_active (dm_state d)" using ok by (simp add: dma_ok_def)
  then show ?thesis using run not_live_handle [OF ok None] None by (auto simp: dma_release_def)
next
  case (Some r)
  then obtain i where i: "i < FRAME_CONTIGUOUS_ALLOCATION_CAPACITY" "dr_active r" "dr_handle r = Some h"
    "dm_records d ! i = r" by (rule live_record_index)
  note live = live_handle [OF ok i(1), of h, unfolded i(4), OF i(2,3)]
  have rok: "dma_record_ok d r" using dma_ok_nth [OF ok i(1)] i by simp
  have act: "ds_active (dm_state d)" and rdy: "frame_ready (dma_frames d)" "identifiers_ok (dma_frames d)"
    and len: "length (dm_records d) = FRAME_CONTIGUOUS_ALLOCATION_CAPACITY"
    using ok by (simp_all add: dma_ok_def)
  show ?thesis
  proof (cases "dr_owner r = DMA_OWNER_DEVICE")
    case True
    then show ?thesis using run live act Some by (auto simp: dma_release_def handle_of_def)
  next
    case False
    then have cpu: "dr_owner r = DMA_OWNER_CPU" using rok by (auto simp: dma_record_ok_def)
    have ra: "fc_active (dr_frames r)" "run_record (dr_frames r) \<in> set (contiguous_records (dma_frames d))"
      using rok by (simp_all add: dma_record_ok_def)
    obtain k fs where K:
      "frame_release_contiguous (Some (dr_frames r)) (dma_frames d) =
         (FRAME_STATUS_OK, Some ((dr_frames r)\<lparr>fc_active := False\<rparr>), fs)"
      "free_set fs = free_set (dma_frames d) \<union> record_frames (run_record (dr_frames r))"
      "contiguous_set fs = contiguous_set (dma_frames d) - record_frames (run_record (dr_frames r))"
      "single_set fs = single_set (dma_frames d)"
      "k < FRAME_CONTIGUOUS_ALLOCATION_CAPACITY" "contiguous_records (dma_frames d) ! k = run_record (dr_frames r)"
      "contiguous_records fs = (contiguous_records (dma_frames d))[k := (run_record (dr_frames r))\<lparr>cr_active := False\<rparr>]"
      "frame_ready fs" "identifiers_ok fs"
      by (rule contiguous_run_given_back [OF rdy ra])
    have keep: "run_record (dr_frames q) \<in> set (contiguous_records fs)"
      if q: "q \<in> set (dm_records d)" "dr_active q" "fc_identifier (dr_frames q) \<noteq> fc_identifier (dr_frames r)" for q
    proof -
      have "run_record (dr_frames q) \<in> set (contiguous_records (dma_frames d))"
        using ok q by (simp add: dma_ok_def dma_record_ok_def)
      moreover have "run_record (dr_frames q) \<noteq> contiguous_records (dma_frames d) ! k"
        using q(3) K(6) by (simp add: run_record_def)
      ultimately show ?thesis
        unfolding K(7) using K(5) contiguous_records_length [OF rdy(1)] by (intro in_set_update_other) simp_all
    qed
    define v where "v = (handle_of r)\<lparr>da_frames := (dr_frames r)\<lparr>fc_active := False\<rparr>, da_cpu_address := None,
      da_byte_length := 0, da_owner := DMA_OWNER_NONE, da_initialized := False, da_active := False\<rparr>"
    define r' where "r' = r\<lparr>dr_handle := None, dr_frames := (dr_frames r)\<lparr>fc_active := False\<rparr>,
      dr_owner := DMA_OWNER_NONE, dr_initialized := False, dr_active := False\<rparr>"
    let ?d = "d\<lparr>dm_memory := (dm_memory d)(h := v), dm_records := (dm_records d)[i := r'],
      dm_paging := set_frames fs (dm_paging d),
      dm_state := (dm_state d)\<lparr>ds_active_allocations := sub64 (ds_active_allocations (dm_state d)) 1,
        ds_cpu_owned_allocations := sub64 (ds_cpu_owned_allocations (dm_state d)) 1\<rparr>\<rparr>"
    have leave: "dma_ok ?d" "live_record ?d = (live_record d)(h := None)"
      by (rule dma_ok_leave [OF ok i(1), where h = h and fs = fs and r' = r'];
          use i cpu K(8,9) keep in \<open>simp add: r'_def\<close>)+
    have "status = DMA_STATUS_OK \<and> d' = ?d"
      using run live act cpu K(1) i(4)
      by (auto simp: dma_release_def handle_of_def write_both_def v_def r'_def)
    then show ?thesis using Some False leave K by (auto simp: v_def dma_frames_def)
  qed
qed

definition buffer_frames :: "dma_record \<Rightarrow> nat set" where
  "buffer_frames r = record_frames (run_record (dr_frames r))"

lemma blank_update [simp]:
  "(d\<lparr>dm_memory := m, dm_paging := p\<rparr>)\<lparr>dm_memory := m'\<rparr> = d\<lparr>dm_memory := m', dm_paging := p\<rparr>"
  by simp

lemma dma_allocate_cases:
  assumes ok: "dma_ok d" and h: "live_record d h = None" and wf: "request_wf (frame_request_of rq)"
    and nowrap: "next_contiguous_identifier (dma_frames d) + 1 < 2 ^ 64"
    and run: "dma_allocate (Some rq) (Some h) d = (status, d')"
  shows "dma_ok d' \<and> single_set (dma_frames d') = single_set (dma_frames d) \<and>
    (\<exists>fs. dm_paging d' = set_frames fs (dm_paging d)) \<and>
    (if status = DMA_STATUS_OK
     then \<exists>r. live_record d' = (live_record d)(h \<mapsto> r) \<and> dr_owner r = DMA_OWNER_CPU \<and> \<not> dr_initialized r \<and>
       fc_page_count (dr_frames r) = dq_page_count rq \<and> dq_alignment rq dvd fc_physical_base (dr_frames r) \<and>
       fc_physical_base (dr_frames r) + dq_page_count rq * 4096 - 1 \<le> dq_maximum_physical_address rq \<and>
       buffer_frames r = {fc_physical_base (dr_frames r) div 4096..<
         fc_physical_base (dr_frames r) div 4096 + dq_page_count rq} \<and> buffer_frames r \<noteq> {} \<and>
       buffer_frames r \<subseteq> free_set (dma_frames d) \<and>
       free_set (dma_frames d') = free_set (dma_frames d) - buffer_frames r \<and>
       contiguous_set (dma_frames d') = contiguous_set (dma_frames d) \<union> buffer_frames r \<and>
       identity_mapped (fc_physical_base (dr_frames r)) (dq_page_count rq * 4096) (dm_paging d')
     else (status = DMA_STATUS_FRAME_ALLOCATION_FAILURE \<or> status = DMA_STATUS_NOT_IDENTITY_MAPPED) \<and>
       live_record d' = live_record d \<and> free_set (dma_frames d') = free_set (dma_frames d) \<and>
       contiguous_set (dma_frames d') = contiguous_set (dma_frames d))"
proof -
  define d0 where "d0 = d\<lparr>dm_memory := (dm_memory d)(h := blank_allocation)\<rparr>"
  have act: "ds_active (dm_state d)" and rdy: "frame_ready (dma_frames d)" "identifiers_ok (dma_frames d)"
    and len: "length (dm_records d) = FRAME_CONTIGUOUS_ALLOCATION_CAPACITY"
    using ok by (simp_all add: dma_ok_def)
  have same: "\<exists>fs. dm_paging d = set_frames fs (dm_paging d)" by (rule exI [of _ "dma_frames d"]) (simp add: dma_frames_def)
  have wr: "dma_ok (d\<lparr>dm_memory := (dm_memory d)(h := v)\<rparr>)" for v by (rule dma_ok_write_memory [OF ok h])
  show ?thesis
  proof (cases "find_from (\<lambda>index. \<not> dr_active (dm_records d ! index)) 0 FRAME_CONTIGUOUS_ALLOCATION_CAPACITY")
    case None
    then have "status = DMA_STATUS_FRAME_ALLOCATION_FAILURE" "d' = d0"
      using run act by (simp_all add: dma_allocate_def d0_def)
    then show ?thesis using wr same by (simp add: d0_def)
  next
    case (Some i)
    then have i: "i < FRAME_CONTIGUOUS_ALLOCATION_CAPACITY" "\<not> dr_active (dm_records d ! i)"
      using find_from_SomeD by blast+
    obtain frame_status a fs where A:
      "frame_allocate_contiguous (Some (frame_request_of rq)) False (dma_frames d) = (frame_status, a, fs)"
      by (metis prod_cases3)
    show ?thesis
    proof (cases "frame_status = FRAME_STATUS_OK")
      case False
      have "fs = dma_frames d"
        using A False by (auto simp: frame_allocate_contiguous_def Let_def split: if_splits option.splits)
      then have "set_frames fs (dm_paging d) = dm_paging d" by (simp add: dma_frames_def)
      then have "status = DMA_STATUS_FRAME_ALLOCATION_FAILURE"
        "d' = d\<lparr>dm_memory := (dm_memory d)(h := blank_allocation\<lparr>da_frames := a\<rparr>)\<rparr>"
        using run act A False Some by (simp_all add: dma_allocate_def frame_request_of_def)
      then show ?thesis using wr same by simp
    next
      case True
      obtain first k where T: "a = \<lparr>fc_physical_base = first * 4096, fc_page_count = dq_page_count rq,
            fc_alignment = dq_alignment rq, fc_maximum_physical_address = dq_maximum_physical_address rq,
            fc_identifier = next_contiguous_identifier (dma_frames d), fc_active = True\<rparr>"
        "first \<in> fitting_runs (frame_request_of rq) (dma_frames d)" "0 < dq_page_count rq"
        "first + dq_page_count rq \<le> FRAME_COUNT"
        "free_set fs = free_set (dma_frames d) - {first..<first + dq_page_count rq}"
        "contiguous_set fs = contiguous_set (dma_frames d) \<union> {first..<first + dq_page_count rq}"
        "single_set fs = single_set (dma_frames d)"
        "k < FRAME_CONTIGUOUS_ALLOCATION_CAPACITY" "\<not> cr_active (contiguous_records (dma_frames d) ! k)"
        "contiguous_records fs = (contiguous_records (dma_frames d))[k := run_record a]"
        "frame_ready fs" "identifiers_ok fs"
        by (rule contiguous_run_taken [OF rdy wf nowrap A [unfolded True]]) (auto simp: frame_request_of_def)
      have F: "record_frames (run_record a) = {first..<first + dq_page_count rq}"
        by (simp add: record_frames_def run_record_def T(1))
      have free: "{first..<first + dq_page_count rq} \<subseteq> free_set (dma_frames d)"
        and align: "dq_alignment rq dvd first * 4096" and past: "first + dq_page_count rq \<le> maximum_past_frame (frame_request_of rq)"
        using T(2) by (simp_all add: fitting_runs_def frame_request_of_def)
      have klen: "k < length (contiguous_records (dma_frames d))"
        using T(8) contiguous_records_length [OF rdy(1)] by simp
      have keep: "run_record (dr_frames q) \<in> set (contiguous_records fs)"
        if q: "q \<in> set (dm_records d)" "dr_active q" for q
      proof -
        have "run_record (dr_frames q) \<in> set (contiguous_records (dma_frames d))"
          using ok q by (simp add: dma_ok_def dma_record_ok_def)
        moreover have "run_record (dr_frames q) \<noteq> contiguous_records (dma_frames d) ! k"
          using T(9) unfolding run_record_def by (metis contiguous_record.select_convs(4))
        ultimately show ?thesis unfolding T(10) using klen by (intro in_set_update_other)
      qed
      have fresh: "fc_identifier (dr_frames q) \<noteq> fc_identifier a" if q: "q \<in> set (dm_records d)" "dr_active q" for q
      proof -
        have "run_record (dr_frames q) \<in> set (contiguous_records (dma_frames d))"
          using ok q by (simp add: dma_ok_def dma_record_ok_def)
        then have "fc_identifier (dr_frames q) < next_contiguous_identifier (dma_frames d)"
          using rdy(2) contiguous_records_length [OF rdy(1)]
          by (auto simp: identifiers_ok_def in_set_conv_nth run_record_def)
        then show ?thesis by (simp add: T(1))
      qed
      have bytes: "mul64 (dq_page_count rq) SAPOTE_PAGE_SIZE = dq_page_count rq * 4096"
        using T(4) by (simp add: mul64_def FRAME_COUNT_def SAPOTE_PAGE_SIZE_def SAPOTE_EARLY_PHYSICAL_LIMIT_def)
      define d1 where "d1 = d\<lparr>dm_paging := set_frames fs (dm_paging d)\<rparr>"
      have ok1: "dma_ok d1" unfolding d1_def by (rule dma_ok_change_frames [OF ok]) (use T keep in auto)
      have live1: "live_record d1 = live_record d" by (simp add: d1_def)
      have fr1: "dma_frames d1 = fs" by (simp add: d1_def)
      show ?thesis
      proof (cases "identity_mapped (first * 4096) (dq_page_count rq * 4096) (set_frames fs (dm_paging d))")
        case False
        obtain j fs2 where R: "frame_release_contiguous (Some a) fs = (FRAME_STATUS_OK, Some (a\<lparr>fc_active := False\<rparr>), fs2)"
          "free_set fs2 = free_set fs \<union> record_frames (run_record a)"
          "contiguous_set fs2 = contiguous_set fs - record_frames (run_record a)"
          "single_set fs2 = single_set fs"
          "j < FRAME_CONTIGUOUS_ALLOCATION_CAPACITY" "contiguous_records fs ! j = run_record a"
          "contiguous_records fs2 = (contiguous_records fs)[j := (run_record a)\<lparr>cr_active := False\<rparr>]"
          "frame_ready fs2" "identifiers_ok fs2"
        proof (rule contiguous_run_given_back [OF T(11,12), of a])
          show "fc_active a" by (simp add: T(1))
          show "run_record a \<in> set (contiguous_records fs)" unfolding T(10) using klen by (rule set_update_memI)
        qed
        have keep2: "run_record (dr_frames q) \<in> set (contiguous_records fs2)"
          if q: "q \<in> set (dm_records d)" "dr_active q" for q
          unfolding R(7)
        proof (rule in_set_update_other)
          show "j < length (contiguous_records fs)" using R(5) contiguous_records_length [OF T(11)] by simp
          show "run_record (dr_frames q) \<in> set (contiguous_records fs)" by (rule keep [OF q])
          show "run_record (dr_frames q) \<noteq> contiguous_records fs ! j"
            using fresh [OF q] R(6) by (simp add: run_record_def)
        qed
        let ?v = "blank_allocation\<lparr>da_frames := a\<lparr>fc_active := False\<rparr>, da_byte_length := 0\<rparr>"
        define d2 where "d2 = d\<lparr>dm_memory := (dm_memory d)(h := ?v)\<rparr>"
        have d': "status = DMA_STATUS_NOT_IDENTITY_MAPPED"
          "d' = d2\<lparr>dm_paging := set_frames fs2 (dm_paging d)\<rparr>"
          using run act A [unfolded True] Some R(1) False bytes
          by (simp_all add: dma_allocate_def frame_request_of_def T(1) d2_def)
        have disj: "contiguous_set (dma_frames d) \<inter> {first..<first + dq_page_count rq} = {}"
        proof -
          have "contiguous_set (dma_frames d) \<subseteq> allocated_set (dma_frames d)"
            using rdy(1) by (simp add: frame_ready_def frame_inv_def records_ok_def)
          moreover have "allocated_set (dma_frames d) \<inter> free_set (dma_frames d) = {}" by (auto simp: frame_sets)
          ultimately show ?thesis using free by blast
        qed
        have "dma_ok d'" unfolding d'(2) d2_def
          by (rule dma_ok_change_frames [OF wr]) (use R keep2 in auto)
        then show ?thesis
          using d' R(2-4) T(5-7) F free disj by (auto simp: d2_def)
      next
        case True': True
        define r where "r = new_record h a"
        define d2 where "d2 = d1\<lparr>dm_memory := (dm_memory d1)(h := handle_of r), dm_records := (dm_records d1)[i := r],
          dm_state := (dm_state d1)\<lparr>ds_active_allocations := add64 (ds_active_allocations (dm_state d1)) 1,
            ds_cpu_owned_allocations := add64 (ds_cpu_owned_allocations (dm_state d1)) 1\<rparr>\<rparr>"
        have "handle_of r = \<lparr>da_frames = a, da_cpu_address = Some (first * 4096), da_byte_length = dq_page_count rq * 4096,
            da_owner = DMA_OWNER_CPU, da_initialized = False, da_active = True\<rparr>"
          using bytes by (simp add: r_def handle_of_def new_record_def T(1))
        then have d': "status = DMA_STATUS_OK" "d' = d2"
          using run act A [unfolded True] Some True' bytes
          by (auto simp: dma_allocate_def frame_request_of_def T(1) d2_def d1_def r_def new_record_def)
        have enter: "dma_ok d2" "live_record d2 = (live_record d1)(h \<mapsto> r)"
          unfolding r_def
        proof -
          show "dma_ok d2" "live_record d2 = (live_record d1)(h \<mapsto> new_record h a)"
            by (rule dma_ok_enter [OF ok1, of h i a]; use T i h fresh klen in
              \<open>simp add: d1_def d2_def r_def set_update_memI\<close>)+
        qed
        have "first * 4096 + dq_page_count rq * 4096 - 1 \<le> dq_maximum_physical_address rq"
          using maximum_past_frame_le(2) [OF wf, of "first + dq_page_count rq - 1"] past T(3)
          by (simp add: frame_request_of_def algebra_simps)
        moreover have "buffer_frames r = {first..<first + dq_page_count rq}"
          using F by (simp add: buffer_frames_def r_def new_record_def)
        moreover have "dma_frames d2 = fs" "dm_paging d2 = set_frames fs (dm_paging d)"
          by (simp_all add: d2_def d1_def dma_frames_def)
        moreover have "dr_owner r = DMA_OWNER_CPU" "\<not> dr_initialized r" "dr_frames r = a"
          by (simp_all add: r_def new_record_def)
        ultimately show ?thesis
          unfolding d' if_P [OF refl]
          using enter T align free True' live1 by (intro conjI exI [of _ r] exI [of _ fs]) simp_all
      qed
    qed
  qed
qed

section \<open>Verification accepts the invariant\<close>

lemma count_owner_split:
  assumes "\<forall>r \<in> set rs. dr_active r \<longrightarrow> dr_owner r = DMA_OWNER_CPU \<or> dr_owner r = DMA_OWNER_DEVICE"
  shows "count_if (\<lambda>r. dr_active r \<and> dr_owner r = DMA_OWNER_CPU) rs +
    count_if (\<lambda>r. dr_active r \<and> dr_owner r = DMA_OWNER_DEVICE) rs = count_if dr_active rs"
  using assms by (induction rs) auto

lemma dma_verify_ok:
  assumes ok: "dma_ok d"
  shows "dma_verify d = DMA_STATUS_OK"
proof -
  let ?cpu = "\<lambda>r. dr_active r \<and> dr_owner r = DMA_OWNER_CPU"
    and ?dev = "\<lambda>r. dr_active r \<and> dr_owner r = DMA_OWNER_DEVICE"
  have len: "length (dm_records d) = FRAME_CONTIGUOUS_ALLOCATION_CAPACITY" using ok by (simp add: dma_ok_def)
  have "fold_until (verify_record d) [0..<n] (0, 0, 0) = Inr (count_if dr_active (take n (dm_records d)),
      count_if ?cpu (take n (dm_records d)), count_if ?dev (take n (dm_records d)))"
    if "n \<le> FRAME_CONTIGUOUS_ALLOCATION_CAPACITY" for n
    using that
  proof (induction n)
    case (Suc n)
    then have n: "n < FRAME_CONTIGUOUS_ALLOCATION_CAPACITY" by simp
    have t: "take (Suc n) (dm_records d) = take n (dm_records d) @ [dm_records d ! n]"
      using n len by (simp add: take_Suc_conv_app_nth)
    have v: "dr_handle (dm_records d ! n) \<noteq> None" "validate_allocation (dr_handle (dm_records d ! n)) d = DMA_STATUS_OK"
      "?cpu (dm_records d ! n) \<or> ?dev (dm_records d ! n)" if "dr_active (dm_records d ! n)"
      using dma_ok_nth [OF ok n that] live_handle(4) [OF ok n that] that by (auto simp: dma_record_ok_def)
    have "verify_record d n (a, b, c) = Inr (if dr_active (dm_records d ! n) then a + 1 else a,
        if ?cpu (dm_records d ! n) then b + 1 else b, if ?dev (dm_records d ! n) then c + 1 else c)" for a b c
      using v by (cases "dr_active (dm_records d ! n)") (auto simp: verify_record_def Let_def)
    then show ?case using Suc.IH n unfolding t fold_until_upt_Suc by simp
  qed simp
  from this [of FRAME_CONTIGUOUS_ALLOCATION_CAPACITY]
  have "fold_until (verify_record d) [0..<FRAME_CONTIGUOUS_ALLOCATION_CAPACITY] (0, 0, 0) =
      Inr (count_if dr_active (dm_records d), count_if ?cpu (dm_records d), count_if ?dev (dm_records d))"
    using len by simp
  moreover have "count_if ?cpu (dm_records d) + count_if ?dev (dm_records d) = count_if dr_active (dm_records d)"
    by (rule count_owner_split) (use ok in \<open>auto simp: dma_ok_def dma_record_ok_def\<close>)
  ultimately show ?thesis using ok by (simp add: dma_verify_def dma_ok_def)
qed

lemma dma_initialize_ok:
  assumes "\<not> ds_active (dm_state d)" "length (dm_records d) = FRAME_CONTIGUOUS_ALLOCATION_CAPACITY"
    and "frame_ready (dma_frames d)" "identifiers_ok (dma_frames d)"
    and run: "dma_initialize d = (status, d')"
  shows "status = DMA_STATUS_OK" "dma_ok d'" "dm_paging d' = dm_paging d" "live_record d' h = None"
    "dm_memory d' = dm_memory d"
proof -
  let ?f = "\<lambda>index rs. rs[index := (rs ! index)\<lparr>dr_handle := None, dr_active := False\<rparr>]"
  have fold: "length (fold ?f [0..<n] rs) = length rs \<and> (\<forall>j < n. \<not> dr_active (fold ?f [0..<n] rs ! j))"
    if "n \<le> length rs" for n rs
    using that by (induction n) (auto simp: less_Suc_eq nth_list_update)
  define rs where "rs = fold ?f [0..<FRAME_CONTIGUOUS_ALLOCATION_CAPACITY] (dm_records d)"
  have rs: "length rs = FRAME_CONTIGUOUS_ALLOCATION_CAPACITY" "\<And>j. j < FRAME_CONTIGUOUS_ALLOCATION_CAPACITY \<Longrightarrow> \<not> dr_active (rs ! j)"
    using fold [of FRAME_CONTIGUOUS_ALLOCATION_CAPACITY "dm_records d"] assms(2) by (simp_all add: rs_def)
  then have idle: "\<forall>r \<in> set rs. \<not> dr_active r" by (auto simp: in_set_conv_nth)
  then have none: "count_if (\<lambda>r. dr_active r \<and> P r) rs = 0" "count_if dr_active rs = 0" for P
    by (simp_all add: count_if_def filter_empty_conv)
  have d': "status = DMA_STATUS_OK" "d' = d\<lparr>dm_state := \<lparr>ds_active_allocations = 0, ds_cpu_owned_allocations = 0,
      ds_device_owned_allocations = 0, ds_active = True\<rparr>, dm_records := rs\<rparr>"
    using run assms(1) by (auto simp: dma_initialize_def rs_def)
  show "status = DMA_STATUS_OK" "dm_paging d' = dm_paging d" "dm_memory d' = dm_memory d"
    by (simp_all add: d')
  show "dma_ok d'" using assms(3,4) rs idle none by (auto simp: dma_ok_def d')
  show "live_record d' h = None" using rs by (simp add: live_record_def d' find_from_None_iff)
qed

section \<open>Runs and page tables\<close>

lemma buffer_in_run:
  assumes ok: "dma_ok d" and h: "live_record d h = Some r"
  shows "buffer_frames r \<subseteq> contiguous_set (dma_frames d)" "buffer_frames r \<noteq> {}"
proof -
  obtain i where "i < FRAME_CONTIGUOUS_ALLOCATION_CAPACITY" "dr_active r" "dm_records d ! i = r"
    using h by (rule live_record_index)
  then have "dma_record_ok d r" using dma_ok_nth [OF ok] by blast
  then show "buffer_frames r \<subseteq> contiguous_set (dma_frames d)" "buffer_frames r \<noteq> {}"
    by (auto simp: dma_record_ok_def buffer_frames_def contiguous_set_def record_frames_def run_record_def)
qed

lemma buffers_apart:
  assumes ok: "dma_ok d" and h: "live_record d h = Some r" and h': "live_record d h' = Some r'" and ne: "h \<noteq> h'"
  shows "buffer_frames r \<inter> buffer_frames r' = {}"
proof -
  obtain i where i: "i < FRAME_CONTIGUOUS_ALLOCATION_CAPACITY" "dr_active r" "dr_handle r = Some h" "dm_records d ! i = r"
    using h by (rule live_record_index)
  obtain j where j: "j < FRAME_CONTIGUOUS_ALLOCATION_CAPACITY" "dr_active r'" "dr_handle r' = Some h'" "dm_records d ! j = r'"
    using h' by (rule live_record_index)
  have "i \<noteq> j" using i j ne by auto
  then have "fc_identifier (dr_frames r) \<noteq> fc_identifier (dr_frames r')"
    using dma_ok_same_identifier [OF ok i(1) j(1)] i j by auto
  then have ne': "run_record (dr_frames r) \<noteq> run_record (dr_frames r')" by (auto simp: run_record_def)
  have "dma_record_ok d r" "dma_record_ok d r'" using dma_ok_nth [OF ok] i j by blast+
  then have "run_record (dr_frames r) \<in> set (contiguous_records (dma_frames d))"
    "run_record (dr_frames r') \<in> set (contiguous_records (dma_frames d))" by (simp_all add: dma_record_ok_def)
  then obtain k l where k: "k < length (contiguous_records (dma_frames d))" "contiguous_records (dma_frames d) ! k = run_record (dr_frames r)"
    and l: "l < length (contiguous_records (dma_frames d))" "contiguous_records (dma_frames d) ! l = run_record (dr_frames r')"
    by (metis in_set_conv_nth)
  have "records_ok (dma_frames d)" using ok by (simp add: dma_ok_def frame_ready_def frame_inv_def)
  moreover have "k \<noteq> l" using k l ne' by auto
  ultimately have "record_frames (contiguous_records (dma_frames d) ! k) \<inter> record_frames (contiguous_records (dma_frames d) ! l) = {}"
    using k(1) l(1) unfolding records_ok_def by blast
  then show ?thesis by (simp add: buffer_frames_def k(2) l(2))
qed

section \<open>A small machine\<close>

text \<open>The first two megabytes mapped to themselves by one large entry.\<close>

definition identity_tables :: tables where
  "identity_tables t i = (if i \<noteq> 0 then 0 else if t = 0x1000 then 0x2003 else if t = 0x2000 then 0x3003
     else if t = 0x3000 then 0x8000000000000083 else 0)"

definition identity_paging :: paging where
  "identity_paging = (let p = sample_paging 0x1000 sample_allocator in
     p\<lparr>pg_space := (fst (pg_space p), (snd (pg_space p))\<lparr>mc_tables := identity_tables\<rparr>)\<rparr>)"

definition sample_dma :: dma where
  "sample_dma = \<lparr>dm_state = \<lparr>ds_active_allocations = 0, ds_cpu_owned_allocations = 0,
       ds_device_owned_allocations = 0, ds_active = True\<rparr>,
     dm_records = replicate FRAME_CONTIGUOUS_ALLOCATION_CAPACITY \<lparr>dr_handle = None, dr_frames = empty_allocation,
       dr_owner = DMA_OWNER_NONE, dr_initialized = False, dr_active = False\<rparr>,
     dm_memory = (\<lambda>_. blank_allocation), dm_paging = identity_paging\<rparr>"

definition sample_dma_request :: dma_request where
  "sample_dma_request = \<lparr>dq_page_count = 2, dq_alignment = 8192, dq_maximum_physical_address = 0xFFFFFFFF\<rparr>"

lemma identity_index:
  assumes "a < 0x200000"
  shows "table_index a (Suc (Suc k)) = 0"
proof -
  have "a div 4096 div 512 ^ (Suc k) = a div (4096 * 512) div 512 ^ k" by (simp only: div_mult2_eq power_Suc)
  moreover have "a div (4096 * 512) = 0" using assms by simp
  ultimately show ?thesis by (simp add: table_index_div)
qed

lemma identity_entries:
  "(0x2003 :: 64 word) AND PAGE_PRESENT \<noteq> 0" "(0x2003 :: 64 word) AND PAGE_HUGE = 0" "(0x2003 :: 64 word) AND PAGE_WRITABLE \<noteq> 0"
  "(0x2003 :: 64 word) AND PAGE_NO_EXECUTE = 0" "(0x2003 :: 64 word) AND PAGE_USER = 0"
  "unat ((0x2003 :: 64 word) AND PAGE_FRAME_MASK) = 0x2000"
  "(0x3003 :: 64 word) AND PAGE_PRESENT \<noteq> 0" "(0x3003 :: 64 word) AND PAGE_HUGE = 0" "(0x3003 :: 64 word) AND PAGE_WRITABLE \<noteq> 0"
  "(0x3003 :: 64 word) AND PAGE_NO_EXECUTE = 0" "(0x3003 :: 64 word) AND PAGE_USER = 0"
  "unat ((0x3003 :: 64 word) AND PAGE_FRAME_MASK) = 0x3000"
  "(0x8000000000000083 :: 64 word) AND PAGE_PRESENT \<noteq> 0" "(0x8000000000000083 :: 64 word) AND PAGE_HUGE \<noteq> 0"
  "(0x8000000000000083 :: 64 word) AND PAGE_WRITABLE \<noteq> 0" "(0x8000000000000083 :: 64 word) AND PAGE_NO_EXECUTE \<noteq> 0"
  by code_simp+

lemma identity_walk:
  assumes a: "a < 0x200000"
  shows "translate_address a pat (fst (pg_space identity_paging), (snd (pg_space identity_paging))\<lparr>mc_frames := fs\<rparr>) =
    (PAGING_STATUS_OK, fill_translation 0x8000000000000083 a 2 True False False pat)"
proof -
  let ?m = "(snd (pg_space identity_paging))\<lparr>mc_frames := fs\<rparr>"
  have canonical: "address_is_canonical a" using a by (simp add: address_is_canonical_def drop_bit_eq_div)
  have levels: "PAGING_LEVEL_COUNT - 1 = Suc (Suc (Suc 0))" by (simp add: PAGING_LEVEL_COUNT_def)
  have tables: "mc_tables ?m 0x1000 0 = 0x2003" "mc_tables ?m 0x2000 0 = 0x3003" "mc_tables ?m 0x3000 0 = 0x8000000000000083"
    and root: "ph_root (fst (pg_space identity_paging)) = 0x1000"
    by (simp_all add: identity_paging_def sample_paging_def blank_space_def Let_def identity_tables_def)
  have two: "Suc (Suc 0) = 2" by simp
  show ?thesis
    by (simp only: translate_address_def canonical not_True_eq_False if_False levels translate_walk.simps Let_def
        fst_conv snd_conv root identity_index [OF a] tables identity_entries simp_thms if_True) (simp only: two)
qed

lemma identity_type: "leaf_memory_type 0x8000000000000083 2 0x0007040600070106 = PAGING_MEMORY_WRITE_BACK"
  by code_simp

lemma identity_translates:
  "paging_translate 0x100000 False (set_frames fs identity_paging) = (PAGING_STATUS_OK, Some
     \<lparr>tr_physical_address = 0x100000, tr_permissions = PAGING_WRITE, tr_memory_type = PAGING_MEMORY_WRITE_BACK,
      tr_level = 2, tr_user = False\<rparr>)"
  "paging_translate 0x101FFF False (set_frames fs identity_paging) = (PAGING_STATUS_OK, Some
     \<lparr>tr_physical_address = 0x101FFF, tr_permissions = PAGING_WRITE, tr_memory_type = PAGING_MEMORY_WRITE_BACK,
      tr_level = 2, tr_user = False\<rparr>)"
proof -
  have size: "level_page_size 2 = 0x200000" by (simp add: level_page_size_def push_bit_eq_mult)
  have pat: "ps_pat_after (pg_state identity_paging) = 0x0007040600070106" "ps_active (pg_state identity_paging)"
    by (simp_all add: identity_paging_def sample_paging_def Let_def)
  have sp: "pg_space (set_frames fs identity_paging) =
      (fst (pg_space identity_paging), (snd (pg_space identity_paging))\<lparr>mc_frames := fs\<rparr>)"
    by (simp add: set_frames_def split: prod.splits)
  note unfold = paging_translate_def sp pat identity_walk fill_translation_def size identity_type Let_def
    PAGE_FRAME_MASK_def PAGING_READ_def memory_type_permissions_def
  show "paging_translate 0x100000 False (set_frames fs identity_paging) = (PAGING_STATUS_OK, Some
     \<lparr>tr_physical_address = 0x100000, tr_permissions = PAGING_WRITE, tr_memory_type = PAGING_MEMORY_WRITE_BACK,
      tr_level = 2, tr_user = False\<rparr>)" by (simp add: unfold)
  show "paging_translate 0x101FFF False (set_frames fs identity_paging) = (PAGING_STATUS_OK, Some
     \<lparr>tr_physical_address = 0x101FFF, tr_permissions = PAGING_WRITE, tr_memory_type = PAGING_MEMORY_WRITE_BACK,
      tr_level = 2, tr_user = False\<rparr>)" by (simp add: unfold)
qed

section \<open>Any sequence of calls\<close>

text \<open>
  What may happen between two observations: a call on a handle variable, a write of the
  caller's to a variable, or work elsewhere in the kernel that maps pages or takes and returns
  single frames.  Nothing guards \<open>dma_allocate\<close>, nor the caller's writes, against a variable
  that is a live handle; the events \<open>Dma_Reallocate\<close> and \<open>Dma_Overwrite\<close> are those cases, so
  that a property can say whether it admits them.  A call with a null argument changes nothing.
  A request's fields are 64-bit values; contiguous runs are taken and returned by \<open>dma.c\<close> alone,
  so other work leaves their records, and it keeps the page tables well formed.
\<close>

datatype dma_event =
    Dma_Allocate handle | Dma_Reallocate handle | Dma_Mark handle | Dma_To_Device handle
  | Dma_To_Cpu handle | Dma_Release handle | Dma_Write handle | Dma_Overwrite handle | Dma_Other

definition allocate_event :: "dma \<Rightarrow> handle \<Rightarrow> dma_event" where
  "allocate_event d h = (if live_record d h = None then Dma_Allocate h else Dma_Reallocate h)"

definition write_event :: "dma \<Rightarrow> handle \<Rightarrow> dma_event" where
  "write_event d h = (if live_record d h = None then Dma_Write h else Dma_Overwrite h)"

inductive dma_step :: "dma \<Rightarrow> dma_event \<Rightarrow> dma \<Rightarrow> bool" where
  step_allocate: "dma_allocate (Some rq) (Some h) d = (status, d') \<Longrightarrow> request_wf (frame_request_of rq) \<Longrightarrow>
    dma_step d (allocate_event d h) d'"
| step_mark: "dma_mark_initialized (Some h) d = (status, d') \<Longrightarrow> dma_step d (Dma_Mark h) d'"
| step_to_device: "dma_transfer_to_device (Some h) d = (status, d') \<Longrightarrow> dma_step d (Dma_To_Device h) d'"
| step_to_cpu: "dma_transfer_to_cpu (Some h) d = (status, d') \<Longrightarrow> dma_step d (Dma_To_Cpu h) d'"
| step_release: "dma_release (Some h) d = (status, d') \<Longrightarrow> dma_step d (Dma_Release h) d'"
| step_write: "dma_step d (write_event d h) (d\<lparr>dm_memory := (dm_memory d)(h := v)\<rparr>)"
| step_other: "paging_ok p \<Longrightarrow>
    contiguous_records (mc_frames (snd (pg_space p))) = contiguous_records (dma_frames d) \<Longrightarrow>
    next_contiguous_identifier (mc_frames (snd (pg_space p))) = next_contiguous_identifier (dma_frames d) \<Longrightarrow>
    dma_step d Dma_Other (d\<lparr>dm_paging := p\<rparr>)"

inductive dma_path :: "dma \<Rightarrow> dma_event list \<Rightarrow> dma \<Rightarrow> bool" where
  path_done: "dma_path d [] d"
| path_step: "dma_step d e d1 \<Longrightarrow> dma_path d1 es d2 \<Longrightarrow> dma_path d (e # es) d2"

inductive_cases dma_path_NilE: "dma_path d [] d'"
inductive_cases dma_path_ConsE: "dma_path d (e # es) d'"

text \<open>Every run takes one identifier; no step takes more than one.\<close>

lemma frame_allocate_contiguous_next_le:
  "frame_allocate_contiguous (Some rq) False s = (status, run, s') \<Longrightarrow>
     next_contiguous_identifier s' \<le> next_contiguous_identifier s + 1"
  by (auto simp: frame_allocate_contiguous_def Let_def add64_def split: if_splits option.splits)

lemma frame_release_contiguous_next_same:
  "frame_release_contiguous run s = (status, released, s') \<Longrightarrow>
     next_contiguous_identifier s' = next_contiguous_identifier s"
  by (auto simp: frame_release_contiguous_def Let_def split: if_splits option.splits)

lemma write_both_frames [simp]: "dma_frames (write_both h i f g d) = dma_frames d"
  by (simp add: write_both_def)

lemma dma_step_next:
  assumes "dma_step d e d'"
  shows "next_contiguous_identifier (dma_frames d') \<le> next_contiguous_identifier (dma_frames d) + 1"
  using assms
proof cases
  case (step_allocate rq h status)
  obtain frame_status a fs where A:
    "frame_allocate_contiguous (Some (frame_request_of rq)) False (dma_frames d) = (frame_status, a, fs)"
    by (metis prod_cases3)
  obtain rel_status released fs2 where R: "frame_release_contiguous (Some a) fs = (rel_status, released, fs2)"
    by (metis prod_cases3)
  note le = frame_allocate_contiguous_next_le [OF A] and same = frame_release_contiguous_next_same [OF R]
  from step_allocate(2) show ?thesis
    using le same A R
    by (auto simp: dma_allocate_def frame_request_of_def Let_def split: if_splits option.splits)
next
  case (step_mark h status)
  then show ?thesis by (auto simp: dma_mark_initialized_def Let_def split: if_splits option.splits)
next
  case (step_to_device h status)
  then show ?thesis by (auto simp: dma_transfer_to_device_def Let_def split: if_splits option.splits)
next
  case (step_to_cpu h status)
  then show ?thesis by (auto simp: dma_transfer_to_cpu_def Let_def split: if_splits option.splits)
next
  case (step_release h status)
  obtain rel_status released fs2 where R:
    "frame_release_contiguous (Some (da_frames (dm_memory d h))) (dma_frames d) = (rel_status, released, fs2)"
    by (metis prod_cases3)
  from step_release R show ?thesis
    using frame_release_contiguous_next_same [OF R]
    by (auto simp: dma_release_def Let_def split: if_splits option.splits)
next
  case (step_other p)
  then show ?thesis by (simp add: dma_frames_def)
qed simp

subsection \<open>When live handles are left alone\<close>

lemma allocate_event_ne:
  "allocate_event d h \<noteq> Dma_Reallocate h \<Longrightarrow> live_record d h = None"
  "write_event d h \<noteq> Dma_Overwrite h \<Longrightarrow> live_record d h = None"
  by (simp_all add: allocate_event_def write_event_def split: if_splits)

lemma dma_step_ok:
  assumes "dma_step d e d'" "dma_ok d" "next_contiguous_identifier (dma_frames d) + 1 < 2 ^ 64"
    and "\<forall>g. e \<noteq> Dma_Reallocate g \<and> e \<noteq> Dma_Overwrite g"
  shows "dma_ok d'"
  using assms
proof induction
  case (step_allocate rq h d status d')
  then have "live_record d h = None" using allocate_event_ne(1) by blast
  then show ?case using dma_allocate_cases [OF _ _ step_allocate.hyps(2) _ step_allocate.hyps(1)] step_allocate.prems by simp
next
  case (step_mark h d status d')
  then show ?case using dma_mark_initialized_cases(2) by blast
next
  case (step_to_device h d status d')
  then show ?case using dma_transfer_to_device_cases by blast
next
  case (step_to_cpu h d status d')
  then show ?case using dma_transfer_to_cpu_cases by blast
next
  case (step_release h d status d')
  then show ?case using dma_release_cases [OF _ step_release.hyps]
    by (auto split: option.splits if_splits)
next
  case (step_write d h v)
  then show ?case using dma_ok_write_memory allocate_event_ne(2) by blast
next
  case (step_other p d)
  have "identifiers_ok (mc_frames (snd (pg_space p)))"
    using step_other by (simp add: dma_ok_def identifiers_ok_def)
  moreover have "frame_ready (mc_frames (snd (pg_space p)))"
    using step_other.hyps(1) by (simp add: paging_ok_def space_ok_def)
  ultimately show ?case
    using step_other dma_ok_change_frames [of d p] by (auto simp: dma_ok_def dma_record_ok_def)
qed

lemma dma_step_paging:
  assumes "dma_step d e d'" "dma_ok d" "next_contiguous_identifier (dma_frames d) + 1 < 2 ^ 64"
    and "\<forall>g. e \<noteq> Dma_Reallocate g \<and> e \<noteq> Dma_Overwrite g" and "paging_ok (dm_paging d)"
  shows "paging_ok (dm_paging d')"
proof -
  have keep: "paging_ok (set_frames fs (dm_paging d))"
    if "dm_paging d' = set_frames fs (dm_paging d)" "single_set (dma_frames d') = single_set (dma_frames d)" for fs
  proof -
    have "dma_frames d' = fs" by (simp add: dma_frames_def that(1))
    moreover have "frame_ready (dma_frames d')" using dma_step_ok [OF assms(1-4)] by (simp add: dma_ok_def)
    ultimately show ?thesis using set_frames_paging_ok [OF assms(5), of fs] that(2) by (simp add: dma_frames_def)
  qed
  show ?thesis
    using assms(1)
  proof cases
    case (step_allocate rq h status)
    then have free: "live_record d h = None" using allocate_event_ne(1) assms(4) by blast
    have "(\<exists>fs. dm_paging d' = set_frames fs (dm_paging d)) \<and> single_set (dma_frames d') = single_set (dma_frames d)"
      using dma_allocate_cases [OF assms(2) free step_allocate(3) assms(3) step_allocate(2)] by blast
    then show ?thesis using keep assms(5) by metis
  next
    case (step_mark h status)
    then show ?thesis using dma_mark_initialized_cases(3) assms(2,5) by metis
  next
    case (step_to_device h status)
    then show ?thesis using dma_transfer_to_device_cases assms(2,5) by metis
  next
    case (step_to_cpu h status)
    then show ?thesis using dma_transfer_to_cpu_cases assms(2,5) by metis
  next
    case (step_release h status)
    have "d' = d \<or> (\<exists>fs. dm_paging d' = set_frames fs (dm_paging d)) \<and>
        single_set (dma_frames d') = single_set (dma_frames d)"
      using dma_release_cases [OF assms(2) step_release(2)] by (auto split: option.splits if_splits)
    then show ?thesis using keep assms(5) by auto
  qed (use assms(5) in auto)
qed

lemma dma_path_ok:
  "dma_path d es d' \<Longrightarrow> dma_ok d \<Longrightarrow> next_contiguous_identifier (dma_frames d) + length es < 2 ^ 64 \<Longrightarrow>
     \<forall>g. Dma_Reallocate g \<notin> set es \<and> Dma_Overwrite g \<notin> set es \<Longrightarrow>
     dma_ok d' \<and> (paging_ok (dm_paging d) \<longrightarrow> paging_ok (dm_paging d'))"
proof (induction rule: dma_path.induct)
  case (path_step d e d1 es d2)
  have e: "\<forall>g. e \<noteq> Dma_Reallocate g \<and> e \<noteq> Dma_Overwrite g"
    and es: "\<forall>g. Dma_Reallocate g \<notin> set es \<and> Dma_Overwrite g \<notin> set es"
    and n: "next_contiguous_identifier (dma_frames d) + 1 < 2 ^ 64" using path_step.prems by auto
  note ok1 = dma_step_ok [OF path_step.hyps(1) path_step.prems(1) n e]
    and p1 = dma_step_paging [OF path_step.hyps(1) path_step.prems(1) n e]
  have "next_contiguous_identifier (dma_frames d1) + length es < 2 ^ 64"
    using dma_step_next [OF path_step.hyps(1)] path_step.prems(2) by simp
  from path_step.IH [OF ok1 this es] p1 show ?case by blast
qed simp

subsection \<open>A handle a device owns, whatever happens to the others\<close>

text \<open>What the frame allocator keeps of the runs a call is not about.\<close>

lemma contiguous_runs_kept:
  assumes r: "frame_ready s" and id: "identifiers_ok s" and wf: "request_wf rq"
    and nowrap: "next_contiguous_identifier s + 1 < 2 ^ 64"
    and run: "frame_allocate_contiguous (Some rq) False s = (status, a, s')"
  shows "frame_ready s' \<and> identifiers_ok s' \<and>
    (\<forall>q \<in> set (contiguous_records s). cr_active q \<longrightarrow>
       q \<in> set (contiguous_records s') \<and> cr_identifier q < next_contiguous_identifier s) \<and>
    (status = FRAME_STATUS_OK \<longrightarrow> fc_identifier a = next_contiguous_identifier s) \<and>
    (status \<noteq> FRAME_STATUS_OK \<longrightarrow> s' = s)"
proof -
  have old: "cr_identifier q < next_contiguous_identifier s" if "q \<in> set (contiguous_records s)" "cr_active q" for q
    using that id contiguous_records_length [OF r] by (auto simp: identifiers_ok_def in_set_conv_nth)
  show ?thesis
  proof (cases "status = FRAME_STATUS_OK")
    case False
    then have "s' = s"
      using run by (auto simp: frame_allocate_contiguous_def Let_def split: if_splits option.splits)
    with r id old False show ?thesis by simp
  next
    case True
    obtain first i where T: "a = \<lparr>fc_physical_base = first * 4096, fc_page_count = rq_page_count rq,
        fc_alignment = rq_alignment rq, fc_maximum_physical_address = rq_maximum_physical_address rq,
        fc_identifier = next_contiguous_identifier s, fc_active = True\<rparr>"
      "i < FRAME_CONTIGUOUS_ALLOCATION_CAPACITY" "\<not> cr_active (contiguous_records s ! i)"
      "contiguous_records s' = (contiguous_records s)[i := run_record a]" "frame_ready s'" "identifiers_ok s'"
      by (rule contiguous_run_taken [OF r id wf nowrap run [unfolded True]]) blast
    have "q \<in> set (contiguous_records s')" if "q \<in> set (contiguous_records s)" "cr_active q" for q
      unfolding T(4) using that T(2,3) contiguous_records_length [OF r] by (intro in_set_update_other) auto
    with T old True show ?thesis by simp
  qed
qed

lemma contiguous_release_kept:
  assumes r: "frame_ready s" and id: "identifiers_ok s"
    and run: "frame_release_contiguous (Some a) s = (status, released, s')"
  shows "frame_ready s' \<and> identifiers_ok s' \<and>
    (\<forall>q \<in> set (contiguous_records s). cr_active q \<and> cr_identifier q \<noteq> fc_identifier a \<longrightarrow>
       q \<in> set (contiguous_records s')) \<and>
    (\<exists>active. released = Some (a\<lparr>fc_active := active\<rparr>))"
proof (cases "status = FRAME_STATUS_OK")
  case False
  then have "s' = s" "released = Some a"
    using run by (auto simp: frame_release_contiguous_def Let_def split: if_splits option.splits)
  moreover have "a = a\<lparr>fc_active := fc_active a\<rparr>" by simp
  ultimately show ?thesis using r id by metis
next
  case True
  then obtain i where i: "find_from (\<lambda>index. cr_active (contiguous_records s ! index) \<and>
      cr_identifier (contiguous_records s ! index) = fc_identifier a) 0 FRAME_CONTIGUOUS_ALLOCATION_CAPACITY = Some i"
    "fc_active a" "cr_physical_base (contiguous_records s ! i) = fc_physical_base a"
    "cr_page_count (contiguous_records s ! i) = fc_page_count a"
    using run by (auto simp: frame_release_contiguous_def Let_def split: if_splits option.splits)
  note f = find_from_SomeD [OF i(1)]
  have "contiguous_records s ! i = run_record a" using f i by (simp add: run_record_def)
  then have mem: "run_record a \<in> set (contiguous_records s)"
    using f contiguous_records_length [OF r] by (metis nth_mem)
  obtain k s2 where R: "frame_release_contiguous (Some a) s = (FRAME_STATUS_OK, Some (a\<lparr>fc_active := False\<rparr>), s2)"
    "k < FRAME_CONTIGUOUS_ALLOCATION_CAPACITY" "contiguous_records s ! k = run_record a"
    "contiguous_records s2 = (contiguous_records s)[k := (run_record a)\<lparr>cr_active := False\<rparr>]"
    "frame_ready s2" "identifiers_ok s2"
    by (rule contiguous_run_given_back [OF r id i(2) mem]) blast
  have "q \<in> set (contiguous_records s2)"
    if "q \<in> set (contiguous_records s)" "cr_identifier q \<noteq> fc_identifier a" for q
    unfolding R(4) using that R(2,3) contiguous_records_length [OF r]
    by (intro in_set_update_other) (auto simp: run_record_def)
  then show ?thesis using R run by auto
qed

text \<open>What \<open>dma_allocate\<close> does on any variable, live or not.\<close>

lemma dma_allocate_effect:
  assumes r: "frame_ready (dma_frames d)" and id: "identifiers_ok (dma_frames d)" and wf: "request_wf (frame_request_of rq)"
    and nowrap: "next_contiguous_identifier (dma_frames d) + 1 < 2 ^ 64"
    and run: "dma_allocate (Some rq) (Some h) d = (status, d')"
  shows "frame_ready (dma_frames d') \<and> identifiers_ok (dma_frames d') \<and>
    (\<forall>q \<in> set (contiguous_records (dma_frames d)). cr_active q \<longrightarrow>
       q \<in> set (contiguous_records (dma_frames d')) \<and> cr_identifier q < next_contiguous_identifier (dma_frames d)) \<and>
    (\<forall>g. g \<noteq> h \<longrightarrow> dm_memory d' g = dm_memory d g) \<and> ds_active (dm_state d') = ds_active (dm_state d) \<and>
    (status \<noteq> DMA_STATUS_OK \<longrightarrow> \<not> da_active (dm_memory d' h) \<and> dm_records d' = dm_records d) \<and>
    (status = DMA_STATUS_OK \<longrightarrow> (\<exists>k a. k < FRAME_CONTIGUOUS_ALLOCATION_CAPACITY \<and> \<not> dr_active (dm_records d ! k) \<and>
       dm_records d' = (dm_records d)[k := new_record h a] \<and>
       fc_identifier a = next_contiguous_identifier (dma_frames d) \<and> da_frames (dm_memory d' h) = a))"
proof -
  obtain frame_status a fs where A:
    "frame_allocate_contiguous (Some (frame_request_of rq)) False (dma_frames d) = (frame_status, a, fs)"
    by (metis prod_cases3)
  obtain rel_status released fs2 where R: "frame_release_contiguous (Some a) fs = (rel_status, released, fs2)"
    by (metis prod_cases3)
  note k = contiguous_runs_kept [OF r id wf nowrap A]
  then have k2: "frame_ready fs2 \<and> identifiers_ok fs2 \<and>
      (\<forall>q \<in> set (contiguous_records (dma_frames d)). cr_active q \<longrightarrow> frame_status = FRAME_STATUS_OK \<longrightarrow>
         q \<in> set (contiguous_records fs2))"
    using contiguous_release_kept [OF _ _ R] by (metis less_irrefl)
  show ?thesis
  proof (cases "ds_active (dm_state d)")
    case False
    then have "status \<noteq> DMA_STATUS_OK" "d' = d\<lparr>dm_memory := (dm_memory d)(h := blank_allocation)\<rparr>"
      using run by (auto simp: dma_allocate_def)
    then show ?thesis using k r id by (simp add: blank_allocation_def)
  next
    case act: True
    show ?thesis
    proof (cases "find_from (\<lambda>index. \<not> dr_active (dm_records d ! index)) 0 FRAME_CONTIGUOUS_ALLOCATION_CAPACITY")
      case None
      then have "status \<noteq> DMA_STATUS_OK" "d' = d\<lparr>dm_memory := (dm_memory d)(h := blank_allocation)\<rparr>"
        using run act by (auto simp: dma_allocate_def)
      then show ?thesis using k r id by (simp add: blank_allocation_def)
    next
      case (Some i)
      note i = find_from_SomeD [OF Some]
      let ?bytes = "mul64 (fc_page_count a) SAPOTE_PAGE_SIZE"
      consider (no) "frame_status \<noteq> FRAME_STATUS_OK"
        | (away) "frame_status = FRAME_STATUS_OK" "\<not> identity_mapped (fc_physical_base a) ?bytes (set_frames fs (dm_paging d))"
        | (ok) "frame_status = FRAME_STATUS_OK" "identity_mapped (fc_physical_base a) ?bytes (set_frames fs (dm_paging d))"
        by blast
      then show ?thesis
      proof cases
        case no
        then have "status \<noteq> DMA_STATUS_OK" "dma_frames d' = fs" "dm_records d' = dm_records d" "dm_state d' = dm_state d"
          "dm_memory d' = (dm_memory d)(h := blank_allocation\<lparr>da_frames := a\<rparr>)"
          using run act Some A by (auto simp: dma_allocate_def frame_request_of_def [symmetric])
        then show ?thesis using k by (simp add: blank_allocation_def)
      next
        case away
        then have "status \<noteq> DMA_STATUS_OK" "dma_frames d' = fs2" "dm_records d' = dm_records d" "dm_state d' = dm_state d"
          "dm_memory d' = (dm_memory d)(h := blank_allocation\<lparr>da_frames := the released, da_byte_length := 0\<rparr>)"
          using run act Some A R by (auto simp: dma_allocate_def Let_def frame_request_of_def [symmetric])
        then show ?thesis using k k2 away(1) by (simp add: blank_allocation_def)
      next
        case ok
        then have "status = DMA_STATUS_OK" "dma_frames d' = fs" "dm_records d' = (dm_records d)[i := new_record h a]"
          "\<forall>g. g \<noteq> h \<longrightarrow> dm_memory d' g = dm_memory d g" "da_frames (dm_memory d' h) = a"
          "ds_active (dm_state d') = ds_active (dm_state d)"
          using run act Some A by (auto simp: dma_allocate_def Let_def frame_request_of_def [symmetric] new_record_def)
        then show ?thesis using k ok(1) i by auto
      qed
    qed
  qed
qed

text \<open>The invariant of one device-owned handle; of the other handles it says only that they are others.\<close>

definition held_for_device :: "dma \<Rightarrow> handle \<Rightarrow> dma_record \<Rightarrow> bool" where
  "held_for_device d h r \<longleftrightarrow>
     length (dm_records d) = FRAME_CONTIGUOUS_ALLOCATION_CAPACITY \<and> frame_ready (dma_frames d) \<and>
     identifiers_ok (dma_frames d) \<and> dm_memory d h = handle_of r \<and> dr_handle r = Some h \<and> dr_active r \<and>
     dr_owner r = DMA_OWNER_DEVICE \<and> dr_initialized r \<and> fc_active (dr_frames r) \<and>
     0 < fc_page_count (dr_frames r) \<and> fc_page_count (dr_frames r) \<le> FRAME_COUNT \<and>
     run_record (dr_frames r) \<in> set (contiguous_records (dma_frames d)) \<and>
     (\<exists>i < FRAME_CONTIGUOUS_ALLOCATION_CAPACITY. dm_records d ! i = r \<and>
        (\<forall>j < FRAME_CONTIGUOUS_ALLOCATION_CAPACITY. j \<noteq> i \<longrightarrow> dr_active (dm_records d ! j) \<longrightarrow>
           dr_handle (dm_records d ! j) \<noteq> Some h \<and>
           fc_identifier (dr_frames (dm_records d ! j)) \<noteq> fc_identifier (dr_frames r)))"

lemma held_for_device_start:
  assumes ok: "dma_ok d" and h: "live_record d h = Some r" and dev: "dr_owner r = DMA_OWNER_DEVICE"
  shows "held_for_device d h r"
proof -
  obtain i where i: "i < FRAME_CONTIGUOUS_ALLOCATION_CAPACITY" "dr_active r" "dr_handle r = Some h" "dm_records d ! i = r"
    using h by (rule live_record_index)
  have rok: "dma_record_ok d r" using dma_ok_nth [OF ok i(1)] i by simp
  have mem: "dm_memory d h = handle_of r" using live_handle(1) [OF ok i(1), of h] i by simp
  have "dr_handle (dm_records d ! j) \<noteq> Some h" "fc_identifier (dr_frames (dm_records d ! j)) \<noteq> fc_identifier (dr_frames r)"
    if "j < FRAME_CONTIGUOUS_ALLOCATION_CAPACITY" "j \<noteq> i" "dr_active (dm_records d ! j)" for j
    using live_handle(2) [OF ok that(1,3), of h] live_handle(2) [OF ok i(1), of h]
      dma_ok_same_identifier [OF ok, of j i] that i by auto
  then show ?thesis using ok rok mem i dev by (auto simp: held_for_device_def dma_ok_def dma_record_ok_def)
qed

lemma held_for_device_facts:
  assumes "held_for_device d h r"
  shows "live_record d h = Some r" "validate_allocation (Some h) d = DMA_STATUS_OK" "dma_is_device_owned (Some h) d"
    "buffer_frames r \<inter> free_set (dma_frames d) = {}"
proof -
  from assms obtain i where i: "i < FRAME_CONTIGUOUS_ALLOCATION_CAPACITY" "dm_records d ! i = r"
      "\<And>j. j < FRAME_CONTIGUOUS_ALLOCATION_CAPACITY \<Longrightarrow> j \<noteq> i \<Longrightarrow> dr_active (dm_records d ! j) \<Longrightarrow>
         dr_handle (dm_records d ! j) \<noteq> Some h \<and>
         fc_identifier (dr_frames (dm_records d ! j)) \<noteq> fc_identifier (dr_frames r)"
    and r: "dr_active r" "dr_handle r = Some h" "dr_owner r = DMA_OWNER_DEVICE" "dr_initialized r" "fc_active (dr_frames r)"
      "0 < fc_page_count (dr_frames r)" "fc_page_count (dr_frames r) \<le> FRAME_COUNT"
      "run_record (dr_frames r) \<in> set (contiguous_records (dma_frames d))" "frame_ready (dma_frames d)"
    and mem: "dm_memory d h = handle_of r"
    unfolding held_for_device_def by blast
  have rf: "record_for (Some h) d = Some i"
    unfolding record_for_def option.case
  proof (rule find_from_eqI)
    fix j assume "j < i"
    then show "\<not> (dr_active (dm_records d ! j) \<and>
        fc_identifier (dr_frames (dm_records d ! j)) = fc_identifier (da_frames (dm_memory d h)))"
      using i(1) i(3) [of j] mem by (auto simp: handle_of_def)
  qed (use i r mem in \<open>simp_all add: handle_of_def\<close>)
  have "find_from (\<lambda>index. dr_active (dm_records d ! index) \<and> dr_handle (dm_records d ! index) = Some h)
      0 FRAME_CONTIGUOUS_ALLOCATION_CAPACITY = Some i"
  proof (rule find_from_eqI)
    fix j assume "j < i"
    then show "\<not> (dr_active (dm_records d ! j) \<and> dr_handle (dm_records d ! j) = Some h)" using i(1) i(3) [of j] by auto
  qed (use i r in simp_all)
  then show "live_record d h = Some r" using i(2) by (simp add: live_record_def)
  have pages: "0 < n \<Longrightarrow> n \<le> FRAME_COUNT \<Longrightarrow> 0 < mul64 n SAPOTE_PAGE_SIZE"
    "n \<le> FRAME_COUNT \<Longrightarrow> \<not> n > UINT64_MAX div SAPOTE_PAGE_SIZE" for n
    by (simp_all add: mul64_def FRAME_COUNT_def SAPOTE_PAGE_SIZE_def SAPOTE_EARLY_PHYSICAL_LIMIT_def)
  show v: "validate_allocation (Some h) d = DMA_STATUS_OK"
    using i r mem rf pages [of "fc_page_count (dr_frames r)"]
    by (auto simp: validate_allocation_def Let_def handle_of_def)
  show "dma_is_device_owned (Some h) d" using v rf i(2) r by (simp add: dma_is_device_owned_def)
  have "buffer_frames r \<subseteq> contiguous_set (dma_frames d)"
    using r(8) by (auto simp: buffer_frames_def contiguous_set_def run_record_def)
  moreover have "contiguous_set (dma_frames d) \<subseteq> allocated_set (dma_frames d)"
    using r(9) by (simp add: frame_ready_def frame_inv_def records_ok_def)
  moreover have "allocated_set (dma_frames d) \<inter> free_set (dma_frames d) = {}" by (auto simp: frame_sets)
  ultimately show "buffer_frames r \<inter> free_set (dma_frames d) = {}" by blast
qed

text \<open>It survives whatever changes only other records and other variables, and frees no run of its own.\<close>

lemma held_for_device_change:
  assumes held: "held_for_device d h r" and mem: "dm_memory d' h = dm_memory d h"
    and len: "length (dm_records d') = length (dm_records d)"
    and fr: "frame_ready (dma_frames d')" "identifiers_ok (dma_frames d')"
      "run_record (dr_frames r) \<in> set (contiguous_records (dma_frames d'))"
    and recs: "\<And>j. j < FRAME_CONTIGUOUS_ALLOCATION_CAPACITY \<Longrightarrow> dm_records d' ! j = dm_records d ! j \<or>
      \<not> (dr_active (dm_records d ! j) \<and> dr_handle (dm_records d ! j) = Some h) \<and>
      (dr_active (dm_records d' ! j) \<longrightarrow> dr_handle (dm_records d' ! j) \<noteq> Some h \<and>
         fc_identifier (dr_frames (dm_records d' ! j)) \<noteq> fc_identifier (dr_frames r))"
  shows "held_for_device d' h r"
proof -
  from held obtain i where i: "i < FRAME_CONTIGUOUS_ALLOCATION_CAPACITY" "dm_records d ! i = r"
      "\<And>j. j < FRAME_CONTIGUOUS_ALLOCATION_CAPACITY \<Longrightarrow> j \<noteq> i \<Longrightarrow> dr_active (dm_records d ! j) \<Longrightarrow>
         dr_handle (dm_records d ! j) \<noteq> Some h \<and>
         fc_identifier (dr_frames (dm_records d ! j)) \<noteq> fc_identifier (dr_frames r)"
    and r: "dr_active r" "dr_handle r = Some h"
    unfolding held_for_device_def by blast
  have "dm_records d' ! i = r" using recs [OF i(1)] i(2) r by auto
  moreover have "dr_handle (dm_records d' ! j) \<noteq> Some h \<and>
      fc_identifier (dr_frames (dm_records d' ! j)) \<noteq> fc_identifier (dr_frames r)"
    if "j < FRAME_CONTIGUOUS_ALLOCATION_CAPACITY" "j \<noteq> i" "dr_active (dm_records d' ! j)" for j
    using recs [OF that(1)] i(3) [OF that(1,2)] that(3) by auto
  ultimately have "\<exists>i < FRAME_CONTIGUOUS_ALLOCATION_CAPACITY. dm_records d' ! i = r \<and>
      (\<forall>j < FRAME_CONTIGUOUS_ALLOCATION_CAPACITY. j \<noteq> i \<longrightarrow> dr_active (dm_records d' ! j) \<longrightarrow>
         dr_handle (dm_records d' ! j) \<noteq> Some h \<and>
         fc_identifier (dr_frames (dm_records d' ! j)) \<noteq> fc_identifier (dr_frames r))"
    using i(1) by blast
  then show ?thesis using held mem len fr unfolding held_for_device_def by simp
qed

text \<open>A call the kernel accepts acts on a record of its own handle.\<close>

lemma validated_record:
  assumes "validate_allocation (Some g) d = DMA_STATUS_OK"
  obtains j where "record_for (Some g) d = Some j" "j < FRAME_CONTIGUOUS_ALLOCATION_CAPACITY"
    "dr_active (dm_records d ! j)" "dr_handle (dm_records d ! j) = Some g"
    "fc_identifier (dr_frames (dm_records d ! j)) = fc_identifier (da_frames (dm_memory d g))"
proof -
  from assms obtain j where j: "record_for (Some g) d = Some j" "dr_handle (dm_records d ! j) = Some g"
    by (auto simp: validate_allocation_def Let_def split: if_splits option.splits)
  from j(1) have "find_from (\<lambda>index. dr_active (dm_records d ! index) \<and>
      fc_identifier (dr_frames (dm_records d ! index)) = fc_identifier (da_frames (dm_memory d g)))
      0 FRAME_CONTIGUOUS_ALLOCATION_CAPACITY = Some j" by (simp add: record_for_def)
  with find_from_SomeD [OF this] j that show thesis by blast
qed

lemma held_for_device_write_both:
  assumes held: "held_for_device d h r" and v: "validate_allocation (Some g) d = DMA_STATUS_OK" "record_for (Some g) d = Some j"
    and ne: "g \<noteq> h"
    and k: "dr_handle (k (dm_records d ! j)) = dr_handle (dm_records d ! j)"
      "dr_frames (k (dm_records d ! j)) = dr_frames (dm_records d ! j)"
  shows "held_for_device (write_both g j f k (d\<lparr>dm_state := st\<rparr>)) h r"
proof (rule held_for_device_change [OF held])
  obtain j' where "record_for (Some g) d = Some j'" "j' < FRAME_CONTIGUOUS_ALLOCATION_CAPACITY"
    "dr_active (dm_records d ! j')" "dr_handle (dm_records d ! j') = Some g"
    using v(1) by (rule validated_record)
  with v(2) have j: "j < FRAME_CONTIGUOUS_ALLOCATION_CAPACITY" "dr_active (dm_records d ! j)" "dr_handle (dm_records d ! j) = Some g"
    by simp_all
  have id: "fc_identifier (dr_frames (dm_records d ! j)) \<noteq> fc_identifier (dr_frames r)"
    using held j ne unfolding held_for_device_def by (metis option.inject)
  fix l assume "l < FRAME_CONTIGUOUS_ALLOCATION_CAPACITY"
  then show "dm_records (write_both g j f k (d\<lparr>dm_state := st\<rparr>)) ! l = dm_records d ! l \<or>
      \<not> (dr_active (dm_records d ! l) \<and> dr_handle (dm_records d ! l) = Some h) \<and>
      (dr_active (dm_records (write_both g j f k (d\<lparr>dm_state := st\<rparr>)) ! l) \<longrightarrow>
         dr_handle (dm_records (write_both g j f k (d\<lparr>dm_state := st\<rparr>)) ! l) \<noteq> Some h \<and>
         fc_identifier (dr_frames (dm_records (write_both g j f k (d\<lparr>dm_state := st\<rparr>)) ! l)) \<noteq> fc_identifier (dr_frames r))"
    using held j ne k id by (cases "l = j") (auto simp: write_both_def held_for_device_def)
qed (use held ne in \<open>simp_all add: write_both_def held_for_device_def\<close>)

lemma held_for_device_owner:
  "held_for_device d h r \<Longrightarrow> da_owner (dm_memory d h) = DMA_OWNER_DEVICE"
  by (simp add: held_for_device_def handle_of_def)

lemma held_for_device_release:
  assumes held: "held_for_device d h r" and run: "dma_release (Some g) d = (status, d')"
  shows "held_for_device d' h r"
proof (cases "d' = d")
  case False
  then have v: "validate_allocation (Some g) d = DMA_STATUS_OK" and own: "da_owner (dm_memory d g) = DMA_OWNER_CPU"
    using run by (auto simp: dma_release_def Let_def split: if_splits)
  have ne: "g \<noteq> h" using own held_for_device_owner [OF held] by auto
  obtain j where j: "record_for (Some g) d = Some j" "j < FRAME_CONTIGUOUS_ALLOCATION_CAPACITY"
    "dr_active (dm_records d ! j)" "dr_handle (dm_records d ! j) = Some g"
    "fc_identifier (dr_frames (dm_records d ! j)) = fc_identifier (da_frames (dm_memory d g))"
    using v by (rule validated_record)
  have id: "fc_identifier (da_frames (dm_memory d g)) \<noteq> fc_identifier (dr_frames r)"
    using held j ne unfolding held_for_device_def by (metis option.inject)
  have fr: "frame_ready (dma_frames d)" "identifiers_ok (dma_frames d)"
    "run_record (dr_frames r) \<in> set (contiguous_records (dma_frames d))"
    "length (dm_records d) = FRAME_CONTIGUOUS_ALLOCATION_CAPACITY"
    using held unfolding held_for_device_def by blast+
  obtain st released fs where R:
    "frame_release_contiguous (Some (da_frames (dm_memory d g))) (dma_frames d) = (st, released, fs)"
    by (metis prod_cases3)
  note k = contiguous_release_kept [OF fr(1,2) R]
  have kept: "run_record (dr_frames r) \<in> set (contiguous_records fs)"
    using k fr(3) id by (auto simp: run_record_def)
  let ?q = "(dm_records d ! j)\<lparr>dr_handle := None, dr_frames := (dr_frames (dm_records d ! j))\<lparr>fc_active := False\<rparr>,
    dr_owner := DMA_OWNER_NONE, dr_initialized := False, dr_active := False\<rparr>"
  have d': "dma_frames d' = fs" "\<forall>x. x \<noteq> g \<longrightarrow> dm_memory d' x = dm_memory d x"
    "dm_records d' = dm_records d \<or> dm_records d' = (dm_records d)[j := ?q]"
    using run R j(1) v own False
    by (auto simp: dma_release_def Let_def write_both_def split: if_splits)
  show ?thesis
  proof (rule held_for_device_change [OF held])
    fix l assume "l < FRAME_CONTIGUOUS_ALLOCATION_CAPACITY"
    then show "dm_records d' ! l = dm_records d ! l \<or>
      \<not> (dr_active (dm_records d ! l) \<and> dr_handle (dm_records d ! l) = Some h) \<and>
      (dr_active (dm_records d' ! l) \<longrightarrow> dr_handle (dm_records d' ! l) \<noteq> Some h \<and>
         fc_identifier (dr_frames (dm_records d' ! l)) \<noteq> fc_identifier (dr_frames r))"
      using d'(3) j ne fr(4) by (cases "l = j") auto
  qed (use d' k kept ne in auto)
qed (use held in simp)

lemma held_for_device_step:
  assumes step: "dma_step d e d'" and held: "held_for_device d h r"
    and nowrap: "next_contiguous_identifier (dma_frames d) + 1 < 2 ^ 64"
    and e: "e \<noteq> Dma_To_Cpu h" "e \<noteq> Dma_Reallocate h" "e \<noteq> Dma_Overwrite h"
  shows "held_for_device d' h r"
proof -
  have live: "live_record d h \<noteq> None" using held_for_device_facts(1) [OF held] by simp
  have fr: "frame_ready (dma_frames d)" "identifiers_ok (dma_frames d)"
    "run_record (dr_frames r) \<in> set (contiguous_records (dma_frames d))"
    "length (dm_records d) = FRAME_CONTIGUOUS_ALLOCATION_CAPACITY"
    using held unfolding held_for_device_def by blast+
  have own: "da_owner (dm_memory d h) = DMA_OWNER_DEVICE" by (rule held_for_device_owner [OF held])
  note both = held_for_device_write_both [OF held]
  show ?thesis
    using step
  proof cases
    case (step_allocate rq g status)
    have ne: "g \<noteq> h" using e(2) live step_allocate(1) by (auto simp: allocate_event_def)
    note a = dma_allocate_effect [OF fr(1,2) step_allocate(3) nowrap step_allocate(2)]
    have run: "run_record (dr_frames r) \<in> set (contiguous_records (dma_frames d'))"
      "fc_identifier (dr_frames r) < next_contiguous_identifier (dma_frames d)"
      using a fr(3) by (auto simp: run_record_def)
    have recs: "dm_records d' = dm_records d \<or> (\<exists>k a. \<not> dr_active (dm_records d ! k) \<and>
        dm_records d' = (dm_records d)[k := new_record g a] \<and> fc_identifier a \<noteq> fc_identifier (dr_frames r))"
      using a run(2) by (cases "status = DMA_STATUS_OK") fastforce+
    show ?thesis
    proof (rule held_for_device_change [OF held])
      fix l assume l: "l < FRAME_CONTIGUOUS_ALLOCATION_CAPACITY"
      from recs show "dm_records d' ! l = dm_records d ! l \<or>
        \<not> (dr_active (dm_records d ! l) \<and> dr_handle (dm_records d ! l) = Some h) \<and>
        (dr_active (dm_records d' ! l) \<longrightarrow> dr_handle (dm_records d' ! l) \<noteq> Some h \<and>
           fc_identifier (dr_frames (dm_records d' ! l)) \<noteq> fc_identifier (dr_frames r))"
      proof (elim disjE exE conjE)
        fix k a
        assume k: "\<not> dr_active (dm_records d ! k)" "dm_records d' = (dm_records d)[k := new_record g a]"
          "fc_identifier a \<noteq> fc_identifier (dr_frames r)"
        show "dm_records d' ! l = dm_records d ! l \<or>
          \<not> (dr_active (dm_records d ! l) \<and> dr_handle (dm_records d ! l) = Some h) \<and>
          (dr_active (dm_records d' ! l) \<longrightarrow> dr_handle (dm_records d' ! l) \<noteq> Some h \<and>
             fc_identifier (dr_frames (dm_records d' ! l)) \<noteq> fc_identifier (dr_frames r))"
        proof (cases "l = k")
          case True
          then have "dm_records d' ! l = new_record g a" using k(2) l fr(4) by simp
          then show ?thesis using k(1,3) True ne by (simp add: new_record_def)
        qed (use k(2) in simp)
      qed simp
    next
      show "length (dm_records d') = length (dm_records d)" using recs by auto
    qed (use a run ne in auto)
  next
    case (step_mark g status)
    show ?thesis
    proof (cases "d' = d")
      case False
      have ne: "g \<noteq> h" using False step_mark(2) own by (auto simp: dma_mark_initialized_def Let_def split: if_splits)
      from False obtain j where "validate_allocation (Some g) d = DMA_STATUS_OK" "record_for (Some g) d = Some j"
        "d' = write_both g j (da_initialized_update (\<lambda>_. True)) (dr_initialized_update (\<lambda>_. True)) d"
        using step_mark(2) by (auto simp: dma_mark_initialized_def Let_def split: if_splits option.splits)
      with ne show ?thesis using both [of g j "dr_initialized_update (\<lambda>_. True)" _ "dm_state d"] by simp
    qed (use held in simp)
  next
    case (step_to_device g status)
    show ?thesis
    proof (cases "d' = d")
      case False
      have ne: "g \<noteq> h" using False step_to_device(2) own by (auto simp: dma_transfer_to_device_def Let_def split: if_splits)
      from False obtain j st where "validate_allocation (Some g) d = DMA_STATUS_OK" "record_for (Some g) d = Some j"
        "d' = write_both g j (da_owner_update (\<lambda>_. DMA_OWNER_DEVICE)) (dr_owner_update (\<lambda>_. DMA_OWNER_DEVICE)) (d\<lparr>dm_state := st\<rparr>)"
        using step_to_device(2) by (auto simp: dma_transfer_to_device_def Let_def split: if_splits option.splits)
      with ne show ?thesis using both [of g j "dr_owner_update (\<lambda>_. DMA_OWNER_DEVICE)"] by simp
    qed (use held in simp)
  next
    case (step_to_cpu g status)
    show ?thesis
    proof (cases "d' = d")
      case False
      have ne: "g \<noteq> h" using False step_to_cpu e(1) by (auto simp: dma_transfer_to_cpu_def Let_def split: if_splits)
      from False obtain j st where "validate_allocation (Some g) d = DMA_STATUS_OK" "record_for (Some g) d = Some j"
        "d' = write_both g j (da_owner_update (\<lambda>_. DMA_OWNER_CPU)) (dr_owner_update (\<lambda>_. DMA_OWNER_CPU)) (d\<lparr>dm_state := st\<rparr>)"
        using step_to_cpu by (auto simp: dma_transfer_to_cpu_def Let_def split: if_splits option.splits)
      with ne show ?thesis using both [of g j "dr_owner_update (\<lambda>_. DMA_OWNER_CPU)"] by simp
    qed (use held in simp)
  next
    case (step_release g status)
    then show ?thesis using held_for_device_release [OF held] by blast
  next
    case (step_write g v)
    have "g \<noteq> h" using e(3) live step_write(1) by (auto simp: write_event_def)
    then show ?thesis unfolding step_write using fr by (intro held_for_device_change [OF held]) auto
  next
    case (step_other p)
    have "identifiers_ok (dma_frames d')"
      using fr(2) step_other by (simp add: identifiers_ok_def dma_frames_def)
    moreover have "frame_ready (dma_frames d')"
      using step_other(2,3) by (simp add: paging_ok_def space_ok_def dma_frames_def)
    ultimately show ?thesis using fr(3) step_other by (intro held_for_device_change [OF held]) (auto simp: dma_frames_def)
  qed
qed

lemma held_for_device_path:
  "dma_path d es d' \<Longrightarrow> held_for_device d h r \<Longrightarrow> next_contiguous_identifier (dma_frames d) + length es < 2 ^ 64 \<Longrightarrow>
     Dma_To_Cpu h \<notin> set es \<Longrightarrow> Dma_Reallocate h \<notin> set es \<Longrightarrow> Dma_Overwrite h \<notin> set es \<Longrightarrow> held_for_device d' h r"
proof (induction rule: dma_path.induct)
  case (path_step d e d1 es d2)
  have "held_for_device d1 h r"
    using held_for_device_step [OF path_step.hyps(1) path_step.prems(1)] path_step.prems by auto
  moreover have "next_contiguous_identifier (dma_frames d1) + length es < 2 ^ 64"
    using dma_step_next [OF path_step.hyps(1)] path_step.prems(2) by simp
  ultimately show ?case using path_step by simp
qed

lemma live_buffer_held:
  assumes ok: "dma_ok d" and h: "live_record d h = Some r"
  shows "buffer_frames r \<noteq> {}" "buffer_frames r \<inter> free_set (dma_frames d) = {}"
proof -
  have "contiguous_set (dma_frames d) \<subseteq> allocated_set (dma_frames d)"
    using ok by (simp add: dma_ok_def frame_ready_def frame_inv_def records_ok_def)
  moreover have "allocated_set (dma_frames d) \<inter> free_set (dma_frames d) = {}" by (auto simp: frame_sets)
  ultimately show "buffer_frames r \<noteq> {}" "buffer_frames r \<inter> free_set (dma_frames d) = {}"
    using buffer_in_run [OF ok h] by blast+
qed

lemma live_buffer_no_table:
  assumes ok: "dma_ok d" and p: "paging_ok (dm_paging d)" and h: "live_record d h = Some r"
  shows "buffer_frames r \<inter> table_frames (dm_paging d) = {}"
  using tables_outside_runs [OF p] buffer_in_run(1) [OF ok h] by (auto simp: dma_frames_def)

section \<open>The contract of the calls on a handle\<close>

text \<open>
  The abstract state maps live handle variables to what the kernel holds of them; a call
  changes that map or refuses.  \<open>claims\<close> says whether the variable claims to be active,
  which decides the reason a release of a handle that is not live is refused with.
\<close>

datatype dma_call = Mark_Initialized | Transfer_To_Device | Transfer_To_Cpu | Release

fun dma_call_run :: "dma_call \<Rightarrow> handle \<Rightarrow> dma \<Rightarrow> dma_status \<times> dma" where
  "dma_call_run Mark_Initialized h d = dma_mark_initialized (Some h) d"
| "dma_call_run Transfer_To_Device h d = dma_transfer_to_device (Some h) d"
| "dma_call_run Transfer_To_Cpu h d = dma_transfer_to_cpu (Some h) d"
| "dma_call_run Release h d = dma_release (Some h) d"

fun dma_call_spec ::
  "dma_call \<Rightarrow> handle \<Rightarrow> bool \<Rightarrow> (handle \<Rightarrow> dma_record option) \<Rightarrow> dma_status \<times> (handle \<Rightarrow> dma_record option)" where
  "dma_call_spec call h claims live =
     (case live h of
        None \<Rightarrow> (if call = Release \<and> \<not> claims then DMA_STATUS_DOUBLE_FREE else DMA_STATUS_BAD_ALLOCATION, live)
      | Some r \<Rightarrow>
          if call = Transfer_To_Cpu then
            if dr_owner r = DMA_OWNER_DEVICE then (DMA_STATUS_OK, live(h \<mapsto> r\<lparr>dr_owner := DMA_OWNER_CPU\<rparr>))
            else (DMA_STATUS_WRONG_OWNER, live)
          else if dr_owner r = DMA_OWNER_DEVICE then (DMA_STATUS_WRONG_OWNER, live)
          else case call of
            Mark_Initialized \<Rightarrow> (DMA_STATUS_OK, live(h \<mapsto> r\<lparr>dr_initialized := True\<rparr>))
          | Transfer_To_Device \<Rightarrow>
              if dr_initialized r then (DMA_STATUS_OK, live(h \<mapsto> r\<lparr>dr_owner := DMA_OWNER_DEVICE\<rparr>))
              else (DMA_STATUS_NOT_PREPARED, live)
          | _ \<Rightarrow> (DMA_STATUS_OK, live(h := None)))"

lemma live_owner:
  assumes "dma_ok d" "live_record d h = Some r"
  shows "dr_owner r = DMA_OWNER_CPU \<or> dr_owner r = DMA_OWNER_DEVICE \<and> dr_initialized r"
proof -
  obtain i where "i < FRAME_CONTIGUOUS_ALLOCATION_CAPACITY" "dr_active r" "dm_records d ! i = r"
    using assms(2) by (rule live_record_index)
  then show ?thesis using dma_ok_nth [OF assms(1)] by (auto simp: dma_record_ok_def)
qed

lemma dma_calls_refine:
  assumes ok: "dma_ok d" and run: "dma_call_run call h d = (status, d')"
  shows "(status, live_record d') = dma_call_spec call h (da_active (dm_memory d h)) (live_record d) \<and> dma_ok d' \<and>
    (if call = Release \<and> status = DMA_STATUS_OK
     then free_set (dma_frames d') = free_set (dma_frames d) \<union> buffer_frames (the (live_record d h))
     else dm_paging d' = dm_paging d)"
proof (cases call)
  case Mark_Initialized
  then show ?thesis
    using dma_mark_initialized_cases [OF ok, of h status d'] run live_owner [OF ok, of h]
    by (cases "live_record d h") fastforce+
next
  case Transfer_To_Device
  then show ?thesis
    using dma_transfer_to_device_cases [OF ok, of h status d'] run live_owner [OF ok, of h]
    by (cases "live_record d h") (fastforce simp: to_device_status_def)+
next
  case Transfer_To_Cpu
  then show ?thesis
    using dma_transfer_to_cpu_cases [OF ok, of h status d'] run
    by (cases "live_record d h") (auto simp: to_cpu_status_def)
next
  case Release
  then have R: "dma_release (Some h) d = (status, d')" using run by simp
  show ?thesis
  proof (cases "live_record d h")
    case None
    then show ?thesis using dma_release_cases [OF ok R] Release ok by auto
  next
    case (Some r)
    then show ?thesis using dma_release_cases [OF ok R] Release ok
      by (cases "dr_owner r = DMA_OWNER_DEVICE") (auto simp: buffer_frames_def)
  qed
qed

lemma sample_dma_ok:
  "dma_ok sample_dma" "live_record sample_dma h = None" "dma_frames sample_dma = sample_allocator"
  "next_contiguous_identifier (dma_frames sample_dma) + 1 < 2 ^ 64"
  "request_wf (frame_request_of sample_dma_request)"
proof -
  show fr: "dma_frames sample_dma = sample_allocator"
    by (simp add: dma_frames_def sample_dma_def identity_paging_def sample_paging_def blank_space_def Let_def)
  show "next_contiguous_identifier (dma_frames sample_dma) + 1 < 2 ^ 64"
    unfolding fr by (simp add: sample_allocator_def)
  show "request_wf (frame_request_of sample_dma_request)"
    by (simp add: request_wf_def frame_request_of_def sample_dma_request_def)
  show "live_record sample_dma h = None"
    by (simp add: live_record_def sample_dma_def find_from_None_iff)
  show "dma_ok sample_dma"
    using sample_ready fr by (simp add: dma_ok_def sample_dma_def count_if_def)
qed

text \<open>The allocation the small machine serves.\<close>

lemma sample_dma_allocates:
  obtains d where "dma_allocate (Some sample_dma_request) (Some 7) sample_dma = (DMA_STATUS_OK, d)"
proof -
  have rq: "frame_request_of sample_dma_request = sample_request"
    by (simp add: frame_request_of_def sample_dma_request_def sample_request_def)
  have fits: "fitting_runs sample_request sample_allocator \<noteq> {}" using sample_request_ok(3) by blast
  have slot: "\<exists>i < FRAME_CONTIGUOUS_ALLOCATION_CAPACITY. \<not> cr_active (contiguous_records sample_allocator ! i)"
    by (intro exI [of _ 0]) (simp add: sample_allocator_def empty_record_def FRAME_CONTIGUOUS_ALLOCATION_CAPACITY_def)
  have inv: "frame_inv sample_allocator" "allocator_initialized sample_allocator"
    using sample_ready(1) by (simp_all add: frame_ready_def)
  obtain first fs where A: "frame_allocate_contiguous (Some sample_request) False sample_allocator = (FRAME_STATUS_OK,
       \<lparr>fc_physical_base = first * 4096, fc_page_count = rq_page_count sample_request,
        fc_alignment = rq_alignment sample_request,
        fc_maximum_physical_address = rq_maximum_physical_address sample_request,
        fc_identifier = next_contiguous_identifier sample_allocator, fc_active = True\<rparr>, fs)"
    "first \<in> fitting_runs sample_request sample_allocator"
    "\<forall>g \<in> fitting_runs sample_request sample_allocator. first \<le> g"
    by (rule frame_allocate_contiguous_some [OF inv sample_request_ok(1,2) slot fits]) blast
  have "first = 256"
  proof (rule antisym)
    show "first \<le> 256" using A(3) sample_request_ok(3) by blast
    have "{first..<first + rq_page_count sample_request} \<subseteq> free_set sample_allocator"
      using A(2) by (simp add: fitting_runs_def)
    then have "first \<in> {256..<264}" by (auto simp: sample_sets sample_request_def)
    then show "256 \<le> first" by simp
  qed
  note A = A(1) [unfolded this]
  have "add64 0x100000 8192 = 0x102000" "sub64 0x102000 1 = 0x101FFF" by (simp_all add: add64_def sub64_def)
  then have mapped: "identity_mapped 0x100000 8192 (set_frames fs identity_paging)"
    by (simp add: identity_mapped_def identity_translates PAGING_WRITE_def)
  have bytes: "mul64 2 SAPOTE_PAGE_SIZE = 8192" by (simp add: mul64_def SAPOTE_PAGE_SIZE_def)
  have slot: "find_from (\<lambda>index. \<not> dr_active (dm_records sample_dma ! index)) 0 FRAME_CONTIGUOUS_ALLOCATION_CAPACITY = Some 0"
    by (rule find_from_eqI) (simp_all add: sample_dma_def FRAME_CONTIGUOUS_ALLOCATION_CAPACITY_def)
  have pages: "rq_page_count sample_request = 2" by (simp add: sample_request_def)
  have act: "ds_active (dm_state sample_dma)" "dm_paging sample_dma = identity_paging" by (simp_all add: sample_dma_def)
  have "fst (dma_allocate (Some sample_dma_request) (Some 7) sample_dma) = DMA_STATUS_OK"
    using A mapped slot act rq sample_dma_ok(3)
    by (simp add: dma_allocate_def frame_request_of_def [symmetric] pages bytes)
  then show thesis using that by (metis prod.collapse)
qed

section \<open>Properties\<close>

text \<open>
  C25. A successful \<open>dma_allocate\<close> takes exactly one aligned run of free frames below the
  requested address, mapped to itself at both ends as writable write-back memory, and makes
  the handle live with the processor as its owner; every refusal, after whatever it tried,
  leaves the frames and the other handles as they were.
\<close>

theorem dma_allocate_correct:
  assumes "dma_ok d" and "live_record d h = None" and "request_wf (frame_request_of rq)"
    and "next_contiguous_identifier (dma_frames d) + 1 < 2 ^ 64"
    and "dma_allocate (Some rq) (Some h) d = (status, d')"
  shows "dma_ok d' \<and>
    (if status = DMA_STATUS_OK
     then \<exists>r. live_record d' = (live_record d)(h \<mapsto> r) \<and> dr_owner r = DMA_OWNER_CPU \<and> \<not> dr_initialized r \<and>
       dq_alignment rq dvd fc_physical_base (dr_frames r) \<and>
       fc_physical_base (dr_frames r) + dq_page_count rq * 4096 - 1 \<le> dq_maximum_physical_address rq \<and>
       buffer_frames r = {fc_physical_base (dr_frames r) div 4096..<
         fc_physical_base (dr_frames r) div 4096 + dq_page_count rq} \<and>
       buffer_frames r \<subseteq> free_set (dma_frames d) \<and>
       free_set (dma_frames d') = free_set (dma_frames d) - buffer_frames r \<and>
       identity_mapped (fc_physical_base (dr_frames r)) (dq_page_count rq * 4096) (dm_paging d')
     else (status = DMA_STATUS_FRAME_ALLOCATION_FAILURE \<or> status = DMA_STATUS_NOT_IDENTITY_MAPPED) \<and>
       live_record d' = live_record d \<and> free_set (dma_frames d') = free_set (dma_frames d))"
  using dma_allocate_cases [OF assms] by (cases "status = DMA_STATUS_OK") auto

theorem dma_allocate_correct_witness:
  "\<exists>d r. dma_allocate (Some sample_dma_request) (Some 7) sample_dma = (DMA_STATUS_OK, d) \<and>
     live_record d 7 = Some r \<and> dr_owner r = DMA_OWNER_CPU \<and> buffer_frames r \<subseteq> {256..<264}"
proof -
  obtain d where A: "dma_allocate (Some sample_dma_request) (Some 7) sample_dma = (DMA_STATUS_OK, d)"
    by (rule sample_dma_allocates)
  obtain r where "live_record d = (live_record sample_dma)(7 \<mapsto> r)" "dr_owner r = DMA_OWNER_CPU"
    "buffer_frames r \<subseteq> free_set (dma_frames sample_dma)"
    using dma_allocate_correct [OF sample_dma_ok(1) sample_dma_ok(2) sample_dma_ok(5,4) A] by auto
  then show ?thesis
    using A sample_sets(2) unfolding sample_dma_ok(3) by (intro exI [of _ d] exI [of _ r]) simp
qed

text \<open>
  C26. The calls on a handle refine the ownership map: a buffer goes to a device only after it
  was marked initialized and only from the processor, comes back only from the device, and is
  released only by the processor, which is when its frames become free.  A variable that is
  not live is refused whatever it holds, so a copy of a live handle has no authority.
\<close>

theorem dma_calls_refine_ownership:
  assumes "dma_ok d" and "dma_call_run call h d = (status, d')"
  shows "(status, live_record d') = dma_call_spec call h (da_active (dm_memory d h)) (live_record d) \<and> dma_ok d' \<and>
    (if call = Release \<and> status = DMA_STATUS_OK
     then free_set (dma_frames d') = free_set (dma_frames d) \<union> buffer_frames (the (live_record d h))
     else dm_paging d' = dm_paging d)"
  by (rule dma_calls_refine [OF assms])

text \<open>A handle copied to another variable.\<close>

definition forge :: "handle \<Rightarrow> handle \<Rightarrow> dma \<Rightarrow> dma" where
  "forge g h d = d\<lparr>dm_memory := (dm_memory d)(g := dm_memory d h)\<rparr>"

theorem dma_calls_refine_ownership_witness:
  "\<exists>d. dma_allocate (Some sample_dma_request) (Some 7) sample_dma = (DMA_STATUS_OK, d) \<and>
     fst (dma_call_run Transfer_To_Device 7 d) = DMA_STATUS_NOT_PREPARED \<and>
     fst (dma_call_run Transfer_To_Cpu 7 d) = DMA_STATUS_WRONG_OWNER \<and>
     fst (dma_call_run Release 7 d) = DMA_STATUS_OK \<and>
     fst (dma_call_run Release 8 (forge 8 7 d)) = DMA_STATUS_BAD_ALLOCATION"
proof -
  obtain d where A: "dma_allocate (Some sample_dma_request) (Some 7) sample_dma = (DMA_STATUS_OK, d)"
    by (rule sample_dma_allocates)
  obtain r where ok: "dma_ok d" and r: "live_record d = (live_record sample_dma)(7 \<mapsto> r)" "dr_owner r = DMA_OWNER_CPU"
    "\<not> dr_initialized r"
    using dma_allocate_cases [OF sample_dma_ok(1) sample_dma_ok(2) sample_dma_ok(5,4) A] by auto
  have live: "live_record d 7 = Some r" "live_record d 8 = None" using r(1) sample_dma_ok(2) by simp_all
  have ok8: "dma_ok (forge 8 7 d)" and live8: "live_record (forge 8 7 d) 8 = None"
    using dma_ok_write_memory [OF ok live(2)] live(2) by (simp_all add: forge_def)
  obtain i where i: "i < FRAME_CONTIGUOUS_ALLOCATION_CAPACITY" "dr_active r" "dr_handle r = Some 7" "dm_records d ! i = r"
    using live(1) by (rule live_record_index)
  have "dm_memory d 7 = handle_of r" using live_handle(1) [OF ok i(1), of 7] i by simp
  then have claims: "da_active (dm_memory (forge 8 7 d) 8)" by (simp add: handle_of_def forge_def)
  have run: "dma_call_run call h e = (fst (dma_call_run call h e), snd (dma_call_run call h e))" for call h e by simp
  note spec = dma_calls_refine_ownership [OF ok run]
  have "fst (dma_call_run Transfer_To_Device 7 d) = DMA_STATUS_NOT_PREPARED"
    using spec [of Transfer_To_Device 7] live r by simp
  moreover have "fst (dma_call_run Transfer_To_Cpu 7 d) = DMA_STATUS_WRONG_OWNER"
    using spec [of Transfer_To_Cpu 7] live r by simp
  moreover have "fst (dma_call_run Release 7 d) = DMA_STATUS_OK"
    using spec [of Release 7] live r by simp
  moreover have "fst (dma_call_run Release 8 (forge 8 7 d)) = DMA_STATUS_BAD_ALLOCATION"
    using dma_calls_refine_ownership [OF ok8 run, of Release 8] live8 claims by simp
  ultimately show ?thesis using A by blast
qed

text \<open>
  C27. From initialization on, whatever sequence of calls, writes to variables and paging work
  follows, as long as no variable is passed to \<open>dma_allocate\<close> or written by its owner while it
  is a live handle and the 64-bit identifiers of the runs are not exhausted: \<open>dma_verify\<close> accepts
  the state, no live buffer contains a free frame or a page table of the kernel, and two live
  buffers share no frame.  The code guards neither condition.
\<close>

theorem dma_path_verified:
  assumes "\<not> ds_active (dm_state d0)" and "length (dm_records d0) = FRAME_CONTIGUOUS_ALLOCATION_CAPACITY"
    and "paging_ok (dm_paging d0)" and "identifiers_ok (dma_frames d0)"
    and "dma_initialize d0 = (status, d)" and "dma_path d es d'"
    and "\<forall>g. Dma_Reallocate g \<notin> set es \<and> Dma_Overwrite g \<notin> set es"
    and "next_contiguous_identifier (dma_frames d0) + length es < 2 ^ 64"
  shows "dma_verify d' = DMA_STATUS_OK \<and>
    (live_record d' h = Some r \<longrightarrow>
       buffer_frames r \<noteq> {} \<and> buffer_frames r \<inter> free_set (dma_frames d') = {} \<and>
       buffer_frames r \<inter> table_frames (dm_paging d') = {} \<and>
       (live_record d' h' = Some r' \<and> h \<noteq> h' \<longrightarrow> buffer_frames r \<inter> buffer_frames r' = {}))"
proof -
  have ready: "frame_ready (dma_frames d0)" using assms(3) by (simp add: paging_ok_def space_ok_def dma_frames_def)
  note init = dma_initialize_ok [OF assms(1,2) ready assms(4,5)]
  have n: "next_contiguous_identifier (dma_frames d) + length es < 2 ^ 64" using assms(8) init(3) by (simp add: dma_frames_def)
  from dma_path_ok [OF assms(6) init(2) n assms(7)] assms(3) init(3)
  have ok: "dma_ok d'" and p: "paging_ok (dm_paging d')" by simp_all
  show ?thesis
    using dma_verify_ok [OF ok] live_buffer_held [OF ok] live_buffer_no_table [OF ok p] buffers_apart [OF ok]
    by blast
qed

lemma frame_allocate_identifiers:
  "frame_allocate null s = (status, a, s') \<Longrightarrow> identifiers_ok s \<Longrightarrow> identifiers_ok s'"
  by (auto simp: frame_allocate_def identifiers_ok_def Let_def split: if_splits option.splits)

theorem dma_path_verified_witness:
  "\<exists>d0 d d'. dma_initialize d0 = (DMA_STATUS_OK, d) \<and>
     dma_path d [Dma_Allocate 7, Dma_To_Device 7, Dma_Write 9] d' \<and> dma_verify d' = DMA_STATUS_OK"
proof -
  obtain f fs where f: "frame_allocate False sample_allocator = (FRAME_STATUS_OK, Some (f * 4096), fs)"
    "f \<in> free_set sample_allocator" "single_set fs = insert f (single_set sample_allocator)" "frame_ready fs"
    using frame_allocate_some [of sample_allocator] sample_ready(1) by (auto simp: frame_ready_def sample_sets)
  have id: "identifiers_ok fs" by (rule frame_allocate_identifiers [OF f(1) sample_ready(2)])
  have next1: "next_contiguous_identifier fs = 1"
    using f(1) by (auto simp: frame_allocate_def Let_def sample_allocator_def split: if_splits option.splits)
  have space: "space_ok (blank_space (f * 4096) fs)" using blank_space_ok [of fs f] f(2,3,4) by (simp add: sample_sets)
  define d0 where "d0 = sample_dma\<lparr>dm_state := \<lparr>ds_active_allocations = 0, ds_cpu_owned_allocations = 0,
      ds_device_owned_allocations = 0, ds_active = False\<rparr>, dm_paging := sample_paging (f * 4096) fs\<rparr>"
  have fr: "dma_frames d0 = fs" by (simp add: dma_frames_def d0_def sample_paging_def blank_space_def)
  have start: "\<not> ds_active (dm_state d0)" "length (dm_records d0) = FRAME_CONTIGUOUS_ALLOCATION_CAPACITY"
    "paging_ok (dm_paging d0)"
    using sample_paging_ok(1) [OF space] by (simp_all add: d0_def sample_dma_def)
  have start: "\<not> ds_active (dm_state d0)" "length (dm_records d0) = FRAME_CONTIGUOUS_ALLOCATION_CAPACITY"
    "paging_ok (dm_paging d0)" "identifiers_ok (dma_frames d0)"
    using start id by (simp_all add: fr)
  obtain d where init: "dma_initialize d0 = (DMA_STATUS_OK, d)"
    using start(1) by (simp add: dma_initialize_def)
  note I = dma_initialize_ok [OF start(1,2) _ start(4) init, unfolded fr, OF f(4)]
  obtain st1 d1 where a: "dma_allocate (Some sample_dma_request) (Some 7) d = (st1, d1)" by fastforce
  have "dma_frames d = fs" using I(3) fr by (simp add: dma_frames_def)
  then have nowrap: "next_contiguous_identifier (dma_frames d) + 1 < 2 ^ 64" by (simp add: next1)
  have s1: "dma_step d (Dma_Allocate 7) d1"
    using step_allocate [OF a sample_dma_ok(5)] I(4) by (simp add: allocate_event_def)
  obtain st2 d2 where b: "dma_transfer_to_device (Some 7) d1 = (st2, d2)" by fastforce
  have A: "dma_ok d1" "live_record d1 9 = None"
    using dma_allocate_cases [OF I(2) I(4) sample_dma_ok(5) nowrap a] I(4) by (auto split: if_splits)
  have B: "live_record d2 9 = None" using dma_transfer_to_device_cases [OF A(1) b] A(2) by (auto split: if_splits)
  have path: "dma_path d [Dma_Allocate 7, Dma_To_Device 7, Dma_Write 9]
      (d2\<lparr>dm_memory := (dm_memory d2)(9 := blank_allocation)\<rparr>)"
    using s1 step_to_device [OF b] step_write [of d2 9] B by (auto simp: write_event_def intro: path_step path_done)
  have quiet: "\<forall>g. Dma_Reallocate g \<notin> set [Dma_Allocate 7, Dma_To_Device 7, Dma_Write 9] \<and>
      Dma_Overwrite g \<notin> set [Dma_Allocate 7, Dma_To_Device 7, Dma_Write 9]" by simp
  have few: "next_contiguous_identifier (dma_frames d0) + length [Dma_Allocate 7, Dma_To_Device 7, Dma_Write 9] < 2 ^ 64"
    by (simp add: fr next1)
  show ?thesis using dma_path_verified [OF start init path quiet few] init path by blast
qed

text \<open>
  C28. Memory a device may write stays a device's: once a handle is owned by a device, no
  sequence of events, while 64-bit run identifiers last, releases it, changes its run or makes one
  of its frames free, unless the sequence passes this very handle to \<open>dma_transfer_to_cpu\<close> or
  \<open>dma_allocate\<close> or its owner overwrites the variable.  Whatever is done to other variables,
  copies of this handle in them and live handles lost by a second allocation included, is harmless.
\<close>

theorem dma_device_buffer_kept:
  assumes "dma_ok d" and "live_record d h = Some r" and "dr_owner r = DMA_OWNER_DEVICE"
    and "dma_path d es d'" and "Dma_To_Cpu h \<notin> set es"
    and "Dma_Reallocate h \<notin> set es" and "Dma_Overwrite h \<notin> set es"
    and "next_contiguous_identifier (dma_frames d) + length es < 2 ^ 64"
  shows "live_record d' h = Some r \<and> dma_is_device_owned (Some h) d' \<and>
    buffer_frames r \<inter> free_set (dma_frames d') = {}"
proof -
  have "held_for_device d' h r"
    by (rule held_for_device_path [OF assms(4) held_for_device_start [OF assms(1-3)] assms(8,5,6,7)])
  from held_for_device_facts [OF this] show ?thesis by blast
qed

theorem dma_device_buffer_kept_witness:
  "\<exists>d r d'. live_record d 7 = Some r \<and> dr_owner r = DMA_OWNER_DEVICE \<and>
     dma_path d [Dma_Write 8, Dma_Release 8, Dma_Release 7, Dma_Mark 7] d' \<and> dma_is_device_owned (Some 7) d'"
proof -
  obtain d where A: "dma_allocate (Some sample_dma_request) (Some 7) sample_dma = (DMA_STATUS_OK, d)"
    by (rule sample_dma_allocates)
  obtain r where ok: "dma_ok d" and r: "live_record d = (live_record sample_dma)(7 \<mapsto> r)" "dr_owner r = DMA_OWNER_CPU"
    using dma_allocate_cases [OF sample_dma_ok(1) sample_dma_ok(2) sample_dma_ok(5,4) A] by auto
  have "dma_step sample_dma (allocate_event sample_dma 7) d" by (rule step_allocate [OF A sample_dma_ok(5)])
  from dma_step_next [OF this] have n: "next_contiguous_identifier (dma_frames d) \<le> 2"
    by (simp add: sample_dma_ok(3) sample_allocator_def)
  obtain st1 d1 where m: "dma_mark_initialized (Some 7) d = (st1, d1)" by fastforce
  note M = dma_mark_initialized_cases [OF ok m]
  have l1: "live_record d1 7 = Some (r\<lparr>dr_initialized := True\<rparr>)" using M(1,4) r by simp
  obtain st2 d2 where t: "dma_transfer_to_device (Some 7) d1 = (st2, d2)" by fastforce
  note T = dma_transfer_to_device_cases [OF M(2) t]
  have l2: "live_record d2 7 = Some (r\<lparr>dr_initialized := True, dr_owner := DMA_OWNER_DEVICE\<rparr>)" and ok2: "dma_ok d2"
    and l8: "live_record d2 8 = None" and p2: "dm_paging d2 = dm_paging d"
    using T M l1 r sample_dma_ok(2) by (simp_all add: to_device_status_def)
  define d3 where "d3 = forge 8 7 d2"
  obtain st4 d4 where e: "dma_release (Some 8) d3 = (st4, d4)" by fastforce
  obtain st5 d5 where f: "dma_release (Some 7) d4 = (st5, d5)" by fastforce
  obtain st6 d6 where g: "dma_mark_initialized (Some 7) d5 = (st6, d6)" by fastforce
  have w: "dma_step d2 (Dma_Write 8) d3" using step_write [of d2 8] l8 by (simp add: write_event_def d3_def forge_def)
  let ?es = "[Dma_Write 8, Dma_Release 8, Dma_Release 7, Dma_Mark 7]"
  have path: "dma_path d2 ?es d6"
    using w step_release [OF e] step_release [OF f] step_mark [OF g] by (blast intro: path_step path_done)
  have own: "dr_owner (r\<lparr>dr_initialized := True, dr_owner := DMA_OWNER_DEVICE\<rparr>) = DMA_OWNER_DEVICE"
    and others: "Dma_To_Cpu 7 \<notin> set ?es" "Dma_Reallocate 7 \<notin> set ?es" "Dma_Overwrite 7 \<notin> set ?es" by simp_all
  have few: "next_contiguous_identifier (dma_frames d2) + length ?es < 2 ^ 64" using n p2 by (simp add: dma_frames_def)
  show ?thesis using dma_device_buffer_kept [OF ok2 l2 own path others few] l2 own path by blast
qed

section \<open>A live handle that is allocated again\<close>

text \<open>A loop one of whose bodies refuses whatever it is given, and the others for no other reason.\<close>

lemma fold_until_refuses:
  assumes "\<forall>y \<in> set xs. \<forall>c e'. f y c = Inl e' \<longrightarrow> e' = e" and "x \<in> set xs" and "\<And>c. f x c = Inl e"
  shows "fold_until f xs s = Inl e"
  using assms(1,2)
proof (induction xs arbitrary: s)
  case (Cons y ys)
  show ?case
  proof (cases "f y s")
    case (Inl e')
    then show ?thesis using Cons.prems(1) by simp
  next
    case (Inr s')
    then have "x \<noteq> y" using assms(3) [of s] by auto
    then show ?thesis using Cons Inr by simp
  qed
qed simp

text \<open>
  C29. \<open>dma_allocate\<close> blanks the variable it is given before it looks at anything, so on a live
  handle it loses the buffer, whether or not the new allocation succeeds: the old record stays
  active and its frames stay taken, but the variable no longer names them, so no call releases
  them unless the caller writes the old contents back; and when the new allocation is refused,
  \<open>dma_verify\<close> rejects the state.
\<close>

theorem dma_reallocate_orphans_buffer:
  assumes "dma_ok d" and "live_record d h = Some r" and "request_wf (frame_request_of rq)"
    and "next_contiguous_identifier (dma_frames d) + 1 < 2 ^ 64"
    and "dma_allocate (Some rq) (Some h) d = (status, d')"
  shows "r \<in> set (dm_records d') \<and> dr_active r \<and> dm_memory d' h \<noteq> handle_of r \<and>
    buffer_frames r \<noteq> {} \<and> buffer_frames r \<inter> free_set (dma_frames d') = {} \<and>
    (status \<noteq> DMA_STATUS_OK \<longrightarrow> dma_verify d' = DMA_STATUS_BAD_ALLOCATION)"
proof -
  have rdy: "frame_ready (dma_frames d)" "identifiers_ok (dma_frames d)" "ds_active (dm_state d)"
    and len: "length (dm_records d) = FRAME_CONTIGUOUS_ALLOCATION_CAPACITY" using assms(1) by (simp_all add: dma_ok_def)
  note a = dma_allocate_effect [OF rdy(1,2) assms(3,4,5)]
  obtain i where i: "i < FRAME_CONTIGUOUS_ALLOCATION_CAPACITY" "dr_active r" "dr_handle r = Some h" "dm_records d ! i = r"
    using assms(2) by (rule live_record_index)
  have rok: "dma_record_ok d r" using dma_ok_nth [OF assms(1) i(1)] i by simp
  then have run: "run_record (dr_frames r) \<in> set (contiguous_records (dma_frames d'))"
    "fc_identifier (dr_frames r) < next_contiguous_identifier (dma_frames d)" "0 < fc_page_count (dr_frames r)"
    using a by (auto simp: dma_record_ok_def run_record_def)
  have at: "dm_records d' ! i = r" "length (dm_records d') = FRAME_CONTIGUOUS_ALLOCATION_CAPACITY"
  proof -
    have *: "dm_records d' = dm_records d \<or> (\<exists>k q. \<not> dr_active (dm_records d ! k) \<and> dm_records d' = (dm_records d)[k := q])"
      using a by (cases "status = DMA_STATUS_OK") blast+
    then show "dm_records d' ! i = r" using i(2,4) by (metis nth_list_update_neq)
    show "length (dm_records d') = FRAME_CONTIGUOUS_ALLOCATION_CAPACITY" using * len by auto
  qed
  then have mem: "r \<in> set (dm_records d')" using i(1) by (metis nth_mem)
  have other: "dm_memory d' h \<noteq> handle_of r"
  proof (cases "status = DMA_STATUS_OK")
    case True
    then have "fc_identifier (da_frames (dm_memory d' h)) = next_contiguous_identifier (dma_frames d)" using a by auto
    then show ?thesis using run(2) by (auto simp: handle_of_def)
  next
    case False
    then show ?thesis using a by (auto simp: handle_of_def)
  qed
  have "buffer_frames r \<subseteq> contiguous_set (dma_frames d')"
    using run(1) by (auto simp: buffer_frames_def contiguous_set_def run_record_def)
  moreover have "contiguous_set (dma_frames d') \<subseteq> allocated_set (dma_frames d')"
    using a by (simp add: frame_ready_def frame_inv_def records_ok_def)
  moreover have "allocated_set (dma_frames d') \<inter> free_set (dma_frames d') = {}" by (auto simp: frame_sets)
  ultimately have taken: "buffer_frames r \<inter> free_set (dma_frames d') = {}" by blast
  have "dma_verify d' = DMA_STATUS_BAD_ALLOCATION" if "status \<noteq> DMA_STATUS_OK"
  proof -
    have "\<not> da_active (dm_memory d' h)" using a that by blast
    then have "validate_allocation (Some h) d' = DMA_STATUS_BAD_ALLOCATION" by (simp add: validate_allocation_def Let_def)
    then have "verify_record d' i c = Inl DMA_STATUS_BAD_ALLOCATION" for c
      using at(1) i by (cases c) (simp add: verify_record_def Let_def)
    moreover have "e = DMA_STATUS_BAD_ALLOCATION" if "verify_record d' x c = Inl e" for x c e
      using that by (cases c) (auto simp: verify_record_def Let_def split: if_splits)
    ultimately have "fold_until (verify_record d') [0..<FRAME_CONTIGUOUS_ALLOCATION_CAPACITY] (0, 0, 0) =
        Inl DMA_STATUS_BAD_ALLOCATION" using i(1) by (intro fold_until_refuses [where x = i]) auto
    then show ?thesis using a rdy(3) by (simp add: dma_verify_def)
  qed
  moreover have "buffer_frames r \<noteq> {}" using run(3) by (simp add: buffer_frames_def record_frames_def run_record_def)
  ultimately show ?thesis using mem i(2) other taken by blast
qed

theorem dma_reallocate_orphans_buffer_witness:
  "\<exists>d d'. dma_allocate (Some sample_dma_request) (Some 7) sample_dma = (DMA_STATUS_OK, d) \<and>
     dma_verify d = DMA_STATUS_OK \<and>
     dma_allocate (Some (sample_dma_request\<lparr>dq_page_count := 0\<rparr>)) (Some 7) d = (DMA_STATUS_FRAME_ALLOCATION_FAILURE, d') \<and>
     dma_verify d' = DMA_STATUS_BAD_ALLOCATION"
proof -
  obtain d where A: "dma_allocate (Some sample_dma_request) (Some 7) sample_dma = (DMA_STATUS_OK, d)"
    by (rule sample_dma_allocates)
  obtain r where ok: "dma_ok d" and r: "live_record d = (live_record sample_dma)(7 \<mapsto> r)"
    using dma_allocate_cases [OF sample_dma_ok(1) sample_dma_ok(2) sample_dma_ok(5,4) A] by auto
  have "dma_step sample_dma (allocate_event sample_dma 7) d" by (rule step_allocate [OF A sample_dma_ok(5)])
  from dma_step_next [OF this] have n: "next_contiguous_identifier (dma_frames d) + 1 < 2 ^ 64"
    by (simp add: sample_dma_ok(3) sample_allocator_def)
  let ?rq = "sample_dma_request\<lparr>dq_page_count := 0\<rparr>"
  have wf: "request_wf (frame_request_of ?rq)"
    using sample_dma_ok(5) by (simp add: request_wf_def frame_request_of_def)
  obtain st d' where B: "dma_allocate (Some ?rq) (Some 7) d = (st, d')" by fastforce
  have "contiguous_request_status (frame_request_of ?rq) \<noteq> FRAME_STATUS_OK"
    using contiguous_request_status_OK(1) [OF wf] by (auto simp: frame_request_of_def)
  then have refused: "fst (frame_allocate_contiguous (Some (frame_request_of ?rq)) False s) \<noteq> FRAME_STATUS_OK" for s
    by (simp add: frame_allocate_contiguous_def)
  obtain fst' a fs where F: "frame_allocate_contiguous (Some (frame_request_of ?rq)) False (dma_frames d) = (fst', a, fs)"
    by (metis prod_cases3)
  have "ds_active (dm_state d)" using ok by (simp add: dma_ok_def)
  then have st: "st = DMA_STATUS_FRAME_ALLOCATION_FAILURE"
    using B F refused [of "dma_frames d"]
    by (auto simp: dma_allocate_def frame_request_of_def Let_def split: option.splits)
  have live: "live_record d 7 = Some r" using r by simp
  show ?thesis
    using dma_reallocate_orphans_buffer [OF ok live wf n B] A B dma_verify_ok [OF ok] unfolding st by blast
qed

end
