(* ===== verification/Owned_Pages.thy ===== *)
theory Owned_Pages
  imports Paging_Frames
begin

text \<open>
  The contract between the page tables and a client that maps frames of its own: the public
  operations of \<open>paging.c\<close> keep every frame others hold, and a client that maps a frame it has
  just taken, or unmaps a page and gives its frame back, changes that page only.
\<close>

unbundle bit_operations_syntax

section \<open>What others hold\<close>

text \<open>The public operations keep every frame that is held and is not a table.\<close>

lemma paging_unmap_keeps:
  assumes ok: "paging_ok p" and b: "va < 2 ^ 64" "n \<le> 2 ^ 63" and run: "paging_unmap va n p = (st, p')"
  shows "same_frame (pg_space p) (pg_space p')"
proof -
  have act: "ps_active (pg_state p)" "space_ok (pg_space p)" using ok by (auto simp: paging_ok_def)
  obtain s1 where u: "unmap_range va n (pg_space p) = (st, s1)" and p': "pg_space p' = s1"
    using run act(1) by (auto simp: paging_unmap_def Let_def split: prod.splits option.splits)
  show ?thesis using unmap_range_ok [OF act(2) b u] p' by simp
qed

lemma paging_map_keeps:
  assumes ok: "paging_ok p" and b: "va < 2 ^ 64" "pa < 2 ^ 64" "n \<le> 2 ^ 63" and run: "paging_map va pa n perms p = (st, p')"
  shows "same_frame (pg_space p) (pg_space p')"
proof -
  have act: "ps_active (pg_state p)" "space_ok (pg_space p)" using ok by (auto simp: paging_ok_def)
  obtain st1 s1 where m: "map_range va pa n perms 1 (pg_space p) = (st1, s1)" by (meson surj_pair)
  note mr = map_range_ok [OF act(2) b(1,2) m]
  obtain st2 s2 where u: "unmap_range va n s1 = (st2, s2)" by (meson surj_pair)
  have "space_ok s1" using mr by simp
  note ur = unmap_range_ok [OF this b(1,3) u]
  have "pg_space p' = s1 \<or> pg_space p' = s2"
    using run act(1) m u by (auto simp: paging_map_def Let_def split: prod.splits if_splits)
  then show ?thesis using mr ur same_frame_trans [of "pg_space p" s1 s2] by auto
qed

lemma same_frame_holds: "same_frame s s' \<Longrightarrow> holds s f \<Longrightarrow> holds s' f"
  by (simp add: same_frame_def)

text \<open>Replacing the allocator keeps the hierarchy when the tables stay allocated.\<close>

lemma set_frames_space:
  "tables_of (pg_space (set_frames fs p)) = tables_of (pg_space p)"
  "root_of (pg_space (set_frames fs p)) = root_of (pg_space p)"
  "mapped (set_frames fs p) b = mapped p b"
  by (cases "pg_space p"; simp add: set_frames_def mapped_def leaves_def)+

lemma set_frames_ok:
  assumes ok: "paging_ok p" and fs: "frame_ready fs"
    and tables: "\<And>f. f \<in> single_set (mc_frames (snd (pg_space p))) \<Longrightarrow>
      f * 4096 \<in> reached (tables_of (pg_space p)) (root_of (pg_space p)) \<Longrightarrow> f \<in> single_set fs"
  shows "paging_ok (set_frames fs p)"
proof -
  have "reached (tables_of (pg_space p)) (root_of (pg_space p)) \<subseteq> (\<lambda>f. f * 4096) ` single_set fs"
    using ok tables by (auto simp: paging_ok_def space_ok_def)
  then show ?thesis
    using ok fs unfolding paging_ok_def space_ok_def supervisor_wx_def leaves_def set_frames_def
    by (cases "pg_space p") simp
qed

section \<open>Pages that own a frame\<close>

text \<open>
  A client's pages: each is mapped writable to a frame the client holds, and no two pages
  share a frame.
\<close>

definition page_address :: "u64 \<Rightarrow> bool" where
  "page_address a \<longleftrightarrow> 4096 dvd a \<and> a < 2 ^ 46"

definition owns :: "paging \<Rightarrow> u64 set \<Rightarrow> (u64 \<Rightarrow> nat) \<Rightarrow> bool" where
  "owns p A F \<longleftrightarrow> inj_on F A \<and> (\<forall>a \<in> A. page_address a \<and> holds (pg_space p) (F a) \<and>
     mapped p a = Some (1, leaf_entry (F a * 4096) PAGING_WRITE))"

definition in_page :: "u64 \<Rightarrow> u64 \<Rightarrow> bool" where
  "in_page a b \<longleftrightarrow> a \<le> b \<and> b < a + 4096"

lemma page_address_range:
  assumes "page_address a"
  shows "a < 2 ^ 64" "canonical a" "good_range a 4096" "validate_virtual_range a 4096 4096 = PAGING_STATUS_OK"
proof -
  have b: "4096 dvd a" "a < 2 ^ 46" using assms by (simp_all add: page_address_def)
  then show "a < 2 ^ 64" "canonical a" by (simp_all add: canonical_def)
  have "a + 4096 < 2 ^ 47" using b(2) by simp
  then show v: "validate_virtual_range a 4096 4096 = PAGING_STATUS_OK"
    using b by (simp add: validate_virtual_range_def address_is_canonical_iff canonical_def sub64_id add64_id dvd_eq_mod_eq_0)
  show "good_range a 4096" by (rule validate_virtual_ok(1) [OF v]) (use b in simp_all)
qed

lemma pages_apart: "page_address a \<Longrightarrow> page_address b \<Longrightarrow> in_page a b \<Longrightarrow> a = b"
proof -
  assume a: "page_address a" "page_address b" "in_page a b"
  then obtain i j where "a = 4096 * i" "b = 4096 * j" unfolding page_address_def by (metis dvdE)
  with a(3) show "a = b" by (simp add: in_page_def)
qed

lemma holds_bound:
  assumes "holds s f"
  shows "f * 4096 < 2 ^ 52"
  using frame_number_bound [of f "mc_frames (snd s)"] assms by (simp add: holds_def SAPOTE_EARLY_PHYSICAL_LIMIT_def)

lemma owned_translation:
  assumes ok: "paging_ok p" and o: "owns p A F" and a: "a \<in> A"
  shows "paging_translate a False p = (PAGING_STATUS_OK, Some \<lparr>tr_physical_address = F a * 4096,
     tr_permissions = PAGING_WRITE, tr_memory_type = PAGING_MEMORY_WRITE_BACK, tr_level = 1, tr_user = False\<rparr>)"
proof -
  have pa: "page_address a" and h: "holds (pg_space p) (F a)"
    and m: "mapped p a = Some (1, leaf_entry (F a * 4096) PAGING_WRITE)" using o a by (auto simp: owns_def)
  have "a mod 4096 = 0" using pa by (simp add: page_address_def dvd_eq_mod_eq_0)
  have pat: "pat_installed (ps_pat_after (pg_state p))" using ok by (simp add: paging_ok_def)
  have ty: "requested_type PAGING_WRITE = PAGING_MEMORY_WRITE_BACK"
    by (simp add: requested_type_def PAGING_WRITE_def bit_push_bit_iff bit_1_iff)
  have "4096 dvd F a * 4096" by simp
  note fill = fill_leaf_entry [OF pat page_valid(5) this holds_bound [OF h] refl, of a False]
  show ?thesis
    unfolding translate_mapped [OF ok page_address_range(2) [OF pa]] m
    using fill \<open>a mod 4096 = 0\<close> ty by simp
qed

lemma unmapped_page:
  assumes "paging_ok p" "page_address a" "mapped p a = None"
  shows "paging_translate a False p = (PAGING_STATUS_NOT_MAPPED, Some blank_translation)"
  using translate_mapped [OF assms(1) page_address_range(2) [OF assms(2)]] assms(3) by simp

text \<open>The two ways a page changes hands.  Only the mapping of that page changes, and everything
  others hold stays held.\<close>

lemma own_page:
  assumes ok: "paging_ok p" and o: "owns p A F" and a: "page_address a"
    and take: "frame_allocate False (mc_frames (snd (pg_space p))) = (FRAME_STATUS_OK, Some frame, fs)"
    and run: "paging_map a frame 4096 PAGING_WRITE (set_frames fs p) = (st, p')"
  obtains f where "frame = f * 4096" "paging_ok p'"
    "\<And>g. holds (pg_space p) g \<Longrightarrow> holds (pg_space p') g \<and> g \<noteq> f" "holds (pg_space p') f"
    "\<And>b. canonical b \<Longrightarrow> mapped p' b = (if st = PAGING_STATUS_OK \<and> in_page a b
       then Some (1, leaf_entry (f * 4096 + (b div 4096 * 4096 - a)) PAGING_WRITE) else mapped p b)"
    "st = PAGING_STATUS_OK \<Longrightarrow> mapped p a = None"
    "st = PAGING_STATUS_OK \<Longrightarrow> owns p' (insert a A) (F(a := f))"
    "st \<noteq> PAGING_STATUS_OK \<Longrightarrow> owns p' A F"
proof -
  let ?fs = "mc_frames (snd (pg_space p))"
  have rdy: "frame_ready ?fs" using ok by (simp add: paging_ok_def space_ok_def)
  then have inv: "frame_inv ?fs" "allocator_initialized ?fs" by (simp_all add: frame_ready_def)
  have ne: "free_set ?fs \<noteq> {}"
    using frame_allocate_empty [OF inv] take by auto
  from frame_allocate_some [OF inv ne] take obtain f where
    f: "frame = f * 4096" "f \<in> free_set ?fs" "single_set fs = insert f (single_set ?fs)" "frame_ready fs"
    by (auto simp: frame_ready_def)
  have okf: "paging_ok (set_frames fs p)" by (rule set_frames_ok [OF ok f(4)]) (simp add: f(3))
  have bound: "f * 4096 < 2 ^ 64" "f * 4096 < 2 ^ 52"
    using frame_number_bound [of f fs] f(3) by (simp_all add: SAPOTE_EARLY_PHYSICAL_LIMIT_def)
  have reach: "reached (tables_of (pg_space p)) (root_of (pg_space p)) \<subseteq> (\<lambda>f. f * 4096) ` single_set ?fs"
    using ok by (simp add: paging_ok_def space_ok_def)
  have not_single: "f \<notin> single_set ?fs" using f(2) by (auto simp: single_set_def frame_sets)
  have h0: "holds (pg_space (set_frames fs p)) g \<longleftrightarrow> holds (pg_space p) g \<or> g = f" for g
    using reach not_single by (auto simp: holds_def set_frames_space f(3))
  note keep = paging_map_keeps [OF okf page_address_range(1) [OF a] _ _ run, unfolded f(1), OF bound(1)]
  have keep': "holds (pg_space p') g" if "holds (pg_space (set_frames fs p)) g" for g
    by (rule same_frame_holds [OF _ that]) (use keep in simp)
  note cases = paging_map_cases [OF okf page_address_range(1) [OF a] bound(1) run [unfolded f(1)]]
  have ok': "paging_ok p'" using cases by simp
  have hf: "holds (pg_space p') f" using keep' h0 by blast
  have hg: "holds (pg_space p') g \<and> g \<noteq> f" if "holds (pg_space p) g" for g
    using keep' h0 that not_single by (auto simp: holds_def)
  have m: "mapped p' b = (if st = PAGING_STATUS_OK \<and> in_page a b
       then Some (1, leaf_entry (f * 4096 + (b div 4096 * 4096 - a)) PAGING_WRITE) else mapped p b)"
    if "canonical b" for b
    using cases that by (cases "st = PAGING_STATUS_OK") (auto simp: set_frames_space in_page_def)
  have none: "mapped p a = None" if "st = PAGING_STATUS_OK"
    using cases that page_address_range(2) [OF a] by (simp add: set_frames_space)
  have inj: "inj_on F A" and old: "\<And>x. x \<in> A \<Longrightarrow> page_address x \<and> holds (pg_space p) (F x) \<and>
      mapped p x = Some (1, leaf_entry (F x * 4096) PAGING_WRITE)" using o by (auto simp: owns_def)
  have m_old: "mapped p' x = Some (1, leaf_entry (F x * 4096) PAGING_WRITE)" if "x \<in> A" for x
  proof -
    have "\<not> (st = PAGING_STATUS_OK \<and> in_page a x)"
    proof
      assume c: "st = PAGING_STATUS_OK \<and> in_page a x"
      then have "a = x" using pages_apart [OF a, of x] old [OF that] by blast
      then show False using none c old [OF that] by simp
    qed
    then show ?thesis using m [of x] old [OF that] page_address_range(2) [of x] by auto
  qed
  have "owns p' A F" using inj old m_old hg by (auto simp: owns_def)
  moreover have "owns p' (insert a A) (F(a := f))" if st: "st = PAGING_STATUS_OK"
  proof -
    have "a \<notin> A" using old none [OF st] by auto
    moreover have "inj_on (F(a := f)) (insert a A)"
      using inj hg old \<open>a \<notin> A\<close> by (auto simp: inj_on_def)
    moreover have "mapped p' a = Some (1, leaf_entry (f * 4096) PAGING_WRITE)"
      using m [of a] page_address_range(2) [OF a] st a by (simp add: in_page_def page_address_def)
    ultimately show ?thesis using old m_old hg hf a by (auto simp: owns_def)
  qed
  ultimately show thesis using that [OF f(1) ok' hg hf m none] by blast
qed

lemma disown_page:
  assumes ok: "paging_ok p" and o: "owns p A F" and a: "a \<in> A"
  obtains p1 fs where "paging_unmap a 4096 p = (PAGING_STATUS_OK, p1)"
    "frame_release (F a * 4096) (mc_frames (snd (pg_space p1))) = (FRAME_STATUS_OK, fs)"
    "paging_ok (set_frames fs p1)" "owns (set_frames fs p1) (A - {a}) F"
    "\<And>b. canonical b \<Longrightarrow> mapped (set_frames fs p1) b = (if in_page a b then None else mapped p b)"
    "\<And>g. holds (pg_space p) g \<Longrightarrow> g \<noteq> F a \<Longrightarrow> holds (pg_space (set_frames fs p1)) g"
proof -
  have pa: "page_address a" and h: "holds (pg_space p) (F a)"
    and ma: "mapped p a = Some (1, leaf_entry (F a * 4096) PAGING_WRITE)" using o a by (auto simp: owns_def)
  note r = page_address_range [OF pa]
  obtain st p1 where u: "paging_unmap a 4096 p = (st, p1)" by (meson surj_pair)
  have same: "mapped p b = mapped p a" if "canonical b" "a \<le> b" "b < a + 4096" for b
  proof -
    obtain i where i: "a = 4096 * i" using pa unfolding page_address_def by (metis dvdE)
    then have "b div 4096 = a div 4096" using that by (intro div_nat_eqI) auto
    then have "agree 4 a b" using agree_4_iff [OF r(2) that(1)] by simp
    then show ?thesis unfolding mapped_def leaves_def by (metis leaf_agree)
  qed
  have "fst (paging_unmap a 4096 p) = PAGING_STATUS_OK"
    by (rule unmap_mapped [OF ok r(3,1,4)]) (use same ma in auto)
  then have st: "st = PAGING_STATUS_OK" using u by simp
  note cases = paging_unmap_cases [OF ok r(1) _ u]
  have ok1: "paging_ok p1" using cases by simp
  have keep: "same_frame (pg_space p) (pg_space p1)" by (rule paging_unmap_keeps [OF ok r(1) _ u]) simp
  have h1: "holds (pg_space p1) (F a)" by (rule same_frame_holds [OF keep h])
  let ?fs = "mc_frames (snd (pg_space p1))"
  have "frame_ready ?fs" using ok1 by (simp add: paging_ok_def space_ok_def)
  then have inv: "frame_inv ?fs" "allocator_initialized ?fs" by (simp_all add: frame_ready_def)
  have single: "F a \<in> single_set ?fs" using h1 by (simp add: holds_def)
  from frame_release_ok [OF inv single] obtain fs where
    fs: "frame_release (F a * 4096) ?fs = (FRAME_STATUS_OK, fs)" "single_set fs = single_set ?fs - {F a}" "frame_ready fs"
    by (auto simp: frame_ready_def)
  have ok2: "paging_ok (set_frames fs p1)"
    by (rule set_frames_ok [OF ok1 fs(3)]) (use h1 in \<open>auto simp: fs(2) holds_def\<close>)
  have hg: "holds (pg_space (set_frames fs p1)) g" if "holds (pg_space p) g" "g \<noteq> F a" for g
    using same_frame_holds [OF keep that(1)] that(2) by (simp add: holds_def set_frames_space fs(2))
  have m: "mapped (set_frames fs p1) b = (if in_page a b then None else mapped p b)" if "canonical b" for b
    using cases st that by (auto simp: set_frames_space in_page_def)
  have "owns (set_frames fs p1) (A - {a}) F"
    unfolding owns_def
  proof (intro conjI ballI)
    show "inj_on F (A - {a})" using o by (auto simp: owns_def inj_on_diff)
    fix x assume x: "x \<in> A - {a}"
    then have ox: "page_address x" "holds (pg_space p) (F x)" "mapped p x = Some (1, leaf_entry (F x * 4096) PAGING_WRITE)"
      using o by (auto simp: owns_def)
    have "F x \<noteq> F a" using o x a by (auto simp: owns_def dest: inj_onD)
    then show "holds (pg_space (set_frames fs p1)) (F x)" using hg ox by blast
    show "page_address x" by (rule ox)
    show "mapped (set_frames fs p1) x = Some (1, leaf_entry (F x * 4096) PAGING_WRITE)"
      using m [OF page_address_range(2) [OF ox(1)]] ox pages_apart [OF pa ox(1)] x by auto
  qed
  with u st fs(1) ok2 m hg show thesis by (intro that) auto
qed

end
