(* ===== verification/Kernel_Thread.thy ===== *)
theory Kernel_Thread
  imports Owned_Pages
begin

text \<open>
  \<open>src/kernel/thread.c\<close> with the context switch of \<open>src/arch/x86_64/thread.S\<close>: a table of eight
  threads, each on a mapped stack with an unmapped guard page below it, scheduled in rotation,
  by yielding or by a quantum.  The state holds the file-scope variables, the registers a
  switch saves, the words of the stacks and the paging state, whose machine holds the frame
  allocator.  The heap, the clock and the deadline timers are services given as functions on
  an environment; the addresses the linker assigns are a record.  A panic is a left value.
\<close>

unbundle bit_operations_syntax

section \<open>Constants and data\<close>

definition THREAD_STACK_REGION :: u64 where "THREAD_STACK_REGION = 0x0000000800000000"
definition THREAD_STACK_PAGES :: nat where "THREAD_STACK_PAGES = 4"
definition THREAD_STACK_SIZE :: u64 where "THREAD_STACK_SIZE = THREAD_STACK_PAGES * PAGING_PAGE_SIZE"
definition THREAD_STACK_STRIDE :: u64 where "THREAD_STACK_STRIDE = THREAD_STACK_SIZE + PAGING_PAGE_SIZE"
definition THREAD_MAX :: nat where "THREAD_MAX = 8"
definition THREAD_QUANTUM_NS :: u64 where "THREAD_QUANTUM_NS = 2000000"
definition THREAD_ID_NONE :: u64 where "THREAD_ID_NONE = 0"
definition PREPARED_SLOTS :: nat where "PREPARED_SLOTS = 8"
definition PREPARED_FRAME_SIZE :: u64 where "PREPARED_FRAME_SIZE = PREPARED_SLOTS * 8"
definition SLOT_R15 :: nat where "SLOT_R15 = 0"
definition SLOT_R14 :: nat where "SLOT_R14 = 1"
definition SLOT_R13 :: nat where "SLOT_R13 = 2"
definition SLOT_R12 :: nat where "SLOT_R12 = 3"
definition SLOT_RBX :: nat where "SLOT_RBX = 4"
definition SLOT_RBP :: nat where "SLOT_RBP = 5"
definition SLOT_RFLAGS :: nat where "SLOT_RFLAGS = 6"
definition SLOT_RETURN :: nat where "SLOT_RETURN = 7"
definition RFLAGS_RESERVED :: u64 where "RFLAGS_RESERVED = 0x0000000000000002"
definition RFLAGS_INTERRUPT_ENABLE :: u64 where "RFLAGS_INTERRUPT_ENABLE = 0x0000000000000200"
definition RFLAGS_DIRECTION :: u64 where "RFLAGS_DIRECTION = 0x0000000000000400"
definition INITIAL_RFLAGS :: u64 where "INITIAL_RFLAGS = RFLAGS_RESERVED OR RFLAGS_INTERRUPT_ENABLE"

datatype thread_state = THREAD_STATE_UNUSED | THREAD_STATE_READY | THREAD_STATE_RUNNING | THREAD_STATE_EXITED

datatype thread_status =
    THREAD_STATUS_OK
  | THREAD_STATUS_NULL_ARGUMENT
  | THREAD_STATUS_ALREADY_STARTED
  | THREAD_STATUS_NOT_STARTED
  | THREAD_STATUS_INTERRUPTS_ENABLED
  | THREAD_STATUS_NO_HEAP
  | THREAD_STATUS_NO_MEMORY
  | THREAD_STATUS_NO_CAPACITY
  | THREAD_STATUS_OUT_OF_FRAMES
  | THREAD_STATUS_MAPPING_FAILURE
  | THREAD_STATUS_BAD_IDENTIFIER
  | THREAD_STATUS_NOT_THE_BOOT_THREAD
  | THREAD_STATUS_THREADS_STILL_RUNNABLE
  | THREAD_STATUS_NO_TIMER
  | THREAD_STATUS_NO_QUANTUM
  | THREAD_STATUS_ALREADY_PREEMPTIVE
  | THREAD_STATUS_NOT_PREEMPTIVE
  | THREAD_STATUS_VALIDATION_FAILURE

text \<open>A null \<open>entry\<close> is \<open>None\<close>; a function or a context is its address.\<close>

record thread =
  th_stack_pointer :: u64
  th_stack_base :: u64
  th_stack_top :: u64
  th_identifier :: u64
  th_switches :: u64
  th_entry :: "u64 option"
  th_context :: u64
  th_state :: thread_state
  th_boot_thread :: bool

record thread_system_state =
  ts_active :: bool
  ts_capacity :: nat
  ts_live :: nat
  ts_ready :: nat
  ts_exited :: nat
  ts_current :: u64
  ts_switches :: u64
  ts_stack_frames :: u64
  ts_preemptions :: u64
  ts_preemptive :: bool

record thread_state_report =
  rp_identifier :: u64
  rp_stack_base :: u64
  rp_stack_top :: u64
  rp_guard_page :: u64
  rp_switches :: u64
  rp_state :: thread_state
  rp_boot_thread :: bool

record registers =
  rg_r15 :: u64
  rg_r14 :: u64
  rg_r13 :: u64
  rg_r12 :: u64
  rg_rbx :: u64
  rg_rbp :: u64
  rg_rflags :: u64
  rg_rip :: u64
  rg_rsp :: u64

text \<open>
  \<open>kr_threads\<close> is the pointer to the table, \<open>kr_table\<close> its elements; \<open>kr_locals\<close> gives, for a
  suspended call of \<open>switch_to_next\<close> named by its saved stack pointer, its local \<open>interrupted\<close>.
\<close>

record 'e kernel =
  kr_state :: thread_system_state
  kr_threads :: "u64 option"
  kr_table :: "thread list"
  kr_current_slot :: nat
  kr_next_identifier :: u64
  kr_reschedule_pending :: bool
  kr_quantum_identifier :: u64
  kr_registers :: registers
  kr_memory :: "u64 \<Rightarrow> u64"
  kr_locals :: "u64 \<Rightarrow> bool"
  kr_paging :: paging
  kr_env :: 'e

text \<open>
  The services below: \<open>heap.c\<close>, \<open>clock.c\<close> and \<open>timer.c\<close>, as functions of an environment of
  their own.  Each may answer either way; what the heap may map to serve the thread table is not
  shown in \<open>kr_paging\<close>.
\<close>

record 'e services =
  sv_heap_active :: "'e \<Rightarrow> bool"
  sv_heap_allocate :: "u64 \<Rightarrow> 'e \<Rightarrow> u64 option \<times> 'e"
  sv_heap_free :: "u64 option \<Rightarrow> 'e \<Rightarrow> bool \<times> 'e"
  sv_clock :: "'e \<Rightarrow> u64 \<times> 'e"
  sv_timer_started :: "'e \<Rightarrow> bool"
  sv_timer_arm :: "u64 \<Rightarrow> 'e \<Rightarrow> u64 option \<times> 'e"
  sv_timer_cancel :: "u64 \<Rightarrow> 'e \<Rightarrow> 'e"

text \<open>Where the linker put the trampoline, and the addresses after the two calls of the switch.\<close>

record code_layout =
  cl_trampoline :: u64
  cl_after_switch :: u64
  cl_after_exit :: u64

section \<open>The table\<close>

definition slot_guard_page :: "nat \<Rightarrow> u64" where
  "slot_guard_page slot = add64 THREAD_STACK_REGION (mul64 slot THREAD_STACK_STRIDE)"

definition slot_stack_base :: "nat \<Rightarrow> u64" where
  "slot_stack_base slot = add64 (slot_guard_page slot) PAGING_PAGE_SIZE"

definition slot_stack_top :: "nat \<Rightarrow> u64" where
  "slot_stack_top slot = add64 (slot_stack_base slot) THREAD_STACK_SIZE"

definition find_thread :: "u64 \<Rightarrow> 'e kernel \<Rightarrow> nat option" where
  "find_thread identifier k =
     (if identifier = THREAD_ID_NONE \<or> kr_threads k = None then None
      else find_from (\<lambda>slot. th_state (kr_table k ! slot) \<noteq> THREAD_STATE_UNUSED \<and>
                             th_identifier (kr_table k ! slot) = identifier)
             0 (ts_capacity (kr_state k)))"

definition next_ready_slot :: "nat \<Rightarrow> 'e kernel \<Rightarrow> nat" where
  "next_ready_slot start k =
     (let capacity = ts_capacity (kr_state k) in
      case find_from (\<lambda>step. th_state (kr_table k ! ((start + step) mod capacity)) = THREAD_STATE_READY)
             1 (capacity + 1) of
        Some step \<Rightarrow> (start + step) mod capacity
      | None \<Rightarrow> start)"

definition set_thread :: "nat \<Rightarrow> thread \<Rightarrow> 'e kernel \<Rightarrow> 'e kernel" where
  "set_thread slot t k = k\<lparr>kr_table := (kr_table k)[slot := t]\<rparr>"

definition set_state :: "nat \<Rightarrow> thread_state \<Rightarrow> 'e kernel \<Rightarrow> 'e kernel" where
  "set_state slot st k = set_thread slot ((kr_table k ! slot)\<lparr>th_state := st\<rparr>) k"

definition account_switch :: "nat \<Rightarrow> 'e kernel \<Rightarrow> 'e kernel" where
  "account_switch slot k =
     (let t = kr_table k ! slot; k = set_thread slot (t\<lparr>th_switches := add64 (th_switches t) 1\<rparr>) k in
      k\<lparr>kr_state := (kr_state k)\<lparr>ts_switches := add64 (ts_switches (kr_state k)) 1,
                                 ts_current := th_identifier t\<rparr>,
        kr_current_slot := slot\<rparr>)"

text \<open>One round of the loop of \<open>recount\<close>.\<close>

definition count_thread :: "'e kernel \<Rightarrow> nat \<Rightarrow> thread_system_state \<Rightarrow> thread_system_state" where
  "count_thread k slot s =
     (case th_state (kr_table k ! slot) of
        THREAD_STATE_READY \<Rightarrow> s\<lparr>ts_ready := ts_ready s + 1, ts_live := ts_live s + 1\<rparr>
      | THREAD_STATE_RUNNING \<Rightarrow> s\<lparr>ts_live := ts_live s + 1\<rparr>
      | THREAD_STATE_EXITED \<Rightarrow> s\<lparr>ts_exited := ts_exited s + 1\<rparr>
      | THREAD_STATE_UNUSED \<Rightarrow> s)"

definition recount :: "'e kernel \<Rightarrow> 'e kernel" where
  "recount k = k\<lparr>kr_state := fold (count_thread k) [0..<ts_capacity (kr_state k)]
                   ((kr_state k)\<lparr>ts_live := 0, ts_ready := 0, ts_exited := 0\<rparr>)\<rparr>"

definition cleared_thread :: thread where
  "cleared_thread = \<lparr>th_stack_pointer = 0, th_stack_base = 0, th_stack_top = 0, th_identifier = THREAD_ID_NONE,
     th_switches = 0, th_entry = None, th_context = 0, th_state = THREAD_STATE_UNUSED, th_boot_thread = False\<rparr>"

section \<open>Stacks\<close>

definition map_stack_page :: "u64 \<Rightarrow> nat \<Rightarrow> paging \<Rightarrow> (thread_status \<times> nat \<times> paging) + paging" where
  "map_stack_page base page p =
     (let address = add64 base (mul64 page PAGING_PAGE_SIZE) in
      case frame_allocate False (mc_frames (snd (pg_space p))) of
        (frame_status, frame, fs) \<Rightarrow>
          if frame_status \<noteq> FRAME_STATUS_OK then Inl (THREAD_STATUS_OUT_OF_FRAMES, page, set_frames fs p)
          else (case paging_map address (the frame) PAGING_PAGE_SIZE PAGING_WRITE (set_frames fs p) of
            (status, p) \<Rightarrow>
              if status \<noteq> PAGING_STATUS_OK
              then Inl (THREAD_STATUS_MAPPING_FAILURE, page,
                     set_frames (snd (frame_release (the frame) (mc_frames (snd (pg_space p))))) p)
              else Inr p))"

definition unwind_stack_page :: "u64 \<Rightarrow> nat \<Rightarrow> paging \<Rightarrow> paging" where
  "unwind_stack_page base page p =
     (let address = add64 base (mul64 page PAGING_PAGE_SIZE) in
      case paging_translate address False p of
        (translated, translation) \<Rightarrow>
          if translated = PAGING_STATUS_OK then
            (case paging_unmap address PAGING_PAGE_SIZE p of
               (status, p) \<Rightarrow>
                 if status = PAGING_STATUS_OK
                 then set_frames (snd (frame_release (tr_physical_address (the translation))
                                    (mc_frames (snd (pg_space p))))) p
                 else p)
          else p)"

definition map_stack :: "nat \<Rightarrow> 'e kernel \<Rightarrow> thread_status \<times> 'e kernel" where
  "map_stack slot k =
     (let base = slot_stack_base slot in
      case fold_until (map_stack_page base) [0..<THREAD_STACK_PAGES] (kr_paging k) of
        Inl (failure, pages, p) \<Rightarrow> (failure, k\<lparr>kr_paging := fold (unwind_stack_page base) [0..<pages] p\<rparr>)
      | Inr p \<Rightarrow> (THREAD_STATUS_OK, k\<lparr>kr_paging := p,
          kr_state := (kr_state k)\<lparr>ts_stack_frames := add64 (ts_stack_frames (kr_state k)) THREAD_STACK_PAGES\<rparr>\<rparr>))"

definition unmap_stack_page :: "u64 \<Rightarrow> nat \<Rightarrow> 'e kernel \<Rightarrow> (thread_status \<times> 'e kernel) + 'e kernel" where
  "unmap_stack_page base page k =
     (let address = add64 base (mul64 page PAGING_PAGE_SIZE) in
      case paging_translate address False (kr_paging k) of
        (translated, translation) \<Rightarrow>
          if translated \<noteq> PAGING_STATUS_OK then Inl (THREAD_STATUS_VALIDATION_FAILURE, k)
          else (case paging_unmap address PAGING_PAGE_SIZE (kr_paging k) of
            (status, p) \<Rightarrow>
              if status \<noteq> PAGING_STATUS_OK then Inl (THREAD_STATUS_VALIDATION_FAILURE, k\<lparr>kr_paging := p\<rparr>)
              else (case frame_release (tr_physical_address (the translation)) (mc_frames (snd (pg_space p))) of
                (frame_status, fs) \<Rightarrow>
                  if frame_status \<noteq> FRAME_STATUS_OK
                  then Inl (THREAD_STATUS_VALIDATION_FAILURE, k\<lparr>kr_paging := set_frames fs p\<rparr>)
                  else Inr (k\<lparr>kr_paging := set_frames fs p,
                    kr_state := (kr_state k)\<lparr>ts_stack_frames := sub64 (ts_stack_frames (kr_state k)) 1\<rparr>\<rparr>))))"

definition unmap_stack :: "nat \<Rightarrow> 'e kernel \<Rightarrow> thread_status \<times> 'e kernel" where
  "unmap_stack slot k =
     (case fold_until (unmap_stack_page (slot_stack_base slot)) [0..<THREAD_STACK_PAGES] k of
        Inl failure \<Rightarrow> failure
      | Inr k \<Rightarrow> (THREAD_STATUS_OK, k))"

text \<open>The frame the first switch onto a stack consumes: eight words below the top.\<close>

definition prepare_frame :: "code_layout \<Rightarrow> thread \<Rightarrow> (u64 \<Rightarrow> u64) \<Rightarrow> thread \<times> (u64 \<Rightarrow> u64)" where
  "prepare_frame code t memory =
     (let frame = sub64 (th_stack_top t) PREPARED_FRAME_SIZE;
          memory = fold (\<lambda>slot m. m(frame + slot * 8 := 0)) [0..<PREPARED_SLOTS] memory;
          memory = memory(frame + SLOT_R12 * 8 := (case th_entry t of Some entry \<Rightarrow> entry | None \<Rightarrow> 0),
                          frame + SLOT_R13 * 8 := th_context t,
                          frame + SLOT_RFLAGS * 8 := INITIAL_RFLAGS,
                          frame + SLOT_RETURN * 8 := cl_trampoline code)
      in (t\<lparr>th_stack_pointer := frame\<rparr>, memory))"

section \<open>The processor\<close>

definition cpu_interrupts_enabled :: "'e kernel \<Rightarrow> bool" where
  "cpu_interrupts_enabled k = (rg_rflags (kr_registers k) AND RFLAGS_INTERRUPT_ENABLE \<noteq> 0)"

definition cpu_interrupt_disable :: "'e kernel \<Rightarrow> 'e kernel" where
  "cpu_interrupt_disable k = k\<lparr>kr_registers := (kr_registers k)
     \<lparr>rg_rflags := rg_rflags (kr_registers k) AND not64 RFLAGS_INTERRUPT_ENABLE\<rparr>\<rparr>"

definition cpu_interrupt_enable :: "'e kernel \<Rightarrow> 'e kernel" where
  "cpu_interrupt_enable k = k\<lparr>kr_registers := (kr_registers k)
     \<lparr>rg_rflags := rg_rflags (kr_registers k) OR RFLAGS_INTERRUPT_ENABLE\<rparr>\<rparr>"

text \<open>
  \<open>thread_switch_context\<close>: the call pushes the address it returns to, the routine pushes the
  flags and the six callee-saved registers, publishes the stack pointer, takes the other one
  and pops the same from there.
\<close>

definition saved_words :: "u64 \<Rightarrow> registers \<Rightarrow> (u64 \<Rightarrow> u64) \<Rightarrow> u64 \<Rightarrow> u64" where
  "saved_words return_address r memory =
     (let sp = rg_rsp r in
      memory(sub64 sp 8 := return_address, sub64 sp 16 := rg_rflags r, sub64 sp 24 := rg_rbp r,
             sub64 sp 32 := rg_rbx r, sub64 sp 40 := rg_r12 r, sub64 sp 48 := rg_r13 r,
             sub64 sp 56 := rg_r14 r, sub64 sp 64 := rg_r15 r))"

definition loaded_registers :: "u64 \<Rightarrow> (u64 \<Rightarrow> u64) \<Rightarrow> registers" where
  "loaded_registers sp memory =
     \<lparr>rg_r15 = memory sp, rg_r14 = memory (add64 sp 8), rg_r13 = memory (add64 sp 16),
      rg_r12 = memory (add64 sp 24), rg_rbx = memory (add64 sp 32), rg_rbp = memory (add64 sp 40),
      rg_rflags = memory (add64 sp 48), rg_rip = memory (add64 sp 56), rg_rsp = add64 sp 64\<rparr>"

definition thread_switch_context :: "u64 \<Rightarrow> nat \<Rightarrow> u64 \<Rightarrow> 'e kernel \<Rightarrow> 'e kernel" where
  "thread_switch_context return_address save_slot load_stack_pointer k =
     (let r = kr_registers k; memory = saved_words return_address r (kr_memory k) in
      set_thread save_slot ((kr_table k ! save_slot)\<lparr>th_stack_pointer := sub64 (rg_rsp r) 64\<rparr>)
        (k\<lparr>kr_memory := memory, kr_registers := loaded_registers load_stack_pointer memory\<rparr>))"

section \<open>Scheduling\<close>

text \<open>What the thread that now has the processor does first: the rest of its own call.\<close>

definition resume :: "code_layout \<Rightarrow> 'e kernel \<Rightarrow> string + 'e kernel" where
  "resume code k =
     (if rg_rip (kr_registers k) = cl_after_switch code then
        Inr (if kr_locals k (sub64 (rg_rsp (kr_registers k)) 64) then cpu_interrupt_enable k else k)
      else if rg_rip (kr_registers k) = cl_after_exit code then Inl ''an exited thread was scheduled again''
      else Inr k)"

definition switch_to_next :: "code_layout \<Rightarrow> 'e kernel \<Rightarrow> string + 'e kernel" where
  "switch_to_next code k =
     (let interrupted = cpu_interrupts_enabled k; k = cpu_interrupt_disable k;
          previous = kr_current_slot k; next = next_ready_slot previous k in
      if next = previous then Inr (if interrupted then cpu_interrupt_enable k else k)
      else
        let k = (if th_state (kr_table k ! previous) = THREAD_STATE_RUNNING
                 then set_state previous THREAD_STATE_READY k else k);
            k = recount (account_switch next (set_state next THREAD_STATE_RUNNING k));
            k = k\<lparr>kr_locals := (kr_locals k)(sub64 (rg_rsp (kr_registers k)) 64 := interrupted)\<rparr>
        in resume code (thread_switch_context (cl_after_switch code) previous
                          (th_stack_pointer (kr_table k ! next)) k))"

definition thread_yield :: "code_layout \<Rightarrow> 'e kernel \<Rightarrow> string + 'e kernel" where
  "thread_yield code k = (if \<not> ts_active (kr_state k) then Inr k else switch_to_next code k)"

definition arm_quantum :: "'e services \<Rightarrow> 'e kernel \<Rightarrow> thread_status \<times> 'e kernel" where
  "arm_quantum sv k =
     (case sv_clock sv (kr_env k) of
        (now, env) \<Rightarrow>
          (case sv_timer_arm sv (add64 now THREAD_QUANTUM_NS) env of
             (None, env) \<Rightarrow> (THREAD_STATUS_NO_QUANTUM, k\<lparr>kr_env := env, kr_quantum_identifier := THREAD_ID_NONE\<rparr>)
           | (Some identifier, env) \<Rightarrow>
               (THREAD_STATUS_OK, k\<lparr>kr_env := env, kr_quantum_identifier := identifier\<rparr>)))"

definition quantum_expired :: "'e services \<Rightarrow> 'e kernel \<Rightarrow> string + 'e kernel" where
  "quantum_expired sv k =
     (let k = k\<lparr>kr_quantum_identifier := THREAD_ID_NONE\<rparr> in
      if \<not> ts_active (kr_state k) \<or> \<not> ts_preemptive (kr_state k) then Inr k
      else case arm_quantum sv k of
        (status, k) \<Rightarrow>
          if status \<noteq> THREAD_STATUS_OK then Inl ''the scheduler could not arm its next quantum''
          else if next_ready_slot (kr_current_slot k) k \<noteq> kr_current_slot k
            then Inr (k\<lparr>kr_reschedule_pending := True,
                        kr_state := (kr_state k)\<lparr>ts_preemptions := add64 (ts_preemptions (kr_state k)) 1\<rparr>\<rparr>)
          else Inr k)"

definition thread_on_interrupt_return :: "code_layout \<Rightarrow> 'e kernel \<Rightarrow> string + 'e kernel" where
  "thread_on_interrupt_return code k =
     (if \<not> kr_reschedule_pending k then Inr k
      else let k = k\<lparr>kr_reschedule_pending := False\<rparr> in
        if \<not> ts_active (kr_state k) then Inr k else switch_to_next code k)"

definition thread_enable_preemption :: "'e services \<Rightarrow> 'e kernel \<Rightarrow> thread_status \<times> 'e kernel" where
  "thread_enable_preemption sv k =
     (if \<not> ts_active (kr_state k) then (THREAD_STATUS_NOT_STARTED, k)
      else if ts_preemptive (kr_state k) then (THREAD_STATUS_ALREADY_PREEMPTIVE, k)
      else if \<not> sv_timer_started sv (kr_env k) then (THREAD_STATUS_NO_TIMER, k)
      else case arm_quantum sv (k\<lparr>kr_state := (kr_state k)\<lparr>ts_preemptive := True\<rparr>\<rparr>) of
        (status, k) \<Rightarrow> (status, if status \<noteq> THREAD_STATUS_OK
          then k\<lparr>kr_state := (kr_state k)\<lparr>ts_preemptive := False\<rparr>\<rparr> else k))"

definition thread_disable_preemption :: "'e services \<Rightarrow> 'e kernel \<Rightarrow> thread_status \<times> 'e kernel" where
  "thread_disable_preemption sv k =
     (if \<not> ts_active (kr_state k) then (THREAD_STATUS_NOT_STARTED, k)
      else if \<not> ts_preemptive (kr_state k) then (THREAD_STATUS_NOT_PREEMPTIVE, k)
      else let k = k\<lparr>kr_state := (kr_state k)\<lparr>ts_preemptive := False\<rparr>\<rparr>;
               k = (if kr_quantum_identifier k \<noteq> THREAD_ID_NONE
                    then k\<lparr>kr_env := sv_timer_cancel sv (kr_quantum_identifier k) (kr_env k),
                           kr_quantum_identifier := THREAD_ID_NONE\<rparr> else k)
           in (THREAD_STATUS_OK, k\<lparr>kr_reschedule_pending := False\<rparr>))"

definition thread_preemption_enabled :: "'e kernel \<Rightarrow> bool" where
  "thread_preemption_enabled k = (ts_active (kr_state k) \<and> ts_preemptive (kr_state k))"

definition thread_exit :: "code_layout \<Rightarrow> 'e kernel \<Rightarrow> string + 'e kernel" where
  "thread_exit code k =
     (if \<not> ts_active (kr_state k) then Inl ''a thread exited before threads were started''
      else let k = cpu_interrupt_disable k; previous = kr_current_slot k in
        if th_boot_thread (kr_table k ! previous) then Inl ''the boot thread cannot exit''
        else let k = set_state previous THREAD_STATE_EXITED k; next = next_ready_slot previous k in
          if next = previous then Inl ''the last runnable thread exited''
          else let k = recount (account_switch next (set_state next THREAD_STATE_RUNNING k))
            in resume code (thread_switch_context (cl_after_exit code) previous
                              (th_stack_pointer (kr_table k ! next)) k))"

text \<open>
  \<open>thread_join\<close> up to its loop: a refusal, or the slot it waits for.  The loop tests
  \<open>join_finished\<close> and yields while that is false.
\<close>

definition thread_join :: "u64 \<Rightarrow> 'e kernel \<Rightarrow> thread_status + nat" where
  "thread_join identifier k =
     (if \<not> ts_active (kr_state k) then Inl THREAD_STATUS_NOT_STARTED
      else case find_thread identifier k of
        None \<Rightarrow> Inl THREAD_STATUS_BAD_IDENTIFIER
      | Some slot \<Rightarrow>
          if th_identifier (kr_table k ! slot) = th_identifier (kr_table k ! kr_current_slot k)
          then Inl THREAD_STATUS_BAD_IDENTIFIER else Inr slot)"

definition join_finished :: "nat \<Rightarrow> 'e kernel \<Rightarrow> bool" where
  "join_finished slot k = (th_state (kr_table k ! slot) = THREAD_STATE_EXITED)"

section \<open>Starting, creating, stopping\<close>

definition thread_start :: "'e services \<Rightarrow> 'e kernel \<Rightarrow> thread_status \<times> 'e kernel" where
  "thread_start sv k =
     (if ts_active (kr_state k) then (THREAD_STATUS_ALREADY_STARTED, k)
      else if cpu_interrupts_enabled k then (THREAD_STATUS_INTERRUPTS_ENABLED, k)
      else if \<not> sv_heap_active sv (kr_env k) \<or> \<not> ps_active (pg_state (kr_paging k)) then (THREAD_STATUS_NO_HEAP, k)
      else case sv_heap_allocate sv (mul64 THREAD_MAX 64) (kr_env k) of
        (None, env) \<Rightarrow> (THREAD_STATUS_NO_MEMORY, k\<lparr>kr_env := env\<rparr>)
      | (Some table, env) \<Rightarrow>
          let boot = cleared_thread\<lparr>th_identifier := 1, th_state := THREAD_STATE_RUNNING, th_boot_thread := True\<rparr> in
          (THREAD_STATUS_OK, recount (k\<lparr>kr_env := env, kr_threads := Some table,
             kr_table := (replicate THREAD_MAX cleared_thread)[0 := boot], kr_next_identifier := 2,
             kr_current_slot := 0, kr_reschedule_pending := False, kr_quantum_identifier := THREAD_ID_NONE,
             kr_state := (kr_state k)\<lparr>ts_capacity := THREAD_MAX, ts_switches := 0, ts_stack_frames := 0,
               ts_current := th_identifier boot, ts_preemptions := 0, ts_preemptive := False, ts_active := True\<rparr>\<rparr>)))"

definition thread_create ::
  "code_layout \<Rightarrow> u64 option \<Rightarrow> u64 \<Rightarrow> bool \<Rightarrow> 'e kernel \<Rightarrow> thread_status \<times> u64 option \<times> 'e kernel" where
  "thread_create code entry context_address identifier_null k =
     (if entry = None \<or> identifier_null then (THREAD_STATUS_NULL_ARGUMENT, None, k)
      else if \<not> ts_active (kr_state k) then (THREAD_STATUS_NOT_STARTED, Some THREAD_ID_NONE, k)
      else if cpu_interrupts_enabled k then (THREAD_STATUS_INTERRUPTS_ENABLED, Some THREAD_ID_NONE, k)
      else case find_from (\<lambda>slot. th_state (kr_table k ! slot) = THREAD_STATE_UNUSED) 1 (ts_capacity (kr_state k)) of
        None \<Rightarrow> (THREAD_STATUS_NO_CAPACITY, Some THREAD_ID_NONE, k)
      | Some chosen \<Rightarrow>
          (case map_stack chosen k of
             (status, k) \<Rightarrow>
               if status \<noteq> THREAD_STATUS_OK then (status, Some THREAD_ID_NONE, k)
               else
                 let t = (kr_table k ! chosen)\<lparr>th_identifier := kr_next_identifier k, th_entry := entry,
                       th_context := context_address, th_stack_base := slot_stack_base chosen,
                       th_stack_top := slot_stack_top chosen, th_switches := 0, th_boot_thread := False\<rparr>;
                     prepared = prepare_frame code t (kr_memory k);
                     t = (fst prepared)\<lparr>th_state := THREAD_STATE_READY\<rparr>
                 in (THREAD_STATUS_OK, Some (th_identifier t),
                     recount (set_thread chosen t (k\<lparr>kr_next_identifier := add64 (kr_next_identifier k) 1,
                                                     kr_memory := snd prepared\<rparr>)))))"

definition stop_slot :: "nat \<Rightarrow> 'e kernel \<Rightarrow> (thread_status \<times> 'e kernel) + 'e kernel" where
  "stop_slot slot k =
     (if th_state (kr_table k ! slot) = THREAD_STATE_EXITED then
        (case unmap_stack slot k of
           (status, k) \<Rightarrow> if status \<noteq> THREAD_STATUS_OK then Inl (status, k)
                         else Inr (set_thread slot cleared_thread k))
      else Inr k)"

definition thread_stop :: "'e services \<Rightarrow> 'e kernel \<Rightarrow> thread_status \<times> 'e kernel" where
  "thread_stop sv k =
     (if \<not> ts_active (kr_state k) then (THREAD_STATUS_NOT_STARTED, k)
      else if cpu_interrupts_enabled k then (THREAD_STATUS_INTERRUPTS_ENABLED, k)
      else if \<not> th_boot_thread (kr_table k ! kr_current_slot k) then (THREAD_STATUS_NOT_THE_BOOT_THREAD, k)
      else let k = (if ts_preemptive (kr_state k) then snd (thread_disable_preemption sv k) else k) in
        if find_from (\<lambda>slot. th_state (kr_table k ! slot) = THREAD_STATE_READY \<or>
                              th_state (kr_table k ! slot) = THREAD_STATE_RUNNING) 1 (ts_capacity (kr_state k)) \<noteq> None
        then (THREAD_STATUS_THREADS_STILL_RUNNABLE, k)
        else (case fold_until stop_slot [1..<ts_capacity (kr_state k)] k of
          Inl failure \<Rightarrow> failure
        | Inr k \<Rightarrow>
            if ts_stack_frames (kr_state k) \<noteq> 0 then (THREAD_STATUS_VALIDATION_FAILURE, k)
            else (case sv_heap_free sv (kr_threads k) (kr_env k) of
              (freed, env) \<Rightarrow>
                let k = k\<lparr>kr_env := env\<rparr> in
                if \<not> freed then (THREAD_STATUS_VALIDATION_FAILURE, k)
                else (THREAD_STATUS_OK, k\<lparr>kr_threads := None, kr_reschedule_pending := False,
                  kr_quantum_identifier := THREAD_ID_NONE, kr_current_slot := 0,
                  kr_state := (kr_state k)\<lparr>ts_active := False, ts_preemptive := False, ts_capacity := 0,
                    ts_live := 0, ts_ready := 0, ts_exited := 0, ts_current := THREAD_ID_NONE\<rparr>\<rparr>))))"

section \<open>Reports and verification\<close>

definition thread_is_started :: "'e kernel \<Rightarrow> bool" where
  "thread_is_started k = ts_active (kr_state k)"

definition thread_current :: "'e kernel \<Rightarrow> u64" where
  "thread_current k = (if ts_active (kr_state k) then th_identifier (kr_table k ! kr_current_slot k) else THREAD_ID_NONE)"

definition thread_report :: "u64 \<Rightarrow> bool \<Rightarrow> 'e kernel \<Rightarrow> thread_status \<times> thread_state_report option" where
  "thread_report identifier report_null k =
     (if report_null then (THREAD_STATUS_NULL_ARGUMENT, None)
      else if \<not> ts_active (kr_state k) then (THREAD_STATUS_NOT_STARTED, None)
      else case find_thread identifier k of
        None \<Rightarrow> (THREAD_STATUS_BAD_IDENTIFIER, None)
      | Some slot \<Rightarrow>
          let t = kr_table k ! slot in
          (THREAD_STATUS_OK, Some \<lparr>rp_identifier = th_identifier t, rp_stack_base = th_stack_base t,
             rp_stack_top = th_stack_top t,
             rp_guard_page = (if th_boot_thread t then 0 else slot_guard_page slot),
             rp_switches = th_switches t, rp_state = th_state t, rp_boot_thread = th_boot_thread t\<rparr>))"

text \<open>One page and one slot of \<open>thread_verify\<close>; the slot counts the live and the running.\<close>

definition stack_page_ok :: "u64 \<Rightarrow> paging \<Rightarrow> nat \<Rightarrow> bool" where
  "stack_page_ok base p page =
     (case paging_translate (add64 base (mul64 page PAGING_PAGE_SIZE)) False p of
        (status, translation) \<Rightarrow>
          \<not> (status \<noteq> PAGING_STATUS_OK \<or> tr_permissions (the translation) \<noteq> PAGING_WRITE \<or>
             tr_level (the translation) \<noteq> 1))"

definition verify_slot :: "'e kernel \<Rightarrow> nat \<Rightarrow> nat \<times> nat \<Rightarrow> thread_status + nat \<times> nat" where
  "verify_slot k slot counts =
     (let t = kr_table k ! slot; refuse = Inl THREAD_STATUS_VALIDATION_FAILURE in
      if th_state t = THREAD_STATE_UNUSED then Inr counts
      else let counts = (fst counts + 1, snd counts + (if th_state t = THREAD_STATE_RUNNING then 1 else 0)) in
        if th_boot_thread t then (if slot \<noteq> 0 \<or> th_stack_top t \<noteq> 0 then refuse else Inr counts)
        else if th_stack_base t \<noteq> slot_stack_base slot \<or> th_stack_top t \<noteq> slot_stack_top slot then refuse
        else if fst (paging_translate (slot_guard_page slot) False (kr_paging k)) \<noteq> PAGING_STATUS_NOT_MAPPED then refuse
        else if \<not> list_all (stack_page_ok (th_stack_base t) (kr_paging k)) [0..<THREAD_STACK_PAGES] then refuse
        else if th_state t \<noteq> THREAD_STATE_EXITED \<and> th_state t \<noteq> THREAD_STATE_RUNNING \<and>
                (th_stack_pointer t < th_stack_base t \<or> th_stack_pointer t > th_stack_top t) then refuse
        else Inr counts)"

definition thread_verify :: "'e kernel \<Rightarrow> thread_status" where
  "thread_verify k =
     (if \<not> ts_active (kr_state k) then THREAD_STATUS_NOT_STARTED
      else if kr_threads k = None then THREAD_STATUS_VALIDATION_FAILURE
      else case fold_until (verify_slot k) [0..<ts_capacity (kr_state k)] (0, 0) of
        Inl status \<Rightarrow> status
      | Inr (live, running) \<Rightarrow>
          if running \<noteq> 1 \<or> live \<noteq> ts_live (kr_state k) + ts_exited (kr_state k)
          then THREAD_STATUS_VALIDATION_FAILURE else THREAD_STATUS_OK)"

fun thread_state_string :: "thread_state \<Rightarrow> string" where
  "thread_state_string THREAD_STATE_READY = ''ready''"
| "thread_state_string THREAD_STATE_RUNNING = ''running''"
| "thread_state_string THREAD_STATE_EXITED = ''exited''"
| "thread_state_string THREAD_STATE_UNUSED = ''unused''"

fun thread_status_string :: "thread_status \<Rightarrow> string" where
  "thread_status_string THREAD_STATUS_OK = ''ok''"
| "thread_status_string THREAD_STATUS_NULL_ARGUMENT = ''null thread argument''"
| "thread_status_string THREAD_STATUS_ALREADY_STARTED = ''threads are already started''"
| "thread_status_string THREAD_STATUS_NOT_STARTED = ''threads are not started''"
| "thread_status_string THREAD_STATUS_INTERRUPTS_ENABLED = ''thread operation needs interrupts disabled''"
| "thread_status_string THREAD_STATUS_NO_HEAP = ''threads need the kernel heap and page tables''"
| "thread_status_string THREAD_STATUS_NO_MEMORY = ''thread table could not be allocated''"
| "thread_status_string THREAD_STATUS_NO_CAPACITY = ''thread capacity is exhausted''"
| "thread_status_string THREAD_STATUS_OUT_OF_FRAMES = ''no physical frame for a thread stack''"
| "thread_status_string THREAD_STATUS_MAPPING_FAILURE = ''a thread stack could not be mapped''"
| "thread_status_string THREAD_STATUS_BAD_IDENTIFIER = ''no thread carries that identifier''"
| "thread_status_string THREAD_STATUS_NOT_THE_BOOT_THREAD = ''only the boot thread may stop the scheduler''"
| "thread_status_string THREAD_STATUS_THREADS_STILL_RUNNABLE = ''a thread is still runnable''"
| "thread_status_string THREAD_STATUS_NO_TIMER = ''preemption needs the deadline timer started''"
| "thread_status_string THREAD_STATUS_NO_QUANTUM = ''the scheduler could not arm a quantum''"
| "thread_status_string THREAD_STATUS_ALREADY_PREEMPTIVE = ''preemption is already enabled''"
| "thread_status_string THREAD_STATUS_NOT_PREEMPTIVE = ''preemption is not enabled''"
| "thread_status_string THREAD_STATUS_VALIDATION_FAILURE = ''thread table does not match the address space''"

end
