(* ===== verification/Thread_Schedule.thy ===== *)
theory Thread_Schedule
  imports Kernel_Thread
begin

text \<open>
  Scheduling of \<open>Kernel_Thread\<close>: the rotation, the round trip of a context switch, the
  invariant of the table and what each operation does to it, and how long a ready thread
  waits.
\<close>

unbundle bit_operations_syntax

section \<open>Slots and rotation\<close>

lemma thread_consts:
  "THREAD_MAX = 8" "THREAD_STACK_PAGES = 4" "THREAD_STACK_SIZE = 16384" "THREAD_STACK_STRIDE = 20480"
  "THREAD_STACK_REGION = 0x800000000" "PREPARED_FRAME_SIZE = 64"
  by (simp_all add: THREAD_MAX_def THREAD_STACK_PAGES_def THREAD_STACK_SIZE_def THREAD_STACK_STRIDE_def
      THREAD_STACK_REGION_def PREPARED_FRAME_SIZE_def PREPARED_SLOTS_def PAGING_PAGE_SIZE_def)

lemma slot_addresses:
  assumes "slot < 8"
  shows "slot_guard_page slot = 0x800000000 + slot * 20480"
    and "slot_stack_base slot = 0x800000000 + slot * 20480 + 4096"
    and "slot_stack_top slot = 0x800000000 + slot * 20480 + 20480"
proof -
  have small: "slot * 20480 < 163840" using assms by simp
  then show g: "slot_guard_page slot = 0x800000000 + slot * 20480"
    by (simp add: slot_guard_page_def thread_consts add64_def mul64_def)
  show b: "slot_stack_base slot = 0x800000000 + slot * 20480 + 4096"
    using small by (simp add: slot_stack_base_def g PAGING_PAGE_SIZE_def add64_def)
  show "slot_stack_top slot = 0x800000000 + slot * 20480 + 20480"
    using small by (simp add: slot_stack_top_def b thread_consts add64_def)
qed

text \<open>How many steps of the rotation lead from one slot to another: between one and the capacity.\<close>

definition gap :: "nat \<Rightarrow> nat \<Rightarrow> nat \<Rightarrow> nat" where
  "gap capacity a b = (if a < b then b - a else b + capacity - a)"

lemma gap_bounds: "a < c \<Longrightarrow> b < c \<Longrightarrow> 1 \<le> gap c a b \<and> gap c a b \<le> c"
  "a < c \<Longrightarrow> b < c \<Longrightarrow> a \<noteq> b \<Longrightarrow> gap c a b < c"
  by (auto simp: gap_def)

lemma gap_reaches: "a < c \<Longrightarrow> b < c \<Longrightarrow> (a + gap c a b) mod c = b"
  by (auto simp: gap_def)

lemma gap_of_step:
  assumes "a < c" "1 \<le> step" "step \<le> c"
  shows "gap c a ((a + step) mod c) = step"
proof (cases "a + step < c")
  case True
  then show ?thesis using assms by (simp add: gap_def)
next
  case False
  then have "(a + step) mod c = a + step - c"
    using assms by (simp add: le_mod_geq)
  then show ?thesis using assms False by (auto simp: gap_def)
qed

lemma gap_advance:
  assumes "a < c" "b < c" "n < c" "gap c a n < gap c a b"
  shows "gap c n b + gap c a n = gap c a b"
  using assms by (auto simp: gap_def split: if_splits)

lemma gap_inj: "a < c \<Longrightarrow> b < c \<Longrightarrow> n < c \<Longrightarrow> gap c a n = gap c a b \<Longrightarrow> n = b"
  by (auto simp: gap_def split: if_splits)

definition is_ready :: "'e kernel \<Rightarrow> nat \<Rightarrow> bool" where
  "is_ready k slot \<longleftrightarrow> th_state (kr_table k ! slot) = THREAD_STATE_READY"

lemma next_ready_slot_some:
  assumes c: "c = ts_capacity (kr_state k)" "start < c" and j: "j < c" "is_ready k j"
  shows "next_ready_slot start k < c" "is_ready k (next_ready_slot start k)"
    "gap c start (next_ready_slot start k) \<le> gap c start j"
proof -
  let ?P = "\<lambda>step. th_state (kr_table k ! ((start + step) mod c)) = THREAD_STATE_READY"
  note g = gap_bounds(1) [OF c(2) j(1)] gap_reaches [OF c(2) j(1)]
  have "?P (gap c start j)" using g j(2) by (simp add: is_ready_def)
  then obtain step where step: "find_from ?P 1 (c + 1) = Some step"
    using find_from_exists [of 1 "gap c start j" "c + 1" ?P] g by auto
  note D = find_from_SomeD [OF step]
  have n: "next_ready_slot start k = (start + step) mod c"
    using step by (simp add: next_ready_slot_def Let_def c(1) [symmetric])
  show "next_ready_slot start k < c" using c(2) by (simp add: n)
  show "is_ready k (next_ready_slot start k)" using D by (simp add: n is_ready_def)
  have "step \<le> gap c start j"
  proof (rule ccontr)
    assume "\<not> step \<le> gap c start j"
    then show False using D g \<open>?P (gap c start j)\<close> by auto
  qed
  then show "gap c start (next_ready_slot start k) \<le> gap c start j"
    unfolding n using gap_of_step [OF c(2), of step] D by simp
qed

lemma next_ready_slot_none:
  assumes "\<And>j. j < ts_capacity (kr_state k) \<Longrightarrow> \<not> is_ready k j" "start < ts_capacity (kr_state k)"
  shows "next_ready_slot start k = start"
proof -
  let ?c = "ts_capacity (kr_state k)"
  have "find_from (\<lambda>step. th_state (kr_table k ! ((start + step) mod ?c)) = THREAD_STATE_READY) 1 (?c + 1) = None"
    using assms by (auto simp: find_from_None_iff is_ready_def)
  then show ?thesis by (simp add: next_ready_slot_def)
qed

section \<open>Counts\<close>

lemma recount_eq:
  assumes "ts_capacity (kr_state k) = length (kr_table k)"
  shows "recount k = k\<lparr>kr_state := (kr_state k)\<lparr>
    ts_live := count_if (\<lambda>t. th_state t = THREAD_STATE_READY \<or> th_state t = THREAD_STATE_RUNNING) (kr_table k),
    ts_ready := count_if (\<lambda>t. th_state t = THREAD_STATE_READY) (kr_table k),
    ts_exited := count_if (\<lambda>t. th_state t = THREAD_STATE_EXITED) (kr_table k)\<rparr>\<rparr>"
proof -
  let ?s = "kr_state k" and ?T = "kr_table k"
  have "fold (count_thread k) [0..<n] (?s\<lparr>ts_live := 0, ts_ready := 0, ts_exited := 0\<rparr>) = ?s\<lparr>
    ts_live := count_if (\<lambda>t. th_state t = THREAD_STATE_READY \<or> th_state t = THREAD_STATE_RUNNING) (take n ?T),
    ts_ready := count_if (\<lambda>t. th_state t = THREAD_STATE_READY) (take n ?T),
    ts_exited := count_if (\<lambda>t. th_state t = THREAD_STATE_EXITED) (take n ?T)\<rparr>" if "n \<le> length ?T" for n
    using that
  proof (induction n)
    case (Suc n)
    then have t: "take (Suc n) ?T = take n ?T @ [?T ! n]" by (simp add: take_Suc_conv_app_nth)
    show ?case using Suc unfolding t
      by (cases "th_state (?T ! n)") (simp_all add: count_thread_def)
  qed simp
  from this [of "length ?T"] show ?thesis using assms by (simp add: recount_def)
qed

section \<open>The context switch\<close>

definition frame_below :: "u64 \<Rightarrow> u64 set" where
  "frame_below sp = {sp - 64..<sp}"

lemma saved_words_at:
  assumes "64 \<le> rg_rsp r" "rg_rsp r < 2 ^ 64"
  shows "saved_words ret r m (rg_rsp r - 8) = ret" "saved_words ret r m (rg_rsp r - 16) = rg_rflags r"
    "saved_words ret r m (rg_rsp r - 24) = rg_rbp r" "saved_words ret r m (rg_rsp r - 32) = rg_rbx r"
    "saved_words ret r m (rg_rsp r - 40) = rg_r12 r" "saved_words ret r m (rg_rsp r - 48) = rg_r13 r"
    "saved_words ret r m (rg_rsp r - 56) = rg_r14 r" "saved_words ret r m (rg_rsp r - 64) = rg_r15 r"
    "x \<notin> frame_below (rg_rsp r) \<Longrightarrow> saved_words ret r m x = m x"
proof -
  obtain b where b: "rg_rsp r = b + 64" using assms(1) by (metis add.commute le_Suc_ex)
  have s: "sub64 (b + 64) n = b + 64 - n" if "n \<le> 64" for n using that assms b by (simp add: sub64_id)
  note w = saved_words_def Let_def b s
  show "saved_words ret r m (rg_rsp r - 8) = ret" "saved_words ret r m (rg_rsp r - 16) = rg_rflags r"
    "saved_words ret r m (rg_rsp r - 24) = rg_rbp r" "saved_words ret r m (rg_rsp r - 32) = rg_rbx r"
    "saved_words ret r m (rg_rsp r - 40) = rg_r12 r" "saved_words ret r m (rg_rsp r - 48) = rg_r13 r"
    "saved_words ret r m (rg_rsp r - 56) = rg_r14 r" "saved_words ret r m (rg_rsp r - 64) = rg_r15 r"
    by (simp_all add: w)
  show "saved_words ret r m x = m x" if "x \<notin> frame_below (rg_rsp r)"
    using that by (auto simp: w frame_below_def)
qed

text \<open>What was pushed is what is popped.\<close>

lemma loaded_saved:
  assumes sp: "64 \<le> rg_rsp r" "rg_rsp r < 2 ^ 64"
    and same: "\<And>x. x \<in> frame_below (rg_rsp r) \<Longrightarrow> m' x = saved_words ret r m x"
  shows "loaded_registers (sub64 (rg_rsp r) 64) m' = r\<lparr>rg_rip := ret\<rparr>"
proof -
  obtain b where b: "rg_rsp r = b + 64" using sp(1) by (metis add.commute le_Suc_ex)
  have s: "sub64 (b + 64) 64 = b" using sp b by (simp add: sub64_id)
  have a: "add64 b n = b + n" if "n \<le> 64" for n
    using that sp b by (cases "b + n < 2 ^ 64") (simp_all add: add64_id)
  have m: "m' (b + n) = saved_words ret r m (b + n)" if "n < 64" for n
    using same that by (simp add: frame_below_def b)
  note at = saved_words_at [OF sp, where ret = ret and m = m, unfolded b]
  have "m' b = rg_r15 r" using m [of 0] at(8) by simp
  moreover have "m' (b + 8) = rg_r14 r" using m [of 8] at(7) by (simp add: add.commute)
  moreover have "m' (b + 16) = rg_r13 r" using m [of 16] at(6) by (simp add: add.commute)
  moreover have "m' (b + 24) = rg_r12 r" using m [of 24] at(5) by (simp add: add.commute)
  moreover have "m' (b + 32) = rg_rbx r" using m [of 32] at(4) by (simp add: add.commute)
  moreover have "m' (b + 40) = rg_rbp r" using m [of 40] at(3) by (simp add: add.commute)
  moreover have "m' (b + 48) = rg_rflags r" using m [of 48] at(2) by (simp add: add.commute)
  moreover have "m' (b + 56) = ret" using m [of 56] at(1) by (simp add: add.commute)
  ultimately show ?thesis by (simp add: loaded_registers_def b s a)
qed

text \<open>The interrupt flag.\<close>

lemma bit_512: "bit (0x200 :: nat) n \<longleftrightarrow> n = 9"
proof -
  have "bit (2 ^ 9 :: nat) n \<longleftrightarrow> n = 9" by (simp only: bit_exp_iff) auto
  then show ?thesis by simp
qed

lemma bit_not64_512: "bit (not64 0x200) n \<longleftrightarrow> n < 64 \<and> n \<noteq> 9"
proof -
  have "not64 0x200 = mask 64 XOR 0x200" by (simp only: not64_def mask_eq_exp_minus_1)
  then show ?thesis by (simp only: bit_xor_iff bit_mask_iff bit_512) auto
qed

lemma u64_bit_less: "(x :: nat) < 2 ^ 64 \<Longrightarrow> bit x n \<Longrightarrow> n < 64"
proof (rule ccontr)
  assume "x < 2 ^ 64" "bit x n" "\<not> n < 64"
  then have "x < 2 ^ n" by (meson less_le_trans not_less one_le_numeral power_increasing)
  with \<open>bit x n\<close> show False by (simp add: bit_iff_odd)
qed

lemma interrupt_flag_restored:
  assumes "f < 2 ^ 64"
  shows "(if f AND RFLAGS_INTERRUPT_ENABLE \<noteq> 0
     then (f AND not64 RFLAGS_INTERRUPT_ENABLE) OR RFLAGS_INTERRUPT_ENABLE
     else f AND not64 RFLAGS_INTERRUPT_ENABLE) = f"
proof -
  have z: "f AND 0x200 = 0 \<longleftrightarrow> \<not> bit f 9"
  proof
    assume "f AND 0x200 = 0"
    then have "\<not> bit (f AND 0x200) 9" by (simp only: bit_0_eq) simp
    then show "\<not> bit f 9" by (simp only: bit_and_iff bit_512) simp
  next
    assume n: "\<not> bit f 9"
    show "f AND 0x200 = 0"
      by (rule bit_eqI) (use n in \<open>auto simp only: bit_and_iff bit_512 bit_0_eq bot_apply bot_bool_def\<close>)
  qed
  show ?thesis
    unfolding RFLAGS_INTERRUPT_ENABLE_def z
    by (rule bit_eqI) (use u64_bit_less [OF assms] in \<open>auto simp: bit_and_iff bit_or_iff bit_not64_512 bit_512\<close>)
qed

lemma interrupts_off: "(f AND not64 RFLAGS_INTERRUPT_ENABLE) AND RFLAGS_INTERRUPT_ENABLE = 0"
  by (rule bit_eqI) (auto simp: RFLAGS_INTERRUPT_ENABLE_def bit_and_iff bit_not64_512 bit_512)

lemma kernel_simps [simp]:
  "kr_registers (set_thread i t k) = kr_registers k" "kr_memory (set_thread i t k) = kr_memory k"
  "kr_locals (set_thread i t k) = kr_locals k" "kr_paging (set_thread i t k) = kr_paging k"
  "kr_state (set_thread i t k) = kr_state k" "kr_current_slot (set_thread i t k) = kr_current_slot k"
  "kr_table (set_thread i t k) = (kr_table k)[i := t]" "kr_threads (set_thread i t k) = kr_threads k"
  "kr_next_identifier (set_thread i t k) = kr_next_identifier k"
  "kr_env (set_thread i t k) = kr_env k"
  "kr_table (recount k) = kr_table k" "kr_memory (recount k) = kr_memory k" "kr_locals (recount k) = kr_locals k"
  "kr_registers (recount k) = kr_registers k" "kr_paging (recount k) = kr_paging k"
  "kr_current_slot (recount k) = kr_current_slot k" "kr_threads (recount k) = kr_threads k"
  "kr_next_identifier (recount k) = kr_next_identifier k" "kr_env (recount k) = kr_env k"
  by (simp_all add: set_thread_def recount_def)

lemma interrupt_simps [simp]:
  "kr_table (cpu_interrupt_disable k) = kr_table k" "kr_state (cpu_interrupt_disable k) = kr_state k"
  "kr_memory (cpu_interrupt_disable k) = kr_memory k" "kr_locals (cpu_interrupt_disable k) = kr_locals k"
  "kr_current_slot (cpu_interrupt_disable k) = kr_current_slot k" "kr_paging (cpu_interrupt_disable k) = kr_paging k"
  "kr_threads (cpu_interrupt_disable k) = kr_threads k"
  "kr_next_identifier (cpu_interrupt_disable k) = kr_next_identifier k"
  "kr_table (cpu_interrupt_enable k) = kr_table k" "kr_state (cpu_interrupt_enable k) = kr_state k"
  "kr_memory (cpu_interrupt_enable k) = kr_memory k" "kr_locals (cpu_interrupt_enable k) = kr_locals k"
  "kr_current_slot (cpu_interrupt_enable k) = kr_current_slot k" "kr_paging (cpu_interrupt_enable k) = kr_paging k"
  "kr_threads (cpu_interrupt_enable k) = kr_threads k"
  "kr_next_identifier (cpu_interrupt_enable k) = kr_next_identifier k"
  "rg_rsp (kr_registers (cpu_interrupt_disable k)) = rg_rsp (kr_registers k)"
  by (simp_all add: cpu_interrupt_disable_def cpu_interrupt_enable_def)

lemma next_ready_cong:
  "kr_table k' = kr_table k \<Longrightarrow> ts_capacity (kr_state k') = ts_capacity (kr_state k) \<Longrightarrow>
     next_ready_slot s k' = next_ready_slot s k"
  by (simp add: next_ready_slot_def)

text \<open>A switch with a successor, in one piece: the table, then the registers.\<close>

definition handed_table :: "nat \<Rightarrow> thread_state \<Rightarrow> nat \<Rightarrow> u64 \<Rightarrow> thread list \<Rightarrow> thread list" where
  "handed_table previous st next sp T =
     T[next := (T ! next)\<lparr>th_state := THREAD_STATE_RUNNING, th_switches := add64 (th_switches (T ! next)) 1\<rparr>,
       previous := (T ! previous)\<lparr>th_state := st, th_stack_pointer := sp\<rparr>]"

definition handed_over :: "u64 \<Rightarrow> thread_state \<Rightarrow> bool option \<Rightarrow> nat \<Rightarrow> 'e kernel \<Rightarrow> 'e kernel" where
  "handed_over ret st local next k =
     (let previous = kr_current_slot k; r = kr_registers k; memory = saved_words ret r (kr_memory k);
          sp = sub64 (rg_rsp r) 64; T = handed_table previous st next sp (kr_table k)
      in k\<lparr>kr_table := T, kr_current_slot := next, kr_memory := memory,
           kr_locals := (case local of Some b \<Rightarrow> (kr_locals k)(sp := b) | None \<Rightarrow> kr_locals k),
           kr_registers := loaded_registers (th_stack_pointer (kr_table k ! next)) memory,
           kr_state := (kr_state k)\<lparr>ts_switches := add64 (ts_switches (kr_state k)) 1,
             ts_current := th_identifier (kr_table k ! next),
             ts_live := count_if (\<lambda>t. th_state t = THREAD_STATE_READY \<or> th_state t = THREAD_STATE_RUNNING) T,
             ts_ready := count_if (\<lambda>t. th_state t = THREAD_STATE_READY) T,
             ts_exited := count_if (\<lambda>t. th_state t = THREAD_STATE_EXITED) T\<rparr>\<rparr>)"

lemma count_if_same:
  assumes "i < length xs" "P y = P (xs ! i)"
  shows "count_if P (xs[i := y]) = count_if P xs"
  using count_if_update [OF assms(1), of P y] assms(2) by simp

lemma handed_over_eq:
  assumes cap: "ts_capacity (kr_state k) = length (kr_table k)"
    and p: "kr_current_slot k < length (kr_table k)" and n: "next < length (kr_table k)" "next \<noteq> kr_current_slot k"
    and k1: "k1 = recount (account_switch next (set_state next THREAD_STATE_RUNNING (set_state (kr_current_slot k) st k)))"
    and k2: "k2 = (case local of Some b \<Rightarrow> k1\<lparr>kr_locals := (kr_locals k1)(sub64 (rg_rsp (kr_registers k)) 64 := b)\<rparr> | None \<Rightarrow> k1)"
  shows "thread_switch_context ret (kr_current_slot k) (th_stack_pointer (kr_table k2 ! next)) k2 =
    handed_over ret st local next k"
proof -
  let ?T = "kr_table k" and ?p = "kr_current_slot k"
  define T1 where "T1 = ?T[?p := (?T ! ?p)\<lparr>th_state := st\<rparr>,
    next := (?T ! next)\<lparr>th_state := THREAD_STATE_RUNNING, th_switches := add64 (th_switches (?T ! next)) 1\<rparr>]"
  have t1: "kr_table k1 = T1"
    using n p by (simp add: k1 account_switch_def set_state_def Let_def T1_def)
  have len: "length T1 = length ?T" by (simp add: T1_def)
  have st1: "kr_state k1 = (kr_state k)\<lparr>ts_switches := add64 (ts_switches (kr_state k)) 1,
      ts_current := th_identifier (?T ! next),
      ts_live := count_if (\<lambda>t. th_state t = THREAD_STATE_READY \<or> th_state t = THREAD_STATE_RUNNING) T1,
      ts_ready := count_if (\<lambda>t. th_state t = THREAD_STATE_READY) T1,
      ts_exited := count_if (\<lambda>t. th_state t = THREAD_STATE_EXITED) T1\<rparr>"
    unfolding k1 using n p cap
    by (subst recount_eq) (simp_all add: account_switch_def set_state_def Let_def T1_def)
  define T2 where "T2 = handed_table ?p st next (sub64 (rg_rsp (kr_registers k)) 64) ?T"
  have T2: "T2 = T1[?p := (T1 ! ?p)\<lparr>th_stack_pointer := sub64 (rg_rsp (kr_registers k)) 64\<rparr>]"
  proof (rule nth_equalityI)
    fix i assume "i < length T2"
    then show "T2 ! i = T1[?p := (T1 ! ?p)\<lparr>th_stack_pointer := sub64 (rg_rsp (kr_registers k)) 64\<rparr>] ! i"
      using n p by (auto simp: T2_def handed_table_def T1_def nth_list_update)
  qed (simp add: T2_def handed_table_def T1_def)
  have c: "count_if (\<lambda>t. Q (th_state t)) T2 = count_if (\<lambda>t. Q (th_state t)) T1" for Q
    unfolding T2 using p len by (intro count_if_same) simp_all
  note c1 = c [of "\<lambda>s. s = THREAD_STATE_READY \<or> s = THREAD_STATE_RUNNING"] c [of "\<lambda>s. s = THREAD_STATE_READY"]
    c [of "\<lambda>s. s = THREAD_STATE_EXITED"]
  have others: "kr_registers k1 = kr_registers k" "kr_memory k1 = kr_memory k" "kr_locals k1 = kr_locals k"
    "kr_current_slot k1 = next"
    by (simp_all add: k1 account_switch_def set_state_def Let_def)
  have t2: "kr_table k2 = T1" "kr_registers k2 = kr_registers k" "kr_memory k2 = kr_memory k"
    using t1 others by (simp_all add: k2 split: option.split)
  have load: "th_stack_pointer (T1 ! next) = th_stack_pointer (?T ! next)" using n p by (simp add: T1_def)
  have rest: "k1 = k\<lparr>kr_table := T1, kr_current_slot := next, kr_state := kr_state k1\<rparr>"
    unfolding t1 [symmetric] by (simp add: k1 account_switch_def set_state_def set_thread_def recount_def Let_def)
  have "thread_switch_context ret ?p (th_stack_pointer (kr_table k2 ! next)) k2 =
     k2\<lparr>kr_memory := saved_words ret (kr_registers k) (kr_memory k),
        kr_registers := loaded_registers (th_stack_pointer (?T ! next)) (saved_words ret (kr_registers k) (kr_memory k)),
        kr_table := T2\<rparr>"
    unfolding thread_switch_context_def t2 load by (simp add: set_thread_def t2 T2 Let_def)
  also have "\<dots> = handed_over ret st local next k"
    unfolding handed_over_def Let_def T2_def [symmetric] c1
    by (cases local) (simp_all add: k2, (subst rest, simp add: st1)+)
  finally show ?thesis .
qed

section \<open>The invariant of the scheduler\<close>

text \<open>
  \<open>B\<close> is the stack the boot thread was started on; the stack of any other slot lies in the
  thread region.  A ready thread has its frame on its own stack, and the frame returns to one of
  the two places a switch may resume.
\<close>

definition own_stack :: "u64 set \<Rightarrow> nat \<Rightarrow> u64 set" where
  "own_stack B slot = (if slot = 0 then B else {slot_stack_base slot..<slot_stack_top slot})"

definition boot_stack_ok :: "u64 set \<Rightarrow> bool" where
  "boot_stack_ok B \<longleftrightarrow> B \<subseteq> {..<2 ^ 64 - 64} \<and> (\<forall>a \<in> B. a < 0x800000000 \<or> 0x800028000 \<le> a)"

definition code_ok :: "code_layout \<Rightarrow> bool" where
  "code_ok code \<longleftrightarrow> cl_trampoline code \<noteq> cl_after_switch code \<and> cl_trampoline code \<noteq> cl_after_exit code \<and>
     cl_after_switch code \<noteq> cl_after_exit code"

definition frame_at :: "u64 \<Rightarrow> u64 set" where
  "frame_at sp = {sp..<sp + 64}"

definition saved_ok :: "code_layout \<Rightarrow> u64 set \<Rightarrow> (u64 \<Rightarrow> u64) \<Rightarrow> nat \<Rightarrow> u64 \<Rightarrow> bool" where
  "saved_ok code B m slot sp \<longleftrightarrow> frame_at sp \<subseteq> own_stack B slot \<and>
     m (sp + 56) \<in> {cl_trampoline code, cl_after_switch code}"

definition slot_ok :: "code_layout \<Rightarrow> u64 set \<Rightarrow> 'e kernel \<Rightarrow> nat \<Rightarrow> thread \<Rightarrow> bool" where
  "slot_ok code B k slot t \<longleftrightarrow>
     (th_state t = THREAD_STATE_RUNNING \<longleftrightarrow> slot = kr_current_slot k) \<and>
     (th_boot_thread t \<longleftrightarrow> slot = 0) \<and>
     (slot = 0 \<longrightarrow> (th_state t = THREAD_STATE_READY \<or> th_state t = THREAD_STATE_RUNNING) \<and>
        th_identifier t = 1 \<and> th_stack_top t = 0) \<and>
     (slot \<noteq> 0 \<longrightarrow> th_state t \<noteq> THREAD_STATE_UNUSED \<longrightarrow>
        1 < th_identifier t \<and> th_identifier t < kr_next_identifier k \<and>
        th_stack_base t = slot_stack_base slot \<and> th_stack_top t = slot_stack_top slot) \<and>
     (th_state t = THREAD_STATE_READY \<longrightarrow> saved_ok code B (kr_memory k) slot (th_stack_pointer t))"

definition identifiers_ok :: "thread list \<Rightarrow> bool" where
  "identifiers_ok T \<longleftrightarrow> (\<forall>i < length T. \<forall>j < length T. th_state (T ! i) \<noteq> THREAD_STATE_UNUSED \<longrightarrow>
     th_state (T ! j) \<noteq> THREAD_STATE_UNUSED \<longrightarrow> th_identifier (T ! i) = th_identifier (T ! j) \<longrightarrow> i = j)"

definition counts_ok :: "'e kernel \<Rightarrow> bool" where
  "counts_ok k \<longleftrightarrow>
     ts_live (kr_state k) = count_if (\<lambda>t. th_state t = THREAD_STATE_READY \<or> th_state t = THREAD_STATE_RUNNING) (kr_table k) \<and>
     ts_ready (kr_state k) = count_if (\<lambda>t. th_state t = THREAD_STATE_READY) (kr_table k) \<and>
     ts_exited (kr_state k) = count_if (\<lambda>t. th_state t = THREAD_STATE_EXITED) (kr_table k)"

definition sched_ok :: "code_layout \<Rightarrow> u64 set \<Rightarrow> 'e kernel \<Rightarrow> bool" where
  "sched_ok code B k \<longleftrightarrow> code_ok code \<and> boot_stack_ok B \<and> ts_active (kr_state k) \<and> kr_threads k \<noteq> None \<and>
     ts_capacity (kr_state k) = 8 \<and> length (kr_table k) = 8 \<and> kr_current_slot k < 8 \<and> 1 < kr_next_identifier k \<and>
     (\<forall>slot < 8. slot_ok code B k slot (kr_table k ! slot)) \<and> identifiers_ok (kr_table k) \<and> counts_ok k"

text \<open>The running thread has room for the frame of a switch on its own stack.\<close>

definition room :: "u64 set \<Rightarrow> 'e kernel \<Rightarrow> bool" where
  "room B k \<longleftrightarrow> 64 \<le> rg_rsp (kr_registers k) \<and> rg_rsp (kr_registers k) < 2 ^ 64 \<and>
     rg_rflags (kr_registers k) < 2 ^ 64 \<and> frame_below (rg_rsp (kr_registers k)) \<subseteq> own_stack B (kr_current_slot k)"

lemma sched_okD:
  assumes "sched_ok code B k"
  shows "code_ok code" "boot_stack_ok B" "ts_active (kr_state k)" "kr_threads k \<noteq> None" "ts_capacity (kr_state k) = 8"
    "length (kr_table k) = 8" "kr_current_slot k < 8" "1 < kr_next_identifier k"
    "slot < 8 \<Longrightarrow> slot_ok code B k slot (kr_table k ! slot)" "identifiers_ok (kr_table k)" "counts_ok k"
  using assms by (simp_all add: sched_ok_def)

lemma own_stack_in: "slot < 8 \<Longrightarrow> slot \<noteq> 0 \<Longrightarrow> a \<in> own_stack B slot \<Longrightarrow>
    0x800000000 + slot * 20480 + 4096 \<le> a \<and> a < 0x800000000 + slot * 20480 + 20480"
  by (simp add: own_stack_def slot_addresses)

lemma own_stacks_apart:
  assumes "boot_stack_ok B" "i < 8" "j < 8" "a \<in> own_stack B i" "a \<in> own_stack B j"
  shows "i = j"
proof -
  have split: "(n = 0 \<and> (a < 0x800000000 \<or> 0x800028000 \<le> a)) \<or>
      (n \<noteq> 0 \<and> 0x800000000 + n * 20480 + 4096 \<le> a \<and> a < 0x800000000 + n * 20480 + 20480)"
    if "n < 8" "a \<in> own_stack B n" for n
    using own_stack_in [OF that(1) _ that(2)] that assms(1) by (cases "n = 0") (auto simp: boot_stack_ok_def own_stack_def)
  show ?thesis using split [OF assms(2,4)] split [OF assms(3,5)] assms(2,3) by linarith
qed

lemma own_stack_small: "boot_stack_ok B \<Longrightarrow> slot < 8 \<Longrightarrow> a \<in> own_stack B slot \<Longrightarrow> a < 2 ^ 64 - 64"
  using own_stack_in [of slot a B] by (cases "slot = 0") (auto simp: own_stack_def boot_stack_ok_def)

lemma frame_small:
  assumes "boot_stack_ok B" "slot < 8" "frame_at sp \<subseteq> own_stack B slot"
  shows "sp + 64 < 2 ^ 64"
proof -
  have "sp \<in> frame_at sp" by (simp add: frame_at_def)
  then show ?thesis using own_stack_small [OF assms(1,2), of sp] assms(3) by auto
qed

lemma loaded_at:
  assumes "sp + 64 < 2 ^ 64"
  shows "loaded_registers sp m = \<lparr>rg_r15 = m sp, rg_r14 = m (sp + 8), rg_r13 = m (sp + 16), rg_r12 = m (sp + 24),
    rg_rbx = m (sp + 32), rg_rbp = m (sp + 40), rg_rflags = m (sp + 48), rg_rip = m (sp + 56), rg_rsp = sp + 64\<rparr>"
  using assms by (simp add: loaded_registers_def add64_id)

lemma loaded_cong:
  assumes "sp + 64 < 2 ^ 64" "\<And>a. a \<in> frame_at sp \<Longrightarrow> m' a = m a"
  shows "loaded_registers sp m' = loaded_registers sp m"
  unfolding loaded_at [OF assms(1)] using assms(2) by (simp add: frame_at_def)

text \<open>A thread off the processor: what its frame holds, and the local of its suspended call.\<close>

definition parked :: "'e kernel \<Rightarrow> nat \<Rightarrow> registers \<Rightarrow> bool \<Rightarrow> bool" where
  "parked k slot r b \<longleftrightarrow> th_state (kr_table k ! slot) = THREAD_STATE_READY \<and>
     loaded_registers (th_stack_pointer (kr_table k ! slot)) (kr_memory k) = r \<and>
     kr_locals k (th_stack_pointer (kr_table k ! slot)) = b"

text \<open>What \<open>resume\<close> does when it does not panic.\<close>

definition awake :: "code_layout \<Rightarrow> bool \<Rightarrow> 'e kernel \<Rightarrow> 'e kernel" where
  "awake code b k = (if rg_rip (kr_registers k) = cl_after_switch code \<and> b then cpu_interrupt_enable k else k)"

lemma awake_simps [simp]:
  "kr_table (awake code b k) = kr_table k" "kr_state (awake code b k) = kr_state k"
  "kr_memory (awake code b k) = kr_memory k" "kr_locals (awake code b k) = kr_locals k"
  "kr_current_slot (awake code b k) = kr_current_slot k" "kr_paging (awake code b k) = kr_paging k"
  "kr_threads (awake code b k) = kr_threads k" "kr_next_identifier (awake code b k) = kr_next_identifier k"
  by (simp_all add: awake_def)

lemma handed_over_simps [simp]:
  "kr_paging (handed_over ret st loc n k) = kr_paging k" "kr_threads (handed_over ret st loc n k) = kr_threads k"
  "kr_next_identifier (handed_over ret st loc n k) = kr_next_identifier k"
  "kr_current_slot (handed_over ret st loc n k) = n"
  "kr_table (handed_over ret st loc n k) = handed_table (kr_current_slot k) st n (sub64 (rg_rsp (kr_registers k)) 64) (kr_table k)"
  "kr_memory (handed_over ret st loc n k) = saved_words ret (kr_registers k) (kr_memory k)"
  "kr_locals (handed_over ret st loc n k) = (case loc of Some b \<Rightarrow> (kr_locals k)(sub64 (rg_rsp (kr_registers k)) 64 := b) | None \<Rightarrow> kr_locals k)"
  "kr_registers (handed_over ret st loc n k) =
     loaded_registers (th_stack_pointer (kr_table k ! n)) (saved_words ret (kr_registers k) (kr_memory k))"
  "ts_active (kr_state (handed_over ret st loc n k)) = ts_active (kr_state k)"
  "ts_capacity (kr_state (handed_over ret st loc n k)) = ts_capacity (kr_state k)"
  "ts_stack_frames (kr_state (handed_over ret st loc n k)) = ts_stack_frames (kr_state k)"
  "counts_ok (handed_over ret st loc n k)"
  by (simp_all add: handed_over_def Let_def counts_ok_def)

lemma handed_table_nth:
  assumes "i < length T" "n < length T" "p < length T" "n \<noteq> p"
  shows "handed_table p st n sp T ! i =
    (if i = p then (T ! p)\<lparr>th_state := st, th_stack_pointer := sp\<rparr>
     else if i = n then (T ! n)\<lparr>th_state := THREAD_STATE_RUNNING, th_switches := add64 (th_switches (T ! n)) 1\<rparr>
     else T ! i)"
  using assms by (auto simp: handed_table_def nth_list_update)

lemma handed_table_length [simp]: "length (handed_table p st n sp T) = length T"
  by (simp add: handed_table_def)

section \<open>A switch keeps the invariant\<close>

text \<open>What a step that is not a switch may change: the memory outside the stacks of the others.\<close>

definition others_kept :: "u64 set \<Rightarrow> 'e kernel \<Rightarrow> 'e kernel \<Rightarrow> bool" where
  "others_kept B k k' \<longleftrightarrow> kr_table k' = kr_table k \<and> kr_current_slot k' = kr_current_slot k \<and>
     kr_threads k' = kr_threads k \<and> kr_next_identifier k' = kr_next_identifier k \<and>
     ts_active (kr_state k') = ts_active (kr_state k) \<and> ts_capacity (kr_state k') = ts_capacity (kr_state k) \<and>
     ts_live (kr_state k') = ts_live (kr_state k) \<and> ts_ready (kr_state k') = ts_ready (kr_state k) \<and>
     ts_exited (kr_state k') = ts_exited (kr_state k) \<and>
     kr_locals k' = kr_locals k \<and>
     (\<forall>slot < 8. slot \<noteq> kr_current_slot k \<longrightarrow> (\<forall>a \<in> own_stack B slot. kr_memory k' a = kr_memory k a))"

lemma saved_ok_cong:
  assumes "\<And>a. a \<in> own_stack B slot \<Longrightarrow> m' a = m a" "saved_ok code B m slot sp"
  shows "saved_ok code B m' slot sp"
proof -
  have "sp + 56 \<in> frame_at sp" by (simp add: frame_at_def)
  then have "m' (sp + 56) = m (sp + 56)" using assms by (auto simp: saved_ok_def)
  then show ?thesis using assms(2) by (simp add: saved_ok_def)
qed

lemma others_kept_ok:
  assumes ok: "sched_ok code B k" and kept: "others_kept B k k'"
  shows "sched_ok code B k'"
proof -
  have "slot_ok code B k' slot (kr_table k' ! slot)" if s: "slot < 8" for slot
  proof -
    let ?t = "kr_table k ! slot"
    have so: "slot_ok code B k slot ?t" by (rule sched_okD(9) [OF ok s])
    have "saved_ok code B (kr_memory k') slot (th_stack_pointer ?t)" if "th_state ?t = THREAD_STATE_READY"
    proof -
      have "slot \<noteq> kr_current_slot k" using so that by (auto simp: slot_ok_def)
      then show ?thesis using so that kept s
        by (intro saved_ok_cong [of B slot "kr_memory k'" "kr_memory k"]) (auto simp: slot_ok_def others_kept_def)
    qed
    then show ?thesis using so kept by (simp add: slot_ok_def others_kept_def)
  qed
  then show ?thesis using ok kept by (simp add: sched_ok_def others_kept_def counts_ok_def)
qed

lemma others_kept_parked:
  assumes ok: "sched_ok code B k" and kept: "others_kept B k k'" and i: "i < 8" and p: "parked k i r b"
  shows "parked k' i r b"
proof -
  let ?sp = "th_stack_pointer (kr_table k ! i)"
  have ready: "th_state (kr_table k ! i) = THREAD_STATE_READY" using p by (simp add: parked_def)
  have so: "slot_ok code B k i (kr_table k ! i)" by (rule sched_okD(9) [OF ok i])
  then have nc: "i \<noteq> kr_current_slot k" and fr: "frame_at ?sp \<subseteq> own_stack B i"
    using ready by (auto simp: slot_ok_def saved_ok_def)
  have "loaded_registers ?sp (kr_memory k') = loaded_registers ?sp (kr_memory k)"
    by (rule loaded_cong [OF frame_small [OF sched_okD(2) [OF ok] i fr]])
      (use kept i nc fr in \<open>auto simp: others_kept_def\<close>)
  then show ?thesis using p kept by (simp add: parked_def others_kept_def)
qed

lemma disable_kept: "others_kept B k (cpu_interrupt_disable k)"
  "others_kept B k (cpu_interrupt_enable k)"
  by (simp_all add: others_kept_def cpu_interrupt_disable_def cpu_interrupt_enable_def)

lemma and_less:
  assumes "(x :: nat) < 2 ^ 64"
  shows "x AND y < 2 ^ 64"
proof -
  have "take_bit 64 (x AND y) = x AND y"
    by (rule bit_eqI) (use u64_bit_less [OF assms] in \<open>auto simp: bit_take_bit_iff bit_and_iff\<close>)
  then show ?thesis by (metis take_bit_nat_less_exp)
qed

lemma disable_room: "room B k \<Longrightarrow> room B (cpu_interrupt_disable k)"
  using and_less [of "rg_rflags (kr_registers k)" "not64 RFLAGS_INTERRUPT_ENABLE"]
  by (simp add: room_def) (simp add: cpu_interrupt_disable_def)

lemma ready_not_current: "sched_ok code B k \<Longrightarrow> n < 8 \<Longrightarrow> is_ready k n \<Longrightarrow> n \<noteq> kr_current_slot k"
  using sched_okD(9) [of code B k n] by (auto simp: is_ready_def slot_ok_def)

lemma running_current: "sched_ok code B k \<Longrightarrow> th_state (kr_table k ! kr_current_slot k) = THREAD_STATE_RUNNING"
  using sched_okD(9) [of code B k "kr_current_slot k"] sched_okD(7) [of code B k] by (auto simp: slot_ok_def)

text \<open>The frame a switch pushes, and what it leaves alone.\<close>

lemma pushed:
  assumes ok: "sched_ok code B k" and rm: "room B k"
  shows "sub64 (rg_rsp (kr_registers k)) 64 = rg_rsp (kr_registers k) - 64"
    "frame_at (rg_rsp (kr_registers k) - 64) = frame_below (rg_rsp (kr_registers k))"
    "saved_ok code B (saved_words (cl_after_switch code) (kr_registers k) (kr_memory k)) (kr_current_slot k)
       (rg_rsp (kr_registers k) - 64)"
    "loaded_registers (rg_rsp (kr_registers k) - 64) (saved_words ret (kr_registers k) (kr_memory k)) =
       (kr_registers k)\<lparr>rg_rip := ret\<rparr>"
    "slot < 8 \<Longrightarrow> slot \<noteq> kr_current_slot k \<Longrightarrow> a \<in> own_stack B slot \<Longrightarrow>
       saved_words ret (kr_registers k) (kr_memory k) a = kr_memory k a"
    "slot < 8 \<Longrightarrow> slot \<noteq> kr_current_slot k \<Longrightarrow> frame_at sp \<subseteq> own_stack B slot \<Longrightarrow>
       sp \<noteq> rg_rsp (kr_registers k) - 64"
proof -
  let ?sp = "rg_rsp (kr_registers k)"
  have r: "64 \<le> ?sp" "?sp < 2 ^ 64" "frame_below ?sp \<subseteq> own_stack B (kr_current_slot k)" using rm by (simp_all add: room_def)
  show s: "sub64 ?sp 64 = ?sp - 64" using r by (simp add: sub64_id)
  show f: "frame_at (?sp - 64) = frame_below ?sp" using r by (simp add: frame_at_def frame_below_def)
  have "?sp - 64 + 56 = ?sp - 8" using r by simp
  then show "saved_ok code B (saved_words (cl_after_switch code) (kr_registers k) (kr_memory k)) (kr_current_slot k) (?sp - 64)"
    using r f saved_words_at(1) [OF r(1,2), of "cl_after_switch code"] by (simp add: saved_ok_def)
  show "loaded_registers (?sp - 64) (saved_words ret (kr_registers k) (kr_memory k)) = (kr_registers k)\<lparr>rg_rip := ret\<rparr>"
    using loaded_saved [OF r(1,2), of _ ret "kr_memory k"] s by simp
  show "saved_words ret (kr_registers k) (kr_memory k) a = kr_memory k a"
    if "slot < 8" "slot \<noteq> kr_current_slot k" "a \<in> own_stack B slot"
  proof (rule saved_words_at(9) [OF r(1,2)])
    show "a \<notin> frame_below ?sp"
      using own_stacks_apart [OF sched_okD(2) [OF ok] that(1) sched_okD(7) [OF ok] that(3)] r(3) that(2) by auto
  qed
  show "sp \<noteq> ?sp - 64" if "slot < 8" "slot \<noteq> kr_current_slot k" "frame_at sp \<subseteq> own_stack B slot"
  proof
    assume e: "sp = ?sp - 64"
    have "sp \<in> frame_at sp" by (simp add: frame_at_def)
    then have "sp \<in> own_stack B slot" "sp \<in> own_stack B (kr_current_slot k)" using that(3) r(3) f e by auto
    then show False using own_stacks_apart [OF sched_okD(2) [OF ok] that(1) sched_okD(7) [OF ok]] that(2) by auto
  qed
qed

definition leaves_as :: "code_layout \<Rightarrow> 'e kernel \<Rightarrow> u64 \<Rightarrow> thread_state \<Rightarrow> bool" where
  "leaves_as code k ret st \<longleftrightarrow> (st = THREAD_STATE_READY \<and> ret = cl_after_switch code) \<or>
     (st = THREAD_STATE_EXITED \<and> kr_current_slot k \<noteq> 0)"

lemma handed_ok:
  assumes ok: "sched_ok code B k" and rm: "room B k" and n: "n < 8" "is_ready k n" and st: "leaves_as code k ret st"
  shows "sched_ok code B (handed_over ret st loc n k)"
proof -
  let ?p = "kr_current_slot k" and ?k' = "handed_over ret st loc n k" and ?T = "kr_table k"
  note d = sched_okD [OF ok] and pu = pushed [OF ok rm]
  have np: "n \<noteq> ?p" by (rule ready_not_current [OF ok n])
  have nth: "kr_table ?k' ! i = (if i = ?p then (?T ! ?p)\<lparr>th_state := st, th_stack_pointer := rg_rsp (kr_registers k) - 64\<rparr>
     else if i = n then (?T ! n)\<lparr>th_state := THREAD_STATE_RUNNING, th_switches := add64 (th_switches (?T ! n)) 1\<rparr>
     else ?T ! i)" if "i < 8" for i
    using handed_table_nth [of i ?T n ?p st] that n d np by (simp add: pu(1))
  have slots: "slot_ok code B ?k' i (kr_table ?k' ! i)" if i: "i < 8" for i
  proof -
    have so: "slot_ok code B k i (?T ! i)" by (rule d(9) [OF i])
    consider "i = ?p" | "i = n" "i \<noteq> ?p" | "i \<noteq> n" "i \<noteq> ?p" by blast
    then show ?thesis
    proof cases
      case 1
      then show ?thesis using so nth [OF i] st running_current [OF ok] pu(3) np by (auto simp: slot_ok_def leaves_as_def)
    next
      case 2
      then show ?thesis using so nth [OF i] n(2) by (auto simp: slot_ok_def is_ready_def)
    next
      case 3
      have "saved_ok code B (kr_memory ?k') i (th_stack_pointer (?T ! i))" if "th_state (?T ! i) = THREAD_STATE_READY"
        using so that pu(5) [OF i 3(2)]
        by (intro saved_ok_cong [of B i "kr_memory ?k'" "kr_memory k"]) (auto simp: slot_ok_def)
      then show ?thesis using so nth [OF i] 3 by (simp add: slot_ok_def)
    qed
  qed
  have same: "th_identifier (kr_table ?k' ! i) = th_identifier (?T ! i) \<and>
      (th_state (kr_table ?k' ! i) = THREAD_STATE_UNUSED \<longleftrightarrow> th_state (?T ! i) = THREAD_STATE_UNUSED)" if "i < 8" for i
    using nth [OF that] st running_current [OF ok] n(2) by (auto simp: leaves_as_def is_ready_def)
  have "identifiers_ok (kr_table ?k')"
    using d(6,10) same unfolding identifiers_ok_def by auto
  then show ?thesis using d slots n(1) unfolding sched_ok_def by simp
qed

lemma handed_parked:
  assumes ok: "sched_ok code B k" and rm: "room B k" and n: "n < 8" "is_ready k n" and st: "leaves_as code k ret st"
  shows "i < 8 \<Longrightarrow> i \<noteq> kr_current_slot k \<Longrightarrow> i \<noteq> n \<Longrightarrow> parked k i r b \<Longrightarrow> parked (handed_over ret st loc n k) i r b"
    and "parked k n r b \<Longrightarrow> kr_registers (handed_over ret st loc n k) = r"
    and "parked k n r b \<Longrightarrow>
      kr_locals (handed_over ret st loc n k) (sub64 (rg_rsp (kr_registers (handed_over ret st loc n k))) 64) = b"
    and "st = THREAD_STATE_READY \<Longrightarrow> loc = Some b \<Longrightarrow>
      parked (handed_over ret st loc n k) (kr_current_slot k) ((kr_registers k)\<lparr>rg_rip := ret\<rparr>) b"
proof -
  let ?p = "kr_current_slot k" and ?k' = "handed_over ret st loc n k" and ?T = "kr_table k"
  let ?m' = "saved_words ret (kr_registers k) (kr_memory k)"
  note d = sched_okD [OF ok] and pu = pushed [OF ok rm]
  have np: "n \<noteq> ?p" by (rule ready_not_current [OF ok n])
  have frame: "frame_at (th_stack_pointer (?T ! i)) \<subseteq> own_stack B i" if "i < 8" "parked k i r b" for i r b
    using d(9) [OF that(1)] that(2) by (simp add: slot_ok_def saved_ok_def parked_def)
  have load: "loaded_registers (th_stack_pointer (?T ! i)) ?m' = r" if "i < 8" "i \<noteq> ?p" "parked k i r b" for i r b
    using loaded_cong [OF frame_small [OF d(2) that(1) frame [OF that(1,3)]], of ?m' "kr_memory k"]
      pu(5) [OF that(1,2)] frame [OF that(1,3)] that(3) by (auto simp: parked_def)
  have loc': "kr_locals ?k' (th_stack_pointer (?T ! i)) = b" if "i < 8" "i \<noteq> ?p" "parked k i r b" for i r b
    using pu(6) [OF that(1,2) frame [OF that(1,3)]] that(3) by (auto simp: parked_def pu(1) split: option.split)
  show "parked ?k' i r b" if "i < 8" "i \<noteq> ?p" "i \<noteq> n" "parked k i r b"
    using handed_table_nth [of i ?T n ?p st] that n d np load [OF that(1,2,4)] loc' [OF that(1,2,4)]
    by (simp add: parked_def del: handed_over_simps(7)) 
  show regs: "kr_registers ?k' = r" if "parked k n r b" using load [OF n(1) np that] by simp
  show "kr_locals ?k' (sub64 (rg_rsp (kr_registers ?k')) 64) = b" if "parked k n r b"
  proof -
    have "sub64 (rg_rsp (kr_registers ?k')) 64 = th_stack_pointer (?T ! n)"
      using frame_small [OF d(2) n(1) frame [OF n(1) that]] by (simp add: loaded_at sub64_id)
    then show ?thesis using loc' [OF n(1) np that] by simp
  qed
  show "parked ?k' ?p ((kr_registers k)\<lparr>rg_rip := ret\<rparr>) b" if "st = THREAD_STATE_READY" "loc = Some b"
    using handed_table_nth [of ?p ?T n ?p st] that n d np pu(1,4) by (simp add: parked_def)
qed

section \<open>The operations\<close>

definition next_slot :: "'e kernel \<Rightarrow> nat" where
  "next_slot k = next_ready_slot (kr_current_slot k) k"

lemma next_slot_cases:
  assumes ok: "sched_ok code B k"
  obtains "next_slot k = kr_current_slot k" "\<And>i. i < 8 \<Longrightarrow> \<not> is_ready k i"
  | "next_slot k < 8" "is_ready k (next_slot k)" "next_slot k \<noteq> kr_current_slot k"
proof (cases "\<exists>i < 8. is_ready k i")
  case True
  then obtain i where i: "i < 8" "is_ready k i" by blast
  note d = sched_okD [OF ok]
  note s = next_ready_slot_some [of 8 k "kr_current_slot k" i]
  have "next_slot k < 8" "is_ready k (next_slot k)" using s d i by (simp_all add: next_slot_def)
  then show thesis using that(2) ready_not_current [OF ok] by blast
next
  case False
  then have "\<And>i. i < 8 \<Longrightarrow> \<not> is_ready k i" by blast
  then show thesis using that(1) next_ready_slot_none [of k "kr_current_slot k"] sched_okD [OF ok] by (simp add: next_slot_def)
qed

lemma next_ready_slot_unready:
  assumes "th_state (kr_table k ! j) \<noteq> THREAD_STATE_READY" "st \<noteq> THREAD_STATE_READY" "j < length (kr_table k)"
  shows "next_ready_slot s (set_state j st k) = next_ready_slot s k"
proof -
  have "th_state (kr_table (set_state j st k) ! i) = THREAD_STATE_READY \<longleftrightarrow> th_state (kr_table k ! i) = THREAD_STATE_READY" for i
    using assms by (cases "i = j") (simp_all add: set_state_def)
  moreover have "kr_state (set_state j st k) = kr_state k" by (simp add: set_state_def)
  ultimately show ?thesis by (simp add: next_ready_slot_def)
qed

lemma disabled_enabled:
  assumes "rg_rflags (kr_registers k) < 2 ^ 64"
  shows "(if cpu_interrupts_enabled k then cpu_interrupt_enable (cpu_interrupt_disable k) else cpu_interrupt_disable k) = k"
proof -
  let ?f = "rg_rflags (kr_registers k)"
  have "(if cpu_interrupts_enabled k then cpu_interrupt_enable (cpu_interrupt_disable k) else cpu_interrupt_disable k) =
     k\<lparr>kr_registers := (kr_registers k)\<lparr>rg_rflags := (if ?f AND RFLAGS_INTERRUPT_ENABLE \<noteq> 0
       then (?f AND not64 RFLAGS_INTERRUPT_ENABLE) OR RFLAGS_INTERRUPT_ENABLE else ?f AND not64 RFLAGS_INTERRUPT_ENABLE)\<rparr>\<rparr>"
    by (simp add: cpu_interrupts_enabled_def cpu_interrupt_enable_def cpu_interrupt_disable_def)
  then show ?thesis using interrupt_flag_restored [OF assms] by simp
qed

text \<open>A ready thread has something to resume, and resuming it does not panic.\<close>

lemma ready_parked:
  assumes ok: "sched_ok code B k" and i: "i < 8" "is_ready k i"
  obtains r b where "parked k i r b" "rg_rip r \<in> {cl_trampoline code, cl_after_switch code}"
proof -
  let ?sp = "th_stack_pointer (kr_table k ! i)"
  have so: "saved_ok code B (kr_memory k) i ?sp" using sched_okD(9) [OF ok i(1)] i(2) by (simp add: slot_ok_def is_ready_def)
  then have "?sp + 64 < 2 ^ 64" using frame_small [OF sched_okD(2) [OF ok] i(1)] by (simp add: saved_ok_def)
  then have "rg_rip (loaded_registers ?sp (kr_memory k)) \<in> {cl_trampoline code, cl_after_switch code}"
    using so by (simp add: loaded_at saved_ok_def)
  moreover have "parked k i (loaded_registers ?sp (kr_memory k)) (kr_locals k ?sp)" using i(2) by (simp add: parked_def is_ready_def)
  ultimately show thesis using that by blast
qed

lemma parked_rip:
  assumes "sched_ok code B k" "i < 8" "parked k i r b"
  shows "rg_rip r \<in> {cl_trampoline code, cl_after_switch code}"
proof -
  have "is_ready k i" using assms(3) by (simp add: parked_def is_ready_def)
  from ready_parked [OF assms(1,2) this] show ?thesis using assms(3) by (auto simp: parked_def)
qed

lemma resume_parked:
  assumes ok: "sched_ok code B k" and rm: "room B k" and n: "n < 8" "is_ready k n" and st: "leaves_as code k ret st"
    and p: "parked k n r b"
  shows "resume code (handed_over ret st loc n k) = Inr (awake code b (handed_over ret st loc n k))"
proof -
  note h = handed_parked(2,3) [OF ok rm n st p, of loc]
  show ?thesis
    using parked_rip [OF ok n(1) p] sched_okD(1) [OF ok] h
    unfolding resume_def awake_def by (auto simp: code_ok_def simp del: handed_over_simps)
qed

lemma kept_ready: "others_kept B k k' \<Longrightarrow> is_ready k' i = is_ready k i \<and> next_slot k' = next_slot k"
  by (simp add: others_kept_def is_ready_def next_slot_def next_ready_slot_def)

text \<open>A yield either finds no one ready and changes nothing, or hands over.\<close>

lemma switch_to_next_alone:
  assumes "next_slot k = kr_current_slot k" "room B k"
  shows "switch_to_next code k = Inr k"
proof -
  have "next_ready_slot (kr_current_slot k) (cpu_interrupt_disable k) = kr_current_slot k"
    using assms(1) kept_ready [OF disable_kept(1) [where k = k]] by (simp add: next_slot_def)
  then show ?thesis using disabled_enabled [of k] assms(2) by (simp add: switch_to_next_def Let_def room_def)
qed

lemma switch_to_next_hands_over:
  assumes ok: "sched_ok code B k" and rm: "room B k" and n: "next_slot k \<noteq> kr_current_slot k"
    and p: "parked k (next_slot k) r b"
  shows "switch_to_next code k = Inr (awake code b (handed_over (cl_after_switch code) THREAD_STATE_READY
      (Some (cpu_interrupts_enabled k)) (next_slot k) (cpu_interrupt_disable k)))"
proof -
  let ?k0 = "cpu_interrupt_disable k" and ?n = "next_slot k"
  have kept: "others_kept B k ?k0" by (rule disable_kept)
  note ok0 = others_kept_ok [OF ok kept] and rm0 = disable_room [OF rm]
  have n8: "?n < 8" "is_ready k ?n" using next_slot_cases [OF ok] n by auto
  note d = sched_okD [OF ok0]
  have n0: "next_ready_slot (kr_current_slot ?k0) ?k0 = ?n" using kept_ready [OF kept] by (simp add: next_slot_def)
  have run: "th_state (kr_table ?k0 ! kr_current_slot ?k0) = THREAD_STATE_RUNNING" by (rule running_current [OF ok0])
  have nn: "?n \<noteq> kr_current_slot ?k0" using n by simp
  let ?k1 = "recount (account_switch ?n (set_state ?n THREAD_STATE_RUNNING (set_state (kr_current_slot ?k0) THREAD_STATE_READY ?k0)))"
  have len: "?n < length (kr_table ?k0)" "kr_current_slot ?k0 < length (kr_table ?k0)" using n8 d by simp_all
  have regs: "kr_registers (account_switch i (set_state j st k)) = kr_registers k" for i j st and k :: "'a kernel"
    by (simp add: account_switch_def set_state_def Let_def)
  have regs': "kr_registers (set_state j st k) = kr_registers k" for j st and k :: "'a kernel"
    by (simp add: set_state_def)
  have cap: "ts_capacity (kr_state ?k0) = length (kr_table ?k0)" using d by simp
  note eq = handed_over_eq [OF cap len(2,1) nn refl, where local = "Some (cpu_interrupts_enabled k)" and ret = "cl_after_switch code"
      and st = THREAD_STATE_READY, simplified option.case, OF refl]
  have "switch_to_next code k = resume code (handed_over (cl_after_switch code) THREAD_STATE_READY
      (Some (cpu_interrupts_enabled k)) ?n ?k0)"
    unfolding switch_to_next_def Let_def n0 eq [symmetric]
    using n run by (simp add: regs regs')
  also have "\<dots> = Inr (awake code b (handed_over (cl_after_switch code) THREAD_STATE_READY
      (Some (cpu_interrupts_enabled k)) ?n ?k0))"
  proof (rule resume_parked [OF ok0 rm0 n8(1)])
    show "is_ready ?k0 ?n" using n8 kept_ready [OF kept] by simp
    show "parked ?k0 ?n r b" by (rule others_kept_parked [OF ok kept n8(1) p])
  qed (simp add: leaves_as_def)
  finally show ?thesis .
qed

lemma thread_exit_hands_over:
  assumes ok: "sched_ok code B k" and rm: "room B k" and c: "kr_current_slot k \<noteq> 0" and n: "next_slot k \<noteq> kr_current_slot k"
    and p: "parked k (next_slot k) r b"
  shows "thread_exit code k = Inr (awake code b (handed_over (cl_after_exit code) THREAD_STATE_EXITED None
      (next_slot k) (cpu_interrupt_disable k)))"
proof -
  let ?k0 = "cpu_interrupt_disable k" and ?n = "next_slot k"
  have kept: "others_kept B k ?k0" by (rule disable_kept)
  note ok0 = others_kept_ok [OF ok kept] and rm0 = disable_room [OF rm]
  have n8: "?n < 8" "is_ready k ?n" using next_slot_cases [OF ok] n by auto
  note d = sched_okD [OF ok0]
  have run: "th_state (kr_table ?k0 ! kr_current_slot ?k0) = THREAD_STATE_RUNNING" by (rule running_current [OF ok0])
  have len: "?n < length (kr_table ?k0)" "kr_current_slot ?k0 < length (kr_table ?k0)" using n8 d by simp_all
  have boot: "\<not> th_boot_thread (kr_table ?k0 ! kr_current_slot ?k0)" using d(9) [OF d(7)] c by (simp add: slot_ok_def)
  have n0: "next_ready_slot (kr_current_slot ?k0) (set_state (kr_current_slot ?k0) THREAD_STATE_EXITED ?k0) = ?n"
    using kept_ready [OF kept] next_ready_slot_unready [OF _ _ len(2)] run by (simp add: next_slot_def)
  have nn: "?n \<noteq> kr_current_slot ?k0" using n by simp
  have cap: "ts_capacity (kr_state ?k0) = length (kr_table ?k0)" using d by simp
  note eq = handed_over_eq [OF cap len(2,1) nn refl, where local = None and ret = "cl_after_exit code"
      and st = THREAD_STATE_EXITED, simplified option.case, OF refl]
  have "thread_exit code k = resume code (handed_over (cl_after_exit code) THREAD_STATE_EXITED None ?n ?k0)"
    unfolding thread_exit_def Let_def n0 eq [symmetric]
    using sched_okD(3) [OF ok] boot n nn by simp
  also have "\<dots> = Inr (awake code b (handed_over (cl_after_exit code) THREAD_STATE_EXITED None ?n ?k0))"
  proof (rule resume_parked [OF ok0 rm0 n8(1)])
    show "is_ready ?k0 ?n" using n8 kept_ready [OF kept] by simp
    show "parked ?k0 ?n r b" by (rule others_kept_parked [OF ok kept n8(1) p])
  qed (use c in \<open>simp add: leaves_as_def\<close>)
  finally show ?thesis .
qed

lemma thread_exit_refused:
  assumes ok: "sched_ok code B k"
  shows "kr_current_slot k = 0 \<Longrightarrow> thread_exit code k = Inl ''the boot thread cannot exit''"
    and "kr_current_slot k \<noteq> 0 \<Longrightarrow> next_slot k = kr_current_slot k \<Longrightarrow>
      thread_exit code k = Inl ''the last runnable thread exited''"
proof -
  let ?k0 = "cpu_interrupt_disable k"
  have kept: "others_kept B k ?k0" by (rule disable_kept)
  note ok0 = others_kept_ok [OF ok kept]
  note d = sched_okD [OF ok0]
  have boot: "th_boot_thread (kr_table ?k0 ! kr_current_slot ?k0) \<longleftrightarrow> kr_current_slot k = 0"
    using d(9) [OF d(7)] by (simp add: slot_ok_def)
  show "thread_exit code k = Inl ''the boot thread cannot exit''" if "kr_current_slot k = 0"
    using sched_okD(3) [OF ok] boot that by (simp add: thread_exit_def Let_def)
  have run: "th_state (kr_table ?k0 ! kr_current_slot ?k0) = THREAD_STATE_RUNNING" by (rule running_current [OF ok0])
  have len: "kr_current_slot ?k0 < length (kr_table ?k0)" using d by simp
  have n0: "next_ready_slot (kr_current_slot ?k0) (set_state (kr_current_slot ?k0) THREAD_STATE_EXITED ?k0) = next_slot k"
    using kept_ready [OF kept] next_ready_slot_unready [OF _ _ len] run by (simp add: next_slot_def)
  show "thread_exit code k = Inl ''the last runnable thread exited''"
    if "kr_current_slot k \<noteq> 0" "next_slot k = kr_current_slot k"
    unfolding thread_exit_def Let_def n0 using sched_okD(3) [OF ok] boot that by simp
qed

section \<open>Creating a thread\<close>

definition first_registers :: "code_layout \<Rightarrow> thread \<Rightarrow> registers" where
  "first_registers code t = \<lparr>rg_r15 = 0, rg_r14 = 0, rg_r13 = th_context t,
     rg_r12 = (case th_entry t of Some entry \<Rightarrow> entry | None \<Rightarrow> 0), rg_rbx = 0, rg_rbp = 0,
     rg_rflags = INITIAL_RFLAGS, rg_rip = cl_trampoline code, rg_rsp = th_stack_top t\<rparr>"

lemma prepare_frame_eq:
  assumes "64 \<le> th_stack_top t" "th_stack_top t < 2 ^ 64"
  shows "fst (prepare_frame code t m) = t\<lparr>th_stack_pointer := th_stack_top t - 64\<rparr>"
    "loaded_registers (th_stack_top t - 64) (snd (prepare_frame code t m)) = first_registers code t"
    "snd (prepare_frame code t m) (th_stack_top t - 8) = cl_trampoline code"
    "a \<notin> frame_below (th_stack_top t) \<Longrightarrow> snd (prepare_frame code t m) a = m a"
proof -
  obtain b where b: "th_stack_top t = b + 64" using assms(1) by (metis add.commute le_Suc_ex)
  have s: "sub64 (b + 64) 64 = b" using assms b by (simp add: sub64_id)
  note p = prepare_frame_def Let_def b thread_consts s SLOT_R12_def SLOT_R13_def SLOT_RFLAGS_def SLOT_RETURN_def PREPARED_SLOTS_def
  show "fst (prepare_frame code t m) = t\<lparr>th_stack_pointer := th_stack_top t - 64\<rparr>" by (simp add: p)
  have "b + 64 < 2 ^ 64" using assms b by simp
  then show "loaded_registers (th_stack_top t - 64) (snd (prepare_frame code t m)) = first_registers code t"
    by (simp add: loaded_at first_registers_def p upt_rec)
  show "snd (prepare_frame code t m) (th_stack_top t - 8) = cl_trampoline code" by (simp add: p)
  show "snd (prepare_frame code t m) a = m a" if "a \<notin> frame_below (th_stack_top t)"
    using that by (auto simp: p upt_rec frame_below_def)
qed

text \<open>Mapping a stack touches the paging state and one counter.\<close>

definition paging_only :: "'e kernel \<Rightarrow> 'e kernel \<Rightarrow> bool" where
  "paging_only k k' \<longleftrightarrow> (\<exists>p n. k' = k\<lparr>kr_paging := p, kr_state := (kr_state k)\<lparr>ts_stack_frames := n\<rparr>\<rparr>)"

lemma paging_onlyI:
  "paging_only k (k\<lparr>kr_paging := p, kr_state := (kr_state k)\<lparr>ts_stack_frames := n\<rparr>\<rparr>)" "paging_only k (k\<lparr>kr_paging := p\<rparr>)"
proof -
  show "paging_only k (k\<lparr>kr_paging := p, kr_state := (kr_state k)\<lparr>ts_stack_frames := n\<rparr>\<rparr>)"
    unfolding paging_only_def by blast
  show "paging_only k (k\<lparr>kr_paging := p\<rparr>)"
    unfolding paging_only_def by (rule exI [of _ p], rule exI [of _ "ts_stack_frames (kr_state k)"]) simp
qed

lemma map_stack_only: "paging_only k (snd (map_stack slot k))"
  unfolding map_stack_def Let_def by (simp add: paging_onlyI split: sum.split prod.split)

lemma paging_only_kept: "paging_only k k' \<Longrightarrow> others_kept B k k'"
  by (auto simp: paging_only_def others_kept_def)

lemma paging_only_simps:
  "paging_only k k' \<Longrightarrow> kr_registers k' = kr_registers k"
  "paging_only k k' \<Longrightarrow> kr_memory k' = kr_memory k"
  by (auto simp: paging_only_def)

definition new_thread :: "u64 option \<Rightarrow> u64 \<Rightarrow> nat \<Rightarrow> 'e kernel \<Rightarrow> thread" where
  "new_thread entry context_address slot k = (kr_table k ! slot)\<lparr>th_identifier := kr_next_identifier k, th_entry := entry,
     th_context := context_address, th_stack_base := slot_stack_base slot, th_stack_top := slot_stack_top slot,
     th_switches := 0, th_boot_thread := False\<rparr>"

lemma thread_create_cases:
  assumes ok: "sched_ok code B k" and run: "thread_create code entry ctx null k = (st, out, k')"
  obtains "st \<noteq> THREAD_STATUS_OK" "paging_only k k'"
      "k' = k \<or> (\<exists>c. 0 < c \<and> c < 8 \<and> th_state (kr_table k ! c) = THREAD_STATE_UNUSED \<and> map_stack c k = (st, k'))"
  | c k1 where "st = THREAD_STATUS_OK" "0 < c" "c < 8" "th_state (kr_table k ! c) = THREAD_STATE_UNUSED" "entry \<noteq> None"
      "map_stack c k = (THREAD_STATUS_OK, k1)" "paging_only k k1" "out = Some (kr_next_identifier k)"
      "k' = recount (set_thread c (fst (prepare_frame code (new_thread entry ctx c k) (kr_memory k))\<lparr>th_state := THREAD_STATE_READY\<rparr>)
         (k1\<lparr>kr_next_identifier := add64 (kr_next_identifier k) 1,
            kr_memory := snd (prepare_frame code (new_thread entry ctx c k) (kr_memory k))\<rparr>))"
proof -
  have self: "paging_only k k" unfolding paging_only_def
    by (rule exI [of _ "kr_paging k"], rule exI [of _ "ts_stack_frames (kr_state k)"]) simp
  have id: "th_identifier (fst (prepare_frame code t m)) = th_identifier t" for t m
    by (simp add: prepare_frame_def Let_def)
  show thesis
  proof (cases "entry = None \<or> null \<or> cpu_interrupts_enabled k")
    case True
    then show thesis using run sched_okD(3) [OF ok] self that(1) by (auto simp: thread_create_def split: if_splits)
  next
    case False
    show thesis
    proof (cases "find_from (\<lambda>slot. th_state (kr_table k ! slot) = THREAD_STATE_UNUSED) 1 (ts_capacity (kr_state k))")
      case None
      then show thesis using run False sched_okD(3) [OF ok] self that(1) by (auto simp: thread_create_def)
    next
      case (Some c)
      note D = find_from_SomeD [OF Some]
      obtain st1 k1 where m: "map_stack c k = (st1, k1)" by (meson surj_pair)
      have only: "paging_only k k1" using map_stack_only [of k c] m by simp
      then have same: "kr_table k1 = kr_table k" "kr_next_identifier k1 = kr_next_identifier k" "kr_memory k1 = kr_memory k"
        by (auto simp: paging_only_def)
      show thesis
      proof (cases "st1 = THREAD_STATUS_OK")
        case True
        show thesis
          by (rule that(2) [of c k1])
            (use run False Some D m True only same sched_okD(3,5) [OF ok] id in
              \<open>auto simp: thread_create_def Let_def new_thread_def\<close>)
      next
        case bad: False
        have e: "st = st1" "k' = k1" using bad run False Some m sched_okD(3) [OF ok]
          by (auto simp: thread_create_def)
        have "0 < c \<and> c < 8 \<and> th_state (kr_table k ! c) = THREAD_STATE_UNUSED \<and> map_stack c k = (st, k')"
          using D m e sched_okD(5) [OF ok] by simp
        then show thesis using that(1) bad only e by blast
      qed
    qed
  qed
qed

lemma created:
  assumes ok: "sched_ok code B k" and c: "0 < c" "c < 8" "th_state (kr_table k ! c) = THREAD_STATE_UNUSED"
    and only: "paging_only k k1" and room: "kr_next_identifier k + 1 < 2 ^ 64"
    and t: "t = fst (prepare_frame code (new_thread entry ctx c k) (kr_memory k))\<lparr>th_state := THREAD_STATE_READY\<rparr>"
    and k': "k' = recount (set_thread c t (k1\<lparr>kr_next_identifier := add64 (kr_next_identifier k) 1,
            kr_memory := snd (prepare_frame code (new_thread entry ctx c k) (kr_memory k))\<rparr>))"
  shows "sched_ok code B k'"
    and "i < 8 \<Longrightarrow> parked k i r b \<Longrightarrow> parked k' i r b"
    and "parked k' c (first_registers code t) (kr_locals k (slot_stack_top c - 64))"
    and "th_stack_top t = slot_stack_top c" "th_entry t = entry" "th_context t = ctx" "th_identifier t = kr_next_identifier k"
proof -
  let ?n = "new_thread entry ctx c k" and ?T = "kr_table k" and ?sp = "slot_stack_top c - 64"
  let ?m' = "snd (prepare_frame code ?n (kr_memory k))"
  note d = sched_okD [OF ok] and ad = slot_addresses [OF c(2)]
  have top: "th_stack_top ?n = slot_stack_top c" by (simp add: new_thread_def)
  have b: "64 \<le> th_stack_top ?n" "th_stack_top ?n < 2 ^ 64" using ad(3) c(2) by (simp_all add: top)
  note pf = prepare_frame_eq [OF b, where code = code and m = "kr_memory k", unfolded top]
  have t': "t = ?n\<lparr>th_stack_pointer := ?sp, th_state := THREAD_STATE_READY\<rparr>" by (simp add: t pf(1))
  show fields: "th_stack_top t = slot_stack_top c" "th_entry t = entry" "th_context t = ctx" "th_identifier t = kr_next_identifier k"
    by (simp_all add: t' new_thread_def)
  have frame: "frame_at ?sp = frame_below (slot_stack_top c)" using b by (simp add: frame_at_def frame_below_def top)
  have inown: "frame_at ?sp \<subseteq> own_stack B c" using ad c(1) by (auto simp: frame_at_def own_stack_def)
  have mem: "?m' a = kr_memory k a" if "i < 8" "i \<noteq> c" "a \<in> own_stack B i" for i a
  proof (rule pf(4))
    show "a \<notin> frame_below (slot_stack_top c)"
      using own_stacks_apart [OF d(2) that(1) c(2) that(3)] that(2) inown frame by auto
  qed
  have next_id: "add64 (kr_next_identifier k) 1 = kr_next_identifier k + 1" using room by (simp add: add64_id)
  have tab: "kr_table k' = ?T[c := t]" and rest: "kr_current_slot k' = kr_current_slot k" "kr_memory k' = ?m'"
    "kr_next_identifier k' = kr_next_identifier k + 1" "kr_threads k' = kr_threads k" "kr_locals k' = kr_locals k"
    using only next_id by (auto simp: paging_only_def k')
  have nc: "c \<noteq> kr_current_slot k" using running_current [OF ok] c(3) by auto
  have cap: "ts_capacity (kr_state (set_thread c t (k1\<lparr>kr_next_identifier := n, kr_memory := m\<rparr>))) =
      length (kr_table (set_thread c t (k1\<lparr>kr_next_identifier := n, kr_memory := m\<rparr>)))" for n m
    using only d by (auto simp: paging_only_def set_thread_def)
  have counts: "counts_ok k'" "ts_active (kr_state k')" "ts_capacity (kr_state k') = 8"
    unfolding k' recount_eq [OF cap] using only d by (auto simp: counts_ok_def paging_only_def set_thread_def)
  have slots: "slot_ok code B k' i (kr_table k' ! i)" if i: "i < 8" for i
  proof (cases "i = c")
    case True
    have "?sp + 56 = slot_stack_top c - 8" using b by (simp add: top)
    then have "saved_ok code B ?m' c ?sp" using inown pf(3) by (simp add: saved_ok_def)
    then show ?thesis using True c d(6,8) nc
      by (simp add: tab rest slot_ok_def) (simp add: t' new_thread_def)
  next
    case False
    have so: "slot_ok code B k i (?T ! i)" by (rule d(9) [OF i])
    have "saved_ok code B ?m' i (th_stack_pointer (?T ! i))" if "th_state (?T ! i) = THREAD_STATE_READY"
      using so that mem [OF i False] by (intro saved_ok_cong [of B i ?m' "kr_memory k"]) (auto simp: slot_ok_def)
    then show ?thesis using so False by (auto simp: tab rest slot_ok_def)
  qed
  have less: "th_identifier (?T ! i) < kr_next_identifier k" if "i < 8" "th_state (?T ! i) \<noteq> THREAD_STATE_UNUSED" for i
    using d(8) d(9) [OF that(1)] that(2) by (cases "i = 0") (simp_all add: slot_ok_def)
  have "identifiers_ok (kr_table k')"
    unfolding identifiers_ok_def tab
  proof (intro allI impI)
    fix i j assume ij: "i < length (?T[c := t])" "j < length (?T[c := t])"
      "th_state (?T[c := t] ! i) \<noteq> THREAD_STATE_UNUSED" "th_state (?T[c := t] ! j) \<noteq> THREAD_STATE_UNUSED"
      "th_identifier (?T[c := t] ! i) = th_identifier (?T[c := t] ! j)"
    then show "i = j"
      using d(6,10) less [of i] less [of j] fields(4) c(2) unfolding identifiers_ok_def
      by (cases "i = c"; cases "j = c") auto
  qed
  then show "sched_ok code B k'"
    using d slots counts by (simp add: sched_ok_def rest tab)
  show "parked k' c (first_registers code t) (kr_locals k ?sp)"
    using pf(2) c d(6) by (simp add: parked_def tab rest) (simp add: t' first_registers_def)
  show "parked k' i r b" if i: "i < 8" and p: "parked k i r b"
  proof -
    have ne: "i \<noteq> c" using p c(3) by (auto simp: parked_def)
    let ?s = "th_stack_pointer (?T ! i)"
    have fr: "frame_at ?s \<subseteq> own_stack B i" using d(9) [OF i] p by (simp add: slot_ok_def saved_ok_def parked_def)
    have "loaded_registers ?s ?m' = loaded_registers ?s (kr_memory k)"
      by (rule loaded_cong [OF frame_small [OF d(2) i fr]]) (use mem [OF i ne] fr in auto)
    then show ?thesis using p ne by (simp add: parked_def tab rest)
  qed
qed

end
