(* ===== verification/Thread_Steps.thy ===== *)
theory Thread_Steps
  imports Thread_Schedule
begin

text \<open>
  The kernel's threads as a step relation: the running thread computes on its own stack, or an
  operation of \<open>Kernel_Thread\<close> runs.  What a thread off the processor keeps, that it gets the
  processor back as it left it, and how soon.
\<close>

unbundle bit_operations_syntax

section \<open>Steps\<close>

text \<open>One switch, whoever asked for it.\<close>

definition switched :: "code_layout \<Rightarrow> 'e kernel \<Rightarrow> 'e kernel \<Rightarrow> bool" where
  "switched code k k' \<longleftrightarrow> (\<exists>ret st loc n r b. leaves_as code k ret st \<and> n = next_slot k \<and> n < 8 \<and> is_ready k n \<and> parked k n r b \<and>
     k' = awake code b (handed_over ret st loc n (cpu_interrupt_disable k)))"

definition woken :: "code_layout \<Rightarrow> registers \<Rightarrow> bool \<Rightarrow> registers" where
  "woken code r b = (if rg_rip r = cl_after_switch code \<and> b
     then r\<lparr>rg_rflags := rg_rflags r OR RFLAGS_INTERRUPT_ENABLE\<rparr> else r)"

lemma switchedI:
  "leaves_as code k ret st \<Longrightarrow> n = next_slot k \<Longrightarrow> n < 8 \<Longrightarrow> is_ready k n \<Longrightarrow> parked k n r b \<Longrightarrow>
     switched code k (awake code b (handed_over ret st loc n (cpu_interrupt_disable k)))"
  unfolding switched_def by blast

lemma awake_kept: "others_kept B k (awake code b k)"
  by (simp add: awake_def disable_kept(2)) (simp add: others_kept_def)

lemma switched_ok:
  assumes sw: "switched code k k'" and ok: "sched_ok code B k" and rm: "room B k"
  shows "sched_ok code B k'"
    and "i < 8 \<Longrightarrow> parked k i r b \<Longrightarrow> kr_current_slot k' \<noteq> i \<Longrightarrow> parked k' i r b"
    and "i < 8 \<Longrightarrow> parked k i r b \<Longrightarrow> kr_current_slot k' = i \<Longrightarrow> kr_registers k' = woken code r b"
    and "i < 8 \<Longrightarrow> i \<noteq> kr_current_slot k \<Longrightarrow> a \<in> own_stack B i \<Longrightarrow> kr_memory k' a = kr_memory k a"
    and "kr_current_slot k' = next_slot k" "is_ready k (kr_current_slot k')"
    and "i < 8 \<Longrightarrow> th_state (kr_table k ! i) = THREAD_STATE_EXITED \<Longrightarrow> kr_table k' ! i = kr_table k ! i"
proof -
  let ?k0 = "cpu_interrupt_disable k"
  from sw obtain ret st loc n r0 b0 where s: "leaves_as code k ret st" "n < 8" "is_ready k n" "parked k n r0 b0"
    and nx: "n = next_slot k" and k': "k' = awake code b0 (handed_over ret st loc n ?k0)" by (auto simp: switched_def)
  have kept: "others_kept B k ?k0" by (rule disable_kept)
  note ok0 = others_kept_ok [OF ok kept] and rm0 = disable_room [OF rm]
  have n0: "is_ready ?k0 n" using s(3) kept_ready [OF kept] by simp
  have st0: "leaves_as code ?k0 ret st" using s(1) by (simp add: leaves_as_def)
  note hp = handed_parked [OF ok0 rm0 s(2) n0 st0]
  show cur: "kr_current_slot k' = next_slot k" "is_ready k (kr_current_slot k')" using s nx by (simp_all add: k')
  show "kr_table k' ! i = kr_table k ! i" if "i < 8" "th_state (kr_table k ! i) = THREAD_STATE_EXITED"
  proof -
    have "i \<noteq> n" "i \<noteq> kr_current_slot k" using that(2) s(3) running_current [OF ok] by (auto simp: is_ready_def)
    moreover have "n \<noteq> kr_current_slot k" by (rule ready_not_current [OF ok s(2,3)])
    ultimately show ?thesis
      using handed_table_nth [of i "kr_table k" n "kr_current_slot k" st] that(1) s(2) sched_okD [OF ok] by (simp add: k')
  qed
  have okh: "sched_ok code B (handed_over ret st loc n ?k0)" by (rule handed_ok [OF ok0 rm0 s(2) n0 st0])
  show "sched_ok code B k'" unfolding k' by (rule others_kept_ok [OF okh awake_kept])
  have p0: "parked ?k0 i r b" if "i < 8" "parked k i r b" for i r b by (rule others_kept_parked [OF ok kept that])
  show "parked k' i r b" if i: "i < 8" and p: "parked k i r b" and c: "kr_current_slot k' \<noteq> i"
  proof -
    have "i \<noteq> kr_current_slot ?k0" using ready_not_current [OF ok i] p by (auto simp: parked_def is_ready_def)
    moreover have "i \<noteq> n" using c by (simp add: k')
    ultimately have "parked (handed_over ret st loc n ?k0) i r b" using hp(1) [OF i _ _ p0 [OF i p]] by blast
    then show ?thesis unfolding k' by (rule others_kept_parked [OF okh awake_kept i])
  qed
  show "kr_registers k' = woken code r b" if i: "i < 8" and p: "parked k i r b" and c: "kr_current_slot k' = i"
  proof -
    have n: "i = n" using c by (simp add: k')
    then have rb: "r = r0" "b = b0" using p s(4) by (auto simp: parked_def)
    have "kr_registers (handed_over ret st loc n ?k0) = r" using hp(2) [of r b] p0 [OF i p] n by simp
    then show ?thesis unfolding k' awake_def woken_def rb by (simp add: cpu_interrupt_enable_def del: handed_over_simps)
  qed
  show "kr_memory k' a = kr_memory k a" if "i < 8" "i \<noteq> kr_current_slot k" "a \<in> own_stack B i"
    using pushed(5) [OF ok0 rm0 that(1) _ that(3)] that(2) by (simp add: k')
qed

lemma switch_outcome:
  assumes ok: "sched_ok code B k" and rm: "room B k"
  obtains "switch_to_next code k = Inr k" "next_slot k = kr_current_slot k" "\<And>i. i < 8 \<Longrightarrow> \<not> is_ready k i"
  | k' where "switch_to_next code k = Inr k'" "switched code k k'" "kr_current_slot k' = next_slot k"
      "kr_current_slot k' \<noteq> kr_current_slot k"
      "parked k' (kr_current_slot k) ((kr_registers k)\<lparr>rg_rflags := rg_rflags (kr_registers k) AND not64 RFLAGS_INTERRUPT_ENABLE,
         rg_rip := cl_after_switch code\<rparr>) (cpu_interrupts_enabled k)"
proof (rule next_slot_cases [OF ok])
  assume "next_slot k = kr_current_slot k" "\<And>i. i < 8 \<Longrightarrow> \<not> is_ready k i"
  then show thesis using that(1) switch_to_next_alone [OF _ rm] by blast
next
  let ?k0 = "cpu_interrupt_disable k" and ?n = "next_slot k"
  assume n: "?n < 8" "is_ready k ?n" "?n \<noteq> kr_current_slot k"
  obtain r b where p: "parked k ?n r b" using ready_parked [OF ok n(1,2)] by blast
  let ?h = "handed_over (cl_after_switch code) THREAD_STATE_READY (Some (cpu_interrupts_enabled k)) ?n ?k0"
  have kept: "others_kept B k ?k0" by (rule disable_kept)
  note ok0 = others_kept_ok [OF ok kept] and rm0 = disable_room [OF rm]
  have n0: "is_ready ?k0 ?n" using n(2) kept_ready [OF kept] by simp
  have st: "leaves_as code ?k0 (cl_after_switch code) THREAD_STATE_READY" by (simp add: leaves_as_def)
  have sw: "switched code k (awake code b ?h)"
    by (rule switchedI [OF _ refl n(1,2) p]) (simp add: leaves_as_def)
  have "parked ?h (kr_current_slot ?k0) ((kr_registers ?k0)\<lparr>rg_rip := cl_after_switch code\<rparr>) (cpu_interrupts_enabled k)"
    by (rule handed_parked(4) [OF ok0 rm0 n(1) n0 st refl refl])
  then have "parked (awake code b ?h) (kr_current_slot ?k0) ((kr_registers ?k0)\<lparr>rg_rip := cl_after_switch code\<rparr>) (cpu_interrupts_enabled k)"
    by (rule others_kept_parked [OF handed_ok [OF ok0 rm0 n(1) n0 st] awake_kept sched_okD(7) [OF ok0]])
  moreover have "(kr_registers ?k0)\<lparr>rg_rip := cl_after_switch code\<rparr> =
    (kr_registers k)\<lparr>rg_rflags := rg_rflags (kr_registers k) AND not64 RFLAGS_INTERRUPT_ENABLE, rg_rip := cl_after_switch code\<rparr>"
    by (simp add: cpu_interrupt_disable_def)
  ultimately show thesis
    using that(2) [OF switch_to_next_hands_over [OF ok rm n(3) p] sw] n(3) by simp
qed

lemma exit_outcome:
  assumes ok: "sched_ok code B k" and rm: "room B k" and c: "kr_current_slot k \<noteq> 0" and n: "next_slot k \<noteq> kr_current_slot k"
  obtains k' where "thread_exit code k = Inr k'" "switched code k k'" "kr_current_slot k' = next_slot k"
    "th_state (kr_table k' ! kr_current_slot k) = THREAD_STATE_EXITED"
proof -
  let ?n = "next_slot k" and ?k0 = "cpu_interrupt_disable k"
  have n8: "?n < 8" "is_ready k ?n" using next_slot_cases [OF ok] n by auto
  obtain r b where p: "parked k ?n r b" using ready_parked [OF ok n8] by blast
  let ?h = "handed_over (cl_after_exit code) THREAD_STATE_EXITED None ?n ?k0"
  have "switched code k (awake code b ?h)"
    by (rule switchedI [OF _ refl n8 p]) (use c in \<open>simp add: leaves_as_def\<close>)
  moreover have "th_state (kr_table (awake code b ?h) ! kr_current_slot k) = THREAD_STATE_EXITED"
    using handed_table_nth [of "kr_current_slot k" "kr_table k" ?n "kr_current_slot k" THREAD_STATE_EXITED] n n8 sched_okD [OF ok] by simp
  ultimately show thesis using that [OF thread_exit_hands_over [OF ok rm c n p]] by simp
qed

text \<open>
  A step: the running thread computes, within its own stack and outside those of the others,
  while other parts of the kernel work; or it calls one of the operations; or an interrupt does.
\<close>

definition works :: "u64 set \<Rightarrow> 'e kernel \<Rightarrow> 'e kernel \<Rightarrow> bool" where
  "works B k k' \<longleftrightarrow> (\<exists>r m e p. k' = k\<lparr>kr_registers := r, kr_memory := m, kr_env := e, kr_paging := p\<rparr>) \<and>
     (\<forall>slot < 8. slot \<noteq> kr_current_slot k \<longrightarrow> (\<forall>a \<in> own_stack B slot. kr_memory k' a = kr_memory k a))"

text \<open>What the rest of the kernel leaves of the paging state: the mappings of the thread region and the frames held.\<close>

definition region_kept :: "paging \<Rightarrow> paging \<Rightarrow> bool" where
  "region_kept p p' \<longleftrightarrow> (paging_ok p \<longrightarrow> paging_ok p') \<and> (\<forall>f. holds (pg_space p) f \<longrightarrow> holds (pg_space p') f) \<and>
     (\<forall>a. 0x800000000 \<le> a \<and> a < 0x800028000 \<longrightarrow> mapped p' a = mapped p a)"

inductive thread_step :: "'e services \<Rightarrow> code_layout \<Rightarrow> u64 set \<Rightarrow> 'e kernel \<Rightarrow> 'e kernel \<Rightarrow> bool"
  for sv :: "'e services" and code :: code_layout and B :: "u64 set" where
  work: "works B k k' \<Longrightarrow> region_kept (kr_paging k) (kr_paging k') \<Longrightarrow> thread_step sv code B k k'"
| yield: "room B k \<Longrightarrow> thread_yield code k = Inr k' \<Longrightarrow> thread_step sv code B k k'"
| exit: "room B k \<Longrightarrow> thread_exit code k = Inr k' \<Longrightarrow> thread_step sv code B k k'"
| create: "kr_next_identifier k + 1 < 2 ^ 64 \<Longrightarrow> thread_create code entry ctx null k = (st, out, k') \<Longrightarrow>
    thread_step sv code B k k'"
| quantum: "quantum_expired sv k = Inr k' \<Longrightarrow> thread_step sv code B k k'"
| interrupt_return: "room B k \<Longrightarrow> thread_on_interrupt_return code k = Inr k' \<Longrightarrow> thread_step sv code B k k'"
| enable: "thread_enable_preemption sv k = (st, k') \<Longrightarrow> thread_step sv code B k k'"
| disable: "thread_disable_preemption sv k = (st, k') \<Longrightarrow> thread_step sv code B k k'"

lemma quantum_kept: "quantum_expired sv k = Inr k' \<Longrightarrow> others_kept B k k' \<and> kr_paging k' = kr_paging k \<and>
    ts_stack_frames (kr_state k') = ts_stack_frames (kr_state k)"
  by (auto simp: quantum_expired_def arm_quantum_def others_kept_def Let_def split: if_splits prod.splits option.splits)

lemma enable_kept: "thread_enable_preemption sv k = (st, k') \<Longrightarrow> others_kept B k k' \<and> kr_paging k' = kr_paging k \<and>
    ts_stack_frames (kr_state k') = ts_stack_frames (kr_state k)"
  by (auto simp: thread_enable_preemption_def arm_quantum_def others_kept_def Let_def split: if_splits prod.splits option.splits)

lemma disable_preemption_kept: "thread_disable_preemption sv k = (st, k') \<Longrightarrow> others_kept B k k' \<and> kr_paging k' = kr_paging k \<and>
    ts_stack_frames (kr_state k') = ts_stack_frames (kr_state k)"
  by (auto simp: thread_disable_preemption_def others_kept_def Let_def split: if_splits prod.splits option.splits)

text \<open>What a step does to the schedule: nothing others see, a switch, or a new thread.\<close>

definition creates :: "code_layout \<Rightarrow> 'e kernel \<Rightarrow> 'e kernel \<Rightarrow> bool" where
  "creates code k k' \<longleftrightarrow> (\<exists>entry ctx null out. kr_next_identifier k + 1 < 2 ^ 64 \<and>
     thread_create code entry ctx null k = (THREAD_STATUS_OK, out, k'))"

lemma thread_step_kinds:
  assumes st: "thread_step sv code B k k'" and ok: "sched_ok code B k"
  obtains "others_kept B k k'"
  | k0 where "others_kept B k k0" "room B k" "room B k0" "switched code k0 k'"
  | "creates code k k'"
  using st
proof cases
  case work
  then show thesis by (intro that(1)) (auto simp: works_def others_kept_def)
next
  case yield
  have self: "others_kept B k k" by (simp add: others_kept_def)
  from yield(2) sched_okD(3) [OF ok] have "switch_to_next code k = Inr k'" by (simp add: thread_yield_def)
  with switch_outcome [OF ok yield(1)] show thesis using that(1,2) self yield(1) by (metis Inr_inject)
next
  case exit
  have self: "others_kept B k k" by (simp add: others_kept_def)
  have c: "kr_current_slot k \<noteq> 0" "next_slot k \<noteq> kr_current_slot k" using exit(2) thread_exit_refused [OF ok] by auto
  with exit_outcome [OF ok exit(1) c] show thesis using that(2) self exit by (metis Inr_inject)
next
  case (create entry ctx null st out)
  show thesis
  proof (cases "st = THREAD_STATUS_OK")
    case True
    then show thesis using create that(3) by (auto simp: creates_def)
  next
    case False
    then have "paging_only k k'" using thread_create_cases [OF ok create(2)] by metis
    then show thesis using that(1) paging_only_kept by blast
  qed
next
  case quantum
  then show thesis using quantum_kept that(1) by blast
next
  case interrupt_return
  show thesis
  proof (cases "kr_reschedule_pending k")
    case False
    then show thesis using interrupt_return(2) that(1) by (simp add: thread_on_interrupt_return_def others_kept_def)
  next
    case True
    let ?k0 = "k\<lparr>kr_reschedule_pending := False\<rparr>"
    have kept: "others_kept B k ?k0" by (simp add: others_kept_def)
    have rm: "room B ?k0" using interrupt_return(1) by (simp add: room_def)
    have "switch_to_next code ?k0 = Inr k'"
      using interrupt_return(2) True sched_okD(3) [OF ok] by (simp add: thread_on_interrupt_return_def Let_def)
    with switch_outcome [OF others_kept_ok [OF ok kept] rm] show thesis using that(1,2) kept rm interrupt_return(1) by (metis Inr_inject)
  qed
next
  case (enable st)
  then show thesis using enable_kept that(1) by blast
next
  case (disable st)
  then show thesis using disable_preemption_kept that(1) by blast
qed

lemma creates_ok:
  assumes ok: "sched_ok code B k" and cr: "creates code k k'"
  shows "sched_ok code B k'" "kr_current_slot k' = kr_current_slot k"
    and "i < 8 \<Longrightarrow> parked k i r b \<Longrightarrow> parked k' i r b"
    and "i < 8 \<Longrightarrow> is_ready k i \<Longrightarrow> a \<in> own_stack B i \<Longrightarrow> kr_memory k' a = kr_memory k a"
proof -
  from cr obtain entry ctx null out where id: "kr_next_identifier k + 1 < 2 ^ 64"
    and run: "thread_create code entry ctx null k = (THREAD_STATUS_OK, out, k')" by (auto simp: creates_def)
  from thread_create_cases [OF ok run] obtain c k1 where c: "0 < c" "c < 8" "th_state (kr_table k ! c) = THREAD_STATE_UNUSED"
    and only: "paging_only k k1"
    and k': "k' = recount (set_thread c (fst (prepare_frame code (new_thread entry ctx c k) (kr_memory k))\<lparr>th_state := THREAD_STATE_READY\<rparr>)
         (k1\<lparr>kr_next_identifier := add64 (kr_next_identifier k) 1,
            kr_memory := snd (prepare_frame code (new_thread entry ctx c k) (kr_memory k))\<rparr>))" by metis
  note cr = created [OF ok c only id refl k']
  show "sched_ok code B k'" "i < 8 \<Longrightarrow> parked k i r b \<Longrightarrow> parked k' i r b" by (rule cr)+
  show "kr_current_slot k' = kr_current_slot k" using only by (auto simp: k' paging_only_def)
  show "kr_memory k' a = kr_memory k a" if i: "i < 8" "is_ready k i" "a \<in> own_stack B i"
  proof -
    have "i \<noteq> c" using i(2) c(3) by (auto simp: is_ready_def)
    have top: "64 \<le> th_stack_top (new_thread entry ctx c k)" "th_stack_top (new_thread entry ctx c k) < 2 ^ 64"
      using slot_addresses(3) [OF c(2)] c(2) by (simp_all add: new_thread_def)
    have "frame_below (slot_stack_top c) \<subseteq> own_stack B c"
      using slot_addresses [OF c(2)] c(1) by (auto simp: frame_below_def own_stack_def)
    then have "a \<notin> frame_below (th_stack_top (new_thread entry ctx c k))"
      using own_stacks_apart [OF sched_okD(2) [OF ok] i(1) c(2) i(3)] \<open>i \<noteq> c\<close> by (auto simp: new_thread_def)
    from prepare_frame_eq(4) [OF top this, of code "kr_memory k"] show ?thesis by (simp add: k')
  qed
qed

lemma thread_step_ok:
  assumes st: "thread_step sv code B k k'" and ok: "sched_ok code B k"
  shows "sched_ok code B k'"
    and "i < 8 \<Longrightarrow> parked k i r b \<Longrightarrow> kr_current_slot k' \<noteq> i \<Longrightarrow> parked k' i r b"
    and "i < 8 \<Longrightarrow> parked k i r b \<Longrightarrow> kr_current_slot k' = i \<Longrightarrow> kr_registers k' = woken code r b"
    and "i < 8 \<Longrightarrow> is_ready k i \<Longrightarrow> a \<in> own_stack B i \<Longrightarrow> kr_memory k' a = kr_memory k a"
proof -
  have cur: "is_ready k i \<and> i \<noteq> kr_current_slot k" if "i < 8" "parked k i r b" for i r b
    using ready_not_current [OF ok that(1)] that(2) by (auto simp: parked_def is_ready_def)
  note g = thread_step_kinds [OF st ok]
  show "sched_ok code B k'"
  proof (rule g)
    show ?thesis if "others_kept B k k'" by (rule others_kept_ok [OF ok that])
    show ?thesis if "others_kept B k k0" "room B k0" "switched code k0 k'" for k0
      by (rule switched_ok(1) [OF that(3) others_kept_ok [OF ok that(1)] that(2)])
    show ?thesis if "creates code k k'" by (rule creates_ok(1) [OF ok that])
  qed
  show "parked k' i r b" if i: "i < 8" "parked k i r b" "kr_current_slot k' \<noteq> i"
  proof (rule g)
    show ?thesis if "others_kept B k k'" by (rule others_kept_parked [OF ok that i(1,2)])
    show ?thesis if "others_kept B k k0" "room B k0" "switched code k0 k'" for k0
      by (rule switched_ok(2) [OF that(3) others_kept_ok [OF ok that(1)] that(2) i(1) others_kept_parked [OF ok that(1) i(1,2)] i(3)])
    show ?thesis if "creates code k k'" by (rule creates_ok(3) [OF ok that i(1,2)])
  qed
  show "kr_registers k' = woken code r b" if i: "i < 8" "parked k i r b" "kr_current_slot k' = i"
  proof (rule g)
    assume "others_kept B k k'"
    then show ?thesis using cur [OF i(1,2)] i(3) by (simp add: others_kept_def)
  next
    fix k0 assume "others_kept B k k0" "room B k0" "switched code k0 k'"
    then show ?thesis using switched_ok(3) others_kept_ok [OF ok] others_kept_parked [OF ok _ i(1,2)] i by blast
  next
    assume "creates code k k'"
    then show ?thesis using creates_ok(2) [OF ok] cur [OF i(1,2)] i(3) by simp
  qed
  show "kr_memory k' a = kr_memory k a" if i: "i < 8" "is_ready k i" "a \<in> own_stack B i"
  proof (rule g)
    have nc: "i \<noteq> kr_current_slot k" by (rule ready_not_current [OF ok i(1,2)])
    show ?thesis if "others_kept B k k'" using that nc i by (simp add: others_kept_def)
    show ?thesis if "creates code k k'" by (rule creates_ok(4) [OF ok that i])
    fix k0 assume k0: "others_kept B k k0" "room B k0" "switched code k0 k'"
    have "kr_memory k0 a = kr_memory k a" "i \<noteq> kr_current_slot k0" using k0(1) nc i by (simp_all add: others_kept_def)
    then show ?thesis using switched_ok(4) [OF k0(3) others_kept_ok [OF ok k0(1)] k0(2) i(1) _ i(3)] by simp
  qed
qed

section \<open>Off the processor\<close>

text \<open>Any steps at all, as long as the slot does not get the processor.\<close>

definition away :: "'e services \<Rightarrow> code_layout \<Rightarrow> u64 set \<Rightarrow> nat \<Rightarrow> 'e kernel \<Rightarrow> 'e kernel \<Rightarrow> bool" where
  "away sv code B slot = (\<lambda>k k'. thread_step sv code B k k' \<and> kr_current_slot k' \<noteq> slot)\<^sup>*\<^sup>*"

lemma away_parked:
  assumes run: "away sv code B i k k'" and ok: "sched_ok code B k" and i: "i < 8" and p: "parked k i r b"
  shows "sched_ok code B k' \<and> parked k' i r b \<and> (\<forall>a \<in> own_stack B i. kr_memory k' a = kr_memory k a)"
  using run unfolding away_def
proof (induction rule: rtranclp_induct)
  case base
  then show ?case using ok p by simp
next
  case (step k1 k2)
  then have s: "thread_step sv code B k1 k2" "kr_current_slot k2 \<noteq> i" "sched_ok code B k1" "parked k1 i r b"
    "\<forall>a \<in> own_stack B i. kr_memory k1 a = kr_memory k a" by simp_all
  note t = thread_step_ok [OF s(1,3)]
  have "is_ready k1 i" using s(4) by (simp add: parked_def is_ready_def)
  then show ?case using t(1) t(2) [OF i s(4,2)] t(4) [OF i] s(5) by simp
qed

lemma resumes_where_parked:
  assumes run: "away sv code B i k k1" and ok: "sched_ok code B k" and i: "i < 8" and p: "parked k i r b"
    and st: "thread_step sv code B k1 k2" and c: "kr_current_slot k2 = i"
  shows "kr_registers k2 = woken code r b"
    and "a \<in> own_stack B i \<Longrightarrow> kr_memory k2 a = kr_memory k a"
proof -
  note a = away_parked [OF run ok i p]
  then have ok1: "sched_ok code B k1" and p1: "parked k1 i r b" by simp_all
  note t = thread_step_ok [OF st ok1]
  show "kr_registers k2 = woken code r b" by (rule t(3) [OF i p1 c])
  have "is_ready k1 i" using p1 by (simp add: parked_def is_ready_def)
  then show "kr_memory k2 a = kr_memory k a" if "a \<in> own_stack B i" using t(4) [OF i _ that] a that by simp
qed

lemma woken_switch:
  assumes "rg_rflags r < 2 ^ 64"
  shows "woken code (r\<lparr>rg_rflags := rg_rflags r AND not64 RFLAGS_INTERRUPT_ENABLE, rg_rip := cl_after_switch code\<rparr>)
     (rg_rflags r AND RFLAGS_INTERRUPT_ENABLE \<noteq> 0) = r\<lparr>rg_rip := cl_after_switch code\<rparr>"
  using interrupt_flag_restored [OF assms] by (auto simp: woken_def)

lemma yield_outcome:
  assumes ok: "sched_ok code B k" and rm: "room B k" and run: "thread_yield code k = Inr k1"
    and gone: "kr_current_slot k1 \<noteq> kr_current_slot k"
  shows "switched code k k1"
    "parked k1 (kr_current_slot k) ((kr_registers k)\<lparr>rg_rflags := rg_rflags (kr_registers k) AND not64 RFLAGS_INTERRUPT_ENABLE,
       rg_rip := cl_after_switch code\<rparr>) (cpu_interrupts_enabled k)"
    "a \<notin> frame_below (rg_rsp (kr_registers k)) \<Longrightarrow> kr_memory k1 a = kr_memory k a"
proof -
  have s: "switch_to_next code k = Inr k1" using run sched_okD(3) [OF ok] by (simp add: thread_yield_def)
  show sw: "switched code k k1" and "parked k1 (kr_current_slot k) ((kr_registers k)\<lparr>rg_rflags :=
      rg_rflags (kr_registers k) AND not64 RFLAGS_INTERRUPT_ENABLE, rg_rip := cl_after_switch code\<rparr>) (cpu_interrupts_enabled k)"
    using switch_outcome [OF ok rm] s gone by (metis Inr_inject)+
  show "kr_memory k1 a = kr_memory k a" if "a \<notin> frame_below (rg_rsp (kr_registers k))"
  proof -
    let ?k0 = "cpu_interrupt_disable k"
    have "64 \<le> rg_rsp (kr_registers ?k0)" "rg_rsp (kr_registers ?k0) < 2 ^ 64" "a \<notin> frame_below (rg_rsp (kr_registers ?k0))"
      using rm that by (simp_all add: room_def)
    note w = saved_words_at(9) [OF this]
    from sw obtain ret st loc n b where "k1 = awake code b (handed_over ret st loc n ?k0)" by (auto simp: switched_def)
    then show ?thesis using w by simp
  qed
qed

lemma yield_then_back:
  assumes ok: "sched_ok code B k" and rm: "room B k" and run: "thread_yield code k = Inr k1"
    and gone: "kr_current_slot k1 \<noteq> kr_current_slot k"
    and off: "away sv code B (kr_current_slot k) k1 k2" and st: "thread_step sv code B k2 k3"
    and again: "kr_current_slot k3 = kr_current_slot k"
  shows "kr_registers k3 = (kr_registers k)\<lparr>rg_rip := cl_after_switch code\<rparr> \<and>
     (\<forall>a \<in> own_stack B (kr_current_slot k) - frame_below (rg_rsp (kr_registers k)). kr_memory k3 a = kr_memory k a)"
proof -
  note y = yield_outcome [OF ok rm run gone]
  note r = resumes_where_parked [OF off switched_ok(1) [OF y(1) ok rm] sched_okD(7) [OF ok] y(2) st again]
  have f: "rg_rflags (kr_registers k) < 2 ^ 64" using rm by (simp add: room_def)
  show ?thesis using r y(3) woken_switch [OF f, of code] by (simp add: cpu_interrupts_enabled_def)
qed

lemma create_then_first:
  assumes ok: "sched_ok code B k" and id: "kr_next_identifier k + 1 < 2 ^ 64"
    and run: "thread_create code (Some entry) ctx False k = (THREAD_STATUS_OK, Some identifier, k1)"
    and slot: "find_thread identifier k1 = Some slot"
    and off: "away sv code B slot k1 k2" and st: "thread_step sv code B k2 k3" and here: "kr_current_slot k3 = slot"
  shows "kr_registers k3 = \<lparr>rg_r15 = 0, rg_r14 = 0, rg_r13 = ctx, rg_r12 = entry, rg_rbx = 0, rg_rbp = 0,
     rg_rflags = RFLAGS_RESERVED OR RFLAGS_INTERRUPT_ENABLE, rg_rip = cl_trampoline code, rg_rsp = slot_stack_top slot\<rparr>"
proof -
  from thread_create_cases [OF ok run] obtain c k0 where c: "0 < c" "c < 8" "th_state (kr_table k ! c) = THREAD_STATE_UNUSED"
    and only: "paging_only k k0" and idn: "identifier = kr_next_identifier k"
    and k1: "k1 = recount (set_thread c (fst (prepare_frame code (new_thread (Some entry) ctx c k) (kr_memory k))\<lparr>th_state := THREAD_STATE_READY\<rparr>)
         (k0\<lparr>kr_next_identifier := add64 (kr_next_identifier k) 1,
            kr_memory := snd (prepare_frame code (new_thread (Some entry) ctx c k) (kr_memory k))\<rparr>))" by (metis option.inject)
  define t where "t = fst (prepare_frame code (new_thread (Some entry) ctx c k) (kr_memory k))\<lparr>th_state := THREAD_STATE_READY\<rparr>"
  note cr = created [OF ok c only id t_def k1 [folded t_def]]
  note d = sched_okD [OF cr(1)]
  have tab: "kr_table k1 ! c = t" using only c(2) sched_okD(6) [OF ok] by (auto simp: k1 t_def paging_only_def)
  have "find_from (\<lambda>slot. th_state (kr_table k1 ! slot) \<noteq> THREAD_STATE_UNUSED \<and> th_identifier (kr_table k1 ! slot) = identifier) 0 8 = Some slot"
    using slot d(5) by (simp add: find_thread_def split: if_splits)
  from find_from_SomeD [OF this] have s: "slot < 8" "th_state (kr_table k1 ! slot) \<noteq> THREAD_STATE_UNUSED"
    "th_identifier (kr_table k1 ! slot) = identifier" by simp_all
  have "th_state t = THREAD_STATE_READY" by (simp add: t_def)
  then have "slot = c" using d(6,10) s c(2) tab cr(7) idn unfolding identifiers_ok_def by auto
  then have "kr_registers k3 = woken code (first_registers code t) (kr_locals k (slot_stack_top c - 64))"
    using resumes_where_parked(1) [OF off cr(1) s(1) _ st here] cr(3) by blast
  also have "\<dots> = first_registers code t" using d(1) by (simp add: woken_def first_registers_def code_ok_def)
  finally show ?thesis by (simp add: first_registers_def cr(4,5,6) INITIAL_RFLAGS_def \<open>slot = c\<close>)
qed

section \<open>How long a thread waits\<close>

text \<open>Steps without the slot, with the number of switches among them.\<close>

inductive waits :: "'e services \<Rightarrow> code_layout \<Rightarrow> u64 set \<Rightarrow> nat \<Rightarrow> 'e kernel \<Rightarrow> nat \<Rightarrow> 'e kernel \<Rightarrow> bool"
  for sv :: "'e services" and code :: code_layout and B :: "u64 set" and slot :: nat and k :: "'e kernel" where
  start: "waits sv code B slot k 0 k"
| turn: "waits sv code B slot k n k1 \<Longrightarrow> thread_step sv code B k1 k2 \<Longrightarrow> kr_current_slot k2 \<noteq> slot \<Longrightarrow>
    waits sv code B slot k (if kr_current_slot k2 = kr_current_slot k1 then n else n + 1) k2"

lemma switched_gap:
  assumes sw: "switched code k k'" and ok: "sched_ok code B k" and rm: "room B k" and i: "i < 8" "is_ready k i"
    and c: "kr_current_slot k' \<noteq> i"
  shows "gap 8 (kr_current_slot k') i + 1 \<le> gap 8 (kr_current_slot k) i"
proof -
  let ?p = "kr_current_slot k" and ?n = "kr_current_slot k'"
  note d = sched_okD [OF ok] and s = switched_ok [OF sw ok rm]
  have cur: "?n = next_ready_slot ?p k" using s(5) by (simp add: next_slot_def)
  have le: "gap 8 ?p ?n \<le> gap 8 ?p i" "?n < 8"
    using next_ready_slot_some(1,3) [of 8 k ?p i] d(5,7) i cur by simp_all
  have "gap 8 ?p ?n \<noteq> gap 8 ?p i" using gap_inj [of ?p 8 i ?n] d(7) i(1) le(2) c by auto
  then have "gap 8 ?n i + gap 8 ?p ?n = gap 8 ?p i" using gap_advance [of ?p 8 i ?n] d(7) i(1) le by simp
  moreover have "1 \<le> gap 8 ?p ?n" using gap_bounds(1) [of ?p 8 ?n] d(7) le(2) by simp
  ultimately show ?thesis by simp
qed

lemma step_gap:
  assumes st: "thread_step sv code B k k'" and ok: "sched_ok code B k" and i: "i < 8" "is_ready k i" and c: "kr_current_slot k' \<noteq> i"
  shows "is_ready k' i" "kr_current_slot k' = kr_current_slot k \<or> gap 8 (kr_current_slot k') i + 1 \<le> gap 8 (kr_current_slot k) i"
proof -
  obtain r b where p: "parked k i r b" using ready_parked [OF ok i] by blast
  show "is_ready k' i" using thread_step_ok(2) [OF st ok i(1) p c] by (simp add: parked_def is_ready_def)
  show "kr_current_slot k' = kr_current_slot k \<or> gap 8 (kr_current_slot k') i + 1 \<le> gap 8 (kr_current_slot k) i"
  proof (rule thread_step_kinds [OF st ok])
    show ?thesis if "others_kept B k k'" using that by (simp add: others_kept_def)
    show ?thesis if "creates code k k'" using creates_ok(2) [OF ok that] by simp
    fix k0 assume k0: "others_kept B k k0" "room B k0" "switched code k0 k'"
    have "is_ready k0 i" "kr_current_slot k0 = kr_current_slot k" using k0(1) i(2) by (simp_all add: others_kept_def is_ready_def)
    then show ?thesis using switched_gap [OF k0(3) others_kept_ok [OF ok k0(1)] k0(2) i(1) _ c] by simp
  qed
qed

lemma waits_bounded:
  assumes run: "waits sv code B i k n k'" and ok: "sched_ok code B k" and i: "i < 8" "is_ready k i"
  shows "sched_ok code B k' \<and> is_ready k' i \<and> n + gap 8 (kr_current_slot k') i \<le> gap 8 (kr_current_slot k) i"
  using run
proof induction
  case start
  then show ?case using ok i by simp
next
  case (turn n k1 k2)
  then show ?case using step_gap [OF turn.hyps(2) _ i(1) _ turn.hyps(3)] thread_step_ok(1) [OF turn.hyps(2)] by fastforce
qed

lemma waiting_thread_next:
  assumes run: "waits sv code B i k n k'" and ok: "sched_ok code B k" and i: "i < 8" "is_ready k i"
  shows "n \<le> 6 \<and> (room B k' \<longrightarrow> (\<exists>k2. thread_yield code k' = Inr k2 \<and> kr_current_slot k2 \<noteq> kr_current_slot k'))"
proof -
  note w = waits_bounded [OF run ok i]
  then have ok': "sched_ok code B k'" and r': "is_ready k' i" by simp_all
  have "1 \<le> gap 8 (kr_current_slot k') i" using gap_bounds(1) [OF sched_okD(7) [OF ok'] i(1)] by simp
  moreover have "gap 8 (kr_current_slot k) i < 8"
    by (rule gap_bounds(2) [OF sched_okD(7) [OF ok] i(1)]) (use ready_not_current [OF ok i] in auto)
  moreover have "\<exists>k2. thread_yield code k' = Inr k2 \<and> kr_current_slot k2 \<noteq> kr_current_slot k'" if "room B k'"
    using switch_outcome [OF ok' that] r' i(1) sched_okD(3) [OF ok'] unfolding thread_yield_def by metis
  ultimately show ?thesis using w by auto
qed

section \<open>What is over, and what cannot panic\<close>

lemma step_exited:
  assumes st: "thread_step sv code B k k'" and ok: "sched_ok code B k" and i: "i < 8" "th_state (kr_table k ! i) = THREAD_STATE_EXITED"
  shows "kr_table k' ! i = kr_table k ! i"
proof (rule thread_step_kinds [OF st ok])
  show ?thesis if "others_kept B k k'" using that by (simp add: others_kept_def)
  show ?thesis if cr: "creates code k k'"
  proof -
    from cr obtain entry ctx null out where run: "thread_create code entry ctx null k = (THREAD_STATUS_OK, out, k')"
      by (auto simp: creates_def)
    from thread_create_cases [OF ok run] obtain c k1 where c: "c < 8" "th_state (kr_table k ! c) = THREAD_STATE_UNUSED"
      and only: "paging_only k k1"
      and k': "k' = recount (set_thread c (fst (prepare_frame code (new_thread entry ctx c k) (kr_memory k))\<lparr>th_state := THREAD_STATE_READY\<rparr>)
         (k1\<lparr>kr_next_identifier := add64 (kr_next_identifier k) 1,
            kr_memory := snd (prepare_frame code (new_thread entry ctx c k) (kr_memory k))\<rparr>))" by metis
    have "i \<noteq> c" using c(2) i(2) by auto
    then show ?thesis using only by (auto simp: k' paging_only_def)
  qed
  fix k0 assume k0: "others_kept B k k0" "room B k0" "switched code k0 k'"
  then show ?thesis
    using switched_ok(7) [OF k0(3) others_kept_ok [OF ok k0(1)] k0(2) i(1)] i(2) by (simp add: others_kept_def)
qed

lemma exited_path:
  assumes run: "(thread_step sv code B)\<^sup>*\<^sup>* k k'" and ok: "sched_ok code B k"
    and i: "i < 8" "th_state (kr_table k ! i) = THREAD_STATE_EXITED"
  shows "sched_ok code B k' \<and> kr_table k' ! i = kr_table k ! i"
  using run
proof (induction rule: rtranclp_induct)
  case (step k1 k2)
  then show ?case using step_exited [OF step.hyps(2) _ i(1)] thread_step_ok(1) [OF step.hyps(2)] i(2) by simp
qed (use ok in simp)

lemma exit_is_final:
  assumes ok: "sched_ok code B k" and rm: "room B k" and ex: "thread_exit code k = Inr k1"
    and run: "(thread_step sv code B)\<^sup>*\<^sup>* k1 k2"
  shows "kr_current_slot k2 \<noteq> kr_current_slot k \<and> th_state (kr_table k2 ! kr_current_slot k) = THREAD_STATE_EXITED \<and>
     join_finished (kr_current_slot k) k2"
proof -
  have c: "kr_current_slot k \<noteq> 0" "next_slot k \<noteq> kr_current_slot k" using ex thread_exit_refused [OF ok] by auto
  have sw: "switched code k k1" and st: "th_state (kr_table k1 ! kr_current_slot k) = THREAD_STATE_EXITED"
    using exit_outcome [OF ok rm c] ex by (metis Inr_inject)+
  note p = exited_path [OF run switched_ok(1) [OF sw ok rm] sched_okD(7) [OF ok] st]
  then have "th_state (kr_table k2 ! kr_current_slot k) = THREAD_STATE_EXITED" "sched_ok code B k2" using st by simp_all
  then show ?thesis using running_current [of code B k2] by (auto simp: join_finished_def)
qed

lemma no_panic:
  assumes ok: "sched_ok code B k" and rm: "room B k"
  shows "(\<exists>k'. thread_yield code k = Inr k') \<and> (\<exists>k'. thread_on_interrupt_return code k = Inr k') \<and>
     thread_exit code k = (if kr_current_slot k = 0 then Inl ''the boot thread cannot exit''
       else if next_slot k = kr_current_slot k then Inl ''the last runnable thread exited''
       else Inr (projr (thread_exit code k)))"
proof (intro conjI)
  show "\<exists>k'. thread_yield code k = Inr k'"
    using switch_outcome [OF ok rm] sched_okD(3) [OF ok] unfolding thread_yield_def by metis
  let ?k0 = "k\<lparr>kr_reschedule_pending := False\<rparr>"
  have kept: "others_kept B k ?k0" by (simp add: others_kept_def)
  have rm0: "room B ?k0" using rm by (simp add: room_def)
  have "\<exists>k'. switch_to_next code ?k0 = Inr k'" using switch_outcome [OF others_kept_ok [OF ok kept] rm0] by metis
  then show "\<exists>k'. thread_on_interrupt_return code k = Inr k'"
    using sched_okD(3) [OF ok] by (simp add: thread_on_interrupt_return_def Let_def)
  show "thread_exit code k = (if kr_current_slot k = 0 then Inl ''the boot thread cannot exit''
       else if next_slot k = kr_current_slot k then Inl ''the last runnable thread exited''
       else Inr (projr (thread_exit code k)))"
  proof (cases "kr_current_slot k = 0 \<or> next_slot k = kr_current_slot k")
    case True
    then show ?thesis using thread_exit_refused [OF ok] by auto
  next
    case False
    with exit_outcome [OF ok rm] obtain k' where "thread_exit code k = Inr k'" by metis
    then show ?thesis using False by simp
  qed
qed

end
