(* ===== verification/Thread_Stacks.thy ===== *)
theory Thread_Stacks
  imports Thread_Steps
begin

text \<open>
  The stacks of the threads in the page tables: exactly the pages of the threads of the table
  are mapped in the thread region, each to a frame of its own, through every operation; so
  \<open>thread_verify\<close> accepts, and stopping gives everything back.
\<close>

unbundle bit_operations_syntax

section \<open>A region of pages a client owns\<close>

text \<open>
  In the thread region exactly the pages of \<open>A\<close> are mapped, each to a frame of its own.  A change
  that leaves the region so, changes nothing outside it and keeps the frames of others is \<open>tended\<close>.
\<close>

definition thread_region :: "u64 \<Rightarrow> bool" where
  "thread_region b \<longleftrightarrow> 0x800000000 \<le> b \<and> b < 0x800028000"

definition tidy :: "paging \<Rightarrow> u64 set \<Rightarrow> (u64 \<Rightarrow> nat) \<Rightarrow> bool" where
  "tidy p A F \<longleftrightarrow> paging_ok p \<and> owns p A F \<and>
     (\<forall>b. thread_region b \<longrightarrow> (\<forall>a \<in> A. \<not> in_page a b) \<longrightarrow> mapped p b = None)"

definition tended :: "paging \<Rightarrow> u64 set \<Rightarrow> (u64 \<Rightarrow> nat) \<Rightarrow> paging \<Rightarrow> u64 set \<Rightarrow> (u64 \<Rightarrow> nat) \<Rightarrow> bool" where
  "tended p A F p' A' F' \<longleftrightarrow> tidy p' A' F' \<and>
     (\<forall>b. canonical b \<longrightarrow> \<not> thread_region b \<longrightarrow> mapped p' b = mapped p b) \<and>
     (\<forall>g. holds (pg_space p) g \<longrightarrow> g \<notin> F ` A \<longrightarrow> holds (pg_space p') g \<and> g \<notin> F' ` A')"

definition region_page :: "u64 \<Rightarrow> bool" where
  "region_page a \<longleftrightarrow> page_address a \<and> 0x800000000 \<le> a \<and> a + 4096 \<le> 0x800028000"

lemma region_pageD: "region_page a \<Longrightarrow> page_address a" "region_page a \<Longrightarrow> in_page a b \<Longrightarrow> thread_region b"
  by (auto simp: region_page_def in_page_def thread_region_def)

lemma region_canonical: "thread_region b \<Longrightarrow> canonical b"
  by (simp add: thread_region_def canonical_def)

lemma tended_refl: "tidy p A F \<Longrightarrow> tended p A F p A F"
  by (simp add: tended_def)

lemma tended_trans: "tended p A F p1 A1 F1 \<Longrightarrow> tended p1 A1 F1 p2 A2 F2 \<Longrightarrow> tended p A F p2 A2 F2"
  by (simp add: tended_def)

lemma tended_cong: "tended p A F p' A' F' \<Longrightarrow> (\<And>a. a \<in> A' \<Longrightarrow> G a = F' a) \<Longrightarrow> tended p A F p' A' G"
proof -
  assume t: "tended p A F p' A' F'" and g: "\<And>a. a \<in> A' \<Longrightarrow> G a = F' a"
  have "G ` A' = F' ` A'" by (rule image_cong [OF refl g])
  moreover have "owns p' A' G" using t g by (auto simp: tended_def tidy_def owns_def inj_on_def)
  ultimately show ?thesis using t by (simp add: tended_def tidy_def)
qed

text \<open>Two states with the same pages translate alike wherever a translation is not a table's.\<close>

lemma mapped_in_page:
  assumes "page_address a" "in_page a b"
  shows "mapped p b = mapped p a"
proof -
  obtain i where i: "a = 4096 * i" using assms(1) unfolding page_address_def by (metis dvdE)
  then have "b div 4096 = a div 4096" using assms(2) by (intro div_nat_eqI) (auto simp: in_page_def)
  moreover have "canonical b" using assms i by (auto simp: page_address_def in_page_def canonical_def)
  ultimately have "agree 4 a b" using agree_4_iff [OF page_address_range(2) [OF assms(1)]] by simp
  then show ?thesis unfolding mapped_def leaves_def by (metis leaf_agree)
qed

lemma tended_mapped:
  assumes "tidy p A F" "tended p A F p' A F" "canonical b"
  shows "mapped p' b = mapped p b"
proof (cases "thread_region b")
  case False
  then show ?thesis using assms by (simp add: tended_def)
next
  case True
  show ?thesis
  proof (cases "\<exists>a \<in> A. in_page a b")
    case inside: True
    then obtain a where a: "a \<in> A" "in_page a b" by blast
    then have pa: "page_address a" using assms(1) by (simp add: tidy_def owns_def)
    show ?thesis using mapped_in_page [OF pa a(2)] a(1) assms(1,2) by (simp add: tended_def tidy_def owns_def)
  next
    case False
    then show ?thesis using True assms(1,2) by (simp add: tended_def tidy_def)
  qed
qed

text \<open>A held frame no page uses goes back.\<close>

lemma give_back:
  assumes t: "tidy p A F" and h: "holds (pg_space p) f" "f \<notin> F ` A"
  obtains fs where "frame_release (f * 4096) (mc_frames (snd (pg_space p))) = (FRAME_STATUS_OK, fs)"
    "tidy (set_frames fs p) A F" "\<And>b. mapped (set_frames fs p) b = mapped p b"
    "\<And>g. holds (pg_space p) g \<Longrightarrow> g \<noteq> f \<Longrightarrow> holds (pg_space (set_frames fs p)) g"
proof -
  let ?fs = "mc_frames (snd (pg_space p))"
  have ok: "paging_ok p" and o: "owns p A F" using t by (simp_all add: tidy_def)
  have "frame_ready ?fs" using ok by (simp add: paging_ok_def space_ok_def)
  then have inv: "frame_inv ?fs" "allocator_initialized ?fs" by (simp_all add: frame_ready_def)
  have single: "f \<in> single_set ?fs" using h by (simp add: holds_def)
  from frame_release_ok [OF inv single] obtain fs where
    fs: "frame_release (f * 4096) ?fs = (FRAME_STATUS_OK, fs)" "single_set fs = single_set ?fs - {f}" "frame_ready fs"
    by (auto simp: frame_ready_def)
  have ok2: "paging_ok (set_frames fs p)"
    by (rule set_frames_ok [OF ok fs(3)]) (use h in \<open>auto simp: fs(2) holds_def\<close>)
  have hg: "holds (pg_space (set_frames fs p)) g" if "holds (pg_space p) g" "g \<noteq> f" for g
    using that by (simp add: holds_def set_frames_space fs(2))
  have "owns (set_frames fs p) A F"
    using o h(2) hg unfolding owns_def set_frames_space by blast
  then have "tidy (set_frames fs p) A F" using t ok2 by (simp add: tidy_def set_frames_space)
  with fs(1) hg show thesis by (intro that) (auto simp: set_frames_space)
qed

section \<open>One page of a stack\<close>

lemma map_stack_page_ok:
  assumes t: "tidy p A F" and a: "add64 base (mul64 page PAGING_PAGE_SIZE) = a" "region_page a" "a \<notin> A"
  shows "(\<exists>f p'. map_stack_page base page p = Inr p' \<and> tended p A F p' (insert a A) (F(a := f))) \<or>
    (\<exists>st p'. map_stack_page base page p = Inl (st, page, p') \<and> tended p A F p' A F \<and> st \<noteq> THREAD_STATUS_OK)"
proof -
  let ?fs = "mc_frames (snd (pg_space p))"
  have ok: "paging_ok p" and o: "owns p A F" using t by (simp_all add: tidy_def)
  have "frame_ready ?fs" using ok by (simp add: paging_ok_def space_ok_def)
  then have inv: "frame_inv ?fs" "allocator_initialized ?fs" by (simp_all add: frame_ready_def)
  note pg = region_pageD [OF a(2)]
  show ?thesis
  proof (cases "free_set ?fs = {}")
    case True
    have "set_frames ?fs p = p" by (cases p; cases "pg_space p") (simp add: set_frames_def)
    then show ?thesis
      using frame_allocate_empty [OF inv True] tended_refl [OF t] by (simp add: map_stack_page_def Let_def)
  next
    case False
    from frame_allocate_some [OF inv False] obtain f fs where
      fr: "frame_allocate False ?fs = (FRAME_STATUS_OK, Some (f * 4096), fs)" by auto
    obtain st p1 where m: "paging_map a (f * 4096) 4096 PAGING_WRITE (set_frames fs p) = (st, p1)" by (meson surj_pair)
    obtain f1 where e: "f * 4096 = f1 * 4096" and ok1: "paging_ok p1"
      and hg1: "\<And>g. holds (pg_space p) g \<Longrightarrow> holds (pg_space p1) g \<and> g \<noteq> f1" and hf1: "holds (pg_space p1) f1"
      and mp1: "\<And>b. canonical b \<Longrightarrow> mapped p1 b = (if st = PAGING_STATUS_OK \<and> in_page a b
        then Some (1, leaf_entry (f1 * 4096 + (b div 4096 * 4096 - a)) PAGING_WRITE) else mapped p b)"
      and none1: "st = PAGING_STATUS_OK \<Longrightarrow> mapped p a = None"
      and good1: "st = PAGING_STATUS_OK \<Longrightarrow> owns p1 (insert a A) (F(a := f1))" and bad: "st \<noteq> PAGING_STATUS_OK \<Longrightarrow> owns p1 A F"
      by (rule own_page [OF ok o pg(1) fr m]; rule that; assumption?; simp)
    have f1: "f1 = f" using e by simp
    note hg = hg1 [unfolded f1] and hf = hf1 [unfolded f1] and mp = mp1 [unfolded f1] and good = good1 [unfolded f1]
    have fresh: "f \<notin> F ` A" using hg o by (auto simp: owns_def)
    have outside: "mapped p1 b = mapped p b" if "canonical b" "\<not> thread_region b" for b
      using mp [OF that(1)] pg(2) that(2) by auto
    show ?thesis
    proof (cases "st = PAGING_STATUS_OK")
      case True
      have "tidy p1 (insert a A) (F(a := f))"
        using t ok1 good [OF True] mp [OF region_canonical] by (simp add: tidy_def)
      then have "tended p A F p1 (insert a A) (F(a := f))"
        using outside hg a(3) by (auto simp: tended_def)
      then show ?thesis
        using fr m True a(1) [unfolded PAGING_PAGE_SIZE_def] by (auto simp: map_stack_page_def Let_def PAGING_PAGE_SIZE_def)
    next
      case False
      have t1: "tidy p1 A F"
        using t ok1 bad [OF False] mp [OF region_canonical] False by (simp add: tidy_def)
      from give_back [OF t1 hf fresh] obtain fs2 where
        g: "frame_release (f * 4096) (mc_frames (snd (pg_space p1))) = (FRAME_STATUS_OK, fs2)"
        "tidy (set_frames fs2 p1) A F" "\<And>b. mapped (set_frames fs2 p1) b = mapped p1 b"
        "\<And>g. holds (pg_space p1) g \<Longrightarrow> g \<noteq> f \<Longrightarrow> holds (pg_space (set_frames fs2 p1)) g" by metis
      have "tended p A F (set_frames fs2 p1) A F"
        using g hg outside by (auto simp: tended_def)
      then show ?thesis
        using fr m False a(1) [unfolded PAGING_PAGE_SIZE_def] g(1) by (simp add: map_stack_page_def Let_def PAGING_PAGE_SIZE_def)
    qed
  qed
qed

lemma drop_page:
  assumes t: "tidy p A F" and a: "a \<in> A" "region_page a"
  obtains p1 fs where "paging_translate a False p = (PAGING_STATUS_OK, Some \<lparr>tr_physical_address = F a * 4096,
     tr_permissions = PAGING_WRITE, tr_memory_type = PAGING_MEMORY_WRITE_BACK, tr_level = 1, tr_user = False\<rparr>)"
    "paging_unmap a 4096 p = (PAGING_STATUS_OK, p1)"
    "frame_release (F a * 4096) (mc_frames (snd (pg_space p1))) = (FRAME_STATUS_OK, fs)"
    "tended p A F (set_frames fs p1) (A - {a}) F"
proof -
  have ok: "paging_ok p" and o: "owns p A F" using t by (simp_all add: tidy_def)
  note pg = region_pageD [OF a(2)]
  from disown_page [OF ok o a(1)] obtain p1 fs where d: "paging_unmap a 4096 p = (PAGING_STATUS_OK, p1)"
    "frame_release (F a * 4096) (mc_frames (snd (pg_space p1))) = (FRAME_STATUS_OK, fs)"
    "paging_ok (set_frames fs p1)" "owns (set_frames fs p1) (A - {a}) F"
    "\<And>b. canonical b \<Longrightarrow> mapped (set_frames fs p1) b = (if in_page a b then None else mapped p b)"
    "\<And>g. holds (pg_space p) g \<Longrightarrow> g \<noteq> F a \<Longrightarrow> holds (pg_space (set_frames fs p1)) g" by metis
  have "tidy (set_frames fs p1) (A - {a}) F"
    using t d(3,4) d(5) [OF region_canonical] by (auto simp: tidy_def)
  then have "tended p A F (set_frames fs p1) (A - {a}) F"
    using d(5,6) pg(2) a(1) by (auto simp: tended_def)
  then show thesis using that [OF owned_translation [OF ok o a(1)] d(1,2)] by blast
qed

lemma unwind_stack_page_ok:
  assumes t: "tidy p A F" and a: "add64 base (mul64 page PAGING_PAGE_SIZE) = a" "region_page a" "a \<in> A"
  shows "tended p A F (unwind_stack_page base page p) (A - {a}) F"
proof -
  obtain p1 fs where d: "paging_translate a False p = (PAGING_STATUS_OK, Some \<lparr>tr_physical_address = F a * 4096,
     tr_permissions = PAGING_WRITE, tr_memory_type = PAGING_MEMORY_WRITE_BACK, tr_level = 1, tr_user = False\<rparr>)"
    "paging_unmap a 4096 p = (PAGING_STATUS_OK, p1)"
    "frame_release (F a * 4096) (mc_frames (snd (pg_space p1))) = (FRAME_STATUS_OK, fs)"
    "tended p A F (set_frames fs p1) (A - {a}) F" by (rule drop_page [OF t a(3,2)])
  show ?thesis using d(4) by (simp add: unwind_stack_page_def Let_def a(1) [unfolded PAGING_PAGE_SIZE_def] PAGING_PAGE_SIZE_def d(1,2,3))
qed

lemma unmap_stack_page_ok:
  assumes t: "tidy (kr_paging k) A F" and a: "add64 base (mul64 page PAGING_PAGE_SIZE) = a" "region_page a" "a \<in> A"
  shows "\<exists>p. unmap_stack_page base page k = Inr (k\<lparr>kr_paging := p,
      kr_state := (kr_state k)\<lparr>ts_stack_frames := sub64 (ts_stack_frames (kr_state k)) 1\<rparr>\<rparr>) \<and>
    tended (kr_paging k) A F p (A - {a}) F"
proof -
  obtain p1 fs where d: "paging_translate a False (kr_paging k) = (PAGING_STATUS_OK, Some \<lparr>tr_physical_address = F a * 4096,
     tr_permissions = PAGING_WRITE, tr_memory_type = PAGING_MEMORY_WRITE_BACK, tr_level = 1, tr_user = False\<rparr>)"
    "paging_unmap a 4096 (kr_paging k) = (PAGING_STATUS_OK, p1)"
    "frame_release (F a * 4096) (mc_frames (snd (pg_space p1))) = (FRAME_STATUS_OK, fs)"
    "tended (kr_paging k) A F (set_frames fs p1) (A - {a}) F" by (rule drop_page [OF t a(3,2)])
  show ?thesis
    by (rule exI [of _ "set_frames fs p1"])
      (use d(4) in \<open>simp add: unmap_stack_page_def Let_def a(1) [unfolded PAGING_PAGE_SIZE_def] PAGING_PAGE_SIZE_def d(1,2,3)\<close>)
qed

section \<open>A whole stack\<close>

definition stack_page :: "nat \<Rightarrow> nat \<Rightarrow> u64" where
  "stack_page slot page = 0x800000000 + slot * 20480 + 4096 + page * 4096"

definition stack_pages :: "nat \<Rightarrow> u64 set" where
  "stack_pages slot = stack_page slot ` {0..<4}"

lemma stack_page_address:
  assumes "slot < 8" "page < 4"
  shows "add64 (slot_stack_base slot) (mul64 page PAGING_PAGE_SIZE) = stack_page slot page"
proof -
  have "page * 4096 < 16384" "slot * 20480 < 163840" using assms by simp_all
  then show ?thesis
    by (simp add: slot_addresses(2) [OF assms(1)] stack_page_def PAGING_PAGE_SIZE_def mul64_def add64_def)
qed

lemma stack_page_region:
  assumes "slot < 8" "page < 4"
  shows "region_page (stack_page slot page)"
proof -
  have e: "stack_page slot page = 4096 * (0x800000 + slot * 5 + 1 + page)" by (simp add: stack_page_def)
  have "4096 dvd stack_page slot page" unfolding e by (rule dvd_triv_left)
  then show ?thesis using assms by (simp add: region_page_def page_address_def) (simp add: stack_page_def)
qed

lemma stack_page_inj:
  assumes "stack_page i m = stack_page j n" "m < 4" "n < 4"
  shows "i = j \<and> m = n"
proof -
  have "5 * i + m = 5 * j + n" using assms(1) by (simp add: stack_page_def)
  then have "(5 * i + m) div 5 = (5 * j + n) div 5" "(5 * i + m) mod 5 = (5 * j + n) mod 5" by simp_all
  then show ?thesis using assms(2,3) by simp
qed

lemma stack_pages_apart:
  assumes "i \<noteq> j"
  shows "stack_pages i \<inter> stack_pages j = {}"
proof -
  have "stack_page i m \<noteq> stack_page j n" if "m < 4" "n < 4" for m n
    using stack_page_inj [OF _ that] assms by blast
  then show ?thesis by (auto simp: stack_pages_def)
qed

lemma card_stack_pages: "card (stack_pages i) = 4"
proof -
  have "inj_on (stack_page i) {0..<4}"
  proof (rule inj_onI)
    fix m n assume "m \<in> {0..<4::nat}" "n \<in> {0..<4::nat}" "stack_page i m = stack_page i n"
    then show "m = n" using stack_page_inj [of i m i n] by simp
  qed
  then show ?thesis by (simp add: stack_pages_def card_image)
qed

lemma stack_pages_split: "n < 4 \<Longrightarrow> stack_page slot ` {0..<Suc n} = insert (stack_page slot n) (stack_page slot ` {0..<n})"
  by (simp add: atLeast0_lessThan_Suc)

text \<open>Mapping a stack maps its four pages, or leaves the paging state as it was.\<close>

lemma map_stack_loop:
  assumes t: "tidy p A F" and s: "slot < 8" and fresh: "A \<inter> stack_pages slot = {}" and n: "n \<le> 4"
  shows "(\<exists>G p'. fold_until (map_stack_page (slot_stack_base slot)) [0..<n] p = Inr p' \<and>
      tended p A F p' (A \<union> stack_page slot ` {0..<n}) G \<and> (\<forall>a \<in> A. G a = F a)) \<or>
    (\<exists>st j p' G. fold_until (map_stack_page (slot_stack_base slot)) [0..<n] p = Inl (st, j, p') \<and> j < n \<and>
      st \<noteq> THREAD_STATUS_OK \<and> tended p A F p' (A \<union> stack_page slot ` {0..<j}) G \<and> (\<forall>a \<in> A. G a = F a))"
  using n
proof (induction n)
  case 0
  then show ?case using tended_refl [OF t] by auto
next
  case (Suc n)
  then have n: "n < 4" by simp
  let ?f = "map_stack_page (slot_stack_base slot)" and ?a = "stack_page slot n"
  consider (ok) G p' where "fold_until ?f [0..<n] p = Inr p'" "tended p A F p' (A \<union> stack_page slot ` {0..<n}) G" "\<forall>a \<in> A. G a = F a"
    | (bad) st j p' G where "fold_until ?f [0..<n] p = Inl (st, j, p')" "j < n" "st \<noteq> THREAD_STATUS_OK"
        "tended p A F p' (A \<union> stack_page slot ` {0..<j}) G" "\<forall>a \<in> A. G a = F a"
    using Suc.IH Suc.prems by fastforce
  then show ?case
  proof cases
    case bad
    then show ?thesis by (intro disjI2 exI [of _ st] exI [of _ j] exI [of _ p'] exI [of _ G]) (simp add: fold_until_append)
  next
    case ok
    let ?B = "A \<union> stack_page slot ` {0..<n}"
    have t': "tidy p' ?B G" using ok(2) by (simp add: tended_def)
    have new: "?a \<notin> ?B"
    proof
      assume "?a \<in> ?B"
      moreover have "?a \<notin> A" using fresh n by (auto simp: stack_pages_def)
      ultimately obtain m where "m < n" "?a = stack_page slot m" by auto
      then show False using stack_page_inj [of slot n slot m] n by simp
    qed
    have ext: "insert ?a ?B = A \<union> stack_page slot ` {0..<Suc n}" using stack_pages_split [OF n, of slot] by simp
    consider (map) f p2 where "?f n p' = Inr p2" "tended p' ?B G p2 (insert ?a ?B) (G(?a := f))"
      | (no) st p2 where "?f n p' = Inl (st, n, p2)" "tended p' ?B G p2 ?B G" "st \<noteq> THREAD_STATUS_OK"
      using map_stack_page_ok [OF t' stack_page_address [OF s n] stack_page_region [OF s n] new] by fastforce
    then show ?thesis
    proof cases
      case map
      have "\<forall>a \<in> A. (G(?a := f)) a = F a" using ok(3) new by auto
      then show ?thesis
        using map tended_trans [OF ok(2) map(2)] ok(1) unfolding ext
        by (intro disjI1 exI [of _ "G(?a := f)"] exI [of _ p2]) (simp add: fold_until_append del: fun_upd_apply)
    next
      case no
      then show ?thesis
        using tended_trans [OF ok(2) no(2)] ok(1,3)
        by (intro disjI2 exI [of _ st] exI [of _ n] exI [of _ p2] exI [of _ G]) (simp add: fold_until_append)
    qed
  qed
qed

lemma drop_stack_pages:
  assumes "A \<inter> stack_page slot ` {0..<j} = {}" "n < j" "j \<le> 4"
  shows "stack_page slot n \<in> A \<union> stack_page slot ` {n..<j}"
    "A \<union> stack_page slot ` {n..<j} - {stack_page slot n} = A \<union> stack_page slot ` {Suc n..<j}"
proof -
  show "stack_page slot n \<in> A \<union> stack_page slot ` {n..<j}" using assms(2) by simp
  have "{n..<j} = insert n {Suc n..<j}" using assms(2) by auto
  moreover have "stack_page slot n \<notin> A" using assms(1,2) by auto
  moreover have "stack_page slot n \<notin> stack_page slot ` {Suc n..<j}"
    using stack_page_inj [of slot n slot] assms(3) by fastforce
  ultimately show "A \<union> stack_page slot ` {n..<j} - {stack_page slot n} = A \<union> stack_page slot ` {Suc n..<j}" by auto
qed

lemma unwind_loop:
  assumes t: "tidy p (A \<union> stack_page slot ` {0..<j}) F" and s: "slot < 8" and j: "j \<le> 4"
    and fresh: "A \<inter> stack_page slot ` {0..<j} = {}" and n: "n \<le> j"
  shows "tended p (A \<union> stack_page slot ` {0..<j}) F
    (fold (unwind_stack_page (slot_stack_base slot)) [0..<n] p) (A \<union> stack_page slot ` {n..<j}) F"
  using n
proof (induction n)
  case 0
  then show ?case using tended_refl [OF t] by simp
next
  case (Suc n)
  let ?p = "fold (unwind_stack_page (slot_stack_base slot)) [0..<n] p"
  have n: "n < j" "n < 4" using Suc.prems j by simp_all
  have ih: "tended p (A \<union> stack_page slot ` {0..<j}) F ?p (A \<union> stack_page slot ` {n..<j}) F" using Suc by simp
  then have t': "tidy ?p (A \<union> stack_page slot ` {n..<j}) F" by (simp add: tended_def)
  note d = drop_stack_pages [OF fresh n(1) j]
  note u = unwind_stack_page_ok [OF t' stack_page_address [OF s n(2)] stack_page_region [OF s n(2)] d(1), unfolded d(2)]
  show ?case using tended_trans [OF ih u] by simp
qed

lemma map_stack_ok:
  assumes t: "tidy (kr_paging k) A F" and s: "slot < 8" and fresh: "A \<inter> stack_pages slot = {}" and run: "map_stack slot k = (st, k')"
  shows "if st = THREAD_STATUS_OK
     then (\<exists>G. tended (kr_paging k) A F (kr_paging k') (A \<union> stack_pages slot) G) \<and>
          ts_stack_frames (kr_state k') = add64 (ts_stack_frames (kr_state k)) 4
     else tended (kr_paging k) A F (kr_paging k') A F \<and> ts_stack_frames (kr_state k') = ts_stack_frames (kr_state k)"
proof -
  let ?f = "map_stack_page (slot_stack_base slot)"
  consider (ok) G p' where "fold_until ?f [0..<4] (kr_paging k) = Inr p'" "tended (kr_paging k) A F p' (A \<union> stack_pages slot) G"
    | (bad) st1 j p' G where "fold_until ?f [0..<4] (kr_paging k) = Inl (st1, j, p')" "j < 4" "st1 \<noteq> THREAD_STATUS_OK"
        "tended (kr_paging k) A F p' (A \<union> stack_page slot ` {0..<j}) G" "\<forall>a \<in> A. G a = F a"
    using map_stack_loop [OF t s fresh, of 4] unfolding stack_pages_def by fastforce
  then show ?thesis
  proof cases
    case ok
    then show ?thesis using run by (auto simp: map_stack_def Let_def thread_consts)
  next
    case bad
    let ?p = "fold (unwind_stack_page (slot_stack_base slot)) [0..<j] p'"
    have "A \<inter> stack_page slot ` {0..<j} = {}" using fresh bad(2) by (auto simp: stack_pages_def)
    moreover have "tidy p' (A \<union> stack_page slot ` {0..<j}) G" using bad(4) by (simp add: tended_def)
    ultimately have "tended p' (A \<union> stack_page slot ` {0..<j}) G ?p (A \<union> stack_page slot ` {j..<j}) G"
      using bad(2) by (intro unwind_loop [OF _ s]) simp_all
    then have "tended p' (A \<union> stack_page slot ` {0..<j}) G ?p A G" by simp
    from tended_cong [OF tended_trans [OF bad(4) this], of F] bad(5) have "tended (kr_paging k) A F ?p A F" by simp
    then show ?thesis using run bad(1,3) by (auto simp: map_stack_def Let_def thread_consts)
  qed
qed

lemma unmap_stack_loop:
  assumes t: "tidy (kr_paging k) (A \<union> stack_pages slot) F" and s: "slot < 8" and fresh: "A \<inter> stack_pages slot = {}" and n: "n \<le> 4"
    and c: "4 \<le> ts_stack_frames (kr_state k)" "ts_stack_frames (kr_state k) < 2 ^ 64"
  shows "\<exists>p. fold_until (unmap_stack_page (slot_stack_base slot)) [0..<n] k = Inr (k\<lparr>kr_paging := p,
      kr_state := (kr_state k)\<lparr>ts_stack_frames := ts_stack_frames (kr_state k) - n\<rparr>\<rparr>) \<and>
    tended (kr_paging k) (A \<union> stack_pages slot) F p (A \<union> stack_page slot ` {n..<4}) F"
  using n
proof (induction n)
  case 0
  have "kr_state k = (kr_state k)\<lparr>ts_stack_frames := ts_stack_frames (kr_state k)\<rparr>" by simp
  then show ?case using tended_refl [OF t] by (intro exI [of _ "kr_paging k"]) (simp add: stack_pages_def)
next
  case (Suc n)
  then have n: "n < 4" by simp
  from Suc obtain p where ih: "fold_until (unmap_stack_page (slot_stack_base slot)) [0..<n] k = Inr (k\<lparr>kr_paging := p,
      kr_state := (kr_state k)\<lparr>ts_stack_frames := ts_stack_frames (kr_state k) - n\<rparr>\<rparr>)"
    "tended (kr_paging k) (A \<union> stack_pages slot) F p (A \<union> stack_page slot ` {n..<4}) F" by auto
  let ?k = "k\<lparr>kr_paging := p, kr_state := (kr_state k)\<lparr>ts_stack_frames := ts_stack_frames (kr_state k) - n\<rparr>\<rparr>"
  have t': "tidy (kr_paging ?k) (A \<union> stack_page slot ` {n..<4}) F" using ih(2) by (simp add: tended_def)
  have fr: "A \<inter> stack_page slot ` {0..<4} = {}" using fresh by (simp add: stack_pages_def)
  note d = drop_stack_pages [OF fr n order_refl]
  have one: "sub64 (ts_stack_frames (kr_state k) - n) 1 = ts_stack_frames (kr_state k) - Suc n"
    using c n by (simp add: sub64_id)
  from unmap_stack_page_ok [OF t' stack_page_address [OF s n] stack_page_region [OF s n] d(1), unfolded d(2)] obtain p2 where
    u: "unmap_stack_page (slot_stack_base slot) n ?k = Inr (?k\<lparr>kr_paging := p2,
        kr_state := (kr_state ?k)\<lparr>ts_stack_frames := sub64 (ts_stack_frames (kr_state ?k)) 1\<rparr>\<rparr>)"
      "tended (kr_paging ?k) (A \<union> stack_page slot ` {n..<4}) F p2 (A \<union> stack_page slot ` {Suc n..<4}) F" by auto
  have "fold_until (unmap_stack_page (slot_stack_base slot)) [0..<Suc n] k = Inr (k\<lparr>kr_paging := p2,
      kr_state := (kr_state k)\<lparr>ts_stack_frames := ts_stack_frames (kr_state k) - Suc n\<rparr>\<rparr>)"
    unfolding fold_until_upt_Suc ih(1) using u(1) one by simp
  then show ?case using tended_trans [OF ih(2)] u(2) by (intro exI [of _ p2]) simp
qed

lemma unmap_stack_ok:
  assumes t: "tidy (kr_paging k) (A \<union> stack_pages slot) F" and s: "slot < 8" and fresh: "A \<inter> stack_pages slot = {}"
    and c: "4 \<le> ts_stack_frames (kr_state k)" "ts_stack_frames (kr_state k) < 2 ^ 64"
  shows "\<exists>p. unmap_stack slot k = (THREAD_STATUS_OK, k\<lparr>kr_paging := p,
      kr_state := (kr_state k)\<lparr>ts_stack_frames := ts_stack_frames (kr_state k) - 4\<rparr>\<rparr>) \<and>
    tended (kr_paging k) (A \<union> stack_pages slot) F p A F"
  using unmap_stack_loop [OF t s fresh order_refl c] by (auto simp: unmap_stack_def thread_consts)

section \<open>The stacks of the table\<close>

definition live_slots :: "thread list \<Rightarrow> nat set" where
  "live_slots T = {slot. 0 < slot \<and> slot < 8 \<and> th_state (T ! slot) \<noteq> THREAD_STATE_UNUSED}"

definition live_pages :: "thread list \<Rightarrow> u64 set" where
  "live_pages T = (\<Union>slot \<in> live_slots T. stack_pages slot)"

text \<open>\<open>H\<close> is a set of frames others hold.\<close>

definition stacks_ok :: "nat set \<Rightarrow> 'e kernel \<Rightarrow> bool" where
  "stacks_ok H k \<longleftrightarrow> (\<exists>F. tidy (kr_paging k) (live_pages (kr_table k)) F \<and>
     (\<forall>g \<in> H. holds (pg_space (kr_paging k)) g \<and> g \<notin> F ` live_pages (kr_table k))) \<and>
     ts_stack_frames (kr_state k) = 4 * card (live_slots (kr_table k))"

lemma live_slots_finite [simp]: "finite (live_slots T)"
  by (rule finite_subset [of _ "{..<8}"]) (auto simp: live_slots_def)

lemma live_slots_card: "card (live_slots T) < 8"
proof -
  have "live_slots T \<subseteq> {1..<8}" by (auto simp: live_slots_def)
  from card_mono [OF _ this] show ?thesis by simp
qed

lemma live_pages_insert: "live_slots T' = insert c (live_slots T) \<Longrightarrow> live_pages T' = live_pages T \<union> stack_pages c"
  by (auto simp: live_pages_def)

lemma live_pages_fresh: "c \<notin> live_slots T \<Longrightarrow> live_pages T \<inter> stack_pages c = {}"
proof -
  assume c: "c \<notin> live_slots T"
  have "stack_pages i \<inter> stack_pages c = {}" if "i \<in> live_slots T" for i
    by (rule stack_pages_apart) (use that c in auto)
  then show ?thesis by (auto simp: live_pages_def)
qed

lemma stacks_tended:
  assumes "stacks_ok H k" "\<And>F. tidy (kr_paging k) (live_pages (kr_table k)) F \<Longrightarrow>
      \<exists>F'. tended (kr_paging k) (live_pages (kr_table k)) F (kr_paging k') (live_pages (kr_table k')) F'"
    "ts_stack_frames (kr_state k') = 4 * card (live_slots (kr_table k'))"
  shows "stacks_ok H k'"
proof -
  from assms(1) obtain F where F: "tidy (kr_paging k) (live_pages (kr_table k)) F"
    "\<forall>g \<in> H. holds (pg_space (kr_paging k)) g \<and> g \<notin> F ` live_pages (kr_table k)" by (auto simp: stacks_ok_def)
  from assms(2) [OF F(1)] obtain F' where
    "tended (kr_paging k) (live_pages (kr_table k)) F (kr_paging k') (live_pages (kr_table k')) F'" by blast
  then have t: "tidy (kr_paging k') (live_pages (kr_table k')) F'"
    and g: "\<And>g. holds (pg_space (kr_paging k)) g \<Longrightarrow> g \<notin> F ` live_pages (kr_table k) \<Longrightarrow>
      holds (pg_space (kr_paging k')) g \<and> g \<notin> F' ` live_pages (kr_table k')" by (simp_all add: tended_def)
  have "\<forall>g \<in> H. holds (pg_space (kr_paging k')) g \<and> g \<notin> F' ` live_pages (kr_table k')" using g F(2) by simp
  with t assms(3) show ?thesis unfolding stacks_ok_def by (intro conjI exI [of _ F'])
qed

lemma stacks_same:
  "stacks_ok H k \<Longrightarrow> kr_paging k' = kr_paging k \<Longrightarrow> live_slots (kr_table k') = live_slots (kr_table k) \<Longrightarrow>
     ts_stack_frames (kr_state k') = ts_stack_frames (kr_state k) \<Longrightarrow> stacks_ok H k'"
  by (simp add: stacks_ok_def live_pages_def)

lemma switched_stacks:
  assumes sw: "switched code k k'" and ok: "sched_ok code B k"
  shows "kr_paging k' = kr_paging k" "live_slots (kr_table k') = live_slots (kr_table k)"
    "ts_stack_frames (kr_state k') = ts_stack_frames (kr_state k)"
proof -
  let ?k0 = "cpu_interrupt_disable k"
  from sw obtain ret st loc n b where s: "leaves_as code k ret st" "n < 8" "is_ready k n"
    and k': "k' = awake code b (handed_over ret st loc n ?k0)" by (auto simp: switched_def)
  have np: "n \<noteq> kr_current_slot k" by (rule ready_not_current [OF ok s(2,3)])
  show "kr_paging k' = kr_paging k" "ts_stack_frames (kr_state k') = ts_stack_frames (kr_state k)" by (simp_all add: k')
  have "th_state (kr_table k' ! i) = THREAD_STATE_UNUSED \<longleftrightarrow> th_state (kr_table k ! i) = THREAD_STATE_UNUSED" if "i < 8" for i
    using handed_table_nth [of i "kr_table k" n "kr_current_slot k" st] that s np sched_okD [OF ok] running_current [OF ok]
    by (auto simp: k' leaves_as_def is_ready_def)
  then show "live_slots (kr_table k') = live_slots (kr_table k)" by (auto simp: live_slots_def)
qed

lemma region_kept_stacks:
  assumes "stacks_ok H k" "region_kept (kr_paging k) (kr_paging k')" "kr_table k' = kr_table k" "kr_state k' = kr_state k"
  shows "stacks_ok H k'"
proof -
  from assms(1) obtain F where F: "tidy (kr_paging k) (live_pages (kr_table k)) F"
    "\<forall>g \<in> H. holds (pg_space (kr_paging k)) g \<and> g \<notin> F ` live_pages (kr_table k)" by (auto simp: stacks_ok_def)
  have reg: "region_page a" if "a \<in> live_pages (kr_table k)" for a
    using that stack_page_region by (auto simp: live_pages_def live_slots_def stack_pages_def)
  have "thread_region a" if "a \<in> live_pages (kr_table k)" for a
    using region_pageD(2) [OF reg [OF that], of a] by (simp add: in_page_def)
  then have "tidy (kr_paging k') (live_pages (kr_table k)) F"
    using F(1) assms(2) unfolding tidy_def owns_def region_kept_def thread_region_def by auto
  then show ?thesis using F(2) assms unfolding stacks_ok_def region_kept_def by auto
qed

lemma map_stack_stacks:
  assumes st: "stacks_ok H k" and ok: "sched_ok code B k" and c: "0 < c" "c < 8" "th_state (kr_table k ! c) = THREAD_STATE_UNUSED"
    and run: "map_stack c k = (status, k')"
    and k2: "kr_paging k2 = kr_paging k'" "ts_stack_frames (kr_state k2) = ts_stack_frames (kr_state k')"
      "live_slots (kr_table k2) = (if status = THREAD_STATUS_OK then insert c (live_slots (kr_table k)) else live_slots (kr_table k))"
  shows "stacks_ok H k2"
proof (rule stacks_tended [OF st])
  have new: "c \<notin> live_slots (kr_table k)" using c(3) by (simp add: live_slots_def)
  have pages: "live_pages (kr_table k2) = (if status = THREAD_STATUS_OK then live_pages (kr_table k) \<union> stack_pages c else live_pages (kr_table k))"
    using k2(3) live_pages_insert by (cases "status = THREAD_STATUS_OK") (auto simp: live_pages_def)
  have frames: "ts_stack_frames (kr_state k) = 4 * card (live_slots (kr_table k))" using st by (simp add: stacks_ok_def)
  note m = map_stack_ok [OF _ c(2) live_pages_fresh [OF new] run]
  show "\<exists>F'. tended (kr_paging k) (live_pages (kr_table k)) F (kr_paging k2) (live_pages (kr_table k2)) F'"
    if "tidy (kr_paging k) (live_pages (kr_table k)) F" for F
    using m [OF that] k2(1) pages by (cases "status = THREAD_STATUS_OK") auto
  obtain F where "tidy (kr_paging k) (live_pages (kr_table k)) F" using st by (auto simp: stacks_ok_def)
  note mf = m [OF this]
  show "ts_stack_frames (kr_state k2) = 4 * card (live_slots (kr_table k2))"
  proof (cases "status = THREAD_STATUS_OK")
    case True
    have "add64 (4 * card (live_slots (kr_table k))) 4 = 4 * card (live_slots (kr_table k)) + 4"
      using live_slots_card [of "kr_table k"] by (simp add: add64_id)
    then show ?thesis using mf k2(2,3) frames new True by simp
  next
    case False
    then show ?thesis using mf k2(2,3) frames by simp
  qed
qed

lemma switch_call_stacks:
  assumes "sched_ok code B k" "room B k" "switch_to_next code k = Inr k'" "stacks_ok H k"
  shows "stacks_ok H k'"
proof (rule switch_outcome [OF assms(1,2)])
  assume "switch_to_next code k = Inr k"
  then show ?thesis using assms by simp
next
  fix k2 assume "switch_to_next code k = Inr k2" "switched code k k2"
  then show ?thesis using stacks_same [OF assms(4) switched_stacks [OF _ assms(1)]] assms(3) by simp
qed

lemma thread_step_stacks:
  assumes st: "thread_step sv code B k k'" and ok: "sched_ok code B k" and s: "stacks_ok H k"
  shows "stacks_ok H k'"
  using st
proof cases
  case work
  then show ?thesis by (intro region_kept_stacks [OF s]) (auto simp: works_def)
next
  case yield
  then show ?thesis using switch_call_stacks [OF ok _ _ s] sched_okD(3) [OF ok] by (simp add: thread_yield_def)
next
  case exit
  have c: "kr_current_slot k \<noteq> 0" "next_slot k \<noteq> kr_current_slot k" using exit(2) thread_exit_refused [OF ok] by auto
  from exit_outcome [OF ok exit(1) c] exit(2) have "switched code k k'" by (metis Inr_inject)
  then show ?thesis using stacks_same [OF s switched_stacks [OF _ ok]] by simp
next
  case (create entry ctx null status out)
  from thread_create_cases [OF ok create(2)] show ?thesis
  proof cases
    case 1
    then show ?thesis
    proof (cases "k' = k")
      case False
      with 1 obtain c where c: "0 < c" "c < 8" "th_state (kr_table k ! c) = THREAD_STATE_UNUSED" "map_stack c k = (status, k')" by blast
      have "kr_table k' = kr_table k" using 1(2) by (auto simp: paging_only_def)
      then show ?thesis using map_stack_stacks [OF s ok c refl refl] 1(1) by simp
    qed (use s in simp)
  next
    case (2 c k1)
    have ne: "c \<noteq> i \<Longrightarrow> th_state (kr_table k' ! i) = th_state (kr_table k ! i)" for i
      using 2(7) by (auto simp: 2(9) paging_only_def)
    have "th_state (kr_table k' ! c) = THREAD_STATE_READY"
      using 2(3,7) sched_okD(6) [OF ok] by (auto simp: 2(9) paging_only_def)
    with ne 2(2,3) have live: "live_slots (kr_table k') = insert c (live_slots (kr_table k))"
      by (auto simp: live_slots_def) (metis thread_state.distinct(1))+
    have cap: "ts_capacity (kr_state (set_thread c t (k1\<lparr>kr_next_identifier := n, kr_memory := m\<rparr>))) =
      length (kr_table (set_thread c t (k1\<lparr>kr_next_identifier := n, kr_memory := m\<rparr>)))" for t n m
      using 2(7) sched_okD [OF ok] by (auto simp: paging_only_def set_thread_def)
    have "kr_paging k' = kr_paging k1" by (simp add: 2(9))
    moreover have "ts_stack_frames (kr_state k') = ts_stack_frames (kr_state k1)"
      unfolding 2(9) recount_eq [OF cap] by (simp add: set_thread_def)
    ultimately show ?thesis using map_stack_stacks [OF s ok 2(2,3,4,6)] live by simp
  qed
next
  case quantum
  then show ?thesis using quantum_kept [of sv k k' B] by (intro stacks_same [OF s]) (simp_all add: others_kept_def)
next
  case interrupt_return
  show ?thesis
  proof (cases "kr_reschedule_pending k")
    case False
    then show ?thesis using interrupt_return(2) s by (simp add: thread_on_interrupt_return_def)
  next
    case True
    let ?k0 = "k\<lparr>kr_reschedule_pending := False\<rparr>"
    have kept: "others_kept B k ?k0" by (simp add: others_kept_def)
    have rm: "room B ?k0" using interrupt_return(1) by (simp add: room_def)
    have s0: "stacks_ok H ?k0" by (rule stacks_same [OF s]) simp_all
    have "switch_to_next code ?k0 = Inr k'"
      using interrupt_return(2) True sched_okD(3) [OF ok] by (simp add: thread_on_interrupt_return_def Let_def)
    then show ?thesis using switch_call_stacks [OF others_kept_ok [OF ok kept] rm _ s0] by simp
  qed
next
  case (enable status)
  then show ?thesis using enable_kept [of sv k status k' B] by (intro stacks_same [OF s]) (simp_all add: others_kept_def)
next
  case (disable status)
  then show ?thesis using disable_preemption_kept [of sv k status k' B] by (intro stacks_same [OF s]) (simp_all add: others_kept_def)
qed

lemma thread_path_ok:
  assumes run: "(thread_step sv code B)\<^sup>*\<^sup>* k k'" and ok: "sched_ok code B k" and s: "stacks_ok H k"
  shows "sched_ok code B k' \<and> stacks_ok H k'"
  using run
proof (induction rule: rtranclp_induct)
  case (step k1 k2)
  then show ?case using thread_step_ok(1) [OF step.hyps(2)] thread_step_stacks [OF step.hyps(2)] by blast
qed (use ok s in simp)

section \<open>Starting\<close>

definition region_free :: "paging \<Rightarrow> bool" where
  "region_free p \<longleftrightarrow> paging_ok p \<and> (\<forall>b. 0x800000000 \<le> b \<and> b < 0x800028000 \<longrightarrow> mapped p b = None)"

lemma thread_start_ok:
  assumes code: "code_ok code" "boot_stack_ok B" and free: "region_free (kr_paging k)"
    and H: "\<And>g. g \<in> H \<Longrightarrow> holds (pg_space (kr_paging k)) g" and run: "thread_start sv k = (THREAD_STATUS_OK, k')"
  shows "sched_ok code B k'" "stacks_ok H k'" "live_slots (kr_table k') = {}" "kr_current_slot k' = 0"
    "kr_next_identifier k' = 2" "kr_registers k' = kr_registers k"
proof -
  let ?boot = "cleared_thread\<lparr>th_identifier := 1, th_state := THREAD_STATE_RUNNING, th_boot_thread := True\<rparr>"
  let ?T = "(replicate 8 cleared_thread)[0 := ?boot]"
  have T: "?T = ?boot # replicate 7 cleared_thread" by (simp add: numeral_eq_Suc)
  have count: "count_if P ?T = (if P ?boot then 1 else 0) + (if P cleared_thread then 7 else 0)" for P
    unfolding T by (simp add: count_if_def)
  have counts: "count_if (\<lambda>t. th_state t = THREAD_STATE_READY \<or> th_state t = THREAD_STATE_RUNNING) ?T = 1"
    "count_if (\<lambda>t. th_state t = THREAD_STATE_READY) ?T = 0" "count_if (\<lambda>t. th_state t = THREAD_STATE_EXITED) ?T = 0"
    unfolding count by (simp_all add: cleared_thread_def)
  from run obtain table env where
    k': "k' = recount (k\<lparr>kr_env := env, kr_threads := Some table,
             kr_table := ?T, kr_next_identifier := 2,
             kr_current_slot := 0, kr_reschedule_pending := False, kr_quantum_identifier := THREAD_ID_NONE,
             kr_state := (kr_state k)\<lparr>ts_capacity := 8, ts_switches := 0, ts_stack_frames := 0,
               ts_current := th_identifier ?boot, ts_preemptions := 0, ts_preemptive := False, ts_active := True\<rparr>\<rparr>)"
    by (auto simp: thread_start_def thread_consts Let_def split: if_splits prod.splits option.splits)
  have st: "kr_state k' = (kr_state k)\<lparr>ts_capacity := 8, ts_switches := 0, ts_stack_frames := 0, ts_current := 1,
      ts_preemptions := 0, ts_preemptive := False, ts_active := True, ts_live := 1, ts_ready := 0, ts_exited := 0\<rparr>"
    unfolding k' by (subst recount_eq) (simp_all add: counts del: One_nat_def)
  have tab: "kr_table k' = ?T" by (simp add: k')
  have nth: "?T ! i = (if i = 0 then ?boot else cleared_thread)" if "i < 8" for i
    using that by (simp add: nth_list_update)
  have fields: "kr_current_slot k' = 0" "kr_next_identifier k' = 2" "kr_threads k' = Some table" by (simp_all add: k')
  have clear: "th_state cleared_thread = THREAD_STATE_UNUSED" "\<not> th_boot_thread cleared_thread" "th_stack_top cleared_thread = 0"
    by (simp_all add: cleared_thread_def)
  have slots: "slot_ok code B k' i (?T ! i)" if "i < 8" for i
    unfolding nth [OF that] slot_ok_def fields using clear by (cases "i = 0") simp_all
  have only: "i = 0" if "i < 8" "th_state (?T ! i) \<noteq> THREAD_STATE_UNUSED" for i
    using that(2) clear unfolding nth [OF that(1)] by (cases "i = 0") simp_all
  have ids: "identifiers_ok ?T"
    unfolding identifiers_ok_def
  proof (intro allI impI)
    fix i j assume "i < length ?T" "j < length ?T" "th_state (?T ! i) \<noteq> THREAD_STATE_UNUSED" "th_state (?T ! j) \<noteq> THREAD_STATE_UNUSED"
    then have "i = 0" "j = 0" using only [of i] only [of j] unfolding length_list_update length_replicate by blast+
    then show "i = j" by simp
  qed
  have "counts_ok k'" unfolding counts_ok_def tab counts by (simp add: st)
  then show "sched_ok code B k'"
    using code slots ids unfolding sched_ok_def tab fields by (simp add: st)
  have none: "live_slots ?T = {}" using only unfolding live_slots_def by blast
  then show "live_slots (kr_table k') = {}" by (simp only: tab)
  show "kr_current_slot k' = 0" "kr_next_identifier k' = 2" "kr_registers k' = kr_registers k" by (simp_all add: k')
  have p: "kr_paging k' = kr_paging k" by (simp add: k')
  have "tidy (kr_paging k) {} (\<lambda>a. 0)" using free by (simp add: tidy_def region_free_def owns_def thread_region_def)
  then show "stacks_ok H k'"
    using H unfolding stacks_ok_def tab none live_pages_def p by (auto simp: st)
qed

section \<open>Verification accepts\<close>

lemma stack_of_slot:
  assumes t: "tidy (kr_paging k) (live_pages (kr_table k)) F" and s: "slot \<in> live_slots (kr_table k)"
  shows "list_all (stack_page_ok (slot_stack_base slot) (kr_paging k)) [0..<THREAD_STACK_PAGES]"
proof -
  have s8: "slot < 8" using s by (simp add: live_slots_def)
  have ok: "paging_ok (kr_paging k)" and o: "owns (kr_paging k) (live_pages (kr_table k)) F" using t by (simp_all add: tidy_def)
  have "stack_page_ok (slot_stack_base slot) (kr_paging k) page" if p: "page < 4" for page
  proof -
    have "stack_page slot page \<in> live_pages (kr_table k)" 
      unfolding live_pages_def stack_pages_def using s p by (intro UN_I [of slot] imageI) simp_all
    from owned_translation [OF ok o this] show ?thesis
      by (simp add: stack_page_ok_def stack_page_address [OF s8 p])
  qed
  then show ?thesis by (simp add: thread_consts list_all_iff)
qed

lemma guard_unmapped:
  assumes t: "tidy (kr_paging k) (live_pages (kr_table k)) F" and s: "slot < 8"
  shows "fst (paging_translate (slot_guard_page slot) False (kr_paging k)) = PAGING_STATUS_NOT_MAPPED"
proof -
  have ok: "paging_ok (kr_paging k)" using t by (simp add: tidy_def)
  have g: "slot_guard_page slot = 4096 * (0x800000 + slot * 5)" by (simp add: slot_addresses(1) [OF s])
  have "4096 dvd slot_guard_page slot" unfolding g by (rule dvd_triv_left)
  then have pa: "page_address (slot_guard_page slot)" using s by (simp add: page_address_def) (simp add: g)
  have "\<not> in_page (stack_page i page) (slot_guard_page slot)" if "page < 4" for i page
  proof
    assume "in_page (stack_page i page) (slot_guard_page slot)"
    then have "(5 * i + 1 + page) * 4096 \<le> (5 * slot) * 4096 \<and> (5 * slot) * 4096 < (5 * i + 1 + page + 1) * 4096"
      by (simp add: in_page_def stack_page_def slot_addresses(1) [OF s])
    then have "5 * i + 1 + page \<le> 5 * slot" "5 * slot < 5 * i + 1 + page + 1" by (simp_all only: mult_le_cancel2 mult_less_cancel2)
    then have e: "5 * slot = 5 * i + (1 + page)" by simp
    have "5 * slot mod 5 = (5 * i + (1 + page)) mod 5" by (simp only: e)
    then show False using that by simp
  qed
  then have "\<forall>a \<in> live_pages (kr_table k). \<not> in_page a (slot_guard_page slot)" by (auto simp: live_pages_def stack_pages_def)
  moreover have "thread_region (slot_guard_page slot)" using s by (simp add: thread_region_def slot_addresses(1) [OF s])
  ultimately have "mapped (kr_paging k) (slot_guard_page slot) = None" using t by (simp add: tidy_def)
  from unmapped_page [OF ok pa this] show ?thesis by simp
qed

lemma verify_slot_ok:
  assumes ok: "sched_ok code B k" and t: "tidy (kr_paging k) (live_pages (kr_table k)) F" and s: "slot < 8"
  shows "verify_slot k slot (live, running) =
    Inr (live + (if th_state (kr_table k ! slot) \<noteq> THREAD_STATE_UNUSED then 1 else 0),
         running + (if th_state (kr_table k ! slot) = THREAD_STATE_RUNNING then 1 else 0))"
proof -
  let ?t = "kr_table k ! slot"
  have so: "slot_ok code B k slot ?t" by (rule sched_okD(9) [OF ok s])
  show ?thesis
  proof (cases "th_state ?t = THREAD_STATE_UNUSED \<or> slot = 0")
    case True
    show ?thesis
    proof (cases "th_state ?t = THREAD_STATE_UNUSED")
      case used: False
      then have "th_boot_thread ?t" "th_stack_top ?t = 0" "slot = 0" using so True by (simp_all add: slot_ok_def)
      then show ?thesis using used by (simp add: verify_slot_def Let_def)
    qed (simp add: verify_slot_def)
  next
    case False
    then have live: "slot \<in> live_slots (kr_table k)" using s by (simp add: live_slots_def)
    have f: "\<not> th_boot_thread ?t" "th_stack_base ?t = slot_stack_base slot" "th_stack_top ?t = slot_stack_top slot"
      using so False by (simp_all add: slot_ok_def)
    have sp: "th_stack_base ?t \<le> th_stack_pointer ?t \<and> th_stack_pointer ?t \<le> th_stack_top ?t" if "th_state ?t = THREAD_STATE_READY"
    proof -
      have "frame_at (th_stack_pointer ?t) \<subseteq> own_stack B slot" using so that by (simp add: slot_ok_def saved_ok_def)
      moreover have "th_stack_pointer ?t \<in> frame_at (th_stack_pointer ?t)" by (simp add: frame_at_def)
      ultimately show ?thesis using False f by (auto simp: own_stack_def)
    qed
    then have "\<not> (th_state ?t \<noteq> THREAD_STATE_EXITED \<and> th_state ?t \<noteq> THREAD_STATE_RUNNING \<and>
        (th_stack_pointer ?t < th_stack_base ?t \<or> th_stack_pointer ?t > th_stack_top ?t))"
      using False by (cases "th_state ?t") auto
    then show ?thesis
      using False f guard_unmapped [OF t s] stack_of_slot [OF t live] by (simp add: verify_slot_def Let_def)
  qed
qed

lemma count_if_unique:
  assumes "i < length xs" "P (xs ! i)" "\<And>j. j < length xs \<Longrightarrow> P (xs ! j) \<Longrightarrow> j = i"
  shows "count_if P xs = 1"
proof -
  have "{j. j < length xs \<and> P (xs ! j)} = {i}" using assms by blast
  then show ?thesis by (simp add: count_if_def length_filter_conv_card)
qed

lemma count_if_disjoint: "(\<And>x. \<not> (P x \<and> Q x)) \<Longrightarrow> count_if P xs + count_if Q xs = count_if (\<lambda>x. P x \<or> Q x) xs"
  by (induction xs) auto

lemma verify_ok:
  assumes ok: "sched_ok code B k" and st: "stacks_ok H k"
  shows "thread_verify k = THREAD_STATUS_OK"
proof -
  let ?T = "kr_table k"
  note d = sched_okD [OF ok]
  from st obtain F where t: "tidy (kr_paging k) (live_pages ?T) F" by (auto simp: stacks_ok_def)
  have loop: "fold_until (verify_slot k) [0..<n] (0, 0) =
      Inr (count_if (\<lambda>t. th_state t \<noteq> THREAD_STATE_UNUSED) (take n ?T), count_if (\<lambda>t. th_state t = THREAD_STATE_RUNNING) (take n ?T))"
    if "n \<le> 8" for n
    using that
  proof (induction n)
    case (Suc n)
    then have tk: "take (Suc n) ?T = take n ?T @ [?T ! n]" using d(6) by (simp add: take_Suc_conv_app_nth)
    show ?case using Suc verify_slot_ok [OF ok t, of n] unfolding tk by (simp add: fold_until_append)
  qed simp
  have all: "take 8 ?T = ?T" using d(6) by simp
  have running: "count_if (\<lambda>t. th_state t = THREAD_STATE_RUNNING) ?T = 1"
  proof (rule count_if_unique [of "kr_current_slot k"])
    show "j = kr_current_slot k" if "j < length ?T" "th_state (?T ! j) = THREAD_STATE_RUNNING" for j
      using d(9) [of j] that d(6) by (simp add: slot_ok_def)
  qed (use d running_current [OF ok] in simp_all)
  have "count_if (\<lambda>t. th_state t = THREAD_STATE_READY \<or> th_state t = THREAD_STATE_RUNNING) ?T +
      count_if (\<lambda>t. th_state t = THREAD_STATE_EXITED) ?T =
      count_if (\<lambda>t. (th_state t = THREAD_STATE_READY \<or> th_state t = THREAD_STATE_RUNNING) \<or> th_state t = THREAD_STATE_EXITED) ?T"
    by (rule count_if_disjoint) auto
  also have "(\<lambda>t. (th_state t = THREAD_STATE_READY \<or> th_state t = THREAD_STATE_RUNNING) \<or> th_state t = THREAD_STATE_EXITED) =
      (\<lambda>t. th_state t \<noteq> THREAD_STATE_UNUSED)"
  proof
    show "((th_state t = THREAD_STATE_READY \<or> th_state t = THREAD_STATE_RUNNING) \<or> th_state t = THREAD_STATE_EXITED) =
        (th_state t \<noteq> THREAD_STATE_UNUSED)" for t by (cases "th_state t") simp_all
  qed
  finally have live: "count_if (\<lambda>t. th_state t \<noteq> THREAD_STATE_UNUSED) ?T = ts_live (kr_state k) + ts_exited (kr_state k)"
    using d(11) by (simp add: counts_ok_def)
  show ?thesis
    using d loop [of 8] running live unfolding all by (simp add: thread_verify_def)
qed

lemma started_path_verifies:
  assumes code: "code_ok code" "boot_stack_ok B" and free: "region_free (kr_paging k)"
    and run: "thread_start sv k = (THREAD_STATUS_OK, k1)" and path: "(thread_step sv code B)\<^sup>*\<^sup>* k1 k2"
  shows "thread_verify k2 = THREAD_STATUS_OK \<and> (\<forall>f. holds (pg_space (kr_paging k)) f \<longrightarrow> holds (pg_space (kr_paging k2)) f)"
proof -
  let ?H = "{f. holds (pg_space (kr_paging k)) f}"
  have s1: "sched_ok code B k1" "stacks_ok ?H k1" using thread_start_ok [OF code free _ run, of ?H] by simp_all
  from thread_path_ok [OF path this] have "sched_ok code B k2" "stacks_ok ?H k2" by simp_all
  moreover from this have "thread_verify k2 = THREAD_STATUS_OK" by (rule verify_ok)
  ultimately show ?thesis by (auto simp: stacks_ok_def)
qed

section \<open>Stopping\<close>

lemma stop_loop:
  assumes st: "stacks_ok H k" and T: "length (kr_table k) = 8"
    and over: "\<And>i. 0 < i \<Longrightarrow> i < 8 \<Longrightarrow> th_state (kr_table k ! i) = THREAD_STATE_UNUSED \<or> th_state (kr_table k ! i) = THREAD_STATE_EXITED"
    and n: "1 \<le> n" "n \<le> 8"
  shows "\<exists>p c T'. fold_until stop_slot [1..<n] k = Inr (k\<lparr>kr_paging := p, kr_table := T',
       kr_state := (kr_state k)\<lparr>ts_stack_frames := c\<rparr>\<rparr>) \<and>
     stacks_ok H (k\<lparr>kr_paging := p, kr_table := T', kr_state := (kr_state k)\<lparr>ts_stack_frames := c\<rparr>\<rparr>) \<and>
     length T' = 8 \<and> live_slots T' = {i \<in> live_slots (kr_table k). n \<le> i} \<and> (\<forall>i. n \<le> i \<longrightarrow> T' ! i = kr_table k ! i) \<and>
     (\<forall>b. canonical b \<longrightarrow> \<not> thread_region b \<longrightarrow> mapped p b = mapped (kr_paging k) b)"
  using n
proof (induction n rule: nat_induct_at_least)
  case base
  have "live_slots (kr_table k) = {i \<in> live_slots (kr_table k). 1 \<le> i}" by (auto simp: live_slots_def)
  then show ?case using st T
    by (intro exI [of _ "kr_paging k"] exI [of _ "ts_stack_frames (kr_state k)"] exI [of _ "kr_table k"]) simp
next
  case (Suc n)
  then obtain p c T' where ih: "fold_until stop_slot [1..<n] k = Inr (k\<lparr>kr_paging := p, kr_table := T',
       kr_state := (kr_state k)\<lparr>ts_stack_frames := c\<rparr>\<rparr>)"
    "stacks_ok H (k\<lparr>kr_paging := p, kr_table := T', kr_state := (kr_state k)\<lparr>ts_stack_frames := c\<rparr>\<rparr>)"
    "length T' = 8" "live_slots T' = {i \<in> live_slots (kr_table k). n \<le> i}" "\<forall>i. n \<le> i \<longrightarrow> T' ! i = kr_table k ! i"
    "\<forall>b. canonical b \<longrightarrow> \<not> thread_region b \<longrightarrow> mapped p b = mapped (kr_paging k) b" by auto
  let ?k = "k\<lparr>kr_paging := p, kr_table := T', kr_state := (kr_state k)\<lparr>ts_stack_frames := c\<rparr>\<rparr>"
  have up: "[1..<Suc n] = [1..<n] @ [n]" using Suc.hyps by simp
  have n8: "0 < n" "n < 8" using Suc by simp_all
  have Tn: "T' ! n = kr_table k ! n" using ih(5) by simp
  show ?case
  proof (cases "th_state (kr_table k ! n) = THREAD_STATE_EXITED")
    case False
    then have "n \<notin> live_slots (kr_table k)" using over [OF n8] by (auto simp: live_slots_def)
    then have "{i \<in> live_slots (kr_table k). n \<le> i} = {i \<in> live_slots (kr_table k). Suc n \<le> i}"
      using le_less Suc_le_eq by auto
    then show ?thesis
      using ih(2-6) False Tn unfolding up fold_until_append ih(1)
      by (intro exI [of _ p] exI [of _ c] exI [of _ T']) (simp add: stop_slot_def)
  next
    case True
    have live: "n \<in> live_slots T'" using True n8 Tn by (simp add: live_slots_def)
    let ?T2 = "T'[n := cleared_thread]"
    have gone: "live_slots ?T2 = live_slots T' - {n}"
      using ih(3) n8 by (auto simp: live_slots_def nth_list_update cleared_thread_def)
    have ins: "live_slots T' = insert n (live_slots ?T2)" using live gone by auto
    have fresh: "n \<notin> live_slots ?T2" using gone by simp
    have pages: "live_pages T' = live_pages ?T2 \<union> stack_pages n" by (rule live_pages_insert [OF ins])
    have c: "c = 4 * card (live_slots T')" using ih(2) by (simp add: stacks_ok_def)
    have card: "card (live_slots T') = card (live_slots ?T2) + 1" using ins fresh by simp
    have c4: "4 \<le> ts_stack_frames (kr_state ?k)" "ts_stack_frames (kr_state ?k) < 2 ^ 64"
      using c card live_slots_card [of T'] by simp_all
    from ih(2) obtain F where t: "tidy p (live_pages T') F" by (auto simp: stacks_ok_def)
    have fr: "live_pages ?T2 \<inter> stack_pages n = {}" by (rule live_pages_fresh [OF fresh])
    from unmap_stack_ok [of ?k "live_pages ?T2" n F, OF _ n8(2) fr c4] t pages obtain p2 where
      u: "unmap_stack n ?k = (THREAD_STATUS_OK, ?k\<lparr>kr_paging := p2, kr_state := (kr_state ?k)\<lparr>ts_stack_frames := c - 4\<rparr>\<rparr>)"
        "tended p (live_pages T') F p2 (live_pages ?T2) F" by auto
    let ?k2 = "k\<lparr>kr_paging := p2, kr_table := ?T2, kr_state := (kr_state k)\<lparr>ts_stack_frames := c - 4\<rparr>\<rparr>"
    have ex: "th_state (kr_table ?k ! n) = THREAD_STATE_EXITED" using True Tn by simp
    have one: "stop_slot n ?k = Inr ?k2"
      unfolding stop_slot_def if_P [OF ex] u(1) by (simp add: set_thread_def)
    have "stacks_ok H ?k2"
    proof (rule stacks_tended [OF ih(2)])
      fix G assume "tidy (kr_paging ?k) (live_pages (kr_table ?k)) G"
      then have "tidy (kr_paging ?k) (live_pages ?T2 \<union> stack_pages n) G" using pages by simp
      from unmap_stack_ok [OF this n8(2) fr c4] obtain p3 where
        u3: "unmap_stack n ?k = (THREAD_STATUS_OK, ?k\<lparr>kr_paging := p3, kr_state := (kr_state ?k)\<lparr>ts_stack_frames := ts_stack_frames (kr_state ?k) - 4\<rparr>\<rparr>)"
          "tended (kr_paging ?k) (live_pages ?T2 \<union> stack_pages n) G p3 (live_pages ?T2) G" by blast
      have "p3 = kr_paging (snd (unmap_stack n ?k))" unfolding u3(1) by simp
      also have "\<dots> = p2" unfolding u(1) by simp
      finally show "\<exists>F'. tended (kr_paging ?k) (live_pages (kr_table ?k)) G (kr_paging ?k2) (live_pages (kr_table ?k2)) F'"
        using u3(2) pages by (intro exI [of _ G]) simp
    qed (use c card in simp)
    moreover have "fold_until stop_slot [1..<Suc n] k = Inr ?k2"
      by (simp only: up fold_until_append ih(1) sum.case fold_until.simps one)
    moreover have "live_slots ?T2 = {i \<in> live_slots (kr_table k). Suc n \<le> i}" unfolding gone ih(4) by (auto simp: Suc_le_eq)
    moreover have "\<forall>i. Suc n \<le> i \<longrightarrow> ?T2 ! i = kr_table k ! i" using ih(5) by simp
    moreover have "\<forall>b. canonical b \<longrightarrow> \<not> thread_region b \<longrightarrow> mapped p2 b = mapped (kr_paging k) b"
      using u(2) ih(6) by (simp add: tended_def)
    ultimately show ?thesis using ih(3) by (intro exI [of _ p2] exI [of _ "c - 4"] exI [of _ ?T2]) simp
  qed
qed

lemma stop_all:
  assumes ok: "sched_ok code B k" and st: "stacks_ok H k" and irq: "\<not> cpu_interrupts_enabled k" and cur: "kr_current_slot k = 0"
    and none: "\<And>i. 0 < i \<Longrightarrow> i < 8 \<Longrightarrow> th_state (kr_table k ! i) \<noteq> THREAD_STATE_READY"
    and stopped: "stopped = (if ts_preemptive (kr_state k) then snd (thread_disable_preemption sv k) else k)"
  shows "\<exists>k'. thread_stop sv k = (if fst (sv_heap_free sv (kr_threads k) (kr_env stopped)) then THREAD_STATUS_OK
        else THREAD_STATUS_VALIDATION_FAILURE, k') \<and>
    kr_env k' = snd (sv_heap_free sv (kr_threads k) (kr_env stopped)) \<and>
    kr_threads k' = (if fst (sv_heap_free sv (kr_threads k) (kr_env stopped)) then None else kr_threads k) \<and>
    ts_active (kr_state k') = (\<not> fst (sv_heap_free sv (kr_threads k) (kr_env stopped))) \<and>
    live_slots (kr_table k') = {} \<and> region_free (kr_paging k') \<and> (\<forall>g \<in> H. holds (pg_space (kr_paging k')) g) \<and>
    (\<forall>b. canonical b \<longrightarrow> \<not> thread_region b \<longrightarrow> mapped (kr_paging k') b = mapped (kr_paging k) b)"
proof -
  let ?k1 = "if ts_preemptive (kr_state k) then snd (thread_disable_preemption sv k) else k"
  have kept: "others_kept B k ?k1 \<and> kr_paging ?k1 = kr_paging k \<and> ts_stack_frames (kr_state ?k1) = ts_stack_frames (kr_state k)"
    using disable_preemption_kept [of sv k "fst (thread_disable_preemption sv k)" "snd (thread_disable_preemption sv k)" B]
    by (simp add: others_kept_def)
  then have ok1: "sched_ok code B ?k1" using others_kept_ok [OF ok] by blast
  have tab: "kr_table ?k1 = kr_table k" "kr_threads ?k1 = kr_threads k" using kept by (auto simp only: others_kept_def)
  have st1: "stacks_ok H ?k1" by (rule stacks_same [OF st]) (use kept tab in auto)
  note d = sched_okD [OF ok1]
  have over: "th_state (kr_table ?k1 ! i) = THREAD_STATE_UNUSED \<or> th_state (kr_table ?k1 ! i) = THREAD_STATE_EXITED"
    if "0 < i" "i < 8" for i
  proof -
    have "th_state (kr_table k ! i) \<noteq> THREAD_STATE_RUNNING" using sched_okD(9) [OF ok that(2)] cur that(1) by (simp add: slot_ok_def)
    then show ?thesis unfolding tab using none [OF that] by (cases "th_state (kr_table k ! i)") simp_all
  qed
  have find: "find_from (\<lambda>slot. th_state (kr_table ?k1 ! slot) = THREAD_STATE_READY \<or>
      th_state (kr_table ?k1 ! slot) = THREAD_STATE_RUNNING) 1 (ts_capacity (kr_state ?k1)) = None"
    unfolding find_from_None_iff d(5)
  proof (intro allI impI)
    fix j :: nat assume "1 \<le> j \<and> j < 8"
    then show "\<not> (th_state (kr_table ?k1 ! j) = THREAD_STATE_READY \<or> th_state (kr_table ?k1 ! j) = THREAD_STATE_RUNNING)"
      using over [of j] by auto
  qed
  from stop_loop [OF st1 d(6) over, of 8] obtain p c T' where
    s: "fold_until stop_slot [1..<8] ?k1 = Inr (?k1\<lparr>kr_paging := p, kr_table := T', kr_state := (kr_state ?k1)\<lparr>ts_stack_frames := c\<rparr>\<rparr>)"
      "stacks_ok H (?k1\<lparr>kr_paging := p, kr_table := T', kr_state := (kr_state ?k1)\<lparr>ts_stack_frames := c\<rparr>\<rparr>)"
      "live_slots T' = {i \<in> live_slots (kr_table ?k1). 8 \<le> i}"
      "\<forall>b. canonical b \<longrightarrow> \<not> thread_region b \<longrightarrow> mapped p b = mapped (kr_paging ?k1) b" by auto
  let ?k2 = "?k1\<lparr>kr_paging := p, kr_table := T', kr_state := (kr_state ?k1)\<lparr>ts_stack_frames := c\<rparr>\<rparr>"
  have empty: "live_slots T' = {}" unfolding s(3) by (auto simp: live_slots_def)
  then have pages: "live_pages T' = {}" by (simp add: live_pages_def)
  have c0: "c = 0" using s(2) empty by (simp add: stacks_ok_def)
  from s(2) obtain F where "tidy p (live_pages T') F" and H: "\<forall>g \<in> H. holds (pg_space p) g" by (auto simp: stacks_ok_def)
  then have free: "region_free p" unfolding pages by (simp add: tidy_def region_free_def thread_region_def)
  obtain freed env where env: "sv_heap_free sv (kr_threads k) (kr_env ?k1) = (freed, env)" by fastforce
  have boot: "th_boot_thread (kr_table k ! kr_current_slot k)" using sched_okD(9) [OF ok, of 0] cur by (simp add: slot_ok_def)
  let ?kept = "?k2\<lparr>kr_env := env\<rparr>"
  let ?gone = "?kept\<lparr>kr_threads := None, kr_reschedule_pending := False,
                  kr_quantum_identifier := THREAD_ID_NONE, kr_current_slot := 0,
                  kr_state := (kr_state ?kept)\<lparr>ts_active := False, ts_preemptive := False, ts_capacity := 0,
                    ts_live := 0, ts_ready := 0, ts_exited := 0, ts_current := THREAD_ID_NONE\<rparr>\<rparr>"
  let ?k3 = "if freed then ?gone else ?kept"
  have fr: "ts_stack_frames (kr_state ?k2) = 0" using c0 by simp
  have env2: "sv_heap_free sv (kr_threads ?k2) (kr_env ?k2) = (freed, env)" using env tab(2) by simp
  have "thread_stop sv k = (if freed then THREAD_STATUS_OK else THREAD_STATUS_VALIDATION_FAILURE, ?k3)"
    unfolding thread_stop_def Let_def d(5)
    by (cases freed)
      (simp_all only: find [unfolded d(5)] sched_okD(3) [OF ok] irq boot s(1) sum.case fr env2 prod.case if_False if_True not_True_eq_False not_False_eq_True simp_thms)
  moreover have "kr_env ?k3 = env" "kr_paging ?k3 = p" "kr_table ?k3 = T'" by (simp_all split: if_split)
  moreover have "ts_active (kr_state ?k3) = (\<not> freed)" using sched_okD(3) [OF ok1] by (simp split: if_split)
  moreover have "kr_threads ?k3 = (if freed then None else kr_threads k)" using tab(2) by (simp split: if_split)
  moreover have "mapped p b = mapped (kr_paging k) b" if "canonical b" "\<not> thread_region b" for b
    using s(4) that kept by auto
  ultimately show ?thesis using free H empty env unfolding stopped by (intro exI [of _ ?k3]) simp
qed

section \<open>What creating a thread does\<close>

lemma live_slots_paging:
  assumes t: "tidy p (live_pages T) F" and s: "slot \<in> live_slots T" and a: "slot_stack_base slot \<le> a" "a < slot_stack_top slot"
  shows "\<exists>t. paging_translate a False p = (PAGING_STATUS_OK, Some t) \<and> tr_permissions t = PAGING_WRITE"
proof -
  have s8: "slot < 8" using s by (simp add: live_slots_def)
  have ok: "paging_ok p" and o: "owns p (live_pages T) F" using t by (simp_all add: tidy_def)
  define page where "page = (a - slot_stack_base slot) div 4096"
  have b: "slot_stack_base slot = 0x800000000 + slot * 20480 + 4096" "slot_stack_top slot = slot_stack_base slot + 16384"
    using slot_addresses [OF s8] by simp_all
  have page: "page < 4" using a b(2) unfolding page_def by (intro less_mult_imp_div_less) simp
  have inp: "in_page (stack_page slot page) a"
  proof -
    have "page * 4096 + (a - slot_stack_base slot) mod 4096 = a - slot_stack_base slot" unfolding page_def by simp
    moreover have "(a - slot_stack_base slot) mod 4096 < 4096" by simp
    ultimately have "page * 4096 \<le> a - slot_stack_base slot" "a - slot_stack_base slot < page * 4096 + 4096" by linarith+
    then have "slot_stack_base slot + page * 4096 \<le> a" "a < slot_stack_base slot + page * 4096 + 4096" using a(1) by linarith+
    then show ?thesis using b(1) by (simp add: in_page_def stack_page_def)
  qed
  have mem: "stack_page slot page \<in> live_pages T"
    unfolding live_pages_def stack_pages_def using s page by (intro UN_I [of slot] imageI) simp_all
  note reg = stack_page_region [OF s8 page]
  have can: "canonical a" by (rule region_canonical [OF region_pageD(2) [OF reg inp]])
  let ?e = "leaf_entry (F (stack_page slot page) * 4096) PAGING_WRITE"
  have m: "mapped p a = Some (1, ?e)"
    using mapped_in_page [OF region_pageD(1) [OF reg] inp, of p] o mem by (simp add: owns_def)
  have h: "holds (pg_space p) (F (stack_page slot page))" using o mem by (simp add: owns_def)
  have pat: "pat_installed (ps_pat_after (pg_state p))" using ok by (simp add: paging_ok_def)
  have dv: "4096 dvd F (stack_page slot page) * 4096" by simp
  note fill = fill_leaf_entry [OF pat page_valid(5) dv holds_bound [OF h] refl, of a False]
  show ?thesis unfolding translate_mapped [OF ok can] m using fill by simp
qed

lemma create_outcome:
  assumes ok: "sched_ok code B k" and st: "stacks_ok H k" and id: "kr_next_identifier k + 1 < 2 ^ 64"
    and run: "thread_create code (Some entry) ctx False k = (status, out, k')"
  shows "if status = THREAD_STATUS_OK
    then (\<exists>identifier slot. out = Some identifier \<and> find_thread identifier k = None \<and> find_thread identifier k' = Some slot \<and>
        th_state (kr_table k' ! slot) = THREAD_STATE_READY \<and>
        (\<forall>other. other \<noteq> slot \<longrightarrow> kr_table k' ! other = kr_table k ! other) \<and>
        loaded_registers (th_stack_pointer (kr_table k' ! slot)) (kr_memory k') =
          \<lparr>rg_r15 = 0, rg_r14 = 0, rg_r13 = ctx, rg_r12 = entry, rg_rbx = 0, rg_rbp = 0,
           rg_rflags = RFLAGS_RESERVED OR RFLAGS_INTERRUPT_ENABLE, rg_rip = cl_trampoline code, rg_rsp = slot_stack_top slot\<rparr> \<and>
        fst (paging_translate (slot_guard_page slot) False (kr_paging k')) = PAGING_STATUS_NOT_MAPPED \<and>
        (\<forall>a. slot_stack_base slot \<le> a \<and> a < slot_stack_top slot \<longrightarrow>
          (\<exists>t. paging_translate a False (kr_paging k') = (PAGING_STATUS_OK, Some t) \<and> tr_permissions t = PAGING_WRITE)))
    else kr_table k' = kr_table k \<and> (\<forall>b. canonical b \<longrightarrow> mapped (kr_paging k') b = mapped (kr_paging k) b)"
proof (rule thread_create_cases [OF ok run])
  assume bad: "status \<noteq> THREAD_STATUS_OK" and only: "paging_only k k'"
    and how: "k' = k \<or> (\<exists>c. 0 < c \<and> c < 8 \<and> th_state (kr_table k ! c) = THREAD_STATE_UNUSED \<and> map_stack c k = (status, k'))"
  have "mapped (kr_paging k') b = mapped (kr_paging k) b" if b: "canonical b" for b
    using how
  proof
    assume "\<exists>c. 0 < c \<and> c < 8 \<and> th_state (kr_table k ! c) = THREAD_STATE_UNUSED \<and> map_stack c k = (status, k')"
    then obtain c where c: "c < 8" "th_state (kr_table k ! c) = THREAD_STATE_UNUSED" "map_stack c k = (status, k')" by blast
    obtain F where t: "tidy (kr_paging k) (live_pages (kr_table k)) F" using st by (auto simp: stacks_ok_def)
    have "live_pages (kr_table k) \<inter> stack_pages c = {}" by (rule live_pages_fresh) (use c in \<open>simp add: live_slots_def\<close>)
    from map_stack_ok [OF t c(1) this c(3)] bad tended_mapped [OF t _ b] show ?thesis by simp
  qed simp
  then show ?thesis using bad only by (auto simp: paging_only_def)
next
  fix c k1
  assume s: "status = THREAD_STATUS_OK" and c: "0 < c" "c < 8" "th_state (kr_table k ! c) = THREAD_STATE_UNUSED"
    and m: "map_stack c k = (THREAD_STATUS_OK, k1)" and only: "paging_only k k1" and out: "out = Some (kr_next_identifier k)"
    and k': "k' = recount (set_thread c (fst (prepare_frame code (new_thread (Some entry) ctx c k) (kr_memory k))\<lparr>th_state := THREAD_STATE_READY\<rparr>)
         (k1\<lparr>kr_next_identifier := add64 (kr_next_identifier k) 1,
            kr_memory := snd (prepare_frame code (new_thread (Some entry) ctx c k) (kr_memory k))\<rparr>))"
  define t where "t = fst (prepare_frame code (new_thread (Some entry) ctx c k) (kr_memory k))\<lparr>th_state := THREAD_STATE_READY\<rparr>"
  note cr = created [OF ok c only id t_def k' [folded t_def]]
  note d = sched_okD [OF ok] and d' = sched_okD [OF cr(1)]
  have tab: "kr_table k' = (kr_table k)[c := t]" using only by (auto simp: k' t_def paging_only_def)
  have tc: "kr_table k' ! c = t" "th_state t = THREAD_STATE_READY" using c(2) d(6) by (simp_all add: tab t_def)
  have less: "th_identifier (kr_table k ! i) < kr_next_identifier k" if "i < 8" "th_state (kr_table k ! i) \<noteq> THREAD_STATE_UNUSED" for i
    using d(8) d(9) [OF that(1)] that(2) by (cases "i = 0") (simp_all add: slot_ok_def)
  have old: "find_thread (kr_next_identifier k) k = None"
    using d(5) by (auto simp: find_thread_def find_from_None_iff dest: less)
  have "find_from (\<lambda>slot. th_state (kr_table k' ! slot) \<noteq> THREAD_STATE_UNUSED \<and> th_identifier (kr_table k' ! slot) = kr_next_identifier k) 0 8 = Some c"
  proof (rule find_from_eqI)
    show "\<not> (th_state (kr_table k' ! j) \<noteq> THREAD_STATE_UNUSED \<and> th_identifier (kr_table k' ! j) = kr_next_identifier k)" if "j < c" for j
      using less [of j] that c(2) by (auto simp: tab)
  qed (use c tc cr(7) in simp_all)
  then have new: "find_thread (kr_next_identifier k) k' = Some c"
    using d'(4,5) d(8) by (simp add: find_thread_def THREAD_ID_NONE_def)
  have regs: "loaded_registers (th_stack_pointer (kr_table k' ! c)) (kr_memory k') =
          \<lparr>rg_r15 = 0, rg_r14 = 0, rg_r13 = ctx, rg_r12 = entry, rg_rbx = 0, rg_rbp = 0,
           rg_rflags = RFLAGS_RESERVED OR RFLAGS_INTERRUPT_ENABLE, rg_rip = cl_trampoline code, rg_rsp = slot_stack_top c\<rparr>"
    using cr(3) by (simp add: parked_def first_registers_def cr(4,5,6) INITIAL_RFLAGS_def)
  have "stacks_ok H k'" by (rule thread_step_stacks [OF thread_step.create [OF id run] ok st])
  then obtain F where F: "tidy (kr_paging k') (live_pages (kr_table k')) F" by (auto simp: stacks_ok_def)
  have live: "c \<in> live_slots (kr_table k')" using c tc by (simp add: live_slots_def)
  show ?thesis
    unfolding if_P [OF s]
  proof (intro exI conjI)
    show "out = Some (kr_next_identifier k)" "find_thread (kr_next_identifier k) k = None"
      "find_thread (kr_next_identifier k) k' = Some c" by (fact out old new)+
    show "th_state (kr_table k' ! c) = THREAD_STATE_READY" using tc by simp
    show "\<forall>other. other \<noteq> c \<longrightarrow> kr_table k' ! other = kr_table k ! other" by (simp add: tab)
    show "fst (paging_translate (slot_guard_page c) False (kr_paging k')) = PAGING_STATUS_NOT_MAPPED"
      by (rule guard_unmapped [OF F c(2)])
    show "\<forall>a. slot_stack_base c \<le> a \<and> a < slot_stack_top c \<longrightarrow>
          (\<exists>t. paging_translate a False (kr_paging k') = (PAGING_STATUS_OK, Some t) \<and> tr_permissions t = PAGING_WRITE)"
      using live_slots_paging [OF F live] by blast
  qed (rule regs)
qed

end
