(* ===== verification/Thread_Properties.thy ===== *)
theory Thread_Properties
  imports Thread_Stacks
begin

text \<open>
  What the threads promise: a thread comes back as it left, within a bounded number of switches;
  an exited one never does; the table and the stacks in the page tables stay well formed from
  starting to stopping.
\<close>

unbundle bit_operations_syntax

section \<open>A sample machine\<close>

definition sample_code :: code_layout where
  "sample_code = \<lparr>cl_trampoline = 1, cl_after_switch = 2, cl_after_exit = 3\<rparr>"

definition sample_stack :: "u64 set" where
  "sample_stack = {0x8000..<0x9000}"

definition sample_services :: "unit services" where
  "sample_services = \<lparr>sv_heap_active = (\<lambda>_. True), sv_heap_allocate = (\<lambda>_ e. (Some 0x1000, e)), sv_heap_free = (\<lambda>_ e. (True, e)),
     sv_clock = (\<lambda>e. (0, e)), sv_timer_started = (\<lambda>_. True), sv_timer_arm = (\<lambda>_ e. (Some 7, e)), sv_timer_cancel = (\<lambda>_ e. e)\<rparr>"

definition sample_registers :: "u64 \<Rightarrow> registers" where
  "sample_registers flags = \<lparr>rg_r15 = 15, rg_r14 = 14, rg_r13 = 13, rg_r12 = 12, rg_rbx = 11, rg_rbp = 10,
     rg_rflags = flags, rg_rip = 0, rg_rsp = 0x9000\<rparr>"

text \<open>Before threads are started, on a given hierarchy; and two threads, the second not yet run.\<close>

definition idle_kernel :: "paging \<Rightarrow> unit kernel" where
  "idle_kernel p = \<lparr>kr_state = \<lparr>ts_active = False, ts_capacity = 0, ts_live = 0, ts_ready = 0, ts_exited = 0, ts_current = 0,
       ts_switches = 0, ts_stack_frames = 0, ts_preemptions = 0, ts_preemptive = False\<rparr>,
     kr_threads = None, kr_table = [], kr_current_slot = 0, kr_next_identifier = 1, kr_reschedule_pending = False,
     kr_quantum_identifier = 0, kr_registers = sample_registers 2, kr_memory = (\<lambda>_. 0), kr_locals = (\<lambda>_. False),
     kr_paging = p, kr_env = ()\<rparr>"

definition two_threads :: "unit kernel" where
  "two_threads = (idle_kernel (sample_paging 0x1000 sample_allocator))
     \<lparr>kr_state := \<lparr>ts_active = True, ts_capacity = 8, ts_live = 2, ts_ready = 1, ts_exited = 0, ts_current = 1,
       ts_switches = 0, ts_stack_frames = 4, ts_preemptions = 0, ts_preemptive = False\<rparr>,
      kr_threads := Some 0x1000, kr_next_identifier := 3, kr_registers := sample_registers 0x202,
      kr_memory := (\<lambda>a. if a = 0x800009FF8 then 1 else if a = 0x800009FF0 then 0x202 else 0),
      kr_table := cleared_thread\<lparr>th_identifier := 1, th_state := THREAD_STATE_RUNNING, th_boot_thread := True\<rparr> #
        cleared_thread\<lparr>th_identifier := 2, th_state := THREAD_STATE_READY, th_stack_base := 0x800006000,
          th_stack_top := 0x80000A000, th_stack_pointer := 0x800009FC0\<rparr> # replicate 6 cleared_thread\<rparr>"

lemma sample_code_ok: "code_ok sample_code" "boot_stack_ok sample_stack"
  by (auto simp: code_ok_def sample_code_def boot_stack_ok_def sample_stack_def)

lemma cleared_simps [simp]:
  "th_state cleared_thread = THREAD_STATE_UNUSED" "\<not> th_boot_thread cleared_thread" "th_stack_top cleared_thread = 0"
  by (simp_all add: cleared_thread_def)

lemma two_table:
  "i < 8 \<Longrightarrow> kr_table two_threads ! i = (if i = 0 then cleared_thread\<lparr>th_identifier := 1, th_state := THREAD_STATE_RUNNING, th_boot_thread := True\<rparr>
     else if i = 1 then cleared_thread\<lparr>th_identifier := 2, th_state := THREAD_STATE_READY, th_stack_base := 0x800006000,
          th_stack_top := 0x80000A000, th_stack_pointer := 0x800009FC0\<rparr> else cleared_thread)"
  by (cases i; cases "i - 1") (simp_all add: two_threads_def)

lemma two_threads_ok: "sched_ok sample_code sample_stack two_threads" "room sample_stack two_threads"
  "next_slot two_threads = 1" "kr_current_slot two_threads = 0"
proof -
  let ?k = two_threads
  have a: "slot_stack_base 1 = 0x800006000" "slot_stack_top 1 = 0x80000A000" using slot_addresses [of 1] by simp_all
  have fields: "ts_active (kr_state ?k)" "ts_capacity (kr_state ?k) = 8" "ts_live (kr_state ?k) = 2" "ts_ready (kr_state ?k) = 1"
    "ts_exited (kr_state ?k) = 0" "kr_threads ?k = Some 0x1000" "kr_next_identifier ?k = 3" "kr_registers ?k = sample_registers 0x202"
    "length (kr_table ?k) = 8"
    by (simp_all add: two_threads_def)
  show cur: "kr_current_slot ?k = 0" by (simp add: two_threads_def idle_kernel_def)
  have mem: "kr_memory ?k 0x800009FF8 = 1" by (simp add: two_threads_def)
  have "saved_ok sample_code sample_stack (kr_memory ?k) 1 0x800009FC0"
    using mem by (simp add: saved_ok_def frame_at_def own_stack_def a [unfolded One_nat_def] sample_code_def)
  then have slots: "slot_ok sample_code sample_stack ?k i (kr_table ?k ! i)" if "i < 8" for i
    unfolding two_table [OF that] slot_ok_def cur fields using a a [unfolded One_nat_def] that by simp
  have only: "i = 0 \<or> i = 1" if "i < 8" "th_state (kr_table ?k ! i) \<noteq> THREAD_STATE_UNUSED" for i
    using that(2) unfolding two_table [OF that(1)] by (simp split: if_splits)
  have id: "th_identifier (kr_table ?k ! 0) = 1" "th_identifier (kr_table ?k ! 1) = 2" by (simp_all add: two_table)
  have ids: "identifiers_ok (kr_table ?k)"
    unfolding identifiers_ok_def fields
  proof (intro allI impI)
    fix i j :: nat assume "i < 8" "j < 8" "th_state (kr_table ?k ! i) \<noteq> THREAD_STATE_UNUSED"
      "th_state (kr_table ?k ! j) \<noteq> THREAD_STATE_UNUSED" and e: "th_identifier (kr_table ?k ! i) = th_identifier (kr_table ?k ! j)"
    then have "(i = 0 \<or> i = 1) \<and> (j = 0 \<or> j = 1)" using only by blast
    then show "i = j" using e id by auto
  qed
  have "counts_ok ?k" unfolding counts_ok_def fields by (simp add: two_threads_def count_if_def)
  then show ok: "sched_ok sample_code sample_stack ?k"
    using sample_code_ok slots ids unfolding sched_ok_def by (simp add: fields cur)
  show "room sample_stack ?k"
    by (simp add: room_def fields cur sample_registers_def frame_below_def own_stack_def sample_stack_def)
  have ready: "is_ready ?k i \<longleftrightarrow> i = 1" if "i < 8" for i by (simp add: is_ready_def two_table [OF that])
  show "next_slot ?k = 1"
    using next_slot_cases [OF ok] ready by (metis one_less_numeral_iff semiring_norm(76))
qed

lemma switched_others:
  assumes "switched code k k'" "sched_ok code B k" "i < 8" "i \<noteq> kr_current_slot k" "i \<noteq> kr_current_slot k'"
  shows "kr_table k' ! i = kr_table k ! i"
proof -
  from assms(1) obtain ret st loc n b where s: "n < 8" "is_ready k n"
    and k': "k' = awake code b (handed_over ret st loc n (cpu_interrupt_disable k))" by (auto simp: switched_def)
  have "n \<noteq> kr_current_slot k" by (rule ready_not_current [OF assms(2) s])
  then show ?thesis
    using handed_table_nth [of i "kr_table k" n "kr_current_slot k" st] s assms(3-5) sched_okD [OF assms(2)] by (simp add: k')
qed

text \<open>The boot thread yields to the second thread, which yields back.\<close>

lemma two_threads_switch:
  obtains k1 k2 where "thread_yield sample_code two_threads = Inr k1" "kr_current_slot k1 = 1"
    "sched_ok sample_code sample_stack k1" "is_ready k1 0" "room sample_stack k1"
    "thread_yield sample_code k1 = Inr k2" "kr_current_slot k2 = 0"
proof -
  let ?k = two_threads
  note s = two_threads_ok
  obtain k1 where y: "switch_to_next sample_code ?k = Inr k1" "switched sample_code ?k k1" "kr_current_slot k1 = 1"
    and p: "parked k1 0 ((kr_registers ?k)\<lparr>rg_rflags := rg_rflags (kr_registers ?k) AND not64 RFLAGS_INTERRUPT_ENABLE,
       rg_rip := cl_after_switch sample_code\<rparr>) (cpu_interrupts_enabled ?k)"
    using switch_outcome [OF s(1,2)] s(3,4) by (metis zero_neq_one)
  note so = switched_ok [OF y(2) s(1,2)]
  have ok1: "sched_ok sample_code sample_stack k1" by (rule so(1))
  have top: "slot_stack_base 1 = 0x800006000" "slot_stack_top 1 = 0x80000A000" using slot_addresses [of 1] by simp_all
  have t1: "th_state (kr_table ?k ! 1) = THREAD_STATE_READY" "th_stack_pointer (kr_table ?k ! 1) = 0x800009FC0"
    by (simp_all add: two_table)
  obtain r b where rb: "parked ?k 1 r b" "r = loaded_registers 0x800009FC0 (kr_memory ?k)" using t1 by (simp add: parked_def)
  have m: "kr_memory ?k 0x800009FF8 = 1" "kr_memory ?k 0x800009FF0 = 0x202" by (simp_all add: two_threads_def)
  have r: "rg_rip r = 1" "rg_rsp r = 0x80000A000" "rg_rflags r = 0x202" unfolding rb(2) by (simp_all add: loaded_at m)
  have "kr_registers k1 = woken sample_code r b" using so(3) [OF _ rb(1)] y(3) by simp
  also have "\<dots> = r" using r(1) by (simp add: woken_def sample_code_def)
  finally have regs: "kr_registers k1 = r" .
  have room1: "room sample_stack k1"
    by (simp add: room_def regs r y(3) frame_below_def own_stack_def top [unfolded One_nat_def])
  have ready0: "is_ready k1 0" using p by (simp add: parked_def is_ready_def)
  have "\<not> is_ready k1 i" if "i < 8" "i \<noteq> 0" for i
  proof (cases "i = 1")
    case True
    then show ?thesis using ready_not_current [OF ok1 that(1)] y(3) by auto
  next
    case False
    then show ?thesis using switched_others [OF y(2) s(1) that(1)] that s(4) y(3) by (simp add: is_ready_def two_table [OF that(1)])
  qed
  then have "next_slot k1 = 0" using next_slot_cases [OF ok1] ready0 by (metis zero_less_numeral)
  then obtain k2 where "switch_to_next sample_code k1 = Inr k2" "kr_current_slot k2 = 0"
    using switch_outcome [OF ok1 room1] ready0 by (metis zero_less_numeral)
  with y(1,3) ok1 ready0 room1 show thesis
    using that [of k1 k2] sched_okD(3) [OF s(1)] sched_okD(3) [OF ok1] by (simp add: thread_yield_def)
qed

lemma sample_start:
  obtains p k1 where "region_free p" "thread_start sample_services (idle_kernel p) = (THREAD_STATUS_OK, k1)"
proof -
  obtain f fs where s: "space_ok (blank_space (f * 4096) fs)" using sample_space by metis
  let ?p = "sample_paging (f * 4096) fs"
  have "region_free ?p" using sample_paging_ok [OF s] by (simp add: region_free_def)
  moreover have "fst (thread_start sample_services (idle_kernel ?p)) = THREAD_STATUS_OK"
    by (simp add: thread_start_def idle_kernel_def cpu_interrupts_enabled_def sample_registers_def RFLAGS_INTERRUPT_ENABLE_def
        sample_services_def sample_paging_def Let_def)
  ultimately show thesis using that by (metis prod.collapse)
qed

lemma table_facts:
  assumes ok: "sched_ok code B k"
  shows "length (kr_table k) = THREAD_MAX \<and> kr_current_slot k < THREAD_MAX \<and>
    (\<forall>slot < THREAD_MAX. let t = kr_table k ! slot in
       (th_state t = THREAD_STATE_RUNNING \<longleftrightarrow> slot = kr_current_slot k) \<and> (th_boot_thread t \<longleftrightarrow> slot = 0) \<and>
       (th_state t \<noteq> THREAD_STATE_UNUSED \<longrightarrow> find_thread (th_identifier t) k = Some slot)) \<and>
    ts_live (kr_state k) = ts_ready (kr_state k) + 1 \<and>
    ts_ready (kr_state k) = card {slot. slot < THREAD_MAX \<and> th_state (kr_table k ! slot) = THREAD_STATE_READY} \<and>
    ts_exited (kr_state k) = card {slot. slot < THREAD_MAX \<and> th_state (kr_table k ! slot) = THREAD_STATE_EXITED}"
proof -
  note d = sched_okD [OF ok]
  have so: "slot_ok code B k slot (kr_table k ! slot)" if "slot < 8" for slot by (rule d(9) [OF that])
  have found: "find_thread (th_identifier (kr_table k ! slot)) k = Some slot"
    if s: "slot < 8" "th_state (kr_table k ! slot) \<noteq> THREAD_STATE_UNUSED" for slot
  proof -
    have "th_identifier (kr_table k ! slot) \<noteq> THREAD_ID_NONE"
      using so [OF s(1)] s(2) by (cases "slot = 0") (auto simp: slot_ok_def THREAD_ID_NONE_def)
    moreover have "find_from (\<lambda>i. th_state (kr_table k ! i) \<noteq> THREAD_STATE_UNUSED \<and>
        th_identifier (kr_table k ! i) = th_identifier (kr_table k ! slot)) 0 8 = Some slot"
    proof (rule find_from_eqI)
      show "\<not> (th_state (kr_table k ! j) \<noteq> THREAD_STATE_UNUSED \<and> th_identifier (kr_table k ! j) = th_identifier (kr_table k ! slot))"
        if "j < slot" for j
        using d(6,10) that s unfolding identifiers_ok_def by (metis less_irrefl_nat order.strict_trans)
    qed (use s in simp_all)
    ultimately show ?thesis using d(4,5) by (simp add: find_thread_def)
  qed
  have running: "count_if (\<lambda>t. th_state t = THREAD_STATE_RUNNING) (kr_table k) = 1"
  proof (rule count_if_unique [of "kr_current_slot k"])
    show "j = kr_current_slot k" if "j < length (kr_table k)" "th_state (kr_table k ! j) = THREAD_STATE_RUNNING" for j
      using so [of j] that d(6) by (simp add: slot_ok_def)
  qed (use d running_current [OF ok] in simp_all)
  have "count_if (\<lambda>t. th_state t = THREAD_STATE_READY) (kr_table k) + count_if (\<lambda>t. th_state t = THREAD_STATE_RUNNING) (kr_table k) =
      count_if (\<lambda>t. th_state t = THREAD_STATE_READY \<or> th_state t = THREAD_STATE_RUNNING) (kr_table k)"
    by (rule count_if_disjoint) auto
  then have live: "ts_live (kr_state k) = ts_ready (kr_state k) + 1" using d(11) running by (simp add: counts_ok_def)
  have card: "count_if P (kr_table k) = card {i. i < 8 \<and> P (kr_table k ! i)}" for P
    by (simp add: count_if_def length_filter_conv_card d(6))
  show ?thesis
    using d live so found unfolding thread_consts counts_ok_def card by (simp add: Let_def slot_ok_def)
qed

section \<open>Properties\<close>

text \<open>
  C30. A thread comes back exactly as it left.  If a thread yields to another, then after any steps
  of the others, whatever they compute on their own stacks, create, or finish, the first step
  that gives it the processor again finds every callee-saved register, the stack pointer, the
  flags with the interrupt flag it had, and its stack as they were, at the instruction after the
  switch.
\<close>

theorem thread_yield_resumes:
  assumes "sched_ok code B k" "room B k" and "thread_yield code k = Inr k1" "kr_current_slot k1 \<noteq> kr_current_slot k"
    and "away sv code B (kr_current_slot k) k1 k2" and "thread_step sv code B k2 k3" "kr_current_slot k3 = kr_current_slot k"
  shows "kr_registers k3 = (kr_registers k)\<lparr>rg_rip := cl_after_switch code\<rparr> \<and>
     (\<forall>a \<in> own_stack B (kr_current_slot k) - frame_below (rg_rsp (kr_registers k)). kr_memory k3 a = kr_memory k a)"
  by (rule yield_then_back [OF assms])

theorem thread_yield_resumes_witness:
  "\<exists>k1 k3. thread_yield sample_code two_threads = Inr k1 \<and> kr_current_slot k1 = 1 \<and> thread_yield sample_code k1 = Inr k3 \<and>
     kr_registers k3 = \<lparr>rg_r15 = 15, rg_r14 = 14, rg_r13 = 13, rg_r12 = 12, rg_rbx = 11, rg_rbp = 10,
       rg_rflags = 0x202, rg_rip = 2, rg_rsp = 0x9000\<rparr>"
proof -
  obtain k1 k2 where k: "thread_yield sample_code two_threads = Inr k1" "kr_current_slot k1 = 1"
    "sched_ok sample_code sample_stack k1" "is_ready k1 0" "room sample_stack k1"
    "thread_yield sample_code k1 = Inr k2" "kr_current_slot k2 = 0" by (rule two_threads_switch)
  have away: "away sample_services sample_code sample_stack 0 k1 k1" by (simp add: away_def)
  have st: "thread_step sample_services sample_code sample_stack k1 k2" by (rule thread_step.yield [OF k(5,6)])
  have r: "kr_registers two_threads = sample_registers 0x202" by (simp add: two_threads_def)
  have "kr_registers k2 = (kr_registers two_threads)\<lparr>rg_rip := cl_after_switch sample_code\<rparr>"
    using thread_yield_resumes [OF two_threads_ok(1,2) k(1), unfolded two_threads_ok(4), OF _ away st k(7)] k(2) by simp
  then show ?thesis using k(1,2,6) by (intro exI [of _ k1] exI [of _ k2]) (simp add: r sample_registers_def sample_code_def)
qed

text \<open>
  C31. A ready thread is not starved.  From the moment a slot is ready, at most six switches can
  go to other threads before it runs, whoever asks for them and whatever is created meanwhile;
  and as long as it waits, a yield of the running thread really switches.
\<close>

theorem ready_thread_runs_soon:
  assumes "waits sv code B slot k n k'" and "sched_ok code B k" "slot < 8" "is_ready k slot"
  shows "n \<le> 6 \<and> (room B k' \<longrightarrow> (\<exists>k2. thread_yield code k' = Inr k2 \<and> kr_current_slot k2 \<noteq> kr_current_slot k'))"
  by (rule waiting_thread_next [OF assms])

theorem ready_thread_runs_soon_witness:
  "\<exists>k2. is_ready two_threads 1 \<and> thread_yield sample_code two_threads = Inr k2 \<and> kr_current_slot k2 \<noteq> 0"
proof -
  have r: "is_ready two_threads 1" by (simp add: is_ready_def two_table)
  have w: "waits sample_services sample_code sample_stack 1 two_threads 0 two_threads" by (rule waits.start)
  from ready_thread_runs_soon [OF w two_threads_ok(1) _ r] r two_threads_ok(2,4) show ?thesis by simp
qed

text \<open>
  A thread that has exited is over.  Once \<open>thread_exit\<close> has handed the processor on, no step
  ever gives it back: the slot stays exited, is never the running one, and \<open>thread_join\<close>'s test
  for it stays true.
\<close>

theorem exited_thread_never_runs:
  assumes "sched_ok code B k" "room B k" and "thread_exit code k = Inr k1" and "(thread_step sv code B)\<^sup>*\<^sup>* k1 k2"
  shows "kr_current_slot k2 \<noteq> kr_current_slot k \<and> th_state (kr_table k2 ! kr_current_slot k) = THREAD_STATE_EXITED \<and>
     join_finished (kr_current_slot k) k2"
  by (rule exit_is_final [OF assms])

theorem exited_thread_never_runs_witness:
  "\<exists>k1 k2. thread_yield sample_code two_threads = Inr k1 \<and> thread_exit sample_code k1 = Inr k2 \<and>
     kr_current_slot k2 \<noteq> 1 \<and> join_finished 1 k2"
proof -
  obtain k1 k2 where k: "thread_yield sample_code two_threads = Inr k1" "kr_current_slot k1 = 1"
    "sched_ok sample_code sample_stack k1" "is_ready k1 0" "room sample_stack k1" by (rule two_threads_switch)
  have "next_slot k1 \<noteq> kr_current_slot k1" using next_slot_cases [OF k(3)] k(4) by (metis zero_less_numeral)
  with exit_outcome [OF k(3,5)] k(2) obtain k3 where e: "thread_exit sample_code k1 = Inr k3" by (metis zero_neq_one)
  from exited_thread_never_runs [OF k(3,5) e, of sample_services k3] k(1,2) e show ?thesis by auto
qed

text \<open>
  C35. The thread table stays well formed.  After starting, through any steps, the table has its
  eight slots, the current slot is the one running thread, the boot thread is the one in slot
  zero, every thread is found by its own identifier, and the counters of the state are the
  numbers of live, ready and exited threads.
\<close>

theorem thread_table_well_formed:
  assumes "code_ok code" "boot_stack_ok B" and "region_free (kr_paging k)"
    and "thread_start sv k = (THREAD_STATUS_OK, k1)" and "(thread_step sv code B)\<^sup>*\<^sup>* k1 k2"
  shows "length (kr_table k2) = THREAD_MAX \<and> kr_current_slot k2 < THREAD_MAX \<and>
    (\<forall>slot < THREAD_MAX. let t = kr_table k2 ! slot in
       (th_state t = THREAD_STATE_RUNNING \<longleftrightarrow> slot = kr_current_slot k2) \<and> (th_boot_thread t \<longleftrightarrow> slot = 0) \<and>
       (th_state t \<noteq> THREAD_STATE_UNUSED \<longrightarrow> find_thread (th_identifier t) k2 = Some slot)) \<and>
    ts_live (kr_state k2) = ts_ready (kr_state k2) + 1 \<and>
    ts_ready (kr_state k2) = card {slot. slot < THREAD_MAX \<and> th_state (kr_table k2 ! slot) = THREAD_STATE_READY} \<and>
    ts_exited (kr_state k2) = card {slot. slot < THREAD_MAX \<and> th_state (kr_table k2 ! slot) = THREAD_STATE_EXITED}"
proof -
  have "sched_ok code B k1" "stacks_ok {} k1" using thread_start_ok(1,2) [OF assms(1-3) _ assms(4), of "{}"] by simp_all
  then have ok: "sched_ok code B k2" using thread_path_ok [OF assms(5)] by blast
  show ?thesis by (rule table_facts [OF ok])
qed

theorem thread_table_well_formed_witness:
  "\<exists>p k1 k2. thread_start sample_services (idle_kernel p) = (THREAD_STATUS_OK, k1) \<and>
     snd (snd (thread_create sample_code (Some 0x100000) 5 False k1)) = k2 \<and>
     length (kr_table k2) = THREAD_MAX \<and> ts_live (kr_state k2) = ts_ready (kr_state k2) + 1"
proof -
  obtain p k1 where s: "region_free p" "thread_start sample_services (idle_kernel p) = (THREAD_STATUS_OK, k1)" by (rule sample_start)
  have free: "region_free (kr_paging (idle_kernel p))" using s(1) by (simp add: idle_kernel_def)
  have "kr_next_identifier k1 = 2" by (rule thread_start_ok(5) [OF sample_code_ok free _ s(2), of "{}"]) simp
  then have id: "kr_next_identifier k1 + 1 < 2 ^ 64" by simp
  obtain st out k2 where c: "thread_create sample_code (Some 0x100000) 5 False k1 = (st, out, k2)" by (metis prod_cases3)
  have "(thread_step sample_services sample_code sample_stack)\<^sup>*\<^sup>* k1 k2"
    by (rule r_into_rtranclp, rule thread_step.create [OF id c])
  from thread_table_well_formed [OF sample_code_ok free s(2) this] s(2) c show ?thesis
    by (intro exI [of _ p] exI [of _ k1] exI [of _ k2]) simp
qed

text \<open>
  C32. The scheduler's own check never fails.  After starting with nothing mapped in the thread
  region, through any steps, \<open>thread_verify\<close> accepts: every thread's guard page is unmapped, its
  stack is mapped writable page by page, and the counts agree; and every frame another part
  of the kernel held at the start it still holds.
\<close>

theorem thread_verify_accepts:
  assumes "code_ok code" "boot_stack_ok B" and "region_free (kr_paging k)"
    and "thread_start sv k = (THREAD_STATUS_OK, k1)" and "(thread_step sv code B)\<^sup>*\<^sup>* k1 k2"
  shows "thread_verify k2 = THREAD_STATUS_OK \<and> (\<forall>f. holds (pg_space (kr_paging k)) f \<longrightarrow> holds (pg_space (kr_paging k2)) f)"
  by (rule started_path_verifies [OF assms])

theorem thread_verify_accepts_witness:
  "\<exists>p k1 k2. thread_start sample_services (idle_kernel p) = (THREAD_STATUS_OK, k1) \<and>
     snd (thread_enable_preemption sample_services (snd (snd (thread_create sample_code (Some 0x100000) 5 False k1)))) = k2 \<and>
     thread_verify k2 = THREAD_STATUS_OK"
proof -
  obtain p k1 where s: "region_free p" "thread_start sample_services (idle_kernel p) = (THREAD_STATUS_OK, k1)" by (rule sample_start)
  have free: "region_free (kr_paging (idle_kernel p))" using s(1) by (simp add: idle_kernel_def)
  have "kr_next_identifier k1 = 2" by (rule thread_start_ok(5) [OF sample_code_ok free _ s(2), of "{}"]) simp
  then have id: "kr_next_identifier k1 + 1 < 2 ^ 64" by simp
  obtain st out k2 where c: "thread_create sample_code (Some 0x100000) 5 False k1 = (st, out, k2)" by (metis prod_cases3)
  obtain st2 k3 where e: "thread_enable_preemption sample_services k2 = (st2, k3)" by (meson surj_pair)
  have "(thread_step sample_services sample_code sample_stack)\<^sup>*\<^sup>* k1 k3"
    by (rule rtranclp_trans [OF r_into_rtranclp [where r = "thread_step sample_services sample_code sample_stack"] r_into_rtranclp],
        rule thread_step.create [OF id c], rule thread_step.enable [OF e])
  from thread_verify_accepts [OF sample_code_ok free s(2) this] s(2) c e show ?thesis
    by (intro exI [of _ p] exI [of _ k1] exI [of _ k3]) simp
qed

text \<open>
  C33. Creating a thread either gives one ready to run or changes nothing.  On success the returned
  identifier is new and finds a ready slot, no other slot changed, a switch to it would start the
  trampoline with the entry and the argument in its registers, an empty stack and interrupts
  on, its whole stack translates writable and the page below it not at all.  On any refusal,
  out of frames half way through the stack included, the table and every translation are as before.
\<close>

theorem thread_create_correct:
  assumes "sched_ok code B k" "stacks_ok H k" "kr_next_identifier k + 1 < 2 ^ 64"
    and "thread_create code (Some entry) ctx False k = (status, out, k')"
  shows "if status = THREAD_STATUS_OK
    then (\<exists>identifier slot. out = Some identifier \<and> find_thread identifier k = None \<and> find_thread identifier k' = Some slot \<and>
        th_state (kr_table k' ! slot) = THREAD_STATE_READY \<and>
        (\<forall>other. other \<noteq> slot \<longrightarrow> kr_table k' ! other = kr_table k ! other) \<and>
        loaded_registers (th_stack_pointer (kr_table k' ! slot)) (kr_memory k') =
          \<lparr>rg_r15 = 0, rg_r14 = 0, rg_r13 = ctx, rg_r12 = entry, rg_rbx = 0, rg_rbp = 0,
           rg_rflags = RFLAGS_RESERVED OR RFLAGS_INTERRUPT_ENABLE, rg_rip = cl_trampoline code, rg_rsp = slot_stack_top slot\<rparr> \<and>
        fst (paging_translate (slot_guard_page slot) False (kr_paging k')) = PAGING_STATUS_NOT_MAPPED \<and>
        (\<forall>a. slot_stack_base slot \<le> a \<and> a < slot_stack_top slot \<longrightarrow>
          (\<exists>t. paging_translate a False (kr_paging k') = (PAGING_STATUS_OK, Some t) \<and> tr_permissions t = PAGING_WRITE)))
    else kr_table k' = kr_table k \<and> (\<forall>b. canonical b \<longrightarrow> mapped (kr_paging k') b = mapped (kr_paging k) b)"
  by (rule create_outcome [OF assms])

theorem thread_create_correct_witness:
  "\<exists>p k1 status out k2. thread_start sample_services (idle_kernel p) = (THREAD_STATUS_OK, k1) \<and>
     thread_create sample_code (Some 0x100000) 5 False k1 = (status, out, k2) \<and>
     (if status = THREAD_STATUS_OK then \<exists>slot. find_thread (the out) k2 = Some slot else kr_table k2 = kr_table k1)"
proof -
  obtain p k1 where s: "region_free p" "thread_start sample_services (idle_kernel p) = (THREAD_STATUS_OK, k1)" by (rule sample_start)
  have free: "region_free (kr_paging (idle_kernel p))" using s(1) by (simp add: idle_kernel_def)
  note st = thread_start_ok [OF sample_code_ok free _ s(2), of "{}"]
  have id: "kr_next_identifier k1 + 1 < 2 ^ 64" using st(5) by simp
  have ok: "sched_ok sample_code sample_stack k1" "stacks_ok {} k1" using st(1,2) by simp_all
  obtain status out k2 where c: "thread_create sample_code (Some 0x100000) 5 False k1 = (status, out, k2)" by (metis prod_cases3)
  note r = thread_create_correct [OF ok id c]
  have "if status = THREAD_STATUS_OK then \<exists>slot. find_thread (the out) k2 = Some slot else kr_table k2 = kr_table k1"
    using r by (cases "status = THREAD_STATUS_OK") auto
  then show ?thesis using s(2) c by blast
qed

text \<open>
  C34. Stopping gives every stack back, whatever the heap says to the table.  From the boot thread
  in slot 0, with interrupts off and no other thread ready, whatever ran before, \<open>thread_stop\<close> gets as
  far as freeing the thread table: then nothing is mapped in the thread region any more, every
  translation elsewhere is unchanged, every frame others held they still hold, and every slot but
  the boot thread's is unused.  If the heap takes the table back the result is
  \<open>THREAD_STATUS_OK\<close> and the scheduler is inactive; if it refuses, the result is
  \<open>THREAD_STATUS_VALIDATION_FAILURE\<close> and the scheduler stays active on its table.
\<close>

theorem thread_stop_returns_stacks:
  assumes "code_ok code" "boot_stack_ok B" and "region_free (kr_paging k)"
    and "thread_start sv k = (THREAD_STATUS_OK, k1)" and "(thread_step sv code B)\<^sup>*\<^sup>* k1 k2"
    and "\<not> cpu_interrupts_enabled k2" "kr_current_slot k2 = 0"
    and "\<And>slot. 0 < slot \<Longrightarrow> slot < 8 \<Longrightarrow> th_state (kr_table k2 ! slot) \<noteq> THREAD_STATE_READY"
    and "stopped = (if ts_preemptive (kr_state k2) then snd (thread_disable_preemption sv k2) else k2)"
    and "sv_heap_free sv (kr_threads k2) (kr_env stopped) = (freed, env)"
  shows "\<exists>k3. thread_stop sv k2 = (if freed then THREAD_STATUS_OK else THREAD_STATUS_VALIDATION_FAILURE, k3) \<and>
    ts_active (kr_state k3) = (\<not> freed) \<and> kr_threads k3 = (if freed then None else kr_threads k2) \<and> kr_env k3 = env \<and>
    (\<forall>slot. 0 < slot \<and> slot < 8 \<longrightarrow> th_state (kr_table k3 ! slot) = THREAD_STATE_UNUSED) \<and>
    region_free (kr_paging k3) \<and>
    (\<forall>f. holds (pg_space (kr_paging k)) f \<longrightarrow> holds (pg_space (kr_paging k3)) f) \<and>
    (\<forall>b. canonical b \<longrightarrow> \<not> thread_region b \<longrightarrow> mapped (kr_paging k3) b = mapped (kr_paging k2) b)"
proof -
  let ?H = "{f. holds (pg_space (kr_paging k)) f}"
  have "sched_ok code B k1" "stacks_ok ?H k1" using thread_start_ok(1,2) [OF assms(1-3) _ assms(4), of ?H] by simp_all
  from thread_path_ok [OF assms(5) this] have ok: "sched_ok code B k2" "stacks_ok ?H k2" by simp_all
  from stop_all [OF ok assms(6,7) assms(8) assms(9)] show ?thesis unfolding assms(10) fst_conv snd_conv live_slots_def by blast
qed

theorem thread_stop_returns_stacks_witness:
  "\<exists>p k1 k3 k4. thread_start sample_services (idle_kernel p) = (THREAD_STATUS_OK, k1) \<and>
     thread_stop sample_services k1 = (THREAD_STATUS_OK, k3) \<and> \<not> ts_active (kr_state k3) \<and>
     thread_stop (sample_services\<lparr>sv_heap_free := \<lambda>_ e. (False, e)\<rparr>) k1 = (THREAD_STATUS_VALIDATION_FAILURE, k4) \<and>
     ts_active (kr_state k4)"
proof -
  let ?strict = "sample_services\<lparr>sv_heap_free := \<lambda>_ e. (False, e)\<rparr>"
  obtain p k1 where s: "region_free p" "thread_start sample_services (idle_kernel p) = (THREAD_STATUS_OK, k1)" by (rule sample_start)
  have "thread_start ?strict k = thread_start sample_services k" for k by (simp add: thread_start_def)
  with s(2) have s': "thread_start ?strict (idle_kernel p) = (THREAD_STATUS_OK, k1)" by simp
  have free: "region_free (kr_paging (idle_kernel p))" using s(1) by (simp add: idle_kernel_def)
  note st = thread_start_ok [OF sample_code_ok free _ s(2), of "{}"]
  have irq: "\<not> cpu_interrupts_enabled k1"
    using st(6) by (simp add: cpu_interrupts_enabled_def idle_kernel_def sample_registers_def RFLAGS_INTERRUPT_ENABLE_def)
  have none: "th_state (kr_table k1 ! slot) \<noteq> THREAD_STATE_READY" if "0 < slot" "slot < 8" for slot
    using st(3) that by (auto simp: live_slots_def)
  have path: "(thread_step sv sample_code sample_stack)\<^sup>*\<^sup>* k1 k1" for sv :: "unit services" by simp
  have slot0: "kr_current_slot k1 = 0" using st(4) by simp
  have takes: "sv_heap_free sample_services t e = (True, ())" and refuses: "sv_heap_free ?strict t e = (False, ())" for t e
    by (simp_all add: sample_services_def)
  from thread_stop_returns_stacks [OF sample_code_ok free s(2) path irq slot0 none refl takes]
    thread_stop_returns_stacks [OF sample_code_ok free s' path irq slot0 none refl refuses] s(2)
  show ?thesis by auto
qed

end
