(* ===== verification/Boot_Information.thy ===== *)
theory Boot_Information
  imports Physical_Memory_Spec
begin

text \<open>
  \<open>src/kernel/multiboot2.c\<close>: the parser of the information the boot loader leaves in memory.
  Memory is a function from addresses to bytes; a pointer into it is an address, a null one
  \<open>None\<close>.  The decoded memory map is what the frame allocator of \<open>Physical_Memory\<close> reads.
\<close>

unbundle bit_operations_syntax

section \<open>Constants and data\<close>

definition MULTIBOOT2_BOOT_MAGIC :: u64 where "MULTIBOOT2_BOOT_MAGIC = 0x36D76289"
definition MULTIBOOT2_TAG_ALIGNMENT :: u64 where "MULTIBOOT2_TAG_ALIGNMENT = 8"
definition MULTIBOOT2_MAX_INFORMATION_SIZE :: u64 where "MULTIBOOT2_MAX_INFORMATION_SIZE = 16 * 1024 * 1024"
definition ACPI_RSDP_V1_SIZE :: nat where "ACPI_RSDP_V1_SIZE = 20"
definition ACPI_RSDP_V2_SIZE :: nat where "ACPI_RSDP_V2_SIZE = 36"
definition MULTIBOOT2_TAG_END :: nat where "MULTIBOOT2_TAG_END = 0"
definition MULTIBOOT2_TAG_COMMAND_LINE :: nat where "MULTIBOOT2_TAG_COMMAND_LINE = 1"
definition MULTIBOOT2_TAG_BOOT_LOADER_NAME :: nat where "MULTIBOOT2_TAG_BOOT_LOADER_NAME = 2"
definition MULTIBOOT2_TAG_MODULE :: nat where "MULTIBOOT2_TAG_MODULE = 3"
definition MULTIBOOT2_TAG_MEMORY_MAP :: nat where "MULTIBOOT2_TAG_MEMORY_MAP = 6"
definition MULTIBOOT2_TAG_FRAMEBUFFER :: nat where "MULTIBOOT2_TAG_FRAMEBUFFER = 8"
definition MULTIBOOT2_TAG_ACPI_OLD :: nat where "MULTIBOOT2_TAG_ACPI_OLD = 14"
definition MULTIBOOT2_TAG_ACPI_NEW :: nat where "MULTIBOOT2_TAG_ACPI_NEW = 15"
definition MULTIBOOT2_FRAMEBUFFER_COMMON_SIZE :: nat where "MULTIBOOT2_FRAMEBUFFER_COMMON_SIZE = 32"
definition MULTIBOOT2_FRAMEBUFFER_RGB_SIZE :: nat where "MULTIBOOT2_FRAMEBUFFER_RGB_SIZE = 38"
definition MULTIBOOT2_FRAMEBUFFER_TYPE_RGB :: nat where "MULTIBOOT2_FRAMEBUFFER_TYPE_RGB = 1"
definition BOOT_FRAMEBUFFER_BITS_PER_PIXEL :: nat where "BOOT_FRAMEBUFFER_BITS_PER_PIXEL = 32"
definition BOOT_FRAMEBUFFER_BYTES_PER_PIXEL :: nat where
  "BOOT_FRAMEBUFFER_BYTES_PER_PIXEL = BOOT_FRAMEBUFFER_BITS_PER_PIXEL div 8"

text \<open>The sizes of the packed structures: header, tag, memory map tag, memory map entry.\<close>

definition HEADER_SIZE :: nat where "HEADER_SIZE = 8"
definition TAG_SIZE :: nat where "TAG_SIZE = 8"
definition MAP_TAG_SIZE :: nat where "MAP_TAG_SIZE = 16"
definition MAP_ENTRY_SIZE :: nat where "MAP_ENTRY_SIZE = 24"

datatype boot_status =
    BOOT_STATUS_OK
  | BOOT_STATUS_NULL_CONTEXT
  | BOOT_STATUS_BAD_MAGIC
  | BOOT_STATUS_NULL_INFORMATION
  | BOOT_STATUS_MISALIGNED_INFORMATION
  | BOOT_STATUS_INFORMATION_TOO_SMALL
  | BOOT_STATUS_INFORMATION_TOO_LARGE
  | BOOT_STATUS_INFORMATION_SIZE_MISALIGNED
  | BOOT_STATUS_INFORMATION_OVERFLOW
  | BOOT_STATUS_RESERVED_FIELD_NONZERO
  | BOOT_STATUS_TRUNCATED_TAG
  | BOOT_STATUS_TAG_TOO_SMALL
  | BOOT_STATUS_TAG_OVERFLOW
  | BOOT_STATUS_DUPLICATE_MEMORY_MAP
  | BOOT_STATUS_MEMORY_MAP_TOO_SMALL
  | BOOT_STATUS_MEMORY_ENTRY_TOO_SMALL
  | BOOT_STATUS_MEMORY_ENTRY_VERSION
  | BOOT_STATUS_MEMORY_MAP_REMAINDER
  | BOOT_STATUS_MEMORY_REGION_OVERFLOW
  | BOOT_STATUS_UNSUPPORTED_MODULE
  | BOOT_STATUS_STRING_NOT_TERMINATED
  | BOOT_STATUS_ACPI_TAG_TOO_SMALL
  | BOOT_STATUS_DUPLICATE_ACPI_TAG
  | BOOT_STATUS_BAD_END_TAG
  | BOOT_STATUS_MISSING_END_TAG
  | BOOT_STATUS_MISSING_MEMORY_MAP
  | BOOT_STATUS_DUPLICATE_FRAMEBUFFER
  | BOOT_STATUS_FRAMEBUFFER_TAG_TOO_SMALL
  | BOOT_STATUS_FRAMEBUFFER_NOT_DIRECT_COLOUR
  | BOOT_STATUS_BAD_FRAMEBUFFER_DEPTH
  | BOOT_STATUS_BAD_FRAMEBUFFER_GEOMETRY
  | BOOT_STATUS_BAD_FRAMEBUFFER_PITCH
  | BOOT_STATUS_BAD_FRAMEBUFFER_ADDRESS
  | BOOT_STATUS_BAD_FRAMEBUFFER_CHANNEL
  | BOOT_STATUS_FRAMEBUFFER_OUTSIDE_EARLY_MAP

record boot_framebuffer =
  fb_address :: u64
  fb_pitch :: nat
  fb_width :: nat
  fb_height :: nat
  fb_size :: u64
  fb_bits_per_pixel :: nat
  fb_red_position :: nat
  fb_green_position :: nat
  fb_blue_position :: nat
  fb_present :: bool

record boot_context =
  bc_information_start :: u64
  bc_information_end :: u64
  bc_memory_map :: "u64 option"
  bc_acpi_old :: "u64 option"
  bc_acpi_new :: "u64 option"
  bc_boot_loader_name :: "u64 option"
  bc_command_line :: "u64 option"
  bc_boot_loader_name_length :: nat
  bc_command_line_length :: nat
  bc_memory_map_entry_count :: nat
  bc_reported_usable_bytes :: u64
  bc_highest_reported_address :: u64
  bc_framebuffer :: boot_framebuffer

type_synonym memory = "u64 \<Rightarrow> 8 word"

text \<open>A little-endian field of a packed structure.\<close>

fun load :: "memory \<Rightarrow> u64 \<Rightarrow> nat \<Rightarrow> nat" where
  "load mem address 0 = 0"
| "load mem address (Suc n) = unat (mem address) + 256 * load mem (address + 1) n"

definition tag_type :: "memory \<Rightarrow> u64 \<Rightarrow> nat" where "tag_type mem tag = load mem tag 4"
definition tag_size :: "memory \<Rightarrow> u64 \<Rightarrow> nat" where "tag_size mem tag = load mem (tag + 4) 4"
definition map_entry_size :: "memory \<Rightarrow> u64 \<Rightarrow> nat" where "map_entry_size mem tag = load mem (tag + 8) 4"
definition map_entry_version :: "memory \<Rightarrow> u64 \<Rightarrow> nat" where "map_entry_version mem tag = load mem (tag + 12) 4"

section \<open>Pieces of a tag\<close>

definition range_fits :: "nat \<Rightarrow> nat \<Rightarrow> nat \<Rightarrow> bool" where
  "range_fits offset len whole = (offset \<le> whole \<and> len \<le> sub64 whole offset)"

definition align_tag_size :: "u64 \<Rightarrow> u64" where
  "align_tag_size n =
     (let mask = sub64 MULTIBOOT2_TAG_ALIGNMENT 1 in add64 n mask AND not64 mask)"

definition boot_information_reset :: boot_context where
  "boot_information_reset = \<lparr>bc_information_start = 0, bc_information_end = 0, bc_memory_map = None,
     bc_acpi_old = None, bc_acpi_new = None, bc_boot_loader_name = None, bc_command_line = None,
     bc_boot_loader_name_length = 0, bc_command_line_length = 0, bc_memory_map_entry_count = 0,
     bc_reported_usable_bytes = 0, bc_highest_reported_address = 0,
     bc_framebuffer = \<lparr>fb_address = 0, fb_pitch = 0, fb_width = 0, fb_height = 0, fb_size = 0, fb_bits_per_pixel = 0,
       fb_red_position = 0, fb_green_position = 0, fb_blue_position = 0, fb_present = False\<rparr>\<rparr>"

definition string_length_within :: "memory \<Rightarrow> u64 \<Rightarrow> nat \<Rightarrow> nat option" where
  "string_length_within mem tag tag_bytes =
     (if tag_bytes \<le> TAG_SIZE then None
      else map_option (\<lambda>index. index - TAG_SIZE) (find_from (\<lambda>index. mem (tag + index) = 0) TAG_SIZE tag_bytes))"

definition boot_region_at :: "memory \<Rightarrow> boot_context \<Rightarrow> nat \<Rightarrow> boot_memory_region option" where
  "boot_region_at mem context index =
     (case bc_memory_map context of
        None \<Rightarrow> None
      | Some map_tag \<Rightarrow>
          if index \<ge> bc_memory_map_entry_count context then None
          else let entry = map_tag + MAP_TAG_SIZE + index * map_entry_size mem map_tag in
            Some \<lparr>base_address = load mem entry 8, region_length = load mem (entry + 8) 8,
                  region_type = load mem (entry + 16) 4\<rparr>)"

text \<open>One round of the loop of \<open>validate_memory_map\<close>.\<close>

definition validate_region :: "memory \<Rightarrow> nat \<Rightarrow> boot_context \<Rightarrow> boot_status \<times> boot_context + boot_context" where
  "validate_region mem index context =
     (case boot_region_at mem context index of
        None \<Rightarrow> Inl (BOOT_STATUS_TRUNCATED_TAG, context)
      | Some region \<Rightarrow>
          if region_length region > sub64 UINT64_MAX (base_address region)
          then Inl (BOOT_STATUS_MEMORY_REGION_OVERFLOW, context)
          else
            let region_end = add64 (base_address region) (region_length region);
                context = (if region_end > bc_highest_reported_address context
                           then context\<lparr>bc_highest_reported_address := region_end\<rparr> else context)
            in Inr (if region_type region = MULTIBOOT2_MEMORY_AVAILABLE then
                      (if region_length region > sub64 UINT64_MAX (bc_reported_usable_bytes context)
                       then context\<lparr>bc_reported_usable_bytes := UINT64_MAX\<rparr>
                       else context\<lparr>bc_reported_usable_bytes :=
                              add64 (bc_reported_usable_bytes context) (region_length region)\<rparr>)
                    else context))"

definition validate_memory_map :: "memory \<Rightarrow> u64 \<Rightarrow> boot_context \<Rightarrow> boot_status \<times> boot_context" where
  "validate_memory_map mem map_tag context =
     (if tag_size mem map_tag < MAP_TAG_SIZE then (BOOT_STATUS_MEMORY_MAP_TOO_SMALL, context)
      else if map_entry_size mem map_tag < MAP_ENTRY_SIZE then (BOOT_STATUS_MEMORY_ENTRY_TOO_SMALL, context)
      else if map_entry_version mem map_tag \<noteq> 0 then (BOOT_STATUS_MEMORY_ENTRY_VERSION, context)
      else let payload_size = tag_size mem map_tag - MAP_TAG_SIZE in
        if payload_size mod map_entry_size mem map_tag \<noteq> 0 then (BOOT_STATUS_MEMORY_MAP_REMAINDER, context)
        else
          let entry_count = payload_size div map_entry_size mem map_tag;
              context = context\<lparr>bc_memory_map := Some map_tag, bc_memory_map_entry_count := entry_count\<rparr>
          in case fold_until (validate_region mem) [0..<entry_count] context of
               Inl failure \<Rightarrow> failure
             | Inr context \<Rightarrow> (BOOT_STATUS_OK, context))"

definition read_u32 :: "memory \<Rightarrow> u64 \<Rightarrow> nat" where
  "read_u32 mem a = unat (mem a) OR push_bit 8 (unat (mem (a + 1))) OR push_bit 16 (unat (mem (a + 2))) OR
     push_bit 24 (unat (mem (a + 3)))"

definition read_u64 :: "memory \<Rightarrow> u64 \<Rightarrow> nat" where
  "read_u64 mem a = read_u32 mem a OR push_bit 32 (read_u32 mem (a + 4))"

text \<open>A channel is described by its position and its size, both bytes.\<close>

definition bad_channel :: "nat \<times> nat \<Rightarrow> bool" where
  "bad_channel channel \<longleftrightarrow>
     snd channel \<noteq> 8 \<or> fst channel mod 8 \<noteq> 0 \<or> fst channel \<ge> BOOT_FRAMEBUFFER_BITS_PER_PIXEL"

definition decode_framebuffer :: "memory \<Rightarrow> u64 \<Rightarrow> boot_framebuffer \<Rightarrow> boot_status \<times> boot_framebuffer" where
  "decode_framebuffer mem tag framebuffer =
     (if tag_size mem tag < MULTIBOOT2_FRAMEBUFFER_COMMON_SIZE then (BOOT_STATUS_FRAMEBUFFER_TAG_TOO_SMALL, framebuffer)
      else
        let address = read_u64 mem (tag + 8); pitch = read_u32 mem (tag + 16); width = read_u32 mem (tag + 20);
            height = read_u32 mem (tag + 24); depth = unat (mem (tag + 28)); kind = unat (mem (tag + 29)) in
        if kind \<noteq> MULTIBOOT2_FRAMEBUFFER_TYPE_RGB then (BOOT_STATUS_FRAMEBUFFER_NOT_DIRECT_COLOUR, framebuffer)
        else if tag_size mem tag < MULTIBOOT2_FRAMEBUFFER_RGB_SIZE then (BOOT_STATUS_FRAMEBUFFER_TAG_TOO_SMALL, framebuffer)
        else if depth \<noteq> BOOT_FRAMEBUFFER_BITS_PER_PIXEL then (BOOT_STATUS_BAD_FRAMEBUFFER_DEPTH, framebuffer)
        else if width = 0 \<or> height = 0 then (BOOT_STATUS_BAD_FRAMEBUFFER_GEOMETRY, framebuffer)
        else if pitch < mul64 width BOOT_FRAMEBUFFER_BYTES_PER_PIXEL \<or> pitch mod BOOT_FRAMEBUFFER_BYTES_PER_PIXEL \<noteq> 0
          then (BOOT_STATUS_BAD_FRAMEBUFFER_PITCH, framebuffer)
        else if address = 0 \<or> address mod BOOT_FRAMEBUFFER_BYTES_PER_PIXEL \<noteq> 0
          then (BOOT_STATUS_BAD_FRAMEBUFFER_ADDRESS, framebuffer)
        else let size = mul64 pitch height in
          if size = 0 \<or> size > SAPOTE_EARLY_PHYSICAL_LIMIT \<or> address > sub64 SAPOTE_EARLY_PHYSICAL_LIMIT size
            then (BOOT_STATUS_FRAMEBUFFER_OUTSIDE_EARLY_MAP, framebuffer)
          else
            let red = unat (mem (tag + 32)); green = unat (mem (tag + 34)); blue = unat (mem (tag + 36)) in
            if list_ex bad_channel [(red, unat (mem (tag + 33))), (green, unat (mem (tag + 35))), (blue, unat (mem (tag + 37)))]
              then (BOOT_STATUS_BAD_FRAMEBUFFER_CHANNEL, framebuffer)
            else if red = green \<or> green = blue \<or> red = blue then (BOOT_STATUS_BAD_FRAMEBUFFER_CHANNEL, framebuffer)
            else (BOOT_STATUS_OK, \<lparr>fb_address = address, fb_pitch = pitch, fb_width = width, fb_height = height,
              fb_size = size, fb_bits_per_pixel = depth, fb_red_position = red, fb_green_position = green,
              fb_blue_position = blue, fb_present = True\<rparr>))"

section \<open>The parser\<close>

text \<open>What a tag other than the end tag does to the context.\<close>

definition apply_tag :: "memory \<Rightarrow> u64 \<Rightarrow> boot_context \<Rightarrow> boot_status \<times> boot_context" where
  "apply_tag mem tag context =
     (let type = tag_type mem tag; size = tag_size mem tag in
      if type = MULTIBOOT2_TAG_MEMORY_MAP then
        (if bc_memory_map context \<noteq> None then (BOOT_STATUS_DUPLICATE_MEMORY_MAP, context)
         else validate_memory_map mem tag context)
      else if type = MULTIBOOT2_TAG_MODULE then (BOOT_STATUS_UNSUPPORTED_MODULE, context)
      else if type = MULTIBOOT2_TAG_ACPI_OLD \<or> type = MULTIBOOT2_TAG_ACPI_NEW then
        (let minimum_payload = (if type = MULTIBOOT2_TAG_ACPI_NEW then ACPI_RSDP_V2_SIZE else ACPI_RSDP_V1_SIZE);
             destination = (if type = MULTIBOOT2_TAG_ACPI_NEW then bc_acpi_new context else bc_acpi_old context) in
         if size < TAG_SIZE + minimum_payload then (BOOT_STATUS_ACPI_TAG_TOO_SMALL, context)
         else if destination \<noteq> None then (BOOT_STATUS_DUPLICATE_ACPI_TAG, context)
         else (BOOT_STATUS_OK, if type = MULTIBOOT2_TAG_ACPI_NEW then context\<lparr>bc_acpi_new := Some tag\<rparr>
                               else context\<lparr>bc_acpi_old := Some tag\<rparr>))
      else if type = MULTIBOOT2_TAG_FRAMEBUFFER then
        (if fb_present (bc_framebuffer context) then (BOOT_STATUS_DUPLICATE_FRAMEBUFFER, context)
         else (case decode_framebuffer mem tag (bc_framebuffer context) of
           (status, framebuffer) \<Rightarrow> (status, context\<lparr>bc_framebuffer := framebuffer\<rparr>)))
      else if type = MULTIBOOT2_TAG_BOOT_LOADER_NAME \<or> type = MULTIBOOT2_TAG_COMMAND_LINE then
        (case string_length_within mem tag size of
           None \<Rightarrow> (BOOT_STATUS_STRING_NOT_TERMINATED, context)
         | Some string_length \<Rightarrow>
             (BOOT_STATUS_OK,
              if type = MULTIBOOT2_TAG_BOOT_LOADER_NAME
              then context\<lparr>bc_boot_loader_name := Some (tag + TAG_SIZE), bc_boot_loader_name_length := string_length\<rparr>
              else context\<lparr>bc_command_line := Some (tag + TAG_SIZE), bc_command_line_length := string_length\<rparr>))
      else (BOOT_STATUS_OK, context))"

text \<open>One round of the loop: it returns, finds the end, or goes on at the next offset.\<close>

datatype tag_outcome = Tag_Return boot_status | Tag_End | Tag_Next u64

definition parse_tag :: "memory \<Rightarrow> u64 \<Rightarrow> nat \<Rightarrow> nat \<Rightarrow> boot_context \<Rightarrow> tag_outcome \<times> boot_context" where
  "parse_tag mem information total_size offset context =
     (if \<not> range_fits offset TAG_SIZE total_size then (Tag_Return BOOT_STATUS_TRUNCATED_TAG, context)
      else
        let tag = information + offset; size = tag_size mem tag in
        if size < TAG_SIZE then (Tag_Return BOOT_STATUS_TAG_TOO_SMALL, context)
        else if \<not> range_fits offset size total_size then (Tag_Return BOOT_STATUS_TAG_OVERFLOW, context)
        else if tag_type mem tag = MULTIBOOT2_TAG_END then
          (if size \<noteq> TAG_SIZE \<or> add64 offset size \<noteq> total_size then (Tag_Return BOOT_STATUS_BAD_END_TAG, context)
           else (Tag_End, context))
        else (case apply_tag mem tag context of
          (status, context) \<Rightarrow>
            if status \<noteq> BOOT_STATUS_OK then (Tag_Return status, context)
            else let aligned_size = align_tag_size size in
              if aligned_size < size \<or> \<not> range_fits offset aligned_size total_size
              then (Tag_Return BOOT_STATUS_TAG_OVERFLOW, context)
              else (Tag_Next (add64 offset aligned_size), context)))"

lemma load_less: "load mem a n < 256 ^ n"
proof (induction n arbitrary: a)
  case (Suc n)
  have "unat (mem a) < 256" using unat_lt_power [of "mem a"] by simp
  moreover have "load mem (a + 1) n + 1 \<le> 256 ^ n" using Suc.IH [of "a + 1"] by simp
  then have "256 * (load mem (a + 1) n + 1) \<le> 256 * 256 ^ n" by (rule mult_le_mono2)
  ultimately show ?case by simp
qed simp

lemma tag_size_less: "tag_size mem tag < 2 ^ 32" "tag_type mem tag < 2 ^ 32"
  using load_less [of mem "tag + 4" 4] load_less [of mem tag 4] by (simp_all add: tag_size_def tag_type_def)

lemma align_tag_size_eq:
  assumes "n < 2 ^ 32"
  shows "align_tag_size n = (n + 7) div 8 * 8"
proof -
  have s: "n + 7 < 2 ^ 64" using assms by simp
  have m: "sub64 MULTIBOOT2_TAG_ALIGNMENT 1 = 2 ^ 3 - 1" by (simp add: MULTIBOOT2_TAG_ALIGNMENT_def sub64_id)
  have "align_tag_size n = (n + 7) AND not64 (2 ^ 3 - 1)"
    unfolding align_tag_size_def Let_def m using s by (simp add: add64_id)
  also have "\<dots> = (n + 7) - (n + 7) mod 2 ^ 3" by (rule and_not64_mask [OF s]) simp
  also have "\<dots> = (n + 7) div 8 * 8" by (simp add: minus_mod_eq_div_mult)
  finally show ?thesis .
qed

lemma range_fits_eq: "whole < 2 ^ 64 \<Longrightarrow> range_fits offset len whole \<longleftrightarrow> offset + len \<le> whole"
  by (auto simp: range_fits_def sub64_id)

lemma parse_tag_advances:
  assumes "parse_tag mem information whole offset c = (Tag_Next offset', c')" "whole < 2 ^ 64"
  shows "offset' = offset + (tag_size mem (information + offset) + 7) div 8 * 8" "offset < offset'" "offset' \<le> whole"
proof -
  let ?s = "tag_size mem (information + offset)"
  have a: "align_tag_size ?s = (?s + 7) div 8 * 8" by (rule align_tag_size_eq [OF tag_size_less(1)])
  have r: "8 \<le> ?s" "offset + (?s + 7) div 8 * 8 \<le> whole" "offset' = add64 offset ((?s + 7) div 8 * 8)"
    using assms(1) by (auto simp: parse_tag_def Let_def a range_fits_eq [OF assms(2)] TAG_SIZE_def split: if_splits prod.splits)
  then show o: "offset' = offset + (?s + 7) div 8 * 8" using assms(2) by (simp add: add64_id)
  have "8 \<le> (?s + 7) div 8 * 8" using r(1) by simp
  then show "offset < offset'" "offset' \<le> whole" using o r(2) by simp_all
qed

lemma parse_tag_progress:
  "parse_tag mem information whole offset c = (Tag_Next offset', c') \<Longrightarrow> whole \<le> UINT64_MAX \<Longrightarrow>
     whole - offset' < whole - offset"
  using parse_tag_advances [of mem information whole offset c offset' c'] by simp

text \<open>
  The loop: the status it returns, or whether it found the end.  The second conjunct of its test
  says that \<open>total_size\<close> is a 64-bit value, so that the offsets cannot wrap.
\<close>

function (sequential) parse_tags :: "memory \<Rightarrow> u64 \<Rightarrow> nat \<Rightarrow> nat \<Rightarrow> boot_context \<Rightarrow> (boot_status + bool) \<times> boot_context" where
  "parse_tags mem information total_size offset context =
     (if offset < total_size \<and> total_size \<le> UINT64_MAX then
        (case parse_tag mem information total_size offset context of
           (Tag_Return status, context) \<Rightarrow> (Inl status, context)
         | (Tag_End, context) \<Rightarrow> (Inr True, context)
         | (Tag_Next offset, context) \<Rightarrow> parse_tags mem information total_size offset context)
      else (Inr False, context))"
  by pat_completeness auto
termination
  by (relation "measure (\<lambda>(mem, information, total_size, offset, context). total_size - offset)")
    (auto dest!: parse_tag_progress [OF sym])

declare parse_tags.simps [simp del]

definition boot_information_parse :: "u64 \<Rightarrow> u64 \<Rightarrow> bool \<Rightarrow> memory \<Rightarrow> boot_status \<times> boot_context option" where
  "boot_information_parse magic information_address context_null mem =
     (if context_null then (BOOT_STATUS_NULL_CONTEXT, None)
      else let context = boot_information_reset in
        if magic \<noteq> MULTIBOOT2_BOOT_MAGIC then (BOOT_STATUS_BAD_MAGIC, Some context)
        else if information_address = 0 then (BOOT_STATUS_NULL_INFORMATION, Some context)
        else if information_address AND (MULTIBOOT2_TAG_ALIGNMENT - 1) \<noteq> 0
          then (BOOT_STATUS_MISALIGNED_INFORMATION, Some context)
        else if information_address > sub64 SAPOTE_EARLY_PHYSICAL_LIMIT HEADER_SIZE
          then (BOOT_STATUS_INFORMATION_TOO_LARGE, Some context)
        else let total_size = load mem information_address 4 in
          if total_size < HEADER_SIZE + TAG_SIZE then (BOOT_STATUS_INFORMATION_TOO_SMALL, Some context)
          else if total_size > MULTIBOOT2_MAX_INFORMATION_SIZE then (BOOT_STATUS_INFORMATION_TOO_LARGE, Some context)
          else if total_size AND (MULTIBOOT2_TAG_ALIGNMENT - 1) \<noteq> 0
            then (BOOT_STATUS_INFORMATION_SIZE_MISALIGNED, Some context)
          else if information_address > sub64 UINT64_MAX total_size then (BOOT_STATUS_INFORMATION_OVERFLOW, Some context)
          else if add64 information_address total_size > SAPOTE_EARLY_PHYSICAL_LIMIT
            then (BOOT_STATUS_INFORMATION_TOO_LARGE, Some context)
          else if load mem (information_address + 4) 4 \<noteq> 0 then (BOOT_STATUS_RESERVED_FIELD_NONZERO, Some context)
          else
            (case parse_tags mem information_address total_size HEADER_SIZE
                    (context\<lparr>bc_information_start := information_address,
                             bc_information_end := add64 information_address total_size\<rparr>) of
               (Inl status, context) \<Rightarrow> (status, Some context)
             | (Inr found_end, context) \<Rightarrow>
                 if \<not> found_end then (BOOT_STATUS_MISSING_END_TAG, Some context)
                 else if bc_memory_map context = None then (BOOT_STATUS_MISSING_MEMORY_MAP, Some context)
                 else (BOOT_STATUS_OK, Some context)))"

text \<open>What the frame allocator reads of an accepted context: the regions one by one.\<close>

definition decoded :: "memory \<Rightarrow> boot_context \<Rightarrow> boot_information" where
  "decoded mem context = \<lparr>information_start = bc_information_start context, information_end = bc_information_end context,
     memory_map = map_option (\<lambda>_. map (\<lambda>index. the (boot_region_at mem context index)) [0..<bc_memory_map_entry_count context])
       (bc_memory_map context)\<rparr>"

lemma decoded_region_at:
  "boot_information_region_at (decoded mem context) index = boot_region_at mem context index"
  by (simp add: boot_information_region_at_def memory_map_entry_count_def decoded_def boot_region_at_def Let_def
      split: option.split)

fun boot_status_string :: "boot_status \<Rightarrow> string" where
  "boot_status_string BOOT_STATUS_OK = ''ok''"
| "boot_status_string BOOT_STATUS_NULL_CONTEXT = ''null boot context''"
| "boot_status_string BOOT_STATUS_BAD_MAGIC = ''invalid Multiboot2 magic''"
| "boot_status_string BOOT_STATUS_NULL_INFORMATION = ''null Multiboot2 information address''"
| "boot_status_string BOOT_STATUS_MISALIGNED_INFORMATION = ''misaligned Multiboot2 information''"
| "boot_status_string BOOT_STATUS_INFORMATION_TOO_SMALL = ''Multiboot2 information is too small''"
| "boot_status_string BOOT_STATUS_INFORMATION_TOO_LARGE = ''Multiboot2 information is outside the early map''"
| "boot_status_string BOOT_STATUS_INFORMATION_SIZE_MISALIGNED = ''Multiboot2 information size is misaligned''"
| "boot_status_string BOOT_STATUS_INFORMATION_OVERFLOW = ''Multiboot2 information address overflows''"
| "boot_status_string BOOT_STATUS_RESERVED_FIELD_NONZERO = ''Multiboot2 reserved field is nonzero''"
| "boot_status_string BOOT_STATUS_TRUNCATED_TAG = ''truncated Multiboot2 tag''"
| "boot_status_string BOOT_STATUS_TAG_TOO_SMALL = ''Multiboot2 tag is too small''"
| "boot_status_string BOOT_STATUS_TAG_OVERFLOW = ''Multiboot2 tag exceeds its container''"
| "boot_status_string BOOT_STATUS_DUPLICATE_MEMORY_MAP = ''duplicate Multiboot2 memory map''"
| "boot_status_string BOOT_STATUS_MEMORY_MAP_TOO_SMALL = ''Multiboot2 memory map is too small''"
| "boot_status_string BOOT_STATUS_MEMORY_ENTRY_TOO_SMALL = ''Multiboot2 memory entry is too small''"
| "boot_status_string BOOT_STATUS_MEMORY_ENTRY_VERSION = ''unsupported Multiboot2 memory entry version''"
| "boot_status_string BOOT_STATUS_MEMORY_MAP_REMAINDER = ''Multiboot2 memory map has a partial entry''"
| "boot_status_string BOOT_STATUS_MEMORY_REGION_OVERFLOW = ''Multiboot2 memory region overflows''"
| "boot_status_string BOOT_STATUS_UNSUPPORTED_MODULE = ''Multiboot2 modules are not supported yet''"
| "boot_status_string BOOT_STATUS_STRING_NOT_TERMINATED = ''Multiboot2 string is not terminated''"
| "boot_status_string BOOT_STATUS_ACPI_TAG_TOO_SMALL = ''Multiboot2 ACPI tag is too small''"
| "boot_status_string BOOT_STATUS_DUPLICATE_ACPI_TAG = ''duplicate Multiboot2 ACPI tag''"
| "boot_status_string BOOT_STATUS_BAD_END_TAG = ''invalid Multiboot2 end tag''"
| "boot_status_string BOOT_STATUS_MISSING_END_TAG = ''missing Multiboot2 end tag''"
| "boot_status_string BOOT_STATUS_MISSING_MEMORY_MAP = ''missing Multiboot2 memory map''"
| "boot_status_string BOOT_STATUS_DUPLICATE_FRAMEBUFFER = ''Multiboot2 information declares two framebuffers''"
| "boot_status_string BOOT_STATUS_FRAMEBUFFER_TAG_TOO_SMALL = ''Multiboot2 framebuffer tag is shorter than its fields''"
| "boot_status_string BOOT_STATUS_FRAMEBUFFER_NOT_DIRECT_COLOUR = ''Multiboot2 framebuffer is not direct colour''"
| "boot_status_string BOOT_STATUS_BAD_FRAMEBUFFER_DEPTH = ''Multiboot2 framebuffer depth is not 32 bits''"
| "boot_status_string BOOT_STATUS_BAD_FRAMEBUFFER_GEOMETRY = ''Multiboot2 framebuffer has no visible area''"
| "boot_status_string BOOT_STATUS_BAD_FRAMEBUFFER_PITCH = ''Multiboot2 framebuffer pitch is shorter than a row''"
| "boot_status_string BOOT_STATUS_BAD_FRAMEBUFFER_ADDRESS = ''Multiboot2 framebuffer address is unusable''"
| "boot_status_string BOOT_STATUS_BAD_FRAMEBUFFER_CHANNEL = ''Multiboot2 framebuffer colour channels are malformed''"
| "boot_status_string BOOT_STATUS_FRAMEBUFFER_OUTSIDE_EARLY_MAP = ''Multiboot2 framebuffer is outside the early map''"

end
