(* ===== verification/Boot_Parse.thy ===== *)
theory Boot_Parse
  imports Boot_Information
begin

text \<open>
  What the parser of \<open>Boot_Information\<close> accepts, stated without its loop: a chain of tags that
  ends exactly at the end of the information, each well formed by itself, with one memory map
  and at most one of each other table.  What it reads, and what the frame allocator gets.
\<close>

unbundle bit_operations_syntax

section \<open>The memory map\<close>

text \<open>The region an entry describes, and what makes a memory map acceptable.\<close>

definition region_of :: "memory \<Rightarrow> u64 \<Rightarrow> nat \<Rightarrow> boot_memory_region" where
  "region_of mem map_tag index =
     (let entry = map_tag + 16 + index * map_entry_size mem map_tag in
      \<lparr>base_address = load mem entry 8, region_length = load mem (entry + 8) 8, region_type = load mem (entry + 16) 4\<rparr>)"

definition entry_count :: "memory \<Rightarrow> u64 \<Rightarrow> nat" where
  "entry_count mem map_tag = (tag_size mem map_tag - 16) div map_entry_size mem map_tag"

definition map_regions :: "memory \<Rightarrow> u64 \<Rightarrow> boot_memory_region list" where
  "map_regions mem map_tag = map (region_of mem map_tag) [0..<entry_count mem map_tag]"

definition map_ok :: "memory \<Rightarrow> u64 \<Rightarrow> bool" where
  "map_ok mem map_tag \<longleftrightarrow> 16 \<le> tag_size mem map_tag \<and> 24 \<le> map_entry_size mem map_tag \<and>
     map_entry_version mem map_tag = 0 \<and> map_entry_size mem map_tag dvd tag_size mem map_tag - 16 \<and>
     (\<forall>r \<in> set (map_regions mem map_tag). region_fits r)"

definition available_bytes :: "boot_memory_region list \<Rightarrow> nat" where
  "available_bytes rs = sum_list (map region_length (filter (\<lambda>r. region_type r = MULTIBOOT2_MEMORY_AVAILABLE) rs))"

definition highest_end :: "boot_memory_region list \<Rightarrow> nat" where
  "highest_end rs = foldr (\<lambda>r n. max (base_address r + region_length r) n) rs 0"

lemma region_bounds: "base_address (region_of mem t i) < 2 ^ 64" "region_length (region_of mem t i) < 2 ^ 64"
  using load_less [of mem _ 8] by (simp_all add: region_of_def Let_def)

lemma highest_end_append: "highest_end (rs @ [r]) = max (highest_end rs) (base_address r + region_length r)"
  by (induction rs) (auto simp: highest_end_def)

lemma available_bytes_append:
  "available_bytes (rs @ [r]) = available_bytes rs + (if region_type r = MULTIBOOT2_MEMORY_AVAILABLE then region_length r else 0)"
  by (simp add: available_bytes_def)

text \<open>One region, on a context that summarises the regions before it.\<close>

definition summary :: "boot_context \<Rightarrow> u64 \<Rightarrow> nat \<Rightarrow> boot_memory_region list \<Rightarrow> boot_context" where
  "summary c map_tag n rs = c\<lparr>bc_memory_map := Some map_tag, bc_memory_map_entry_count := n,
     bc_highest_reported_address := highest_end rs, bc_reported_usable_bytes := min UINT64_MAX (available_bytes rs)\<rparr>"

lemma boot_region_at_summary:
  "i < n \<Longrightarrow> boot_region_at mem (summary c t n rs) i = Some (region_of mem t i)"
  by (simp add: boot_region_at_def summary_def region_of_def MAP_TAG_SIZE_def)

lemma saturating:
  assumes "x < 2 ^ 64"
  shows "(if x > sub64 UINT64_MAX (min UINT64_MAX s) then UINT64_MAX else add64 (min UINT64_MAX s) x) = min UINT64_MAX (s + x)"
proof (cases "s \<le> UINT64_MAX")
  case True
  then have s: "sub64 UINT64_MAX (min UINT64_MAX s) = UINT64_MAX - s" by (simp add: sub64_id min_absorb2)
  show ?thesis
  proof (cases "x > UINT64_MAX - s")
    case True
    then have "UINT64_MAX \<le> s + x" by linarith
    then show ?thesis using True s by simp
  next
    case False
    then have "s + x \<le> UINT64_MAX" using \<open>s \<le> UINT64_MAX\<close> by linarith
    then show ?thesis using False s \<open>s \<le> UINT64_MAX\<close> by (simp add: add64_id min_absorb2)
  qed
next
  case False
  then have "min UINT64_MAX s = UINT64_MAX" "min UINT64_MAX (s + x) = UINT64_MAX" by (simp_all add: min_def)
  then show ?thesis by (cases "x = 0") (simp_all add: sub64_id add64_id)
qed

lemma validate_region_eq:
  assumes "i < n"
  shows "validate_region mem i (summary c t n rs) =
    (if region_fits (region_of mem t i) then Inr (summary c t n (rs @ [region_of mem t i]))
     else Inl (BOOT_STATUS_MEMORY_REGION_OVERFLOW, summary c t n rs))"
proof -
  let ?r = "region_of mem t i"
  note b = region_bounds [of mem t i]
  have s: "sub64 UINT64_MAX (base_address ?r) = UINT64_MAX - base_address ?r" using b by (simp add: sub64_id)
  have fit: "region_length ?r > sub64 UINT64_MAX (base_address ?r) \<longleftrightarrow> \<not> region_fits ?r"
    using b unfolding s region_fits_def by linarith
  show ?thesis
  proof (cases "region_fits ?r")
    case False
    then show ?thesis using fit by (simp add: validate_region_def boot_region_at_summary [OF assms])
  next
    case True
    let ?c = "summary c t n rs"
    let ?e = "base_address ?r + region_length ?r"
    have e: "add64 (base_address ?r) (region_length ?r) = ?e" using True by (simp add: region_fits_def add64_id)
    have h: "bc_highest_reported_address ?c = highest_end rs" "bc_reported_usable_bytes ?c = min UINT64_MAX (available_bytes rs)"
      by (simp_all add: summary_def)
    have sat: "(if region_length ?r > sub64 UINT64_MAX (min UINT64_MAX (available_bytes rs)) then UINT64_MAX
        else add64 (min UINT64_MAX (available_bytes rs)) (region_length ?r)) = min UINT64_MAX (available_bytes rs + region_length ?r)"
      by (rule saturating [OF b(2)])
    define c1 where "c1 = (if ?e > bc_highest_reported_address ?c then ?c\<lparr>bc_highest_reported_address := ?e\<rparr> else ?c)"
    have c1: "c1 = ?c\<lparr>bc_highest_reported_address := max (highest_end rs) ?e\<rparr>"
      unfolding c1_def by (auto simp: summary_def max_def)
    have run: "validate_region mem i ?c = Inr (if region_type ?r = MULTIBOOT2_MEMORY_AVAILABLE then
        (if region_length ?r > sub64 UINT64_MAX (bc_reported_usable_bytes c1) then c1\<lparr>bc_reported_usable_bytes := UINT64_MAX\<rparr>
         else c1\<lparr>bc_reported_usable_bytes := add64 (bc_reported_usable_bytes c1) (region_length ?r)\<rparr>) else c1)"
      using True fit by (simp add: validate_region_def boot_region_at_summary [OF assms] Let_def e c1_def)
    also have "\<dots> = Inr (if region_type ?r = MULTIBOOT2_MEMORY_AVAILABLE then
        c1\<lparr>bc_reported_usable_bytes := (if region_length ?r > sub64 UINT64_MAX (bc_reported_usable_bytes c1) then UINT64_MAX
          else add64 (bc_reported_usable_bytes c1) (region_length ?r))\<rparr> else c1)"
      by (cases "region_length ?r > sub64 UINT64_MAX (bc_reported_usable_bytes c1)") simp_all
    also have "bc_reported_usable_bytes c1 = min UINT64_MAX (available_bytes rs)" unfolding c1 by (simp add: summary_def)
    also note sat
    finally show ?thesis
      using True unfolding c1
      by (cases "region_type ?r = MULTIBOOT2_MEMORY_AVAILABLE")
        (simp_all add: summary_def highest_end_append available_bytes_append)
  qed
qed

lemma validate_regions:
  assumes "n \<le> count"
  shows "(\<forall>i < n. region_fits (region_of mem t i)) \<longrightarrow>
      fold_until (validate_region mem) [0..<n] (summary c t count []) = Inr (summary c t count (map (region_of mem t) [0..<n]))"
    and "\<not> (\<forall>i < n. region_fits (region_of mem t i)) \<longrightarrow>
      (\<exists>c'. fold_until (validate_region mem) [0..<n] (summary c t count []) = Inl (BOOT_STATUS_MEMORY_REGION_OVERFLOW, c'))"
proof -
  have both: "((\<forall>i < n. region_fits (region_of mem t i)) \<longrightarrow>
      fold_until (validate_region mem) [0..<n] (summary c t count []) = Inr (summary c t count (map (region_of mem t) [0..<n]))) \<and>
    (\<not> (\<forall>i < n. region_fits (region_of mem t i)) \<longrightarrow>
      (\<exists>c'. fold_until (validate_region mem) [0..<n] (summary c t count []) = Inl (BOOT_STATUS_MEMORY_REGION_OVERFLOW, c')))"
    using assms
  proof (induction n)
    case (Suc n)
    then have n: "n < count" and ih: "((\<forall>i < n. region_fits (region_of mem t i)) \<longrightarrow>
        fold_until (validate_region mem) [0..<n] (summary c t count []) = Inr (summary c t count (map (region_of mem t) [0..<n]))) \<and>
      (\<not> (\<forall>i < n. region_fits (region_of mem t i)) \<longrightarrow>
        (\<exists>c'. fold_until (validate_region mem) [0..<n] (summary c t count []) = Inl (BOOT_STATUS_MEMORY_REGION_OVERFLOW, c')))" by simp_all
    show ?case
    proof (cases "\<forall>i < n. region_fits (region_of mem t i)")
      case True
      then have "fold_until (validate_region mem) [0..<n] (summary c t count []) = Inr (summary c t count (map (region_of mem t) [0..<n]))"
        using ih by blast
      then have run: "fold_until (validate_region mem) [0..<Suc n] (summary c t count []) =
          validate_region mem n (summary c t count (map (region_of mem t) [0..<n]))"
        by (simp only: fold_until_upt_Suc sum.case)
      show ?thesis
        unfolding run validate_region_eq [OF n] using True by (cases "region_fits (region_of mem t n)") (auto simp: less_Suc_eq)
    next
      case False
      then obtain c' where "fold_until (validate_region mem) [0..<n] (summary c t count []) = Inl (BOOT_STATUS_MEMORY_REGION_OVERFLOW, c')"
        using ih by blast
      then have "fold_until (validate_region mem) [0..<Suc n] (summary c t count []) = Inl (BOOT_STATUS_MEMORY_REGION_OVERFLOW, c')"
        by (simp only: fold_until_upt_Suc sum.case)
      moreover have "\<not> (\<forall>i < Suc n. region_fits (region_of mem t i))" using False by (meson less_SucI)
      ultimately show ?thesis by blast
    qed
  qed simp
  then show "(\<forall>i < n. region_fits (region_of mem t i)) \<longrightarrow>
      fold_until (validate_region mem) [0..<n] (summary c t count []) = Inr (summary c t count (map (region_of mem t) [0..<n]))"
    and "\<not> (\<forall>i < n. region_fits (region_of mem t i)) \<longrightarrow>
      (\<exists>c'. fold_until (validate_region mem) [0..<n] (summary c t count []) = Inl (BOOT_STATUS_MEMORY_REGION_OVERFLOW, c'))" by blast+
qed

lemma validate_memory_map_eq:
  assumes "bc_highest_reported_address c = 0" "bc_reported_usable_bytes c = 0"
  shows "map_ok mem t \<Longrightarrow> validate_memory_map mem t c =
      (BOOT_STATUS_OK, summary c t (entry_count mem t) (map_regions mem t))"
    and "\<not> map_ok mem t \<Longrightarrow> fst (validate_memory_map mem t c) \<noteq> BOOT_STATUS_OK"
proof -
  let ?n = "entry_count mem t"
  let ?pre = "16 \<le> tag_size mem t \<and> 24 \<le> map_entry_size mem t \<and> map_entry_version mem t = 0 \<and>
    map_entry_size mem t dvd tag_size mem t - 16"
  have init: "c\<lparr>bc_memory_map := Some t, bc_memory_map_entry_count := ?n\<rparr> = summary c t ?n []"
    using assms by (cases c) (simp add: summary_def highest_end_def available_bytes_def)
  have eq: "validate_memory_map mem t c = (case fold_until (validate_region mem) [0..<?n] (summary c t ?n []) of
      Inl failure \<Rightarrow> failure | Inr context \<Rightarrow> (BOOT_STATUS_OK, context))" if ?pre
    using that unfolding init [symmetric]
    by (simp add: validate_memory_map_def MAP_TAG_SIZE_def MAP_ENTRY_SIZE_def Let_def entry_count_def dvd_eq_mod_eq_0)
  note v = validate_regions [of ?n ?n mem t c]
  have all: "(\<forall>r \<in> set (map_regions mem t). region_fits r) \<longleftrightarrow> (\<forall>i < ?n. region_fits (region_of mem t i))"
    by (auto simp: map_regions_def)
  show "validate_memory_map mem t c = (BOOT_STATUS_OK, summary c t ?n (map_regions mem t))" if "map_ok mem t"
    using that eq v(1) all by (simp add: map_ok_def) (simp add: map_regions_def)
  show "fst (validate_memory_map mem t c) \<noteq> BOOT_STATUS_OK" if no: "\<not> map_ok mem t"
  proof (cases ?pre)
    case True
    then have "\<not> (\<forall>i < ?n. region_fits (region_of mem t i))" using no all by (auto simp: map_ok_def)
    with v(2) obtain c' where "fold_until (validate_region mem) [0..<?n] (summary c t ?n []) = Inl (BOOT_STATUS_MEMORY_REGION_OVERFLOW, c')" by blast
    with eq [OF True] show ?thesis by simp
  next
    case False
    then show ?thesis
      by (auto simp: validate_memory_map_def MAP_TAG_SIZE_def MAP_ENTRY_SIZE_def Let_def dvd_eq_mod_eq_0)
  qed
qed

section \<open>Tags\<close>

text \<open>A tag that is acceptable by itself, whatever came before it.\<close>

definition tag_ok :: "memory \<Rightarrow> u64 \<Rightarrow> bool" where
  "tag_ok mem tag \<longleftrightarrow>
     (tag_type mem tag = 6 \<longrightarrow> map_ok mem tag) \<and> tag_type mem tag \<noteq> 3 \<and>
     (tag_type mem tag = 14 \<longrightarrow> 28 \<le> tag_size mem tag) \<and> (tag_type mem tag = 15 \<longrightarrow> 44 \<le> tag_size mem tag) \<and>
     (tag_type mem tag = 8 \<longrightarrow> fst (decode_framebuffer mem tag (bc_framebuffer boot_information_reset)) = BOOT_STATUS_OK) \<and>
     (tag_type mem tag \<in> {1, 2} \<longrightarrow> (\<exists>i. 8 \<le> i \<and> i < tag_size mem tag \<and> mem (tag + i) = 0))"

lemmas tag_consts = MULTIBOOT2_TAG_END_def MULTIBOOT2_TAG_COMMAND_LINE_def MULTIBOOT2_TAG_BOOT_LOADER_NAME_def
  MULTIBOOT2_TAG_MODULE_def MULTIBOOT2_TAG_MEMORY_MAP_def MULTIBOOT2_TAG_FRAMEBUFFER_def MULTIBOOT2_TAG_ACPI_OLD_def
  MULTIBOOT2_TAG_ACPI_NEW_def ACPI_RSDP_V1_SIZE_def ACPI_RSDP_V2_SIZE_def TAG_SIZE_def

text \<open>Tags of these types may occur once; the context says which have occurred.\<close>

definition seen :: "boot_context \<Rightarrow> nat \<Rightarrow> bool" where
  "seen c k \<longleftrightarrow> (k = 6 \<and> bc_memory_map c \<noteq> None) \<or> (k = 8 \<and> fb_present (bc_framebuffer c)) \<or>
     (k = 14 \<and> bc_acpi_old c \<noteq> None) \<or> (k = 15 \<and> bc_acpi_new c \<noteq> None)"

lemma decode_framebuffer_status:
  "fst (decode_framebuffer mem tag fb) = fst (decode_framebuffer mem tag fb')"
  by (simp add: decode_framebuffer_def Let_def)

lemma decode_framebuffer_ok:
  "decode_framebuffer mem tag fb = (BOOT_STATUS_OK, fb') \<Longrightarrow> fb_present fb'"
  by (auto simp: decode_framebuffer_def Let_def split: if_splits)

text \<open>The summary fields stay zero until the memory map is seen.\<close>

definition fresh_summary :: "boot_context \<Rightarrow> bool" where
  "fresh_summary c \<longleftrightarrow> (bc_memory_map c = None \<longrightarrow> bc_highest_reported_address c = 0 \<and> bc_reported_usable_bytes c = 0)"

lemma string_found: "string_length_within mem tag n \<noteq> None \<longleftrightarrow> (\<exists>i. 8 \<le> i \<and> i < n \<and> mem (tag + i) = 0)"
proof (cases "n \<le> 8")
  case True
  then show ?thesis by (simp add: string_length_within_def TAG_SIZE_def)
next
  case False
  then show ?thesis
    using find_from_None_iff [of "\<lambda>i. mem (tag + i) = 0" 8 n] by (auto simp: string_length_within_def TAG_SIZE_def)
qed

lemma apply_tag_ok:
  assumes f: "fresh_summary c"
  shows "(fst (apply_tag mem tag c) = BOOT_STATUS_OK) \<longleftrightarrow>
      tag_ok mem tag \<and> \<not> (tag_type mem tag \<in> {6, 8, 14, 15} \<and> seen c (tag_type mem tag))"
    and "apply_tag mem tag c = (BOOT_STATUS_OK, c') \<Longrightarrow> fresh_summary c' \<and>
      (\<forall>k. seen c' k \<longleftrightarrow> seen c k \<or> (k = tag_type mem tag \<and> k \<in> {6, 8, 14, 15})) \<and>
      bc_information_start c' = bc_information_start c \<and> bc_information_end c' = bc_information_end c \<and>
      (tag_type mem tag = 6 \<longrightarrow> c' = summary c tag (entry_count mem tag) (map_regions mem tag)) \<and>
      (tag_type mem tag \<noteq> 6 \<longrightarrow> bc_memory_map c' = bc_memory_map c \<and>
         bc_memory_map_entry_count c' = bc_memory_map_entry_count c \<and>
         bc_highest_reported_address c' = bc_highest_reported_address c \<and>
         bc_reported_usable_bytes c' = bc_reported_usable_bytes c)"
proof -
  let ?t = "tag_type mem tag"
  consider (map) "?t = 6" | (module) "?t = 3" | (old) "?t = 14" | (new) "?t = 15" | (fb) "?t = 8"
    | (name) "?t = 2" | (line) "?t = 1" | (other) "?t \<notin> {1, 2, 3, 6, 8, 14, 15}" by auto
  then have "((fst (apply_tag mem tag c) = BOOT_STATUS_OK) \<longleftrightarrow>
      tag_ok mem tag \<and> \<not> (?t \<in> {6, 8, 14, 15} \<and> seen c ?t)) \<and>
    (\<forall>c'. apply_tag mem tag c = (BOOT_STATUS_OK, c') \<longrightarrow> fresh_summary c' \<and>
      (\<forall>k. seen c' k \<longleftrightarrow> seen c k \<or> (k = ?t \<and> k \<in> {6, 8, 14, 15})) \<and>
      bc_information_start c' = bc_information_start c \<and> bc_information_end c' = bc_information_end c \<and>
      (?t = 6 \<longrightarrow> c' = summary c tag (entry_count mem tag) (map_regions mem tag)) \<and>
      (?t \<noteq> 6 \<longrightarrow> bc_memory_map c' = bc_memory_map c \<and>
         bc_memory_map_entry_count c' = bc_memory_map_entry_count c \<and>
         bc_highest_reported_address c' = bc_highest_reported_address c \<and>
         bc_reported_usable_bytes c' = bc_reported_usable_bytes c))"
  proof cases
    case map
    show ?thesis
    proof (cases "bc_memory_map c = None")
      case None: True
      have z: "bc_highest_reported_address c = 0" "bc_reported_usable_bytes c = 0" using f None by (simp_all add: fresh_summary_def)
      have a: "apply_tag mem tag c = validate_memory_map mem tag c" using map None by (simp add: apply_tag_def Let_def tag_consts)
      have s: "seen (summary c t n rs) k \<longleftrightarrow> seen c k \<or> k = 6" for t n rs k by (auto simp: seen_def summary_def)
      show ?thesis
      proof (cases "map_ok mem tag")
        case True
        show ?thesis
          unfolding a validate_memory_map_eq(1) [OF z True] using map None True s
          by (simp add: tag_ok_def seen_def fresh_summary_def) (auto simp: summary_def seen_def)
      next
        case False
        then show ?thesis
          using validate_memory_map_eq(2) [OF z False] map unfolding a by (auto simp: tag_ok_def)
      qed
    next
      case False
      then show ?thesis using map by (simp add: apply_tag_def Let_def tag_consts seen_def)
    qed
  next
    case module
    then show ?thesis by (simp add: apply_tag_def Let_def tag_consts tag_ok_def)
  next
    case old
    then show ?thesis using f
      by (auto simp: apply_tag_def Let_def tag_consts tag_ok_def seen_def fresh_summary_def split: if_splits)
  next
    case new
    then show ?thesis using f
      by (auto simp: apply_tag_def Let_def tag_consts tag_ok_def seen_def fresh_summary_def split: if_splits)
  next
    case fb
    obtain st fb' where d: "decode_framebuffer mem tag (bc_framebuffer c) = (st, fb')" by (meson surj_pair)
    have st: "fst (decode_framebuffer mem tag (bc_framebuffer boot_information_reset)) = st"
      using decode_framebuffer_status [of mem tag "bc_framebuffer c"] d by (metis fst_conv)
    show ?thesis using fb f d st decode_framebuffer_ok [of mem tag "bc_framebuffer c" fb']
      by (auto simp: apply_tag_def Let_def tag_consts tag_ok_def seen_def fresh_summary_def split: if_splits)
  next
    case name
    then show ?thesis using f string_found [of mem tag "tag_size mem tag"]
      by (cases "string_length_within mem tag (tag_size mem tag)")
        (auto simp: apply_tag_def Let_def tag_consts tag_ok_def seen_def fresh_summary_def)
  next
    case line
    then show ?thesis using f string_found [of mem tag "tag_size mem tag"]
      by (cases "string_length_within mem tag (tag_size mem tag)")
        (auto simp: apply_tag_def Let_def tag_consts tag_ok_def seen_def fresh_summary_def)
  next
    case other
    then show ?thesis using f
      by (auto simp: apply_tag_def Let_def tag_consts tag_ok_def fresh_summary_def)
  qed
  then show "(fst (apply_tag mem tag c) = BOOT_STATUS_OK) \<longleftrightarrow>
      tag_ok mem tag \<and> \<not> (?t \<in> {6, 8, 14, 15} \<and> seen c ?t)"
    and "apply_tag mem tag c = (BOOT_STATUS_OK, c') \<Longrightarrow> fresh_summary c' \<and>
      (\<forall>k. seen c' k \<longleftrightarrow> seen c k \<or> (k = ?t \<and> k \<in> {6, 8, 14, 15})) \<and>
      bc_information_start c' = bc_information_start c \<and> bc_information_end c' = bc_information_end c \<and>
      (?t = 6 \<longrightarrow> c' = summary c tag (entry_count mem tag) (map_regions mem tag)) \<and>
      (?t \<noteq> 6 \<longrightarrow> bc_memory_map c' = bc_memory_map c \<and>
         bc_memory_map_entry_count c' = bc_memory_map_entry_count c \<and>
         bc_highest_reported_address c' = bc_highest_reported_address c \<and>
         bc_reported_usable_bytes c' = bc_reported_usable_bytes c)" by blast+
qed

section \<open>Chains of tags\<close>

text \<open>From an offset on, tags follow each other, padded to eight bytes, up to an end tag that is the last eight bytes.\<close>

inductive tag_chain :: "memory \<Rightarrow> u64 \<Rightarrow> nat \<Rightarrow> nat \<Rightarrow> nat list \<Rightarrow> bool" for mem :: memory and information :: u64 and whole :: nat where
  chain_end: "tag_type mem (information + offset) = 0 \<Longrightarrow> tag_size mem (information + offset) = 8 \<Longrightarrow>
    offset + 8 = whole \<Longrightarrow> tag_chain mem information whole offset []"
| chain_tag: "tag_type mem (information + offset) \<noteq> 0 \<Longrightarrow> 8 \<le> tag_size mem (information + offset) \<Longrightarrow>
    tag_chain mem information whole (offset + (tag_size mem (information + offset) + 7) div 8 * 8) ts \<Longrightarrow>
    tag_chain mem information whole offset (offset # ts)"

inductive_cases tag_chain_ConsE: "tag_chain mem information whole offset (t # ts)"
inductive_cases tag_chain_NilE: "tag_chain mem information whole offset []"

lemma tag_chain_below: "tag_chain mem information whole offset ts \<Longrightarrow> offset + 8 \<le> whole"
  by (induction rule: tag_chain.induct) auto

lemma tag_chain_unique: "tag_chain mem information whole offset ts \<Longrightarrow> tag_chain mem information whole offset us \<Longrightarrow> ts = us"
proof (induction arbitrary: us rule: tag_chain.induct)
  case chain_end
  then show ?case by (auto elim: tag_chain.cases)
next
  case (chain_tag offset ts)
  from chain_tag.prems chain_tag.hyps show ?case
    by (cases rule: tag_chain.cases) (auto dest: chain_tag.IH)
qed

definition kind_count :: "memory \<Rightarrow> u64 \<Rightarrow> nat \<Rightarrow> nat list \<Rightarrow> nat" where
  "kind_count mem information k ts = length (filter (\<lambda>t. tag_type mem (information + t) = k) ts)"

text \<open>Each tag well formed, none of the single ones twice or again.\<close>

definition tags_ok :: "memory \<Rightarrow> u64 \<Rightarrow> nat list \<Rightarrow> (nat \<Rightarrow> bool) \<Rightarrow> bool" where
  "tags_ok mem information ts already \<longleftrightarrow> (\<forall>t \<in> set ts. tag_ok mem (information + t)) \<and>
     (\<forall>k \<in> {6, 8, 14, 15}. kind_count mem information k ts + (if already k then 1 else 0) \<le> 1)"

lemma tags_ok_Cons:
  "tags_ok mem information (t # ts) already \<longleftrightarrow>
     (let k = tag_type mem (information + t) in tag_ok mem (information + t) \<and> \<not> (k \<in> {6, 8, 14, 15} \<and> already k) \<and>
      tags_ok mem information ts (\<lambda>j. already j \<or> (j = k \<and> j \<in> {6, 8, 14, 15})))"
  by (cases "tag_type mem (information + t) \<in> {6, 8, 14, 15}") (auto simp: tags_ok_def kind_count_def Let_def)

text \<open>The context after the tags, as far as the memory map goes.\<close>

definition tags_result :: "memory \<Rightarrow> u64 \<Rightarrow> nat list \<Rightarrow> boot_context \<Rightarrow> boot_context \<Rightarrow> bool" where
  "tags_result mem information ts c c' \<longleftrightarrow>
     bc_information_start c' = bc_information_start c \<and> bc_information_end c' = bc_information_end c \<and>
     (case filter (\<lambda>t. tag_type mem (information + t) = 6) ts of
        [] \<Rightarrow> bc_memory_map c' = bc_memory_map c \<and> bc_memory_map_entry_count c' = bc_memory_map_entry_count c \<and>
              bc_highest_reported_address c' = bc_highest_reported_address c \<and>
              bc_reported_usable_bytes c' = bc_reported_usable_bytes c
      | t # _ \<Rightarrow> let tag = information + t; rs = map_regions mem tag in
              bc_memory_map c' = Some tag \<and> bc_memory_map_entry_count c' = entry_count mem tag \<and>
              bc_highest_reported_address c' = highest_end rs \<and>
              bc_reported_usable_bytes c' = min UINT64_MAX (available_bytes rs))"

lemma parse_tag_eq:
  assumes w: "whole < 2 ^ 32" and o: "offset + 8 \<le> whole"
  shows "parse_tag mem information whole offset c =
    (let tag = information + offset; size = tag_size mem tag; next = offset + (size + 7) div 8 * 8 in
     if size < 8 then (Tag_Return BOOT_STATUS_TAG_TOO_SMALL, c)
     else if \<not> offset + size \<le> whole then (Tag_Return BOOT_STATUS_TAG_OVERFLOW, c)
     else if tag_type mem tag = 0 then
       (if size = 8 \<and> offset + 8 = whole then (Tag_End, c) else (Tag_Return BOOT_STATUS_BAD_END_TAG, c))
     else (case apply_tag mem tag c of (st, c) \<Rightarrow>
       if st \<noteq> BOOT_STATUS_OK then (Tag_Return st, c)
       else if \<not> next \<le> whole then (Tag_Return BOOT_STATUS_TAG_OVERFLOW, c) else (Tag_Next next, c)))"
proof -
  let ?s = "tag_size mem (information + offset)"
  have w64: "whole < 2 ^ 64" using w by simp
  have s: "?s < 2 ^ 32" by (rule tag_size_less)
  note a = align_tag_size_eq [OF s]
  have "align_tag_size 8 = 8" using align_tag_size_eq [of 8] by simp
  moreover  have "?s < 8 \<or> ?s \<le> (?s + 7) div 8 * 8" by linarith
  moreover have "add64 offset ?s = offset + ?s" using w o s by (simp add: add64_id)
  moreover have "add64 offset ((?s + 7) div 8 * 8) = offset + (?s + 7) div 8 * 8" if "offset + (?s + 7) div 8 * 8 \<le> whole"
    using that w by (simp add: add64_id)
  ultimately show ?thesis
    using o by (auto simp: parse_tag_def range_fits_eq [OF w64] TAG_SIZE_def MULTIBOOT2_TAG_END_def Let_def a split: prod.split)
qed

lemma parse_tags_step:
  "offset < whole \<Longrightarrow> whole < 2 ^ 32 \<Longrightarrow> parse_tags mem information whole offset c =
    (case parse_tag mem information whole offset c of
       (Tag_Return status, c) \<Rightarrow> (Inl status, c) | (Tag_End, c) \<Rightarrow> (Inr True, c)
     | (Tag_Next offset, c) \<Rightarrow> parse_tags mem information whole offset c)"
  by (simp add: parse_tags.simps [of mem information whole offset c])

lemma no_more:
  assumes "tags_ok mem information ts already" "already 6"
  shows "filter (\<lambda>t. tag_type mem (information + t) = 6) ts = []"
  using assms by (simp add: tags_ok_def kind_count_def)

lemma tags_ok_ConsD:
  "tags_ok mem information (t # ts) already \<Longrightarrow>
     tag_ok mem (information + t) \<and> \<not> (tag_type mem (information + t) \<in> {6, 8, 14, 15} \<and> already (tag_type mem (information + t)))"
  by (simp only: tags_ok_Cons Let_def simp_thms)

lemma tags_result_Cons:
  assumes f: "fresh_summary c" and a: "apply_tag mem (information + t) c = (BOOT_STATUS_OK, c1)"
    and ts: "tags_ok mem information ts (seen c1)" "tags_result mem information ts c1 c'"
  shows "tags_result mem information (t # ts) c c'"
proof -
  note d = apply_tag_ok(2) [OF f a]
  show ?thesis
  proof (cases "tag_type mem (information + t) = 6")
    case True
    then have c1: "c1 = summary c (information + t) (entry_count mem (information + t)) (map_regions mem (information + t))"
      and "seen c1 6" using d by auto
    then have none: "filter (\<lambda>t. tag_type mem (information + t) = 6) ts = []" using no_more [OF ts(1)] by blast
    show ?thesis using ts(2) True none unfolding tags_result_def c1 by (simp add: summary_def Let_def)
  next
    case False
    then show ?thesis using ts(2) d unfolding tags_result_def by (auto simp: Let_def split: list.splits)
  qed
qed

lemma parse_tags_accepts:
  assumes "whole < 2 ^ 32" "fresh_summary c"
  shows "(\<exists>c' ts. parse_tags mem information whole offset c = (Inr True, c') \<and> tag_chain mem information whole offset ts \<and>
      tags_ok mem information ts (seen c) \<and> tags_result mem information ts c c') \<or>
    (fst (parse_tags mem information whole offset c) \<noteq> Inr True \<and>
      (\<forall>ts. tag_chain mem information whole offset ts \<longrightarrow> \<not> tags_ok mem information ts (seen c)))"
  using assms(2)
proof (induction "whole - offset" arbitrary: offset c rule: less_induct)
  case less
  let ?tag = "information + offset" and ?s = "tag_size mem (information + offset)"
  let ?n = "offset + (?s + 7) div 8 * 8"
  have w: "whole < 2 ^ 32" by (rule assms)
  show ?case
  proof (cases "offset + 8 \<le> whole")
    case False
    have no: "\<not> tag_chain mem information whole offset ts" for ts using tag_chain_below False by blast
    have "fst (parse_tags mem information whole offset c) \<noteq> Inr True"
    proof (cases "offset < whole")
      case True
      have w64: "whole < 2 ^ 64" using w by simp
      have "\<not> range_fits offset TAG_SIZE whole" using False by (simp add: range_fits_eq [OF w64] TAG_SIZE_def)
      then show ?thesis by (simp add: parse_tags_step [OF True w] parse_tag_def)
    next
      case False
      then show ?thesis by (simp add: parse_tags.simps [of mem information whole offset c])
    qed
    then show ?thesis using no by blast
  next
    case o: True
    then have lt: "offset < whole" by simp
    note step = parse_tags_step [OF lt w, of mem information c] parse_tag_eq [OF w o, of mem information c]
    have cons: "tag_chain mem information whole offset ts \<longleftrightarrow>
        (?s = 8 \<and> offset + 8 = whole \<and> ts = [])" if "tag_type mem ?tag = 0" for ts
      using that by (auto elim: tag_chain.cases intro: tag_chain.chain_end)
    have cons': "tag_chain mem information whole offset ts \<longleftrightarrow>
        (8 \<le> ?s \<and> (\<exists>us. ts = offset # us \<and> tag_chain mem information whole ?n us))" if "tag_type mem ?tag \<noteq> 0" for ts
      using that by (auto elim: tag_chain.cases intro: tag_chain.chain_tag)
    show ?thesis
    proof (cases "tag_type mem ?tag = 0")
      case end_tag: True
      show ?thesis
      proof (cases "?s = 8 \<and> offset + 8 = whole")
        case True
        then have "parse_tags mem information whole offset c = (Inr True, c)" using end_tag unfolding step by (simp add: Let_def)
        moreover have "tag_chain mem information whole offset []" using cons [OF end_tag] True by simp
        moreover have "tags_ok mem information [] (seen c)" by (simp add: tags_ok_def kind_count_def)
        moreover have "tags_result mem information [] c c" by (simp add: tags_result_def)
        ultimately show ?thesis by blast
      next
        case False
        then have "fst (parse_tags mem information whole offset c) \<noteq> Inr True" using end_tag unfolding step by (auto simp: Let_def)
        then show ?thesis using cons [OF end_tag] False by blast
      qed
    next
      case tag: False
      obtain st c1 where a: "apply_tag mem ?tag c = (st, c1)" by (meson surj_pair)
      consider (small) "?s < 8" | (over) "8 \<le> ?s" "\<not> offset + ?s \<le> whole" | (refused) "8 \<le> ?s" "offset + ?s \<le> whole" "st \<noteq> BOOT_STATUS_OK"
        | (pad) "8 \<le> ?s" "offset + ?s \<le> whole" "st = BOOT_STATUS_OK" "\<not> ?n \<le> whole"
        | (go) "8 \<le> ?s" "offset + ?s \<le> whole" "st = BOOT_STATUS_OK" "?n \<le> whole" by linarith
      then show ?thesis
      proof cases
        case small
        then have "fst (parse_tags mem information whole offset c) \<noteq> Inr True" unfolding step by (simp add: Let_def)
        moreover have "\<not> tag_chain mem information whole offset ts" for ts using cons' [OF tag] small by simp
        ultimately show ?thesis by blast
      next
        case over
        then have "fst (parse_tags mem information whole offset c) \<noteq> Inr True" unfolding step by (simp add: Let_def)
        moreover have "\<not> tag_chain mem information whole ?n us" for us
        proof
          assume "tag_chain mem information whole ?n us"
          then have "?n + 8 \<le> whole" by (rule tag_chain_below)
          moreover have "?s \<le> (?s + 7) div 8 * 8" by linarith
          ultimately show False using over(2) by simp
        qed
        then have "\<not> tag_chain mem information whole offset ts" for ts using cons' [OF tag] by blast
        ultimately show ?thesis by blast
      next
        case refused
        then have r1: "fst (parse_tags mem information whole offset c) \<noteq> Inr True" using tag a unfolding step by (simp add: Let_def)
        have "\<not> (tag_ok mem ?tag \<and> \<not> (tag_type mem ?tag \<in> {6, 8, 14, 15} \<and> seen c (tag_type mem ?tag)))"
          using apply_tag_ok(1) [OF less.prems, of mem ?tag] a refused(3) by simp
        then have "\<not> tags_ok mem information (offset # us) (seen c)" for us
          by (rule contrapos_nn) (rule tags_ok_ConsD)
        then have "\<forall>ts. tag_chain mem information whole offset ts \<longrightarrow> \<not> tags_ok mem information ts (seen c)"
          using cons' [OF tag] by metis
        with r1 show ?thesis by (intro disjI2 conjI)
      next
        case pad
        then have "fst (parse_tags mem information whole offset c) \<noteq> Inr True" using tag a unfolding step by (simp add: Let_def)
        moreover have "\<not> tag_chain mem information whole offset ts" for ts
          using cons' [OF tag] pad(4) tag_chain_below [of mem information whole ?n] by fastforce
        ultimately show ?thesis by blast
      next
        case go
        then have run: "parse_tags mem information whole offset c = parse_tags mem information whole ?n c1"
          using tag a unfolding step by (simp add: Let_def)
        have a': "apply_tag mem ?tag c = (BOOT_STATUS_OK, c1)" using a go(3) by simp
        have fine: "tag_ok mem ?tag" "\<not> (tag_type mem ?tag \<in> {6, 8, 14, 15} \<and> seen c (tag_type mem ?tag))"
          using apply_tag_ok(1) [OF less.prems, of mem ?tag] a' by auto
        note d = apply_tag_ok(2) [OF less.prems a']
        have seen1: "seen c1 = (\<lambda>j. seen c j \<or> (j = tag_type mem ?tag \<and> j \<in> {6, 8, 14, 15}))" using d by blast
        have same: "tags_ok mem information (offset # us) (seen c) \<longleftrightarrow> tags_ok mem information us (seen c1)" for us
          unfolding tags_ok_Cons seen1 Let_def using fine by blast
        have "8 \<le> (?s + 7) div 8 * 8" using go(1) by simp
        then have "whole - ?n < whole - offset" using lt by simp
        from less.hyps [OF this, of c1] d have "(\<exists>c' ts. parse_tags mem information whole ?n c1 = (Inr True, c') \<and>
            tag_chain mem information whole ?n ts \<and> tags_ok mem information ts (seen c1) \<and> tags_result mem information ts c1 c') \<or>
          (fst (parse_tags mem information whole ?n c1) \<noteq> Inr True \<and>
            (\<forall>ts. tag_chain mem information whole ?n ts \<longrightarrow> \<not> tags_ok mem information ts (seen c1)))" by blast
        then show ?thesis
        proof
          assume "\<exists>c' ts. parse_tags mem information whole ?n c1 = (Inr True, c') \<and>
            tag_chain mem information whole ?n ts \<and> tags_ok mem information ts (seen c1) \<and> tags_result mem information ts c1 c'"
          then obtain c' us where u: "parse_tags mem information whole ?n c1 = (Inr True, c')" "tag_chain mem information whole ?n us"
            "tags_ok mem information us (seen c1)" "tags_result mem information us c1 c'" by blast
          have "tags_result mem information (offset # us) c c'" by (rule tags_result_Cons [OF less.prems a' u(3,4)])
          moreover have "tag_chain mem information whole offset (offset # us)" using cons' [OF tag] go(1) u(2) by blast
          ultimately show ?thesis using run u(1,3) same by metis
        next
          assume no: "fst (parse_tags mem information whole ?n c1) \<noteq> Inr True \<and>
            (\<forall>ts. tag_chain mem information whole ?n ts \<longrightarrow> \<not> tags_ok mem information ts (seen c1))"
          have "\<not> tags_ok mem information ts (seen c)" if ch: "tag_chain mem information whole offset ts" for ts
          proof -
            obtain us where us: "ts = offset # us" "tag_chain mem information whole ?n us"
              using conjunct2 [OF iffD1 [OF cons' [OF tag] ch]] by (elim exE conjE)
            have "\<not> tags_ok mem information us (seen c1)" using no us(2) by simp
            then show ?thesis unfolding us(1) same .
          qed
          then show ?thesis using no run by simp
        qed
      qed
    qed
  qed
qed

lemma parse_tags_status:
  assumes "whole < 2 ^ 32"
  shows "fst (parse_tags mem information whole offset c) \<noteq> Inl BOOT_STATUS_OK"
proof (induction "whole - offset" arbitrary: offset c rule: less_induct)
  case less
  show ?case
  proof (cases "offset < whole")
    case True
    obtain out c1 where p: "parse_tag mem information whole offset c = (out, c1)" by (meson surj_pair)
    have "st \<noteq> BOOT_STATUS_OK" if "out = Tag_Return st" for st
      using p that by (auto simp: parse_tag_def Let_def split: if_splits prod.splits)
    moreover have "whole - offset' < whole - offset" if "out = Tag_Next offset'" for offset'
      by (rule parse_tag_progress [of mem information whole offset c]) (use p that assms in simp_all)
    ultimately show ?thesis
      using less.hyps p by (cases out) (simp_all add: parse_tags_step [OF True assms])
  qed (simp add: parse_tags.simps [of mem information whole offset c])
qed

section \<open>The whole\<close>

definition header_ok :: "u64 \<Rightarrow> u64 \<Rightarrow> memory \<Rightarrow> bool" where
  "header_ok magic information mem \<longleftrightarrow>
     (let whole = load mem information 4 in
      magic = 0x36D76289 \<and> information \<noteq> 0 \<and> 8 dvd information \<and> 16 \<le> whole \<and> whole \<le> 2 ^ 24 \<and> 8 dvd whole \<and>
      information + whole \<le> 2 ^ 32 \<and> load mem (information + 4) 4 = 0)"

definition started :: "u64 \<Rightarrow> memory \<Rightarrow> boot_context" where
  "started information mem = boot_information_reset\<lparr>bc_information_start := information,
     bc_information_end := information + load mem information 4\<rparr>"

lemma and_7: "(x::nat) AND 7 = x mod 8"
  using and_low_mask [of x 3] by simp

lemma parse_header:
  assumes "information < 2 ^ 64"
  shows "header_ok magic information mem \<Longrightarrow> boot_information_parse magic information False mem =
    (case parse_tags mem information (load mem information 4) 8 (started information mem) of
       (Inl status, c) \<Rightarrow> (status, Some c)
     | (Inr found_end, c) \<Rightarrow> if \<not> found_end then (BOOT_STATUS_MISSING_END_TAG, Some c)
         else if bc_memory_map c = None then (BOOT_STATUS_MISSING_MEMORY_MAP, Some c) else (BOOT_STATUS_OK, Some c))"
    and "\<not> header_ok magic information mem \<Longrightarrow> fst (boot_information_parse magic information False mem) \<noteq> BOOT_STATUS_OK"
proof -
  let ?w = "load mem information 4"
  have w: "?w < 2 ^ 32" using load_less [of mem information 4] by simp
  have e: "add64 information ?w = information + ?w" if "information \<le> 2 ^ 32" using that w by (simp add: add64_id)
  have c: "sub64 SAPOTE_EARLY_PHYSICAL_LIMIT HEADER_SIZE = 2 ^ 32 - 8"
    "sub64 18446744073709551615 ?w = 18446744073709551615 - ?w"
    using w by (simp_all add: SAPOTE_EARLY_PHYSICAL_LIMIT_def HEADER_SIZE_def sub64_id)
  note defs = boot_information_parse_def Let_def MULTIBOOT2_BOOT_MAGIC_def MULTIBOOT2_TAG_ALIGNMENT_def HEADER_SIZE_def
    TAG_SIZE_def MULTIBOOT2_MAX_INFORMATION_SIZE_def SAPOTE_EARLY_PHYSICAL_LIMIT_def and_7 c [unfolded HEADER_SIZE_def SAPOTE_EARLY_PHYSICAL_LIMIT_def]
  show "boot_information_parse magic information False mem =
    (case parse_tags mem information ?w 8 (started information mem) of
       (Inl status, c) \<Rightarrow> (status, Some c)
     | (Inr found_end, c) \<Rightarrow> if \<not> found_end then (BOOT_STATUS_MISSING_END_TAG, Some c)
         else if bc_memory_map c = None then (BOOT_STATUS_MISSING_MEMORY_MAP, Some c) else (BOOT_STATUS_OK, Some c))"
    if h: "header_ok magic information mem"
  proof -
    have b: "information \<le> 2 ^ 32 - 16" "information \<le> UINT64_MAX - ?w" using h w by (auto simp: header_ok_def Let_def)
    then have "add64 information ?w = information + ?w" by (intro e) simp
    then show ?thesis using h b by (simp add: defs header_ok_def started_def dvd_eq_mod_eq_0)
  qed
  show "fst (boot_information_parse magic information False mem) \<noteq> BOOT_STATUS_OK" if h: "\<not> header_ok magic information mem"
  proof (cases "information \<le> 2 ^ 32")
    case True
    then show ?thesis using h e [OF True] w unfolding header_ok_def
      by (auto simp: defs dvd_eq_mod_eq_0 split: if_splits)
  next
    case False
    then show ?thesis by (auto simp: defs split: if_splits)
  qed
qed

lemma started_fresh: "fresh_summary (started information mem)" "seen (started information mem) = (\<lambda>_. False)"
  by (auto simp: fresh_summary_def seen_def started_def boot_information_reset_def)

lemma parse_accepts_iff:
  assumes "information < 2 ^ 64"
  shows "(fst (boot_information_parse magic information False mem) = BOOT_STATUS_OK) \<longleftrightarrow>
    header_ok magic information mem \<and>
    (\<exists>ts. tag_chain mem information (load mem information 4) 8 ts \<and> (\<forall>t \<in> set ts. tag_ok mem (information + t)) \<and>
       kind_count mem information 6 ts = 1 \<and> (\<forall>k \<in> {8, 14, 15}. kind_count mem information k ts \<le> 1))"
    and "boot_information_parse magic information False mem = (BOOT_STATUS_OK, Some c) \<Longrightarrow>
    tag_chain mem information (load mem information 4) 8 ts \<Longrightarrow>
    \<exists>t \<in> set ts. let tag = information + t; rs = map_regions mem tag in tag_type mem tag = 6 \<and> map_ok mem tag \<and>
      bc_memory_map c = Some tag \<and> bc_memory_map_entry_count c = entry_count mem tag \<and>
      bc_highest_reported_address c = highest_end rs \<and> bc_reported_usable_bytes c = min UINT64_MAX (available_bytes rs) \<and>
      bc_information_start c = information \<and> bc_information_end c = information + load mem information 4"
proof -
  let ?w = "load mem information 4" and ?c = "started information mem"
  have w: "?w < 2 ^ 32" using load_less [of mem information 4] by simp
  have ok0: "tags_ok mem information ts (\<lambda>_. False) \<longleftrightarrow>
      (\<forall>t \<in> set ts. tag_ok mem (information + t)) \<and> (\<forall>k \<in> {6, 8, 14, 15}. kind_count mem information k ts \<le> 1)" for ts
    by (simp add: tags_ok_def)
  have none: "bc_memory_map c' = None \<longleftrightarrow> kind_count mem information 6 ts = 0"
    if "tags_result mem information ts ?c c'" for ts c'
    using that by (auto simp: tags_result_def kind_count_def started_def boot_information_reset_def Let_def split: list.splits)
  note alt = parse_tags_accepts [OF w started_fresh(1) [of information mem], of mem information 8, unfolded started_fresh(2)]
  show "(fst (boot_information_parse magic information False mem) = BOOT_STATUS_OK) \<longleftrightarrow>
    header_ok magic information mem \<and>
    (\<exists>ts. tag_chain mem information ?w 8 ts \<and> (\<forall>t \<in> set ts. tag_ok mem (information + t)) \<and>
       kind_count mem information 6 ts = 1 \<and> (\<forall>k \<in> {8, 14, 15}. kind_count mem information k ts \<le> 1))"
    (is "?lhs \<longleftrightarrow> ?rhs")
  proof (cases "header_ok magic information mem")
    case False
    then show ?thesis using parse_header(2) [OF assms False] by blast
  next
    case h: True
    note run = parse_header(1) [OF assms h]
    from alt show ?thesis
    proof
      assume "\<exists>c' ts. parse_tags mem information ?w 8 ?c = (Inr True, c') \<and> tag_chain mem information ?w 8 ts \<and>
        tags_ok mem information ts (\<lambda>_. False) \<and> tags_result mem information ts ?c c'"
      then obtain c' ts where p: "parse_tags mem information ?w 8 ?c = (Inr True, c')" "tag_chain mem information ?w 8 ts"
        "tags_ok mem information ts (\<lambda>_. False)" "tags_result mem information ts ?c c'" by blast
      have l: "?lhs \<longleftrightarrow> kind_count mem information 6 ts \<noteq> 0" unfolding run p(1) using none [OF p(4)] by simp
      have "us = ts" if "tag_chain mem information ?w 8 us" for us by (rule tag_chain_unique [OF that p(2)])
      moreover have "kind_count mem information 6 ts \<le> 1" using p(3) ok0 by simp
      ultimately show ?thesis using l h p(2,3) ok0 by (metis One_nat_def insertCI le_antisym less_one linorder_not_le not_gr_zero zero_neq_one)
    next
      assume no: "fst (parse_tags mem information ?w 8 ?c) \<noteq> Inr True \<and>
        (\<forall>ts. tag_chain mem information ?w 8 ts \<longrightarrow> \<not> tags_ok mem information ts (\<lambda>_. False))"
      have "\<not> ?lhs" unfolding run using no parse_tags_status [OF w, of mem information 8 ?c]
        by (cases "parse_tags mem information ?w 8 ?c") (auto split: sum.split prod.split)
      moreover have "\<not> ?rhs" using no ok0 by auto
      ultimately show ?thesis by blast
    qed
  qed
  show "\<exists>t \<in> set ts. let tag = information + t; rs = map_regions mem tag in tag_type mem tag = 6 \<and> map_ok mem tag \<and>
      bc_memory_map c = Some tag \<and> bc_memory_map_entry_count c = entry_count mem tag \<and>
      bc_highest_reported_address c = highest_end rs \<and> bc_reported_usable_bytes c = min UINT64_MAX (available_bytes rs) \<and>
      bc_information_start c = information \<and> bc_information_end c = information + ?w"
    if run: "boot_information_parse magic information False mem = (BOOT_STATUS_OK, Some c)" and ch: "tag_chain mem information ?w 8 ts"
  proof -
    have h: "header_ok magic information mem" using parse_header(2) [OF assms, of magic mem] run by auto
    from alt obtain c' us where p: "parse_tags mem information ?w 8 ?c = (Inr True, c')" "tag_chain mem information ?w 8 us"
      "tags_ok mem information us (\<lambda>_. False)" "tags_result mem information us ?c c'"
      using run parse_tags_status [OF w, of mem information 8 ?c] unfolding parse_header(1) [OF assms h]
      by (auto split: prod.splits sum.splits if_splits)
    have us: "us = ts" by (rule tag_chain_unique [OF p(2) ch])
    have c: "c' = c" "bc_memory_map c \<noteq> None" using run unfolding parse_header(1) [OF assms h] p(1) by (auto split: if_splits)
    have r: "tags_result mem information ts ?c c" using p(4) us c by simp
    then have "kind_count mem information 6 ts \<noteq> 0" using none [OF r] c by simp
    then obtain t rest where f: "filter (\<lambda>t. tag_type mem (information + t) = 6) ts = t # rest"
      by (cases "filter (\<lambda>t. tag_type mem (information + t) = 6) ts") (simp_all add: kind_count_def)
    have "t \<in> set (filter (\<lambda>t. tag_type mem (information + t) = 6) ts)" unfolding f by simp
    then have t: "t \<in> set ts" "tag_type mem (information + t) = 6" by simp_all
    have "tag_ok mem (information + t)" using p(3) us t(1) by (simp add: tags_ok_def)
    then have "map_ok mem (information + t)" using t(2) by (simp add: tag_ok_def)
    then show ?thesis using t r f by (intro bexI [of _ t]) (simp_all add: tags_result_def Let_def started_def)
  qed
qed

section \<open>What is read\<close>

definition same_on :: "memory \<Rightarrow> memory \<Rightarrow> u64 \<Rightarrow> u64 \<Rightarrow> bool" where
  "same_on mem mem' lo hi \<longleftrightarrow> (\<forall>a. lo \<le> a \<and> a < hi \<longrightarrow> mem' a = mem a)"

lemma same_onD: "same_on mem mem' lo hi \<Longrightarrow> lo \<le> a \<Longrightarrow> a < hi \<Longrightarrow> mem' a = mem a"
  by (simp add: same_on_def)

lemma same_on_sub: "same_on mem mem' lo hi \<Longrightarrow> lo \<le> lo' \<Longrightarrow> hi' \<le> hi \<Longrightarrow> same_on mem mem' lo' hi'"
  by (simp add: same_on_def)

lemma load_same: "same_on mem mem' lo hi \<Longrightarrow> lo \<le> a \<Longrightarrow> a + n \<le> hi \<Longrightarrow> load mem' a n = load mem a n"
proof (induction n arbitrary: a)
  case (Suc n)
  have "load mem' (a + 1) n = load mem (a + 1) n" by (rule Suc.IH) (use Suc.prems in simp_all)
  moreover have "mem' a = mem a" by (rule same_onD [OF Suc.prems(1)]) (use Suc.prems in simp_all)
  ultimately show ?case by simp
qed simp

lemma fold_until_cong:
  assumes "I s" "\<And>x s. x \<in> set xs \<Longrightarrow> I s \<Longrightarrow> f x s = g x s" "\<And>x s s'. x \<in> set xs \<Longrightarrow> I s \<Longrightarrow> g x s = Inr s' \<Longrightarrow> I s'"
  shows "fold_until f xs s = fold_until g xs s"
  using assms
proof (induction xs arbitrary: s)
  case (Cons x xs)
  have "f x s = g x s" using Cons.prems by simp
  moreover have "fold_until f xs s' = fold_until g xs s'" if r: "g x s = Inr s'" for s'
  proof (rule Cons.IH)
    show "I s'" by (rule Cons.prems(3) [OF _ Cons.prems(1) r]) simp
    show "f y t = g y t" if "y \<in> set xs" "I t" for y t by (rule Cons.prems(2)) (use that in simp_all)
    show "I t'" if "y \<in> set xs" "I t" "g y t = Inr t'" for y t t' by (rule Cons.prems(3) [OF _ that(2,3)]) (use that in simp)
  qed
  ultimately show ?case by (simp split: sum.split)
qed simp

lemma tag_fields_same:
  assumes "same_on mem mem' tag hi" "tag + 8 \<le> hi"
  shows "tag_type mem' tag = tag_type mem tag" "tag_size mem' tag = tag_size mem tag"
  using load_same [OF assms(1), of tag 4] load_same [OF assms(1), of "tag + 4" 4] assms(2)
  by (simp_all add: tag_type_def tag_size_def)

lemma validate_memory_map_same:
  assumes s: "same_on mem mem' t (t + tag_size mem t)" and z: "8 \<le> tag_size mem t"
  shows "validate_memory_map mem' t c = validate_memory_map mem t c"
proof (cases "16 \<le> tag_size mem t")
  case False
  then show ?thesis using tag_fields_same [OF s] z by (simp add: validate_memory_map_def MAP_TAG_SIZE_def)
next
  case True
  have f: "tag_size mem' t = tag_size mem t" "map_entry_size mem' t = map_entry_size mem t" "map_entry_version mem' t = map_entry_version mem t"
    using tag_fields_same(2) [OF s] z load_same [OF s, of "t + 8" 4] load_same [OF s, of "t + 12" 4] True
    by (simp_all add: map_entry_size_def map_entry_version_def)
  let ?e = "map_entry_size mem t" and ?n = "(tag_size mem t - 16) div map_entry_size mem t"
  let ?c = "c\<lparr>bc_memory_map := Some t, bc_memory_map_entry_count := ?n\<rparr>"
  have loop: "fold_until (validate_region mem') [0..<?n] ?c = fold_until (validate_region mem) [0..<?n] ?c" if e: "24 \<le> ?e"
  proof (rule fold_until_cong [where I = "\<lambda>c. bc_memory_map c = Some t \<and> bc_memory_map_entry_count c = ?n"])
    fix i and c1 :: boot_context assume i: "i \<in> set [0..<?n]" and I: "bc_memory_map c1 = Some t \<and> bc_memory_map_entry_count c1 = ?n"
    let ?entry = "t + 16 + i * ?e"
    have "(i + 1) * ?e \<le> ?n * ?e" using i by (intro mult_le_mono1) simp
    also have "\<dots> \<le> tag_size mem t - 16" by simp
    finally have b: "?entry + 24 \<le> t + tag_size mem t" using e True by simp
    have "load mem' ?entry 8 = load mem ?entry 8" "load mem' (?entry + 8) 8 = load mem (?entry + 8) 8"
      "load mem' (?entry + 16) 4 = load mem (?entry + 16) 4"
      by (rule load_same [OF s]; use b in simp)+
    then have "boot_region_at mem' c1 i = boot_region_at mem c1 i"
      using I f by (simp add: boot_region_at_def MAP_TAG_SIZE_def Let_def)
    then show "validate_region mem' i c1 = validate_region mem i c1" by (simp add: validate_region_def)
  next
    fix i and c1 c2 :: boot_context assume "bc_memory_map c1 = Some t \<and> bc_memory_map_entry_count c1 = ?n" "validate_region mem i c1 = Inr c2"
    then show "bc_memory_map c2 = Some t \<and> bc_memory_map_entry_count c2 = ?n"
      by (auto simp: validate_region_def Let_def split: option.splits if_splits)
  qed simp
  show ?thesis
    unfolding validate_memory_map_def f Let_def MAP_TAG_SIZE_def MAP_ENTRY_SIZE_def using loop by simp
qed

lemma read_u32_same: "same_on mem mem' lo hi \<Longrightarrow> lo \<le> a \<Longrightarrow> a + 4 \<le> hi \<Longrightarrow> read_u32 mem' a = read_u32 mem a"
  using same_onD [of mem mem' lo hi a] same_onD [of mem mem' lo hi "a + 1"] same_onD [of mem mem' lo hi "a + 2"]
    same_onD [of mem mem' lo hi "a + 3"] by (simp add: read_u32_def)

lemma decode_framebuffer_same:
  assumes s: "same_on mem mem' t (t + tag_size mem t)" and z: "8 \<le> tag_size mem t"
  shows "decode_framebuffer mem' t fb = decode_framebuffer mem t fb"
proof (cases "32 \<le> tag_size mem t")
  case False
  then show ?thesis using tag_fields_same [OF s] z by (simp add: decode_framebuffer_def MULTIBOOT2_FRAMEBUFFER_COMMON_SIZE_def)
next
  case True
  have f: "tag_size mem' t = tag_size mem t" using tag_fields_same [OF s] z by simp
  have r: "read_u32 mem' (t + i) = read_u32 mem (t + i)" if "i \<le> 28" for i
    by (rule read_u32_same [OF s]) (use True that in simp_all)
  have r64: "read_u64 mem' (t + 8) = read_u64 mem (t + 8)"
    using r [of 8] r [of 12] by (simp add: read_u64_def add.assoc)
  have b: "mem' (t + i) = mem (t + i)" if "i < tag_size mem t" for i by (rule same_onD [OF s]) (use that in simp_all)
  have b2: "mem' (t + 28) = mem (t + 28)" "mem' (t + 29) = mem (t + 29)" using b True by simp_all
  show ?thesis
  proof (cases "38 \<le> tag_size mem t")
    case True
    then have "mem' (t + 32) = mem (t + 32)" "mem' (t + 33) = mem (t + 33)" "mem' (t + 34) = mem (t + 34)"
      "mem' (t + 35) = mem (t + 35)" "mem' (t + 36) = mem (t + 36)" "mem' (t + 37) = mem (t + 37)" using b by simp_all
    note b3 = this
    have r3: "read_u32 mem' (t + 16) = read_u32 mem (t + 16)" "read_u32 mem' (t + 20) = read_u32 mem (t + 20)"
      "read_u32 mem' (t + 24) = read_u32 mem (t + 24)" by (rule r; simp)+
    show ?thesis unfolding decode_framebuffer_def Let_def f r3 r64 b2 b3 by (rule refl)
  next
    case False
    then show ?thesis using r [of 16] r [of 20] r [of 24] r64 b2 f
      by (simp add: decode_framebuffer_def Let_def MULTIBOOT2_FRAMEBUFFER_RGB_SIZE_def)
  qed
qed

lemma apply_tag_same:
  assumes s: "same_on mem mem' t (t + tag_size mem t)" and z: "8 \<le> tag_size mem t"
  shows "apply_tag mem' t c = apply_tag mem t c"
proof -
  have f: "tag_type mem' t = tag_type mem t" "tag_size mem' t = tag_size mem t" using tag_fields_same [OF s] z by simp_all
  have "find_from (\<lambda>i. mem' (t + i) = 0) 8 (tag_size mem t) = find_from (\<lambda>i. mem (t + i) = 0) 8 (tag_size mem t)"
  proof (rule find_from_cong)
    fix j assume "8 \<le> j" "j < tag_size mem t"
    then have "mem' (t + j) = mem (t + j)" by (intro same_onD [OF s]) simp_all
    then show "(mem' (t + j) = 0) = (mem (t + j) = 0)" by simp
  qed
  then have str: "string_length_within mem' t (tag_size mem t) = string_length_within mem t (tag_size mem t)"
    by (simp add: string_length_within_def TAG_SIZE_def)
  show ?thesis
    unfolding apply_tag_def Let_def f str validate_memory_map_same [OF s z] decode_framebuffer_same [OF s z] by (rule refl)
qed

lemma parse_tags_same:
  assumes s: "same_on mem mem' information (information + whole)" and w: "whole < 2 ^ 32"
  shows "parse_tags mem' information whole offset c = parse_tags mem information whole offset c"
proof (induction "whole - offset" arbitrary: offset c rule: less_induct)
  case less
  show ?case
  proof (cases "offset < whole")
    case False
    then show ?thesis by (simp add: parse_tags.simps [of _ information whole offset c])
  next
    case lt: True
    let ?t = "information + offset"
    have w64: "whole < 2 ^ 64" using w by simp
    have "parse_tag mem' information whole offset c = parse_tag mem information whole offset c"
    proof (cases "offset + 8 \<le> whole")
      case False
      then show ?thesis by (simp add: parse_tag_def range_fits_eq [OF w64] TAG_SIZE_def)
    next
      case o: True
      have s1: "same_on mem mem' ?t (information + whole)" by (rule same_on_sub [OF s]) simp_all
      have f: "tag_type mem' ?t = tag_type mem ?t" "tag_size mem' ?t = tag_size mem ?t"
        by (rule tag_fields_same [OF s1]; use o in simp)+
      have "apply_tag mem' ?t c = apply_tag mem ?t c" if "8 \<le> tag_size mem ?t" "offset + tag_size mem ?t \<le> whole"
        by (rule apply_tag_same [OF same_on_sub [OF s1] that(1)]) (use that in simp_all)
      then show ?thesis unfolding parse_tag_eq [OF w o] f Let_def by (cases "8 \<le> tag_size mem ?t") simp_all
    qed
    moreover have "whole - offset' < whole - offset" if "parse_tag mem information whole offset c = (Tag_Next offset', c')" for offset' c'
      by (rule parse_tag_progress [OF that]) (use w in simp)
    ultimately show ?thesis
      unfolding parse_tags_step [OF lt w] using less.hyps by (auto split: prod.split tag_outcome.split)
  qed
qed

lemma parse_same:
  assumes s: "same_on mem mem' information (information + max 8 (load mem information 4))"
  shows "boot_information_parse magic information context_null mem' = boot_information_parse magic information context_null mem"
proof -
  have w: "load mem information 4 < 2 ^ 32" using load_less [of mem information 4] by simp
  have l: "load mem' information 4 = load mem information 4" "load mem' (information + 4) 4 = load mem (information + 4) 4"
    by (rule load_same [OF s]; simp)+
  have tags: "parse_tags mem' information (load mem information 4) 8 c = parse_tags mem information (load mem information 4) 8 c" for c
    by (rule parse_tags_same [OF same_on_sub [OF s] w]) simp_all
  show ?thesis unfolding boot_information_parse_def Let_def l HEADER_SIZE_def tags by (rule refl)
qed

section \<open>What the frame allocator gets\<close>

lemma decoded_regions:
  assumes "bc_memory_map c = Some tag" "bc_memory_map_entry_count c = entry_count mem tag"
  shows "memory_map (decoded mem c) = Some (map_regions mem tag)"
  using assms by (auto simp: decoded_def map_regions_def boot_region_at_def region_of_def MAP_TAG_SIZE_def Let_def)

lemma parsed_layout:
  assumes i: "information < 2 ^ 64" and run: "boot_information_parse magic information False mem = (BOOT_STATUS_OK, Some c)"
    and k: "kernel_start \<le> kernel_end" "kernel_end < 2 ^ 64" "kernel_start < SAPOTE_EARLY_PHYSICAL_LIMIT"
  shows "\<exists>entries. memory_map (decoded mem c) = Some entries \<and> boot_layout_ok kernel_start kernel_end (decoded mem c) entries"
proof -
  have ok: "fst (boot_information_parse magic information False mem) = BOOT_STATUS_OK" using run by simp
  then obtain ts where h: "header_ok magic information mem" and ch: "tag_chain mem information (load mem information 4) 8 ts"
    using parse_accepts_iff(1) [OF i, of magic mem] by blast
  from parse_accepts_iff(2) [OF i run ch] obtain tag where t: "map_ok mem tag" "bc_memory_map c = Some tag"
    "bc_memory_map_entry_count c = entry_count mem tag" "bc_information_start c = information"
    "bc_information_end c = information + load mem information 4" by (auto simp: Let_def)
  have "boot_layout_ok kernel_start kernel_end (decoded mem c) (map_regions mem tag)"
    using t k h decoded_regions [OF t(2,3)] unfolding boot_layout_ok_def map_ok_def header_ok_def
    by (simp add: decoded_def Let_def SAPOTE_EARLY_PHYSICAL_LIMIT_def)
  then show ?thesis using decoded_regions [OF t(2,3)] by blast
qed

lemma parsed_memory_usable:
  assumes "information < 2 ^ 64" "boot_information_parse magic information False mem = (BOOT_STATUS_OK, Some c)"
    and "kernel_start \<le> kernel_end" "kernel_end < 2 ^ 64" "kernel_start < SAPOTE_EARLY_PHYSICAL_LIMIT" and shape: "frame_shape s"
  shows "\<exists>entries. memory_map (decoded mem c) = Some entries \<and>
    (initial_eligible kernel_start kernel_end (decoded mem c) entries \<noteq> {} \<longrightarrow>
      (\<exists>s'. frame_allocator_initialize kernel_start kernel_end (Some (decoded mem c)) s = (FRAME_STATUS_OK, s') \<and>
         free_set s' = initial_eligible kernel_start kernel_end (decoded mem c) entries \<and> frame_ready s'))"
proof -
  from parsed_layout [OF assms(1-5)] obtain entries where
    e: "memory_map (decoded mem c) = Some entries" "boot_layout_ok kernel_start kernel_end (decoded mem c) entries" by blast
  have "\<exists>s'. frame_allocator_initialize kernel_start kernel_end (Some (decoded mem c)) s = (FRAME_STATUS_OK, s') \<and>
         free_set s' = initial_eligible kernel_start kernel_end (decoded mem c) entries \<and> frame_ready s'"
    if ne: "initial_eligible kernel_start kernel_end (decoded mem c) entries \<noteq> {}"
  proof -
    obtain s' where run: "frame_allocator_initialize kernel_start kernel_end (Some (decoded mem c)) s = (FRAME_STATUS_OK, s')"
      using frame_allocator_initialize_total [OF shape e(2) ne] by blast
    have lay: "memory_map (decoded mem c) = Some entries" "\<forall>r \<in> set entries. region_wf r" "kernel_start < 2 ^ 64"
      "information_start (decoded mem c) < 2 ^ 64"
      using e(2) region_fits_wf by (auto simp: boot_layout_ok_def)
    note sets = frame_allocator_initialize_sets [OF shape lay run]
    show ?thesis using run sets free_allocated_partition(1) [of s'] by (auto simp: frame_ready_def)
  qed
  then show ?thesis using e(1) by blast
qed

section \<open>A concrete boot information\<close>

text \<open>At 0x10000: the header, a memory map of one available region of 1 MiB at 1 MiB, the end tag.\<close>

definition sample_bytes :: "8 word list" where
  "sample_bytes = [56, 0, 0, 0, 0, 0, 0, 0,
     6, 0, 0, 0, 40, 0, 0, 0, 24, 0, 0, 0, 0, 0, 0, 0,
     0, 0, 0x10, 0, 0, 0, 0, 0, 0, 0, 0x10, 0, 0, 0, 0, 0, 1, 0, 0, 0, 0, 0, 0, 0,
     0, 0, 0, 0, 8, 0, 0, 0]"

definition sample_memory :: memory where
  "sample_memory a = (if 0x10000 \<le> a \<and> a < 0x10000 + 56 then sample_bytes ! (a - 0x10000) else 0)"

lemma load_unroll: "0 < n \<Longrightarrow> load mem a n = unat (mem a) + 256 * load mem (a + 1) (n - 1)"
  by (cases n) simp_all

lemma sample_loads:
  "load sample_memory 0x10000 4 = 56" "load sample_memory 0x10004 4 = 0"
  "load sample_memory 0x10008 4 = 6" "load sample_memory 0x1000C 4 = 40"
  "load sample_memory 0x10010 4 = 24" "load sample_memory 0x10014 4 = 0"
  "load sample_memory 0x10018 8 = 0x100000" "load sample_memory 0x10020 8 = 0x100000" "load sample_memory 0x10028 4 = 1"
  "load sample_memory 0x10030 4 = 0" "load sample_memory 0x10034 4 = 8"
  by (simp_all add: sample_memory_def sample_bytes_def load_unroll)

lemma sample_header: "header_ok 0x36D76289 0x10000 sample_memory"
  by (simp add: header_ok_def sample_loads)

lemma sample_regions: "map_regions sample_memory 0x10008 = [\<lparr>base_address = 0x100000, region_length = 0x100000, region_type = 1\<rparr>]"
  by (simp add: map_regions_def entry_count_def region_of_def tag_size_def map_entry_size_def sample_loads)

lemma sample_chain: "tag_chain sample_memory 0x10000 56 8 [8]"
  using chain_tag [where mem = sample_memory and information = "0x10000" and offset = 8 and whole = 56 and ts = "[]"]
    chain_end [where mem = sample_memory and information = "0x10000" and offset = 48 and whole = 56]
  by (simp add: tag_type_def tag_size_def sample_loads)

lemma sample_tag_ok: "tag_ok sample_memory 0x10008" "kind_count sample_memory 0x10000 k [8] = (if k = 6 then 1 else 0)"
  by (simp_all add: tag_ok_def map_ok_def sample_regions region_fits_def tag_size_def tag_type_def map_entry_size_def
      map_entry_version_def sample_loads kind_count_def)

lemma sample_information_accepted:
  "header_ok 0x36D76289 0x10000 sample_memory \<and>
    (\<exists>ts. tag_chain sample_memory 0x10000 (load sample_memory 0x10000 4) 8 ts \<and> (\<forall>t \<in> set ts. tag_ok sample_memory (0x10000 + t)) \<and>
       kind_count sample_memory 0x10000 6 ts = 1 \<and> (\<forall>k \<in> {8, 14, 15}. kind_count sample_memory 0x10000 k ts \<le> 1))"
  using sample_header sample_chain sample_tag_ok by (intro conjI exI [of _ "[8]"]) (simp_all add: sample_loads)

lemma sample_parsed: "\<exists>c. boot_information_parse 0x36D76289 0x10000 False sample_memory = (BOOT_STATUS_OK, Some c)"
proof -
  let ?r = "boot_information_parse 0x36D76289 0x10000 False sample_memory"
  have ok: "fst ?r = BOOT_STATUS_OK" using sample_information_accepted parse_accepts_iff(1) [of "0x10000" "0x36D76289" sample_memory] by simp
  moreover have "snd ?r \<noteq> None"
    unfolding boot_information_parse_def Let_def by (auto split: prod.split sum.split)
  ultimately show ?thesis by (metis option.exhaust prod.collapse)
qed

lemma sample_decoded:
  assumes "boot_information_parse 0x36D76289 0x10000 False sample_memory = (BOOT_STATUS_OK, Some c)"
  shows "decoded sample_memory c = \<lparr>information_start = 0x10000, information_end = 0x10038,
    memory_map = Some [\<lparr>base_address = 0x100000, region_length = 0x100000, region_type = 1\<rparr>]\<rparr>"
proof -
  have ch: "tag_chain sample_memory 0x10000 (load sample_memory 0x10000 4) 8 [8]" using sample_chain by (simp add: sample_loads)
  have i: "(0x10000::nat) < 2 ^ 64" by simp
  from parse_accepts_iff(2) [OF i assms ch]
  have c: "bc_memory_map c = Some 0x10008" "bc_memory_map_entry_count c = entry_count sample_memory 0x10008"
    "bc_information_start c = 0x10000" "bc_information_end c = 0x10038"
    by (simp_all add: Let_def sample_loads)
  show ?thesis using decoded_regions [OF c(1,2)] c(3,4) by (simp add: decoded_def sample_regions)
qed

lemma sample_usable:
  "272 \<in> initial_eligible 0x80000 0x81000 \<lparr>information_start = 0x10000, information_end = 0x10038,
    memory_map = Some [\<lparr>base_address = 0x100000, region_length = 0x100000, region_type = 1\<rparr>]\<rparr>
    [\<lparr>base_address = 0x100000, region_length = 0x100000, region_type = 1\<rparr>]"
  by (simp add: initial_eligible_def region_contains_def
      region_withdraws_def region_available_def frame_inside_def frame_touches_def frame_consts
      MULTIBOOT2_MEMORY_AVAILABLE_def FRAME_COUNT_val sub64_id)

section \<open>Properties\<close>

text \<open>C36. The parser accepts a boot information exactly when its header is good (magic, alignment, sizes,
  inside the early map), its tags form a chain that ends at its declared size with an end tag of eight
  bytes, each tag is well formed, there is one memory map, and no framebuffer or ACPI tag is repeated.\<close>

theorem boot_information_accepts_exactly:
  assumes "information < 2 ^ 64"
  shows "fst (boot_information_parse magic information False mem) = BOOT_STATUS_OK \<longleftrightarrow>
    header_ok magic information mem \<and>
    (\<exists>ts. tag_chain mem information (load mem information 4) 8 ts \<and> (\<forall>t \<in> set ts. tag_ok mem (information + t)) \<and>
       kind_count mem information 6 ts = 1 \<and> (\<forall>k \<in> {8, 14, 15}. kind_count mem information k ts \<le> 1))"
  by (rule parse_accepts_iff(1) [OF assms])

theorem boot_information_accepts_exactly_witness:
  "fst (boot_information_parse 0x36D76289 0x10000 False sample_memory) = BOOT_STATUS_OK"
  by (rule iffD2 [OF boot_information_accepts_exactly sample_information_accepted]) simp

text \<open>An accepted context describes the memory map in memory: the tag, its number of entries, the
  highest end of a region, the bytes available (at most the largest 64-bit number), and where the
  information itself lies.\<close>

theorem boot_information_summary:
  assumes "information < 2 ^ 64"
    and "boot_information_parse magic information False mem = (BOOT_STATUS_OK, Some c)"
    and "tag_chain mem information (load mem information 4) 8 ts"
  shows "\<exists>t \<in> set ts. let tag = information + t; rs = map_regions mem tag in tag_type mem tag = 6 \<and> map_ok mem tag \<and>
    bc_memory_map c = Some tag \<and> bc_memory_map_entry_count c = entry_count mem tag \<and>
    bc_highest_reported_address c = highest_end rs \<and> bc_reported_usable_bytes c = min UINT64_MAX (available_bytes rs) \<and>
    bc_information_start c = information \<and> bc_information_end c = information + load mem information 4"
  by (rule parse_accepts_iff(2) [OF assms])

theorem boot_information_summary_witness:
  "\<exists>c. boot_information_parse 0x36D76289 0x10000 False sample_memory = (BOOT_STATUS_OK, Some c) \<and>
    bc_memory_map_entry_count c = 1 \<and> bc_highest_reported_address c = 0x200000 \<and> bc_reported_usable_bytes c = 0x100000"
proof -
  obtain c where c: "boot_information_parse 0x36D76289 0x10000 False sample_memory = (BOOT_STATUS_OK, Some c)"
    using sample_parsed by blast
  have i: "(0x10000::nat) < 2 ^ 64" by simp
  have ch: "tag_chain sample_memory 0x10000 (load sample_memory 0x10000 4) 8 [8]" using sample_chain by (simp add: sample_loads)
  have "entry_count sample_memory 0x10008 = 1"
    by (simp add: entry_count_def tag_size_def map_entry_size_def sample_loads)
  then have "bc_memory_map_entry_count c = 1 \<and> bc_highest_reported_address c = 0x200000 \<and> bc_reported_usable_bytes c = 0x100000"
    using boot_information_summary [OF i c ch]
    by (simp add: Let_def sample_regions highest_end_def available_bytes_def MULTIBOOT2_MEMORY_AVAILABLE_def)
  then show ?thesis using c by blast
qed

text \<open>C38. The parser reads only the bytes the information declares as its own (its eight-byte header when it
  declares fewer): on memories that agree there it gives the same status and context.\<close>

theorem boot_parse_reads_its_information:
  assumes "\<And>a. information \<le> a \<Longrightarrow> a < information + max 8 (load mem information 4) \<Longrightarrow> mem' a = mem a"
  shows "boot_information_parse magic information context_null mem' = boot_information_parse magic information context_null mem"
  by (cases context_null, simp add: boot_information_parse_def) (use parse_same assms in \<open>auto simp: same_on_def\<close>)

theorem boot_parse_reads_its_information_witness:
  "boot_information_parse 0x36D76289 0x10000 False (sample_memory(0x10038 := 6, 0xFFFF := 1)) =
   boot_information_parse 0x36D76289 0x10000 False sample_memory"
  by (rule boot_parse_reads_its_information) (simp add: sample_loads)

text \<open>C37. The frame allocator can start on every accepted boot information: with a kernel image below the
  early limit, and a frame left over, it succeeds and its free frames are exactly those inside an available
  region of the memory map that no other region, the first megabyte, the kernel or the information touches.\<close>

theorem parsed_memory_map_usable:
  assumes "information < 2 ^ 64" "boot_information_parse magic information False mem = (BOOT_STATUS_OK, Some c)"
    and "kernel_start \<le> kernel_end" "kernel_end < 2 ^ 64" "kernel_start < SAPOTE_EARLY_PHYSICAL_LIMIT" "frame_shape s"
  shows "\<exists>entries. memory_map (decoded mem c) = Some entries \<and>
    (initial_eligible kernel_start kernel_end (decoded mem c) entries \<noteq> {} \<longrightarrow>
      (\<exists>s'. frame_allocator_initialize kernel_start kernel_end (Some (decoded mem c)) s = (FRAME_STATUS_OK, s') \<and>
         free_set s' = initial_eligible kernel_start kernel_end (decoded mem c) entries \<and> frame_ready s'))"
  by (rule parsed_memory_usable [OF assms])

theorem parsed_memory_map_usable_witness:
  "\<exists>c s'. boot_information_parse 0x36D76289 0x10000 False sample_memory = (BOOT_STATUS_OK, Some c) \<and>
    frame_allocator_initialize 0x80000 0x81000 (Some (decoded sample_memory c)) sample_allocator = (FRAME_STATUS_OK, s') \<and>
    272 \<in> free_set s'"
proof -
  obtain c where c: "boot_information_parse 0x36D76289 0x10000 False sample_memory = (BOOT_STATUS_OK, Some c)"
    using sample_parsed by blast
  have i: "(0x10000::nat) < 2 ^ 64" and k: "(0x80000::nat) \<le> 0x81000" "(0x81000::nat) < 2 ^ 64"
    "0x80000 < SAPOTE_EARLY_PHYSICAL_LIMIT" by (simp_all add: SAPOTE_EARLY_PHYSICAL_LIMIT_def)
  have shape: "frame_shape sample_allocator" using sample_ready(1) by (simp add: frame_ready_def frame_inv_def)
  have "\<exists>s'. frame_allocator_initialize 0x80000 0x81000 (Some (decoded sample_memory c)) sample_allocator = (FRAME_STATUS_OK, s') \<and>
    272 \<in> free_set s'"
    using parsed_memory_map_usable [OF i c k shape] sample_usable unfolding sample_decoded [OF c] by auto
  then show ?thesis using c by blast
qed

end
