(* ===== verification/Boot_Plan.thy ===== *)
theory Boot_Plan
  imports Boot_Ledger
begin

text \<open>
  \<open>src/kernel/boot_plan.c\<close>: the plan the kernel boots with.  The table of its 57 stages, what
  each requires and provides, its construction in a ledger, the proof stages' check of their own
  prerequisites, and the self-test of a machine without a pointer.  What a stage does to the
  machine is a callback, given as a function; console output is left out.
\<close>

section \<open>Identifiers\<close>

text \<open>The stages, by their place in the enum.\<close>

definition BOOT_STAGE_EARLY_SERIAL :: nat where "BOOT_STAGE_EARLY_SERIAL = 1"
definition BOOT_STAGE_INTERRUPT_FOUNDATION :: nat where "BOOT_STAGE_INTERRUPT_FOUNDATION = 2"
definition BOOT_STAGE_PURE_SELF_TESTS :: nat where "BOOT_STAGE_PURE_SELF_TESTS = 3"
definition BOOT_STAGE_BOOT_INFORMATION :: nat where "BOOT_STAGE_BOOT_INFORMATION = 4"
definition BOOT_STAGE_FIRMWARE_DISCOVERY :: nat where "BOOT_STAGE_FIRMWARE_DISCOVERY = 5"
definition BOOT_STAGE_DEVICE_WINDOWS :: nat where "BOOT_STAGE_DEVICE_WINDOWS = 6"
definition BOOT_STAGE_INTERRUPT_CONTROLLERS :: nat where "BOOT_STAGE_INTERRUPT_CONTROLLERS = 7"
definition BOOT_STAGE_FRAME_ALLOCATOR :: nat where "BOOT_STAGE_FRAME_ALLOCATOR = 8"
definition BOOT_STAGE_PAGING_INSTALL :: nat where "BOOT_STAGE_PAGING_INSTALL = 9"
definition BOOT_STAGE_PAGING_PROOFS :: nat where "BOOT_STAGE_PAGING_PROOFS = 10"
definition BOOT_STAGE_FRAMEBUFFER_WC :: nat where "BOOT_STAGE_FRAMEBUFFER_WC = 11"
definition BOOT_STAGE_MEMORY_RUNTIME :: nat where "BOOT_STAGE_MEMORY_RUNTIME = 12"
definition BOOT_STAGE_FRAMEBUFFER_OUTPUT :: nat where "BOOT_STAGE_FRAMEBUFFER_OUTPUT = 13"
definition BOOT_STAGE_KEYBOARD :: nat where "BOOT_STAGE_KEYBOARD = 14"
definition BOOT_STAGE_SHELL :: nat where "BOOT_STAGE_SHELL = 15"
definition BOOT_STAGE_EARLY_SCENARIO :: nat where "BOOT_STAGE_EARLY_SCENARIO = 16"
definition BOOT_STAGE_INTERRUPT_PROOFS :: nat where "BOOT_STAGE_INTERRUPT_PROOFS = 17"
definition BOOT_STAGE_TIMER_ROUTING :: nat where "BOOT_STAGE_TIMER_ROUTING = 18"
definition BOOT_STAGE_TIMER_CALIBRATION :: nat where "BOOT_STAGE_TIMER_CALIBRATION = 19"
definition BOOT_STAGE_PCI :: nat where "BOOT_STAGE_PCI = 20"
definition BOOT_STAGE_THREADING :: nat where "BOOT_STAGE_THREADING = 21"
definition BOOT_STAGE_SCHEDULER :: nat where "BOOT_STAGE_SCHEDULER = 22"
definition BOOT_STAGE_CLOSING_PROOFS :: nat where "BOOT_STAGE_CLOSING_PROOFS = 23"
definition BOOT_STAGE_UI_FONT :: nat where "BOOT_STAGE_UI_FONT = 24"
definition BOOT_STAGE_POINTER_DECISION :: nat where "BOOT_STAGE_POINTER_DECISION = 25"
definition BOOT_STAGE_POINTER_OUTCOME :: nat where "BOOT_STAGE_POINTER_OUTCOME = 26"
definition BOOT_STAGE_UI_LAYOUT :: nat where "BOOT_STAGE_UI_LAYOUT = 27"
definition BOOT_STAGE_DESKTOP_CONSTRUCTION :: nat where "BOOT_STAGE_DESKTOP_CONSTRUCTION = 28"
definition BOOT_STAGE_DESKTOP_ACTIVATION :: nat where "BOOT_STAGE_DESKTOP_ACTIVATION = 29"
definition BOOT_STAGE_REDWOOD_INSTALLED_PROOF :: nat where "BOOT_STAGE_REDWOOD_INSTALLED_PROOF = 30"
definition BOOT_STAGE_PCI_RESOURCE_FOUNDATION :: nat where "BOOT_STAGE_PCI_RESOURCE_FOUNDATION = 31"
definition BOOT_STAGE_DYNAMIC_VECTOR_FOUNDATION :: nat where "BOOT_STAGE_DYNAMIC_VECTOR_FOUNDATION = 32"
definition BOOT_STAGE_DMA_FOUNDATION :: nat where "BOOT_STAGE_DMA_FOUNDATION = 33"
definition BOOT_STAGE_NETWORK_FOUNDATION :: nat where "BOOT_STAGE_NETWORK_FOUNDATION = 34"
definition BOOT_STAGE_DEVICE_SUBSTRATE_PROOF :: nat where "BOOT_STAGE_DEVICE_SUBSTRATE_PROOF = 35"
definition BOOT_STAGE_XHCI_FOUNDATION :: nat where "BOOT_STAGE_XHCI_FOUNDATION = 36"
definition BOOT_STAGE_XHCI_DESCRIPTOR_PROOF :: nat where "BOOT_STAGE_XHCI_DESCRIPTOR_PROOF = 37"
definition BOOT_STAGE_NVME_FOUNDATION :: nat where "BOOT_STAGE_NVME_FOUNDATION = 38"
definition BOOT_STAGE_NVME_READ_PROOF :: nat where "BOOT_STAGE_NVME_READ_PROOF = 39"
definition BOOT_STAGE_FAT16_FOUNDATION :: nat where "BOOT_STAGE_FAT16_FOUNDATION = 40"
definition BOOT_STAGE_FILESYSTEM_FILE_PROOF :: nat where "BOOT_STAGE_FILESYSTEM_FILE_PROOF = 41"
definition BOOT_STAGE_PROCESS_ADDRESS_SPACE_FOUNDATION :: nat where "BOOT_STAGE_PROCESS_ADDRESS_SPACE_FOUNDATION = 42"
definition BOOT_STAGE_ELF64_LOADER_FOUNDATION :: nat where "BOOT_STAGE_ELF64_LOADER_FOUNDATION = 43"
definition BOOT_STAGE_PROCESS_INSTALLED_PROOF :: nat where "BOOT_STAGE_PROCESS_INSTALLED_PROOF = 44"
definition BOOT_STAGE_LINUX_SYSCALL_CPU_FOUNDATION :: nat where "BOOT_STAGE_LINUX_SYSCALL_CPU_FOUNDATION = 45"
definition BOOT_STAGE_LINUX_IMAGE_STACK_FOUNDATION :: nat where "BOOT_STAGE_LINUX_IMAGE_STACK_FOUNDATION = 46"
definition BOOT_STAGE_LINUX_INSTALLED_PROOF :: nat where "BOOT_STAGE_LINUX_INSTALLED_PROOF = 47"
definition BOOT_STAGE_LINUX_UNAME_IMAGE_UTS_FOUNDATION :: nat where "BOOT_STAGE_LINUX_UNAME_IMAGE_UTS_FOUNDATION = 48"
definition BOOT_STAGE_LINUX_UNAME_INSTALLED_PROOF :: nat where "BOOT_STAGE_LINUX_UNAME_INSTALLED_PROOF = 49"
definition BOOT_STAGE_MULTIPROCESS_FOUNDATION :: nat where "BOOT_STAGE_MULTIPROCESS_FOUNDATION = 50"
definition BOOT_STAGE_MULTIPROCESS_PROOF :: nat where "BOOT_STAGE_MULTIPROCESS_PROOF = 51"
definition BOOT_STAGE_DRIVER_MATRIX_FOUNDATION :: nat where "BOOT_STAGE_DRIVER_MATRIX_FOUNDATION = 52"
definition BOOT_STAGE_DRIVER_MATRIX_PROBE :: nat where "BOOT_STAGE_DRIVER_MATRIX_PROBE = 53"
definition BOOT_STAGE_AUDIO_FOUNDATION :: nat where "BOOT_STAGE_AUDIO_FOUNDATION = 54"
definition BOOT_STAGE_AUDIO_CODEC_PROOF :: nat where "BOOT_STAGE_AUDIO_CODEC_PROOF = 55"
definition BOOT_STAGE_NVIDIA_FOUNDATION :: nat where "BOOT_STAGE_NVIDIA_FOUNDATION = 56"
definition BOOT_STAGE_NVIDIA_PROBE :: nat where "BOOT_STAGE_NVIDIA_PROBE = 57"

lemmas stage_ids =
  BOOT_STAGE_EARLY_SERIAL_def BOOT_STAGE_INTERRUPT_FOUNDATION_def
  BOOT_STAGE_PURE_SELF_TESTS_def BOOT_STAGE_BOOT_INFORMATION_def
  BOOT_STAGE_FIRMWARE_DISCOVERY_def BOOT_STAGE_DEVICE_WINDOWS_def
  BOOT_STAGE_INTERRUPT_CONTROLLERS_def BOOT_STAGE_FRAME_ALLOCATOR_def
  BOOT_STAGE_PAGING_INSTALL_def BOOT_STAGE_PAGING_PROOFS_def
  BOOT_STAGE_FRAMEBUFFER_WC_def BOOT_STAGE_MEMORY_RUNTIME_def
  BOOT_STAGE_FRAMEBUFFER_OUTPUT_def BOOT_STAGE_KEYBOARD_def
  BOOT_STAGE_SHELL_def BOOT_STAGE_EARLY_SCENARIO_def
  BOOT_STAGE_INTERRUPT_PROOFS_def BOOT_STAGE_TIMER_ROUTING_def
  BOOT_STAGE_TIMER_CALIBRATION_def BOOT_STAGE_PCI_def
  BOOT_STAGE_THREADING_def BOOT_STAGE_SCHEDULER_def
  BOOT_STAGE_CLOSING_PROOFS_def BOOT_STAGE_UI_FONT_def
  BOOT_STAGE_POINTER_DECISION_def BOOT_STAGE_POINTER_OUTCOME_def
  BOOT_STAGE_UI_LAYOUT_def BOOT_STAGE_DESKTOP_CONSTRUCTION_def
  BOOT_STAGE_DESKTOP_ACTIVATION_def BOOT_STAGE_REDWOOD_INSTALLED_PROOF_def
  BOOT_STAGE_PCI_RESOURCE_FOUNDATION_def BOOT_STAGE_DYNAMIC_VECTOR_FOUNDATION_def
  BOOT_STAGE_DMA_FOUNDATION_def BOOT_STAGE_NETWORK_FOUNDATION_def
  BOOT_STAGE_DEVICE_SUBSTRATE_PROOF_def BOOT_STAGE_XHCI_FOUNDATION_def
  BOOT_STAGE_XHCI_DESCRIPTOR_PROOF_def BOOT_STAGE_NVME_FOUNDATION_def
  BOOT_STAGE_NVME_READ_PROOF_def BOOT_STAGE_FAT16_FOUNDATION_def
  BOOT_STAGE_FILESYSTEM_FILE_PROOF_def BOOT_STAGE_PROCESS_ADDRESS_SPACE_FOUNDATION_def
  BOOT_STAGE_ELF64_LOADER_FOUNDATION_def BOOT_STAGE_PROCESS_INSTALLED_PROOF_def
  BOOT_STAGE_LINUX_SYSCALL_CPU_FOUNDATION_def BOOT_STAGE_LINUX_IMAGE_STACK_FOUNDATION_def
  BOOT_STAGE_LINUX_INSTALLED_PROOF_def BOOT_STAGE_LINUX_UNAME_IMAGE_UTS_FOUNDATION_def
  BOOT_STAGE_LINUX_UNAME_INSTALLED_PROOF_def BOOT_STAGE_MULTIPROCESS_FOUNDATION_def
  BOOT_STAGE_MULTIPROCESS_PROOF_def BOOT_STAGE_DRIVER_MATRIX_FOUNDATION_def
  BOOT_STAGE_DRIVER_MATRIX_PROBE_def BOOT_STAGE_AUDIO_FOUNDATION_def
  BOOT_STAGE_AUDIO_CODEC_PROOF_def BOOT_STAGE_NVIDIA_FOUNDATION_def
  BOOT_STAGE_NVIDIA_PROBE_def

text \<open>The capabilities.\<close>

definition BOOT_CAPABILITY_EARLY_SERIAL_AVAILABLE :: nat where "BOOT_CAPABILITY_EARLY_SERIAL_AVAILABLE = 1"
definition BOOT_CAPABILITY_BOOT_SELF_TESTS_COMPLETE :: nat where "BOOT_CAPABILITY_BOOT_SELF_TESTS_COMPLETE = 2"
definition BOOT_CAPABILITY_BOOT_INFORMATION_VALIDATED :: nat where "BOOT_CAPABILITY_BOOT_INFORMATION_VALIDATED = 3"
definition BOOT_CAPABILITY_PHYSICAL_FRAME_ALLOCATOR_AVAILABLE :: nat where "BOOT_CAPABILITY_PHYSICAL_FRAME_ALLOCATOR_AVAILABLE = 4"
definition BOOT_CAPABILITY_ACPI_ROOT_VALIDATED :: nat where "BOOT_CAPABILITY_ACPI_ROOT_VALIDATED = 5"
definition BOOT_CAPABILITY_INTERRUPT_TOPOLOGY_DISCOVERED :: nat where "BOOT_CAPABILITY_INTERRUPT_TOPOLOGY_DISCOVERED = 6"
definition BOOT_CAPABILITY_CLOCKS_DISCOVERED :: nat where "BOOT_CAPABILITY_CLOCKS_DISCOVERED = 7"
definition BOOT_CAPABILITY_DEVICE_WINDOW_REGISTRY_VALIDATED :: nat where "BOOT_CAPABILITY_DEVICE_WINDOW_REGISTRY_VALIDATED = 8"
definition BOOT_CAPABILITY_PAGE_TABLES_INSTALLED :: nat where "BOOT_CAPABILITY_PAGE_TABLES_INSTALLED = 9"
definition BOOT_CAPABILITY_WRITE_XOR_EXECUTE_PROVED :: nat where "BOOT_CAPABILITY_WRITE_XOR_EXECUTE_PROVED = 10"
definition BOOT_CAPABILITY_INSTALLED_DEVICE_WINDOWS_PROVED :: nat where "BOOT_CAPABILITY_INSTALLED_DEVICE_WINDOWS_PROVED = 11"
definition BOOT_CAPABILITY_HEAP_AVAILABLE :: nat where "BOOT_CAPABILITY_HEAP_AVAILABLE = 12"
definition BOOT_CAPABILITY_IDT_INSTALLED :: nat where "BOOT_CAPABILITY_IDT_INSTALLED = 13"
definition BOOT_CAPABILITY_INTERRUPT_CONTROLLERS_CONFIGURED :: nat where "BOOT_CAPABILITY_INTERRUPT_CONTROLLERS_CONFIGURED = 14"
definition BOOT_CAPABILITY_INTERRUPTS_ENABLED :: nat where "BOOT_CAPABILITY_INTERRUPTS_ENABLED = 15"
definition BOOT_CAPABILITY_INTERRUPT_ROUTING_PROVED :: nat where "BOOT_CAPABILITY_INTERRUPT_ROUTING_PROVED = 16"
definition BOOT_CAPABILITY_TIMER_CALIBRATION_COMPLETE :: nat where "BOOT_CAPABILITY_TIMER_CALIBRATION_COMPLETE = 17"
definition BOOT_CAPABILITY_PCI_ACCESS_AVAILABLE :: nat where "BOOT_CAPABILITY_PCI_ACCESS_AVAILABLE = 18"
definition BOOT_CAPABILITY_FRAMEBUFFER_AVAILABILITY_DECIDED :: nat where "BOOT_CAPABILITY_FRAMEBUFFER_AVAILABILITY_DECIDED = 19"
definition BOOT_CAPABILITY_FRAMEBUFFER_WC_INDEPENDENTLY_PROVED :: nat where "BOOT_CAPABILITY_FRAMEBUFFER_WC_INDEPENDENTLY_PROVED = 20"
definition BOOT_CAPABILITY_FRAMEBUFFER_SERIAL_FALLBACK :: nat where "BOOT_CAPABILITY_FRAMEBUFFER_SERIAL_FALLBACK = 21"
definition BOOT_CAPABILITY_SURFACE_AVAILABLE :: nat where "BOOT_CAPABILITY_SURFACE_AVAILABLE = 22"
definition BOOT_CAPABILITY_THREADING_AVAILABLE :: nat where "BOOT_CAPABILITY_THREADING_AVAILABLE = 23"
definition BOOT_CAPABILITY_SCHEDULER_AVAILABLE :: nat where "BOOT_CAPABILITY_SCHEDULER_AVAILABLE = 24"
definition BOOT_CAPABILITY_SHELL_AVAILABLE :: nat where "BOOT_CAPABILITY_SHELL_AVAILABLE = 25"
definition BOOT_CAPABILITY_BOOT_PROOFS_COMPLETE :: nat where "BOOT_CAPABILITY_BOOT_PROOFS_COMPLETE = 26"
definition BOOT_CAPABILITY_FRAMEBUFFER_OUTPUT_INSTALLED :: nat where "BOOT_CAPABILITY_FRAMEBUFFER_OUTPUT_INSTALLED = 27"
definition BOOT_CAPABILITY_KEYBOARD_AVAILABLE :: nat where "BOOT_CAPABILITY_KEYBOARD_AVAILABLE = 28"
definition BOOT_CAPABILITY_UI_FONT_VERIFIED :: nat where "BOOT_CAPABILITY_UI_FONT_VERIFIED = 29"
definition BOOT_CAPABILITY_POINTER_AVAILABILITY_DECIDED :: nat where "BOOT_CAPABILITY_POINTER_AVAILABILITY_DECIDED = 30"
definition BOOT_CAPABILITY_POINTER_INPUT_AVAILABLE :: nat where "BOOT_CAPABILITY_POINTER_INPUT_AVAILABLE = 31"
definition BOOT_CAPABILITY_POINTER_INPUT_ABSENT :: nat where "BOOT_CAPABILITY_POINTER_INPUT_ABSENT = 32"
definition BOOT_CAPABILITY_UI_LAYOUT_VALIDATED :: nat where "BOOT_CAPABILITY_UI_LAYOUT_VALIDATED = 33"
definition BOOT_CAPABILITY_DESKTOP_SHELL_AVAILABLE :: nat where "BOOT_CAPABILITY_DESKTOP_SHELL_AVAILABLE = 34"
definition BOOT_CAPABILITY_DESKTOP_SHELL_ACTIVATED :: nat where "BOOT_CAPABILITY_DESKTOP_SHELL_ACTIVATED = 35"
definition BOOT_CAPABILITY_REDWOOD_INSTALLED_PROOF_COMPLETE :: nat where "BOOT_CAPABILITY_REDWOOD_INSTALLED_PROOF_COMPLETE = 36"
definition BOOT_CAPABILITY_PCI_RESOURCE_OWNERSHIP_AVAILABLE :: nat where "BOOT_CAPABILITY_PCI_RESOURCE_OWNERSHIP_AVAILABLE = 37"
definition BOOT_CAPABILITY_DYNAMIC_VECTOR_FOUNDATION_AVAILABLE :: nat where "BOOT_CAPABILITY_DYNAMIC_VECTOR_FOUNDATION_AVAILABLE = 38"
definition BOOT_CAPABILITY_DMA_FOUNDATION_AVAILABLE :: nat where "BOOT_CAPABILITY_DMA_FOUNDATION_AVAILABLE = 39"
definition BOOT_CAPABILITY_NETWORK_FOUNDATION_AVAILABLE :: nat where "BOOT_CAPABILITY_NETWORK_FOUNDATION_AVAILABLE = 40"
definition BOOT_CAPABILITY_NETWORK_AVAILABILITY_DECIDED :: nat where "BOOT_CAPABILITY_NETWORK_AVAILABILITY_DECIDED = 41"
definition BOOT_CAPABILITY_DEVICE_SUBSTRATE_INSTALLED_PROOF_COMPLETE :: nat where "BOOT_CAPABILITY_DEVICE_SUBSTRATE_INSTALLED_PROOF_COMPLETE = 42"
definition BOOT_CAPABILITY_DEVICE_SUBSTRATE_FIXTURE_ABSENT :: nat where "BOOT_CAPABILITY_DEVICE_SUBSTRATE_FIXTURE_ABSENT = 43"
definition BOOT_CAPABILITY_XHCI_FOUNDATION_AVAILABLE :: nat where "BOOT_CAPABILITY_XHCI_FOUNDATION_AVAILABLE = 44"
definition BOOT_CAPABILITY_XHCI_DESCRIPTOR_PROOF_COMPLETE :: nat where "BOOT_CAPABILITY_XHCI_DESCRIPTOR_PROOF_COMPLETE = 45"
definition BOOT_CAPABILITY_XHCI_FIXTURE_ABSENT :: nat where "BOOT_CAPABILITY_XHCI_FIXTURE_ABSENT = 46"
definition BOOT_CAPABILITY_NVME_FOUNDATION_AVAILABLE :: nat where "BOOT_CAPABILITY_NVME_FOUNDATION_AVAILABLE = 47"
definition BOOT_CAPABILITY_NVME_READ_PROOF_COMPLETE :: nat where "BOOT_CAPABILITY_NVME_READ_PROOF_COMPLETE = 48"
definition BOOT_CAPABILITY_NVME_FIXTURE_ABSENT :: nat where "BOOT_CAPABILITY_NVME_FIXTURE_ABSENT = 49"
definition BOOT_CAPABILITY_FAT16_FOUNDATION_AVAILABLE :: nat where "BOOT_CAPABILITY_FAT16_FOUNDATION_AVAILABLE = 50"
definition BOOT_CAPABILITY_FILESYSTEM_FILE_PROOF_COMPLETE :: nat where "BOOT_CAPABILITY_FILESYSTEM_FILE_PROOF_COMPLETE = 51"
definition BOOT_CAPABILITY_FILESYSTEM_FIXTURE_ABSENT :: nat where "BOOT_CAPABILITY_FILESYSTEM_FIXTURE_ABSENT = 52"
definition BOOT_CAPABILITY_PRIVATE_ONE_FILE_READ_AVAILABLE :: nat where "BOOT_CAPABILITY_PRIVATE_ONE_FILE_READ_AVAILABLE = 53"
definition BOOT_CAPABILITY_PROCESS_ADDRESS_SPACE_FOUNDATION_AVAILABLE :: nat where "BOOT_CAPABILITY_PROCESS_ADDRESS_SPACE_FOUNDATION_AVAILABLE = 54"
definition BOOT_CAPABILITY_ELF64_LOADER_FOUNDATION_AVAILABLE :: nat where "BOOT_CAPABILITY_ELF64_LOADER_FOUNDATION_AVAILABLE = 55"
definition BOOT_CAPABILITY_PROCESS_INSTALLED_PROOF_COMPLETE :: nat where "BOOT_CAPABILITY_PROCESS_INSTALLED_PROOF_COMPLETE = 56"
definition BOOT_CAPABILITY_PROCESS_FIXTURE_ABSENT :: nat where "BOOT_CAPABILITY_PROCESS_FIXTURE_ABSENT = 57"
definition BOOT_CAPABILITY_PROCESS_OUTCOME_DECIDED :: nat where "BOOT_CAPABILITY_PROCESS_OUTCOME_DECIDED = 58"
definition BOOT_CAPABILITY_LINUX_SYSCALL_CPU_FOUNDATION_AVAILABLE :: nat where "BOOT_CAPABILITY_LINUX_SYSCALL_CPU_FOUNDATION_AVAILABLE = 59"
definition BOOT_CAPABILITY_LINUX_IMAGE_STACK_FOUNDATION_AVAILABLE :: nat where "BOOT_CAPABILITY_LINUX_IMAGE_STACK_FOUNDATION_AVAILABLE = 60"
definition BOOT_CAPABILITY_LINUX_INSTALLED_PROOF_COMPLETE :: nat where "BOOT_CAPABILITY_LINUX_INSTALLED_PROOF_COMPLETE = 61"
definition BOOT_CAPABILITY_LINUX_FIXTURE_ABSENT :: nat where "BOOT_CAPABILITY_LINUX_FIXTURE_ABSENT = 62"
definition BOOT_CAPABILITY_LINUX_OUTCOME_DECIDED :: nat where "BOOT_CAPABILITY_LINUX_OUTCOME_DECIDED = 63"
definition BOOT_CAPABILITY_LINUX_UNAME_IMAGE_UTS_FOUNDATION_AVAILABLE :: nat where "BOOT_CAPABILITY_LINUX_UNAME_IMAGE_UTS_FOUNDATION_AVAILABLE = 64"
definition BOOT_CAPABILITY_LINUX_CAT_IMAGE_STDIN_FOUNDATION_AVAILABLE :: nat where "BOOT_CAPABILITY_LINUX_CAT_IMAGE_STDIN_FOUNDATION_AVAILABLE = 65"
definition BOOT_CAPABILITY_LINUX_UNAME_INSTALLED_PROOF_COMPLETE :: nat where "BOOT_CAPABILITY_LINUX_UNAME_INSTALLED_PROOF_COMPLETE = 66"
definition BOOT_CAPABILITY_LINUX_UNAME_FIXTURE_ABSENT :: nat where "BOOT_CAPABILITY_LINUX_UNAME_FIXTURE_ABSENT = 67"
definition BOOT_CAPABILITY_LINUX_UNAME_OUTCOME_DECIDED :: nat where "BOOT_CAPABILITY_LINUX_UNAME_OUTCOME_DECIDED = 68"
definition BOOT_CAPABILITY_MULTIPROCESS_FOUNDATION_AVAILABLE :: nat where "BOOT_CAPABILITY_MULTIPROCESS_FOUNDATION_AVAILABLE = 69"
definition BOOT_CAPABILITY_MULTIPROCESS_PROOF_COMPLETE :: nat where "BOOT_CAPABILITY_MULTIPROCESS_PROOF_COMPLETE = 70"
definition BOOT_CAPABILITY_DRIVER_MATRIX_FOUNDATION_AVAILABLE :: nat where "BOOT_CAPABILITY_DRIVER_MATRIX_FOUNDATION_AVAILABLE = 71"
definition BOOT_CAPABILITY_DRIVER_MATRIX_PROBE_COMPLETE :: nat where "BOOT_CAPABILITY_DRIVER_MATRIX_PROBE_COMPLETE = 72"
definition BOOT_CAPABILITY_DRIVER_MATRIX_DEVICES_ABSENT :: nat where "BOOT_CAPABILITY_DRIVER_MATRIX_DEVICES_ABSENT = 73"
definition BOOT_CAPABILITY_AUDIO_FOUNDATION_AVAILABLE :: nat where "BOOT_CAPABILITY_AUDIO_FOUNDATION_AVAILABLE = 74"
definition BOOT_CAPABILITY_AUDIO_CODEC_PROOF_COMPLETE :: nat where "BOOT_CAPABILITY_AUDIO_CODEC_PROOF_COMPLETE = 75"
definition BOOT_CAPABILITY_AUDIO_CONTROLLER_ABSENT :: nat where "BOOT_CAPABILITY_AUDIO_CONTROLLER_ABSENT = 76"
definition BOOT_CAPABILITY_NVIDIA_FOUNDATION_AVAILABLE :: nat where "BOOT_CAPABILITY_NVIDIA_FOUNDATION_AVAILABLE = 77"
definition BOOT_CAPABILITY_NVIDIA_PROBE_COMPLETE :: nat where "BOOT_CAPABILITY_NVIDIA_PROBE_COMPLETE = 78"
definition BOOT_CAPABILITY_NVIDIA_FUNCTIONS_ABSENT :: nat where "BOOT_CAPABILITY_NVIDIA_FUNCTIONS_ABSENT = 79"

lemmas capability_ids =
  BOOT_CAPABILITY_EARLY_SERIAL_AVAILABLE_def BOOT_CAPABILITY_BOOT_SELF_TESTS_COMPLETE_def
  BOOT_CAPABILITY_BOOT_INFORMATION_VALIDATED_def BOOT_CAPABILITY_PHYSICAL_FRAME_ALLOCATOR_AVAILABLE_def
  BOOT_CAPABILITY_ACPI_ROOT_VALIDATED_def BOOT_CAPABILITY_INTERRUPT_TOPOLOGY_DISCOVERED_def
  BOOT_CAPABILITY_CLOCKS_DISCOVERED_def BOOT_CAPABILITY_DEVICE_WINDOW_REGISTRY_VALIDATED_def
  BOOT_CAPABILITY_PAGE_TABLES_INSTALLED_def BOOT_CAPABILITY_WRITE_XOR_EXECUTE_PROVED_def
  BOOT_CAPABILITY_INSTALLED_DEVICE_WINDOWS_PROVED_def BOOT_CAPABILITY_HEAP_AVAILABLE_def
  BOOT_CAPABILITY_IDT_INSTALLED_def BOOT_CAPABILITY_INTERRUPT_CONTROLLERS_CONFIGURED_def
  BOOT_CAPABILITY_INTERRUPTS_ENABLED_def BOOT_CAPABILITY_INTERRUPT_ROUTING_PROVED_def
  BOOT_CAPABILITY_TIMER_CALIBRATION_COMPLETE_def BOOT_CAPABILITY_PCI_ACCESS_AVAILABLE_def
  BOOT_CAPABILITY_FRAMEBUFFER_AVAILABILITY_DECIDED_def BOOT_CAPABILITY_FRAMEBUFFER_WC_INDEPENDENTLY_PROVED_def
  BOOT_CAPABILITY_FRAMEBUFFER_SERIAL_FALLBACK_def BOOT_CAPABILITY_SURFACE_AVAILABLE_def
  BOOT_CAPABILITY_THREADING_AVAILABLE_def BOOT_CAPABILITY_SCHEDULER_AVAILABLE_def
  BOOT_CAPABILITY_SHELL_AVAILABLE_def BOOT_CAPABILITY_BOOT_PROOFS_COMPLETE_def
  BOOT_CAPABILITY_FRAMEBUFFER_OUTPUT_INSTALLED_def BOOT_CAPABILITY_KEYBOARD_AVAILABLE_def
  BOOT_CAPABILITY_UI_FONT_VERIFIED_def BOOT_CAPABILITY_POINTER_AVAILABILITY_DECIDED_def
  BOOT_CAPABILITY_POINTER_INPUT_AVAILABLE_def BOOT_CAPABILITY_POINTER_INPUT_ABSENT_def
  BOOT_CAPABILITY_UI_LAYOUT_VALIDATED_def BOOT_CAPABILITY_DESKTOP_SHELL_AVAILABLE_def
  BOOT_CAPABILITY_DESKTOP_SHELL_ACTIVATED_def BOOT_CAPABILITY_REDWOOD_INSTALLED_PROOF_COMPLETE_def
  BOOT_CAPABILITY_PCI_RESOURCE_OWNERSHIP_AVAILABLE_def BOOT_CAPABILITY_DYNAMIC_VECTOR_FOUNDATION_AVAILABLE_def
  BOOT_CAPABILITY_DMA_FOUNDATION_AVAILABLE_def BOOT_CAPABILITY_NETWORK_FOUNDATION_AVAILABLE_def
  BOOT_CAPABILITY_NETWORK_AVAILABILITY_DECIDED_def BOOT_CAPABILITY_DEVICE_SUBSTRATE_INSTALLED_PROOF_COMPLETE_def
  BOOT_CAPABILITY_DEVICE_SUBSTRATE_FIXTURE_ABSENT_def BOOT_CAPABILITY_XHCI_FOUNDATION_AVAILABLE_def
  BOOT_CAPABILITY_XHCI_DESCRIPTOR_PROOF_COMPLETE_def BOOT_CAPABILITY_XHCI_FIXTURE_ABSENT_def
  BOOT_CAPABILITY_NVME_FOUNDATION_AVAILABLE_def BOOT_CAPABILITY_NVME_READ_PROOF_COMPLETE_def
  BOOT_CAPABILITY_NVME_FIXTURE_ABSENT_def BOOT_CAPABILITY_FAT16_FOUNDATION_AVAILABLE_def
  BOOT_CAPABILITY_FILESYSTEM_FILE_PROOF_COMPLETE_def BOOT_CAPABILITY_FILESYSTEM_FIXTURE_ABSENT_def
  BOOT_CAPABILITY_PRIVATE_ONE_FILE_READ_AVAILABLE_def BOOT_CAPABILITY_PROCESS_ADDRESS_SPACE_FOUNDATION_AVAILABLE_def
  BOOT_CAPABILITY_ELF64_LOADER_FOUNDATION_AVAILABLE_def BOOT_CAPABILITY_PROCESS_INSTALLED_PROOF_COMPLETE_def
  BOOT_CAPABILITY_PROCESS_FIXTURE_ABSENT_def BOOT_CAPABILITY_PROCESS_OUTCOME_DECIDED_def
  BOOT_CAPABILITY_LINUX_SYSCALL_CPU_FOUNDATION_AVAILABLE_def BOOT_CAPABILITY_LINUX_IMAGE_STACK_FOUNDATION_AVAILABLE_def
  BOOT_CAPABILITY_LINUX_INSTALLED_PROOF_COMPLETE_def BOOT_CAPABILITY_LINUX_FIXTURE_ABSENT_def
  BOOT_CAPABILITY_LINUX_OUTCOME_DECIDED_def BOOT_CAPABILITY_LINUX_UNAME_IMAGE_UTS_FOUNDATION_AVAILABLE_def
  BOOT_CAPABILITY_LINUX_CAT_IMAGE_STDIN_FOUNDATION_AVAILABLE_def BOOT_CAPABILITY_LINUX_UNAME_INSTALLED_PROOF_COMPLETE_def
  BOOT_CAPABILITY_LINUX_UNAME_FIXTURE_ABSENT_def BOOT_CAPABILITY_LINUX_UNAME_OUTCOME_DECIDED_def
  BOOT_CAPABILITY_MULTIPROCESS_FOUNDATION_AVAILABLE_def BOOT_CAPABILITY_MULTIPROCESS_PROOF_COMPLETE_def
  BOOT_CAPABILITY_DRIVER_MATRIX_FOUNDATION_AVAILABLE_def BOOT_CAPABILITY_DRIVER_MATRIX_PROBE_COMPLETE_def
  BOOT_CAPABILITY_DRIVER_MATRIX_DEVICES_ABSENT_def BOOT_CAPABILITY_AUDIO_FOUNDATION_AVAILABLE_def
  BOOT_CAPABILITY_AUDIO_CODEC_PROOF_COMPLETE_def BOOT_CAPABILITY_AUDIO_CONTROLLER_ABSENT_def
  BOOT_CAPABILITY_NVIDIA_FOUNDATION_AVAILABLE_def BOOT_CAPABILITY_NVIDIA_PROBE_COMPLETE_def
  BOOT_CAPABILITY_NVIDIA_FUNCTIONS_ABSENT_def

text \<open>Phases and irreversible classes.\<close>

definition BOOT_PHASE_FOUNDATION :: nat where "BOOT_PHASE_FOUNDATION = 0"
definition BOOT_PHASE_DISCOVERY :: nat where "BOOT_PHASE_DISCOVERY = 1"
definition BOOT_PHASE_CONTROLLERS :: nat where "BOOT_PHASE_CONTROLLERS = 2"
definition BOOT_PHASE_MEMORY_TRANSITION :: nat where "BOOT_PHASE_MEMORY_TRANSITION = 3"
definition BOOT_PHASE_RUNTIME :: nat where "BOOT_PHASE_RUNTIME = 4"
definition BOOT_PHASE_TIMERS :: nat where "BOOT_PHASE_TIMERS = 5"
definition BOOT_PHASE_SERVICES :: nat where "BOOT_PHASE_SERVICES = 6"
definition BOOT_PHASE_PROOFS :: nat where "BOOT_PHASE_PROOFS = 7"
definition BOOT_IRREVERSIBLE_NONE :: nat where "BOOT_IRREVERSIBLE_NONE = 0"
definition BOOT_IRREVERSIBLE_PAT_CR3 :: nat where "BOOT_IRREVERSIBLE_PAT_CR3 = 1"
definition BOOT_IRREVERSIBLE_INTERRUPT_ENABLE :: nat where "BOOT_IRREVERSIBLE_INTERRUPT_ENABLE = 2"
definition BOOT_IRREVERSIBLE_FRAMEBUFFER_OUTPUT :: nat where "BOOT_IRREVERSIBLE_FRAMEBUFFER_OUTPUT = 3"
definition BOOT_IRREVERSIBLE_APIC_TIMER :: nat where "BOOT_IRREVERSIBLE_APIC_TIMER = 4"
definition BOOT_IRREVERSIBLE_SCHEDULER :: nat where "BOOT_IRREVERSIBLE_SCHEDULER = 5"

lemmas phase_ids =
  BOOT_PHASE_FOUNDATION_def BOOT_PHASE_DISCOVERY_def
  BOOT_PHASE_CONTROLLERS_def BOOT_PHASE_MEMORY_TRANSITION_def
  BOOT_PHASE_RUNTIME_def BOOT_PHASE_TIMERS_def
  BOOT_PHASE_SERVICES_def BOOT_PHASE_PROOFS_def
  BOOT_IRREVERSIBLE_NONE_def BOOT_IRREVERSIBLE_PAT_CR3_def
  BOOT_IRREVERSIBLE_INTERRUPT_ENABLE_def BOOT_IRREVERSIBLE_FRAMEBUFFER_OUTPUT_def
  BOOT_IRREVERSIBLE_APIC_TIMER_def BOOT_IRREVERSIBLE_SCHEDULER_def

section \<open>The installed stages\<close>

definition process_proof_requirements :: "nat list" where
  "process_proof_requirements =
    [BOOT_CAPABILITY_PAGE_TABLES_INSTALLED, BOOT_CAPABILITY_WRITE_XOR_EXECUTE_PROVED,
     BOOT_CAPABILITY_PHYSICAL_FRAME_ALLOCATOR_AVAILABLE, BOOT_CAPABILITY_HEAP_AVAILABLE,
     BOOT_CAPABILITY_IDT_INSTALLED, BOOT_CAPABILITY_INTERRUPT_CONTROLLERS_CONFIGURED,
     BOOT_CAPABILITY_INTERRUPTS_ENABLED, BOOT_CAPABILITY_TIMER_CALIBRATION_COMPLETE,
     BOOT_CAPABILITY_THREADING_AVAILABLE, BOOT_CAPABILITY_SCHEDULER_AVAILABLE,
     BOOT_CAPABILITY_PCI_RESOURCE_OWNERSHIP_AVAILABLE,
     BOOT_CAPABILITY_DYNAMIC_VECTOR_FOUNDATION_AVAILABLE, BOOT_CAPABILITY_DMA_FOUNDATION_AVAILABLE,
     BOOT_CAPABILITY_NVME_FOUNDATION_AVAILABLE, BOOT_CAPABILITY_FAT16_FOUNDATION_AVAILABLE,
     BOOT_CAPABILITY_PRIVATE_ONE_FILE_READ_AVAILABLE,
     BOOT_CAPABILITY_PROCESS_ADDRESS_SPACE_FOUNDATION_AVAILABLE,
     BOOT_CAPABILITY_ELF64_LOADER_FOUNDATION_AVAILABLE]"

definition linux_proof_requirements :: "nat list" where
  "linux_proof_requirements =
    [BOOT_CAPABILITY_PAGE_TABLES_INSTALLED, BOOT_CAPABILITY_WRITE_XOR_EXECUTE_PROVED,
     BOOT_CAPABILITY_PHYSICAL_FRAME_ALLOCATOR_AVAILABLE, BOOT_CAPABILITY_HEAP_AVAILABLE,
     BOOT_CAPABILITY_IDT_INSTALLED, BOOT_CAPABILITY_INTERRUPT_CONTROLLERS_CONFIGURED,
     BOOT_CAPABILITY_INTERRUPTS_ENABLED, BOOT_CAPABILITY_TIMER_CALIBRATION_COMPLETE,
     BOOT_CAPABILITY_PCI_ACCESS_AVAILABLE, BOOT_CAPABILITY_THREADING_AVAILABLE,
     BOOT_CAPABILITY_SCHEDULER_AVAILABLE, BOOT_CAPABILITY_PCI_RESOURCE_OWNERSHIP_AVAILABLE,
     BOOT_CAPABILITY_DYNAMIC_VECTOR_FOUNDATION_AVAILABLE, BOOT_CAPABILITY_DMA_FOUNDATION_AVAILABLE,
     BOOT_CAPABILITY_NVME_FOUNDATION_AVAILABLE, BOOT_CAPABILITY_FAT16_FOUNDATION_AVAILABLE,
     BOOT_CAPABILITY_PRIVATE_ONE_FILE_READ_AVAILABLE,
     BOOT_CAPABILITY_PROCESS_ADDRESS_SPACE_FOUNDATION_AVAILABLE,
     BOOT_CAPABILITY_ELF64_LOADER_FOUNDATION_AVAILABLE,
     BOOT_CAPABILITY_LINUX_SYSCALL_CPU_FOUNDATION_AVAILABLE,
     BOOT_CAPABILITY_LINUX_IMAGE_STACK_FOUNDATION_AVAILABLE]"

definition linux_uname_proof_requirements :: "nat list" where
  "linux_uname_proof_requirements =
    [BOOT_CAPABILITY_PAGE_TABLES_INSTALLED, BOOT_CAPABILITY_WRITE_XOR_EXECUTE_PROVED,
     BOOT_CAPABILITY_PHYSICAL_FRAME_ALLOCATOR_AVAILABLE, BOOT_CAPABILITY_HEAP_AVAILABLE,
     BOOT_CAPABILITY_IDT_INSTALLED, BOOT_CAPABILITY_INTERRUPT_CONTROLLERS_CONFIGURED,
     BOOT_CAPABILITY_INTERRUPTS_ENABLED, BOOT_CAPABILITY_TIMER_CALIBRATION_COMPLETE,
     BOOT_CAPABILITY_PCI_ACCESS_AVAILABLE, BOOT_CAPABILITY_THREADING_AVAILABLE,
     BOOT_CAPABILITY_SCHEDULER_AVAILABLE, BOOT_CAPABILITY_PCI_RESOURCE_OWNERSHIP_AVAILABLE,
     BOOT_CAPABILITY_DYNAMIC_VECTOR_FOUNDATION_AVAILABLE, BOOT_CAPABILITY_DMA_FOUNDATION_AVAILABLE,
     BOOT_CAPABILITY_NVME_FOUNDATION_AVAILABLE, BOOT_CAPABILITY_FAT16_FOUNDATION_AVAILABLE,
     BOOT_CAPABILITY_PRIVATE_ONE_FILE_READ_AVAILABLE,
     BOOT_CAPABILITY_PROCESS_ADDRESS_SPACE_FOUNDATION_AVAILABLE,
     BOOT_CAPABILITY_ELF64_LOADER_FOUNDATION_AVAILABLE,
     BOOT_CAPABILITY_LINUX_SYSCALL_CPU_FOUNDATION_AVAILABLE,
     BOOT_CAPABILITY_LINUX_IMAGE_STACK_FOUNDATION_AVAILABLE, BOOT_CAPABILITY_LINUX_OUTCOME_DECIDED,
     BOOT_CAPABILITY_LINUX_UNAME_IMAGE_UTS_FOUNDATION_AVAILABLE]"

definition multiprocess_proof_requirements :: "nat list" where
  "multiprocess_proof_requirements =
    [BOOT_CAPABILITY_PAGE_TABLES_INSTALLED, BOOT_CAPABILITY_WRITE_XOR_EXECUTE_PROVED,
     BOOT_CAPABILITY_PHYSICAL_FRAME_ALLOCATOR_AVAILABLE, BOOT_CAPABILITY_HEAP_AVAILABLE,
     BOOT_CAPABILITY_IDT_INSTALLED, BOOT_CAPABILITY_INTERRUPT_CONTROLLERS_CONFIGURED,
     BOOT_CAPABILITY_INTERRUPTS_ENABLED, BOOT_CAPABILITY_TIMER_CALIBRATION_COMPLETE,
     BOOT_CAPABILITY_THREADING_AVAILABLE, BOOT_CAPABILITY_SCHEDULER_AVAILABLE,
     BOOT_CAPABILITY_PROCESS_ADDRESS_SPACE_FOUNDATION_AVAILABLE,
     BOOT_CAPABILITY_ELF64_LOADER_FOUNDATION_AVAILABLE, BOOT_CAPABILITY_MULTIPROCESS_FOUNDATION_AVAILABLE]"

definition driver_matrix_requirements :: "nat list" where
  "driver_matrix_requirements =
    [BOOT_CAPABILITY_PAGE_TABLES_INSTALLED, BOOT_CAPABILITY_WRITE_XOR_EXECUTE_PROVED,
     BOOT_CAPABILITY_HEAP_AVAILABLE, BOOT_CAPABILITY_IDT_INSTALLED,
     BOOT_CAPABILITY_INTERRUPT_CONTROLLERS_CONFIGURED, BOOT_CAPABILITY_INTERRUPTS_ENABLED,
     BOOT_CAPABILITY_TIMER_CALIBRATION_COMPLETE, BOOT_CAPABILITY_PCI_ACCESS_AVAILABLE,
     BOOT_CAPABILITY_PCI_RESOURCE_OWNERSHIP_AVAILABLE, BOOT_CAPABILITY_DRIVER_MATRIX_FOUNDATION_AVAILABLE]"

definition audio_proof_requirements :: "nat list" where
  "audio_proof_requirements =
    [BOOT_CAPABILITY_PAGE_TABLES_INSTALLED, BOOT_CAPABILITY_WRITE_XOR_EXECUTE_PROVED,
     BOOT_CAPABILITY_PHYSICAL_FRAME_ALLOCATOR_AVAILABLE, BOOT_CAPABILITY_HEAP_AVAILABLE,
     BOOT_CAPABILITY_IDT_INSTALLED, BOOT_CAPABILITY_INTERRUPT_CONTROLLERS_CONFIGURED,
     BOOT_CAPABILITY_INTERRUPTS_ENABLED, BOOT_CAPABILITY_TIMER_CALIBRATION_COMPLETE,
     BOOT_CAPABILITY_PCI_ACCESS_AVAILABLE, BOOT_CAPABILITY_PCI_RESOURCE_OWNERSHIP_AVAILABLE,
     BOOT_CAPABILITY_DMA_FOUNDATION_AVAILABLE, BOOT_CAPABILITY_AUDIO_FOUNDATION_AVAILABLE]"

definition nvidia_probe_requirements :: "nat list" where
  "nvidia_probe_requirements =
    [BOOT_CAPABILITY_PAGE_TABLES_INSTALLED, BOOT_CAPABILITY_WRITE_XOR_EXECUTE_PROVED,
     BOOT_CAPABILITY_PHYSICAL_FRAME_ALLOCATOR_AVAILABLE, BOOT_CAPABILITY_HEAP_AVAILABLE,
     BOOT_CAPABILITY_IDT_INSTALLED, BOOT_CAPABILITY_INTERRUPT_CONTROLLERS_CONFIGURED,
     BOOT_CAPABILITY_INTERRUPTS_ENABLED, BOOT_CAPABILITY_TIMER_CALIBRATION_COMPLETE,
     BOOT_CAPABILITY_PCI_ACCESS_AVAILABLE, BOOT_CAPABILITY_PCI_RESOURCE_OWNERSHIP_AVAILABLE,
     BOOT_CAPABILITY_NVIDIA_FOUNDATION_AVAILABLE]"

definition filesystem_file_requirements :: "nat list" where
  "filesystem_file_requirements =
    [BOOT_CAPABILITY_PAGE_TABLES_INSTALLED, BOOT_CAPABILITY_PCI_ACCESS_AVAILABLE,
     BOOT_CAPABILITY_HEAP_AVAILABLE, BOOT_CAPABILITY_PHYSICAL_FRAME_ALLOCATOR_AVAILABLE,
     BOOT_CAPABILITY_INTERRUPT_CONTROLLERS_CONFIGURED, BOOT_CAPABILITY_INTERRUPTS_ENABLED,
     BOOT_CAPABILITY_TIMER_CALIBRATION_COMPLETE, BOOT_CAPABILITY_THREADING_AVAILABLE,
     BOOT_CAPABILITY_SCHEDULER_AVAILABLE, BOOT_CAPABILITY_PCI_RESOURCE_OWNERSHIP_AVAILABLE,
     BOOT_CAPABILITY_DYNAMIC_VECTOR_FOUNDATION_AVAILABLE, BOOT_CAPABILITY_DMA_FOUNDATION_AVAILABLE,
     BOOT_CAPABILITY_NVME_FOUNDATION_AVAILABLE, BOOT_CAPABILITY_FAT16_FOUNDATION_AVAILABLE]"

definition REQUIRED_STAGE :: "nat \<Rightarrow> string \<Rightarrow> nat \<Rightarrow> nat \<Rightarrow> 'c boot_stage_execute \<Rightarrow> 'c boot_stage_descriptor" where
  "REQUIRED_STAGE identifier label boot_phase irreversible function =
     \<lparr>sd_id = identifier, sd_name = Some label, required_capabilities = [], provided_capabilities = [],
      skipped_capabilities = [], sd_required = True, skip_preserves_health = False, sd_phase = boot_phase,
      irreversible_class = irreversible, sd_execute = Some function\<rparr>"

definition OPTIONAL_STAGE :: "nat \<Rightarrow> string \<Rightarrow> nat \<Rightarrow> nat \<Rightarrow> 'c boot_stage_execute \<Rightarrow> 'c boot_stage_descriptor" where
  "OPTIONAL_STAGE identifier label boot_phase irreversible function =
     \<lparr>sd_id = identifier, sd_name = Some label, required_capabilities = [], provided_capabilities = [],
      skipped_capabilities = [], sd_required = False, skip_preserves_health = False, sd_phase = boot_phase,
      irreversible_class = irreversible, sd_execute = Some function\<rparr>"

definition OPTIONAL_NEUTRAL_STAGE :: "nat \<Rightarrow> string \<Rightarrow> nat \<Rightarrow> nat \<Rightarrow> 'c boot_stage_execute \<Rightarrow> 'c boot_stage_descriptor" where
  "OPTIONAL_NEUTRAL_STAGE identifier label boot_phase irreversible function =
     \<lparr>sd_id = identifier, sd_name = Some label, required_capabilities = [], provided_capabilities = [],
      skipped_capabilities = [], sd_required = False, skip_preserves_health = True, sd_phase = boot_phase,
      irreversible_class = irreversible, sd_execute = Some function\<rparr>"

text \<open>The table; \<open>execute\<close> gives each stage its callback.\<close>

definition installed_descriptors :: "(nat \<Rightarrow> 'c boot_stage_execute) \<Rightarrow> 'c boot_stage_descriptor list" where
  "installed_descriptors execute = [
     REQUIRED_STAGE BOOT_STAGE_EARLY_SERIAL ''early serial''
       BOOT_PHASE_FOUNDATION BOOT_IRREVERSIBLE_NONE (execute BOOT_STAGE_EARLY_SERIAL),
     REQUIRED_STAGE BOOT_STAGE_INTERRUPT_FOUNDATION ''interrupt foundation''
       BOOT_PHASE_FOUNDATION BOOT_IRREVERSIBLE_NONE (execute BOOT_STAGE_INTERRUPT_FOUNDATION),
     REQUIRED_STAGE BOOT_STAGE_PURE_SELF_TESTS ''pure boot self-tests''
       BOOT_PHASE_FOUNDATION BOOT_IRREVERSIBLE_NONE (execute BOOT_STAGE_PURE_SELF_TESTS),
     REQUIRED_STAGE BOOT_STAGE_BOOT_INFORMATION ''boot information''
       BOOT_PHASE_DISCOVERY BOOT_IRREVERSIBLE_NONE (execute BOOT_STAGE_BOOT_INFORMATION),
     REQUIRED_STAGE BOOT_STAGE_FIRMWARE_DISCOVERY ''firmware discovery''
       BOOT_PHASE_DISCOVERY BOOT_IRREVERSIBLE_NONE (execute BOOT_STAGE_FIRMWARE_DISCOVERY),
     REQUIRED_STAGE BOOT_STAGE_DEVICE_WINDOWS ''device-window registry''
       BOOT_PHASE_DISCOVERY BOOT_IRREVERSIBLE_NONE (execute BOOT_STAGE_DEVICE_WINDOWS),
     REQUIRED_STAGE BOOT_STAGE_INTERRUPT_CONTROLLERS ''interrupt controllers''
       BOOT_PHASE_CONTROLLERS BOOT_IRREVERSIBLE_NONE (execute BOOT_STAGE_INTERRUPT_CONTROLLERS),
     REQUIRED_STAGE BOOT_STAGE_FRAME_ALLOCATOR ''physical frame allocator''
       BOOT_PHASE_CONTROLLERS BOOT_IRREVERSIBLE_NONE (execute BOOT_STAGE_FRAME_ALLOCATOR),
     REQUIRED_STAGE BOOT_STAGE_PAGING_INSTALL ''PAT and page-table installation''
       BOOT_PHASE_MEMORY_TRANSITION BOOT_IRREVERSIBLE_PAT_CR3 (execute BOOT_STAGE_PAGING_INSTALL),
     REQUIRED_STAGE BOOT_STAGE_PAGING_PROOFS ''installed paging proofs''
       BOOT_PHASE_MEMORY_TRANSITION BOOT_IRREVERSIBLE_NONE (execute BOOT_STAGE_PAGING_PROOFS),
     OPTIONAL_STAGE BOOT_STAGE_FRAMEBUFFER_WC ''independent framebuffer WC proof''
       BOOT_PHASE_MEMORY_TRANSITION BOOT_IRREVERSIBLE_NONE (execute BOOT_STAGE_FRAMEBUFFER_WC),
     REQUIRED_STAGE BOOT_STAGE_MEMORY_RUNTIME ''heap and paging runtime''
       BOOT_PHASE_RUNTIME BOOT_IRREVERSIBLE_NONE (execute BOOT_STAGE_MEMORY_RUNTIME),
     OPTIONAL_STAGE BOOT_STAGE_FRAMEBUFFER_OUTPUT ''framebuffer output''
       BOOT_PHASE_RUNTIME BOOT_IRREVERSIBLE_FRAMEBUFFER_OUTPUT (execute BOOT_STAGE_FRAMEBUFFER_OUTPUT),
     REQUIRED_STAGE BOOT_STAGE_KEYBOARD ''keyboard interrupt path''
       BOOT_PHASE_RUNTIME BOOT_IRREVERSIBLE_INTERRUPT_ENABLE (execute BOOT_STAGE_KEYBOARD),
     OPTIONAL_STAGE BOOT_STAGE_SHELL ''interactive shell''
       BOOT_PHASE_RUNTIME BOOT_IRREVERSIBLE_NONE (execute BOOT_STAGE_SHELL),
     OPTIONAL_STAGE BOOT_STAGE_UI_FONT ''Sapote Redwood UI font''
       BOOT_PHASE_RUNTIME BOOT_IRREVERSIBLE_NONE (execute BOOT_STAGE_UI_FONT),
     OPTIONAL_STAGE BOOT_STAGE_POINTER_DECISION ''pointer availability decision''
       BOOT_PHASE_RUNTIME BOOT_IRREVERSIBLE_NONE (execute BOOT_STAGE_POINTER_DECISION),
     OPTIONAL_NEUTRAL_STAGE BOOT_STAGE_POINTER_OUTCOME ''pointer availability outcome''
       BOOT_PHASE_RUNTIME BOOT_IRREVERSIBLE_NONE (execute BOOT_STAGE_POINTER_OUTCOME),
     OPTIONAL_STAGE BOOT_STAGE_UI_LAYOUT ''Sapote Redwood layout''
       BOOT_PHASE_RUNTIME BOOT_IRREVERSIBLE_NONE (execute BOOT_STAGE_UI_LAYOUT),
     REQUIRED_STAGE BOOT_STAGE_EARLY_SCENARIO ''early scenario gate''
       BOOT_PHASE_RUNTIME BOOT_IRREVERSIBLE_NONE (execute BOOT_STAGE_EARLY_SCENARIO),
     REQUIRED_STAGE BOOT_STAGE_INTERRUPT_PROOFS ''interrupt proofs''
       BOOT_PHASE_TIMERS BOOT_IRREVERSIBLE_NONE (execute BOOT_STAGE_INTERRUPT_PROOFS),
     REQUIRED_STAGE BOOT_STAGE_TIMER_ROUTING ''interrupt routing''
       BOOT_PHASE_TIMERS BOOT_IRREVERSIBLE_NONE (execute BOOT_STAGE_TIMER_ROUTING),
     REQUIRED_STAGE BOOT_STAGE_TIMER_CALIBRATION ''timer calibration''
       BOOT_PHASE_TIMERS BOOT_IRREVERSIBLE_APIC_TIMER (execute BOOT_STAGE_TIMER_CALIBRATION),
     REQUIRED_STAGE BOOT_STAGE_PCI ''PCI access''
       BOOT_PHASE_SERVICES BOOT_IRREVERSIBLE_NONE (execute BOOT_STAGE_PCI),
     REQUIRED_STAGE BOOT_STAGE_PCI_RESOURCE_FOUNDATION ''PCI resource ownership''
       BOOT_PHASE_SERVICES BOOT_IRREVERSIBLE_NONE (execute BOOT_STAGE_PCI_RESOURCE_FOUNDATION),
     REQUIRED_STAGE BOOT_STAGE_DYNAMIC_VECTOR_FOUNDATION ''dynamic interrupt vectors''
       BOOT_PHASE_SERVICES BOOT_IRREVERSIBLE_NONE (execute BOOT_STAGE_DYNAMIC_VECTOR_FOUNDATION),
     REQUIRED_STAGE BOOT_STAGE_DMA_FOUNDATION ''DMA foundation''
       BOOT_PHASE_SERVICES BOOT_IRREVERSIBLE_NONE (execute BOOT_STAGE_DMA_FOUNDATION),
     REQUIRED_STAGE BOOT_STAGE_NETWORK_FOUNDATION ''network and entropy foundation''
       BOOT_PHASE_PROOFS BOOT_IRREVERSIBLE_NONE (execute BOOT_STAGE_NETWORK_FOUNDATION),
     REQUIRED_STAGE BOOT_STAGE_XHCI_FOUNDATION ''xHCI host-controller foundation''
       BOOT_PHASE_SERVICES BOOT_IRREVERSIBLE_NONE (execute BOOT_STAGE_XHCI_FOUNDATION),
     REQUIRED_STAGE BOOT_STAGE_NVME_FOUNDATION ''NVMe block-controller foundation''
       BOOT_PHASE_SERVICES BOOT_IRREVERSIBLE_NONE (execute BOOT_STAGE_NVME_FOUNDATION),
     REQUIRED_STAGE BOOT_STAGE_FAT16_FOUNDATION ''bounded read-only FAT16 foundation''
       BOOT_PHASE_SERVICES BOOT_IRREVERSIBLE_NONE (execute BOOT_STAGE_FAT16_FOUNDATION),
     REQUIRED_STAGE BOOT_STAGE_THREADING ''threading''
       BOOT_PHASE_SERVICES BOOT_IRREVERSIBLE_NONE (execute BOOT_STAGE_THREADING),
     REQUIRED_STAGE BOOT_STAGE_SCHEDULER ''scheduler''
       BOOT_PHASE_SERVICES BOOT_IRREVERSIBLE_SCHEDULER (execute BOOT_STAGE_SCHEDULER),
     REQUIRED_STAGE BOOT_STAGE_PROCESS_ADDRESS_SPACE_FOUNDATION ''private process address-space foundation''
       BOOT_PHASE_SERVICES BOOT_IRREVERSIBLE_NONE (execute BOOT_STAGE_PROCESS_ADDRESS_SPACE_FOUNDATION),
     REQUIRED_STAGE BOOT_STAGE_ELF64_LOADER_FOUNDATION ''bounded ELF64 loader foundation''
       BOOT_PHASE_SERVICES BOOT_IRREVERSIBLE_NONE (execute BOOT_STAGE_ELF64_LOADER_FOUNDATION),
     REQUIRED_STAGE BOOT_STAGE_LINUX_SYSCALL_CPU_FOUNDATION ''Linux x86-64 syscall CPU foundation''
       BOOT_PHASE_SERVICES BOOT_IRREVERSIBLE_NONE (execute BOOT_STAGE_LINUX_SYSCALL_CPU_FOUNDATION),
     REQUIRED_STAGE BOOT_STAGE_LINUX_IMAGE_STACK_FOUNDATION ''static BusyBox image and Linux initial-stack foundation''
       BOOT_PHASE_SERVICES BOOT_IRREVERSIBLE_NONE (execute BOOT_STAGE_LINUX_IMAGE_STACK_FOUNDATION),
     REQUIRED_STAGE BOOT_STAGE_LINUX_UNAME_IMAGE_UTS_FOUNDATION ''static BusyBox uname image and UTS foundation''
       BOOT_PHASE_SERVICES BOOT_IRREVERSIBLE_NONE (execute BOOT_STAGE_LINUX_UNAME_IMAGE_UTS_FOUNDATION),
     OPTIONAL_NEUTRAL_STAGE BOOT_STAGE_DEVICE_SUBSTRATE_PROOF ''installed device-substrate proof''
       BOOT_PHASE_SERVICES BOOT_IRREVERSIBLE_NONE (execute BOOT_STAGE_DEVICE_SUBSTRATE_PROOF),
     OPTIONAL_NEUTRAL_STAGE BOOT_STAGE_XHCI_DESCRIPTOR_PROOF ''installed xHCI descriptor proof''
       BOOT_PHASE_SERVICES BOOT_IRREVERSIBLE_NONE (execute BOOT_STAGE_XHCI_DESCRIPTOR_PROOF),
     OPTIONAL_NEUTRAL_STAGE BOOT_STAGE_NVME_READ_PROOF ''installed NVMe read proof''
       BOOT_PHASE_SERVICES BOOT_IRREVERSIBLE_NONE (execute BOOT_STAGE_NVME_READ_PROOF),
     OPTIONAL_NEUTRAL_STAGE BOOT_STAGE_FILESYSTEM_FILE_PROOF ''installed FAT16 file-read proof''
       BOOT_PHASE_SERVICES BOOT_IRREVERSIBLE_NONE (execute BOOT_STAGE_FILESYSTEM_FILE_PROOF),
     OPTIONAL_NEUTRAL_STAGE BOOT_STAGE_PROCESS_INSTALLED_PROOF ''installed Ring 3 process proof''
       BOOT_PHASE_SERVICES BOOT_IRREVERSIBLE_NONE (execute BOOT_STAGE_PROCESS_INSTALLED_PROOF),
     OPTIONAL_NEUTRAL_STAGE BOOT_STAGE_LINUX_INSTALLED_PROOF ''installed static BusyBox proof''
       BOOT_PHASE_SERVICES BOOT_IRREVERSIBLE_NONE (execute BOOT_STAGE_LINUX_INSTALLED_PROOF),
     OPTIONAL_NEUTRAL_STAGE BOOT_STAGE_LINUX_UNAME_INSTALLED_PROOF ''installed static BusyBox uname proof''
       BOOT_PHASE_SERVICES BOOT_IRREVERSIBLE_NONE (execute BOOT_STAGE_LINUX_UNAME_INSTALLED_PROOF),
     REQUIRED_STAGE BOOT_STAGE_AUDIO_FOUNDATION ''bounded HD Audio foundation''
       BOOT_PHASE_SERVICES BOOT_IRREVERSIBLE_NONE (execute BOOT_STAGE_AUDIO_FOUNDATION),
     OPTIONAL_NEUTRAL_STAGE BOOT_STAGE_AUDIO_CODEC_PROOF ''installed HD Audio codec proof''
       BOOT_PHASE_SERVICES BOOT_IRREVERSIBLE_NONE (execute BOOT_STAGE_AUDIO_CODEC_PROOF),
     REQUIRED_STAGE BOOT_STAGE_NVIDIA_FOUNDATION ''bounded NVIDIA driver foundation''
       BOOT_PHASE_SERVICES BOOT_IRREVERSIBLE_NONE (execute BOOT_STAGE_NVIDIA_FOUNDATION),
     OPTIONAL_NEUTRAL_STAGE BOOT_STAGE_NVIDIA_PROBE ''installed NVIDIA driver probe''
       BOOT_PHASE_SERVICES BOOT_IRREVERSIBLE_NONE (execute BOOT_STAGE_NVIDIA_PROBE),
     REQUIRED_STAGE BOOT_STAGE_DRIVER_MATRIX_FOUNDATION ''bounded PCI driver matrix foundation''
       BOOT_PHASE_SERVICES BOOT_IRREVERSIBLE_NONE (execute BOOT_STAGE_DRIVER_MATRIX_FOUNDATION),
     OPTIONAL_NEUTRAL_STAGE BOOT_STAGE_DRIVER_MATRIX_PROBE ''installed PCI driver matrix probe''
       BOOT_PHASE_SERVICES BOOT_IRREVERSIBLE_NONE (execute BOOT_STAGE_DRIVER_MATRIX_PROBE),
     REQUIRED_STAGE BOOT_STAGE_MULTIPROCESS_FOUNDATION ''bounded multiprocess foundation''
       BOOT_PHASE_SERVICES BOOT_IRREVERSIBLE_NONE (execute BOOT_STAGE_MULTIPROCESS_FOUNDATION),
     REQUIRED_STAGE BOOT_STAGE_MULTIPROCESS_PROOF ''installed multiprocess proof''
       BOOT_PHASE_SERVICES BOOT_IRREVERSIBLE_NONE (execute BOOT_STAGE_MULTIPROCESS_PROOF),
     REQUIRED_STAGE BOOT_STAGE_CLOSING_PROOFS ''closing boot proofs''
       BOOT_PHASE_PROOFS BOOT_IRREVERSIBLE_NONE (execute BOOT_STAGE_CLOSING_PROOFS),
     OPTIONAL_STAGE BOOT_STAGE_DESKTOP_CONSTRUCTION ''desktop construction''
       BOOT_PHASE_PROOFS BOOT_IRREVERSIBLE_NONE (execute BOOT_STAGE_DESKTOP_CONSTRUCTION),
     OPTIONAL_STAGE BOOT_STAGE_DESKTOP_ACTIVATION ''desktop activation''
       BOOT_PHASE_PROOFS BOOT_IRREVERSIBLE_NONE (execute BOOT_STAGE_DESKTOP_ACTIVATION),
     OPTIONAL_STAGE BOOT_STAGE_REDWOOD_INSTALLED_PROOF ''Sapote Redwood installed proof''
       BOOT_PHASE_PROOFS BOOT_IRREVERSIBLE_NONE (execute BOOT_STAGE_REDWOOD_INSTALLED_PROOF)]"

section \<open>What each stage requires and provides\<close>

definition declare_early_serial :: "'c boot_stage_descriptor \<Rightarrow> 'c boot_stage_descriptor" where
  "declare_early_serial descriptor = descriptor
     \<lparr>provided_capabilities := [BOOT_CAPABILITY_EARLY_SERIAL_AVAILABLE]\<rparr>"

definition declare_interrupt_foundation :: "'c boot_stage_descriptor \<Rightarrow> 'c boot_stage_descriptor" where
  "declare_interrupt_foundation descriptor = descriptor
     \<lparr>required_capabilities := [BOOT_CAPABILITY_EARLY_SERIAL_AVAILABLE],
      provided_capabilities := [BOOT_CAPABILITY_IDT_INSTALLED]\<rparr>"

definition declare_pure_self_tests :: "'c boot_stage_descriptor \<Rightarrow> 'c boot_stage_descriptor" where
  "declare_pure_self_tests descriptor = descriptor
     \<lparr>required_capabilities := [BOOT_CAPABILITY_EARLY_SERIAL_AVAILABLE, BOOT_CAPABILITY_IDT_INSTALLED],
      provided_capabilities := [BOOT_CAPABILITY_BOOT_SELF_TESTS_COMPLETE]\<rparr>"

definition declare_boot_information :: "'c boot_stage_descriptor \<Rightarrow> 'c boot_stage_descriptor" where
  "declare_boot_information descriptor = descriptor
     \<lparr>required_capabilities := [BOOT_CAPABILITY_BOOT_SELF_TESTS_COMPLETE],
      provided_capabilities := [BOOT_CAPABILITY_BOOT_INFORMATION_VALIDATED]\<rparr>"

definition declare_firmware_discovery :: "'c boot_stage_descriptor \<Rightarrow> 'c boot_stage_descriptor" where
  "declare_firmware_discovery descriptor = descriptor
     \<lparr>required_capabilities := [BOOT_CAPABILITY_BOOT_INFORMATION_VALIDATED],
      provided_capabilities := [BOOT_CAPABILITY_ACPI_ROOT_VALIDATED, BOOT_CAPABILITY_INTERRUPT_TOPOLOGY_DISCOVERED,
       BOOT_CAPABILITY_CLOCKS_DISCOVERED]\<rparr>"

definition declare_device_windows :: "'c boot_stage_descriptor \<Rightarrow> 'c boot_stage_descriptor" where
  "declare_device_windows descriptor = descriptor
     \<lparr>required_capabilities := [BOOT_CAPABILITY_BOOT_INFORMATION_VALIDATED, BOOT_CAPABILITY_INTERRUPT_TOPOLOGY_DISCOVERED],
      provided_capabilities := [BOOT_CAPABILITY_DEVICE_WINDOW_REGISTRY_VALIDATED, BOOT_CAPABILITY_FRAMEBUFFER_AVAILABILITY_DECIDED]\<rparr>"

definition declare_interrupt_controllers :: "'c boot_stage_descriptor \<Rightarrow> 'c boot_stage_descriptor" where
  "declare_interrupt_controllers descriptor = descriptor
     \<lparr>required_capabilities := [BOOT_CAPABILITY_ACPI_ROOT_VALIDATED, BOOT_CAPABILITY_INTERRUPT_TOPOLOGY_DISCOVERED,
       BOOT_CAPABILITY_CLOCKS_DISCOVERED, BOOT_CAPABILITY_DEVICE_WINDOW_REGISTRY_VALIDATED],
      provided_capabilities := [BOOT_CAPABILITY_INTERRUPT_CONTROLLERS_CONFIGURED]\<rparr>"

definition declare_frame_allocator :: "'c boot_stage_descriptor \<Rightarrow> 'c boot_stage_descriptor" where
  "declare_frame_allocator descriptor = descriptor
     \<lparr>required_capabilities := [BOOT_CAPABILITY_BOOT_INFORMATION_VALIDATED, BOOT_CAPABILITY_INTERRUPT_CONTROLLERS_CONFIGURED],
      provided_capabilities := [BOOT_CAPABILITY_PHYSICAL_FRAME_ALLOCATOR_AVAILABLE]\<rparr>"

definition declare_paging_install :: "'c boot_stage_descriptor \<Rightarrow> 'c boot_stage_descriptor" where
  "declare_paging_install descriptor = descriptor
     \<lparr>required_capabilities := [BOOT_CAPABILITY_DEVICE_WINDOW_REGISTRY_VALIDATED, BOOT_CAPABILITY_PHYSICAL_FRAME_ALLOCATOR_AVAILABLE],
      provided_capabilities := [BOOT_CAPABILITY_PAGE_TABLES_INSTALLED]\<rparr>"

definition declare_paging_proofs :: "'c boot_stage_descriptor \<Rightarrow> 'c boot_stage_descriptor" where
  "declare_paging_proofs descriptor = descriptor
     \<lparr>required_capabilities := [BOOT_CAPABILITY_PAGE_TABLES_INSTALLED],
      provided_capabilities := [BOOT_CAPABILITY_WRITE_XOR_EXECUTE_PROVED, BOOT_CAPABILITY_INSTALLED_DEVICE_WINDOWS_PROVED]\<rparr>"

definition declare_framebuffer_wc :: "'c boot_stage_descriptor \<Rightarrow> 'c boot_stage_descriptor" where
  "declare_framebuffer_wc descriptor = descriptor
     \<lparr>required_capabilities := [BOOT_CAPABILITY_PAGE_TABLES_INSTALLED, BOOT_CAPABILITY_INSTALLED_DEVICE_WINDOWS_PROVED,
       BOOT_CAPABILITY_FRAMEBUFFER_AVAILABILITY_DECIDED],
      provided_capabilities := [BOOT_CAPABILITY_FRAMEBUFFER_WC_INDEPENDENTLY_PROVED],
      skipped_capabilities := [BOOT_CAPABILITY_FRAMEBUFFER_SERIAL_FALLBACK]\<rparr>"

definition declare_memory_runtime :: "'c boot_stage_descriptor \<Rightarrow> 'c boot_stage_descriptor" where
  "declare_memory_runtime descriptor = descriptor
     \<lparr>required_capabilities := [BOOT_CAPABILITY_PAGE_TABLES_INSTALLED, BOOT_CAPABILITY_WRITE_XOR_EXECUTE_PROVED],
      provided_capabilities := [BOOT_CAPABILITY_HEAP_AVAILABLE]\<rparr>"

definition declare_framebuffer_output :: "'c boot_stage_descriptor \<Rightarrow> 'c boot_stage_descriptor" where
  "declare_framebuffer_output descriptor = descriptor
     \<lparr>required_capabilities := [BOOT_CAPABILITY_FRAMEBUFFER_WC_INDEPENDENTLY_PROVED, BOOT_CAPABILITY_HEAP_AVAILABLE],
      provided_capabilities := [BOOT_CAPABILITY_SURFACE_AVAILABLE, BOOT_CAPABILITY_FRAMEBUFFER_OUTPUT_INSTALLED]\<rparr>"

definition declare_keyboard :: "'c boot_stage_descriptor \<Rightarrow> 'c boot_stage_descriptor" where
  "declare_keyboard descriptor = descriptor
     \<lparr>required_capabilities := [BOOT_CAPABILITY_IDT_INSTALLED, BOOT_CAPABILITY_INTERRUPT_CONTROLLERS_CONFIGURED,
       BOOT_CAPABILITY_HEAP_AVAILABLE],
      provided_capabilities := [BOOT_CAPABILITY_INTERRUPTS_ENABLED, BOOT_CAPABILITY_KEYBOARD_AVAILABLE]\<rparr>"

definition declare_shell :: "'c boot_stage_descriptor \<Rightarrow> 'c boot_stage_descriptor" where
  "declare_shell descriptor = descriptor
     \<lparr>required_capabilities := [BOOT_CAPABILITY_SURFACE_AVAILABLE, BOOT_CAPABILITY_INTERRUPTS_ENABLED],
      provided_capabilities := [BOOT_CAPABILITY_SHELL_AVAILABLE]\<rparr>"

definition declare_ui_font :: "'c boot_stage_descriptor \<Rightarrow> 'c boot_stage_descriptor" where
  "declare_ui_font descriptor = descriptor
     \<lparr>required_capabilities := [BOOT_CAPABILITY_SURFACE_AVAILABLE],
      provided_capabilities := [BOOT_CAPABILITY_UI_FONT_VERIFIED]\<rparr>"

definition declare_pointer_decision :: "'c boot_stage_descriptor \<Rightarrow> 'c boot_stage_descriptor" where
  "declare_pointer_decision descriptor = descriptor
     \<lparr>required_capabilities := [BOOT_CAPABILITY_KEYBOARD_AVAILABLE, BOOT_CAPABILITY_INTERRUPT_CONTROLLERS_CONFIGURED],
      provided_capabilities := [BOOT_CAPABILITY_POINTER_AVAILABILITY_DECIDED]\<rparr>"

definition declare_pointer_outcome :: "'c boot_stage_descriptor \<Rightarrow> 'c boot_stage_descriptor" where
  "declare_pointer_outcome descriptor = descriptor
     \<lparr>required_capabilities := [BOOT_CAPABILITY_POINTER_AVAILABILITY_DECIDED],
      provided_capabilities := [BOOT_CAPABILITY_POINTER_INPUT_AVAILABLE],
      skipped_capabilities := [BOOT_CAPABILITY_POINTER_INPUT_ABSENT]\<rparr>"

definition declare_ui_layout :: "'c boot_stage_descriptor \<Rightarrow> 'c boot_stage_descriptor" where
  "declare_ui_layout descriptor = descriptor
     \<lparr>required_capabilities := [BOOT_CAPABILITY_SURFACE_AVAILABLE, BOOT_CAPABILITY_UI_FONT_VERIFIED],
      provided_capabilities := [BOOT_CAPABILITY_UI_LAYOUT_VALIDATED]\<rparr>"

definition declare_early_scenario :: "'c boot_stage_descriptor \<Rightarrow> 'c boot_stage_descriptor" where
  "declare_early_scenario descriptor = descriptor
     \<lparr>required_capabilities := [BOOT_CAPABILITY_HEAP_AVAILABLE, BOOT_CAPABILITY_INTERRUPTS_ENABLED]\<rparr>"

definition declare_interrupt_proofs :: "'c boot_stage_descriptor \<Rightarrow> 'c boot_stage_descriptor" where
  "declare_interrupt_proofs descriptor = descriptor
     \<lparr>required_capabilities := [BOOT_CAPABILITY_IDT_INSTALLED, BOOT_CAPABILITY_INTERRUPT_CONTROLLERS_CONFIGURED,
       BOOT_CAPABILITY_INTERRUPTS_ENABLED]\<rparr>"

definition declare_timer_routing :: "'c boot_stage_descriptor \<Rightarrow> 'c boot_stage_descriptor" where
  "declare_timer_routing descriptor = descriptor
     \<lparr>required_capabilities := [BOOT_CAPABILITY_IDT_INSTALLED, BOOT_CAPABILITY_INTERRUPT_CONTROLLERS_CONFIGURED,
       BOOT_CAPABILITY_INTERRUPTS_ENABLED],
      provided_capabilities := [BOOT_CAPABILITY_INTERRUPT_ROUTING_PROVED]\<rparr>"

definition declare_timer_calibration :: "'c boot_stage_descriptor \<Rightarrow> 'c boot_stage_descriptor" where
  "declare_timer_calibration descriptor = descriptor
     \<lparr>required_capabilities := [BOOT_CAPABILITY_IDT_INSTALLED, BOOT_CAPABILITY_INTERRUPT_CONTROLLERS_CONFIGURED,
       BOOT_CAPABILITY_INTERRUPTS_ENABLED, BOOT_CAPABILITY_CLOCKS_DISCOVERED,
       BOOT_CAPABILITY_INTERRUPT_ROUTING_PROVED],
      provided_capabilities := [BOOT_CAPABILITY_TIMER_CALIBRATION_COMPLETE]\<rparr>"

definition declare_pci :: "'c boot_stage_descriptor \<Rightarrow> 'c boot_stage_descriptor" where
  "declare_pci descriptor = descriptor
     \<lparr>required_capabilities := [BOOT_CAPABILITY_PAGE_TABLES_INSTALLED, BOOT_CAPABILITY_TIMER_CALIBRATION_COMPLETE],
      provided_capabilities := [BOOT_CAPABILITY_PCI_ACCESS_AVAILABLE]\<rparr>"

definition declare_pci_resource_foundation :: "'c boot_stage_descriptor \<Rightarrow> 'c boot_stage_descriptor" where
  "declare_pci_resource_foundation descriptor = descriptor
     \<lparr>required_capabilities := [BOOT_CAPABILITY_PCI_ACCESS_AVAILABLE, BOOT_CAPABILITY_PAGE_TABLES_INSTALLED,
       BOOT_CAPABILITY_PHYSICAL_FRAME_ALLOCATOR_AVAILABLE],
      provided_capabilities := [BOOT_CAPABILITY_PCI_RESOURCE_OWNERSHIP_AVAILABLE]\<rparr>"

definition declare_dynamic_vector_foundation :: "'c boot_stage_descriptor \<Rightarrow> 'c boot_stage_descriptor" where
  "declare_dynamic_vector_foundation descriptor = descriptor
     \<lparr>required_capabilities := [BOOT_CAPABILITY_IDT_INSTALLED, BOOT_CAPABILITY_INTERRUPT_CONTROLLERS_CONFIGURED,
       BOOT_CAPABILITY_INTERRUPTS_ENABLED],
      provided_capabilities := [BOOT_CAPABILITY_DYNAMIC_VECTOR_FOUNDATION_AVAILABLE]\<rparr>"

definition declare_dma_foundation :: "'c boot_stage_descriptor \<Rightarrow> 'c boot_stage_descriptor" where
  "declare_dma_foundation descriptor = descriptor
     \<lparr>required_capabilities := [BOOT_CAPABILITY_PHYSICAL_FRAME_ALLOCATOR_AVAILABLE, BOOT_CAPABILITY_PAGE_TABLES_INSTALLED],
      provided_capabilities := [BOOT_CAPABILITY_DMA_FOUNDATION_AVAILABLE]\<rparr>"

definition declare_network_foundation :: "'c boot_stage_descriptor \<Rightarrow> 'c boot_stage_descriptor" where
  "declare_network_foundation descriptor = descriptor
     \<lparr>required_capabilities := [BOOT_CAPABILITY_PCI_ACCESS_AVAILABLE, BOOT_CAPABILITY_PCI_RESOURCE_OWNERSHIP_AVAILABLE,
       BOOT_CAPABILITY_DYNAMIC_VECTOR_FOUNDATION_AVAILABLE, BOOT_CAPABILITY_DMA_FOUNDATION_AVAILABLE,
       BOOT_CAPABILITY_TIMER_CALIBRATION_COMPLETE, BOOT_CAPABILITY_HEAP_AVAILABLE,
       BOOT_CAPABILITY_PHYSICAL_FRAME_ALLOCATOR_AVAILABLE, BOOT_CAPABILITY_INTERRUPTS_ENABLED,
       BOOT_CAPABILITY_BOOT_PROOFS_COMPLETE],
      provided_capabilities := [BOOT_CAPABILITY_NETWORK_FOUNDATION_AVAILABLE, BOOT_CAPABILITY_NETWORK_AVAILABILITY_DECIDED]\<rparr>"

definition declare_threading :: "'c boot_stage_descriptor \<Rightarrow> 'c boot_stage_descriptor" where
  "declare_threading descriptor = descriptor
     \<lparr>required_capabilities := [BOOT_CAPABILITY_HEAP_AVAILABLE, BOOT_CAPABILITY_TIMER_CALIBRATION_COMPLETE],
      provided_capabilities := [BOOT_CAPABILITY_THREADING_AVAILABLE]\<rparr>"

definition declare_scheduler :: "'c boot_stage_descriptor \<Rightarrow> 'c boot_stage_descriptor" where
  "declare_scheduler descriptor = descriptor
     \<lparr>required_capabilities := [BOOT_CAPABILITY_HEAP_AVAILABLE, BOOT_CAPABILITY_THREADING_AVAILABLE,
       BOOT_CAPABILITY_TIMER_CALIBRATION_COMPLETE, BOOT_CAPABILITY_INTERRUPTS_ENABLED],
      provided_capabilities := [BOOT_CAPABILITY_SCHEDULER_AVAILABLE]\<rparr>"

definition declare_device_substrate_proof :: "'c boot_stage_descriptor \<Rightarrow> 'c boot_stage_descriptor" where
  "declare_device_substrate_proof descriptor = descriptor
     \<lparr>required_capabilities := [BOOT_CAPABILITY_PAGE_TABLES_INSTALLED, BOOT_CAPABILITY_PCI_ACCESS_AVAILABLE,
       BOOT_CAPABILITY_HEAP_AVAILABLE, BOOT_CAPABILITY_PHYSICAL_FRAME_ALLOCATOR_AVAILABLE,
       BOOT_CAPABILITY_INTERRUPT_CONTROLLERS_CONFIGURED, BOOT_CAPABILITY_INTERRUPTS_ENABLED,
       BOOT_CAPABILITY_THREADING_AVAILABLE, BOOT_CAPABILITY_SCHEDULER_AVAILABLE,
       BOOT_CAPABILITY_PCI_RESOURCE_OWNERSHIP_AVAILABLE,
       BOOT_CAPABILITY_DYNAMIC_VECTOR_FOUNDATION_AVAILABLE, BOOT_CAPABILITY_DMA_FOUNDATION_AVAILABLE],
      provided_capabilities := [BOOT_CAPABILITY_DEVICE_SUBSTRATE_INSTALLED_PROOF_COMPLETE],
      skipped_capabilities := [BOOT_CAPABILITY_DEVICE_SUBSTRATE_FIXTURE_ABSENT]\<rparr>"

definition declare_xhci_foundation :: "'c boot_stage_descriptor \<Rightarrow> 'c boot_stage_descriptor" where
  "declare_xhci_foundation descriptor = descriptor
     \<lparr>required_capabilities := [BOOT_CAPABILITY_PCI_RESOURCE_OWNERSHIP_AVAILABLE,
       BOOT_CAPABILITY_DYNAMIC_VECTOR_FOUNDATION_AVAILABLE, BOOT_CAPABILITY_DMA_FOUNDATION_AVAILABLE,
       BOOT_CAPABILITY_TIMER_CALIBRATION_COMPLETE],
      provided_capabilities := [BOOT_CAPABILITY_XHCI_FOUNDATION_AVAILABLE]\<rparr>"

definition declare_xhci_descriptor_proof :: "'c boot_stage_descriptor \<Rightarrow> 'c boot_stage_descriptor" where
  "declare_xhci_descriptor_proof descriptor = descriptor
     \<lparr>required_capabilities := [BOOT_CAPABILITY_PAGE_TABLES_INSTALLED, BOOT_CAPABILITY_PCI_ACCESS_AVAILABLE,
       BOOT_CAPABILITY_HEAP_AVAILABLE, BOOT_CAPABILITY_PHYSICAL_FRAME_ALLOCATOR_AVAILABLE,
       BOOT_CAPABILITY_INTERRUPT_CONTROLLERS_CONFIGURED, BOOT_CAPABILITY_INTERRUPTS_ENABLED,
       BOOT_CAPABILITY_TIMER_CALIBRATION_COMPLETE, BOOT_CAPABILITY_THREADING_AVAILABLE,
       BOOT_CAPABILITY_SCHEDULER_AVAILABLE, BOOT_CAPABILITY_PCI_RESOURCE_OWNERSHIP_AVAILABLE,
       BOOT_CAPABILITY_DYNAMIC_VECTOR_FOUNDATION_AVAILABLE, BOOT_CAPABILITY_DMA_FOUNDATION_AVAILABLE,
       BOOT_CAPABILITY_XHCI_FOUNDATION_AVAILABLE],
      provided_capabilities := [BOOT_CAPABILITY_XHCI_DESCRIPTOR_PROOF_COMPLETE],
      skipped_capabilities := [BOOT_CAPABILITY_XHCI_FIXTURE_ABSENT]\<rparr>"

definition declare_nvme_foundation :: "'c boot_stage_descriptor \<Rightarrow> 'c boot_stage_descriptor" where
  "declare_nvme_foundation descriptor = descriptor
     \<lparr>required_capabilities := [BOOT_CAPABILITY_PCI_RESOURCE_OWNERSHIP_AVAILABLE,
       BOOT_CAPABILITY_DYNAMIC_VECTOR_FOUNDATION_AVAILABLE, BOOT_CAPABILITY_DMA_FOUNDATION_AVAILABLE,
       BOOT_CAPABILITY_TIMER_CALIBRATION_COMPLETE],
      provided_capabilities := [BOOT_CAPABILITY_NVME_FOUNDATION_AVAILABLE]\<rparr>"

definition declare_nvme_read_proof :: "'c boot_stage_descriptor \<Rightarrow> 'c boot_stage_descriptor" where
  "declare_nvme_read_proof descriptor = descriptor
     \<lparr>required_capabilities := [BOOT_CAPABILITY_PAGE_TABLES_INSTALLED, BOOT_CAPABILITY_PCI_ACCESS_AVAILABLE,
       BOOT_CAPABILITY_HEAP_AVAILABLE, BOOT_CAPABILITY_PHYSICAL_FRAME_ALLOCATOR_AVAILABLE,
       BOOT_CAPABILITY_INTERRUPT_CONTROLLERS_CONFIGURED, BOOT_CAPABILITY_INTERRUPTS_ENABLED,
       BOOT_CAPABILITY_TIMER_CALIBRATION_COMPLETE, BOOT_CAPABILITY_THREADING_AVAILABLE,
       BOOT_CAPABILITY_SCHEDULER_AVAILABLE, BOOT_CAPABILITY_PCI_RESOURCE_OWNERSHIP_AVAILABLE,
       BOOT_CAPABILITY_DYNAMIC_VECTOR_FOUNDATION_AVAILABLE, BOOT_CAPABILITY_DMA_FOUNDATION_AVAILABLE,
       BOOT_CAPABILITY_NVME_FOUNDATION_AVAILABLE],
      provided_capabilities := [BOOT_CAPABILITY_NVME_READ_PROOF_COMPLETE],
      skipped_capabilities := [BOOT_CAPABILITY_NVME_FIXTURE_ABSENT]\<rparr>"

definition declare_fat16_foundation :: "'c boot_stage_descriptor \<Rightarrow> 'c boot_stage_descriptor" where
  "declare_fat16_foundation descriptor = descriptor
     \<lparr>required_capabilities := [BOOT_CAPABILITY_NVME_FOUNDATION_AVAILABLE],
      provided_capabilities := [BOOT_CAPABILITY_FAT16_FOUNDATION_AVAILABLE, BOOT_CAPABILITY_PRIVATE_ONE_FILE_READ_AVAILABLE]\<rparr>"

definition declare_filesystem_file_proof :: "'c boot_stage_descriptor \<Rightarrow> 'c boot_stage_descriptor" where
  "declare_filesystem_file_proof descriptor = descriptor
     \<lparr>required_capabilities := filesystem_file_requirements,
      provided_capabilities := [BOOT_CAPABILITY_FILESYSTEM_FILE_PROOF_COMPLETE],
      skipped_capabilities := [BOOT_CAPABILITY_FILESYSTEM_FIXTURE_ABSENT]\<rparr>"

definition declare_process_address_space_foundation :: "'c boot_stage_descriptor \<Rightarrow> 'c boot_stage_descriptor" where
  "declare_process_address_space_foundation descriptor = descriptor
     \<lparr>required_capabilities := [BOOT_CAPABILITY_PAGE_TABLES_INSTALLED, BOOT_CAPABILITY_WRITE_XOR_EXECUTE_PROVED,
       BOOT_CAPABILITY_PHYSICAL_FRAME_ALLOCATOR_AVAILABLE, BOOT_CAPABILITY_HEAP_AVAILABLE,
       BOOT_CAPABILITY_IDT_INSTALLED, BOOT_CAPABILITY_INTERRUPT_CONTROLLERS_CONFIGURED],
      provided_capabilities := [BOOT_CAPABILITY_PROCESS_ADDRESS_SPACE_FOUNDATION_AVAILABLE]\<rparr>"

definition declare_elf64_loader_foundation :: "'c boot_stage_descriptor \<Rightarrow> 'c boot_stage_descriptor" where
  "declare_elf64_loader_foundation descriptor = descriptor
     \<lparr>required_capabilities := [BOOT_CAPABILITY_PROCESS_ADDRESS_SPACE_FOUNDATION_AVAILABLE],
      provided_capabilities := [BOOT_CAPABILITY_ELF64_LOADER_FOUNDATION_AVAILABLE]\<rparr>"

definition declare_linux_syscall_cpu_foundation :: "'c boot_stage_descriptor \<Rightarrow> 'c boot_stage_descriptor" where
  "declare_linux_syscall_cpu_foundation descriptor = descriptor
     \<lparr>required_capabilities := [BOOT_CAPABILITY_PAGE_TABLES_INSTALLED, BOOT_CAPABILITY_IDT_INSTALLED,
       BOOT_CAPABILITY_INTERRUPT_CONTROLLERS_CONFIGURED,
       BOOT_CAPABILITY_PROCESS_ADDRESS_SPACE_FOUNDATION_AVAILABLE],
      provided_capabilities := [BOOT_CAPABILITY_LINUX_SYSCALL_CPU_FOUNDATION_AVAILABLE]\<rparr>"

definition declare_linux_image_stack_foundation :: "'c boot_stage_descriptor \<Rightarrow> 'c boot_stage_descriptor" where
  "declare_linux_image_stack_foundation descriptor = descriptor
     \<lparr>required_capabilities := [BOOT_CAPABILITY_FAT16_FOUNDATION_AVAILABLE, BOOT_CAPABILITY_PRIVATE_ONE_FILE_READ_AVAILABLE,
       BOOT_CAPABILITY_PROCESS_ADDRESS_SPACE_FOUNDATION_AVAILABLE,
       BOOT_CAPABILITY_ELF64_LOADER_FOUNDATION_AVAILABLE,
       BOOT_CAPABILITY_LINUX_SYSCALL_CPU_FOUNDATION_AVAILABLE],
      provided_capabilities := [BOOT_CAPABILITY_LINUX_IMAGE_STACK_FOUNDATION_AVAILABLE]\<rparr>"

definition declare_linux_uname_image_uts_foundation :: "'c boot_stage_descriptor \<Rightarrow> 'c boot_stage_descriptor" where
  "declare_linux_uname_image_uts_foundation descriptor = descriptor
     \<lparr>required_capabilities := [BOOT_CAPABILITY_FAT16_FOUNDATION_AVAILABLE, BOOT_CAPABILITY_PRIVATE_ONE_FILE_READ_AVAILABLE,
       BOOT_CAPABILITY_PROCESS_ADDRESS_SPACE_FOUNDATION_AVAILABLE,
       BOOT_CAPABILITY_ELF64_LOADER_FOUNDATION_AVAILABLE,
       BOOT_CAPABILITY_LINUX_SYSCALL_CPU_FOUNDATION_AVAILABLE,
       BOOT_CAPABILITY_LINUX_IMAGE_STACK_FOUNDATION_AVAILABLE],
      provided_capabilities := [BOOT_CAPABILITY_LINUX_UNAME_IMAGE_UTS_FOUNDATION_AVAILABLE,
       BOOT_CAPABILITY_LINUX_CAT_IMAGE_STDIN_FOUNDATION_AVAILABLE]\<rparr>"

definition declare_audio_foundation :: "'c boot_stage_descriptor \<Rightarrow> 'c boot_stage_descriptor" where
  "declare_audio_foundation descriptor = descriptor
     \<lparr>required_capabilities := [BOOT_CAPABILITY_PCI_ACCESS_AVAILABLE, BOOT_CAPABILITY_DMA_FOUNDATION_AVAILABLE],
      provided_capabilities := [BOOT_CAPABILITY_AUDIO_FOUNDATION_AVAILABLE]\<rparr>"

definition declare_audio_codec_proof :: "'c boot_stage_descriptor \<Rightarrow> 'c boot_stage_descriptor" where
  "declare_audio_codec_proof descriptor = descriptor
     \<lparr>required_capabilities := audio_proof_requirements,
      provided_capabilities := [BOOT_CAPABILITY_AUDIO_CODEC_PROOF_COMPLETE],
      skipped_capabilities := [BOOT_CAPABILITY_AUDIO_CONTROLLER_ABSENT]\<rparr>"

definition declare_nvidia_foundation :: "'c boot_stage_descriptor \<Rightarrow> 'c boot_stage_descriptor" where
  "declare_nvidia_foundation descriptor = descriptor
     \<lparr>required_capabilities := [BOOT_CAPABILITY_PCI_ACCESS_AVAILABLE],
      provided_capabilities := [BOOT_CAPABILITY_NVIDIA_FOUNDATION_AVAILABLE]\<rparr>"

definition declare_nvidia_probe :: "'c boot_stage_descriptor \<Rightarrow> 'c boot_stage_descriptor" where
  "declare_nvidia_probe descriptor = descriptor
     \<lparr>required_capabilities := nvidia_probe_requirements,
      provided_capabilities := [BOOT_CAPABILITY_NVIDIA_PROBE_COMPLETE],
      skipped_capabilities := [BOOT_CAPABILITY_NVIDIA_FUNCTIONS_ABSENT]\<rparr>"

definition declare_driver_matrix_foundation :: "'c boot_stage_descriptor \<Rightarrow> 'c boot_stage_descriptor" where
  "declare_driver_matrix_foundation descriptor = descriptor
     \<lparr>required_capabilities := [BOOT_CAPABILITY_PCI_ACCESS_AVAILABLE, BOOT_CAPABILITY_PCI_RESOURCE_OWNERSHIP_AVAILABLE],
      provided_capabilities := [BOOT_CAPABILITY_DRIVER_MATRIX_FOUNDATION_AVAILABLE]\<rparr>"

definition declare_driver_matrix_probe :: "'c boot_stage_descriptor \<Rightarrow> 'c boot_stage_descriptor" where
  "declare_driver_matrix_probe descriptor = descriptor
     \<lparr>required_capabilities := driver_matrix_requirements,
      provided_capabilities := [BOOT_CAPABILITY_DRIVER_MATRIX_PROBE_COMPLETE],
      skipped_capabilities := [BOOT_CAPABILITY_DRIVER_MATRIX_DEVICES_ABSENT]\<rparr>"

definition declare_multiprocess_foundation :: "'c boot_stage_descriptor \<Rightarrow> 'c boot_stage_descriptor" where
  "declare_multiprocess_foundation descriptor = descriptor
     \<lparr>required_capabilities := [BOOT_CAPABILITY_PROCESS_ADDRESS_SPACE_FOUNDATION_AVAILABLE,
       BOOT_CAPABILITY_ELF64_LOADER_FOUNDATION_AVAILABLE],
      provided_capabilities := [BOOT_CAPABILITY_MULTIPROCESS_FOUNDATION_AVAILABLE]\<rparr>"

definition declare_multiprocess_proof :: "'c boot_stage_descriptor \<Rightarrow> 'c boot_stage_descriptor" where
  "declare_multiprocess_proof descriptor = descriptor
     \<lparr>required_capabilities := multiprocess_proof_requirements,
      provided_capabilities := [BOOT_CAPABILITY_MULTIPROCESS_PROOF_COMPLETE]\<rparr>"

definition declare_process_installed_proof :: "'c boot_stage_descriptor \<Rightarrow> 'c boot_stage_descriptor" where
  "declare_process_installed_proof descriptor = descriptor
     \<lparr>required_capabilities := process_proof_requirements,
      provided_capabilities := [BOOT_CAPABILITY_PROCESS_INSTALLED_PROOF_COMPLETE, BOOT_CAPABILITY_PROCESS_OUTCOME_DECIDED],
      skipped_capabilities := [BOOT_CAPABILITY_PROCESS_FIXTURE_ABSENT, BOOT_CAPABILITY_PROCESS_OUTCOME_DECIDED]\<rparr>"

definition declare_linux_installed_proof :: "'c boot_stage_descriptor \<Rightarrow> 'c boot_stage_descriptor" where
  "declare_linux_installed_proof descriptor = descriptor
     \<lparr>required_capabilities := linux_proof_requirements,
      provided_capabilities := [BOOT_CAPABILITY_LINUX_INSTALLED_PROOF_COMPLETE, BOOT_CAPABILITY_LINUX_OUTCOME_DECIDED],
      skipped_capabilities := [BOOT_CAPABILITY_LINUX_FIXTURE_ABSENT, BOOT_CAPABILITY_LINUX_OUTCOME_DECIDED]\<rparr>"

definition declare_linux_uname_installed_proof :: "'c boot_stage_descriptor \<Rightarrow> 'c boot_stage_descriptor" where
  "declare_linux_uname_installed_proof descriptor = descriptor
     \<lparr>required_capabilities := linux_uname_proof_requirements,
      provided_capabilities := [BOOT_CAPABILITY_LINUX_UNAME_INSTALLED_PROOF_COMPLETE, BOOT_CAPABILITY_LINUX_UNAME_OUTCOME_DECIDED],
      skipped_capabilities := [BOOT_CAPABILITY_LINUX_UNAME_FIXTURE_ABSENT, BOOT_CAPABILITY_LINUX_UNAME_OUTCOME_DECIDED]\<rparr>"

definition declare_closing_proofs :: "'c boot_stage_descriptor \<Rightarrow> 'c boot_stage_descriptor" where
  "declare_closing_proofs descriptor = descriptor
     \<lparr>required_capabilities := [BOOT_CAPABILITY_PAGE_TABLES_INSTALLED, BOOT_CAPABILITY_INSTALLED_DEVICE_WINDOWS_PROVED,
       BOOT_CAPABILITY_HEAP_AVAILABLE, BOOT_CAPABILITY_PCI_ACCESS_AVAILABLE,
       BOOT_CAPABILITY_SCHEDULER_AVAILABLE, BOOT_CAPABILITY_PROCESS_ADDRESS_SPACE_FOUNDATION_AVAILABLE,
       BOOT_CAPABILITY_ELF64_LOADER_FOUNDATION_AVAILABLE, BOOT_CAPABILITY_PROCESS_OUTCOME_DECIDED,
       BOOT_CAPABILITY_LINUX_SYSCALL_CPU_FOUNDATION_AVAILABLE,
       BOOT_CAPABILITY_LINUX_IMAGE_STACK_FOUNDATION_AVAILABLE, BOOT_CAPABILITY_LINUX_OUTCOME_DECIDED,
       BOOT_CAPABILITY_LINUX_UNAME_IMAGE_UTS_FOUNDATION_AVAILABLE,
       BOOT_CAPABILITY_LINUX_UNAME_OUTCOME_DECIDED,
       BOOT_CAPABILITY_LINUX_CAT_IMAGE_STDIN_FOUNDATION_AVAILABLE],
      provided_capabilities := [BOOT_CAPABILITY_BOOT_PROOFS_COMPLETE]\<rparr>"

definition declare_desktop_construction :: "'c boot_stage_descriptor \<Rightarrow> 'c boot_stage_descriptor" where
  "declare_desktop_construction descriptor = descriptor
     \<lparr>required_capabilities := [BOOT_CAPABILITY_SURFACE_AVAILABLE, BOOT_CAPABILITY_UI_FONT_VERIFIED,
       BOOT_CAPABILITY_UI_LAYOUT_VALIDATED, BOOT_CAPABILITY_POINTER_AVAILABILITY_DECIDED,
       BOOT_CAPABILITY_NETWORK_AVAILABILITY_DECIDED],
      provided_capabilities := [BOOT_CAPABILITY_DESKTOP_SHELL_AVAILABLE]\<rparr>"

definition declare_desktop_activation :: "'c boot_stage_descriptor \<Rightarrow> 'c boot_stage_descriptor" where
  "declare_desktop_activation descriptor = descriptor
     \<lparr>required_capabilities := [BOOT_CAPABILITY_DESKTOP_SHELL_AVAILABLE, BOOT_CAPABILITY_FRAMEBUFFER_OUTPUT_INSTALLED,
       BOOT_CAPABILITY_FRAMEBUFFER_WC_INDEPENDENTLY_PROVED, BOOT_CAPABILITY_SURFACE_AVAILABLE,
       BOOT_CAPABILITY_UI_FONT_VERIFIED, BOOT_CAPABILITY_UI_LAYOUT_VALIDATED,
       BOOT_CAPABILITY_KEYBOARD_AVAILABLE, BOOT_CAPABILITY_THREADING_AVAILABLE,
       BOOT_CAPABILITY_SCHEDULER_AVAILABLE, BOOT_CAPABILITY_BOOT_PROOFS_COMPLETE],
      provided_capabilities := [BOOT_CAPABILITY_DESKTOP_SHELL_ACTIVATED]\<rparr>"

definition declare_redwood_installed_proof :: "'c boot_stage_descriptor \<Rightarrow> 'c boot_stage_descriptor" where
  "declare_redwood_installed_proof descriptor = descriptor
     \<lparr>required_capabilities := [BOOT_CAPABILITY_DESKTOP_SHELL_ACTIVATED, BOOT_CAPABILITY_FRAMEBUFFER_WC_INDEPENDENTLY_PROVED,
       BOOT_CAPABILITY_BOOT_PROOFS_COMPLETE],
      provided_capabilities := [BOOT_CAPABILITY_REDWOOD_INSTALLED_PROOF_COMPLETE]\<rparr>"

definition declare_dependencies :: "'c boot_stage_descriptor \<Rightarrow> 'c boot_stage_descriptor option" where
  "declare_dependencies descriptor =
     (let stage = sd_id descriptor in
      if stage = BOOT_STAGE_EARLY_SERIAL then Some (declare_early_serial descriptor) else
      if stage = BOOT_STAGE_INTERRUPT_FOUNDATION then Some (declare_interrupt_foundation descriptor) else
      if stage = BOOT_STAGE_PURE_SELF_TESTS then Some (declare_pure_self_tests descriptor) else
      if stage = BOOT_STAGE_BOOT_INFORMATION then Some (declare_boot_information descriptor) else
      if stage = BOOT_STAGE_FIRMWARE_DISCOVERY then Some (declare_firmware_discovery descriptor) else
      if stage = BOOT_STAGE_DEVICE_WINDOWS then Some (declare_device_windows descriptor) else
      if stage = BOOT_STAGE_INTERRUPT_CONTROLLERS then Some (declare_interrupt_controllers descriptor) else
      if stage = BOOT_STAGE_FRAME_ALLOCATOR then Some (declare_frame_allocator descriptor) else
      if stage = BOOT_STAGE_PAGING_INSTALL then Some (declare_paging_install descriptor) else
      if stage = BOOT_STAGE_PAGING_PROOFS then Some (declare_paging_proofs descriptor) else
      if stage = BOOT_STAGE_FRAMEBUFFER_WC then Some (declare_framebuffer_wc descriptor) else
      if stage = BOOT_STAGE_MEMORY_RUNTIME then Some (declare_memory_runtime descriptor) else
      if stage = BOOT_STAGE_FRAMEBUFFER_OUTPUT then Some (declare_framebuffer_output descriptor) else
      if stage = BOOT_STAGE_KEYBOARD then Some (declare_keyboard descriptor) else
      if stage = BOOT_STAGE_SHELL then Some (declare_shell descriptor) else
      if stage = BOOT_STAGE_UI_FONT then Some (declare_ui_font descriptor) else
      if stage = BOOT_STAGE_POINTER_DECISION then Some (declare_pointer_decision descriptor) else
      if stage = BOOT_STAGE_POINTER_OUTCOME then Some (declare_pointer_outcome descriptor) else
      if stage = BOOT_STAGE_UI_LAYOUT then Some (declare_ui_layout descriptor) else
      if stage = BOOT_STAGE_EARLY_SCENARIO then Some (declare_early_scenario descriptor) else
      if stage = BOOT_STAGE_INTERRUPT_PROOFS then Some (declare_interrupt_proofs descriptor) else
      if stage = BOOT_STAGE_TIMER_ROUTING then Some (declare_timer_routing descriptor) else
      if stage = BOOT_STAGE_TIMER_CALIBRATION then Some (declare_timer_calibration descriptor) else
      if stage = BOOT_STAGE_PCI then Some (declare_pci descriptor) else
      if stage = BOOT_STAGE_PCI_RESOURCE_FOUNDATION then Some (declare_pci_resource_foundation descriptor) else
      if stage = BOOT_STAGE_DYNAMIC_VECTOR_FOUNDATION then Some (declare_dynamic_vector_foundation descriptor) else
      if stage = BOOT_STAGE_DMA_FOUNDATION then Some (declare_dma_foundation descriptor) else
      if stage = BOOT_STAGE_NETWORK_FOUNDATION then Some (declare_network_foundation descriptor) else
      if stage = BOOT_STAGE_THREADING then Some (declare_threading descriptor) else
      if stage = BOOT_STAGE_SCHEDULER then Some (declare_scheduler descriptor) else
      if stage = BOOT_STAGE_DEVICE_SUBSTRATE_PROOF then Some (declare_device_substrate_proof descriptor) else
      if stage = BOOT_STAGE_XHCI_FOUNDATION then Some (declare_xhci_foundation descriptor) else
      if stage = BOOT_STAGE_XHCI_DESCRIPTOR_PROOF then Some (declare_xhci_descriptor_proof descriptor) else
      if stage = BOOT_STAGE_NVME_FOUNDATION then Some (declare_nvme_foundation descriptor) else
      if stage = BOOT_STAGE_NVME_READ_PROOF then Some (declare_nvme_read_proof descriptor) else
      if stage = BOOT_STAGE_FAT16_FOUNDATION then Some (declare_fat16_foundation descriptor) else
      if stage = BOOT_STAGE_FILESYSTEM_FILE_PROOF then Some (declare_filesystem_file_proof descriptor) else
      if stage = BOOT_STAGE_PROCESS_ADDRESS_SPACE_FOUNDATION then Some (declare_process_address_space_foundation descriptor) else
      if stage = BOOT_STAGE_ELF64_LOADER_FOUNDATION then Some (declare_elf64_loader_foundation descriptor) else
      if stage = BOOT_STAGE_LINUX_SYSCALL_CPU_FOUNDATION then Some (declare_linux_syscall_cpu_foundation descriptor) else
      if stage = BOOT_STAGE_LINUX_IMAGE_STACK_FOUNDATION then Some (declare_linux_image_stack_foundation descriptor) else
      if stage = BOOT_STAGE_LINUX_UNAME_IMAGE_UTS_FOUNDATION then Some (declare_linux_uname_image_uts_foundation descriptor) else
      if stage = BOOT_STAGE_AUDIO_FOUNDATION then Some (declare_audio_foundation descriptor) else
      if stage = BOOT_STAGE_AUDIO_CODEC_PROOF then Some (declare_audio_codec_proof descriptor) else
      if stage = BOOT_STAGE_NVIDIA_FOUNDATION then Some (declare_nvidia_foundation descriptor) else
      if stage = BOOT_STAGE_NVIDIA_PROBE then Some (declare_nvidia_probe descriptor) else
      if stage = BOOT_STAGE_DRIVER_MATRIX_FOUNDATION then Some (declare_driver_matrix_foundation descriptor) else
      if stage = BOOT_STAGE_DRIVER_MATRIX_PROBE then Some (declare_driver_matrix_probe descriptor) else
      if stage = BOOT_STAGE_MULTIPROCESS_FOUNDATION then Some (declare_multiprocess_foundation descriptor) else
      if stage = BOOT_STAGE_MULTIPROCESS_PROOF then Some (declare_multiprocess_proof descriptor) else
      if stage = BOOT_STAGE_PROCESS_INSTALLED_PROOF then Some (declare_process_installed_proof descriptor) else
      if stage = BOOT_STAGE_LINUX_INSTALLED_PROOF then Some (declare_linux_installed_proof descriptor) else
      if stage = BOOT_STAGE_LINUX_UNAME_INSTALLED_PROOF then Some (declare_linux_uname_installed_proof descriptor) else
      if stage = BOOT_STAGE_CLOSING_PROOFS then Some (declare_closing_proofs descriptor) else
      if stage = BOOT_STAGE_DESKTOP_CONSTRUCTION then Some (declare_desktop_construction descriptor) else
      if stage = BOOT_STAGE_DESKTOP_ACTIVATION then Some (declare_desktop_activation descriptor) else
      if stage = BOOT_STAGE_REDWOOD_INSTALLED_PROOF then Some (declare_redwood_installed_proof descriptor) else
      None)"

lemmas declares =
  declare_early_serial_def declare_interrupt_foundation_def declare_pure_self_tests_def
  declare_boot_information_def declare_firmware_discovery_def declare_device_windows_def
  declare_interrupt_controllers_def declare_frame_allocator_def declare_paging_install_def
  declare_paging_proofs_def declare_framebuffer_wc_def declare_memory_runtime_def
  declare_framebuffer_output_def declare_keyboard_def declare_shell_def
  declare_ui_font_def declare_pointer_decision_def declare_pointer_outcome_def
  declare_ui_layout_def declare_early_scenario_def declare_interrupt_proofs_def
  declare_timer_routing_def declare_timer_calibration_def declare_pci_def
  declare_pci_resource_foundation_def declare_dynamic_vector_foundation_def declare_dma_foundation_def
  declare_network_foundation_def declare_threading_def declare_scheduler_def
  declare_device_substrate_proof_def declare_xhci_foundation_def declare_xhci_descriptor_proof_def
  declare_nvme_foundation_def declare_nvme_read_proof_def declare_fat16_foundation_def
  declare_filesystem_file_proof_def declare_process_address_space_foundation_def declare_elf64_loader_foundation_def
  declare_linux_syscall_cpu_foundation_def declare_linux_image_stack_foundation_def declare_linux_uname_image_uts_foundation_def
  declare_audio_foundation_def declare_audio_codec_proof_def declare_nvidia_foundation_def
  declare_nvidia_probe_def declare_driver_matrix_foundation_def declare_driver_matrix_probe_def
  declare_multiprocess_foundation_def declare_multiprocess_proof_def declare_process_installed_proof_def
  declare_linux_installed_proof_def declare_linux_uname_installed_proof_def declare_closing_proofs_def
  declare_desktop_construction_def declare_desktop_activation_def declare_redwood_installed_proof_def

lemmas requirement_arrays =
  process_proof_requirements_def
  linux_proof_requirements_def
  linux_uname_proof_requirements_def
  multiprocess_proof_requirements_def
  driver_matrix_requirements_def
  audio_proof_requirements_def
  nvidia_probe_requirements_def
  filesystem_file_requirements_def


section \<open>Building the plan\<close>

text \<open>The loop of \<open>boot_plan_build\<close> over the table.\<close>

fun build_stages :: "'c boot_stage_descriptor list \<Rightarrow> 'c boot_ledger option \<Rightarrow> boot_ledger_status \<times> 'c boot_ledger option" where
  "build_stages [] ledger = (BOOT_LEDGER_STATUS_OK, ledger)"
| "build_stages (descriptor # rest) ledger =
     (case declare_dependencies descriptor of
        None \<Rightarrow>
          (BOOT_LEDGER_STATUS_UNKNOWN_STAGE_IDENTIFIER,
           map_option (set_refusal (BOOT_LEDGER_STATUS_UNKNOWN_STAGE_IDENTIFIER, sd_id descriptor, BOOT_CAPABILITY_INVALID)) ledger)
      | Some descriptor \<Rightarrow>
          (case boot_ledger_add_stage (Some descriptor) ledger of
             (status, ledger) \<Rightarrow>
               if status = BOOT_LEDGER_STATUS_OK then build_stages rest ledger else (status, ledger)))"

definition boot_plan_build :: "(nat \<Rightarrow> 'c boot_stage_execute) \<Rightarrow> 'c boot_ledger option \<Rightarrow> boot_ledger_status \<times> 'c boot_ledger option" where
  "boot_plan_build execute ledger_pointer =
     (case ledger_pointer of
        None \<Rightarrow> (BOOT_LEDGER_STATUS_NULL_ARGUMENT, None)
      | Some ledger \<Rightarrow> build_stages (installed_descriptors execute) (boot_ledger_reset (Some ledger)))"

section \<open>Booting\<close>

text \<open>
  What \<open>kernel.c\<close> does with the plan: it builds, validates and executes it, and stops at the first
  status other than OK.
\<close>

definition kernel_boot ::
  "(nat \<Rightarrow> 'c boot_stage_execute) \<Rightarrow> 'c boot_ledger \<Rightarrow> 'c boot_context \<Rightarrow>
     boot_ledger_status \<times> 'c boot_context option \<times> 'c boot_ledger option" where
  "kernel_boot execute installed_ledger installed_context =
     (case boot_plan_build execute (Some installed_ledger) of
        (status, ledger) \<Rightarrow>
          (case (if status = BOOT_LEDGER_STATUS_OK then boot_ledger_validate ledger else (status, ledger)) of
             (status, ledger) \<Rightarrow>
               if status \<noteq> BOOT_LEDGER_STATUS_OK then (status, Some installed_context, ledger)
               else boot_ledger_execute ledger (Some installed_context)))"

section \<open>Proof stages\<close>

definition dependencies_complete :: "'c boot_stage_descriptor option \<Rightarrow> nat list \<Rightarrow> bool" where
  "dependencies_complete descriptor_pointer required =
     (case descriptor_pointer of
        None \<Rightarrow> False
      | Some descriptor \<Rightarrow>
          length (required_capabilities descriptor) = length required \<and>
          list_all (\<lambda>capability. list_ex (\<lambda>declared. declared = capability) (required_capabilities descriptor)) required)"

definition device_proof_dependencies_complete :: "'c boot_stage_descriptor option \<Rightarrow> bool" where
  "device_proof_dependencies_complete descriptor = dependencies_complete descriptor
     [BOOT_CAPABILITY_PAGE_TABLES_INSTALLED, BOOT_CAPABILITY_PCI_ACCESS_AVAILABLE,
     BOOT_CAPABILITY_HEAP_AVAILABLE, BOOT_CAPABILITY_PHYSICAL_FRAME_ALLOCATOR_AVAILABLE,
     BOOT_CAPABILITY_INTERRUPT_CONTROLLERS_CONFIGURED, BOOT_CAPABILITY_INTERRUPTS_ENABLED,
     BOOT_CAPABILITY_THREADING_AVAILABLE, BOOT_CAPABILITY_SCHEDULER_AVAILABLE,
     BOOT_CAPABILITY_PCI_RESOURCE_OWNERSHIP_AVAILABLE,
     BOOT_CAPABILITY_DYNAMIC_VECTOR_FOUNDATION_AVAILABLE, BOOT_CAPABILITY_DMA_FOUNDATION_AVAILABLE]"

definition xhci_proof_dependencies_complete :: "'c boot_stage_descriptor option \<Rightarrow> bool" where
  "xhci_proof_dependencies_complete descriptor = dependencies_complete descriptor
     [BOOT_CAPABILITY_PAGE_TABLES_INSTALLED, BOOT_CAPABILITY_PCI_ACCESS_AVAILABLE,
     BOOT_CAPABILITY_HEAP_AVAILABLE, BOOT_CAPABILITY_PHYSICAL_FRAME_ALLOCATOR_AVAILABLE,
     BOOT_CAPABILITY_INTERRUPT_CONTROLLERS_CONFIGURED, BOOT_CAPABILITY_INTERRUPTS_ENABLED,
     BOOT_CAPABILITY_TIMER_CALIBRATION_COMPLETE, BOOT_CAPABILITY_THREADING_AVAILABLE,
     BOOT_CAPABILITY_SCHEDULER_AVAILABLE, BOOT_CAPABILITY_PCI_RESOURCE_OWNERSHIP_AVAILABLE,
     BOOT_CAPABILITY_DYNAMIC_VECTOR_FOUNDATION_AVAILABLE, BOOT_CAPABILITY_DMA_FOUNDATION_AVAILABLE,
     BOOT_CAPABILITY_XHCI_FOUNDATION_AVAILABLE]"

definition nvme_proof_dependencies_complete :: "'c boot_stage_descriptor option \<Rightarrow> bool" where
  "nvme_proof_dependencies_complete descriptor = dependencies_complete descriptor
     [BOOT_CAPABILITY_PAGE_TABLES_INSTALLED, BOOT_CAPABILITY_PCI_ACCESS_AVAILABLE,
     BOOT_CAPABILITY_HEAP_AVAILABLE, BOOT_CAPABILITY_PHYSICAL_FRAME_ALLOCATOR_AVAILABLE,
     BOOT_CAPABILITY_INTERRUPT_CONTROLLERS_CONFIGURED, BOOT_CAPABILITY_INTERRUPTS_ENABLED,
     BOOT_CAPABILITY_TIMER_CALIBRATION_COMPLETE, BOOT_CAPABILITY_THREADING_AVAILABLE,
     BOOT_CAPABILITY_SCHEDULER_AVAILABLE, BOOT_CAPABILITY_PCI_RESOURCE_OWNERSHIP_AVAILABLE,
     BOOT_CAPABILITY_DYNAMIC_VECTOR_FOUNDATION_AVAILABLE, BOOT_CAPABILITY_DMA_FOUNDATION_AVAILABLE,
     BOOT_CAPABILITY_NVME_FOUNDATION_AVAILABLE]"

definition filesystem_proof_dependencies_complete :: "'c boot_stage_descriptor option \<Rightarrow> bool" where
  "filesystem_proof_dependencies_complete descriptor = dependencies_complete descriptor
     [BOOT_CAPABILITY_PAGE_TABLES_INSTALLED, BOOT_CAPABILITY_PCI_ACCESS_AVAILABLE,
     BOOT_CAPABILITY_HEAP_AVAILABLE, BOOT_CAPABILITY_PHYSICAL_FRAME_ALLOCATOR_AVAILABLE,
     BOOT_CAPABILITY_INTERRUPT_CONTROLLERS_CONFIGURED, BOOT_CAPABILITY_INTERRUPTS_ENABLED,
     BOOT_CAPABILITY_TIMER_CALIBRATION_COMPLETE, BOOT_CAPABILITY_THREADING_AVAILABLE,
     BOOT_CAPABILITY_SCHEDULER_AVAILABLE, BOOT_CAPABILITY_PCI_RESOURCE_OWNERSHIP_AVAILABLE,
     BOOT_CAPABILITY_DYNAMIC_VECTOR_FOUNDATION_AVAILABLE, BOOT_CAPABILITY_DMA_FOUNDATION_AVAILABLE,
     BOOT_CAPABILITY_NVME_FOUNDATION_AVAILABLE, BOOT_CAPABILITY_FAT16_FOUNDATION_AVAILABLE]"

definition process_proof_dependencies_complete :: "'c boot_stage_descriptor option \<Rightarrow> bool" where
  "process_proof_dependencies_complete descriptor = dependencies_complete descriptor
     process_proof_requirements"

definition linux_proof_dependencies_complete :: "'c boot_stage_descriptor option \<Rightarrow> bool" where
  "linux_proof_dependencies_complete descriptor = dependencies_complete descriptor
     linux_proof_requirements"

definition linux_uname_proof_dependencies_complete :: "'c boot_stage_descriptor option \<Rightarrow> bool" where
  "linux_uname_proof_dependencies_complete descriptor = dependencies_complete descriptor
     linux_uname_proof_requirements"

definition multiprocess_proof_dependencies_complete :: "'c boot_stage_descriptor option \<Rightarrow> bool" where
  "multiprocess_proof_dependencies_complete descriptor = dependencies_complete descriptor
     multiprocess_proof_requirements"

definition driver_matrix_dependencies_complete :: "'c boot_stage_descriptor option \<Rightarrow> bool" where
  "driver_matrix_dependencies_complete descriptor = dependencies_complete descriptor
     driver_matrix_requirements"

definition audio_proof_dependencies_complete :: "'c boot_stage_descriptor option \<Rightarrow> bool" where
  "audio_proof_dependencies_complete descriptor = dependencies_complete descriptor
     audio_proof_requirements"

definition nvidia_probe_dependencies_complete :: "'c boot_stage_descriptor option \<Rightarrow> bool" where
  "nvidia_probe_dependencies_complete descriptor = dependencies_complete descriptor
     nvidia_probe_requirements"

definition stage_failed :: "string \<Rightarrow> 'c boot_context \<Rightarrow> 'c boot_context \<times> boot_stage_result" where
  "stage_failed detail context = (context\<lparr>stage_failure_detail := Some detail\<rparr>, fail_result)"

text \<open>The scenarios the kernel may be booted to test, as far as the proof stages ask for them.\<close>

definition KERNEL_TEST_NONE :: nat where "KERNEL_TEST_NONE = 0"
definition KERNEL_TEST_NVME :: nat where "KERNEL_TEST_NVME = 35"
definition KERNEL_TEST_FILESYSTEM :: nat where "KERNEL_TEST_FILESYSTEM = 36"
definition KERNEL_TEST_PROCESS :: nat where "KERNEL_TEST_PROCESS = 37"
definition KERNEL_TEST_LINUX_ABI :: nat where "KERNEL_TEST_LINUX_ABI = 38"
definition KERNEL_TEST_LINUX_ABI_UNAME :: nat where "KERNEL_TEST_LINUX_ABI_UNAME = 39"
definition KERNEL_TEST_REDWOOD_PROOF_USERLAND :: nat where "KERNEL_TEST_REDWOOD_PROOF_USERLAND = 40"
definition KERNEL_TEST_REDWOOD_PROOF_USERLAND_ABSENT :: nat where "KERNEL_TEST_REDWOOD_PROOF_USERLAND_ABSENT = 41"
definition KERNEL_TEST_REDWOOD_PROOF_USERLAND_INTERACTIVE :: nat where "KERNEL_TEST_REDWOOD_PROOF_USERLAND_INTERACTIVE = 42"
definition KERNEL_TEST_REDWOOD_PROOF_USERLAND_INTERACTIVE_ABSENT :: nat where "KERNEL_TEST_REDWOOD_PROOF_USERLAND_INTERACTIVE_ABSENT = 43"
definition KERNEL_TEST_FAT32_SYSTEM :: nat where "KERNEL_TEST_FAT32_SYSTEM = 44"
definition KERNEL_TEST_FAT32_HANDLES :: nat where "KERNEL_TEST_FAT32_HANDLES = 58"
definition KERNEL_TEST_NETWORK_NIC_DISCOVERY :: nat where "KERNEL_TEST_NETWORK_NIC_DISCOVERY = 59"
definition KERNEL_TEST_NETWORK_SOCKET_ISOLATION :: nat where "KERNEL_TEST_NETWORK_SOCKET_ISOLATION = 92"
definition KERNEL_TEST_NATIVE :: nat where "KERNEL_TEST_NATIVE = 102"
definition KERNEL_TEST_NATIVE_RELAUNCH :: nat where "KERNEL_TEST_NATIVE_RELAUNCH = 112"
definition KERNEL_TEST_DRIVER_MATRIX :: nat where "KERNEL_TEST_DRIVER_MATRIX = 97"
definition KERNEL_TEST_DRIVER_MATRIX_BUILTIN :: nat where "KERNEL_TEST_DRIVER_MATRIX_BUILTIN = 98"
definition KERNEL_TEST_AUDIO :: nat where "KERNEL_TEST_AUDIO = 99"
definition KERNEL_TEST_NVIDIA :: nat where "KERNEL_TEST_NVIDIA = 100"

definition test_uses_redwood_proof_userland :: "nat \<Rightarrow> bool" where
  "test_uses_redwood_proof_userland scenario \<longleftrightarrow>
     scenario = KERNEL_TEST_REDWOOD_PROOF_USERLAND \<or>
     scenario = KERNEL_TEST_REDWOOD_PROOF_USERLAND_ABSENT \<or>
     scenario = KERNEL_TEST_REDWOOD_PROOF_USERLAND_INTERACTIVE \<or>
     scenario = KERNEL_TEST_REDWOOD_PROOF_USERLAND_INTERACTIVE_ABSENT"

definition test_uses_fat32_volumes :: "nat \<Rightarrow> bool" where
  "test_uses_fat32_volumes scenario \<longleftrightarrow>
     scenario \<ge> KERNEL_TEST_FAT32_SYSTEM \<and> scenario \<le> KERNEL_TEST_FAT32_HANDLES \<or>
     scenario \<ge> KERNEL_TEST_NETWORK_NIC_DISCOVERY \<and> scenario \<le> KERNEL_TEST_NETWORK_SOCKET_ISOLATION \<or>
     scenario \<ge> KERNEL_TEST_NATIVE \<and> scenario \<le> KERNEL_TEST_NATIVE_RELAUNCH"

text \<open>What the proof itself reports: its device is absent, it failed, or it holds with two counters.\<close>

datatype proof_outcome = Proof_Absent | Proof_Failed string | Proof_Held "64 word" "64 word"

definition never_absent ::
  "('c boot_context \<Rightarrow> 'c boot_context \<times> (string + 64 word \<times> 64 word)) \<Rightarrow> 'c boot_context \<Rightarrow> 'c boot_context \<times> proof_outcome" where
  "never_absent prove context =
     (case prove context of
        (context, Inl detail) \<Rightarrow> (context, Proof_Failed detail)
      | (context, Inr (first, second)) \<Rightarrow> (context, Proof_Held first second))"

text \<open>
  The shape the callbacks of all proof stages have: the prerequisites of the descriptor are
  complete, they are not with one fewer or with the final one replaced by the first, the stage
  applies to this boot, and the proof holds.
\<close>

definition proof_stage ::
  "('c boot_stage_descriptor option \<Rightarrow> bool) \<Rightarrow> string \<Rightarrow> string \<Rightarrow> bool \<Rightarrow> ('c boot_context \<Rightarrow> bool) \<Rightarrow>
     ('c boot_context \<Rightarrow> 'c boot_context \<times> proof_outcome) \<Rightarrow> 'c boot_stage_descriptor \<Rightarrow> 'c boot_stage_execute" where
  "proof_stage complete incomplete_detail controls_detail exit_self_test fixture prove descriptor context result =
     (if \<not> complete (Some descriptor) then stage_failed incomplete_detail context
      else
        let required = required_capabilities descriptor;
            missing_count = descriptor\<lparr>required_capabilities := take (length required - 1) required\<rparr>;
            missing_member = descriptor\<lparr>required_capabilities := required[length required - 1 := required ! 0]\<rparr>
        in if complete (Some missing_count) \<or> complete (Some missing_member) \<or> \<not> exit_self_test
             then stage_failed controls_detail context
           else if \<not> fixture context then (context, skip_result descriptor)
           else (case prove context of
               (context, Proof_Absent) \<Rightarrow> (context, skip_result descriptor)
             | (context, Proof_Failed detail) \<Rightarrow> stage_failed detail context
             | (context, Proof_Held first second) \<Rightarrow>
                 (context, (succeed_result descriptor)\<lparr>sr_proof_counters := [first, second]\<rparr>)))"

definition execute_device_substrate_proof ::
  "bool \<Rightarrow> ('c boot_context \<Rightarrow> 'c boot_context \<times> proof_outcome) \<Rightarrow>
     'c boot_stage_descriptor \<Rightarrow> 'c boot_stage_execute" where
  "execute_device_substrate_proof exit_self_test prove =
     proof_stage device_proof_dependencies_complete
       ''device-substrate proof prerequisite set is incomplete''
       ''device-substrate contract negative controls failed'' exit_self_test
       (\<lambda>_. True)
       prove"

definition execute_xhci_descriptor_proof ::
  "bool \<Rightarrow> ('c boot_context \<Rightarrow> 'c boot_context \<times> proof_outcome) \<Rightarrow>
     'c boot_stage_descriptor \<Rightarrow> 'c boot_stage_execute" where
  "execute_xhci_descriptor_proof exit_self_test prove =
     proof_stage xhci_proof_dependencies_complete
       ''xHCI descriptor proof prerequisite set is incomplete''
       ''xHCI descriptor contract negative controls failed'' exit_self_test
       (\<lambda>_. True)
       prove"

definition execute_nvme_read_proof ::
  "bool \<Rightarrow> ('c boot_context \<Rightarrow> nat) \<Rightarrow> ('c boot_context \<Rightarrow> 'c boot_context \<times> proof_outcome) \<Rightarrow>
     'c boot_stage_descriptor \<Rightarrow> 'c boot_stage_execute" where
  "execute_nvme_read_proof exit_self_test test_scenario prove =
     proof_stage nvme_proof_dependencies_complete
       ''NVMe read proof prerequisite set is incomplete''
       ''NVMe read contract negative controls failed'' exit_self_test
       (\<lambda>context. let scenario = test_scenario context in
       \<not> (scenario = KERNEL_TEST_NONE \<or> scenario = KERNEL_TEST_FILESYSTEM \<or> scenario = KERNEL_TEST_PROCESS \<or>
       scenario = KERNEL_TEST_LINUX_ABI \<or> scenario = KERNEL_TEST_LINUX_ABI_UNAME \<or>
       test_uses_redwood_proof_userland scenario \<or> test_uses_fat32_volumes scenario))
       prove"

definition execute_filesystem_file_proof ::
  "bool \<Rightarrow> ('c boot_context \<Rightarrow> nat) \<Rightarrow> ('c boot_context \<Rightarrow> 'c boot_context \<times> proof_outcome) \<Rightarrow>
     'c boot_stage_descriptor \<Rightarrow> 'c boot_stage_execute" where
  "execute_filesystem_file_proof exit_self_test test_scenario prove =
     proof_stage filesystem_proof_dependencies_complete
       ''filesystem proof prerequisite set is incomplete''
       ''filesystem proof negative controls failed'' exit_self_test
       (\<lambda>context. let scenario = test_scenario context in
       \<not> (scenario = KERNEL_TEST_NONE \<or> scenario = KERNEL_TEST_NVME \<or> scenario = KERNEL_TEST_PROCESS \<or>
       scenario = KERNEL_TEST_LINUX_ABI \<or> scenario = KERNEL_TEST_LINUX_ABI_UNAME \<or>
       test_uses_redwood_proof_userland scenario \<or> test_uses_fat32_volumes scenario))
       prove"

definition execute_process_installed_proof ::
  "bool \<Rightarrow> ('c boot_context \<Rightarrow> nat) \<Rightarrow> ('c boot_context \<Rightarrow> 'c boot_context \<times> proof_outcome) \<Rightarrow>
     'c boot_stage_descriptor \<Rightarrow> 'c boot_stage_execute" where
  "execute_process_installed_proof exit_self_test test_scenario prove =
     proof_stage process_proof_dependencies_complete
       ''process proof prerequisite set is incomplete''
       ''process proof contract negative controls failed'' exit_self_test
       (\<lambda>context. let scenario = test_scenario context in
       scenario = KERNEL_TEST_PROCESS)
       prove"

definition execute_linux_installed_proof ::
  "bool \<Rightarrow> ('c boot_context \<Rightarrow> nat) \<Rightarrow> ('c boot_context \<Rightarrow> 'c boot_context \<times> proof_outcome) \<Rightarrow>
     'c boot_stage_descriptor \<Rightarrow> 'c boot_stage_execute" where
  "execute_linux_installed_proof exit_self_test test_scenario prove =
     proof_stage linux_proof_dependencies_complete
       ''Linux proof prerequisite set is incomplete''
       ''Linux proof contract negative controls failed'' exit_self_test
       (\<lambda>context. let scenario = test_scenario context in
       scenario = KERNEL_TEST_LINUX_ABI)
       prove"

definition execute_linux_uname_installed_proof ::
  "bool \<Rightarrow> ('c boot_context \<Rightarrow> nat) \<Rightarrow> ('c boot_context \<Rightarrow> 'c boot_context \<times> proof_outcome) \<Rightarrow>
     'c boot_stage_descriptor \<Rightarrow> 'c boot_stage_execute" where
  "execute_linux_uname_installed_proof exit_self_test test_scenario prove =
     proof_stage linux_uname_proof_dependencies_complete
       ''Linux uname proof prerequisite set is incomplete''
       ''Linux uname proof contract negative controls failed'' exit_self_test
       (\<lambda>context. let scenario = test_scenario context in
       scenario = KERNEL_TEST_LINUX_ABI_UNAME)
       prove"

definition execute_multiprocess_proof ::
  "('c boot_context \<Rightarrow> 'c boot_context \<times> (string + 64 word \<times> 64 word)) \<Rightarrow>
     'c boot_stage_descriptor \<Rightarrow> 'c boot_stage_execute" where
  "execute_multiprocess_proof prove =
     proof_stage multiprocess_proof_dependencies_complete
       ''multiprocess proof prerequisite set is incomplete''
       ''multiprocess proof contract negative controls failed'' True
       (\<lambda>_. True)
       (never_absent prove)"

definition execute_driver_matrix_probe ::
  "('c boot_context \<Rightarrow> nat) \<Rightarrow> ('c boot_context \<Rightarrow> 'c boot_context \<times> proof_outcome) \<Rightarrow>
     'c boot_stage_descriptor \<Rightarrow> 'c boot_stage_execute" where
  "execute_driver_matrix_probe test_scenario prove =
     proof_stage driver_matrix_dependencies_complete
       ''driver matrix prerequisite set is incomplete''
       ''driver matrix contract negative controls failed'' True
       (\<lambda>context. let scenario = test_scenario context in
       scenario = KERNEL_TEST_DRIVER_MATRIX \<or> scenario = KERNEL_TEST_DRIVER_MATRIX_BUILTIN)
       prove"

definition execute_audio_codec_proof ::
  "('c boot_context \<Rightarrow> nat) \<Rightarrow> ('c boot_context \<Rightarrow> 'c boot_context \<times> proof_outcome) \<Rightarrow>
     'c boot_stage_descriptor \<Rightarrow> 'c boot_stage_execute" where
  "execute_audio_codec_proof test_scenario prove =
     proof_stage audio_proof_dependencies_complete
       ''HD Audio proof prerequisite set is incomplete''
       ''HD Audio proof contract negative controls failed'' True
       (\<lambda>context. let scenario = test_scenario context in
       scenario = KERNEL_TEST_AUDIO)
       prove"

definition execute_nvidia_probe ::
  "('c boot_context \<Rightarrow> nat) \<Rightarrow> ('c boot_context \<Rightarrow> 'c boot_context \<times> (string + 64 word \<times> 64 word)) \<Rightarrow>
     'c boot_stage_descriptor \<Rightarrow> 'c boot_stage_execute" where
  "execute_nvidia_probe test_scenario prove =
     proof_stage nvidia_probe_dependencies_complete
       ''NVIDIA probe prerequisite set is incomplete''
       ''NVIDIA probe prerequisite check accepted an incomplete set'' True
       (\<lambda>context. let scenario = test_scenario context in
       scenario = KERNEL_TEST_NVIDIA)
       (never_absent prove)"

section \<open>The self-test of a machine without a pointer\<close>

definition synthetic_stage_success :: "'c boot_stage_descriptor \<Rightarrow> 'c boot_stage_execute" where
  "synthetic_stage_success descriptor = (\<lambda>context result. (context, succeed_result descriptor))"

definition synthetic_pointer_absent :: "'c boot_stage_descriptor \<Rightarrow> 'c boot_stage_execute" where
  "synthetic_pointer_absent descriptor = (\<lambda>context result. (context, skip_result descriptor))"

definition with_callback ::
  "('c boot_stage_descriptor \<Rightarrow> 'c boot_stage_execute) \<Rightarrow> 'c boot_stage_descriptor \<Rightarrow> 'c boot_stage_descriptor" where
  "with_callback callback descriptor = descriptor\<lparr>sd_execute := Some (callback descriptor)\<rparr>"

definition pointer_absence_descriptors :: "unit boot_stage_descriptor list" where
  "pointer_absence_descriptors = [
     with_callback synthetic_stage_success
       \<lparr>sd_id = BOOT_STAGE_POINTER_DECISION, sd_name = Some ''synthetic pointer decision'', required_capabilities = [],
        provided_capabilities = [BOOT_CAPABILITY_POINTER_AVAILABILITY_DECIDED], skipped_capabilities = [],
        sd_required = True, skip_preserves_health = False, sd_phase = BOOT_PHASE_RUNTIME,
        irreversible_class = BOOT_IRREVERSIBLE_NONE, sd_execute = None\<rparr>,
     with_callback synthetic_pointer_absent
       \<lparr>sd_id = BOOT_STAGE_POINTER_OUTCOME, sd_name = Some ''synthetic pointer absence'',
        required_capabilities = [BOOT_CAPABILITY_POINTER_AVAILABILITY_DECIDED],
        provided_capabilities = [BOOT_CAPABILITY_POINTER_INPUT_AVAILABLE],
        skipped_capabilities = [BOOT_CAPABILITY_POINTER_INPUT_ABSENT],
        sd_required = False, skip_preserves_health = True, sd_phase = BOOT_PHASE_RUNTIME,
        irreversible_class = BOOT_IRREVERSIBLE_NONE, sd_execute = None\<rparr>,
     with_callback synthetic_stage_success
       \<lparr>sd_id = BOOT_STAGE_UI_LAYOUT, sd_name = Some ''synthetic keyboard-only layout'',
        required_capabilities = [BOOT_CAPABILITY_POINTER_AVAILABILITY_DECIDED, BOOT_CAPABILITY_POINTER_INPUT_ABSENT],
        provided_capabilities = [BOOT_CAPABILITY_UI_LAYOUT_VALIDATED], skipped_capabilities = [],
        sd_required = True, skip_preserves_health = False, sd_phase = BOOT_PHASE_RUNTIME,
        irreversible_class = BOOT_IRREVERSIBLE_NONE, sd_execute = None\<rparr>,
     with_callback synthetic_stage_success
       \<lparr>sd_id = BOOT_STAGE_DESKTOP_CONSTRUCTION, sd_name = Some ''synthetic keyboard-only desktop'',
        required_capabilities = [BOOT_CAPABILITY_POINTER_INPUT_ABSENT, BOOT_CAPABILITY_UI_LAYOUT_VALIDATED],
        provided_capabilities = [BOOT_CAPABILITY_DESKTOP_SHELL_AVAILABLE], skipped_capabilities = [],
        sd_required = True, skip_preserves_health = False, sd_phase = BOOT_PHASE_PROOFS,
        irreversible_class = BOOT_IRREVERSIBLE_NONE, sd_execute = None\<rparr>]"

text \<open>The loop that registers the four; \<open>None\<close> when one is refused.\<close>

fun add_stages :: "'c boot_stage_descriptor list \<Rightarrow> 'c boot_ledger option \<Rightarrow> 'c boot_ledger option option" where
  "add_stages [] ledger = Some ledger"
| "add_stages (descriptor # rest) ledger =
     (case boot_ledger_add_stage (Some descriptor) ledger of
        (status, ledger) \<Rightarrow> if status \<noteq> BOOT_LEDGER_STATUS_OK then None else add_stages rest ledger)"

definition boot_plan_pointer_absence_self_test :: "unit boot_ledger \<Rightarrow> unit boot_context \<Rightarrow> bool" where
  "boot_plan_pointer_absence_self_test static_ledger context =
     (case add_stages pointer_absence_descriptors (boot_ledger_reset (Some static_ledger)) of
        None \<Rightarrow> False
      | Some ledger \<Rightarrow>
          (case boot_ledger_validate ledger of
             (status, ledger) \<Rightarrow>
               (case (if status = BOOT_LEDGER_STATUS_OK then boot_ledger_execute ledger (Some context)
                      else (status, Some context, ledger)) of
                  (status, _, ledger) \<Rightarrow>
                    let outcome = boot_ledger_receipt_for ledger BOOT_STAGE_POINTER_OUTCOME;
                        desktop = boot_ledger_receipt_for ledger BOOT_STAGE_DESKTOP_CONSTRUCTION
                    in status = BOOT_LEDGER_STATUS_OK \<and>
                       (case ledger of None \<Rightarrow> False
                        | Some l \<Rightarrow> executed l \<and> \<not> degraded l \<and> optional_skip_count l = 1) \<and>
                       (case outcome of None \<Rightarrow> False | Some r \<Rightarrow> rc_result r = BOOT_RECEIPT_SKIPPED) \<and>
                       (case desktop of None \<Rightarrow> False | Some r \<Rightarrow> rc_result r = BOOT_RECEIPT_RAN) \<and>
                       boot_ledger_has_capability ledger BOOT_CAPABILITY_POINTER_AVAILABILITY_DECIDED \<and>
                       boot_ledger_has_capability ledger BOOT_CAPABILITY_POINTER_INPUT_ABSENT \<and>
                       \<not> boot_ledger_has_capability ledger BOOT_CAPABILITY_POINTER_INPUT_AVAILABLE \<and>
                       boot_ledger_has_capability ledger BOOT_CAPABILITY_DESKTOP_SHELL_AVAILABLE \<and>
                       boot_ledger_fingerprint_valid ledger)))"

end
