(* ===== verification/Boot_Plan_Checked.thy ===== *)
theory Boot_Plan_Checked
  imports Boot_Plan Boot_Ledger_Run
begin

text \<open>
  The plan the kernel boots with, checked: the ledger accepts it, its order, that every boot
  whose required stages succeed completes whatever the optional ones do, and that the proof
  stages' checks of their prerequisites pass on their own descriptors.
\<close>

section \<open>Checking a plan by its rows\<close>

text \<open>What the ledger reads of a descriptor, its name and its callback apart.\<close>

type_synonym row = "nat \<times> nat \<times> bool \<times> bool \<times> nat \<times> nat list \<times> nat list \<times> nat list"

definition row_of :: "'c boot_stage_descriptor \<Rightarrow> row" where
  "row_of d = (sd_id d, sd_phase d, sd_required d, skip_preserves_health d, irreversible_class d,
     required_capabilities d, provided_capabilities d, skipped_capabilities d)"

fun row_wf :: "row \<Rightarrow> bool" where
  "row_wf (i, p, rq, nt, ir, need, prov, skip) \<longleftrightarrow>
     0 < i \<and> i < 58 \<and> p < 8 \<and> ir < 6 \<and> length need \<le> 23 \<and> length prov \<le> 23 \<and> length skip \<le> 23 \<and>
     (if nt then \<not> rq \<and> skip \<noteq> [] else True) \<and> distinct need \<and> list_all (\<lambda>c. 0 < c \<and> c < 80) need \<and>
     distinct prov \<and> distinct skip \<and> list_all (\<lambda>c. 0 < c \<and> c < 80) (prov @ skip) \<and>
     list_all (\<lambda>c. c \<in> set need) (irreversible_requirements ir)"

fun row_offers :: "row \<Rightarrow> nat list" where
  "row_offers (i, p, rq, nt, ir, need, prov, skip) = prov @ skip"

lemma row_offers_of [simp]: "row_offers (row_of d) = offered d"
  by (simp add: row_of_def offered_def)

text \<open>
  The rows in the planned order: what a row needs is offered by the rows before it, in no later
  phase, and a later row that would come first by phase and id is not ready yet.
\<close>

fun greedy_rows :: "(nat \<times> nat) list \<Rightarrow> row list \<Rightarrow> bool" where
  "greedy_rows caps [] \<longleftrightarrow> True"
| "greedy_rows caps ((i, p, rq, nt, ir, need, prov, skip) # rs) \<longleftrightarrow>
     list_all (\<lambda>c. case map_of caps c of None \<Rightarrow> False | Some q \<Rightarrow> q \<le> p) need \<and>
     list_all (\<lambda>(i', p', _, _, _, need', _, _).
        if p < p' then True else if p = p' \<and> i \<le> i' then True else list_ex (\<lambda>c. map_of caps c = None) need') rs \<and>
     greedy_rows (map (\<lambda>c. (c, p)) (prov @ skip) @ caps) rs"

lemma row_wf_of:
  "row_wf (row_of d) \<and> sd_name d \<noteq> None \<and> sd_execute d \<noteq> None \<longleftrightarrow>
     stage_well_formed d \<and> set (irreversible_requirements (irreversible_class d)) \<subseteq> set (required_capabilities d)"
  unfolding row_of_def row_wf.simps stage_well_formed_def offered_def stage_is_known_def capability_is_known_def
    ledger_consts list_all_iff subset_iff by auto

definition caps_of :: "(nat \<times> nat) list \<Rightarrow> 'c boot_stage_descriptor list \<Rightarrow> bool" where
  "caps_of caps xs \<longleftrightarrow> (\<forall>c. map_of caps c = None \<longleftrightarrow> (\<forall>e \<in> set xs. c \<notin> set (offered e))) \<and>
     (\<forall>c p. map_of caps c = Some p \<longrightarrow> (\<exists>e \<in> set xs. c \<in> set (offered e) \<and> sd_phase e = p))"

lemma caps_of_snoc:
  assumes "caps_of caps xs"
  shows "caps_of (map (\<lambda>c. (c, sd_phase d)) (offered d) @ caps) (xs @ [d])"
proof -
  have m: "map_of (map (\<lambda>c. (c, sd_phase d)) (offered d) @ caps) c =
      (if c \<in> set (offered d) then Some (sd_phase d) else map_of caps c)" for c
    by (auto simp: map_add_def map_of_map_restrict restrict_map_def split: option.splits)
  show ?thesis using assms unfolding caps_of_def m by auto
qed

lemma greedy_rows_greedy:
  assumes "greedy_rows caps (map row_of ys)" "caps_of caps xs" "greedy D xs" "D = set xs \<union> set ys" "distinct (xs @ ys)"
  shows "greedy D (xs @ ys) \<and> (\<forall>d \<in> set ys. \<forall>c \<in> set (required_capabilities d).
      \<exists>e \<in> D. c \<in> set (offered e) \<and> sd_phase e \<le> sd_phase d)"
  using assms
proof (induction ys arbitrary: caps xs)
  case (Cons d ys)
  have g0: "greedy_rows caps (row_of d # map row_of ys)" using Cons.prems(1) by simp
  have g: "list_all (\<lambda>c. case map_of caps c of None \<Rightarrow> False | Some q \<Rightarrow> q \<le> sd_phase d) (required_capabilities d)"
    "greedy_rows (map (\<lambda>c. (c, sd_phase d)) (offered d) @ caps) (map row_of ys)"
    using g0 unfolding row_of_def [of d] greedy_rows.simps offered_def by blast+
  have later: "if sd_phase d < sd_phase e then True else if sd_phase d = sd_phase e \<and> sd_id d \<le> sd_id e then True
       else list_ex (\<lambda>c. map_of caps c = None) (required_capabilities e)" if "e \<in> set ys" for e
  proof -
    have "list_all (\<lambda>(i', p', _, _, _, need', _, _). if sd_phase d < p' then True
        else if sd_phase d = p' \<and> sd_id d \<le> i' then True else list_ex (\<lambda>c. map_of caps c = None) need') (map row_of ys)"
      using g0 unfolding row_of_def [of d] greedy_rows.simps by blast
    then show ?thesis using that by (auto simp: list_all_iff row_of_def split: if_splits)
  qed
  have in_caps: "\<exists>e \<in> set xs. c \<in> set (offered e) \<and> sd_phase e \<le> sd_phase d" if "c \<in> set (required_capabilities d)" for c
    using g(1) that Cons.prems(2) by (fastforce simp: list_all_iff caps_of_def split: option.splits)
  have rd: "ready D (set xs) d"
    using Cons.prems(4,5) in_caps by (auto simp: ready_def)
  have first: "not_after d e" if "ready D (set xs) e" for e
  proof (cases "e = d")
    case False
    then have e: "e \<in> set ys" using that Cons.prems(4) by (auto simp: ready_def)
    have "map_of caps c \<noteq> None" if "c \<in> set (required_capabilities e)" for c
      using \<open>ready D (set xs) e\<close> that Cons.prems(2) by (auto simp: ready_def caps_of_def)
    then have "\<not> list_ex (\<lambda>c. map_of caps c = None) (required_capabilities e)" by (auto simp: list_ex_iff)
    then show ?thesis using later [OF e] by (auto simp: not_after_def split: if_splits)
  qed (simp add: not_after_def)
  have "greedy D (xs @ [d])" using Cons.prems(3) rd first by (simp add: greedy_snoc)
  from Cons.IH [OF g(2) caps_of_snoc [OF Cons.prems(2)] this] Cons.prems(4,5)
  have "greedy D ((xs @ [d]) @ ys)" "\<forall>d \<in> set ys. \<forall>c \<in> set (required_capabilities d).
      \<exists>e \<in> D. c \<in> set (offered e) \<and> sd_phase e \<le> sd_phase d" by auto
  then show ?case using in_caps Cons.prems(4) by auto
qed simp

text \<open>The whole check: the plan is accepted, and this is its order.\<close>

definition rows_consistent :: "row list \<Rightarrow> bool" where
  "rows_consistent rs \<longleftrightarrow> distinct (map fst rs) \<and> list_all row_wf rs \<and> distinct (concat (map (\<lambda>r. remdups (row_offers r)) rs))"

lemma distinct_concat_disjoint:
  assumes "distinct (concat (map f xs))" "i < j" "j < length xs"
  shows "set (f (xs ! i)) \<inter> set (f (xs ! j)) = {}"
proof -
  have "xs = take j xs @ xs ! j # drop (Suc j) xs" using assms(3) by (simp add: id_take_nth_drop)
  then have "concat (map f xs) = concat (map f (take j xs)) @ f (xs ! j) @ concat (map f (drop (Suc j) xs))"
    by (metis concat.simps(2) concat_append list.simps(9) map_append)
  then have "set (concat (map f (take j xs))) \<inter> set (f (xs ! j)) = {}"
    using assms(1) by (metis distinct_append Int_Un_distrib sup_eq_bot_iff set_append)
  moreover have "xs ! i \<in> set (take j xs)" using assms(2,3) by (metis in_set_conv_nth length_take min.absorb4 nth_take)
  ultimately show ?thesis by fastforce
qed

lemma rows_consistent_stages:
  assumes rows: "rows_consistent (map row_of ds)" and some: "\<forall>d \<in> set ds. sd_name d \<noteq> None \<and> sd_execute d \<noteq> None"
  shows "stages_consistent ds" "\<forall>d \<in> set ds. set (irreversible_requirements (irreversible_class d)) \<subseteq> set (required_capabilities d)"
proof -
  have wf: "stage_well_formed d \<and> set (irreversible_requirements (irreversible_class d)) \<subseteq> set (required_capabilities d)"
    if "d \<in> set ds" for d
    using row_wf_of [of d] rows some that by (auto simp: rows_consistent_def list_all_iff)
  have ids: "distinct (map sd_id ds)" using rows by (simp add: rows_consistent_def comp_def row_of_def)
  have dj: "set (offered (ds ! i)) \<inter> set (offered (ds ! j)) = {}" if "i < j" "j < length ds" for i j
    using distinct_concat_disjoint [of "\<lambda>d. remdups (offered d)" ds i j] rows that
    by (simp add: rows_consistent_def comp_def)
  have "set (offered d) \<inter> set (offered e) = {}" if "d \<in> set ds" "e \<in> set ds" "d \<noteq> e" for d e
  proof -
    from that obtain i j where "i < length ds" "j < length ds" "d = ds ! i" "e = ds ! j" "i \<noteq> j"
      by (metis in_set_conv_nth)
    then show ?thesis using dj [of i j] dj [of j i] by (metis inf_commute linorder_neqE_nat)
  qed
  then show "stages_consistent ds" using ids wf by (simp add: stages_consistent_def)
  show "\<forall>d \<in> set ds. set (irreversible_requirements (irreversible_class d)) \<subseteq> set (required_capabilities d)"
    using wf by blast
qed

lemma rows_accepted:
  assumes rows: "rows_consistent (map row_of ds)" and some: "\<forall>d \<in> set ds. sd_name d \<noteq> None \<and> sd_execute d \<noteq> None"
    and len: "ds \<noteq> []" "length ds \<le> BOOT_LEDGER_STAGE_CAPACITY"
    and ys: "mset ys = mset ds" and greedy: "greedy_rows [] (map row_of ys)"
  shows "plan_accepted ds" "greedy (set ds) ys"
proof -
  note ok = rows_consistent_stages [OF rows some]
  have st: "set ys = set ds" "distinct ys"
    using mset_eq_setD [OF ys] mset_eq_imp_distinct_iff [OF ys] stages_consistent_distinct [OF ok(1)] by auto
  have "caps_of [] []" "greedy (set ds) []" by (simp_all add: caps_of_def greedy_def)
  from greedy_rows_greedy [OF greedy this] st
  have g: "greedy (set ds) ys" "\<forall>d \<in> set ds. \<forall>c \<in> set (required_capabilities d).
      \<exists>e \<in> set ds. c \<in> set (offered e) \<and> sd_phase e \<le> sd_phase d" by auto
  then show "greedy (set ds) ys" by simp
  have "\<not> deadlocked S" if "S \<subseteq> set ds" for S
    by (rule greedy_no_deadlock [OF g(1)]) (use that st offered_unique [OF ok(1)] in auto)
  then show "plan_accepted ds" using ok g(2) len by (auto simp: plan_accepted_def)
qed

lemma rows_validated:
  assumes rows: "rows_consistent (map row_of (descriptors l))"
    and some: "\<forall>d \<in> set (descriptors l). sd_name d \<noteq> None \<and> sd_execute d \<noteq> None"
    and len: "descriptors l \<noteq> []" "length (descriptors l) \<le> BOOT_LEDGER_STAGE_CAPACITY"
    and ys: "mset ys = mset (descriptors l)" and greedy: "greedy_rows [] (map row_of ys)"
  shows "\<exists>v. boot_ledger_validate (Some l) = (BOOT_LEDGER_STATUS_OK, Some v) \<and> descriptors v = descriptors l \<and>
    map (\<lambda>index. descriptors l ! index) (canonical_order v) = ys \<and> validated_stage_ids v = map sd_id ys"
proof -
  note acc = rows_accepted [OF assms]
  have fst: "fst (boot_ledger_validate (Some l)) = BOOT_LEDGER_STATUS_OK" using acc(1) validate_accepts by blast
  then have run: "boot_ledger_validate (Some l) = (BOOT_LEDGER_STATUS_OK, snd (boot_ledger_validate (Some l)))"
    by (metis prod.collapse)
  from this obtain order planned where v: "snd (boot_ledger_validate (Some l)) = Some (validated_ledger l order)"
    "planning (descriptors l) planned order" "length order = length (descriptors l)"
    by (elim validated_planning) auto
  have ids: "inj_on sd_id (set (descriptors l))"
    using acc(1) by (simp add: plan_accepted_def stages_consistent_def distinct_map)
  have "greedy (set (descriptors l)) (map ((!) (descriptors l)) order)" using v(2) by (simp add: planning_def)
  from greedy_unique [OF ids this acc(2)] v(3) mset_eq_length [OF ys]
  have eq: "map ((!) (descriptors l)) order = ys" by simp
  then have "map (\<lambda>index. sd_id (descriptors l ! index)) order = map sd_id ys" by auto
  then show ?thesis using run v(1) eq by (intro exI [of _ "validated_ledger l order"]) simp
qed

section \<open>The installed plan\<close>

text \<open>The descriptors the ledger holds once the plan is built.\<close>

definition installed_stages :: "(nat \<Rightarrow> 'c boot_stage_execute) \<Rightarrow> 'c boot_stage_descriptor list" where
  "installed_stages execute = map (\<lambda>d. the (declare_dependencies d)) (installed_descriptors execute)"

definition installed_rows :: "row list" where
  "installed_rows = [
    (1, 0, True, False, 0, [], [1], []),
    (2, 0, True, False, 0, [1], [13], []),
    (3, 0, True, False, 0, [1, 13], [2], []),
    (4, 1, True, False, 0, [2], [3], []),
    (5, 1, True, False, 0, [3], [5, 6, 7], []),
    (6, 1, True, False, 0, [3, 6], [8, 19], []),
    (7, 2, True, False, 0, [5, 6, 7, 8], [14], []),
    (8, 2, True, False, 0, [3, 14], [4], []),
    (9, 3, True, False, 1, [8, 4], [9], []),
    (10, 3, True, False, 0, [9], [10, 11], []),
    (11, 3, False, False, 0, [9, 11, 19], [20], [21]),
    (12, 4, True, False, 0, [9, 10], [12], []),
    (13, 4, False, False, 3, [20, 12], [22, 27], []),
    (14, 4, True, False, 2, [13, 14, 12], [15, 28], []),
    (15, 4, False, False, 0, [22, 15], [25], []),
    (24, 4, False, False, 0, [22], [29], []),
    (25, 4, False, False, 0, [28, 14], [30], []),
    (26, 4, False, True, 0, [30], [31], [32]),
    (27, 4, False, False, 0, [22, 29], [33], []),
    (16, 4, True, False, 0, [12, 15], [], []),
    (17, 5, True, False, 0, [13, 14, 15], [], []),
    (18, 5, True, False, 0, [13, 14, 15], [16], []),
    (19, 5, True, False, 4, [13, 14, 15, 7, 16], [17], []),
    (20, 6, True, False, 0, [9, 17], [18], []),
    (31, 6, True, False, 0, [18, 9, 4], [37], []),
    (32, 6, True, False, 0, [13, 14, 15], [38], []),
    (33, 6, True, False, 0, [4, 9], [39], []),
    (34, 7, True, False, 0, [18, 37, 38, 39, 17, 12, 4, 15, 26], [40, 41], []),
    (36, 6, True, False, 0, [37, 38, 39, 17], [44], []),
    (38, 6, True, False, 0, [37, 38, 39, 17], [47], []),
    (40, 6, True, False, 0, [47], [50, 53], []),
    (21, 6, True, False, 0, [12, 17], [23], []),
    (22, 6, True, False, 5, [12, 23, 17, 15], [24], []),
    (42, 6, True, False, 0, [9, 10, 4, 12, 13, 14], [54], []),
    (43, 6, True, False, 0, [54], [55], []),
    (45, 6, True, False, 0, [9, 13, 14, 54], [59], []),
    (46, 6, True, False, 0, [50, 53, 54, 55, 59], [60], []),
    (48, 6, True, False, 0, [50, 53, 54, 55, 59, 60], [64, 65], []),
    (35, 6, False, True, 0, [9, 18, 12, 4, 14, 15, 23, 24, 37, 38, 39], [42], [43]),
    (37, 6, False, True, 0, [9, 18, 12, 4, 14, 15, 17, 23, 24, 37, 38, 39, 44], [45], [46]),
    (39, 6, False, True, 0, [9, 18, 12, 4, 14, 15, 17, 23, 24, 37, 38, 39, 47], [48], [49]),
    (41, 6, False, True, 0, [9, 18, 12, 4, 14, 15, 17, 23, 24, 37, 38, 39, 47, 50], [51], [52]),
    
    (44, 6, False, True, 0, [9, 10, 4, 12, 13, 14, 15, 17, 23, 24, 37, 38, 39, 47, 50, 53, 54, 55], [56, 58], [57, 58]),
    
    (47, 6, False, True, 0, [9, 10, 4, 12, 13, 14, 15, 17, 18, 23, 24, 37, 38, 39, 47, 50, 53, 54, 55, 59, 60], [61, 63], [62, 63]),
    
    (49, 6, False, True, 0, [9, 10, 4, 12, 13, 14, 15, 17, 18, 23, 24, 37, 38, 39, 47, 50, 53, 54, 55, 59, 60, 63, 64], [66, 68], [67, 68]),
    (54, 6, True, False, 0, [18, 39], [74], []),
    (55, 6, False, True, 0, [9, 10, 4, 12, 13, 14, 15, 17, 18, 37, 39, 74], [75], [76]),
    (56, 6, True, False, 0, [18], [77], []),
    (57, 6, False, True, 0, [9, 10, 4, 12, 13, 14, 15, 17, 18, 37, 77], [78], [79]),
    (52, 6, True, False, 0, [18, 37], [71], []),
    (53, 6, False, True, 0, [9, 10, 12, 13, 14, 15, 17, 18, 37, 71], [72], [73]),
    (50, 6, True, False, 0, [54, 55], [69], []),
    (51, 6, True, False, 0, [9, 10, 4, 12, 13, 14, 15, 17, 23, 24, 54, 55, 69], [70], []),
    (23, 7, True, False, 0, [9, 11, 12, 18, 24, 54, 55, 58, 59, 60, 63, 64, 68, 65], [26], []),
    (28, 7, False, False, 0, [22, 29, 33, 30, 41], [34], []),
    (29, 7, False, False, 0, [34, 27, 20, 22, 29, 33, 28, 23, 24, 26], [35], []),
    (30, 7, False, False, 0, [35, 20, 26], [36], [])]"

definition planned_indices :: "nat list" where
  "planned_indices =
    [0, 1, 2, 3, 4, 5, 6, 7, 8, 9, 10, 11, 12, 13, 14, 19, 15, 16, 17, 18, 20, 21, 22, 23, 31, 32, 24, 25, 26, 38,
    28, 39, 29, 40, 30, 41, 33, 34, 42, 35, 36, 43, 37, 44, 51, 52, 49, 50, 45, 46, 47, 48, 53, 27, 54, 55, 56]"

definition planned_rows :: "row list" where
  "planned_rows = [
    (1, 0, True, False, 0, [], [1], []),
    (2, 0, True, False, 0, [1], [13], []),
    (3, 0, True, False, 0, [1, 13], [2], []),
    (4, 1, True, False, 0, [2], [3], []),
    (5, 1, True, False, 0, [3], [5, 6, 7], []),
    (6, 1, True, False, 0, [3, 6], [8, 19], []),
    (7, 2, True, False, 0, [5, 6, 7, 8], [14], []),
    (8, 2, True, False, 0, [3, 14], [4], []),
    (9, 3, True, False, 1, [8, 4], [9], []),
    (10, 3, True, False, 0, [9], [10, 11], []),
    (11, 3, False, False, 0, [9, 11, 19], [20], [21]),
    (12, 4, True, False, 0, [9, 10], [12], []),
    (13, 4, False, False, 3, [20, 12], [22, 27], []),
    (14, 4, True, False, 2, [13, 14, 12], [15, 28], []),
    (15, 4, False, False, 0, [22, 15], [25], []),
    (16, 4, True, False, 0, [12, 15], [], []),
    (24, 4, False, False, 0, [22], [29], []),
    (25, 4, False, False, 0, [28, 14], [30], []),
    (26, 4, False, True, 0, [30], [31], [32]),
    (27, 4, False, False, 0, [22, 29], [33], []),
    (17, 5, True, False, 0, [13, 14, 15], [], []),
    (18, 5, True, False, 0, [13, 14, 15], [16], []),
    (19, 5, True, False, 4, [13, 14, 15, 7, 16], [17], []),
    (20, 6, True, False, 0, [9, 17], [18], []),
    (21, 6, True, False, 0, [12, 17], [23], []),
    (22, 6, True, False, 5, [12, 23, 17, 15], [24], []),
    (31, 6, True, False, 0, [18, 9, 4], [37], []),
    (32, 6, True, False, 0, [13, 14, 15], [38], []),
    (33, 6, True, False, 0, [4, 9], [39], []),
    (35, 6, False, True, 0, [9, 18, 12, 4, 14, 15, 23, 24, 37, 38, 39], [42], [43]),
    (36, 6, True, False, 0, [37, 38, 39, 17], [44], []),
    (37, 6, False, True, 0, [9, 18, 12, 4, 14, 15, 17, 23, 24, 37, 38, 39, 44], [45], [46]),
    (38, 6, True, False, 0, [37, 38, 39, 17], [47], []),
    (39, 6, False, True, 0, [9, 18, 12, 4, 14, 15, 17, 23, 24, 37, 38, 39, 47], [48], [49]),
    (40, 6, True, False, 0, [47], [50, 53], []),
    (41, 6, False, True, 0, [9, 18, 12, 4, 14, 15, 17, 23, 24, 37, 38, 39, 47, 50], [51], [52]),
    (42, 6, True, False, 0, [9, 10, 4, 12, 13, 14], [54], []),
    (43, 6, True, False, 0, [54], [55], []),
    (44, 6, False, True, 0, [9, 10, 4, 12, 13, 14, 15, 17, 23, 24, 37, 38, 39, 47, 50, 53, 54, 55], [56, 58], [57, 58]),
    (45, 6, True, False, 0, [9, 13, 14, 54], [59], []),
    (46, 6, True, False, 0, [50, 53, 54, 55, 59], [60], []),
    (47, 6, False, True, 0, [9, 10, 4, 12, 13, 14, 15, 17, 18, 23, 24, 37, 38, 39, 47, 50, 53, 54, 55, 59, 60], [61, 63], [62, 63]),
    (48, 6, True, False, 0, [50, 53, 54, 55, 59, 60], [64, 65], []),
    (49, 6, False, True, 0, [9, 10, 4, 12, 13, 14, 15, 17, 18, 23, 24, 37, 38, 39, 47, 50, 53, 54, 55, 59, 60, 63, 64], [66, 68], [67, 68]),
    (50, 6, True, False, 0, [54, 55], [69], []),
    (51, 6, True, False, 0, [9, 10, 4, 12, 13, 14, 15, 17, 23, 24, 54, 55, 69], [70], []),
    (52, 6, True, False, 0, [18, 37], [71], []),
    (53, 6, False, True, 0, [9, 10, 12, 13, 14, 15, 17, 18, 37, 71], [72], [73]),
    (54, 6, True, False, 0, [18, 39], [74], []),
    (55, 6, False, True, 0, [9, 10, 4, 12, 13, 14, 15, 17, 18, 37, 39, 74], [75], [76]),
    (56, 6, True, False, 0, [18], [77], []),
    (57, 6, False, True, 0, [9, 10, 4, 12, 13, 14, 15, 17, 18, 37, 77], [78], [79]),
    (23, 7, True, False, 0, [9, 11, 12, 18, 24, 54, 55, 58, 59, 60, 63, 64, 68, 65], [26], []),
    (34, 7, True, False, 0, [18, 37, 38, 39, 17, 12, 4, 15, 26], [40, 41], []),
    (28, 7, False, False, 0, [22, 29, 33, 30, 41], [34], []),
    (29, 7, False, False, 0, [34, 27, 20, 22, 29, 33, 28, 23, 24, 26], [35], []),
    (30, 7, False, False, 0, [35, 20, 26], [36], [])]"

lemmas plan_tables = stage_ids capability_ids phase_ids REQUIRED_STAGE_def OPTIONAL_STAGE_def OPTIONAL_NEUTRAL_STAGE_def

lemma installed_declared:
  "map (\<lambda>d. map_option row_of (declare_dependencies d)) (installed_descriptors execute) = map Some installed_rows"
  unfolding installed_descriptors_def installed_rows_def list.map plan_tables
  apply (simp only: declare_dependencies_def Let_def boot_stage_descriptor.select_convs plan_tables)
  apply (simp add: declares requirement_arrays row_of_def capability_ids)
  done

lemma installed_order: "map ((!) installed_rows) planned_indices = planned_rows"
  by (simp add: installed_rows_def planned_indices_def planned_rows_def)

lemma planned_indices_perm: "mset planned_indices = mset [0..<57]"
proof -
  have "sort planned_indices = [0..<57]" by code_simp
  then show ?thesis by (metis mset_sort)
qed

lemma installed_ids: "distinct (map fst installed_rows)"
  by (simp add: installed_rows_def)

lemma installed_wf: "list_all row_wf installed_rows"
  by (simp add: installed_rows_def irreversible_requirements_def)

lemma installed_disjoint: "distinct (concat (map (\<lambda>r. remdups (row_offers r)) installed_rows))"
  by (simp add: installed_rows_def)

lemma installed_consistent: "rows_consistent installed_rows"
  using installed_ids installed_wf installed_disjoint by (simp add: rows_consistent_def)

lemma installed_greedy: "greedy_rows [] planned_rows"
  by (simp add: planned_rows_def)

section \<open>A boot completes\<close>

text \<open>
  A callback that reports what its stage declares: a required stage succeeds, an optional one
  succeeds, skips, or, unless it is among \<open>firm\<close>, fails.
\<close>

definition stage_reports :: "nat list \<Rightarrow> 'c boot_stage_descriptor \<Rightarrow> bool" where
  "stage_reports firm d \<longleftrightarrow> (\<forall>context. let result = snd (the (sd_execute d) context fail_result) in
     (\<exists>counters. length counters \<le> 2 \<and> result = (succeed_result d)\<lparr>sr_proof_counters := counters\<rparr>) \<or>
     (\<not> sd_required d \<and> (result = skip_result d \<or> (sd_id d \<notin> set firm \<and> result = fail_result))))"

text \<open>What a stage establishes however it turns out.\<close>

definition firm_offer :: "nat list \<Rightarrow> 'c boot_stage_descriptor \<Rightarrow> nat list" where
  "firm_offer firm d = (if sd_required d then provided_capabilities d
     else if sd_id d \<in> set firm then filter (\<lambda>c. c \<in> set (skipped_capabilities d)) (provided_capabilities d) else [])"

fun firm_rows :: "nat list \<Rightarrow> nat list \<Rightarrow> row list \<Rightarrow> bool" where
  "firm_rows firm caps [] \<longleftrightarrow> True"
| "firm_rows firm caps ((i, p, rq, nt, ir, need, prov, skip) # rs) \<longleftrightarrow>
     (if rq then list_all (\<lambda>c. c \<in> set caps) need else True) \<and>
     firm_rows firm ((if rq then prov else if i \<in> set firm then filter (\<lambda>c. c \<in> set skip) prov else []) @ caps) rs"

lemma firm_rows_of:
  "firm_rows firm caps (row_of d # rs) \<longleftrightarrow> (sd_required d \<longrightarrow> set (required_capabilities d) \<subseteq> set caps) \<and>
     firm_rows firm (firm_offer firm d @ caps) rs"
  by (auto simp: row_of_def firm_offer_def list_all_iff)

lemma reported_results:
  "stage_well_formed d \<Longrightarrow> length counters \<le> 2 \<Longrightarrow>
     validate_result d ((succeed_result d)\<lparr>sr_proof_counters := counters\<rparr>) = (BOOT_LEDGER_STATUS_OK, BOOT_CAPABILITY_INVALID)"
  "stage_well_formed d \<Longrightarrow> validate_result d (skip_result d) = (BOOT_LEDGER_STATUS_OK, BOOT_CAPABILITY_INVALID)"
  "validate_result d fail_result = (BOOT_LEDGER_STATUS_OK, BOOT_CAPABILITY_INVALID)"
proof -
  have [simp]: "first_some (\<lambda>c. if c \<notin> set cs then Some c else None) cs = None" for cs :: "nat list"
    by (simp add: first_some_None_iff)
  have two: "BOOT_STAGE_PROOF_COUNTER_CAPACITY = 2" by (simp add: BOOT_STAGE_PROOF_COUNTER_CAPACITY_def)
  show "stage_well_formed d \<Longrightarrow> length counters \<le> 2 \<Longrightarrow>
     validate_result d ((succeed_result d)\<lparr>sr_proof_counters := counters\<rparr>) = (BOOT_LEDGER_STATUS_OK, BOOT_CAPABILITY_INVALID)"
    by (simp add: validate_result_def succeed_result_def stage_well_formed_def two)
  show "stage_well_formed d \<Longrightarrow> validate_result d (skip_result d) = (BOOT_LEDGER_STATUS_OK, BOOT_CAPABILITY_INVALID)"
    by (simp add: validate_result_def skip_result_def stage_well_formed_def two)
  show "validate_result d fail_result = (BOOT_LEDGER_STATUS_OK, BOOT_CAPABILITY_INVALID)"
    by (simp add: validate_result_def fail_result_def first_some_None_iff)
qed

lemma append_established:
  assumes "can_run d l" "sr_provided res = declared_of d (sr_result res)"
  shows "\<exists>l'. append_receipt d res status l = (BOOT_LEDGER_STATUS_OK, l') \<and>
    established_capabilities l' = established_capabilities l @ declared_of d (sr_result res)"
proof -
  have m: "mset (sr_provided res) = mset (declared_of d (sr_result res))" using assms(2) by simp
  have lt: "length (receipts l) < BOOT_LEDGER_RECEIPT_CAPACITY" using assms(1) by (simp add: can_run_def)
  show ?thesis
    by (rule append_receipt_fresh [OF can_run_fresh [OF assms(1) m] lt, of d status]) (use assms(2) in auto)
qed

lemma execute_stage_completes:
  assumes run: "can_run d l" and rep: "stage_reports firm d"
    and need: "sd_required d \<Longrightarrow> set (required_capabilities d) \<subseteq> set (established_capabilities l)"
  shows "\<exists>ctx' l'. execute_stage d ctx l = (BOOT_LEDGER_STATUS_OK, ctx', l') \<and>
    set (established_capabilities l) \<union> set (firm_offer firm d) \<subseteq> set (established_capabilities l')"
proof -
  have wf: "stage_well_formed d" and known: "list_all capability_is_known (established_capabilities l)"
    using run by (simp_all add: can_run_def)
  let ?ctx = "ctx\<lparr>stage_failure_detail := None\<rparr>"
  obtain ctx1 res where cb: "the (sd_execute d) ?ctx fail_result = (ctx1, res)" by fastforce
  note kinds = rep [unfolded stage_reports_def Let_def, THEN spec, of ?ctx, unfolded cb snd_conv]
  show ?thesis
  proof (cases "missing_requirement l d")
    case (Some c)
    then have opt: "\<not> sd_required d" using need known
      by (metis in_mono list_all_iff missing_requirement_None option.distinct(1))
    obtain l' where a: "append_receipt d (skip_result d) BOOT_LEDGER_STATUS_OPTIONAL_STAGE_SKIPPED l = (BOOT_LEDGER_STATUS_OK, l')"
      "established_capabilities l' = established_capabilities l @ skipped_capabilities d"
      using append_established [OF run, of "skip_result d" BOOT_LEDGER_STATUS_OPTIONAL_STAGE_SKIPPED]
      by (auto simp: fail_skip_results declared_of_def)
    have "execute_stage d ctx l = (BOOT_LEDGER_STATUS_OK, ?ctx, l')"
      using Some opt a(1) by (simp add: execute_stage_def Let_def)
    moreover have "set (firm_offer firm d) \<subseteq> set (skipped_capabilities d)" using opt by (auto simp: firm_offer_def)
    ultimately show ?thesis using a(2) by auto
  next
    case None
    from kinds consider (ran) cs where "length cs \<le> 2" "res = (succeed_result d)\<lparr>sr_proof_counters := cs\<rparr>"
      | (skipped) "\<not> sd_required d" "res = skip_result d"
      | (failed) "\<not> sd_required d" "sd_id d \<notin> set firm" "res = fail_result" by blast
    then show ?thesis
    proof cases
      case ran
      have r: "sr_result res = BOOT_RECEIPT_RAN" "sr_provided res = declared_of d (sr_result res)"
        using ran(2) by (simp_all add: succeed_result_def declared_of_def)
      obtain l' where a: "append_receipt d res BOOT_LEDGER_STATUS_OK l = (BOOT_LEDGER_STATUS_OK, l')"
        "established_capabilities l' = established_capabilities l @ provided_capabilities d"
        using append_established [OF run r(2), of BOOT_LEDGER_STATUS_OK] r(1) by (auto simp: declared_of_def)
      have "execute_stage d ctx l = (BOOT_LEDGER_STATUS_OK, ctx1, l')"
        using None cb a(1) r(1) reported_results(1) [OF wf ran(1)] ran(2) by (simp add: execute_stage_def Let_def)
      moreover have "set (firm_offer firm d) \<subseteq> set (provided_capabilities d)" by (auto simp: firm_offer_def)
      ultimately show ?thesis using a(2) by auto
    next
      case skipped
      have r: "sr_result res = BOOT_RECEIPT_SKIPPED" "sr_provided res = declared_of d (sr_result res)"
        using skipped(2) by (simp_all add: skip_result_def declared_of_def)
      obtain l' where a: "append_receipt d res BOOT_LEDGER_STATUS_OPTIONAL_STAGE_SKIPPED l = (BOOT_LEDGER_STATUS_OK, l')"
        "established_capabilities l' = established_capabilities l @ skipped_capabilities d"
        using append_established [OF run r(2), of BOOT_LEDGER_STATUS_OPTIONAL_STAGE_SKIPPED] r(1) by (auto simp: declared_of_def)
      have "execute_stage d ctx l = (BOOT_LEDGER_STATUS_OK, ctx1, l')"
        using None cb a(1) r(1) reported_results(2) [OF wf] skipped by (simp add: execute_stage_def Let_def)
      moreover have "set (firm_offer firm d) \<subseteq> set (skipped_capabilities d)" using skipped(1) by (auto simp: firm_offer_def)
      ultimately show ?thesis using a(2) by auto
    next
      case failed
      have r: "sr_result res = BOOT_RECEIPT_FAILED" "sr_provided res = declared_of d (sr_result res)"
        using failed(3) by (simp_all add: fail_result_def declared_of_def)
      obtain l' where a: "append_receipt d res BOOT_LEDGER_STATUS_OPTIONAL_STAGE_FAILED l = (BOOT_LEDGER_STATUS_OK, l')"
        "established_capabilities l' = established_capabilities l"
        using append_established [OF run r(2), of BOOT_LEDGER_STATUS_OPTIONAL_STAGE_FAILED] r(1) by (auto simp: declared_of_def)
      have "execute_stage d ctx l = (BOOT_LEDGER_STATUS_OK, ctx1, l'\<lparr>degraded := True\<rparr>)"
        using None cb a(1) r(1) reported_results(3) [of d] failed by (simp add: execute_stage_def Let_def)
      moreover have "firm_offer firm d = []" using failed by (simp add: firm_offer_def)
      ultimately show ?thesis using a(2) by auto
    qed
  qed
qed

lemma execute_plan_completes:
  assumes "ran_to l k" "\<forall>d \<in> set (descriptors l). stage_reports firm d" "set caps \<subseteq> set (established_capabilities l)"
    and "firm_rows firm caps (map row_of (drop k (map (\<lambda>index. descriptors l ! index) (canonical_order l))))"
  shows "\<exists>ctx' l'. execute_plan [k..<length (canonical_order l)] ctx l = (BOOT_LEDGER_STATUS_OK, ctx', l')"
  using assms
proof (induction "length (canonical_order l) - k" arbitrary: k l ctx caps)
  case 0
  then show ?case by simp
next
  case (Suc n)
  then have k: "k < length (canonical_order l)" by simp
  let ?d = "planned_at l k"
  have pr: "plan_ready l" using Suc.prems(1) by (simp add: ran_to_def)
  have dr: "drop k (map (\<lambda>index. descriptors l ! index) (canonical_order l)) =
      ?d # drop (Suc k) (map (\<lambda>index. descriptors l ! index) (canonical_order l))"
    using k by (simp add: Cons_nth_drop_Suc [symmetric])
  have f: "sd_required ?d \<longrightarrow> set (required_capabilities ?d) \<subseteq> set caps"
    "firm_rows firm (firm_offer firm ?d @ caps) (map row_of (drop (Suc k) (map (\<lambda>index. descriptors l ! index) (canonical_order l))))"
    using Suc.prems(4) unfolding dr list.map firm_rows_of by blast+
  have cr: "can_run ?d l" by (rule ran_to_can_run [OF Suc.prems(1) k])
  have rep: "stage_reports firm ?d" using Suc.prems(2) planned_at_wf(1) [OF pr k] by blast
  have need: "sd_required ?d \<Longrightarrow> set (required_capabilities ?d) \<subseteq> set (established_capabilities l)"
    using f(1) Suc.prems(3) by blast
  from execute_stage_completes [OF cr rep need, of ctx] obtain c1 l1 where
    x: "execute_stage ?d ctx l = (BOOT_LEDGER_STATUS_OK, c1, l1)"
    and e: "set (established_capabilities l) \<union> set (firm_offer firm ?d) \<subseteq> set (established_capabilities l1)" by blast
  have o: "stage_outcome BOOT_LEDGER_STATUS_OK ?d l l1" by (rule execute_stage_outcome [OF cr x])
  then have ord: "canonical_order l1 = canonical_order l" "descriptors l1 = descriptors l"
    by (simp_all add: stage_outcome_def same_plan_def)
  have r: "ran_to l1 (Suc k)" by (rule ran_to_step [OF Suc.prems(1) k o])
  have "sd_id ?d = validated_stage_ids l ! k" using pr k by (simp add: plan_ready_def)
  then have step: "execute_plan [k..<length (canonical_order l)] ctx l = execute_plan [Suc k..<length (canonical_order l)] c1 l1"
    using x by (simp add: upt_conv_Cons [OF k])
  have n: "n = length (canonical_order l1) - Suc k" using Suc.hyps(2) ord(1) by simp
  have caps: "set (firm_offer firm ?d @ caps) \<subseteq> set (established_capabilities l1)" using e Suc.prems(3) by auto
  have "\<exists>ctx' l'. execute_plan [Suc k..<length (canonical_order l1)] c1 l1 = (BOOT_LEDGER_STATUS_OK, ctx', l')"
    by (rule Suc.hyps(1) [OF n r _ caps]) (use Suc.prems(2) f(2) ord in simp_all)
  then show ?case using step ord(1) by simp
qed

lemma execute_completes:
  assumes val: "boot_ledger_validate (Some l) = (BOOT_LEDGER_STATUS_OK, Some v)"
    and rep: "\<forall>d \<in> set (descriptors v). stage_reports firm d"
    and firm: "firm_rows firm [] (map row_of (map (\<lambda>index. descriptors v ! index) (canonical_order v)))"
  shows "\<exists>ctx' l'. boot_ledger_execute (Some v) (Some ctx) = (BOOT_LEDGER_STATUS_OK, Some ctx', Some l')"
proof -
  note pr = validated_plan_ready [OF val]
  let ?s = "v\<lparr>receipts := [], established_capabilities := [], executed_count := 0, optional_skip_count := 0, degraded := False\<rparr>"
  have "ran_to ?s 0" by (rule ran_to_start) (simp add: pr)
  from execute_plan_completes [OF this, of firm "[]" ctx] obtain ctx' l' where
    "execute_plan [0..<length (canonical_order v)] ctx ?s = (BOOT_LEDGER_STATUS_OK, ctx', l')" using rep firm by auto
  then show ?thesis using pr by (simp add: boot_ledger_execute_def execute_ledger_def Let_def)
qed

section \<open>The installed plan in the ledger\<close>

lemma build_stages_all:
  assumes "\<forall>d \<in> set ds. declare_dependencies d \<noteq> None" "length (descriptors l) + length ds \<le> BOOT_LEDGER_STAGE_CAPACITY"
  shows "\<exists>l'. build_stages ds (Some l) = (BOOT_LEDGER_STATUS_OK, Some l') \<and>
    descriptors l' = descriptors l @ map (\<lambda>d. the (declare_dependencies d)) ds"
  using assms
proof (induction ds arbitrary: l)
  case (Cons d ds)
  from Cons.prems(1) obtain d' where d': "declare_dependencies d = Some d'" by auto
  have "\<exists>l'. build_stages ds (Some (l\<lparr>descriptors := descriptors l @ [d'], validated := False,
      executed := False, ledger_status := BOOT_LEDGER_STATUS_NOT_VALIDATED\<rparr>)) = (BOOT_LEDGER_STATUS_OK, Some l') \<and>
    descriptors l' = (descriptors l @ [d']) @ map (\<lambda>d. the (declare_dependencies d)) ds"
    using Cons.IH [of "l\<lparr>descriptors := descriptors l @ [d'], validated := False, executed := False,
        ledger_status := BOOT_LEDGER_STATUS_NOT_VALIDATED\<rparr>"] Cons.prems by simp
  then show ?case using d' Cons.prems(2) by (simp add: boot_ledger_add_stage_def)
qed simp

lemma row_of_the: "map (\<lambda>d. map_option row_of (f d)) ds = map Some rows \<Longrightarrow> map row_of (map (\<lambda>d. the (f d)) ds) = rows"
proof (induction ds arbitrary: rows)
  case (Cons d ds)
  then show ?case by (cases rows) auto
qed simp

lemma map_option_Some: "map (\<lambda>d. map_option g (f d)) ds = map Some rows \<Longrightarrow> \<forall>d \<in> set ds. f d \<noteq> None"
proof (induction ds arbitrary: rows)
  case (Cons d ds)
  then show ?case by (cases rows) auto
qed simp

lemma installed_stages_rows: "map row_of (installed_stages execute) = installed_rows"
  unfolding installed_stages_def by (rule row_of_the [OF installed_declared])

lemma length_installed: "length (installed_stages execute) = 57" "length (installed_descriptors execute) = 57"
proof -
  have "length installed_rows = 57" by (simp add: installed_rows_def)
  then show "length (installed_stages execute) = 57" using installed_stages_rows [of execute] by (metis length_map)
  then show "length (installed_descriptors execute) = 57" by (simp add: installed_stages_def)
qed

lemma declare_keeps:
  "declare_dependencies d = Some d' \<Longrightarrow> sd_id d' = sd_id d \<and> sd_name d' = sd_name d \<and> sd_execute d' = sd_execute d"
  unfolding declare_dependencies_def Let_def by (auto simp: declares split: if_splits)

lemma installed_callbacks:
  assumes "d \<in> set (installed_stages execute)"
  shows "sd_name d \<noteq> None" "sd_execute d = Some (execute (sd_id d))"
proof -
  from assms obtain e where e0: "e \<in> set (installed_descriptors execute)" "d = the (declare_dependencies e)"
    by (auto simp: installed_stages_def)
  then have e: "e \<in> set (installed_descriptors execute)" "declare_dependencies e = Some d"
    using map_option_Some [OF installed_declared [of execute]] by auto
  have "sd_name e \<noteq> None \<and> sd_execute e = Some (execute (sd_id e))"
  proof -
    have "list_all (\<lambda>e. sd_name e \<noteq> None \<and> sd_execute e = Some (execute (sd_id e))) (installed_descriptors execute)"
      by (simp add: installed_descriptors_def REQUIRED_STAGE_def OPTIONAL_STAGE_def OPTIONAL_NEUTRAL_STAGE_def)
    then show ?thesis using e(1) by (simp add: list_all_iff)
  qed
  then show "sd_name d \<noteq> None" "sd_execute d = Some (execute (sd_id d))" using declare_keeps [OF e(2)] by auto
qed

lemma installed_built:
  "\<exists>l. boot_plan_build execute (Some l0) = (BOOT_LEDGER_STATUS_OK, Some l) \<and> descriptors l = installed_stages execute"
proof -
  obtain r where r: "boot_ledger_reset (Some l0) = Some r" "descriptors r = []" by (simp add: boot_ledger_reset_def)
  have "\<exists>l. build_stages (installed_descriptors execute) (Some r) = (BOOT_LEDGER_STATUS_OK, Some l) \<and>
      descriptors l = descriptors r @ map (\<lambda>d. the (declare_dependencies d)) (installed_descriptors execute)"
    by (rule build_stages_all [OF map_option_Some [OF installed_declared]])
      (simp add: r(2) length_installed BOOT_LEDGER_STAGE_CAPACITY_def)
  then show ?thesis using r by (simp add: boot_plan_build_def installed_stages_def)
qed

definition planned_stages :: "(nat \<Rightarrow> 'c boot_stage_execute) \<Rightarrow> 'c boot_stage_descriptor list" where
  "planned_stages execute = map ((!) (installed_stages execute)) planned_indices"

lemma planned_stages_rows: "map row_of (planned_stages execute) = planned_rows"
proof -
  have lt: "i < 57" if "i \<in> set planned_indices" for i
    using that mset_eq_setD [OF planned_indices_perm] by simp
  have "map row_of (planned_stages execute) = map ((!) (map row_of (installed_stages execute))) planned_indices"
    using lt by (auto simp: planned_stages_def length_installed)
  then show ?thesis by (simp add: installed_stages_rows installed_order)
qed

lemma planned_stages_perm: "mset (planned_stages execute) = mset (installed_stages execute)"
proof -
  have "mset (planned_stages execute) = image_mset ((!) (installed_stages execute)) (mset planned_indices)"
    by (simp add: planned_stages_def)
  also have "\<dots> = mset (map ((!) (installed_stages execute)) [0..<length (installed_stages execute)])"
    unfolding planned_indices_perm length_installed by simp
  finally show ?thesis by (simp only: map_nth)
qed

lemma installed_validated:
  assumes "descriptors l = installed_stages execute"
  shows "\<exists>v. boot_ledger_validate (Some l) = (BOOT_LEDGER_STATUS_OK, Some v) \<and> descriptors v = installed_stages execute \<and>
    map (\<lambda>index. installed_stages execute ! index) (canonical_order v) = planned_stages execute \<and>
    validated_stage_ids v = map sd_id (planned_stages execute)"
proof -
  have len: "descriptors l \<noteq> []" "length (descriptors l) \<le> BOOT_LEDGER_STAGE_CAPACITY"
    using length_installed(1) [of execute] assms by (auto simp: BOOT_LEDGER_STAGE_CAPACITY_def)
  have "\<exists>v. boot_ledger_validate (Some l) = (BOOT_LEDGER_STATUS_OK, Some v) \<and> descriptors v = descriptors l \<and>
    map (\<lambda>index. descriptors l ! index) (canonical_order v) = planned_stages execute \<and>
    validated_stage_ids v = map sd_id (planned_stages execute)"
    by (rule rows_validated [OF _ _ len])
      (use assms in \<open>auto simp: installed_stages_rows installed_consistent planned_stages_perm planned_stages_rows
         installed_greedy installed_callbacks\<close>)
  then show ?thesis by (simp add: assms)
qed

lemma planned_ids: "map sd_id (planned_stages execute) = map fst planned_rows"
proof -
  have "map fst (map row_of (planned_stages execute)) = map sd_id (planned_stages execute)" by (simp add: row_of_def)
  then show ?thesis by (simp add: planned_stages_rows)
qed

lemma firm_plan:
  "firm_rows [BOOT_STAGE_PROCESS_INSTALLED_PROOF, BOOT_STAGE_LINUX_INSTALLED_PROOF, BOOT_STAGE_LINUX_UNAME_INSTALLED_PROOF] []
     planned_rows"
  by (simp add: planned_rows_def stage_ids)

abbreviation firm_stages :: "nat list" where
  "firm_stages \<equiv> [BOOT_STAGE_PROCESS_INSTALLED_PROOF, BOOT_STAGE_LINUX_INSTALLED_PROOF, BOOT_STAGE_LINUX_UNAME_INSTALLED_PROOF]"

lemma kernel_boot_steps:
  obtains l v where "boot_plan_build execute (Some l0) = (BOOT_LEDGER_STATUS_OK, Some l)"
    "boot_ledger_validate (Some l) = (BOOT_LEDGER_STATUS_OK, Some v)" "descriptors v = installed_stages execute"
    "map (\<lambda>index. installed_stages execute ! index) (canonical_order v) = planned_stages execute"
    "validated_stage_ids v = map fst planned_rows"
    "kernel_boot execute l0 ctx = boot_ledger_execute (Some v) (Some ctx)"
proof -
  obtain l where l: "boot_plan_build execute (Some l0) = (BOOT_LEDGER_STATUS_OK, Some l)" "descriptors l = installed_stages execute"
    using installed_built by blast
  obtain v where v: "boot_ledger_validate (Some l) = (BOOT_LEDGER_STATUS_OK, Some v)" "descriptors v = installed_stages execute"
    "map (\<lambda>index. installed_stages execute ! index) (canonical_order v) = planned_stages execute"
    "validated_stage_ids v = map sd_id (planned_stages execute)" using installed_validated [OF l(2)] by blast
  show thesis by (rule that [OF l(1) v(1-3)]) (use l v in \<open>simp_all add: kernel_boot_def planned_ids\<close>)
qed

lemma kernel_boot_done:
  assumes "\<forall>d \<in> set (installed_stages execute). stage_reports firm_stages d"
  shows "\<exists>ctx' l'. kernel_boot execute l0 ctx = (BOOT_LEDGER_STATUS_OK, Some ctx', Some l') \<and> executed l' \<and>
    map rc_stage_id (receipts l') = map fst planned_rows \<and>
    (\<forall>k < length (receipts l'). sd_required (planned_stages execute ! k) \<longrightarrow> rc_result (receipts l' ! k) = BOOT_RECEIPT_RAN) \<and>
    verify_receipt_set l' = (BOOT_LEDGER_STATUS_OK, l') \<and> boot_ledger_fingerprint_valid (Some l')"
proof -
  obtain l v where s: "boot_plan_build execute (Some l0) = (BOOT_LEDGER_STATUS_OK, Some l)"
    "boot_ledger_validate (Some l) = (BOOT_LEDGER_STATUS_OK, Some v)" "descriptors v = installed_stages execute"
    "map (\<lambda>index. installed_stages execute ! index) (canonical_order v) = planned_stages execute"
    "validated_stage_ids v = map fst planned_rows"
    "kernel_boot execute l0 ctx = boot_ledger_execute (Some v) (Some ctx)" by (rule kernel_boot_steps)
  have rep: "\<forall>d \<in> set (descriptors v). stage_reports firm_stages d" using assms by (simp only: s(3))
  have firm: "firm_rows firm_stages [] (map row_of (map (\<lambda>index. descriptors v ! index) (canonical_order v)))"
    by (simp only: s(3,4) planned_stages_rows firm_plan)
  have "\<exists>ctx' l'. boot_ledger_execute (Some v) (Some ctx) = (BOOT_LEDGER_STATUS_OK, Some ctx', Some l')"
    by (rule execute_completes [OF s(2) rep firm])
  then obtain ctx' l' where x: "boot_ledger_execute (Some v) (Some ctx) = (BOOT_LEDGER_STATUS_OK, Some ctx', Some l')" by blast
  note e = executed_ledger [OF s(2) x]
  then have r: "ran_to l' (length (canonical_order l'))" by blast
  from e have o: "canonical_order l' = canonical_order v" "descriptors l' = installed_stages execute"
    "validated_stage_ids l' = map fst planned_rows" "executed l'" "validated l'"
    "fingerprint_receipts l' = ledger_fingerprint l'" "fingerprint_plan l' = validated_plan_fingerprint l'"
    unfolding s(3,5) by blast+
  have len: "length (receipts l') = length (canonical_order l')" using r unfolding ran_to_def by blast
  have fits: "receipt_fits (planned_at l' k) (provided_so_far l' k) k (receipts l' ! k)" if "k < length (canonical_order l')" for k
    using r that unfolding ran_to_def by blast
  have "rc_result (receipts l' ! k) = BOOT_RECEIPT_RAN"
    if k: "k < length (receipts l')" "sd_required (planned_stages execute ! k)" for k
  proof -
    have kv: "k < length (canonical_order v)" using k(1) len o(1) by simp
    have "map (\<lambda>index. installed_stages execute ! index) (canonical_order v) ! k = installed_stages execute ! (canonical_order v ! k)"
      using kv by (rule nth_map)
    then have "planned_at l' k = planned_stages execute ! k" unfolding s(4) o(1,2) by (rule sym)
    then show ?thesis using fits [of k] kv k(2) unfolding o(1) receipt_fits_def by metis
  qed
  moreover have "map rc_stage_id (receipts l') = map fst planned_rows" using ran_to_ids [OF r] unfolding o(3) .
  moreover have "verify_receipt_set l' = (BOOT_LEDGER_STATUS_OK, l')" by (rule verify_receipt_set_ok [OF r])
  moreover have "boot_ledger_fingerprint_valid (Some l')" using o by (simp add: boot_ledger_fingerprint_valid_def)
  ultimately show ?thesis using x s(6) o(4) by metis
qed

section \<open>The proof stages and their prerequisites\<close>

definition proof_checks :: "(nat \<times> ('c boot_stage_descriptor option \<Rightarrow> bool)) list" where
  "proof_checks =
    [(BOOT_STAGE_DEVICE_SUBSTRATE_PROOF, device_proof_dependencies_complete),
     (BOOT_STAGE_XHCI_DESCRIPTOR_PROOF, xhci_proof_dependencies_complete),
     (BOOT_STAGE_NVME_READ_PROOF, nvme_proof_dependencies_complete),
     (BOOT_STAGE_FILESYSTEM_FILE_PROOF, filesystem_proof_dependencies_complete),
     (BOOT_STAGE_PROCESS_INSTALLED_PROOF, process_proof_dependencies_complete),
     (BOOT_STAGE_LINUX_INSTALLED_PROOF, linux_proof_dependencies_complete),
     (BOOT_STAGE_LINUX_UNAME_INSTALLED_PROOF, linux_uname_proof_dependencies_complete),
     (BOOT_STAGE_MULTIPROCESS_PROOF, multiprocess_proof_dependencies_complete),
     (BOOT_STAGE_DRIVER_MATRIX_PROBE, driver_matrix_dependencies_complete),
     (BOOT_STAGE_AUDIO_CODEC_PROOF, audio_proof_dependencies_complete),
     (BOOT_STAGE_NVIDIA_PROBE, nvidia_probe_dependencies_complete)]"

lemma dependencies_complete_iff:
  "dependencies_complete (Some d) required \<longleftrightarrow>
     length (required_capabilities d) = length required \<and> set required \<subseteq> set (required_capabilities d)"
  by (auto simp: dependencies_complete_def list_all_iff list_ex_iff)

lemma installed_requires:
  assumes "d \<in> set (installed_stages execute)"
  shows "(sd_id d, sd_phase d, sd_required d, skip_preserves_health d, irreversible_class d,
     required_capabilities d, provided_capabilities d, skipped_capabilities d) \<in> set installed_rows"
proof -
  have "row_of d \<in> set (map row_of (installed_stages execute))" using assms by simp
  then show ?thesis unfolding installed_stages_rows by (simp add: row_of_def)
qed

lemma row_unique:
  "(i, r) \<in> set installed_rows \<Longrightarrow> (i, r') \<in> set installed_rows \<Longrightarrow> r = r'"
  using installed_ids by (metis eq_key_imp_eq_value)

lemma proof_check_lists:
  "device_proof_dependencies_complete = (\<lambda>d. dependencies_complete d [9, 18, 12, 4, 14, 15, 23, 24, 37, 38, 39])"
  "xhci_proof_dependencies_complete = (\<lambda>d. dependencies_complete d [9, 18, 12, 4, 14, 15, 17, 23, 24, 37, 38, 39, 44])"
  "nvme_proof_dependencies_complete = (\<lambda>d. dependencies_complete d [9, 18, 12, 4, 14, 15, 17, 23, 24, 37, 38, 39, 47])"
  "filesystem_proof_dependencies_complete = (\<lambda>d. dependencies_complete d [9, 18, 12, 4, 14, 15, 17, 23, 24, 37, 38, 39, 47, 50])"
  "process_proof_dependencies_complete = (\<lambda>d. dependencies_complete d [9, 10, 4, 12, 13, 14, 15, 17, 23, 24, 37, 38, 39, 47, 50, 53, 54, 55])"
  "linux_proof_dependencies_complete = (\<lambda>d. dependencies_complete d [9, 10, 4, 12, 13, 14, 15, 17, 18, 23, 24, 37, 38, 39, 47, 50, 53, 54, 55, 59, 60])"
  "linux_uname_proof_dependencies_complete = (\<lambda>d. dependencies_complete d [9, 10, 4, 12, 13, 14, 15, 17, 18, 23, 24, 37, 38, 39, 47, 50, 53, 54, 55, 59, 60, 63, 64])"
  "multiprocess_proof_dependencies_complete = (\<lambda>d. dependencies_complete d [9, 10, 4, 12, 13, 14, 15, 17, 23, 24, 54, 55, 69])"
  "driver_matrix_dependencies_complete = (\<lambda>d. dependencies_complete d [9, 10, 12, 13, 14, 15, 17, 18, 37, 71])"
  "audio_proof_dependencies_complete = (\<lambda>d. dependencies_complete d [9, 10, 4, 12, 13, 14, 15, 17, 18, 37, 39, 74])"
  "nvidia_probe_dependencies_complete = (\<lambda>d. dependencies_complete d [9, 10, 4, 12, 13, 14, 15, 17, 18, 37, 77])"
  unfolding fun_eq_iff device_proof_dependencies_complete_def xhci_proof_dependencies_complete_def nvme_proof_dependencies_complete_def filesystem_proof_dependencies_complete_def process_proof_dependencies_complete_def linux_proof_dependencies_complete_def linux_uname_proof_dependencies_complete_def multiprocess_proof_dependencies_complete_def driver_matrix_dependencies_complete_def audio_proof_dependencies_complete_def nvidia_probe_dependencies_complete_def
    requirement_arrays capability_ids by simp_all

definition need_rows :: "(nat \<times> nat list) list" where
  "need_rows = map (\<lambda>(i, _, _, _, _, need, _, _). (i, need)) installed_rows"

lemma proof_check_rows:
  "list_all (\<lambda>(i, complete). case map_of need_rows i of None \<Rightarrow> False
     | Some need \<Rightarrow> complete = (\<lambda>d. dependencies_complete d need) \<and> distinct need \<and> 2 \<le> length need) proof_checks"
  by (simp add: proof_checks_def proof_check_lists need_rows_def installed_rows_def stage_ids)

lemma installed_need:
  assumes "d \<in> set (installed_stages execute)"
  shows "map_of need_rows (sd_id d) = Some (required_capabilities d)"
proof -
  have "map fst need_rows = map fst installed_rows" by (simp add: need_rows_def comp_def case_prod_unfold)
  then have "distinct (map fst need_rows)" using installed_ids by simp
  moreover have "(sd_id d, required_capabilities d) \<in> set need_rows"
    using installed_requires [OF assms] by (force simp: need_rows_def)
  ultimately show ?thesis by (simp add: map_of_eq_Some_iff)
qed

lemma proof_checks_pass:
  assumes d: "d \<in> set (installed_stages execute)" and c: "(sd_id d, complete) \<in> set proof_checks"
  shows "complete (Some d)"
    and "\<not> complete (Some (d\<lparr>required_capabilities := take (length (required_capabilities d) - 1) (required_capabilities d)\<rparr>))"
    and "\<not> complete (Some (d\<lparr>required_capabilities :=
           (required_capabilities d)[length (required_capabilities d) - 1 := required_capabilities d ! 0]\<rparr>))"
proof -
  let ?need = "required_capabilities d"
  have n: "complete = (\<lambda>d. dependencies_complete d ?need)" "distinct ?need" "2 \<le> length ?need"
    using proof_check_rows c installed_need [OF d] by (auto simp: list_all_iff)
  show "complete (Some d)" by (simp add: n(1) dependencies_complete_iff)
  show "\<not> complete (Some (d\<lparr>required_capabilities := take (length ?need - 1) ?need\<rparr>))"
    using n(3) by (simp add: n(1) dependencies_complete_iff)
  let ?member = "?need[length ?need - 1 := ?need ! 0]"
  have "?need ! (length ?need - 1) \<notin> set ?member"
  proof
    assume "?need ! (length ?need - 1) \<in> set ?member"
    then obtain i where i: "i < length ?need" "?member ! i = ?need ! (length ?need - 1)"
      by (auto simp: in_set_conv_nth)
    then have "?need ! (if i = length ?need - 1 then 0 else i) = ?need ! (length ?need - 1)"
      by (auto simp: nth_list_update split: if_splits)
    moreover have "(if i = length ?need - 1 then 0 else i) < length ?need" "length ?need - 1 < length ?need"
      using i(1) n(3) by auto
    ultimately have "(if i = length ?need - 1 then 0 else i) = length ?need - 1"
      using n(2) nth_eq_iff_index_eq by blast
    then show False using n(3) by (auto split: if_splits)
  qed
  moreover have "?need ! (length ?need - 1) \<in> set ?need" using n(3) by (intro nth_mem) simp
  ultimately show "\<not> complete (Some (d\<lparr>required_capabilities := ?member\<rparr>))"
    by (auto simp: n(1) dependencies_complete_iff)
qed

section \<open>The self-test of a machine without a pointer\<close>

lemma add_stages_all:
  "length (descriptors l) + length ds \<le> BOOT_LEDGER_STAGE_CAPACITY \<Longrightarrow>
    \<exists>l'. add_stages ds (Some l) = Some (Some l') \<and> descriptors l' = descriptors l @ ds"
proof (induction ds arbitrary: l)
  case (Cons d ds)
  have "\<exists>l'. add_stages ds (Some (l\<lparr>descriptors := descriptors l @ [d], validated := False,
      executed := False, ledger_status := BOOT_LEDGER_STATUS_NOT_VALIDATED\<rparr>)) = Some (Some l') \<and>
    descriptors l' = (descriptors l @ [d]) @ ds"
    using Cons.IH [of "l\<lparr>descriptors := descriptors l @ [d], validated := False, executed := False,
        ledger_status := BOOT_LEDGER_STATUS_NOT_VALIDATED\<rparr>"] Cons.prems by simp
  then show ?case using Cons.prems by (simp add: boot_ledger_add_stage_def)
qed simp

lemma pointer_absence_rows:
  "map row_of pointer_absence_descriptors =
    [(25, 4, True, False, 0, [], [30], []), (26, 4, False, True, 0, [30], [31], [32]),
     (27, 4, True, False, 0, [30, 32], [33], []), (28, 7, True, False, 0, [32, 33], [34], [])]"
  by (simp add: pointer_absence_descriptors_def with_callback_def row_of_def stage_ids capability_ids phase_ids)

lemma pointer_absence_plan:
  assumes ds: "descriptors l = pointer_absence_descriptors"
  shows "\<exists>v. boot_ledger_validate (Some l) = (BOOT_LEDGER_STATUS_OK, Some v) \<and> descriptors v = pointer_absence_descriptors \<and>
    canonical_order v = [0, 1, 2, 3] \<and> validated_stage_ids v = [25, 26, 27, 28]"
proof -
  let ?ds = pointer_absence_descriptors
  have c: "rows_consistent (map row_of ?ds)" "greedy_rows [] (map row_of ?ds)"
    unfolding pointer_absence_rows by (simp_all add: rows_consistent_def irreversible_requirements_def)
  have some: "\<forall>d \<in> set ?ds. sd_name d \<noteq> None \<and> sd_execute d \<noteq> None"
    by (simp add: pointer_absence_descriptors_def with_callback_def)
  have len: "?ds \<noteq> []" "length ?ds = 4" by (simp_all add: pointer_absence_descriptors_def)
  then have cap: "length ?ds \<le> BOOT_LEDGER_STAGE_CAPACITY" by (simp add: BOOT_LEDGER_STAGE_CAPACITY_def)
  obtain v where v: "boot_ledger_validate (Some l) = (BOOT_LEDGER_STATUS_OK, Some v)" "descriptors v = ?ds"
    "map (\<lambda>index. ?ds ! index) (canonical_order v) = ?ds" "validated_stage_ids v = map sd_id ?ds"
    using rows_validated [of l ?ds] c some len(1) cap unfolding ds by blast
  have ids: "map sd_id ?ds = [25, 26, 27, 28]"
    by (simp add: pointer_absence_descriptors_def with_callback_def stage_ids)
  have "distinct (map sd_id ?ds)" unfolding ids by simp
  then have dist: "distinct ?ds" by (simp only: distinct_map)
  have pr: "set (canonical_order v) \<subseteq> {..<length ?ds}" using validated_plan_ready [OF v(1)] v(2) by (simp add: plan_ready_def)
  have lo: "length (canonical_order v) = 4" using v(3) len(2) by (metis length_map)
  have "canonical_order v ! k = k" if "k < 4" for k
  proof -
    have "?ds ! (canonical_order v ! k) = ?ds ! k" using v(3) that lo by (metis nth_map)
    moreover have "canonical_order v ! k \<in> set (canonical_order v)" by (rule nth_mem) (use that lo in simp)
    then have "canonical_order v ! k < length ?ds" using pr by blast
    ultimately show ?thesis using dist that len(2) nth_eq_iff_index_eq by metis
  qed
  then have "canonical_order v = [0..<4]" using lo by (intro nth_equalityI) simp_all
  then have "canonical_order v = [0, 1, 2, 3]" by (simp add: upt_rec)
  then show ?thesis using v(1,2,4) ids by auto
qed

lemma pointer_absence_passes: "boot_plan_pointer_absence_self_test static_ledger ctx"
proof -
  obtain r where r: "boot_ledger_reset (Some static_ledger) = Some r" "descriptors r = []" by (simp add: boot_ledger_reset_def)
  obtain l where l: "add_stages pointer_absence_descriptors (Some r) = Some (Some l)" "descriptors l = pointer_absence_descriptors"
    using add_stages_all [of r pointer_absence_descriptors] r(2)
    by (auto simp: pointer_absence_descriptors_def BOOT_LEDGER_STAGE_CAPACITY_def)
  obtain v where v: "boot_ledger_validate (Some l) = (BOOT_LEDGER_STATUS_OK, Some v)" "descriptors v = pointer_absence_descriptors"
    "canonical_order v = [0, 1, 2, 3]" "validated_stage_ids v = [25, 26, 27, 28]" using pointer_absence_plan [OF l(2)] by blast
  note pr = validated_plan_ready [OF v(1)]
  let ?s = "v\<lparr>receipts := [], established_capabilities := [], executed_count := 0, optional_skip_count := 0, degraded := False\<rparr>"
  have "\<exists>c m. execute_plan [0, 1, 2, 3] ctx ?s = (BOOT_LEDGER_STATUS_OK, c, m) \<and> \<not> degraded m \<and> optional_skip_count m = 1 \<and>
      map rc_stage_id (receipts m) = [25, 26, 27, 28] \<and> map rc_result (receipts m) = [0, 1, 0, 0] \<and>
      established_capabilities m = [30, 32, 33, 34] \<and> same_plan ?s m"
    using v(2-4)
    by (simp add: pointer_absence_descriptors_def with_callback_def synthetic_stage_success_def synthetic_pointer_absent_def
        execute_stage_def missing_requirement_def validate_result_def append_receipt_def succeed_result_def skip_result_def
        ledger_consts receipt_consts stage_ids capability_ids capability_is_known_def same_plan_def Let_def)
  then obtain c m where m: "execute_plan [0, 1, 2, 3] ctx ?s = (BOOT_LEDGER_STATUS_OK, c, m)" "\<not> degraded m" "optional_skip_count m = 1"
      "map rc_stage_id (receipts m) = [25, 26, 27, 28]" "map rc_result (receipts m) = [0, 1, 0, 0]"
      "established_capabilities m = [30, 32, 33, 34]" by (elim exE conjE) (rule that)
  let ?l = "m\<lparr>ledger_fingerprint := fingerprint_receipts m, executed := True, ledger_status := BOOT_LEDGER_STATUS_OK\<rparr>"
  have order: "[0..<length (canonical_order v)] = [0, 1, 2, 3]" by (simp add: v(3) upt_rec)
  have x: "boot_ledger_execute (Some v) (Some ctx) = (BOOT_LEDGER_STATUS_OK, Some c, Some ?l)"
    using m(1) pr order by (simp add: boot_ledger_execute_def execute_ledger_def Let_def)
  have fp: "boot_ledger_fingerprint_valid (Some ?l)"
    using executed_ledger [OF v(1) x] unfolding boot_ledger_fingerprint_valid_def by simp
  obtain r1 r2 r3 r4 where rs: "receipts m = [r1, r2, r3, r4]" "rc_stage_id r1 = 25" "rc_stage_id r2 = 26" "rc_stage_id r3 = 27"
    "rc_stage_id r4 = 28" "rc_result r2 = 1" "rc_result r4 = 0"
    using m(4,5) by (auto simp: map_eq_Cons_conv)
  have rf: "boot_ledger_receipt_for (Some ?l) 26 = Some r2" "boot_ledger_receipt_for (Some ?l) 28 = Some r4"
    using rs by (simp_all add: boot_ledger_receipt_for_def stage_is_known_def ledger_consts find_from.simps)
  have cap: "boot_ledger_has_capability (Some ?l) k \<longleftrightarrow> k \<in> {30, 32, 33, 34}" for k
    using m(6) by (auto simp: capability_is_known_def ledger_consts)
  show ?thesis
    unfolding boot_plan_pointer_absence_self_test_def r(1) l(1) option.case v(1) prod.case if_True simp_thms x Let_def
      stage_ids capability_ids
    using m(2,3) rs(6,7) rf cap fp by (simp add: receipt_consts)
qed

section \<open>A boot without devices\<close>

text \<open>Callbacks of a machine on which every required stage succeeds and every optional one skips.\<close>

definition sample_callbacks :: "nat \<Rightarrow> unit boot_stage_execute" where
  "sample_callbacks stage = (\<lambda>context _. (context,
     (case map_of installed_rows stage of
        None \<Rightarrow> fail_result
      | Some (_, required, _, _, _, prov, skip) \<Rightarrow>
          if required then \<lparr>sr_result = BOOT_RECEIPT_RAN, sr_provided = prov, sr_proof_counters = []\<rparr>
          else \<lparr>sr_result = BOOT_RECEIPT_SKIPPED, sr_provided = skip, sr_proof_counters = []\<rparr>)))"

lemma sample_callbacks_report: "\<forall>d \<in> set (installed_stages sample_callbacks). stage_reports firm_stages d"
proof
  fix d assume d: "d \<in> set (installed_stages sample_callbacks)"
  have "map_of installed_rows (sd_id d) = Some (sd_phase d, sd_required d, skip_preserves_health d, irreversible_class d,
      required_capabilities d, provided_capabilities d, skipped_capabilities d)"
    using installed_requires [OF d] installed_ids by (simp add: map_of_eq_Some_iff)
  then have "snd (the (sd_execute d) c fail_result) = (if sd_required d then succeed_result d else skip_result d)" for c
    using installed_callbacks(2) [OF d] by (simp add: sample_callbacks_def succeed_result_def skip_result_def)
  moreover have "succeed_result d = (succeed_result d)\<lparr>sr_proof_counters := []\<rparr>" by (simp add: succeed_result_def)
  ultimately show "stage_reports firm_stages d" unfolding stage_reports_def Let_def
    by (metis le0 list.size(3))
qed

definition sample_machine_ledger :: "unit boot_ledger" where
  "sample_machine_ledger = \<lparr>descriptors = [], canonical_order = [], validated_stage_ids = [], receipts = [],
     established_capabilities = [], ledger_status = BOOT_LEDGER_STATUS_OK, refusal_stage = 0, refusal_capability = 0,
     validated_plan_fingerprint = 0, ledger_fingerprint = 0, executed_count = 0, optional_skip_count = 0,
     validated = False, executed = False, degraded = False\<rparr>"

definition sample_machine_context :: "unit boot_context" where
  "sample_machine_context = \<lparr>stage_failure_detail = None, boot_values = ()\<rparr>"

lemma kernel_boot_plan:
  "\<exists>l v. boot_plan_build execute (Some l0) = (BOOT_LEDGER_STATUS_OK, Some l) \<and>
    boot_ledger_validate (Some l) = (BOOT_LEDGER_STATUS_OK, Some v) \<and>
    length (descriptors v) = 57 \<and> validated_stage_ids v = map fst planned_rows"
  by (rule kernel_boot_steps [of execute l0 undefined]) (use length_installed(1) [of execute] in auto)

lemma planned_names: "map fst planned_rows =
    [BOOT_STAGE_EARLY_SERIAL, BOOT_STAGE_INTERRUPT_FOUNDATION, BOOT_STAGE_PURE_SELF_TESTS,
     BOOT_STAGE_BOOT_INFORMATION, BOOT_STAGE_FIRMWARE_DISCOVERY, BOOT_STAGE_DEVICE_WINDOWS,
     BOOT_STAGE_INTERRUPT_CONTROLLERS, BOOT_STAGE_FRAME_ALLOCATOR, BOOT_STAGE_PAGING_INSTALL,
     BOOT_STAGE_PAGING_PROOFS, BOOT_STAGE_FRAMEBUFFER_WC, BOOT_STAGE_MEMORY_RUNTIME, BOOT_STAGE_FRAMEBUFFER_OUTPUT,
     BOOT_STAGE_KEYBOARD, BOOT_STAGE_SHELL, BOOT_STAGE_EARLY_SCENARIO, BOOT_STAGE_UI_FONT,
     BOOT_STAGE_POINTER_DECISION, BOOT_STAGE_POINTER_OUTCOME, BOOT_STAGE_UI_LAYOUT, BOOT_STAGE_INTERRUPT_PROOFS,
     BOOT_STAGE_TIMER_ROUTING, BOOT_STAGE_TIMER_CALIBRATION, BOOT_STAGE_PCI, BOOT_STAGE_THREADING,
     BOOT_STAGE_SCHEDULER, BOOT_STAGE_PCI_RESOURCE_FOUNDATION, BOOT_STAGE_DYNAMIC_VECTOR_FOUNDATION,
     BOOT_STAGE_DMA_FOUNDATION, BOOT_STAGE_DEVICE_SUBSTRATE_PROOF, BOOT_STAGE_XHCI_FOUNDATION,
     BOOT_STAGE_XHCI_DESCRIPTOR_PROOF, BOOT_STAGE_NVME_FOUNDATION, BOOT_STAGE_NVME_READ_PROOF,
     BOOT_STAGE_FAT16_FOUNDATION, BOOT_STAGE_FILESYSTEM_FILE_PROOF, BOOT_STAGE_PROCESS_ADDRESS_SPACE_FOUNDATION,
     BOOT_STAGE_ELF64_LOADER_FOUNDATION, BOOT_STAGE_PROCESS_INSTALLED_PROOF,
     BOOT_STAGE_LINUX_SYSCALL_CPU_FOUNDATION, BOOT_STAGE_LINUX_IMAGE_STACK_FOUNDATION,
     BOOT_STAGE_LINUX_INSTALLED_PROOF, BOOT_STAGE_LINUX_UNAME_IMAGE_UTS_FOUNDATION,
     BOOT_STAGE_LINUX_UNAME_INSTALLED_PROOF, BOOT_STAGE_MULTIPROCESS_FOUNDATION, BOOT_STAGE_MULTIPROCESS_PROOF,
     BOOT_STAGE_DRIVER_MATRIX_FOUNDATION, BOOT_STAGE_DRIVER_MATRIX_PROBE, BOOT_STAGE_AUDIO_FOUNDATION,
     BOOT_STAGE_AUDIO_CODEC_PROOF, BOOT_STAGE_NVIDIA_FOUNDATION, BOOT_STAGE_NVIDIA_PROBE, BOOT_STAGE_CLOSING_PROOFS,
     BOOT_STAGE_NETWORK_FOUNDATION, BOOT_STAGE_DESKTOP_CONSTRUCTION, BOOT_STAGE_DESKTOP_ACTIVATION,
     BOOT_STAGE_REDWOOD_INSTALLED_PROOF]"
  by (simp add: planned_rows_def stage_ids)

section \<open>Properties\<close>

text \<open>C10. The kernel's own plan is one the ledger accepts: whatever callbacks its 57 stages have and whatever the
  ledger held, the plan is built and validated, and it runs in this order.\<close>

theorem installed_plan_accepted:
  "\<exists>l v. boot_plan_build execute (Some installed_ledger) = (BOOT_LEDGER_STATUS_OK, Some l) \<and>
    boot_ledger_validate (Some l) = (BOOT_LEDGER_STATUS_OK, Some v) \<and> length (descriptors v) = 57 \<and>
    validated_stage_ids v =
    [BOOT_STAGE_EARLY_SERIAL, BOOT_STAGE_INTERRUPT_FOUNDATION, BOOT_STAGE_PURE_SELF_TESTS,
     BOOT_STAGE_BOOT_INFORMATION, BOOT_STAGE_FIRMWARE_DISCOVERY, BOOT_STAGE_DEVICE_WINDOWS,
     BOOT_STAGE_INTERRUPT_CONTROLLERS, BOOT_STAGE_FRAME_ALLOCATOR, BOOT_STAGE_PAGING_INSTALL,
     BOOT_STAGE_PAGING_PROOFS, BOOT_STAGE_FRAMEBUFFER_WC, BOOT_STAGE_MEMORY_RUNTIME, BOOT_STAGE_FRAMEBUFFER_OUTPUT,
     BOOT_STAGE_KEYBOARD, BOOT_STAGE_SHELL, BOOT_STAGE_EARLY_SCENARIO, BOOT_STAGE_UI_FONT,
     BOOT_STAGE_POINTER_DECISION, BOOT_STAGE_POINTER_OUTCOME, BOOT_STAGE_UI_LAYOUT, BOOT_STAGE_INTERRUPT_PROOFS,
     BOOT_STAGE_TIMER_ROUTING, BOOT_STAGE_TIMER_CALIBRATION, BOOT_STAGE_PCI, BOOT_STAGE_THREADING,
     BOOT_STAGE_SCHEDULER, BOOT_STAGE_PCI_RESOURCE_FOUNDATION, BOOT_STAGE_DYNAMIC_VECTOR_FOUNDATION,
     BOOT_STAGE_DMA_FOUNDATION, BOOT_STAGE_DEVICE_SUBSTRATE_PROOF, BOOT_STAGE_XHCI_FOUNDATION,
     BOOT_STAGE_XHCI_DESCRIPTOR_PROOF, BOOT_STAGE_NVME_FOUNDATION, BOOT_STAGE_NVME_READ_PROOF,
     BOOT_STAGE_FAT16_FOUNDATION, BOOT_STAGE_FILESYSTEM_FILE_PROOF, BOOT_STAGE_PROCESS_ADDRESS_SPACE_FOUNDATION,
     BOOT_STAGE_ELF64_LOADER_FOUNDATION, BOOT_STAGE_PROCESS_INSTALLED_PROOF,
     BOOT_STAGE_LINUX_SYSCALL_CPU_FOUNDATION, BOOT_STAGE_LINUX_IMAGE_STACK_FOUNDATION,
     BOOT_STAGE_LINUX_INSTALLED_PROOF, BOOT_STAGE_LINUX_UNAME_IMAGE_UTS_FOUNDATION,
     BOOT_STAGE_LINUX_UNAME_INSTALLED_PROOF, BOOT_STAGE_MULTIPROCESS_FOUNDATION, BOOT_STAGE_MULTIPROCESS_PROOF,
     BOOT_STAGE_DRIVER_MATRIX_FOUNDATION, BOOT_STAGE_DRIVER_MATRIX_PROBE, BOOT_STAGE_AUDIO_FOUNDATION,
     BOOT_STAGE_AUDIO_CODEC_PROOF, BOOT_STAGE_NVIDIA_FOUNDATION, BOOT_STAGE_NVIDIA_PROBE, BOOT_STAGE_CLOSING_PROOFS,
     BOOT_STAGE_NETWORK_FOUNDATION, BOOT_STAGE_DESKTOP_CONSTRUCTION, BOOT_STAGE_DESKTOP_ACTIVATION,
     BOOT_STAGE_REDWOOD_INSTALLED_PROOF]"
  using kernel_boot_plan [of execute installed_ledger] unfolding planned_names .

text \<open>C11. A boot completes whenever its required stages succeed: every optional stage may succeed or skip, and all but
  three (the process, Linux and uname proofs, on whose outcome the closing proofs wait) may fail.  Then every
  required stage ran, the receipts name the plan in order and pass the receipt check.\<close>

theorem kernel_boot_completes:
  assumes "\<forall>d \<in> set (installed_stages execute). stage_reports
    [BOOT_STAGE_PROCESS_INSTALLED_PROOF, BOOT_STAGE_LINUX_INSTALLED_PROOF, BOOT_STAGE_LINUX_UNAME_INSTALLED_PROOF] d"
  shows "\<exists>context' ledger'. kernel_boot execute installed_ledger installed_context =
      (BOOT_LEDGER_STATUS_OK, Some context', Some ledger') \<and> executed ledger' \<and>
    map rc_stage_id (receipts ledger') = map fst planned_rows \<and>
    (\<forall>k < length (receipts ledger'). sd_required (planned_stages execute ! k) \<longrightarrow>
       rc_result (receipts ledger' ! k) = BOOT_RECEIPT_RAN) \<and>
    verify_receipt_set ledger' = (BOOT_LEDGER_STATUS_OK, ledger') \<and> boot_ledger_fingerprint_valid (Some ledger')"
  by (rule kernel_boot_done [OF assms])

theorem kernel_boot_completes_witness:
  "\<exists>context' ledger'. kernel_boot sample_callbacks sample_machine_ledger sample_machine_context =
    (BOOT_LEDGER_STATUS_OK, Some context', Some ledger') \<and> executed ledger'"
  using kernel_boot_completes [OF sample_callbacks_report, of sample_machine_ledger sample_machine_context] by blast

text \<open>C12. No proof stage refuses its own installed descriptor: the check of its prerequisites passes and both
  negative controls are refused, so its result is decided by its exit self-test, the scenario and its proof alone.\<close>

theorem proof_stages_accept_their_descriptors:
  assumes d: "d \<in> set (installed_stages execute)" and c: "(sd_id d, complete) \<in> set proof_checks"
  shows "proof_stage complete incomplete_detail controls_detail exit_self_test fixture prove d context result =
    (if \<not> exit_self_test then stage_failed controls_detail context
     else if \<not> fixture context then (context, skip_result d)
     else (case prove context of
         (context, Proof_Absent) \<Rightarrow> (context, skip_result d)
       | (context, Proof_Failed detail) \<Rightarrow> stage_failed detail context
       | (context, Proof_Held first second) \<Rightarrow> (context, (succeed_result d)\<lparr>sr_proof_counters := [first, second]\<rparr>)))"
  using proof_checks_pass [OF assms] by (simp add: proof_stage_def Let_def)

theorem proof_stages_accept_their_descriptors_witness:
  "\<exists>d \<in> set (installed_stages sample_callbacks). sd_id d = BOOT_STAGE_NVIDIA_PROBE \<and>
    execute_nvidia_probe (\<lambda>_. KERNEL_TEST_NONE) (\<lambda>c. (c, Inl '''')) d sample_machine_context fail_result =
      (sample_machine_context, skip_result d)"
proof -
  have "BOOT_STAGE_NVIDIA_PROBE \<in> set (map fst installed_rows)" by (simp add: installed_rows_def stage_ids)
  then have "BOOT_STAGE_NVIDIA_PROBE \<in> set (map fst (map row_of (installed_stages sample_callbacks)))"
    by (simp only: installed_stages_rows)
  then obtain d where d: "d \<in> set (installed_stages sample_callbacks)" "sd_id d = BOOT_STAGE_NVIDIA_PROBE"
    by (auto simp: row_of_def)
  have c: "(sd_id d, nvidia_probe_dependencies_complete) \<in> set proof_checks" by (simp add: d(2) proof_checks_def)
  have "execute_nvidia_probe (\<lambda>_. KERNEL_TEST_NONE) (\<lambda>c. (c, Inl '''')) d sample_machine_context fail_result =
      (sample_machine_context, skip_result d)"
    unfolding execute_nvidia_probe_def proof_stages_accept_their_descriptors [OF d(1) c]
    by (simp add: KERNEL_TEST_NONE_def KERNEL_TEST_NVIDIA_def)
  then show ?thesis using d by blast
qed

end
