(* ===== verification/Spec2Isabelle.thy ===== *)
theory Spec2Isabelle
  imports Physical_Memory_Spec Interrupt_Vector Native_Handle Boot_Ledger_Run Deadline_Timer Kernel_Heap Kernel_Paging Dma
    Thread_Properties Boot_Parse Boot_Plan_Checked
begin

text \<open>
  A verification library for the Sapote kernel: an x86_64 operating-system kernel in C
  (\<open>src/src/kernel\<close>, headers in \<open>src/include/sapote\<close>) that boots through a planned
  sequence of stages, owns physical memory by frame, hands out interrupt vectors and
  per-process handles as generation-checked tokens, serves deadlines from a monotonic clock,
  and schedules kernel threads on stacks it maps itself.

  \<^bold>\<open>How the program is put together.\<close>  The boot ledger (\<open>boot_ledger.c\<close>) is given
  the stage descriptors of \<open>boot_plan.c\<close>, plans them by the capabilities they require and provide, runs them and
  keeps a receipt for each.  The boot loader's information is parsed from memory
  (\<open>multiboot2.c\<close>) and its memory map starts the frame allocator
  (\<open>physical_memory.c\<close>), from which the page tables (\<open>paging.c\<close>), the heap
  (\<open>heap.c\<close>), the DMA buffers (\<open>dma.c\<close>) and the stacks of the kernel threads
  (\<open>thread.c\<close>, with the switch in \<open>thread.S\<close>) take frames; the
  counter and the clock (\<open>tsc.c\<close>, \<open>clock.c\<close>), on which the deadline timers
  (\<open>timer.c\<close>) are built, whose expiry preempts threads; the dynamic interrupt vectors (\<open>interrupt_vector.c\<close>) that
  drivers allocate; and the handle tables (\<open>native_handle.c\<close>) through which processes
  name kernel objects.

  \<^bold>\<open>Theories.\<close>
  \<^item> \<open>Prelude\<close>: 64-bit wrapping arithmetic on naturals, masks, search loops
    (\<open>find_from\<close>), loops with an early return (\<open>fold_until\<close>, \<open>first_some\<close>), counting.
  \<^item> \<open>Page_Source\<close>: the locale of a supplier of frames, with its client lemmas on
    taking and giving back many; interpreted on the frame allocator.
  \<^item> \<open>Physical_Memory\<close>, \<open>Physical_Memory_Init\<close>, \<open>Physical_Memory_Spec\<close>: every function of
    \<open>physical_memory.c\<close> on a record of two bitmaps, the statistics, the search index and
    the contiguous-allocation records; initialization from a memory map; the abstract sets
    of eligible, free and allocated frames that the operations refine; a step relation
    whose reachable states keep the invariant.
  \<^item> \<open>Boot_Information\<close>, \<open>Boot_Parse\<close>: \<open>multiboot2.c\<close> on a memory of bytes; what the
    parser accepts, what it reads, what it reports and what the frame allocator makes of it.
  \<^item> \<open>Token_Table\<close>: the locale of a table that issues and retires tokens, with the
    ledger lemmas on any sequence of calls; interpreted on the two tables below.
  \<^item> \<open>Interrupt_Vector\<close>: every function of \<open>interrupt_vector.c\<close>, the self-test included.
  \<^item> \<open>Native_Handle\<close>: every function of \<open>native_handle.c\<close>, the self-test included, refined
    to a map from handles to objects and rights.
  \<^item> \<open>Boot_Ledger\<close>: registration, the validation passes, planning, execution, receipts,
    fingerprints and the receipt check of \<open>boot_ledger.c\<close>.  \<open>Boot_Ledger_Plan\<close>
    characterises what validation accepts and the plan it computes;
    \<open>Boot_Ledger_Run\<close> shows what execution leaves.
  \<^item> \<open>Boot_Plan\<close>: the plan of \<open>boot_plan.c\<close>, its 57 stages with what each requires and provides,
    the proof stages' contract checks, the self-test, and the boot of \<open>kernel.c\<close>.
    \<open>Boot_Plan_Checked\<close> checks that plan by its rows: a one-pass check of the planned order
    certifies what the planning loop computes.
  \<^item> \<open>Monotonic_Clock\<close>: \<open>tsc.c\<close> and \<open>clock.c\<close>, with the locale of a monotonic source,
    interpreted on the clock.
  \<^item> \<open>Deadline_Timer\<close>: \<open>timer.c\<close> over an environment for the APIC timer, the clock, the
    heap and the interrupt flag.

  \<^item> \<open>Page_Tables\<close>: the definitions of \<open>paging.c\<close> on a machine that is a map from
    table addresses to 512 entries, together with the frame allocator: walking, mapping,
    unmapping, protecting, translating, auditing.  \<open>Page_Tables_Walk\<close>: the tree invariant
    of a hierarchy and what linking, releasing and reclaiming tables does to translations.
    \<open>Page_Tables_Ranges\<close>: the range operations on a hierarchy.  \<open>Kernel_Paging\<close>: the
    public calls with the list of supervisor mappings replayed into process hierarchies.
  \<^item> \<open>Region_Store\<close>: the locale of an allocator of address ranges; interpreted on the heap.
  \<^item> \<open>Kernel_Heap\<close>: \<open>heap.c\<close> over the modelled frame allocator, with the page tables a
    parameter.
  \<^item> \<open>Paging_Frames\<close>, \<open>Owned_Pages\<close>: the contract between the page tables and their
    clients: which frames are tables, which are held by others, and what mapping a frame of
    one's own and giving it back changes.
  \<^item> \<open>Dma\<close>: \<open>dma.c\<close> over the frame allocator and the page tables.
  \<^item> \<open>Kernel_Thread\<close>: the definitions of \<open>thread.c\<close> and of the switch, on a record of the
    file-scope variables, the saved registers, the words of the stacks and the paging state.
    \<open>Thread_Schedule\<close>: the rotation, the switch as one update, the invariant of the table.
    \<open>Thread_Steps\<close>: the step relation, what a thread off the processor keeps and how long
    it waits.  \<open>Thread_Stacks\<close>: the stacks in the page tables.  \<open>Thread_Properties\<close>: what
    the threads promise, with a sample machine.

  \<^bold>\<open>Correspondence.\<close>  File-scope variables are the fields of a record; a C function is
  a definition of the same name that returns the status, the values written through
  pointers and the new state.  A pointer that may be null is an option.  An unsigned 64-bit
  value is a natural number with wrapping operators, or a word where its bits matter.
  Statuses are datatypes with the source's constructors, tested in the source's order.
  An array with a count is the list of its first elements.  What the hardware or an
  unmodelled part delivers is an argument.

  \<^bold>\<open>What is shown.\<close>  For the frame allocator: an invariant of all reachable states, the
  result of each operation on every branch, round trips, and that initialization frees
  exactly the usable frames that are not reserved.  For the boot information: exactly which
  memories are accepted, that nothing outside the declared bytes is read, and that every
  accepted memory map starts the frame allocator.  For the token tables: lowest idle slot,
  at most one accepted release of a token, stale tokens refused until the generation
  counter has gone round, and the object and reference accounting of handles.  For the boot
  ledger: validation accepts exactly the well-formed plans without a deadlocked set of
  stages, the plan is a topological order that does not depend on the order of
  registration, and a completed execution passes the independent receipt check.  For the plan the
  kernel boots with: it is accepted and runs in the order written out, and a boot completes
  whenever its required stages succeed, whichever optional ones skip.  For time:
  exact conversion without overflow, readings that never decrease, expiry that takes the least
  reached deadline at every firing whatever the callbacks do to the table, and that terminates
  and fires in deadline order under stated conditions on them, arming and cancelling, and sleeps
  that return.  For the heap:
  the blocks always tile the committed window, an allocation adds one block apart from all
  others that stays its owner's until freed, a free takes exactly a live block's base, and
  one refusal leaves statistics that \<open>heap_verify\<close> rejects.  For paging: a mapping
  translates as asked, a refusal changes no translation, unmapping and protecting touch only
  their range, and no sequence of calls makes an address both writable and executable.  For DMA:
  buffers are runs of their own, handed between processor and device by live handles only, as
  long as no live handle is allocated again or overwritten, which the code does not guard
  against and which \<open>dma_reallocate_orphans_buffer\<close> shows to lose the buffer; a device's
  buffer is safe from whatever is done to other handles.  For
  threads: a thread that yields comes back with registers, flags and stack as they were; a
  ready one waits at most six switches; an exited one never runs again; the table stays well
  formed and \<open>thread_verify\<close> accepts along every path; creating and stopping map and
  unmap whole stacks and nothing else, and stopping does so even when the heap refuses to take
  the thread table back.

  \<^bold>\<open>Bounds and termination.\<close>  Loops over arrays are structural.  The search and planning
  loops have a measure.  Two loops of the timers have no bound of their own, since callbacks
  may arm again and sleeps wait for the hardware; they are partial functions into the
  option type, and their return is proved: expiry returns when callbacks add no deadline
  already reached, which arming itself never does, and a sleep returns when the clock
  advances across halts.  The loop of \<open>thread_join\<close> is its test and the yields between.

  \<^bold>\<open>Not modelled.\<close>  What the boot stages do to the machine is a parameter of the plan: of their
  callbacks only the proof stages' contract is modelled, without its console output.  Of \<open>paging.c\<close>: the installation of a hierarchy on the live
  processor, the device windows and process spaces.  Processes, storage and the network would
  come next.  Interrupt controllers, hardware timers, PCI and the
  device drivers program registers whose behaviour is not in the sources.  Of the ledger,
  \<open>boot_ledger_verify_installed\<close> beyond the receipt check reads the state of those parts,
  and the name tables and self-test are left out; of the timers, the heap, DMA and the threads, the self-tests;
  of the threads also the call the trampoline makes.  The stack of the boot thread and what a
  running thread writes are constrained only to stay within its own stack, and the heap that serves
  the thread table is a service that leaves the page tables of the model alone.  User
  interface, ports, applications, assembly and Rust are outside the library.
\<close>

end
